(* ===== verification/Prelude.thy ===== *)
theory Prelude
  imports Main "HOL-Library.Multiset" "HOL-Library.Char_ord" "HOL-Library.List_Lexorder" "HOL-Library.Product_Lexorder"
begin

text \<open>
  What every component shares: the theorem collections of the development, Rust's decimal
  formatting of integers, the byte order of strings, the JSON values that rows and frames carry,
  and generic facts on lists and options.
  Rust's \<open>String\<close> is a byte string here (\<open>string\<close>, a list of 8-bit characters), compared
  lexicographically as Rust compares \<open>str\<close>.
\<close>

named_theorems bt_simps \<open>lookup laws of ordered maps\<close>
named_theorems bt_wf_intros \<open>operations keep the key order of an ordered map\<close>

section \<open>JSON values\<close>

text \<open>
  The data carried by rows and frame headers: the variants of \<open>serde_json::Value\<close>. The sources
  store only integral numbers, so a number is an integer.
\<close>

datatype json =
    JNull
  | JBool bool
  | JNum int
  | JStr string
  | JArr "json list"
  | JObj "(string \<times> json) list"

fun is_null :: "json \<Rightarrow> bool" where
  "is_null JNull = True"
| "is_null _ = False"

text \<open>The UTF-8 bytes of the dash that some messages carry.\<close>

definition em_dash :: string where
  "em_dash = [CHR 0xE2, CHR 0x80, CHR 0x94]"

section \<open>Decimal formatting\<close>

definition digit_char :: "nat \<Rightarrow> char" where
  "digit_char d = char_of (48 + d)"

fun show_nat :: "nat \<Rightarrow> string" where
  "show_nat n = (if n < 10 then [digit_char n] else show_nat (n div 10) @ [digit_char (n mod 10)])"

declare show_nat.simps [simp del]

text \<open>\<open>{:0w}\<close> on an unsigned integer: left padded with zeros to width \<open>w\<close>, never truncated.\<close>

definition pad_nat :: "nat \<Rightarrow> nat \<Rightarrow> string" where
  "pad_nat w n = replicate (w - length (show_nat n)) (CHR ''0'') @ show_nat n"

text \<open>\<open>{:0w}\<close> on a signed integer: the sign counts towards the width and stands before the zeros.\<close>

definition pad_int :: "nat \<Rightarrow> int \<Rightarrow> string" where
  "pad_int w i = (if i < 0 then CHR ''-'' # pad_nat (w - 1) (nat (- i)) else pad_nat w (nat i))"

text \<open>The last \<open>w\<close> digits of a number: what the padded form is as long as the number fits.\<close>

fun dec :: "nat \<Rightarrow> nat \<Rightarrow> string" where
  "dec 0 n = []"
| "dec (Suc w) n = dec w (n div 10) @ [digit_char (n mod 10)]"

lemma length_dec [simp]: "length (dec w n) = w"
  by (induction w arbitrary: n) auto

lemma of_char_digit: "d < 10 \<Longrightarrow> of_char (digit_char d) = (48 + d :: nat)"
  by (simp add: digit_char_def)

lemma digit_char_less: "a < 10 \<Longrightarrow> b < 10 \<Longrightarrow> digit_char a < digit_char b \<longleftrightarrow> a < b"
  by (simp add: less_char_def of_char_digit)

lemma digit_char_inj: "a < 10 \<Longrightarrow> b < 10 \<Longrightarrow> digit_char a = digit_char b \<longleftrightarrow> a = b"
  by (metis add_left_cancel of_char_digit)

lemma dec_zero: "dec w 0 = replicate w (CHR ''0'')"
proof (induction w)
  case (Suc w)
  have "digit_char 0 = CHR ''0''" by code_simp
  with Suc show ?case by (simp add: replicate_append_same)
qed simp

lemma show_nat_not_Nil [simp]: "show_nat n \<noteq> []"
  by (subst show_nat.simps) simp

lemma dec_show:
  "n < 10 ^ w \<Longrightarrow> 0 < w \<Longrightarrow>
   length (show_nat n) \<le> w \<and> dec w n = replicate (w - length (show_nat n)) (CHR ''0'') @ show_nat n"
proof (induction w arbitrary: n)
  case (Suc w)
  show ?case
  proof (cases "n < 10")
    case True
    then show ?thesis by (simp add: show_nat.simps [of n] dec_zero)
  next
    case False
    with Suc.prems have w: "0 < w" by (cases w) auto
    have "n div 10 < 10 ^ w" using Suc.prems by (simp add: less_mult_imp_div_less mult.commute)
    with Suc.IH w have
      "length (show_nat (n div 10)) \<le> w"
      "dec w (n div 10) = replicate (w - length (show_nat (n div 10))) (CHR ''0'') @ show_nat (n div 10)"
      by blast+
    with False show ?thesis by (simp add: show_nat.simps [of n])
  qed
qed simp

lemma pad_nat_dec: "n < 10 ^ w \<Longrightarrow> 0 < w \<Longrightarrow> pad_nat w n = dec w n"
  by (simp add: pad_nat_def dec_show)

section \<open>The byte order of strings\<close>

text \<open>Two strings that start with equally long prefixes compare by the prefixes first.\<close>

lemma append_less_iff:
  fixes a b x y :: "'a::linorder list"
  assumes "length a = length b"
  shows "a @ x < b @ y \<longleftrightarrow> a < b \<or> a = b \<and> x < y"
  using assms by (induction a b rule: list_induct2) auto

lemma dec_less: "a < 10 ^ w \<Longrightarrow> b < 10 ^ w \<Longrightarrow> dec w a < dec w b \<longleftrightarrow> a < b"
proof (induction w arbitrary: a b)
  case (Suc w)
  have ab: "a div 10 < 10 ^ w" "b div 10 < 10 ^ w"
    using Suc.prems by (simp_all add: less_mult_imp_div_less mult.commute)
  have eq: "dec w (a div 10) = dec w (b div 10) \<longleftrightarrow> a div 10 = b div 10"
    using Suc.IH [OF ab] Suc.IH [OF ab(2,1)] by (metis linorder_neqE_nat order_less_irrefl)
  have "a < b \<longleftrightarrow> a div 10 < b div 10 \<or> a div 10 = b div 10 \<and> a mod 10 < b mod 10"
    using div_mult_mod_eq [of a 10] div_mult_mod_eq [of b 10]
      mod_less_divisor [of 10 a] mod_less_divisor [of 10 b] by linarith
  with Suc.IH [OF ab] eq show ?case by (simp add: append_less_iff digit_char_less)
qed simp

lemma dec_inj: "a < 10 ^ w \<Longrightarrow> b < 10 ^ w \<Longrightarrow> dec w a = dec w b \<longleftrightarrow> a = b"
  by (metis dec_less linorder_neqE_nat order_less_irrefl)

section \<open>Options and lists\<close>

text \<open>A clock compared with an absent one: absent is older than every clock.\<close>

definition opt_le :: "'a::linorder option \<Rightarrow> 'a option \<Rightarrow> bool" where
  "opt_le a b = (case a of None \<Rightarrow> True | Some x \<Rightarrow> (case b of None \<Rightarrow> False | Some y \<Rightarrow> x \<le> y))"

lemma opt_le_refl [simp]: "opt_le a a"
  by (simp add: opt_le_def split: option.split)

lemma opt_le_None [simp]: "opt_le None a"
  by (simp add: opt_le_def)

lemma opt_le_Some [simp]: "opt_le (Some x) (Some y) \<longleftrightarrow> x \<le> y"
  by (simp add: opt_le_def)

lemma opt_le_Some_None [simp]: "\<not> opt_le (Some x) None"
  by (simp add: opt_le_def)

lemma opt_le_trans: "opt_le a b \<Longrightarrow> opt_le b c \<Longrightarrow> opt_le a c"
  by (auto simp: opt_le_def split: option.splits)

lemma opt_le_total: "opt_le a b \<or> opt_le b a"
  by (auto simp: opt_le_def split: option.splits)

text \<open>Rust's stable \<open>sort_by\<close>: insertion sort by a key, keeping the order of equal keys.\<close>

lemma sort_key_unique:
  assumes "mset xs = mset ys" "inj_on f (set xs)"
  shows "sort_key f xs = sort_key f ys"
proof (rule properties_for_sort_key)
  show "mset (sort_key f ys) = mset xs" using assms by simp
  show "sorted (map f (sort_key f ys))" by simp
  fix k
  assume "k \<in> set (sort_key f ys)"
  then have k: "k \<in> set xs" using mset_eq_setD [OF assms(1)] by simp
  have rep: "filter (\<lambda>x. f k = f x) zs = replicate (count_list zs k) k" if "set zs = set xs" for zs
  proof -
    have "\<And>x. x \<in> set zs \<Longrightarrow> f k = f x \<longleftrightarrow> x = k"
      using assms(2) k that by (auto dest: inj_onD)
    then have "filter (\<lambda>x. f k = f x) zs = filter (\<lambda>x. x = k) zs" by (simp cong: filter_cong)
    also have "\<dots> = replicate (count_list zs k) k"
      by (induction zs) auto
    finally show ?thesis .
  qed
  have "count_list (sort_key f ys) k = count_list xs k"
    using assms(1) by (metis count_mset mset_sort)
  then show "filter (\<lambda>x. f k = f x) (sort_key f ys) = filter (\<lambda>x. f k = f x) xs"
    using rep [of "sort_key f ys"] rep [of xs] mset_eq_setD [OF assms(1)] by simp
qed

end
