(* ===== verification/Ordered_Map.thy ===== *)
theory Ordered_Map
  imports Prelude
begin

text \<open>
  Rust's \<open>BTreeMap\<close> (and \<open>HashMap\<close> where only lookup matters): an association list kept in strictly
  increasing key order. Iteration is by key, as \<open>BTreeMap\<close> iterates, and two maps with the same
  entries are the same list, so map equality is equality. The interface the components rely on is
  the locale \<open>ordered_map\<close>, interpreted on these operations at the end.
\<close>

type_synonym ('k, 'v) btree = "('k \<times> 'v) list"

section \<open>Operations\<close>

definition bt_get :: "('k, 'v) btree \<Rightarrow> 'k \<Rightarrow> 'v option" where
  "bt_get m k = map_of m k"

fun bt_insert :: "'k::linorder \<Rightarrow> 'v \<Rightarrow> ('k, 'v) btree \<Rightarrow> ('k, 'v) btree" where
  "bt_insert k v [] = [(k, v)]"
| "bt_insert k v ((k', v') # m) =
     (if k < k' then (k, v) # (k', v') # m
      else if k = k' then (k, v) # m
      else (k', v') # bt_insert k v m)"

definition bt_remove :: "'k \<Rightarrow> ('k, 'v) btree \<Rightarrow> ('k, 'v) btree" where
  "bt_remove k m = filter (\<lambda>p. fst p \<noteq> k) m"

definition bt_contains :: "('k, 'v) btree \<Rightarrow> 'k \<Rightarrow> bool" where
  "bt_contains m k = (bt_get m k \<noteq> None)"

definition bt_values :: "('k, 'v) btree \<Rightarrow> 'v list" where
  "bt_values m = map snd m"

definition bt_keys :: "('k, 'v) btree \<Rightarrow> 'k list" where
  "bt_keys m = map fst m"

text \<open>\<open>into_iter().collect()\<close>: later entries for a key win.\<close>

definition bt_of_list :: "('k::linorder \<times> 'v) list \<Rightarrow> ('k, 'v) btree" where
  "bt_of_list ps = fold (\<lambda>(k, v). bt_insert k v) ps []"

definition bt_wf :: "('k::linorder, 'v) btree \<Rightarrow> bool" where
  "bt_wf m = sorted_wrt (<) (map fst m)"

section \<open>Laws\<close>

lemma bt_get_Nil [simp, bt_simps]: "bt_get [] k = None"
  by (simp add: bt_get_def)

lemma bt_get_Cons: "bt_get ((a, b) # m) k = (if k = a then Some b else bt_get m k)"
  by (simp add: bt_get_def)

lemma bt_wf_Nil [simp, bt_wf_intros]: "bt_wf []"
  by (simp add: bt_wf_def)

lemma bt_get_insert [simp, bt_simps]:
  "bt_get (bt_insert k v m) k' = (if k' = k then Some v else bt_get m k')"
  by (induction k v m rule: bt_insert.induct) (auto simp: bt_get_def)

lemma bt_get_remove [simp, bt_simps]:
  "bt_get (bt_remove k m) k' = (if k' = k then None else bt_get m k')"
  by (induction m) (auto simp: bt_get_def bt_remove_def)

lemma keys_insert: "fst ` set (bt_insert k v m) = insert k (fst ` set m)"
  by (induction k v m rule: bt_insert.induct) auto

lemma bt_wf_insert [simp, bt_wf_intros]: "bt_wf m \<Longrightarrow> bt_wf (bt_insert k v m)"
proof (induction k v m rule: bt_insert.induct)
  case (2 k v k' v' m)
  from 2(2) have wf: "bt_wf m" and lt: "\<forall>x \<in> fst ` set m. k' < x"
    by (auto simp: bt_wf_def)
  show ?case
  proof (cases k k' rule: linorder_cases)
    case greater
    then have "bt_wf (bt_insert k v m)" using 2(1) wf by auto
    moreover have "\<forall>x \<in> fst ` set (bt_insert k v m). k' < x"
      using lt greater by (auto simp: keys_insert)
    ultimately show ?thesis using greater by (auto simp: bt_wf_def)
  qed (use lt wf in \<open>force simp: bt_wf_def\<close>)+
qed (simp add: bt_wf_def)

lemma bt_wf_remove [simp, bt_wf_intros]: "bt_wf m \<Longrightarrow> bt_wf (bt_remove k m)"
  by (induction m) (auto simp: bt_wf_def bt_remove_def)

lemma bt_wf_of_list [simp, bt_wf_intros]: "bt_wf (bt_of_list ps)"
proof -
  have "bt_wf m \<Longrightarrow> bt_wf (fold (\<lambda>(k, v). bt_insert k v) ps m)" for m :: "('a, 'b) btree"
    by (induction ps arbitrary: m) (auto split: prod.splits)
  then show ?thesis by (simp add: bt_of_list_def)
qed

lemma bt_get_of_list: "bt_get (bt_of_list ps) k = map_of (rev ps) k"
proof -
  have "bt_get (fold (\<lambda>(k, v). bt_insert k v) ps m) k =
      (case map_of (rev ps) k of None \<Rightarrow> bt_get m k | Some v \<Rightarrow> Some v)" for m
    by (induction ps arbitrary: m) (auto split: option.splits simp: map_add_Some_iff)
  from this [of "[]"] show ?thesis by (simp add: bt_of_list_def split: option.splits)
qed

lemma bt_wf_ConsD: "bt_wf (p # m) \<Longrightarrow> bt_wf m \<and> (\<forall>q \<in> set m. fst p < fst q)"
  by (auto simp: bt_wf_def)

lemma bt_get_notin: "k \<notin> fst ` set m \<Longrightarrow> bt_get m k = None"
  by (simp add: bt_get_def map_of_eq_None_iff)

lemma bt_get_keys: "k \<in> fst ` set m \<longleftrightarrow> bt_get m k \<noteq> None"
  by (simp add: bt_get_def map_of_eq_None_iff)

lemma bt_wf_distinct: "bt_wf m \<Longrightarrow> distinct (map fst m)"
  using strict_sorted_iff by (auto simp: bt_wf_def)

lemma bt_get_mem: "bt_wf m \<Longrightarrow> (k, v) \<in> set m \<longleftrightarrow> bt_get m k = Some v"
  by (simp add: bt_get_def bt_wf_distinct)

lemma bt_get_SomeD: "bt_get m k = Some v \<Longrightarrow> (k, v) \<in> set m"
  by (simp add: bt_get_def map_of_SomeD)

text \<open>Two ordered maps with the same lookups are the same list.\<close>

lemma bt_ext:
  assumes "bt_wf m" "bt_wf m'" "\<And>k. bt_get m k = bt_get m' k"
  shows "m = m'"
  using assms
proof (induction m arbitrary: m')
  case Nil
  then have "k \<notin> fst ` set m'" for k unfolding bt_get_keys by (simp flip: Nil.prems(3))
  then show ?case by (cases m') auto
next
  case (Cons p m)
  have "fst p \<in> fst ` set m'" 
    unfolding bt_get_keys Cons.prems(3) [symmetric] by (simp add: bt_get_def)
  then obtain q n where m': "m' = q # n" by (cases m') auto
  note wf = bt_wf_ConsD [OF Cons.prems(1)] bt_wf_ConsD [OF Cons.prems(2) [unfolded m']]
  have get: "bt_get (p # m) k = bt_get (q # n) k" for k using Cons.prems(3) m' by simp
  have "fst q \<in> fst ` set (p # m)" "fst p \<in> fst ` set (q # n)"
    unfolding bt_get_keys using get [of "fst q"] get [of "fst p"]
    by (auto simp: bt_get_def eq_commute [of "Some _"] split: if_splits)
  with wf have key: "fst p = fst q" by force
  have val: "snd p = snd q" using get [of "fst p"] key by (simp add: bt_get_def)
  have "bt_get m k = bt_get n k" for k
  proof (cases "k = fst p")
    case True
    with wf key have "k \<notin> fst ` set m" "k \<notin> fst ` set n" by auto
    then show ?thesis by (simp add: bt_get_notin)
  next
    case False
    with get [of k] key show ?thesis by (simp add: bt_get_def)
  qed
  with Cons.IH wf have "m = n" by blast
  with key val m' show ?case by (simp add: prod_eq_iff)
qed

lemma bt_insert_same: "bt_wf m \<Longrightarrow> bt_get m k = Some v \<Longrightarrow> bt_insert k v m = m"
  by (rule bt_ext) auto

lemma bt_remove_absent: "bt_get m k = None \<Longrightarrow> bt_remove k m = m"
  unfolding bt_remove_def by (rule filter_True) (auto simp: bt_get_def map_of_eq_None_iff)

lemma find_append:
  "find P (xs @ ys) = (case find P xs of None \<Rightarrow> find P ys | Some y \<Rightarrow> Some y)"
  by (induction xs) auto

lemma find_SomeD: "find P xs = Some x \<Longrightarrow> x \<in> set xs \<and> P x"
  by (induction xs) (auto split: if_splits)

section \<open>The interface\<close>

locale ordered_map =
  fixes emp :: "'m"
    and ins :: "'k::linorder \<Rightarrow> 'v \<Rightarrow> 'm \<Rightarrow> 'm"
    and del :: "'k \<Rightarrow> 'm \<Rightarrow> 'm"
    and get :: "'m \<Rightarrow> 'k \<Rightarrow> 'v option"
    and inv :: "'m \<Rightarrow> bool"
  assumes get_emp: "get emp k = None"
    and get_ins: "inv m \<Longrightarrow> get (ins k v m) k' = (if k' = k then Some v else get m k')"
    and get_del: "inv m \<Longrightarrow> get (del k m) k' = (if k' = k then None else get m k')"
    and inv_emp: "inv emp"
    and inv_ins: "inv m \<Longrightarrow> inv (ins k v m)"
    and inv_del: "inv m \<Longrightarrow> inv (del k m)"
    and get_ext: "inv m \<Longrightarrow> inv m' \<Longrightarrow> (\<And>k. get m k = get m' k) \<Longrightarrow> m = m'"
begin

text \<open>What the clients use: writes to different keys commute, a write absorbs an earlier one.\<close>

lemma ins_commute: "inv m \<Longrightarrow> k \<noteq> k' \<Longrightarrow> ins k v (ins k' v' m) = ins k' v' (ins k v m)"
  by (rule get_ext) (auto simp: get_ins inv_ins)

lemma ins_absorb: "inv m \<Longrightarrow> ins k v (ins k v' m) = ins k v m"
  by (rule get_ext) (auto simp: get_ins inv_ins)

lemma del_ins: "inv m \<Longrightarrow> del k (ins k v m) = del k m"
  by (rule get_ext) (auto simp: get_ins get_del inv_ins inv_del)

lemma inv_fold_ins: "inv m \<Longrightarrow> inv (fold (\<lambda>x. ins (f x) (g x)) xs m)"
  by (induction xs arbitrary: m) (auto simp: inv_ins)

lemma get_fold_ins:
  "inv m \<Longrightarrow> get (fold (\<lambda>x. ins (f x) (g x)) xs m) k =
     (case find (\<lambda>x. f x = k) (rev xs) of None \<Rightarrow> get m k | Some x \<Rightarrow> Some (g x))"
proof (induction xs arbitrary: m)
  case (Cons x xs)
  have "find (\<lambda>x. f x = k) (rev xs @ [x]) =
      (case find (\<lambda>x. f x = k) (rev xs) of None \<Rightarrow> (if f x = k then Some x else None) | Some y \<Rightarrow> Some y)"
    by (simp add: find_append split: option.splits)
  then show ?case
    using Cons.IH [OF inv_ins [OF Cons.prems]] Cons.prems
    by (auto simp: get_ins split: option.splits)
qed (simp add: get_emp)

end

interpretation bt: ordered_map "[]" bt_insert bt_remove bt_get bt_wf
  by unfold_locales (auto intro: bt_ext)

end
