(* ===== verification/Hlc.thy ===== *)
theory Hlc
  imports Prelude
begin

text \<open>
  The hybrid logical clock of the workspace registry (\<open>crates/doc/src/registry.rs\<close>): the encoding
  of a clock as a string and the monotonic source of clocks a device stamps its writes with.
  Times are milliseconds in an \<open>i64\<close>; a clock fits its 13 digits up to the year 2286, which is the
  bound the order theorems carry.
\<close>

section \<open>Definitions\<close>

definition encode_hlc :: "int \<Rightarrow> nat \<Rightarrow> string \<Rightarrow> string" where
  "encode_hlc ms counter device = pad_int 13 ms @ ''-'' @ pad_nat 6 counter @ ''-'' @ device"

definition hlc_newer :: "string \<Rightarrow> string option \<Rightarrow> bool" where
  "hlc_newer a b = (case b of None \<Rightarrow> True | Some b \<Rightarrow> b < a)"

record hlc_clock =
  last_ms :: int
  counter :: nat

definition hlc_clock_default :: hlc_clock where
  "hlc_clock_default = \<lparr>last_ms = 0, counter = 0\<rparr>"

definition hlc_next :: "hlc_clock \<Rightarrow> int \<Rightarrow> string \<Rightarrow> hlc_clock \<times> string" where
  "hlc_next c now_ms device =
     (let c = (if last_ms c < now_ms then c\<lparr>last_ms := now_ms, counter := 0\<rparr>
               else let c = c\<lparr>counter := counter c + 1\<rparr>
                    in if 999999 < counter c then c\<lparr>last_ms := last_ms c + 1, counter := 0\<rparr> else c)
      in (c, encode_hlc (last_ms c) (counter c) device))"

text \<open>The clocks a device emits for a sequence of wall-clock readings.\<close>

fun hlc_run :: "hlc_clock \<Rightarrow> int list \<Rightarrow> string \<Rightarrow> string list" where
  "hlc_run c [] device = []"
| "hlc_run c (now # nows) device =
     (let (c', s) = hlc_next c now device in s # hlc_run c' nows device)"

fun hlc_after :: "hlc_clock \<Rightarrow> int list \<Rightarrow> string \<Rightarrow> hlc_clock" where
  "hlc_after c [] device = c"
| "hlc_after c (now # nows) device = hlc_after (fst (hlc_next c now device)) nows device"

section \<open>The state of the clock\<close>

definition clock_ok :: "hlc_clock \<Rightarrow> bool" where
  "clock_ok c = (0 \<le> last_ms c \<and> counter c \<le> 999999)"

lemma clock_ok_default [simp]: "clock_ok hlc_clock_default"
  by (simp add: clock_ok_def hlc_clock_default_def)

lemma clock_ok_next: "clock_ok c \<Longrightarrow> clock_ok (fst (hlc_next c now device))"
  by (auto simp: clock_ok_def hlc_next_def Let_def)

lemma hlc_next_encoded:
  "snd (hlc_next c now device) =
     encode_hlc (last_ms (fst (hlc_next c now device))) (counter (fst (hlc_next c now device))) device"
  by (simp add: hlc_next_def Let_def)

text \<open>The pair of the clock grows strictly at every tick, whatever the wall clock says.\<close>

lemma hlc_next_grows:
  "(last_ms c, counter c) < (last_ms (fst (hlc_next c now device)), counter (fst (hlc_next c now device)))"
  by (auto simp: hlc_next_def Let_def)

section \<open>The order of encoded clocks\<close>

lemma pad_int_dec: "0 \<le> ms \<Longrightarrow> ms < 10 ^ 13 \<Longrightarrow> pad_int 13 ms = dec 13 (nat ms)"
  by (simp add: pad_int_def pad_nat_dec nat_less_iff)

lemma pad_counter: "c \<le> 999999 \<Longrightarrow> pad_nat 6 c = dec 6 c"
  by (simp add: pad_nat_dec)

lemma encode_hlc_less_iff:
  assumes "0 \<le> m" "m < 10 ^ 13" "0 \<le> m'" "m' < 10 ^ 13" "c \<le> 999999" "c' \<le> 999999"
  shows "encode_hlc m c d < encode_hlc m' c' d' \<longleftrightarrow> (m, c, d) < (m', c', d')"
proof -
  have 13: "nat m < 10 ^ 13" "nat m' < 10 ^ 13" using assms by (simp_all add: nat_less_iff)
  have 6: "c < 10 ^ 6" "c' < 10 ^ 6" using assms by simp_all
  have "encode_hlc m c d < encode_hlc m' c' d' \<longleftrightarrow>
      dec 13 (nat m) < dec 13 (nat m') \<or>
      dec 13 (nat m) = dec 13 (nat m') \<and> (dec 6 c < dec 6 c' \<or> dec 6 c = dec 6 c' \<and> d < d')"
    using assms by (simp add: encode_hlc_def pad_int_dec pad_counter append_less_iff del: dec.simps)
  also have "\<dots> \<longleftrightarrow> (m, c, d) < (m', c', d')"
    using assms by (auto simp: dec_less [OF 13] dec_inj [OF 13] dec_less [OF 6] dec_inj [OF 6]
        simp del: dec.simps)
  finally show ?thesis .
qed

lemma encode_hlc_inj:
  assumes "0 \<le> m" "m < 10 ^ 13" "0 \<le> m'" "m' < 10 ^ 13" "c \<le> 999999" "c' \<le> 999999"
  shows "encode_hlc m c d = encode_hlc m' c' d' \<longleftrightarrow> (m, c, d) = (m', c', d')"
  using encode_hlc_less_iff [OF assms, of d d'] encode_hlc_less_iff [OF assms(3,4,1,2,6,5), of d' d]
  by (metis less_irrefl not_less_iff_gr_or_eq)

section \<open>Runs of the clock\<close>

lemma last_ms_mono: "last_ms c \<le> last_ms (fst (hlc_next c now device))"
  using hlc_next_grows [of c now device] by auto

lemma last_ms_after: "last_ms c \<le> last_ms (hlc_after c nows device)"
  by (induction nows arbitrary: c) (auto intro: order_trans [OF last_ms_mono])

lemma hlc_run_above:
  assumes "clock_ok c" "last_ms (hlc_after c nows device) < 10 ^ 13" "s \<in> set (hlc_run c nows device)"
  shows "encode_hlc (last_ms c) (counter c) device < s"
  using assms
proof (induction nows arbitrary: c)
  case (Cons now nows)
  define c' where "c' = fst (hlc_next c now device)"
  have ok: "clock_ok c'" using Cons.prems(1) by (simp add: c'_def clock_ok_next)
  have top: "last_ms c' < 10 ^ 13"
    using Cons.prems(2) last_ms_after [of c' nows device] by (simp add: c'_def)
  have grow: "(last_ms c, counter c) < (last_ms c', counter c')"
    unfolding c'_def by (rule hlc_next_grows)
  then have step: "encode_hlc (last_ms c) (counter c) device < encode_hlc (last_ms c') (counter c') device"
    using ok top Cons.prems(1) last_ms_mono [of c now device]
    by (subst encode_hlc_less_iff) (auto simp: clock_ok_def c'_def)
  from Cons.prems(3) have "s = encode_hlc (last_ms c') (counter c') device \<or> s \<in> set (hlc_run c' nows device)"
    by (auto simp: c'_def case_prod_beta Let_def hlc_next_encoded)
  then show ?case
  proof
    assume "s \<in> set (hlc_run c' nows device)"
    then have "encode_hlc (last_ms c') (counter c') device < s"
      using Cons.IH ok Cons.prems(2) by (simp add: c'_def)
    with step show ?thesis by (rule less_trans)
  qed (simp add: step)
qed simp

text \<open>
  C27. A device's clock source never emits the same or an earlier clock twice: for any sequence of
  wall-clock readings, regressions and repeats included, the encoded clocks are strictly
  increasing as strings.
\<close>

theorem hlc_run_strictly_increasing:
  assumes "clock_ok c" "last_ms (hlc_after c nows device) < 10 ^ 13"
  shows "sorted_wrt (<) (hlc_run c nows device)"
  using assms
proof (induction nows arbitrary: c)
  case (Cons now nows)
  define c' where "c' = fst (hlc_next c now device)"
  have "clock_ok c'" using Cons.prems(1) by (simp add: c'_def clock_ok_next)
  moreover have "last_ms (hlc_after c' nows device) < 10 ^ 13" using Cons.prems(2) by (simp add: c'_def)
  ultimately show ?case
    using Cons.IH hlc_run_above by (auto simp: c'_def case_prod_beta Let_def hlc_next_encoded)
qed simp

theorem hlc_run_strictly_increasing_witness:
  "sorted_wrt (<) (hlc_run hlc_clock_default [5, 5, 3, 9] ''dev'')"
  by (rule hlc_run_strictly_increasing)
     (simp_all add: hlc_next_def hlc_clock_default_def Let_def clock_ok_def)

text \<open>
  The string order of encoded clocks is the order of the triples (milliseconds, counter,
  device): comparing clocks as strings, as every merge does, compares time first, then the counter,
  then the device name, and two devices never tie.
\<close>

theorem encode_hlc_order:
  assumes "0 \<le> m" "m < 10 ^ 13" "0 \<le> m'" "m' < 10 ^ 13" "c \<le> 999999" "c' \<le> 999999"
  shows "(encode_hlc m c d < encode_hlc m' c' d' \<longleftrightarrow>
            m < m' \<or> m = m' \<and> (c < c' \<or> c = c' \<and> d < d')) \<and>
         (encode_hlc m c d = encode_hlc m' c' d' \<longleftrightarrow> m = m' \<and> c = c' \<and> d = d')"
  unfolding encode_hlc_less_iff [OF assms] encode_hlc_inj [OF assms] by auto

theorem encode_hlc_order_witness:
  "encode_hlc 5 7 ''b'' < encode_hlc 12 0 ''a'' \<and> encode_hlc 5 7 ''a'' \<noteq> encode_hlc 5 7 ''b''"
  using encode_hlc_order [of 5 12 7 0 "''b''" "''a''"] encode_hlc_order [of 5 5 7 7 "''a''" "''b''"]
  by simp

end
