(* ===== verification/Registry_Row.thy ===== *)
theory Registry_Row
  imports Ordered_Map Hlc
begin

text \<open>
  Rows of the workspace registry and the merge of one operation into a row
  (\<open>crates/doc/src/registry.rs\<close>): per-field last-writer-wins under hybrid logical clocks, tombstones
  that beat older writes, and the re-seed operation a client sends to a server that lost its state.
  The same merge runs on the client (over its unacknowledged writes) and on the server (over the
  stored rows).
\<close>

section \<open>Rows and operations\<close>

record registry_row =
  row_kind :: string
  row_id :: string
  row_seq :: nat
  deleted :: bool
  del_hlc :: "string option"
  row_fields :: "(string, json) btree"
  row_clocks :: "(string, string) btree"

definition tombstone :: "string \<Rightarrow> string \<Rightarrow> string \<Rightarrow> registry_row" where
  "tombstone kind rid hlc =
     \<lparr>row_kind = kind, row_id = rid, row_seq = 0, deleted = True, del_hlc = Some hlc,
      row_fields = [], row_clocks = []\<rparr>"

text \<open>The newest clock anywhere on the row.\<close>

definition max_clock :: "registry_row \<Rightarrow> string option" where
  "max_clock row =
     fold (\<lambda>clock mx. case mx of None \<Rightarrow> Some clock | Some m \<Rightarrow> if m < clock then Some clock else mx)
       (bt_values (row_clocks row)) (del_hlc row)"

datatype op_kind = Upsert | Update | Delete

record row_op =
  op_row_kind :: string
  op_row_id :: string
  op_kind :: op_kind
  op_set :: "(string, json) btree option"
  op_hlc :: string
  op_clocks :: "(string, string) btree option"

definition clock_for :: "row_op \<Rightarrow> string \<Rightarrow> string" where
  "clock_for op field =
     (case op_clocks op of
        None \<Rightarrow> op_hlc op
      | Some c \<Rightarrow> (case bt_get c field of None \<Rightarrow> op_hlc op | Some clock \<Rightarrow> clock))"

section \<open>Merging one operation\<close>

text \<open>One field write of an upsert or update: the body of the loop over \<open>op.set\<close>.\<close>

definition write_field :: "row_op \<Rightarrow> string \<times> json \<Rightarrow> registry_row \<times> bool \<Rightarrow> registry_row \<times> bool" where
  "write_field op kv acc =
     (let (key, value) = kv; (base, changed) = acc; clock = clock_for op key
      in if \<not> hlc_newer clock (bt_get (row_clocks base) key) then (base, changed)
         else (base\<lparr>row_fields := (if is_null value then bt_remove key (row_fields base)
                                     else bt_insert key value (row_fields base)),
                     row_clocks := bt_insert key clock (row_clocks base)\<rparr>, True))"

definition apply_op :: "registry_row option \<Rightarrow> row_op \<Rightarrow> registry_row option \<times> bool" where
  "apply_op row op =
     (if op_kind op = Delete then
        (case row of
           None \<Rightarrow> (Some (tombstone (op_row_kind op) (op_row_id op) (op_hlc op)), True)
         | Some row \<Rightarrow>
             let beats = (if deleted row then hlc_newer (op_hlc op) (del_hlc row)
                          else hlc_newer (op_hlc op) (max_clock row))
             in if beats
                then (Some (row\<lparr>deleted := True, del_hlc := Some (op_hlc op),
                                  row_fields := [], row_clocks := []\<rparr>), True)
                else (Some row, False))
      else
        (case (case row of
                 None \<Rightarrow>
                   if op_kind op = Update then Inl (None, False)
                   else Inr \<lparr>row_kind = op_row_kind op, row_id = op_row_id op, row_seq = 0,
                              deleted = False, del_hlc = None, row_fields = [], row_clocks = []\<rparr>
               | Some row \<Rightarrow>
                   if deleted row then
                     if op_kind op = Update \<or> \<not> hlc_newer (op_hlc op) (del_hlc row)
                     then Inl (Some row, False)
                     else Inr (row\<lparr>deleted := False, row_fields := [], row_clocks := []\<rparr>)
                   else Inr row) of
           Inl early \<Rightarrow> early
         | Inr base \<Rightarrow>
             let changed = (row = None \<or> (case row of None \<Rightarrow> False | Some r \<Rightarrow> deleted r) \<and> \<not> deleted base);
                 (base, changed) =
                   (case op_set op of
                      None \<Rightarrow> (base, changed)
                    | Some s \<Rightarrow> fold (write_field op) s (base, changed))
             in if changed then (Some (base\<lparr>deleted := False\<rparr>), True) else (Some base, False)))"

text \<open>Merging a sequence of operations into one row, as replay does.\<close>

definition apply_op_row :: "row_op \<Rightarrow> registry_row option \<Rightarrow> registry_row option" where
  "apply_op_row op row = (case fst (apply_op row op) of None \<Rightarrow> row | Some r \<Rightarrow> Some r)"

definition apply_ops :: "row_op list \<Rightarrow> registry_row option \<Rightarrow> registry_row option" where
  "apply_ops ops row = fold apply_op_row ops row"

definition row_to_seed_op :: "registry_row \<Rightarrow> row_op" where
  "row_to_seed_op row =
     (if deleted row then
        \<lparr>op_row_kind = row_kind row, op_row_id = row_id row, op_kind = Delete, op_set = None,
         op_hlc = (case del_hlc row of None \<Rightarrow> encode_hlc 0 0 ''seed'' | Some h \<Rightarrow> h), op_clocks = None\<rparr>
      else
        \<lparr>op_row_kind = row_kind row, op_row_id = row_id row, op_kind = Upsert,
         op_set = Some (bt_of_list (row_fields row)),
         op_hlc = (case max_clock row of None \<Rightarrow> encode_hlc 0 0 ''seed'' | Some h \<Rightarrow> h),
         op_clocks = Some (row_clocks row)\<rparr>)"

section \<open>Clock comparison\<close>

lemma hlc_newer_simps [simp]:
  "hlc_newer a None" "hlc_newer a (Some b) \<longleftrightarrow> b < a"
  by (simp_all add: hlc_newer_def)

lemma hlc_newer_opt_le: "\<not> hlc_newer a b \<longleftrightarrow> opt_le (Some a) b"
  by (cases b) auto

lemma max_fold_newer:
  "hlc_newer h (fold (\<lambda>clock mx. case mx of None \<Rightarrow> Some clock | Some m \<Rightarrow> if m < clock then Some clock else mx) cs d)
     \<longleftrightarrow> hlc_newer h d \<and> (\<forall>c \<in> set cs. c < h)"
  by (induction cs arbitrary: d) (auto split: option.splits)

text \<open>A clock is newer than a row when it is newer than the tombstone clock and every field clock.\<close>

lemma newer_max_clock:
  "hlc_newer h (max_clock r) \<longleftrightarrow> hlc_newer h (del_hlc r) \<and> (\<forall>c \<in> snd ` set (row_clocks r). c < h)"
  by (simp add: max_clock_def max_fold_newer bt_values_def)

section \<open>The loop over the written fields\<close>

lemma write_field_old [simp]:
  "\<not> hlc_newer (clock_for op key) (bt_get (row_clocks b) key) \<Longrightarrow> write_field op (key, v) (b, c) = (b, c)"
  by (simp add: write_field_def)

lemma write_field_new [simp]:
  "hlc_newer (clock_for op key) (bt_get (row_clocks b) key) \<Longrightarrow>
   write_field op (key, v) (b, c) =
     (b\<lparr>row_fields := (if is_null v then bt_remove key (row_fields b) else bt_insert key v (row_fields b)),
        row_clocks := bt_insert key (clock_for op key) (row_clocks b)\<rparr>, True)"
  by (simp add: write_field_def Let_def)

text \<open>Induction over the written fields, with the outcome of the first comparison known.\<close>

lemma write_fields_induct [case_names Nil Old New]:
  assumes "\<And>b c. P [] b c"
    and "\<And>key v s b c. \<not> hlc_newer (clock_for op key) (bt_get (row_clocks b) key) \<Longrightarrow> P s b c \<Longrightarrow>
          P ((key, v) # s) b c"
    and "\<And>key v s b c. hlc_newer (clock_for op key) (bt_get (row_clocks b) key) \<Longrightarrow>
          P s (b\<lparr>row_fields := (if is_null v then bt_remove key (row_fields b) else bt_insert key v (row_fields b)),
                 row_clocks := bt_insert key (clock_for op key) (row_clocks b)\<rparr>) True \<Longrightarrow>
          P ((key, v) # s) b c"
  shows "P (s :: (string, json) btree) (b :: registry_row) (c :: bool)"
proof (induction s arbitrary: b c)
  case (Cons kv s)
  then show ?case using assms(2,3) by (cases kv) blast
qed (rule assms(1))

lemma write_fields_frame:
  "row_kind (fst (fold (write_field op) s (b, c))) = row_kind b"
  "row_id (fst (fold (write_field op) s (b, c))) = row_id b"
  "row_seq (fst (fold (write_field op) s (b, c))) = row_seq b"
  "deleted (fst (fold (write_field op) s (b, c))) = deleted b"
  "del_hlc (fst (fold (write_field op) s (b, c))) = del_hlc b"
  by (induction s b c rule: write_fields_induct [where op = op]) simp_all

lemma write_fields_clocks:
  "bt_get (row_clocks (fst (fold (write_field op) s (b, c)))) k =
     (if bt_get s k \<noteq> None \<and> hlc_newer (clock_for op k) (bt_get (row_clocks b) k)
      then Some (clock_for op k) else bt_get (row_clocks b) k)"
  by (induction s b c rule: write_fields_induct [where op = op]) (auto simp: bt_get_Cons)

lemma write_fields_fields:
  "bt_get (row_fields (fst (fold (write_field op) s (b, c)))) k =
     (case bt_get s k of
        None \<Rightarrow> bt_get (row_fields b) k
      | Some v \<Rightarrow> if hlc_newer (clock_for op k) (bt_get (row_clocks b) k)
                 then (if is_null v then None else Some v) else bt_get (row_fields b) k)"
  by (induction s b c rule: write_fields_induct [where op = op]) (auto simp: bt_get_Cons split: option.splits)

lemma write_fields_changed:
  "snd (fold (write_field op) s (b, c)) \<longleftrightarrow>
     c \<or> (\<exists>k. bt_get s k \<noteq> None \<and> hlc_newer (clock_for op k) (bt_get (row_clocks b) k))"
proof (induction s b c rule: write_fields_induct [where op = op])
  case (Old key v s b c)
  then show ?case by (simp add: bt_get_Cons) metis
qed (auto simp: bt_get_Cons)

lemma write_fields_none_newer:
  "(\<And>k. bt_get s k \<noteq> None \<Longrightarrow> \<not> hlc_newer (clock_for op k) (bt_get (row_clocks b) k)) \<Longrightarrow>
     fold (write_field op) s (b, c) = (b, c)"
proof (induction s)
  case (Cons kv s)
  obtain key v where kv: "kv = (key, v)" by (cases kv)
  have "\<not> hlc_newer (clock_for op key) (bt_get (row_clocks b) key)"
    using Cons.prems [of key] by (simp add: kv bt_get_Cons)
  moreover have "fold (write_field op) s (b, c) = (b, c)"
    using Cons.IH Cons.prems by (metis bt_get_Cons kv option.distinct(1))
  ultimately show ?case by (simp add: kv)
qed simp

lemma write_fields_wf:
  "bt_wf (row_fields b) \<Longrightarrow> bt_wf (row_fields (fst (fold (write_field op) s (b, c))))"
  "bt_wf (row_clocks b) \<Longrightarrow> bt_wf (row_clocks (fst (fold (write_field op) s (b, c))))"
  by (induction s b c rule: write_fields_induct [where op = op]) simp_all

lemmas write_fields = write_fields_frame write_fields_clocks write_fields_fields write_fields_changed

text \<open>The fields an upsert or update writes.\<close>

definition op_writes :: "row_op \<Rightarrow> (string, json) btree" where
  "op_writes op = (case op_set op of None \<Rightarrow> [] | Some s \<Rightarrow> s)"

text \<open>The merge of a non-delete operation, case by case of the row it meets.\<close>

lemma apply_op_missing:
  assumes "op_kind op = Upsert"
  shows "apply_op None op =
    (Some (fst (fold (write_field op) (op_writes op)
       (\<lparr>row_kind = op_row_kind op, row_id = op_row_id op, row_seq = 0, deleted = False, del_hlc = None,
         row_fields = [], row_clocks = []\<rparr>, True))), True)"
proof -
  let ?b = "\<lparr>row_kind = op_row_kind op, row_id = op_row_id op, row_seq = 0, deleted = False, del_hlc = None,
         row_fields = [], row_clocks = []\<rparr>"
  have "snd (fold (write_field op) (op_writes op) (?b, True))" by (simp add: write_fields)
  moreover have "\<not> deleted (fst (fold (write_field op) (op_writes op) (?b, True)))" by (simp add: write_fields)
  ultimately show ?thesis using assms
    by (auto simp: apply_op_def op_writes_def Let_def case_prod_beta split: option.splits)
qed

lemma apply_op_revive:
  assumes "op_kind op = Upsert" "deleted r" "hlc_newer (op_hlc op) (del_hlc r)"
  shows "apply_op (Some r) op =
    (Some (fst (fold (write_field op) (op_writes op)
       (r\<lparr>deleted := False, row_fields := [], row_clocks := []\<rparr>, True))), True)"
proof -
  let ?b = "r\<lparr>deleted := False, row_fields := [], row_clocks := []\<rparr>"
  have "snd (fold (write_field op) (op_writes op) (?b, True))" by (simp add: write_fields)
  moreover have "\<not> deleted (fst (fold (write_field op) (op_writes op) (?b, True)))" by (simp add: write_fields)
  ultimately show ?thesis using assms
    by (auto simp: apply_op_def op_writes_def Let_def case_prod_beta split: option.splits)
qed

lemma apply_op_buried:
  assumes "op_kind op \<noteq> Delete" "deleted r" "op_kind op = Update \<or> \<not> hlc_newer (op_hlc op) (del_hlc r)"
  shows "apply_op (Some r) op = (Some r, False)"
  using assms by (auto simp: apply_op_def)

lemma apply_op_live:
  assumes "op_kind op \<noteq> Delete" "\<not> deleted r"
  shows "apply_op (Some r) op =
    (Some (fst (fold (write_field op) (op_writes op) (r, False))),
     snd (fold (write_field op) (op_writes op) (r, False)))"
proof -
  have "\<not> deleted (fst (fold (write_field op) (op_writes op) (r, False)))"
    using assms by (simp add: write_fields)
  then show ?thesis using assms
    by (auto simp: apply_op_def op_writes_def Let_def case_prod_beta split: option.splits)
qed

lemma apply_op_update_missing: "op_kind op = Update \<Longrightarrow> apply_op None op = (None, False)"
  by (simp add: apply_op_def)

lemma apply_op_delete:
  assumes "op_kind op = Delete"
  shows "apply_op None op = (Some (tombstone (op_row_kind op) (op_row_id op) (op_hlc op)), True)"
    and "apply_op (Some r) op =
      (if hlc_newer (op_hlc op) (if deleted r then del_hlc r else max_clock r)
       then (Some (r\<lparr>deleted := True, del_hlc := Some (op_hlc op), row_fields := [], row_clocks := []\<rparr>), True)
       else (Some r, False))"
  using assms by (simp_all add: apply_op_def Let_def)

text \<open>Case analysis on what an operation meets: the shape every proof below follows.\<close>

lemma apply_op_cases [case_names Delete_Missing Delete_Row Update_Missing Create Buried Revive Live]:
  assumes "op_kind op = Delete \<Longrightarrow> row = None \<Longrightarrow> P"
    and "\<And>r. op_kind op = Delete \<Longrightarrow> row = Some r \<Longrightarrow> P"
    and "op_kind op = Update \<Longrightarrow> row = None \<Longrightarrow> P"
    and "op_kind op = Upsert \<Longrightarrow> row = None \<Longrightarrow> P"
    and "\<And>r. op_kind op \<noteq> Delete \<Longrightarrow> row = Some r \<Longrightarrow> deleted r \<Longrightarrow>
           op_kind op = Update \<or> \<not> hlc_newer (op_hlc op) (del_hlc r) \<Longrightarrow> P"
    and "\<And>r. op_kind op = Upsert \<Longrightarrow> row = Some r \<Longrightarrow> deleted r \<Longrightarrow>
           hlc_newer (op_hlc op) (del_hlc r) \<Longrightarrow> P"
    and "\<And>r. op_kind op \<noteq> Delete \<Longrightarrow> row = Some r \<Longrightarrow> \<not> deleted r \<Longrightarrow> P"
  shows P
  using assms by (cases "op_kind op"; cases row) blast+

lemma apply_op_None_iff: "fst (apply_op row op) = None \<longleftrightarrow> row = None \<and> op_kind op = Update"
  by (rule apply_op_cases [of op row])
     (auto simp: apply_op_delete apply_op_update_missing apply_op_missing apply_op_buried apply_op_revive
        apply_op_live)

text \<open>An operation that reports no change leaves the row as it was.\<close>

lemma write_fields_unchanged: "\<not> snd (fold (write_field op) s (b, False)) \<Longrightarrow> fst (fold (write_field op) s (b, False)) = b"
  using write_fields_none_newer [of s op b False] by (force simp: write_fields)

lemma apply_op_unchanged: "\<not> snd (apply_op row op) \<Longrightarrow> fst (apply_op row op) = row"
  by (rule apply_op_cases [of op row])
     (auto simp: apply_op_delete apply_op_update_missing apply_op_missing apply_op_buried apply_op_revive
        apply_op_live write_fields_unchanged split: if_splits)

section \<open>Well-formed rows\<close>

text \<open>
  What every stored row satisfies: fields and clocks are ordered maps, every field carries the clock
  of its last write (a cleared field keeps its clock), and a tombstone carries its own clock and
  nothing else.
\<close>

definition row_ok :: "registry_row \<Rightarrow> bool" where
  "row_ok r = (bt_wf (row_fields r) \<and> bt_wf (row_clocks r) \<and>
     list_all (\<lambda>(k, v). bt_contains (row_clocks r) k \<and> \<not> is_null v) (row_fields r) \<and>
     (deleted r \<longrightarrow> del_hlc r \<noteq> None \<and> row_fields r = [] \<and> row_clocks r = []))"

lemma row_okI:
  assumes "bt_wf (row_fields r)" "bt_wf (row_clocks r)"
    and "\<And>k v. bt_get (row_fields r) k = Some v \<Longrightarrow> bt_get (row_clocks r) k \<noteq> None \<and> \<not> is_null v"
    and "deleted r \<Longrightarrow> del_hlc r \<noteq> None \<and> row_fields r = [] \<and> row_clocks r = []"
  shows "row_ok r"
  using assms by (auto simp: row_ok_def list_all_iff bt_contains_def bt_get_mem)

lemma row_okD:
  assumes "row_ok r"
  shows "bt_wf (row_fields r)" "bt_wf (row_clocks r)"
    and "bt_get (row_fields r) k = Some v \<Longrightarrow> bt_get (row_clocks r) k \<noteq> None \<and> \<not> is_null v"
    and "deleted r \<Longrightarrow> del_hlc r \<noteq> None \<and> row_fields r = [] \<and> row_clocks r = []"
  using assms by (auto simp: row_ok_def list_all_iff bt_contains_def dest!: bt_get_SomeD)

lemma row_ok_tombstone [simp]: "row_ok (tombstone k i h)"
  by (simp add: row_ok_def tombstone_def)

lemma row_ok_writes:
  assumes "row_ok b" "\<not> deleted b"
  shows "row_ok (fst (fold (write_field op) s (b, c)))"
proof (rule row_okI)
  fix k v
  assume "bt_get (row_fields (fst (fold (write_field op) s (b, c)))) k = Some v"
  then show "bt_get (row_clocks (fst (fold (write_field op) s (b, c)))) k \<noteq> None \<and> \<not> is_null v"
    using row_okD(3) [OF assms(1)] by (auto simp: write_fields split: option.splits if_splits)
qed (use assms in \<open>auto simp: write_fields write_fields_wf row_okD\<close>)

lemma row_ok_cleared [simp]:
  "row_ok (r\<lparr>deleted := True, del_hlc := Some h, row_fields := [], row_clocks := []\<rparr>)"
  "row_ok (r\<lparr>deleted := False, row_fields := [], row_clocks := []\<rparr>)"
  "row_ok \<lparr>row_kind = k, row_id = i, row_seq = n, deleted = False, del_hlc = d, row_fields = [], row_clocks = []\<rparr>"
  by (simp_all add: row_ok_def)

lemma apply_op_ok:
  assumes "\<And>r. row = Some r \<Longrightarrow> row_ok r" "fst (apply_op row op) = Some r'"
  shows "row_ok r'"
  using assms
  by (cases rule: apply_op_cases [of op row])
     (auto simp: apply_op_delete apply_op_update_missing apply_op_missing apply_op_buried apply_op_revive
         apply_op_live row_ok_writes split: if_splits)

section \<open>Idempotence\<close>

lemma write_fields_stable:
  "fold (write_field op) s (fst (fold (write_field op) s (b, c)), c') = (fst (fold (write_field op) s (b, c)), c')"
  by (rule write_fields_none_newer) (auto simp: write_fields split: if_splits)

lemma apply_op_stable:
  assumes "fst (apply_op row op) = Some r"
  shows "apply_op (Some r) op = (Some r, False)"
proof (cases rule: apply_op_cases [of op row])
  case (Delete_Row r0)
  with assms show ?thesis by (auto simp: apply_op_delete newer_max_clock split: if_splits)
next
  case Create
  with assms show ?thesis
    by (auto simp: apply_op_missing write_fields_stable apply_op_live write_fields_frame)
next
  case (Revive r0)
  with assms show ?thesis
    by (auto simp: apply_op_revive write_fields_stable apply_op_live write_fields_frame)
next
  case (Live r0)
  with assms show ?thesis by (auto simp: apply_op_live write_fields_stable write_fields_frame)
qed (use assms in \<open>auto simp: apply_op_delete apply_op_update_missing apply_op_buried tombstone_def\<close>)

section \<open>Last writer wins, per field\<close>

text \<open>
  The reference semantics of a live row: every field is an independent register holding the clock of
  its last write and its value, if any; a write lands when its clock is strictly newer.
\<close>

type_synonym cell = "string option \<times> json option"

definition cell :: "registry_row \<Rightarrow> string \<Rightarrow> cell" where
  "cell r k = (bt_get (row_clocks r) k, bt_get (row_fields r) k)"

definition lww :: "row_op \<Rightarrow> (string \<Rightarrow> cell) \<Rightarrow> string \<Rightarrow> cell" where
  "lww op cells k =
     (case bt_get (op_writes op) k of
        None \<Rightarrow> cells k
      | Some v \<Rightarrow> if hlc_newer (clock_for op k) (fst (cells k))
                 then (Some (clock_for op k), if is_null v then None else Some v) else cells k)"

text \<open>Two writes of one field under one clock carry the same value.\<close>

definition tie_free :: "row_op \<Rightarrow> row_op \<Rightarrow> bool" where
  "tie_free a b = list_all (\<lambda>(k, v). case bt_get (op_writes b) k of
     None \<Rightarrow> True | Some w \<Rightarrow> clock_for a k = clock_for b k \<longrightarrow> v = w) (op_writes a)"

lemma tie_freeD:
  "tie_free a b \<Longrightarrow> bt_get (op_writes a) k = Some v \<Longrightarrow> bt_get (op_writes b) k = Some w \<Longrightarrow>
   clock_for a k = clock_for b k \<Longrightarrow> v = w"
  by (fastforce simp: tie_free_def list_all_iff dest: bt_get_SomeD)

lemma lww_commute: "tie_free a b \<Longrightarrow> lww a \<circ> lww b = lww b \<circ> lww a"
proof (rule ext, rule ext)
  fix cells k
  assume tf: "tie_free a b"
  show "(lww a \<circ> lww b) cells k = (lww b \<circ> lww a) cells k"
  proof (cases "\<exists>v w. bt_get (op_writes a) k = Some v \<and> bt_get (op_writes b) k = Some w")
    case True
    then obtain v w where vw: "bt_get (op_writes a) k = Some v" "bt_get (op_writes b) k = Some w" by blast
    show ?thesis
      using tie_freeD [OF tf vw] vw
      by (cases "clock_for a k" "clock_for b k" rule: linorder_cases; cases "fst (cells k)")
         (auto simp: lww_def)
  qed (auto simp: lww_def split: option.splits)
qed

lemma apply_op_live_refines:
  assumes "op_kind op \<noteq> Delete" "\<not> deleted r"
  obtains r' where "apply_op_row op (Some r) = Some r'" "cell r' = lww op (cell r)" "\<not> deleted r'"
    "row_kind r' = row_kind r" "row_id r' = row_id r" "row_seq r' = row_seq r" "del_hlc r' = del_hlc r"
    "row_ok r \<Longrightarrow> row_ok r'"
proof (rule that)
  let ?w = "fst (fold (write_field op) (op_writes op) (r, False))"
  show "apply_op_row op (Some r) = Some ?w" using assms by (simp add: apply_op_row_def apply_op_live)
  show "cell ?w = lww op (cell r)"
    by (rule ext) (auto simp: cell_def lww_def write_fields split: option.splits)
qed (use assms in \<open>auto simp: write_fields row_ok_writes\<close>)

lemma apply_ops_live_refines:
  assumes "\<forall>op \<in> set ops. op_kind op \<noteq> Delete" "\<not> deleted r"
  shows "\<exists>r'. apply_ops ops (Some r) = Some r' \<and> cell r' = fold lww ops (cell r) \<and> \<not> deleted r' \<and>
    row_kind r' = row_kind r \<and> row_id r' = row_id r \<and> row_seq r' = row_seq r \<and> del_hlc r' = del_hlc r \<and>
    (row_ok r \<longrightarrow> row_ok r')"
  using assms
proof (induction ops arbitrary: r)
  case (Cons op ops)
  obtain r1 where r1: "apply_op_row op (Some r) = Some r1" "cell r1 = lww op (cell r)" "\<not> deleted r1"
    "row_kind r1 = row_kind r" "row_id r1 = row_id r" "row_seq r1 = row_seq r" "del_hlc r1 = del_hlc r"
    "row_ok r \<Longrightarrow> row_ok r1"
    using Cons.prems by (auto elim: apply_op_live_refines [of op r])
  from Cons.IH [of r1] Cons.prems r1 show ?case by (auto simp: apply_ops_def)
qed (auto simp: apply_ops_def)

text \<open>A row is determined by its identity and its cells.\<close>

lemma row_eqI:
  fixes r r' :: registry_row
  assumes "row_ok r" "row_ok r'" "cell r = cell r'" "deleted r = deleted r'" "row_kind r = row_kind r'"
    "row_id r = row_id r'" "row_seq r = row_seq r'" "del_hlc r = del_hlc r'"
  shows "r = r'"
proof -
  have "bt_get (row_fields r) k = bt_get (row_fields r') k" "bt_get (row_clocks r) k = bt_get (row_clocks r') k" for k
    using fun_cong [OF assms(3), of k] by (auto simp: cell_def)
  then have "row_fields r = row_fields r'" "row_clocks r = row_clocks r'"
    using assms(1,2) by (auto intro: bt_ext simp: row_okD)
  with assms show ?thesis by simp
qed

section \<open>Redelivery\<close>

lemma lww_stable_iff:
  "(\<forall>k. bt_get (op_writes op) k \<noteq> None \<longrightarrow> \<not> hlc_newer (clock_for op k) (fst (cells k))) \<Longrightarrow> lww op cells = cells"
  by (rule ext) (auto simp: lww_def split: option.splits)

lemma lww_clock_grows: "opt_le (fst (cells k)) (fst (lww op cells k))"
  by (cases "fst (cells k)") (auto simp: lww_def split: option.splits)

lemma fold_lww_clock_grows: "opt_le (fst (cells k)) (fst (fold lww ops cells k))"
  by (induction ops arbitrary: cells) (auto intro: opt_le_trans [OF lww_clock_grows])

lemma lww_written: "bt_get (op_writes op) k \<noteq> None \<Longrightarrow> opt_le (Some (clock_for op k)) (fst (lww op cells k))"
  by (cases "fst (cells k)") (auto simp: lww_def)

lemma fold_lww_redelivery:
  assumes "op \<in> set ops"
  shows "lww op (fold lww ops cells) = fold lww ops cells"
proof (rule lww_stable_iff, safe)
  fix k v
  assume k: "bt_get (op_writes op) k = Some v"
    and newer: "hlc_newer (clock_for op k) (fst (fold lww ops cells k))"
  from assms obtain xs ys where "ops = xs @ op # ys" by (meson split_list)
  then have "opt_le (Some (clock_for op k)) (fst (fold lww ops cells k))"
    using lww_written [of op k "fold lww xs cells"] k
      fold_lww_clock_grows [of "lww op (fold lww xs cells)" k ys] by (auto intro: opt_le_trans)
  with newer show False by (simp flip: hlc_newer_opt_le)
qed

lemma fold_lww_redeliveries: "set dups \<subseteq> set ops \<Longrightarrow> fold lww (ops @ dups) cells = fold lww ops cells"
  by (induction dups) (simp_all add: fold_lww_redelivery)

section \<open>The newest clock of a row\<close>

lemma opt_le_newer: "opt_le a b \<longleftrightarrow> (\<forall>h. hlc_newer h b \<longrightarrow> hlc_newer h a)"
proof (cases a)
  case (Some x)
  then show ?thesis by (cases b) (auto dest: spec [of _ x])
qed simp

lemma clocks_mem:
  assumes "bt_wf m"
  shows "c \<in> snd ` set m \<longleftrightarrow> (\<exists>k. bt_get m k = Some c)"
proof
  assume "c \<in> snd ` set m"
  then obtain k where "(k, c) \<in> set m" by auto
  with assms show "\<exists>k. bt_get m k = Some c" by (auto simp: bt_get_mem)
qed (force dest: bt_get_SomeD)

lemma hlc_newer_trans: "hlc_newer h (Some x) \<Longrightarrow> hlc_newer x b \<Longrightarrow> hlc_newer h b"
  by (cases b) auto

lemma max_clock_writes:
  assumes "row_ok b" "\<not> deleted b"
  shows "opt_le (max_clock b) (max_clock (fst (fold (write_field op) s (b, c))))"
  unfolding opt_le_newer newer_max_clock
proof (intro allI impI conjI ballI; elim conjE)
  fix h x
  let ?b = "fst (fold (write_field op) s (b, c))"
  assume all: "\<forall>x \<in> snd ` set (row_clocks ?b). x < h" and "x \<in> snd ` set (row_clocks b)"
  then obtain k where k: "bt_get (row_clocks b) k = Some x" using assms by (auto simp: clocks_mem row_okD)
  then obtain y where "bt_get (row_clocks ?b) k = Some y" "x \<le> y"
    by (cases "bt_get s k \<noteq> None \<and> x < clock_for op k") (auto simp: write_fields)
  with all show "x < h" by (force dest: bt_get_SomeD)
qed (simp add: write_fields)

lemma max_clock_cleared: "row_clocks r = [] \<Longrightarrow> max_clock r = del_hlc r"
  by (simp add: max_clock_def bt_values_def)

lemma max_clock_deleted: "row_ok r \<Longrightarrow> deleted r \<Longrightarrow> max_clock r = del_hlc r"
  by (simp add: max_clock_def row_okD bt_values_def)

section \<open>Re-seeding a lost row\<close>

lemma distinct_rev_keys: "distinct (map fst m) \<Longrightarrow> map_of (rev m) k = map_of m k"
  by (metis distinct_rev map_of_inject_set rev_map set_rev)

lemma bt_of_list_wf: "bt_wf m \<Longrightarrow> bt_of_list m = m"
  by (rule bt_ext) (simp_all add: bt_get_of_list, simp add: bt_get_def bt_wf_distinct distinct_rev_keys)

lemma bt_get_filter_keys: "bt_get (filter (\<lambda>p. P (fst p)) m) k = (if P k then bt_get m k else None)"
  by (induction m) (auto simp: bt_get_def)

lemma bt_wf_filter [bt_wf_intros]: "bt_wf m \<Longrightarrow> bt_wf (filter P m)"
  by (induction m) (auto simp: bt_wf_def)

text \<open>The clocks a re-seed carries over: those of the fields that still have a value.\<close>

definition seeded_clocks :: "registry_row \<Rightarrow> (string, string) btree" where
  "seeded_clocks r = filter (\<lambda>p. bt_contains (row_fields r) (fst p)) (row_clocks r)"

lemma seeded_clocks_get:
  "bt_get (seeded_clocks r) k = (if bt_get (row_fields r) k = None then None else bt_get (row_clocks r) k)"
  using bt_get_filter_keys [of "bt_contains (row_fields r)" "row_clocks r" k]
  by (simp add: seeded_clocks_def bt_contains_def)

lemma seeded_clocks_wf: "bt_wf (row_clocks r) \<Longrightarrow> bt_wf (seeded_clocks r)"
  by (simp add: seeded_clocks_def bt_wf_filter)

lemma row_ok_unclocked: "row_ok r \<Longrightarrow> bt_get (row_clocks r) k = None \<Longrightarrow> bt_get (row_fields r) k = None"
  using row_okD(3) by (cases "bt_get (row_fields r) k") auto

lemma seed_live:
  assumes "row_ok r" "\<not> deleted r"
  shows "apply_op None (row_to_seed_op r) =
    (Some (r\<lparr>row_seq := 0, del_hlc := None, row_clocks := seeded_clocks r\<rparr>), True)"
proof -
  let ?op = "row_to_seed_op r"
  let ?b = "\<lparr>row_kind = op_row_kind ?op, row_id = op_row_id ?op, row_seq = 0, deleted = False, del_hlc = None,
         row_fields = [], row_clocks = []\<rparr>"
  let ?w = "fst (fold (write_field ?op) (op_writes ?op) (?b, True))"
  have writes: "op_writes ?op = row_fields r"
    using assms by (simp add: op_writes_def row_to_seed_op_def bt_of_list_wf row_okD)
  have clock: "clock_for ?op k = (case bt_get (row_clocks r) k of None \<Rightarrow> op_hlc ?op | Some c \<Rightarrow> c)" for k
    using assms by (cases "bt_get (row_clocks r) k") (simp_all add: clock_for_def row_to_seed_op_def)
  have "?w = r\<lparr>row_seq := 0, del_hlc := None, row_clocks := seeded_clocks r\<rparr>"
  proof (rule row_eqI)
    show "row_ok ?w" by (rule row_ok_writes) simp_all
    show "row_ok (r\<lparr>row_seq := 0, del_hlc := None, row_clocks := seeded_clocks r\<rparr>)"
      using assms row_okD(3) [OF assms(1)]
      by (intro row_okI) (auto simp: row_okD seeded_clocks_wf seeded_clocks_get)
    show "cell ?w = cell (r\<lparr>row_seq := 0, del_hlc := None, row_clocks := seeded_clocks r\<rparr>)"
      using row_okD(3) [OF assms(1)] row_ok_unclocked [OF assms(1)]
      by (intro ext) (auto simp: cell_def write_fields writes clock seeded_clocks_get split: option.splits)
  qed (use assms in \<open>simp_all add: write_fields row_to_seed_op_def\<close>)
  moreover have "op_kind ?op = Upsert" using assms by (simp add: row_to_seed_op_def)
  ultimately show ?thesis by (simp add: apply_op_missing)
qed

lemma seed_deleted: "row_ok r \<Longrightarrow> deleted r \<Longrightarrow> apply_op None (row_to_seed_op r) = (Some (r\<lparr>row_seq := 0\<rparr>), True)"
  using row_okD(4) [of r] by (auto simp: row_to_seed_op_def apply_op_delete tombstone_def)

section \<open>Properties\<close>

text \<open>A row and operations on it for the concrete instances below.\<close>

definition sample_row :: registry_row where
  "sample_row = \<lparr>row_kind = ''chats'', row_id = ''c1'', row_seq = 4, deleted = False, del_hlc = None,
     row_fields = [(''title'', JStr ''old'')], row_clocks = [(''title'', encode_hlc 1 0 ''a'')]\<rparr>"

definition sample_update :: "int \<Rightarrow> string \<Rightarrow> string \<Rightarrow> json \<Rightarrow> row_op" where
  "sample_update ms device field v =
     \<lparr>op_row_kind = ''chats'', op_row_id = ''c1'', op_kind = Update, op_set = Some [(field, v)],
      op_hlc = encode_hlc ms 0 device, op_clocks = None\<rparr>"

definition replay_batch :: "row_op list" where
  "replay_batch =
     [\<lparr>op_row_kind = ''chats'', op_row_id = ''c1'', op_kind = Upsert, op_set = Some [(''title'', JStr ''old'')],
       op_hlc = encode_hlc 1 0 ''a'', op_clocks = None\<rparr>,
      \<lparr>op_row_kind = ''chats'', op_row_id = ''c1'', op_kind = Delete, op_set = None,
       op_hlc = encode_hlc 2 0 ''a'', op_clocks = None\<rparr>,
      \<lparr>op_row_kind = ''chats'', op_row_id = ''c1'', op_kind = Upsert, op_set = Some [(''id'', JStr ''c1'')],
       op_hlc = encode_hlc 3 0 ''a'', op_clocks = None\<rparr>]"

text \<open>
  C2. Convergence of concurrent field writes: a live row that receives the same upserts and updates
  in any order ends in the same state, provided no two of them write one field under one clock with
  different values (which distinct device names rule out). Replicas that exchange field writes
  therefore agree whatever the network's order.
\<close>

theorem apply_ops_converge:
  assumes "row_ok r" "\<not> deleted r" "\<forall>op \<in> set ops. op_kind op \<noteq> Delete"
    and "\<forall>a \<in> set ops. \<forall>b \<in> set ops. tie_free a b" "mset ops = mset ops'"
  shows "apply_ops ops (Some r) = apply_ops ops' (Some r)"
proof -
  have "\<forall>op \<in> set ops'. op_kind op \<noteq> Delete" using assms(3) mset_eq_setD [OF assms(5)] by simp
  moreover have "fold lww ops (cell r) = fold lww ops' (cell r)"
    using fold_multiset_equiv [of ops lww ops'] assms(4,5) lww_commute by metis
  ultimately show ?thesis
    using apply_ops_live_refines [of ops r] apply_ops_live_refines [of ops' r] assms(1-3)
    by (metis row_eqI)
qed

theorem apply_ops_converge_witness:
  "apply_ops [sample_update 7 ''a'' ''title'' (JStr ''x''), sample_update 9 ''b'' ''title'' (JStr ''y'')] (Some sample_row)
   = apply_ops [sample_update 9 ''b'' ''title'' (JStr ''y''), sample_update 7 ''a'' ''title'' (JStr ''x'')] (Some sample_row)"
  by (rule apply_ops_converge)
     (code_simp | simp add: sample_update_def sample_row_def add_mset_commute)+

text \<open>
  Idempotence: an operation applied to the row it produced changes nothing and reports that
  nothing changed, for every kind of operation and every row it first met.
\<close>

theorem apply_op_idempotent:
  assumes "fst (apply_op row op) = Some r"
  shows "apply_op (Some r) op = (Some r, False)"
  using assms by (rule apply_op_stable)

theorem apply_op_idempotent_witness:
  "apply_op (Some (the (fst (apply_op (Some sample_row) (sample_update 7 ''a'' ''title'' JNull)))))
     (sample_update 7 ''a'' ''title'' JNull)
   = (Some (the (fst (apply_op (Some sample_row) (sample_update 7 ''a'' ''title'' JNull)))), False)"
  by (rule apply_op_idempotent [of "Some sample_row"]) code_simp

text \<open>
  At-least-once delivery of field writes: after a live row has received a sequence of upserts and
  updates, redelivering any of them, in any order and any number of times, leaves it unchanged.
\<close>

theorem redelivery_noop:
  assumes "row_ok r" "\<not> deleted r" "\<forall>op \<in> set ops. op_kind op \<noteq> Delete" "set dups \<subseteq> set ops"
  shows "apply_ops (ops @ dups) (Some r) = apply_ops ops (Some r)"
proof -
  have "\<forall>op \<in> set (ops @ dups). op_kind op \<noteq> Delete" using assms(3,4) by auto
  then show ?thesis
    using apply_ops_live_refines [of "ops @ dups" r] apply_ops_live_refines [of ops r] assms
      fold_lww_redeliveries [OF assms(4)] by (metis row_eqI)
qed

theorem redelivery_noop_witness:
  "apply_ops ([sample_update 7 ''a'' ''title'' (JStr ''x''), sample_update 9 ''b'' ''title'' JNull]
     @ [sample_update 7 ''a'' ''title'' (JStr ''x'')]) (Some sample_row)
   = apply_ops [sample_update 7 ''a'' ''title'' (JStr ''x''), sample_update 9 ''b'' ''title'' JNull] (Some sample_row)"
  by (rule redelivery_noop) (code_simp | simp add: sample_update_def sample_row_def)+

text \<open>
  Redelivery is not harmless once a row was deleted and revived: the field write of a batch
  that created, deleted and re-created a row lands again when the batch is replayed, because a write to
  a revived row is compared with the field's clock only and not with the tombstone's. The replayed
  batch brings back a title that its own deletion had removed.
\<close>

theorem replay_resurrects_deleted_field:
  "bt_get (row_fields (the (apply_ops replay_batch None))) ''title'' = None \<and>
   bt_get (row_fields (the (apply_ops (replay_batch @ replay_batch) None))) ''title'' = Some (JStr ''old'')"
  by code_simp

text \<open>
  C29. The row invariant: merging any sequence of operations into a well-formed (or missing) row gives a
  well-formed row: ordered fields, a clock for every field, no stored null, and a tombstone that
  carries its clock and no fields.
\<close>

theorem apply_ops_row_ok:
  assumes "\<forall>r. row = Some r \<longrightarrow> row_ok r" "apply_ops ops row = Some r'"
  shows "row_ok r'"
  using assms
proof (induction ops arbitrary: row)
  case (Cons op ops)
  have "\<forall>r. apply_op_row op row = Some r \<longrightarrow> row_ok r"
    using Cons.prems(1) apply_op_ok by (auto simp: apply_op_row_def split: option.splits)
  with Cons show ?case by (simp add: apply_ops_def)
qed (simp add: apply_ops_def)

theorem apply_ops_row_ok_witness: "row_ok (the (apply_ops replay_batch (Some sample_row)))"
proof (rule apply_ops_row_ok [of "Some sample_row" replay_batch])
  show "\<forall>r. Some sample_row = Some r \<longrightarrow> row_ok r"
    by (auto simp: sample_row_def row_ok_def bt_wf_def bt_contains_def bt_get_Cons)
  show "apply_ops replay_batch (Some sample_row) = Some (the (apply_ops replay_batch (Some sample_row)))"
    by code_simp
qed

text \<open>
  The newest clock on a row, over its tombstone and all its fields, never goes back, whatever
  operation is merged.
\<close>

theorem max_clock_monotone:
  assumes "row_ok r" "apply_op (Some r) op = (Some r', changed)"
  shows "opt_le (max_clock r) (max_clock r')"
proof (cases rule: apply_op_cases [of op "Some r"])
  case (Delete_Row r0)
  with assms show ?thesis
    by (auto simp: apply_op_delete max_clock_deleted opt_le_newer max_clock_cleared
        intro: hlc_newer_trans split: if_splits)
next
  case (Revive r0)
  let ?b = "r\<lparr>deleted := False, row_fields := [], row_clocks := []\<rparr>"
  have "max_clock r = max_clock ?b" using Revive assms by (simp add: max_clock_deleted) (simp add: max_clock_def bt_values_def)
  with Revive assms show ?thesis by (auto simp: apply_op_revive intro: max_clock_writes)
qed (use assms in \<open>auto simp: apply_op_buried apply_op_live intro: max_clock_writes\<close>)

theorem max_clock_monotone_witness:
  "opt_le (max_clock sample_row) (max_clock (the (fst (apply_op (Some sample_row) (sample_update 7 ''a'' ''title'' JNull)))))"
proof (rule max_clock_monotone)
  show "row_ok sample_row" by (simp add: sample_row_def row_ok_def bt_wf_def bt_contains_def bt_get_Cons)
  show "apply_op (Some sample_row) (sample_update 7 ''a'' ''title'' JNull) =
    (Some (the (fst (apply_op (Some sample_row) (sample_update 7 ''a'' ''title'' JNull)))), True)" by code_simp
qed

text \<open>
  Deletion: a delete takes effect exactly when it is newer than the tombstone clock and every
  field clock of the row; it then leaves an empty tombstone under its own clock, which no update and
  no upsert with an older or equal clock revives or changes.
\<close>

theorem delete_buries:
  assumes "op_kind d = Delete" "row_ok r"
  shows "(snd (apply_op (Some r) d) \<longleftrightarrow>
            hlc_newer (op_hlc d) (del_hlc r) \<and> (\<forall>c \<in> snd ` set (row_clocks r). c < op_hlc d)) \<and>
         (snd (apply_op (Some r) d) \<longrightarrow>
            (\<exists>t. fst (apply_op (Some r) d) = Some t \<and> deleted t \<and> del_hlc t = Some (op_hlc d) \<and>
               row_fields t = [] \<and> row_clocks t = [] \<and>
               (\<forall>op. op_kind op = Update \<or> op_kind op = Upsert \<and> op_hlc op \<le> op_hlc d \<longrightarrow>
                  apply_op (Some t) op = (Some t, False))))"
  using assms row_okD(4) [OF assms(2)]
  by (auto simp: apply_op_delete newer_max_clock apply_op_buried)

theorem delete_buries_witness:
  "snd (apply_op (Some sample_row) (replay_batch ! 1)) \<and>
   (\<exists>t. fst (apply_op (Some sample_row) (replay_batch ! 1)) = Some t \<and> deleted t)"
proof -
  have k: "op_kind (replay_batch ! 1) = Delete" by code_simp
  have ok: "row_ok sample_row" by (simp add: sample_row_def row_ok_def bt_wf_def bt_contains_def bt_get_Cons)
  have "snd (apply_op (Some sample_row) (replay_batch ! 1))" by code_simp
  with delete_buries [OF k ok] show ?thesis by blast
qed

text \<open>
  Updates never invent rows: on a missing row and on a tombstone an update has no effect and
  reports none.
\<close>

theorem update_never_creates:
  assumes "op_kind op = Update" "row = None \<or> (\<exists>r. row = Some r \<and> deleted r)"
  shows "apply_op row op = (row, False)"
  using assms by (auto simp: apply_op_update_missing apply_op_buried)

theorem update_never_creates_witness:
  "apply_op (Some (tombstone ''chats'' ''c1'' (encode_hlc 1 0 ''a''))) (sample_update 7 ''a'' ''title'' JNull)
   = (Some (tombstone ''chats'' ''c1'' (encode_hlc 1 0 ''a'')), False)"
  by (rule update_never_creates) (simp_all add: sample_update_def tombstone_def)

text \<open>
  Re-seeding: the operation a client sends for a row to a server that lost it restores that row.
  A tombstone comes back with its clock; a live row comes back with all its fields, each under the clock
  of its original write.
\<close>

theorem seed_restores_row:
  assumes "row_ok r"
  shows "apply_op None (row_to_seed_op r) =
    (Some (if deleted r then r\<lparr>row_seq := 0\<rparr>
           else r\<lparr>row_seq := 0, del_hlc := None, row_clocks := seeded_clocks r\<rparr>), True)"
  using assms by (simp add: seed_live seed_deleted)

theorem seed_restores_row_witness:
  "apply_op None (row_to_seed_op sample_row) = (Some (sample_row\<lparr>row_seq := 0\<rparr>), True)"
  using seed_restores_row [of sample_row]
  by (simp add: sample_row_def row_ok_def bt_wf_def bt_contains_def bt_get_Cons seeded_clocks_def)

text \<open>
  What a re-seed forgets: the clock of a field that was cleared. A row whose title was cleared at
  time 9 ignores a write of time 7; after a re-seed the same write lands, so the recovered row
  shows a title that the replicas had agreed to clear.
\<close>

theorem seed_forgets_cleared_clock:
  "let cleared = the (apply_ops [sample_update 9 ''b'' ''title'' JNull] (Some sample_row));
       late = sample_update 7 ''a'' ''title'' (JStr ''stale'');
       reseeded = the (fst (apply_op None (row_to_seed_op cleared)))
   in apply_op (Some cleared) late = (Some cleared, False) \<and>
      bt_get (row_fields (the (fst (apply_op (Some reseeded) late)))) ''title'' = Some (JStr ''stale'')"
  by code_simp

end
