(* ===== verification/Entities.thy ===== *)
theory Entities
  imports Ordered_Map "HOL-Library.Monad_Syntax"
begin

text \<open>
  The synced entities (\<open>crates/proto/src/entities.rs\<close>, \<open>agent.rs\<close>) and their rows: devices, spaces,
  chats with their configuration, and session statuses; how each is written to a registry row
  (\<open>crates/doc/src/registry.rs\<close>) and read back (\<open>crates/doc/src/workspace.rs\<close>).
  An instant (\<open>DateTime<Utc>\<close>) is its number of epoch milliseconds, the precision the rows store.
  Building an instant from milliseconds is chrono's \<open>DateTime::from_timestamp_millis\<close>, which is the
  parameter \<open>from_ms\<close> of the readers: it returns no instant outside chrono's range.
\<close>

section \<open>Agent enumerations\<close>

datatype harness_id = ClaudeCode | Codex | Cursor | Grok | Hermes | Pi | Opencode | Mock

fun harness_str :: "harness_id \<Rightarrow> string" where
  "harness_str ClaudeCode = ''claude-code''"
| "harness_str Codex = ''codex''"
| "harness_str Cursor = ''cursor''"
| "harness_str Grok = ''grok''"
| "harness_str Hermes = ''hermes''"
| "harness_str Pi = ''pi''"
| "harness_str Opencode = ''opencode''"
| "harness_str Mock = ''mock''"

datatype reasoning_level = Minimal | Low | Medium | High | XHigh | MaxLevel | Ultra | Ultracode | Ultrathink

fun reasoning_str :: "reasoning_level \<Rightarrow> string" where
  "reasoning_str Minimal = ''minimal''"
| "reasoning_str Low = ''low''"
| "reasoning_str Medium = ''medium''"
| "reasoning_str High = ''high''"
| "reasoning_str XHigh = ''xhigh''"
| "reasoning_str MaxLevel = ''max''"
| "reasoning_str Ultra = ''ultra''"
| "reasoning_str Ultracode = ''ultracode''"
| "reasoning_str Ultrathink = ''ultrathink''"

datatype sandbox_level = ReadOnly | WorkspaceWrite | DangerFullAccess

fun sandbox_str :: "sandbox_level \<Rightarrow> string" where
  "sandbox_str ReadOnly = ''read-only''"
| "sandbox_str WorkspaceWrite = ''workspace-write''"
| "sandbox_str DangerFullAccess = ''danger-full-access''"

datatype session_status = Status_Idle | Status_Working | Status_AwaitingInput | Status_Errored

fun status_str :: "session_status \<Rightarrow> string" where
  "status_str Status_Idle = ''idle''"
| "status_str Status_Working = ''working''"
| "status_str Status_AwaitingInput = ''awaitingInput''"
| "status_str Status_Errored = ''errored''"

text \<open>
  A unit variant on the wire is its name, or (as serde also accepts) an object with that one key and
  a null value.
\<close>

fun variant_name :: "json \<Rightarrow> string option" where
  "variant_name (JStr s) = Some s"
| "variant_name (JObj [(s, JNull)]) = Some s"
| "variant_name _ = None"

definition parse_variant :: "('a \<Rightarrow> string) \<Rightarrow> 'a list \<Rightarrow> json \<Rightarrow> 'a option" where
  "parse_variant str variants j =
     (case variant_name j of None \<Rightarrow> None | Some s \<Rightarrow> find (\<lambda>v. str v = s) variants)"

definition parse_harness :: "json \<Rightarrow> harness_id option" where
  "parse_harness = parse_variant harness_str [ClaudeCode, Codex, Cursor, Grok, Hermes, Pi, Opencode, Mock]"

definition parse_reasoning :: "json \<Rightarrow> reasoning_level option" where
  "parse_reasoning = parse_variant reasoning_str
     [Minimal, Low, Medium, High, XHigh, MaxLevel, Ultra, Ultracode, Ultrathink]"

definition parse_sandbox :: "json \<Rightarrow> sandbox_level option" where
  "parse_sandbox = parse_variant sandbox_str [ReadOnly, WorkspaceWrite, DangerFullAccess]"

definition parse_status :: "json \<Rightarrow> session_status option" where
  "parse_status = parse_variant status_str [Status_Idle, Status_Working, Status_AwaitingInput, Status_Errored]"

section \<open>Entities\<close>

record device =
  dev_id :: string
  dev_name :: string
  dev_platform :: string
  dev_last_seen_at :: "int option"
  dev_created_at :: "int option"
  dev_version :: "string option"

record space =
  sp_id :: string
  sp_device_id :: string
  sp_path :: string
  sp_name :: "string option"
  sp_git_detected :: bool
  sp_git_checked_at :: "int option"
  sp_checkout_id :: "string option"
  sp_created_at :: int

record chat_config =
  cfg_harness :: harness_id
  cfg_model :: "string option"
  cfg_reasoning :: "reasoning_level option"
  cfg_model_options :: "(string, json) btree"
  cfg_sandbox :: sandbox_level
  cfg_mcp_servers :: "string list option"

record chat =
  ch_id :: string
  ch_device_id :: string
  ch_title :: "string option"
  ch_archived :: bool
  ch_cwd :: "string option"
  ch_branch :: "string option"
  ch_checkout_id :: "string option"
  ch_config :: "chat_config option"
  ch_last_message_preview :: "string option"
  ch_last_message_at :: "int option"
  ch_created_at :: int
  ch_harness_session_id :: "string option"
  ch_harness_session_cwd :: "string option"
  ch_space_id :: "string option"
  ch_last_seen_at :: "int option"
  ch_room_gen :: "nat option"

record session =
  ss_chat_id :: string
  ss_device_id :: string
  ss_status :: session_status
  ss_started_at :: "int option"
  ss_updated_at :: int
  ss_context_tokens :: "nat option"

definition on_chat2 :: "chat \<Rightarrow> bool" where
  "on_chat2 c = (2 \<le> (case ch_room_gen c of None \<Rightarrow> 1 | Some g \<Rightarrow> g))"

definition unseen :: "chat \<Rightarrow> bool" where
  "unseen c = (case (ch_last_message_at c, ch_last_seen_at c) of
      (Some msg, Some seen) \<Rightarrow> seen < msg
    | (Some _, None) \<Rightarrow> True
    | (None, _) \<Rightarrow> False)"

datatype chat_indicator = Ind_Working | Ind_AwaitingInput | Ind_Errored | Ind_Completed | Ind_Idle

definition chat_indicator_of :: "chat \<Rightarrow> session option \<Rightarrow> chat_indicator" where
  "chat_indicator_of c live =
     (case map_option ss_status live of
        Some Status_Working \<Rightarrow> Ind_Working
      | Some Status_AwaitingInput \<Rightarrow> Ind_AwaitingInput
      | Some Status_Errored \<Rightarrow> if unseen c then Ind_Errored else Ind_Idle
      | _ \<Rightarrow> if unseen c then Ind_Completed else Ind_Idle)"

section \<open>Reading JSON\<close>

fun as_str :: "json \<Rightarrow> string option" where
  "as_str (JStr s) = Some s"
| "as_str _ = None"

fun as_bool :: "json \<Rightarrow> bool option" where
  "as_bool (JBool b) = Some b"
| "as_bool _ = None"

fun as_i64 :: "json \<Rightarrow> int option" where
  "as_i64 (JNum n) = (if - (2 ^ 63) \<le> n \<and> n < 2 ^ 63 then Some n else None)"
| "as_i64 _ = None"

text \<open>An unsigned integer of \<open>w\<close> bits.\<close>

fun as_uint :: "nat \<Rightarrow> json \<Rightarrow> nat option" where
  "as_uint w (JNum n) = (if 0 \<le> n \<and> n < 2 ^ w then Some (nat n) else None)"
| "as_uint w _ = None"

fun as_obj :: "json \<Rightarrow> (string \<times> json) list option" where
  "as_obj (JObj m) = Some m"
| "as_obj _ = None"

fun as_strs :: "json \<Rightarrow> string list option" where
  "as_strs (JArr js) = those (map as_str js)"
| "as_strs _ = None"

text \<open>A field of a deserialised struct: required, optional, or with a default.\<close>

definition req :: "(json \<Rightarrow> 'a option) \<Rightarrow> (string, json) btree \<Rightarrow> string \<Rightarrow> 'a option" where
  "req p fs k = (case bt_get fs k of None \<Rightarrow> None | Some j \<Rightarrow> p j)"

definition opt_of :: "(json \<Rightarrow> 'a option) \<Rightarrow> json \<Rightarrow> 'a option option" where
  "opt_of p j = (if is_null j then Some None else map_option Some (p j))"

definition opt :: "(json \<Rightarrow> 'a option) \<Rightarrow> (string, json) btree \<Rightarrow> string \<Rightarrow> 'a option option" where
  "opt p fs k = (case bt_get fs k of None \<Rightarrow> Some None | Some j \<Rightarrow> opt_of p j)"

definition dflt :: "'a \<Rightarrow> (json \<Rightarrow> 'a option) \<Rightarrow> (string, json) btree \<Rightarrow> string \<Rightarrow> 'a option" where
  "dflt d p fs k = (case bt_get fs k of None \<Rightarrow> Some d | Some j \<Rightarrow> p j)"

text \<open>A configuration is an object, or (as serde also accepts) the array of its fields in order.\<close>

definition config_of :: "harness_id \<Rightarrow> string option \<Rightarrow> reasoning_level option \<Rightarrow> (string, json) btree \<Rightarrow>
    sandbox_level \<Rightarrow> string list option \<Rightarrow> chat_config" where
  "config_of h m r mo s mcp = \<lparr>cfg_harness = h, cfg_model = m, cfg_reasoning = r, cfg_model_options = mo,
     cfg_sandbox = s, cfg_mcp_servers = mcp\<rparr>"

fun parse_config :: "json \<Rightarrow> chat_config option" where
  "parse_config (JObj fs) = do {
     h \<leftarrow> req parse_harness fs ''harness'';
     m \<leftarrow> opt as_str fs ''model'';
     r \<leftarrow> opt parse_reasoning fs ''reasoning'';
     mo \<leftarrow> dflt [] as_obj fs ''modelOptions'';
     s \<leftarrow> req parse_sandbox fs ''sandbox'';
     mcp \<leftarrow> opt as_strs fs ''mcpServers'';
     Some (config_of h m r mo s mcp) }"
| "parse_config (JArr (h # m # r # mo # s # rest)) = do {
     h \<leftarrow> parse_harness h;
     m \<leftarrow> opt_of as_str m;
     r \<leftarrow> opt_of parse_reasoning r;
     mo \<leftarrow> as_obj mo;
     s \<leftarrow> parse_sandbox s;
     mcp \<leftarrow> (case rest of [] \<Rightarrow> Some None | [j] \<Rightarrow> opt_of as_strs j | _ \<Rightarrow> None);
     Some (config_of h m r mo s mcp) }"
| "parse_config _ = None"

section \<open>Writing JSON\<close>

definition opt_str :: "string option \<Rightarrow> json" where
  "opt_str v = (case v of Some s \<Rightarrow> JStr s | None \<Rightarrow> JNull)"

definition opt_ms :: "int option \<Rightarrow> json" where
  "opt_ms v = (case v of Some at \<Rightarrow> JNum at | None \<Rightarrow> JNull)"

definition mk_fields :: "(string \<times> json) list \<Rightarrow> (string, json) btree" where
  "mk_fields entries = bt_of_list entries"

text \<open>\<open>serde_json::to_value\<close> of a configuration.\<close>

definition config_to_value :: "chat_config \<Rightarrow> json" where
  "config_to_value c = JObj (mk_fields (
     [(''harness'', JStr (harness_str (cfg_harness c))),
      (''model'', opt_str (cfg_model c)),
      (''reasoning'', opt_str (map_option reasoning_str (cfg_reasoning c))),
      (''modelOptions'', JObj (cfg_model_options c)),
      (''sandbox'', JStr (sandbox_str (cfg_sandbox c)))]
     @ (case cfg_mcp_servers c of None \<Rightarrow> [] | Some l \<Rightarrow> [(''mcpServers'', JArr (map JStr l))])))"

definition device_set :: "device \<Rightarrow> (string, json) btree" where
  "device_set d = mk_fields
     [(''id'', JStr (dev_id d)), (''name'', JStr (dev_name d)), (''platform'', JStr (dev_platform d)),
      (''lastSeenAt'', opt_ms (dev_last_seen_at d)), (''createdAt'', opt_ms (dev_created_at d)),
      (''version'', opt_str (dev_version d))]"

definition space_set :: "space \<Rightarrow> (string, json) btree" where
  "space_set s = mk_fields
     [(''id'', JStr (sp_id s)), (''deviceId'', JStr (sp_device_id s)), (''path'', JStr (sp_path s)),
      (''name'', opt_str (sp_name s)), (''gitDetected'', JBool (sp_git_detected s)),
      (''gitCheckedAt'', opt_ms (sp_git_checked_at s)), (''checkoutId'', opt_str (sp_checkout_id s)),
      (''createdAt'', JNum (sp_created_at s))]"

text \<open>The fifteen fields both chat writers share; \<open>upsert_chat\<close> adds the room generation.\<close>

definition chat_entries :: "chat \<Rightarrow> (string \<times> json) list" where
  "chat_entries c =
     [(''id'', JStr (ch_id c)), (''deviceId'', JStr (ch_device_id c)), (''title'', opt_str (ch_title c)),
      (''archived'', JBool (ch_archived c)), (''cwd'', opt_str (ch_cwd c)), (''branch'', opt_str (ch_branch c)),
      (''checkoutId'', opt_str (ch_checkout_id c)),
      (''config'', case ch_config c of Some config \<Rightarrow> config_to_value config | None \<Rightarrow> JNull),
      (''lastMessagePreview'', opt_str (ch_last_message_preview c)),
      (''lastMessageAt'', opt_ms (ch_last_message_at c)), (''createdAt'', JNum (ch_created_at c)),
      (''harnessSessionId'', opt_str (ch_harness_session_id c)),
      (''harnessSessionCwd'', opt_str (ch_harness_session_cwd c)), (''spaceId'', opt_str (ch_space_id c)),
      (''lastSeenAt'', opt_ms (ch_last_seen_at c))]"

definition chat_set :: "chat \<Rightarrow> (string, json) btree" where
  "chat_set c = mk_fields (chat_entries c @
     [(''roomGen'', case ch_room_gen c of Some g \<Rightarrow> JNum (int g) | None \<Rightarrow> JNull)])"

definition session_set :: "session \<Rightarrow> (string, json) btree" where
  "session_set s = mk_fields
     [(''chatId'', JStr (ss_chat_id s)), (''deviceId'', JStr (ss_device_id s)),
      (''status'', JStr (status_str (ss_status s))), (''startedAt'', opt_ms (ss_started_at s)),
      (''updatedAt'', JNum (ss_updated_at s))]"

section \<open>Reading rows\<close>

text \<open>The raw shapes: deserialised from the fields of a row, times in milliseconds.\<close>

definition parse_device :: "(string, json) btree \<Rightarrow> device option" where
  "parse_device fs = do {
     i \<leftarrow> req as_str fs ''id'';
     n \<leftarrow> req as_str fs ''name'';
     p \<leftarrow> req as_str fs ''platform'';
     seen \<leftarrow> opt as_i64 fs ''lastSeenAt'';
     created \<leftarrow> opt as_i64 fs ''createdAt'';
     v \<leftarrow> opt as_str fs ''version'';
     Some \<lparr>dev_id = i, dev_name = n, dev_platform = p, dev_last_seen_at = seen,
           dev_created_at = created, dev_version = v\<rparr> }"

definition parse_space :: "(string, json) btree \<Rightarrow> space option" where
  "parse_space fs = do {
     i \<leftarrow> req as_str fs ''id'';
     d \<leftarrow> req as_str fs ''deviceId'';
     p \<leftarrow> req as_str fs ''path'';
     n \<leftarrow> opt as_str fs ''name'';
     git \<leftarrow> dflt False as_bool fs ''gitDetected'';
     checked \<leftarrow> opt as_i64 fs ''gitCheckedAt'';
     checkout \<leftarrow> opt as_str fs ''checkoutId'';
     created \<leftarrow> dflt 0 as_i64 fs ''createdAt'';
     Some \<lparr>sp_id = i, sp_device_id = d, sp_path = p, sp_name = n, sp_git_detected = git,
           sp_git_checked_at = checked, sp_checkout_id = checkout, sp_created_at = created\<rparr> }"

definition parse_chat :: "(string, json) btree \<Rightarrow> chat option" where
  "parse_chat fs = do {
     i \<leftarrow> req as_str fs ''id'';
     d \<leftarrow> req as_str fs ''deviceId'';
     title \<leftarrow> opt as_str fs ''title'';
     archived \<leftarrow> dflt False as_bool fs ''archived'';
     cwd \<leftarrow> opt as_str fs ''cwd'';
     branch \<leftarrow> opt as_str fs ''branch'';
     checkout \<leftarrow> opt as_str fs ''checkoutId'';
     config \<leftarrow> opt parse_config fs ''config'';
     preview \<leftarrow> opt as_str fs ''lastMessagePreview'';
     msg_at \<leftarrow> opt as_i64 fs ''lastMessageAt'';
     created \<leftarrow> dflt 0 as_i64 fs ''createdAt'';
     hs \<leftarrow> opt as_str fs ''harnessSessionId'';
     hs_cwd \<leftarrow> opt as_str fs ''harnessSessionCwd'';
     sp \<leftarrow> opt as_str fs ''spaceId'';
     seen \<leftarrow> opt as_i64 fs ''lastSeenAt'';
     gen \<leftarrow> opt (as_uint 32) fs ''roomGen'';
     Some \<lparr>ch_id = i, ch_device_id = d, ch_title = title, ch_archived = archived, ch_cwd = cwd,
           ch_branch = branch, ch_checkout_id = checkout, ch_config = config,
           ch_last_message_preview = preview, ch_last_message_at = msg_at, ch_created_at = created,
           ch_harness_session_id = hs, ch_harness_session_cwd = hs_cwd, ch_space_id = sp,
           ch_last_seen_at = seen, ch_room_gen = gen\<rparr> }"

definition parse_session :: "(string, json) btree \<Rightarrow> session option" where
  "parse_session fs = do {
     c \<leftarrow> req as_str fs ''chatId'';
     d \<leftarrow> req as_str fs ''deviceId'';
     st \<leftarrow> req parse_status fs ''status'';
     started \<leftarrow> opt as_i64 fs ''startedAt'';
     updated \<leftarrow> dflt 0 as_i64 fs ''updatedAt'';
     tokens \<leftarrow> opt (as_uint 64) fs ''contextTokens'';
     Some \<lparr>ss_chat_id = c, ss_device_id = d, ss_status = st, ss_started_at = started,
           ss_updated_at = updated, ss_context_tokens = tokens\<rparr> }"

text \<open>From milliseconds to instants; a value chrono cannot represent reads as the epoch.\<close>

definition dt :: "(int \<Rightarrow> int option) \<Rightarrow> int \<Rightarrow> int" where
  "dt from_ms ms = (case from_ms ms of None \<Rightarrow> 0 | Some t \<Rightarrow> t)"

definition device_from :: "(int \<Rightarrow> int option) \<Rightarrow> device \<Rightarrow> device" where
  "device_from from_ms raw = raw\<lparr>dev_last_seen_at := map_option (dt from_ms) (dev_last_seen_at raw),
     dev_created_at := map_option (dt from_ms) (dev_created_at raw)\<rparr>"

definition space_from :: "(int \<Rightarrow> int option) \<Rightarrow> space \<Rightarrow> space" where
  "space_from from_ms raw = raw\<lparr>sp_git_checked_at := map_option (dt from_ms) (sp_git_checked_at raw),
     sp_created_at := dt from_ms (sp_created_at raw)\<rparr>"

definition chat_from :: "(int \<Rightarrow> int option) \<Rightarrow> chat \<Rightarrow> chat" where
  "chat_from from_ms raw = raw\<lparr>ch_last_message_at := map_option (dt from_ms) (ch_last_message_at raw),
     ch_created_at := dt from_ms (ch_created_at raw),
     ch_last_seen_at := map_option (dt from_ms) (ch_last_seen_at raw)\<rparr>"

definition session_from :: "(int \<Rightarrow> int option) \<Rightarrow> session \<Rightarrow> session" where
  "session_from from_ms raw = raw\<lparr>ss_started_at := map_option (dt from_ms) (ss_started_at raw),
     ss_updated_at := dt from_ms (ss_updated_at raw)\<rparr>"

section \<open>Round trips\<close>

lemma fields_get: "bt_get (mk_fields es) k = map_of (rev es) k"
  by (simp add: mk_fields_def bt_get_of_list)

lemma fields_wf [simp]: "bt_wf (mk_fields es)"
  by (simp add: mk_fields_def)

lemma parse_harness_str [simp]: "parse_harness (JStr (harness_str h)) = Some h"
  by (cases h) (simp_all add: parse_harness_def parse_variant_def)

lemma parse_reasoning_str [simp]: "parse_reasoning (JStr (reasoning_str r)) = Some r"
  by (cases r) (simp_all add: parse_reasoning_def parse_variant_def)

lemma parse_sandbox_str [simp]: "parse_sandbox (JStr (sandbox_str s)) = Some s"
  by (cases s) (simp_all add: parse_sandbox_def parse_variant_def)

lemma parse_status_str [simp]: "parse_status (JStr (status_str st)) = Some st"
  by (cases st) (simp_all add: parse_status_def parse_variant_def)

lemma as_strs_map [simp]: "those (map (as_str \<circ> JStr) l) = Some l"
  by (induction l) auto

lemma opt_of_simps [simp]:
  "opt_of p JNull = Some None"
  "opt_of as_str (opt_str v) = Some v"
  "opt_of parse_reasoning (opt_str (map_option reasoning_str r)) = Some r"
  by (cases v; cases r; simp add: opt_of_def opt_str_def)+

lemma opt_of_ms: "(\<And>t. v = Some t \<Longrightarrow> - (2 ^ 63) \<le> t \<and> t < 2 ^ 63) \<Longrightarrow> opt_of as_i64 (opt_ms v) = Some v"
  by (cases v) (simp_all add: opt_of_def opt_ms_def)

lemma parse_config_to_value [simp]: "parse_config (config_to_value c) = Some c"
  by (cases "cfg_mcp_servers c")
     (simp_all add: config_to_value_def req_def opt_def dflt_def fields_get config_of_def opt_of_def [of as_strs])

text \<open>
  A row that holds what a write stored: the written values, with the nulls left out. Reading a field
  of such a row reads the written value.
\<close>

definition holds :: "(string, json) btree \<Rightarrow> (string, json) btree \<Rightarrow> bool" where
  "holds fs s = list_all (\<lambda>(k, v). bt_get fs k = (if is_null v then None else Some v)) s"

lemma holdsD: "holds fs s \<Longrightarrow> bt_get s k = Some v \<Longrightarrow> bt_get fs k = (if is_null v then None else Some v)"
  by (fastforce simp: holds_def list_all_iff dest: bt_get_SomeD)

lemma holdsI: "(\<And>k v. bt_get s k = Some v \<Longrightarrow> bt_get fs k = (if is_null v then None else Some v)) \<Longrightarrow> bt_wf s \<Longrightarrow> holds fs s"
  by (auto simp: holds_def list_all_iff bt_get_mem)

lemma read_written:
  assumes "holds fs s" "bt_get s k = Some v"
  shows "\<not> is_null v \<Longrightarrow> req p fs k = p v" "opt q fs k = opt_of q v" "\<not> is_null v \<Longrightarrow> dflt d p fs k = p v"
  using holdsD [OF assms] by (simp_all add: req_def opt_def dflt_def opt_of_def)

text \<open>What the Rust types guarantee of a value: instants in \<open>i64\<close> milliseconds, a 32-bit generation.\<close>

definition i64 :: "int \<Rightarrow> bool" where
  "i64 t = (- (2 ^ 63) \<le> t \<and> t < 2 ^ 63)"

lemma as_i64_JNum: "i64 t \<Longrightarrow> as_i64 (JNum t) = Some t"
  by (simp add: i64_def)

lemma opt_ms_i64: "pred_option i64 v \<Longrightarrow> opt_of as_i64 (opt_ms v) = Some v"
  by (rule opt_of_ms) (auto simp: i64_def)

definition device_typed :: "device \<Rightarrow> bool" where
  "device_typed d = (pred_option i64 (dev_last_seen_at d) \<and> pred_option i64 (dev_created_at d))"

definition space_typed :: "space \<Rightarrow> bool" where
  "space_typed s = (pred_option i64 (sp_git_checked_at s) \<and> i64 (sp_created_at s))"

definition chat_typed :: "chat \<Rightarrow> bool" where
  "chat_typed c = (pred_option i64 (ch_last_message_at c) \<and> i64 (ch_created_at c) \<and>
     pred_option i64 (ch_last_seen_at c) \<and> pred_option (\<lambda>g. g < 2 ^ 32) (ch_room_gen c))"

definition session_typed :: "session \<Rightarrow> bool" where
  "session_typed s = (pred_option i64 (ss_started_at s) \<and> i64 (ss_updated_at s))"

lemma parse_device_set:
  assumes "device_typed d" "holds fs (device_set d)"
  shows "parse_device fs = Some d"
proof -
  note w = read_written [OF assms(2), unfolded device_set_def fields_get]
  show ?thesis using assms(1) by (simp add: parse_device_def w opt_ms_i64 device_typed_def)
qed

lemma parse_space_set:
  assumes "space_typed s" "holds fs (space_set s)"
  shows "parse_space fs = Some s"
proof -
  note w = read_written [OF assms(2), unfolded space_set_def fields_get]
  show ?thesis using assms(1) by (simp add: parse_space_def w opt_ms_i64 as_i64_JNum space_typed_def del: as_i64.simps)
qed

lemma parse_chat_set:
  assumes "chat_typed c" "holds fs (chat_set c)"
  shows "parse_chat fs = Some c"
proof -
  note w = read_written [OF assms(2), unfolded chat_set_def chat_entries_def fields_get]
  have "opt_of parse_config (case ch_config c of Some config \<Rightarrow> config_to_value config | None \<Rightarrow> JNull) =
      Some (ch_config c)"
    by (cases "ch_config c") (simp_all add: opt_of_def config_to_value_def [THEN arg_cong, of is_null])
  moreover have "opt_of (as_uint 32) (case ch_room_gen c of Some g \<Rightarrow> JNum (int g) | None \<Rightarrow> JNull) =
      Some (ch_room_gen c)"
    using assms(1) by (cases "ch_room_gen c") (simp_all add: opt_of_def chat_typed_def)
  ultimately show ?thesis
    using assms(1) by (simp add: parse_chat_def w opt_ms_i64 as_i64_JNum chat_typed_def del: as_i64.simps)
qed

text \<open>A session row carries no context token count of its own: the writer leaves that field alone.\<close>

lemma parse_session_set:
  assumes "session_typed s" "holds fs (session_set s)"
  shows "parse_session fs =
    map_option (\<lambda>tokens. s\<lparr>ss_context_tokens := tokens\<rparr>) (opt (as_uint 64) fs ''contextTokens'')"
proof -
  note w = read_written [OF assms(2), unfolded session_set_def fields_get]
  show ?thesis using assms(1)
    by (cases "opt (as_uint 64) fs ''contextTokens''")
       (simp_all add: parse_session_def w opt_ms_i64 as_i64_JNum session_typed_def del: as_i64.simps)
qed

text \<open>Instants read back as they were written when chrono represents them.\<close>

lemma dt_id: "from_ms t = Some t \<Longrightarrow> dt from_ms t = t"
  by (simp add: dt_def)

lemma map_dt_id: "pred_option (\<lambda>t. from_ms t = Some t) v \<Longrightarrow> map_option (dt from_ms) v = v"
  by (cases v) (simp_all add: dt_id)

lemma device_from_id:
  "pred_option (\<lambda>t. from_ms t = Some t) (dev_last_seen_at d) \<Longrightarrow>
   pred_option (\<lambda>t. from_ms t = Some t) (dev_created_at d) \<Longrightarrow> device_from from_ms d = d"
  by (simp add: device_from_def map_dt_id)

lemma chat_from_id:
  "pred_option (\<lambda>t. from_ms t = Some t) (ch_last_message_at c) \<Longrightarrow>
   pred_option (\<lambda>t. from_ms t = Some t) (ch_last_seen_at c) \<Longrightarrow> from_ms (ch_created_at c) = Some (ch_created_at c) \<Longrightarrow>
   chat_from from_ms c = c"
  by (simp add: chat_from_def map_dt_id dt_id)

end
