(* ===== verification/Registry_Doc.thy ===== *)
theory Registry_Doc
  imports Registry_Row Entities
begin

text \<open>
  The local registry replica (\<open>RegistryDoc\<close> in \<open>crates/doc/src/registry.rs\<close>): the server's rows, the
  batches not yet acknowledged, the clock, the frames a server sends, the local writes of the typed
  API, and the overlay every read goes through.
  The rows of the two-level hash map are one ordered map keyed by (kind, id); where the code iterates
  over the hash map the model iterates in key order. The wall clock is an argument: \<open>now i\<close> is the
  \<open>i\<close>-th reading an operation makes. The typed writers return \<open>Result\<close> only for the serialisation of
  a configuration, which cannot fail, so the model returns the plain value.
\<close>

section \<open>State\<close>

definition KIND_DEVICES :: string where "KIND_DEVICES = ''devices''"
definition KIND_SPACES :: string where "KIND_SPACES = ''spaces''"
definition KIND_CHATS :: string where "KIND_CHATS = ''chats''"
definition KIND_SESSIONS :: string where "KIND_SESSIONS = ''sessions''"

record pending_batch =
  pb_batch :: string
  pb_ops :: "row_op list"
  pb_in_flight :: bool

datatype state_outcome = Delta | Replaced | Reseeded

record registry_doc =
  doc_device :: string
  authoritative :: "(string \<times> string, registry_row) btree"
  server_seq :: nat
  gc_floor :: nat
  doc_clock :: hlc_clock
  pending :: "pending_batch list"
  generation :: nat

definition new_doc :: "string \<Rightarrow> registry_doc" where
  "new_doc device = \<lparr>doc_device = device, authoritative = [], server_seq = 0, gc_floor = 0,
     doc_clock = hlc_clock_default, pending = [], generation = 0\<rparr>"

definition put_authoritative :: "registry_row \<Rightarrow> registry_doc \<Rightarrow> registry_doc" where
  "put_authoritative row d = d\<lparr>authoritative := bt_insert (row_kind row, row_id row) row (authoritative d)\<rparr>"

section \<open>Persistence\<close>

record persisted_state =
  ps_v :: nat
  ps_device_id :: string
  ps_server_seq :: nat
  ps_gc_floor :: nat
  ps_clock :: hlc_clock
  ps_rows :: "registry_row list"
  ps_pending :: "(string \<times> row_op list) list"

datatype doc_error = Schema nat | Decode

text \<open>
  The JSON encoding is serde's: \<open>ser\<close> and \<open>de\<close> are parameters. A batch is stored without its in-flight
  mark, which a restart resets.
\<close>

definition to_bytes :: "(persisted_state \<Rightarrow> 'bytes) \<Rightarrow> registry_doc \<Rightarrow> 'bytes" where
  "to_bytes ser d = ser \<lparr>ps_v = 1, ps_device_id = doc_device d, ps_server_seq = server_seq d,
     ps_gc_floor = gc_floor d, ps_clock = doc_clock d, ps_rows = bt_values (authoritative d),
     ps_pending = map (\<lambda>b. (pb_batch b, pb_ops b)) (pending d)\<rparr>"

definition from_bytes :: "('bytes \<Rightarrow> persisted_state option) \<Rightarrow> 'bytes \<Rightarrow> string \<Rightarrow> doc_error + registry_doc" where
  "from_bytes de bytes device =
     (case de bytes of
        None \<Rightarrow> Inl Decode
      | Some st \<Rightarrow>
          if ps_v st \<noteq> 1 then Inl (Schema (ps_v st))
          else Inr (fold put_authoritative (ps_rows st)
            ((new_doc device)\<lparr>server_seq := ps_server_seq st, gc_floor := ps_gc_floor st,
               doc_clock := ps_clock st,
               pending := map (\<lambda>(b, ops). \<lparr>pb_batch = b, pb_ops = ops, pb_in_flight = False\<rparr>) (ps_pending st)\<rparr>)))"

section \<open>Local writes\<close>

definition next_hlc :: "int \<Rightarrow> registry_doc \<Rightarrow> registry_doc \<times> string" where
  "next_hlc now d = (let (c, h) = hlc_next (doc_clock d) now (doc_device d) in (d\<lparr>doc_clock := c\<rparr>, h))"

definition max_ops_per_batch :: nat where "max_ops_per_batch = 400"

text \<open>The chunking loop of \<open>enqueue_ops\<close>: one pending batch and one clock tick per chunk.\<close>

function enqueue_chunks :: "(nat \<Rightarrow> int) \<Rightarrow> row_op list \<Rightarrow> registry_doc \<Rightarrow> registry_doc" where
  "enqueue_chunks now ops d =
     (if ops = [] then d
      else let tail = (if max_ops_per_batch < length ops then drop max_ops_per_batch ops else []);
               chunk = (if max_ops_per_batch < length ops then take max_ops_per_batch ops else ops);
               (d, h) = next_hlc (now 0) d
           in enqueue_chunks (\<lambda>i. now (Suc i)) tail
                (d\<lparr>pending := pending d @ [\<lparr>pb_batch = ''b-'' @ h, pb_ops = chunk, pb_in_flight = False\<rparr>]\<rparr>))"
  by pat_completeness auto
termination
  by (relation "measure (\<lambda>(now, ops, d). length ops)") (auto simp: max_ops_per_batch_def)

declare enqueue_chunks.simps [simp del]

definition enqueue_ops :: "(nat \<Rightarrow> int) \<Rightarrow> row_op list \<Rightarrow> registry_doc \<Rightarrow> registry_doc" where
  "enqueue_ops now ops d =
     (if ops = [] then d else enqueue_chunks now ops (d\<lparr>generation := generation d + 1\<rparr>))"

definition write_row :: "(nat \<Rightarrow> int) \<Rightarrow> string \<Rightarrow> string \<Rightarrow> op_kind \<Rightarrow> (string, json) btree \<Rightarrow>
    registry_doc \<Rightarrow> registry_doc" where
  "write_row now kind rid k s d =
     (let (d, h) = next_hlc (now 0) d
      in enqueue_ops (\<lambda>i. now (Suc i))
           [\<lparr>op_row_kind = kind, op_row_id = rid, op_kind = k, op_set = Some s, op_hlc = h, op_clocks = None\<rparr>] d)"

definition delete_row_ops :: "(nat \<Rightarrow> int) \<Rightarrow> (string \<times> string) list \<Rightarrow> registry_doc \<Rightarrow> registry_doc" where
  "delete_row_ops now keys d =
     (let (d, h) = next_hlc (now 0) d
      in enqueue_ops (\<lambda>i. now (Suc i))
           (map (\<lambda>(kind, rid). \<lparr>op_row_kind = kind, op_row_id = rid, op_kind = Delete, op_set = None,
                                 op_hlc = h, op_clocks = None\<rparr>) keys) d)"

section \<open>Server frames\<close>

definition apply_state :: "(nat \<Rightarrow> int) \<Rightarrow> nat \<Rightarrow> bool \<Rightarrow> nat \<Rightarrow> registry_row list \<Rightarrow> registry_doc \<Rightarrow>
    registry_doc \<times> state_outcome" where
  "apply_state now sq full floor rows d =
     (let d = d\<lparr>generation := generation d + 1\<rparr>
      in if \<not> full then
           ((fold put_authoritative rows d)\<lparr>server_seq := sq, gc_floor := floor\<rparr>, Delta)
         else if sq < server_seq d then
           let seed = map row_to_seed_op (bt_values (authoritative d));
               d = (fold put_authoritative rows d)\<lparr>server_seq := sq, gc_floor := floor\<rparr>
           in (if seed \<noteq> [] then enqueue_ops now seed d else d, Reseeded)
         else
           let incoming = fold (\<lambda>row. bt_insert (row_kind row, row_id row) row) rows [];
               seed = map (row_to_seed_op \<circ> snd)
                        (filter (\<lambda>(key, row). \<not> bt_contains incoming key) (authoritative d));
               d = d\<lparr>authoritative := incoming, server_seq := sq, gc_floor := floor\<rparr>
           in if seed = [] then (d, Replaced) else (enqueue_ops now seed d, Reseeded))"

definition apply_rows :: "nat \<Rightarrow> registry_row list \<Rightarrow> registry_doc \<Rightarrow> registry_doc" where
  "apply_rows sq rows d =
     (let d = fold put_authoritative rows (d\<lparr>generation := generation d + 1\<rparr>)
      in if server_seq d < sq then d\<lparr>server_seq := sq\<rparr> else d)"

definition ack_batch :: "string \<Rightarrow> nat \<Rightarrow> registry_doc \<Rightarrow> registry_doc \<times> bool" where
  "ack_batch batch sq d =
     (let before = length (pending d);
          d = d\<lparr>pending := filter (\<lambda>b. pb_batch b \<noteq> batch) (pending d)\<rparr>;
          d = (if server_seq d < sq then d\<lparr>server_seq := sq\<rparr> else d)
      in if length (pending d) \<noteq> before then (d\<lparr>generation := generation d + 1\<rparr>, True) else (d, False))"

definition take_pushable :: "registry_doc \<Rightarrow> registry_doc \<times> pending_batch list" where
  "take_pushable d =
     (d\<lparr>pending := map (\<lambda>b. b\<lparr>pb_in_flight := True\<rparr>) (pending d)\<rparr>,
      map (\<lambda>b. b\<lparr>pb_in_flight := True\<rparr>) (filter (\<lambda>b. \<not> pb_in_flight b) (pending d)))"

definition mark_disconnected :: "registry_doc \<Rightarrow> registry_doc" where
  "mark_disconnected d = d\<lparr>pending := map (\<lambda>b. b\<lparr>pb_in_flight := False\<rparr>) (pending d)\<rparr>"

section \<open>Overlay reads\<close>

definition overlay_row :: "registry_doc \<Rightarrow> string \<Rightarrow> string \<Rightarrow> registry_row option" where
  "overlay_row d kind rid =
     (let row = fold (\<lambda>batch row. fold (\<lambda>op row.
                   if op_row_kind op = kind \<and> op_row_id op = rid
                   then (case apply_op row op of (Some next, _) \<Rightarrow> Some next | (None, _) \<Rightarrow> row)
                   else row) (pb_ops batch) row)
                (pending d) (bt_get (authoritative d) (kind, rid))
      in case row of None \<Rightarrow> None | Some r \<Rightarrow> if deleted r then None else Some r)"

definition overlay_ids :: "registry_doc \<Rightarrow> string \<Rightarrow> string list" where
  "overlay_ids d kind =
     fold (\<lambda>batch ids. fold (\<lambda>op ids.
         if op_row_kind op = kind \<and> op_row_id op \<notin> set ids then ids @ [op_row_id op] else ids) (pb_ops batch) ids)
       (pending d) (map snd (filter (\<lambda>k. fst k = kind) (bt_keys (authoritative d))))"

definition overlay_rows :: "registry_doc \<Rightarrow> string \<Rightarrow> registry_row list" where
  "overlay_rows d kind = List.map_filter (overlay_row d kind) (overlay_ids d kind)"

text \<open>Rows that do not deserialise are skipped.\<close>

definition read_kind :: "((string, json) btree \<Rightarrow> 'a option) \<Rightarrow> string \<Rightarrow> registry_doc \<Rightarrow> 'a list" where
  "read_kind parse kind d = List.map_filter (\<lambda>row. parse (row_fields row)) (overlay_rows d kind)"

definition row_exists :: "registry_doc \<Rightarrow> string \<Rightarrow> string \<Rightarrow> bool" where
  "row_exists d kind rid = (overlay_row d kind rid \<noteq> None)"

section \<open>The typed API\<close>

text \<open>The shape of every LWW setter: no write and \<open>False\<close> when the row does not exist.\<close>

definition set_fields :: "(nat \<Rightarrow> int) \<Rightarrow> string \<Rightarrow> string \<Rightarrow> (string \<times> json) list \<Rightarrow> registry_doc \<Rightarrow>
    registry_doc \<times> bool" where
  "set_fields now kind rid es d =
     (if \<not> row_exists d kind rid then (d, False) else (write_row now kind rid Update (mk_fields es) d, True))"

definition upsert_device :: "(nat \<Rightarrow> int) \<Rightarrow> device \<Rightarrow> registry_doc \<Rightarrow> registry_doc" where
  "upsert_device now dev d = write_row now KIND_DEVICES (dev_id dev) Upsert (device_set dev) d"

definition rename_device :: "(nat \<Rightarrow> int) \<Rightarrow> string \<Rightarrow> string \<Rightarrow> registry_doc \<Rightarrow> registry_doc \<times> bool" where
  "rename_device now dev nm = set_fields now KIND_DEVICES dev [(''name'', JStr nm)]"

definition set_device_last_seen :: "(nat \<Rightarrow> int) \<Rightarrow> string \<Rightarrow> int \<Rightarrow> registry_doc \<Rightarrow> registry_doc \<times> bool" where
  "set_device_last_seen now dev at = set_fields now KIND_DEVICES dev [(''lastSeenAt'', JNum at)]"

definition read_devices :: "(int \<Rightarrow> int option) \<Rightarrow> registry_doc \<Rightarrow> device list" where
  "read_devices from_ms d = sort_key dev_id (map (device_from from_ms) (read_kind parse_device KIND_DEVICES d))"

definition upsert_space :: "(nat \<Rightarrow> int) \<Rightarrow> space \<Rightarrow> registry_doc \<Rightarrow> registry_doc" where
  "upsert_space now s d = write_row now KIND_SPACES (sp_id s) Upsert (space_set s) d"

definition read_space :: "(int \<Rightarrow> int option) \<Rightarrow> registry_doc \<Rightarrow> string \<Rightarrow> space option" where
  "read_space from_ms d sid =
     map_option (space_from from_ms)
       (case overlay_row d KIND_SPACES sid of None \<Rightarrow> None | Some row \<Rightarrow> parse_space (row_fields row))"

definition read_spaces :: "(int \<Rightarrow> int option) \<Rightarrow> registry_doc \<Rightarrow> space list" where
  "read_spaces from_ms d = sort_key sp_id (map (space_from from_ms) (read_kind parse_space KIND_SPACES d))"

definition rename_space :: "(nat \<Rightarrow> int) \<Rightarrow> string \<Rightarrow> string option \<Rightarrow> registry_doc \<Rightarrow> registry_doc \<times> bool" where
  "rename_space now sid nm = set_fields now KIND_SPACES sid [(''name'', opt_str nm)]"

definition set_space_git :: "(nat \<Rightarrow> int) \<Rightarrow> string \<Rightarrow> bool \<Rightarrow> string option \<Rightarrow> int \<Rightarrow> registry_doc \<Rightarrow>
    registry_doc \<times> bool" where
  "set_space_git now sid detected checkout at = set_fields now KIND_SPACES sid
     [(''gitDetected'', JBool detected), (''checkoutId'', opt_str checkout), (''gitCheckedAt'', JNum at)]"

definition upsert_chat :: "(nat \<Rightarrow> int) \<Rightarrow> chat \<Rightarrow> registry_doc \<Rightarrow> registry_doc" where
  "upsert_chat now c d = write_row now KIND_CHATS (ch_id c) Upsert (chat_set c) d"

definition claim_chat :: "(nat \<Rightarrow> int) \<Rightarrow> string \<Rightarrow> string option \<Rightarrow> string option \<Rightarrow> int \<Rightarrow> registry_doc \<Rightarrow>
    registry_doc" where
  "claim_chat now cid cwd sid created d =
     (let s = mk_fields [(''id'', JStr cid), (''deviceId'', JStr (doc_device d)), (''createdAt'', JNum created)];
          s = (case cwd of Some c \<Rightarrow> bt_insert ''cwd'' (JStr c) s | None \<Rightarrow> s);
          s = (case sid of Some i \<Rightarrow> bt_insert ''spaceId'' (JStr i) s | None \<Rightarrow> s)
      in write_row now KIND_CHATS cid Upsert s d)"

definition set_chat_seen :: "(nat \<Rightarrow> int) \<Rightarrow> string \<Rightarrow> int \<Rightarrow> registry_doc \<Rightarrow> registry_doc \<times> bool" where
  "set_chat_seen now cid at d =
     (case overlay_row d KIND_CHATS cid of
        None \<Rightarrow> (d, False)
      | Some row \<Rightarrow>
          let current = (case bt_get (row_fields row) ''lastSeenAt'' of None \<Rightarrow> None | Some v \<Rightarrow> as_i64 v)
          in if (case current of None \<Rightarrow> False | Some ms \<Rightarrow> at \<le> ms) then (d, True)
             else (write_row now KIND_CHATS cid Update (mk_fields [(''lastSeenAt'', JNum at)]) d, True))"

definition read_chat :: "(int \<Rightarrow> int option) \<Rightarrow> registry_doc \<Rightarrow> string \<Rightarrow> chat option" where
  "read_chat from_ms d cid =
     map_option (chat_from from_ms)
       (case overlay_row d KIND_CHATS cid of None \<Rightarrow> None | Some row \<Rightarrow> parse_chat (row_fields row))"

definition read_chats :: "(int \<Rightarrow> int option) \<Rightarrow> registry_doc \<Rightarrow> chat list" where
  "read_chats from_ms d = sort_key ch_id (map (chat_from from_ms) (read_kind parse_chat KIND_CHATS d))"

definition rename_chat :: "(nat \<Rightarrow> int) \<Rightarrow> string \<Rightarrow> string \<Rightarrow> registry_doc \<Rightarrow> registry_doc \<times> bool" where
  "rename_chat now cid title = set_fields now KIND_CHATS cid [(''title'', JStr title)]"

definition set_chat_archived :: "(nat \<Rightarrow> int) \<Rightarrow> string \<Rightarrow> bool \<Rightarrow> registry_doc \<Rightarrow> registry_doc \<times> bool" where
  "set_chat_archived now cid archived = set_fields now KIND_CHATS cid [(''archived'', JBool archived)]"

definition set_chat_room_gen :: "(nat \<Rightarrow> int) \<Rightarrow> string \<Rightarrow> nat \<Rightarrow> registry_doc \<Rightarrow> registry_doc \<times> bool" where
  "set_chat_room_gen now cid gen = set_fields now KIND_CHATS cid [(''roomGen'', JNum (int gen))]"

definition set_chat_branch :: "(nat \<Rightarrow> int) \<Rightarrow> string \<Rightarrow> string \<Rightarrow> registry_doc \<Rightarrow> registry_doc \<times> bool" where
  "set_chat_branch now cid branch = set_fields now KIND_CHATS cid [(''branch'', JStr branch)]"

definition set_chat_cwd :: "(nat \<Rightarrow> int) \<Rightarrow> string \<Rightarrow> string \<Rightarrow> registry_doc \<Rightarrow> registry_doc \<times> bool" where
  "set_chat_cwd now cid cwd = set_fields now KIND_CHATS cid [(''cwd'', JStr cwd)]"

definition set_chat_checkout :: "(nat \<Rightarrow> int) \<Rightarrow> string \<Rightarrow> string \<Rightarrow> registry_doc \<Rightarrow> registry_doc \<times> bool" where
  "set_chat_checkout now cid checkout = set_fields now KIND_CHATS cid [(''checkoutId'', JStr checkout)]"

definition set_chat_config :: "(nat \<Rightarrow> int) \<Rightarrow> string \<Rightarrow> chat_config \<Rightarrow> registry_doc \<Rightarrow> registry_doc \<times> bool" where
  "set_chat_config now cid config = set_fields now KIND_CHATS cid [(''config'', config_to_value config)]"

definition set_chat_harness_session :: "(nat \<Rightarrow> int) \<Rightarrow> string \<Rightarrow> string \<Rightarrow> string \<Rightarrow> registry_doc \<Rightarrow>
    registry_doc \<times> bool" where
  "set_chat_harness_session now cid sess cwd = set_fields now KIND_CHATS cid
     [(''harnessSessionId'', JStr sess), (''harnessSessionCwd'', JStr cwd)]"

definition set_chat_last_message :: "(nat \<Rightarrow> int) \<Rightarrow> string \<Rightarrow> string \<Rightarrow> int \<Rightarrow> registry_doc \<Rightarrow>
    registry_doc \<times> bool" where
  "set_chat_last_message now cid preview at = set_fields now KIND_CHATS cid
     [(''lastMessagePreview'', JStr preview), (''lastMessageAt'', JNum at)]"

definition delete_chat :: "(nat \<Rightarrow> int) \<Rightarrow> string \<Rightarrow> registry_doc \<Rightarrow> registry_doc \<times> bool" where
  "delete_chat now cid d =
     (let existed = row_exists d KIND_CHATS cid
      in (delete_row_ops now [(KIND_CHATS, cid), (KIND_SESSIONS, cid)] d, existed))"

text \<open>The cascade: the chats of the space, their sessions, then the space. Returns whether it existed and the chat ids.\<close>

definition space_chat_ids :: "(int \<Rightarrow> int option) \<Rightarrow> string \<Rightarrow> registry_doc \<Rightarrow> string list" where
  "space_chat_ids from_ms sid d = map ch_id (filter (\<lambda>c. ch_space_id c = Some sid) (read_chats from_ms d))"

definition cascade_keys :: "string list \<Rightarrow> string \<Rightarrow> (string \<times> string) list" where
  "cascade_keys chat_ids sid =
     concat (map (\<lambda>c. [(KIND_CHATS, c), (KIND_SESSIONS, c)]) chat_ids) @ [(KIND_SPACES, sid)]"

definition delete_space :: "(int \<Rightarrow> int option) \<Rightarrow> (nat \<Rightarrow> int) \<Rightarrow> string \<Rightarrow> registry_doc \<Rightarrow>
    registry_doc \<times> bool \<times> string list" where
  "delete_space from_ms now sid d =
     (let existed = row_exists d KIND_SPACES sid;
          chat_ids = space_chat_ids from_ms sid d
      in (delete_row_ops now (cascade_keys chat_ids sid) d, existed, chat_ids))"

definition upsert_session :: "(nat \<Rightarrow> int) \<Rightarrow> session \<Rightarrow> registry_doc \<Rightarrow> registry_doc" where
  "upsert_session now s d = write_row now KIND_SESSIONS (ss_chat_id s) Upsert (session_set s) d"

definition read_sessions :: "(int \<Rightarrow> int option) \<Rightarrow> registry_doc \<Rightarrow> session list" where
  "read_sessions from_ms d =
     sort_key ss_chat_id (map (session_from from_ms) (read_kind parse_session KIND_SESSIONS d))"

record workspace_state =
  ws_devices :: "device list"
  ws_spaces :: "space list"
  ws_chats :: "chat list"
  ws_sessions :: "session list"

definition read_all :: "(int \<Rightarrow> int option) \<Rightarrow> registry_doc \<Rightarrow> workspace_state" where
  "read_all from_ms d = \<lparr>ws_devices = read_devices from_ms d, ws_spaces = read_spaces from_ms d,
     ws_chats = read_chats from_ms d, ws_sessions = read_sessions from_ms d\<rparr>"

section \<open>Migration\<close>

definition newest :: "int option list \<Rightarrow> int" where
  "newest candidates =
     (case List.map_filter id candidates of [] \<Rightarrow> 1 | t # ts \<Rightarrow> fold max ts t)"

definition seed_op :: "string \<Rightarrow> string \<Rightarrow> int \<Rightarrow> (string, json) btree \<Rightarrow> row_op" where
  "seed_op kind rid ms s = \<lparr>op_row_kind = kind, op_row_id = rid, op_kind = Upsert, op_set = Some s,
     op_hlc = encode_hlc (max ms 1) 0 ''migration'', op_clocks = None\<rparr>"

definition seed_ops :: "workspace_state \<Rightarrow> row_op list" where
  "seed_ops st =
     map (\<lambda>d. seed_op KIND_DEVICES (dev_id d) (newest [dev_last_seen_at d, dev_created_at d]) (device_set d))
       (ws_devices st) @
     map (\<lambda>s. seed_op KIND_SPACES (sp_id s) (newest [sp_git_checked_at s, Some (sp_created_at s)]) (space_set s))
       (ws_spaces st) @
     map (\<lambda>c. seed_op KIND_CHATS (ch_id c)
         (newest [ch_last_message_at c, ch_last_seen_at c, Some (ch_created_at c)]) (mk_fields (chat_entries c)))
       (ws_chats st) @
     map (\<lambda>s. seed_op KIND_SESSIONS (ss_chat_id s) (newest [Some (ss_updated_at s), ss_started_at s]) (session_set s))
       (ws_sessions st)"

text \<open>\<open>ops.chunks(400)\<close>, each chunk enqueued on its own with one clock reading.\<close>

function seed_chunks :: "(nat \<Rightarrow> int) \<Rightarrow> row_op list \<Rightarrow> registry_doc \<Rightarrow> registry_doc" where
  "seed_chunks now ops d =
     (if ops = [] then d
      else seed_chunks (\<lambda>i. now (Suc i)) (drop 400 ops) (enqueue_ops now (take 400 ops) d))"
  by pat_completeness auto
termination
  by (relation "measure (\<lambda>(now, ops, d). length ops)") auto

declare seed_chunks.simps [simp del]

definition seed_from_workspace :: "(nat \<Rightarrow> int) \<Rightarrow> workspace_state \<Rightarrow> registry_doc \<Rightarrow> registry_doc \<times> nat" where
  "seed_from_workspace now st d = (seed_chunks now (seed_ops st) d, length (seed_ops st))"

section \<open>Enqueued operations\<close>

definition pending_ops :: "registry_doc \<Rightarrow> row_op list" where
  "pending_ops d = concat (map pb_ops (pending d))"

text \<open>What the chunks of an enqueue look like: in order, never empty, never above the cap.\<close>

definition fresh_batches :: "row_op list \<Rightarrow> pending_batch list \<Rightarrow> bool" where
  "fresh_batches ops bs = (concat (map pb_ops bs) = ops \<and>
     (\<forall>b \<in> set bs. pb_ops b \<noteq> [] \<and> length (pb_ops b) \<le> max_ops_per_batch \<and> \<not> pb_in_flight b))"

lemma next_hlc_simps [simp]:
  "authoritative (fst (next_hlc now d)) = authoritative d" "pending (fst (next_hlc now d)) = pending d"
  "doc_device (fst (next_hlc now d)) = doc_device d" "server_seq (fst (next_hlc now d)) = server_seq d"
  "gc_floor (fst (next_hlc now d)) = gc_floor d" "generation (fst (next_hlc now d)) = generation d"
  by (simp_all add: next_hlc_def case_prod_beta Let_def)

lemma enqueue_chunks_Nil [simp]: "enqueue_chunks now [] d = d"
  by (simp add: enqueue_chunks.simps)

text \<open>One turn of the loop: the first chunk becomes a batch, the rest is enqueued after it.\<close>

definition enqueue_first :: "int \<Rightarrow> row_op list \<Rightarrow> registry_doc \<Rightarrow> registry_doc" where
  "enqueue_first now ops d = (fst (next_hlc now d))\<lparr>pending := pending d @
     [\<lparr>pb_batch = ''b-'' @ snd (next_hlc now d), pb_ops = take max_ops_per_batch ops, pb_in_flight = False\<rparr>]\<rparr>"

lemma enqueue_chunks_step:
  "ops \<noteq> [] \<Longrightarrow> enqueue_chunks now ops d =
     enqueue_chunks (\<lambda>i. now (Suc i)) (drop max_ops_per_batch ops) (enqueue_first (now 0) ops d)"
  by (subst enqueue_chunks.simps) (simp add: case_prod_beta Let_def enqueue_first_def)

text \<open>Induction over the chunks.\<close>

lemma enqueue_chunks_induct [case_names Nil Step]:
  assumes "\<And>now d. P now [] d"
    and "\<And>now ops d. ops \<noteq> [] \<Longrightarrow>
      P (\<lambda>i. now (Suc i)) (drop max_ops_per_batch ops) (enqueue_first (now 0) ops d) \<Longrightarrow> P now ops d"
  shows "P now ops d"
proof (induction "length ops" arbitrary: now ops d rule: less_induct)
  case less
  then show ?case using assms by (cases "ops = []") (auto simp: max_ops_per_batch_def)
qed

lemma enqueue_first_simps [simp]:
  "authoritative (enqueue_first now ops d) = authoritative d"
  "doc_device (enqueue_first now ops d) = doc_device d" "server_seq (enqueue_first now ops d) = server_seq d"
  "gc_floor (enqueue_first now ops d) = gc_floor d" "generation (enqueue_first now ops d) = generation d"
  by (simp_all add: enqueue_first_def)

lemma enqueue_chunks_frame:
  "authoritative (enqueue_chunks now ops d) = authoritative d \<and> doc_device (enqueue_chunks now ops d) = doc_device d \<and>
   server_seq (enqueue_chunks now ops d) = server_seq d \<and> gc_floor (enqueue_chunks now ops d) = gc_floor d \<and>
   generation (enqueue_chunks now ops d) = generation d"
  by (induction now ops d rule: enqueue_chunks_induct) (simp_all add: enqueue_chunks_step)

lemma enqueue_chunks_pending:
  "\<exists>bs. pending (enqueue_chunks now ops d) = pending d @ bs \<and> fresh_batches ops bs"
proof (induction now ops d rule: enqueue_chunks_induct)
  case (Step now ops d)
  then obtain bs where bs: "pending (enqueue_chunks now ops d) = pending (enqueue_first (now 0) ops d) @ bs"
    "fresh_batches (drop max_ops_per_batch ops) bs"
    by (auto simp: enqueue_chunks_step)
  then show ?case using Step(1)
    by (intro exI [of _ "last (pending (enqueue_first (now 0) ops d)) # bs"])
       (auto simp: fresh_batches_def enqueue_first_def max_ops_per_batch_def)
qed (simp add: fresh_batches_def)

lemma enqueue_ops_frame [simp]:
  "authoritative (enqueue_ops now ops d) = authoritative d" "doc_device (enqueue_ops now ops d) = doc_device d"
  "server_seq (enqueue_ops now ops d) = server_seq d" "gc_floor (enqueue_ops now ops d) = gc_floor d"
  by (simp_all add: enqueue_ops_def enqueue_chunks_frame)

lemma enqueue_ops_pending: "\<exists>bs. pending (enqueue_ops now ops d) = pending d @ bs \<and> fresh_batches ops bs"
proof (cases "ops = []")
  case False
  then show ?thesis
    using enqueue_chunks_pending [of now ops "d\<lparr>generation := generation d + 1\<rparr>"] by (simp add: enqueue_ops_def)
qed (simp add: enqueue_ops_def fresh_batches_def)

lemma pending_ops_enqueue [simp]: "pending_ops (enqueue_ops now ops d) = pending_ops d @ ops"
  using enqueue_ops_pending [of now ops d] by (auto simp: pending_ops_def fresh_batches_def)

section \<open>The overlay as a replay\<close>

text \<open>The row a read merges, tombstones included: the server's row with the pending operations replayed.\<close>

definition merged :: "registry_doc \<Rightarrow> string \<Rightarrow> string \<Rightarrow> registry_row option" where
  "merged d kind rid = apply_ops (filter (\<lambda>op. op_row_kind op = kind \<and> op_row_id op = rid) (pending_ops d))
     (bt_get (authoritative d) (kind, rid))"

lemma fold_filter_concat: "fold (\<lambda>x. fold f (filter P (g x))) xs s = fold f (filter P (concat (map g xs))) s"
  by (induction xs arbitrary: s) auto

lemma fold_if: "fold (\<lambda>x s. if P x then f x s else s) xs s = fold f (filter P xs) s"
  by (induction xs arbitrary: s) auto

lemma overlay_row_merged:
  "overlay_row d kind rid = (case merged d kind rid of None \<Rightarrow> None | Some r \<Rightarrow> if deleted r then None else Some r)"
proof -
  have "(\<lambda>op row. if op_row_kind op = kind \<and> op_row_id op = rid
        then (case apply_op row op of (Some next, _) \<Rightarrow> Some next | (None, _) \<Rightarrow> row) else row) =
      (\<lambda>op row. if op_row_kind op = kind \<and> op_row_id op = rid then apply_op_row op row else row)"
    by (intro ext) (auto simp: apply_op_row_def split: prod.splits option.splits)
  then show ?thesis
    by (simp add: overlay_row_def merged_def apply_ops_def pending_ops_def fold_if fold_filter_concat)
qed

lemma merged_enqueue:
  "merged (enqueue_ops now ops d) kind rid =
     apply_ops (filter (\<lambda>op. op_row_kind op = kind \<and> op_row_id op = rid) ops) (merged d kind rid)"
  by (simp add: merged_def apply_ops_def)

lemma merged_next_hlc [simp]: "merged (fst (next_hlc now d)) kind rid = merged d kind rid"
  by (simp add: merged_def pending_ops_def)

text \<open>The operation a local write enqueues.\<close>

definition write_op :: "(nat \<Rightarrow> int) \<Rightarrow> string \<Rightarrow> string \<Rightarrow> op_kind \<Rightarrow> (string, json) btree \<Rightarrow> registry_doc \<Rightarrow> row_op" where
  "write_op now kind rid k s d = \<lparr>op_row_kind = kind, op_row_id = rid, op_kind = k, op_set = Some s,
     op_hlc = snd (next_hlc (now 0) d), op_clocks = None\<rparr>"

lemma write_row_enqueue:
  "write_row now kind rid k s d =
     enqueue_ops (\<lambda>i. now (Suc i)) [write_op now kind rid k s d] (fst (next_hlc (now 0) d))"
  by (simp add: write_row_def write_op_def case_prod_beta Let_def)

lemma merged_write_row:
  "merged (write_row now kind rid k s d) kind' rid' =
     (if kind' = kind \<and> rid' = rid then apply_op_row (write_op now kind rid k s d) (merged d kind rid)
      else merged d kind' rid')"
  by (auto simp: write_row_enqueue merged_enqueue apply_ops_def write_op_def)

section \<open>The invariant of the replica\<close>

text \<open>
  Rows are stored under their own key and well-formed; batches are non-empty, within the cap, and
  their ids increase strictly up to the id of the clock's last tick.
\<close>

definition batch_id :: "registry_doc \<Rightarrow> string" where
  "batch_id d = ''b-'' @ encode_hlc (last_ms (doc_clock d)) (counter (doc_clock d)) (doc_device d)"

definition rows_keyed :: "(string \<times> string, registry_row) btree \<Rightarrow> bool" where
  "rows_keyed m = (bt_wf m \<and> list_all (\<lambda>(k, r). k = (row_kind r, row_id r) \<and> row_ok r) m)"

definition doc_ok :: "registry_doc \<Rightarrow> bool" where
  "doc_ok d = (rows_keyed (authoritative d) \<and> clock_ok (doc_clock d) \<and>
     list_all (\<lambda>b. pb_ops b \<noteq> [] \<and> length (pb_ops b) \<le> max_ops_per_batch \<and> pb_batch b \<le> batch_id d) (pending d) \<and>
     sorted_wrt (<) (map pb_batch (pending d)))"

definition in_time :: "registry_doc \<Rightarrow> bool" where
  "in_time d = (last_ms (doc_clock d) < 10 ^ 13)"

lemma rows_keyed_get: "rows_keyed m \<Longrightarrow> bt_get m k = Some r \<Longrightarrow> k = (row_kind r, row_id r) \<and> row_ok r"
  by (force simp: rows_keyed_def list_all_iff dest: bt_get_SomeD)

lemma rows_keyedI:
  "bt_wf m \<Longrightarrow> (\<And>k r. bt_get m k = Some r \<Longrightarrow> k = (row_kind r, row_id r) \<and> row_ok r) \<Longrightarrow> rows_keyed m"
  by (auto simp: rows_keyed_def list_all_iff bt_get_mem)

lemma rows_keyed_insert:
  assumes "rows_keyed m" "row_ok r"
  shows "rows_keyed (bt_insert (row_kind r, row_id r) r m)"
  using assms rows_keyed_get [OF assms(1)]
  by (intro rows_keyedI) (auto simp: rows_keyed_def split: if_splits)

lemma rows_keyed_inserts:
  "rows_keyed m \<Longrightarrow> list_all row_ok rows \<Longrightarrow>
   rows_keyed (fold (\<lambda>row. bt_insert (row_kind row, row_id row) row) rows m)"
  by (induction rows arbitrary: m) (auto simp: rows_keyed_insert)

lemma put_authoritative_simps [simp]:
  "fold put_authoritative rows d =
     d\<lparr>authoritative := fold (\<lambda>row. bt_insert (row_kind row, row_id row) row) rows (authoritative d)\<rparr>"
  by (induction rows arbitrary: d) (simp_all add: put_authoritative_def)

text \<open>A tick gives a batch id above every id issued so far.\<close>

lemma next_hlc_clock:
  "doc_clock (fst (next_hlc now d)) = fst (hlc_next (doc_clock d) now (doc_device d))"
  "''b-'' @ snd (next_hlc now d) = batch_id (fst (next_hlc now d))"
  by (simp_all add: next_hlc_def batch_id_def case_prod_beta Let_def hlc_next_encoded)

lemma batch_id_tick:
  assumes "clock_ok (doc_clock d)" "in_time (fst (next_hlc now d))"
  shows "batch_id d < batch_id (fst (next_hlc now d))"
proof -
  have ok: "clock_ok (doc_clock (fst (next_hlc now d)))"
    using assms(1) by (simp add: next_hlc_clock clock_ok_next)
  have "(last_ms (doc_clock d), counter (doc_clock d)) <
      (last_ms (doc_clock (fst (next_hlc now d))), counter (doc_clock (fst (next_hlc now d))))"
    using hlc_next_grows by (simp add: next_hlc_clock)
  then have "encode_hlc (last_ms (doc_clock d)) (counter (doc_clock d)) (doc_device d) <
      encode_hlc (last_ms (doc_clock (fst (next_hlc now d)))) (counter (doc_clock (fst (next_hlc now d)))) (doc_device d)"
    using ok assms last_ms_mono [of "doc_clock d" now "doc_device d"]
    by (subst encode_hlc_less_iff) (auto simp: clock_ok_def in_time_def next_hlc_clock)
  then show ?thesis by (simp add: batch_id_def)
qed

lemma in_time_mono: "in_time (fst (next_hlc now d)) \<Longrightarrow> in_time d"
  using last_ms_mono [of "doc_clock d" now "doc_device d"] by (simp add: in_time_def next_hlc_clock)

lemma doc_ok_tick:
  assumes "doc_ok d" "in_time (fst (next_hlc now d))"
  shows "doc_ok (fst (next_hlc now d))"
  using assms batch_id_tick [of d now]
  by (auto simp: doc_ok_def next_hlc_clock(1) clock_ok_next list_all_iff dest: order.strict_trans1)

lemma enqueue_first_pending:
  "pending (enqueue_first now ops d) = pending d @
     [\<lparr>pb_batch = batch_id (fst (next_hlc now d)), pb_ops = take max_ops_per_batch ops, pb_in_flight = False\<rparr>]"
  "doc_clock (enqueue_first now ops d) = doc_clock (fst (next_hlc now d))"
  "batch_id (enqueue_first now ops d) = batch_id (fst (next_hlc now d))"
  unfolding enqueue_first_def next_hlc_clock(2) by (simp_all add: batch_id_def)

lemma doc_ok_enqueue_first:
  assumes "doc_ok d" "in_time (fst (next_hlc now d))" "ops \<noteq> []"
  shows "doc_ok (enqueue_first now ops d)"
proof -
  have tick: "batch_id d < batch_id (fst (next_hlc now d))"
    using assms by (auto intro: batch_id_tick simp: doc_ok_def)
  with assms(1) have "\<forall>b \<in> set (pending d). pb_batch b < batch_id (fst (next_hlc now d))"
    by (auto simp: doc_ok_def list_all_iff dest: order.strict_trans1)
  with assms tick show ?thesis
    by (auto simp: doc_ok_def enqueue_first_pending list_all_iff sorted_wrt_append next_hlc_clock(1) clock_ok_next
        max_ops_per_batch_def)
qed

lemma last_ms_enqueue: "last_ms (doc_clock d) \<le> last_ms (doc_clock (enqueue_chunks now ops d))"
proof (induction now ops d rule: enqueue_chunks_induct)
  case (Step now ops d)
  have "last_ms (doc_clock d) \<le> last_ms (doc_clock (enqueue_first (now 0) ops d))"
    using last_ms_mono by (simp add: enqueue_first_def next_hlc_clock)
  with Step show ?case by (simp add: enqueue_chunks_step)
qed simp

lemma doc_ok_enqueue_chunks: "doc_ok d \<Longrightarrow> in_time (enqueue_chunks now ops d) \<Longrightarrow> doc_ok (enqueue_chunks now ops d)"
proof (induction now ops d rule: enqueue_chunks_induct)
  case (Step now ops d)
  have "in_time (fst (next_hlc (now 0) d))"
    using Step.prems(2) Step(1) last_ms_enqueue [of "enqueue_first (now 0) ops d"]
    by (auto simp: enqueue_chunks_step in_time_def enqueue_first_def dest: order.strict_trans1)
  then show ?case using Step by (simp add: enqueue_chunks_step doc_ok_enqueue_first)
qed simp

lemma doc_ok_enqueue_ops: "doc_ok d \<Longrightarrow> in_time (enqueue_ops now ops d) \<Longrightarrow> doc_ok (enqueue_ops now ops d)"
  using doc_ok_enqueue_chunks [of "d\<lparr>generation := generation d + 1\<rparr>" now ops]
  by (auto simp: enqueue_ops_def doc_ok_def batch_id_def)

section \<open>Steps of the replica\<close>

text \<open>
  Everything that changes a replica: a tick and a batch of operations (every writer of the typed API
  is one of these), the frames of a server whose rows are well-formed, acknowledgements, the
  bookkeeping of a connection, and a restart from disk (a lossless codec, so the stored state itself).
\<close>

inductive doc_step :: "registry_doc \<Rightarrow> registry_doc \<Rightarrow> bool" where
  step_write: "doc_step d (write_row now kind rid k s d)"
| step_delete: "doc_step d (delete_row_ops now keys d)"
| step_state: "list_all row_ok rows \<Longrightarrow> doc_step d (fst (apply_state now sq full floor rows d))"
| step_rows: "list_all row_ok rows \<Longrightarrow> doc_step d (apply_rows sq rows d)"
| step_ack: "doc_step d (fst (ack_batch batch sq d))"
| step_push: "doc_step d (fst (take_pushable d))"
| step_disconnect: "doc_step d (mark_disconnected d)"
| step_seed: "doc_step d (fst (seed_from_workspace now st d))"
| step_restart: "from_bytes Some (to_bytes id d) (doc_device d) = Inr d' \<Longrightarrow> doc_step d d'"

inductive doc_reachable :: "string \<Rightarrow> registry_doc \<Rightarrow> bool" for device where
  reach_new: "doc_reachable device (new_doc device)"
| reach_step: "doc_reachable device d \<Longrightarrow> doc_step d d' \<Longrightarrow> doc_reachable device d'"

inductive_cases doc_stepE: "doc_step d d'"

lemma doc_ok_fields:
  "doc_ok d \<Longrightarrow> doc_ok (d\<lparr>generation := g\<rparr>)" "doc_ok d \<Longrightarrow> doc_ok (d\<lparr>server_seq := n, gc_floor := m\<rparr>)"
  "doc_ok d \<Longrightarrow> doc_ok (d\<lparr>server_seq := n\<rparr>)"
  "doc_ok d \<Longrightarrow> rows_keyed a \<Longrightarrow> doc_ok (d\<lparr>authoritative := a\<rparr>)"
  by (simp_all add: doc_ok_def batch_id_def)

lemma in_time_fields [simp]:
  "in_time (d\<lparr>generation := g\<rparr>) = in_time d" "in_time (d\<lparr>server_seq := n\<rparr>) = in_time d"
  "in_time (d\<lparr>gc_floor := n\<rparr>) = in_time d" "in_time (d\<lparr>authoritative := a\<rparr>) = in_time d"
  "in_time (d\<lparr>pending := p\<rparr>) = in_time d"
  by (simp_all add: in_time_def)

lemma in_time_enqueue: "in_time (enqueue_ops now ops d) \<Longrightarrow> in_time d"
  using last_ms_enqueue [of "d\<lparr>generation := generation d + 1\<rparr>" now ops]
  by (auto simp: enqueue_ops_def in_time_def split: if_splits)

lemma doc_ok_write_row: "doc_ok d \<Longrightarrow> in_time (write_row now kind rid k s d) \<Longrightarrow> doc_ok (write_row now kind rid k s d)"
  by (simp add: write_row_enqueue doc_ok_enqueue_ops doc_ok_tick in_time_enqueue)

lemma doc_ok_delete_row_ops: "doc_ok d \<Longrightarrow> in_time (delete_row_ops now keys d) \<Longrightarrow> doc_ok (delete_row_ops now keys d)"
  by (auto simp: delete_row_ops_def case_prod_beta Let_def intro!: doc_ok_enqueue_ops doc_ok_tick dest: in_time_enqueue)

lemma doc_ok_rows:
  "doc_ok d \<Longrightarrow> list_all row_ok rows \<Longrightarrow>
   doc_ok (d\<lparr>authoritative := fold (\<lambda>row. bt_insert (row_kind row, row_id row) row) rows (authoritative d)\<rparr>)"
  by (rule doc_ok_fields) (auto simp: doc_ok_def rows_keyed_inserts)

lemma rows_keyed_incoming:
  "list_all row_ok rows \<Longrightarrow> rows_keyed (fold (\<lambda>row. bt_insert (row_kind row, row_id row) row) rows [])"
  by (rule rows_keyed_inserts) (simp_all add: rows_keyed_def)

lemma doc_ok_apply_state:
  assumes "doc_ok d" "list_all row_ok rows" "in_time (fst (apply_state now sq full floor rows d))"
  shows "doc_ok (fst (apply_state now sq full floor rows d))"
proof -
  let ?d = "d\<lparr>generation := generation d + 1\<rparr>"
  have "doc_ok ((fold put_authoritative rows ?d)\<lparr>server_seq := sq, gc_floor := floor\<rparr>)"
    using doc_ok_rows [OF doc_ok_fields(1) [OF assms(1)] assms(2)] doc_ok_fields(2) by (metis put_authoritative_simps)
  moreover have "doc_ok (?d\<lparr>authoritative := fold (\<lambda>row. bt_insert (row_kind row, row_id row) row) rows [],
      server_seq := sq, gc_floor := floor\<rparr>)"
    using assms(1) rows_keyed_incoming [OF assms(2)] by (simp add: doc_ok_def batch_id_def)
  ultimately show ?thesis using assms(3)
    by (auto simp: apply_state_def Let_def intro: doc_ok_enqueue_ops split: if_splits)
qed

lemma seed_chunks_Nil [simp]: "seed_chunks now [] d = d"
  by (simp add: seed_chunks.simps)

lemma in_time_seed: "in_time (seed_chunks now ops d) \<Longrightarrow> in_time d"
proof (induction now ops d rule: seed_chunks.induct)
  case (1 now ops d)
  then show ?case
    using in_time_enqueue by (cases "ops = []") (simp_all add: seed_chunks.simps [of now ops d])
qed

lemma doc_ok_seed_chunks: "doc_ok d \<Longrightarrow> in_time (seed_chunks now ops d) \<Longrightarrow> doc_ok (seed_chunks now ops d)"
proof (induction now ops d rule: seed_chunks.induct)
  case (1 now ops d)
  then show ?case
    using in_time_seed by (cases "ops = []") (simp_all add: seed_chunks.simps [of now ops d] doc_ok_enqueue_ops)
qed

lemma sorted_wrt_filter: "sorted_wrt P (map f xs) \<Longrightarrow> sorted_wrt P (map f (filter Q xs))"
  by (induction xs) auto

lemma doc_ok_pending:
  assumes "doc_ok d" "map (\<lambda>b. (pb_batch b, pb_ops b)) bs = map (\<lambda>b. (pb_batch b, pb_ops b)) (filter Q (pending d))"
  shows "doc_ok (d\<lparr>pending := bs\<rparr>)"
proof -
  have "map pb_batch bs = map fst (map (\<lambda>b. (pb_batch b, pb_ops b)) bs)" by simp
  also have "\<dots> = map pb_batch (filter Q (pending d))" unfolding assms(2) by simp
  finally have ids: "map pb_batch bs = map pb_batch (filter Q (pending d))" .
  have "\<forall>p \<in> set (map (\<lambda>b. (pb_batch b, pb_ops b)) bs). snd p \<noteq> [] \<and> length (snd p) \<le> max_ops_per_batch \<and> fst p \<le> batch_id d"
    unfolding assms(2) using assms(1) by (auto simp: doc_ok_def list_all_iff)
  then show ?thesis
    using assms(1) sorted_wrt_filter [of "(<)" pb_batch "pending d" Q] ids
    by (simp add: doc_ok_def list_all_iff batch_id_def)
qed

lemma merged_new [simp]: "merged (new_doc device) kind rid = None"
  by (simp add: merged_def new_doc_def pending_ops_def apply_ops_def)

lemma doc_ok_new [simp]: "doc_ok (new_doc device)"
  by (simp add: doc_ok_def new_doc_def rows_keyed_def)

lemma rows_rebuilt:
  assumes "rows_keyed m"
  shows "fold (\<lambda>row. bt_insert (row_kind row, row_id row) row) (bt_values m) [] = m"
proof -
  have "fold (\<lambda>row. bt_insert (row_kind row, row_id row) row) (map snd m) acc = fold (\<lambda>(k, v). bt_insert k v) m acc"
    if "list_all (\<lambda>(k, r). k = (row_kind r, row_id r) \<and> row_ok r) m" for m acc
    using that by (induction m arbitrary: acc) auto
  then show ?thesis
    using assms bt_of_list_wf [of m] by (simp add: rows_keyed_def bt_values_def bt_of_list_def)
qed

text \<open>What survives a restart: everything but the generation counter and the in-flight marks.\<close>

definition restarted :: "registry_doc \<Rightarrow> registry_doc" where
  "restarted d = d\<lparr>generation := 0, pending := map (\<lambda>b. b\<lparr>pb_in_flight := False\<rparr>) (pending d)\<rparr>"

lemma from_bytes_to_bytes:
  assumes "doc_ok d" "\<And>st. de (ser st) = Some st"
  shows "from_bytes de (to_bytes ser d) (doc_device d) = Inr (restarted d)"
  using assms(1) rows_rebuilt [of "authoritative d"]
  by (simp add: from_bytes_def to_bytes_def assms(2) restarted_def new_doc_def doc_ok_def)

lemma doc_step_ok: "doc_step d d' \<Longrightarrow> doc_ok d \<Longrightarrow> in_time d' \<Longrightarrow> doc_ok d'"
proof (induction rule: doc_step.induct)
  case (step_rows rows d sq)
  then have "doc_ok (fold put_authoritative rows (d\<lparr>generation := generation d + 1\<rparr>))"
    using doc_ok_rows [OF doc_ok_fields(1)] by (metis put_authoritative_simps)
  then show ?case by (simp add: apply_rows_def Let_def doc_ok_fields(3))
next
  case (step_ack d batch sq)
  then have "doc_ok (d\<lparr>pending := filter (\<lambda>b. pb_batch b \<noteq> batch) (pending d)\<rparr>)" by (auto intro: doc_ok_pending)
  then show ?case by (simp add: ack_batch_def Let_def doc_ok_fields)
next
  case (step_push d)
  then show ?case by (auto simp: take_pushable_def intro!: doc_ok_pending [where Q = "\<lambda>_. True"])
next
  case (step_disconnect d)
  then show ?case by (auto simp: mark_disconnected_def intro!: doc_ok_pending [where Q = "\<lambda>_. True"])
next
  case (step_restart d d')
  then have "d' = restarted d" using from_bytes_to_bytes [of d Some id] by simp
  then show ?case using step_restart
    by (auto simp: restarted_def intro!: doc_ok_pending [where Q = "\<lambda>_. True"] doc_ok_fields(1))
qed (simp_all add: doc_ok_write_row doc_ok_delete_row_ops doc_ok_apply_state doc_ok_seed_chunks seed_from_workspace_def)

lemma doc_step_in_time: "doc_step d d' \<Longrightarrow> in_time d' \<Longrightarrow> in_time d"
proof (induction rule: doc_step.induct)
  case (step_write d now kind rid k s)
  then show ?case by (auto simp: write_row_enqueue dest: in_time_enqueue in_time_mono)
next
  case (step_delete d now keys)
  then show ?case by (auto simp: delete_row_ops_def case_prod_beta Let_def dest: in_time_enqueue in_time_mono)
next
  case (step_state rows d now sq full floor)
  then show ?case by (auto simp: apply_state_def Let_def split: if_splits dest: in_time_enqueue)
next
  case (step_restart d d')
  then show ?case by (auto simp: from_bytes_def to_bytes_def in_time_def new_doc_def)
qed (auto simp: apply_rows_def ack_batch_def take_pushable_def mark_disconnected_def seed_from_workspace_def Let_def
       split: if_splits dest: in_time_seed)

lemma doc_reachable_ok: "doc_reachable device d \<Longrightarrow> in_time d \<Longrightarrow> doc_ok d"
  by (induction rule: doc_reachable.induct) (auto dest: doc_step_in_time doc_step_ok)

section \<open>Reading what was written\<close>

lemma apply_op_row_keyed:
  assumes "op_row_kind op = kind" "op_row_id op = rid" "pred_option (\<lambda>r. row_kind r = kind \<and> row_id r = rid) row"
  shows "pred_option (\<lambda>r. row_kind r = kind \<and> row_id r = rid) (apply_op_row op row)"
  by (rule apply_op_cases [of op row])
     (use assms in \<open>simp_all add: apply_op_row_def apply_op_delete apply_op_update_missing apply_op_missing
        apply_op_buried apply_op_revive apply_op_live write_fields tombstone_def\<close>)

lemma apply_op_row_ok: "pred_option row_ok row \<Longrightarrow> pred_option row_ok (apply_op_row op row)"
  using apply_op_ok [of row op] by (cases "fst (apply_op row op)") (auto simp: apply_op_row_def option.pred_set)

lemma fold_keeps: "(\<And>x s. x \<in> set xs \<Longrightarrow> P s \<Longrightarrow> P (f x s)) \<Longrightarrow> P s \<Longrightarrow> P (fold f xs s)"
  by (induction xs arbitrary: s) auto

text \<open>The merged row carries its own key and is well-formed.\<close>

lemma merged_row:
  assumes "doc_ok d" "merged d kind rid = Some r"
  shows "row_kind r = kind \<and> row_id r = rid \<and> row_ok r"
proof -
  let ?row = "bt_get (authoritative d) (kind, rid)"
  let ?ops = "filter (\<lambda>op. op_row_kind op = kind \<and> op_row_id op = rid) (pending_ops d)"
  have auth: "pred_option (\<lambda>r. row_kind r = kind \<and> row_id r = rid) ?row" "pred_option row_ok ?row"
    using assms(1) rows_keyed_get [of "authoritative d" "(kind, rid)"] by (cases ?row; simp add: doc_ok_def)+
  have "pred_option (\<lambda>r. row_kind r = kind \<and> row_id r = rid) (apply_ops ?ops ?row)"
    unfolding apply_ops_def by (rule fold_keeps) (use auth apply_op_row_keyed in auto)
  moreover have "pred_option row_ok (apply_ops ?ops ?row)"
    unfolding apply_ops_def by (rule fold_keeps) (use auth apply_op_row_ok in auto)
  ultimately show ?thesis using assms(2) by (simp add: merged_def)
qed

text \<open>The device's next clock is ahead of everything on a row.\<close>

definition ahead_of :: "string \<Rightarrow> registry_row option \<Rightarrow> bool" where
  "ahead_of h row = hlc_newer h (case row of None \<Rightarrow> None | Some r \<Rightarrow> max_clock r)"

lemma ahead_of_fields: "ahead_of h (Some r) \<Longrightarrow> row_ok r \<Longrightarrow> hlc_newer h (bt_get (row_clocks r) k) \<and> hlc_newer h (del_hlc r)"
  by (cases "bt_get (row_clocks r) k") (force simp: ahead_of_def newer_max_clock dest: bt_get_SomeD)+

lemma writes_hold:
  assumes "bt_wf s" "\<And>k. bt_get s k \<noteq> None \<Longrightarrow> hlc_newer (clock_for op k) (bt_get (row_clocks b) k)"
  shows "holds (row_fields (fst (fold (write_field op) s (b, c)))) s"
  using assms by (intro holdsI) (auto simp: write_fields)

text \<open>An upsert that is ahead of the row makes it live and makes it hold what was written.\<close>

lemma upsert_holds:
  assumes "op_kind op = Upsert" "op_set op = Some s" "op_clocks op = None" "bt_wf s"
    and "ahead_of (op_hlc op) row" "\<And>r. row = Some r \<Longrightarrow> row_ok r"
  shows "\<exists>r. apply_op_row op row = Some r \<and> \<not> deleted r \<and> holds (row_fields r) s"
proof (cases rule: apply_op_cases [of op row])
  case (Revive r)
  then show ?thesis using assms writes_hold [OF assms(4)]
    by (simp add: apply_op_row_def apply_op_revive op_writes_def clock_for_def write_fields)
next
  case (Live r)
  then show ?thesis using assms writes_hold [OF assms(4)] ahead_of_fields
    by (simp add: apply_op_row_def apply_op_live op_writes_def clock_for_def write_fields)
next
  case (Buried r)
  then show ?thesis using assms ahead_of_fields by auto
qed (use assms writes_hold [OF assms(4)] in \<open>simp_all add: apply_op_row_def apply_op_missing op_writes_def clock_for_def write_fields\<close>)

section \<open>Listing rows\<close>

lemma overlay_ids_set:
  "set (overlay_ids d kind) =
     {i. bt_get (authoritative d) (kind, i) \<noteq> None} \<union> op_row_id ` {op \<in> set (pending_ops d). op_row_kind op = kind}"
proof -
  have inner: "set (fold (\<lambda>op ids. if op_row_kind op = kind \<and> op_row_id op \<notin> set ids then ids @ [op_row_id op] else ids) ops ids) =
      set ids \<union> op_row_id ` {op \<in> set ops. op_row_kind op = kind}" for ops ids
    by (induction ops arbitrary: ids) auto
  have outer: "set (fold (\<lambda>batch. fold (\<lambda>op ids. if op_row_kind op = kind \<and> op_row_id op \<notin> set ids then ids @ [op_row_id op] else ids)
        (pb_ops batch)) bs ids) = set ids \<union> op_row_id ` {op \<in> set (concat (map pb_ops bs)). op_row_kind op = kind}" for bs ids
    by (induction bs arbitrary: ids) (auto simp: inner)
  have keys: "set (map snd (filter (\<lambda>k. fst k = kind) (bt_keys (authoritative d)))) =
      {i. bt_get (authoritative d) (kind, i) \<noteq> None}"
    unfolding bt_get_keys [symmetric] bt_keys_def by force
  show ?thesis unfolding overlay_ids_def pending_ops_def outer keys ..
qed

lemma overlay_row_listed: "overlay_row d kind i = Some r \<Longrightarrow> i \<in> set (overlay_ids d kind)"
proof (rule ccontr)
  assume r: "overlay_row d kind i = Some r" and "i \<notin> set (overlay_ids d kind)"
  then have "bt_get (authoritative d) (kind, i) = None"
    "filter (\<lambda>op. op_row_kind op = kind \<and> op_row_id op = i) (pending_ops d) = []"
    by (auto simp: overlay_ids_set filter_empty_conv)
  with r show False by (simp add: overlay_row_merged merged_def apply_ops_def)
qed

lemma set_map_filter: "set (List.map_filter f xs) = {y. \<exists>x \<in> set xs. f x = Some y}"
  by (force simp: map_filter_def)

lemma overlay_rows_set: "r \<in> set (overlay_rows d kind) \<longleftrightarrow> (\<exists>i. overlay_row d kind i = Some r)"
  by (auto simp: overlay_rows_def set_map_filter dest: overlay_row_listed)

lemma read_chats_set:
  "c \<in> set (read_chats from_ms d) \<longleftrightarrow>
     (\<exists>i r c0. overlay_row d KIND_CHATS i = Some r \<and> parse_chat (row_fields r) = Some c0 \<and> c = chat_from from_ms c0)"
  by (force simp: read_chats_def read_kind_def set_map_filter overlay_rows_set)

lemma parse_chat_id: "parse_chat fs = Some c \<Longrightarrow> bt_get fs ''id'' = Some (JStr (ch_id c))"
proof -
  assume c: "parse_chat fs = Some c"
  then obtain i where "req as_str fs ''id'' = Some i" "ch_id c = i"
    by (auto simp: parse_chat_def bind_eq_Some_conv)
  then show ?thesis by (auto simp: req_def split: option.splits elim: as_str.elims)
qed

section \<open>Deletions\<close>

lemma apply_ops_deletes:
  assumes "ops \<noteq> []" "\<forall>op \<in> set ops. op_kind op = Delete \<and> op_hlc op = h" "ahead_of h row" "pred_option row_ok row"
  shows "\<exists>r. apply_ops ops row = Some r \<and> deleted r"
proof -
  obtain op ops' where ops: "ops = op # ops'" using assms(1) by (cases ops) auto
  have "\<exists>r. apply_op_row op row = Some r \<and> deleted r \<and> del_hlc r = Some h"
    using assms ahead_of_fields [of h]
    by (cases row) (auto simp: ops apply_op_row_def apply_op_delete tombstone_def ahead_of_def)
  moreover have "apply_ops ops' (Some r) = Some r" if "deleted r" "del_hlc r = Some h" for r
    unfolding apply_ops_def using assms(2)
    by (intro fold_keeps [where P = "\<lambda>s. s = Some r"]) (auto simp: ops apply_op_row_def apply_op_delete that)
  ultimately show ?thesis by (auto simp: ops apply_ops_def)
qed

lemma merged_delete_row_ops:
  "merged (delete_row_ops now keys d) kind rid =
     apply_ops (map (\<lambda>(kind, rid). \<lparr>op_row_kind = kind, op_row_id = rid, op_kind = Delete, op_set = None,
                       op_hlc = snd (next_hlc (now 0) d), op_clocks = None\<rparr>) (filter (\<lambda>k. fst k = kind \<and> snd k = rid) keys))
       (merged d kind rid)"
  by (simp add: delete_row_ops_def case_prod_beta Let_def merged_enqueue filter_map o_def)

lemma overlay_delete_row_ops:
  assumes "doc_ok d"
  shows "(kind, rid) \<in> set keys \<Longrightarrow> ahead_of (snd (next_hlc (now 0) d)) (merged d kind rid) \<Longrightarrow>
      overlay_row (delete_row_ops now keys d) kind rid = None"
    and "(kind, rid) \<notin> set keys \<Longrightarrow> overlay_row (delete_row_ops now keys d) kind rid = overlay_row d kind rid"
proof -
  have ok: "pred_option row_ok (merged d kind rid)" using merged_row [OF assms] by (cases "merged d kind rid") auto
  assume "(kind, rid) \<in> set keys" "ahead_of (snd (next_hlc (now 0) d)) (merged d kind rid)"
  then show "overlay_row (delete_row_ops now keys d) kind rid = None"
    using apply_ops_deletes [OF _ _ _ ok, of "map (\<lambda>(kind, rid). \<lparr>op_row_kind = kind, op_row_id = rid, op_kind = Delete,
        op_set = None, op_hlc = snd (next_hlc (now 0) d), op_clocks = None\<rparr>) (filter (\<lambda>k. fst k = kind \<and> snd k = rid) keys)"
        "snd (next_hlc (now 0) d)"]
    by (force simp: overlay_row_merged merged_delete_row_ops filter_empty_conv)
next
  assume "(kind, rid) \<notin> set keys"
  then have "filter (\<lambda>k. fst k = kind \<and> snd k = rid) keys = []" by (auto simp: filter_empty_conv)
  then show "overlay_row (delete_row_ops now keys d) kind rid = overlay_row d kind rid"
    by (simp add: overlay_row_merged merged_delete_row_ops apply_ops_def)
qed

lemma delete_space_simps:
  "fst (delete_space from_ms now sid d) = delete_row_ops now (cascade_keys (space_chat_ids from_ms sid d) sid) d"
  "snd (snd (delete_space from_ms now sid d)) = space_chat_ids from_ms sid d"
  by (simp_all add: delete_space_def Let_def)

lemma cascade_keys_set:
  "(KIND_SPACES, sid) \<in> set (cascade_keys ids sid)"
  "i \<in> set ids \<Longrightarrow> (KIND_CHATS, i) \<in> set (cascade_keys ids sid)"
  by (auto simp: cascade_keys_def)

text \<open>Every chat row of the space is among the chat ids of the cascade, when rows carry their own id.\<close>

lemma space_chat_ids_complete:
  assumes "doc_ok d" "list_all (\<lambda>r. bt_get (row_fields r) ''id'' = Some (JStr (row_id r))) (overlay_rows d KIND_CHATS)"
    and "overlay_row d KIND_CHATS i = Some r" "parse_chat (row_fields r) = Some c" "ch_space_id c = Some sid"
  shows "i \<in> set (space_chat_ids from_ms sid d)"
proof -
  have "merged d KIND_CHATS i = Some r"
    using assms(3) by (auto simp: overlay_row_merged split: option.splits if_splits)
  then have "row_id r = i" using merged_row [OF assms(1)] by blast
  moreover have "bt_get (row_fields r) ''id'' = Some (JStr (row_id r))"
    using assms(2,3) overlay_rows_set [of r d KIND_CHATS] by (auto simp: list_all_iff)
  ultimately have "ch_id c = i" using parse_chat_id [OF assms(4)] by simp
  moreover have "chat_from from_ms c \<in> set (read_chats from_ms d)" using assms(3,4) read_chats_set by blast
  moreover have "ch_id (chat_from from_ms c) = ch_id c" "ch_space_id (chat_from from_ms c) = Some sid"
    using assms(5) by (simp_all add: chat_from_def)
  ultimately have "chat_from from_ms c \<in> set (filter (\<lambda>c. ch_space_id c = Some sid) (read_chats from_ms d))"
    "ch_id (chat_from from_ms c) = i" by auto
  then show ?thesis unfolding space_chat_ids_def set_map by (metis imageI)
qed

section \<open>Re-seeding\<close>

lemma incoming_get:
  "bt_get (fold (\<lambda>row. bt_insert (row_kind row, row_id row) row) rows m) k =
     (case find (\<lambda>r. (row_kind r, row_id r) = k) (rev rows) of None \<Rightarrow> bt_get m k | Some r \<Rightarrow> Some r)"
proof (induction rows arbitrary: m)
  case (Cons row rows)
  then show ?case by (auto simp: find_append split: option.splits)
qed simp

lemma filter_bt_unique:
  assumes "bt_wf m" "bt_get m k = Some v" "P (k, v)"
  shows "filter (\<lambda>p. fst p = k) (filter P m) = [(k, v)]"
  using assms
proof (induction m)
  case (Cons p m)
  have none: "filter (\<lambda>q. fst q = fst p) m = []" using bt_wf_ConsD [OF Cons.prems(1)] by (auto simp: filter_empty_conv)
  show ?case
  proof (cases "fst p = k")
    case True
    with Cons.prems none show ?thesis by (cases p) (auto simp: bt_get_Cons filter_empty_conv)
  next
    case False
    with Cons show ?thesis using bt_wf_ConsD [OF Cons.prems(1)] by (cases p) (auto simp: bt_get_Cons)
  qed
qed simp

lemma seed_op_key [simp]: "op_row_kind (row_to_seed_op r) = row_kind r" "op_row_id (row_to_seed_op r) = row_id r"
  by (simp_all add: row_to_seed_op_def)

text \<open>The re-seed operations that concern one key: that of its own row.\<close>

lemma seed_ops_of_key:
  assumes "rows_keyed m" "bt_get m (kind, rid) = Some r" "P ((kind, rid), r)"
  shows "filter (\<lambda>op. op_row_kind op = kind \<and> op_row_id op = rid) (map (row_to_seed_op \<circ> snd) (filter P m)) = [row_to_seed_op r]"
proof -
  have "filter (\<lambda>p. row_kind (snd p) = kind \<and> row_id (snd p) = rid) (filter P m) = filter (\<lambda>p. fst p = (kind, rid)) (filter P m)"
    using assms(1) by (intro filter_cong) (auto simp: rows_keyed_def list_all_iff)
  also have "\<dots> = [((kind, rid), r)]" using assms by (intro filter_bt_unique) (auto simp: rows_keyed_def)
  finally show ?thesis by (simp add: filter_map o_def)
qed

section \<open>Properties\<close>

text \<open>A chat and a replica for the concrete instances below.\<close>

definition sample_chat :: chat where
  "sample_chat = \<lparr>ch_id = ''c1'', ch_device_id = ''d1'', ch_title = Some ''t'', ch_archived = False, ch_cwd = None,
     ch_branch = None, ch_checkout_id = None,
     ch_config = Some (config_of Codex None (Some High) [] ReadOnly (Some [''m''])),
     ch_last_message_preview = None, ch_last_message_at = Some 5, ch_created_at = 3, ch_harness_session_id = None,
     ch_harness_session_cwd = None, ch_space_id = Some ''s1'', ch_last_seen_at = None, ch_room_gen = Some 2\<rparr>"

definition sample_chat_row :: registry_row where
  "sample_chat_row = \<lparr>row_kind = ''chats'', row_id = ''c1'', row_seq = 4, deleted = False, del_hlc = None,
     row_fields = [(''deviceId'', JStr ''d1''), (''id'', JStr ''c1''), (''spaceId'', JStr ''s1'')],
     row_clocks = [(''deviceId'', ''0''), (''id'', ''0''), (''spaceId'', ''0'')]\<rparr>"

definition sample_space_doc :: registry_doc where
  "sample_space_doc = (new_doc ''d1'')\<lparr>authoritative := [((''chats'', ''c1''), sample_chat_row)], server_seq := 4\<rparr>"

lemma sample_space_doc_ok: "doc_ok sample_space_doc"
  by (simp add: sample_space_doc_def doc_ok_def new_doc_def rows_keyed_def sample_chat_row_def bt_wf_def row_ok_def
      bt_contains_def bt_get_Cons)

definition sample_doc :: registry_doc where
  "sample_doc = (new_doc ''d1'')\<lparr>authoritative := [((''chats'', ''c1''), sample_row)], server_seq := 4\<rparr>"

text \<open>
  Chunking: enqueuing operations appends batches that hold exactly these operations in order, each
  with at least one and at most 400 of them and none in flight, and leaves the server's rows alone.
\<close>

theorem enqueue_ops_chunks:
  "\<exists>bs. pending (enqueue_ops now ops d) = pending d @ bs \<and> concat (map pb_ops bs) = ops \<and>
     list_all (\<lambda>b. 0 < length (pb_ops b) \<and> length (pb_ops b) \<le> 400 \<and> \<not> pb_in_flight b) bs \<and>
     authoritative (enqueue_ops now ops d) = authoritative d"
  using enqueue_ops_pending [of now ops d] by (auto simp: fresh_batches_def list_all_iff max_ops_per_batch_def)

text \<open>
  C24. The invariant of the replica: in every state reached from a new one by local writes, deletions,
  server frames with well-formed rows, acknowledgements, reconnects, migration and restarts (before the
  year 2286), rows are well-formed and stored under their own key, every batch has between 1 and 400
  operations, and no two pending batches share an id, so an acknowledgement retires at most one.
\<close>

theorem doc_reachable_invariant:
  assumes "doc_reachable device d" "last_ms (doc_clock d) < 10 ^ 13"
  shows "rows_keyed (authoritative d) \<and> distinct (map pb_batch (pending d)) \<and>
    list_all (\<lambda>b. 0 < length (pb_ops b) \<and> length (pb_ops b) \<le> 400) (pending d)"
  using doc_reachable_ok [OF assms(1)] assms(2) strict_sorted_iff [of "map pb_batch (pending d)"]
  by (auto simp: doc_ok_def in_time_def list_all_iff max_ops_per_batch_def)

theorem doc_reachable_invariant_witness:
  "distinct (map pb_batch (pending (upsert_chat (\<lambda>i. 7) sample_chat (new_doc ''d1''))))"
proof -
  let ?d = "upsert_chat (\<lambda>i. 7) sample_chat (new_doc ''d1'')"
  have "doc_reachable ''d1'' ?d" unfolding upsert_chat_def by (rule reach_step [OF reach_new step_write])
  moreover have "last_ms (doc_clock ?d) < 10 ^ 13"
    by (simp add: upsert_chat_def write_row_enqueue enqueue_ops_def enqueue_chunks_step enqueue_first_def
        next_hlc_def hlc_next_def Let_def new_doc_def hlc_clock_default_def max_ops_per_batch_def)
  ultimately show ?thesis using doc_reachable_invariant by blast
qed

text \<open>
  Persistence: restoring a replica from its saved bytes gives back every row, every pending
  batch, the cursor and the clock; only the change counter restarts and no batch is marked in flight,
  so everything unacknowledged is pushed again.
\<close>

theorem persistence_roundtrip:
  assumes "doc_ok d" "\<And>st. de (ser st) = Some st"
  shows "from_bytes de (to_bytes ser d) (doc_device d) =
    Inr (d\<lparr>generation := 0, pending := map (\<lambda>b. b\<lparr>pb_in_flight := False\<rparr>) (pending d)\<rparr>)"
  using from_bytes_to_bytes [of d de ser] assms by (simp add: restarted_def)

theorem persistence_roundtrip_witness:
  "from_bytes Some (to_bytes id sample_doc) ''d1'' = Inr sample_doc"
proof -
  have "doc_ok sample_doc"
    by (simp add: sample_doc_def doc_ok_def new_doc_def rows_keyed_def sample_row_def bt_wf_def row_ok_def
        bt_contains_def bt_get_Cons)
  from persistence_roundtrip [OF this, of Some id] show ?thesis by (simp add: sample_doc_def new_doc_def)
qed

text \<open>
  Read your write, for the whole chat record: a chat written by a device whose clock is ahead of
  the row's clocks is read back exactly, every field and its configuration included, whatever the row
  held before (a missing row, a tombstone, or another version).
\<close>

theorem upsert_chat_reads_back:
  assumes "doc_ok d" "chat_typed c" "ahead_of (snd (next_hlc (now 0) d)) (merged d KIND_CHATS (ch_id c))"
    and "from_ms (ch_created_at c) = Some (ch_created_at c)"
    and "pred_option (\<lambda>t. from_ms t = Some t) (ch_last_message_at c)"
    and "pred_option (\<lambda>t. from_ms t = Some t) (ch_last_seen_at c)"
  shows "read_chat from_ms (upsert_chat now c d) (ch_id c) = Some c"
proof -
  let ?op = "write_op now KIND_CHATS (ch_id c) Upsert (chat_set c) d"
  have "\<exists>r. apply_op_row ?op (merged d KIND_CHATS (ch_id c)) = Some r \<and> \<not> deleted r \<and> holds (row_fields r) (chat_set c)"
    using assms(1,3) merged_row [OF assms(1)]
    by (intro upsert_holds) (auto simp: write_op_def chat_set_def)
  then show ?thesis
    using assms parse_chat_set chat_from_id
    by (auto simp: read_chat_def upsert_chat_def overlay_row_merged merged_write_row)
qed

theorem upsert_chat_reads_back_witness:
  "read_chat Some (upsert_chat (\<lambda>i. 7) sample_chat (new_doc ''d1'')) ''c1'' = Some sample_chat"
proof -
  have "ch_id sample_chat = ''c1''" by (simp add: sample_chat_def)
  moreover have "read_chat Some (upsert_chat (\<lambda>i. 7) sample_chat (new_doc ''d1'')) (ch_id sample_chat) = Some sample_chat"
    by (rule upsert_chat_reads_back)
       (simp_all add: sample_chat_def chat_typed_def i64_def ahead_of_def)
  ultimately show ?thesis by simp
qed

text \<open>
  A session written to the registry comes back without its context token count: the writer leaves
  that field out, although the session type, the reader and the legacy workspace document carry it.
\<close>

theorem upsert_session_drops_tokens:
  assumes "session_typed s" "from_ms (ss_updated_at s) = Some (ss_updated_at s)"
    and "pred_option (\<lambda>t. from_ms t = Some t) (ss_started_at s)"
  shows "read_sessions from_ms (upsert_session now s (new_doc device)) = [s\<lparr>ss_context_tokens := None\<rparr>]"
proof -
  let ?d = "upsert_session now s (new_doc device)"
  let ?op = "write_op now KIND_SESSIONS (ss_chat_id s) Upsert (session_set s) (new_doc device)"
  obtain r where r: "apply_op_row ?op None = Some r" "\<not> deleted r" "holds (row_fields r) (session_set s)"
    using upsert_holds [of ?op "session_set s" None] by (auto simp: write_op_def session_set_def ahead_of_def)
  have "bt_get (row_fields r) ''contextTokens'' = None"
    using r(1) by (auto simp: apply_op_row_def apply_op_missing write_op_def op_writes_def write_fields session_set_def fields_get)
  then have parse: "parse_session (row_fields r) = Some (s\<lparr>ss_context_tokens := None\<rparr>)"
    using parse_session_set [OF assms(1) r(3)] by (simp add: opt_def)
  have ids: "overlay_ids ?d KIND_SESSIONS = [ss_chat_id s]"
    by (simp add: overlay_ids_def upsert_session_def write_row_enqueue enqueue_ops_def enqueue_chunks_step enqueue_first_def
        max_ops_per_batch_def new_doc_def bt_keys_def write_op_def next_hlc_def case_prod_beta Let_def)
  have "overlay_row ?d KIND_SESSIONS (ss_chat_id s) = Some r"
    using r by (simp add: overlay_row_merged upsert_session_def merged_write_row)
  then show ?thesis
    using assms parse by (simp add: read_sessions_def read_kind_def overlay_rows_def ids session_from_def map_dt_id dt_id)
qed

theorem upsert_session_drops_tokens_witness:
  "read_sessions Some (upsert_session (\<lambda>i. 7)
      \<lparr>ss_chat_id = ''c'', ss_device_id = ''d'', ss_status = Status_Working, ss_started_at = None, ss_updated_at = 5,
       ss_context_tokens = Some 1000\<rparr> (new_doc ''d''))
   = [\<lparr>ss_chat_id = ''c'', ss_device_id = ''d'', ss_status = Status_Working, ss_started_at = None, ss_updated_at = 5,
       ss_context_tokens = None\<rparr>]"
  by (subst upsert_session_drops_tokens) (simp_all add: session_typed_def i64_def)

text \<open>
  Deleting a space cascades: when the rows carry their own id and the device's clock is ahead of
  the rows to delete, afterwards the space is gone, no readable chat belongs to it, and every row that is
  not the space, one of its chats or one of their sessions is untouched.
\<close>

theorem delete_space_cascades:
  assumes "doc_ok d"
    and "list_all (\<lambda>r. bt_get (row_fields r) ''id'' = Some (JStr (row_id r))) (overlay_rows d KIND_CHATS)"
    and "list_all (\<lambda>(kind, rid). ahead_of (snd (next_hlc (now 0) d)) (merged d kind rid))
           (cascade_keys (space_chat_ids from_ms sid d) sid)"
  shows "overlay_row (fst (delete_space from_ms now sid d)) KIND_SPACES sid = None \<and>
    list_all (\<lambda>c. ch_space_id c \<noteq> Some sid) (read_chats from_ms (fst (delete_space from_ms now sid d))) \<and>
    (\<forall>kind rid. (kind, rid) \<notin> set (cascade_keys (snd (snd (delete_space from_ms now sid d))) sid) \<longrightarrow>
       overlay_row (fst (delete_space from_ms now sid d)) kind rid = overlay_row d kind rid)"
proof -
  let ?keys = "cascade_keys (space_chat_ids from_ms sid d) sid"
  note gone = overlay_delete_row_ops(1) [OF assms(1), of _ _ ?keys now]
  note kept = overlay_delete_row_ops(2) [OF assms(1), of _ _ ?keys now]
  have ahead: "ahead_of (snd (next_hlc (now 0) d)) (merged d kind rid)" if "(kind, rid) \<in> set ?keys" for kind rid
    using assms(3) that by (auto simp: list_all_iff)
  have "ch_space_id c \<noteq> Some sid" if c: "c \<in> set (read_chats from_ms (delete_row_ops now ?keys d))" for c
  proof
    assume sid: "ch_space_id c = Some sid"
    from c obtain i r c0 where i: "overlay_row (delete_row_ops now ?keys d) KIND_CHATS i = Some r"
      "parse_chat (row_fields r) = Some c0" "c = chat_from from_ms c0" by (auto simp: read_chats_set)
    then have notin: "(KIND_CHATS, i) \<notin> set ?keys" using gone ahead by fastforce
    with i kept have "overlay_row d KIND_CHATS i = Some r" by metis
    with i sid have "i \<in> set (space_chat_ids from_ms sid d)"
      using space_chat_ids_complete [OF assms(1,2)] by (simp add: chat_from_def)
    with notin show False using cascade_keys_set(2) by blast
  qed
  then show ?thesis
    using gone kept ahead cascade_keys_set(1) by (simp add: delete_space_simps list_all_iff)
qed

theorem delete_space_cascades_witness:
  "map ch_id (read_chats Some sample_space_doc) = [''c1''] \<and>
   list_all (\<lambda>c. ch_space_id c \<noteq> Some ''s1'')
     (read_chats Some (fst (delete_space Some (\<lambda>i. 9) ''s1'' sample_space_doc)))"
proof -
  have "map ch_id (read_chats Some sample_space_doc) = [''c1'']" by code_simp
  moreover have "list_all (\<lambda>r. bt_get (row_fields r) ''id'' = Some (JStr (row_id r))) (overlay_rows sample_space_doc KIND_CHATS)"
    by code_simp
  moreover have "list_all (\<lambda>(kind, rid). ahead_of (snd (next_hlc 9 sample_space_doc)) (merged sample_space_doc kind rid))
           (cascade_keys (space_chat_ids Some ''s1'' sample_space_doc) ''s1'')"
    by code_simp
  ultimately show ?thesis using delete_space_cascades [OF sample_space_doc_ok, of "\<lambda>i. 9" Some "''s1''"] by blast
qed

text \<open>
  A full state frame loses no local row: a row the server does not have is re-seeded, so with
  nothing else pending the replica still shows its fields, and the outcome tells the caller to push.
\<close>

theorem full_state_keeps_local_rows:
  assumes "doc_ok d" "pending d = []" "server_seq d \<le> sq" "bt_get (authoritative d) (kind, rid) = Some r"
    and "list_all (\<lambda>row. (row_kind row, row_id row) \<noteq> (kind, rid)) rows"
  shows "snd (apply_state now sq True floor rows d) = Reseeded \<and>
    map_option row_fields (overlay_row (fst (apply_state now sq True floor rows d)) kind rid) =
      (if deleted r then None else Some (row_fields r))"
proof -
  let ?in = "fold (\<lambda>row. bt_insert (row_kind row, row_id row) row) rows []"
  let ?P = "\<lambda>(key, row). \<not> bt_contains ?in key"
  let ?seed = "map (row_to_seed_op \<circ> snd) (filter ?P (authoritative d))"
  have keyed: "rows_keyed (authoritative d)" and ok: "row_ok r"
    using assms(1,4) rows_keyed_get by (auto simp: doc_ok_def)
  have none: "bt_get ?in (kind, rid) = None"
    using assms(5) by (auto simp: incoming_get list_all_iff find_None_iff split: option.splits)
  then have P: "?P ((kind, rid), r)" by (simp add: bt_contains_def)
  have ops: "filter (\<lambda>op. op_row_kind op = kind \<and> op_row_id op = rid) ?seed = [row_to_seed_op r]"
    by (rule seed_ops_of_key) (use keyed assms(4) P in auto)
  then have ne: "?seed \<noteq> []" by force
  have "merged (enqueue_ops now ?seed (d\<lparr>generation := g, authoritative := ?in, server_seq := sq, gc_floor := floor\<rparr>)) kind rid
      = Some (if deleted r then r\<lparr>row_seq := 0\<rparr> else r\<lparr>row_seq := 0, del_hlc := None, row_clocks := seeded_clocks r\<rparr>)" for g
    unfolding merged_enqueue ops using assms(2) seed_live [OF ok] seed_deleted [OF ok] none
    by (simp add: merged_def pending_ops_def apply_ops_def apply_op_row_def)
  then show ?thesis using ne assms(3)
    by (simp add: apply_state_def Let_def overlay_row_merged)
qed

theorem full_state_keeps_local_rows_witness:
  "map_option row_fields (overlay_row (fst (apply_state (\<lambda>i. 9) 4 True 0 [] sample_space_doc)) ''chats'' ''c1'') =
     Some (row_fields sample_chat_row)"
proof -
  have "pending sample_space_doc = []" "server_seq sample_space_doc \<le> 4" "\<not> deleted sample_chat_row"
    "bt_get (authoritative sample_space_doc) (''chats'', ''c1'') = Some sample_chat_row"
    by (simp_all add: sample_space_doc_def new_doc_def bt_get_Cons sample_chat_row_def)
  then show ?thesis
    using full_state_keeps_local_rows [OF sample_space_doc_ok, of 4 "''chats''" "''c1''" sample_chat_row "[]" "\<lambda>i. 9" 0] by simp
qed

end
