(* ===== verification/Registry_Server.thy ===== *)
theory Registry_Server
  imports Registry_Doc
begin

text \<open>
  The server side of the registry: the stored rows of an organisation and the transaction that applies a
  batch (\<open>crates/server/src/registry_db.rs\<close>), who is online (\<open>presence.rs\<close>), the answer to a client
  frame (\<open>RegistrySession\<close> in \<open>crates/sync/src/registry_room.rs\<close>), and the WebSocket loop that sends
  the answers (\<open>registry_ws.rs\<close>). Frames are values of the frame types; their JSON text is serde's.
  A transaction runs with the organisation's row locked, so batches apply one at a time; a database error
  aborts it and changes nothing, and is not modelled.
\<close>

section \<open>The stored rows\<close>

record reg_room =
  room_seq :: nat
  room_floor :: nat
  room_rows :: "(string \<times> string, registry_row) btree"

definition empty_room :: reg_room where
  "empty_room = \<lparr>room_seq = 0, room_floor = 0, room_rows = []\<rparr>"

text \<open>One operation of a batch: it sees the row as the batch has left it so far.\<close>

definition batch_step :: "nat \<Rightarrow> (string \<times> string, registry_row) btree \<Rightarrow> row_op \<Rightarrow> registry_row list \<Rightarrow>
    registry_row list" where
  "batch_step nxt rows op touched =
     (let before = (case find (\<lambda>r. row_kind r = op_row_kind op \<and> row_id r = op_row_id op) touched of
                      Some r \<Rightarrow> Some r
                    | None \<Rightarrow> bt_get rows (op_row_kind op, op_row_id op))
      in case apply_op before op of
           (Some m, True) \<Rightarrow>
             filter (\<lambda>r. \<not> (row_kind r = row_kind m \<and> row_id r = row_id m)) touched @ [m\<lparr>row_seq := nxt\<rparr>]
         | _ \<Rightarrow> touched)"

record applied_batch =
  ab_rows :: "registry_row list"
  ab_seq :: nat

definition apply_batch :: "reg_room \<Rightarrow> row_op list \<Rightarrow> reg_room \<times> applied_batch" where
  "apply_batch room ops =
     (let current = room_seq room;
          nxt = current + 1;
          touched = fold (batch_step nxt (room_rows room)) ops [];
          sq = (if touched = [] then current else nxt)
      in (room\<lparr>room_rows := fold (\<lambda>row. bt_insert (row_kind row, row_id row) row) touched (room_rows room),
               room_seq := sq\<rparr>,
          \<lparr>ab_rows = touched, ab_seq = sq\<rparr>))"

text \<open>The cast of a cursor to the column's signed 64 bits.\<close>

definition as_bigint :: "nat \<Rightarrow> int" where
  "as_bigint n = (let m = int (n mod 2 ^ 64) in if m < 2 ^ 63 then m else m - 2 ^ 64)"

definition rows_since :: "reg_room \<Rightarrow> nat \<Rightarrow> registry_row list" where
  "rows_since room since =
     sort_key (\<lambda>r. (row_seq r, row_kind r, row_id r))
       (filter (\<lambda>r. as_bigint since < int (row_seq r)) (bt_values (room_rows room)))"

section \<open>Presence\<close>

type_synonym presence = "(string, (string, int \<times> nat) btree) btree"

definition presence_ttl :: nat where "presence_ttl = 30000"

definition beat :: "nat \<Rightarrow> string \<Rightarrow> string \<Rightarrow> int \<Rightarrow> presence \<Rightarrow> presence" where
  "beat now org device at p =
     bt_insert org (bt_insert device (at, now) (case bt_get p org of None \<Rightarrow> [] | Some room \<Rightarrow> room)) p"

text \<open>Expired entries are dropped while reading, by the server's own clock.\<close>

definition live :: "nat \<Rightarrow> string \<Rightarrow> presence \<Rightarrow> presence \<times> (string, int) btree" where
  "live now org p =
     (case bt_get p org of
        None \<Rightarrow> (p, [])
      | Some room \<Rightarrow>
          let room = filter (\<lambda>(_, _, seen). now - seen < presence_ttl) room;
              out = map (\<lambda>(d, at, _). (d, at)) room
          in if room = [] then (bt_remove org p, out) else (bt_insert org room p, out))"

section \<open>One connection\<close>

datatype incoming_frame =
    Hello "nat option" string
  | Push string "row_op list"
  | PresenceIn int
  | Probe

datatype server_frame =
    State nat bool nat "registry_row list" "(string, int) btree"
  | Rows nat "registry_row list"
  | Ack string nat nat
  | PresenceOut string int
  | ProbeOk nat
  | ErrorFrame string string

record reg_session =
  rs_device :: string
  rs_ready :: bool

definition new_session :: reg_session where
  "new_session = \<lparr>rs_device = '''', rs_ready = False\<rparr>"

definition ready_for :: "string \<Rightarrow> reg_session" where
  "ready_for device = \<lparr>rs_device = device, rs_ready = True\<rparr>"

record pg_registry =
  pg_rooms :: "(string, reg_room) btree"
  pg_presence :: presence

definition room_of :: "pg_registry \<Rightarrow> string \<Rightarrow> reg_room" where
  "room_of pg org = (case bt_get (pg_rooms pg) org of None \<Rightarrow> empty_room | Some r \<Rightarrow> r)"

record reply =
  to_sender :: "server_frame list"
  broadcast :: "server_frame list"

definition needs_full :: "nat option \<Rightarrow> reg_room \<Rightarrow> bool" where
  "needs_full cursor room =
     (case cursor of None \<Rightarrow> True | Some c \<Rightarrow> c < room_floor room \<or> room_seq room < c)"

fun respond :: "nat \<Rightarrow> string \<Rightarrow> incoming_frame \<Rightarrow> reg_session \<times> pg_registry \<Rightarrow>
    (reg_session \<times> pg_registry) \<times> reply" where
  "respond now org (Hello cursor device) (s, pg) =
     (let s = s\<lparr>rs_device := device, rs_ready := True\<rparr>;
          room = room_of pg org;
          full = needs_full cursor room;
          rows = rows_since room (if full then 0 else case cursor of None \<Rightarrow> 0 | Some c \<Rightarrow> c);
          (p, devices) = live now org (pg_presence pg)
      in ((s, pg\<lparr>pg_presence := p\<rparr>),
          \<lparr>to_sender = [State (room_seq room) full (room_floor room) rows devices], broadcast = []\<rparr>))"
| "respond now org (Push batch ops) (s, pg) =
     (if \<not> rs_ready s then
        ((s, pg), \<lparr>to_sender = [ErrorFrame ''bad_push'' ''hello first / malformed push''], broadcast = []\<rparr>)
      else
        let (room, applied) = apply_batch (room_of pg org) ops
        in ((s, pg\<lparr>pg_rooms := bt_insert org room (pg_rooms pg)\<rparr>),
            \<lparr>to_sender = [Ack batch (ab_seq applied) (length (ab_rows applied))],
             broadcast = (if ab_rows applied \<noteq> [] then [Rows (ab_seq applied) (ab_rows applied)] else [])\<rparr>))"
| "respond now org (PresenceIn at) (s, pg) =
     (if \<not> rs_ready s then ((s, pg), \<lparr>to_sender = [], broadcast = []\<rparr>)
      else ((s, pg\<lparr>pg_presence := beat now org (rs_device s) at (pg_presence pg)\<rparr>),
            \<lparr>to_sender = [], broadcast = [PresenceOut (rs_device s) at]\<rparr>))"
| "respond now org Probe (s, pg) =
     ((s, pg), \<lparr>to_sender = [ProbeOk (room_seq (room_of pg org))], broadcast = []\<rparr>)"

section \<open>The WebSocket loop\<close>

text \<open>
  One socket of the room: its session, the frames waiting in its broadcast subscription (every socket
  of the room is subscribed, the sender too), and the frames written to it. A published frame goes to
  the subscriptions; the answers to the sender are written at once. A subscription holds 256 frames and
  drops the oldest beyond that.
\<close>

record socket =
  sk_session :: reg_session
  sk_live :: "server_frame list"
  sk_out :: "server_frame list"

definition hub_capacity :: nat where "hub_capacity = 256"

definition receive_published :: "server_frame list \<Rightarrow> socket \<Rightarrow> socket" where
  "receive_published frames sk =
     (let q = sk_live sk @ frames in sk\<lparr>sk_live := drop (length q - hub_capacity) q\<rparr>)"

text \<open>The branch that reads a client frame on socket \<open>i\<close> of the room.\<close>

definition serve_incoming :: "nat \<Rightarrow> string \<Rightarrow> nat \<Rightarrow> incoming_frame \<Rightarrow> socket list \<times> pg_registry \<Rightarrow>
    socket list \<times> pg_registry" where
  "serve_incoming now org i frame st =
     (let (sks, pg) = st;
          ((s, pg), r) = respond now org frame (sk_session (sks ! i), pg);
          sks = map (receive_published (broadcast r)) sks
      in (sks[i := (sks ! i)\<lparr>sk_session := s, sk_out := sk_out (sks ! i) @ to_sender r\<rparr>], pg))"

text \<open>The branch that forwards one broadcast frame; before \<open>hello\<close> it is dropped.\<close>

definition serve_broadcast :: "nat \<Rightarrow> socket list \<Rightarrow> socket list" where
  "serve_broadcast i sks =
     (case sk_live (sks ! i) of
        [] \<Rightarrow> sks
      | f # rest \<Rightarrow>
          sks[i := (sks ! i)\<lparr>sk_live := rest,
                sk_out := (if rs_ready (sk_session (sks ! i)) then sk_out (sks ! i) @ [f] else sk_out (sks ! i))\<rparr>])"

section \<open>The client's side of the wire\<close>

text \<open>The cursor a client says hello with: none only for a replica that never held anything.\<close>

definition hello_cursor :: "registry_doc \<Rightarrow> nat option" where
  "hello_cursor d = (if server_seq d = 0 \<and> pending d = [] \<and> generation d = 0 then None else Some (server_seq d))"

text \<open>What a frame does to the replica.\<close>

fun handle_frame :: "(nat \<Rightarrow> int) \<Rightarrow> server_frame \<Rightarrow> registry_doc \<Rightarrow> registry_doc" where
  "handle_frame now (Rows sq rows) d = apply_rows sq rows d"
| "handle_frame now (Ack batch sq applied) d = fst (ack_batch batch sq d)"
| "handle_frame now (State sq full floor rows presence) d = fst (apply_state now sq full floor rows d)"
| "handle_frame now (PresenceOut device at) d = d"
| "handle_frame now (ProbeOk sq) d = d"
| "handle_frame now (ErrorFrame code msg) d = d"

text \<open>
  One offline cycle over plain HTTP (\<open>spawn_offline_sync\<close>): push every batch and take its
  acknowledgement, then pull the delta after the cursor. Here every request succeeds.
\<close>

fun http_push_all :: "pending_batch list \<Rightarrow> registry_doc \<times> reg_room \<Rightarrow> registry_doc \<times> reg_room" where
  "http_push_all [] st = st"
| "http_push_all (b # bs) (d, room) =
     (let (room, applied) = apply_batch room (pb_ops b)
      in http_push_all bs (fst (ack_batch (pb_batch b) (ab_seq applied) d), room))"

definition http_pull :: "(nat \<Rightarrow> int) \<Rightarrow> registry_doc \<Rightarrow> reg_room \<Rightarrow> registry_doc" where
  "http_pull now d room =
     (let c = server_seq d; full = needs_full (Some c) room
      in fst (apply_state now (room_seq room) full (room_floor room) (rows_since room (if full then 0 else c)) d))"

definition offline_sync :: "(nat \<Rightarrow> int) \<Rightarrow> registry_doc \<Rightarrow> reg_room \<Rightarrow> registry_doc \<times> reg_room" where
  "offline_sync now d room =
     (let (d, batches) = take_pushable d;
          (d, room) = http_push_all batches (d, room)
      in (http_pull now d room, room))"

section \<open>The sequence number does not take part in the merge\<close>

lemma write_fields_seq:
  "fold (write_field op) s (b\<lparr>row_seq := n\<rparr>, c) =
     ((fst (fold (write_field op) s (b, c)))\<lparr>row_seq := n\<rparr>, snd (fold (write_field op) s (b, c)))"
proof (induction s b c rule: write_fields_induct [where op = op])
  case (New key v s b c)
  have swap: "b\<lparr>row_seq := n, row_fields := f, row_clocks := m\<rparr> = b\<lparr>row_fields := f, row_clocks := m, row_seq := n\<rparr>" for f m
    by simp
  from New show ?case by (cases "is_null v") (simp_all add: swap)
qed simp_all

lemma max_clock_seq [simp]: "max_clock (r\<lparr>row_seq := n\<rparr>) = max_clock r"
  by (simp add: max_clock_def)

lemma apply_op_seq:
  "apply_op (Some (r\<lparr>row_seq := n\<rparr>)) op =
     (map_option (\<lambda>r. r\<lparr>row_seq := n\<rparr>) (fst (apply_op (Some r) op)), snd (apply_op (Some r) op))"
proof (cases rule: apply_op_cases [of op "Some r"])
  case (Revive r0)
  have swap: "x\<lparr>row_seq := n, deleted := False, row_fields := [], row_clocks := []\<rparr> =
      x\<lparr>deleted := False, row_fields := [], row_clocks := [], row_seq := n\<rparr>" for x :: registry_row by simp
  from Revive show ?thesis
    using write_fields_seq [where b = "r\<lparr>deleted := False, row_fields := [], row_clocks := []\<rparr>" and c = True]
    by (simp add: apply_op_revive swap)
qed (simp_all add: apply_op_delete apply_op_buried apply_op_live write_fields_seq)

definition unseq :: "registry_row \<Rightarrow> registry_row" where
  "unseq r = r\<lparr>row_seq := 0\<rparr>"

lemma deleted_unseq [simp]: "deleted (unseq r) = deleted r"
  by (simp add: unseq_def)

lemma unseq_seq [simp]: "unseq (r\<lparr>row_seq := n\<rparr>) = unseq r"
  by (simp add: unseq_def)

lemma apply_op_row_unseq:
  "map_option unseq row = map_option unseq row' \<Longrightarrow>
   map_option unseq (apply_op_row op row) = map_option unseq (apply_op_row op row')"
proof (cases row)
  case (Some r)
  have eq: "map_option unseq (apply_op_row op (Some r)) = map_option unseq (apply_op_row op (Some (unseq r)))" for r
    using apply_op_seq [where r = r and n = 0 and op = op]
    by (cases "fst (apply_op (Some r) op)") (simp_all add: apply_op_row_def unseq_def)
  assume "map_option unseq row = map_option unseq row'"
  with Some obtain r' where "row' = Some r'" "unseq r = unseq r'" by (cases row') auto
  with Some eq [of r] eq [of r'] show ?thesis by simp
qed auto

lemma apply_ops_unseq:
  "map_option unseq row = map_option unseq row' \<Longrightarrow>
   map_option unseq (apply_ops ops row) = map_option unseq (apply_ops ops row')"
  unfolding apply_ops_def
proof (induction ops arbitrary: row row')
  case (Cons op ops)
  show ?case using Cons.IH [OF apply_op_row_unseq [OF Cons.prems]] by simp
qed simp

section \<open>A batch\<close>

text \<open>The row a batch sees under a key: touched by the batch, or stored.\<close>

definition batch_view :: "(string \<times> string, registry_row) btree \<Rightarrow> registry_row list \<Rightarrow> string \<times> string \<Rightarrow>
    registry_row option" where
  "batch_view rows touched k =
     (case find (\<lambda>r. (row_kind r, row_id r) = k) touched of Some r \<Rightarrow> Some r | None \<Rightarrow> bt_get rows k)"

definition touched_ok :: "nat \<Rightarrow> registry_row list \<Rightarrow> bool" where
  "touched_ok nxt touched = (distinct (map (\<lambda>r. (row_kind r, row_id r)) touched) \<and>
     list_all (\<lambda>r. row_ok r \<and> row_seq r = nxt) touched)"

lemma find_filter_ne: "P x \<Longrightarrow> find P (filter (\<lambda>y. \<not> P y) xs @ [x]) = Some x"
  by (induction xs) auto

lemma find_filter_other:
  "k \<noteq> (a, b) \<Longrightarrow> find (\<lambda>r. (row_kind r, row_id r) = k)
     (filter (\<lambda>r. \<not> (row_kind r = a \<and> row_id r = b)) xs @ [r']) =
   (if (row_kind r', row_id r') = k then (case find (\<lambda>r. (row_kind r, row_id r) = k) xs of None \<Rightarrow> Some r' | Some r \<Rightarrow> Some r)
    else find (\<lambda>r. (row_kind r, row_id r) = k) xs)"
  by (induction xs) (auto split: option.splits)

text \<open>What one operation of a batch does to the view.\<close>

lemma batch_step_view:
  assumes "rows_keyed rows" "touched_ok nxt touched"
  shows "touched_ok nxt (batch_step nxt rows op touched) \<and>
    map_option unseq (batch_view rows (batch_step nxt rows op touched) k) =
      map_option unseq (if (op_row_kind op, op_row_id op) = k then apply_op_row op (batch_view rows touched k)
                        else batch_view rows touched k)"
proof -
  let ?k = "(op_row_kind op, op_row_id op)"
  let ?before = "batch_view rows touched ?k"
  have key: "pred_option (\<lambda>r. row_kind r = op_row_kind op \<and> row_id r = op_row_id op) ?before"
    and ok: "pred_option row_ok ?before"
    using rows_keyed_get [OF assms(1), of ?k] assms(2)
    by (auto simp: batch_view_def touched_ok_def list_all_iff option.pred_set find_Some_iff split: option.splits)
  have step: "batch_step nxt rows op touched = (case apply_op ?before op of
      (Some m, True) \<Rightarrow> filter (\<lambda>r. \<not> (row_kind r = row_kind m \<and> row_id r = row_id m)) touched @ [m\<lparr>row_seq := nxt\<rparr>]
    | _ \<Rightarrow> touched)"
    by (simp add: batch_step_def batch_view_def)
  show ?thesis
  proof (cases "apply_op ?before op")
    case (Pair row changed)
    show ?thesis
    proof (cases "row \<noteq> None \<and> changed")
      case True
      then obtain m where m: "apply_op ?before op = (Some m, True)" using Pair by auto
      have mk: "row_kind m = op_row_kind op \<and> row_id m = op_row_id op" "row_ok m"
        using apply_op_row_keyed [OF refl refl key] apply_op_row_ok [OF ok, of op] m by (auto simp: apply_op_row_def)
      have "row_ok (m\<lparr>row_seq := nxt\<rparr>)" using mk(2) by (simp add: row_ok_def)
      then have t: "touched_ok nxt (batch_step nxt rows op touched)"
        using assms(2) mk(1) unfolding step m by (auto simp: touched_ok_def list_all_iff distinct_map inj_on_def)
      have "batch_view rows (batch_step nxt rows op touched) k =
          (if ?k = k then Some (m\<lparr>row_seq := nxt\<rparr>) else batch_view rows touched k)"
      proof (cases "?k = k")
        case True
        then show ?thesis
          using mk find_filter_ne [of "\<lambda>r. row_kind r = op_row_kind op \<and> row_id r = op_row_id op" "m\<lparr>row_seq := nxt\<rparr>" touched]
          unfolding step m by (auto simp: batch_view_def)
      next
        case False
        then show ?thesis
          using mk find_filter_other [of k "op_row_kind op" "op_row_id op" touched "m\<lparr>row_seq := nxt\<rparr>"]
          unfolding step m by (simp add: batch_view_def)
      qed
      then show ?thesis using t m by (auto simp: apply_op_row_def)
    next
      case False
      then have "batch_step nxt rows op touched = touched" unfolding step Pair by (auto split: option.splits bool.splits)
      moreover have "apply_op_row op ?before = ?before" using False Pair apply_op_unchanged [of ?before op]
        by (auto simp: apply_op_row_def split: option.splits)
      ultimately show ?thesis using assms(2) by auto
    qed
  qed
qed

lemma batch_fold_view:
  assumes "rows_keyed rows" "touched_ok nxt touched"
  shows "touched_ok nxt (fold (batch_step nxt rows) ops touched) \<and>
    map_option unseq (batch_view rows (fold (batch_step nxt rows) ops touched) k) =
      map_option unseq (apply_ops (filter (\<lambda>op. (op_row_kind op, op_row_id op) = k) ops) (batch_view rows touched k))"
  using assms(2)
proof (induction ops arbitrary: touched)
  case (Cons op ops)
  note step = batch_step_view [OF assms(1) Cons.prems, where op = op and k = k]
  let ?t = "batch_step nxt rows op touched" and ?f = "filter (\<lambda>op. (op_row_kind op, op_row_id op) = k) ops"
  have "map_option unseq (apply_ops ?f (batch_view rows ?t k)) =
      map_option unseq (apply_ops ?f (if (op_row_kind op, op_row_id op) = k then apply_op_row op (batch_view rows touched k)
                        else batch_view rows touched k))"
    by (rule apply_ops_unseq) (use step in blast)
  with Cons.IH [of ?t] step show ?case by (auto simp: apply_ops_def)
qed (simp add: apply_ops_def)

section \<open>The invariant of a room\<close>

definition room_ok :: "reg_room \<Rightarrow> bool" where
  "room_ok room = (rows_keyed (room_rows room) \<and> room_floor room \<le> room_seq room \<and>
     list_all (\<lambda>(_, r). 0 < row_seq r \<and> row_seq r \<le> room_seq room) (room_rows room))"

lemma room_okD:
  assumes "room_ok room"
  shows "rows_keyed (room_rows room)" "room_floor room \<le> room_seq room"
    and "bt_get (room_rows room) k = Some r \<Longrightarrow>
      (row_kind r, row_id r) = k \<and> row_ok r \<and> 0 < row_seq r \<and> row_seq r \<le> room_seq room"
  using assms rows_keyed_get [of "room_rows room" k r]
  by (force simp: room_ok_def list_all_iff dest: bt_get_SomeD)+

lemma room_okI:
  assumes "bt_wf (room_rows room)" "room_floor room \<le> room_seq room"
    and "\<And>k r. bt_get (room_rows room) k = Some r \<Longrightarrow>
      (row_kind r, row_id r) = k \<and> row_ok r \<and> 0 < row_seq r \<and> row_seq r \<le> room_seq room"
  shows "room_ok room"
  using assms by (fastforce simp: room_ok_def list_all_iff rows_keyed_def bt_get_mem)

lemma find_Some_distinct:
  "distinct (map f xs) \<Longrightarrow> find (\<lambda>x. f x = k) xs = Some y \<longleftrightarrow> y \<in> set xs \<and> f y = k"
  by (induction xs) (auto simp: rev_image_eqI)

lemma find_rev_distinct:
  assumes "distinct (map f xs)"
  shows "find (\<lambda>x. f x = k) (rev xs) = find (\<lambda>x. f x = k) xs"
proof -
  have "distinct (map f (rev xs))" using assms by (simp add: rev_map [symmetric])
  from find_Some_distinct [OF this, of k] find_Some_distinct [OF assms, of k] show ?thesis
    by (metis not_Some_eq set_rev)
qed

abbreviation batch_touched :: "reg_room \<Rightarrow> row_op list \<Rightarrow> registry_row list" where
  "batch_touched room ops \<equiv> fold (batch_step (room_seq room + 1) (room_rows room)) ops []"

lemma batch_touched_ok:
  assumes "room_ok room"
  shows "touched_ok (room_seq room + 1) (batch_touched room ops)"
  using batch_fold_view [OF room_okD(1) [OF assms], of "room_seq room + 1" "[]" ops] by (simp add: touched_ok_def)

lemma apply_batch_simps:
  "room_seq (fst (apply_batch room ops)) = (if batch_touched room ops = [] then room_seq room else room_seq room + 1)"
  "ab_rows (snd (apply_batch room ops)) = batch_touched room ops"
  "ab_seq (snd (apply_batch room ops)) = room_seq (fst (apply_batch room ops))"
  "room_floor (fst (apply_batch room ops)) = room_floor room"
  "room_rows (fst (apply_batch room ops)) =
     fold (\<lambda>row. bt_insert (row_kind row, row_id row) row) (batch_touched room ops) (room_rows room)"
  by (simp_all add: apply_batch_def Let_def)

text \<open>The stored rows after a batch are the view the batch ended with.\<close>

lemma apply_batch_get:
  assumes "room_ok room"
  shows "bt_get (room_rows (fst (apply_batch room ops))) k = batch_view (room_rows room) (batch_touched room ops) k"
proof -
  have "distinct (map (\<lambda>r. (row_kind r, row_id r)) (batch_touched room ops))"
    using batch_touched_ok [OF assms] by (simp add: touched_ok_def)
  from find_rev_distinct [OF this, of k] show ?thesis
    by (simp add: apply_batch_simps incoming_get batch_view_def split: option.splits)
qed

lemma bt_wf_inserts: "bt_wf m \<Longrightarrow> bt_wf (fold (\<lambda>row. bt_insert (row_kind row, row_id row) row) rows m)"
  by (rule bt.inv_fold_ins)

lemma apply_batch_ok:
  assumes "room_ok room"
  shows "room_ok (fst (apply_batch room ops))"
proof (rule room_okI)
  show "bt_wf (room_rows (fst (apply_batch room ops)))"
    using room_okD(1) [OF assms] by (simp add: apply_batch_simps bt_wf_inserts rows_keyed_def)
  show "room_floor (fst (apply_batch room ops)) \<le> room_seq (fst (apply_batch room ops))"
    using room_okD(2) [OF assms] by (simp add: apply_batch_simps)
  fix k r
  assume r: "bt_get (room_rows (fst (apply_batch room ops))) k = Some r"
  show "(row_kind r, row_id r) = k \<and> row_ok r \<and> 0 < row_seq r \<and> row_seq r \<le> room_seq (fst (apply_batch room ops))"
  proof (cases "find (\<lambda>r. (row_kind r, row_id r) = k) (batch_touched room ops)")
    case None
    with r have "bt_get (room_rows room) k = Some r" by (simp add: apply_batch_get [OF assms] batch_view_def)
    from room_okD(3) [OF assms this] show ?thesis by (auto simp: apply_batch_simps)
  next
    case (Some r')
    with r have "r' = r" by (simp add: apply_batch_get [OF assms] batch_view_def)
    moreover have "r' \<in> set (batch_touched room ops)" "(row_kind r', row_id r') = k"
      using Some by (auto simp: find_Some_iff)
    ultimately show ?thesis
      using batch_touched_ok [OF assms, of ops] by (auto simp: touched_ok_def list_all_iff apply_batch_simps)
  qed
qed

lemma room_ok_empty [simp]: "room_ok empty_room"
  by (simp add: room_ok_def empty_room_def rows_keyed_def)

section \<open>The interface of a registry store\<close>

text \<open>
  What the protocol relies on of a store (the trait \<open>RegistryStore\<close>): rows are stored under their key with
  the number of the batch that last touched them, the delta query returns exactly the rows above a number,
  and a batch replaces exactly the rows it reports. Under these laws a delta is complete.
\<close>

locale registry_store =
  fixes ok :: "'s \<Rightarrow> bool"
    and head :: "'s \<Rightarrow> nat"
    and row :: "'s \<Rightarrow> string \<times> string \<Rightarrow> registry_row option"
    and since :: "'s \<Rightarrow> nat \<Rightarrow> registry_row list"
    and commit :: "row_op list \<Rightarrow> 's \<Rightarrow> 's"
    and touched :: "'s \<Rightarrow> row_op list \<Rightarrow> registry_row list"
  assumes since_iff: "ok s \<Longrightarrow> n < 2 ^ 63 \<Longrightarrow> r \<in> set (since s n) \<longleftrightarrow> (\<exists>k. row s k = Some r) \<and> n < row_seq r"
    and row_key: "ok s \<Longrightarrow> row s k = Some r \<Longrightarrow> (row_kind r, row_id r) = k \<and> 0 < row_seq r \<and> row_seq r \<le> head s"
    and ok_commit: "ok s \<Longrightarrow> ok (commit ops s)"
    and commit_row: "ok s \<Longrightarrow> row (commit ops s) k =
      (case find (\<lambda>r. (row_kind r, row_id r) = k) (touched s ops) of Some r \<Rightarrow> Some r | None \<Rightarrow> row s k)"
    and touched_seq: "ok s \<Longrightarrow> r \<in> set (touched s ops) \<Longrightarrow> row_seq r = head s + 1"
    and head_commit: "ok s \<Longrightarrow> head s \<le> head (commit ops s)"
begin

lemma ok_commits: "ok s \<Longrightarrow> ok (fold commit bs s)"
  by (induction bs arbitrary: s) (auto simp: ok_commit)

lemma head_commits: "ok s \<Longrightarrow> head s \<le> head (fold commit bs s)"
proof (induction bs arbitrary: s)
  case (Cons ops bs)
  then show ?case using head_commit [of s ops] ok_commit [of s ops] by (auto intro: order_trans)
qed simp

text \<open>A row that differs after some batches was touched by one of them, so its number is above the old head.\<close>

lemma changed_is_newer:
  assumes "ok s" "row (fold commit bs s) k \<noteq> row s k"
  shows "\<exists>r. row (fold commit bs s) k = Some r \<and> head s < row_seq r"
  using assms
proof (induction bs arbitrary: s)
  case (Cons ops bs)
  let ?s = "commit ops s"
  show ?case
  proof (cases "row (fold commit bs ?s) k = row ?s k")
    case True
    with Cons.prems obtain r where "find (\<lambda>r. (row_kind r, row_id r) = k) (touched s ops) = Some r" "row ?s k = Some r"
      by (auto simp: commit_row split: option.splits)
    then have "r \<in> set (touched s ops)" by (auto simp: find_Some_iff)
    with touched_seq [OF Cons.prems(1)] True \<open>row ?s k = Some r\<close> show ?thesis by auto
  next
    case False
    then obtain r where "row (fold commit bs ?s) k = Some r" "head ?s < row_seq r"
      using Cons.IH [OF ok_commit [OF Cons.prems(1)]] by auto
    with head_commit [OF Cons.prems(1), of ops] show ?thesis by (auto dest: order.strict_trans1)
  qed
qed simp

text \<open>The delta after the old head, merged over the old rows, is the new rows.\<close>

lemma delta_complete:
  assumes "ok s" "head s < 2 ^ 63"
  shows "(case find (\<lambda>r. (row_kind r, row_id r) = k) (rev (since (fold commit bs s) (head s))) of
            None \<Rightarrow> row s k | Some r \<Rightarrow> Some r) = row (fold commit bs s) k"
proof -
  let ?s = "fold commit bs s"
  note iff = since_iff [OF ok_commits [OF assms(1)] assms(2), of _ bs]
  show ?thesis
  proof (cases "find (\<lambda>r. (row_kind r, row_id r) = k) (rev (since ?s (head s)))")
    case None
    then have "\<And>r. r \<in> set (since ?s (head s)) \<Longrightarrow> (row_kind r, row_id r) \<noteq> k" by (auto simp: find_None_iff)
    then have "row ?s k = row s k"
      using changed_is_newer [OF assms(1), of bs k] row_key [OF ok_commits [OF assms(1)], of bs k] iff by blast
    with None show ?thesis by simp
  next
    case (Some r)
    then have "r \<in> set (since ?s (head s))" "(row_kind r, row_id r) = k" by (auto dest: find_SomeD)
    then have "row ?s k = Some r" using iff row_key [OF ok_commits [OF assms(1)]] by blast
    with Some show ?thesis by simp
  qed
qed

text \<open>The whole table is the delta after zero.\<close>

lemma full_complete:
  assumes "ok s"
  shows "find (\<lambda>r. (row_kind r, row_id r) = k) (rev (since s 0)) = row s k"
proof (cases "find (\<lambda>r. (row_kind r, row_id r) = k) (rev (since s 0))")
  case None
  then have "\<And>r. r \<in> set (since s 0) \<Longrightarrow> (row_kind r, row_id r) \<noteq> k" by (auto simp: find_None_iff)
  then have "row s k = None" using since_iff [OF assms, of 0] row_key [OF assms, of k] by (cases "row s k") auto
  with None show ?thesis by simp
next
  case (Some r)
  then have "r \<in> set (since s 0)" "(row_kind r, row_id r) = k" by (auto dest: find_SomeD)
  then have "row s k = Some r" using since_iff [OF assms, of 0] row_key [OF assms] by auto
  with Some show ?thesis by simp
qed

end

lemma as_bigint_id: "n < 2 ^ 63 \<Longrightarrow> as_bigint n = int n"
  by (simp add: as_bigint_def Let_def)

lemma rows_since_iff:
  assumes "room_ok room" "n < 2 ^ 63"
  shows "r \<in> set (rows_since room n) \<longleftrightarrow> (\<exists>k. bt_get (room_rows room) k = Some r) \<and> n < row_seq r"
  using clocks_mem [of "room_rows room" r] room_okD(1) [OF assms(1)]
  by (auto simp: rows_since_def as_bigint_id [OF assms(2)] bt_values_def rows_keyed_def)

interpretation pg: registry_store room_ok room_seq "\<lambda>room. bt_get (room_rows room)" rows_since
  "\<lambda>ops room. fst (apply_batch room ops)" "\<lambda>room ops. ab_rows (snd (apply_batch room ops))"
proof
  fix room :: reg_room and n :: nat and r
  assume "room_ok room" "n < 2 ^ 63"
  then show "(r \<in> set (rows_since room n)) = ((\<exists>k. bt_get (room_rows room) k = Some r) \<and> n < row_seq r)"
    by (rule rows_since_iff)
next
  fix room r ops
  assume "room_ok room" "r \<in> set (ab_rows (snd (apply_batch room ops)))"
  then show "row_seq r = room_seq room + 1"
    using batch_touched_ok [of room ops] by (auto simp: apply_batch_simps touched_ok_def list_all_iff)
next
  fix room ops k
  assume "room_ok room"
  then show "bt_get (room_rows (fst (apply_batch room ops))) k =
      (case find (\<lambda>r. (row_kind r, row_id r) = k) (ab_rows (snd (apply_batch room ops))) of
         Some r \<Rightarrow> Some r | None \<Rightarrow> bt_get (room_rows room) k)"
    by (simp add: apply_batch_get batch_view_def apply_batch_simps(2))
qed (auto simp: apply_batch_ok apply_batch_simps dest: room_okD)

section \<open>Client and server together\<close>

text \<open>A replica that holds exactly the rows of the room, at the room's head.\<close>

definition in_step :: "registry_doc \<Rightarrow> reg_room \<Rightarrow> bool" where
  "in_step d room = (authoritative d = room_rows room \<and> server_seq d = room_seq room)"

lemma authoritative_eqI:
  "room_ok room \<Longrightarrow> bt_wf m \<Longrightarrow> (\<And>k. bt_get m k = bt_get (room_rows room) k) \<Longrightarrow> m = room_rows room"
  by (rule bt_ext) (simp_all add: room_ok_def rows_keyed_def)

text \<open>Merging the delta after the replica's cursor brings it back in step.\<close>

lemma delta_in_step:
  assumes "room_ok room" "room_seq room < 2 ^ 63"
  shows "fold (\<lambda>row. bt_insert (row_kind row, row_id row) row)
      (rows_since (fold (\<lambda>ops room. fst (apply_batch room ops)) bs room) (room_seq room)) (room_rows room) =
    room_rows (fold (\<lambda>ops room. fst (apply_batch room ops)) bs room)"
proof (rule authoritative_eqI)
  show "room_ok (fold (\<lambda>ops room. fst (apply_batch room ops)) bs room)" using assms(1) by (rule pg.ok_commits)
  show "bt_wf (fold (\<lambda>row. bt_insert (row_kind row, row_id row) row)
      (rows_since (fold (\<lambda>ops room. fst (apply_batch room ops)) bs room) (room_seq room)) (room_rows room))"
    using room_okD(1) [OF assms(1)] by (simp add: bt_wf_inserts rows_keyed_def)
qed (simp add: incoming_get pg.delta_complete [OF assms])

lemma full_in_step:
  assumes "room_ok room"
  shows "fold (\<lambda>row. bt_insert (row_kind row, row_id row) row) (rows_since room 0) [] = room_rows room"
  using assms
  by (rule authoritative_eqI)
     (simp_all add: bt_wf_inserts incoming_get pg.full_complete [OF assms] split: option.splits)

lemma apply_state_authoritative:
  "authoritative (fst (apply_state now sq False floor rows d)) =
     fold (\<lambda>row. bt_insert (row_kind row, row_id row) row) rows (authoritative d)"
  "server_seq d \<le> sq \<Longrightarrow> authoritative (fst (apply_state now sq True floor rows d)) =
     fold (\<lambda>row. bt_insert (row_kind row, row_id row) row) rows []"
  "server_seq (fst (apply_state now sq full floor rows d)) = sq"
  by (simp_all add: apply_state_def Let_def)

lemma empty_batch_same: "batch_touched room ops = [] \<Longrightarrow> fst (apply_batch room ops) = room"
  by (simp add: apply_batch_def Let_def)

lemma rows_since_head:
  assumes "room_ok room" "room_seq room < 2 ^ 63"
  shows "rows_since room (room_seq room) = []"
proof -
  have "r \<notin> set (rows_since room (room_seq room))" for r
    using rows_since_iff [OF assms] room_okD(3) [OF assms(1)] leD by metis
  then show ?thesis by (metis set_empty2 equals0I)
qed

section \<open>Properties\<close>

text \<open>A room that has one chat, and an operation on it.\<close>

definition sample_room :: reg_room where
  "sample_room = \<lparr>room_seq = 4, room_floor = 0, room_rows = [((''chats'', ''c1''), sample_row)]\<rparr>"

definition sample_batch :: "row_op list" where
  "sample_batch = [sample_update 9 ''b'' ''title'' (JStr ''new'')]"

lemma sample_room_ok: "room_ok sample_room"
  by (simp add: sample_room_def room_ok_def rows_keyed_def sample_row_def bt_wf_def row_ok_def bt_contains_def bt_get_Cons)

text \<open>The server's row after the pending batches is the authoritative row with the pending operations replayed, tombstones included.\<close>

lemma server_replays_pending:
  assumes "room_ok room" "authoritative d = room_rows room"
  shows "map_option unseq (bt_get (room_rows (fold (\<lambda>b room. fst (apply_batch room (pb_ops b))) (pending d) room)) (kind, rid)) =
    map_option unseq (merged d kind rid)"
proof -
  let ?key = "\<lambda>op. op_row_kind op = kind \<and> op_row_id op = rid"
  have one: "map_option unseq (bt_get (room_rows (fst (apply_batch room ops))) (kind, rid)) =
      map_option unseq (apply_ops (filter ?key ops) (bt_get (room_rows room) (kind, rid)))" if "room_ok room" for room ops
    using batch_fold_view [OF room_okD(1) [OF that], of "room_seq room + 1" "[]" ops "(kind, rid)"]
    by (simp add: apply_batch_get [OF that] touched_ok_def batch_view_def)
  have "map_option unseq (bt_get (room_rows (fold (\<lambda>b room. fst (apply_batch room (pb_ops b))) bs room)) (kind, rid)) =
      map_option unseq (apply_ops (filter ?key (concat (map pb_ops bs))) row)"
    if "room_ok room" "map_option unseq (bt_get (room_rows room) (kind, rid)) = map_option unseq row" for bs room row
    using that
  proof (induction bs arbitrary: room row)
    case (Cons b bs)
    have "map_option unseq (bt_get (room_rows (fst (apply_batch room (pb_ops b)))) (kind, rid)) =
        map_option unseq (apply_ops (filter ?key (pb_ops b)) row)"
      using one [OF Cons.prems(1)] apply_ops_unseq [OF Cons.prems(2)] by metis
    from Cons.IH [OF apply_batch_ok [OF Cons.prems(1)] this] show ?case by (simp add: apply_ops_def)
  qed (simp add: apply_ops_def)
  from this [OF assms(1) refl] show ?thesis by (simp add: merged_def pending_ops_def assms(2))
qed

text \<open>The row of a room that a read shows: tombstones are not.\<close>

definition shown_row :: "reg_room \<Rightarrow> string \<Rightarrow> string \<Rightarrow> registry_row option" where
  "shown_row room kind rid =
     (case bt_get (room_rows room) (kind, rid) of None \<Rightarrow> None | Some r \<Rightarrow> if deleted r then None else Some r)"

text \<open>
  C20. What the client shows while writes are pending is what the server stores: when a replica holds the rows of the room,
  applying its pending batches on the server gives, for every row, the row the replica's overlay shows, up to the number
  the server stamps; a row the overlay does not show is absent or a tombstone there.
\<close>

theorem server_applies_overlay:
  assumes "room_ok room" "authoritative d = room_rows room"
  shows "map_option unseq (shown_row (fold (\<lambda>b room. fst (apply_batch room (pb_ops b))) (pending d) room) kind rid) =
    map_option unseq (overlay_row d kind rid)"
proof -
  have same: "map_option unseq (case x of None \<Rightarrow> None | Some r \<Rightarrow> if deleted r then None else Some r) =
      map_option unseq (case y of None \<Rightarrow> None | Some r \<Rightarrow> if deleted r then None else Some r)"
    if eq: "map_option unseq x = map_option unseq y" for x y
  proof (cases x)
    case None
    then show ?thesis using eq by simp
  next
    case (Some a)
    then obtain b where b: "y = Some b" "unseq a = unseq b" using eq by (cases y) auto
    then have "deleted a = deleted b" by (metis deleted_unseq)
    then show ?thesis using Some b by simp
  qed
  show ?thesis unfolding shown_row_def overlay_row_merged by (rule same [OF server_replays_pending [OF assms]])
qed

theorem server_applies_overlay_witness:
  "map_option unseq (shown_row (fold (\<lambda>b room. fst (apply_batch room (pb_ops b)))
       [\<lparr>pb_batch = ''b'', pb_ops = sample_batch, pb_in_flight = False\<rparr>] sample_room) ''chats'' ''c1'') =
   map_option unseq (overlay_row (sample_doc\<lparr>pending := [\<lparr>pb_batch = ''b'', pb_ops = sample_batch, pb_in_flight = False\<rparr>]\<rparr>) ''chats'' ''c1'')"
  using server_applies_overlay [OF sample_room_ok,
      of "sample_doc\<lparr>pending := [\<lparr>pb_batch = ''b'', pb_ops = sample_batch, pb_in_flight = False\<rparr>]\<rparr>" "''chats''" "''c1''"]
  by (simp add: sample_doc_def sample_room_def)

text \<open>
  Effect of a batch on the store: it keeps the room well-formed; if it changed nothing the room is
  exactly as before; otherwise the sequence grows by one, every reported row is stored with the new number,
  and every row that is not reported is untouched.
\<close>

theorem apply_batch_effect:
  assumes "room_ok room"
  shows "room_ok (fst (apply_batch room ops)) \<and>
    (ab_rows (snd (apply_batch room ops)) = [] \<longrightarrow> fst (apply_batch room ops) = room) \<and>
    (ab_rows (snd (apply_batch room ops)) \<noteq> [] \<longrightarrow> room_seq (fst (apply_batch room ops)) = room_seq room + 1) \<and>
    (\<forall>r \<in> set (ab_rows (snd (apply_batch room ops))). row_seq r = room_seq room + 1 \<and>
       bt_get (room_rows (fst (apply_batch room ops))) (row_kind r, row_id r) = Some r) \<and>
    (\<forall>k. k \<notin> (\<lambda>r. (row_kind r, row_id r)) ` set (ab_rows (snd (apply_batch room ops))) \<longrightarrow>
       bt_get (room_rows (fst (apply_batch room ops))) k = bt_get (room_rows room) k)"
proof -
  have d: "distinct (map (\<lambda>r. (row_kind r, row_id r)) (batch_touched room ops))"
    and n: "\<forall>r \<in> set (batch_touched room ops). row_seq r = room_seq room + 1"
    using batch_touched_ok [OF assms, of ops] by (auto simp: touched_ok_def list_all_iff)
  have "bt_get (room_rows (fst (apply_batch room ops))) (row_kind r, row_id r) = Some r" if "r \<in> set (batch_touched room ops)" for r
    unfolding apply_batch_get [OF assms] batch_view_def
    using iffD2 [OF find_Some_distinct [OF d, of "(row_kind r, row_id r)" r]] that by simp
  moreover have "bt_get (room_rows (fst (apply_batch room ops))) k = bt_get (room_rows room) k"
    if "k \<notin> (\<lambda>r. (row_kind r, row_id r)) ` set (batch_touched room ops)" for k
  proof -
    have "find (\<lambda>r. (row_kind r, row_id r) = k) (batch_touched room ops) = None" using that by (auto simp: find_None_iff)
    then show ?thesis by (simp add: apply_batch_get [OF assms] batch_view_def)
  qed
  ultimately show ?thesis
    using apply_batch_ok [OF assms] n empty_batch_same [of room ops] by (simp only: apply_batch_simps(1,2)) simp
qed

theorem apply_batch_effect_witness:
  "room_ok (fst (apply_batch sample_room sample_batch)) \<and> room_seq (fst (apply_batch sample_room sample_batch)) = 5"
proof -
  have "ab_rows (snd (apply_batch sample_room sample_batch)) \<noteq> []" "room_seq sample_room + 1 = 5" by code_simp+
  with apply_batch_effect [OF sample_room_ok, of sample_batch] show ?thesis by simp
qed

text \<open>
  C3. Reconnecting resynchronises exactly: a replica that was in step with a room, and comes back after
  any sequence of batches, is in step again after the answer to its hello, whether it is a delta or a full
  table, and whatever it has pending.
\<close>

theorem hello_resync_exact:
  assumes "room_ok room" "in_step d room" "room' = fold (\<lambda>ops room. fst (apply_batch room ops)) batches room"
    and "room_seq room' < 2 ^ 63" "room_of pg org = room'"
    and "respond t org (Hello (hello_cursor d) device) (s, pg) = (st, \<lparr>to_sender = [frame], broadcast = []\<rparr>)"
  shows "in_step (handle_frame now frame d) room'"
proof -
  have ok': "room_ok room'" unfolding assms(3) using assms(1) by (rule pg.ok_commits)
  have le: "room_seq room \<le> room_seq room'" unfolding assms(3) using assms(1) by (rule pg.head_commits)
  let ?full = "needs_full (hello_cursor d) room'"
  let ?rows = "rows_since room' (if ?full then 0 else case hello_cursor d of None \<Rightarrow> 0 | Some c \<Rightarrow> c)"
  obtain p devices where frame: "frame = State (room_seq room') ?full (room_floor room') ?rows devices"
    using assms(5,6) by (auto simp: Let_def case_prod_beta)
  have "authoritative (handle_frame now frame d) = room_rows room'"
  proof (cases ?full)
    case True
    then show ?thesis using assms(2) le full_in_step [OF ok']
      by (simp add: frame apply_state_authoritative(2) in_step_def)
  next
    case False
    then have "hello_cursor d = Some (room_seq room)"
      using assms(2) by (auto simp: hello_cursor_def needs_full_def in_step_def split: if_splits)
    with False show ?thesis
      using delta_in_step [OF assms(1), of batches] assms(2,4) le
      by (simp add: frame apply_state_authoritative(1) in_step_def assms(3))
  qed
  then show ?thesis by (simp add: frame in_step_def apply_state_authoritative(3))
qed

theorem hello_resync_exact_witness:
  "in_step (handle_frame (\<lambda>i. 9) (State 5 False 0 (rows_since (fst (apply_batch sample_room sample_batch)) 4) []) sample_doc)
     (fst (apply_batch sample_room sample_batch))"
proof -
  have sq: "room_seq (fst (apply_batch sample_room sample_batch)) = 5" "room_floor (fst (apply_batch sample_room sample_batch)) = 0"
    by code_simp+
  show ?thesis
  proof (rule hello_resync_exact [OF sample_room_ok, where batches = "[sample_batch]" and org = "''o''" and
      pg = "\<lparr>pg_rooms = [(''o'', fst (apply_batch sample_room sample_batch))], pg_presence = []\<rparr>" and t = 0 and
      device = "''d1''" and s = new_session])
    show "in_step sample_doc sample_room" by (simp add: in_step_def sample_doc_def sample_room_def)
    show "room_seq (fst (apply_batch sample_room sample_batch)) < 2 ^ 63" by (simp add: sq)
    show "respond 0 ''o'' (Hello (hello_cursor sample_doc) ''d1'')
      (new_session, \<lparr>pg_rooms = [(''o'', fst (apply_batch sample_room sample_batch))], pg_presence = []\<rparr>) =
    ((new_session\<lparr>rs_device := ''d1'', rs_ready := True\<rparr>,
      \<lparr>pg_rooms = [(''o'', fst (apply_batch sample_room sample_batch))], pg_presence = []\<rparr>),
     \<lparr>to_sender = [State 5 False 0 (rows_since (fst (apply_batch sample_room sample_batch)) 4) []], broadcast = []\<rparr>)"
    by (simp add: hello_cursor_def sample_doc_def new_doc_def room_of_def bt_get_Cons needs_full_def sq live_def Let_def)
  qed (simp_all add: room_of_def bt_get_Cons)
qed

text \<open>
  Live rows keep a replica in step: the merged rows the server broadcasts for a batch, applied to a
  replica that was in step before the batch, leave it in step after it.
\<close>

theorem live_rows_in_step:
  assumes "room_ok room" "in_step d room" "rs_ready s" "room_of pg org = room"
    and "respond t org (Push batch ops) (s, pg) = ((s', pg'), \<lparr>to_sender = acks, broadcast = [frame]\<rparr>)"
  shows "in_step (handle_frame now frame d) (room_of pg' org)"
proof -
  let ?r = "apply_batch room ops"
  have frame: "frame = Rows (room_seq (fst ?r)) (batch_touched room ops)" "batch_touched room ops \<noteq> []"
    and pg': "room_of pg' org = fst ?r"
    using assms(3-5) by (auto simp: Let_def case_prod_beta apply_batch_simps room_of_def split: if_splits)
  have "room_seq (fst ?r) = room_seq room + 1" using frame(2) by (simp add: apply_batch_simps)
  then show ?thesis
    using assms(2) unfolding pg' frame(1)
    by (simp add: in_step_def apply_rows_def Let_def apply_batch_simps(5))
qed

theorem live_rows_in_step_witness:
  "in_step (handle_frame (\<lambda>i. 9) (Rows 5 (ab_rows (snd (apply_batch sample_room sample_batch)))) sample_doc)
     (fst (apply_batch sample_room sample_batch))"
proof -
  let ?pg = "\<lparr>pg_rooms = [(''o'', sample_room)], pg_presence = []\<rparr>"
  have sq: "ab_seq (snd (apply_batch sample_room sample_batch)) = 5" "ab_rows (snd (apply_batch sample_room sample_batch)) \<noteq> []"
    by code_simp+
  have "in_step (handle_frame (\<lambda>i. 9) (Rows 5 (ab_rows (snd (apply_batch sample_room sample_batch)))) sample_doc)
      (room_of (?pg\<lparr>pg_rooms := bt_insert ''o'' (fst (apply_batch sample_room sample_batch)) [(''o'', sample_room)]\<rparr>) ''o'')"
  proof (rule live_rows_in_step [OF sample_room_ok])
    show "in_step sample_doc sample_room" by (simp add: in_step_def sample_doc_def sample_room_def)
    show "rs_ready (ready_for ''d1'')" by (simp add: ready_for_def)
    show "room_of ?pg ''o'' = sample_room" by (simp add: room_of_def bt_get_Cons)
    then show "respond 0 ''o'' (Push ''b'' sample_batch) (ready_for ''d1'', ?pg) =
        ((ready_for ''d1'', ?pg\<lparr>pg_rooms := bt_insert ''o'' (fst (apply_batch sample_room sample_batch)) [(''o'', sample_room)]\<rparr>),
         \<lparr>to_sender = [Ack ''b'' 5 (length (ab_rows (snd (apply_batch sample_room sample_batch))))],
          broadcast = [Rows 5 (ab_rows (snd (apply_batch sample_room sample_batch)))]\<rparr>)"
      by (simp add: ready_for_def sq Let_def case_prod_beta)
  qed
  then show ?thesis by (simp add: room_of_def bt_get_Cons)
qed

text \<open>
  On the socket that pushed a batch the acknowledgement is written before the merged rows: the rows
  only enter the socket's broadcast subscription, behind whatever waits there, while the acknowledgement is
  written at once.
\<close>

theorem ack_written_before_rows:
  assumes "i < length sks" "rs_ready (sk_session (sks ! i))" "length (sk_live (sks ! i)) < 256"
    and "serve_incoming now org i (Push batch ops) (sks, pg) = (sks', pg')"
    and "ab_rows (snd (apply_batch (room_of pg org) ops)) \<noteq> []"
  shows "let applied = snd (apply_batch (room_of pg org) ops)
    in sk_out (sks' ! i) = sk_out (sks ! i) @ [Ack batch (ab_seq applied) (length (ab_rows applied))] \<and>
       sk_live (sks' ! i) = sk_live (sks ! i) @ [Rows (ab_seq applied) (ab_rows applied)]"
  using assms
  by (auto simp: serve_incoming_def Let_def case_prod_beta receive_published_def hub_capacity_def)

theorem ack_written_before_rows_witness:
  "let sk = \<lparr>sk_session = ready_for ''d1'', sk_live = [], sk_out = []\<rparr>;
       pg = \<lparr>pg_rooms = [(''o'', sample_room)], pg_presence = []\<rparr>;
       after = fst (serve_incoming 0 ''o'' 0 (Push ''b'' sample_batch) ([sk], pg)) ! 0
   in sk_out after = [Ack ''b'' 5 1] \<and> length (sk_live after) = 1"
proof -
  let ?sk = "\<lparr>sk_session = ready_for ''d1'', sk_live = [], sk_out = []\<rparr>"
  let ?pg = "\<lparr>pg_rooms = [(''o'', sample_room)], pg_presence = []\<rparr>"
  have "ab_rows (snd (apply_batch (room_of ?pg ''o'') sample_batch)) \<noteq> []"
    "ab_seq (snd (apply_batch (room_of ?pg ''o'') sample_batch)) = 5"
    "length (ab_rows (snd (apply_batch (room_of ?pg ''o'') sample_batch))) = 1" by code_simp+
  with ack_written_before_rows [of 0 "[?sk]" 0 "''o''" "''b''" sample_batch ?pg
      "fst (serve_incoming 0 ''o'' 0 (Push ''b'' sample_batch) ([?sk], ?pg))"
      "snd (serve_incoming 0 ''o'' 0 (Push ''b'' sample_batch) ([?sk], ?pg))"] show ?thesis
    by (simp add: ready_for_def Let_def)
qed

text \<open>
  An offline cycle over plain HTTP forgets the write it pushed: a replica in step with the server
  pushes its one pending batch, which the server stores under a new number; the acknowledgement moves the
  replica's cursor to that number and drops the batch, and the pull that follows asks only for later rows.
  Afterwards the replica has nothing pending and holds the rows from before its own write, while the server
  has moved on.
\<close>

theorem offline_sync_forgets_own_write:
  assumes "room_ok room" "in_step d room" "pending d = [b]" "\<not> pb_in_flight b" "room_seq room + 1 < 2 ^ 63"
    and "ab_rows (snd (apply_batch room (pb_ops b))) \<noteq> []"
    and "offline_sync now d room = (d', room')"
  shows "pending d' = [] \<and> authoritative d' = room_rows room \<and> server_seq d' = room_seq room' \<and>
    room_seq room' = room_seq room + 1 \<and> room_rows room' \<noteq> room_rows room"
proof -
  let ?room = "fst (apply_batch room (pb_ops b))"
  have seq: "room_seq ?room = room_seq room + 1" using assms(6) by (simp add: apply_batch_simps)
  have head: "rows_since ?room (room_seq ?room) = []"
    using rows_since_head [OF apply_batch_ok [OF assms(1)], of "pb_ops b"] assms(5) seq by simp
  have full: "\<not> needs_full (Some (room_seq ?room)) ?room"
    using room_okD(2) [OF apply_batch_ok [OF assms(1)], of "pb_ops b"] by (simp add: needs_full_def)
  obtain r where r: "r \<in> set (batch_touched room (pb_ops b))" using assms(6) by (force simp: apply_batch_simps(2))
  have "bt_get (room_rows ?room) (row_kind r, row_id r) \<noteq> bt_get (room_rows room) (row_kind r, row_id r)"
  proof
    assume same: "bt_get (room_rows ?room) (row_kind r, row_id r) = bt_get (room_rows room) (row_kind r, row_id r)"
    obtain r' where "find (\<lambda>x. (row_kind x, row_id x) = (row_kind r, row_id r)) (batch_touched room (pb_ops b)) = Some r'"
      using r by (metis (mono_tags, lifting) find_None_iff not_Some_eq)
    then have "bt_get (room_rows ?room) (row_kind r, row_id r) = Some r'" "row_seq r' = room_seq room + 1"
      using batch_touched_ok [OF assms(1), of "pb_ops b"]
      by (auto simp: apply_batch_get [OF assms(1)] batch_view_def touched_ok_def list_all_iff dest: find_SomeD)
    with same room_okD(3) [OF assms(1), of "(row_kind r, row_id r)" r'] show False by simp
  qed
  then have ne: "room_rows ?room \<noteq> room_rows room" by metis
  have "(d', room') = offline_sync now d room" using assms(7) by simp
  with assms(2,3,4) seq head full ne show ?thesis
    by (simp add: offline_sync_def take_pushable_def ack_batch_def http_pull_def in_step_def Let_def case_prod_beta
        apply_batch_simps(3) apply_state_def)
qed

theorem offline_sync_forgets_own_write_witness:
  "let d = sample_doc\<lparr>pending := [\<lparr>pb_batch = ''b'', pb_ops = sample_batch, pb_in_flight = False\<rparr>]\<rparr>;
       (d', room') = offline_sync (\<lambda>i. 9) d sample_room
   in pending d' = [] \<and> authoritative d' = room_rows sample_room \<and> room_rows room' \<noteq> room_rows sample_room"
proof -
  let ?b = "\<lparr>pb_batch = ''b'', pb_ops = sample_batch, pb_in_flight = False\<rparr>"
  let ?d = "sample_doc\<lparr>pending := [?b]\<rparr>"
  have "ab_rows (snd (apply_batch sample_room (pb_ops ?b))) \<noteq> []" by code_simp
  moreover have "in_step ?d sample_room" "room_seq sample_room + 1 < 2 ^ 63"
    by (simp_all add: in_step_def sample_doc_def sample_room_def)
  ultimately show ?thesis
    using offline_sync_forgets_own_write [OF sample_room_ok, of ?d ?b "\<lambda>i. 9"
        "fst (offline_sync (\<lambda>i. 9) ?d sample_room)" "snd (offline_sync (\<lambda>i. 9) ?d sample_room)"]
    by (simp add: Let_def case_prod_beta)
qed

end
