(* ===== verification/Rust_Str.thy ===== *)
theory Rust_Str
  imports Prelude "HOL-Library.Sublist"
begin

text \<open>
  The string operations of Rust's standard library the sources use, on the UTF-8 bytes of a \<open>str\<close>: lines,
  trimming of Unicode white space, counting and cutting at character boundaries.
\<close>

section \<open>Lines\<close>

definition newline :: char where "newline = CHR 0x0A"

definition carriage_return :: char where "carriage_return = CHR 0x0D"

text \<open>The carriage return of a line ending is not part of the line; a bare one is.\<close>

fun unix_newlines :: "string \<Rightarrow> string" where
  "unix_newlines (c # d # s) =
     (if c = carriage_return \<and> d = newline then newline # unix_newlines s else c # unix_newlines (d # s))"
| "unix_newlines s = s"

fun split_lines :: "string \<Rightarrow> string list" where
  "split_lines [] = []"
| "split_lines (c # s) =
     (if c = newline then [] # split_lines s
      else (case split_lines s of [] \<Rightarrow> [[c]] | l # ls \<Rightarrow> (c # l) # ls))"

text \<open>\<open>str::lines\<close>.\<close>

definition str_lines :: "string \<Rightarrow> string list" where
  "str_lines s = split_lines (unix_newlines s)"

text \<open>\<open>join\<close> with a separator.\<close>

fun join_str :: "string \<Rightarrow> string list \<Rightarrow> string" where
  "join_str sep [] = []"
| "join_str sep [s] = s"
| "join_str sep (s # ss) = s @ sep @ join_str sep ss"

section \<open>White space\<close>

text \<open>The UTF-8 encodings of the characters with the property White\_Space.\<close>

definition ws_chars :: "string list" where
  "ws_chars = [[CHR 0x09], [CHR 0x0A], [CHR 0x0B], [CHR 0x0C], [CHR 0x0D], [CHR 0x20],
     [CHR 0xC2, CHR 0x85], [CHR 0xC2, CHR 0xA0], [CHR 0xE1, CHR 0x9A, CHR 0x80]] @
     map (\<lambda>b. [CHR 0xE2, CHR 0x80, char_of b]) [0x80 ..< (0x8B :: nat)] @
     [[CHR 0xE2, CHR 0x80, CHR 0xA8], [CHR 0xE2, CHR 0x80, CHR 0xA9], [CHR 0xE2, CHR 0x80, CHR 0xAF],
      [CHR 0xE2, CHR 0x81, CHR 0x9F], [CHR 0xE3, CHR 0x80, CHR 0x80]]"

function strip_front :: "string list \<Rightarrow> string \<Rightarrow> string" where
  "strip_front ws s =
     (case find (\<lambda>w. w \<noteq> [] \<and> prefix w s) ws of None \<Rightarrow> s | Some w \<Rightarrow> strip_front ws (drop (length w) s))"
  by pat_completeness auto
termination
  by (relation "measure (\<lambda>(ws, s). length s)") (auto simp: find_Some_iff diff_less dest!: prefix_length_le intro!: diff_less)

declare strip_front.simps [simp del]

definition trim_start :: "string \<Rightarrow> string" where
  "trim_start s = strip_front ws_chars s"

definition trim_end :: "string \<Rightarrow> string" where
  "trim_end s = rev (strip_front (map rev ws_chars) (rev s))"

definition trim :: "string \<Rightarrow> string" where
  "trim s = trim_end (trim_start s)"

section \<open>Characters\<close>

text \<open>A continuation byte of UTF-8 is one in \<open>0x80..0xBF\<close>; every other byte starts a character.\<close>

definition cont_byte :: "char \<Rightarrow> bool" where
  "cont_byte c = (0x80 \<le> (of_char c :: nat) \<and> of_char c < (0xC0 :: nat))"

definition char_count :: "string \<Rightarrow> nat" where
  "char_count s = length (filter (\<lambda>c. \<not> cont_byte c) s)"

text \<open>\<open>is_char_boundary\<close>: both ends are boundaries; inside, a byte that starts a character.\<close>

definition is_char_boundary :: "string \<Rightarrow> nat \<Rightarrow> bool" where
  "is_char_boundary s i = (i = 0 \<or> i = length s \<or> (i < length s \<and> \<not> cont_byte (s ! i)))"

text \<open>The first \<open>n\<close> characters, and the whole string when it has no more.\<close>

fun take_chars :: "nat \<Rightarrow> string \<Rightarrow> string" where
  "take_chars n [] = []"
| "take_chars n (c # s) =
     (if cont_byte c then c # take_chars n s else case n of 0 \<Rightarrow> [] | Suc m \<Rightarrow> c # take_chars m s)"

text \<open>
  What UTF-8 guarantees of a byte string: it starts with a character, and a character has at most three
  continuation bytes.
\<close>

definition utf8_shape :: "string \<Rightarrow> bool" where
  "utf8_shape s = ((s \<noteq> [] \<longrightarrow> \<not> cont_byte (hd s)) \<and>
     (\<forall>i < length s - 3. \<exists>j \<in> {i..i + 3}. \<not> cont_byte (s ! j)))"

section \<open>Numbers\<close>

text \<open>At least one digit and nothing else, as \<open>str::parse\<close> reads it after the sign.\<close>

definition is_digit :: "char \<Rightarrow> bool" where
  "is_digit c = (48 \<le> (of_char c :: nat) \<and> of_char c \<le> (57 :: nat))"

definition digits_value :: "string \<Rightarrow> int option" where
  "digits_value s = (if s \<noteq> [] \<and> list_all is_digit s
     then Some (foldl (\<lambda>a c. 10 * a + (int (of_char c) - 48)) 0 s) else None)"

section \<open>Affixes\<close>

definition strip_prefix :: "string \<Rightarrow> string \<Rightarrow> string option" where
  "strip_prefix p s = (if prefix p s then Some (drop (length p) s) else None)"

definition strip_suffix :: "string \<Rightarrow> string \<Rightarrow> string option" where
  "strip_suffix p s = (if suffix p s then Some (take (length s - length p) s) else None)"

text \<open>What stands before the last occurrence (\<open>rfind\<close>).\<close>

fun before_last :: "string \<Rightarrow> string \<Rightarrow> string option" where
  "before_last p [] = (if p = [] then Some [] else None)"
| "before_last p (c # s) =
     (case before_last p s of
        Some b \<Rightarrow> Some (c # b)
      | None \<Rightarrow> if prefix p (c # s) then Some [] else None)"

text \<open>The offset of the first occurrence (\<open>find\<close>).\<close>

fun find_sub :: "string \<Rightarrow> string \<Rightarrow> nat option" where
  "find_sub p [] = (if p = [] then Some 0 else None)"
| "find_sub p (c # s) = (if prefix p (c # s) then Some 0 else map_option Suc (find_sub p s))"

text \<open>\<open>str::split_once\<close>: around the first occurrence.\<close>

fun split_once :: "string \<Rightarrow> string \<Rightarrow> (string \<times> string) option" where
  "split_once sep [] = (if sep = [] then Some ([], []) else None)"
| "split_once sep (c # s) =
     (if prefix sep (c # s) then Some ([], drop (length sep) (c # s))
      else map_option (\<lambda>(a, b). (c # a, b)) (split_once sep s))"

text \<open>\<open>str::split\<close> at a character.\<close>

fun split_on :: "char \<Rightarrow> string \<Rightarrow> string list" where
  "split_on d [] = [[]]"
| "split_on d (c # s) =
     (if c = d then [] # split_on d s
      else (case split_on d s of [] \<Rightarrow> [[c]] | seg # segs \<Rightarrow> (c # seg) # segs))"

section \<open>ASCII classes\<close>

definition is_ascii_alnum :: "char \<Rightarrow> bool" where
  "is_ascii_alnum c =
     (let n = (of_char c :: nat) in 48 \<le> n \<and> n \<le> 57 \<or> 65 \<le> n \<and> n \<le> 90 \<or> 97 \<le> n \<and> n \<le> 122)"

definition is_ascii_alpha :: "char \<Rightarrow> bool" where
  "is_ascii_alpha c = (let n = (of_char c :: nat) in 65 \<le> n \<and> n \<le> 90 \<or> 97 \<le> n \<and> n \<le> 122)"

definition ascii_lower :: "char \<Rightarrow> char" where
  "ascii_lower c = (if 65 \<le> (of_char c :: nat) \<and> of_char c \<le> (90 :: nat) then char_of (of_char c + 32 :: nat) else c)"

section \<open>Paths\<close>

text \<open>The components of a path, and its last one if that is a name.\<close>

fun path_components :: "string \<Rightarrow> string list" where
  "path_components [] = [[]]"
| "path_components (c # s) =
     (if c = CHR ''/'' then [] # path_components s
      else case path_components s of p # ps \<Rightarrow> (c # p) # ps | [] \<Rightarrow> [[c]])"

definition file_name :: "string \<Rightarrow> string option" where
  "file_name p =
     (case rev (filter (\<lambda>c. c \<noteq> [] \<and> c \<noteq> ''.'') (path_components p)) of
        [] \<Rightarrow> None
      | c # _ \<Rightarrow> if c = ''..'' then None else Some c)"

section \<open>Parsing\<close>

text \<open>\<open>str::parse\<close> of an unsigned integer of 64 bits: a sign may stand before the digits.\<close>

definition parse_u64 :: "string \<Rightarrow> nat option" where
  "parse_u64 s =
     (case digits_value (case s of c # r \<Rightarrow> if c = CHR ''+'' then r else s | [] \<Rightarrow> []) of
        Some n \<Rightarrow> if n < 2 ^ 64 then Some (nat n) else None
      | None \<Rightarrow> None)"

section \<open>Facts\<close>

lemma char_count_append [simp]: "char_count (a @ b) = char_count a + char_count b"
  by (simp add: char_count_def)

lemma char_count_take_chars: "char_count (take_chars n s) \<le> n"
  by (induction n s rule: take_chars.induct) (auto simp: char_count_def split: nat.split)

lemma take_chars_prefix: "prefix (take_chars n s) s"
  by (induction n s rule: take_chars.induct) (auto split: nat.split)

lemma take_chars_all: "char_count s \<le> n \<Longrightarrow> take_chars n s = s"
  by (induction n s rule: take_chars.induct) (auto simp: char_count_def split: nat.split if_splits)

lemma unix_newlines_plain: "carriage_return \<notin> set s \<Longrightarrow> unix_newlines s = s"
  by (induction s rule: unix_newlines.induct) auto

lemma split_lines_no_newline: "l \<in> set (split_lines s) \<Longrightarrow> newline \<notin> set l"
  by (induction s arbitrary: l rule: split_lines.induct) (auto split: if_splits list.splits)

lemma str_lines_no_newline: "l \<in> set (str_lines s) \<Longrightarrow> newline \<notin> set l"
  by (auto simp: str_lines_def dest: split_lines_no_newline)

lemma strip_front_suffix: "suffix (strip_front ws s) s"
proof (induction ws s rule: strip_front.induct)
  case (1 ws s)
  show ?case
  proof (cases "find (\<lambda>w. w \<noteq> [] \<and> prefix w s) ws")
    case None
    then show ?thesis by (simp add: strip_front.simps [of ws s])
  next
    case (Some w)
    then have "suffix (strip_front ws (drop (length w) s)) (drop (length w) s)" by (rule 1)
    then have "suffix (strip_front ws (drop (length w) s)) s" using suffix_drop suffix_order.trans by blast
    with Some show ?thesis by (simp add: strip_front.simps [of ws s])
  qed
qed

lemma trim_end_prefix: "prefix (trim_end s) s"
  using strip_front_suffix [of "map rev ws_chars" "rev s"] by (simp add: trim_end_def suffix_to_prefix)

lemma trim_end_subset: "set (trim_end s) \<subseteq> set s"
  using trim_end_prefix [of s] set_mono_prefix by blast

lemma trim_end_no_newline: "newline \<notin> set s \<Longrightarrow> newline \<notin> set (trim_end s)"
  using trim_end_subset by blast

lemma strip_front_stops: "find (\<lambda>w. w \<noteq> [] \<and> prefix w (strip_front ws s)) ws = None"
proof (induction ws s rule: strip_front.induct)
  case (1 ws s)
  show ?case
  proof (cases "find (\<lambda>w. w \<noteq> [] \<and> prefix w s) ws")
    case None
    then show ?thesis by (simp add: strip_front.simps [of ws s])
  next
    case (Some w)
    with 1 show ?thesis by (simp add: strip_front.simps [of ws s])
  qed
qed

lemma strip_front_fix: "find (\<lambda>w. w \<noteq> [] \<and> prefix w s) ws = None \<Longrightarrow> strip_front ws s = s"
  by (simp add: strip_front.simps [of ws s])

lemma trim_idem [simp]: "trim (trim s) = trim s"
proof -
  let ?a = "trim_start s"
  have "find (\<lambda>w. w \<noteq> [] \<and> prefix w (trim_end ?a)) ws_chars = None"
    using strip_front_stops [of ws_chars s] trim_end_prefix [of ?a]
    by (auto simp: find_None_iff trim_start_def dest: prefix_order.trans)
  then have "trim_start (trim_end ?a) = trim_end ?a" by (simp add: trim_start_def strip_front_fix)
  moreover have "trim_end (trim_end ?a) = trim_end ?a"
    using strip_front_stops [of "map rev ws_chars" "rev ?a"] by (simp add: trim_end_def strip_front_fix)
  ultimately show ?thesis by (simp add: trim_def)
qed

text \<open>Trimming removes white space only.\<close>

lemma strip_front_removed: "set s \<subseteq> (\<Union>w \<in> set ws. set w) \<union> set (strip_front ws s)"
proof (induction ws s rule: strip_front.induct)
  case (1 ws s)
  show ?case
  proof (cases "find (\<lambda>w. w \<noteq> [] \<and> prefix w s) ws")
    case None
    then show ?thesis by (simp add: strip_front_fix)
  next
    case (Some w)
    then have w: "w \<in> set ws" "prefix w s" by (auto simp: find_Some_iff)
    then have "set s = set w \<union> set (drop (length w) s)" by (auto simp: prefix_def)
    with 1 [OF Some] w(1) show ?thesis by (subst strip_front.simps) (auto simp: Some)
  qed
qed

lemma trim_removed: "set s \<subseteq> (\<Union>w \<in> set ws_chars. set w) \<union> set (trim s)"
  using strip_front_removed [of s ws_chars] strip_front_removed [of "rev (trim_start s)" "map rev ws_chars"]
  by (auto simp: trim_def trim_start_def trim_end_def)

lemma strip_suffix_Some: "strip_suffix p s = Some b \<longleftrightarrow> s = b @ p"
  by (auto simp: strip_suffix_def suffix_def)

end
