(* ===== verification/Parts.thy ===== *)
theory Parts
  imports Entities Rust_Str
begin

text \<open>
  Agent events and tool calls (\<open>crates/proto/src/agent.rs\<close>) and message parts
  (\<open>crates/doc/src/parts.rs\<close>): the fold of streamed events into the parts of an assistant message, the
  render-only privacy policy, the summary of a tool output, sidecar references, and the splitting of an
  oversized message into continuation entries.
  Two things come from packages: the line diff of \<open>similar\<close> is the parameter \<open>line_diff\<close> (the tags of the
  changes between two texts, in order), and the number of bytes \<open>serde_json::to_vec\<close> writes for a value is
  the parameter \<open>json_len\<close>.
\<close>

section \<open>Tool calls and agent events\<close>

record todo_item =
  td_text :: string
  td_done :: bool

datatype tool_call =
    Exec string
  | ReadFile string
  | WriteFile string "string option"
  | EditFile string "string option" "string option"
  | ApplyPatch "string option"
  | Search string "string option"
  | Glob string
  | WebFetch string "string option"
  | WebSearch string
  | Todo "todo_item list"
  | Mcp string string "json option"
  | UnknownTool string "json option"

record slash_command =
  sc_name :: string
  sc_description :: string
  sc_input_hint :: "string option"

record tool_diff =
  td_path :: string
  td_old_text :: "string option"
  td_new_text :: string

record user_input_question =
  uq_id :: string
  uq_header :: string
  uq_question :: string
  uq_options :: "string list"
  uq_multi_select :: bool

datatype done_status = DoneCompleted | DoneInterrupted | DoneErrored

text \<open>
  \<open>SessionStarted\<close> carries harness, model, tools, working directory, session id and message id;
  \<open>ToolResult\<close> the id, the error flag, the output and the diff; \<open>Usage\<close> input, output and context tokens;
  \<open>Done\<close> status, result, error and session id.
\<close>

datatype agent_event =
    SessionStarted harness_id string "string list" string string string
  | TextDelta string
  | ReasoningDelta string
  | AssistantMessageCompleted string
  | ToolCall string tool_call
  | ToolResult string bool "string option" "tool_diff option"
  | Usage nat nat nat
  | AvailableCommands "slash_command list"
  | Error string
  | InputRequested string "user_input_question list"
  | InputResolved string
  | Steered "string option" "string option"
  | Done done_status "string option" "string option" "string option"
  | UserMessage string
  | Subagent string agent_event

text \<open>The plan of an agent has no id of its own.\<close>

definition live_plan_tool_id :: string where "live_plan_tool_id = ''acp-plan''"

section \<open>Summaries\<close>

definition tool_output_summary_max :: nat where "tool_output_summary_max = 160"

definition ellipsis :: string where "ellipsis = [CHR 0xE2, CHR 0x80, CHR 0xA6]"

definition is_fence :: "string \<Rightarrow> bool" where
  "is_fence l = prefix ''```'' (trim_start l)"

definition summarize_tool_output :: "string \<Rightarrow> string option" where
  "summarize_tool_output text =
     (let kept = filter (\<lambda>l. \<not> is_fence l) (str_lines text);
          stripped = trim (join_str [newline] kept)
      in if stripped = [] then None
         else if char_count stripped \<le> tool_output_summary_max then Some stripped
         else let line = trim_end (case find (\<lambda>l. trim l \<noteq> []) (str_lines stripped) of
                                     None \<Rightarrow> stripped | Some l \<Rightarrow> l)
              in Some (take_chars tool_output_summary_max line @ ellipsis))"

record tool_diff_stat =
  ds_path :: string
  ds_additions :: nat
  ds_deletions :: nat

datatype change_tag = TagEqual | TagDelete | TagInsert

definition diff_stat :: "(string \<Rightarrow> string \<Rightarrow> change_tag list) \<Rightarrow> tool_diff \<Rightarrow> tool_diff_stat" where
  "diff_stat line_diff d =
     (case td_old_text d of
        None \<Rightarrow> \<lparr>ds_path = td_path d, ds_additions = length (str_lines (td_new_text d)), ds_deletions = 0\<rparr>
      | Some old \<Rightarrow> (let tags = line_diff old (td_new_text d) in
          \<lparr>ds_path = td_path d, ds_additions = count_list tags TagInsert, ds_deletions = count_list tags TagDelete\<rparr>))"

section \<open>Parts\<close>

datatype message_status = Streaming | Complete | Aborted

datatype subagent_status = SubRunning | SubDone | SubFailed

record tool_part =
  tp_id :: string
  tp_call :: tool_call
  tp_is_error :: bool
  tp_resolved :: bool
  tp_output :: "string option"
  tp_diff :: "tool_diff option"
  tp_output_ref :: "string option"
  tp_output_bytes :: "nat option"
  tp_diff_ref :: "string option"
  tp_diff_stats :: "tool_diff_stat list option"
  tp_subagent_ref :: "string option"
  tp_subagent_status :: "subagent_status option"
  tp_subagent_tail :: "string option"

datatype message_part =
    Text string string
  | Tool tool_part
  | Input string string "user_input_question list" bool
  | ErrorPart string string

fun part_id :: "message_part \<Rightarrow> string" where
  "part_id (Text i _) = i"
| "part_id (Tool t) = tp_id t"
| "part_id (Input i _ _ _) = i"
| "part_id (ErrorPart i _) = i"

section \<open>The event fold\<close>

definition new_tool :: "string \<Rightarrow> tool_call \<Rightarrow> tool_part" where
  "new_tool i call = \<lparr>tp_id = i, tp_call = call, tp_is_error = False, tp_resolved = False, tp_output = None,
     tp_diff = None, tp_output_ref = None, tp_output_bytes = None, tp_diff_ref = None, tp_diff_stats = None,
     tp_subagent_ref = None, tp_subagent_status = None, tp_subagent_tail = None\<rparr>"

text \<open>A text delta goes to the trailing text part or starts a new one.\<close>

definition push_text :: "string \<Rightarrow> message_part list \<Rightarrow> message_part list" where
  "push_text text out =
     (case rev out of
        Text i tail # front \<Rightarrow> rev front @ [Text i (tail @ text)]
      | _ \<Rightarrow> out @ [Text (CHR ''t'' # show_nat (length out)) text])"

text \<open>The first tool part with the id gets the new call; none is \<open>None\<close>.\<close>

fun refresh_call :: "string \<Rightarrow> tool_call \<Rightarrow> message_part list \<Rightarrow> message_part list option" where
  "refresh_call i call [] = None"
| "refresh_call i call (Tool t # ps) =
     (if tp_id t = i then Some (Tool (t\<lparr>tp_call := call\<rparr>) # ps)
      else map_option ((#) (Tool t)) (refresh_call i call ps))"
| "refresh_call i call (p # ps) = map_option ((#) p) (refresh_call i call ps)"

text \<open>An update of every tool part with the id, in place.\<close>

fun on_tool :: "string \<Rightarrow> (tool_part \<Rightarrow> tool_part) \<Rightarrow> message_part \<Rightarrow> message_part" where
  "on_tool i f (Tool t) = (if tp_id t = i then Tool (f t) else Tool t)"
| "on_tool i f p = p"

definition resolve_tool ::
    "(string \<Rightarrow> string \<Rightarrow> change_tag list) \<Rightarrow> bool \<Rightarrow> tool_diff option \<Rightarrow> tool_part \<Rightarrow> tool_part" where
  "resolve_tool line_diff is_error diff t =
     t\<lparr>tp_is_error := is_error, tp_resolved := True, tp_output := None, tp_output_bytes := None, tp_diff := None,
       tp_diff_stats := map_option (\<lambda>d. [diff_stat line_diff d]) diff\<rparr>"

fun resolve_input_part :: "string \<Rightarrow> message_part \<Rightarrow> message_part" where
  "resolve_input_part rid (Input i r qs resolved) = Input i r qs (resolved \<or> r = rid)"
| "resolve_input_part rid p = p"

text \<open>The lifecycle a nested event proves: done, failed, running again after a steer, or just alive.\<close>

fun subagent_signal :: "agent_event \<Rightarrow> subagent_status option" where
  "subagent_signal (Done DoneErrored _ _ _) = Some SubFailed"
| "subagent_signal (Done _ _ _ _) = Some SubDone"
| "subagent_signal (UserMessage _) = Some SubRunning"
| "subagent_signal _ = None"

definition advance_subagent :: "subagent_status option \<Rightarrow> tool_part \<Rightarrow> tool_part" where
  "advance_subagent status t =
     (case status of
        Some s \<Rightarrow> t\<lparr>tp_subagent_status := Some s\<rparr>
      | None \<Rightarrow> if tp_subagent_status t \<in> {Some SubDone, Some SubFailed} then t
                else t\<lparr>tp_subagent_status := Some SubRunning\<rparr>)"

fun fold_event_into_parts ::
    "(string \<Rightarrow> string \<Rightarrow> change_tag list) \<Rightarrow> agent_event \<Rightarrow> message_part list \<Rightarrow> message_part list" where
  "fold_event_into_parts ld (SessionStarted _ _ _ _ _ _) out = []"
| "fold_event_into_parts ld (Steered _ _) out = []"
| "fold_event_into_parts ld (TextDelta text) out = push_text text out"
| "fold_event_into_parts ld (ReasoningDelta _) out = out"
| "fold_event_into_parts ld (ToolCall i call) out =
     (case refresh_call i call out of Some out' \<Rightarrow> out' | None \<Rightarrow> out @ [Tool (new_tool i call)])"
| "fold_event_into_parts ld (ToolResult i is_error output diff) out =
     map (on_tool i (resolve_tool ld is_error diff)) out"
| "fold_event_into_parts ld (InputRequested rid qs) out =
     (let i = ''in-'' @ rid in if list_ex (\<lambda>p. part_id p = i) out then out else out @ [Input i rid qs False])"
| "fold_event_into_parts ld (InputResolved rid) out = map (resolve_input_part rid) out"
| "fold_event_into_parts ld (Error message) out = out @ [ErrorPart (CHR ''e'' # show_nat (length out)) message]"
| "fold_event_into_parts ld (Done _ _ error _) out =
     (case error of None \<Rightarrow> out | Some message \<Rightarrow> out @ [ErrorPart (CHR ''e'' # show_nat (length out)) message])"
| "fold_event_into_parts ld (Subagent parent event) out =
     map (on_tool parent (advance_subagent (subagent_signal event))) out"
| "fold_event_into_parts ld (AssistantMessageCompleted _) out = out"
| "fold_event_into_parts ld (Usage _ _ _) out = out"
| "fold_event_into_parts ld (AvailableCommands _) out = out"
| "fold_event_into_parts ld (UserMessage _) out = out"

section \<open>Sidecar references\<close>

fun apply_sidecar_ref :: "string \<Rightarrow> message_part \<Rightarrow> message_part" where
  "apply_sidecar_ref chat (Tool t) =
     (if tp_resolved t
      then Tool (t\<lparr>tp_output_ref := (if tp_output_ref t = None \<and> tp_output_bytes t \<noteq> None
                                     then Some (chat @ ''/'' @ tp_id t) else tp_output_ref t),
                   tp_diff_ref := (if tp_diff_ref t = None \<and> tp_diff_stats t \<noteq> None
                                   then Some (chat @ ''/'' @ tp_id t @ ''.diff'') else tp_diff_ref t)\<rparr>)
      else Tool t)"
| "apply_sidecar_ref chat p = p"

definition apply_sidecar_refs :: "string \<Rightarrow> message_part list \<Rightarrow> message_part list" where
  "apply_sidecar_refs chat = map (apply_sidecar_ref chat)"

record sidecar_payload =
  sp_part_id :: string
  sp_output :: "string option"
  sp_diff :: "tool_diff option"

fun sidecar_payload_of :: "agent_event \<Rightarrow> sidecar_payload option" where
  "sidecar_payload_of (ToolResult i _ output diff) =
     (let output = Option.bind output (\<lambda>o'. if trim o' \<noteq> [] then Some o' else None)
      in if output = None \<and> diff = None then None
         else Some \<lparr>sp_part_id = i, sp_output = output, sp_diff = diff\<rparr>)"
| "sidecar_payload_of _ = None"

section \<open>The privacy policy\<close>

fun sanitize_tool_call :: "tool_call \<Rightarrow> tool_call" where
  "sanitize_tool_call (WriteFile path _) = WriteFile path None"
| "sanitize_tool_call (EditFile path _ _) = EditFile path None None"
| "sanitize_tool_call (WebFetch url _) = WebFetch url None"
| "sanitize_tool_call (Mcp server tool _) = Mcp server tool None"
| "sanitize_tool_call (UnknownTool name _) = UnknownTool name None"
| "sanitize_tool_call other = other"

text \<open>\<open>render_parts\<close> of \<open>crates/engine/src/sessions.rs\<close>: the policy on every part.\<close>

fun render_part :: "message_part \<Rightarrow> message_part" where
  "render_part (Tool t) = Tool (t\<lparr>tp_call := sanitize_tool_call (tp_call t)\<rparr>)"
| "render_part p = p"

definition render_parts :: "message_part list \<Rightarrow> message_part list" where
  "render_parts = map render_part"

text \<open>\<open>folded_text\<close>: the text of a folded segment.\<close>

fun text_of :: "message_part \<Rightarrow> string option" where
  "text_of (Text _ text) = Some text"
| "text_of _ = None"

definition folded_text :: "message_part list \<Rightarrow> string" where
  "folded_text ps = join_str [newline] (List.map_filter text_of ps)"

section \<open>The wire form\<close>

text \<open>
  What serde writes for the types above and reads back, on the object form of structs and tagged enums (the
  array form it also accepts is never written). A call is tagged by its kind; the fields of a call keep
  their Rust names, those of the structs are in camel case.
\<close>

fun as_list :: "(json \<Rightarrow> 'a option) \<Rightarrow> json \<Rightarrow> 'a list option" where
  "as_list p (JArr js) = those (map p js)"
| "as_list p _ = None"

text \<open>A field that is left out when absent.\<close>

definition skip_none :: "string \<Rightarrow> json option \<Rightarrow> (string \<times> json) list" where
  "skip_none k v = (case v of None \<Rightarrow> [] | Some j \<Rightarrow> [(k, j)])"

definition todo_to_value :: "todo_item \<Rightarrow> json" where
  "todo_to_value t = JObj (mk_fields [(''text'', JStr (td_text t)), (''done'', JBool (td_done t))])"

fun call_fields :: "tool_call \<Rightarrow> (string \<times> json) list" where
  "call_fields (Exec command) = [(''kind'', JStr ''exec''), (''command'', JStr command)]"
| "call_fields (ReadFile path) = [(''kind'', JStr ''readFile''), (''path'', JStr path)]"
| "call_fields (WriteFile path content) =
     [(''kind'', JStr ''writeFile''), (''path'', JStr path)] @ skip_none ''content'' (map_option JStr content)"
| "call_fields (EditFile path old new) =
     [(''kind'', JStr ''editFile''), (''path'', JStr path)] @ skip_none ''old_string'' (map_option JStr old)
       @ skip_none ''new_string'' (map_option JStr new)"
| "call_fields (ApplyPatch path) = (''kind'', JStr ''applyPatch'') # skip_none ''path'' (map_option JStr path)"
| "call_fields (Search pattern path) =
     [(''kind'', JStr ''search''), (''pattern'', JStr pattern)] @ skip_none ''path'' (map_option JStr path)"
| "call_fields (Glob pattern) = [(''kind'', JStr ''glob''), (''pattern'', JStr pattern)]"
| "call_fields (WebFetch url prompt) =
     [(''kind'', JStr ''webFetch''), (''url'', JStr url)] @ skip_none ''prompt'' (map_option JStr prompt)"
| "call_fields (WebSearch query) = [(''kind'', JStr ''webSearch''), (''query'', JStr query)]"
| "call_fields (Todo items) = [(''kind'', JStr ''todo''), (''items'', JArr (map todo_to_value items))]"
| "call_fields (Mcp server tool input) =
     [(''kind'', JStr ''mcp''), (''server'', JStr server), (''tool'', JStr tool)] @ skip_none ''input'' input"
| "call_fields (UnknownTool name input) =
     [(''kind'', JStr ''unknown''), (''name'', JStr name)] @ skip_none ''input'' input"

definition call_to_value :: "tool_call \<Rightarrow> json" where
  "call_to_value call = JObj (mk_fields (call_fields call))"

fun parse_todo :: "json \<Rightarrow> todo_item option" where
  "parse_todo (JObj fs) = do {
     x \<leftarrow> req as_str fs ''text'';
     d \<leftarrow> req as_bool fs ''done'';
     Some \<lparr>td_text = x, td_done = d\<rparr> }"
| "parse_todo _ = None"

definition parse_call_kind :: "string \<Rightarrow> (string, json) btree \<Rightarrow> tool_call option" where
  "parse_call_kind kind fs =
     (if kind = ''exec'' then map_option Exec (req as_str fs ''command'')
      else if kind = ''readFile'' then map_option ReadFile (req as_str fs ''path'')
      else if kind = ''writeFile'' then do {
        path \<leftarrow> req as_str fs ''path''; content \<leftarrow> opt as_str fs ''content''; Some (WriteFile path content) }
      else if kind = ''editFile'' then do {
        path \<leftarrow> req as_str fs ''path''; old \<leftarrow> opt as_str fs ''old_string'';
        new \<leftarrow> opt as_str fs ''new_string''; Some (EditFile path old new) }
      else if kind = ''applyPatch'' then map_option ApplyPatch (opt as_str fs ''path'')
      else if kind = ''search'' then do {
        pattern \<leftarrow> req as_str fs ''pattern''; path \<leftarrow> opt as_str fs ''path''; Some (Search pattern path) }
      else if kind = ''glob'' then map_option Glob (req as_str fs ''pattern'')
      else if kind = ''webFetch'' then do {
        url \<leftarrow> req as_str fs ''url''; prompt \<leftarrow> opt as_str fs ''prompt''; Some (WebFetch url prompt) }
      else if kind = ''webSearch'' then map_option WebSearch (req as_str fs ''query'')
      else if kind = ''todo'' then map_option Todo (dflt [] (as_list parse_todo) fs ''items'')
      else if kind = ''mcp'' then do {
        server \<leftarrow> req as_str fs ''server''; tool \<leftarrow> req as_str fs ''tool'';
        input \<leftarrow> opt Some fs ''input''; Some (Mcp server tool input) }
      else if kind = ''unknown'' then do {
        name \<leftarrow> req as_str fs ''name''; input \<leftarrow> opt Some fs ''input''; Some (UnknownTool name input) }
      else None)"

fun parse_call :: "json \<Rightarrow> tool_call option" where
  "parse_call (JObj fs) = Option.bind (req as_str fs ''kind'') (\<lambda>kind. parse_call_kind kind fs)"
| "parse_call _ = None"

definition diff_to_value :: "tool_diff \<Rightarrow> json" where
  "diff_to_value d = JObj (mk_fields ((''path'', JStr (td_path d)) #
     skip_none ''oldText'' (map_option JStr (td_old_text d)) @ [(''newText'', JStr (td_new_text d))]))"

fun parse_diff :: "json \<Rightarrow> tool_diff option" where
  "parse_diff (JObj fs) = do {
     path \<leftarrow> req as_str fs ''path'';
     old \<leftarrow> opt as_str fs ''oldText'';
     new \<leftarrow> req as_str fs ''newText'';
     Some \<lparr>td_path = path, td_old_text = old, td_new_text = new\<rparr> }"
| "parse_diff _ = None"

definition stat_to_value :: "tool_diff_stat \<Rightarrow> json" where
  "stat_to_value s = JObj (mk_fields [(''path'', JStr (ds_path s)), (''additions'', JNum (int (ds_additions s))),
     (''deletions'', JNum (int (ds_deletions s)))])"

fun parse_stat :: "json \<Rightarrow> tool_diff_stat option" where
  "parse_stat (JObj fs) = do {
     path \<leftarrow> req as_str fs ''path'';
     a \<leftarrow> req (as_uint 64) fs ''additions'';
     d \<leftarrow> req (as_uint 64) fs ''deletions'';
     Some \<lparr>ds_path = path, ds_additions = a, ds_deletions = d\<rparr> }"
| "parse_stat _ = None"

definition question_to_value :: "user_input_question \<Rightarrow> json" where
  "question_to_value q = JObj (mk_fields [(''id'', JStr (uq_id q)), (''header'', JStr (uq_header q)),
     (''question'', JStr (uq_question q)), (''options'', JArr (map JStr (uq_options q))),
     (''multiSelect'', JBool (uq_multi_select q))])"

fun parse_question :: "json \<Rightarrow> user_input_question option" where
  "parse_question (JObj fs) = do {
     i \<leftarrow> req as_str fs ''id'';
     h \<leftarrow> req as_str fs ''header'';
     q \<leftarrow> req as_str fs ''question'';
     os \<leftarrow> req as_strs fs ''options'';
     ms \<leftarrow> dflt False as_bool fs ''multiSelect'';
     Some \<lparr>uq_id = i, uq_header = h, uq_question = q, uq_options = os, uq_multi_select = ms\<rparr> }"
| "parse_question _ = None"

section \<open>Splitting oversized messages\<close>

definition msg_inline_max :: nat where "msg_inline_max = 256 * 1024"

fun byte_len :: "(json \<Rightarrow> nat) \<Rightarrow> message_part \<Rightarrow> nat" where
  "byte_len json_len (Text _ text) = length text"
| "byte_len json_len (Tool t) = json_len (call_to_value (tp_call t))
     + (case tp_output t of None \<Rightarrow> 0 | Some o' \<Rightarrow> length o')
     + (case tp_diff t of None \<Rightarrow> 0 | Some d \<Rightarrow> json_len (diff_to_value d))
     + (case tp_diff_stats t of None \<Rightarrow> 0 | Some s \<Rightarrow> json_len (JArr (map stat_to_value s)))"
| "byte_len json_len (Input _ _ qs _) = json_len (JArr (map question_to_value qs))"
| "byte_len json_len (ErrorPart _ message) = length message"

definition continuation_id :: "string \<Rightarrow> nat \<Rightarrow> string" where
  "continuation_id root index = root @ ''#c'' @ show_nat index"

text \<open>
  The splitting loops carry their size limit \<open>limit\<close>; \<open>split_parts\<close> runs them at \<open>msg_inline_max\<close>.
  The chunks so far are \<open>done\<close> and the current one, \<open>bytes\<close> the size of the current one.
\<close>

fun back_to_boundary :: "string \<Rightarrow> nat \<Rightarrow> nat" where
  "back_to_boundary text 0 = 0"
| "back_to_boundary text (Suc e) =
     (if Suc e < length text \<and> \<not> is_char_boundary text (Suc e) then back_to_boundary text e else Suc e)"

definition piece_end :: "nat \<Rightarrow> string \<Rightarrow> nat \<Rightarrow> nat" where
  "piece_end limit text start =
     (let e = back_to_boundary text (min (start + limit) (length text))
      in if e \<le> start then length text else e)"

function text_pieces :: "nat \<Rightarrow> string \<Rightarrow> string \<Rightarrow> nat \<Rightarrow> nat \<Rightarrow> message_part list" where
  "text_pieces limit i text start piece =
     (if start < length text
      then let e = piece_end limit text start
           in Text (if piece = 0 then i else i @ ''~'' @ show_nat piece) (take (e - start) (drop start text))
              # text_pieces limit i text e (piece + 1)
      else [])"
  by pat_completeness auto
termination
  by (relation "measure (\<lambda>(limit, i, text, start, piece). length text - start)")
     (auto simp: piece_end_def Let_def split: if_splits)

declare text_pieces.simps [simp del]

type_synonym chunks = "message_part list list \<times> message_part list \<times> nat"

definition push_split :: "(json \<Rightarrow> nat) \<Rightarrow> nat \<Rightarrow> message_part \<Rightarrow> chunks \<Rightarrow> chunks" where
  "push_split json_len limit part s =
     (case s of (closed, current, bytes) \<Rightarrow>
        let len = byte_len json_len part
        in if 0 < bytes \<and> limit < bytes + len then (closed @ [current], [part], len)
           else (closed, current @ [part], bytes + len))"

fun split_pieces :: "nat \<Rightarrow> message_part \<Rightarrow> message_part list" where
  "split_pieces limit (Text i text) = (if limit < length text then text_pieces limit i text 0 0 else [Text i text])"
| "split_pieces limit p = [p]"

definition split_parts_at :: "(json \<Rightarrow> nat) \<Rightarrow> nat \<Rightarrow> message_part list \<Rightarrow> message_part list list" where
  "split_parts_at json_len limit parts =
     (case fold (push_split json_len limit) (concat (map (split_pieces limit) parts)) ([], [], 0) of
        (closed, current, _) \<Rightarrow> closed @ [current])"

definition split_parts :: "(json \<Rightarrow> nat) \<Rightarrow> message_part list \<Rightarrow> message_part list list" where
  "split_parts json_len = split_parts_at json_len msg_inline_max"

definition join_continuations :: "message_part list list \<Rightarrow> message_part list" where
  "join_continuations = concat"

section \<open>Folding a stream of events\<close>

definition fold_events ::
    "(string \<Rightarrow> string \<Rightarrow> change_tag list) \<Rightarrow> agent_event list \<Rightarrow> message_part list \<Rightarrow> message_part list" where
  "fold_events ld evs out = fold (fold_event_into_parts ld) evs out"

text \<open>The two events that start a turn.\<close>

fun turn_boundary :: "agent_event \<Rightarrow> bool" where
  "turn_boundary (SessionStarted _ _ _ _ _ _) = True"
| "turn_boundary (Steered _ _) = True"
| "turn_boundary _ = False"

text \<open>The text streamed since the last boundary.\<close>

fun turn_text :: "agent_event \<Rightarrow> string \<Rightarrow> string" where
  "turn_text (TextDelta text) acc = acc @ text"
| "turn_text ev acc = (if turn_boundary ev then [] else acc)"

definition parts_text :: "message_part list \<Rightarrow> string" where
  "parts_text ps = concat (List.map_filter text_of ps)"

text \<open>How a part may change while its turn goes on: text grows at its end, a tool or an input keeps its identity
and stays resolved once it is, an error stands.\<close>

fun part_grows :: "message_part \<Rightarrow> message_part \<Rightarrow> bool" where
  "part_grows (Text i a) p = (case p of Text j b \<Rightarrow> i = j \<and> prefix a b | _ \<Rightarrow> False)"
| "part_grows (Tool t) p = (case p of Tool u \<Rightarrow> tp_id t = tp_id u \<and> (tp_resolved t \<longrightarrow> tp_resolved u) | _ \<Rightarrow> False)"
| "part_grows (Input i r qs a) p =
     (case p of Input j s qs' b \<Rightarrow> i = j \<and> r = s \<and> qs = qs' \<and> (a \<longrightarrow> b) | _ \<Rightarrow> False)"
| "part_grows (ErrorPart i e) p = (p = ErrorPart i e)"

definition parts_grow :: "message_part list \<Rightarrow> message_part list \<Rightarrow> bool" where
  "parts_grow ps ps' = list_all2 part_grows ps (take (length ps) ps')"

text \<open>Only the last part's text may have changed.\<close>

definition earlier_text_kept :: "message_part list \<Rightarrow> message_part list \<Rightarrow> bool" where
  "earlier_text_kept ps ps' = (map text_of (butlast ps) = map text_of (take (length ps - 1) ps'))"

text \<open>
  The ids the fold gives: a text part is named by its position, no two tool parts share an id, and no other
  part has the id of an input part.
\<close>

fun tool_id :: "message_part \<Rightarrow> string option" where
  "tool_id (Tool t) = Some (tp_id t)"
| "tool_id _ = None"

fun text_id :: "message_part \<Rightarrow> string option" where
  "text_id (Text i _) = Some i"
| "text_id _ = None"

definition part_ids_ok :: "message_part list \<Rightarrow> bool" where
  "part_ids_ok ps = ((\<forall>k < length ps. case text_id (ps ! k) of None \<Rightarrow> True | Some i \<Rightarrow> i = CHR ''t'' # show_nat k) \<and>
     distinct (List.map_filter tool_id ps))"

text \<open>
  What an event contributes to the rendered transcript: the inputs of a call the policy drops, the output of a
  tool, the reasoning, and the content of a subagent's event are erased.
\<close>

fun erase_nested :: "agent_event \<Rightarrow> agent_event" where
  "erase_nested (Done status _ _ _) = Done status None None None"
| "erase_nested (UserMessage _) = UserMessage []"
| "erase_nested _ = TextDelta []"

text \<open>The policy, stated apart from the code: contents, replacements, prompts and free inputs are not to be seen.\<close>

definition visible_call :: "tool_call \<Rightarrow> tool_call" where
  "visible_call call =
     (case call of
        WriteFile path contents \<Rightarrow> WriteFile path None
      | EditFile path old new \<Rightarrow> EditFile path None None
      | WebFetch url prompt \<Rightarrow> WebFetch url None
      | Mcp server tool input \<Rightarrow> Mcp server tool None
      | UnknownTool name input \<Rightarrow> UnknownTool name None
      | shown \<Rightarrow> shown)"

lemma visible_sanitize [simp]: "visible_call call = sanitize_tool_call call"
  by (cases call) (simp_all add: visible_call_def)

fun erase_event :: "agent_event \<Rightarrow> agent_event" where
  "erase_event (ToolCall i call) = ToolCall i (visible_call call)"
| "erase_event (ToolResult i is_error _ diff) = ToolResult i is_error None diff"
| "erase_event (ReasoningDelta _) = ReasoningDelta []"
| "erase_event (Subagent parent ev) = Subagent parent (erase_nested ev)"
| "erase_event ev = ev"

section \<open>Laws of the fold\<close>

lemma part_grows_refl [simp]: "part_grows p p"
  by (cases p) auto

lemma part_grows_trans: "part_grows p q \<Longrightarrow> part_grows q r \<Longrightarrow> part_grows p r"
  by (cases p; cases q; cases r) (auto intro: prefix_order.trans)

lemma parts_growI:
  assumes "length ps \<le> length ps'" "\<And>k. k < length ps \<Longrightarrow> part_grows (ps ! k) (ps' ! k)"
  shows "parts_grow ps ps'"
  using assms by (auto simp: parts_grow_def list_all2_conv_all_nth)

lemma parts_growD: "parts_grow ps ps' \<Longrightarrow> length ps \<le> length ps' \<and> (\<forall>k < length ps. part_grows (ps ! k) (ps' ! k))"
  by (auto simp: parts_grow_def list_all2_conv_all_nth)

lemma parts_grow_refl [simp]: "parts_grow ps ps"
  by (rule parts_growI) auto

lemma parts_grow_append [simp]: "parts_grow ps (ps @ qs)"
  by (rule parts_growI) (auto simp: nth_append)

lemma parts_grow_map: "(\<And>p. part_grows p (f p)) \<Longrightarrow> parts_grow ps (map f ps)"
  by (rule parts_growI) auto

lemma parts_grow_trans: "parts_grow ps qs \<Longrightarrow> parts_grow qs rs \<Longrightarrow> parts_grow ps rs"
  by (rule parts_growI) (auto dest!: parts_growD intro: part_grows_trans)

lemma on_tool_grows: "(\<And>t. tp_id (f t) = tp_id t \<and> (tp_resolved t \<longrightarrow> tp_resolved (f t))) \<Longrightarrow> part_grows p (on_tool i f p)"
  by (cases p) auto

lemma text_of_on_tool [simp]: "text_of (on_tool i f p) = text_of p"
  by (cases p) auto

lemma text_of_resolve_input [simp]: "text_of (resolve_input_part rid p) = text_of p"
  by (cases p) auto

lemma resolve_input_grows: "part_grows p (resolve_input_part rid p)"
  by (cases p) auto

lemma advance_subagent_same [simp]:
  "tp_id (advance_subagent s t) = tp_id t" "tp_resolved (advance_subagent s t) = tp_resolved t"
  "tp_call (advance_subagent s t) = tp_call t"
  by (auto simp: advance_subagent_def split: option.split)

lemma resolve_tool_same [simp]:
  "tp_id (resolve_tool ld e d t) = tp_id t" "tp_resolved (resolve_tool ld e d t)"
  "tp_call (resolve_tool ld e d t) = tp_call t"
  by (simp_all add: resolve_tool_def)

lemma refresh_call_grows:
  "refresh_call i call ps = Some qs \<Longrightarrow> length qs = length ps \<and> list_all2 part_grows ps qs \<and> map text_of qs = map text_of ps
     \<and> map tool_id qs = map tool_id ps \<and> map text_id qs = map text_id ps"
  by (induction i call ps arbitrary: qs rule: refresh_call.induct)
     (auto split: if_splits simp: list.rel_refl)

lemma refresh_call_None: "refresh_call i call ps = None \<longleftrightarrow> Some i \<notin> tool_id ` set ps"
  by (induction i call ps rule: refresh_call.induct) auto

lemma push_text_cases:
  obtains (grow) front j tail where "out = front @ [Text j tail]" "push_text text out = front @ [Text j (tail @ text)]"
  | (new) "push_text text out = out @ [Text (CHR ''t'' # show_nat (length out)) text]"
    "\<And>front j tail. out \<noteq> front @ [Text j tail]"
proof (cases "\<exists>front j tail. out = front @ [Text j tail]")
  case True
  then show thesis by (auto simp: push_text_def intro: grow)
next
  case False
  then have "push_text text out = out @ [Text (CHR ''t'' # show_nat (length out)) text]"
    by (cases out rule: rev_cases) (auto simp: push_text_def split: message_part.split)
  with False show thesis by (auto intro: new)
qed

lemma fold_event_grows:
  "\<not> turn_boundary ev \<Longrightarrow> parts_grow out (fold_event_into_parts ld ev out) \<and>
     earlier_text_kept out (fold_event_into_parts ld ev out)"
proof (induction ld ev out rule: fold_event_into_parts.induct)
  case (3 ld s out)
  show ?case
  proof (cases rule: push_text_cases [of out s])
    case (grow front j tail)
    then show ?thesis
      by (auto intro!: parts_growI simp: nth_append earlier_text_kept_def less_Suc_eq)
  qed (auto simp: earlier_text_kept_def butlast_conv_take)
next
  case (5 ld i call out)
  then show ?case
    by (auto simp: parts_grow_def earlier_text_kept_def butlast_conv_take take_map [symmetric]
        list.rel_refl dest: refresh_call_grows split: option.split)
qed (auto simp: earlier_text_kept_def butlast_conv_take take_map o_def Let_def
      intro!: parts_grow_map on_tool_grows resolve_input_grows split: option.split)

lemma fold_events_simps [simp]:
  "fold_events ld [] out = out"
  "fold_events ld (ev # evs) out = fold_events ld evs (fold_event_into_parts ld ev out)"
  by (simp_all add: fold_events_def)

lemma fold_events_grow:
  "list_all (\<lambda>ev. \<not> turn_boundary ev) evs \<Longrightarrow> parts_grow out (fold_events ld evs out)"
proof (induction evs arbitrary: out)
  case (Cons ev evs)
  then show ?case using fold_event_grows [of ev out ld] by (auto intro: parts_grow_trans)
qed simp

lemma map_filter_append: "List.map_filter f (xs @ ys) = List.map_filter f xs @ List.map_filter f ys"
  by (simp add: List.map_filter_def)

lemma parts_text_append [simp]: "parts_text (ps @ qs) = parts_text ps @ parts_text qs"
  by (simp add: parts_text_def map_filter_append)

lemma parts_text_simps [simp]:
  "parts_text [] = []" "parts_text [Text i x] = x" "parts_text [Tool tp] = []"
  "parts_text [Input i r qs b] = []" "parts_text [ErrorPart i e] = []"
  by (simp_all add: parts_text_def List.map_filter_def)

lemma map_filter_eq_map: "List.map_filter f xs = map the (filter (\<lambda>y. y \<noteq> None) (map f xs))"
  by (simp add: List.map_filter_def filter_map o_def)

lemma parts_text_cong: "map text_of ps = map text_of qs \<Longrightarrow> parts_text ps = parts_text qs"
  by (simp add: parts_text_def map_filter_eq_map)

lemma fold_event_text: "parts_text (fold_event_into_parts ld ev out) = turn_text ev (parts_text out)"
proof (induction ld ev out rule: fold_event_into_parts.induct)
  case (3 ld s out)
  show ?case by (cases rule: push_text_cases [of out s]) auto
next
  case (5 ld i call out)
  then show ?case by (auto split: option.split dest!: refresh_call_grows parts_text_cong)
qed (auto split: option.split simp: o_def Let_def intro!: parts_text_cong)

lemma show_nat_inverse: "foldl (\<lambda>a c. 10 * a + (of_char c - 48)) 0 (show_nat n) = n"
proof (induction n rule: show_nat.induct)
  case (1 n)
  then show ?case by (subst show_nat.simps) (auto simp: of_char_digit)
qed

lemma show_nat_inj [simp]: "show_nat a = show_nat b \<longleftrightarrow> a = b"
  by (metis show_nat_inverse)

abbreviation text_named :: "nat \<Rightarrow> message_part \<Rightarrow> bool" where
  "text_named k p \<equiv> (case text_id p of None \<Rightarrow> True | Some i \<Rightarrow> i = CHR ''t'' # show_nat k)"

lemma part_ids_ok_nth:
  "part_ids_ok ps \<longleftrightarrow> (\<forall>k < length ps. text_named k (ps ! k)) \<and> distinct (List.map_filter tool_id ps)"
  by (simp add: part_ids_ok_def)

lemma part_ids_ok_cong:
  "map text_id ps = map text_id qs \<Longrightarrow> map tool_id ps = map tool_id qs \<Longrightarrow> part_ids_ok ps = part_ids_ok qs"
proof -
  assume ids: "map text_id ps = map text_id qs" "map tool_id ps = map tool_id qs"
  then have "length ps = length qs" "\<And>k. k < length qs \<Longrightarrow> text_id (ps ! k) = text_id (qs ! k)"
    by (auto simp: list_eq_iff_nth_eq)
  moreover have "List.map_filter tool_id ps = List.map_filter tool_id qs"
    using ids(2) by (simp add: map_filter_eq_map)
  ultimately show ?thesis by (simp add: part_ids_ok_nth)
qed

lemma ids_on_tool [simp]:
  "text_id (on_tool i f p) = text_id p"
  "(\<And>u. tp_id (f u) = tp_id u) \<Longrightarrow> tool_id (on_tool i f p) = tool_id p"
  by (cases p; simp)+

lemma ids_resolve_input [simp]:
  "text_id (resolve_input_part rid p) = text_id p" "tool_id (resolve_input_part rid p) = tool_id p"
  by (cases p; simp)+

lemma part_ids_ok_snoc:
  "part_ids_ok (ps @ [p]) \<longleftrightarrow> part_ids_ok ps \<and> text_named (length ps) p \<and>
     (case tool_id p of None \<Rightarrow> True | Some i \<Rightarrow> Some i \<notin> tool_id ` set ps)"
proof -
  have "(\<forall>k < length (ps @ [p]). text_named k ((ps @ [p]) ! k)) \<longleftrightarrow>
      (\<forall>k < length ps. text_named k (ps ! k)) \<and> text_named (length ps) p"
    by (auto simp: nth_append less_Suc_eq)
  moreover have "i \<in> set (List.map_filter tool_id ps) \<longleftrightarrow> Some i \<in> tool_id ` set ps" for i
    by (auto simp: List.map_filter_def image_iff eq_commute [of "Some i"] intro: rev_bexI)
  ultimately show ?thesis
    by (cases "tool_id p") (auto simp: part_ids_ok_nth map_filter_append List.map_filter_def [of _ "[p]"])
qed

lemma fold_event_ids: "part_ids_ok out \<Longrightarrow> part_ids_ok (fold_event_into_parts ld ev out)"
proof (induction ld ev out rule: fold_event_into_parts.induct)
  case (3 ld s out)
  then show ?case by (cases rule: push_text_cases [of out s]) (auto simp: part_ids_ok_snoc)
next
  case (5 ld i call out)
  show ?case
  proof (cases "refresh_call i call out")
    case None
    then show ?thesis using 5 by (simp add: part_ids_ok_snoc refresh_call_None [THEN iffD1] new_tool_def)
  next
    case (Some qs)
    then show ?thesis using 5 refresh_call_grows [OF Some] by (simp add: part_ids_ok_cong [of qs out])
  qed
next
  case (6 ld i is_error outp diff out)
  then show ?case by (simp, subst part_ids_ok_cong [of _ out]) (auto simp: o_def)
next
  case (8 ld rid out)
  then show ?case by (simp, subst part_ids_ok_cong [of _ out]) (auto simp: o_def)
next
  case (11 ld parent event out)
  then show ?case by (simp, subst part_ids_ok_cong [of _ out]) (auto simp: o_def)
qed (auto simp: part_ids_ok_snoc part_ids_ok_nth [of "[]"] List.map_filter_def Let_def split: option.split)

lemma fold_events_ids: "part_ids_ok out \<Longrightarrow> part_ids_ok (fold_events ld evs out)"
  by (induction evs arbitrary: out) (auto intro: fold_event_ids)

section \<open>Erasure\<close>

lemma sanitize_idem [simp]: "sanitize_tool_call (sanitize_tool_call call) = sanitize_tool_call call"
  by (cases call) auto

lemma render_refresh_call:
  "refresh_call i (sanitize_tool_call call) (map render_part ps) =
     map_option (map render_part) (refresh_call i call ps)"
  by (induction i call ps rule: refresh_call.induct) (auto simp: option.map_comp o_def)

lemma render_on_tool:
  "(\<And>u. f (u\<lparr>tp_call := sanitize_tool_call (tp_call u)\<rparr>) = (f u)\<lparr>tp_call := sanitize_tool_call (tp_call (f u))\<rparr>) \<Longrightarrow>
   on_tool i f (render_part p) = render_part (on_tool i f p)"
  by (cases p) auto

lemma render_resolve_input: "resolve_input_part rid (render_part p) = render_part (resolve_input_part rid p)"
  by (cases p) auto

lemma part_id_render [simp]: "part_id (render_part p) = part_id p"
  by (cases p) auto

lemma subagent_signal_erase [simp]: "subagent_signal (erase_nested ev) = subagent_signal ev"
  by (cases ev rule: subagent_signal.cases) auto

lemma render_push_text: "render_parts (push_text s out) = push_text s (render_parts out)"
  by (cases out rule: rev_cases)
     (auto simp: render_parts_def push_text_def split: message_part.splits elim: render_part.elims)

lemma render_fold_event:
  "render_parts (fold_event_into_parts ld ev out) = fold_event_into_parts ld (erase_event ev) (render_parts out)"
proof (induction ld ev out rule: fold_event_into_parts.induct)
  case (5 ld i call out)
  then show ?case
    by (auto simp: render_parts_def render_refresh_call new_tool_def split: option.split)
qed (auto simp: render_push_text [unfolded render_parts_def] render_parts_def render_on_tool resolve_tool_def advance_subagent_def
      render_resolve_input Let_def list_ex_iff split: option.split)

section \<open>The wire form reads back\<close>

fun call_typed :: "tool_call \<Rightarrow> bool" where
  "call_typed (Mcp _ _ input) = (input \<noteq> Some JNull)"
| "call_typed (UnknownTool _ input) = (input \<noteq> Some JNull)"
| "call_typed _ = True"

lemma those_map_inverse: "(\<And>x. x \<in> set xs \<Longrightarrow> p (f x) = Some x) \<Longrightarrow> those (map (\<lambda>x. p (f x)) xs) = Some xs"
  by (induction xs) auto

lemma those_map_Some [simp]: "those (map Some xs) = Some xs"
  by (induction xs) auto

lemma parse_todo_to_value [simp]: "parse_todo (todo_to_value td) = Some td"
  by (simp add: todo_to_value_def req_def fields_get)

lemma parse_call_to_value: "call_typed call \<Longrightarrow> parse_call (call_to_value call) = Some call"
  by (cases call)
     (auto simp: call_to_value_def parse_call_kind_def req_def opt_def dflt_def opt_of_def fields_get skip_none_def
       those_map_inverse o_def split: option.splits elim!: is_null.elims)

lemma parse_diff_to_value [simp]: "parse_diff (diff_to_value d) = Some d"
  by (auto simp: diff_to_value_def req_def opt_def opt_of_def fields_get skip_none_def split: option.splits)

lemma parse_stat_to_value:
  "ds_additions s < 2 ^ 64 \<Longrightarrow> ds_deletions s < 2 ^ 64 \<Longrightarrow> parse_stat (stat_to_value s) = Some s"
  by (simp add: stat_to_value_def req_def fields_get)

lemma parse_question_to_value [simp]: "parse_question (question_to_value q) = Some q"
  by (simp add: question_to_value_def req_def dflt_def fields_get)

section \<open>Splitting\<close>

lemma back_to_boundary_le: "back_to_boundary s e \<le> e"
  by (induction s e rule: back_to_boundary.induct) auto

lemma back_to_boundary_boundary: "e \<le> length s \<Longrightarrow> is_char_boundary s (back_to_boundary s e)"
  by (induction s e rule: back_to_boundary.induct) (auto simp: is_char_boundary_def)

lemma back_to_boundary_ge:
  "j \<le> e \<Longrightarrow> j < length s \<Longrightarrow> \<not> cont_byte (s ! j) \<Longrightarrow> j \<le> back_to_boundary s e"
  by (induction s e rule: back_to_boundary.induct) (auto simp: is_char_boundary_def le_Suc_eq)

lemma piece_end_bounds:
  assumes "start < length s"
  shows "start < piece_end limit s start" "piece_end limit s start \<le> length s"
    "is_char_boundary s (piece_end limit s start)"
  using assms back_to_boundary_le [of s "min (start + limit) (length s)"]
    back_to_boundary_boundary [of "min (start + limit) (length s)" s]
  by (auto simp: piece_end_def Let_def is_char_boundary_def)

lemma back_to_boundary_length [simp]: "back_to_boundary s (length s) = length s"
  by (cases "length s") auto

lemma piece_end_limit:
  assumes "utf8_shape s" "start < length s" "4 \<le> limit"
  shows "piece_end limit s start \<le> start + limit"
proof (cases "length s \<le> start + limit")
  case True
  then show ?thesis using piece_end_bounds [OF assms(2), of limit] by simp
next
  case False
  then have "start + limit - 3 < length s - 3" using assms(3) by simp
  then obtain j where j: "j \<in> {start + limit - 3..start + limit - 3 + 3}" "\<not> cont_byte (s ! j)"
    using assms(1) unfolding utf8_shape_def by blast
  then have "j \<le> back_to_boundary s (start + limit)" using False assms(3) by (intro back_to_boundary_ge) auto
  then show ?thesis using j assms(3) False back_to_boundary_le [of s "start + limit"]
    by (auto simp: piece_end_def Let_def)
qed

abbreviation piece_ok :: "nat \<Rightarrow> message_part \<Rightarrow> bool" where
  "piece_ok limit p \<equiv> (\<exists>i x. p = Text i x \<and> x \<noteq> [] \<and> \<not> cont_byte (hd x) \<and> length x \<le> limit)"

lemma text_pieces_text: "parts_text (text_pieces limit i s start piece) = drop start s"
proof (induction limit i s start piece rule: text_pieces.induct)
  case (1 limit i s start piece)
  show ?case
  proof (cases "start < length s")
    case True
    note b = piece_end_bounds [OF True, of limit]
    let ?e = "piece_end limit s start"
    have "parts_text (text_pieces limit i s start piece) = take (?e - start) (drop start s) @ drop ?e s"
      using 1 [OF True] True
      by (subst text_pieces.simps) (simp add: Let_def parts_text_def List.map_filter_simps)
    also have "drop ?e s = drop (?e - start) (drop start s)" using b by simp
    finally show ?thesis by (simp only: append_take_drop_id)
  next
    case False
    then show ?thesis by (subst text_pieces.simps) simp
  qed
qed

lemma text_pieces_ok:
  "utf8_shape s \<Longrightarrow> 4 \<le> limit \<Longrightarrow> is_char_boundary s start \<Longrightarrow>
    p \<in> set (text_pieces limit i s start piece) \<Longrightarrow> piece_ok limit p"
proof (induction limit i s start piece rule: text_pieces.induct)
  case (1 limit i s start piece)
  have lt: "start < length s" using "1.prems"(4) by (subst (asm) text_pieces.simps) (auto split: if_splits)
  note b = piece_end_bounds [OF lt, of limit] and l = piece_end_limit [OF "1.prems"(1) lt "1.prems"(2)]
  let ?x = "take (piece_end limit s start - start) (drop start s)"
  have "?x \<noteq> []" "hd ?x = s ! start" "length ?x \<le> limit" using lt b l by (auto simp: hd_drop_conv_nth)
  moreover have "\<not> cont_byte (s ! start)"
    using "1.prems"(1,3) lt by (auto simp: is_char_boundary_def utf8_shape_def hd_conv_nth)
  ultimately have "piece_ok limit (Text j ?x)" for j by simp
  moreover have "piece_ok limit p" if "p \<in> set (text_pieces limit i s (piece_end limit s start) (piece + 1))"
    using "1.IH" [OF lt refl "1.prems"(1,2) b(3) that] .
  ultimately show ?case
    using "1.prems"(4) lt by (subst (asm) text_pieces.simps [of limit i s start]) (auto simp: Let_def)
qed

definition chunk_bytes :: "(json \<Rightarrow> nat) \<Rightarrow> message_part list \<Rightarrow> nat" where
  "chunk_bytes json_len ps = sum_list (map (byte_len json_len) ps)"

text \<open>A chunk is within the limit, or all its bytes are those of one part that alone is above it.\<close>

definition chunk_fits :: "(json \<Rightarrow> nat) \<Rightarrow> nat \<Rightarrow> message_part list \<Rightarrow> bool" where
  "chunk_fits json_len limit c = (chunk_bytes json_len c \<le> limit \<or>
     list_ex (\<lambda>p. text_of p = None \<and> limit < byte_len json_len p \<and> chunk_bytes json_len c = byte_len json_len p) c)"

definition chunks_inv :: "(json \<Rightarrow> nat) \<Rightarrow> nat \<Rightarrow> message_part list \<Rightarrow> chunks \<Rightarrow> bool" where
  "chunks_inv json_len limit ps s = (case s of (closed, current, bytes) \<Rightarrow>
     concat closed @ current = ps \<and> bytes = chunk_bytes json_len current \<and>
     list_all (chunk_fits json_len limit) (closed @ [current]))"

lemma chunk_bytes_simps [simp]:
  "chunk_bytes json_len [] = 0" "chunk_bytes json_len [p] = byte_len json_len p"
  "chunk_bytes json_len (ps @ qs) = chunk_bytes json_len ps + chunk_bytes json_len qs"
  by (simp_all add: chunk_bytes_def)

lemma push_split_inv:
  assumes "chunks_inv json_len limit ps s" "text_of p = None \<or> byte_len json_len p \<le> limit"
  shows "chunks_inv json_len limit (ps @ [p]) (push_split json_len limit p s)"
  using assms
  by (cases s) (auto simp: chunks_inv_def push_split_def Let_def chunk_fits_def)

lemma fold_push_split_inv:
  "chunks_inv json_len limit ps s \<Longrightarrow> (\<And>p. p \<in> set qs \<Longrightarrow> text_of p = None \<or> byte_len json_len p \<le> limit) \<Longrightarrow>
   chunks_inv json_len limit (ps @ qs) (fold (push_split json_len limit) qs s)"
proof (induction qs arbitrary: ps s)
  case (Cons p qs)
  then have "chunks_inv json_len limit (ps @ [p]) (push_split json_len limit p s)" by (intro push_split_inv) auto
  then have "chunks_inv json_len limit ((ps @ [p]) @ qs) (fold (push_split json_len limit) qs (push_split json_len limit p s))"
    using Cons.prems by (intro Cons.IH) auto
  then show ?case by simp
qed simp

lemma split_pieces_text: "parts_text (split_pieces limit p) = parts_text [p]"
  by (cases p) (auto simp: text_pieces_text)

lemma text_pieces_texts: "p \<in> set (text_pieces limit i s start piece) \<Longrightarrow> text_of p \<noteq> None"
proof (induction limit i s start piece rule: text_pieces.induct)
  case (1 limit i s start piece)
  then show ?case by (subst (asm) text_pieces.simps [of limit i s start]) (auto simp: Let_def split: if_splits)
qed

lemma split_pieces_others:
  "filter (\<lambda>p. text_of p = None) (split_pieces limit p) = filter (\<lambda>p. text_of p = None) [p]"
  by (cases p) (auto simp: filter_empty_conv dest: text_pieces_texts)

lemma split_pieces_fit:
  assumes "text_of p = None \<or> utf8_shape (the (text_of p))" "4 \<le> limit" "q \<in> set (split_pieces limit p)"
  shows "text_of q = None \<or> byte_len json_len q \<le> limit"
proof (cases p)
  case (Text i s)
  then show ?thesis using assms text_pieces_ok [of s limit 0 q i 0]
    by (auto simp: is_char_boundary_def split: if_splits)
qed (use assms in auto)

lemma concat_pieces_text: "parts_text (concat (map (split_pieces limit) ps)) = parts_text ps"
proof (induction ps)
  case (Cons p ps)
  have "parts_text (p # ps) = parts_text [p] @ parts_text ps" by (metis append_Cons append_Nil parts_text_append)
  with Cons show ?case by (simp add: split_pieces_text)
qed simp

lemma concat_pieces_others:
  "filter (\<lambda>p. text_of p = None) (concat (map (split_pieces limit) ps)) = filter (\<lambda>p. text_of p = None) ps"
  by (induction ps) (auto simp: split_pieces_others)

lemma split_parts_at_ok:
  assumes "4 \<le> limit" "list_all (\<lambda>p. text_of p = None \<or> utf8_shape (the (text_of p))) ps"
  shows "concat (split_parts_at json_len limit ps) = concat (map (split_pieces limit) ps)"
    "list_all (chunk_fits json_len limit) (split_parts_at json_len limit ps)"
proof -
  let ?qs = "concat (map (split_pieces limit) ps)"
  have "text_of q = None \<or> byte_len json_len q \<le> limit" if "q \<in> set ?qs" for q
    using that assms split_pieces_fit [OF _ assms(1)] by (auto simp: list_all_iff)
  moreover have "chunks_inv json_len limit [] ([], [], 0)"
    by (simp add: chunks_inv_def chunk_bytes_def chunk_fits_def)
  ultimately have "chunks_inv json_len limit ([] @ ?qs) (fold (push_split json_len limit) ?qs ([], [], 0))"
    by (intro fold_push_split_inv)
  then show "concat (split_parts_at json_len limit ps) = ?qs"
    "list_all (chunk_fits json_len limit) (split_parts_at json_len limit ps)"
    by (auto simp: split_parts_at_def chunks_inv_def split: prod.splits)
qed

section \<open>Properties\<close>

lemma summary_bounded:
  assumes "summarize_tool_output s = Some r"
  shows "char_count r \<le> tool_output_summary_max + 1"
proof -
  have "char_count ellipsis = 1" by (simp add: ellipsis_def char_count_def cont_byte_def)
  then show ?thesis
    using assms char_count_take_chars by (auto simp: summarize_tool_output_def Let_def split: if_splits)
qed

text \<open>
  While a turn goes on the fold only appends parts or changes them in place: every part keeps its position, kind and
  id, text is only ever appended to, and only to the last part, resolved tools and inputs stay resolved, error
  parts stand, and the ids of text parts are their positions and those of tool parts distinct, whatever the events.
\<close>
theorem fold_only_grows:
  "(\<not> turn_boundary ev \<longrightarrow> parts_grow out (fold_event_into_parts ld ev out) \<and>
      earlier_text_kept out (fold_event_into_parts ld ev out)) \<and>
   (part_ids_ok out \<longrightarrow> part_ids_ok (fold_event_into_parts ld ev out))"
  using fold_event_grows fold_event_ids by blast

theorem fold_only_grows_witness:
  "parts_grow [Text ''t0'' ''a''] (fold_event_into_parts (\<lambda>_ _. []) (TextDelta ''b'') [Text ''t0'' ''a'']) \<and>
   part_ids_ok (fold_event_into_parts (\<lambda>_ _. []) (TextDelta ''b'') [Text ''t0'' ''a''])"
proof -
  have "part_ids_ok [Text ''t0'' ''a'']" by code_simp
  then show ?thesis using fold_only_grows [of "TextDelta ''b''" "[Text ''t0'' ''a'']" "\<lambda>_ _. []"] by simp
qed

text \<open>
  No streamed text is lost or reordered: the text parts of the accumulator are, in order, exactly the text deltas
  since the last turn boundary, however tool calls, results, questions and errors are mixed in.
\<close>
theorem streamed_text_preserved:
  "parts_text (fold_events ld evs []) = fold turn_text evs []"
proof -
  have "parts_text (fold_events ld evs out) = fold turn_text evs (parts_text out)" for out
    by (induction evs arbitrary: out) (auto simp: fold_event_text)
  from this [of "[]"] show ?thesis by simp
qed

text \<open>
  C22. The rendered parts of a turn are a function of the erased events alone: the contents and replacements of file
  edits, fetch prompts, tool inputs, tool outputs, reasoning and everything a subagent says have no influence on
  what enters the document.
\<close>
theorem rendered_parts_private:
  "render_parts (fold_events ld evs []) = fold_events ld (map erase_event evs) []"
proof -
  have "render_parts (fold_events ld evs out) = fold_events ld (map erase_event evs) (render_parts out)" for out
    by (induction evs arbitrary: out) (auto simp: render_fold_event)
  from this [of "[]"] show ?thesis by (simp add: render_parts_def)
qed

text \<open>
  Splitting a message into continuation entries loses nothing and keeps the size bound: joining the chunks
  gives the same text and the same other parts in the same order, and every chunk is within the limit unless a
  single tool, input or error part alone is larger. Text is cut at character boundaries, which UTF-8 has at least
  every four bytes.
\<close>
theorem split_parts_lossless:
  "list_all (\<lambda>p. text_of p = None \<or> utf8_shape (the (text_of p))) ps \<Longrightarrow>
     parts_text (join_continuations (split_parts json_len ps)) = parts_text ps \<and>
     filter (\<lambda>p. text_of p = None) (join_continuations (split_parts json_len ps)) = filter (\<lambda>p. text_of p = None) ps \<and>
     list_all (chunk_fits json_len msg_inline_max) (split_parts json_len ps)"
  using split_parts_at_ok [of msg_inline_max ps json_len]
  by (simp add: split_parts_def join_continuations_def concat_pieces_text concat_pieces_others msg_inline_max_def)

theorem split_parts_lossless_witness:
  "parts_text (join_continuations (split_parts (\<lambda>_. 2) [Text ''t0'' ''ab'', Tool (new_tool ''x'' (Exec ''ls''))])) = ''ab''"
  using split_parts_lossless [of "[Text ''t0'' ''ab'', Tool (new_tool ''x'' (Exec ''ls''))]" "\<lambda>_. 2"]
  by (simp add: utf8_shape_def cont_byte_def parts_text_def List.map_filter_def)

end
