(* ===== verification/Transcript_Delta.thy ===== *)
theory Transcript_Delta
  imports Parts
begin

text \<open>
  Transcript entries (\<open>SessionMessageEntry\<close> of \<open>crates/doc/src/schema.rs\<close>) and the delta frames of the
  transcript watch (\<open>crates/doc/src/transcript_delta.rs\<close>): the diff of two transcript states into a frame and
  the application of a frame by a viewer. A desync carries the case of its message.
\<close>

section \<open>Entries and frames\<close>

datatype message_role = User | Assistant | System

record message_entry =
  me_id :: string
  me_role :: message_role
  me_parts :: "message_part list"
  me_created_at :: int
  me_device_id :: string
  me_status :: "message_status option"
  me_continuation_of :: "string option"

record transcript_upsert =
  up_after :: "string option"
  up_entry :: message_entry

record text_append =
  ta_entry :: string
  ta_part :: string
  ta_text :: string
  ta_len :: nat

datatype transcript_frame =
    Reset "message_entry list"
  | Delta "transcript_upsert list" "text_append list" "string list" nat

fun is_empty_delta :: "transcript_frame \<Rightarrow> bool" where
  "is_empty_delta (Delta upsert appends remove _) = (upsert = [] \<and> appends = [] \<and> remove = [])"
| "is_empty_delta (Reset _) = False"

section \<open>Diffing\<close>

fun append_scan :: "string \<Rightarrow> text_append option \<Rightarrow> (message_part \<times> message_part) list \<Rightarrow> text_append option" where
  "append_scan eid acc [] = acc"
| "append_scan eid acc ((p, n) # rest) =
     (if p = n then append_scan eid acc rest
      else case (p, n) of
        (Text pid pt, Text nid nt) \<Rightarrow>
          if pid \<noteq> nid \<or> \<not> prefix pt nt \<or> acc \<noteq> None then None
          else append_scan eid (Some \<lparr>ta_entry = eid, ta_part = nid, ta_text = drop (length pt) nt,
                                      ta_len = length nt\<rparr>) rest
      | _ \<Rightarrow> None)"

definition try_text_append :: "message_entry \<Rightarrow> message_entry \<Rightarrow> text_append option" where
  "try_text_append prev next =
     (if me_id prev \<noteq> me_id next \<or> me_role prev \<noteq> me_role next \<or> me_created_at prev \<noteq> me_created_at next \<or>
         me_device_id prev \<noteq> me_device_id next \<or> me_status prev \<noteq> me_status next \<or>
         me_continuation_of prev \<noteq> me_continuation_of next \<or> length (me_parts prev) \<noteq> length (me_parts next)
      then None
      else append_scan (me_id next) None (zip (me_parts prev) (me_parts next)))"

text \<open>The index of \<open>prev\<close> by id: position and entry, the last one for an id that occurs twice.\<close>

definition prev_by_id :: "message_entry list \<Rightarrow> string \<Rightarrow> (nat \<times> message_entry) option" where
  "prev_by_id prev = map_of (rev (map (\<lambda>(i, e). (me_id e, (i, e))) (List.enumerate 0 prev)))"

text \<open>The id before position \<open>i\<close>.\<close>

definition before_id :: "message_entry list \<Rightarrow> nat \<Rightarrow> string option" where
  "before_id prev i = (if i = 0 then None else Some (me_id (prev ! (i - 1))))"

datatype change = Unchanged | Append text_append | Upsert

definition classify :: "message_entry list \<Rightarrow> string option \<Rightarrow> message_entry \<Rightarrow> change" where
  "classify prev after e =
     (case prev_by_id prev (me_id e) of
        None \<Rightarrow> Upsert
      | Some (ix, pe) \<Rightarrow>
          if pe = e \<and> before_id prev ix = after then Unchanged
          else if before_id prev ix = after
          then (case try_text_append pe e of Some a \<Rightarrow> Append a | None \<Rightarrow> Upsert)
          else Upsert)"

text \<open>The loop over \<open>next\<close>; \<open>after\<close> is the id of the entry before.\<close>

fun diff_entries :: "message_entry list \<Rightarrow> string option \<Rightarrow> message_entry list \<Rightarrow> transcript_upsert list \<times> text_append list" where
  "diff_entries prev after [] = ([], [])"
| "diff_entries prev after (e # es) =
     (let (us, as) = diff_entries prev (Some (me_id e)) es
      in case classify prev after e of
           Unchanged \<Rightarrow> (us, as)
         | Append a \<Rightarrow> (us, a # as)
         | Upsert \<Rightarrow> (\<lparr>up_after = after, up_entry = e\<rparr> # us, as))"

definition diff_transcript :: "message_entry list \<Rightarrow> message_entry list \<Rightarrow> transcript_frame" where
  "diff_transcript prev next =
     (let remove = map me_id (filter (\<lambda>e. me_id e \<notin> me_id ` set next) prev);
          (upsert, appends) = diff_entries prev None next
      in if max (length next) 1 \<le> length upsert * 2 \<and> 4 < length next then Reset next
         else Delta upsert appends remove (length next))"

section \<open>Applying\<close>

datatype transcript_desync =
    MissingAnchor string
  | MissingAppendEntry string
  | MissingAppendPart string
  | AppendLengthMismatch string string nat nat
  | CountMismatch nat nat

fun remove_entry :: "string \<Rightarrow> message_entry list \<Rightarrow> message_entry list" where
  "remove_entry i [] = []"
| "remove_entry i (e # es) = (if me_id e = i then es else e # remove_entry i es)"

fun insert_behind :: "string \<Rightarrow> message_entry \<Rightarrow> message_entry list \<Rightarrow> message_entry list option" where
  "insert_behind anchor e [] = None"
| "insert_behind anchor e (x # xs) =
     (if me_id x = anchor then Some (x # e # xs) else map_option ((#) x) (insert_behind anchor e xs))"

definition apply_upsert :: "transcript_upsert \<Rightarrow> message_entry list \<Rightarrow> transcript_desync + message_entry list" where
  "apply_upsert u current =
     (let rest = remove_entry (me_id (up_entry u)) current
      in case up_after u of
           None \<Rightarrow> Inr (up_entry u # rest)
         | Some anchor \<Rightarrow> (case insert_behind anchor (up_entry u) rest of
                             None \<Rightarrow> Inl (MissingAnchor anchor) | Some es \<Rightarrow> Inr es))"

fun apply_upserts :: "transcript_upsert list \<Rightarrow> message_entry list \<Rightarrow> transcript_desync + message_entry list" where
  "apply_upserts [] current = Inr current"
| "apply_upserts (u # us) current =
     (case apply_upsert u current of Inl err \<Rightarrow> Inl err | Inr es \<Rightarrow> apply_upserts us es)"

text \<open>The first text part with the id grows; its new length must be the announced one.\<close>

fun append_text :: "text_append \<Rightarrow> message_part list \<Rightarrow> transcript_desync + message_part list" where
  "append_text a [] = Inl (MissingAppendPart (ta_part a))"
| "append_text a (Text i tail # ps) =
     (if i = ta_part a
      then let tail' = tail @ ta_text a
           in if length tail' \<noteq> ta_len a
              then Inl (AppendLengthMismatch (ta_entry a) (ta_part a) (length tail') (ta_len a))
              else Inr (Text i tail' # ps)
      else map_sum id ((#) (Text i tail)) (append_text a ps))"
| "append_text a (p # ps) = map_sum id ((#) p) (append_text a ps)"

fun apply_append :: "text_append \<Rightarrow> message_entry list \<Rightarrow> transcript_desync + message_entry list" where
  "apply_append a [] = Inl (MissingAppendEntry (ta_entry a))"
| "apply_append a (e # es) =
     (if me_id e = ta_entry a
      then map_sum id (\<lambda>ps. e\<lparr>me_parts := ps\<rparr> # es) (append_text a (me_parts e))
      else map_sum id ((#) e) (apply_append a es))"

fun apply_appends :: "text_append list \<Rightarrow> message_entry list \<Rightarrow> transcript_desync + message_entry list" where
  "apply_appends [] current = Inr current"
| "apply_appends (a # as) current =
     (case apply_append a current of Inl err \<Rightarrow> Inl err | Inr es \<Rightarrow> apply_appends as es)"

fun apply_transcript_frame :: "transcript_frame \<Rightarrow> message_entry list \<Rightarrow> transcript_desync + message_entry list" where
  "apply_transcript_frame (Reset entries) current = Inr entries"
| "apply_transcript_frame (Delta upsert appends remove expected) current =
     (case apply_upserts upsert (filter (\<lambda>e. me_id e \<notin> set remove) current) of
        Inl err \<Rightarrow> Inl err
      | Inr es \<Rightarrow> (case apply_appends appends es of
           Inl err \<Rightarrow> Inl err
         | Inr es' \<Rightarrow> if length es' \<noteq> expected then Inl (CountMismatch (length es') expected) else Inr es'))"

section \<open>The effect of the phases\<close>

text \<open>What the upserts leave of \<open>next\<close>: an entry that is unchanged or awaits an append is the old one.\<close>

fun settled :: "message_entry list \<Rightarrow> string option \<Rightarrow> message_entry list \<Rightarrow> message_entry list" where
  "settled prev after [] = []"
| "settled prev after (e # es) =
     (if classify prev after e = Upsert then e else snd (the (prev_by_id prev (me_id e)))) #
     settled prev (Some (me_id e)) es"

abbreviation ids :: "message_entry list \<Rightarrow> string list" where
  "ids es \<equiv> map me_id es"

abbreviation last_id :: "message_entry list \<Rightarrow> string option" where
  "last_id D \<equiv> (if D = [] then None else Some (me_id (last D)))"

lemma prev_by_id_SomeD: "prev_by_id prev i = Some (ix, pe) \<Longrightarrow> ix < length prev \<and> prev ! ix = pe \<and> me_id pe = i"
  by (auto simp: prev_by_id_def in_set_enumerate_eq dest!: map_of_SomeD)

lemma prev_by_id_None: "prev_by_id prev i = None \<longleftrightarrow> i \<notin> me_id ` set prev"
proof -
  have "snd ` set (List.enumerate 0 prev) = set prev" by (metis list.set_map map_snd_enumerate)
  then have "(\<lambda>x. me_id (snd x)) ` set (List.enumerate 0 prev) = me_id ` set prev" by (metis image_image)
  then show ?thesis by (simp add: prev_by_id_def map_of_eq_None_iff image_image case_prod_unfold)
qed

lemma prev_by_id_mem:
  assumes "distinct (ids prev)" "pe \<in> set prev"
  shows "\<exists>ix. prev_by_id prev (me_id pe) = Some (ix, pe)"
proof -
  obtain ix pe' where p: "prev_by_id prev (me_id pe) = Some (ix, pe')"
    using assms(2) prev_by_id_None [of prev "me_id pe"] by (cases "prev_by_id prev (me_id pe)") auto
  then have "pe' = pe" using prev_by_id_SomeD [OF p] assms by (metis distinct_map inj_onD nth_mem)
  with p show ?thesis by blast
qed

lemma remove_entry_append: "i \<notin> set (ids D) \<Longrightarrow> remove_entry i (D @ R) = D @ remove_entry i R"
  by (induction D) auto

lemma remove_entry_absent: "i \<notin> set (ids R) \<Longrightarrow> remove_entry i R = R"
  by (induction R) auto

lemma insert_behind_last:
  "distinct (ids D) \<Longrightarrow> D \<noteq> [] \<Longrightarrow> insert_behind (me_id (last D)) e (D @ R) = Some (D @ e # R)"
  by (induction D) (auto split: if_splits)

lemma apply_upsert_at:
  assumes "distinct (ids D)" "me_id e \<notin> set (ids D)" "remove_entry (me_id e) R = R'"
  shows "apply_upsert \<lparr>up_after = last_id D, up_entry = e\<rparr> (D @ R) = Inr (D @ e # R')"
  using assms by (auto simp: apply_upsert_def Let_def remove_entry_append insert_behind_last)

text \<open>
  The upserts against the placed entries \<open>D\<close> and the waiting old entries \<open>R\<close>, which come in the order of the rest
  of \<open>next\<close>.
\<close>

lemma remove_entry_subset: "set (remove_entry i R) \<subseteq> set R"
  by (induction R) auto

lemma waiting_step:
  assumes "distinct (ids prev)" "ids R = filter (\<lambda>i. i \<in> me_id ` set prev) (ids (e # es))" "set R \<subseteq> set prev"
  shows "ids (remove_entry (me_id e) R) = filter (\<lambda>i. i \<in> me_id ` set prev) (ids es)"
    "me_id e \<in> me_id ` set prev \<Longrightarrow> R = snd (the (prev_by_id prev (me_id e))) # remove_entry (me_id e) R"
proof -
  show "ids (remove_entry (me_id e) R) = filter (\<lambda>i. i \<in> me_id ` set prev) (ids es)"
  proof (cases "me_id e \<in> me_id ` set prev")
    case True
    then show ?thesis using assms(2) by (cases R) auto
  next
    case False
    then have "me_id e \<notin> set (ids R)" using assms(3) by auto
    then show ?thesis using False assms(2) by (simp add: remove_entry_absent)
  qed
  assume "me_id e \<in> me_id ` set prev"
  then obtain pe R' where R: "R = pe # R'" "me_id pe = me_id e" using assms(2) by (cases R) auto
  then obtain ix where "prev_by_id prev (me_id pe) = Some (ix, pe)"
    using prev_by_id_mem [OF assms(1), of pe] assms(3) by auto
  with R show "R = snd (the (prev_by_id prev (me_id e))) # remove_entry (me_id e) R" by simp
qed

lemma apply_upserts_settled:
  assumes prev: "distinct (ids prev)"
  shows "distinct (ids D @ ids es) \<Longrightarrow> ids R = filter (\<lambda>i. i \<in> me_id ` set prev) (ids es) \<Longrightarrow> set R \<subseteq> set prev \<Longrightarrow>
    apply_upserts (fst (diff_entries prev (last_id D) es)) (D @ R) = Inr (D @ settled prev (last_id D) es)"
proof (induction es arbitrary: D R)
  case (Cons e es)
  let ?after = "last_id D" and ?R' = "remove_entry (me_id e) R"
  let ?x = "if classify prev ?after e = Upsert then e else snd (the (prev_by_id prev (me_id e)))"
  note w = waiting_step [OF prev Cons.prems(2,3)]
  have x: "me_id ?x = me_id e"
    by (auto simp: classify_def split: option.splits dest: prev_by_id_SomeD)
  have "apply_upserts (fst (diff_entries prev ?after (e # es))) (D @ R) =
      apply_upserts (fst (diff_entries prev (Some (me_id e)) es)) ((D @ [?x]) @ ?R')"
  proof (cases "classify prev ?after e = Upsert")
    case True
    then show ?thesis using apply_upsert_at [of D e R ?R'] Cons.prems(1)
      by (auto simp: Let_def case_prod_unfold)
  next
    case False
    then have "me_id e \<in> me_id ` set prev" using prev_by_id_None [of prev "me_id e"] by (auto simp: classify_def)
    then show ?thesis using False w(2) by (auto simp: Let_def case_prod_unfold split: change.split)
  qed
  also have "\<dots> = Inr ((D @ [?x]) @ settled prev (Some (me_id e)) es)"
    using Cons.IH [of "D @ [?x]" ?R'] Cons.prems(1,3) w(1) x remove_entry_subset [of "me_id e" R] by simp
  finally show ?case by simp
qed simp

lemma append_scan_acc:
  "length ps = length ns \<Longrightarrow> append_scan eid (Some a) (zip ps ns) = Some b \<Longrightarrow> b = a \<and> ps = ns"
  by (induction ps ns rule: list_induct2) (auto split: if_splits message_part.splits)

lemma append_text_hit:
  assumes "append_scan eid None (zip ps ns) = Some a" "length ps = length ns" "distinct (List.map_filter text_id ps)"
  shows "append_text a ps = Inr ns \<and> ta_entry a = eid"
  using assms
proof (induction ps ns rule: list_induct2')
  case (4 p ps n ns)
  show ?case
  proof (cases "p = n")
    case True
    then have IH: "append_text a ps = Inr ns \<and> ta_entry a = eid"
      using 4 by (auto simp: List.map_filter_simps split: option.splits)
    moreover have "ta_part a \<in> set (List.map_filter text_id ps)" if "append_text a ps = Inr ns"
      using that by (induction a ps arbitrary: ns rule: append_text.induct)
        (auto simp: List.map_filter_simps Let_def map_sum_def split: if_splits sum.splits)
    ultimately show ?thesis using True 4(4) by (cases p) (auto simp: List.map_filter_simps)
  next
    case False
    then obtain i pt nt where pn: "p = Text i pt" "n = Text i nt" "prefix pt nt"
      and scan: "append_scan eid (Some \<lparr>ta_entry = eid, ta_part = i, ta_text = drop (length pt) nt, ta_len = length nt\<rparr>)
        (zip ps ns) = Some a"
      using 4(2) by (auto split: message_part.splits if_splits)
    have "ps = ns \<and> a = \<lparr>ta_entry = eid, ta_part = i, ta_text = drop (length pt) nt, ta_len = length nt\<rparr>"
      using append_scan_acc [OF _ scan] 4(3) by simp
    then show ?thesis using pn by (auto simp: prefix_def)
  qed
qed auto

lemma apply_append_at:
  assumes "ta_entry a \<notin> set (ids D)" "me_id e = ta_entry a" "append_text a (me_parts e) = Inr ps"
  shows "apply_append a (D @ e # R) = Inr (D @ e\<lparr>me_parts := ps\<rparr> # R)"
  using assms by (induction D) auto

lemma apply_append_text:
  assumes "try_text_append pe e = Some a" "distinct (List.map_filter text_id (me_parts pe))" "me_id e \<notin> set (ids D)"
  shows "apply_append a (D @ pe # R) = Inr (D @ e # R)"
proof -
  have same: "me_id pe = me_id e" "me_role pe = me_role e" "me_created_at pe = me_created_at e"
    "me_device_id pe = me_device_id e" "me_status pe = me_status e" "me_continuation_of pe = me_continuation_of e"
    and scan: "append_scan (me_id e) None (zip (me_parts pe) (me_parts e)) = Some a"
    and len: "length (me_parts pe) = length (me_parts e)"
    using assms(1) by (auto simp: try_text_append_def split: if_splits)
  have hit: "append_text a (me_parts pe) = Inr (me_parts e) \<and> ta_entry a = me_id e"
    using append_text_hit [OF scan len assms(2)] .
  have "pe\<lparr>me_parts := me_parts e\<rparr> = e" using same by simp
  then show ?thesis using apply_append_at [of a D pe "me_parts e" R] hit assms(3) same by simp
qed

lemma apply_appends_settled:
  assumes prev: "\<And>pe. pe \<in> set prev \<Longrightarrow> distinct (List.map_filter text_id (me_parts pe))"
  shows "distinct (ids D @ ids es) \<Longrightarrow>
    apply_appends (snd (diff_entries prev after es)) (D @ settled prev after es) = Inr (D @ es)"
proof (induction es arbitrary: D after)
  case (Cons e es)
  let ?x = "if classify prev after e = Upsert then e else snd (the (prev_by_id prev (me_id e)))"
  have IH: "apply_appends (snd (diff_entries prev (Some (me_id e)) es)) ((D @ [e]) @ settled prev (Some (me_id e)) es)
      = Inr ((D @ [e]) @ es)"
    using Cons.prems by (intro Cons.IH) auto
  show ?case
  proof (cases "classify prev after e")
    case (Append a)
    then obtain ix pe where pe: "prev_by_id prev (me_id e) = Some (ix, pe)" "try_text_append pe e = Some a"
      by (auto simp: classify_def split: option.splits if_splits)
    then have "pe \<in> set prev" using prev_by_id_SomeD by fastforce
    then have "apply_append a (D @ pe # settled prev (Some (me_id e)) es) = Inr (D @ e # settled prev (Some (me_id e)) es)"
      using pe prev Cons.prems by (intro apply_append_text) auto
    then show ?thesis using Append IH pe by (auto simp: Let_def case_prod_unfold)
  next
    case Unchanged
    then have "snd (the (prev_by_id prev (me_id e))) = e"
      by (auto simp: classify_def split: option.splits if_splits)
    then show ?thesis using Unchanged IH by (auto simp: Let_def case_prod_unfold)
  next
    case Upsert
    then show ?thesis using IH by (auto simp: Let_def case_prod_unfold)
  qed
qed simp

section \<open>Nothing to send\<close>

lemma prev_by_id_nth:
  assumes "distinct (ids prev)" "ix < length prev"
  shows "prev_by_id prev (me_id (prev ! ix)) = Some (ix, prev ! ix)"
proof -
  obtain iy where p: "prev_by_id prev (me_id (prev ! ix)) = Some (iy, prev ! ix)"
    using prev_by_id_mem [OF assms(1)] assms(2) by (meson nth_mem)
  then have "iy < length prev" "prev ! iy = prev ! ix" using prev_by_id_SomeD [OF p] by auto
  then show ?thesis using p assms by (metis distinct_map nth_eq_iff_index_eq)
qed

lemma diff_entries_same:
  "distinct (ids (D @ es)) \<Longrightarrow> diff_entries (D @ es) (last_id D) es = ([], [])"
proof (induction es arbitrary: D)
  case (Cons e es)
  have "prev_by_id (D @ e # es) (me_id e) = Some (length D, e)"
    using prev_by_id_nth [OF Cons.prems, of "length D"] by simp
  moreover have "before_id (D @ e # es) (length D) = last_id D"
    by (cases D rule: rev_cases) (auto simp: before_id_def nth_append)
  ultimately have "classify (D @ e # es) (last_id D) e = Unchanged" by (simp add: classify_def)
  moreover have "diff_entries ((D @ [e]) @ es) (last_id (D @ [e])) es = ([], [])"
    using Cons.prems by (intro Cons.IH) simp
  ultimately show ?case by simp
qed simp

lemma no_change_prefix:
  assumes "distinct (ids prev)"
  shows "prefix D prev \<Longrightarrow> diff_entries prev (last_id D) es = ([], []) \<Longrightarrow> prefix (D @ es) prev"
proof (induction es arbitrary: D)
  case (Cons e es)
  have un: "classify prev (last_id D) e = Unchanged" and rest: "diff_entries prev (Some (me_id e)) es = ([], [])"
    using Cons.prems(2) by (auto simp: Let_def case_prod_unfold prod_eq_iff split: change.splits)
  then obtain ix where ix: "prev_by_id prev (me_id e) = Some (ix, e)" "before_id prev ix = last_id D"
    by (auto simp: classify_def split: option.splits if_splits)
  then have e: "ix < length prev" "prev ! ix = e" using prev_by_id_SomeD by blast+
  have "ix = length D"
  proof (cases D rule: rev_cases)
    case Nil
    then show ?thesis using ix(2) by (auto simp: before_id_def split: if_splits)
  next
    case (snoc D' d)
    then have "prev ! length D' = d" "length D' < length prev"
      using Cons.prems(1) by (auto simp: prefix_def nth_append)
    moreover have "ix \<noteq> 0" "me_id (prev ! (ix - 1)) = me_id d"
      using ix(2) snoc by (auto simp: before_id_def split: if_splits)
    ultimately have "ix - 1 = length D'"
      using nth_eq_iff_index_eq [OF assms, of "ix - 1" "length D'"] e(1) by simp
    then show ?thesis using snoc \<open>ix \<noteq> 0\<close> by simp
  qed
  moreover obtain zs where "prev = D @ zs" using Cons.prems(1) by (auto simp: prefix_def)
  ultimately have "prefix (D @ [e]) prev" using e by (cases zs) auto
  with Cons.IH [of "D @ [e]"] rest show ?case by simp
qed simp

section \<open>Properties\<close>

definition sample_entry :: "string \<Rightarrow> string \<Rightarrow> message_entry" where
  "sample_entry i s = \<lparr>me_id = i, me_role = Assistant, me_parts = [Text ''t0'' s], me_created_at = 1,
     me_device_id = ''d'', me_status = None, me_continuation_of = None\<rparr>"

text \<open>
  C13. A viewer that applies the diff of two transcript states to the first has the second, through the upserts,
  the text appends and the length tripwires, whenever ids are distinct, the entries common to both states keep
  their relative order (a document list only inserts and deletes) and the text parts of an old entry have
  distinct ids (as the fold gives them).
\<close>
theorem diff_apply_roundtrip:
  assumes "distinct (ids prev)" "distinct (ids next)"
    and "filter (\<lambda>i. i \<in> me_id ` set next) (ids prev) = filter (\<lambda>i. i \<in> me_id ` set prev) (ids next)"
    and "list_all (\<lambda>e. distinct (List.map_filter text_id (me_parts e))) prev"
  shows "apply_transcript_frame (diff_transcript prev next) prev = Inr next"
proof -
  let ?R = "filter (\<lambda>e. me_id e \<in> me_id ` set next) prev"
  have R: "ids ?R = filter (\<lambda>i. i \<in> me_id ` set prev) (ids next)"
    using assms(3) by (simp add: filter_map o_def)
  have kept: "filter (\<lambda>e. me_id e \<notin> set (map me_id (filter (\<lambda>e. me_id e \<notin> me_id ` set next) prev))) prev = ?R"
    by (rule filter_cong) auto
  have "apply_upserts (fst (diff_entries prev None next)) ?R = Inr (settled prev None next)"
    using apply_upserts_settled [OF assms(1), of "[]" "next" ?R] R assms(2) by simp
  moreover have "apply_appends (snd (diff_entries prev None next)) (settled prev None next) = Inr next"
    using apply_appends_settled [of prev "[]" "next" None] assms(2,4) by (simp add: list_all_iff)
  ultimately show ?thesis
    by (simp add: diff_transcript_def Let_def case_prod_unfold kept del: set_map)
qed

theorem diff_apply_roundtrip_witness:
  "apply_transcript_frame
     (diff_transcript [sample_entry ''a'' ''x'', sample_entry ''b'' ''y'', sample_entry ''c'' ''z'']
        [sample_entry ''a'' ''x'', sample_entry ''n'' ''new'', sample_entry ''c'' ''z more''])
     [sample_entry ''a'' ''x'', sample_entry ''b'' ''y'', sample_entry ''c'' ''z''] =
   Inr [sample_entry ''a'' ''x'', sample_entry ''n'' ''new'', sample_entry ''c'' ''z more'']"
  by (rule diff_apply_roundtrip) (simp_all add: sample_entry_def List.map_filter_def)

text \<open>The frame is the empty delta, which is not sent, exactly when nothing changed.\<close>
theorem empty_delta_iff_same:
  assumes "distinct (ids prev)" "distinct (ids next)"
  shows "is_empty_delta (diff_transcript prev next) \<longleftrightarrow> prev = next"
proof
  assume "prev = next"
  moreover have "diff_entries next None next = ([], [])" using diff_entries_same [of "[]" "next"] assms(2) by simp
  moreover have "filter (\<lambda>e. me_id e \<notin> me_id ` set next) next = []" by (simp add: filter_empty_conv)
  ultimately show "is_empty_delta (diff_transcript prev next)" by (simp add: diff_transcript_def)
next
  assume e: "is_empty_delta (diff_transcript prev next)"
  then have "diff_entries prev None next = ([], [])" "filter (\<lambda>e. me_id e \<notin> me_id ` set next) prev = []"
    by (auto simp: diff_transcript_def Let_def case_prod_unfold prod_eq_iff split: if_splits)
  then have "prefix next prev" "set (ids prev) \<subseteq> set (ids next)"
    using no_change_prefix [OF assms(1), of "[]" "next"] by (auto simp: filter_empty_conv)
  moreover from this(2) have "length prev \<le> length next"
    using assms by (metis card_mono distinct_card finite_set length_map)
  ultimately show "prev = next" by (auto simp: prefix_def)
qed

theorem empty_delta_iff_same_witness:
  "\<not> is_empty_delta (diff_transcript [sample_entry ''a'' ''x''] [sample_entry ''a'' ''y''])"
  using empty_delta_iff_same [of "[sample_entry ''a'' ''x'']" "[sample_entry ''a'' ''y'']"]
  by (simp add: sample_entry_def)

text \<open>
  When a block of entries moves, the delta does not reproduce the new state and the tripwire does not notice: an
  entry that still follows the same predecessor is not sent, although the predecessor itself has moved.
\<close>
theorem block_move_desyncs_silently:
  "\<exists>prev next got. distinct (ids prev) \<and> distinct (ids next) \<and> set prev = set next \<and>
     apply_transcript_frame (diff_transcript prev next) prev = Inr got \<and> got \<noteq> next"
proof -
  let ?a = "sample_entry ''a'' ''1''" and ?x = "sample_entry ''x'' ''2''"
  let ?p = "sample_entry ''p'' ''3''" and ?e = "sample_entry ''e'' ''4''"
  have d: "diff_transcript [?a, ?x, ?p, ?e] [?p, ?e, ?a, ?x] =
      Delta [\<lparr>up_after = None, up_entry = ?p\<rparr>, \<lparr>up_after = Some ''e'', up_entry = ?a\<rparr>] [] [] 4"
    by code_simp
  have "apply_transcript_frame (diff_transcript [?a, ?x, ?p, ?e] [?p, ?e, ?a, ?x]) [?a, ?x, ?p, ?e] =
      Inr [?p, ?x, ?e, ?a]"
    unfolding d by code_simp
  moreover have "distinct (ids [?a, ?x, ?p, ?e])" "distinct (ids [?p, ?e, ?a, ?x])" "[?p, ?x, ?e, ?a] \<noteq> [?p, ?e, ?a, ?x]"
    by (simp_all add: sample_entry_def)
  moreover have "set [?a, ?x, ?p, ?e] = set [?p, ?e, ?a, ?x]" by auto
  ultimately show ?thesis by blast
qed

end
