(* ===== verification/Commands.thy ===== *)
theory Commands
  imports Entities
begin

text \<open>
  The durable command ledger: command entries and their evaluation (\<open>crates/doc/src/commands.rs\<close>), the
  local store with its processed-command table (\<open>crates/sync/src/store.rs\<close>), and the workers of a host that
  drain pending commands or take relayed ones (\<open>drain_commands\<close> and \<open>ingest_relayed_command\<close> in
  \<open>crates/engine/src/doc_host.rs\<close>). A worker is modelled at the grain of its locks: picking and evaluating an
  entry, claiming it in the in-memory set, marking it in the ledger, and running it are separate steps that
  interleave with other workers and with a crash. Reads and writes of the ledger succeed.
\<close>

section \<open>Entries\<close>

datatype command_kind = KRun | KSteer | KInterrupt | KRespondInput

datatype command_status = Pending | Applied | Rejected | Expired | Superseded | Cancelled

record worktree_spec =
  wt_repo_path :: string
  wt_base :: string

record run_request =
  rq_prompt :: string
  rq_harness :: "harness_id option"
  rq_model :: "string option"
  rq_reasoning :: "reasoning_level option"
  rq_model_options :: "(string, json) btree"
  rq_cwd :: string
  rq_sandbox :: sandbox_level
  rq_auto_approve :: bool
  rq_resume :: "string option"
  rq_mcp_servers :: "string list option"
  rq_attachments :: "string list"
  rq_worktree :: "worktree_spec option"

record user_input_answer =
  ans_question_id :: string
  ans_labels :: "string list"

datatype command_payload =
    Run run_request string
  | Steer string "string option"
  | Interrupt
  | RespondInput string "user_input_answer list"

fun payload_kind :: "command_payload \<Rightarrow> command_kind" where
  "payload_kind (Run _ _) = KRun"
| "payload_kind (Steer _ _) = KSteer"
| "payload_kind Interrupt = KInterrupt"
| "payload_kind (RespondInput _ _) = KRespondInput"

record based_on =
  bo_turn_id :: "string option"
  bo_frontier :: "string option"

record command_entry =
  ce_id :: string
  ce_payload :: command_payload
  ce_issued_by :: string
  ce_issued_at :: int
  ce_based_on :: "based_on option"
  ce_expires_at :: "int option"
  ce_status :: command_status
  ce_resolution :: "string option"

definition entry_kind :: "command_entry \<Rightarrow> command_kind" where
  "entry_kind e = payload_kind (ce_payload e)"

definition command_default_ttl_ms :: int where "command_default_ttl_ms = 24 * 60 * 60 * 1000"

definition effective_expiry :: "command_entry \<Rightarrow> int" where
  "effective_expiry e = (case ce_expires_at e of None \<Rightarrow> ce_issued_at e + command_default_ttl_ms | Some t \<Rightarrow> t)"

definition can_composer_cancel :: "command_entry \<Rightarrow> string \<Rightarrow> bool" where
  "can_composer_cancel e device = (ce_status e = Pending \<and> ce_issued_by e = device)"

section \<open>Evaluation\<close>

datatype disposition = Skip | DExpired | DSuperseded | Execute

record eval_context =
  cx_is_processed :: "string \<Rightarrow> bool"
  cx_now_ms :: int
  cx_entries :: "command_entry list"
  cx_current_turn_id :: "string option"
  cx_turn_is_past :: "string \<Rightarrow> bool"

definition evaluate_command :: "command_entry \<Rightarrow> eval_context \<Rightarrow> disposition" where
  "evaluate_command e cx =
     (if cx_is_processed cx (ce_id e) then Skip
      else if effective_expiry e \<le> cx_now_ms cx then DExpired
      else let kind = entry_kind e in
        if (kind = KSteer \<or> kind = KInterrupt) \<and>
           list_ex (\<lambda>other. ce_id other \<noteq> ce_id e \<and> entry_kind other = kind \<and> ce_status other = Pending \<and>
                            ce_issued_at e < ce_issued_at other) (cx_entries cx)
        then DSuperseded
        else if kind = KInterrupt \<and>
           (case ce_based_on e of
              None \<Rightarrow> False
            | Some b \<Rightarrow> (case bo_turn_id b of
                           None \<Rightarrow> False
                         | Some turn \<Rightarrow> cx_current_turn_id cx \<noteq> Some turn \<and> cx_turn_is_past cx turn))
        then DSuperseded
        else Execute)"

section \<open>The local store\<close>

text \<open>The snapshots table and the processed-command table.\<close>

record snapshot =
  sn_bytes :: "nat list"
  sn_cursor :: "int option"
  sn_epoch :: "int option"

record docs_store =
  st_snapshots :: "(string, snapshot) btree"
  st_processed :: "(string, int) btree"

definition load_snapshot :: "docs_store \<Rightarrow> string \<Rightarrow> nat list option" where
  "load_snapshot st doc = map_option sn_bytes (bt_get (st_snapshots st) doc)"

definition save_snapshot :: "string \<Rightarrow> nat list \<Rightarrow> docs_store \<Rightarrow> docs_store" where
  "save_snapshot doc bytes st =
     st\<lparr>st_snapshots := bt_insert doc
        (case bt_get (st_snapshots st) doc of
           None \<Rightarrow> \<lparr>sn_bytes = bytes, sn_cursor = None, sn_epoch = None\<rparr>
         | Some s \<Rightarrow> s\<lparr>sn_bytes := bytes\<rparr>) (st_snapshots st)\<rparr>"

text \<open>\<open>cursor as i64\<close> on the way in, \<open>as u64\<close> and \<open>as u32\<close> on the way out.\<close>

definition u64_as_i64 :: "nat \<Rightarrow> int" where
  "u64_as_i64 n = (if n < 2 ^ 63 then int n else int n - 2 ^ 64)"

definition i64_as_unsigned :: "nat \<Rightarrow> int \<Rightarrow> nat" where
  "i64_as_unsigned w i = nat (i mod 2 ^ w)"

definition save_snapshot_with_cursor :: "string \<Rightarrow> nat list \<Rightarrow> nat \<Rightarrow> nat \<Rightarrow> docs_store \<Rightarrow> docs_store" where
  "save_snapshot_with_cursor doc bytes cursor epoch st =
     st\<lparr>st_snapshots := bt_insert doc
        \<lparr>sn_bytes = bytes, sn_cursor = Some (u64_as_i64 cursor), sn_epoch = Some (int epoch)\<rparr> (st_snapshots st)\<rparr>"

definition load_snapshot_with_cursor :: "docs_store \<Rightarrow> string \<Rightarrow> (nat list \<times> nat \<times> nat) option" where
  "load_snapshot_with_cursor st doc =
     map_option (\<lambda>s. (sn_bytes s,
        i64_as_unsigned 64 (case sn_cursor s of None \<Rightarrow> 0 | Some c \<Rightarrow> c),
        i64_as_unsigned 32 (case sn_epoch s of None \<Rightarrow> 0 | Some e \<Rightarrow> e)))
       (bt_get (st_snapshots st) doc)"

definition delete_snapshot :: "string \<Rightarrow> docs_store \<Rightarrow> docs_store" where
  "delete_snapshot doc st = st\<lparr>st_snapshots := bt_remove doc (st_snapshots st)\<rparr>"

definition has_snapshot :: "docs_store \<Rightarrow> string \<Rightarrow> bool" where
  "has_snapshot st doc = bt_contains (st_snapshots st) doc"

text \<open>\<open>INSERT OR IGNORE\<close>: the first claim of an id stands; the flag tells whether this one was it.\<close>

definition claim_row :: "string \<Rightarrow> int \<Rightarrow> (string, int) btree \<Rightarrow> (string, int) btree \<times> bool" where
  "claim_row cid at m = (if bt_contains m cid then (m, False) else (bt_insert cid at m, True))"

definition is_processed :: "docs_store \<Rightarrow> string \<Rightarrow> bool" where
  "is_processed st cid = bt_contains (st_processed st) cid"

definition mark_processed :: "int \<Rightarrow> string \<Rightarrow> docs_store \<Rightarrow> docs_store \<times> bool" where
  "mark_processed now cid st =
     (let (m, fresh) = claim_row cid now (st_processed st) in (st\<lparr>st_processed := m\<rparr>, fresh))"

definition processed_commands :: "docs_store \<Rightarrow> (string \<times> int) list" where
  "processed_commands st = st_processed st"

fun import_rows :: "(string \<times> int) list \<Rightarrow> (string, int) btree \<Rightarrow> nat \<Rightarrow> (string, int) btree \<times> nat" where
  "import_rows [] m inserted = (m, inserted)"
| "import_rows ((cid, at) # rows) m inserted =
     (let (m', fresh) = claim_row cid at m in import_rows rows m' (if fresh then inserted + 1 else inserted))"

definition import_processed_commands :: "(string \<times> int) list \<Rightarrow> docs_store \<Rightarrow> docs_store \<times> nat" where
  "import_processed_commands rows st =
     (let (m, inserted) = import_rows rows (st_processed st) 0 in (st\<lparr>st_processed := m\<rparr>, inserted))"

section \<open>Workers of a host\<close>

datatype road = Drain | Relay

datatype worker =
    Idle
  | Picked road command_entry disposition
  | Claimed road command_entry disposition
  | Marked road command_entry disposition
  | Running road command_entry

record host =
  hs_commands :: "command_entry list"
  hs_messages :: "string list"
  hs_store :: docs_store
  hs_executing :: "string set"
  hs_runs :: "string list"
  hs_workers :: "nat \<Rightarrow> worker"

text \<open>\<open>hs_runs\<close> records the commands whose execution started, in order; the code keeps no such list.\<close>

definition host_context :: "int \<Rightarrow> host \<Rightarrow> eval_context" where
  "host_context now h = \<lparr>cx_is_processed = is_processed (hs_store h), cx_now_ms = now, cx_entries = hs_commands h,
     cx_current_turn_id = (if hs_messages h = [] then None else Some (last (hs_messages h))),
     cx_turn_is_past = (\<lambda>t. t \<in> set (hs_messages h))\<rparr>"

text \<open>\<open>queue_command\<close>: a new entry is appended; it carries no resolution yet.\<close>

definition queue_command :: "command_entry \<Rightarrow> command_entry list \<Rightarrow> command_entry list" where
  "queue_command e es = es @ [e\<lparr>ce_resolution := None\<rparr>]"

text \<open>\<open>set_command_status\<close>: the first entry with the id gets the outcome.\<close>

fun set_command_status :: "string \<Rightarrow> command_status \<Rightarrow> string option \<Rightarrow> command_entry list \<Rightarrow> command_entry list" where
  "set_command_status cid status res [] = []"
| "set_command_status cid status res (e # es) =
     (if ce_id e = cid
      then e\<lparr>ce_status := status, ce_resolution := (case res of None \<Rightarrow> ce_resolution e | Some r \<Rightarrow> Some r)\<rparr> # es
      else e # set_command_status cid status res es)"

definition resolve_command :: "string \<Rightarrow> command_status \<Rightarrow> string option \<Rightarrow> host \<Rightarrow> host" where
  "resolve_command cid status res h = h\<lparr>hs_commands := set_command_status cid status res (hs_commands h)\<rparr>"

text \<open>The dead-command sweep: consumed by the ledger, pending in the document, and not being executed.\<close>

definition dead_command :: "host \<Rightarrow> string set \<Rightarrow> command_entry \<Rightarrow> bool" where
  "dead_command h skipped c = (ce_status c = Pending \<and> ce_id c \<notin> skipped \<and> is_processed (hs_store h) (ce_id c) \<and>
     ce_id c \<notin> hs_executing h)"

definition sweep :: "string set \<Rightarrow> host \<Rightarrow> host" where
  "sweep skipped h =
     fold (\<lambda>c. resolve_command (ce_id c) Rejected (Some (''interrupted before completion '' @ em_dash @ '' retry to send again'')))
       (filter (dead_command h skipped) (hs_commands h)) h"

text \<open>The entry a drain pass picks.\<close>

definition pick :: "string set \<Rightarrow> host \<Rightarrow> command_entry option" where
  "pick skipped h =
     find (\<lambda>c. ce_status c = Pending \<and> ce_id c \<notin> skipped \<and> \<not> is_processed (hs_store h) (ce_id c)) (hs_commands h)"

definition attachment_wait_max_ms :: int where "attachment_wait_max_ms = 15 * 60 * 1000"

text \<open>
  What a drain pass does with the picked entry before it claims it: wait for attachment bytes, give up on
  them, or go on.
\<close>

datatype gate = Defer | GiveUp | Proceed disposition

definition attachment_gate :: "int \<Rightarrow> (command_entry \<Rightarrow> bool) \<Rightarrow> host \<Rightarrow> command_entry \<Rightarrow> gate" where
  "attachment_gate now missing h e =
     (let d = evaluate_command e (host_context now h)
      in if d = Execute \<and> missing e
         then (if now - ce_issued_at e < attachment_wait_max_ms then Defer else GiveUp)
         else Proceed d)"

definition mark_host :: "int \<Rightarrow> string \<Rightarrow> host \<Rightarrow> host \<times> bool" where
  "mark_host now cid h = (let (st, fresh) = mark_processed now cid (hs_store h) in (h\<lparr>hs_store := st\<rparr>, fresh))"

text \<open>
  What becomes of a marked entry that is not executed, and the outcome of one that was: only the drain writes
  outcomes to the document.
\<close>

fun settle :: "road \<Rightarrow> command_entry \<Rightarrow> disposition \<Rightarrow> host \<Rightarrow> host" where
  "settle Drain e DExpired h = resolve_command (ce_id e) Expired None h"
| "settle Drain e DSuperseded h = resolve_command (ce_id e) Superseded None h"
| "settle _ e _ h = h"

fun write_outcome :: "road \<Rightarrow> command_entry \<Rightarrow> command_status \<times> string option \<Rightarrow> host \<Rightarrow> host" where
  "write_outcome Drain e outcome h = resolve_command (ce_id e) (fst outcome) (snd outcome) h"
| "write_outcome Relay e outcome h = h"

definition release :: "string \<Rightarrow> host \<Rightarrow> host" where
  "release cid h = h\<lparr>hs_executing := hs_executing h - {cid}\<rparr>"

abbreviation set_worker :: "nat \<Rightarrow> worker \<Rightarrow> host \<Rightarrow> host" where
  "set_worker w pc h \<equiv> h\<lparr>hs_workers := (hs_workers h)(w := pc)\<rparr>"

text \<open>
  The steps of a host whose drain passes run in the workers \<open>D\<close> and whose relayed commands are taken by the
  workers \<open>R\<close>.
\<close>

inductive host_step :: "nat set \<Rightarrow> nat set \<Rightarrow> (command_entry \<Rightarrow> bool) \<Rightarrow> host \<Rightarrow> host \<Rightarrow> bool"
  for D R missing where
  do_sweep: "w \<in> D \<Longrightarrow> hs_workers h w = Idle \<Longrightarrow> host_step D R missing h (sweep skipped h)"
| do_pick: "w \<in> D \<Longrightarrow> hs_workers h w = Idle \<Longrightarrow> pick skipped h = Some e \<Longrightarrow>
    attachment_gate now missing h e = Proceed d \<Longrightarrow>
    host_step D R missing h (set_worker w (Picked Drain e d) h)"
| do_give_up: "w \<in> D \<Longrightarrow> hs_workers h w = Idle \<Longrightarrow> pick skipped h = Some e \<Longrightarrow>
    attachment_gate now missing h e = GiveUp \<Longrightarrow>
    host_step D R missing h (resolve_command (ce_id e) Rejected (Some ''attachments never arrived'') (fst (mark_host now (ce_id e) h)))"
| do_relay: "w \<in> R \<Longrightarrow> hs_workers h w = Idle \<Longrightarrow> \<not> missing e \<Longrightarrow> d = evaluate_command e (host_context now h) \<Longrightarrow>
    d \<noteq> Skip \<Longrightarrow> host_step D R missing h (set_worker w (Picked Relay e d) h)"
| do_claim: "hs_workers h w = Picked road e d \<Longrightarrow> ce_id e \<notin> hs_executing h \<Longrightarrow>
    host_step D R missing h (set_worker w (Claimed road e d) (h\<lparr>hs_executing := insert (ce_id e) (hs_executing h)\<rparr>))"
| do_claim_lost: "hs_workers h w = Picked road e d \<Longrightarrow> ce_id e \<in> hs_executing h \<Longrightarrow>
    host_step D R missing h (set_worker w Idle h)"
| do_mark_drain: "hs_workers h w = Claimed Drain e d \<Longrightarrow>
    host_step D R missing h (set_worker w (Marked Drain e d) (fst (mark_host now (ce_id e) h)))"
| do_mark_relay: "hs_workers h w = Claimed Relay e d \<Longrightarrow> mark_host now (ce_id e) h = (h', True) \<Longrightarrow>
    host_step D R missing h (set_worker w (Marked Relay e d) h')"
| do_mark_duplicate: "hs_workers h w = Claimed Relay e d \<Longrightarrow> mark_host now (ce_id e) h = (h', False) \<Longrightarrow>
    host_step D R missing h (set_worker w Idle (release (ce_id e) h'))"
| do_settle: "hs_workers h w = Marked road e d \<Longrightarrow> d \<noteq> Execute \<Longrightarrow>
    host_step D R missing h (set_worker w Idle (release (ce_id e) (settle road e d h)))"
| do_run: "hs_workers h w = Marked road e Execute \<Longrightarrow>
    host_step D R missing h (set_worker w (Running road e) (h\<lparr>hs_runs := hs_runs h @ [ce_id e]\<rparr>))"
| do_finish: "hs_workers h w = Running road e \<Longrightarrow>
    host_step D R missing h (set_worker w Idle (release (ce_id e) (write_outcome road e outcome h)))"
| do_queue: "host_step D R missing h (h\<lparr>hs_commands := queue_command e (hs_commands h)\<rparr>)"
| do_message: "host_step D R missing h (h\<lparr>hs_messages := hs_messages h @ [m]\<rparr>)"
| do_crash: "host_step D R missing h (h\<lparr>hs_executing := {}, hs_workers := (\<lambda>_. Idle)\<rparr>)"

definition new_host :: "docs_store \<Rightarrow> command_entry list \<Rightarrow> host" where
  "new_host st es = \<lparr>hs_commands = es, hs_messages = [], hs_store = st, hs_executing = {}, hs_runs = [],
     hs_workers = (\<lambda>_. Idle)\<rparr>"

inductive host_reachable :: "nat set \<Rightarrow> nat set \<Rightarrow> (command_entry \<Rightarrow> bool) \<Rightarrow> host \<Rightarrow> host \<Rightarrow> bool"
  for D R missing h0 where
  host_start: "host_reachable D R missing h0 h0"
| host_next: "host_reachable D R missing h0 h \<Longrightarrow> host_step D R missing h h' \<Longrightarrow> host_reachable D R missing h0 h'"

section \<open>The ledger\<close>

lemma is_processed_mark:
  "is_processed (hs_store (fst (mark_host now cid h))) x \<longleftrightarrow> x = cid \<or> is_processed (hs_store h) x"
  by (simp add: mark_host_def mark_processed_def claim_row_def is_processed_def bt_contains_def Let_def)

lemma mark_host_fresh: "mark_host now cid h = (h', fresh) \<Longrightarrow> fresh \<longleftrightarrow> \<not> is_processed (hs_store h) cid"
  by (auto simp: mark_host_def mark_processed_def claim_row_def is_processed_def Let_def split: if_splits)

lemma mark_host_simps [simp]:
  "hs_workers (fst (mark_host now cid h)) = hs_workers h" "hs_executing (fst (mark_host now cid h)) = hs_executing h"
  "hs_runs (fst (mark_host now cid h)) = hs_runs h" "hs_commands (fst (mark_host now cid h)) = hs_commands h"
  by (simp_all add: mark_host_def case_prod_beta Let_def)

lemma resolve_command_simps [simp]:
  "hs_workers (resolve_command cid st res h) = hs_workers h" "hs_executing (resolve_command cid st res h) = hs_executing h"
  "hs_runs (resolve_command cid st res h) = hs_runs h" "hs_store (resolve_command cid st res h) = hs_store h"
  by (simp_all add: resolve_command_def)

lemma fold_resolve [simp]:
  "hs_workers (fold (\<lambda>c. resolve_command (ce_id c) st res) cs h) = hs_workers h"
  "hs_executing (fold (\<lambda>c. resolve_command (ce_id c) st res) cs h) = hs_executing h"
  "hs_runs (fold (\<lambda>c. resolve_command (ce_id c) st res) cs h) = hs_runs h"
  "hs_store (fold (\<lambda>c. resolve_command (ce_id c) st res) cs h) = hs_store h"
  by (induction cs arbitrary: h) auto

lemma sweep_simps [simp]:
  "hs_workers (sweep skipped h) = hs_workers h" "hs_executing (sweep skipped h) = hs_executing h"
  "hs_runs (sweep skipped h) = hs_runs h" "hs_store (sweep skipped h) = hs_store h"
  by (simp_all add: sweep_def)

lemma settle_simps [simp]:
  "hs_workers (settle r e d h) = hs_workers h" "hs_executing (settle r e d h) = hs_executing h"
  "hs_runs (settle r e d h) = hs_runs h" "hs_store (settle r e d h) = hs_store h"
  by (cases r; cases d; simp)+

lemma write_outcome_simps [simp]:
  "hs_workers (write_outcome r e o' h) = hs_workers h" "hs_executing (write_outcome r e o' h) = hs_executing h"
  "hs_runs (write_outcome r e o' h) = hs_runs h" "hs_store (write_outcome r e o' h) = hs_store h"
  by (cases r; simp)+

lemma release_simps [simp]:
  "hs_workers (release cid h) = hs_workers h" "hs_executing (release cid h) = hs_executing h - {cid}"
  "hs_runs (release cid h) = hs_runs h" "hs_store (release cid h) = hs_store h"
  by (simp_all add: release_def)

lemma pick_unprocessed: "pick skipped h = Some e \<Longrightarrow> \<not> is_processed (hs_store h) (ce_id e)"
  by (auto simp: pick_def dest: find_SomeD)

section \<open>At most once\<close>

text \<open>The command a worker holds the in-memory claim of.\<close>

fun held :: "worker \<Rightarrow> string option" where
  "held (Claimed _ e _) = Some (ce_id e)"
| "held (Marked _ e _) = Some (ce_id e)"
| "held (Running _ e) = Some (ce_id e)"
| "held _ = None"

text \<open>
  What is true of a worker at each point: a drain pass that has not marked its entry yet finds it unprocessed;
  a marked entry is in the ledger and has not run.
\<close>

fun road_ok :: "nat set \<Rightarrow> nat set \<Rightarrow> road \<Rightarrow> nat \<Rightarrow> bool" where
  "road_ok D R Drain w = (w \<in> D)"
| "road_ok D R Relay w = (w \<in> R)"

fun worker_inv :: "nat set \<Rightarrow> nat set \<Rightarrow> host \<Rightarrow> nat \<Rightarrow> worker \<Rightarrow> bool" where
  "worker_inv D R h w Idle = True"
| "worker_inv D R h w (Picked r e d) = (road_ok D R r w \<and> (r = Drain \<longrightarrow> \<not> is_processed (hs_store h) (ce_id e)))"
| "worker_inv D R h w (Claimed r e d) = (road_ok D R r w \<and> (r = Drain \<longrightarrow> \<not> is_processed (hs_store h) (ce_id e)) \<and>
     ce_id e \<in> hs_executing h)"
| "worker_inv D R h w (Marked r e d) = (road_ok D R r w \<and> is_processed (hs_store h) (ce_id e) \<and>
     ce_id e \<notin> set (hs_runs h) \<and> ce_id e \<in> hs_executing h)"
| "worker_inv D R h w (Running r e) = (road_ok D R r w \<and> ce_id e \<in> hs_executing h)"

definition runs_inv :: "host \<Rightarrow> bool" where
  "runs_inv h = (distinct (hs_runs h) \<and> (\<forall>x \<in> set (hs_runs h). is_processed (hs_store h) x))"

definition claims_disjoint :: "(nat \<Rightarrow> worker) \<Rightarrow> bool" where
  "claims_disjoint ws = (\<forall>w w' x. w \<noteq> w' \<longrightarrow> held (ws w) = Some x \<longrightarrow> held (ws w') \<noteq> Some x)"

definition host_inv :: "nat set \<Rightarrow> nat set \<Rightarrow> host \<Rightarrow> bool" where
  "host_inv D R h = (runs_inv h \<and> (\<forall>w. worker_inv D R h w (hs_workers h w)) \<and> claims_disjoint (hs_workers h))"

text \<open>At most one worker drains and nothing is relayed, or nothing drains.\<close>

definition one_road :: "nat set \<Rightarrow> nat set \<Rightarrow> bool" where
  "one_road D R = (D = {} \<or> R = {} \<and> (\<exists>w. D \<subseteq> {w}))"

lemma one_roadD: "one_road D R \<Longrightarrow> w \<in> D \<Longrightarrow> w' \<in> D \<union> R \<Longrightarrow> w' = w"
  by (auto simp: one_road_def)

lemma worker_inv_road: "worker_inv D R h w pc \<Longrightarrow> pc \<noteq> Idle \<Longrightarrow> w \<in> D \<union> R"
proof (cases pc)
  case (Picked r e d)
  assume "worker_inv D R h w pc" then show ?thesis using Picked by (cases r) auto
next
  case (Claimed r e d)
  assume "worker_inv D R h w pc" then show ?thesis using Claimed by (cases r) auto
next
  case (Marked r e d)
  assume "worker_inv D R h w pc" then show ?thesis using Marked by (cases r) auto
next
  case (Running r e)
  assume "worker_inv D R h w pc" then show ?thesis using Running by (cases r) auto
qed simp

lemma worker_inv_held: "worker_inv D R h w pc \<Longrightarrow> held pc = Some x \<Longrightarrow> x \<in> hs_executing h"
  by (cases pc) auto

text \<open>The facts about another worker survive a step that moves the claims, the ledger and the runs a little.\<close>

lemma worker_inv_other:
  assumes "worker_inv D R h w pc"
    and "\<And>x. held pc = Some x \<Longrightarrow> x \<in> hs_executing h'"
    and "\<And>x. is_processed (hs_store h) x \<Longrightarrow> is_processed (hs_store h') x"
    and "\<And>x. w \<in> D \<Longrightarrow> is_processed (hs_store h') x \<Longrightarrow> is_processed (hs_store h) x"
    and "\<And>x. held pc = Some x \<Longrightarrow> x \<in> set (hs_runs h') \<Longrightarrow> x \<in> set (hs_runs h)"
  shows "worker_inv D R h' w pc"
proof (cases pc)
  case (Picked r e d)
  with assms show ?thesis by (cases r) auto
next
  case (Claimed r e d)
  with assms show ?thesis by (cases r) auto
qed (use assms in auto)

lemma host_inv_update:
  assumes "host_inv D R h" "hs_workers h' = (hs_workers h)(w := pc)" "runs_inv h'" "worker_inv D R h' w pc"
    and "\<And>w'. w' \<noteq> w \<Longrightarrow> worker_inv D R h' w' (hs_workers h w')"
    and "\<And>w' x. w' \<noteq> w \<Longrightarrow> held pc = Some x \<Longrightarrow> held (hs_workers h w') \<noteq> Some x"
  shows "host_inv D R h'"
  using assms unfolding host_inv_def claims_disjoint_def by (simp split: if_splits) metis

lemma host_inv_same:
  assumes "host_inv D R h" "hs_workers h' = hs_workers h" "hs_executing h' = hs_executing h" "hs_runs h' = hs_runs h"
    "hs_store h' = hs_store h"
  shows "host_inv D R h'"
proof -
  have "worker_inv D R h' w pc = worker_inv D R h w pc" for w pc by (cases pc) (simp_all add: assms)
  with assms show ?thesis by (simp add: host_inv_def runs_inv_def)
qed

lemma host_invD:
  assumes "host_inv D R h"
  shows "distinct (hs_runs h)" "x \<in> set (hs_runs h) \<Longrightarrow> is_processed (hs_store h) x"
    "worker_inv D R h w (hs_workers h w)"
    "w \<noteq> w' \<Longrightarrow> held (hs_workers h w) = Some y \<Longrightarrow> held (hs_workers h w') \<noteq> Some y"
  using assms unfolding host_inv_def runs_inv_def claims_disjoint_def by blast+

lemma host_inv_release:
  assumes "host_inv D R h" "held (hs_workers h w) = Some cid"
  shows "host_inv D R (set_worker w Idle (release cid h))"
proof (rule host_inv_update [OF assms(1), where w = w and pc = Idle])
  fix w'
  assume "w' \<noteq> w"
  then have "held (hs_workers h w') \<noteq> Some cid" using host_invD(4) [OF assms(1)] assms(2) by metis
  then show "worker_inv D R (set_worker w Idle (release cid h)) w' (hs_workers h w')"
    using worker_inv_held [OF host_invD(3) [OF assms(1)], of w']
    by (intro worker_inv_other [OF host_invD(3) [OF assms(1)]]) auto
qed (use host_invD [OF assms(1)] in \<open>auto simp: runs_inv_def\<close>)

lemma host_inv_pick:
  assumes "host_inv D R h" "worker_inv D R h w pc" "held pc = None"
  shows "host_inv D R (set_worker w pc h)"
proof (rule host_inv_update [OF assms(1), where w = w and pc = pc])
  show "worker_inv D R (set_worker w pc h) w pc"
    using assms by (intro worker_inv_other [OF assms(2)]) auto
  show "worker_inv D R (set_worker w pc h) w' (hs_workers h w')" for w'
    using worker_inv_held [OF host_invD(3) [OF assms(1)], of w']
    by (intro worker_inv_other [OF host_invD(3) [OF assms(1)]]) auto
qed (use assms host_invD [OF assms(1)] in \<open>auto simp: runs_inv_def\<close>)

lemma host_inv_idle: "host_inv D R h \<Longrightarrow> host_inv D R (set_worker w Idle h)"
  by (rule host_inv_pick) simp_all

lemma host_inv_claim:
  assumes "host_inv D R h" "hs_workers h w = Picked r e d" "ce_id e \<notin> hs_executing h"
  shows "host_inv D R (set_worker w (Claimed r e d) (h\<lparr>hs_executing := insert (ce_id e) (hs_executing h)\<rparr>))"
proof (rule host_inv_update [OF assms(1), where w = w and pc = "Claimed r e d"])
  let ?h = "set_worker w (Claimed r e d) (h\<lparr>hs_executing := insert (ce_id e) (hs_executing h)\<rparr>)"
  show "worker_inv D R ?h w (Claimed r e d)" using host_invD(3) [OF assms(1), of w] assms(2) by simp
  show "worker_inv D R ?h w' (hs_workers h w')" for w'
    using worker_inv_held [OF host_invD(3) [OF assms(1)], of w']
    by (intro worker_inv_other [OF host_invD(3) [OF assms(1)]]) auto
  show "held (hs_workers h w') \<noteq> Some x" if "held (Claimed r e d) = Some x" for w' x
    using worker_inv_held [OF host_invD(3) [OF assms(1)], of w' x] that assms(3) by auto
qed (use host_invD [OF assms(1)] in \<open>auto simp: runs_inv_def\<close>)

text \<open>Marking: the ledger grows by an id that is not in it, and no other worker drains.\<close>

lemma host_inv_mark:
  assumes "host_inv D R h" "one_road D R" "hs_workers h w = Claimed r e d" "\<not> is_processed (hs_store h) (ce_id e)"
  shows "host_inv D R (set_worker w (Marked r e d) (fst (mark_host now (ce_id e) h)))"
proof (rule host_inv_update [OF assms(1), where w = w and pc = "Marked r e d"])
  let ?h = "set_worker w (Marked r e d) (fst (mark_host now (ce_id e) h))"
  have w: "w \<in> D \<union> R" using worker_inv_road [OF host_invD(3) [OF assms(1), of w]] assms(3) by simp
  show "worker_inv D R ?h w (Marked r e d)"
    using host_invD(3) [OF assms(1), of w] host_invD(2) [OF assms(1)] assms(3,4) by (auto simp: is_processed_mark)
  show "worker_inv D R ?h w' (hs_workers h w')" if "w' \<noteq> w" for w'
    using worker_inv_held [OF host_invD(3) [OF assms(1)], of w'] one_roadD [OF assms(2), of w' w] w that
    by (intro worker_inv_other [OF host_invD(3) [OF assms(1)]]) (auto simp: is_processed_mark)
  show "held (hs_workers h w') \<noteq> Some x" if "w' \<noteq> w" "held (Marked r e d) = Some x" for w' x
    using host_invD(4) [OF assms(1), of w w' x] that assms(3) by simp
qed (use host_invD [OF assms(1)] in \<open>auto simp: runs_inv_def is_processed_mark\<close>)

lemma host_inv_run:
  assumes "host_inv D R h" "hs_workers h w = Marked r e Execute"
  shows "host_inv D R (set_worker w (Running r e) (h\<lparr>hs_runs := hs_runs h @ [ce_id e]\<rparr>))"
proof (rule host_inv_update [OF assms(1), where w = w and pc = "Running r e"])
  let ?h = "set_worker w (Running r e) (h\<lparr>hs_runs := hs_runs h @ [ce_id e]\<rparr>)"
  have m: "worker_inv D R h w (Marked r e Execute)" using host_invD(3) [OF assms(1), of w] assms(2) by simp
  then show "worker_inv D R ?h w (Running r e)" by simp
  show "runs_inv ?h" using m host_invD(1,2) [OF assms(1)] by (auto simp: runs_inv_def)
  show other: "held (hs_workers h w') \<noteq> Some x" if "w' \<noteq> w" "held (Running r e) = Some x" for w' x
    using host_invD(4) [OF assms(1), of w w' x] that assms(2) by simp
  show "worker_inv D R ?h w' (hs_workers h w')" if "w' \<noteq> w" for w'
    using worker_inv_held [OF host_invD(3) [OF assms(1)], of w'] other [OF that]
    by (intro worker_inv_other [OF host_invD(3) [OF assms(1)]]) auto
qed simp

lemma host_inv_give_up:
  assumes "host_inv D R h" "one_road D R" "w \<in> D" "hs_workers h w = Idle"
  shows "host_inv D R (fst (mark_host now cid h))"
proof (rule host_inv_update [OF assms(1), where w = w and pc = Idle])
  show "worker_inv D R (fst (mark_host now cid h)) w' (hs_workers h w')" if "w' \<noteq> w" for w'
    using worker_inv_held [OF host_invD(3) [OF assms(1)], of w'] one_roadD [OF assms(2,3), of w'] that
    by (intro worker_inv_other [OF host_invD(3) [OF assms(1)]]) (auto simp: is_processed_mark)
qed (use host_invD [OF assms(1)] assms(4) in \<open>auto simp: runs_inv_def is_processed_mark\<close>)

lemma host_step_inv:
  assumes "host_step D R missing h h'" "host_inv D R h" "one_road D R"
  shows "host_inv D R h'"
  using assms
proof (induction rule: host_step.induct)
  case (do_sweep w h skipped)
  then show ?case by (auto intro: host_inv_same)
next
  case (do_pick w h skipped e now d)
  then show ?case by (intro host_inv_pick) (auto dest: pick_unprocessed)
next
  case (do_give_up w h skipped e now)
  from host_inv_give_up [OF do_give_up.prems do_give_up.hyps(1,2)]
  show ?case by (rule host_inv_same) simp_all
next
  case (do_relay w h e d now)
  then show ?case by (intro host_inv_pick) auto
next
  case (do_claim h w road e d)
  then show ?case by (intro host_inv_claim)
next
  case (do_mark_drain h w e d now)
  then show ?case using host_invD(3) [of D R h w] by (intro host_inv_mark) auto
next
  case (do_mark_relay h w e d now h')
  then show ?case using host_inv_mark [of D R h w Relay e d now] mark_host_fresh [of now "ce_id e" h h' True] by simp
next
  case (do_mark_duplicate h w e d now h')
  then have "\<not> False \<longleftrightarrow> is_processed (hs_store h) (ce_id e)" using mark_host_fresh by blast
  with do_mark_duplicate have "h' = h"
    by (auto simp: mark_host_def mark_processed_def claim_row_def is_processed_def Let_def)
  with do_mark_duplicate host_inv_release [of D R h w "ce_id e"] show ?case by simp
next
  case (do_settle h w road e d)
  then have "host_inv D R (settle road e d h)" by (auto intro: host_inv_same)
  from host_inv_release [OF this, of w "ce_id e"] do_settle show ?case by simp
next
  case (do_finish h w road e outcome)
  have "host_inv D R (write_outcome road e outcome h)" by (rule host_inv_same [OF do_finish(2)]) simp_all
  from host_inv_release [OF this, of w "ce_id e"] do_finish show ?case by simp
next
  case (do_crash h)
  have "runs_inv (h\<lparr>hs_executing := {}, hs_workers := (\<lambda>_. Idle)\<rparr>)"
    using do_crash(1) by (simp add: host_inv_def runs_inv_def)
  then show ?case by (simp add: host_inv_def claims_disjoint_def)
next
  case (do_claim_lost h w road e d)
  then show ?case by (intro host_inv_idle)
next
  case (do_run h w road e)
  then show ?case by (intro host_inv_run)
next
  case (do_queue h e)
  show ?case by (rule host_inv_same [OF do_queue(1)]) simp_all
next
  case (do_message h m)
  show ?case by (rule host_inv_same [OF do_message(1)]) simp_all
qed

lemma host_reachable_inv:
  assumes "host_reachable D R missing h0 h" "one_road D R" "host_inv D R h0"
  shows "host_inv D R h"
  using assms by (induction rule: host_reachable.induct) (auto intro: host_step_inv)

lemma host_inv_new: "host_inv D R (new_host st es)"
  by (simp add: host_inv_def runs_inv_def claims_disjoint_def new_host_def)

section \<open>Properties\<close>

text \<open>A store, a command, and the states of the interleaving below.\<close>

definition empty_store :: docs_store where
  "empty_store = \<lparr>st_snapshots = [], st_processed = []\<rparr>"

definition sample_command :: command_entry where
  "sample_command = \<lparr>ce_id = ''c1'', ce_payload = Steer ''go'' None, ce_issued_by = ''d1'', ce_issued_at = 5,
     ce_based_on = None, ce_expires_at = None, ce_status = Pending, ce_resolution = None\<rparr>"

definition sample_context :: eval_context where
  "sample_context = \<lparr>cx_is_processed = (\<lambda>_. False), cx_now_ms = 9,
     cx_entries = [sample_command, sample_command\<lparr>ce_id := ''c2''\<rparr>], cx_current_turn_id = None, cx_turn_is_past = (\<lambda>_. False)\<rparr>"

definition run_worker :: "nat \<Rightarrow> host \<Rightarrow> host" where
  "run_worker w h =
     set_worker w Idle (release ''c1'' (write_outcome Drain sample_command (Applied, None)
       (set_worker w (Running Drain sample_command)
         ((set_worker w (Marked Drain sample_command Execute)
            (fst (mark_host 7 ''c1'' (set_worker w (Claimed Drain sample_command Execute)
              (h\<lparr>hs_executing := insert ''c1'' (hs_executing h)\<rparr>)))))\<lparr>hs_runs := hs_runs h @ [''c1'']\<rparr>))))"

text \<open>
  C12. At most once: a host that drains with one worker, or one that takes relayed commands with any number
  of workers, starts no command twice, through any interleaving, crashes and restarts included, and every
  command it started is in the processed ledger.
\<close>

theorem commands_run_at_most_once:
  assumes "D = {} \<or> R = {} \<and> (\<exists>w. D \<subseteq> {w})" "host_reachable D R missing (new_host st es) h"
  shows "distinct (hs_runs h) \<and> list_all (is_processed (hs_store h)) (hs_runs h)"
  using host_reachable_inv [OF assms(2)] host_inv_new assms(1)
  by (simp add: one_road_def host_inv_def runs_inv_def list_all_iff)

lemma pick_sample:
  assumes "hs_workers h w = Idle" "hs_commands h = [sample_command]" "\<not> is_processed (hs_store h) ''c1''" "w \<in> D"
  shows "host_step D R (\<lambda>_. False) h (set_worker w (Picked Drain sample_command Execute) h)"
  using assms
  by (intro do_pick [where skipped = "{}" and now = 7])
     (auto simp: pick_def attachment_gate_def evaluate_command_def host_context_def sample_command_def effective_expiry_def
       command_default_ttl_ms_def)

lemma run_sample:
  assumes "host_reachable D R (\<lambda>_. False) h0 h" "hs_workers h w = Picked Drain sample_command Execute" "''c1'' \<notin> hs_executing h"
  shows "host_reachable D R (\<lambda>_. False) h0 (run_worker w h)"
proof -
  let ?e = sample_command
  let ?h1 = "set_worker w (Claimed Drain ?e Execute) (h\<lparr>hs_executing := insert ''c1'' (hs_executing h)\<rparr>)"
  let ?h2 = "set_worker w (Marked Drain ?e Execute) (fst (mark_host 7 ''c1'' ?h1))"
  let ?h3 = "set_worker w (Running Drain ?e) (?h2\<lparr>hs_runs := hs_runs ?h2 @ [''c1'']\<rparr>)"
  have cid: "ce_id ?e = ''c1''" by (simp add: sample_command_def)
  have "host_reachable D R (\<lambda>_. False) h0 ?h1"
    using host_next [OF assms(1) do_claim [OF assms(2)]] assms(3) by (simp add: cid)
  then have "host_reachable D R (\<lambda>_. False) h0 ?h2"
    using host_next do_mark_drain [of ?h1 w ?e Execute] by (fastforce simp: cid)
  then have "host_reachable D R (\<lambda>_. False) h0 ?h3"
    using host_next do_run [of ?h2 w Drain ?e] by (fastforce simp: cid)
  then have "host_reachable D R (\<lambda>_. False) h0 (set_worker w Idle (release (ce_id ?e) (write_outcome Drain ?e (Applied, None) ?h3)))"
    using host_next do_finish [of ?h3 w Drain ?e] by fastforce
  then show ?thesis by (simp add: run_worker_def cid)
qed

theorem commands_run_at_most_once_witness:
  "let h = run_worker 0 (set_worker 0 (Picked Drain sample_command Execute) (new_host empty_store [sample_command]))
   in hs_runs h = [''c1''] \<and> distinct (hs_runs h)"
proof -
  let ?h0 = "new_host empty_store [sample_command]"
  have "host_reachable {0} {} (\<lambda>_. False) ?h0 (set_worker 0 (Picked Drain sample_command Execute) ?h0)"
    by (rule host_next [OF host_start pick_sample])
       (simp_all add: new_host_def empty_store_def is_processed_def bt_contains_def)
  then have "host_reachable {0} {} (\<lambda>_. False) ?h0
      (run_worker 0 (set_worker 0 (Picked Drain sample_command Execute) ?h0))"
    by (rule run_sample) (simp_all add: new_host_def)
  from commands_run_at_most_once [OF _ this] show ?thesis
    by (auto simp: run_worker_def new_host_def Let_def)
qed

text \<open>
  Two drain passes can run one command twice: both pick and evaluate it before either claims it; the
  first claims, marks, runs and releases it; the second then finds the in-memory claim free, marks the ledger
  (whose answer that the command is already processed is ignored) and runs it again.
\<close>

theorem racing_drains_run_twice:
  "\<exists>h. host_reachable {0, 1} {} (\<lambda>_. False) (new_host empty_store [sample_command]) h \<and> hs_runs h = [''c1'', ''c1'']"
proof -
  let ?h0 = "new_host empty_store [sample_command]"
  let ?h1 = "set_worker 0 (Picked Drain sample_command Execute) ?h0"
  let ?h2 = "set_worker 1 (Picked Drain sample_command Execute) ?h1"
  have "host_reachable {0, 1} {} (\<lambda>_. False) ?h0 ?h1"
    by (rule host_next [OF host_start pick_sample])
       (simp_all add: new_host_def empty_store_def is_processed_def bt_contains_def)
  then have "host_reachable {0, 1} {} (\<lambda>_. False) ?h0 ?h2"
    by (rule host_next [OF _ pick_sample])
       (simp_all add: new_host_def empty_store_def is_processed_def bt_contains_def)
  then have "host_reachable {0, 1} {} (\<lambda>_. False) ?h0 (run_worker 0 ?h2)"
    by (rule run_sample) (simp_all add: new_host_def)
  then have "host_reachable {0, 1} {} (\<lambda>_. False) ?h0 (run_worker 1 (run_worker 0 ?h2))"
    by (rule run_sample) (simp_all add: new_host_def run_worker_def)
  moreover have "hs_runs (run_worker 1 (run_worker 0 ?h2)) = [''c1'', ''c1'']"
    by (simp add: run_worker_def new_host_def)
  ultimately show ?thesis by blast
qed

text \<open>
  When a command is executed: exactly when the ledger does not have it, it has not expired, no newer
  pending command of its kind supersedes it (steers and interrupts only), and, for an interrupt aimed at a
  turn, that turn is still the current one or is not over.
\<close>

theorem evaluate_command_execute:
  "evaluate_command e cx = Execute \<longleftrightarrow>
     \<not> cx_is_processed cx (ce_id e) \<and> cx_now_ms cx < effective_expiry e \<and>
     \<not> (entry_kind e \<in> {KSteer, KInterrupt} \<and>
        (\<exists>o' \<in> set (cx_entries cx). ce_id o' \<noteq> ce_id e \<and> entry_kind o' = entry_kind e \<and> ce_status o' = Pending \<and>
           ce_issued_at e < ce_issued_at o')) \<and>
     \<not> (entry_kind e = KInterrupt \<and>
        (\<exists>b t. ce_based_on e = Some b \<and> bo_turn_id b = Some t \<and> cx_current_turn_id cx \<noteq> Some t \<and> cx_turn_is_past cx t))"
  by (auto simp: evaluate_command_def Let_def list_ex_iff split: option.splits)

text \<open>
  The newest steer wins: of the pending steers a host evaluates against one list of entries, all that
  are executed were issued at the same instant; every older one is expired or superseded.
\<close>

theorem newest_steer_wins:
  assumes "a \<in> set (cx_entries cx)" "b \<in> set (cx_entries cx)" "ce_status a = Pending" "ce_status b = Pending"
    and "entry_kind a = entry_kind b" "entry_kind a = KSteer \<or> entry_kind a = KInterrupt"
    and "evaluate_command a cx = Execute" "evaluate_command b cx = Execute" "ce_id a \<noteq> ce_id b"
  shows "ce_issued_at a = ce_issued_at b"
proof -
  have "\<not> ce_issued_at a < ce_issued_at b" "\<not> ce_issued_at b < ce_issued_at a"
    using assms by (auto simp: evaluate_command_def Let_def list_ex_iff split: if_splits)
  then show ?thesis by simp
qed

theorem newest_steer_wins_witness:
  "ce_issued_at sample_command = ce_issued_at (sample_command\<lparr>ce_id := ''c2''\<rparr>)"
  by (rule newest_steer_wins [where cx = sample_context])
     (simp_all add: sample_context_def sample_command_def evaluate_command_def entry_kind_def effective_expiry_def
       command_default_ttl_ms_def)

text \<open>
  A snapshot saved with its cursor and epoch is loaded with exactly these, for every 64-bit cursor and
  32-bit epoch, whatever else is in the store.
\<close>

theorem snapshot_cursor_roundtrip:
  assumes "cursor < 2 ^ 64" "epoch < 2 ^ 32"
  shows "load_snapshot_with_cursor (save_snapshot_with_cursor doc bytes cursor epoch st) doc = Some (bytes, cursor, epoch)"
proof -
  have "u64_as_i64 cursor mod 2 ^ 64 = int cursor" using assms(1) by (simp add: u64_as_i64_def)
  moreover have "int epoch mod 2 ^ 32 = int epoch" using assms(2) by simp
  ultimately show ?thesis
    by (simp add: load_snapshot_with_cursor_def save_snapshot_with_cursor_def i64_as_unsigned_def)
qed

theorem snapshot_cursor_roundtrip_witness:
  "load_snapshot_with_cursor (save_snapshot_with_cursor ''chat'' [1, 2] 7 2 empty_store) ''chat'' = Some ([1, 2], 7, 2)"
  by (rule snapshot_cursor_roundtrip) simp_all

text \<open>
  A plain save keeps a stale cursor: a snapshot saved without a cursor over one that had a cursor is
  loaded with the new bytes and the old cursor and epoch, not with the zeros promised for such rows.
\<close>

theorem plain_save_keeps_cursor:
  assumes "cursor < 2 ^ 64" "epoch < 2 ^ 32"
  shows "load_snapshot_with_cursor (save_snapshot doc new (save_snapshot_with_cursor doc old cursor epoch st)) doc =
    Some (new, cursor, epoch)"
proof -
  have "u64_as_i64 cursor mod 2 ^ 64 = int cursor" using assms(1) by (simp add: u64_as_i64_def)
  moreover have "int epoch mod 2 ^ 32 = int epoch" using assms(2) by simp
  ultimately show ?thesis
    by (simp add: load_snapshot_with_cursor_def save_snapshot_with_cursor_def save_snapshot_def i64_as_unsigned_def)
qed

theorem plain_save_keeps_cursor_witness:
  "load_snapshot_with_cursor (save_snapshot ''chat'' [3] (save_snapshot_with_cursor ''chat'' [1, 2] 7 2 empty_store)) ''chat'' =
     Some ([3], 7, 2)"
  by (rule plain_save_keeps_cursor) simp_all

lemma import_rows_get:
  "bt_get (fst (import_rows rows m n)) cid = (case bt_get m cid of Some t \<Rightarrow> Some t | None \<Rightarrow> map_of rows cid)"
proof (induction rows arbitrary: m n)
  case (Cons row rows)
  obtain i t where row: "row = (i, t)" by (cases row)
  show ?case using Cons.IH [of m n] Cons.IH [of "bt_insert i t m" "n + 1"]
    by (cases "bt_get m i") (auto simp: row claim_row_def bt_contains_def split: option.splits)
qed (simp split: option.split)

text \<open>
  Importing a foreign ledger: afterwards exactly the old and the imported ids are processed, claims that
  existed keep their time, and the first imported claim of an id counts.
\<close>

theorem import_keeps_claims:
  "bt_get (st_processed (fst (import_processed_commands rows st))) cid =
     (case bt_get (st_processed st) cid of Some t \<Rightarrow> Some t | None \<Rightarrow> map_of rows cid)"
  by (simp add: import_processed_commands_def case_prod_beta Let_def import_rows_get)

end
