(* ===== verification/Session_Doc.thy ===== *)
theory Session_Doc
  imports Transcript_Delta Commands
begin

text \<open>
  The session document (\<open>crates/doc/src/schema.rs\<close>): how message entries are written to and read from its
  containers, the salvage of malformed entries, in-place updates by id, the streaming segment writer with the
  code that drives it (\<open>sync_segment\<close> and \<open>finish_segment\<close> of \<open>crates/engine/src/sessions.rs\<close>), the join of
  continuations and the tail, and the rebuild of a thin document (\<open>crates/doc/src/rebuild.rs\<close>).
  A document is what one replica holds: its containers are the maps, lists and texts Loro documents them to be, and
  importing the operations of other replicas is Loro's. The numbers stored are in the range of \<open>i64\<close>, so a JSON
  value is stored as itself. A salvaged entry without an id is named by a hash of its serialised value, whose hex digits
  are the parameter \<open>hash_hex\<close>. Entries and parts are read in their object form (the array form serde also accepts
  is never written). An operation that fails returns the error; commits are not modelled.
\<close>

section \<open>Containers\<close>

datatype node =
    Val json
  | TextC string
  | MapC "(string \<times> node) list"
  | ListC "node list"

text \<open>\<open>get_deep_value().to_json_value()\<close>.\<close>

fun deep :: "node \<Rightarrow> json" where
  "deep (Val j) = j"
| "deep (TextC s) = JStr s"
| "deep (MapC m) = JObj (map (\<lambda>(k, n). (k, deep n)) m)"
| "deep (ListC ns) = JArr (map deep ns)"

record session_doc =
  sd_meta :: "(string, json) btree"
  sd_messages :: "node list"
  sd_commands :: "command_entry list"

datatype doc_failure = SchemaError string | JsonError

text \<open>\<open>insert\<close> of an optional field: written when present.\<close>

definition put :: "string \<Rightarrow> node option \<Rightarrow> (string, node) btree \<Rightarrow> (string, node) btree" where
  "put k v m = (case v of None \<Rightarrow> m | Some n \<Rightarrow> bt_insert k n m)"

abbreviation vstr :: "string \<Rightarrow> node" where "vstr s \<equiv> Val (JStr s)"

section \<open>Parts in the document\<close>

record doc_part =
  dp_id :: string
  dp_kind :: string
  dp_text :: "string option"
  dp_call :: "json option"
  dp_is_error :: "bool option"
  dp_questions :: "json option"
  dp_resolved :: "bool option"
  dp_message :: "string option"
  dp_output :: "string option"
  dp_diff :: "json option"
  dp_output_ref :: "string option"
  dp_output_bytes :: "nat option"
  dp_diff_ref :: "string option"
  dp_diff_stats :: "json option"
  dp_subagent_ref :: "string option"
  dp_subagent_status :: "string option"
  dp_subagent_tail :: "string option"

definition empty_part :: doc_part where
  "empty_part = \<lparr>dp_id = [], dp_kind = [], dp_text = None, dp_call = None, dp_is_error = None, dp_questions = None,
     dp_resolved = None, dp_message = None, dp_output = None, dp_diff = None, dp_output_ref = None,
     dp_output_bytes = None, dp_diff_ref = None, dp_diff_stats = None, dp_subagent_ref = None,
     dp_subagent_status = None, dp_subagent_tail = None\<rparr>"

fun subagent_str :: "subagent_status \<Rightarrow> string" where
  "subagent_str SubRunning = ''running''"
| "subagent_str SubDone = ''done''"
| "subagent_str SubFailed = ''failed''"

definition parse_subagent :: "string \<Rightarrow> subagent_status option" where
  "parse_subagent s = (if s = ''running'' then Some SubRunning else if s = ''done'' then Some SubDone
     else if s = ''failed'' then Some SubFailed else None)"

fun to_doc_part :: "message_part \<Rightarrow> doc_part" where
  "to_doc_part (Text i s) = empty_part\<lparr>dp_id := i, dp_kind := ''text'', dp_text := Some s\<rparr>"
| "to_doc_part (Tool t) = empty_part\<lparr>dp_id := tp_id t, dp_kind := ''tool'', dp_call := Some (call_to_value (tp_call t)),
     dp_is_error := (if tp_resolved t then Some (tp_is_error t) else None), dp_output := tp_output t,
     dp_diff := map_option diff_to_value (tp_diff t), dp_output_ref := tp_output_ref t,
     dp_output_bytes := tp_output_bytes t, dp_diff_ref := tp_diff_ref t,
     dp_diff_stats := map_option (\<lambda>s. JArr (map stat_to_value s)) (tp_diff_stats t),
     dp_subagent_ref := tp_subagent_ref t, dp_subagent_status := map_option subagent_str (tp_subagent_status t),
     dp_subagent_tail := tp_subagent_tail t\<rparr>"
| "to_doc_part (Input i r qs b) = empty_part\<lparr>dp_id := r, dp_kind := ''input'',
     dp_questions := Some (JArr (map question_to_value qs)), dp_resolved := Some b\<rparr>"
| "to_doc_part (ErrorPart i e) = empty_part\<lparr>dp_id := i, dp_kind := ''error'', dp_message := Some e\<rparr>"

definition from_doc_part :: "doc_part \<Rightarrow> message_part" where
  "from_doc_part p =
     (if dp_kind p = ''tool'' then
        (case Option.bind (dp_call p) parse_call of
           Some call \<Rightarrow> Tool \<lparr>tp_id = dp_id p, tp_call = call, tp_is_error = (dp_is_error p = Some True),
             tp_resolved = (dp_is_error p \<noteq> None), tp_output = dp_output p,
             tp_diff = Option.bind (dp_diff p) parse_diff, tp_output_ref = dp_output_ref p,
             tp_output_bytes = dp_output_bytes p, tp_diff_ref = dp_diff_ref p,
             tp_diff_stats = Option.bind (dp_diff_stats p) (as_list parse_stat),
             tp_subagent_ref = dp_subagent_ref p,
             tp_subagent_status = Option.bind (dp_subagent_status p) parse_subagent,
             tp_subagent_tail = dp_subagent_tail p\<rparr>
         | None \<Rightarrow> Text (dp_id p) [])
      else if dp_kind p = ''input'' then
        Input (dp_id p) (dp_id p)
          (case Option.bind (dp_questions p) (as_list parse_question) of Some qs \<Rightarrow> qs | None \<Rightarrow> [])
          (dp_resolved p = Some True)
      else if dp_kind p = ''error'' then
        ErrorPart (dp_id p) (case dp_message p of Some e \<Rightarrow> e | None \<Rightarrow> [])
      else Text (dp_id p) (case dp_text p of Some s \<Rightarrow> s | None \<Rightarrow> []))"

text \<open>The fields both writers of a part map put, in their order; \<open>as i64\<close> on the byte count.\<close>

definition put_fields :: "doc_part \<Rightarrow> (string, node) btree \<Rightarrow> (string, node) btree" where
  "put_fields d m =
     put ''subagentTail'' (map_option vstr (dp_subagent_tail d)) (
     put ''subagentStatus'' (map_option vstr (dp_subagent_status d)) (
     put ''subagentRef'' (map_option vstr (dp_subagent_ref d)) (
     put ''diffStats'' (map_option Val (dp_diff_stats d)) (
     put ''diffRef'' (map_option vstr (dp_diff_ref d)) (
     put ''outputBytes'' (map_option (\<lambda>n. Val (JNum (u64_as_i64 n))) (dp_output_bytes d)) (
     put ''outputRef'' (map_option vstr (dp_output_ref d)) (
     put ''diff'' (map_option Val (dp_diff d)) (
     put ''output'' (map_option vstr (dp_output d)) (
     put ''message'' (map_option vstr (dp_message d)) (
     put ''resolved'' (map_option (\<lambda>b. Val (JBool b)) (dp_resolved d)) (
     put ''questions'' (map_option Val (dp_questions d)) (
     put ''isError'' (map_option (\<lambda>b. Val (JBool b)) (dp_is_error d)) (
     put ''call'' (map_option Val (dp_call d)) m)))))))))))))"

text \<open>\<open>push_part\<close>: the map of a new part; its text is a text container.\<close>

definition part_map :: "message_part \<Rightarrow> (string, node) btree" where
  "part_map p = (let d = to_doc_part p in
     put_fields d (put ''text'' (map_option TextC (dp_text d))
       (bt_insert ''kind'' (vstr (dp_kind d)) (bt_insert ''id'' (vstr (dp_id d)) []))))"

definition push_part :: "message_part \<Rightarrow> node list \<Rightarrow> node list" where
  "push_part p parts = parts @ [MapC (part_map p)]"

definition update_part_fields :: "message_part \<Rightarrow> (string, node) btree \<Rightarrow> (string, node) btree" where
  "update_part_fields p m =
     (let d = to_doc_part p; m' = put_fields d m
      in case (dp_text d, bt_get m' ''text'') of
           (Some s, Some (TextC _)) \<Rightarrow> bt_insert ''text'' (TextC s) m'
         | _ \<Rightarrow> m')"

section \<open>Entries in the document\<close>

fun role_str :: "message_role \<Rightarrow> string" where
  "role_str User = ''user''"
| "role_str Assistant = ''assistant''"
| "role_str System = ''system''"

fun message_status_str :: "message_status \<Rightarrow> string" where
  "message_status_str Streaming = ''streaming''"
| "message_status_str Complete = ''complete''"
| "message_status_str Aborted = ''aborted''"

definition write_entry_scalar_fields :: "message_entry \<Rightarrow> (string, node) btree \<Rightarrow> (string, node) btree" where
  "write_entry_scalar_fields e m =
     put ''continuationOf'' (map_option vstr (me_continuation_of e)) (
     put ''status'' (map_option (\<lambda>s. vstr (message_status_str s)) (me_status e)) (
     bt_insert ''deviceId'' (vstr (me_device_id e)) (
     bt_insert ''createdAt'' (Val (JNum (me_created_at e))) (
     bt_insert ''role'' (vstr (role_str (me_role e))) (
     bt_insert ''id'' (vstr (me_id e)) m)))))"

definition init_doc :: "string \<Rightarrow> session_doc" where
  "init_doc chat = \<lparr>sd_meta = bt_insert ''schemaVersion'' (JNum 1) (bt_insert ''chatId'' (JStr chat) []),
     sd_messages = [], sd_commands = []\<rparr>"

definition doc_chat_id :: "session_doc \<Rightarrow> string option" where
  "doc_chat_id d = Option.bind (bt_get (sd_meta d) ''chatId'') as_str"

definition push_message :: "message_entry \<Rightarrow> session_doc \<Rightarrow> session_doc" where
  "push_message e d = d\<lparr>sd_messages := sd_messages d @
     [MapC (bt_insert ''parts'' (ListC (fold push_part (me_parts e) [])) (write_entry_scalar_fields e []))]\<rparr>"

section \<open>Reading entries\<close>

definition parse_role :: "json \<Rightarrow> message_role option" where
  "parse_role = parse_variant role_str [User, Assistant, System]"

definition parse_message_status :: "json \<Rightarrow> message_status option" where
  "parse_message_status = parse_variant message_status_str [Streaming, Complete, Aborted]"

fun parse_doc_part :: "json \<Rightarrow> doc_part option" where
  "parse_doc_part (JObj fs) = do {
     i \<leftarrow> req as_str fs ''id'';
     kind \<leftarrow> req as_str fs ''kind'';
     s \<leftarrow> opt as_str fs ''text'';
     call \<leftarrow> opt Some fs ''call'';
     is_error \<leftarrow> opt as_bool fs ''isError'';
     questions \<leftarrow> opt Some fs ''questions'';
     resolved \<leftarrow> opt as_bool fs ''resolved'';
     message \<leftarrow> opt as_str fs ''message'';
     outp \<leftarrow> opt as_str fs ''output'';
     diff \<leftarrow> opt Some fs ''diff'';
     output_ref \<leftarrow> opt as_str fs ''outputRef'';
     output_bytes \<leftarrow> opt (as_uint 64) fs ''outputBytes'';
     diff_ref \<leftarrow> opt as_str fs ''diffRef'';
     diff_stats \<leftarrow> opt Some fs ''diffStats'';
     sref \<leftarrow> opt as_str fs ''subagentRef'';
     sstatus \<leftarrow> opt as_str fs ''subagentStatus'';
     stail \<leftarrow> opt as_str fs ''subagentTail'';
     Some \<lparr>dp_id = i, dp_kind = kind, dp_text = s, dp_call = call, dp_is_error = is_error, dp_questions = questions,
       dp_resolved = resolved, dp_message = message, dp_output = outp, dp_diff = diff, dp_output_ref = output_ref,
       dp_output_bytes = output_bytes, dp_diff_ref = diff_ref, dp_diff_stats = diff_stats, dp_subagent_ref = sref,
       dp_subagent_status = sstatus, dp_subagent_tail = stail\<rparr> }"
| "parse_doc_part _ = None"

fun parse_entry :: "json \<Rightarrow> message_entry option" where
  "parse_entry (JObj fs) = do {
     i \<leftarrow> req as_str fs ''id'';
     role \<leftarrow> req parse_role fs ''role'';
     parts \<leftarrow> dflt [] (as_list parse_doc_part) fs ''parts'';
     created \<leftarrow> req as_i64 fs ''createdAt'';
     dev \<leftarrow> req as_str fs ''deviceId'';
     status \<leftarrow> opt parse_message_status fs ''status'';
     cont \<leftarrow> opt as_str fs ''continuationOf'';
     Some \<lparr>me_id = i, me_role = role, me_parts = map from_doc_part parts, me_created_at = created,
       me_device_id = dev, me_status = status, me_continuation_of = cont\<rparr> }"
| "parse_entry _ = None"

text \<open>Salvage: a field of the wrong shape reads as absent.\<close>

definition lax :: "(json \<Rightarrow> 'a option) \<Rightarrow> (string, json) btree \<Rightarrow> string \<Rightarrow> 'a option" where
  "lax p fs k = Option.bind (bt_get fs k) p"

fun salvage_part :: "json \<Rightarrow> string \<Rightarrow> nat \<Rightarrow> message_part option" where
  "salvage_part (JObj fs) entry_id ix =
     (let i = (case lax as_str fs ''id'' of Some i \<Rightarrow> i | None \<Rightarrow> entry_id @ ''#recovered-'' @ show_nat ix)
      in case lax as_str fs ''text'' of
           Some s \<Rightarrow> Some (Text i s)
         | None \<Rightarrow> (case lax parse_call fs ''call'' of
             Some call \<Rightarrow> Some (Tool ((new_tool i call)\<lparr>
               tp_is_error := (lax as_bool fs ''isError'' = Some True),
               tp_resolved := (lax as_bool fs ''resolved'' \<noteq> Some False),
               tp_output := lax as_str fs ''output''\<rparr>))
           | None \<Rightarrow> map_option (ErrorPart i) (lax as_str fs ''message'')))"
| "salvage_part _ entry_id ix = None"

fun salvage_parts :: "string \<Rightarrow> nat \<Rightarrow> json list \<Rightarrow> message_part list" where
  "salvage_parts entry_id ix [] = []"
| "salvage_parts entry_id ix (j # js) =
     (case parse_doc_part j of
        Some p \<Rightarrow> from_doc_part p # salvage_parts entry_id (ix + 1) js
      | None \<Rightarrow> (case salvage_part j entry_id ix of
           Some p \<Rightarrow> p # salvage_parts entry_id (ix + 1) js
         | None \<Rightarrow> salvage_parts entry_id (ix + 1) js))"

fun as_arr :: "json \<Rightarrow> json list option" where
  "as_arr (JArr js) = Some js"
| "as_arr _ = None"

fun salvage_entry :: "(json \<Rightarrow> string) \<Rightarrow> json \<Rightarrow> message_entry option" where
  "salvage_entry hash_hex (JObj fs) =
     (let i = (case lax as_str fs ''id'' of Some i \<Rightarrow> i | None \<Rightarrow> ''recovered-'' @ hash_hex (JObj fs))
      in Some \<lparr>me_id = i,
        me_role = (case lax parse_role fs ''role'' of Some r \<Rightarrow> r | None \<Rightarrow> Assistant),
        me_parts = (case lax as_arr fs ''parts'' of Some js \<Rightarrow> salvage_parts i 0 js | None \<Rightarrow> []),
        me_created_at = (case lax as_i64 fs ''createdAt'' of Some n \<Rightarrow> n | None \<Rightarrow> 0),
        me_device_id = (case lax as_str fs ''deviceId'' of Some s \<Rightarrow> s | None \<Rightarrow> []),
        me_status = lax parse_message_status fs ''status'',
        me_continuation_of = lax as_str fs ''continuationOf''\<rparr>)"
| "salvage_entry hash_hex _ = None"

definition entry_from_json :: "(json \<Rightarrow> string) \<Rightarrow> json \<Rightarrow> message_entry option" where
  "entry_from_json hash_hex v = (case parse_entry v of Some e \<Rightarrow> Some e | None \<Rightarrow> salvage_entry hash_hex v)"

definition read_entries :: "(json \<Rightarrow> string) \<Rightarrow> session_doc \<Rightarrow> message_entry list" where
  "read_entries hash_hex d = List.map_filter (\<lambda>n. entry_from_json hash_hex (deep n)) (sd_messages d)"

section \<open>Updates by id\<close>

text \<open>The first element the update applies to is replaced.\<close>

fun update_first :: "('a \<Rightarrow> 'a option) \<Rightarrow> 'a list \<Rightarrow> 'a list option" where
  "update_first f [] = None"
| "update_first f (x # xs) = (case f x of Some y \<Rightarrow> Some (y # xs) | None \<Rightarrow> map_option ((#) x) (update_first f xs))"

fun map_at :: "node \<Rightarrow> (string, node) btree option" where
  "map_at (MapC m) = Some m"
| "map_at _ = None"

fun list_at :: "node \<Rightarrow> node list option" where
  "list_at (ListC ns) = Some ns"
| "list_at _ = None"

definition field_is :: "(string, node) btree \<Rightarrow> string \<Rightarrow> string \<Rightarrow> bool" where
  "field_is m k s = (bt_get m k = Some (vstr s))"

definition parts_of :: "(string, node) btree \<Rightarrow> node list option" where
  "parts_of m = Option.bind (bt_get m ''parts'') list_at"

definition set_messages :: "session_doc \<Rightarrow> node list option \<Rightarrow> session_doc \<times> bool" where
  "set_messages d r = (case r of None \<Rightarrow> (d, False) | Some ns \<Rightarrow> (d\<lparr>sd_messages := ns\<rparr>, True))"

definition set_message_status :: "string \<Rightarrow> message_status \<Rightarrow> session_doc \<Rightarrow> session_doc \<times> bool" where
  "set_message_status mid status d = set_messages d (update_first (\<lambda>n. do {
     m \<leftarrow> map_at n;
     if field_is m ''id'' mid then Some (MapC (bt_insert ''status'' (vstr (message_status_str status)) m)) else None })
     (sd_messages d))"

definition append_error_part :: "string \<Rightarrow> string \<Rightarrow> string \<Rightarrow> session_doc \<Rightarrow> session_doc \<times> bool" where
  "append_error_part mid pid message d = set_messages d (update_first (\<lambda>n. do {
     m \<leftarrow> map_at n;
     if field_is m ''id'' mid then do {
       parts \<leftarrow> parts_of m;
       if list_ex (\<lambda>p. case map_at p of None \<Rightarrow> False | Some pm \<Rightarrow> field_is pm ''id'' pid) parts then Some n
       else Some (MapC (bt_insert ''parts'' (ListC (push_part (ErrorPart pid message) parts)) m)) }
     else None }) (sd_messages d))"

text \<open>The first part of an entry the update applies to.\<close>

definition on_part :: "((string, node) btree \<Rightarrow> (string, node) btree option) \<Rightarrow> node \<Rightarrow> node option" where
  "on_part f n = do {
     m \<leftarrow> map_at n;
     parts \<leftarrow> parts_of m;
     parts' \<leftarrow> update_first (\<lambda>p. do { pm \<leftarrow> map_at p; pm' \<leftarrow> f pm; Some (MapC pm') }) parts;
     Some (MapC (bt_insert ''parts'' (ListC parts') m)) }"

definition resolve_input :: "string \<Rightarrow> session_doc \<Rightarrow> session_doc \<times> bool" where
  "resolve_input rid d = set_messages d (update_first (on_part (\<lambda>pm.
     if field_is pm ''kind'' ''input'' \<and> field_is pm ''id'' rid
     then Some (bt_insert ''resolved'' (Val (JBool True)) pm) else None)) (sd_messages d))"

text \<open>\<open>update_subagent_chip\<close> searches from the newest entry back.\<close>

definition update_subagent_chip ::
    "string \<Rightarrow> string option \<Rightarrow> string option \<Rightarrow> string option \<Rightarrow> session_doc \<Rightarrow> session_doc \<times> bool" where
  "update_subagent_chip pid sref status tail d = set_messages d (map_option rev (update_first (on_part (\<lambda>pm.
     if field_is pm ''kind'' ''tool'' \<and> field_is pm ''id'' pid
     then Some (put ''subagentTail'' (map_option vstr tail) (put ''subagentStatus'' (map_option vstr status)
            (put ''subagentRef'' (map_option vstr sref) pm)))
     else None)) (rev (sd_messages d))))"

section \<open>Continuations and the tail\<close>

text \<open>\<open>roots\<close> maps a root id to its position in \<open>out\<close>.\<close>

fun join_loop :: "(string, nat) btree \<Rightarrow> message_entry list \<Rightarrow> message_entry list \<Rightarrow> message_entry list" where
  "join_loop roots out [] = out"
| "join_loop roots out (e # es) =
     (case me_continuation_of e of
        Some root \<Rightarrow> (case bt_get roots root of
            Some at \<Rightarrow> join_loop roots (out[at := (out ! at)\<lparr>me_parts := me_parts (out ! at) @ me_parts e\<rparr>]) es
          | None \<Rightarrow> join_loop roots (out @ [e]) es)
      | None \<Rightarrow> join_loop (bt_insert (me_id e) (length out) roots) (out @ [e]) es)"

definition join_continuation_entries :: "message_entry list \<Rightarrow> message_entry list" where
  "join_continuation_entries es =
     (if \<not> list_ex (\<lambda>e. me_continuation_of e \<noteq> None) es then es else join_loop [] [] es)"

definition tail_message_count :: nat where "tail_message_count = 64"

record session_tail =
  tl_chat_id :: string
  tl_schema_version :: nat
  tl_messages :: "message_entry list"
  tl_total_messages :: nat
  tl_updated_at :: int

definition materialize_tail :: "(json \<Rightarrow> string) \<Rightarrow> session_doc \<Rightarrow> int \<Rightarrow> nat \<Rightarrow> session_tail" where
  "materialize_tail hash_hex d now tail_count =
     (let all = join_continuation_entries (read_entries hash_hex d);
          start = length all - (if tail_count = 0 then tail_message_count else tail_count)
      in \<lparr>tl_chat_id = (case doc_chat_id d of Some c \<Rightarrow> c | None \<Rightarrow> []), tl_schema_version = 1,
          tl_messages = drop start all, tl_total_messages = length all, tl_updated_at = now\<rparr>)"

section \<open>The segment writer\<close>

record segment_writer =
  sw_entry_index :: nat
  sw_written :: "message_part list"

definition writer_begin :: "string \<Rightarrow> string \<Rightarrow> int \<Rightarrow> session_doc \<Rightarrow> session_doc \<times> segment_writer" where
  "writer_begin entry_id device_id created_at d =
     (d\<lparr>sd_messages := sd_messages d @ [MapC (bt_insert ''parts'' (ListC []) (write_entry_scalar_fields
          \<lparr>me_id = entry_id, me_role = Assistant, me_parts = [], me_created_at = created_at, me_device_id = device_id,
           me_status = Some Streaming, me_continuation_of = None\<rparr> []))]\<rparr>,
      \<lparr>sw_entry_index = length (sd_messages d), sw_written = []\<rparr>)"

definition entry_map :: "segment_writer \<Rightarrow> session_doc \<Rightarrow> doc_failure + (string, node) btree" where
  "entry_map w d =
     (case (if sw_entry_index w < length (sd_messages d) then map_at (sd_messages d ! sw_entry_index w) else None) of
        Some m \<Rightarrow> Inr m | None \<Rightarrow> Inl (SchemaError ''streaming entry map missing''))"

definition parts_list :: "segment_writer \<Rightarrow> session_doc \<Rightarrow> doc_failure + node list" where
  "parts_list w d =
     (case entry_map w d of
        Inl err \<Rightarrow> Inl err
      | Inr m \<Rightarrow> (case parts_of m of Some ns \<Rightarrow> Inr ns | None \<Rightarrow> Inl (SchemaError ''streaming entry parts list missing'')))"

definition part_map_at :: "node list \<Rightarrow> nat \<Rightarrow> doc_failure + (string, node) btree" where
  "part_map_at parts i =
     (case (if i < length parts then map_at (parts ! i) else None) of
        Some m \<Rightarrow> Inr m | None \<Rightarrow> Inl (SchemaError (''part map missing at '' @ show_nat i)))"

text \<open>The suffix goes to the end of the text container.\<close>

definition append_part_text :: "nat \<Rightarrow> string \<Rightarrow> node list \<Rightarrow> doc_failure + node list" where
  "append_part_text i delta parts =
     (if delta = [] then Inr parts
      else case part_map_at parts i of
        Inl err \<Rightarrow> Inl err
      | Inr m \<Rightarrow> (case bt_get m ''text'' of
          Some (TextC s) \<Rightarrow> Inr (parts[i := MapC (bt_insert ''text'' (TextC (s @ delta)) m)])
        | _ \<Rightarrow> Inl (SchemaError ''text part missing LoroText'')))"

definition rewrite_part :: "nat \<Rightarrow> message_part \<Rightarrow> node list \<Rightarrow> doc_failure + node list" where
  "rewrite_part i p parts =
     (case part_map_at parts i of Inl err \<Rightarrow> Inl err | Inr m \<Rightarrow> Inr (parts[i := MapC (update_part_fields p m)]))"

text \<open>One part of the folded segment against what was written at its position.\<close>

definition sync_part ::
    "nat \<Rightarrow> message_part \<Rightarrow> node list \<times> message_part list \<Rightarrow> doc_failure + (node list \<times> message_part list)" where
  "sync_part i p s =
     (case s of (parts, written) \<Rightarrow>
        if length written \<le> i then Inr (push_part p parts, written @ [p])
        else let prev = written ! i in
          if prev = p then Inr (parts, written)
          else map_sum id (\<lambda>parts'. (parts', written[i := p]))
            (case (prev, p) of
               (Text _ old, Text _ new) \<Rightarrow>
                 if prefix old new then append_part_text i (drop (length old) new) parts else rewrite_part i p parts
             | _ \<Rightarrow> rewrite_part i p parts))"

fun sync_parts ::
    "nat \<Rightarrow> message_part list \<Rightarrow> node list \<times> message_part list \<Rightarrow> doc_failure + (node list \<times> message_part list)" where
  "sync_parts i [] s = Inr s"
| "sync_parts i (p # ps) s = (case sync_part i p s of Inl err \<Rightarrow> Inl err | Inr s' \<Rightarrow> sync_parts (i + 1) ps s')"

definition set_entry :: "nat \<Rightarrow> (string, node) btree \<Rightarrow> session_doc \<Rightarrow> session_doc" where
  "set_entry i m d = d\<lparr>sd_messages := (sd_messages d)[i := MapC m]\<rparr>"

definition writer_sync ::
    "message_part list \<Rightarrow> segment_writer \<Rightarrow> session_doc \<Rightarrow> doc_failure + (session_doc \<times> segment_writer)" where
  "writer_sync folded w d =
     (case entry_map w d of
        Inl err \<Rightarrow> Inl err
      | Inr m \<Rightarrow> (case parts_list w d of
          Inl err \<Rightarrow> Inl err
        | Inr parts \<Rightarrow> (case sync_parts 0 folded (parts, sw_written w) of
            Inl err \<Rightarrow> Inl err
          | Inr (parts', written') \<Rightarrow>
              Inr (set_entry (sw_entry_index w) (bt_insert ''parts'' (ListC parts') m) d, w\<lparr>sw_written := written'\<rparr>))))"

definition writer_finish ::
    "message_part list \<Rightarrow> message_status \<Rightarrow> segment_writer \<Rightarrow> session_doc \<Rightarrow> doc_failure + session_doc" where
  "writer_finish folded status w d =
     (case writer_sync folded w d of
        Inl err \<Rightarrow> Inl err
      | Inr (d', w') \<Rightarrow> (case entry_map w' d' of
          Inl err \<Rightarrow> Inl err
        | Inr m \<Rightarrow> Inr (set_entry (sw_entry_index w') (bt_insert ''status'' (vstr (message_status_str status)) m) d')))"

text \<open>\<open>sync_segment\<close> and \<open>finish_segment\<close>: the writer is created when there is something to write.\<close>

definition sync_segment :: "string \<Rightarrow> string \<Rightarrow> int \<Rightarrow> message_part list \<Rightarrow> session_doc \<times> segment_writer option \<Rightarrow>
    doc_failure + (session_doc \<times> segment_writer option)" where
  "sync_segment entry_id device_id started_at folded s =
     (case s of (d, writer) \<Rightarrow>
        if folded = [] then Inr (d, writer)
        else let (d', w) = (case writer of None \<Rightarrow> writer_begin entry_id device_id started_at d | Some w \<Rightarrow> (d, w))
             in map_sum id (\<lambda>(d'', w'). (d'', Some w')) (writer_sync (render_parts folded) w d'))"

definition finish_segment :: "string \<Rightarrow> string \<Rightarrow> int \<Rightarrow> message_part list \<Rightarrow> message_status \<Rightarrow>
    session_doc \<times> segment_writer option \<Rightarrow> doc_failure + session_doc" where
  "finish_segment entry_id device_id started_at folded status s =
     (case s of
        (d, Some w) \<Rightarrow> writer_finish (render_parts folded) status w d
      | (d, None) \<Rightarrow>
          if folded \<noteq> []
          then let (d', w) = writer_begin entry_id device_id started_at d in writer_finish (render_parts folded) status w d'
          else Inr d)"

section \<open>The thin rebuild\<close>

definition thin_doc_epoch :: nat where "thin_doc_epoch = 2"

definition doc_epoch :: "session_doc \<Rightarrow> nat" where
  "doc_epoch d = (case bt_get (sd_meta d) ''epoch'' of Some (JNum n) \<Rightarrow> nat (max n 0 mod 2 ^ 32) | _ \<Rightarrow> 0)"

record thin_rebuild =
  tr_doc :: session_doc
  tr_sidecar :: "sidecar_payload list"
  tr_entries :: nat
  tr_commands_copied :: nat

definition strip_output :: "string \<Rightarrow> tool_part \<Rightarrow> tool_part \<times> string option" where
  "strip_output chat t =
     (case (tp_output_ref t, tp_output t) of
        (None, Some full) \<Rightarrow>
          if trim full = [] then (t\<lparr>tp_output := None\<rparr>, None)
          else (t\<lparr>tp_output := summarize_tool_output full, tp_output_bytes := Some (length full),
                  tp_output_ref := Some (chat @ ''/'' @ tp_id t)\<rparr>, Some full)
      | _ \<Rightarrow> (t, None))"

definition strip_diff ::
    "(string \<Rightarrow> string \<Rightarrow> change_tag list) \<Rightarrow> string \<Rightarrow> tool_part \<Rightarrow> tool_part \<times> tool_diff option" where
  "strip_diff ld chat t =
     (case tp_diff t of
        None \<Rightarrow> (t, None)
      | Some full \<Rightarrow> (t\<lparr>tp_diff := None, tp_diff_stats := Some [diff_stat ld full],
          tp_diff_ref := (case tp_diff_ref t of None \<Rightarrow> Some (chat @ ''/'' @ tp_id t @ ''.diff'') | Some r \<Rightarrow> Some r)\<rparr>,
          Some full))"

fun strip_part :: "(string \<Rightarrow> string \<Rightarrow> change_tag list) \<Rightarrow> string \<Rightarrow> message_part \<Rightarrow> message_part \<times> sidecar_payload option" where
  "strip_part ld chat (Tool t) =
     (let (t1, output) = strip_output chat t; (t2, diff) = strip_diff ld chat t1
      in (Tool t2, if output = None \<and> diff = None then None
                   else Some \<lparr>sp_part_id = tp_id t, sp_output = output, sp_diff = diff\<rparr>))"
| "strip_part ld chat p = (p, None)"

definition strip_entry :: "(string \<Rightarrow> string \<Rightarrow> change_tag list) \<Rightarrow> string \<Rightarrow> message_entry \<Rightarrow> message_entry" where
  "strip_entry ld chat e = e\<lparr>me_parts := map (\<lambda>p. fst (strip_part ld chat p)) (me_parts e)\<rparr>"

definition rebuild_thin_doc ::
    "(json \<Rightarrow> string) \<Rightarrow> (string \<Rightarrow> string \<Rightarrow> change_tag list) \<Rightarrow> session_doc \<Rightarrow> doc_failure + thin_rebuild" where
  "rebuild_thin_doc hash_hex ld source =
     (case doc_chat_id source of
        None \<Rightarrow> Inl (SchemaError ''source doc has no chatId'')
      | Some chat \<Rightarrow>
          let d0 = init_doc chat;
              thin = d0\<lparr>sd_meta := bt_insert ''epoch'' (JNum (int thin_doc_epoch)) (sd_meta d0)\<rparr>;
              entries = read_entries hash_hex source;
              d1 = fold (\<lambda>e. push_message (strip_entry ld chat e)) entries thin;
              pending = filter (\<lambda>c. ce_status c = Pending) (sd_commands source);
              d2 = fold (\<lambda>c d. d\<lparr>sd_commands := queue_command c (sd_commands d)\<rparr>) pending d1
          in Inr \<lparr>tr_doc = d2,
               tr_sidecar = concat (map (\<lambda>e. List.map_filter (\<lambda>p. snd (strip_part ld chat p)) (me_parts e)) entries),
               tr_entries = length entries, tr_commands_copied = length pending\<rparr>)"

section \<open>What a part map holds\<close>

definition or_else :: "'a option \<Rightarrow> 'a option \<Rightarrow> 'a option" where
  "or_else a b = (if a = None then b else a)"

lemma or_else_None [simp]: "or_else a None = a"
  by (simp add: or_else_def)

lemma or_else_kept: "(b \<noteq> None \<longrightarrow> a \<noteq> None) \<Longrightarrow> or_else (map_option f a) (map_option f b) = map_option f a"
  by (auto simp: or_else_def)

lemma bt_get_put [simp]: "bt_get (put k v m) k' = (if k' = k then or_else v (bt_get m k) else bt_get m k')"
  by (cases v) (simp_all add: put_def or_else_def)

lemma put_fields_get:
  "bt_get (put_fields d m) ''id'' = bt_get m ''id''" "bt_get (put_fields d m) ''kind'' = bt_get m ''kind''"
  "bt_get (put_fields d m) ''text'' = bt_get m ''text''"
  "bt_get (put_fields d m) ''call'' = or_else (map_option Val (dp_call d)) (bt_get m ''call'')"
  "bt_get (put_fields d m) ''isError'' = or_else (map_option (\<lambda>b. Val (JBool b)) (dp_is_error d)) (bt_get m ''isError'')"
  "bt_get (put_fields d m) ''questions'' = or_else (map_option Val (dp_questions d)) (bt_get m ''questions'')"
  "bt_get (put_fields d m) ''resolved'' = or_else (map_option (\<lambda>b. Val (JBool b)) (dp_resolved d)) (bt_get m ''resolved'')"
  "bt_get (put_fields d m) ''message'' = or_else (map_option vstr (dp_message d)) (bt_get m ''message'')"
  "bt_get (put_fields d m) ''output'' = or_else (map_option vstr (dp_output d)) (bt_get m ''output'')"
  "bt_get (put_fields d m) ''diff'' = or_else (map_option Val (dp_diff d)) (bt_get m ''diff'')"
  "bt_get (put_fields d m) ''outputRef'' = or_else (map_option vstr (dp_output_ref d)) (bt_get m ''outputRef'')"
  "bt_get (put_fields d m) ''outputBytes'' =
     or_else (map_option (\<lambda>n. Val (JNum (u64_as_i64 n))) (dp_output_bytes d)) (bt_get m ''outputBytes'')"
  "bt_get (put_fields d m) ''diffRef'' = or_else (map_option vstr (dp_diff_ref d)) (bt_get m ''diffRef'')"
  "bt_get (put_fields d m) ''diffStats'' = or_else (map_option Val (dp_diff_stats d)) (bt_get m ''diffStats'')"
  "bt_get (put_fields d m) ''subagentRef'' = or_else (map_option vstr (dp_subagent_ref d)) (bt_get m ''subagentRef'')"
  "bt_get (put_fields d m) ''subagentStatus'' = or_else (map_option vstr (dp_subagent_status d)) (bt_get m ''subagentStatus'')"
  "bt_get (put_fields d m) ''subagentTail'' = or_else (map_option vstr (dp_subagent_tail d)) (bt_get m ''subagentTail'')"
  by (simp_all add: put_fields_def)

lemma bt_get_deep: "bt_get (map (\<lambda>(k, n). (k, deep n)) m) k = map_option deep (bt_get m k)"
  by (simp add: bt_get_def map_of_map)

definition part_holds :: "(string, node) btree \<Rightarrow> doc_part \<Rightarrow> bool" where
  "part_holds m d \<longleftrightarrow> bt_get m ''id'' = Some (vstr (dp_id d)) \<and> bt_get m ''kind'' = Some (vstr (dp_kind d)) \<and>
     bt_get m ''text'' = map_option TextC (dp_text d) \<and> bt_get m ''call'' = map_option Val (dp_call d) \<and>
     bt_get m ''isError'' = map_option (\<lambda>b. Val (JBool b)) (dp_is_error d) \<and>
     bt_get m ''questions'' = map_option Val (dp_questions d) \<and>
     bt_get m ''resolved'' = map_option (\<lambda>b. Val (JBool b)) (dp_resolved d) \<and>
     bt_get m ''message'' = map_option vstr (dp_message d) \<and> bt_get m ''output'' = map_option vstr (dp_output d) \<and>
     bt_get m ''diff'' = map_option Val (dp_diff d) \<and> bt_get m ''outputRef'' = map_option vstr (dp_output_ref d) \<and>
     bt_get m ''outputBytes'' = map_option (\<lambda>n. Val (JNum (u64_as_i64 n))) (dp_output_bytes d) \<and>
     bt_get m ''diffRef'' = map_option vstr (dp_diff_ref d) \<and> bt_get m ''diffStats'' = map_option Val (dp_diff_stats d) \<and>
     bt_get m ''subagentRef'' = map_option vstr (dp_subagent_ref d) \<and>
     bt_get m ''subagentStatus'' = map_option vstr (dp_subagent_status d) \<and>
     bt_get m ''subagentTail'' = map_option vstr (dp_subagent_tail d)"

text \<open>What the Rust types guarantee: lengths and counts below \<open>2^63\<close>, no JSON null inside an option.\<close>

definition stat_typed :: "tool_diff_stat \<Rightarrow> bool" where
  "stat_typed s = (ds_additions s < 2 ^ 63 \<and> ds_deletions s < 2 ^ 63)"

fun part_typed :: "message_part \<Rightarrow> bool" where
  "part_typed (Tool t) = (call_typed (tp_call t) \<and> pred_option (\<lambda>n. n < 2 ^ 63) (tp_output_bytes t) \<and>
     pred_option (list_all stat_typed) (tp_diff_stats t))"
| "part_typed _ = True"

definition entry_typed :: "message_entry \<Rightarrow> bool" where
  "entry_typed e = (i64 (me_created_at e) \<and> list_all part_typed (me_parts e))"

text \<open>What a part reads back as: an input part is named by its request, an unresolved call has not failed.\<close>

fun canon_part :: "message_part \<Rightarrow> message_part" where
  "canon_part (Tool t) = Tool (t\<lparr>tp_is_error := tp_is_error t \<and> tp_resolved t\<rparr>)"
| "canon_part (Input i r qs b) = Input r r qs b"
| "canon_part p = p"

definition canon_entry :: "message_entry \<Rightarrow> message_entry" where
  "canon_entry e = e\<lparr>me_parts := map canon_part (me_parts e)\<rparr>"

definition doc_part_typed :: "doc_part \<Rightarrow> bool" where
  "doc_part_typed d = (dp_call d \<noteq> Some JNull \<and> dp_questions d \<noteq> Some JNull \<and> dp_diff d \<noteq> Some JNull \<and>
     dp_diff_stats d \<noteq> Some JNull \<and> pred_option (\<lambda>n. n < 2 ^ 63) (dp_output_bytes d))"

lemma to_doc_part_typed: "part_typed p \<Longrightarrow> doc_part_typed (to_doc_part p)"
  by (cases p) (auto simp: doc_part_typed_def empty_part_def call_to_value_def diff_to_value_def)

lemma is_null_iff: "is_null j \<longleftrightarrow> j = JNull"
  by (cases j) auto

lemma opt_of_held:
  "opt Some (map (\<lambda>(k, n). (k, deep n)) m) k = Some v" if "bt_get m k = map_option Val v" "v \<noteq> Some JNull"
  using that by (cases v) (auto simp: opt_def bt_get_deep opt_of_def is_null_iff)

lemma opt_str_held:
  "opt as_str (map (\<lambda>(k, n). (k, deep n)) m) k = Some v" if "bt_get m k = map_option vstr v \<or> bt_get m k = map_option TextC v"
  using that by (cases v) (auto simp: opt_def bt_get_deep opt_of_def)

lemma opt_bool_held:
  "opt as_bool (map (\<lambda>(k, n). (k, deep n)) m) k = Some v" if "bt_get m k = map_option (\<lambda>b. Val (JBool b)) v"
  using that by (cases v) (auto simp: opt_def bt_get_deep opt_of_def)

lemma opt_u64_held:
  "opt (as_uint 64) (map (\<lambda>(k, n). (k, deep n)) m) k = Some v"
  if "bt_get m k = map_option (\<lambda>n. Val (JNum (u64_as_i64 n))) v" "pred_option (\<lambda>n. n < 2 ^ 63) v"
proof (cases v)
  case (Some n)
  then have "n < 2 ^ 63" using that(2) by simp
  then show ?thesis using that Some by (simp add: opt_def bt_get_deep opt_of_def u64_as_i64_def)
qed (use that in \<open>simp add: opt_def bt_get_deep\<close>)

lemma req_str_held: "req as_str (map (\<lambda>(k, n). (k, deep n)) m) k = Some s" if "bt_get m k = Some (vstr s)"
  using that by (simp add: req_def bt_get_deep)

lemma parse_held:
  assumes "part_holds m d" "doc_part_typed d"
  shows "parse_doc_part (deep (MapC m)) = Some d"
proof -
  note h = assms(1) [unfolded part_holds_def] and ty = assms(2) [unfolded doc_part_typed_def]
  have r: "req as_str (map (\<lambda>(k, n). (k, deep n)) m) ''id'' = Some (dp_id d)"
    "req as_str (map (\<lambda>(k, n). (k, deep n)) m) ''kind'' = Some (dp_kind d)"
    using h by (auto intro: req_str_held)
  have o: "opt as_str (map (\<lambda>(k, n). (k, deep n)) m) ''text'' = Some (dp_text d)"
    "opt as_str (map (\<lambda>(k, n). (k, deep n)) m) ''message'' = Some (dp_message d)"
    "opt as_str (map (\<lambda>(k, n). (k, deep n)) m) ''output'' = Some (dp_output d)"
    "opt as_str (map (\<lambda>(k, n). (k, deep n)) m) ''outputRef'' = Some (dp_output_ref d)"
    "opt as_str (map (\<lambda>(k, n). (k, deep n)) m) ''diffRef'' = Some (dp_diff_ref d)"
    "opt as_str (map (\<lambda>(k, n). (k, deep n)) m) ''subagentRef'' = Some (dp_subagent_ref d)"
    "opt as_str (map (\<lambda>(k, n). (k, deep n)) m) ''subagentStatus'' = Some (dp_subagent_status d)"
    "opt as_str (map (\<lambda>(k, n). (k, deep n)) m) ''subagentTail'' = Some (dp_subagent_tail d)"
    using h by (auto intro: opt_str_held)
  have j: "opt Some (map (\<lambda>(k, n). (k, deep n)) m) ''call'' = Some (dp_call d)"
    "opt Some (map (\<lambda>(k, n). (k, deep n)) m) ''questions'' = Some (dp_questions d)"
    "opt Some (map (\<lambda>(k, n). (k, deep n)) m) ''diff'' = Some (dp_diff d)"
    "opt Some (map (\<lambda>(k, n). (k, deep n)) m) ''diffStats'' = Some (dp_diff_stats d)"
    using h ty by (auto intro: opt_of_held)
  have b: "opt as_bool (map (\<lambda>(k, n). (k, deep n)) m) ''isError'' = Some (dp_is_error d)"
    "opt as_bool (map (\<lambda>(k, n). (k, deep n)) m) ''resolved'' = Some (dp_resolved d)"
    "opt (as_uint 64) (map (\<lambda>(k, n). (k, deep n)) m) ''outputBytes'' = Some (dp_output_bytes d)"
    using h ty by (auto intro: opt_bool_held opt_u64_held)
  show ?thesis by (simp add: r o j b)
qed

lemma part_map_holds: "part_holds (part_map p) (to_doc_part p)"
  by (simp add: part_holds_def part_map_def put_fields_get Let_def bt_get_Cons)

lemma parse_subagent_str [simp]: "parse_subagent (subagent_str s) = Some s"
  by (cases s) (simp_all add: parse_subagent_def)

lemma as_list_map: "(\<And>x. x \<in> set xs \<Longrightarrow> p (f x) = Some x) \<Longrightarrow> as_list p (JArr (map f xs)) = Some xs"
  by (simp add: o_def those_map_inverse)

lemma parse_stats: "list_all stat_typed ss \<Longrightarrow> as_list parse_stat (JArr (map stat_to_value ss)) = Some ss"
  by (rule as_list_map, rule parse_stat_to_value) (auto simp: list_all_iff stat_typed_def)

lemma parse_questions: "as_list parse_question (JArr (map question_to_value qs)) = Some qs"
  by (rule as_list_map) simp

lemma from_to_doc_part: "part_typed p \<Longrightarrow> from_doc_part (to_doc_part p) = canon_part p"
proof (cases p)
  case (Tool tp)
  moreover assume "part_typed p"
  ultimately show ?thesis
    by (cases "tp_diff_stats tp"; cases "tp_diff tp"; cases "tp_subagent_status tp")
       (simp_all add: from_doc_part_def empty_part_def parse_call_to_value parse_stats del: as_list.simps)
qed (simp_all add: from_doc_part_def empty_part_def parse_questions del: as_list.simps)

section \<open>What an entry map holds\<close>

definition holds_parts :: "node list \<Rightarrow> message_part list \<Rightarrow> bool" where
  "holds_parts ns ps = list_all2 (\<lambda>n p. \<exists>m. n = MapC m \<and> part_holds m (to_doc_part p)) ns ps"

definition entry_holds :: "(string, node) btree \<Rightarrow> message_entry \<Rightarrow> bool" where
  "entry_holds m e \<longleftrightarrow> bt_get m ''id'' = Some (vstr (me_id e)) \<and> bt_get m ''role'' = Some (vstr (role_str (me_role e))) \<and>
     bt_get m ''createdAt'' = Some (Val (JNum (me_created_at e))) \<and> bt_get m ''deviceId'' = Some (vstr (me_device_id e)) \<and>
     bt_get m ''status'' = map_option (\<lambda>s. vstr (message_status_str s)) (me_status e) \<and>
     bt_get m ''continuationOf'' = map_option vstr (me_continuation_of e) \<and>
     (\<exists>ns. bt_get m ''parts'' = Some (ListC ns) \<and> holds_parts ns (me_parts e))"

lemma fold_push_part: "fold push_part ps ns = ns @ map (\<lambda>p. MapC (part_map p)) ps"
  by (induction ps arbitrary: ns) (auto simp: push_part_def)

lemma holds_parts_written: "holds_parts (map (\<lambda>p. MapC (part_map p)) ps) ps"
  by (auto simp: holds_parts_def list_all2_conv_all_nth part_map_holds)

lemma parse_role_str [simp]: "parse_role (JStr (role_str r)) = Some r"
  by (cases r) (simp_all add: parse_role_def parse_variant_def)

lemma parse_message_status_str [simp]: "parse_message_status (JStr (message_status_str s)) = Some s"
  by (cases s) (simp_all add: parse_message_status_def parse_variant_def)

lemma parse_parts_held:
  "holds_parts ns ps \<Longrightarrow> list_all part_typed ps \<Longrightarrow>
     map_option (map from_doc_part) (those (map (\<lambda>n. parse_doc_part (deep n)) ns)) = Some (map canon_part ps)"
  unfolding holds_parts_def
proof (induction ns ps rule: list_all2_induct)
  case (Cons n ns p ps)
  then have "parse_doc_part (deep n) = Some (to_doc_part p)" using parse_held to_doc_part_typed by auto
  then show ?case using Cons from_to_doc_part by (auto simp: option.map_comp)
qed simp

lemma parse_entry_held:
  assumes "entry_holds m e" "entry_typed e"
  shows "parse_entry (deep (MapC m)) = Some (canon_entry e)"
proof -
  let ?fs = "map (\<lambda>(k, n). (k, deep n)) m"
  note h = assms(1) [unfolded entry_holds_def] and ty = assms(2) [unfolded entry_typed_def]
  obtain ns where ns: "bt_get m ''parts'' = Some (ListC ns)" "holds_parts ns (me_parts e)" using h by blast
  have "map_option (map from_doc_part) (those (map (\<lambda>n. parse_doc_part (deep n)) ns)) = Some (map canon_part (me_parts e))"
    using parse_parts_held [OF ns(2)] ty by blast
  then obtain ps where ps: "those (map (\<lambda>n. parse_doc_part (deep n)) ns) = Some ps" "map from_doc_part ps = map canon_part (me_parts e)"
    by auto
  have "dflt [] (as_list parse_doc_part) ?fs ''parts'' = Some ps"
    using ns ps by (simp add: dflt_def bt_get_deep o_def)
  moreover have "req parse_role ?fs ''role'' = Some (me_role e)" "req as_i64 ?fs ''createdAt'' = Some (me_created_at e)"
    using h ty by (simp_all add: req_def bt_get_deep as_i64_JNum del: as_i64.simps)
  moreover have "opt parse_message_status ?fs ''status'' = Some (me_status e)"
    using h by (cases "me_status e") (simp_all add: opt_def bt_get_deep opt_of_def)
  moreover have "req as_str ?fs ''id'' = Some (me_id e)" "req as_str ?fs ''deviceId'' = Some (me_device_id e)"
    "opt as_str ?fs ''continuationOf'' = Some (me_continuation_of e)"
    using h by (auto intro: req_str_held opt_str_held)
  ultimately show ?thesis using ps by (simp add: canon_entry_def)
qed

lemma entry_from_json_held: "entry_holds m e \<Longrightarrow> entry_typed e \<Longrightarrow> entry_from_json h (deep (MapC m)) = Some (canon_entry e)"
  using parse_entry_held by (simp add: entry_from_json_def)

lemma write_entry_holds:
  "holds_parts ns (me_parts e) \<Longrightarrow> entry_holds (bt_insert ''parts'' (ListC ns) (write_entry_scalar_fields e [])) e"
  by (simp add: entry_holds_def write_entry_scalar_fields_def bt_get_Cons)

lemma read_entries_snoc:
  "entry_holds m e \<Longrightarrow> entry_typed e \<Longrightarrow>
   read_entries h (d\<lparr>sd_messages := ns @ [MapC m]\<rparr>) = read_entries h (d\<lparr>sd_messages := ns\<rparr>) @ [canon_entry e]"
  using entry_from_json_held [of m e h] by (simp add: read_entries_def map_filter_append List.map_filter_def del: deep.simps)

lemma read_push_message:
  "entry_typed e \<Longrightarrow> read_entries h (push_message e d) = read_entries h d @ [canon_entry e]"
  using read_entries_snoc [OF write_entry_holds [OF holds_parts_written], of e h "sd_messages d" d]
  by (simp add: push_message_def fold_push_part)

section \<open>The writer follows the fold\<close>

definition fields_kept :: "doc_part \<Rightarrow> doc_part \<Rightarrow> bool" where
  "fields_kept d d' \<longleftrightarrow> dp_id d = dp_id d' \<and> dp_kind d = dp_kind d' \<and> dp_text d = dp_text d' \<and>
     (dp_call d \<noteq> None \<longrightarrow> dp_call d' \<noteq> None) \<and> (dp_is_error d \<noteq> None \<longrightarrow> dp_is_error d' \<noteq> None) \<and>
     (dp_questions d \<noteq> None \<longrightarrow> dp_questions d' \<noteq> None) \<and> (dp_resolved d \<noteq> None \<longrightarrow> dp_resolved d' \<noteq> None) \<and>
     (dp_message d \<noteq> None \<longrightarrow> dp_message d' \<noteq> None) \<and> (dp_output d \<noteq> None \<longrightarrow> dp_output d' \<noteq> None) \<and>
     (dp_diff d \<noteq> None \<longrightarrow> dp_diff d' \<noteq> None) \<and> (dp_output_ref d \<noteq> None \<longrightarrow> dp_output_ref d' \<noteq> None) \<and>
     (dp_output_bytes d \<noteq> None \<longrightarrow> dp_output_bytes d' \<noteq> None) \<and> (dp_diff_ref d \<noteq> None \<longrightarrow> dp_diff_ref d' \<noteq> None) \<and>
     (dp_diff_stats d \<noteq> None \<longrightarrow> dp_diff_stats d' \<noteq> None) \<and> (dp_subagent_ref d \<noteq> None \<longrightarrow> dp_subagent_ref d' \<noteq> None) \<and>
     (dp_subagent_status d \<noteq> None \<longrightarrow> dp_subagent_status d' \<noteq> None) \<and>
     (dp_subagent_tail d \<noteq> None \<longrightarrow> dp_subagent_tail d' \<noteq> None)"

lemma put_fields_holds: "part_holds m d \<Longrightarrow> fields_kept d d' \<Longrightarrow> part_holds (put_fields d' m) d'"
  by (simp add: part_holds_def fields_kept_def put_fields_get or_else_kept)

text \<open>A step of a part the writer can follow: text grows at its end, other parts only gain fields.\<close>

fun part_step :: "message_part \<Rightarrow> message_part \<Rightarrow> bool" where
  "part_step (Text i a) (Text j b) = (i = j \<and> prefix a b)"
| "part_step p q = (text_of p = None \<and> text_of q = None \<and> fields_kept (to_doc_part p) (to_doc_part q))"

lemma part_step_refl [simp]: "part_step p p"
  by (cases p) (auto simp: fields_kept_def)

lemma part_step_other: "text_of p = None \<Longrightarrow> part_step p q \<longleftrightarrow> text_of q = None \<and> fields_kept (to_doc_part p) (to_doc_part q)"
  by (cases p; cases q) auto

lemma fields_kept_trans: "fields_kept a b \<Longrightarrow> fields_kept b c \<Longrightarrow> fields_kept a c"
  by (simp add: fields_kept_def)

lemma part_step_trans: "part_step p q \<Longrightarrow> part_step q r \<Longrightarrow> part_step p r"
proof (cases "text_of p")
  case None
  moreover assume pq: "part_step p q" and qr: "part_step q r"
  ultimately have q: "text_of q = None" "fields_kept (to_doc_part p) (to_doc_part q)" by (simp_all add: part_step_other)
  then have "text_of r = None" "fields_kept (to_doc_part q) (to_doc_part r)" using qr by (simp_all add: part_step_other)
  then show ?thesis using None q fields_kept_trans by (simp add: part_step_other)
next
  case (Some a)
  moreover assume "part_step p q" "part_step q r"
  ultimately show ?thesis by (cases p; cases q; cases r) (auto intro: prefix_order.trans)
qed

lemma dp_text_other: "text_of p = None \<Longrightarrow> dp_text (to_doc_part p) = None"
  by (cases p) (auto simp: empty_part_def)

lemma update_part_fields_holds:
  "part_holds m (to_doc_part p) \<Longrightarrow> text_of p = None \<Longrightarrow> part_step p q \<Longrightarrow> part_holds (update_part_fields q m) (to_doc_part q)"
  using put_fields_holds [of m "to_doc_part p" "to_doc_part q"]
  by (simp add: part_step_other update_part_fields_def Let_def dp_text_other)

lemma holds_parts_length: "holds_parts ns ps \<Longrightarrow> length ns = length ps"
  by (auto simp: holds_parts_def dest: list_all2_lengthD)

lemma holds_parts_nth: "holds_parts ns ps \<Longrightarrow> i < length ps \<Longrightarrow> \<exists>m. ns ! i = MapC m \<and> part_holds m (to_doc_part (ps ! i))"
  by (auto simp: holds_parts_def list_all2_conv_all_nth)

lemma holds_parts_update:
  "holds_parts ns ps \<Longrightarrow> part_holds m (to_doc_part p) \<Longrightarrow> holds_parts (ns[i := MapC m]) (ps[i := p])"
  unfolding holds_parts_def by (rule list_all2_update_cong) auto

lemma holds_parts_snoc: "holds_parts ns ps \<Longrightarrow> holds_parts (push_part p ns) (ps @ [p])"
  by (auto simp: holds_parts_def push_part_def part_map_holds intro: list_all2_appendI)

lemma append_part_text_holds:
  assumes "holds_parts ns ps" "i < length ps" "ps ! i = Text j a" "prefix a b"
  shows "\<exists>ns'. append_part_text i (drop (length a) b) ns = Inr ns' \<and> holds_parts ns' (ps[i := Text j b])"
proof -
  obtain m where m: "ns ! i = MapC m" "part_holds m (to_doc_part (Text j a))"
    using holds_parts_nth [OF assms(1,2)] assms(3) by auto
  have "bt_get m ''text'' = Some (TextC a)" using m(2) by (simp add: part_holds_def empty_part_def)
  moreover have "a @ drop (length a) b = b" using assms(4) by (auto simp: prefix_def)
  moreover have "part_holds (bt_insert ''text'' (TextC b) m) (to_doc_part (Text j b))"
    using m(2) by (simp add: part_holds_def empty_part_def)
  moreover have "ps[i := Text j b] = ps" if "drop (length a) b = []"
    using that assms(3,4) by (auto simp: prefix_def) (metis list_update_id)
  ultimately show ?thesis
    using m(1) assms(1,2) holds_parts_length [OF assms(1)] holds_parts_update [OF assms(1)]
    by (auto simp: append_part_text_def part_map_at_def)
qed

lemma rewrite_part_holds:
  assumes "holds_parts ns ps" "i < length ps" "text_of (ps ! i) = None" "part_step (ps ! i) q"
  shows "\<exists>ns'. rewrite_part i q ns = Inr ns' \<and> holds_parts ns' (ps[i := q])"
proof -
  obtain m where m: "ns ! i = MapC m" "part_holds m (to_doc_part (ps ! i))" using holds_parts_nth [OF assms(1,2)] by auto
  then have "part_holds (update_part_fields q m) (to_doc_part q)" using update_part_fields_holds assms(3,4) by blast
  then show ?thesis using m(1) assms(2) holds_parts_length [OF assms(1)] holds_parts_update [OF assms(1)]
    by (simp add: rewrite_part_def part_map_at_def)
qed

lemma sync_part_holds:
  assumes "holds_parts ns ws" "i \<le> length ws" "i < length ws \<longrightarrow> part_step (ws ! i) p"
  shows "\<exists>ns'. sync_part i p (ns, ws) = Inr (ns', if i < length ws then ws[i := p] else ws @ [p]) \<and>
    holds_parts ns' (if i < length ws then ws[i := p] else ws @ [p])"
proof (cases "i < length ws")
  case False
  then show ?thesis using holds_parts_snoc [OF assms(1)] assms(2) by (auto simp: sync_part_def)
next
  case True
  with assms(3) have st: "part_step (ws ! i) p" by simp
  show ?thesis
  proof (cases "ws ! i = p")
    case True
    then show ?thesis using assms(1) \<open>i < length ws\<close> by (auto simp: sync_part_def)
  next
    case ne: False
    show ?thesis
    proof (cases "ws ! i")
      case (Text j a)
      then obtain b where "p = Text j b" "prefix a b" using st by (cases p) auto
      then show ?thesis using append_part_text_holds [OF assms(1) True Text \<open>prefix a b\<close>] True Text ne
        by (auto simp: sync_part_def)
    qed (use rewrite_part_holds [OF assms(1) True _ st] True ne in \<open>auto simp: sync_part_def\<close>)
  qed
qed

lemma sync_parts_holds:
  assumes "length ws \<le> length ps" "\<And>k. k < length ws \<Longrightarrow> part_step (ws ! k) (ps ! k)"
  shows "i \<le> length ps \<Longrightarrow> holds_parts ns (take i ps @ drop i ws) \<Longrightarrow>
    \<exists>ns'. sync_parts i (drop i ps) (ns, take i ps @ drop i ws) = Inr (ns', ps) \<and> holds_parts ns' ps"
proof (induction "length ps - i" arbitrary: i ns)
  case 0
  then show ?case using assms(1) by auto
next
  case (Suc n)
  then have i: "i < length ps" by simp
  let ?ws = "take i ps @ drop i ws" and ?ws' = "take (Suc i) ps @ drop (Suc i) ws"
  have step: "i < length ?ws \<longrightarrow> part_step (?ws ! i) (ps ! i)" using assms i by (auto simp: nth_append)
  have next_ws: "(if i < length ?ws then ?ws[i := ps ! i] else ?ws @ [ps ! i]) = ?ws'"
    using i by (cases "i < length ws")
      (auto simp: take_Suc_conv_app_nth list_update_append Cons_nth_drop_Suc [symmetric])
  obtain ns' where "sync_part i (ps ! i) (ns, ?ws) = Inr (ns', ?ws')" "holds_parts ns' ?ws'"
    using sync_part_holds [OF Suc.prems(2) _ step] i next_ws by auto
  moreover have "drop i ps = ps ! i # drop (Suc i) ps" using i by (simp add: Cons_nth_drop_Suc)
  ultimately show ?case using Suc.hyps(1) [of "Suc i" ns'] Suc.hyps(2) i by auto
qed

text \<open>A streaming entry: the writer's entry stands at its index, behind \<open>base\<close> and before \<open>rest\<close>.\<close>

definition writer_at :: "node list \<Rightarrow> node list \<Rightarrow> message_entry \<Rightarrow> segment_writer \<Rightarrow> session_doc \<Rightarrow> bool" where
  "writer_at base rest e w d = (\<exists>m. sd_messages d = base @ MapC m # rest \<and> sw_entry_index w = length base \<and>
     entry_holds m e \<and> sw_written w = me_parts e)"

lemma writer_begin_at:
  "writer_begin i dev at d = (d', w) \<Longrightarrow>
   writer_at (sd_messages d) [] \<lparr>me_id = i, me_role = Assistant, me_parts = [], me_created_at = at, me_device_id = dev,
     me_status = Some Streaming, me_continuation_of = None\<rparr> w d' \<and> sd_meta d' = sd_meta d \<and> sd_commands d' = sd_commands d"
  by (auto simp: writer_begin_def writer_at_def holds_parts_def intro!: write_entry_holds)

definition steps_to :: "message_part list \<Rightarrow> message_part list \<Rightarrow> bool" where
  "steps_to ws ps = (length ws \<le> length ps \<and> (\<forall>k < length ws. part_step (ws ! k) (ps ! k)))"

lemma steps_to_refl [simp]: "steps_to ps ps"
  by (simp add: steps_to_def)

lemma steps_to_trans: "steps_to a b \<Longrightarrow> steps_to b c \<Longrightarrow> steps_to a c"
  unfolding steps_to_def by (auto intro: part_step_trans)

lemma writer_sync_at:
  assumes "writer_at base rest e w d" "steps_to (me_parts e) ps"
  shows "\<exists>d' w'. writer_sync ps w d = Inr (d', w') \<and> writer_at base rest (e\<lparr>me_parts := ps\<rparr>) w' d'"
proof -
  obtain m where m: "sd_messages d = base @ MapC m # rest" "sw_entry_index w = length base" "entry_holds m e"
    "sw_written w = me_parts e" using assms(1) by (auto simp: writer_at_def)
  then obtain ns where ns: "bt_get m ''parts'' = Some (ListC ns)" "holds_parts ns (me_parts e)"
    by (auto simp: entry_holds_def)
  have em: "entry_map w d = Inr m" using m by (simp add: entry_map_def nth_append)
  then have "parts_list w d = Inr ns" using ns by (simp add: parts_list_def parts_of_def)
  moreover obtain ns' where "sync_parts 0 ps (ns, sw_written w) = Inr (ns', ps)" "holds_parts ns' ps"
    using sync_parts_holds [of "me_parts e" ps 0 ns] assms(2) ns(2) m(4) by (auto simp: steps_to_def)
  moreover have "entry_holds (bt_insert ''parts'' (ListC ns') m) (e\<lparr>me_parts := ps\<rparr>)"
    using m(3) \<open>holds_parts ns' ps\<close> by (simp add: entry_holds_def)
  ultimately show ?thesis using em m by (auto simp: writer_sync_def writer_at_def set_entry_def)
qed

lemma writer_finish_at:
  assumes "writer_at base rest e w d" "steps_to (me_parts e) ps"
  shows "\<exists>d' w'. writer_finish ps status w d = Inr d' \<and> writer_at base rest (e\<lparr>me_parts := ps, me_status := Some status\<rparr>) w' d'"
proof -
  obtain d' w' where s: "writer_sync ps w d = Inr (d', w')" "writer_at base rest (e\<lparr>me_parts := ps\<rparr>) w' d'"
    using writer_sync_at [OF assms] by blast
  then obtain m where m: "sd_messages d' = base @ MapC m # rest" "sw_entry_index w' = length base"
    "entry_holds m (e\<lparr>me_parts := ps\<rparr>)" "sw_written w' = ps" by (auto simp: writer_at_def)
  have "entry_holds (bt_insert ''status'' (vstr (message_status_str status)) m) (e\<lparr>me_parts := ps, me_status := Some status\<rparr>)"
    using m(3) by (simp add: entry_holds_def)
  then show ?thesis using s(1) m by (auto simp: writer_finish_def entry_map_def writer_at_def set_entry_def nth_append)
qed

lemma read_writer_at:
  "writer_at (sd_messages d0) [] e w d \<Longrightarrow> entry_typed e \<Longrightarrow> read_entries h d = read_entries h d0 @ [canon_entry e]"
  using entry_from_json_held [of _ e h]
  by (auto simp: writer_at_def read_entries_def map_filter_append List.map_filter_def simp del: deep.simps)

section \<open>The fold takes steps the writer follows\<close>

text \<open>A second result for a tool that drops the diff statistics of the first.\<close>

fun retracts :: "agent_event \<Rightarrow> message_part list \<Rightarrow> bool" where
  "retracts (ToolResult i _ _ None) out =
     list_ex (\<lambda>p. case p of Tool t \<Rightarrow> tp_id t = i \<and> tp_diff_stats t \<noteq> None | _ \<Rightarrow> False) out"
| "retracts _ out = False"

fun event_typed :: "(string \<Rightarrow> string \<Rightarrow> change_tag list) \<Rightarrow> agent_event \<Rightarrow> bool" where
  "event_typed ld (ToolResult _ _ _ (Some diff)) = stat_typed (diff_stat ld diff)"
| "event_typed ld _ = True"

text \<open>A turn without a boundary inside and without a retraction, with countable diffs.\<close>

fun steady :: "(string \<Rightarrow> string \<Rightarrow> change_tag list) \<Rightarrow> agent_event list \<Rightarrow> message_part list \<Rightarrow> bool" where
  "steady ld [] out = True"
| "steady ld (ev # evs) out = (\<not> turn_boundary ev \<and> \<not> retracts ev out \<and> event_typed ld ev \<and>
     steady ld evs (fold_event_into_parts ld ev out))"

text \<open>What the fold stores in a tool part: no output, no inline diff, countable statistics.\<close>

fun clean_part :: "message_part \<Rightarrow> bool" where
  "clean_part (Tool t) = (tp_output t = None \<and> tp_output_bytes t = None \<and> tp_diff t = None \<and>
     pred_option (list_all stat_typed) (tp_diff_stats t))"
| "clean_part _ = True"

lemma render_clean_typed: "clean_part p \<Longrightarrow> part_typed (render_part p)"
proof -
  have "call_typed (sanitize_tool_call c)" for c by (cases c) auto
  then show "clean_part p \<Longrightarrow> part_typed (render_part p)" by (cases p) auto
qed

lemma refresh_clean: "refresh_call i call ps = Some qs \<Longrightarrow> list_all clean_part ps \<Longrightarrow> list_all clean_part qs"
  by (induction i call ps arbitrary: qs rule: refresh_call.induct) (auto split: if_splits)

lemma on_tool_clean:
  "(\<And>u. clean_part (Tool u) \<Longrightarrow> clean_part (Tool (f u))) \<Longrightarrow> clean_part p \<Longrightarrow> clean_part (on_tool i f p)"
  by (cases p) auto

lemma advance_clean: "clean_part (Tool u) \<Longrightarrow> clean_part (Tool (advance_subagent s u))"
  by (auto simp: advance_subagent_def split: option.split)

lemma resolve_clean: "event_typed ld (ToolResult i e outp diff) \<Longrightarrow> clean_part (Tool (resolve_tool ld e diff u))"
  by (cases diff) (auto simp: resolve_tool_def)

lemma fold_event_clean:
  "list_all clean_part out \<Longrightarrow> event_typed ld ev \<Longrightarrow> list_all clean_part (fold_event_into_parts ld ev out)"
proof (induction ld ev out rule: fold_event_into_parts.induct)
  case (3 ld s out)
  then show ?case by (cases rule: push_text_cases [of out s]) auto
next
  case (5 ld i call out)
  then show ?case by (auto simp: new_tool_def dest: refresh_clean split: option.split)
next
  case (6 ld i e outp diff out)
  then show ?case using resolve_clean [of ld i e outp diff] by (auto simp: list_all_iff intro!: on_tool_clean)
next
  case (8 ld rid out)
  have "clean_part (resolve_input_part rid p) = clean_part p" for p by (cases p) auto
  with 8 show ?case by (auto simp: list_all_iff)
next
  case (11 ld parent ev out)
  then show ?case by (auto simp: list_all_iff simp del: clean_part.simps intro!: on_tool_clean advance_clean)
qed (auto simp: Let_def split: option.split)

lemma steps_to_append [simp]: "steps_to ps (ps @ qs)"
  by (simp add: steps_to_def nth_append)

lemma steps_to_render_map:
  "(\<And>p. p \<in> set ps \<Longrightarrow> part_step (render_part p) (render_part (f p))) \<Longrightarrow> steps_to (render_parts ps) (render_parts (map f ps))"
  by (simp add: steps_to_def render_parts_def)

lemma tool_step:
  "(tp_resolved t \<longrightarrow> tp_resolved u) \<Longrightarrow> tp_id t = tp_id u \<Longrightarrow> (tp_output t \<noteq> None \<longrightarrow> tp_output u \<noteq> None) \<Longrightarrow>
   (tp_diff t \<noteq> None \<longrightarrow> tp_diff u \<noteq> None) \<Longrightarrow> (tp_output_ref t \<noteq> None \<longrightarrow> tp_output_ref u \<noteq> None) \<Longrightarrow>
   (tp_output_bytes t \<noteq> None \<longrightarrow> tp_output_bytes u \<noteq> None) \<Longrightarrow> (tp_diff_ref t \<noteq> None \<longrightarrow> tp_diff_ref u \<noteq> None) \<Longrightarrow>
   (tp_diff_stats t \<noteq> None \<longrightarrow> tp_diff_stats u \<noteq> None) \<Longrightarrow> (tp_subagent_ref t \<noteq> None \<longrightarrow> tp_subagent_ref u \<noteq> None) \<Longrightarrow>
   (tp_subagent_status t \<noteq> None \<longrightarrow> tp_subagent_status u \<noteq> None) \<Longrightarrow>
   (tp_subagent_tail t \<noteq> None \<longrightarrow> tp_subagent_tail u \<noteq> None) \<Longrightarrow> part_step (render_part (Tool t)) (render_part (Tool u))"
  by (simp add: fields_kept_def empty_part_def)

lemma refresh_steps: "refresh_call i call ps = Some qs \<Longrightarrow> steps_to (render_parts ps) (render_parts qs)"
proof -
  have "refresh_call i call ps = Some qs \<Longrightarrow> list_all2 (\<lambda>p q. part_step (render_part p) (render_part q)) ps qs"
  proof (induction i call ps arbitrary: qs rule: refresh_call.induct)
    case (2 i call tp ps)
    then show ?case
      by (auto simp: list.rel_refl intro!: tool_step simp del: render_part.simps part_step.simps split: if_splits)
  qed (auto simp: list.rel_refl)
  then show "refresh_call i call ps = Some qs \<Longrightarrow> steps_to (render_parts ps) (render_parts qs)"
    by (auto simp: steps_to_def render_parts_def list_all2_conv_all_nth)
qed

lemma fields_kept_refl [simp]: "fields_kept d d"
  by (simp add: fields_kept_def)

lemma on_tool_step:
  "(\<And>u. p = Tool u \<Longrightarrow> tp_id u = i \<Longrightarrow> part_step (render_part (Tool u)) (render_part (Tool (f u)))) \<Longrightarrow>
   part_step (render_part p) (render_part (on_tool i f p))"
  by (cases p) auto

lemma fold_event_steps:
  assumes "list_all clean_part out" "\<not> turn_boundary ev" "\<not> retracts ev out"
  shows "steps_to (render_parts out) (render_parts (fold_event_into_parts ld ev out))"
  using assms
proof (induction ld ev out rule: fold_event_into_parts.induct)
  case (3 ld s out)
  show ?case
  proof (cases rule: push_text_cases [of out s])
    case (grow front j tail)
    then show ?thesis by (auto simp: steps_to_def render_parts_def nth_append)
  qed (simp add: render_parts_def)
next
  case (5 ld i call out)
  show ?case
  proof (cases "refresh_call i call out")
    case None
    then show ?thesis by (simp add: render_parts_def)
  next
    case (Some qs)
    then show ?thesis using refresh_steps [OF Some] by simp
  qed
next
  case (6 ld i e outp diff out)
  have "part_step (render_part p) (render_part (on_tool i (resolve_tool ld e diff) p))" if "p \<in> set out" for p
  proof (rule on_tool_step)
    fix u
    assume u: "p = Tool u" "tp_id u = i"
    then have "clean_part (Tool u)" using 6(1) that by (auto simp: list_all_iff)
    moreover have "tp_diff_stats u \<noteq> None \<longrightarrow> diff \<noteq> None" using 6(3) that u by (cases diff) (auto simp: list_ex_iff)
    ultimately show "part_step (render_part (Tool u)) (render_part (Tool (resolve_tool ld e diff u)))"
      by (intro tool_step) (auto simp: resolve_tool_def)
  qed
  then show ?case by (simp add: steps_to_render_map)
next
  case (8 ld rid out)
  have "part_step (render_part p) (render_part (resolve_input_part rid p))" for p
    by (cases p) (auto simp: fields_kept_def empty_part_def)
  then show ?case by (simp add: steps_to_render_map)
next
  case (11 ld parent ev out)
  have "part_step (render_part (Tool u)) (render_part (Tool (advance_subagent s u)))" for s u
    by (intro tool_step) (auto simp: advance_subagent_def split: option.split)
  then have "part_step (render_part p) (render_part (on_tool parent (advance_subagent s) p))" for s p
    by (intro on_tool_step)
  then show ?case by (simp add: steps_to_render_map)
qed (auto simp: Let_def render_parts_def split: option.split)

lemma fold_events_steps:
  "steady ld evs out \<Longrightarrow> list_all clean_part out \<Longrightarrow>
   steps_to (render_parts out) (render_parts (fold_events ld evs out)) \<and> list_all clean_part (fold_events ld evs out)"
proof (induction evs arbitrary: out)
  case (Cons ev evs)
  then have "list_all clean_part (fold_event_into_parts ld ev out)" by (simp add: fold_event_clean)
  with Cons show ?case using fold_event_steps [of out ev ld] by (auto intro: steps_to_trans)
qed simp

lemma steady_append: "steady ld (a @ b) out \<longleftrightarrow> steady ld a out \<and> steady ld b (fold_events ld a out)"
  by (induction a arbitrary: out) auto

lemma fold_events_append: "fold_events ld (a @ b) out = fold_events ld b (fold_events ld a out)"
  by (simp add: fold_events_def)

section \<open>A streamed segment\<close>

text \<open>
  A segment as the run loop streams it: events are folded in batches, the document is synchronised after each, and
  the segment is finished with a status.
\<close>

fun stream_segment :: "(string \<Rightarrow> string \<Rightarrow> change_tag list) \<Rightarrow> string \<Rightarrow> string \<Rightarrow> int \<Rightarrow> message_status \<Rightarrow>
    agent_event list list \<Rightarrow> message_part list \<Rightarrow> session_doc \<times> segment_writer option \<Rightarrow> doc_failure + session_doc" where
  "stream_segment ld i dev at status [] folded s = finish_segment i dev at folded status s"
| "stream_segment ld i dev at status (evs # batches) folded s =
     (let folded' = fold_events ld evs folded
      in case sync_segment i dev at folded' s of
           Inl err \<Rightarrow> Inl err
         | Inr s' \<Rightarrow> stream_segment ld i dev at status batches folded' s')"

definition segment_entry :: "string \<Rightarrow> string \<Rightarrow> int \<Rightarrow> message_status \<Rightarrow> message_part list \<Rightarrow> message_entry" where
  "segment_entry i dev at status parts = \<lparr>me_id = i, me_role = Assistant, me_parts = parts, me_created_at = at,
     me_device_id = dev, me_status = Some status, me_continuation_of = None\<rparr>"

fun segment_inv :: "session_doc \<Rightarrow> string \<Rightarrow> string \<Rightarrow> int \<Rightarrow> message_part list \<Rightarrow> session_doc \<times> segment_writer option \<Rightarrow> bool" where
  "segment_inv d0 i dev at folded (d, None) = (d = d0 \<and> folded = [])"
| "segment_inv d0 i dev at folded (d, Some w) =
     writer_at (sd_messages d0) [] (segment_entry i dev at Streaming (render_parts folded)) w d"

lemma writer_begin_segment:
  "writer_begin i dev at d0 = (d, w) \<Longrightarrow> writer_at (sd_messages d0) [] (segment_entry i dev at Streaming []) w d"
  using writer_begin_at [of i dev at d0] by (simp add: segment_entry_def)

lemma steps_to_Nil [simp]: "steps_to [] ps"
  by (simp add: steps_to_def)

lemma sync_segment_inv:
  assumes "segment_inv d0 i dev at folded s" "steps_to (render_parts folded) (render_parts folded')"
  shows "\<exists>s'. sync_segment i dev at folded' s = Inr s' \<and> segment_inv d0 i dev at folded' s'"
proof (cases s)
  case (Pair d wo)
  have upd: "(segment_entry i dev at Streaming ps)\<lparr>me_parts := qs\<rparr> = segment_entry i dev at Streaming qs" for ps qs
    by (simp add: segment_entry_def)
  show ?thesis
  proof (cases wo)
    case None
    obtain d1 w where b: "writer_begin i dev at d = (d1, w)" by fastforce
    then show ?thesis
      using writer_sync_at [OF writer_begin_segment [OF b], of "render_parts folded'"] assms(1) Pair None
      by (auto simp: sync_segment_def upd segment_entry_def)
  next
    case (Some w)
    have "folded' = [] \<longrightarrow> folded = []" using assms(2) by (auto simp: steps_to_def render_parts_def)
    then show ?thesis
      using writer_sync_at [of "sd_messages d0" "[]" _ w d "render_parts folded'"] assms Pair Some
      by (fastforce simp: sync_segment_def upd segment_entry_def)
  qed
qed

lemma finish_segment_inv:
  assumes "segment_inv d0 i dev at folded s" "list_all clean_part folded" "i64 at"
  shows "\<exists>d. finish_segment i dev at folded status s = Inr d \<and> read_entries h d =
    (if folded = [] \<and> snd s = None then read_entries h d0
     else read_entries h d0 @ [canon_entry (segment_entry i dev at status (render_parts folded))])"
proof (cases s)
  case (Pair d wo)
  show ?thesis
  proof (cases wo)
    case None
    then show ?thesis using assms(1) Pair by (simp add: finish_segment_def)
  next
    case (Some w)
    then have "writer_at (sd_messages d0) [] (segment_entry i dev at Streaming (render_parts folded)) w d"
      using assms(1) Pair by simp
    from writer_finish_at [OF this, of "render_parts folded" status]
    obtain d' w' where f: "writer_finish (render_parts folded) status w d = Inr d'"
      "writer_at (sd_messages d0) [] (segment_entry i dev at status (render_parts folded)) w' d'"
      by (auto simp: segment_entry_def)
    have "entry_typed (segment_entry i dev at status (render_parts folded))"
      using assms(2,3) by (auto simp: entry_typed_def segment_entry_def render_parts_def list_all_iff render_clean_typed)
    then have "read_entries h d' = read_entries h d0 @ [canon_entry (segment_entry i dev at status (render_parts folded))]"
      by (rule read_writer_at [OF f(2)])
    then show ?thesis using Pair Some f(1) by (simp add: finish_segment_def)
  qed
qed

lemma segment_inv_written: "segment_inv d0 i dev at folded s \<Longrightarrow> folded \<noteq> [] \<Longrightarrow> snd s \<noteq> None"
  by (cases "(d0, i, dev, at, folded, s)" rule: segment_inv.cases) auto

lemma sync_segment_empty: "sync_segment i dev at [] s = Inr s"
  by (simp add: sync_segment_def split: prod.split)

lemma stream_segment_inv:
  assumes "i64 at"
  shows "segment_inv d0 i dev at folded s \<Longrightarrow> list_all clean_part folded \<Longrightarrow> steady ld (concat batches) folded \<Longrightarrow>
    (folded = [] \<longrightarrow> snd s = None) \<Longrightarrow>
    \<exists>d. stream_segment ld i dev at status batches folded s = Inr d \<and> read_entries h d =
      (if fold_events ld (concat batches) folded = [] then read_entries h d0
       else read_entries h d0 @ [canon_entry (segment_entry i dev at status (render_parts (fold_events ld (concat batches) folded)))])"
proof (induction batches arbitrary: folded s)
  case Nil
  then show ?case using finish_segment_inv [OF Nil(1,2) assms, of status h] by auto
next
  case (Cons evs batches)
  let ?f = "fold_events ld evs folded"
  have st: "steady ld evs folded" "steady ld (concat batches) ?f" using Cons.prems(3) by (simp_all add: steady_append)
  have cl: "list_all clean_part ?f" and steps: "steps_to (render_parts folded) (render_parts ?f)"
    using fold_events_steps [OF st(1) Cons.prems(2)] by auto
  obtain s' where s': "sync_segment i dev at ?f s = Inr s'" "segment_inv d0 i dev at ?f s'"
    using sync_segment_inv [OF Cons.prems(1) steps] by blast
  have "?f = [] \<longrightarrow> snd s' = None"
    using s'(1) Cons.prems(4) steps sync_segment_empty [of i dev at s] by (auto simp: steps_to_def render_parts_def)
  moreover have eq: "fold_events ld (concat (evs # batches)) folded = fold_events ld (concat batches) ?f"
    by (simp add: fold_events_append)
  ultimately show ?case using Cons.IH [OF s'(2) cl st(2)] s'(1) unfolding eq by (simp split del: if_split)
qed

section \<open>Stripping twice\<close>

lemma to_doc_part_canon [simp]: "to_doc_part (canon_part p) = to_doc_part p"
  by (cases p) auto

lemma canon_part_idem [simp]: "canon_part (canon_part p) = canon_part p"
  by (cases p) auto

lemma push_message_canon [simp]: "push_message (canon_entry e) d = push_message e d"
proof -
  have "part_map (canon_part p) = part_map p" for p by (simp add: part_map_def)
  then show ?thesis
    by (simp add: push_message_def canon_entry_def fold_push_part write_entry_scalar_fields_def o_def)
qed

lemma strip_part_again:
  "strip_part ld chat (canon_part (fst (strip_part ld chat p))) = (canon_part (fst (strip_part ld chat p)), None)"
  by (cases p) (auto simp: strip_output_def strip_diff_def Let_def split: option.splits)

lemma strip_entry_again:
  "strip_entry ld chat (canon_entry (strip_entry ld chat e)) = canon_entry (strip_entry ld chat e)"
  "List.map_filter (\<lambda>p. snd (strip_part ld chat p)) (me_parts (canon_entry (strip_entry ld chat e))) = []"
  by (simp_all add: strip_entry_def canon_entry_def strip_part_again List.map_filter_def filter_empty_conv)

text \<open>The diffs and outputs of an entry can be counted.\<close>

fun strippable_part :: "(string \<Rightarrow> string \<Rightarrow> change_tag list) \<Rightarrow> message_part \<Rightarrow> bool" where
  "strippable_part ld (Tool t) = (pred_option (\<lambda>d. stat_typed (diff_stat ld d)) (tp_diff t) \<and>
     pred_option (\<lambda>s. length s < 2 ^ 63) (tp_output t))"
| "strippable_part ld _ = True"

definition strippable :: "(string \<Rightarrow> string \<Rightarrow> change_tag list) \<Rightarrow> message_entry \<Rightarrow> bool" where
  "strippable ld e = (entry_typed e \<and> list_all (strippable_part ld) (me_parts e))"

lemma strip_part_typed: "part_typed p \<Longrightarrow> strippable_part ld p \<Longrightarrow> part_typed (fst (strip_part ld chat p))"
  by (cases p) (auto simp: strip_output_def strip_diff_def Let_def split: option.splits)

lemma strip_entry_typed: "strippable ld e \<Longrightarrow> entry_typed (strip_entry ld chat e)"
  by (auto simp: strippable_def entry_typed_def strip_entry_def list_all_iff intro: strip_part_typed)

lemma read_push_messages:
  "list_all (\<lambda>e. entry_typed (f e)) es \<Longrightarrow>
   read_entries h (fold (\<lambda>e. push_message (f e)) es d) = read_entries h d @ map (\<lambda>e. canon_entry (f e)) es"
  by (induction es arbitrary: d) (auto simp: read_push_message)

lemma queue_commands:
  "fold (\<lambda>c d. d\<lparr>sd_commands := queue_command c (sd_commands d)\<rparr>) cs d =
   d\<lparr>sd_commands := sd_commands d @ map (\<lambda>c. c\<lparr>ce_resolution := None\<rparr>) cs\<rparr>"
  by (induction cs arbitrary: d) (auto simp: queue_command_def)

lemma push_messages_fields [simp]:
  "sd_commands (fold (\<lambda>e. push_message (f e)) es d) = sd_commands d"
  "sd_meta (fold (\<lambda>e. push_message (f e)) es d) = sd_meta d"
  by (induction es arbitrary: d) (auto simp: push_message_def)

lemma read_entries_commands [simp]: "read_entries h (d\<lparr>sd_commands := cs\<rparr>) = read_entries h d"
  by (simp add: read_entries_def)

definition thin_base :: "string \<Rightarrow> session_doc" where
  "thin_base chat = (init_doc chat)\<lparr>sd_meta := bt_insert ''epoch'' (JNum (int thin_doc_epoch)) (sd_meta (init_doc chat))\<rparr>"

lemma thin_base_simps [simp]:
  "doc_chat_id (thin_base chat) = Some chat" "read_entries h (thin_base chat) = []" "sd_commands (thin_base chat) = []"
  "doc_epoch (thin_base chat) = thin_doc_epoch"
  by (simp_all add: thin_base_def doc_chat_id_def init_doc_def read_entries_def bt_get_Cons doc_epoch_def thin_doc_epoch_def
      List.map_filter_def)

lemma rebuild_eq:
  assumes "doc_chat_id src = Some chat"
  shows "rebuild_thin_doc h ld src = Inr \<lparr>
    tr_doc = (fold (\<lambda>e. push_message (strip_entry ld chat e)) (read_entries h src) (thin_base chat))
       \<lparr>sd_commands := map (\<lambda>c. c\<lparr>ce_resolution := None\<rparr>) (filter (\<lambda>c. ce_status c = Pending) (sd_commands src))\<rparr>,
    tr_sidecar = concat (map (\<lambda>e. List.map_filter (\<lambda>p. snd (strip_part ld chat p)) (me_parts e)) (read_entries h src)),
    tr_entries = length (read_entries h src),
    tr_commands_copied = length (filter (\<lambda>c. ce_status c = Pending) (sd_commands src))\<rparr>"
proof -
  have "sd_commands (init_doc chat) = []" by (simp add: init_doc_def)
  then show ?thesis using assms by (simp add: rebuild_thin_doc_def Let_def queue_commands thin_base_def [symmetric])
qed

lemma doc_meta_cong: "sd_meta d = sd_meta d' \<Longrightarrow> doc_chat_id d = doc_chat_id d' \<and> doc_epoch d = doc_epoch d'"
  by (simp add: doc_chat_id_def doc_epoch_def)

lemma rebuild_read:
  assumes "doc_chat_id src = Some chat" "list_all (strippable ld) (read_entries h src)" "rebuild_thin_doc h ld src = Inr r"
  shows "doc_chat_id (tr_doc r) = Some chat" "doc_epoch (tr_doc r) = thin_doc_epoch"
    "read_entries h (tr_doc r) = map (\<lambda>e. canon_entry (strip_entry ld chat e)) (read_entries h src)"
proof -
  have r: "tr_doc r = (fold (\<lambda>e. push_message (strip_entry ld chat e)) (read_entries h src) (thin_base chat))
      \<lparr>sd_commands := map (\<lambda>c. c\<lparr>ce_resolution := None\<rparr>) (filter (\<lambda>c. ce_status c = Pending) (sd_commands src))\<rparr>"
    using assms(3) by (auto simp: rebuild_eq [OF assms(1)])
  then have "sd_meta (tr_doc r) = sd_meta (thin_base chat)" by simp
  from doc_meta_cong [OF this] show "doc_chat_id (tr_doc r) = Some chat" "doc_epoch (tr_doc r) = thin_doc_epoch" by simp_all
  have "list_all (\<lambda>e. entry_typed (strip_entry ld chat e)) (read_entries h src)"
    using assms(2) by (auto simp: list_all_iff intro: strip_entry_typed)
  then show "read_entries h (tr_doc r) = map (\<lambda>e. canon_entry (strip_entry ld chat e)) (read_entries h src)"
    using r by (simp add: read_push_messages)
qed

lemma fold_push_canon:
  "fold (\<lambda>e. push_message (f e)) (map (\<lambda>e. canon_entry (g e)) es) d = fold (\<lambda>e. push_message (g e)) es d"
  if "\<And>e. f (canon_entry (g e)) = canon_entry (g e)"
  using that by (induction es arbitrary: d) auto

lemma strip_payload:
  "snd (strip_part ld chat (Tool tp)) = Some \<lparr>sp_part_id = tp_id tp, sp_output = Some full, sp_diff = tp_diff tp\<rparr>"
  if "tp_output_ref tp = None" "tp_output tp = Some full" "trim full \<noteq> []"
  using that by (auto simp: strip_output_def strip_diff_def Let_def split: option.splits)

lemma salvage_entry_id: "lax as_str fs ''id'' = Some i \<Longrightarrow> \<exists>e. salvage_entry h (JObj fs) = Some e \<and> me_id e = i"
  by (simp add: Let_def)

lemma entry_from_json_map:
  "\<exists>e. entry_from_json h (deep (MapC m)) = Some e \<and> (\<forall>i. bt_get m ''id'' = Some (vstr i) \<longrightarrow> me_id e = i)"
proof (cases "parse_entry (deep (MapC m))")
  case None
  then have "entry_from_json h (deep (MapC m)) = salvage_entry h (deep (MapC m))" by (simp add: entry_from_json_def)
  then show ?thesis by (auto simp: Let_def lax_def bt_get_deep)
next
  case (Some e)
  then have "req as_str (map (\<lambda>(k, n). (k, deep n)) m) ''id'' = Some (me_id e)"
    by (auto simp: bind_eq_Some_conv)
  then have "bt_get m ''id'' = Some (vstr i) \<Longrightarrow> me_id e = i" for i by (simp add: req_def bt_get_deep)
  then show ?thesis using Some by (auto simp: entry_from_json_def simp del: deep.simps parse_entry.simps)
qed

lemma map_filter_total: "(\<And>x. x \<in> set xs \<Longrightarrow> f x \<noteq> None) \<Longrightarrow> List.map_filter f xs = map (\<lambda>x. the (f x)) xs"
  by (simp add: List.map_filter_def filter_id_conv [THEN iffD2])

definition fat_tool :: tool_part where
  "fat_tool = (new_tool ''c1'' (Exec ''ls''))\<lparr>tp_resolved := True, tp_output := Some ''files''\<rparr>"

definition fat_doc :: session_doc where
  "fat_doc = push_message \<lparr>me_id = ''m1'', me_role = Assistant, me_parts = [Tool fat_tool], me_created_at = 1,
     me_device_id = ''dev'', me_status = Some Complete, me_continuation_of = None\<rparr> (init_doc ''chat'')"

section \<open>Properties\<close>

text \<open>
  C6. A segment streamed in any batches reads back as its fold: synchronising after every batch and finishing leaves
  in the document one new entry whose parts are the rendered parts of all the events, with the final status, and
  every other entry as it was (no entry when nothing was folded). A question reads back under the id of its request. The turn
  has no boundary inside, and no tool result retracts the diff statistics of an earlier one: those would stay in the document.
\<close>
theorem streamed_segment_reads_back:
  assumes "steady ld (concat batches) []" "i64 at"
  shows "\<exists>d'. stream_segment ld i dev at status batches [] (d, None) = Inr d' \<and> read_entries h d' =
    read_entries h d @ (let folded = fold_events ld (concat batches) [] in
      if folded = [] then [] else [segment_entry i dev at status (map canon_part (render_parts folded))])"
  using stream_segment_inv [OF assms(2), of d i dev "[]" "(d, None)" ld batches status h] assms(1)
  by (simp add: canon_entry_def segment_entry_def Let_def split: if_splits)

theorem streamed_segment_reads_back_witness:
  "\<exists>d'. stream_segment (\<lambda>_ _. []) ''m1'' ''dev'' 7 Complete
       [[TextDelta ''he'', ToolCall ''c1'' (WriteFile ''/x'' (Some ''secret''))],
        [ToolResult ''c1'' False (Some ''ok'') None, TextDelta ''llo'']] [] (init_doc ''chat'', None) = Inr d' \<and>
     read_entries (\<lambda>_. []) d' = [segment_entry ''m1'' ''dev'' 7 Complete
       [Text ''t0'' ''he'', Tool ((new_tool ''c1'' (WriteFile ''/x'' None))\<lparr>tp_resolved := True\<rparr>), Text ''t2'' ''llo'']]"
proof -
  let ?b = "[[TextDelta ''he'', ToolCall ''c1'' (WriteFile ''/x'' (Some ''secret''))],
    [ToolResult ''c1'' False (Some ''ok'') None, TextDelta ''llo'']]"
  have f: "fold_events (\<lambda>_ _. []) (concat ?b) [] = [Text ''t0'' ''he'',
      Tool ((new_tool ''c1'' (WriteFile ''/x'' (Some ''secret'')))\<lparr>tp_resolved := True\<rparr>), Text ''t2'' ''llo'']"
    by code_simp
  have "steady (\<lambda>_ _. []) (concat ?b) []" by code_simp
  moreover have "read_entries (\<lambda>_. []) (init_doc ''chat'') = []" by code_simp
  ultimately show ?thesis
    using streamed_segment_reads_back [of "\<lambda>_ _. []" ?b 7 "''m1''" "''dev''" Complete "init_doc ''chat''" "\<lambda>_. []"]
    unfolding f by (simp add: i64_def new_tool_def render_parts_def)
qed

text \<open>
  Rebuilding a document thin is idempotent and owes the sidecar everything it strips: the rebuilt document has the
  new epoch and as many entries, every non-blank inline output without a reference is in the sidecar under its
  part, and rebuilding the result once more gives the same document and owes nothing.
\<close>
theorem rebuild_idempotent:
  assumes "rebuild_thin_doc h ld src = Inr r" "list_all (strippable ld) (read_entries h src)"
  shows "doc_epoch (tr_doc r) = 2 \<and> length (read_entries h (tr_doc r)) = length (read_entries h src) \<and>
    (\<forall>e \<in> set (read_entries h src). \<forall>tp full. Tool tp \<in> set (me_parts e) \<longrightarrow> tp_output_ref tp = None \<longrightarrow>
       tp_output tp = Some full \<longrightarrow> trim full \<noteq> [] \<longrightarrow>
       \<lparr>sp_part_id = tp_id tp, sp_output = Some full, sp_diff = tp_diff tp\<rparr> \<in> set (tr_sidecar r)) \<and>
    (\<exists>r'. rebuild_thin_doc h ld (tr_doc r) = Inr r' \<and> tr_doc r' = tr_doc r \<and> tr_sidecar r' = [])"
proof -
  obtain chat where chat: "doc_chat_id src = Some chat"
    using assms(1) by (auto simp: rebuild_thin_doc_def split: option.splits)
  note rd = rebuild_read [OF chat assms(2,1)]
  have "\<lparr>sp_part_id = tp_id tp, sp_output = Some full, sp_diff = tp_diff tp\<rparr> \<in> set (tr_sidecar r)"
    if "e \<in> set (read_entries h src)" "Tool tp \<in> set (me_parts e)" "tp_output_ref tp = None" "tp_output tp = Some full"
      "trim full \<noteq> []" for e tp full
    using assms(1) that(1,2) strip_payload [OF that(3-5), of ld chat]
    by (force simp: rebuild_eq [OF chat] List.map_filter_def)
  moreover have "\<exists>r'. rebuild_thin_doc h ld (tr_doc r) = Inr r' \<and> tr_doc r' = tr_doc r \<and> tr_sidecar r' = []"
    using assms(1) rebuild_eq [OF rd(1), of h ld] fold_push_canon [of "strip_entry ld chat" "strip_entry ld chat"]
    by (auto simp: rd(3) rebuild_eq [OF chat] strip_entry_again filter_map o_def)
  ultimately show ?thesis using rd(2,3) by (simp add: thin_doc_epoch_def)
qed

theorem rebuild_idempotent_witness:
  "\<exists>r. rebuild_thin_doc (\<lambda>_. []) (\<lambda>_ _. []) fat_doc = Inr r \<and>
     \<lparr>sp_part_id = ''c1'', sp_output = Some ''files'', sp_diff = None\<rparr> \<in> set (tr_sidecar r) \<and>
     (\<exists>r'. rebuild_thin_doc (\<lambda>_. []) (\<lambda>_ _. []) (tr_doc r) = Inr r' \<and> tr_doc r' = tr_doc r \<and> tr_sidecar r' = [])"
proof -
  let ?e = "\<lparr>me_id = ''m1'', me_role = Assistant, me_parts = [Tool fat_tool], me_created_at = 1,
     me_device_id = ''dev'', me_status = Some Complete, me_continuation_of = None\<rparr>"
  have ty: "entry_typed ?e" by (simp add: entry_typed_def i64_def fat_tool_def new_tool_def)
  have "read_entries (\<lambda>_. []) (init_doc ''chat'') = []" by code_simp
  then have rd: "read_entries (\<lambda>_. []) fat_doc = [?e]"
    using read_push_message [OF ty, of "\<lambda>_. []" "init_doc ''chat''"]
    by (simp add: fat_doc_def canon_entry_def fat_tool_def new_tool_def)
  have st: "list_all (strippable (\<lambda>_ _. [])) (read_entries (\<lambda>_. []) fat_doc)"
    using ty by (simp add: rd strippable_def fat_tool_def new_tool_def)
  have "sd_meta fat_doc = sd_meta (init_doc ''chat'')" by (simp add: fat_doc_def push_message_def)
  then have "doc_chat_id fat_doc = Some ''chat''" by (simp add: doc_chat_id_def init_doc_def bt_get_Cons)
  from rebuild_eq [OF this] obtain r where r: "rebuild_thin_doc (\<lambda>_. []) (\<lambda>_ _. []) fat_doc = Inr r" by blast
  have "trim ''files'' \<noteq> []" by code_simp
  with rebuild_idempotent [OF r st] r show ?thesis by (auto simp: rd fat_tool_def new_tool_def)
qed

text \<open>
  A malformed entry costs at most what its fields carried: as long as the elements of the message list are maps, every one
  of them reads as an entry, whatever is missing or has the wrong shape, and with its own id where it has one.
\<close>
theorem no_entry_vanishes:
  assumes "list_all (\<lambda>n. map_at n \<noteq> None) (sd_messages d)"
  shows "length (read_entries h d) = length (sd_messages d) \<and>
    (\<forall>k m i. k < length (sd_messages d) \<longrightarrow> sd_messages d ! k = MapC m \<longrightarrow> bt_get m ''id'' = Some (vstr i) \<longrightarrow>
       me_id (read_entries h d ! k) = i)"
proof -
  have total: "entry_from_json h (deep n) \<noteq> None" if n: "n \<in> set (sd_messages d)" for n
  proof -
    have "map_at n \<noteq> None" using n assms by (simp add: list_all_iff)
    then obtain m where "n = MapC m" by (cases n) auto
    then show ?thesis using entry_from_json_map [of h m] by auto
  qed
  then have rd: "read_entries h d = map (\<lambda>n. the (entry_from_json h (deep n))) (sd_messages d)"
    by (simp add: read_entries_def map_filter_total)
  have "me_id (the (entry_from_json h (deep (MapC m)))) = i" if "bt_get m ''id'' = Some (vstr i)" for m i
    using entry_from_json_map [of h m] that by auto
  then show ?thesis by (simp add: rd del: deep.simps)
qed

theorem no_entry_vanishes_witness:
  "read_entries (\<lambda>_. ''00'') ((init_doc ''chat'')\<lparr>sd_messages := [MapC [(''id'', vstr ''m1''), (''role'', Val (JNum 3))]]\<rparr>) =
     [\<lparr>me_id = ''m1'', me_role = Assistant, me_parts = [], me_created_at = 0, me_device_id = [], me_status = None,
       me_continuation_of = None\<rparr>]"
proof -
  let ?d = "(init_doc ''chat'')\<lparr>sd_messages := [MapC [(''id'', vstr ''m1''), (''role'', Val (JNum 3))]]\<rparr>"
  have "length (read_entries (\<lambda>_. ''00'') ?d) = 1" using no_entry_vanishes [of ?d "\<lambda>_. ''00''"] by simp
  moreover have "read_entries (\<lambda>_. ''00'') ?d = [\<lparr>me_id = ''m1'', me_role = Assistant, me_parts = [], me_created_at = 0,
      me_device_id = [], me_status = None, me_continuation_of = None\<rparr>]" by code_simp
  ultimately show ?thesis by simp
qed

text \<open>
  The writer never clears a field: a second result for the same tool that carries no diff leaves the statistics of the
  first in the document, although the fold has dropped them.
\<close>
theorem retracted_stats_stay:
  "\<exists>out out' m tp. out = fold_events ld [ToolCall ''c'' (Exec ''ls''), ToolResult ''c'' False None
         (Some \<lparr>td_path = ''/x'', td_old_text = None, td_new_text = ''a''\<rparr>)] [] \<and>
     out' = fold_event_into_parts ld (ToolResult ''c'' False None None) out \<and> out' = [Tool tp] \<and> tp_diff_stats tp = None \<and>
     sync_parts 0 (render_parts out') (fold push_part (render_parts out) [], render_parts out) =
       Inr ([MapC m], render_parts out') \<and>
     bt_get m ''diffStats'' \<noteq> None"
proof -
  let ?d = "\<lparr>td_path = ''/x'', td_old_text = None, td_new_text = ''a''\<rparr>"
  define p where "p = Tool ((new_tool ''c'' (Exec ''ls''))\<lparr>tp_resolved := True, tp_diff_stats := Some [diff_stat ld ?d]\<rparr>)"
  define q where "q = (new_tool ''c'' (Exec ''ls''))\<lparr>tp_resolved := True\<rparr>"
  have out: "fold_events ld [ToolCall ''c'' (Exec ''ls''), ToolResult ''c'' False None (Some ?d)] [] = [p]"
    "fold_event_into_parts ld (ToolResult ''c'' False None None) [p] = [Tool q]"
    by (simp_all add: p_def q_def new_tool_def resolve_tool_def)
  have ren: "render_parts [p] = [p]" "render_parts [Tool q] = [Tool q]" and ne: "p \<noteq> Tool q"
    by (simp_all add: p_def q_def new_tool_def render_parts_def)
  have "sync_parts 0 [Tool q] (fold push_part [p] [], [p]) = Inr ([MapC (update_part_fields (Tool q) (part_map p))], [Tool q])"
    using ne by (simp add: sync_part_def push_part_def rewrite_part_def part_map_at_def p_def)
  moreover have "bt_get (update_part_fields (Tool q) (part_map p)) ''diffStats'' \<noteq> None"
    by (simp add: update_part_fields_def part_map_def put_fields_get Let_def p_def q_def new_tool_def empty_part_def or_else_def)
  moreover have "tp_diff_stats q = None" by (simp add: q_def new_tool_def)
  ultimately show ?thesis using out ren by (metis (no_types))
qed

end
