(* ===== verification/Access.thy ===== *)
theory Access
  imports Ordered_Map Rust_Str "HOL-Library.Monad_Syntax"
begin

text \<open>
  Who may enter a room of the server: the identity behind a request (\<open>crates/server/src/auth.rs\<close>), the
  ownership of rooms (\<open>ownership.rs\<close>, \<open>identity_db.rs\<close>) and the check every room handler makes before it
  serves (\<open>lib.rs\<close>, \<open>http.rs\<close>). The digest of a token is the parameter \<open>hash_token\<close> (SHA-256 in
  hexadecimal); the token table answers through \<open>lookup\<close>, which may fail (\<open>Inl\<close>).
\<close>

section \<open>Identities\<close>

definition shared_user :: int where "shared_user = - 1"

record auth =
  au_shared :: "string option"
  au_lookup :: "(string \<Rightarrow> unit + int option) option"

text \<open>\<open>new_with_store\<close>: a blank shared token counts as none.\<close>

definition new_with_store :: "string option \<Rightarrow> (string \<Rightarrow> unit + int option) \<Rightarrow> auth" where
  "new_with_store shared store =
     \<lparr>au_shared = Option.bind shared (\<lambda>s. if trim s \<noteq> [] then Some s else None), au_lookup = Some store\<rparr>"

text \<open>Header fields by lower-case name; a value that is not visible ASCII has no string form.\<close>

definition header_str :: "string \<Rightarrow> string option" where
  "header_str v = (if list_all (\<lambda>c. c = CHR 0x09 \<or> (32 \<le> (of_char c :: nat) \<and> of_char c < (127 :: nat))) v then Some v else None)"

definition bearer :: "(string \<times> string) list \<Rightarrow> string option" where
  "bearer headers = do {
     v \<leftarrow> map_of headers ''authorization'';
     v \<leftarrow> header_str v;
     if prefix ''Bearer '' v then Some (trim (drop 7 v)) else None }"

text \<open>\<open>str::parse::<i64>\<close>: an optional sign and at least one digit, within the range.\<close>

definition parse_i64 :: "string \<Rightarrow> int option" where
  "parse_i64 s = do {
     n \<leftarrow> (case s of [] \<Rightarrow> None
            | c # cs \<Rightarrow> if c = CHR ''-'' then map_option uminus (digits_value cs)
                        else if c = CHR ''+'' then digits_value cs else digits_value s);
     if - (2 ^ 63) \<le> n \<and> n < 2 ^ 63 then Some n else None }"

text \<open>Absent, unreadable (\<open>Some None\<close>), or the user the panel speaks for.\<close>

definition act_as :: "(string \<times> string) list \<Rightarrow> string option \<Rightarrow> int option option" where
  "act_as headers query =
     map_option (\<lambda>raw. Option.bind (parse_i64 (trim raw)) (\<lambda>i. if 0 < i then Some i else None))
       (case query of Some v \<Rightarrow> Some v
        | None \<Rightarrow> map_option (\<lambda>v. case header_str v of Some s \<Rightarrow> s | None \<Rightarrow> []) (map_of headers ''x-postillion-act-as''))"

text \<open>The comparison without early exit: the differences of all bytes are collected.\<close>

definition constant_time_eq :: "string \<Rightarrow> string \<Rightarrow> bool" where
  "constant_time_eq expected got = (length expected = length got \<and>
     foldl (\<lambda>diff (a, b). diff \<or> a \<noteq> b) False (zip expected got) = False)"

definition identify ::
    "(string \<Rightarrow> string) \<Rightarrow> auth \<Rightarrow> (string \<times> string) list \<Rightarrow> string option \<Rightarrow> string option \<Rightarrow> int option" where
  "identify hash_token a headers query_token query_act_as =
     (case (case query_token of Some t \<Rightarrow> Some t | None \<Rightarrow> bearer headers) of
        None \<Rightarrow> None
      | Some raw \<Rightarrow> (let presented = trim raw in
          if presented = [] then None
          else if (case au_shared a of Some s \<Rightarrow> constant_time_eq s presented | None \<Rightarrow> False)
          then (case act_as headers query_act_as of
                  Some None \<Rightarrow> None | Some (Some u) \<Rightarrow> Some u | None \<Rightarrow> Some shared_user)
          else (case au_lookup a of
                  None \<Rightarrow> None
                | Some lookup \<Rightarrow> (case lookup (hash_token presented) of Inr (Some u) \<Rightarrow> Some u | _ \<Rightarrow> None))))"

section \<open>Ownership\<close>

datatype scope = ScopeChat | ScopeRegistry | ScopeDevice

fun scope_str :: "scope \<Rightarrow> string" where
  "scope_str ScopeChat = ''chat''"
| "scope_str ScopeRegistry = ''registry''"
| "scope_str ScopeDevice = ''device''"

type_synonym owners = "(string \<times> string, int) btree"

text \<open>\<open>insert ... on conflict ... returning user_id\<close>: the first claimant is the owner, who is returned.\<close>

definition claim :: "scope \<Rightarrow> string \<Rightarrow> int \<Rightarrow> owners \<Rightarrow> owners \<times> int" where
  "claim sc room user o' =
     (case bt_get o' (scope_str sc, room) of
        Some owner \<Rightarrow> (o', owner)
      | None \<Rightarrow> (bt_insert (scope_str sc, room) user o', user))"

text \<open>
  The statement at the end of the schema, run at every start: rooms that chats named \<open>device:...\<close> occupy are
  copied to the scope of the devices, unless that device has an owner.
\<close>

definition migrate_owner :: "(string \<times> string) \<times> int \<Rightarrow> owners \<Rightarrow> owners" where
  "migrate_owner row o' = (case row of ((sc, room), user) \<Rightarrow>
     if sc = ''chat'' \<and> prefix ''device:'' room \<and> bt_get o' (''device'', drop 7 room) = None
     then bt_insert (''device'', drop 7 room) user o' else o')"

definition migrate_owners :: "owners \<Rightarrow> owners" where
  "migrate_owners o' = fold migrate_owner o' o'"

text \<open>A store that fails (\<open>None\<close>) denies.\<close>

definition permits :: "(owners \<times> int) option \<Rightarrow> int \<Rightarrow> bool" where
  "permits claimed user = (case claimed of Some (_, owner) \<Rightarrow> owner = user | None \<Rightarrow> False)"

datatype admission = Unauthorized | Forbidden | Admitted int

text \<open>
  The check of a room handler: identify, claim, compare. \<open>healthy\<close> tells whether the ownership store answers.
\<close>

definition admit :: "(string \<Rightarrow> string) \<Rightarrow> auth \<Rightarrow> bool \<Rightarrow> (string \<times> string) list \<Rightarrow> string option \<Rightarrow> string option \<Rightarrow>
    scope \<Rightarrow> string \<Rightarrow> owners \<Rightarrow> owners \<times> admission" where
  "admit hash_token a healthy headers token query_act_as sc room o' =
     (case identify hash_token a headers token query_act_as of
        None \<Rightarrow> (o', Unauthorized)
      | Some user \<Rightarrow> (let claimed = (if healthy then Some (claim sc room user o') else None)
          in (case claimed of Some (o'', _) \<Rightarrow> o'' | None \<Rightarrow> o',
              if permits claimed user then Admitted user else Forbidden)))"

section \<open>Laws\<close>

lemma constant_time_eq_iff: "constant_time_eq a b \<longleftrightarrow> a = b"
proof -
  have "length a = length b \<Longrightarrow> foldl (\<lambda>diff (x, y). diff \<or> x \<noteq> y) d (zip a b) \<longleftrightarrow> d \<or> a \<noteq> b" for d
    by (induction a b arbitrary: d rule: list_induct2) auto
  then show ?thesis by (auto simp: constant_time_eq_def)
qed

lemma scope_str_inj [simp]: "scope_str a = scope_str b \<longleftrightarrow> a = b"
  by (cases a; cases b) auto

lemma claim_get: "bt_get (fst (claim sc room user o')) k =
    (if k = (scope_str sc, room) \<and> bt_get o' k = None then Some user else bt_get o' k)"
  by (auto simp: claim_def split: option.split)

lemma claim_owner: "snd (claim sc room user o') = user \<longleftrightarrow> bt_get (fst (claim sc room user o')) (scope_str sc, room) = Some user"
  by (auto simp: claim_def split: option.split)

lemma claim_keeps: "bt_get o' k = Some owner \<Longrightarrow> bt_get (fst (claim sc room user o')) k = Some owner"
  by (auto simp: claim_get)

text \<open>A request as a handler sees it, and the owners after a series of them.\<close>

record request =
  rq_headers :: "(string \<times> string) list"
  rq_token :: "string option"
  rq_act_as :: "string option"
  rq_scope :: scope
  rq_room :: string
  rq_healthy :: bool

definition serve_request :: "(string \<Rightarrow> string) \<Rightarrow> auth \<Rightarrow> request \<Rightarrow> owners \<Rightarrow> owners \<times> admission" where
  "serve_request hash_token a r o' =
     admit hash_token a (rq_healthy r) (rq_headers r) (rq_token r) (rq_act_as r) (rq_scope r) (rq_room r) o'"

text \<open>The life of a server: requests, and restarts that run the schema again.\<close>

datatype server_event = Incoming request | Restart

fun event_owners :: "(string \<Rightarrow> string) \<Rightarrow> auth \<Rightarrow> server_event \<Rightarrow> owners \<Rightarrow> owners" where
  "event_owners hash_token a (Incoming r) o' = fst (serve_request hash_token a r o')"
| "event_owners hash_token a Restart o' = migrate_owners o'"

fun serve_all :: "(string \<Rightarrow> string) \<Rightarrow> auth \<Rightarrow> server_event list \<Rightarrow> owners \<Rightarrow> (request \<times> admission) list" where
  "serve_all hash_token a [] o' = []"
| "serve_all hash_token a (e # es) o' =
     (case e of Incoming r \<Rightarrow> [(r, snd (serve_request hash_token a r o'))] | Restart \<Rightarrow> []) @
     serve_all hash_token a es (event_owners hash_token a e o')"

lemma serve_request_keeps: "bt_get o' k = Some owner \<Longrightarrow> bt_get (fst (serve_request h a r o')) k = Some owner"
  by (auto simp: serve_request_def admit_def Let_def case_prod_unfold claim_keeps split: option.split)

lemma migrate_owner_get: "bt_get (migrate_owner ((sc, room), u) o') k =
    (if sc = ''chat'' \<and> prefix ''device:'' room \<and> k = (''device'', drop 7 room) \<and> bt_get o' k = None then Some u else bt_get o' k)"
  by (auto simp: migrate_owner_def)

lemma migrate_keeps: "bt_get o' k = Some owner \<Longrightarrow> bt_get (fold migrate_owner rows o') k = Some owner"
proof (induction rows arbitrary: o')
  case (Cons row rows)
  obtain sc room v where "row = ((sc, room), v)" by (metis surj_pair)
  then have "bt_get (migrate_owner row o') k = Some owner" using Cons.prems by (simp add: migrate_owner_get)
  then show ?case using Cons.IH by simp
qed simp

lemma migrate_claims:
  assumes "((''chat'', ''device:'' @ d), u) \<in> set rows" "\<And>v. ((''chat'', ''device:'' @ d), v) \<in> set rows \<Longrightarrow> v = u"
    and "bt_get o' (''device'', d) = None"
  shows "bt_get (fold migrate_owner rows o') (''device'', d) = Some u"
  using assms
proof (induction rows arbitrary: o')
  case (Cons row rows)
  obtain sc room v where row: "row = ((sc, room), v)" by (metis surj_pair)
  have room: "room = ''device:'' @ drop 7 room" if "prefix ''device:'' room" using that by (auto elim!: prefixE)
  show ?case
  proof (cases "sc = ''chat'' \<and> room = ''device:'' @ d")
    case True
    then have "v = u" using Cons.prems(2) row by simp
    with True Cons.prems(3) row have "bt_get (migrate_owner row o') (''device'', d) = Some u"
      by (simp add: migrate_owner_get)
    then show ?thesis by (simp add: migrate_keeps)
  next
    case False
    then have "bt_get (migrate_owner row o') (''device'', d) = None"
      using Cons.prems(3) room unfolding row by (metis (no_types, lifting) migrate_owner_get prod.inject)
    moreover have "((''chat'', ''device:'' @ d), u) \<in> set rows" using False Cons.prems(1) row by auto
    moreover have "v = u" if "((''chat'', ''device:'' @ d), v) \<in> set rows" for v
      using that by (intro Cons.prems(2)) simp
    ultimately have "bt_get (fold migrate_owner rows (migrate_owner row o')) (''device'', d) = Some u" by (intro Cons.IH)
    then show ?thesis by simp
  qed
qed simp

lemma event_owners_keeps: "bt_get o' k = Some owner \<Longrightarrow> bt_get (event_owners h a e o') k = Some owner"
  by (cases e) (simp_all add: serve_request_keeps migrate_keeps migrate_owners_def)

lemma serve_request_admitted:
  "snd (serve_request h a r o') = Admitted u \<Longrightarrow> bt_get (fst (serve_request h a r o')) (scope_str (rq_scope r), rq_room r) = Some u"
  using claim_owner [of "rq_scope r" "rq_room r" u o']
  by (auto simp: serve_request_def admit_def Let_def permits_def split: option.splits if_splits prod.splits)

definition owners_after :: "(string \<Rightarrow> string) \<Rightarrow> auth \<Rightarrow> server_event list \<Rightarrow> owners \<Rightarrow> owners" where
  "owners_after h a es o' = fold (event_owners h a) es o'"

lemma owners_after_keeps: "bt_get o' k = Some owner \<Longrightarrow> bt_get (owners_after h a es o') k = Some owner"
  unfolding owners_after_def by (induction es arbitrary: o') (simp_all add: event_owners_keeps)

lemma serve_all_owner:
  "(r, Admitted u) \<in> set (serve_all h a es o') \<Longrightarrow>
   bt_get (owners_after h a es o') (scope_str (rq_scope r), rq_room r) = Some u"
proof (induction es arbitrary: o')
  case (Cons e es)
  have after: "owners_after h a (e # es) o' = owners_after h a es (event_owners h a e o')" by (simp add: owners_after_def)
  consider "e = Incoming r" "snd (serve_request h a r o') = Admitted u" | "(r, Admitted u) \<in> set (serve_all h a es (event_owners h a e o'))"
    using Cons.prems by (auto split: server_event.splits)
  then show ?case
  proof cases
    case 1
    then show ?thesis unfolding after by (intro owners_after_keeps) (simp add: serve_request_admitted)
  next
    case 2
    then show ?thesis unfolding after by (rule Cons.IH)
  qed
qed simp

definition sample_request :: "string \<Rightarrow> request" where
  "sample_request token = \<lparr>rq_headers = [], rq_token = Some token, rq_act_as = None, rq_scope = ScopeChat, rq_room = ''c1'',
     rq_healthy = True\<rparr>"

definition sample_auth :: auth where
  "sample_auth = new_with_store None (\<lambda>h. Inr (if h = ''alice'' then Some 1 else if h = ''bob'' then Some 2 else None))"

lemma trim_idem_sample: "trim ''alice'' = ''alice''" "trim ''bob'' = ''bob''"
  by code_simp+

section \<open>Properties\<close>

text \<open>
  C4. Room isolation: through any series of requests, by anyone, with failing stores and restarts in between, a room of
  a scope admits only one user; whoever else asks is refused.
\<close>
theorem room_isolation:
  assumes "(r1, Admitted u) \<in> set (serve_all hash_token a es [])" "(r2, Admitted v) \<in> set (serve_all hash_token a es [])"
    and "rq_scope r1 = rq_scope r2" "rq_room r1 = rq_room r2"
  shows "u = v"
  using serve_all_owner [OF assms(1)] serve_all_owner [OF assms(2)] assms(3,4) by simp

theorem room_isolation_witness:
  "(sample_request ''alice'', Admitted 1) \<in>
     set (serve_all id sample_auth [Incoming (sample_request ''alice''), Restart, Incoming (sample_request ''bob'')] []) \<and>
   (sample_request ''bob'', Admitted 2) \<notin>
     set (serve_all id sample_auth [Incoming (sample_request ''alice''), Restart, Incoming (sample_request ''bob'')] [])"
proof -
  have "serve_all id sample_auth [Incoming (sample_request ''alice''), Restart, Incoming (sample_request ''bob'')] [] =
      [(sample_request ''alice'', Admitted 1), (sample_request ''bob'', Forbidden)]"
    by (simp add: serve_request_def admit_def identify_def sample_request_def sample_auth_def new_with_store_def
        trim_idem_sample Let_def claim_def permits_def bt_get_Cons migrate_owners_def migrate_owner_def)
  then have alice: "(sample_request ''alice'', Admitted 1) \<in>
      set (serve_all id sample_auth [Incoming (sample_request ''alice''), Restart, Incoming (sample_request ''bob'')] [])" by simp
  have "rq_scope (sample_request ''alice'') = rq_scope (sample_request ''bob'')" "rq_room (sample_request ''alice'') = rq_room (sample_request ''bob'')"
    by (simp_all add: sample_request_def)
  from room_isolation [OF alice _ this] show ?thesis using alice by (metis numeral_One numeral_eq_iff num.distinct(1))
qed

text \<open>
  The takeover the scope of the devices was introduced against is still open: whoever claims the chat
  named after a device owns the relay of that device after the next restart, if the device has not connected before, and
  its rightful user is refused.
\<close>
theorem restart_grants_device_to_chat_owner:
  assumes "identify hash_token a headers token query_act_as = Some attacker"
    and "identify hash_token a headers' token' query_act_as' = Some victim" "victim \<noteq> attacker"
    and "bt_wf o'" "bt_get o' (''chat'', ''device:'' @ d) = None" "bt_get o' (''device'', d) = None"
  shows "admit hash_token a True headers' token' query_act_as' ScopeDevice d
      (migrate_owners (fst (admit hash_token a True headers token query_act_as ScopeChat (''device:'' @ d) o'))) =
    (migrate_owners (fst (admit hash_token a True headers token query_act_as ScopeChat (''device:'' @ d) o')), Forbidden)"
proof -
  let ?o = "bt_insert (''chat'', ''device:'' @ d) attacker o'"
  have claimed: "fst (admit hash_token a True headers token query_act_as ScopeChat (''device:'' @ d) o') = ?o"
    using assms(1,5) by (simp add: admit_def claim_def Let_def permits_def)
  have "v = attacker" if "((''chat'', ''device:'' @ d), v) \<in> set ?o" for v
    using that bt_get_mem [of ?o "(''chat'', ''device:'' @ d)" v] assms(4) by simp
  moreover have "((''chat'', ''device:'' @ d), attacker) \<in> set ?o" by (rule bt_get_SomeD) simp
  moreover have "bt_get ?o (''device'', d) = None" using assms(6) by simp
  ultimately have "bt_get (migrate_owners ?o) (''device'', d) = Some attacker"
    unfolding migrate_owners_def by (intro migrate_claims) auto
  then show ?thesis using assms(2,3) unfolding claimed by (simp add: admit_def claim_def Let_def permits_def)
qed

theorem restart_grants_device_to_chat_owner_witness:
  "snd (admit id sample_auth True [] (Some ''alice'') None ScopeDevice ''d1''
     (migrate_owners (fst (admit id sample_auth True [] (Some ''bob'') None ScopeChat ''device:d1'' [])))) = Forbidden"
proof -
  have "identify id sample_auth [] (Some ''bob'') None = Some 2" "identify id sample_auth [] (Some ''alice'') None = Some 1"
    by (simp_all add: identify_def sample_auth_def new_with_store_def trim_idem_sample Let_def)
  from restart_grants_device_to_chat_owner [OF this, of "[]" "''d1''"] show ?thesis by simp
qed

text \<open>
  Who a request speaks for: an admitted identity is the owner of the token presented, as the token table has it,
  unless the token is the shared one; only then may the request name another user, who is positive, or stand for
  the shared identity. An unreadable name is refused.
\<close>
theorem identity_comes_from_token:
  assumes "identify hash_token a headers query_token query_act_as = Some u"
  shows "\<exists>raw. (query_token = Some raw \<or> (query_token = None \<and> bearer headers = Some raw)) \<and>
    (if au_shared a = Some (trim raw)
     then (act_as headers query_act_as = None \<and> u = shared_user) \<or> (act_as headers query_act_as = Some (Some u) \<and> 0 < u)
     else (\<exists>lookup. au_lookup a = Some lookup \<and> lookup (hash_token (trim raw)) = Inr (Some u)))"
proof -
  obtain raw where raw: "(case query_token of Some t' \<Rightarrow> Some t' | None \<Rightarrow> bearer headers) = Some raw"
    using assms by (auto simp: identify_def split: option.splits)
  then have "query_token = Some raw \<or> (query_token = None \<and> bearer headers = Some raw)" by (auto split: option.splits)
  moreover have "0 < i" if "act_as headers query_act_as = Some (Some i)" for i
    using that by (auto simp: act_as_def bind_eq_Some_conv split: option.splits if_splits)
  then have "if au_shared a = Some (trim raw)
     then (act_as headers query_act_as = None \<and> u = shared_user) \<or> (act_as headers query_act_as = Some (Some u) \<and> 0 < u)
     else (\<exists>lookup. au_lookup a = Some lookup \<and> lookup (hash_token (trim raw)) = Inr (Some u))"
    using assms raw
    by (auto simp: identify_def Let_def constant_time_eq_iff split: option.splits if_splits sum.splits)
  ultimately show ?thesis by blast
qed

theorem identity_comes_from_token_witness:
  "identify id sample_auth [(''x-postillion-act-as'', ''2'')] (Some ''alice'') None = Some 1 \<and>
   (\<exists>lookup. au_lookup sample_auth = Some lookup \<and> lookup ''alice'' = Inr (Some 1))"
proof -
  have i: "identify id sample_auth [(''x-postillion-act-as'', ''2'')] (Some ''alice'') None = Some 1"
    by (simp add: identify_def sample_auth_def new_with_store_def trim_idem_sample Let_def)
  from identity_comes_from_token [OF i] obtain lookup where
    "au_lookup sample_auth = Some lookup" "lookup (id (trim ''alice'')) = Inr (Some 1)"
    by (auto simp: sample_auth_def new_with_store_def)
  with i show ?thesis by (simp add: trim_idem_sample)
qed

text \<open>
  A shared token with white space around it authenticates nobody: the token presented is trimmed, the configured one
  is not, and start-up only refuses a blank one.
\<close>
theorem padded_shared_token_locks_out:
  assumes "trim s \<noteq> s"
  shows "identify hash_token (new_with_store (Some s) (\<lambda>_. Inr None)) headers query_token query_act_as = None"
proof -
  have "trim raw \<noteq> s" for raw using assms by auto
  then show ?thesis
    by (auto simp: identify_def new_with_store_def Let_def constant_time_eq_iff split: option.split)
qed

theorem padded_shared_token_locks_out_witness:
  "identify id (new_with_store (Some ''secret '') (\<lambda>_. Inr None)) [] (Some ''secret '') None = None"
proof -
  have "trim ''secret '' = ''secret''" by code_simp
  then show ?thesis by (intro padded_shared_token_locks_out) simp
qed

end
