(* ===== verification/Chat_Room.thy ===== *)
theory Chat_Room
  imports Commands Access "HOL-Library.Word"
begin

text \<open>
  The server side of a chat room: the binary frames (\<open>crates/sync/src/chat_frames.rs\<close>), the row log in
  Postgres (\<open>crates/server/src/db.rs\<close>), the protocol of one connection (\<open>crates/sync/src/room.rs\<close>), the store
  that also publishes what it appends (\<open>crates/server/src/rooms.rs\<close>) and the plain HTTP road (\<open>http.rs\<close>).
  JSON is written and read by serde\_json, the parameters \<open>ser\<close> and \<open>de\<close>. Database errors are not modelled.
  Every statement of the store is one SQL statement, so it is one step.
\<close>

unbundle bit_operations_syntax

type_synonym bytes = "8 word list"

section \<open>Frames\<close>

definition frame_hello :: "8 word" where "frame_hello = 0x01"
definition frame_state :: "8 word" where "frame_state = 0x02"
definition frame_rows_req :: "8 word" where "frame_rows_req = 0x03"
definition frame_row :: "8 word" where "frame_row = 0x04"
definition frame_rows_done :: "8 word" where "frame_rows_done = 0x05"
definition frame_push :: "8 word" where "frame_push = 0x06"
definition frame_ack :: "8 word" where "frame_ack = 0x07"
definition frame_presence :: "8 word" where "frame_presence = 0x08"
definition frame_probe :: "8 word" where "frame_probe = 0x09"
definition frame_probe_ok :: "8 word" where "frame_probe_ok = 0x0a"
definition frame_error :: "8 word" where "frame_error = 0x0b"

lemmas frame_defs = frame_hello_def frame_state_def frame_rows_req_def frame_row_def frame_rows_done_def frame_push_def
  frame_ack_def frame_presence_def frame_probe_def frame_probe_ok_def frame_error_def

definition max_header_bytes :: nat where "max_header_bytes = 4096"

record wire_frame =
  wf_kind :: "8 word"
  wf_header :: json
  wf_payload :: bytes

text \<open>\<open>u32::to_le_bytes\<close> and \<open>from_le_bytes\<close>.\<close>

definition to_le :: "32 word \<Rightarrow> bytes" where
  "to_le w = [ucast w, ucast (drop_bit 8 w), ucast (drop_bit 16 w), ucast (drop_bit 24 w)]"

definition from_le :: "8 word \<Rightarrow> 8 word \<Rightarrow> 8 word \<Rightarrow> 8 word \<Rightarrow> 32 word" where
  "from_le a b c d = ucast a OR push_bit 8 (ucast b) OR push_bit 16 (ucast c) OR push_bit 24 (ucast d)"

definition encode :: "(json \<Rightarrow> bytes) \<Rightarrow> 8 word \<Rightarrow> json \<Rightarrow> bytes \<Rightarrow> bytes" where
  "encode ser kind header payload = kind # to_le (of_nat (length (ser header))) @ ser header @ payload"

fun is_object :: "json \<Rightarrow> bool" where
  "is_object (JObj _) = True"
| "is_object _ = False"

fun decode :: "(bytes \<Rightarrow> json option) \<Rightarrow> bytes \<Rightarrow> wire_frame option" where
  "decode de (kind # a # b # c # d # rest) =
     (let n = unat (from_le a b c d)
      in if max_header_bytes < n \<or> length rest < n then None
         else case de (take n rest) of
                None \<Rightarrow> None
              | Some header \<Rightarrow> if is_object header
                               then Some \<lparr>wf_kind = kind, wf_header = header, wf_payload = drop n rest\<rparr> else None)"
| "decode de _ = None"

text \<open>The HTTP body: every frame behind its length; and the client's loop that takes it apart.\<close>

definition frame_body :: "bytes list \<Rightarrow> bytes" where
  "frame_body frames = concat (map (\<lambda>f. to_le (of_nat (length f)) @ f) frames)"

function split_body :: "(bytes \<Rightarrow> json option) \<Rightarrow> bytes \<Rightarrow> wire_frame list" where
  "split_body de body =
     (case body of
        a # b # c # d # rest \<Rightarrow>
          (let n = unat (from_le a b c d)
           in if length rest < n then []
              else (case decode de (take n rest) of None \<Rightarrow> [] | Some f \<Rightarrow> [f]) @ split_body de (drop n rest))
      | _ \<Rightarrow> [])"
  by pat_completeness auto
termination
  by (relation "measure (\<lambda>(de, body). length body)") auto

declare split_body.simps [simp del]

section \<open>The row log\<close>

record chat_row =
  cr_seq :: nat
  cr_device :: string
  cr_batch_id :: string
  cr_payload :: bytes

record room_state =
  rs_head_seq :: nat
  rs_seq_floor :: nat
  rs_checkpoint_seq :: nat
  rs_checkpoint_size :: nat
  rs_row_count :: nat
  rs_row_bytes :: nat

text \<open>The tables \<open>chat_rooms\<close>, \<open>chat_rows\<close> (in the order of insertion) and \<open>chat_checkpoints\<close>.\<close>

record chat_db =
  cd_rooms :: "(string, nat) btree"
  cd_rows :: "(string \<times> chat_row) list"
  cd_checkpoints :: "(string, nat \<times> bytes) btree"

definition rows_of :: "chat_db \<Rightarrow> string \<Rightarrow> chat_row list" where
  "rows_of db chat = map snd (filter (\<lambda>(c, _). c = chat) (cd_rows db))"

definition pg_state :: "chat_db \<Rightarrow> string \<Rightarrow> room_state" where
  "pg_state db chat =
     (let (cp_seq, cp_size) = (case bt_get (cd_checkpoints db) chat of Some (s, p) \<Rightarrow> (s, length p) | None \<Rightarrow> (0, 0))
      in \<lparr>rs_head_seq = (case bt_get (cd_rooms db) chat of Some h \<Rightarrow> h | None \<Rightarrow> 0), rs_seq_floor = cp_seq,
          rs_checkpoint_seq = cp_seq, rs_checkpoint_size = cp_size, rs_row_count = length (rows_of db chat),
          rs_row_bytes = sum_list (map (\<lambda>r. length (cr_payload r)) (rows_of db chat))\<rparr>)"

text \<open>\<open>after as i64\<close>: the bound is compared as a signed integer.\<close>

definition pg_rows_after :: "chat_db \<Rightarrow> string \<Rightarrow> nat \<Rightarrow> string option \<Rightarrow> chat_row list" where
  "pg_rows_after db chat after excluded =
     sort_key cr_seq (filter (\<lambda>r. u64_as_i64 after < int (cr_seq r) \<and> excluded \<noteq> Some (cr_device r)) (rows_of db chat))"

definition pg_append :: "chat_db \<Rightarrow> string \<Rightarrow> string \<Rightarrow> string \<Rightarrow> bytes \<Rightarrow> chat_db \<times> nat \<times> bool" where
  "pg_append db chat device batch payload =
     (case find (\<lambda>r. cr_batch_id r = batch) (rows_of db chat) of
        Some r \<Rightarrow> (db, cr_seq r, True)
      | None \<Rightarrow>
          (let seq = (case bt_get (cd_rooms db) chat of Some h \<Rightarrow> h + 1 | None \<Rightarrow> 1)
           in (db\<lparr>cd_rooms := bt_insert chat seq (cd_rooms db),
                  cd_rows := cd_rows db @ [(chat, \<lparr>cr_seq = seq, cr_device = device, cr_batch_id = batch, cr_payload = payload\<rparr>)]\<rparr>,
               seq, False)))"

section \<open>One connection\<close>

datatype sync_error = Protocol

definition header_get :: "json \<Rightarrow> string \<Rightarrow> json option" where
  "header_get h k = (case h of JObj fs \<Rightarrow> bt_get fs k | _ \<Rightarrow> None)"

definition num :: "nat \<Rightarrow> json" where "num n = JNum (int n)"

definition state_frame :: "room_state \<Rightarrow> wire_frame" where
  "state_frame s = \<lparr>wf_kind = frame_state, wf_header = JObj (mk_fields [(''headSeq'', num (rs_head_seq s)),
     (''seqFloor'', num (rs_seq_floor s)), (''checkpointSeq'', num (rs_checkpoint_seq s)),
     (''checkpointSize'', num (rs_checkpoint_size s)), (''rowCount'', num (rs_row_count s)),
     (''rowBytes'', num (rs_row_bytes s))]), wf_payload = []\<rparr>"

definition row_frame :: "chat_row \<Rightarrow> wire_frame" where
  "row_frame r = \<lparr>wf_kind = frame_row, wf_header = JObj (mk_fields [(''seq'', num (cr_seq r)),
     (''device'', JStr (cr_device r)), (''batchId'', JStr (cr_batch_id r))]), wf_payload = cr_payload r\<rparr>"

definition rows_done_frame :: "nat \<Rightarrow> wire_frame" where
  "rows_done_frame head = \<lparr>wf_kind = frame_rows_done, wf_header = JObj (mk_fields [(''headSeq'', num head)]), wf_payload = []\<rparr>"

definition ack_frame :: "string \<Rightarrow> nat \<Rightarrow> bool \<Rightarrow> wire_frame" where
  "ack_frame batch seq dup = \<lparr>wf_kind = frame_ack, wf_header = JObj (mk_fields [(''batchId'', JStr batch),
     (''seq'', num seq), (''dup'', JBool dup)]), wf_payload = []\<rparr>"

definition parse_rows_req :: "json \<Rightarrow> (nat \<times> bool) option" where
  "parse_rows_req h = (case h of
     JObj fs \<Rightarrow> do {
       after \<leftarrow> req (as_uint 64) fs ''after'';
       own \<leftarrow> dflt False as_bool fs ''excludeOwn'';
       Some (after, own) }
   | _ \<Rightarrow> None)"

definition parse_push :: "json \<Rightarrow> string option" where
  "parse_push h = (case h of JObj fs \<Rightarrow> req as_str fs ''batchId'' | _ \<Rightarrow> None)"

text \<open>
  \<open>Session::dispatch\<close> over the publishing store: the session's device, the database, the replies and the rows
  published to the other connections.
\<close>

definition dispatch :: "string \<Rightarrow> chat_db \<Rightarrow> string \<Rightarrow> wire_frame \<Rightarrow>
    sync_error + (string \<times> chat_db \<times> wire_frame list \<times> chat_row list)" where
  "dispatch device db chat f =
     (if wf_kind f = frame_hello then
        (let device' = (case Option.bind (header_get (wf_header f) ''device'') as_str of Some d \<Rightarrow> d | None \<Rightarrow> device)
         in Inr (device', db, [state_frame (pg_state db chat)], []))
      else if wf_kind f = frame_rows_req then
        (case parse_rows_req (wf_header f) of
           None \<Rightarrow> Inl Protocol
         | Some (after, own) \<Rightarrow>
             (let rows = pg_rows_after db chat after (if own then Some device else None);
                  head = (if rows = [] then after else cr_seq (last rows))
              in Inr (device, db, map row_frame rows @ [rows_done_frame head], [])))
      else if wf_kind f = frame_push then
        (case parse_push (wf_header f) of
           None \<Rightarrow> Inl Protocol
         | Some batch \<Rightarrow>
             (case pg_append db chat device batch (wf_payload f) of
                (db', seq, dup) \<Rightarrow> Inr (device, db', [ack_frame batch seq dup],
                  if dup then [] else [\<lparr>cr_seq = seq, cr_device = device, cr_batch_id = batch, cr_payload = wf_payload f\<rparr>])))
      else if wf_kind f = frame_probe then
        Inr (device, db, [\<lparr>wf_kind = frame_probe_ok, wf_header = JObj [], wf_payload = []\<rparr>], [])
      else Inr (device, db, [], []))"

text \<open>What a connection does with a row published by another: its own rows are not sent back.\<close>

definition relay_live :: "string \<Rightarrow> chat_row \<Rightarrow> wire_frame list" where
  "relay_live device r = (if cr_device r = device then [] else [row_frame r])"

section \<open>The HTTP road\<close>

text \<open>A panic of the handler closes the connection without an answer.\<close>

datatype 'a http_reply = Status nat | Body 'a | Panicked

definition hello_header :: "string \<Rightarrow> json" where
  "hello_header device = JObj (mk_fields [(''device'', JStr device)])"

definition rows_req_header :: "nat \<Rightarrow> bool \<Rightarrow> json" where
  "rows_req_header after own = JObj (mk_fields [(''after'', num after), (''excludeOwn'', JBool own)])"

definition push_header :: "string \<Rightarrow> json" where
  "push_header batch = JObj (mk_fields [(''batchId'', JStr batch)])"

definition rows_req_frame :: "nat \<Rightarrow> bool \<Rightarrow> wire_frame" where
  "rows_req_frame after own = \<lparr>wf_kind = frame_rows_req, wf_header = rows_req_header after own, wf_payload = []\<rparr>"

definition push_frame :: "string \<Rightarrow> bytes \<Rightarrow> wire_frame" where
  "push_frame batch payload = \<lparr>wf_kind = frame_push, wf_header = push_header batch, wf_payload = payload\<rparr>"

definition encode_frame :: "(json \<Rightarrow> bytes) \<Rightarrow> wire_frame \<Rightarrow> bytes" where
  "encode_frame ser f = encode ser (wf_kind f) (wf_header f) (wf_payload f)"

text \<open>The status a refused request gets.\<close>

fun refusal :: "admission \<Rightarrow> nat option" where
  "refusal Unauthorized = Some 401"
| "refusal Forbidden = Some 403"
| "refusal (Admitted _) = None"

text \<open>\<open>decoded(wire::encode(...))\<close>, whose \<open>expect\<close> panics when the frame does not decode.\<close>

definition respond_own :: "(json \<Rightarrow> bytes) \<Rightarrow> (bytes \<Rightarrow> json option) \<Rightarrow> string \<Rightarrow> chat_db \<Rightarrow> string \<Rightarrow> 8 word \<Rightarrow> json \<Rightarrow> bytes \<Rightarrow>
    (string \<times> chat_db \<times> wire_frame list \<times> chat_row list) http_reply" where
  "respond_own ser de device db chat kind header payload =
     (case decode de (encode ser kind header payload) of
        None \<Rightarrow> Panicked
      | Some f \<Rightarrow> (case dispatch device db chat f of Inl _ \<Rightarrow> Status 500 | Inr r \<Rightarrow> Body r))"

definition http_get_rows :: "(json \<Rightarrow> bytes) \<Rightarrow> (bytes \<Rightarrow> json option) \<Rightarrow> admission \<Rightarrow> chat_db \<Rightarrow> string \<Rightarrow> nat \<Rightarrow> string option \<Rightarrow>
    bytes http_reply" where
  "http_get_rows ser de adm db chat after device =
     (case refusal adm of
        Some code \<Rightarrow> Status code
      | None \<Rightarrow> (case respond_own ser de [] db chat frame_hello (hello_header (case device of Some d \<Rightarrow> d | None \<Rightarrow> [])) [] of
          Panicked \<Rightarrow> Panicked
        | Status code \<Rightarrow> Status code
        | Body (dev, db', state, _) \<Rightarrow> (case respond_own ser de dev db' chat frame_rows_req (rows_req_header after True) [] of
            Panicked \<Rightarrow> Panicked
          | Status code \<Rightarrow> Status code
          | Body (_, _, rows, _) \<Rightarrow> Body (frame_body (map (encode_frame ser) (state @ rows))))))"

definition http_post_rows :: "(json \<Rightarrow> bytes) \<Rightarrow> (bytes \<Rightarrow> json option) \<Rightarrow> admission \<Rightarrow> chat_db \<Rightarrow> string \<Rightarrow> string option \<Rightarrow> string option \<Rightarrow>
    bytes \<Rightarrow> chat_db \<times> chat_row list \<times> json http_reply" where
  "http_post_rows ser de adm db chat batch device body =
     (case refusal adm of
        Some code \<Rightarrow> (db, [], Status code)
      | None \<Rightarrow> (case batch of
          None \<Rightarrow> (db, [], Status 400)
        | Some b \<Rightarrow> (case respond_own ser de [] db chat frame_hello (hello_header (case device of Some d \<Rightarrow> d | None \<Rightarrow> [])) [] of
            Panicked \<Rightarrow> (db, [], Panicked)
          | Status code \<Rightarrow> (db, [], Status code)
          | Body (dev, db', _, _) \<Rightarrow> (case respond_own ser de dev db' chat frame_push (push_header b) body of
              Panicked \<Rightarrow> (db', [], Panicked)
            | Status code \<Rightarrow> (db', [], Status code)
            | Body (_, db'', replies, published) \<Rightarrow>
                (db'', published,
                 case replies of
                   [] \<Rightarrow> Status 500
                 | f # _ \<Rightarrow> (case decode de (encode_frame ser f) of None \<Rightarrow> Status 500 | Some g \<Rightarrow> Body (wf_header g)))))))"

text \<open>\<open>transcript::materialize\<close> imports the rows into a document, which is the parameter \<open>materialize\<close>.\<close>

definition http_get_messages :: "(chat_row list \<Rightarrow> json option) \<Rightarrow> admission \<Rightarrow> chat_db \<Rightarrow> string \<Rightarrow> nat option \<Rightarrow> json http_reply" where
  "http_get_messages materialize adm db chat since =
     (case refusal adm of
        Some code \<Rightarrow> Status code
      | None \<Rightarrow> (let head = rs_head_seq (pg_state db chat) in
          if since = Some head then Body (JObj (mk_fields [(''headSeq'', num head), (''unchanged'', JBool True)]))
          else (case materialize (pg_rows_after db chat 0 None) of
                  None \<Rightarrow> Status 500
                | Some entries \<Rightarrow> Body (JObj (mk_fields [(''headSeq'', num head), (''messages'', entries)])))))"

definition http_get_checkpoint :: "int option \<Rightarrow> nat" where
  "http_get_checkpoint identity = (if identity = None then 401 else 404)"

section \<open>The codec reads back\<close>

lemma from_to_le: "to_le w = [a, b, c, d] \<Longrightarrow> from_le a b c d = w"
proof (rule bit_word_eqI)
  fix n :: nat
  assume le: "to_le w = [a, b, c, d]" and "n < LENGTH(32)"
  then have "n < 8 \<or> (8 \<le> n \<and> n < 16) \<or> (16 \<le> n \<and> n < 24) \<or> (24 \<le> n \<and> n < 32)" by auto
  with le show "bit (from_le a b c d) n \<longleftrightarrow> bit w n"
    by (elim disjE) (auto simp: to_le_def from_le_def bit_simps)
qed

lemma to_le_length [simp]: "length (to_le w) = 4"
  by (simp add: to_le_def)

lemma decode_le: "decode de (kind # to_le w @ rest) =
   (if max_header_bytes < unat w \<or> length rest < unat w then None
    else case de (take (unat w) rest) of
           None \<Rightarrow> None
         | Some header \<Rightarrow> if is_object header
             then Some \<lparr>wf_kind = kind, wf_header = header, wf_payload = drop (unat w) rest\<rparr> else None)"
proof -
  obtain a b c d where "to_le w = [a, b, c, d]" by (simp add: to_le_def)
  with from_to_le [OF this] show ?thesis by (simp add: Let_def)
qed

lemma unat_of_length: "n < 2 ^ 32 \<Longrightarrow> unat (of_nat n :: 32 word) = n"
  by (simp add: unat_of_nat take_bit_nat_eq_self)

lemma decode_encode:
  assumes "de (ser h) = Some h" "is_object h" "length (ser h) \<le> max_header_bytes"
  shows "decode de (encode ser kind h payload) = Some \<lparr>wf_kind = kind, wf_header = h, wf_payload = payload\<rparr>"
  using assms unat_of_length [of "length (ser h)"] by (simp add: encode_def decode_le max_header_bytes_def)

lemma split_body_frame:
  "length f < 2 ^ 32 \<Longrightarrow> split_body de (to_le (of_nat (length f)) @ f @ rest) =
     (case decode de f of None \<Rightarrow> [] | Some x \<Rightarrow> [x]) @ split_body de rest"
proof -
  assume len: "length f < 2 ^ 32"
  obtain a b c d where le: "to_le (of_nat (length f)) = [a, b, c, d]" by (simp add: to_le_def)
  show ?thesis using from_to_le [OF le] unat_of_length [OF len]
    by (subst split_body.simps) (simp add: le Let_def)
qed

lemma split_body_frames:
  "list_all (\<lambda>f. length f < 2 ^ 32) fs \<Longrightarrow> split_body de (frame_body fs) = List.map_filter (decode de) fs"
proof (induction fs)
  case Nil
  then show ?case by (simp add: frame_body_def split_body.simps [of de "[]"] List.map_filter_def)
next
  case (Cons f fs)
  have "frame_body (f # fs) = to_le (of_nat (length f)) @ f @ frame_body fs" by (simp add: frame_body_def)
  then show ?case using Cons split_body_frame [of f de "frame_body fs"]
    by (simp add: List.map_filter_simps split: option.split)
qed

text \<open>
  A frame travels: serde reads its header back, the header fits the limit, and the payload is one a length of 32 bits
  can hold.
\<close>

definition travels :: "(json \<Rightarrow> bytes) \<Rightarrow> (bytes \<Rightarrow> json option) \<Rightarrow> wire_frame \<Rightarrow> bool" where
  "travels ser de f = (de (ser (wf_header f)) = Some (wf_header f) \<and> is_object (wf_header f) \<and>
     length (ser (wf_header f)) \<le> max_header_bytes \<and> length (wf_payload f) < 2 ^ 31)"

lemma decode_encode_frame: "travels ser de f \<Longrightarrow> decode de (encode_frame ser f) = Some f"
  by (simp add: encode_frame_def travels_def decode_encode)

lemma split_body_encoded:
  assumes "\<And>f. f \<in> set fs \<Longrightarrow> travels ser de f"
  shows "split_body de (frame_body (map (encode_frame ser) fs)) = fs"
proof -
  have "length (encode_frame ser f) < 2 ^ 32" if "f \<in> set fs" for f
    using assms [OF that] by (simp add: encode_frame_def travels_def encode_def max_header_bytes_def)
  then have "split_body de (frame_body (map (encode_frame ser) fs)) = List.map_filter (decode de) (map (encode_frame ser) fs)"
    by (intro split_body_frames) (simp add: list_all_iff)
  also have "\<dots> = fs" using assms by (induction fs) (simp_all add: List.map_filter_simps decode_encode_frame)
  finally show ?thesis .
qed

lemma decode_long:
  "max_header_bytes < length (ser (wf_header f)) \<Longrightarrow> length (ser (wf_header f)) < 2 ^ 32 \<Longrightarrow> decode de (encode_frame ser f) = None"
  using unat_of_length [of "length (ser (wf_header f))"] by (simp add: encode_frame_def encode_def decode_le)

section \<open>A chat log\<close>

text \<open>
  What a connection relies on: rows are numbered from one without a gap, a batch is appended once, and reading
  after a cursor gives the rows above it in order.
\<close>

locale chat_store =
  fixes ok :: "'s \<Rightarrow> bool"
    and rows :: "'s \<Rightarrow> chat_row list"
    and after :: "'s \<Rightarrow> nat \<Rightarrow> string option \<Rightarrow> chat_row list"
    and app :: "'s \<Rightarrow> string \<Rightarrow> string \<Rightarrow> bytes \<Rightarrow> 's \<times> nat \<times> bool"
  assumes numbered: "ok s \<Longrightarrow> map cr_seq (rows s) = [1..<Suc (length (rows s))]"
    and batches: "ok s \<Longrightarrow> distinct (map cr_batch_id (rows s))"
    and reads: "ok s \<Longrightarrow> n < 2 ^ 63 \<Longrightarrow> after s n ex = filter (\<lambda>r. n < cr_seq r \<and> ex \<noteq> Some (cr_device r)) (rows s)"
    and appends: "ok s \<Longrightarrow> b \<notin> cr_batch_id ` set (rows s) \<Longrightarrow> app s d b p = (s', q, dup) \<Longrightarrow>
      ok s' \<and> \<not> dup \<and> q = Suc (length (rows s)) \<and>
      rows s' = rows s @ [\<lparr>cr_seq = q, cr_device = d, cr_batch_id = b, cr_payload = p\<rparr>]"
    and repeats: "ok s \<Longrightarrow> r \<in> set (rows s) \<Longrightarrow> app s d (cr_batch_id r) p = (s, cr_seq r, True)"
begin

lemma seq_nth: "ok s \<Longrightarrow> k < length (rows s) \<Longrightarrow> cr_seq (rows s ! k) = Suc k"
  using arg_cong [OF numbered, of s "\<lambda>l. l ! k"] by (simp del: upt_Suc)

lemma app_ok: "ok s \<Longrightarrow> app s d b p = (s', q, dup) \<Longrightarrow>
  ok s' \<and> (\<exists>r. r \<in> set (rows s') \<and> cr_batch_id r = b \<and> cr_seq r = q) \<and>
  (if dup then s' = s else rows s' = rows s @ [\<lparr>cr_seq = q, cr_device = d, cr_batch_id = b, cr_payload = p\<rparr>])"
proof (cases "b \<in> cr_batch_id ` set (rows s)")
  case True
  moreover assume "ok s" "app s d b p = (s', q, dup)"
  ultimately show ?thesis using repeats [of s _ d p] by fastforce
next
  case False
  moreover assume "ok s" "app s d b p = (s', q, dup)"
  ultimately show ?thesis using appends [of s b d p s' q dup] by auto
qed

lemma retry:
  assumes "ok s" "app s d b p = (s', q, dup)"
  shows "app s' d' b p' = (s', q, True)"
proof -
  obtain r where "r \<in> set (rows s')" "cr_batch_id r = b" "cr_seq r = q" "ok s'" using app_ok [OF assms] by blast
  then show ?thesis using repeats by blast
qed

lemma after_numbered:
  assumes "ok s" "n \<le> length (rows s)" "n < 2 ^ 63"
  shows "after s n None = drop n (rows s)"
proof -
  have "filter (\<lambda>r. n < cr_seq r) (rows s) = filter (\<lambda>r. n < cr_seq r) (take n (rows s) @ drop n (rows s))" by simp
  also have "\<dots> = filter (\<lambda>r. n < cr_seq r) (drop n (rows s))"
  proof -
    have "filter (\<lambda>r. n < cr_seq r) (take n (rows s)) = []"
      using seq_nth [OF assms(1)] by (auto simp: filter_empty_conv in_set_conv_nth)
    then show ?thesis by (simp only: filter_append append_Nil)
  qed
  also have "\<dots> = drop n (rows s)"
    using seq_nth [OF assms(1)] by (auto simp: filter_id_conv in_set_conv_nth)
  finally show ?thesis using reads [OF assms(1,3), of None] by simp
qed

end

text \<open>The tables provide it, for every chat.\<close>

definition db_ok :: "chat_db \<Rightarrow> bool" where
  "db_ok db = (\<forall>chat. map cr_seq (rows_of db chat) = [1..<Suc (length (rows_of db chat))] \<and>
     distinct (map cr_batch_id (rows_of db chat)) \<and> pg_state db chat = (pg_state db chat)\<lparr>rs_head_seq := length (rows_of db chat)\<rparr>)"

lemma db_ok_head: "db_ok db \<Longrightarrow> (case bt_get (cd_rooms db) chat of Some h \<Rightarrow> h | None \<Rightarrow> 0) = length (rows_of db chat)"
  unfolding db_ok_def pg_state_def Let_def
  by (drule spec [of _ chat]) (auto split: option.splits prod.splits)

lemma db_okI:
  assumes "\<And>chat. map cr_seq (rows_of db chat) = [1..<Suc (length (rows_of db chat))]"
    "\<And>chat. distinct (map cr_batch_id (rows_of db chat))"
    "\<And>chat. (case bt_get (cd_rooms db) chat of Some h \<Rightarrow> h | None \<Rightarrow> 0) = length (rows_of db chat)"
  shows "db_ok db"
  using assms by (simp add: db_ok_def pg_state_def Let_def split: prod.split)

lemma rows_of_append [simp]:
  "rows_of (db\<lparr>cd_rooms := rooms, cd_rows := cd_rows db @ [(chat, r)]\<rparr>) c = (if c = chat then rows_of db c @ [r] else rows_of db c)"
  by (simp add: rows_of_def)

lemma sort_key_sorted: "sorted (map f xs) \<Longrightarrow> sort_key f xs = xs"
  by (simp add: sort_key_id_if_sorted)

lemma find_unique: "x \<in> set xs \<Longrightarrow> P x \<Longrightarrow> (\<And>y. y \<in> set xs \<Longrightarrow> P y \<Longrightarrow> y = x) \<Longrightarrow> find P xs = Some x"
proof (cases "find P xs")
  case None
  assume "x \<in> set xs" "P x"
  with None show ?thesis by (simp add: find_None_iff)
next
  case (Some y)
  assume "\<And>y. y \<in> set xs \<Longrightarrow> P y \<Longrightarrow> y = x"
  with Some show ?thesis by (metis find_Some_iff nth_mem)
qed

lemma pg_append_new:
  assumes "db_ok db" "b \<notin> cr_batch_id ` set (rows_of db chat)" "pg_append db chat d b p = (db', q, dup)"
  shows "db_ok db' \<and> \<not> dup \<and> q = Suc (length (rows_of db chat)) \<and>
    rows_of db' chat = rows_of db chat @ [\<lparr>cr_seq = q, cr_device = d, cr_batch_id = b, cr_payload = p\<rparr>]"
proof -
  have "find (\<lambda>r. cr_batch_id r = b) (rows_of db chat) = None" using assms(2) by (auto simp: find_None_iff)
  moreover have h: "(case bt_get (cd_rooms db) chat of Some h \<Rightarrow> h + 1 | None \<Rightarrow> 1) = Suc (length (rows_of db chat))"
    using db_ok_head [OF assms(1), of chat] by (auto split: option.splits)
  ultimately have db': "db' = db\<lparr>cd_rooms := bt_insert chat q (cd_rooms db),
      cd_rows := cd_rows db @ [(chat, \<lparr>cr_seq = q, cr_device = d, cr_batch_id = b, cr_payload = p\<rparr>)]\<rparr>"
    and q: "q = Suc (length (rows_of db chat))" "\<not> dup"
    using assms(3) by (auto simp: pg_append_def Let_def)
  have "db_ok db'"
  proof (rule db_okI)
    fix c
    have seqs: "map cr_seq (rows_of db x) = [1..<Suc (length (rows_of db x))]" for x using assms(1) by (simp add: db_ok_def)
    have "[1..<Suc (Suc n)] = [1..<Suc n] @ [Suc n]" for n by simp
    then show "map cr_seq (rows_of db' c) = [1..<Suc (length (rows_of db' c))]"
      using seqs [of c] seqs [of chat] q by (simp add: db' del: upt_Suc)
    show "distinct (map cr_batch_id (rows_of db' c))" using assms(1,2) by (auto simp: db' db_ok_def)
    show "(case bt_get (cd_rooms db') c of Some h \<Rightarrow> h | None \<Rightarrow> 0) = length (rows_of db' c)"
      using db_ok_head [OF assms(1), of c] q by (auto simp: db')
  qed
  then show ?thesis using q by (simp add: db')
qed

interpretation chat_pg: chat_store db_ok "\<lambda>db. rows_of db chat" "\<lambda>db. pg_rows_after db chat" "\<lambda>db. pg_append db chat"
  for chat
proof (unfold_locales, goal_cases)
  case (3 db n ex)
  have "sorted (map cr_seq (filter (\<lambda>r. n < cr_seq r \<and> ex \<noteq> Some (cr_device r)) (rows_of db chat)))"
    using 3(1) by (intro sorted_filter) (auto simp: db_ok_def simp del: upt_Suc)
  with 3(2) show ?case by (simp add: pg_rows_after_def u64_as_i64_def sort_key_sorted)
next
  case (4 db b d p db' q dup)
  then show ?case by (rule pg_append_new)
next
  case (5 db r d p)
  then have "find (\<lambda>x. cr_batch_id x = cr_batch_id r) (rows_of db chat) = Some r"
    by (intro find_unique) (auto simp: db_ok_def distinct_map inj_on_def)
  then show ?case by (simp add: pg_append_def)
qed (simp_all add: db_ok_def)

section \<open>Serving frames\<close>

text \<open>Frames of any connections, in the order the server takes them: the device of the session, the chat, the frame.\<close>

definition serve_frame :: "string \<times> string \<times> wire_frame \<Rightarrow> chat_db \<Rightarrow> chat_db" where
  "serve_frame x db = (case x of (device, chat, f) \<Rightarrow> (case dispatch device db chat f of Inl _ \<Rightarrow> db | Inr (_, db', _, _) \<Rightarrow> db'))"

definition serve_frames :: "(string \<times> string \<times> wire_frame) list \<Rightarrow> chat_db \<Rightarrow> chat_db" where
  "serve_frames xs db = fold serve_frame xs db"

lemma frame_kinds [simp]:
  "frame_push \<noteq> frame_hello" "frame_push \<noteq> frame_rows_req" "frame_rows_req \<noteq> frame_hello"
  "frame_row \<noteq> frame_ack" "frame_ack \<noteq> frame_row" "frame_rows_done \<noteq> frame_row" "frame_rows_done \<noteq> frame_ack"
  "frame_probe \<noteq> frame_hello" "frame_probe \<noteq> frame_rows_req" "frame_probe \<noteq> frame_push"
  by (simp_all add: frame_defs)

text \<open>A frame leaves the log of a chat as it is, or appends the pushed row to it.\<close>

lemma pg_append_other: "pg_append db chat d b p = (db', q, dup) \<Longrightarrow> c \<noteq> chat \<Longrightarrow> rows_of db' c = rows_of db c"
  by (auto simp: pg_append_def Let_def split: option.splits)

lemma serve_frame_log:
  assumes "db_ok db"
  shows "db_ok (serve_frame (device, chat, f) db) \<and> (\<exists>new. rows_of (serve_frame (device, chat, f) db) c = rows_of db c @ new)"
proof (cases "wf_kind f = frame_push \<and> parse_push (wf_header f) \<noteq> None")
  case True
  then obtain b where b: "parse_push (wf_header f) = Some b" "wf_kind f = frame_push" by blast
  obtain db' q dup where ap: "pg_append db chat device b (wf_payload f) = (db', q, dup)" by (metis prod_cases3)
  then have "serve_frame (device, chat, f) db = db'" using b by (simp add: serve_frame_def dispatch_def)
  then show ?thesis using chat_pg.app_ok [OF assms ap] pg_append_other [OF ap, of c] by (cases "c = chat"; cases dup) auto
next
  case False
  then have "serve_frame (device, chat, f) db = db"
    by (auto simp: serve_frame_def dispatch_def Let_def split: option.split)
  then show ?thesis using assms by simp
qed

lemma serve_frames_log:
  "db_ok db \<Longrightarrow> db_ok (serve_frames xs db) \<and> (\<exists>new. rows_of (serve_frames xs db) c = rows_of db c @ new)"
proof (induction xs arbitrary: db)
  case (Cons x xs)
  obtain device chat f where x: "x = (device, chat, f)" by (metis prod_cases3)
  show ?case using Cons.IH [of "serve_frame x db"] serve_frame_log [OF Cons.prems, of device chat f c]
    by (auto simp: serve_frames_def x)
qed (simp add: serve_frames_def)

definition empty_db :: chat_db where
  "empty_db = \<lparr>cd_rooms = [], cd_rows = [], cd_checkpoints = []\<rparr>"

lemma empty_db_ok [simp]: "db_ok empty_db"
  by (rule db_okI) (simp_all add: empty_db_def rows_of_def)

lemma dispatch_push:
  "dispatch device db chat (push_frame b p) =
     (case pg_append db chat device b p of (db', seq, dup) \<Rightarrow>
        Inr (device, db', [ack_frame b seq dup],
          if dup then [] else [\<lparr>cr_seq = seq, cr_device = device, cr_batch_id = b, cr_payload = p\<rparr>]))"
  by (cases "pg_append db chat device b p") (simp add: dispatch_def push_frame_def push_header_def parse_push_def req_def fields_get)

definition hello_frame :: "string \<Rightarrow> wire_frame" where
  "hello_frame device = \<lparr>wf_kind = frame_hello, wf_header = hello_header device, wf_payload = []\<rparr>"

lemma dispatch_hello: "dispatch old db chat \<lparr>wf_kind = frame_hello, wf_header = hello_header device, wf_payload = []\<rparr> =
    Inr (device, db, [state_frame (pg_state db chat)], [])"
  by (simp add: dispatch_def hello_header_def header_get_def fields_get)

lemma dispatch_rows_req:
  "after < 2 ^ 64 \<Longrightarrow> dispatch device db chat (rows_req_frame after own) =
     (let rows = pg_rows_after db chat after (if own then Some device else None)
      in Inr (device, db, map row_frame rows @ [rows_done_frame (if rows = [] then after else cr_seq (last rows))], []))"
  by (simp add: dispatch_def rows_req_frame_def rows_req_header_def parse_rows_req_def req_def dflt_def fields_get num_def Let_def)

section \<open>Properties\<close>

text \<open>
  The frame codec reads back what it wrote, and so does the HTTP body: a frame whose header serde can read back and
  that fits the header limit decodes to itself, a header above the limit is refused, and a body made of such frames
  is taken apart into exactly these frames.
\<close>
theorem frame_codec_roundtrip:
  assumes "\<And>f. f \<in> set fs \<Longrightarrow> travels ser de f"
  shows "(\<forall>f \<in> set fs. decode de (encode_frame ser f) = Some f) \<and>
    split_body de (frame_body (map (encode_frame ser) fs)) = fs \<and>
    (\<forall>f. max_header_bytes < length (ser (wf_header f)) \<longrightarrow> length (ser (wf_header f)) < 2 ^ 32 \<longrightarrow>
      decode de (encode_frame ser f) = None)"
  using assms decode_encode_frame split_body_encoded [of fs ser de] decode_long by blast

theorem frame_codec_roundtrip_witness:
  "split_body (\<lambda>_. Some (JObj [])) (frame_body (map (encode_frame (\<lambda>_. [0x7b, 0x7d]))
     [\<lparr>wf_kind = frame_push, wf_header = JObj [], wf_payload = [1, 2]\<rparr>, \<lparr>wf_kind = frame_ack, wf_header = JObj [], wf_payload = []\<rparr>])) =
     [\<lparr>wf_kind = frame_push, wf_header = JObj [], wf_payload = [1, 2]\<rparr>, \<lparr>wf_kind = frame_ack, wf_header = JObj [], wf_payload = []\<rparr>]"
proof -
  let ?fs = "[\<lparr>wf_kind = frame_push, wf_header = JObj [], wf_payload = [1, 2]\<rparr>, \<lparr>wf_kind = frame_ack, wf_header = JObj [], wf_payload = []\<rparr>]"
  have "f \<in> set ?fs \<Longrightarrow> travels (\<lambda>_. [0x7b, 0x7d]) (\<lambda>_. Some (JObj [])) f" for f
    by (auto simp: travels_def max_header_bytes_def)
  from frame_codec_roundtrip [OF this] show ?thesis by blast
qed

text \<open>
  C19. The log of every chat is append-only and gapless: through any frames of any connections, in any order, its rows
  are numbered one, two, three and so on up to the head the server announces, no batch is stored twice, and what a
  log held before stays as its beginning.
\<close>
theorem chat_log_gapless:
  "map cr_seq (rows_of (serve_frames xs empty_db) chat) = [1..<Suc (rs_head_seq (pg_state (serve_frames xs empty_db) chat))] \<and>
   distinct (map cr_batch_id (rows_of (serve_frames xs empty_db) chat)) \<and>
   (\<exists>new. rows_of (serve_frames (xs @ ys) empty_db) chat = rows_of (serve_frames xs empty_db) chat @ new)"
proof -
  have ok: "db_ok (serve_frames xs empty_db)" using serve_frames_log by simp
  then have "rs_head_seq (pg_state (serve_frames xs empty_db) chat) = length (rows_of (serve_frames xs empty_db) chat)"
    using db_ok_head [OF ok, of chat] by (auto simp: pg_state_def Let_def split: option.splits prod.splits)
  moreover have "\<exists>new. rows_of (serve_frames (xs @ ys) empty_db) chat = rows_of (serve_frames xs empty_db) chat @ new"
    using serve_frames_log [OF ok, of ys chat] by (simp add: serve_frames_def)
  ultimately show ?thesis using chat_pg.numbered [OF ok] chat_pg.batches [OF ok] by simp
qed

text \<open>
  A push is idempotent: repeated later, by any device and with any frames in between, the same batch is answered with
  the sequence number of its first append and the duplicate flag, changes nothing and is published to nobody.
\<close>
theorem push_retry_same_seq:
  assumes "db_ok db" "pg_append db chat device batch payload = (db', seq, dup)"
  shows "dispatch device db chat (push_frame batch payload) = Inr (device, db', [ack_frame batch seq dup],
      if dup then [] else [\<lparr>cr_seq = seq, cr_device = device, cr_batch_id = batch, cr_payload = payload\<rparr>]) \<and>
    dispatch device' (serve_frames xs db') chat (push_frame batch payload') =
      Inr (device', serve_frames xs db', [ack_frame batch seq True], [])"
proof -
  obtain r where "r \<in> set (rows_of db' chat)" "cr_batch_id r = batch" "cr_seq r = seq" and ok: "db_ok db'"
    using chat_pg.app_ok [OF assms] by blast
  then have "pg_append (serve_frames xs db') chat device' batch payload' = (serve_frames xs db', seq, True)"
    using serve_frames_log [OF ok, of xs chat] chat_pg.repeats [of "serve_frames xs db'" r chat device' payload'] by auto
  then show ?thesis using assms(2) by (simp add: dispatch_push)
qed

theorem push_retry_same_seq_witness:
  "dispatch ''b'' (serve_frames [] (fst (pg_append empty_db ''room'' ''a'' ''x'' [1]))) ''room'' (push_frame ''x'' [2]) =
     Inr (''b'', fst (pg_append empty_db ''room'' ''a'' ''x'' [1]), [ack_frame ''x'' 1 True], [])"
proof -
  have "pg_append empty_db ''room'' ''a'' ''x'' [1] = (fst (pg_append empty_db ''room'' ''a'' ''x'' [1]), 1, False)"
    by (simp add: pg_append_def empty_db_def rows_of_def)
  from push_retry_same_seq [OF empty_db_ok this, of "''b''" "[]" "[2]"] show ?thesis by (simp add: serve_frames_def)
qed

text \<open>
  C36. The plain HTTP road serves what the socket serves: for an admitted request whose frames travel, the body taken
  apart by the client is the state, the rows above the cursor that the device did not write, and the end marker, the
  answers of a socket session to the same two frames; a posted batch is appended and published like a push.
\<close>
theorem http_serves_like_socket:
  assumes "refusal adm = None" "after < 2 ^ 64"
    and "\<And>f. f \<in> {hello_frame dev, rows_req_frame after True, push_frame batch body, state_frame (pg_state db chat),
        rows_done_frame after, ack_frame batch q d} \<union> row_frame ` set (rows_of db chat) \<union>
        (\<lambda>r. rows_done_frame (cr_seq r)) ` set (rows_of db chat) \<Longrightarrow> travels ser de f"
    and ap: "pg_append db chat dev batch body = (db', q, d)"
  shows "\<exists>reply rows replies pub. http_get_rows ser de adm db chat after (Some dev) = Body reply \<and>
     dispatch dev db chat (rows_req_frame after True) = Inr (dev, db, rows, []) \<and>
     split_body de reply = state_frame (pg_state db chat) # rows \<and>
     dispatch dev db chat (push_frame batch body) = Inr (dev, db', replies, pub) \<and>
     http_post_rows ser de adm db chat (Some batch) (Some dev) body = (db', pub, Body (wf_header (hd replies)))"
proof -
  let ?sel = "pg_rows_after db chat after (Some dev)"
  let ?rows = "map row_frame ?sel @ [rows_done_frame (if ?sel = [] then after else cr_seq (last ?sel))]"
  have sel: "set ?sel \<subseteq> set (rows_of db chat)" "?sel \<noteq> [] \<Longrightarrow> last ?sel \<in> set (rows_of db chat)"
    using last_in_set [of ?sel] by (auto simp: pg_rows_after_def)
  have own: "respond_own ser de device db chat (wf_kind f) (wf_header f) (wf_payload f) =
      (case dispatch device db chat f of Inl _ \<Rightarrow> Status 500 | Inr r \<Rightarrow> Body r)" if "travels ser de f" for f device
    using decode_encode_frame [OF that] by (simp add: respond_own_def encode_frame_def)
  have hello: "respond_own ser de [] db chat frame_hello (hello_header dev) [] = Body (dev, db, [state_frame (pg_state db chat)], [])"
    using own [of "hello_frame dev" "[]"] assms(3) [of "hello_frame dev"] by (simp add: hello_frame_def dispatch_hello)
  have req: "respond_own ser de dev db chat frame_rows_req (rows_req_header after True) [] = Body (dev, db, ?rows, [])"
    using own [of "rows_req_frame after True" dev] assms(3) [of "rows_req_frame after True"]
    by (simp add: dispatch_rows_req [OF assms(2)] Let_def) (simp add: rows_req_frame_def)
  have push: "respond_own ser de dev db chat frame_push (push_header batch) body =
      Body (dev, db', [ack_frame batch q d], if d then [] else [\<lparr>cr_seq = q, cr_device = dev, cr_batch_id = batch, cr_payload = body\<rparr>])"
    using own [of "push_frame batch body" dev] assms(3) [of "push_frame batch body"]
    by (simp add: dispatch_push ap) (simp add: push_frame_def)
  have "travels ser de f" if "f \<in> set (state_frame (pg_state db chat) # ?rows)" for f
    using that sel by (intro assms(3)) (auto intro: imageI)
  from split_body_encoded [OF this] have
    "split_body de (frame_body (map (encode_frame ser) (state_frame (pg_state db chat) # ?rows))) = state_frame (pg_state db chat) # ?rows" .
  moreover have "http_get_rows ser de adm db chat after (Some dev) =
      Body (frame_body (map (encode_frame ser) (state_frame (pg_state db chat) # ?rows)))"
    using assms(1) hello req by (simp add: http_get_rows_def)
  moreover have "travels ser de (ack_frame batch q d)" by (rule assms(3)) simp
  then have "http_post_rows ser de adm db chat (Some batch) (Some dev) body =
      (db', if d then [] else [\<lparr>cr_seq = q, cr_device = dev, cr_batch_id = batch, cr_payload = body\<rparr>], Body (wf_header (ack_frame batch q d)))"
    using assms(1) hello push by (simp add: http_post_rows_def decode_encode_frame)
  ultimately show ?thesis using ap by (simp add: dispatch_push dispatch_rows_req [OF assms(2)] Let_def)
qed

definition sample_headers :: "json list" where
  "sample_headers = [hello_header ''d'', rows_req_header 0 True, push_header ''b'', wf_header (state_frame (pg_state empty_db ''c'')),
     wf_header (rows_done_frame 0), wf_header (ack_frame ''b'' 1 False)]"

definition sample_ser :: "json \<Rightarrow> bytes" where
  "sample_ser h = [of_nat (length (takeWhile (\<lambda>x. x \<noteq> h) sample_headers))]"

definition sample_de :: "bytes \<Rightarrow> json option" where
  "sample_de b = (case b of [n] \<Rightarrow> if unat n < length sample_headers then Some (sample_headers ! unat n) else None | _ \<Rightarrow> None)"

lemma sample_travels:
  assumes "wf_header f \<in> set sample_headers" "is_object (wf_header f)" "wf_payload f = [] \<or> wf_payload f = [1]"
  shows "travels sample_ser sample_de f"
proof -
  let ?n = "length (takeWhile (\<lambda>x. x \<noteq> wf_header f) sample_headers)"
  have n: "?n < length sample_headers"
    using assms(1) takeWhile_eq_all_conv [of "\<lambda>x. x \<noteq> wf_header f" sample_headers]
    by (metis (mono_tags, lifting) length_takeWhile_le le_neq_implies_less takeWhile_eq_take take_all_iff order_refl)
  then have "sample_headers ! ?n = wf_header f" by (metis (mono_tags, lifting) nth_length_takeWhile)
  moreover have "unat (of_nat ?n :: 8 word) = ?n"
    using n by (simp add: sample_headers_def unat_of_nat take_bit_nat_eq_self)
  ultimately show ?thesis
    using n assms(2,3) by (auto simp: travels_def sample_ser_def sample_de_def max_header_bytes_def)
qed

theorem http_serves_like_socket_witness:
  "\<exists>reply rows. http_get_rows sample_ser sample_de (Admitted 1) empty_db ''c'' 0 (Some ''d'') = Body reply \<and>
     split_body sample_de reply = state_frame (pg_state empty_db ''c'') # rows"
proof -
  have "refusal (Admitted 1) = None" by simp
  moreover have "(0 :: nat) < 2 ^ 64" by simp
  moreover have "travels sample_ser sample_de f"
    if "f \<in> {hello_frame ''d'', rows_req_frame 0 True, push_frame ''b'' [1], state_frame (pg_state empty_db ''c''),
        rows_done_frame 0, ack_frame ''b'' 1 False} \<union> row_frame ` set (rows_of empty_db ''c'') \<union>
        (\<lambda>r. rows_done_frame (cr_seq r)) ` set (rows_of empty_db ''c'')" for f
    using that by (intro sample_travels)
      (auto simp: sample_headers_def hello_frame_def rows_req_frame_def push_frame_def state_frame_def rows_done_frame_def
        ack_frame_def hello_header_def rows_req_header_def push_header_def empty_db_def rows_of_def)
  moreover have "pg_append empty_db ''c'' ''d'' ''b'' [1] = (fst (pg_append empty_db ''c'' ''d'' ''b'' [1]), 1, False)"
    by (simp add: pg_append_def empty_db_def rows_of_def)
  ultimately show ?thesis using http_serves_like_socket [of "Admitted 1" 0 "''d''" "''b''" "[1]" empty_db "''c''" 1 False sample_ser sample_de]
    by blast
qed

text \<open>
  A device name the client sends may crash the handler: when the header made from it is above the limit of a frame,
  the server's own greeting does not decode and the handler panics instead of answering with an error.
\<close>
theorem long_device_panics:
  assumes "refusal adm = None" "max_header_bytes < length (ser (hello_header dev))" "length (ser (hello_header dev)) < 2 ^ 32"
  shows "http_get_rows ser de adm db chat after (Some dev) = Panicked \<and>
    http_post_rows ser de adm db chat (Some batch) (Some dev) body = (db, [], Panicked)"
proof -
  have "respond_own ser de [] db chat frame_hello (hello_header dev) [] = Panicked"
    using decode_long [of ser "hello_frame dev" de] assms(2,3) by (simp add: respond_own_def encode_frame_def hello_frame_def)
  then show ?thesis using assms(1) by (simp add: http_get_rows_def http_post_rows_def)
qed

theorem long_device_panics_witness:
  "http_get_rows (\<lambda>_. replicate 5000 0) (\<lambda>_. None) (Admitted 1) empty_db ''c'' 0 (Some ''d'') = Panicked"
  using long_device_panics [of "Admitted 1" "\<lambda>_. replicate 5000 0" "''d''" "\<lambda>_. None" empty_db "''c''" 0]
  by (simp add: max_header_bytes_def)

end
