(* ===== verification/Chat_Client.thy ===== *)
theory Chat_Client
  imports Chat_Room
begin

text \<open>
  The client of a chat room (\<open>crates/sync/src/chat_client.rs\<close>): the cursor with its contiguity rule, the queue of
  unacknowledged pushes, the session as a machine over the frames it receives, and the sync cycle over plain HTTP.
  What the client asks of its surroundings (rows for the document sink, frames for the socket, notifications) is the
  list of effects a step returns, in order. The sink's verdict on a checkpoint frontier is the parameter \<open>contains\<close>,
  the outcome of a checkpoint import the parameter \<open>import_ok\<close>, the clock (in milliseconds) \<open>now\<close>, the identifiers
  made by \<open>Uuid::new_v4\<close> are arguments. Sequence numbers are naturals: the server's are below \<open>2 ^ 63\<close>.
\<close>

section \<open>State\<close>

definition max_push_bytes :: nat where "max_push_bytes = 1024 * 1024 - 4096"
definition quota_retry :: nat where "quota_retry = 5000"
definition max_gap_repairs :: nat where "max_gap_repairs = 3"

datatype chat_event = Connected | CaughtUp nat | Applied | Disconnected | PresenceBeat | ServerReset | PushRejected

datatype effect = ApplyRow bytes nat | ApplyCheckpoint bytes nat | AdvanceCursor nat | Emit chat_event | Send wire_frame

record pending_push =
  pp_batch_id :: string
  pp_bytes :: bytes

text \<open>\<open>Shared\<close>, the counters of \<open>Flags\<close> and the flags of the actor; \<open>cl_ready\<close> says that the first join is settled.\<close>

record chat_client =
  cl_device :: string
  cl_cursor :: nat
  cl_pending :: "pending_push list"
  cl_server :: "room_state option"
  cl_retry_at :: "nat option"
  cl_quota_blocked :: bool
  cl_gap_repair :: bool
  cl_resumed :: bool
  cl_amnesty_done :: bool
  cl_ready :: bool
  cl_connected :: bool
  cl_rejoins :: nat
  cl_disconnects :: nat
  cl_rejected :: nat
  cl_server_resets :: nat

text \<open>\<open>ready\<close>: with an HTTP transport the construction resolves at once.\<close>

definition new_client :: "string \<Rightarrow> nat \<Rightarrow> bool \<Rightarrow> chat_client" where
  "new_client device cursor transport =
     \<lparr>cl_device = device, cl_cursor = cursor, cl_pending = [], cl_server = None, cl_retry_at = None, cl_quota_blocked = False,
      cl_gap_repair = False, cl_resumed = False, cl_amnesty_done = False, cl_ready = transport, cl_connected = False,
      cl_rejoins = 0, cl_disconnects = 0, cl_rejected = 0, cl_server_resets = 0\<rparr>"

definition enqueue_update :: "string \<Rightarrow> bytes \<Rightarrow> chat_client \<Rightarrow> chat_client \<times> effect list" where
  "enqueue_update uuid bytes c =
     (if max_push_bytes < length bytes
      then (c\<lparr>cl_rejected := cl_rejected c + 1\<rparr>, [Emit PushRejected])
      else (c\<lparr>cl_pending := cl_pending c @ [\<lparr>pp_batch_id = uuid, pp_bytes = bytes\<rparr>]\<rparr>, []))"

definition note_checkpoint :: "nat \<Rightarrow> nat \<Rightarrow> chat_client \<Rightarrow> chat_client" where
  "note_checkpoint covered bytes c =
     c\<lparr>cl_server := map_option (\<lambda>s. s\<lparr>rs_checkpoint_seq := covered, rs_checkpoint_size := bytes, rs_seq_floor := covered,
        rs_row_count := 0, rs_row_bytes := 0\<rparr>) (cl_server c)\<rparr>"

record chat_stats =
  st_connected :: bool
  st_server_known :: bool
  st_cursor :: nat
  st_server :: room_state
  st_pending_pushes :: nat
  st_rejoins :: nat
  st_disconnects :: nat
  st_rejected :: nat
  st_server_resets :: nat

definition stats :: "chat_client \<Rightarrow> chat_stats" where
  "stats c = \<lparr>st_connected = cl_connected c, st_server_known = cl_server c \<noteq> None, st_cursor = cl_cursor c,
     st_server = (case cl_server c of Some s \<Rightarrow> s
       | None \<Rightarrow> \<lparr>rs_head_seq = 0, rs_seq_floor = 0, rs_checkpoint_seq = 0, rs_checkpoint_size = 0, rs_row_count = 0, rs_row_bytes = 0\<rparr>),
     st_pending_pushes = length (cl_pending c), st_rejoins = cl_rejoins c, st_disconnects = cl_disconnects c,
     st_rejected = cl_rejected c, st_server_resets = cl_server_resets c\<rparr>"

section \<open>The plan of a catch-up\<close>

datatype catch_up_plan = RowsOnly nat | CheckpointThenRows nat

definition plan_catch_up :: "nat \<Rightarrow> room_state \<Rightarrow> bool \<Rightarrow> catch_up_plan" where
  "plan_catch_up cursor state frontier_contained =
     (let cursor = (if rs_head_seq state < cursor then 0 else cursor)
      in if rs_checkpoint_size state = 0 then RowsOnly cursor
         else if frontier_contained then RowsOnly (max cursor (rs_checkpoint_seq state))
         else CheckpointThenRows (rs_checkpoint_seq state))"

fun plan_after :: "catch_up_plan \<Rightarrow> nat" where
  "plan_after (RowsOnly after) = after"
| "plan_after (CheckpointThenRows after) = after"

section \<open>Headers the client reads\<close>

definition parse_state :: "json \<Rightarrow> room_state option" where
  "parse_state h = (case h of
     JObj fs \<Rightarrow> do {
       head \<leftarrow> req (as_uint 64) fs ''headSeq'';
       flr \<leftarrow> req (as_uint 64) fs ''seqFloor'';
       cs \<leftarrow> req (as_uint 64) fs ''checkpointSeq'';
       cz \<leftarrow> req (as_uint 64) fs ''checkpointSize'';
       n \<leftarrow> dflt 0 (as_uint 64) fs ''rowCount'';
       b \<leftarrow> dflt 0 (as_uint 64) fs ''rowBytes'';
       Some \<lparr>rs_head_seq = head, rs_seq_floor = flr, rs_checkpoint_seq = cs, rs_checkpoint_size = cz,
             rs_row_count = n, rs_row_bytes = b\<rparr> }
   | _ \<Rightarrow> None)"

definition parse_row_header :: "json \<Rightarrow> (nat \<times> string \<times> string) option" where
  "parse_row_header h = (case h of
     JObj fs \<Rightarrow> do {
       seq \<leftarrow> req (as_uint 64) fs ''seq'';
       device \<leftarrow> req as_str fs ''device'';
       batch \<leftarrow> req as_str fs ''batchId'';
       Some (seq, device, batch) }
   | _ \<Rightarrow> None)"

definition parse_head :: "json \<Rightarrow> nat option" where
  "parse_head h = (case h of JObj fs \<Rightarrow> req (as_uint 64) fs ''headSeq'' | _ \<Rightarrow> None)"

definition parse_ack :: "json \<Rightarrow> (string \<times> nat \<times> bool) option" where
  "parse_ack h = (case h of
     JObj fs \<Rightarrow> do {
       batch \<leftarrow> req as_str fs ''batchId'';
       seq \<leftarrow> req (as_uint 64) fs ''seq'';
       dup \<leftarrow> dflt False as_bool fs ''dup'';
       Some (batch, seq, dup) }
   | _ \<Rightarrow> None)"

definition str_or :: "string \<Rightarrow> json \<Rightarrow> string \<Rightarrow> string" where
  "str_or d h k = (case Option.bind (header_get h k) as_str of Some s \<Rightarrow> s | None \<Rightarrow> d)"

section \<open>Frames\<close>

definition drop_batch :: "string \<Rightarrow> chat_client \<Rightarrow> chat_client" where
  "drop_batch b c = c\<lparr>cl_pending := filter (\<lambda>p. pp_batch_id p \<noteq> b) (cl_pending c)\<rparr>"

text \<open>The contiguity rule: the cursor walks, it never jumps; a jump asks for a repair.\<close>

definition note_seq :: "nat \<Rightarrow> chat_client \<Rightarrow> chat_client" where
  "note_seq seq c = (if cl_cursor c + 1 < seq then c\<lparr>cl_gap_repair := True\<rparr> else c\<lparr>cl_cursor := max (cl_cursor c) seq\<rparr>)"

definition drain_quota :: "nat \<Rightarrow> chat_client \<Rightarrow> chat_client" where
  "drain_quota now c =
     (if cl_quota_blocked c
      then if cl_pending c = [] then c\<lparr>cl_quota_blocked := False\<rparr> else c\<lparr>cl_retry_at := Some now\<rparr>
      else c)"

definition on_error_frame :: "nat \<Rightarrow> chat_client \<Rightarrow> json \<Rightarrow> chat_client \<times> effect list" where
  "on_error_frame now c h =
     (let code = str_or ''?'' h ''code''; batch = str_or [] h ''batchId''; c = c\<lparr>cl_rejected := cl_rejected c + 1\<rparr>
      in if (code = ''too_large'' \<or> code = ''empty'' \<or> code = ''bad_push'') \<and> batch \<noteq> []
         then (let c' = drop_batch batch c
               in (c', if length (cl_pending c') \<noteq> length (cl_pending c) then [Emit PushRejected] else []))
         else if code = ''quota''
         then (c\<lparr>cl_quota_blocked := True, cl_retry_at := Some (now + quota_retry)\<rparr>, [])
         else (c, []))"

text \<open>\<open>handle_frame\<close>: \<open>None\<close> is a protocol breakdown.\<close>

definition handle_frame :: "nat \<Rightarrow> chat_client \<Rightarrow> wire_frame \<Rightarrow> (chat_client \<times> effect list) option" where
  "handle_frame now c f =
     (if wf_kind f = frame_row then
        (case parse_row_header (wf_header f) of
           None \<Rightarrow> None
         | Some (seq, _) \<Rightarrow> (let c' = note_seq seq c in Some (c', [ApplyRow (wf_payload f) (cl_cursor c'), Emit Applied])))
      else if wf_kind f = frame_ack then
        (case parse_ack (wf_header f) of
           None \<Rightarrow> None
         | Some (batch, seq, _) \<Rightarrow>
             (let c' = note_seq seq (drop_batch batch c)
              in Some (drain_quota now c', [AdvanceCursor (cl_cursor c'), Emit Applied])))
      else if wf_kind f = frame_presence then Some (c, [Emit PresenceBeat])
      else if wf_kind f = frame_probe_ok then
        (case parse_head (wf_header f) of
           None \<Rightarrow> Some (c, [])
         | Some head \<Rightarrow> Some (c\<lparr>cl_server := map_option (\<lambda>s. s\<lparr>rs_head_seq := max (rs_head_seq s) head\<rparr>) (cl_server c)\<rparr>, []))
      else if wf_kind f = frame_state then
        (case parse_state (wf_header f) of None \<Rightarrow> Some (c, []) | Some st \<Rightarrow> Some (c\<lparr>cl_server := Some st\<rparr>, []))
      else if wf_kind f = frame_error then Some (on_error_frame now c (wf_header f))
      else Some (c, []))"

section \<open>A session\<close>

text \<open>
  Where \<open>run_session\<close> waits: for the state, for the checkpoint (with the frames that came meanwhile), for the end of
  the backfill, or in the steady loop, with the number of gap repairs so far. No phase means: reconnect.
\<close>

datatype phase = Handshake | Fetching room_state "wire_frame list" | Backfill | Steady nat

type_synonym session_step = "phase option \<times> chat_client \<times> effect list"

definition client_hello :: "chat_client \<Rightarrow> wire_frame" where
  "client_hello c = \<lparr>wf_kind = frame_hello, wf_header = JObj (mk_fields [(''cursor'', num (cl_cursor c)),
     (''device'', JStr (cl_device c))]), wf_payload = []\<rparr>"

definition push_pending :: "chat_client \<Rightarrow> effect list" where
  "push_pending c = map (\<lambda>p. Send (push_frame (pp_batch_id p) (pp_bytes p))) (cl_pending c)"

definition push_head :: "chat_client \<Rightarrow> effect list" where
  "push_head c = (case cl_pending c of [] \<Rightarrow> [] | p # _ \<Rightarrow> [Send (push_frame (pp_batch_id p) (pp_bytes p))])"

definition maybe_repair_gap :: "nat \<Rightarrow> chat_client \<Rightarrow> session_step" where
  "maybe_repair_gap repairs c =
     (if \<not> cl_gap_repair c then (Some (Steady repairs), c, [])
      else (let c = c\<lparr>cl_gap_repair := False\<rparr>
            in if max_gap_repairs < repairs + 1 then (None, c, [])
               else (Some (Steady (repairs + 1)), c, [Send (rows_req_frame (cl_cursor c) False)])))"

text \<open>The once-per-client amnesty: a cursor above the checkpoint is taken back to it.\<close>

definition amnesty :: "room_state \<Rightarrow> chat_client \<Rightarrow> chat_client" where
  "amnesty st c =
     (if cl_amnesty_done c then c
      else c\<lparr>cl_amnesty_done := True,
             cl_cursor := min (cl_cursor c) (if 0 < rs_checkpoint_size st then rs_checkpoint_seq st else 0)\<rparr>)"

definition on_state :: "(bytes \<Rightarrow> bool) \<Rightarrow> chat_client \<Rightarrow> wire_frame \<Rightarrow> session_step" where
  "on_state contains c f =
     (case parse_state (wf_header f) of
        None \<Rightarrow> (None, c, [])
      | Some st \<Rightarrow>
          (let reset = rs_head_seq st < cl_cursor c;
               c = c\<lparr>cl_server := Some st, cl_server_resets := cl_server_resets c + (if reset then 1 else 0)\<rparr>;
               c = amnesty st c;
               c = c\<lparr>cl_connected := True, cl_rejoins := cl_rejoins c + (if cl_ready c then 1 else 0)\<rparr>;
               plan = plan_catch_up (cl_cursor c) st (rs_checkpoint_size st = 0 \<or> contains (wf_payload f));
               c = c\<lparr>cl_cursor := plan_after plan\<rparr>
           in (case plan of RowsOnly _ \<Rightarrow> Some Backfill | CheckpointThenRows _ \<Rightarrow> Some (Fetching st []), c,
               (if reset then [Emit ServerReset] else []) @
               [Emit Connected, Send (rows_req_frame (plan_after plan) (cl_resumed c))] @ push_pending c)))"

definition caught_up :: "chat_client \<Rightarrow> nat \<Rightarrow> session_step" where
  "caught_up c head =
     (let (ph, c, es) = maybe_repair_gap 0 (c\<lparr>cl_resumed := True, cl_ready := True\<rparr>)
      in (ph, c, Emit (CaughtUp head) # es))"

text \<open>The frames buffered while the checkpoint was fetched; the first end marker is remembered.\<close>

fun replay :: "nat \<Rightarrow> nat option \<Rightarrow> chat_client \<Rightarrow> wire_frame list \<Rightarrow> (nat option \<times> chat_client \<times> effect list) option" where
  "replay now head c [] = Some (head, c, [])"
| "replay now head c (f # fs) =
     (if head = None \<and> wf_kind f = frame_rows_done
      then (case parse_head (wf_header f) of None \<Rightarrow> None | Some h \<Rightarrow> replay now (Some h) c fs)
      else (case handle_frame now c f of
              None \<Rightarrow> None
            | Some (c', es) \<Rightarrow> map_option (\<lambda>(h, c'', es'). (h, c'', es @ es')) (replay now head c' fs)))"

definition on_fetched :: "nat \<Rightarrow> (bytes \<Rightarrow> bool) \<Rightarrow> room_state \<Rightarrow> wire_frame list \<Rightarrow> chat_client \<Rightarrow> bytes option \<Rightarrow> session_step" where
  "on_fetched now import_ok st buffered c fetched =
     (case fetched of
        None \<Rightarrow> (None, c, [])
      | Some bytes \<Rightarrow>
          if \<not> import_ok bytes then (None, c, [])
          else (let c = c\<lparr>cl_cursor := max (cl_cursor c) (rs_checkpoint_seq st)\<rparr>;
                    es = [ApplyCheckpoint bytes (rs_checkpoint_seq st), Emit Applied]
                in case replay now None c buffered of
                     None \<Rightarrow> (None, c, es)
                   | Some (None, c', es') \<Rightarrow> (Some Backfill, c', es @ es')
                   | Some (Some head, c', es') \<Rightarrow> (let (ph, c'', es'') = caught_up c' head in (ph, c'', es @ es' @ es''))))"

text \<open>One frame from the socket (\<open>None\<close>: bytes that do not decode).\<close>

definition session_frame :: "nat \<Rightarrow> (bytes \<Rightarrow> bool) \<Rightarrow> phase \<Rightarrow> chat_client \<Rightarrow> wire_frame option \<Rightarrow> session_step" where
  "session_frame now contains ph c frame =
     (case frame of
        None \<Rightarrow> (None, c, [])
      | Some f \<Rightarrow>
          (case ph of
             Handshake \<Rightarrow> if wf_kind f = frame_state then on_state contains c f else (Some Handshake, c, [])
           | Fetching st buffered \<Rightarrow> (Some (Fetching st (buffered @ [f])), c, [])
           | Backfill \<Rightarrow>
               if wf_kind f = frame_rows_done
               then (case parse_head (wf_header f) of None \<Rightarrow> (None, c, []) | Some head \<Rightarrow> caught_up c head)
               else (case handle_frame now c f of None \<Rightarrow> (None, c, []) | Some (c', es) \<Rightarrow> (Some Backfill, c', es))
           | Steady repairs \<Rightarrow>
               (case handle_frame now c f of
                  None \<Rightarrow> (None, c, [])
                | Some (c', es) \<Rightarrow> (let (ph', c'', es') = maybe_repair_gap repairs c' in (ph', c'', es @ es')))))"

text \<open>The other arms of the steady loop.\<close>

definition on_nudge :: "chat_client \<Rightarrow> effect list" where
  "on_nudge c = push_pending c"

definition on_retry :: "chat_client \<Rightarrow> chat_client \<times> effect list" where
  "on_retry c = (c\<lparr>cl_retry_at := None\<rparr>, push_head c)"

definition send_probe :: "effect list" where
  "send_probe = [Send \<lparr>wf_kind = frame_probe, wf_header = JObj [], wf_payload = []\<rparr>]"

definition send_presence :: "int \<Rightarrow> bytes \<Rightarrow> effect list" where
  "send_presence at payload = [Send \<lparr>wf_kind = frame_presence, wf_header = JObj (mk_fields [(''at'', JNum at)]), wf_payload = payload\<rparr>]"

definition end_session :: "chat_client \<Rightarrow> chat_client \<times> effect list" where
  "end_session c = (c\<lparr>cl_connected := False, cl_disconnects := cl_disconnects c + 1\<rparr>, [Emit Disconnected])"

section \<open>The dial loop\<close>

definition backoff_base :: nat where "backoff_base = 250"
definition backoff_cap :: nat where "backoff_cap = 16000"
definition stable_reset :: nat where "stable_reset = 30000"
definition offline_park_recheck :: nat where "offline_park_recheck = 30000"

datatype waited = Elapsed | Woke | ShutDown

text \<open>\<open>None\<close>: the actor stops.\<close>

fun next_backoff :: "nat \<Rightarrow> waited \<Rightarrow> nat option" where
  "next_backoff backoff ShutDown = None"
| "next_backoff backoff Woke = Some backoff_base"
| "next_backoff backoff Elapsed = Some (min (backoff * 2) backoff_cap)"

definition wait_backoff :: "bool \<Rightarrow> nat \<Rightarrow> nat" where
  "wait_backoff offline backoff = (if offline then max backoff offline_park_recheck else backoff)"

definition session_backoff :: "bool \<Rightarrow> nat \<Rightarrow> nat \<Rightarrow> nat" where
  "session_backoff joined elapsed backoff = (if joined \<and> stable_reset \<le> elapsed then backoff_base else backoff)"

text \<open>What a round of the loop does: a dial that fails, or a session that ended.\<close>

datatype dial_round = DialFailed waited | SessionEnded bool nat waited

fun round_backoff :: "nat \<Rightarrow> dial_round \<Rightarrow> nat option" where
  "round_backoff backoff (DialFailed w) = next_backoff backoff w"
| "round_backoff backoff (SessionEnded joined elapsed w) = next_backoff (session_backoff joined elapsed backoff) w"

section \<open>Plain HTTP\<close>

text \<open>The ack of a posted batch, a JSON value or unreadable text.\<close>

definition as_u64 :: "json \<Rightarrow> nat option" where
  "as_u64 = as_uint 64"

definition offline_ack :: "json option \<Rightarrow> chat_client \<Rightarrow> chat_client \<times> effect list" where
  "offline_ack reply c =
     (case Option.bind reply (\<lambda>v. do {
          b \<leftarrow> Option.bind (header_get v ''batchId'') as_str;
          seq \<leftarrow> Option.bind (header_get v ''seq'') as_u64;
          Some (b, seq) }) of
        None \<Rightarrow> (c, [])
      | Some (b, seq) \<Rightarrow>
          (let c = drop_batch b c;
               c = (if seq \<le> cl_cursor c + 1 then c\<lparr>cl_cursor := max (cl_cursor c) seq\<rparr> else c)
           in (c, [AdvanceCursor (cl_cursor c), Emit Applied])))"

definition offline_row :: "chat_client \<Rightarrow> wire_frame \<Rightarrow> chat_client \<times> effect list" where
  "offline_row c f =
     (if wf_kind f = frame_row
      then (case parse_row_header (wf_header f) of
              None \<Rightarrow> (c, [])
            | Some (seq, _) \<Rightarrow>
                (let c = (if seq \<le> cl_cursor c + 1 then c\<lparr>cl_cursor := max (cl_cursor c) seq\<rparr> else c)
                 in (c, [ApplyRow (wf_payload f) (cl_cursor c)])))
      else (c, []))"

fun offline_rows :: "chat_client \<Rightarrow> wire_frame list \<Rightarrow> chat_client \<times> effect list" where
  "offline_rows c [] = (c, [])"
| "offline_rows c (f # fs) =
     (let (c', es) = offline_row c f; (c'', es') = offline_rows c' fs in (c'', es @ es'))"

text \<open>
  The state frame of a pull asked at \<open>cursor\<close>; \<open>fetched\<close> is what fetching the checkpoint gives. \<open>False\<close>: the cycle
  is given up.
\<close>

definition offline_state :: "(bytes \<Rightarrow> bool) \<Rightarrow> (bytes \<Rightarrow> bool) \<Rightarrow> bytes option \<Rightarrow> nat \<Rightarrow> chat_client \<Rightarrow> wire_frame \<Rightarrow>
    bool \<times> chat_client \<times> effect list" where
  "offline_state contains import_ok fetched cursor c f =
     (if wf_kind f \<noteq> frame_state then (True, c, [])
      else (case parse_state (wf_header f) of
        None \<Rightarrow> (True, c, [])
      | Some st \<Rightarrow>
          (let c = c\<lparr>cl_server := Some st\<rparr>
           in case plan_catch_up cursor st (rs_checkpoint_size st = 0 \<or> contains (wf_payload f)) of
                RowsOnly _ \<Rightarrow> (True, c, [])
              | CheckpointThenRows after \<Rightarrow>
                  (case fetched of
                     None \<Rightarrow> (False, c, [])
                   | Some bytes \<Rightarrow>
                       if import_ok bytes
                       then (True, c\<lparr>cl_cursor := max (cl_cursor c) after\<rparr>, [ApplyCheckpoint bytes (rs_checkpoint_seq st), Emit Applied])
                       else (False, c, [])))))"

definition offline_pull :: "(bytes \<Rightarrow> json option) \<Rightarrow> (bytes \<Rightarrow> bool) \<Rightarrow> (bytes \<Rightarrow> bool) \<Rightarrow> bytes option \<Rightarrow> nat \<Rightarrow> chat_client \<Rightarrow> bytes \<Rightarrow>
    chat_client \<times> effect list" where
  "offline_pull de contains import_ok fetched cursor c body =
     (case split_body de body of
        [] \<Rightarrow> (c, [])
      | state # frames \<Rightarrow>
          (case offline_state contains import_ok fetched cursor c state of
             (False, c', es) \<Rightarrow> (c', es)
           | (True, c', es) \<Rightarrow>
               (let (c'', es') = offline_rows c' frames
                in (c'', es @ es' @ (if \<exists>e \<in> set es'. (case e of ApplyRow _ _ \<Rightarrow> True | _ \<Rightarrow> False) then [Emit Applied] else [])))))"

section \<open>Laws\<close>

lemma frame_kinds_distinct [simp]:
  "frame_hello \<noteq> frame_state" "frame_hello \<noteq> frame_rows_req" "frame_hello \<noteq> frame_row" "frame_hello \<noteq> frame_rows_done" "frame_hello \<noteq> frame_push"
  "frame_hello \<noteq> frame_ack" "frame_hello \<noteq> frame_presence" "frame_hello \<noteq> frame_probe" "frame_hello \<noteq> frame_probe_ok" "frame_hello \<noteq> frame_error"
  "frame_state \<noteq> frame_hello" "frame_state \<noteq> frame_rows_req" "frame_state \<noteq> frame_row" "frame_state \<noteq> frame_rows_done" "frame_state \<noteq> frame_push"
  "frame_state \<noteq> frame_ack" "frame_state \<noteq> frame_presence" "frame_state \<noteq> frame_probe" "frame_state \<noteq> frame_probe_ok" "frame_state \<noteq> frame_error"
  "frame_rows_req \<noteq> frame_hello" "frame_rows_req \<noteq> frame_state" "frame_rows_req \<noteq> frame_row" "frame_rows_req \<noteq> frame_rows_done" "frame_rows_req \<noteq> frame_push"
  "frame_rows_req \<noteq> frame_ack" "frame_rows_req \<noteq> frame_presence" "frame_rows_req \<noteq> frame_probe" "frame_rows_req \<noteq> frame_probe_ok" "frame_rows_req \<noteq> frame_error"
  "frame_row \<noteq> frame_hello" "frame_row \<noteq> frame_state" "frame_row \<noteq> frame_rows_req" "frame_row \<noteq> frame_rows_done" "frame_row \<noteq> frame_push"
  "frame_row \<noteq> frame_ack" "frame_row \<noteq> frame_presence" "frame_row \<noteq> frame_probe" "frame_row \<noteq> frame_probe_ok" "frame_row \<noteq> frame_error"
  "frame_rows_done \<noteq> frame_hello" "frame_rows_done \<noteq> frame_state" "frame_rows_done \<noteq> frame_rows_req" "frame_rows_done \<noteq> frame_row" "frame_rows_done \<noteq> frame_push"
  "frame_rows_done \<noteq> frame_ack" "frame_rows_done \<noteq> frame_presence" "frame_rows_done \<noteq> frame_probe" "frame_rows_done \<noteq> frame_probe_ok" "frame_rows_done \<noteq> frame_error"
  "frame_push \<noteq> frame_hello" "frame_push \<noteq> frame_state" "frame_push \<noteq> frame_rows_req" "frame_push \<noteq> frame_row" "frame_push \<noteq> frame_rows_done"
  "frame_push \<noteq> frame_ack" "frame_push \<noteq> frame_presence" "frame_push \<noteq> frame_probe" "frame_push \<noteq> frame_probe_ok" "frame_push \<noteq> frame_error"
  "frame_ack \<noteq> frame_hello" "frame_ack \<noteq> frame_state" "frame_ack \<noteq> frame_rows_req" "frame_ack \<noteq> frame_row" "frame_ack \<noteq> frame_rows_done"
  "frame_ack \<noteq> frame_push" "frame_ack \<noteq> frame_presence" "frame_ack \<noteq> frame_probe" "frame_ack \<noteq> frame_probe_ok" "frame_ack \<noteq> frame_error"
  "frame_presence \<noteq> frame_hello" "frame_presence \<noteq> frame_state" "frame_presence \<noteq> frame_rows_req" "frame_presence \<noteq> frame_row" "frame_presence \<noteq> frame_rows_done"
  "frame_presence \<noteq> frame_push" "frame_presence \<noteq> frame_ack" "frame_presence \<noteq> frame_probe" "frame_presence \<noteq> frame_probe_ok" "frame_presence \<noteq> frame_error"
  "frame_probe \<noteq> frame_hello" "frame_probe \<noteq> frame_state" "frame_probe \<noteq> frame_rows_req" "frame_probe \<noteq> frame_row" "frame_probe \<noteq> frame_rows_done"
  "frame_probe \<noteq> frame_push" "frame_probe \<noteq> frame_ack" "frame_probe \<noteq> frame_presence" "frame_probe \<noteq> frame_probe_ok" "frame_probe \<noteq> frame_error"
  "frame_probe_ok \<noteq> frame_hello" "frame_probe_ok \<noteq> frame_state" "frame_probe_ok \<noteq> frame_rows_req" "frame_probe_ok \<noteq> frame_row" "frame_probe_ok \<noteq> frame_rows_done"
  "frame_probe_ok \<noteq> frame_push" "frame_probe_ok \<noteq> frame_ack" "frame_probe_ok \<noteq> frame_presence" "frame_probe_ok \<noteq> frame_probe" "frame_probe_ok \<noteq> frame_error"
  "frame_error \<noteq> frame_hello" "frame_error \<noteq> frame_state" "frame_error \<noteq> frame_rows_req" "frame_error \<noteq> frame_row" "frame_error \<noteq> frame_rows_done"
  "frame_error \<noteq> frame_push" "frame_error \<noteq> frame_ack" "frame_error \<noteq> frame_presence" "frame_error \<noteq> frame_probe" "frame_error \<noteq> frame_probe_ok"
  by (simp_all add: frame_defs)

text \<open>The client reads the headers the server writes.\<close>

lemma parse_state_frame [simp]:
  assumes "rs_head_seq s < 2 ^ 64" "rs_seq_floor s < 2 ^ 64" "rs_checkpoint_seq s < 2 ^ 64" "rs_checkpoint_size s < 2 ^ 64"
    "rs_row_count s < 2 ^ 64" "rs_row_bytes s < 2 ^ 64"
  shows "parse_state (wf_header (state_frame s)) = Some s"
  using assms by (simp add: parse_state_def state_frame_def req_def dflt_def fields_get num_def)

lemma parse_state_frame_SomeD: "parse_state (wf_header (state_frame s)) = Some t \<Longrightarrow> t = s"
  by (auto simp: parse_state_def state_frame_def req_def dflt_def fields_get num_def bind_eq_Some_conv split: if_splits)

lemma parse_row_frame: "parse_row_header (wf_header (row_frame r)) =
    (if cr_seq r < 2 ^ 64 then Some (cr_seq r, cr_device r, cr_batch_id r) else None)"
  by (simp add: parse_row_header_def row_frame_def req_def fields_get num_def)

lemma parse_done_frame: "parse_head (wf_header (rows_done_frame n)) = (if n < 2 ^ 64 then Some n else None)"
  by (simp add: parse_head_def rows_done_frame_def req_def fields_get num_def)

lemma parse_ack_frame: "parse_ack (wf_header (ack_frame b q d)) = (if q < 2 ^ 64 then Some (b, q, d) else None)"
  by (simp add: parse_ack_def ack_frame_def req_def dflt_def fields_get num_def)

lemma frame_kind_simps [simp]:
  "wf_kind (row_frame r) = frame_row" "wf_kind (ack_frame b q d) = frame_ack" "wf_kind (state_frame s) = frame_state"
  "wf_kind (rows_done_frame n) = frame_rows_done" "wf_kind (push_frame b p) = frame_push"
  "wf_kind (rows_req_frame n x) = frame_rows_req" "wf_kind (client_hello c) = frame_hello"
  "wf_payload (row_frame r) = cr_payload r" "wf_payload (push_frame b p) = p"
  by (simp_all add: row_frame_def ack_frame_def state_frame_def rows_done_frame_def push_frame_def rows_req_frame_def client_hello_def)

lemma note_seq_simps [simp]:
  "cl_device (note_seq q c) = cl_device c" "cl_pending (note_seq q c) = cl_pending c"
  "cl_cursor (note_seq q c) = (if cl_cursor c + 1 < q then cl_cursor c else max (cl_cursor c) q)"
  "cl_resumed (note_seq q c) = cl_resumed c" "cl_quota_blocked (note_seq q c) = cl_quota_blocked c"
  by (simp_all add: note_seq_def)

lemma drop_batch_simps [simp]:
  "cl_device (drop_batch b c) = cl_device c" "cl_cursor (drop_batch b c) = cl_cursor c"
  "cl_gap_repair (drop_batch b c) = cl_gap_repair c" "cl_resumed (drop_batch b c) = cl_resumed c"
  "cl_pending (drop_batch b c) = filter (\<lambda>p. pp_batch_id p \<noteq> b) (cl_pending c)"
  by (simp_all add: drop_batch_def)

lemma drain_quota_simps [simp]:
  "cl_device (drain_quota n c) = cl_device c" "cl_cursor (drain_quota n c) = cl_cursor c"
  "cl_gap_repair (drain_quota n c) = cl_gap_repair c" "cl_pending (drain_quota n c) = cl_pending c"
  "cl_resumed (drain_quota n c) = cl_resumed c"
  by (simp_all add: drain_quota_def)

section \<open>Properties\<close>

text \<open>
  The redial delay is bounded: whatever dials fail, sessions end, wakes and successes happen, the delay stays between
  its base and its cap until the actor is shut down; and repeated failures alone reach the cap after six doublings and
  stay there.
\<close>
theorem backoff_bounded:
  "(\<forall>d rounds. fold (\<lambda>r b. Option.bind b (\<lambda>d. round_backoff d r)) rounds (Some backoff_base) = Some d \<longrightarrow>
     backoff_base \<le> d \<and> d \<le> backoff_cap) \<and>
   (\<forall>n \<ge> 6. fold (\<lambda>r b. Option.bind b (\<lambda>d. round_backoff d r)) (replicate n (DialFailed Elapsed)) (Some backoff_base) = Some backoff_cap)"
proof -
  let ?f = "\<lambda>r b. Option.bind b (\<lambda>d. round_backoff d r)"
  have step: "round_backoff d r = Some d' \<Longrightarrow> backoff_base \<le> d \<Longrightarrow> d \<le> backoff_cap \<Longrightarrow> backoff_base \<le> d' \<and> d' \<le> backoff_cap" for d r d'
    by (cases "(d, r)" rule: round_backoff.cases; cases "case r of DialFailed w \<Rightarrow> w | SessionEnded _ _ w \<Rightarrow> w")
      (auto simp: session_backoff_def backoff_base_def backoff_cap_def)
  have stop: "fold ?f rounds None = None" for rounds by (induction rounds) auto
  have "fold ?f rounds (Some e) = Some d \<Longrightarrow> backoff_base \<le> e \<Longrightarrow> e \<le> backoff_cap \<Longrightarrow> backoff_base \<le> d \<and> d \<le> backoff_cap"
    for rounds d e
  proof (induction rounds arbitrary: e)
    case (Cons r rounds)
    then show ?case using step [of e r] stop by (cases "round_backoff e r") auto
  qed simp
  moreover have "backoff_base \<le> backoff_cap" by (simp add: backoff_base_def backoff_cap_def)
  moreover have "fold ?f (replicate n (DialFailed Elapsed)) (Some backoff_base) = Some backoff_cap" if "6 \<le> n" for n
  proof -
    have replicate6: "replicate 6 x = [x, x, x, x, x, x]" for x :: dial_round by (simp add: eval_nat_numeral)
    have six: "fold ?f (replicate 6 (DialFailed Elapsed)) (Some backoff_base) = Some backoff_cap"
      unfolding replicate6 by (simp add: backoff_base_def backoff_cap_def)
    have "fold ?f (replicate k (DialFailed Elapsed)) (Some backoff_cap) = Some backoff_cap" for k
      by (induction k) (simp_all add: backoff_cap_def)
    moreover have "replicate n (DialFailed Elapsed) = replicate 6 (DialFailed Elapsed) @ replicate (n - 6) (DialFailed Elapsed)"
      using that by (simp flip: replicate_add)
    ultimately show ?thesis using six by simp
  qed
  ultimately show ?thesis by blast
qed

theorem backoff_bounded_witness:
  "fold (\<lambda>r b. Option.bind b (\<lambda>d. round_backoff d r)) (replicate 7 (DialFailed Elapsed)) (Some backoff_base) = Some 16000"
  using backoff_bounded by (simp add: backoff_cap_def)

end
