(* ===== verification/Chat_System.thy ===== *)
theory Chat_System
  imports Chat_Client
begin

text \<open>
  A chat client and its room together: the socket as two queues of frames, the server's session and log of
  \<open>Chat_Room\<close>, the HTTP requests underway, the document the sink fills and the cursor it saves with it. Other devices
  push whenever they want; broadcasts may be lost (a lagging subscriber), sockets may break at any moment with frames
  still to be served, answers of HTTP requests may be lost, the document may refuse a row, writing it to disk may fail, and
  the application may crash, or drop the document, and start again from what is on disk.
\<close>

section \<open>States and steps\<close>

text \<open>The document as the sink fills it: the rows and checkpoints it took in, and those it could not import and skipped.\<close>

record sink =
  sk_doc :: "bytes list"
  sk_refused :: "bytes list"

definition taken :: "sink \<Rightarrow> bytes list" where
  "taken k = sk_doc k @ sk_refused k"

record chat_sys =
  sy_db :: chat_db
  sy_client :: chat_client
  sy_phase :: "phase option"
  sy_up :: "wire_frame list"
  sy_down :: "wire_frame list"
  sy_sess :: string
  sy_late :: "wire_frame list"
  sy_posts :: "json list"
  sy_pulled :: "wire_frame list"
  sy_sink :: sink
  sy_disk :: sink
  sy_saved :: nat
  sy_minted :: "string list"

text \<open>
  What an effect does. The sink imports a row, or skips one that does not import (\<open>imp\<close>), and saves the document with the cursor
  either way; the write may fail (\<open>sv\<close>). A frame enters the socket.
\<close>

definition import_row :: "(sink \<Rightarrow> bytes \<Rightarrow> bool) \<Rightarrow> bytes \<Rightarrow> sink \<Rightarrow> sink" where
  "import_row imp p k = (if imp k p then k\<lparr>sk_doc := sk_doc k @ [p]\<rparr> else k\<lparr>sk_refused := sk_refused k @ [p]\<rparr>)"

definition persist_with_cursor :: "(nat \<Rightarrow> bool) \<Rightarrow> nat \<Rightarrow> chat_sys \<Rightarrow> chat_sys" where
  "persist_with_cursor sv n s = (if sv n then s\<lparr>sy_disk := sy_sink s, sy_saved := n\<rparr> else s)"

fun perform :: "(sink \<Rightarrow> bytes \<Rightarrow> bool) \<Rightarrow> (nat \<Rightarrow> bool) \<Rightarrow> effect \<Rightarrow> chat_sys \<Rightarrow> chat_sys" where
  "perform imp sv (ApplyRow p n) s = persist_with_cursor sv n (s\<lparr>sy_sink := import_row imp p (sy_sink s)\<rparr>)"
| "perform imp sv (ApplyCheckpoint p n) s = persist_with_cursor sv n (s\<lparr>sy_sink := (sy_sink s)\<lparr>sk_doc := sk_doc (sy_sink s) @ [p]\<rparr>\<rparr>)"
| "perform imp sv (AdvanceCursor n) s = persist_with_cursor sv n s"
| "perform imp sv (Emit e) s = s"
| "perform imp sv (Send f) s = s\<lparr>sy_up := sy_up s @ [f]\<rparr>"

text \<open>A broken socket: what was sent may still be served, what was coming is gone.\<close>

definition disconnect :: "chat_sys \<Rightarrow> chat_sys" where
  "disconnect s = s\<lparr>sy_client := fst (end_session (sy_client s)), sy_phase := None, sy_late := sy_late s @ sy_up s,
     sy_up := [], sy_down := []\<rparr>"

definition client_step :: "(sink \<Rightarrow> bytes \<Rightarrow> bool) \<Rightarrow> (nat \<Rightarrow> bool) \<Rightarrow> chat_sys \<Rightarrow> session_step \<Rightarrow> chat_sys" where
  "client_step imp sv s out = (case out of (ph, c, es) \<Rightarrow>
     (let s' = fold (perform imp sv) es (s\<lparr>sy_client := c\<rparr>)
      in case ph of None \<Rightarrow> disconnect s' | Some p \<Rightarrow> s'\<lparr>sy_phase := Some p\<rparr>))"

definition offline_step :: "(sink \<Rightarrow> bytes \<Rightarrow> bool) \<Rightarrow> (nat \<Rightarrow> bool) \<Rightarrow> chat_sys \<Rightarrow> chat_client \<times> effect list \<Rightarrow> chat_sys" where
  "offline_step imp sv s out = fold (perform imp sv) (snd out) (s\<lparr>sy_client := fst out\<rparr>)"

text \<open>A published row reaches the socket of this client, or is lost.\<close>

definition broadcast :: "bool \<Rightarrow> chat_row list \<Rightarrow> chat_sys \<Rightarrow> chat_sys" where
  "broadcast delivered pub s =
     (if delivered \<and> sy_phase s \<noteq> None then s\<lparr>sy_down := sy_down s @ concat (map (relay_live (sy_sess s)) pub)\<rparr> else s)"

definition restart :: "bool \<Rightarrow> chat_sys \<Rightarrow> chat_sys" where
  "restart transport s = s\<lparr>sy_client := new_client (cl_device (sy_client s)) (sy_saved s) transport, sy_phase := None,
     sy_late := sy_late s @ sy_up s, sy_up := [], sy_down := [], sy_posts := [], sy_pulled := [], sy_sink := sy_disk s\<rparr>"

definition dialled :: "chat_sys \<Rightarrow> chat_sys" where
  "dialled s = s\<lparr>sy_phase := Some Handshake, sy_up := [client_hello (sy_client s)], sy_down := [], sy_sess := []\<rparr>"

inductive chat_step :: "string \<Rightarrow> chat_sys \<Rightarrow> chat_sys \<Rightarrow> bool" for chat where
  dial: "sy_phase s = None \<Longrightarrow> chat_step chat s (dialled s)"
| serve: "sy_up s = f # fs \<Longrightarrow> dispatch (sy_sess s) (sy_db s) chat f = Inr (d, db', replies, pub) \<Longrightarrow>
    chat_step chat s (s\<lparr>sy_up := fs, sy_sess := d, sy_db := db', sy_down := sy_down s @ replies\<rparr>)"
| refuse: "sy_up s = f # fs \<Longrightarrow> dispatch (sy_sess s) (sy_db s) chat f = Inl e \<Longrightarrow> chat_step chat s (s\<lparr>sy_up := fs\<rparr>)"
| deliver: "sy_phase s = Some ph \<Longrightarrow> sy_down s = f # fs \<Longrightarrow>
    chat_step chat s (client_step imp sv (s\<lparr>sy_down := fs\<rparr>) (session_frame now contains ph (sy_client s) (Some f)))"
| no_checkpoint: "sy_phase s = Some (Fetching st buffered) \<Longrightarrow>
    chat_step chat s (client_step imp sv s (on_fetched now import_ok st buffered (sy_client s) None))"
| break: "sy_phase s = Some ph \<Longrightarrow> chat_step chat s (disconnect s)"
| foreign: "dev \<noteq> cl_device (sy_client s) \<Longrightarrow> parse_push (wf_header f) \<notin> Some ` set (sy_minted s) \<Longrightarrow>
    dispatch dev (sy_db s) chat f = Inr (d, db', replies, pub) \<Longrightarrow>
    chat_step chat s (broadcast delivered pub (s\<lparr>sy_db := db'\<rparr>))"
| elsewhere: "chat' \<noteq> chat \<Longrightarrow> dispatch dev (sy_db s) chat' f = Inr (d, db', replies, pub) \<Longrightarrow>
    chat_step chat s (s\<lparr>sy_db := db'\<rparr>)"
| late: "sy_late s = f # fs \<Longrightarrow> dispatch (cl_device (sy_client s)) (sy_db s) chat f = Inr (d, db', replies, pub) \<Longrightarrow>
    chat_step chat s (broadcast delivered pub (s\<lparr>sy_db := db', sy_late := fs\<rparr>))"
| enqueue: "b \<notin> set (sy_minted s) \<Longrightarrow> b \<notin> cr_batch_id ` set (rows_of (sy_db s) chat) \<Longrightarrow>
    chat_step chat s (offline_step imp sv (s\<lparr>sy_minted := b # sy_minted s\<rparr>) (enqueue_update b p (sy_client s)))"
| nudge: "sy_phase s = Some (Steady n) \<Longrightarrow> chat_step chat s (offline_step imp sv s (sy_client s, on_nudge (sy_client s)))"
| retry: "sy_phase s = Some (Steady n) \<Longrightarrow> chat_step chat s (offline_step imp sv s (on_retry (sy_client s)))"
| probe: "sy_phase s = Some (Steady n) \<Longrightarrow> chat_step chat s (offline_step imp sv s (sy_client s, send_probe))"
| presence: "sy_phase s = Some (Steady n) \<Longrightarrow> chat_step chat s (offline_step imp sv s (sy_client s, send_presence at p))"
| post: "b \<in> set (sy_minted s) \<Longrightarrow> dispatch (cl_device (sy_client s)) (sy_db s) chat (push_frame b p) = Inr (d, db', replies, pub) \<Longrightarrow>
    chat_step chat s (broadcast delivered pub
      (s\<lparr>sy_db := db', sy_posts := sy_posts s @ (if answered then map wf_header replies else [])\<rparr>))"
| posted: "sy_posts s = v # vs \<Longrightarrow> chat_step chat s (offline_step imp sv (s\<lparr>sy_posts := vs\<rparr>) (offline_ack (Some v) (sy_client s)))"
| pull: "dispatch (cl_device (sy_client s)) (sy_db s) chat (rows_req_frame after True) = Inr (d, db', rows, pub) \<Longrightarrow>
    chat_step chat s (s\<lparr>sy_pulled := sy_pulled s @ state_frame (pg_state (sy_db s) chat) # rows\<rparr>)"
| pulled_state: "sy_pulled s = f # fs \<Longrightarrow> wf_kind f = frame_state \<Longrightarrow>
    offline_state contains import_ok None cursor (sy_client s) f = (go, out) \<Longrightarrow>
    chat_step chat s (offline_step imp sv (s\<lparr>sy_pulled := (if go then fs else [])\<rparr>) out)"
| pulled_row: "sy_pulled s = f # fs \<Longrightarrow> wf_kind f \<noteq> frame_state \<Longrightarrow>
    chat_step chat s (offline_step imp sv (s\<lparr>sy_pulled := fs\<rparr>) (offline_row (sy_client s) f))"
| crash: "chat_step chat s (restart transport s)"

inductive chat_steps :: "string \<Rightarrow> chat_sys \<Rightarrow> chat_sys \<Rightarrow> bool" for chat where
  none: "chat_steps chat s s"
| more: "chat_steps chat s s' \<Longrightarrow> chat_step chat s' s'' \<Longrightarrow> chat_steps chat s s''"

definition empty_sink :: sink where
  "empty_sink = \<lparr>sk_doc = [], sk_refused = []\<rparr>"

text \<open>A new device joins a room that may already have a log.\<close>

definition chat_init :: "string \<Rightarrow> chat_db \<Rightarrow> bool \<Rightarrow> chat_sys" where
  "chat_init device db transport = \<lparr>sy_db = db, sy_client = new_client device 0 transport, sy_phase = None, sy_up = [], sy_down = [],
     sy_sess = [], sy_late = [], sy_posts = [], sy_pulled = [], sy_sink = empty_sink, sy_disk = empty_sink, sy_saved = 0, sy_minted = []\<rparr>"

section \<open>The invariant\<close>

text \<open>Rows up to a cursor are in the log, and those of other devices are in the document.\<close>

definition reflected :: "string \<Rightarrow> chat_row list \<Rightarrow> bytes list \<Rightarrow> nat \<Rightarrow> bool" where
  "reflected own rows doc n = (n \<le> length rows \<and>
     (\<forall>r \<in> set rows. cr_seq r \<le> n \<longrightarrow> cr_device r = own \<or> cr_payload r \<in> set doc))"

text \<open>An acknowledgement speaks of a row this device wrote.\<close>

definition own_ack :: "string \<Rightarrow> chat_row list \<Rightarrow> json \<Rightarrow> bool" where
  "own_ack own rows h = (\<exists>b q d. h = wf_header (ack_frame b q d) \<and> (\<exists>r \<in> set rows. cr_seq r = q \<and> cr_device r = own))"

text \<open>A frame on its way to the client tells what the log holds.\<close>

definition honest :: "string \<Rightarrow> chat_row list \<Rightarrow> wire_frame \<Rightarrow> bool" where
  "honest own rows f =
     ((wf_kind f = frame_row \<longrightarrow> (\<exists>r \<in> set rows. f = row_frame r)) \<and>
      (wf_kind f = frame_ack \<longrightarrow> own_ack own rows (wf_header f)) \<and>
      (wf_kind f = frame_state \<longrightarrow>
        (\<exists>st. f = state_frame st \<and> rs_head_seq st \<le> length rows \<and> rs_checkpoint_seq st = 0 \<and> rs_checkpoint_size st = 0)))"

text \<open>A frame on its way to the server pushes a batch of this device, or names it.\<close>

definition from_us :: "string \<Rightarrow> string list \<Rightarrow> wire_frame \<Rightarrow> bool" where
  "from_us own minted f =
     ((wf_kind f = frame_push \<longrightarrow> parse_push (wf_header f) \<in> Some ` set minted) \<and>
      (wf_kind f = frame_hello \<longrightarrow> Option.bind (header_get (wf_header f) ''device'') as_str = Some own))"

definition log_ok :: "string \<Rightarrow> string list \<Rightarrow> string \<Rightarrow> chat_db \<Rightarrow> bool" where
  "log_ok own minted chat db = (db_ok db \<and> cd_checkpoints db = [] \<and>
     (\<forall>r \<in> set (rows_of db chat). cr_batch_id r \<in> set minted \<longrightarrow> cr_device r = own))"

fun not_fetching :: "phase option \<Rightarrow> bool" where
  "not_fetching (Some (Fetching _ _)) = False"
| "not_fetching _ = True"

definition socket_ok :: "chat_sys \<Rightarrow> bool" where
  "socket_ok s = (case sy_phase s of
     None \<Rightarrow> sy_up s = []
   | Some _ \<Rightarrow> sy_sess s = cl_device (sy_client s) \<or> (\<exists>f fs. sy_up s = f # fs \<and> wf_kind f = frame_hello))"

definition sys_ok :: "string \<Rightarrow> chat_sys \<Rightarrow> bool" where
  "sys_ok chat s =
     (let own = cl_device (sy_client s); rows = rows_of (sy_db s) chat in
      log_ok own (sy_minted s) chat (sy_db s) \<and>
      pp_batch_id ` set (cl_pending (sy_client s)) \<subseteq> set (sy_minted s) \<and>
      reflected own rows (taken (sy_sink s)) (cl_cursor (sy_client s)) \<and> reflected own rows (taken (sy_disk s)) (sy_saved s) \<and>
      (\<forall>f \<in> set (sy_down s) \<union> set (sy_pulled s). honest own rows f) \<and> (\<forall>v \<in> set (sy_posts s). own_ack own rows v) \<and>
      (\<forall>f \<in> set (sy_up s) \<union> set (sy_late s). from_us own (sy_minted s) f) \<and> socket_ok s \<and> not_fetching (sy_phase s))"

section \<open>The log\<close>

abbreviation numbered :: "chat_row list \<Rightarrow> bool" where
  "numbered rows \<equiv> map cr_seq rows = [1..<Suc (length rows)]"

lemma numbered_nth: "numbered rows \<Longrightarrow> k < length rows \<Longrightarrow> cr_seq (rows ! k) = Suc k"
  by (drule arg_cong [where f = "\<lambda>l. l ! k"]) (simp del: upt_Suc)

lemma numbered_inj: "numbered rows \<Longrightarrow> r \<in> set rows \<Longrightarrow> r' \<in> set rows \<Longrightarrow> cr_seq r = cr_seq r' \<Longrightarrow> r = r'"
  by (metis in_set_conv_nth nat.inject numbered_nth)

lemma numbered_bounds: "numbered rows \<Longrightarrow> r \<in> set rows \<Longrightarrow> 1 \<le> cr_seq r \<and> cr_seq r \<le> length rows"
  by (metis Suc_le_eq in_set_conv_nth le_add1 numbered_nth plus_1_eq_Suc)

lemma reflected_0 [simp]: "numbered rows \<Longrightarrow> reflected own rows doc 0"
  using numbered_bounds [of rows] by (fastforce simp: reflected_def)

lemma reflected_doc: "reflected own rows doc n \<Longrightarrow> set doc \<subseteq> set doc' \<Longrightarrow> reflected own rows doc' n"
  by (auto simp: reflected_def)

lemma reflected_below: "reflected own rows doc n \<Longrightarrow> m \<le> n \<Longrightarrow> reflected own rows doc m"
  by (auto simp: reflected_def)

lemma reflected_grow:
  assumes "reflected own rows doc n" "numbered (rows @ new)"
  shows "reflected own (rows @ new) doc n"
proof -
  have "length rows < cr_seq r" if r: "r \<in> set new" for r
  proof -
    obtain k where "k < length new" "new ! k = r" using r by (meson in_set_conv_nth)
    then show ?thesis using numbered_nth [OF assms(2), of "length rows + k"] by (simp add: nth_append)
  qed
  then show ?thesis using assms(1) by (fastforce simp: reflected_def)
qed

lemma reflected_walk:
  assumes "numbered rows" "reflected own rows doc n" "r \<in> set rows" "cr_seq r \<le> n + 1"
    "cr_device r = own \<or> cr_payload r \<in> set doc"
  shows "reflected own rows doc (max n (cr_seq r))"
proof -
  have "cr_device x = own \<or> cr_payload x \<in> set doc" if "x \<in> set rows" "cr_seq x \<le> max n (cr_seq r)" for x
  proof (cases "cr_seq x \<le> n")
    case False
    then have "cr_seq x = cr_seq r" using that assms(4) by simp
    then show ?thesis using numbered_inj [OF assms(1) that(1) assms(3)] assms(5) by simp
  qed (use assms(2) that in \<open>auto simp: reflected_def\<close>)
  moreover have "max n (cr_seq r) \<le> length rows" using assms(2) numbered_bounds [OF assms(1,3)] by (simp add: reflected_def)
  ultimately show ?thesis by (simp add: reflected_def)
qed

lemma own_ack_grow: "own_ack own rows h \<Longrightarrow> own_ack own (rows @ new) h"
  by (fastforce simp: own_ack_def)

lemma honest_grow: "honest own rows f \<Longrightarrow> honest own (rows @ new) f"
  by (fastforce simp: honest_def own_ack_grow)

lemma from_us_more: "from_us own minted f \<Longrightarrow> set minted \<subseteq> set minted' \<Longrightarrow> from_us own minted' f"
  by (auto simp: from_us_def)

lemma log_ok_numbered: "log_ok own minted chat db \<Longrightarrow> numbered (rows_of db chat)"
  by (simp add: log_ok_def chat_pg.numbered)

text \<open>What serving a frame does to the log: nothing, or a push appends or repeats a row.\<close>

lemma dispatch_cases:
  assumes "dispatch dev db chat f = Inr (d, db', replies, pub)"
  obtains (same) "db' = db" "pub = []" "wf_kind f \<noteq> frame_push" "wf_kind f \<noteq> frame_hello \<Longrightarrow> d = dev"
  | (push) b q dup where "wf_kind f = frame_push" "d = dev" "parse_push (wf_header f) = Some b"
      "pg_append db chat dev b (wf_payload f) = (db', q, dup)" "replies = [ack_frame b q dup]"
      "pub = (if dup then [] else [\<lparr>cr_seq = q, cr_device = dev, cr_batch_id = b, cr_payload = wf_payload f\<rparr>])"
  using assms by (auto simp: dispatch_def Let_def split: if_splits option.splits prod.splits)

lemma pg_append_checkpoints: "pg_append db chat d b p = (db', q, dup) \<Longrightarrow> cd_checkpoints db' = cd_checkpoints db"
  by (auto simp: pg_append_def Let_def split: option.splits)

lemma dispatch_log:
  assumes "log_ok own minted chat db" "dispatch dev db chat' f = Inr (d, db', replies, pub)"
    and "chat' = chat \<Longrightarrow> dev = own \<or> parse_push (wf_header f) \<notin> Some ` set minted"
  shows "log_ok own minted chat db' \<and> (\<exists>new. rows_of db' chat = rows_of db chat @ new) \<and>
    (chat' = chat \<longrightarrow> set pub \<subseteq> set (rows_of db' chat))"
  using assms(2)
proof (cases rule: dispatch_cases)
  case same
  then show ?thesis using assms(1) by simp
next
  case (push b q dup)
  have db: "db_ok db" using assms(1) by (simp add: log_ok_def)
  have ok: "db_ok db'" "cd_checkpoints db' = []" and rows:
    "if dup then db' = db else rows_of db' chat' = rows_of db chat' @ [\<lparr>cr_seq = q, cr_device = dev, cr_batch_id = b, cr_payload = wf_payload f\<rparr>]"
    using chat_pg.app_ok [OF db push(4)] pg_append_checkpoints [OF push(4)] assms(1) by (auto simp: log_ok_def)
  have "dev = own \<or> b \<notin> set minted" if "chat' = chat" using assms(3) [OF that] push(3) by auto
  moreover have "rows_of db' chat = rows_of db chat" if "chat' \<noteq> chat" using pg_append_other [OF push(4)] that by metis
  ultimately show ?thesis using rows ok assms(1) push(6) by (cases "chat' = chat"; cases dup) (auto simp: log_ok_def)
qed

lemma broadcast_rows: "x \<in> set pub \<Longrightarrow> f \<in> set (relay_live dev x) \<Longrightarrow> set pub \<subseteq> set rows \<Longrightarrow> honest own rows f"
  by (auto simp: relay_live_def honest_def split: if_splits)

lemma state_frame_honest: "log_ok own minted chat db \<Longrightarrow> honest own (rows_of db chat) (state_frame (pg_state db chat))"
  using db_ok_head [of db chat] by (auto simp: honest_def log_ok_def pg_state_def Let_def split: option.splits intro!: exI)

lemma rows_after_sub: "set (pg_rows_after db chat n ex) \<subseteq> set (rows_of db chat)"
  by (auto simp: pg_rows_after_def)

lemma row_frame_honest: "r \<in> set rows \<Longrightarrow> honest own rows (row_frame r)"
  by (auto simp: honest_def)

lemma done_frame_honest: "honest own rows (rows_done_frame n)"
  by (simp add: honest_def)

lemma probe_ok_honest: "honest own rows \<lparr>wf_kind = frame_probe_ok, wf_header = h, wf_payload = p\<rparr>"
  by (simp add: honest_def)

lemma rows_replies_honest:
  assumes "log_ok own minted chat db" "dispatch dev db chat f = Inr (d, db', replies, pub)" "wf_kind f \<noteq> frame_push"
  shows "\<forall>g \<in> set replies. honest own (rows_of db chat) g"
  using assms(2,3) state_frame_honest [OF assms(1)]
  by (auto simp: dispatch_def Let_def done_frame_honest probe_ok_honest split: if_splits option.splits
      intro!: row_frame_honest subsetD [OF rows_after_sub])

lemma dispatch_honest:
  assumes "log_ok own minted chat db" "dispatch dev db chat f = Inr (d, db', replies, pub)" "from_us own minted f"
    and "dev = own \<or> wf_kind f = frame_hello"
  shows "\<forall>g \<in> set replies. honest own (rows_of db' chat) g"
  using assms(2)
proof (cases rule: dispatch_cases)
  case same
  then show ?thesis using rows_replies_honest [OF assms(1,2)] by simp
next
  case (push b q dup)
  have dev: "dev = own" using assms(4) push(1) by auto
  have b: "b \<in> set minted" using assms(3) push(1,3) by (auto simp: from_us_def)
  have "db_ok db" using assms(1) by (simp add: log_ok_def)
  then obtain r where r: "r \<in> set (rows_of db' chat)" "cr_batch_id r = b" "cr_seq r = q" using chat_pg.app_ok push(4) by blast
  have "log_ok own minted chat db'" using dispatch_log [OF assms(1,2)] dev by simp
  then have "cr_device r = own" using r b by (auto simp: log_ok_def)
  then show ?thesis using r push(5) by (auto simp: honest_def own_ack_def)
qed

section \<open>The client\<close>

text \<open>The document after the effects, the frames they send, and when every cursor they save is honest.\<close>

fun doc_after :: "bytes list \<Rightarrow> effect list \<Rightarrow> bytes list" where
  "doc_after doc [] = doc"
| "doc_after doc (ApplyRow p n # es) = doc_after (doc @ [p]) es"
| "doc_after doc (ApplyCheckpoint p n # es) = doc_after (doc @ [p]) es"
| "doc_after doc (_ # es) = doc_after doc es"

fun effects_ok :: "string \<Rightarrow> chat_row list \<Rightarrow> string list \<Rightarrow> bytes list \<Rightarrow> effect list \<Rightarrow> bool" where
  "effects_ok own rows minted doc [] = True"
| "effects_ok own rows minted doc (ApplyRow p n # es) = (reflected own rows (doc @ [p]) n \<and> effects_ok own rows minted (doc @ [p]) es)"
| "effects_ok own rows minted doc (ApplyCheckpoint p n # es) = (reflected own rows (doc @ [p]) n \<and> effects_ok own rows minted (doc @ [p]) es)"
| "effects_ok own rows minted doc (AdvanceCursor n # es) = (reflected own rows doc n \<and> effects_ok own rows minted doc es)"
| "effects_ok own rows minted doc (Emit e # es) = effects_ok own rows minted doc es"
| "effects_ok own rows minted doc (Send f # es) = (from_us own minted f \<and> wf_kind f \<noteq> frame_hello \<and> effects_ok own rows minted doc es)"

lemma doc_after_append [simp]: "doc_after doc (es @ es') = doc_after (doc_after doc es) es'"
  by (induction doc es rule: doc_after.induct) auto

lemma effects_ok_append [simp]:
  "effects_ok own rows minted doc (es @ es') \<longleftrightarrow> effects_ok own rows minted doc es \<and> effects_ok own rows minted (doc_after doc es) es'"
  by (induction own rows minted doc es rule: effects_ok.induct) auto

lemma doc_after_sends [simp]: "doc_after doc (map Send fs) = doc" "effects_ok own rows minted doc (map Send fs) \<longleftrightarrow>
    (\<forall>f \<in> set fs. from_us own minted f \<and> wf_kind f \<noteq> frame_hello)"
  by (induction fs) auto

definition client_ok :: "string \<Rightarrow> chat_row list \<Rightarrow> string list \<Rightarrow> bytes list \<Rightarrow> chat_client \<Rightarrow> bool" where
  "client_ok own rows minted doc c = (cl_device c = own \<and> pp_batch_id ` set (cl_pending c) \<subseteq> set minted \<and>
     reflected own rows doc (cl_cursor c))"

definition step_ok :: "string \<Rightarrow> chat_row list \<Rightarrow> string list \<Rightarrow> bytes list \<Rightarrow> chat_client \<times> effect list \<Rightarrow> bool" where
  "step_ok own rows minted doc out = (effects_ok own rows minted doc (snd out) \<and> client_ok own rows minted (doc_after doc (snd out)) (fst out))"

lemma note_seq_ok:
  assumes "numbered rows" "client_ok own rows minted doc c" "r \<in> set rows" "cr_device r = own \<or> cr_payload r \<in> set doc"
  shows "client_ok own rows minted doc (note_seq (cr_seq r) c)"
  using reflected_walk [OF assms(1) _ assms(3) _ assms(4), of "cl_cursor c"] assms(2) by (auto simp: client_ok_def)

lemma drop_batch_ok: "client_ok own rows minted doc c \<Longrightarrow> client_ok own rows minted doc (drop_batch b c)"
  by (auto simp: client_ok_def)

lemma drain_quota_ok: "client_ok own rows minted doc c \<Longrightarrow> client_ok own rows minted doc (drain_quota n c)"
  by (simp add: client_ok_def)

lemma client_ok_doc: "client_ok own rows minted doc c \<Longrightarrow> set doc \<subseteq> set doc' \<Longrightarrow> client_ok own rows minted doc' c"
  by (auto simp: client_ok_def reflected_doc)

lemma client_ok_cursor: "client_ok own rows minted doc c \<Longrightarrow> reflected own rows doc (cl_cursor c)"
  by (simp add: client_ok_def)

lemma on_error_ok: "client_ok own rows minted doc c \<Longrightarrow> step_ok own rows minted doc (on_error_frame now c h)"
  by (auto simp: on_error_frame_def Let_def step_ok_def client_ok_def)

lemma handle_frame_ok:
  assumes "numbered rows" "client_ok own rows minted doc c" "honest own rows f" "handle_frame now c f = Some out"
  shows "step_ok own rows minted doc out"
proof -
  consider r where "wf_kind f = frame_row" "r \<in> set rows" "f = row_frame r"
    | b q d r where "wf_kind f = frame_ack" "wf_header f = wf_header (ack_frame b q d)" "r \<in> set rows" "cr_seq r = q" "cr_device r = own"
    | "wf_kind f \<noteq> frame_row" "wf_kind f \<noteq> frame_ack"
    using assms(3) unfolding honest_def own_ack_def by blast
  then show ?thesis
  proof cases
    case (1 r)
    have "client_ok own rows minted (doc @ [cr_payload r]) (note_seq (cr_seq r) c)"
      using client_ok_doc [OF assms(2), of "doc @ [cr_payload r]"] by (intro note_seq_ok [OF assms(1)]) (auto simp: 1)
    then show ?thesis using assms(4) 1 client_ok_cursor
      by (auto simp: handle_frame_def parse_row_frame Let_def step_ok_def split: if_splits simp del: note_seq_simps)
  next
    case (2 b q d r)
    have "client_ok own rows minted doc (note_seq (cr_seq r) (drop_batch b c))"
      using drop_batch_ok [OF assms(2)] by (intro note_seq_ok [OF assms(1)]) (auto simp: 2)
    then show ?thesis using assms(4) 2 client_ok_cursor
      by (auto simp: handle_frame_def parse_ack_frame Let_def step_ok_def drain_quota_ok split: if_splits simp del: note_seq_simps)
  next
    case 3
    then show ?thesis using assms(2,4) on_error_ok [OF assms(2)]
      by (auto simp: handle_frame_def step_ok_def client_ok_def split: if_splits option.splits)
  qed
qed

lemma pushes_from_us:
  "client_ok own rows minted doc c \<Longrightarrow> p \<in> set (cl_pending c) \<Longrightarrow> from_us own minted (push_frame (pp_batch_id p) (pp_bytes p))"
  by (auto simp: client_ok_def from_us_def push_frame_def push_header_def parse_push_def req_def fields_get)

lemma push_pending_ok: "client_ok own rows minted doc c \<Longrightarrow> step_ok own rows minted doc (c, push_pending c)"
proof -
  assume ok: "client_ok own rows minted doc c"
  have eq: "push_pending c = map Send (map (\<lambda>p. push_frame (pp_batch_id p) (pp_bytes p)) (cl_pending c))" by (simp add: push_pending_def)
  show ?thesis unfolding step_ok_def snd_conv fst_conv eq doc_after_sends using ok pushes_from_us [OF ok] by auto
qed

lemma rows_req_from_us [simp]: "from_us own minted (rows_req_frame n x)"
  by (simp add: from_us_def)

lemma maybe_repair_ok:
  "client_ok own rows minted doc c \<Longrightarrow> maybe_repair_gap n c = (ph, out) \<Longrightarrow> step_ok own rows minted doc out \<and> not_fetching ph"
  by (auto simp: maybe_repair_gap_def step_ok_def client_ok_def Let_def split: if_splits)

lemma caught_up_ok:
  "client_ok own rows minted doc c \<Longrightarrow> caught_up c head = (ph, out) \<Longrightarrow> step_ok own rows minted doc out \<and> not_fetching ph"
  using maybe_repair_ok [of own rows minted doc "c\<lparr>cl_resumed := True, cl_ready := True\<rparr>" 0]
  by (auto simp: caught_up_def step_ok_def client_ok_def split: prod.splits)

lemma on_state_ok:
  assumes "numbered rows" "client_ok own rows minted doc c" "honest own rows f" "wf_kind f = frame_state"
    and "on_state contains c f = (ph, out)"
  shows "step_ok own rows minted doc out \<and> not_fetching ph"
proof (cases "parse_state (wf_header f)")
  case None
  then show ?thesis using assms(2,5) by (auto simp: on_state_def step_ok_def)
next
  case (Some st)
  then have st: "rs_checkpoint_size st = 0" "rs_checkpoint_seq st = 0"
    using assms(3,4) parse_state_frame_SomeD by (auto simp: honest_def)
  have out: "ph = Some Backfill" "cl_cursor (fst out) \<le> cl_cursor c" "cl_pending (fst out) = cl_pending c"
      "cl_device (fst out) = cl_device c" "snd out = (if rs_head_seq st < cl_cursor c then [Emit ServerReset] else []) @
        [Emit Connected, Send (rows_req_frame (cl_cursor (fst out)) (cl_resumed (fst out)))] @ push_pending (fst out)"
    using assms(5) Some st by (auto simp: on_state_def Let_def plan_catch_up_def amnesty_def split: if_splits)
  have "client_ok own rows minted doc (fst out)" using assms(2) out(2-4) reflected_below by (auto simp: client_ok_def)
  from push_pending_ok [OF this] this show ?thesis using out(1,5) by (auto simp: step_ok_def)
qed

lemma session_frame_ok:
  assumes "numbered rows" "client_ok own rows minted doc c" "honest own rows f" "not_fetching (Some ph)"
    and "session_frame now contains ph c (Some f) = (ph', out)"
  shows "step_ok own rows minted doc out \<and> not_fetching ph'"
proof -
  have idle: "step_ok own rows minted doc (c, [])" using assms(2) by (simp add: step_ok_def)
  note handled = handle_frame_ok [OF assms(1-3), of now]
  show ?thesis
  proof (cases ph)
    case Handshake
    then show ?thesis using assms(5) idle on_state_ok [OF assms(1-3)] by (auto simp: session_frame_def split: if_splits)
  next
    case Backfill
    then show ?thesis using assms(5) idle handled caught_up_ok [OF assms(2)]
      by (auto simp: session_frame_def split: if_splits option.splits)
  next
    case (Steady n)
    show ?thesis
    proof (cases "handle_frame now c f")
      case None
      then show ?thesis using Steady assms(5) idle by (auto simp: session_frame_def)
    next
      case (Some x)
      obtain c' es where x: "x = (c', es)" by (cases x)
      obtain ph2 c2 es2 where r: "maybe_repair_gap n c' = (ph2, c2, es2)" by (metis prod_cases3)
      have "effects_ok own rows minted doc es" "client_ok own rows minted (doc_after doc es) c'"
        using handled [OF Some] x by (simp_all add: step_ok_def)
      with maybe_repair_ok [OF this(2) r] show ?thesis using Steady assms(5) Some x r
        by (auto simp: session_frame_def step_ok_def)
    qed
  qed (use assms(4) in simp)
qed

section \<open>The system keeps the invariant\<close>

fun sends :: "effect list \<Rightarrow> wire_frame list" where
  "sends [] = []"
| "sends (Send f # es) = f # sends es"
| "sends (_ # es) = sends es"

lemma persist_keeps [simp]:
  "sy_db (persist_with_cursor sv n s) = sy_db s"
  "sy_client (persist_with_cursor sv n s) = sy_client s"
  "sy_phase (persist_with_cursor sv n s) = sy_phase s"
  "sy_down (persist_with_cursor sv n s) = sy_down s"
  "sy_sess (persist_with_cursor sv n s) = sy_sess s"
  "sy_late (persist_with_cursor sv n s) = sy_late s"
  "sy_posts (persist_with_cursor sv n s) = sy_posts s"
  "sy_pulled (persist_with_cursor sv n s) = sy_pulled s"
  "sy_minted (persist_with_cursor sv n s) = sy_minted s"
  "sy_up (persist_with_cursor sv n s) = sy_up s"
  "sy_sink (persist_with_cursor sv n s) = sy_sink s"
  by (simp_all add: persist_with_cursor_def)

lemma set_taken_import [simp]: "set (taken (import_row imp p k)) = insert p (set (taken k))"
  by (auto simp: import_row_def taken_def)

text \<open>What the effects leave alone, and what they send.\<close>

definition same_wires :: "chat_sys \<Rightarrow> chat_sys \<Rightarrow> bool" where
  "same_wires s t = (sy_db t = sy_db s \<and>
     sy_client t = sy_client s \<and>
     sy_phase t = sy_phase s \<and>
     sy_down t = sy_down s \<and>
     sy_sess t = sy_sess s \<and>
     sy_late t = sy_late s \<and>
     sy_posts t = sy_posts s \<and>
     sy_pulled t = sy_pulled s \<and>
     sy_minted t = sy_minted s)"

lemma fold_perform_wires: "same_wires s (fold (perform imp sv) es s) \<and> sy_up (fold (perform imp sv) es s) = sy_up s @ sends es"
proof (induction es arbitrary: s)
  case (Cons e es)
  have "same_wires s (perform imp sv e s) \<and> sy_up (perform imp sv e s) = sy_up s @ sends [e]" by (cases e) (simp_all add: same_wires_def)
  then show ?case using Cons [of "perform imp sv e s"] by (cases e) (simp_all add: same_wires_def)
qed (simp add: same_wires_def)

lemma fold_perform [simp]:
  "sy_db (fold (perform imp sv) es s) = sy_db s"
  "sy_client (fold (perform imp sv) es s) = sy_client s"
  "sy_phase (fold (perform imp sv) es s) = sy_phase s"
  "sy_down (fold (perform imp sv) es s) = sy_down s"
  "sy_sess (fold (perform imp sv) es s) = sy_sess s"
  "sy_late (fold (perform imp sv) es s) = sy_late s"
  "sy_posts (fold (perform imp sv) es s) = sy_posts s"
  "sy_pulled (fold (perform imp sv) es s) = sy_pulled s"
  "sy_minted (fold (perform imp sv) es s) = sy_minted s"
  "sy_up (fold (perform imp sv) es s) = sy_up s @ sends es"
  using fold_perform_wires [of s imp sv es] by (simp_all add: same_wires_def)

lemma doc_after_set: "set doc \<subseteq> set doc' \<Longrightarrow> set (doc_after doc es) \<subseteq> set (doc_after doc' es)"
proof (induction doc es arbitrary: doc' rule: doc_after.induct)
  case (2 doc p n es)
  show ?case using 2(1) [of "doc' @ [p]"] 2(2) by auto
next
  case (3 doc p n es)
  show ?case using 3(1) [of "doc' @ [p]"] 3(2) by auto
qed auto

lemma doc_after_grows: "set doc \<subseteq> set (doc_after doc es)"
  by (induction doc es rule: doc_after.induct) auto

lemma fold_perform_taken: "set (taken (sy_sink (fold (perform imp sv) es s))) = set (doc_after (taken (sy_sink s)) es)"
proof (induction es arbitrary: s)
  case (Cons e es)
  have same: "set (doc_after a es) = set (doc_after b es)" if "set a = set b" for a b :: "bytes list"
    using doc_after_set [of a b es] doc_after_set [of b a es] that by simp
  have "set (doc_after (taken (import_row imp p k)) es) = set (doc_after (taken k @ [p]) es)"
      "set (doc_after (taken (k\<lparr>sk_doc := sk_doc k @ [p]\<rparr>)) es) = set (doc_after (taken k @ [p]) es)" for p k
    by (rule same, simp, rule same, simp add: taken_def insert_commute)
  then show ?case using Cons by (cases e) simp_all
qed simp

lemma effects_ok_set: "effects_ok own rows minted doc es \<Longrightarrow> set doc \<subseteq> set doc' \<Longrightarrow> effects_ok own rows minted doc' es"
proof (induction own rows minted doc es arbitrary: doc' rule: effects_ok.induct)
  case (2 own rows minted doc p n es)
  then show ?case using reflected_doc [of own rows "doc @ [p]" n "doc' @ [p]"] 2(1) [of "doc' @ [p]"] by (simp add: subset_insertI2)
next
  case (3 own rows minted doc p n es)
  then show ?case using reflected_doc [of own rows "doc @ [p]" n "doc' @ [p]"] 3(1) [of "doc' @ [p]"] by (simp add: subset_insertI2)
qed (auto elim: reflected_doc)

text \<open>What is on disk accounts for the cursor saved with it.\<close>

lemma saved_after_ok:
  "effects_ok own rows minted (taken (sy_sink s)) es \<Longrightarrow> reflected own rows (taken (sy_disk s)) (sy_saved s) \<Longrightarrow>
   reflected own rows (taken (sy_disk (fold (perform imp sv) es s))) (sy_saved (fold (perform imp sv) es s))"
proof (induction es arbitrary: s)
  case (Cons e es)
  have "reflected own rows (taken (sy_disk (perform imp sv e s))) (sy_saved (perform imp sv e s)) \<and>
      effects_ok own rows minted (taken (sy_sink (perform imp sv e s))) es"
  proof (cases e)
    case (ApplyRow p n)
    then have r: "reflected own rows (taken (sy_sink s) @ [p]) n" "effects_ok own rows minted (taken (sy_sink s) @ [p]) es" using Cons.prems by simp_all
    show ?thesis using Cons.prems(2) reflected_doc [OF r(1), of "taken (import_row imp p (sy_sink s))"]
        effects_ok_set [OF r(2), of "taken (import_row imp p (sy_sink s))"] by (auto simp: ApplyRow persist_with_cursor_def)
  next
    case (ApplyCheckpoint p n)
    then have r: "reflected own rows (taken (sy_sink s) @ [p]) n" "effects_ok own rows minted (taken (sy_sink s) @ [p]) es" using Cons.prems by simp_all
    show ?thesis using Cons.prems(2) reflected_doc [OF r(1), of "taken ((sy_sink s)\<lparr>sk_doc := sk_doc (sy_sink s) @ [p]\<rparr>)"]
        effects_ok_set [OF r(2), of "taken ((sy_sink s)\<lparr>sk_doc := sk_doc (sy_sink s) @ [p]\<rparr>)"]
      by (auto simp: ApplyCheckpoint persist_with_cursor_def taken_def)
  qed (use Cons.prems in \<open>auto simp: persist_with_cursor_def\<close>)
  then show ?case using Cons.IH [of "perform imp sv e s"] by simp
qed simp

lemma sends_from_us: "effects_ok own rows minted doc es \<Longrightarrow> f \<in> set (sends es) \<Longrightarrow> from_us own minted f"
  by (induction own rows minted doc es rule: effects_ok.induct) auto

lemma sys_ok_parts:
  assumes "sys_ok chat s"
  shows "log_ok (cl_device (sy_client s)) (sy_minted s) chat (sy_db s)"
    "numbered (rows_of (sy_db s) chat)"
    "client_ok (cl_device (sy_client s)) (rows_of (sy_db s) chat) (sy_minted s) (taken (sy_sink s)) (sy_client s)"
    "reflected (cl_device (sy_client s)) (rows_of (sy_db s) chat) (taken (sy_disk s)) (sy_saved s)"
    "f \<in> set (sy_down s) \<Longrightarrow> honest (cl_device (sy_client s)) (rows_of (sy_db s) chat) f"
    "f \<in> set (sy_pulled s) \<Longrightarrow> honest (cl_device (sy_client s)) (rows_of (sy_db s) chat) f"
    "v \<in> set (sy_posts s) \<Longrightarrow> own_ack (cl_device (sy_client s)) (rows_of (sy_db s) chat) v"
    "f \<in> set (sy_up s) \<Longrightarrow> from_us (cl_device (sy_client s)) (sy_minted s) f"
    "f \<in> set (sy_late s) \<Longrightarrow> from_us (cl_device (sy_client s)) (sy_minted s) f"
    "socket_ok s" "not_fetching (sy_phase s)"
  using assms log_ok_numbered [of "cl_device (sy_client s)" "sy_minted s" chat "sy_db s"]
  by (auto simp: sys_ok_def client_ok_def Let_def)

lemma socket_ok_simps [simp]:
  "socket_ok (s\<lparr>sy_down := x1\<rparr>) = socket_ok s" "socket_ok (s\<lparr>sy_db := x2\<rparr>) = socket_ok s"
  "socket_ok (s\<lparr>sy_late := x3\<rparr>) = socket_ok s" "socket_ok (s\<lparr>sy_posts := x4\<rparr>) = socket_ok s"
  "socket_ok (s\<lparr>sy_pulled := x5\<rparr>) = socket_ok s" "socket_ok (s\<lparr>sy_minted := x6\<rparr>) = socket_ok s"
  by (simp_all add: socket_ok_def split: option.split)

lemma sys_okI:
  assumes "log_ok (cl_device (sy_client s)) (sy_minted s) chat (sy_db s)"
    "client_ok (cl_device (sy_client s)) (rows_of (sy_db s) chat) (sy_minted s) (taken (sy_sink s)) (sy_client s)"
    "reflected (cl_device (sy_client s)) (rows_of (sy_db s) chat) (taken (sy_disk s)) (sy_saved s)"
    "\<And>f. f \<in> set (sy_down s) \<Longrightarrow> honest (cl_device (sy_client s)) (rows_of (sy_db s) chat) f"
    "\<And>f. f \<in> set (sy_pulled s) \<Longrightarrow> honest (cl_device (sy_client s)) (rows_of (sy_db s) chat) f"
    "\<And>v. v \<in> set (sy_posts s) \<Longrightarrow> own_ack (cl_device (sy_client s)) (rows_of (sy_db s) chat) v"
    "\<And>f. f \<in> set (sy_up s) \<Longrightarrow> from_us (cl_device (sy_client s)) (sy_minted s) f"
    "\<And>f. f \<in> set (sy_late s) \<Longrightarrow> from_us (cl_device (sy_client s)) (sy_minted s) f"
    "socket_ok s" "not_fetching (sy_phase s)"
  shows "sys_ok chat s"
  using assms by (auto simp: sys_ok_def client_ok_def Let_def)

lemma offline_step_ok:
  assumes "sys_ok chat s"
    and "step_ok (cl_device (sy_client s)) (rows_of (sy_db s) chat) (sy_minted s) (taken (sy_sink s)) out"
    and "sends (snd out) = [] \<or> sy_phase s \<noteq> None"
  shows "sys_ok chat (offline_step imp sv s out)"
proof -
  note parts = sys_ok_parts [OF assms(1)]
  have out: "cl_device (fst out) = cl_device (sy_client s)" using assms(2) by (simp add: step_ok_def client_ok_def)
  have "socket_ok (offline_step imp sv s out)" using parts(10) assms(3)
    by (auto simp: socket_ok_def offline_step_def out split: option.splits)
  moreover have "client_ok (cl_device (sy_client s)) (rows_of (sy_db s) chat) (sy_minted s) (taken (sy_sink (offline_step imp sv s out))) (fst out)"
  proof (rule client_ok_doc)
    show "client_ok (cl_device (sy_client s)) (rows_of (sy_db s) chat) (sy_minted s) (doc_after (taken (sy_sink s)) (snd out)) (fst out)"
      using assms(2) by (simp add: step_ok_def)
  qed (simp add: offline_step_def fold_perform_taken)
  moreover have "reflected (cl_device (sy_client s)) (rows_of (sy_db s) chat) (taken (sy_disk (offline_step imp sv s out))) (sy_saved (offline_step imp sv s out))"
    unfolding offline_step_def using assms(2) parts(4) by (intro saved_after_ok) (auto simp: step_ok_def)
  ultimately show ?thesis
    using parts assms(2) out sends_from_us [of "cl_device (sy_client s)"]
    by (intro sys_okI) (auto simp: offline_step_def step_ok_def)
qed

lemma disconnect_ok: "sys_ok chat s \<Longrightarrow> sys_ok chat (disconnect s)"
  using sys_ok_parts [of chat s] by (intro sys_okI) (auto simp: disconnect_def end_session_def client_ok_def socket_ok_def)

lemma phase_ok: "sys_ok chat s \<Longrightarrow> sy_phase s \<noteq> None \<Longrightarrow> not_fetching (Some p) \<Longrightarrow> sys_ok chat (s\<lparr>sy_phase := Some p\<rparr>)"
  using sys_ok_parts [of chat s] by (intro sys_okI) (auto simp: socket_ok_def)

lemma client_step_ok:
  assumes "sys_ok chat s" "sy_phase s \<noteq> None"
    and "step_ok (cl_device (sy_client s)) (rows_of (sy_db s) chat) (sy_minted s) (taken (sy_sink s)) (snd out)" "not_fetching (fst out)"
  shows "sys_ok chat (client_step imp sv s out)"
proof -
  have step: "client_step imp sv s out = (case fst out of None \<Rightarrow> disconnect (offline_step imp sv s (snd out))
      | Some p \<Rightarrow> (offline_step imp sv s (snd out))\<lparr>sy_phase := Some p\<rparr>)"
    by (simp add: client_step_def offline_step_def case_prod_unfold Let_def split: option.split)
  have ok: "sys_ok chat (offline_step imp sv s (snd out))" by (rule offline_step_ok [OF assms(1,3)]) (simp add: assms(2))
  moreover have "sy_phase (offline_step imp sv s (snd out)) \<noteq> None" using assms(2) by (simp add: offline_step_def)
  ultimately show ?thesis using assms(4) unfolding step by (auto simp: disconnect_ok intro!: phase_ok split: option.split)
qed

lemma drop_down_ok: "sys_ok chat s \<Longrightarrow> sy_down s = f # fs \<Longrightarrow> sys_ok chat (s\<lparr>sy_down := fs\<rparr>)"
  using sys_ok_parts [of chat s] by (intro sys_okI) auto

lemma db_grow_ok:
  assumes "sys_ok chat s" "log_ok (cl_device (sy_client s)) (sy_minted s) chat db'" "\<exists>new. rows_of db' chat = rows_of (sy_db s) chat @ new"
  shows "sys_ok chat (s\<lparr>sy_db := db'\<rparr>)"
proof -
  obtain new where new: "rows_of db' chat = rows_of (sy_db s) chat @ new" using assms(3) by blast
  have num: "numbered (rows_of (sy_db s) chat @ new)" using log_ok_numbered [OF assms(2)] new by simp
  note parts = sys_ok_parts [OF assms(1)]
  show ?thesis using parts assms(2) reflected_grow [OF _ num] honest_grow own_ack_grow
    by (intro sys_okI) (auto simp: new client_ok_def)
qed

lemma broadcast_ok:
  assumes "sys_ok chat s" "set pub \<subseteq> set (rows_of (sy_db s) chat)"
  shows "sys_ok chat (broadcast delivered pub s)"
proof -
  have "sys_ok chat (s\<lparr>sy_down := sy_down s @ concat (map (relay_live (sy_sess s)) pub)\<rparr>)"
    using sys_ok_parts [OF assms(1)] broadcast_rows [OF _ _ assms(2)] by (intro sys_okI) auto
  then show ?thesis using assms(1) by (simp add: broadcast_def)
qed

lemma posts_ok: "sys_ok chat s \<Longrightarrow> (\<And>v. v \<in> set vs \<Longrightarrow> own_ack (cl_device (sy_client s)) (rows_of (sy_db s) chat) v) \<Longrightarrow>
    sys_ok chat (s\<lparr>sy_posts := vs\<rparr>)"
  using sys_ok_parts [of chat s] by (intro sys_okI) auto

lemma pulled_ok: "sys_ok chat s \<Longrightarrow> (\<And>f. f \<in> set fs \<Longrightarrow> honest (cl_device (sy_client s)) (rows_of (sy_db s) chat) f) \<Longrightarrow>
    sys_ok chat (s\<lparr>sy_pulled := fs\<rparr>)"
  using sys_ok_parts [of chat s] by (intro sys_okI) auto

lemma late_ok: "sys_ok chat s \<Longrightarrow> set fs \<subseteq> set (sy_late s) \<Longrightarrow> sys_ok chat (s\<lparr>sy_late := fs\<rparr>)"
  using sys_ok_parts [of chat s] by (intro sys_okI) auto

lemma dial_ok: "sys_ok chat s \<Longrightarrow> sy_phase s = None \<Longrightarrow> sys_ok chat (dialled s)"
  using sys_ok_parts [of chat s]
  by (intro sys_okI) (auto simp: dialled_def socket_ok_def from_us_def, simp add: client_hello_def header_get_def fields_get)

lemma restart_ok: "sys_ok chat s \<Longrightarrow> sys_ok chat (restart transport s)"
  using sys_ok_parts [of chat s] by (intro sys_okI) (auto simp: restart_def new_client_def client_ok_def socket_ok_def)

lemma hello_device:
  "dispatch dev db chat f = Inr (d, db', replies, pub) \<Longrightarrow> wf_kind f = frame_hello \<Longrightarrow> from_us own minted f \<Longrightarrow> d = own"
  by (auto simp: dispatch_def Let_def from_us_def)

lemma serve_ok:
  assumes "sys_ok chat s" "sy_up s = f # fs" "dispatch (sy_sess s) (sy_db s) chat f = Inr (d, db', replies, pub)"
  shows "sys_ok chat (s\<lparr>sy_up := fs, sy_sess := d, sy_db := db', sy_down := sy_down s @ replies\<rparr>)"
proof -
  note parts = sys_ok_parts [OF assms(1)]
  let ?own = "cl_device (sy_client s)"
  have us: "from_us ?own (sy_minted s) f" using parts(8) assms(2) by simp
  have phase: "sy_phase s \<noteq> None" using parts(10) assms(2) by (auto simp: socket_ok_def split: option.splits)
  then have sess: "sy_sess s = ?own \<or> wf_kind f = frame_hello" using parts(10) assms(2) by (auto simp: socket_ok_def)
  have safe: "sy_sess s = ?own \<or> parse_push (wf_header f) \<notin> Some ` set (sy_minted s) \<or> db' = sy_db s"
    using sess assms(3) by (auto elim: dispatch_cases)
  have d: "d = ?own" using sess hello_device [OF assms(3) _ us] assms(3) by (auto elim: dispatch_cases)
  have log: "log_ok ?own (sy_minted s) chat db'" "\<exists>new. rows_of db' chat = rows_of (sy_db s) chat @ new"
    using safe dispatch_log [OF parts(1) assms(3)] parts(1) by auto
  have "sys_ok chat (s\<lparr>sy_db := db'\<rparr>)" by (rule db_grow_ok [OF assms(1) log])
  from sys_ok_parts [OF this] show ?thesis
    using dispatch_honest [OF parts(1) assms(3) us sess] assms(2) d phase by (intro sys_okI) (auto simp: socket_ok_def)
qed

lemma refuse_ok:
  assumes "sys_ok chat s" "sy_up s = f # fs" "dispatch (sy_sess s) (sy_db s) chat f = Inl e"
  shows "sys_ok chat (s\<lparr>sy_up := fs\<rparr>)"
proof -
  have "wf_kind f \<noteq> frame_hello" using assms(3) by (auto simp: dispatch_def Let_def)
  then show ?thesis using sys_ok_parts [OF assms(1)] assms(2) by (intro sys_okI) (auto simp: socket_ok_def split: option.splits)
qed

lemma offline_ack_ok:
  assumes "numbered rows" "client_ok own rows minted doc c" "own_ack own rows v"
  shows "step_ok own rows minted doc (offline_ack (Some v) c)" "sends (snd (offline_ack (Some v) c)) = []"
proof -
  obtain b q d r where v: "v = wf_header (ack_frame b q d)" and r: "r \<in> set rows" "cr_seq r = q" "cr_device r = own"
    using assms(3) by (auto simp: own_ack_def)
  have get: "header_get v ''batchId'' = Some (JStr b)" "header_get v ''seq'' = Some (num q)"
    by (simp_all add: v ack_frame_def header_get_def fields_get)
  have c: "client_ok own rows minted doc (drop_batch b c)" by (rule drop_batch_ok [OF assms(2)])
  have "reflected own rows doc (max (cl_cursor c) q)" if "q \<le> cl_cursor c + 1"
    using reflected_walk [OF assms(1) _ r(1), of own doc "cl_cursor c"] c that r by (simp add: client_ok_def)
  then show "step_ok own rows minted doc (offline_ack (Some v) c)"
    using c assms(2) by (auto simp: offline_ack_def get as_u64_def num_def Let_def step_ok_def client_ok_def)
  show "sends (snd (offline_ack (Some v) c)) = []" by (simp add: offline_ack_def Let_def split: option.split)
qed

lemma offline_row_ok:
  assumes "numbered rows" "client_ok own rows minted doc c" "honest own rows f"
  shows "step_ok own rows minted doc (offline_row c f)" "sends (snd (offline_row c f)) = []"
proof -
  show "sends (snd (offline_row c f)) = []" by (auto simp: offline_row_def Let_def split: option.split)
  show "step_ok own rows minted doc (offline_row c f)"
  proof (cases "wf_kind f = frame_row")
    case True
    then obtain r where r: "r \<in> set rows" "f = row_frame r" using assms(3) by (auto simp: honest_def)
    have c: "client_ok own rows minted (doc @ [cr_payload r]) c" by (rule client_ok_doc [OF assms(2)]) auto
    then have "reflected own rows (doc @ [cr_payload r]) (max (cl_cursor c) (cr_seq r))" if "cr_seq r \<le> cl_cursor c + 1"
      using reflected_walk [OF assms(1) _ r(1), of own "doc @ [cr_payload r]" "cl_cursor c"] that by (simp add: client_ok_def)
    then show ?thesis using c assms(2) r by (auto simp: offline_row_def parse_row_frame Let_def step_ok_def client_ok_def)
  qed (use assms(2) in \<open>simp add: offline_row_def step_ok_def\<close>)
qed

lemma offline_state_ok:
  assumes "client_ok own rows minted doc c" "honest own rows f" "wf_kind f = frame_state"
    and "offline_state contains import_ok None cursor c f = (go, out)"
  shows "step_ok own rows minted doc out" "sends (snd out) = []"
  using assms by (auto simp: offline_state_def step_ok_def client_ok_def Let_def split: option.splits catch_up_plan.splits)

lemma enqueue_ok:
  assumes "sys_ok chat s" "b \<notin> set (sy_minted s)" "b \<notin> cr_batch_id ` set (rows_of (sy_db s) chat)"
  shows "sys_ok chat (offline_step imp sv (s\<lparr>sy_minted := b # sy_minted s\<rparr>) (enqueue_update b p (sy_client s)))"
proof -
  note parts = sys_ok_parts [OF assms(1)]
  have us: "from_us (cl_device (sy_client s)) (b # sy_minted s) f" if "from_us (cl_device (sy_client s)) (sy_minted s) f" for f
    by (rule from_us_more [OF that]) auto
  have "sys_ok chat (s\<lparr>sy_minted := b # sy_minted s\<rparr>)"
    using parts assms(3) us by (intro sys_okI) (auto simp: log_ok_def client_ok_def)
  then show ?thesis using parts(3)
    by (intro offline_step_ok) (auto simp: enqueue_update_def step_ok_def client_ok_def)
qed

theorem chat_step_ok: "chat_step chat s s' \<Longrightarrow> sys_ok chat s \<Longrightarrow> sys_ok chat s'"
proof (induction rule: chat_step.induct)
  case (deliver s ph f fs imp sv now contains)
  note parts = sys_ok_parts [OF deliver.prems]
  obtain ph' out where out: "session_frame now contains ph (sy_client s) (Some f) = (ph', out)" by (metis surj_pair)
  have "step_ok (cl_device (sy_client s)) (rows_of (sy_db s) chat) (sy_minted s) (taken (sy_sink s)) out \<and> not_fetching ph'"
    using parts deliver.hyps out by (intro session_frame_ok) auto
  then show ?case using client_step_ok [OF drop_down_ok [OF deliver.prems deliver.hyps(2)]] deliver.hyps(1) out by simp
next
  case (no_checkpoint s st buffered imp sv now import_ok)
  then show ?case using sys_ok_parts(11) [OF no_checkpoint.prems] by simp
next
  case (foreign dev s f d db' replies pub delivered)
  note parts = sys_ok_parts [OF foreign.prems]
  have "log_ok (cl_device (sy_client s)) (sy_minted s) chat db' \<and> (\<exists>new. rows_of db' chat = rows_of (sy_db s) chat @ new) \<and>
      set pub \<subseteq> set (rows_of db' chat)"
    using dispatch_log [OF parts(1) foreign.hyps(3)] foreign.hyps(2) by simp
  then show ?case using db_grow_ok [OF foreign.prems] by (intro broadcast_ok) auto
next
  case (elsewhere chat' dev s f d db' replies pub)
  note parts = sys_ok_parts [OF elsewhere.prems]
  show ?case using dispatch_log [OF parts(1) elsewhere.hyps(2)] elsewhere.hyps(1) by (intro db_grow_ok [OF elsewhere.prems]) auto
next
  case (late s f fs d db' replies pub delivered)
  note parts = sys_ok_parts [OF late.prems]
  have log: "log_ok (cl_device (sy_client s)) (sy_minted s) chat db' \<and> (\<exists>new. rows_of db' chat = rows_of (sy_db s) chat @ new) \<and>
      set pub \<subseteq> set (rows_of db' chat)"
    using dispatch_log [OF parts(1) late.hyps(2)] by simp
  then have "sys_ok chat (s\<lparr>sy_db := db', sy_late := fs\<rparr>)"
    using late_ok [OF db_grow_ok [OF late.prems], of db' fs] late.hyps(1) by auto
  then show ?case using log by (intro broadcast_ok) auto
next
  case (post b s p d db' replies pub delivered answered)
  note parts = sys_ok_parts [OF post.prems]
  have us: "from_us (cl_device (sy_client s)) (sy_minted s) (push_frame b p)"
    using post.hyps(1) by (simp add: from_us_def) (simp add: push_frame_def push_header_def parse_push_def req_def fields_get)
  have log: "log_ok (cl_device (sy_client s)) (sy_minted s) chat db' \<and> (\<exists>new. rows_of db' chat = rows_of (sy_db s) chat @ new) \<and>
      set pub \<subseteq> set (rows_of db' chat)"
    using dispatch_log [OF parts(1) post.hyps(2)] by simp
  have grown: "sys_ok chat (s\<lparr>sy_db := db'\<rparr>)" using db_grow_ok [OF post.prems] log by auto
  have "\<forall>g \<in> set replies. own_ack (cl_device (sy_client s)) (rows_of db' chat) (wf_header g)"
    using dispatch_honest [OF parts(1) post.hyps(2) us] post.hyps(2) by (auto simp: dispatch_push honest_def split: prod.splits)
  then have "own_ack (cl_device (sy_client s)) (rows_of db' chat) v"
    if "v \<in> set (sy_posts s @ (if answered then map wf_header replies else []))" for v
    using that sys_ok_parts(7) [OF grown, of v] by (auto split: if_splits)
  then have "sys_ok chat (s\<lparr>sy_db := db', sy_posts := sy_posts s @ (if answered then map wf_header replies else [])\<rparr>)"
    using posts_ok [OF grown, of "sy_posts s @ (if answered then map wf_header replies else [])"] by simp
  then show ?case using log by (intro broadcast_ok) auto
next
  case (posted s v vs imp sv)
  note parts = sys_ok_parts [OF posted.prems]
  have "sys_ok chat (s\<lparr>sy_posts := vs\<rparr>)" using posts_ok [OF posted.prems] parts(7) posted.hyps by simp
  then show ?case using offline_ack_ok [OF parts(2,3), of v] parts(7) posted.hyps by (intro offline_step_ok) auto
next
  case (pull s after d db' rows pub)
  note parts = sys_ok_parts [OF pull.prems]
  show ?case using rows_replies_honest [OF parts(1) pull.hyps] state_frame_honest [OF parts(1)] parts(6)
    by (intro pulled_ok [OF pull.prems]) auto
next
  case (pulled_state s f fs contains import_ok cursor go out imp sv)
  note parts = sys_ok_parts [OF pulled_state.prems]
  have "sys_ok chat (s\<lparr>sy_pulled := (if go then fs else [])\<rparr>)"
    using parts(6) pulled_state.hyps(1) by (intro pulled_ok [OF pulled_state.prems]) (auto split: if_splits)
  then show ?case using offline_state_ok [OF parts(3) _ pulled_state.hyps(2,3)] parts(6) pulled_state.hyps(1)
    by (intro offline_step_ok) auto
next
  case (pulled_row s f fs imp sv)
  note parts = sys_ok_parts [OF pulled_row.prems]
  have "sys_ok chat (s\<lparr>sy_pulled := fs\<rparr>)" using pulled_ok [OF pulled_row.prems] parts(6) pulled_row.hyps by auto
  then show ?case using offline_row_ok [OF parts(2,3), of f] parts(6) pulled_row.hyps by (intro offline_step_ok) auto
next
  case (nudge s n imp sv)
  then show ?case using push_pending_ok sys_ok_parts(3) by (intro offline_step_ok) (auto simp: on_nudge_def)
next
  case (retry s n imp sv)
  note parts = sys_ok_parts [OF retry.prems]
  have "step_ok (cl_device (sy_client s)) (rows_of (sy_db s) chat) (sy_minted s) (taken (sy_sink s)) (on_retry (sy_client s))"
    using pushes_from_us [OF parts(3)] parts(3) by (auto simp: on_retry_def push_head_def step_ok_def client_ok_def split: list.split)
  then show ?case using retry by (intro offline_step_ok) auto
next
  case (probe s n imp sv)
  then show ?case using sys_ok_parts(3) by (intro offline_step_ok) (auto simp: send_probe_def step_ok_def from_us_def)
next
  case (presence s n imp sv at p)
  then show ?case using sys_ok_parts(3) by (intro offline_step_ok) (auto simp: send_presence_def step_ok_def from_us_def)
qed (simp_all add: dial_ok serve_ok refuse_ok disconnect_ok enqueue_ok restart_ok)

lemma chat_steps_ok: "chat_steps chat s s' \<Longrightarrow> sys_ok chat s \<Longrightarrow> sys_ok chat s'"
  by (induction rule: chat_steps.induct) (auto intro: chat_step_ok)

lemma chat_init_ok: "db_ok db \<Longrightarrow> cd_checkpoints db = [] \<Longrightarrow> sys_ok chat (chat_init device db transport)"
  by (intro sys_okI) (simp_all add: chat_init_def new_client_def log_ok_def client_ok_def chat_pg.numbered socket_ok_def)

text \<open>The device never changes.\<close>

lemma handle_frame_device: "handle_frame now c f = Some (c', es) \<Longrightarrow> cl_device c' = cl_device c"
  by (auto simp: handle_frame_def on_error_frame_def Let_def split: if_splits option.splits)

lemma maybe_repair_device: "cl_device (fst (snd (maybe_repair_gap n c))) = cl_device c"
  by (simp add: maybe_repair_gap_def Let_def)

lemma on_state_device: "cl_device (fst (snd (on_state contains c f))) = cl_device c"
  by (simp add: on_state_def amnesty_def Let_def split: option.split)

lemma session_frame_device: "cl_device (fst (snd (session_frame now contains ph c fo))) = cl_device c"
  using maybe_repair_device
  by (auto simp: session_frame_def on_state_device caught_up_def case_prod_unfold Let_def dest: handle_frame_device split: option.split phase.split)

lemma offline_device:
  "cl_device (fst (offline_ack v c)) = cl_device c" "cl_device (fst (offline_row c f)) = cl_device c"
  "cl_device (fst (enqueue_update b p c)) = cl_device c" "cl_device (fst (on_retry c)) = cl_device c"
  by (simp_all add: offline_ack_def offline_row_def enqueue_update_def on_retry_def Let_def split: option.split)

lemma offline_state_device: "offline_state contains import_ok None cursor c f = (go, out) \<Longrightarrow> cl_device (fst out) = cl_device c"
  by (auto simp: offline_state_def Let_def split: if_splits option.splits catch_up_plan.splits)

lemma offline_step_device: "cl_device (sy_client (offline_step imp sv s out)) = cl_device (fst out)"
  by (simp add: offline_step_def)

lemma client_step_device: "cl_device (sy_client (client_step imp sv s out)) = cl_device (fst (snd out))"
  by (auto simp: client_step_def disconnect_def end_session_def case_prod_unfold Let_def split: option.split)

lemmas device_simps = offline_step_device client_step_device session_frame_device offline_device offline_state_device

lemma chat_step_device: "chat_step chat s s' \<Longrightarrow> cl_device (sy_client s') = cl_device (sy_client s)"
  by (induction rule: chat_step.induct)
    (simp_all add: device_simps broadcast_def disconnect_def end_session_def restart_def new_client_def on_fetched_def dialled_def)

lemma chat_steps_device: "chat_steps chat s s' \<Longrightarrow> cl_device (sy_client s') = cl_device (sy_client s)"
  by (induction rule: chat_steps.induct) (simp_all add: chat_step_device)

section \<open>Progress\<close>

lemma chat_steps_trans: "chat_steps chat s s' \<Longrightarrow> chat_steps chat s' s'' \<Longrightarrow> chat_steps chat s s''"
  by (rotate_tac, induction rule: chat_steps.induct) (auto intro: chat_steps.more)

lemma chat_steps_one: "chat_step chat s s' \<Longrightarrow> chat_steps chat s s'"
  by (rule chat_steps.more [OF chat_steps.none])

text \<open>Rows that come in a backfill.\<close>

abbreviation walk :: "chat_row list \<Rightarrow> chat_client \<Rightarrow> chat_client" where
  "walk rows c \<equiv> fold (\<lambda>r. note_seq (cr_seq r)) rows c"

lemma walk_contiguous:
  assumes "numbered rows" "cl_cursor c = n" "n \<le> length rows"
  shows "cl_cursor (walk (drop n rows) c) = length rows"
  using assms(2,3)
proof (induction "length rows - n" arbitrary: n c)
  case (Suc k)
  then have n: "n < length rows" by simp
  then have "drop n rows = rows ! n # drop (Suc n) rows" by (simp add: Cons_nth_drop_Suc)
  moreover have "cr_seq (rows ! n) = Suc n" by (rule numbered_nth [OF assms(1) n])
  ultimately show ?case using Suc n by simp
qed simp

text \<open>
  A session that is left alone: the steps of the socket are the room serving the next frame and the client taking the next
  frame, in any order, whatever the document does with the rows.
\<close>

inductive socket_step :: "string \<Rightarrow> chat_sys \<Rightarrow> chat_sys \<Rightarrow> bool" for chat where
  room_serves: "sy_up s = f # fs \<Longrightarrow> dispatch (sy_sess s) (sy_db s) chat f = Inr (d, db', replies, pub) \<Longrightarrow>
    socket_step chat s (s\<lparr>sy_up := fs, sy_sess := d, sy_db := db', sy_down := sy_down s @ replies\<rparr>)"
| room_refuses: "sy_up s = f # fs \<Longrightarrow> dispatch (sy_sess s) (sy_db s) chat f = Inl e \<Longrightarrow> socket_step chat s (s\<lparr>sy_up := fs\<rparr>)"
| client_takes: "sy_phase s = Some ph \<Longrightarrow> sy_down s = f # fs \<Longrightarrow>
    socket_step chat s (client_step imp sv (s\<lparr>sy_down := fs\<rparr>) (session_frame now contains ph (sy_client s) (Some f)))"

inductive_cases socket_stepE: "socket_step chat s t"

lemma socket_step_chat: "socket_step chat s t \<Longrightarrow> chat_step chat s t"
  by (induction rule: socket_step.induct) (auto intro: serve refuse deliver)

text \<open>Every run of the steps reaches the goal, and none is stuck before.\<close>

inductive inevitably :: "('s \<Rightarrow> 's \<Rightarrow> bool) \<Rightarrow> ('s \<Rightarrow> bool) \<Rightarrow> 's \<Rightarrow> bool" for step goal where
  reached: "goal s \<Longrightarrow> inevitably step goal s"
| ahead: "step s s' \<Longrightarrow> (\<And>t. step s t \<Longrightarrow> inevitably step goal t) \<Longrightarrow> inevitably step goal s"

lemma inevitably_mono: "inevitably step goal s \<Longrightarrow> (\<And>t. goal t \<Longrightarrow> goal' t) \<Longrightarrow> inevitably step goal' s"
  by (induction rule: inevitably.induct) (auto intro: reached ahead)

text \<open>
  A backfill underway: the rows still to come, the end marker and acknowledgements are on their way down, pushes on their way up.
\<close>

definition backfilling :: "string \<Rightarrow> chat_client \<Rightarrow> bytes set \<Rightarrow> chat_row list \<Rightarrow> chat_row list \<Rightarrow> nat \<Rightarrow> chat_sys \<Rightarrow> bool" where
  "backfilling own c docs gone rest head s =
     (sy_phase s = Some Backfill \<and> sy_sess s = own \<and> sy_client s = walk gone c \<and>
      docs \<union> cr_payload ` set gone \<subseteq> set (taken (sy_sink s)) \<and>
      (\<exists>acks. sy_down s = map row_frame rest @ rows_done_frame head # acks) \<and> (\<forall>f \<in> set (sy_up s). wf_kind f = frame_push))"

definition backfilled :: "chat_client \<Rightarrow> bytes set \<Rightarrow> chat_sys \<Rightarrow> bool" where
  "backfilled c docs t = ((\<exists>k. sy_phase t = Some (Steady k)) \<and> docs \<subseteq> set (taken (sy_sink t)) \<and> cl_cursor (sy_client t) = cl_cursor c)"

lemma caught_up_shape:
  "\<exists>k. fst (caught_up c h) = Some (Steady k)" "cl_cursor (fst (snd (caught_up c h))) = cl_cursor c" "doc_after d (snd (snd (caught_up c h))) = d"
  by (cases "cl_gap_repair c"; simp add: caught_up_def maybe_repair_gap_def max_gap_repairs_def)+

lemma client_step_Some:
  "client_step imp sv s (Some p, c, es) = (fold (perform imp sv) es (s\<lparr>sy_client := c\<rparr>))\<lparr>sy_phase := Some p\<rparr>"
  by (simp add: client_step_def Let_def)

lemma backfill_takes_row:
  assumes "backfilling own c docs gone (r # rest) head s" "cr_seq r < 2 ^ 64"
    and "sy_down s = f # fs" "t = client_step imp sv (s\<lparr>sy_down := fs\<rparr>) (session_frame now contains Backfill (sy_client s) (Some f))"
  shows "backfilling own c docs (gone @ [r]) rest head t \<and> sy_up t = sy_up s \<and> sy_down t = fs"
proof -
  let ?c = "note_seq (cr_seq r) (sy_client s)"
  have f: "f = row_frame r" using assms(1,3) by (auto simp: backfilling_def)
  have "session_frame now contains Backfill (sy_client s) (Some (row_frame r)) = (Some Backfill, ?c, [ApplyRow (cr_payload r) (cl_cursor ?c), Emit Applied])"
    using assms(2) by (simp add: session_frame_def handle_frame_def parse_row_frame Let_def del: note_seq_simps)
  then have t: "t = (fold (perform imp sv) [ApplyRow (cr_payload r) (cl_cursor ?c), Emit Applied] (s\<lparr>sy_down := fs, sy_client := ?c\<rparr>))\<lparr>sy_phase := Some Backfill\<rparr>"
    using assms(4) f by (simp add: client_step_Some)
  have "set (taken (sy_sink t)) = insert (cr_payload r) (set (taken (sy_sink s)))" unfolding t by (simp add: del: note_seq_simps)
  moreover have "sy_phase t = Some Backfill" "sy_sess t = sy_sess s" "sy_client t = ?c" "sy_down t = fs" "sy_up t = sy_up s"
    unfolding t by (simp_all del: note_seq_simps)
  ultimately show ?thesis using assms(1,3) by (auto simp: backfilling_def simp del: note_seq_simps)
qed

lemma backfill_takes_end:
  assumes "backfilling own c docs gone [] head s" "head < 2 ^ 64"
    and "sy_down s = f # fs" "t = client_step imp sv (s\<lparr>sy_down := fs\<rparr>) (session_frame now contains Backfill (sy_client s) (Some f))"
  shows "backfilled (walk gone c) (docs \<union> cr_payload ` set gone) t"
proof -
  have f: "f = rows_done_frame head" using assms(1,3) by (auto simp: backfilling_def)
  let ?out = "caught_up (sy_client s) head"
  obtain k where k: "fst ?out = Some (Steady k)" using caught_up_shape(1) by blast
  have "session_frame now contains Backfill (sy_client s) (Some (rows_done_frame head)) = (Some (Steady k), snd ?out)"
    using assms(2) k by (cases ?out) (simp add: session_frame_def parse_done_frame)
  then have t: "t = (fold (perform imp sv) (snd (snd ?out)) (s\<lparr>sy_down := fs, sy_client := fst (snd ?out)\<rparr>))\<lparr>sy_phase := Some (Steady k)\<rparr>"
    using assms(4) f by (cases "snd ?out") (simp add: client_step_Some)
  have "set (taken (sy_sink t)) = set (taken (sy_sink s))" unfolding t by (simp add: fold_perform_taken caught_up_shape)
  moreover have "sy_phase t = Some (Steady k)" "cl_cursor (sy_client t) = cl_cursor (sy_client s)" unfolding t by (simp_all add: caught_up_shape)
  ultimately show ?thesis using assms(1) by (auto simp: backfilled_def backfilling_def)
qed

lemma backfill_serves:
  assumes "backfilling own c docs gone rest head s" "sy_up s = f # fs" "dispatch (sy_sess s) (sy_db s) chat f = Inr (d, db', replies, pub)"
    and "t = s\<lparr>sy_up := fs, sy_sess := d, sy_db := db', sy_down := sy_down s @ replies\<rparr>"
  shows "backfilling own c docs gone rest head t \<and> length replies = 1"
proof -
  have "wf_kind f = frame_push" using assms(1,2) by (simp add: backfilling_def)
  then obtain a where "d = sy_sess s" "replies = [a]" using assms(3) by (auto elim: dispatch_cases)
  then show ?thesis using assms(1,2,4) by (auto simp: backfilling_def)
qed

lemma backfill_inevitable:
  assumes "backfilling own c docs gone rest head s" "\<forall>r \<in> set rest. cr_seq r < 2 ^ 64" "head < 2 ^ 64"
  shows "inevitably (socket_step chat) (backfilled (walk (gone @ rest) c) (docs \<union> cr_payload ` set (gone @ rest))) s"
  using assms
proof (induction "2 * length (sy_up s) + length (sy_down s)" arbitrary: s gone rest rule: less_induct)
  case less
  obtain f fs where down: "sy_down s = f # fs" using less.prems(1) by (cases "sy_down s") (auto simp: backfilling_def)
  have phase: "sy_phase s = Some Backfill" using less.prems(1) by (simp add: backfilling_def)
  show ?case
  proof (rule ahead)
    show "socket_step chat s (client_step imp sv (s\<lparr>sy_down := fs\<rparr>) (session_frame now contains Backfill (sy_client s) (Some f)))" for imp sv now contains
      by (rule client_takes [OF phase down])
  next
    fix t assume "socket_step chat s t"
    then show "inevitably (socket_step chat) (backfilled (walk (gone @ rest) c) (docs \<union> cr_payload ` set (gone @ rest))) t"
    proof (cases rule: socket_stepE [consumes 1, case_names room_serves room_refuses client_takes])
      case (room_serves g gs d db' replies pub)
      note took = backfill_serves [OF less.prems(1) room_serves(2,3,1)]
      show ?thesis by (rule less.hyps [OF _ conjunct1 [OF took] less.prems(2,3)]) (use took room_serves in simp)
    next
      case (room_refuses g gs e)
      have on: "backfilling own c docs gone rest head t" using less.prems(1) room_refuses by (simp add: backfilling_def)
      show ?thesis by (rule less.hyps [OF _ on less.prems(2,3)]) (use room_refuses in simp)
    next
      case (client_takes ph g gs imp sv now contains)
      then have t: "t = client_step imp sv (s\<lparr>sy_down := fs\<rparr>) (session_frame now contains Backfill (sy_client s) (Some f))" using down phase by simp
      show ?thesis
      proof (cases rest)
        case Nil
        then show ?thesis using backfill_takes_end [OF _ less.prems(3) down t] less.prems(1) by (intro reached) simp
      next
        case (Cons r rest')
        then have "backfilling own c docs gone (r # rest') head s" "cr_seq r < 2 ^ 64" using less.prems(1,2) by simp_all
        note took = backfill_takes_row [OF this down t]
        have "inevitably (socket_step chat) (backfilled (walk ((gone @ [r]) @ rest') c) (docs \<union> cr_payload ` set ((gone @ [r]) @ rest'))) t"
          by (rule less.hyps [OF _ conjunct1 [OF took]]) (use took down less.prems(2,3) Cons in simp_all)
        then show ?thesis by (simp add: Cons)
      qed
    qed
  qed
qed

text \<open>The greeting, the state and the request for the rows go by one after the other.\<close>

lemma state_opens_backfill:
  assumes "db_ok db" "cd_checkpoints db = []" "length (rows_of db chat) < 2 ^ 63"
    and "sum_list (map (\<lambda>r. length (cr_payload r)) (rows_of db chat)) < 2 ^ 64" "cl_cursor c \<le> length (rows_of db chat)"
  shows "\<exists>c' pushes es. on_state contains c (state_frame (pg_state db chat)) = (Some Backfill, c', es) \<and>
    cl_cursor c' \<le> cl_cursor c \<and> doc_after d es = d \<and> sends es = rows_req_frame (cl_cursor c') (cl_resumed c) # pushes \<and>
    (\<forall>f \<in> set pushes. wf_kind f = frame_push)"
proof -
  let ?st = "pg_state db chat"
  have st: "rs_head_seq ?st = length (rows_of db chat)" "rs_checkpoint_size ?st = 0" "rs_checkpoint_seq ?st = 0"
      "parse_state (wf_header (state_frame ?st)) = Some ?st"
    using db_ok_head [OF assms(1), of chat] assms(2-4) by (auto simp: pg_state_def Let_def intro!: parse_state_frame split: option.splits)
  obtain ph c' es where out: "on_state contains c (state_frame ?st) = (ph, c', es)" by (metis prod_cases3)
  have o: "ph = Some Backfill" "cl_cursor c' \<le> cl_cursor c" "es = [Emit Connected, Send (rows_req_frame (cl_cursor c') (cl_resumed c))] @ push_pending c'"
    using out assms(5) by (auto simp: on_state_def st Let_def plan_catch_up_def amnesty_def split: if_splits)
  have sent: "sends (map Send fs) = fs" for fs by (induction fs) simp_all
  have p: "push_pending c' = map Send (map (\<lambda>p. push_frame (pp_batch_id p) (pp_bytes p)) (cl_pending c'))" by (simp add: push_pending_def)
  have "doc_after d es = d" "sends es = rows_req_frame (cl_cursor c') (cl_resumed c) # map (\<lambda>p. push_frame (pp_batch_id p) (pp_bytes p)) (cl_pending c')"
    unfolding o(3) p by (simp_all only: doc_after_append doc_after.simps doc_after_sends sends.simps sent append.simps)
  then show ?thesis using out o(1,2) by (auto simp: push_frame_def)
qed

lemma session_inevitable:
  assumes "sys_ok chat s" "sy_phase s = None" "length (rows_of (sy_db s) chat) < 2 ^ 63"
    and "sum_list (map (\<lambda>r. length (cr_payload r)) (rows_of (sy_db s) chat)) < 2 ^ 64"
  shows "inevitably (socket_step chat) (\<lambda>t. (\<exists>n. sy_phase t = Some (Steady n)) \<and>
      (\<forall>r \<in> set (rows_of (sy_db s) chat). cr_device r = cl_device (sy_client s) \<or> cr_payload r \<in> set (taken (sy_sink t))) \<and>
      (\<not> cl_resumed (sy_client s) \<longrightarrow> cl_cursor (sy_client t) = length (rows_of (sy_db s) chat))) (dialled s)"
    (is "inevitably ?step ?goal (dialled s)")
proof -
  let ?c = "sy_client s" and ?db = "sy_db s" and ?rows = "rows_of (sy_db s) chat" and ?own = "cl_device (sy_client s)" and ?ex = "cl_resumed (sy_client s)"
  let ?st = "state_frame (pg_state ?db chat)"
  note parts = sys_ok_parts [OF assms(1)]
  have db: "db_ok ?db" "cd_checkpoints ?db = []" and num: "numbered ?rows" using parts(1,2) by (simp_all add: log_ok_def)
  have cur: "reflected ?own ?rows (taken (sy_sink s)) (cl_cursor ?c)" using parts(3) by (simp add: client_ok_def)
  have hello: "dispatch [] ?db chat (client_hello ?c) = Inr (?own, ?db, [?st], [])"
    by (simp add: dispatch_def) (simp add: client_hello_def header_get_def fields_get)
  define s2 where "s2 = (dialled s)\<lparr>sy_up := [], sy_sess := ?own, sy_db := ?db, sy_down := [?st]\<rparr>"
  have requested: "inevitably ?step ?goal t"
    if t: "sy_phase t = Some Backfill" "sy_down t = []" "sy_db t = ?db" "sy_sess t = ?own" "sy_client t = c'" "cl_cursor c' \<le> cl_cursor ?c"
      "sy_up t = rows_req_frame (cl_cursor c') ?ex # pushes" "\<forall>f \<in> set pushes. wf_kind f = frame_push" "set (taken (sy_sink t)) = set (taken (sy_sink s))"
    for t c' pushes
  proof -
    let ?n = "cl_cursor c'"
    have n: "?n \<le> length ?rows" "reflected ?own ?rows (taken (sy_sink s)) ?n" using reflected_below [OF cur t(6)] by (simp_all add: reflected_def)
    have n63: "?n < 2 ^ 63" "?n < 2 ^ 64" using n(1) assms(3) by simp_all
    define sel where "sel = pg_rows_after ?db chat ?n (if ?ex then Some ?own else None)"
    define head where "head = (if sel = [] then ?n else cr_seq (last sel))"
    have sel: "sel = filter (\<lambda>r. ?n < cr_seq r \<and> (if ?ex then Some ?own else None) \<noteq> Some (cr_device r)) ?rows"
      unfolding sel_def by (rule chat_pg.reads [OF db(1) n63(1)])
    have small: "\<forall>r \<in> set sel. cr_seq r < 2 ^ 64" using numbered_bounds [OF num] assms(3) by (fastforce simp: sel)
    then have head: "head < 2 ^ 64" using n63 by (simp add: head_def)
    have rows: "dispatch (sy_sess t) (sy_db t) chat (rows_req_frame ?n ?ex) = Inr (?own, ?db, map row_frame sel @ [rows_done_frame head], [])"
      by (simp add: t dispatch_rows_req [OF n63(2)] Let_def sel_def head_def)
    have arrives: "inevitably ?step (backfilled (walk ([] @ sel) c') (set (taken (sy_sink s)) \<union> cr_payload ` set ([] @ sel))) u"
      if u: "u = t\<lparr>sy_up := pushes, sy_sess := ?own, sy_db := ?db, sy_down := sy_down t @ map row_frame sel @ [rows_done_frame head]\<rparr>" for u
      by (rule backfill_inevitable [OF _ small head, of ?own c' "set (taken (sy_sink s))" "[]" u]) (use t in \<open>simp add: u backfilling_def\<close>)
    have goal: "?goal u" if "backfilled (walk sel c') (set (taken (sy_sink s)) \<union> cr_payload ` set sel) u" for u
    proof -
      have "cr_device r = ?own \<or> cr_payload r \<in> set (taken (sy_sink u))" if "r \<in> set ?rows" for r
      proof (cases "cr_seq r \<le> ?n")
        case True
        then show ?thesis using that n(2) \<open>backfilled _ _ u\<close> by (auto simp: reflected_def backfilled_def)
      next
        case False
        then have "cr_device r = ?own \<or> r \<in> set sel" using that by (auto simp: sel)
        then show ?thesis using \<open>backfilled _ _ u\<close> by (auto simp: backfilled_def)
      qed
      moreover have "cl_cursor (walk sel c') = length ?rows" if "\<not> ?ex"
        using that walk_contiguous [OF num refl n(1)] chat_pg.after_numbered [OF db(1) n(1) n63(1)] by (simp add: sel_def)
      ultimately show ?thesis using that by (auto simp: backfilled_def)
    qed
    have served: "inevitably ?step ?goal (t\<lparr>sy_up := pushes, sy_sess := ?own, sy_db := ?db, sy_down := sy_down t @ map row_frame sel @ [rows_done_frame head]\<rparr>)"
      by (rule inevitably_mono [OF arrives [OF refl]]) (rule goal, simp only: append.simps)
    show ?thesis
    proof (rule ahead)
      show "?step t (t\<lparr>sy_up := pushes, sy_sess := ?own, sy_db := ?db, sy_down := sy_down t @ map row_frame sel @ [rows_done_frame head]\<rparr>)"
        by (rule room_serves [OF t(7) rows])
    next
      fix u assume "?step t u"
      then show "inevitably ?step ?goal u"
      proof (cases rule: socket_stepE [consumes 1, case_names room_serves room_refuses client_takes])
        case (room_serves g gs d db' replies pub)
        then show ?thesis using served rows t(7) by simp
      next
        case (room_refuses g gs e)
        then show ?thesis using rows t(7) by simp
      next
        case client_takes
        then show ?thesis using t(2) by simp
      qed
    qed
  qed
  have greeted: "inevitably ?step ?goal s2"
  proof (rule ahead)
    show "?step s2 (client_step (\<lambda>_ _. True) (\<lambda>_. True) (s2\<lparr>sy_down := []\<rparr>) (session_frame 0 (\<lambda>_. True) Handshake (sy_client s2) (Some ?st)))"
      by (rule client_takes) (simp_all add: s2_def dialled_def)
  next
    fix t assume "?step s2 t"
    then show "inevitably ?step ?goal t"
    proof (cases rule: socket_stepE [consumes 1, case_names room_serves room_refuses client_takes])
      case (client_takes ph g gs imp sv now contains)
      have le: "cl_cursor ?c \<le> length ?rows" using cur by (simp add: reflected_def)
      obtain c' pushes es where o: "on_state contains ?c ?st = (Some Backfill, c', es)" "cl_cursor c' \<le> cl_cursor ?c"
          "doc_after (taken (sy_sink s)) es = taken (sy_sink s)"
          "sends es = rows_req_frame (cl_cursor c') ?ex # pushes" "\<forall>f \<in> set pushes. wf_kind f = frame_push"
        using state_opens_backfill [OF db assms(3,4) le] by metis
      have g: "g = ?st" "gs = []" "ph = Handshake" using client_takes by (auto simp: s2_def dialled_def)
      have t: "t = (fold (perform imp sv) es (s2\<lparr>sy_down := [], sy_client := c'\<rparr>))\<lparr>sy_phase := Some Backfill\<rparr>"
        using client_takes(1) o(1) unfolding g by (simp add: s2_def dialled_def session_frame_def client_step_Some)
      have sink: "set (taken (sy_sink t)) = set (taken (sy_sink s))" unfolding t using o(3) by (simp add: fold_perform_taken s2_def dialled_def)
      show ?thesis
        by (rule requested [of t c' pushes]) (use sink o in \<open>simp_all add: t s2_def dialled_def\<close>)
    qed (simp_all add: s2_def dialled_def)
  qed
  show ?thesis
  proof (rule ahead)
    show "?step (dialled s) s2"
      unfolding s2_def using room_serves [of "dialled s" "client_hello ?c" "[]" chat ?own ?db "[?st]" "[]"] hello by (simp add: dialled_def)
  next
    fix t assume "?step (dialled s) t"
    then show "inevitably ?step ?goal t"
    proof (cases rule: socket_stepE [consumes 1, case_names room_serves room_refuses client_takes])
      case (room_serves g gs d db' replies pub)
      then have "t = s2" using hello by (simp add: dialled_def s2_def)
      then show ?thesis using greeted by simp
    next
      case (room_refuses g gs e)
      then show ?thesis using hello by (simp add: dialled_def)
    next
      case client_takes
      then show ?thesis by (simp add: dialled_def)
    qed
  qed
qed

section \<open>Properties\<close>



text \<open>
  C21. A session that is left alone catches up, in a room without a checkpoint: from every reachable state with no socket, once
  the client has dialled, every run of the session's own steps ends in the steady loop, none is stuck before, and there every row that another
  device had written has been handed to the document; in the first session of a client the cursor then stands at the head the log had.
\<close>
theorem catch_up_reaches_head:
  assumes "chat_steps chat (chat_init device db transport) s" "db_ok db" "cd_checkpoints db = []" "sy_phase s = None"
    and "length (rows_of (sy_db s) chat) < 2 ^ 63" "sum_list (map (\<lambda>r. length (cr_payload r)) (rows_of (sy_db s) chat)) < 2 ^ 64"
  shows "inevitably (socket_step chat) (\<lambda>t. (\<exists>n. sy_phase t = Some (Steady n)) \<and>
      (\<forall>r \<in> set (rows_of (sy_db s) chat). cr_device r = device \<or> cr_payload r \<in> set (taken (sy_sink t))) \<and>
      (\<not> cl_resumed (sy_client s) \<longrightarrow> cl_cursor (sy_client t) = length (rows_of (sy_db s) chat))) (dialled s)"
proof -
  have "sys_ok chat s" using chat_steps_ok [OF assms(1)] chat_init_ok [OF assms(2,3)] by blast
  moreover have "cl_device (sy_client s) = device"
    using chat_steps_device [OF assms(1)] by (simp add: chat_init_def new_client_def)
  ultimately show ?thesis using session_inevitable [of chat s] assms(4-6) by simp
qed

theorem catch_up_reaches_head_witness:
  "inevitably (socket_step ''c'') (\<lambda>t. (\<exists>n. sy_phase t = Some (Steady n)) \<and> cl_cursor (sy_client t) = 0) (dialled (chat_init ''d'' empty_db False))"
proof -
  have r: "rows_of empty_db ''c'' = []" "cd_checkpoints empty_db = []" by (simp_all add: empty_db_def rows_of_def)
  have "sy_phase (chat_init ''d'' empty_db False) = None" "sy_db (chat_init ''d'' empty_db False) = empty_db"
      "\<not> cl_resumed (sy_client (chat_init ''d'' empty_db False))"
    by (simp_all add: chat_init_def new_client_def)
  then show ?thesis using catch_up_reaches_head [OF chat_steps.none empty_db_ok, where chat = "''c''" and device = "''d''" and transport = False] r by simp
qed

text \<open>
  Over plain HTTP alone the cursor stands still for good once the next row is the device's own: a pull leaves out the
  device's own rows, so the rows that follow never come contiguous and the cursor is held, whatever else is written.
\<close>
theorem http_pull_stalls_behind_own_row:
  assumes "db_ok db" "cl_cursor c < length (rows_of db chat)" "cr_device (rows_of db chat ! cl_cursor c) = cl_device c"
    and "length (rows_of db chat) < 2 ^ 63"
  shows "\<exists>frames. dispatch (cl_device c) db chat (rows_req_frame (cl_cursor c) True) = Inr (cl_device c, db, frames, []) \<and>
    cl_cursor (fst (offline_rows c frames)) = cl_cursor c"
proof -
  let ?rows = "rows_of db chat" and ?n = "cl_cursor c"
  define sel where "sel = pg_rows_after db chat ?n (Some (cl_device c))"
  have num: "numbered ?rows" using assms(1) by (rule chat_pg.numbered)
  have n: "?n < 2 ^ 63" "?n < 2 ^ 64" using assms(2,4) by simp_all
  have "\<forall>r \<in> set sel. ?n + 1 < cr_seq r"
  proof
    fix r assume that: "r \<in> set sel"
    have r: "?n < cr_seq r" "r \<in> set ?rows" "cr_device r \<noteq> cl_device c" using that chat_pg.reads [OF assms(1) n(1)] by (auto simp: sel_def)
    moreover have "cr_seq r \<noteq> Suc ?n" using numbered_inj [OF num r(2) nth_mem [OF assms(2)]] numbered_nth [OF num assms(2)] assms(3) r(3) by auto
    ultimately show "?n + 1 < cr_seq r" by simp
  qed
  then have "cl_cursor (fst (offline_rows c' (map row_frame sel @ [rows_done_frame h]))) = ?n" if "cl_cursor c' = ?n" for c' h
    using that by (induction sel) (auto simp: offline_row_def parse_row_frame case_prod_unfold Let_def)
  then show ?thesis using dispatch_rows_req [OF n(2), of "cl_device c" db chat True] by (simp add: Let_def sel_def)
qed

definition sample_stall_db :: chat_db where
  "sample_stall_db = fst (pg_append (fst (pg_append empty_db ''c'' ''d'' ''b1'' [1])) ''c'' ''e'' ''b2'' [2])"

theorem http_pull_stalls_behind_own_row_witness:
  "\<exists>frames. dispatch ''d'' sample_stall_db ''c'' (rows_req_frame 0 True) = Inr (''d'', sample_stall_db, frames, []) \<and>
     cl_cursor (fst (offline_rows (new_client ''d'' 0 True) frames)) = 0"
proof -
  obtain db1 q1 x1 where a1: "pg_append empty_db ''c'' ''d'' ''b1'' [1] = (db1, q1, x1)" by (metis prod_cases3)
  obtain db2 q2 x2 where a2: "pg_append db1 ''c'' ''e'' ''b2'' [2] = (db2, q2, x2)" by (metis prod_cases3)
  have ok: "db_ok db2" using chat_pg.app_ok [OF _ a2] chat_pg.app_ok [OF empty_db_ok a1] by blast
  have db: "sample_stall_db = db2" by (simp add: sample_stall_db_def a1 a2)
  have rows: "rows_of sample_stall_db ''c'' = [\<lparr>cr_seq = 1, cr_device = ''d'', cr_batch_id = ''b1'', cr_payload = [1]\<rparr>,
      \<lparr>cr_seq = 2, cr_device = ''e'', cr_batch_id = ''b2'', cr_payload = [2]\<rparr>]"
    by (simp add: sample_stall_db_def pg_append_def empty_db_def rows_of_def bt_get_Cons Let_def)
  then show ?thesis using http_pull_stalls_behind_own_row [of sample_stall_db "new_client ''d'' 0 True" "''c''"] ok
    by (simp add: db new_client_def)
qed

definition reset_row :: chat_row where
  "reset_row = \<lparr>cr_seq = 1, cr_device = ''e'', cr_batch_id = ''x'', cr_payload = [1]\<rparr>"

definition reset_db :: chat_db where
  "reset_db = \<lparr>cd_rooms = [(''c'', 1)], cd_rows = [(''c'', reset_row)], cd_checkpoints = []\<rparr>"

lemma reset_served:
  "dispatch [] empty_db ''c'' (client_hello (new_client ''d'' 0 True)) = Inr (''d'', empty_db, [state_frame (pg_state empty_db ''c'')], [])"
  "dispatch ''e'' empty_db ''c'' (push_frame ''x'' [1]) = Inr (''e'', reset_db, [ack_frame ''x'' 1 False], [reset_row])"
  "dispatch ''d'' reset_db ''c'' (rows_req_frame 0 True) = Inr (''d'', reset_db, [row_frame reset_row, rows_done_frame 1], [])"
proof -
  show "dispatch [] empty_db ''c'' (client_hello (new_client ''d'' 0 True)) = Inr (''d'', empty_db, [state_frame (pg_state empty_db ''c'')], [])"
    by (simp add: dispatch_def) (simp add: client_hello_def header_get_def fields_get new_client_def)
  show "dispatch ''e'' empty_db ''c'' (push_frame ''x'' [1]) = Inr (''e'', reset_db, [ack_frame ''x'' 1 False], [reset_row])"
    by (simp add: dispatch_push empty_db_def rows_of_def reset_db_def reset_row_def pg_append_def Let_def)
  have "rows_of reset_db ''c'' = [reset_row]" by (simp add: rows_of_def reset_db_def)
  then show "dispatch ''d'' reset_db ''c'' (rows_req_frame 0 True) = Inr (''d'', reset_db, [row_frame reset_row, rows_done_frame 1], [])"
    by (simp add: dispatch_rows_req Let_def pg_rows_after_def u64_as_i64_def) (simp add: reset_row_def)
qed

lemma reset_states:
  "parse_state (wf_header (state_frame (pg_state empty_db ''c''))) = Some (pg_state empty_db ''c'')" "rs_head_seq (pg_state empty_db ''c'') = 0"
  "parse_state (wf_header (state_frame (pg_state reset_db ''c''))) = Some (pg_state reset_db ''c'')" "rs_checkpoint_size (pg_state reset_db ''c'') = 0"
  by (simp_all add: pg_state_def empty_db_def rows_of_def reset_db_def bt_get_Cons reset_row_def)

text \<open>
  A late answer looks like a lost room: the pull over HTTP that runs beside the handshake may move the cursor above the
  head of a state frame that was on its way, and the client then reports a server reset, upon which the host posts a
  seed checkpoint, although the log has only grown.
\<close>
theorem stale_state_looks_like_reset:
  "\<exists>s s'. chat_steps ''c'' (chat_init ''d'' empty_db True) s \<and> chat_step ''c'' s s' \<and>
     cl_server_resets (sy_client s) = 0 \<and> cl_server_resets (sy_client s') = 1 \<and>
     cl_cursor (sy_client s) = length (rows_of (sy_db s) ''c'')"
proof -
  let ?c = "new_client ''d'' 0 True"
  let ?st0 = "state_frame (pg_state empty_db ''c'')" and ?st1 = "state_frame (pg_state reset_db ''c'')"
  let ?s1 = "(chat_init ''d'' empty_db True)\<lparr>sy_phase := Some Handshake, sy_up := [client_hello ?c], sy_down := [], sy_sess := []\<rparr>"
  let ?s2 = "?s1\<lparr>sy_up := [], sy_sess := ''d'', sy_db := empty_db, sy_down := [?st0]\<rparr>"
  let ?s3 = "?s2\<lparr>sy_db := reset_db\<rparr>"
  let ?s4 = "?s3\<lparr>sy_pulled := [?st1, row_frame reset_row, rows_done_frame 1]\<rparr>"
  let ?c5 = "?c\<lparr>cl_server := Some (pg_state reset_db ''c'')\<rparr>"
  let ?s5 = "?s4\<lparr>sy_pulled := [row_frame reset_row, rows_done_frame 1], sy_client := ?c5\<rparr>"
  let ?k = "\<lparr>sk_doc = [[1]], sk_refused = []\<rparr>"
  let ?s6 = "?s5\<lparr>sy_pulled := [rows_done_frame 1], sy_client := ?c5\<lparr>cl_cursor := 1\<rparr>, sy_sink := ?k, sy_disk := ?k, sy_saved := 1\<rparr>"
  let ?s7 = "client_step (\<lambda>_ _. True) (\<lambda>_. True) (?s6\<lparr>sy_down := []\<rparr>) (session_frame 0 (\<lambda>_. True) Handshake (sy_client ?s6) (Some ?st0))"
  have r1: "chat_steps ''c'' (chat_init ''d'' empty_db True) ?s1"
    using chat_steps_one [OF dial [of "chat_init ''d'' empty_db True" "''c''"]] by (simp add: chat_init_def dialled_def)
  have r2: "chat_step ''c'' ?s1 ?s2"
    using serve [of ?s1 "client_hello ?c" "[]" "''c''" "''d''" empty_db "[?st0]" "[]"] reset_served(1) by (simp add: chat_init_def)
  have r3: "chat_step ''c'' ?s2 ?s3"
    using foreign [of "''e''" ?s2 "push_frame ''x'' [1]" "''c''" "''e''" reset_db _ "[reset_row]" False] reset_served(2)
    by (simp add: broadcast_def chat_init_def new_client_def)
  have rows: "rows_of reset_db ''c'' = [reset_row]" by (simp add: rows_of_def reset_db_def)
  have r4: "chat_step ''c'' ?s3 ?s4"
    using pull [of ?s3 "''c''" 0 "''d''" reset_db "[row_frame reset_row, rows_done_frame 1]" "[]"] reset_served(3) by (simp add: chat_init_def new_client_def)
  have "offline_state (\<lambda>_. True) (\<lambda>_. True) None 0 ?c ?st1 = (True, ?c5, [])"
    by (simp add: offline_state_def reset_states plan_catch_up_def)
  then have r5: "chat_step ''c'' ?s4 ?s5"
    using pulled_state [of ?s4 ?st1 "[row_frame reset_row, rows_done_frame 1]" "\<lambda>_. True" "\<lambda>_. True" 0 True "(?c5, [])" "''c''"]
    by (simp add: chat_init_def offline_step_def)
  have r6: "chat_step ''c'' ?s5 ?s6"
    using pulled_row [of ?s5 "row_frame reset_row" "[rows_done_frame 1]" "''c''" "\<lambda>_ _. True" "\<lambda>_. True"]
    by (simp add: offline_row_def parse_row_frame offline_step_def Let_def)
      (simp add: reset_row_def new_client_def chat_init_def persist_with_cursor_def import_row_def empty_sink_def)
  have r7: "chat_step ''c'' ?s6 ?s7" by (rule deliver) (simp_all add: chat_init_def)
  have "cl_server_resets (sy_client ?s7) = 1"
    by (simp add: session_frame_def on_state_def reset_states amnesty_def client_step_def Let_def new_client_def split: catch_up_plan.split)
  moreover have "chat_steps ''c'' (chat_init ''d'' empty_db True) ?s6"
    using r1 r2 r3 r4 r5 r6 chat_steps.more by blast
  ultimately show ?thesis using r7 by (intro exI [of _ ?s6] exI [of _ ?s7]) (simp add: rows new_client_def)
qed
end
