(* ===== verification/Device_Relay.thy ===== *)
theory Device_Relay
  imports Chat_Room
begin

text \<open>
  The relay between devices: the frames (\<open>crates/rpc/src/device_room.rs\<close>), the relay of the server
  (\<open>crates/server/src/device_room.rs\<close>) with one task and one bounded outbox per socket, the host end that turns
  every client connection into a virtual RPC connection, the client link and the dial cooldowns of its cache.
  A channel is named by the number of its connection, so \<open>same_channel\<close> is equality. Headers are written and read
  by serde\_json, the parameters \<open>ser\<close> and \<open>de\<close>; inside the relay frames are kept decoded.
\<close>

section \<open>Frames\<close>

definition relay_kind :: string where "relay_kind = '' relay''"
definition nudge_kind :: string where "nudge_kind = ''nudge''"
definition rpc_kind :: string where "rpc_kind = ''rpc''"
definition echo_kind :: string where "echo_kind = ''echo''"
definition host_offline :: string where "host_offline = ''host_offline''"
definition host_closed :: string where "host_closed = ''host_closed''"

lemmas kind_defs = relay_kind_def nudge_kind_def rpc_kind_def echo_kind_def

record frame_header =
  fh_s :: string
  fh_k :: string
  fh_to :: "string option"
  fh_from :: "string option"

type_synonym device_frame = "frame_header \<times> bytes"

definition new_header :: "string \<Rightarrow> string \<Rightarrow> frame_header" where
  "new_header s k = \<lparr>fh_s = s, fh_k = k, fh_to = None, fh_from = None\<rparr>"

text \<open>The length of the header, seven bits per byte, lowest first.\<close>

fun write_uleb :: "nat \<Rightarrow> bytes" where
  "write_uleb n = (if n < 128 then [of_nat n] else of_nat (n mod 128 + 128) # write_uleb (n div 128))"

declare write_uleb.simps [simp del]

definition encode_device_frame :: "(frame_header \<Rightarrow> bytes) \<Rightarrow> device_frame \<Rightarrow> bytes" where
  "encode_device_frame ser f = write_uleb (length (ser (fst f))) @ ser (fst f) @ snd f"

fun read_uleb :: "nat \<Rightarrow> nat \<Rightarrow> bytes \<Rightarrow> (nat \<times> bytes) option" where
  "read_uleb shift len [] = None"
| "read_uleb shift len (b # bs) =
     (if 32 \<le> shift then None
      else (let len = len + (unat b mod 128) * 2 ^ shift
            in if unat b < 128 then Some (len, bs) else read_uleb (shift + 7) len bs))"

definition decode_device_frame :: "(bytes \<Rightarrow> frame_header option) \<Rightarrow> bytes \<Rightarrow> device_frame option" where
  "decode_device_frame de bytes =
     (case read_uleb 0 0 bytes of
        None \<Rightarrow> None
      | Some (n, rest) \<Rightarrow> if length rest < n then None else map_option (\<lambda>h. (h, drop n rest)) (de (take n rest)))"

section \<open>The hub\<close>

datatype relay_role = RoleHost | RoleClient

definition parse_relay_role :: "string option \<Rightarrow> relay_role" where
  "parse_relay_role raw = (if raw = Some ''host'' then RoleHost else RoleClient)"

record relay_room =
  rr_host :: "nat option"
  rr_clients :: "(string, nat) btree"

type_synonym device_hub = "(string, relay_room) btree"

definition room_at :: "device_hub \<Rightarrow> string \<Rightarrow> relay_room" where
  "room_at hub device = (case bt_get hub device of Some r \<Rightarrow> r | None \<Rightarrow> \<lparr>rr_host = None, rr_clients = []\<rparr>)"

definition join_host :: "string \<Rightarrow> nat \<Rightarrow> device_hub \<Rightarrow> device_hub \<times> nat option" where
  "join_host device n hub = (bt_insert device ((room_at hub device)\<lparr>rr_host := Some n\<rparr>) hub, rr_host (room_at hub device))"

definition join_client :: "string \<Rightarrow> string \<Rightarrow> nat \<Rightarrow> device_hub \<Rightarrow> device_hub" where
  "join_client device conn n hub =
     (let r = room_at hub device in bt_insert device (r\<lparr>rr_clients := bt_insert conn n (rr_clients r)\<rparr>) hub)"

definition host_outbox :: "string \<Rightarrow> device_hub \<Rightarrow> nat option" where
  "host_outbox device hub = rr_host (room_at hub device)"

definition client_outbox :: "string \<Rightarrow> string \<Rightarrow> device_hub \<Rightarrow> nat option" where
  "client_outbox device conn hub = bt_get (rr_clients (room_at hub device)) conn"

definition client_outboxes :: "string \<Rightarrow> device_hub \<Rightarrow> nat list" where
  "client_outboxes device hub = map snd (rr_clients (room_at hub device))"

definition put_room :: "string \<Rightarrow> relay_room \<Rightarrow> device_hub \<Rightarrow> device_hub" where
  "put_room device r hub = (if rr_host r = None \<and> rr_clients r = [] then bt_remove device hub else bt_insert device r hub)"

definition leave_host :: "string \<Rightarrow> nat \<Rightarrow> device_hub \<Rightarrow> device_hub" where
  "leave_host device n hub =
     (case bt_get hub device of
        None \<Rightarrow> hub
      | Some r \<Rightarrow> put_room device (if rr_host r = Some n then r\<lparr>rr_host := None\<rparr> else r) hub)"

definition leave_client :: "string \<Rightarrow> string \<Rightarrow> device_hub \<Rightarrow> device_hub" where
  "leave_client device conn hub =
     (case bt_get hub device of
        None \<Rightarrow> hub
      | Some r \<Rightarrow> put_room device (r\<lparr>rr_clients := bt_remove conn (rr_clients r)\<rparr>) hub)"

section \<open>The tasks\<close>

text \<open>
  One socket: who it is, the frames in its outbox, the send its task is waiting in (the channel and the frame), and
  what it wrote to its peer. While a task waits in a send it neither reads its socket nor empties its outbox.
\<close>

record relay_conn =
  rc_device :: string
  rc_role :: relay_role
  rc_id :: string
  rc_inbox :: "device_frame list"
  rc_waiting :: "(nat \<times> device_frame) option"
  rc_written :: "device_frame list"

record relay =
  rl_hub :: device_hub
  rl_conns :: "(nat, relay_conn) btree"
  rl_next :: nat

definition outbox_capacity :: nat where "outbox_capacity = 64"

definition control_payload :: "string \<Rightarrow> bytes" where
  "control_payload code = map of_char ([CHR 0x7B, CHR 0x22] @ ''error'' @ [CHR 0x22, CHR 0x3A, CHR 0x22] @ code @ [CHR 0x22, CHR 0x7D])"

definition control :: "string \<Rightarrow> string \<Rightarrow> device_frame" where
  "control stream code = (new_header stream relay_kind, control_payload code)"

definition has_room :: "relay_conn \<Rightarrow> bool" where
  "has_room c = (length (rc_inbox c) < outbox_capacity)"

definition put_frame :: "nat \<Rightarrow> device_frame \<Rightarrow> relay \<Rightarrow> relay" where
  "put_frame m f r =
     (case bt_get (rl_conns r) m of
        None \<Rightarrow> r
      | Some c \<Rightarrow> if has_room c then r\<lparr>rl_conns := bt_insert m (c\<lparr>rc_inbox := rc_inbox c @ [f]\<rparr>) (rl_conns r)\<rparr> else r)"

text \<open>\<open>Sender::try_send\<close> drops the frame of a full outbox; \<open>Sender::send\<close> waits for room.\<close>

definition try_send :: "nat \<Rightarrow> device_frame \<Rightarrow> relay \<Rightarrow> relay" where
  "try_send m f r = put_frame m f r"

definition send :: "nat \<Rightarrow> nat \<Rightarrow> device_frame \<Rightarrow> relay \<Rightarrow> relay" where
  "send n m f r =
     (case bt_get (rl_conns r) m of
        None \<Rightarrow> r
      | Some c \<Rightarrow>
          if has_room c then put_frame m f r
          else (case bt_get (rl_conns r) n of
                  None \<Rightarrow> r
                | Some own \<Rightarrow> r\<lparr>rl_conns := bt_insert n (own\<lparr>rc_waiting := Some (m, f)\<rparr>) (rl_conns r)\<rparr>))"

text \<open>A binary frame that decoded.\<close>

definition relay_frame :: "nat \<Rightarrow> relay_conn \<Rightarrow> device_frame \<Rightarrow> relay \<Rightarrow> relay" where
  "relay_frame n c f r =
     (case rc_role c of
        RoleClient \<Rightarrow>
          (case host_outbox (rc_device c) (rl_hub r) of
             Some h \<Rightarrow> send n h ((fst f)\<lparr>fh_to := None, fh_from := Some (rc_id c)\<rparr>, snd f) r
           | None \<Rightarrow> send n n (control (fh_s (fst f)) host_offline) r)
      | RoleHost \<Rightarrow>
          (case fh_to (fst f) of
             None \<Rightarrow> r
           | Some target \<Rightarrow>
               (case client_outbox (rc_device c) target (rl_hub r) of
                  Some m \<Rightarrow> send n m ((fst f)\<lparr>fh_to := None, fh_from := None\<rparr>, snd f) r
                | None \<Rightarrow> r)))"

definition relay_join :: "string \<Rightarrow> relay_role \<Rightarrow> string \<Rightarrow> relay \<Rightarrow> relay" where
  "relay_join device role conn r =
     (let n = rl_next r;
          c = \<lparr>rc_device = device, rc_role = role, rc_id = conn, rc_inbox = [], rc_waiting = None, rc_written = []\<rparr>;
          r = r\<lparr>rl_conns := bt_insert n c (rl_conns r), rl_next := n + 1\<rparr>
      in case role of
           RoleHost \<Rightarrow>
             (let (hub, old) = join_host device n (rl_hub r); r = r\<lparr>rl_hub := hub\<rparr>
              in case old of Some m \<Rightarrow> try_send m (control relay_kind host_closed) r | None \<Rightarrow> r)
         | RoleClient \<Rightarrow> r\<lparr>rl_hub := join_client device conn n (rl_hub r)\<rparr>)"

text \<open>After the loop; the outbox is gone when the task returns.\<close>

definition relay_leave :: "nat \<Rightarrow> relay_conn \<Rightarrow> relay \<Rightarrow> relay" where
  "relay_leave n c r =
     (let r = (case rc_role c of
            RoleHost \<Rightarrow>
              (let r = r\<lparr>rl_hub := leave_host (rc_device c) n (rl_hub r)\<rparr>
               in fold (\<lambda>m. try_send m (control relay_kind host_closed)) (client_outboxes (rc_device c) (rl_hub r)) r)
          | RoleClient \<Rightarrow> r\<lparr>rl_hub := leave_client (rc_device c) (rc_id c) (rl_hub r)\<rparr>)
      in r\<lparr>rl_conns := bt_remove n (rl_conns r)\<rparr>)"

inductive relay_step :: "relay \<Rightarrow> relay \<Rightarrow> bool" where
  join: "relay_step r (relay_join device role conn r)"
| incoming: "bt_get (rl_conns r) n = Some c \<Longrightarrow> rc_waiting c = None \<Longrightarrow> relay_step r (relay_frame n c f r)"
| write_out: "bt_get (rl_conns r) n = Some c \<Longrightarrow> rc_waiting c = None \<Longrightarrow> rc_inbox c = f # fs \<Longrightarrow>
    relay_step r (r\<lparr>rl_conns := bt_insert n (c\<lparr>rc_inbox := fs, rc_written := rc_written c @ [f]\<rparr>) (rl_conns r)\<rparr>)"
| resume: "bt_get (rl_conns r) n = Some c \<Longrightarrow> rc_waiting c = Some (m, f) \<Longrightarrow>
    (case bt_get (rl_conns r) m of None \<Rightarrow> True | Some d \<Rightarrow> has_room d) \<Longrightarrow>
    relay_step r (put_frame m f (r\<lparr>rl_conns := bt_insert n (c\<lparr>rc_waiting := None\<rparr>) (rl_conns r)\<rparr>))"
| leave: "bt_get (rl_conns r) n = Some c \<Longrightarrow> rc_waiting c = None \<Longrightarrow> relay_step r (relay_leave n c r)"

inductive relay_steps :: "relay \<Rightarrow> relay \<Rightarrow> bool" where
  none: "relay_steps r r"
| more: "relay_steps r r' \<Longrightarrow> relay_step r' r'' \<Longrightarrow> relay_steps r r''"

definition empty_relay :: relay where
  "empty_relay = \<lparr>rl_hub = [], rl_conns = [], rl_next = 0\<rparr>"

section \<open>The host end\<close>

text \<open>
  What a frame does at the host: an RPC text for a virtual connection (made when new), a reply, a nudge. The payload of
  an RPC frame is handed on as it is (\<open>from_utf8_lossy\<close> keeps every text an RPC peer sends); \<open>nudge_chat\<close> reads the
  chat of a nudge.
\<close>

datatype host_action = RpcIn string bytes | HostSend device_frame | Nudged string

definition handle_host_frame :: "(bytes \<Rightarrow> string option) \<Rightarrow> string list \<Rightarrow> device_frame \<Rightarrow> string list \<times> host_action list" where
  "handle_host_frame nudge_chat conns f =
     (let h = fst f in
      if fh_k h = relay_kind then
        (case (case fh_from h of Some c \<Rightarrow> Some c | None \<Rightarrow> fh_to h) of
           Some conn \<Rightarrow> (filter (\<lambda>x. x \<noteq> conn) conns, [])
         | None \<Rightarrow> (conns, []))
      else if fh_k h = echo_kind then
        (case fh_from h of
           Some from \<Rightarrow> (conns, [HostSend ((new_header echo_kind echo_kind)\<lparr>fh_to := Some from\<rparr>, snd f)])
         | None \<Rightarrow> (conns, []))
      else if fh_k h = nudge_kind then
        (case nudge_chat (snd f) of Some chat \<Rightarrow> (conns, [Nudged chat]) | None \<Rightarrow> (conns, []))
      else if fh_k h \<noteq> rpc_kind then (conns, [])
      else (case fh_from h of
              None \<Rightarrow> (conns, [])
            | Some from \<Rightarrow> (if from \<in> set conns then conns else conns @ [from], [RpcIn from (snd f)])))"

text \<open>A text the RPC server of a virtual connection answers.\<close>

definition virtual_reply :: "string \<Rightarrow> bytes \<Rightarrow> device_frame" where
  "virtual_reply conn text = ((new_header rpc_kind rpc_kind)\<lparr>fh_to := Some conn\<rparr>, text)"

section \<open>The client end\<close>

datatype link_event = LinkDown bytes | RpcText bytes | EchoSeen | Ignored

definition link_frame :: "device_frame \<Rightarrow> link_event" where
  "link_frame f =
     (if fh_k (fst f) = relay_kind then LinkDown (snd f)
      else if fh_k (fst f) = rpc_kind then RpcText (snd f)
      else if fh_k (fst f) = echo_kind then EchoSeen
      else Ignored)"

text \<open>The cooldown of a peer that could not be dialled, in milliseconds.\<close>

record dial_state =
  ds_failures :: nat
  ds_last_failure :: "nat option"
  ds_cooldown_until :: "nat option"

definition failure_decay :: nat where "failure_decay = 600000"
definition cooldown_base :: nat where "cooldown_base = 5000"
definition cooldown_max :: nat where "cooldown_max = 60000"

definition note_failure :: "nat \<Rightarrow> dial_state \<Rightarrow> dial_state" where
  "note_failure now s =
     (let failures = (case ds_last_failure s of Some at \<Rightarrow> if failure_decay < now - at then 0 else ds_failures s | None \<Rightarrow> ds_failures s) + 1
      in \<lparr>ds_failures = failures, ds_last_failure = Some now,
          ds_cooldown_until = Some (now + min (cooldown_base * 2 ^ min (failures - 1) 16) cooldown_max)\<rparr>)"

definition cooling :: "nat \<Rightarrow> dial_state \<Rightarrow> bool" where
  "cooling now s = (case ds_cooldown_until s of Some until \<Rightarrow> now < until | None \<Rightarrow> False)"

section \<open>Frames read back\<close>

lemma unat_small: "n < 256 \<Longrightarrow> unat (of_nat n :: 8 word) = n"
  by (simp add: unat_of_nat take_bit_nat_eq_self)

lemma unat_high: "unat (word_of_nat (n mod 128) + 128 :: 8 word) = n mod 128 + 128"
proof -
  have "n mod 128 + 128 < (256 :: nat)" using mod_less_divisor [of 128 n] by linarith
  from unat_small [OF this] show ?thesis by simp
qed

lemma read_write_uleb:
  "n < 2 ^ (35 - shift) \<Longrightarrow> shift < 32 \<Longrightarrow> shift mod 7 = 0 \<Longrightarrow> read_uleb shift len (write_uleb n @ rest) = Some (len + n * 2 ^ shift, rest)"
proof (induction n arbitrary: shift len rule: write_uleb.induct)
  case (1 n)
  show ?case
  proof (cases "n < 128")
    case True
    then show ?thesis using 1 by (simp add: write_uleb.simps [of n] unat_small)
  next
    case False
    have shift: "shift = 0 \<or> shift = 7 \<or> shift = 14 \<or> shift = 21 \<or> shift = 28" using 1(3,4) by presburger
    then have "shift + 7 < 32" "n div 128 < 2 ^ (35 - (shift + 7))" using False 1(2) by auto
    then have "read_uleb (shift + 7) (len + n mod 128 * 2 ^ shift) (write_uleb (n div 128) @ rest) =
        Some (len + n mod 128 * 2 ^ shift + n div 128 * 2 ^ (shift + 7), rest)"
      using 1(1) [OF False] 1(4) by simp
    moreover have "n mod 128 * 2 ^ shift + n div 128 * 2 ^ (shift + 7) = n * 2 ^ shift"
    proof -
      have "n mod 128 * 2 ^ shift + n div 128 * 2 ^ (shift + 7) = (n div 128 * 128 + n mod 128) * 2 ^ shift"
        unfolding distrib_right power_add by simp
      then show ?thesis by simp
    qed
    ultimately show ?thesis using False 1(3) by (simp add: write_uleb.simps [of n] unat_high)
  qed
qed

text \<open>
  A device frame whose header serde reads back decodes to itself, whatever its payload, as long as the header is below
  the thirty-five bits the length can hold.
\<close>
theorem device_frame_roundtrip:
  assumes "de (ser (fst f)) = Some (fst f)" "length (ser (fst f)) < 2 ^ 35"
  shows "decode_device_frame de (encode_device_frame ser f) = Some f"
  using assms read_write_uleb [of "length (ser (fst f))" 0 0 "ser (fst f) @ snd f"]
  by (simp add: decode_device_frame_def encode_device_frame_def)

lemma read_uleb_bound:
  "read_uleb shift len bs = Some (n, rest) \<Longrightarrow> shift mod 7 = 0 \<Longrightarrow> len < 2 ^ shift \<Longrightarrow>
   \<exists>used. bs = used @ rest \<and> used \<noteq> [] \<and> 7 * length used + shift \<le> 35 \<and> n < 2 ^ 35"
proof (induction shift len bs rule: read_uleb.induct)
  case (2 shift len b bs)
  have small: "shift \<le> 28" if "shift < 32" using that 2(3) by presburger
  have step: "len + unat b mod 128 * 2 ^ shift < 2 ^ (shift + 7)"
  proof -
    have "unat b mod 128 \<le> 127" using mod_less_divisor [of 128 "unat b"] by linarith
    then have "unat b mod 128 * 2 ^ shift \<le> 127 * 2 ^ shift" by (rule mult_right_mono) simp
    moreover have "(2 :: nat) ^ (shift + 7) = 127 * 2 ^ shift + 2 ^ shift" by (simp add: power_add)
    ultimately show ?thesis using 2(4) by linarith
  qed
  show ?case
  proof (cases "unat b < 128")
    case True
    then have "shift < 32" "n = len + unat b mod 128 * 2 ^ shift" "rest = bs" using 2(2) by (auto simp: Let_def split: if_splits)
    moreover have "(2 :: nat) ^ (shift + 7) \<le> 2 ^ 35" using small [OF \<open>shift < 32\<close>] by (intro power_increasing) simp_all
    ultimately show ?thesis using step small by (intro exI [of _ "[b]"]) auto
  next
    case False
    then have s: "shift < 32" "read_uleb (shift + 7) (len + unat b mod 128 * 2 ^ shift) bs = Some (n, rest)"
      using 2(2) by (auto simp: Let_def split: if_splits)
    then obtain used where "bs = used @ rest" "7 * length used + (shift + 7) \<le> 35" "n < 2 ^ 35"
      using 2(1) [OF _ HOL.refl False] 2(3) step by auto
    then show ?thesis by (intro exI [of _ "b # used"]) simp
  qed
qed simp

text \<open>What the loop does depends on the bytes up to the one that ends it, or that it refuses, only.\<close>

lemma read_uleb_looks:
  "shift mod 7 = 0 \<Longrightarrow> 35 \<le> shift + 7 * k \<Longrightarrow> k < length bs \<Longrightarrow>
   read_uleb shift len bs = map_option (\<lambda>(n, rest). (n, rest @ drop (Suc k) bs)) (read_uleb shift len (take (Suc k) bs))"
proof (induction shift len bs arbitrary: k rule: read_uleb.induct)
  case (2 shift len b bs)
  have late: "32 \<le> shift" if "k = 0" using 2(2,3) that by simp
  show ?case
  proof (cases "32 \<le> shift \<or> unat b < 128")
    case True
    then show ?thesis using late by (auto simp: Let_def)
  next
    case False
    then obtain k' where k: "k = Suc k'" using late by (cases k) auto
    let ?len = "len + unat b mod 128 * 2 ^ shift"
    have s: "(shift + 7) mod 7 = 0" "35 \<le> shift + 7 + 7 * k'" "k' < length bs" using 2(2-4) k by simp_all
    have "read_uleb (shift + 7) ?len bs =
        map_option (\<lambda>(n, rest). (n, rest @ drop (Suc k') bs)) (read_uleb (shift + 7) ?len (take (Suc k') bs))"
      using 2(1) [OF _ HOL.refl _ s] False by simp
    then show ?thesis using False by (simp only: read_uleb.simps Let_def if_False take_Suc_Cons drop_Suc_Cons k de_Morgan_disj)
  qed
qed simp

text \<open>
  C39. Decoding the head of a frame ends whatever bytes arrive: the loop that reads the length looks at no more than the first
  six bytes, the sixth only to refuse it; a length that is read took one to five bytes and is below the thirty-fifth power of
  two; and a frame that decodes is its length, its header of that length and its payload.
\<close>
theorem uleb_reads_stop:
  "(5 < length bs \<longrightarrow> read_uleb 0 0 bs = map_option (\<lambda>(n, rest). (n, rest @ drop 6 bs)) (read_uleb 0 0 (take 6 bs))) \<and>
   (\<forall>h payload. decode_device_frame de bs = Some (h, payload) \<longrightarrow>
      (\<exists>used header. bs = used @ header @ payload \<and> used \<noteq> [] \<and> length used \<le> 5 \<and> length header < 2 ^ 35 \<and>
         read_uleb 0 0 bs = Some (length header, header @ payload) \<and> de header = Some h))"
proof (intro conjI impI allI)
  show "read_uleb 0 0 bs = map_option (\<lambda>(n, rest). (n, rest @ drop 6 bs)) (read_uleb 0 0 (take 6 bs))" if "5 < length bs"
    using read_uleb_looks [of 0 5 bs 0] that by simp
  fix h payload
  assume "decode_device_frame de bs = Some (h, payload)"
  then obtain n rest where r: "read_uleb 0 0 bs = Some (n, rest)" "n \<le> length rest" "de (take n rest) = Some h" "payload = drop n rest"
    by (auto simp: decode_device_frame_def split: option.splits if_splits)
  from read_uleb_bound [OF r(1)] obtain used where "bs = used @ rest" "used \<noteq> []" "length used \<le> 5" "n < 2 ^ 35" by auto
  with r show "\<exists>used header. bs = used @ header @ payload \<and> used \<noteq> [] \<and> length used \<le> 5 \<and> length header < 2 ^ 35 \<and>
      read_uleb 0 0 bs = Some (length header, header @ payload) \<and> de header = Some h"
    by (intro exI [of _ used] exI [of _ "take n rest"]) simp
qed

theorem uleb_reads_stop_witness:
  "\<exists>used header. [0x82, 0x00, 1, 2, 7 :: 8 word] = used @ header @ [7] \<and> used \<noteq> [] \<and> length used \<le> 5 \<and> length header < 2 ^ 35 \<and>
     read_uleb 0 0 [0x82, 0x00, 1, 2, 7] = Some (length header, header @ [7]) \<and> Some (new_header ''rpc'' ''rpc'') = Some (new_header ''rpc'' ''rpc'')"
proof -
  have "decode_device_frame (\<lambda>_. Some (new_header ''rpc'' ''rpc'')) [0x82, 0x00, 1, 2, 7] = Some (new_header ''rpc'' ''rpc'', [7])"
    by (simp add: decode_device_frame_def)
  with uleb_reads_stop [of "[0x82, 0x00, 1, 2, 7]" "\<lambda>_. Some (new_header ''rpc'' ''rpc'')"] show ?thesis by blast
qed

section \<open>Who is registered\<close>

definition who :: "relay_conn \<Rightarrow> string \<times> relay_role \<times> string" where
  "who c = (rc_device c, rc_role c, rc_id c)"

definition names :: "relay \<Rightarrow> nat \<Rightarrow> (string \<times> relay_role \<times> string) option" where
  "names r n = map_option who (bt_get (rl_conns r) n)"

lemma who_simps [simp]:
  "who (c\<lparr>rc_inbox := x\<rparr>) = who c" "who (c\<lparr>rc_waiting := y\<rparr>) = who c" "who (c\<lparr>rc_written := z\<rparr>) = who c"
  by (simp_all add: who_def)

lemma names_hub [simp]: "names (r\<lparr>rl_hub := h\<rparr>) = names r"
  by (simp add: names_def fun_eq_iff)

lemma put_frame_frame [simp]: "rl_hub (put_frame m f r) = rl_hub r" "rl_next (put_frame m f r) = rl_next r" "names (put_frame m f r) = names r"
  by (auto simp: put_frame_def names_def split: option.split)

lemma send_frame [simp]: "rl_hub (send n m f r) = rl_hub r" "rl_next (send n m f r) = rl_next r" "names (send n m f r) = names r"
  by (auto simp: send_def put_frame_def names_def split: option.split)

lemma relay_frame_frame [simp]:
  "rl_hub (relay_frame n c f r) = rl_hub r" "rl_next (relay_frame n c f r) = rl_next r" "names (relay_frame n c f r) = names r"
  by (simp_all add: relay_frame_def split: relay_role.split option.split)

lemma fold_try_send [simp]:
  "rl_hub (fold (\<lambda>m. try_send m f) ms r) = rl_hub r" "rl_next (fold (\<lambda>m. try_send m f) ms r) = rl_next r"
  "names (fold (\<lambda>m. try_send m f) ms r) = names r"
  by (induction ms arbitrary: r) (simp_all add: try_send_def)

text \<open>
  What the hub promises: outboxes are those of open sockets of that device, in their role and under their name, and
  a room is never left behind empty.
\<close>

definition hub_ok :: "relay \<Rightarrow> bool" where
  "hub_ok r =
     ((\<forall>n x. names r n = Some x \<longrightarrow> n < rl_next r) \<and>
      (\<forall>device h. host_outbox device (rl_hub r) = Some h \<longrightarrow> (\<exists>conn. names r h = Some (device, RoleHost, conn))) \<and>
      (\<forall>device conn m. client_outbox device conn (rl_hub r) = Some m \<longrightarrow> names r m = Some (device, RoleClient, conn)) \<and>
      (\<forall>device room. bt_get (rl_hub r) device = Some room \<longrightarrow> rr_host room \<noteq> None \<or> rr_clients room \<noteq> []))"

lemma hub_ok_cong: "rl_hub r' = rl_hub r \<Longrightarrow> rl_next r' = rl_next r \<Longrightarrow> names r' = names r \<Longrightarrow> hub_ok r' = hub_ok r"
  by (simp add: hub_ok_def)

lemma hub_okD:
  assumes "hub_ok r"
  shows "names r n = Some x \<Longrightarrow> n < rl_next r"
    "host_outbox device (rl_hub r) = Some h \<Longrightarrow> \<exists>conn. names r h = Some (device, RoleHost, conn)"
    "client_outbox device conn (rl_hub r) = Some m \<Longrightarrow> names r m = Some (device, RoleClient, conn)"
    "bt_get (rl_hub r) device = Some room \<Longrightarrow> rr_host room \<noteq> None \<or> rr_clients room \<noteq> []"
  using assms unfolding hub_ok_def by blast+

lemma room_at_insert [simp]: "room_at (bt_insert d x hub) d' = (if d' = d then x else room_at hub d')"
  by (simp add: room_at_def)

lemma room_at_put [simp]: "room_at (put_room d x hub) d' = (if d' = d then x else room_at hub d')"
  by (auto simp: room_at_def put_room_def)

lemma bt_insert_not_Nil [simp]: "bt_insert k v m \<noteq> []"
  by (metis bt_get_Nil bt_get_insert option.distinct(1))

lemma hub_okI:
  assumes "\<And>n x. names r n = Some x \<Longrightarrow> n < rl_next r"
    "\<And>device h. rr_host (room_at (rl_hub r) device) = Some h \<Longrightarrow> \<exists>conn. names r h = Some (device, RoleHost, conn)"
    "\<And>device conn m. bt_get (rr_clients (room_at (rl_hub r) device)) conn = Some m \<Longrightarrow> names r m = Some (device, RoleClient, conn)"
    "\<And>device room. bt_get (rl_hub r) device = Some room \<Longrightarrow> rr_host room \<noteq> None \<or> rr_clients room \<noteq> []"
  shows "hub_ok r"
  unfolding hub_ok_def host_outbox_def client_outbox_def using assms by blast

lemma relay_join_parts:
  "rl_next (relay_join device role conn r) = Suc (rl_next r)"
  "names (relay_join device role conn r) k = (if k = rl_next r then Some (device, role, conn) else names r k)"
  "rl_hub (relay_join device role conn r) =
     (case role of RoleHost \<Rightarrow> fst (join_host device (rl_next r) (rl_hub r)) | RoleClient \<Rightarrow> join_client device conn (rl_next r) (rl_hub r))"
  by (auto simp: relay_join_def names_def who_def join_host_def try_send_def put_frame_def Let_def split: relay_role.split option.split)

lemma hub_ok_join:
  assumes "hub_ok r"
  shows "hub_ok (relay_join device role conn r)"
proof -
  note old = hub_okD [OF assms, unfolded host_outbox_def client_outbox_def]
  have fresh: "names r (rl_next r) = None" using old(1) by (metis less_irrefl option.exhaust)
  show ?thesis
  proof (cases role)
    case RoleHost
    show ?thesis
      by (rule hub_okI; unfold relay_join_parts RoleHost)
        (use old fresh in \<open>fastforce simp: join_host_def less_SucI split: if_splits\<close>)+
  next
    case RoleClient
    show ?thesis
      by (rule hub_okI; unfold relay_join_parts RoleClient)
        (use old fresh in \<open>fastforce simp: join_client_def Let_def less_SucI split: if_splits\<close>)+
  qed
qed

lemma relay_leave_parts:
  "rl_next (relay_leave n c r) = rl_next r"
  "names (relay_leave n c r) k = (if k = n then None else names r k)"
  "rl_hub (relay_leave n c r) =
     (case rc_role c of RoleHost \<Rightarrow> leave_host (rc_device c) n (rl_hub r) | RoleClient \<Rightarrow> leave_client (rc_device c) (rc_id c) (rl_hub r))"
proof -
  let ?r = "r\<lparr>rl_hub := leave_host (rc_device c) n (rl_hub r)\<rparr>"
  show "rl_next (relay_leave n c r) = rl_next r"
    "rl_hub (relay_leave n c r) =
       (case rc_role c of RoleHost \<Rightarrow> leave_host (rc_device c) n (rl_hub r) | RoleClient \<Rightarrow> leave_client (rc_device c) (rc_id c) (rl_hub r))"
    by (simp_all add: relay_leave_def Let_def split: relay_role.split)
  have keep: "map_option who (bt_get (rl_conns (fold (\<lambda>m. try_send m f) ms ?r)) k) = names r k" for f ms
    by (simp flip: names_def)
  show "names (relay_leave n c r) k = (if k = n then None else names r k)"
    using keep by (auto simp: relay_leave_def Let_def names_def split: relay_role.split)
qed

lemma hub_ok_leave:
  assumes "hub_ok r" "bt_get (rl_conns r) n = Some c"
  shows "hub_ok (relay_leave n c r)"
proof -
  note old = hub_okD [OF assms(1), unfolded host_outbox_def client_outbox_def]
  have n: "names r n = Some (rc_device c, rc_role c, rc_id c)" using assms(2) by (simp add: names_def who_def)
  have empty: "room_at (rl_hub r) d = \<lparr>rr_host = None, rr_clients = []\<rparr>" if "bt_get (rl_hub r) d = None" for d
    using that by (simp add: room_at_def)
  have some: "room_at (rl_hub r) d = x" if "bt_get (rl_hub r) d = Some x" for d x
    using that by (simp add: room_at_def)
  show ?thesis
  proof (cases "rc_role c")
    case RoleHost
    show ?thesis
    proof (rule hub_okI; unfold relay_leave_parts RoleHost relay_role.case)
      show "k < rl_next r" if "(if k = n then None else names r k) = Some x" for k x
        using that old(1) by (auto split: if_splits)
      show "\<exists>conn. (if h = n then None else names r h) = Some (d, RoleHost, conn)"
        if "rr_host (room_at (leave_host (rc_device c) n (rl_hub r)) d) = Some h" for d h
        using that old(2) [of d h] n by (auto simp: leave_host_def some empty split: option.splits if_splits)
      show "(if m = n then None else names r m) = Some (d, RoleClient, conn)"
        if "bt_get (rr_clients (room_at (leave_host (rc_device c) n (rl_hub r)) d)) conn = Some m" for d conn m
        using that old(3) [of d conn m] n RoleHost by (auto simp: leave_host_def some split: option.splits if_splits)
      show "rr_host room \<noteq> None \<or> rr_clients room \<noteq> []"
        if "bt_get (leave_host (rc_device c) n (rl_hub r)) d = Some room" for d room
        using that old(4) [of d] by (auto simp: leave_host_def put_room_def split: option.splits if_splits)
    qed
  next
    case RoleClient
    show ?thesis
    proof (rule hub_okI; unfold relay_leave_parts RoleClient relay_role.case)
      show "k < rl_next r" if "(if k = n then None else names r k) = Some x" for k x
        using that old(1) by (auto split: if_splits)
      show "\<exists>conn. (if h = n then None else names r h) = Some (d, RoleHost, conn)"
        if "rr_host (room_at (leave_client (rc_device c) (rc_id c) (rl_hub r)) d) = Some h" for d h
        using that old(2) [of d h] n RoleClient by (auto simp: leave_client_def some split: option.splits if_splits)
      show "(if m = n then None else names r m) = Some (d, RoleClient, conn)"
        if "bt_get (rr_clients (room_at (leave_client (rc_device c) (rc_id c) (rl_hub r)) d)) conn = Some m" for d conn m
        using that old(3) [of d conn m] n by (auto simp: leave_client_def some empty split: option.splits if_splits)
      show "rr_host room \<noteq> None \<or> rr_clients room \<noteq> []"
        if "bt_get (leave_client (rc_device c) (rc_id c) (rl_hub r)) d = Some room" for d room
        using that old(4) [of d] by (auto simp: leave_client_def put_room_def split: option.splits if_splits)
    qed
  qed
qed

lemma hub_ok_step:
  assumes "relay_step r r'" "hub_ok r"
  shows "hub_ok r'"
  using assms
proof cases
  case (write_out n c f fs)
  then show ?thesis using assms(2) by (auto simp: names_def fun_eq_iff elim!: hub_ok_cong [THEN iffD2, rotated 3])
next
  case (resume n c m f)
  have "names (r\<lparr>rl_conns := bt_insert n (c\<lparr>rc_waiting := None\<rparr>) (rl_conns r)\<rparr>) = names r"
    using resume by (auto simp: names_def fun_eq_iff)
  then have "names r' = names r" using resume by simp
  then show ?thesis using resume assms(2) hub_ok_cong [of r' r] by simp
qed (use assms(2) hub_ok_join hub_ok_leave hub_ok_cong relay_frame_frame in \<open>metis\<close>)+

lemma hub_ok_empty: "hub_ok empty_relay"
  by (rule hub_okI) (auto simp: empty_relay_def names_def room_at_def)

lemma hub_ok_reachable: "relay_steps empty_relay r \<Longrightarrow> hub_ok r"
  by (induction empty_relay r rule: relay_steps.induct) (auto simp: hub_ok_step hub_ok_empty)

text \<open>The registered socket of a device, or of a client, is the one that joined last of those still open.\<close>

definition newest :: "relay \<Rightarrow> bool" where
  "newest r =
     ((\<forall>device h n conn. host_outbox device (rl_hub r) = Some h \<longrightarrow> names r n = Some (device, RoleHost, conn) \<longrightarrow> n \<le> h) \<and>
      (\<forall>device conn m n. client_outbox device conn (rl_hub r) = Some m \<longrightarrow> names r n = Some (device, RoleClient, conn) \<longrightarrow> n \<le> m))"

lemma newestI:
  assumes "\<And>device h n conn. rr_host (room_at (rl_hub r) device) = Some h \<Longrightarrow> names r n = Some (device, RoleHost, conn) \<Longrightarrow> n \<le> h"
    "\<And>device conn m n. bt_get (rr_clients (room_at (rl_hub r) device)) conn = Some m \<Longrightarrow> names r n = Some (device, RoleClient, conn) \<Longrightarrow> n \<le> m"
  shows "newest r"
  unfolding newest_def host_outbox_def client_outbox_def using assms by blast

lemma newestD:
  assumes "newest r"
  shows "rr_host (room_at (rl_hub r) device) = Some h \<Longrightarrow> names r n = Some (device, RoleHost, conn) \<Longrightarrow> n \<le> h"
    "bt_get (rr_clients (room_at (rl_hub r) device)) conn = Some m \<Longrightarrow> names r n = Some (device, RoleClient, conn) \<Longrightarrow> n \<le> m"
  using assms unfolding newest_def host_outbox_def client_outbox_def by blast+

lemma newest_cong: "rl_hub r' = rl_hub r \<Longrightarrow> names r' = names r \<Longrightarrow> newest r' = newest r"
  by (simp add: newest_def)

lemma newest_join:
  assumes "hub_ok r" "newest r"
  shows "newest (relay_join device role conn r)"
proof -
  note old = newestD [OF assms(2)]
  have below: "n < rl_next r" if "names r n = Some x" for n x using hub_okD(1) [OF assms(1) that] .
  show ?thesis
  proof (cases role)
    case RoleHost
    show ?thesis
      by (rule newestI; unfold relay_join_parts RoleHost)
        (use old below in \<open>force simp: join_host_def less_imp_le split: if_splits\<close>)+
  next
    case RoleClient
    show ?thesis
      by (rule newestI; unfold relay_join_parts RoleClient)
        (use old below in \<open>force simp: join_client_def Let_def less_imp_le split: if_splits\<close>)+
  qed
qed

lemma leave_keeps:
  "rr_host (room_at (leave_host d n hub) d') = Some h \<Longrightarrow> rr_host (room_at hub d') = Some h"
  "bt_get (rr_clients (room_at (leave_host d n hub) d')) conn = Some m \<Longrightarrow> bt_get (rr_clients (room_at hub d')) conn = Some m"
  "rr_host (room_at (leave_client d c hub) d') = Some h \<Longrightarrow> rr_host (room_at hub d') = Some h"
  "bt_get (rr_clients (room_at (leave_client d c hub) d')) conn = Some m \<Longrightarrow> bt_get (rr_clients (room_at hub d')) conn = Some m"
  by (auto simp: leave_host_def leave_client_def room_at_def put_room_def split: option.splits if_splits)

lemma newest_leave:
  assumes "newest r"
  shows "newest (relay_leave n c r)"
proof (rule newestI; unfold relay_leave_parts)
  let ?hub = "case rc_role c of RoleHost \<Rightarrow> leave_host (rc_device c) n (rl_hub r) | RoleClient \<Rightarrow> leave_client (rc_device c) (rc_id c) (rl_hub r)"
  show "k \<le> h" if "rr_host (room_at ?hub device) = Some h" "(if k = n then None else names r k) = Some (device, RoleHost, conn)" for device h k conn
  proof -
    have "rr_host (room_at (rl_hub r) device) = Some h" using that(1)
      by (cases "rc_role c") (simp_all only: relay_role.case; erule leave_keeps)+
    then show ?thesis using newestD(1) [OF assms] that(2) by (simp split: if_splits)
  qed
  show "k \<le> m" if "bt_get (rr_clients (room_at ?hub device)) conn = Some m" "(if k = n then None else names r k) = Some (device, RoleClient, conn)"
    for device conn m k
  proof -
    have "bt_get (rr_clients (room_at (rl_hub r) device)) conn = Some m" using that(1)
      by (cases "rc_role c") (simp_all only: relay_role.case; erule leave_keeps)+
    then show ?thesis using newestD(2) [OF assms] that(2) by (simp split: if_splits)
  qed
qed

lemma newest_step:
  assumes "relay_step r r'" "hub_ok r" "newest r"
  shows "newest r'"
  using assms(1)
proof cases
  case (join device role conn)
  then show ?thesis using newest_join assms(2,3) by simp
next
  case (incoming n c f)
  then show ?thesis using assms(3) newest_cong [of r' r] by simp
next
  case (write_out n c f fs)
  then have "names r' = names r" by (auto simp: names_def fun_eq_iff)
  then show ?thesis using write_out assms(3) newest_cong [of r' r] by simp
next
  case (resume n c m f)
  have "names (r\<lparr>rl_conns := bt_insert n (c\<lparr>rc_waiting := None\<rparr>) (rl_conns r)\<rparr>) = names r"
    using resume by (auto simp: names_def fun_eq_iff)
  then show ?thesis using resume assms(3) newest_cong [of r' r] by simp
next
  case (leave n c)
  then show ?thesis using newest_leave assms(3) by simp
qed

lemma newest_reachable: "relay_steps empty_relay r \<Longrightarrow> newest r"
proof (induction empty_relay r rule: relay_steps.induct)
  case none
  show ?case by (rule newestI) (simp_all add: empty_relay_def room_at_def)
qed (auto intro: newest_step hub_ok_reachable)

section \<open>What a frame reaches\<close>

lemma put_frame_conn:
  "bt_get (rl_conns (put_frame m f r)) k =
     (case bt_get (rl_conns r) k of
        None \<Rightarrow> None
      | Some c \<Rightarrow> Some (if k = m \<and> has_room c then c\<lparr>rc_inbox := rc_inbox c @ [f]\<rparr> else c))"
  by (auto simp: put_frame_def split: option.split)

lemma send_conn:
  "bt_get (rl_conns (send n m f r)) k =
     (case bt_get (rl_conns r) k of
        None \<Rightarrow> None
      | Some c \<Rightarrow>
          (case bt_get (rl_conns r) m of
             None \<Rightarrow> Some c
           | Some d \<Rightarrow>
               if has_room d then Some (if k = m then c\<lparr>rc_inbox := rc_inbox c @ [f]\<rparr> else c)
               else Some (if k = n then c\<lparr>rc_waiting := Some (m, f)\<rparr> else c)))"
  by (auto simp: send_def put_frame_conn split: option.split)

lemma send_inbox:
  assumes "bt_get (rl_conns r) k = Some d" "bt_get (rl_conns (send n m f r)) k = Some d'" "rc_inbox d' \<noteq> rc_inbox d"
  shows "k = m \<and> rc_inbox d' = rc_inbox d @ [f]"
  using assms by (auto simp: send_conn split: option.splits if_splits)

lemma relay_frame_shape: "\<exists>m g. relay_frame n c f r = r \<or> relay_frame n c f r = send n m g r"
proof -
  have sent: "\<exists>m' g'. send n m g r = r \<or> send n m g r = send n m' g' r" for m g by blast
  show ?thesis unfolding relay_frame_def
    by (cases "rc_role c"; cases "host_outbox (rc_device c) (rl_hub r)"; cases "fh_to (fst f)";
        cases "client_outbox (rc_device c) (the (fh_to (fst f))) (rl_hub r)"; simp only: sent relay_role.case option.case option.sel; blast)
qed


text \<open>
  A room disappears with its last socket: when no socket is open the hub is empty.
\<close>
theorem relay_hub_tidy:
  assumes "relay_steps empty_relay r" "rl_conns r = []"
  shows "rl_hub r = []"
proof (rule ccontr)
  assume "rl_hub r \<noteq> []"
  then obtain device room where first: "hd (rl_hub r) = (device, room)" "(device, room) \<in> set (rl_hub r)"
    by (metis list.set_sel(1) surj_pair)
  note ok = hub_okD [OF hub_ok_reachable [OF assms(1)]]
  have none: "names r m = None" for m using assms(2) by (simp add: names_def)
  have "bt_get (rl_hub r) device = Some room"
    using first \<open>rl_hub r \<noteq> []\<close> by (cases "rl_hub r") (auto simp: bt_get_def)
  then have "room_at (rl_hub r) device = room" "rr_host room \<noteq> None \<or> rr_clients room \<noteq> []" using ok(4) by (auto simp: room_at_def)
  moreover have "rr_host room = None" using ok(2) [of device] none calculation(1) by (force simp: host_outbox_def)
  moreover have "bt_get (rr_clients room) conn = None" for conn
    using ok(3) [of device conn] none calculation(1) by (force simp: client_outbox_def)
  ultimately show False by (cases "rr_clients room") (auto simp: bt_get_def split: if_splits, metis option.distinct(1))
qed

section \<open>A call and its answer\<close>

text \<open>
  A call through the relay: a registered client's RPC frame is appended to the outbox of its live host, where the host
  end hands its text to the virtual connection of that client; the answer of that connection is appended to the outbox
  of the same socket, and the client's link reads it as the RPC text.
\<close>
theorem relay_rpc_roundtrip:
  assumes reach: "relay_steps empty_relay r"
    and client: "client_outbox device conn (rl_hub r) = Some n" "bt_get (rl_conns r) n = Some c" "has_room c"
    and host: "host_outbox device (rl_hub r) = Some h" "bt_get (rl_conns r) h = Some d" "has_room d"
    and call: "r1 = relay_frame n c (new_header rpc_kind rpc_kind, text) r"
    and answer: "r2 = relay_frame h d (virtual_reply conn reply) r1"
  shows "(\<exists>g conns. map_option rc_inbox (bt_get (rl_conns r1) h) = Some (rc_inbox d @ [g]) \<and>
      handle_host_frame nudge_chat vs g = (conns, [RpcIn conn text]) \<and> conn \<in> set conns) \<and>
    (\<exists>g. map_option rc_inbox (bt_get (rl_conns r2) n) = Some (rc_inbox c @ [g]) \<and> link_frame g = RpcText reply)"
proof -
  note ok = hub_okD [OF hub_ok_reachable [OF reach]]
  have c: "rc_device c = device" "rc_role c = RoleClient" "rc_id c = conn"
    using ok(3) [OF client(1)] client(2) by (auto simp: names_def who_def)
  have d: "rc_device d = device" "rc_role d = RoleHost"
    using ok(2) [OF host(1)] host(2) by (auto simp: names_def who_def)
  have other: "n \<noteq> h" using c(2) d(2) client(2) host(2) by auto
  let ?g = "((new_header rpc_kind rpc_kind)\<lparr>fh_from := Some conn\<rparr>, text)"
  have r1: "r1 = send n h ?g r" using call c d host(1) by (simp add: relay_frame_def new_header_def)
  have "map_option rc_inbox (bt_get (rl_conns r1) h) = Some (rc_inbox d @ [?g])"
    by (simp add: r1 send_conn host)
  moreover have "handle_host_frame nudge_chat vs ?g = (if conn \<in> set vs then vs else vs @ [conn], [RpcIn conn text])"
    by (simp add: handle_host_frame_def new_header_def kind_defs)
  moreover have "bt_get (rl_conns r1) n = Some c" using other by (simp add: r1 send_conn host client)
  then have "map_option rc_inbox (bt_get (rl_conns r2) n) = Some (rc_inbox c @ [(new_header rpc_kind rpc_kind, reply)])"
    using client(1,3) d by (simp add: answer relay_frame_def virtual_reply_def new_header_def send_conn r1)
  moreover have "link_frame (new_header rpc_kind rpc_kind, reply) = RpcText reply"
    by (simp add: link_frame_def new_header_def kind_defs)
  moreover have "conn \<in> set (if conn \<in> set vs then vs else vs @ [conn])" by simp
  ultimately show ?thesis by blast
qed

section \<open>Tasks that wait for each other\<close>

text \<open>
  Two tasks (or one, when they are the same) each waiting for room in the full outbox of the other. A waiting task does
  not empty its outbox.
\<close>

definition waits_for :: "nat \<Rightarrow> nat \<Rightarrow> relay \<Rightarrow> bool" where
  "waits_for n m r =
     (case bt_get (rl_conns r) n of
        None \<Rightarrow> False
      | Some c \<Rightarrow> \<not> has_room c \<and> (case rc_waiting c of Some (k, f) \<Rightarrow> k = m | None \<Rightarrow> False))"

definition stuck :: "nat \<Rightarrow> nat \<Rightarrow> relay \<Rightarrow> bool" where
  "stuck n m r = (waits_for n m r \<and> waits_for m n r)"

lemma waits_forE:
  assumes "waits_for n m r"
  obtains c f where "bt_get (rl_conns r) n = Some c" "\<not> has_room c" "rc_waiting c = Some (m, f)"
  using assms by (auto simp: waits_for_def split: option.splits)

lemma waits_for_cong: "bt_get (rl_conns r') n = bt_get (rl_conns r) n \<Longrightarrow> waits_for n m r' = waits_for n m r"
  by (simp add: waits_for_def)

lemma full_put_frame: "bt_get (rl_conns r) k = Some c \<Longrightarrow> \<not> has_room c \<Longrightarrow> bt_get (rl_conns (put_frame m f r)) k = Some c"
  by (simp add: put_frame_conn)

lemma full_fold_try_send:
  "bt_get (rl_conns r) k = Some c \<Longrightarrow> \<not> has_room c \<Longrightarrow> bt_get (rl_conns (fold (\<lambda>m. try_send m f) ms r)) k = Some c"
  by (induction ms arbitrary: r) (simp_all add: try_send_def full_put_frame)

lemma full_send:
  "bt_get (rl_conns r) k = Some c \<Longrightarrow> \<not> has_room c \<Longrightarrow> k \<noteq> n \<Longrightarrow> bt_get (rl_conns (send n m f r)) k = Some c"
  by (auto simp: send_conn split: option.split)

lemma full_relay_frame:
  "bt_get (rl_conns r) k = Some c \<Longrightarrow> \<not> has_room c \<Longrightarrow> k \<noteq> n \<Longrightarrow> bt_get (rl_conns (relay_frame n own f r)) k = Some c"
  by (simp add: relay_frame_def full_send split: relay_role.split option.split)

lemma full_leave:
  assumes "bt_get (rl_conns r) k = Some c" "\<not> has_room c" "k \<noteq> n"
  shows "bt_get (rl_conns (relay_leave n own r)) k = Some c"
  using assms full_fold_try_send [of "r\<lparr>rl_hub := leave_host (rc_device own) n (rl_hub r)\<rparr>" k c]
  by (simp add: relay_leave_def Let_def split: relay_role.split)

lemma full_join:
  assumes "bt_get (rl_conns r) k = Some c" "\<not> has_room c" "k \<noteq> rl_next r"
  shows "bt_get (rl_conns (relay_join device role conn r)) k = Some c"
  using assms by (auto simp: relay_join_def Let_def join_host_def try_send_def full_put_frame split: relay_role.split option.split)

text \<open>A waiting task with a full outbox moves only when the outbox it waits for has room.\<close>

lemma waiting_task_step:
  assumes "relay_step r r'" "hub_ok r" "bt_get (rl_conns r) k = Some c" "\<not> has_room c" "rc_waiting c = Some (m, f)"
    and target: "bt_get (rl_conns r) m = Some d" "\<not> has_room d"
  shows "bt_get (rl_conns r') k = Some c"
  using assms(1)
proof cases
  case (join device role conn)
  have "k \<noteq> rl_next r" using hub_okD(1) [OF assms(2)] assms(3) by (fastforce simp: names_def)
  then show ?thesis using join assms(3,4) full_join by simp
next
  case (resume n own m' g)
  then have "k \<noteq> n" using assms(3,5) target by auto
  then show ?thesis using resume assms(3,4) full_put_frame by simp
next
  case (incoming n own g)
  then have "k \<noteq> n" using assms(3,5) by auto
  then show ?thesis using incoming assms(3,4) full_relay_frame by simp
next
  case (write_out n own g gs)
  then have "k \<noteq> n" using assms(3,5) by auto
  then show ?thesis using write_out assms(3) by simp
next
  case (leave n own)
  then have "k \<noteq> n" using assms(3,5) by auto
  then show ?thesis using leave assms(3,4) full_leave by simp
qed

lemma stuck_step:
  assumes "relay_step r r'" "hub_ok r" "stuck n m r"
  shows "bt_get (rl_conns r') n = bt_get (rl_conns r) n" "stuck n m r'"
proof -
  from assms(3) have "waits_for n m r" "waits_for m n r" by (simp_all add: stuck_def)
  then obtain c f d g where n: "bt_get (rl_conns r) n = Some c" "\<not> has_room c" "rc_waiting c = Some (m, f)"
    and m: "bt_get (rl_conns r) m = Some d" "\<not> has_room d" "rc_waiting d = Some (n, g)"
    by (elim waits_forE)
  have "bt_get (rl_conns r') n = Some c" "bt_get (rl_conns r') m = Some d"
    using waiting_task_step [OF assms(1,2) n m(1,2)] waiting_task_step [OF assms(1,2) m n(1,2)] by simp_all
  then show "bt_get (rl_conns r') n = bt_get (rl_conns r) n" "stuck n m r'"
    using n m by (simp_all add: stuck_def waits_for_def)
qed

text \<open>
  C23. Two tasks that wait for each other's outbox wait for ever: from such a state no sequence of steps of the relay, new
  sockets and hosts included, changes the socket or makes it write another frame.
\<close>
theorem relay_deadlock:
  assumes "relay_steps r r'" "hub_ok r" "stuck n m r"
  shows "bt_get (rl_conns r') n = bt_get (rl_conns r) n \<and> stuck n m r'"
proof -
  from assms have "hub_ok r' \<and> bt_get (rl_conns r') n = bt_get (rl_conns r) n \<and> stuck n m r'"
    by (induction r r' rule: relay_steps.induct) (auto simp: hub_ok_step stuck_step)
  then show ?thesis by simp
qed

section \<open>Hosts and clients that leave\<close>

lemma fold_try_send_started:
  "map_option rc_inbox (bt_get (rl_conns r) m) = Some (f # hs) \<Longrightarrow>
   \<exists>gs. map_option rc_inbox (bt_get (rl_conns (fold (\<lambda>m. try_send m f) ms r)) m) = Some (f # gs)"
proof (induction ms arbitrary: r hs)
  case (Cons x xs)
  have "\<exists>hs. map_option rc_inbox (bt_get (rl_conns (try_send x f r)) m) = Some (f # hs)"
    using Cons.prems by (auto simp: try_send_def put_frame_conn)
  then show ?case using Cons.IH by auto
qed auto

lemma fold_try_send_first:
  "m \<in> set ms \<Longrightarrow> map_option rc_inbox (bt_get (rl_conns r) m) = Some [] \<Longrightarrow>
   \<exists>gs. map_option rc_inbox (bt_get (rl_conns (fold (\<lambda>m. try_send m f) ms r)) m) = Some (f # gs)"
proof (induction ms arbitrary: r)
  case (Cons x xs)
  show ?case
  proof (cases "x = m")
    case True
    have "map_option rc_inbox (bt_get (rl_conns (try_send m f r)) m) = Some (f # [])"
      using Cons.prems by (auto simp: try_send_def put_frame_conn has_room_def outbox_capacity_def)
    then show ?thesis using fold_try_send_started True by auto
  next
    case False
    then have "map_option rc_inbox (bt_get (rl_conns (try_send x f r)) m) = Some []"
      using Cons.prems by (auto simp: try_send_def put_frame_conn)
    then show ?thesis using Cons False by auto
  qed
qed simp

text \<open>
  A host that was superseded leaves the new host registered, and yet tells every client of the room that its host is
  closed: a registered client with room in its outbox gets the frame that takes its link down.
\<close>
theorem superseded_host_closes_clients:
  assumes "relay_steps empty_relay r" "bt_get (rl_conns r) n = Some c" "rc_role c = RoleHost"
    and live: "host_outbox (rc_device c) (rl_hub r) = Some h" "h \<noteq> n"
    and client: "client_outbox (rc_device c) conn (rl_hub r) = Some m" "bt_get (rl_conns r) m = Some d" "rc_inbox d = []"
    and closed: "r' = relay_leave n c r"
  shows "host_outbox (rc_device c) (rl_hub r') = Some h \<and>
    (\<exists>g gs. map_option rc_inbox (bt_get (rl_conns r') m) = Some (g # gs) \<and> link_frame g = LinkDown (control_payload host_closed))"
proof -
  define hub where "hub = leave_host (rc_device c) n (rl_hub r)"
  define f where "f = control relay_kind host_closed"
  obtain room where room: "bt_get (rl_hub r) (rc_device c) = Some room" "rr_host room = Some h" "bt_get (rr_clients room) conn = Some m"
    using live(1) client(1) by (auto simp: host_outbox_def client_outbox_def room_at_def split: option.splits)
  then have hub: "room_at hub (rc_device c) = room" using live(2) by (simp add: hub_def leave_host_def)
  have "m \<in> set (client_outboxes (rc_device c) hub)"
    using room(3) by (force simp: client_outboxes_def hub bt_get_def dest: map_of_SomeD)
  moreover have "m \<noteq> n"
    using hub_okD(3) [OF hub_ok_reachable [OF assms(1)] client(1)] assms(2,3) by (auto simp: names_def who_def)
  ultimately have "\<exists>gs. map_option rc_inbox (bt_get (rl_conns (fold (\<lambda>m. try_send m f) (client_outboxes (rc_device c) hub) (r\<lparr>rl_hub := hub\<rparr>))) m) = Some (f # gs)"
    using client(2,3) by (intro fold_try_send_first) simp_all
  then have "\<exists>gs. map_option rc_inbox (bt_get (rl_conns r') m) = Some (f # gs)"
    using \<open>m \<noteq> n\<close> by (simp add: closed relay_leave_def assms(3) Let_def hub_def f_def)
  moreover have "link_frame f = LinkDown (control_payload host_closed)"
    by (simp add: f_def control_def link_frame_def new_header_def)
  moreover have "host_outbox (rc_device c) (rl_hub r') = Some h"
    by (simp add: closed relay_leave_parts assms(3) host_outbox_def hub room flip: hub_def)
  ultimately show ?thesis by blast
qed

text \<open>
  A client that leaves is forgotten by the relay and nobody is told: no other socket gets a frame, so the host end
  keeps the virtual connection of a client that is gone.
\<close>
theorem client_leave_silent:
  assumes "bt_get (rl_conns r) n = Some c" "rc_role c = RoleClient" "k \<noteq> n"
  shows "client_outbox (rc_device c) (rc_id c) (rl_hub (relay_leave n c r)) = None \<and>
    bt_get (rl_conns (relay_leave n c r)) k = bt_get (rl_conns r) k"
  using assms by (auto simp: relay_leave_def client_outbox_def leave_client_def room_at_def put_room_def split: option.split)

text \<open>
  The cooldown after a failed dial is between five seconds and a minute, whatever the number of failures, and a dial
  is refused exactly until it ends.
\<close>
theorem cooldown_bounded:
  "\<exists>until. ds_cooldown_until (note_failure now s) = Some until \<and> now + cooldown_base \<le> until \<and> until \<le> now + cooldown_max \<and>
     cooling later (note_failure now s) = (later < until)"
proof -
  have "cooldown_base \<le> min (cooldown_base * 2 ^ k) cooldown_max" for k
    by (simp add: cooldown_base_def cooldown_max_def)
  then show ?thesis by (simp add: note_failure_def cooling_def Let_def)
qed

section \<open>Concrete runs\<close>

definition sample_conn :: "relay_role \<Rightarrow> string \<Rightarrow> device_frame list \<Rightarrow> (nat \<times> device_frame) option \<Rightarrow> relay_conn" where
  "sample_conn role conn fs w = \<lparr>rc_device = ''d'', rc_role = role, rc_id = conn, rc_inbox = fs, rc_waiting = w, rc_written = []\<rparr>"

text \<open>A host and a client with so many frames in their outboxes, and what their tasks wait for.\<close>

definition sample :: "nat \<Rightarrow> nat \<Rightarrow> (nat \<times> device_frame) option \<Rightarrow> (nat \<times> device_frame) option \<Rightarrow> relay" where
  "sample a b v w =
     \<lparr>rl_hub = [(''d'', \<lparr>rr_host = Some 0, rr_clients = [(''c'', 1)]\<rparr>)],
      rl_conns = [(0, sample_conn RoleHost ''h'' (replicate a (\<lparr>fh_s = ''rpc'', fh_k = ''rpc'', fh_to = None, fh_from = Some ''c''\<rparr>, [])) v),
                  (1, sample_conn RoleClient ''c'' (replicate b (\<lparr>fh_s = ''rpc'', fh_k = ''rpc'', fh_to = None, fh_from = None\<rparr>, [])) w)],
      rl_next = 2\<rparr>"

lemma sample_start: "relay_steps empty_relay (sample 0 0 None None)"
proof -
  have "sample 0 0 None None = relay_join ''d'' RoleClient ''c'' (relay_join ''d'' RoleHost ''h'' empty_relay)"
    by (simp add: sample_def sample_conn_def relay_join_def join_host_def join_client_def empty_relay_def room_at_def bt_get_def Let_def)
  then show ?thesis using relay_steps.intros relay_step.join by metis
qed

lemma replicate_snoc: "replicate n x @ [x] = replicate (Suc n) x"
  by (simp add: replicate_append_same)

lemma sample_to_client:
  "relay_step (sample a b None w) (if b < 64 then sample a (Suc b) None w
     else sample a b (Some (1, \<lparr>fh_s = ''rpc'', fh_k = ''rpc'', fh_to = None, fh_from = None\<rparr>, [])) w)"
proof -
  let ?f = "(\<lparr>fh_s = ''rpc'', fh_k = ''rpc'', fh_to = Some ''c'', fh_from = None\<rparr>, []) :: device_frame"
  have "bt_get (rl_conns (sample a b None w)) 0 = Some (the (bt_get (rl_conns (sample a b None w)) 0))"
    by (simp add: sample_def bt_get_def)
  from relay_step.incoming [OF this, of ?f] show ?thesis
    by (simp add: sample_def sample_conn_def bt_get_def relay_frame_def client_outbox_def room_at_def send_def put_frame_def
        has_room_def outbox_capacity_def replicate_append_same split: if_splits)
qed

lemma sample_to_host:
  "relay_step (sample a b v None) (if a < 64 then sample (Suc a) b v None
     else sample a b v (Some (0, \<lparr>fh_s = ''rpc'', fh_k = ''rpc'', fh_to = None, fh_from = Some ''c''\<rparr>, [])))"
proof -
  let ?f = "(\<lparr>fh_s = ''rpc'', fh_k = ''rpc'', fh_to = None, fh_from = None\<rparr>, []) :: device_frame"
  have "bt_get (rl_conns (sample a b v None)) 1 = Some (the (bt_get (rl_conns (sample a b v None)) 1))"
    by (simp add: sample_def bt_get_def)
  from relay_step.incoming [OF this, of ?f] show ?thesis
    by (simp add: sample_def sample_conn_def bt_get_def relay_frame_def host_outbox_def room_at_def send_def put_frame_def
        has_room_def outbox_capacity_def replicate_append_same split: if_splits)
qed

lemma sample_reachable: "a \<le> 64 \<Longrightarrow> b \<le> 64 \<Longrightarrow> relay_steps empty_relay (sample a b None None)"
proof (induction a arbitrary: b)
  case 0
  then show ?case
  proof (induction b)
    case (Suc b)
    then show ?case using relay_steps.more [OF _ sample_to_client [of 0 b None]] by simp
  qed (rule sample_start)
next
  case (Suc a)
  then show ?case using relay_steps.more [OF _ sample_to_host [of a b None]] by simp
qed

abbreviation to_client_frame :: device_frame where
  "to_client_frame \<equiv> (\<lparr>fh_s = ''rpc'', fh_k = ''rpc'', fh_to = None, fh_from = None\<rparr>, [])"

abbreviation to_host_frame :: device_frame where
  "to_host_frame \<equiv> (\<lparr>fh_s = ''rpc'', fh_k = ''rpc'', fh_to = None, fh_from = Some ''c''\<rparr>, [])"

definition jammed :: relay where
  "jammed = sample 64 64 (Some (1, to_client_frame)) (Some (0, to_host_frame))"

lemma jammed_reachable: "relay_steps empty_relay jammed"
proof -
  have "relay_steps empty_relay (sample 64 64 (Some (1, to_client_frame)) None)"
    using relay_steps.more [OF sample_reachable [of 64 64] sample_to_client [of 64 64 None]] by simp
  from relay_steps.more [OF this sample_to_host [of 64 64 "Some (1, to_client_frame)"]] show ?thesis by (simp add: jammed_def)
qed

lemma jammed_stuck: "stuck 0 1 jammed"
  by (simp add: jammed_def stuck_def waits_for_def sample_def sample_conn_def bt_get_def has_room_def outbox_capacity_def)

lemmas sample_simps = sample_def sample_conn_def bt_get_def relay_frame_def host_outbox_def client_outbox_def room_at_def
  send_def put_frame_def has_room_def outbox_capacity_def

theorem device_frame_roundtrip_witness:
  "decode_device_frame (\<lambda>bs. if bs = [1, 2] then Some (new_header ''rpc'' ''rpc'') else None)
     (encode_device_frame (\<lambda>h. [1, 2]) (new_header ''rpc'' ''rpc'', [7])) = Some (new_header ''rpc'' ''rpc'', [7])"
  by (rule device_frame_roundtrip) simp_all


theorem relay_hub_tidy_witness: "rl_hub empty_relay = []"
  by (rule relay_hub_tidy) (simp_all add: relay_steps.none empty_relay_def)

theorem relay_rpc_roundtrip_witness:
  "\<exists>g. map_option rc_inbox (bt_get (rl_conns
       (relay_frame 0 (sample_conn RoleHost ''h'' [] None) (virtual_reply ''c'' [2])
         (relay_frame 1 (sample_conn RoleClient ''c'' [] None) (new_header rpc_kind rpc_kind, [1]) (sample 0 0 None None)))) 1) = Some [g] \<and>
     link_frame g = RpcText [2]"
  using relay_rpc_roundtrip [of "sample 0 0 None None" "''d''" "''c''" 1 "sample_conn RoleClient ''c'' [] None" 0
      "sample_conn RoleHost ''h'' [] None" _ "[1]" _ "[2]", OF sample_start]
  by (simp add: sample_simps)

theorem relay_deadlock_witness:
  "relay_steps empty_relay jammed \<and> stuck 0 1 jammed \<and> stuck 0 1 (relay_join ''d'' RoleHost ''h2'' jammed)"
  using jammed_reachable jammed_stuck
    relay_deadlock [OF relay_steps.more [OF relay_steps.none relay_step.join] hub_ok_reachable [OF jammed_reachable] jammed_stuck]
  by simp

definition superseded :: relay where
  "superseded = relay_join ''d'' RoleHost ''h2'' (sample 0 0 None None)"

lemma superseded_reachable: "relay_steps empty_relay superseded"
  unfolding superseded_def using relay_steps.more [OF sample_start relay_step.join] .

theorem superseded_host_closes_clients_witness:
  "host_outbox ''d'' (rl_hub (relay_leave 0 (the (bt_get (rl_conns superseded) 0)) superseded)) = Some 2 \<and>
   (\<exists>g gs. map_option rc_inbox (bt_get (rl_conns (relay_leave 0 (the (bt_get (rl_conns superseded) 0)) superseded)) 1) = Some (g # gs) \<and>
     link_frame g = LinkDown (control_payload host_closed))"
proof -
  have s: "bt_get (rl_conns superseded) 0 = Some (sample_conn RoleHost ''h'' [control relay_kind host_closed] None)"
    "bt_get (rl_conns superseded) 1 = Some (sample_conn RoleClient ''c'' [] None)"
    "host_outbox ''d'' (rl_hub superseded) = Some 2" "client_outbox ''d'' ''c'' (rl_hub superseded) = Some 1"
    by (simp_all add: superseded_def relay_join_def join_host_def Let_def try_send_def sample_simps)
  from superseded_host_closes_clients [OF superseded_reachable s(1) _ _ _ _ s(2) _ HOL.refl, of 2 "''c''"] s show ?thesis
    by (simp add: sample_conn_def)
qed

theorem client_leave_silent_witness:
  "client_outbox ''d'' ''c'' (rl_hub (relay_leave 1 (sample_conn RoleClient ''c'' [] None) (sample 0 0 None None))) = None \<and>
   bt_get (rl_conns (relay_leave 1 (sample_conn RoleClient ''c'' [] None) (sample 0 0 None None))) 0 = Some (sample_conn RoleHost ''h'' [] None)"
  using client_leave_silent [of "sample 0 0 None None" 1 "sample_conn RoleClient ''c'' [] None" 0] by (simp add: sample_simps)

end
