(* ===== verification/Json_Value.thy ===== *)
theory Json_Value
  imports Entities
begin

text \<open>
  The accessors of \<open>serde_json::Value\<close> the harness adapters read loosely typed messages with.
\<close>

fun as_array :: "json \<Rightarrow> json list option" where
  "as_array (JArr js) = Some js"
| "as_array _ = None"

text \<open>\<open>Value::get\<close>: what is not an object has no fields.\<close>

definition json_get :: "json \<Rightarrow> string \<Rightarrow> json option" where
  "json_get j k = (case j of JObj fs \<Rightarrow> bt_get fs k | _ \<Rightarrow> None)"

text \<open>\<open>Value::pointer\<close> along object keys.\<close>

fun json_pointer :: "string list \<Rightarrow> json \<Rightarrow> json option" where
  "json_pointer [] j = Some j"
| "json_pointer (k # ks) j = Option.bind (json_get j k) (json_pointer ks)"

definition array_or_empty :: "json option \<Rightarrow> json list" where
  "array_or_empty j = (case Option.bind j as_array of Some js \<Rightarrow> js | None \<Rightarrow> [])"

text \<open>The first of several spellings that is present.\<close>

fun json_field :: "json \<Rightarrow> string list \<Rightarrow> json option" where
  "json_field v [] = None"
| "json_field v (k # ks) = (case json_get v k of Some j \<Rightarrow> Some j | None \<Rightarrow> json_field v ks)"

definition json_str :: "json option \<Rightarrow> string" where
  "json_str j = (case Option.bind j as_str of Some s \<Rightarrow> s | None \<Rightarrow> [])"

end
