(* ===== verification/Claude_Normalize.thy ===== *)
theory Claude_Normalize
  imports Parts Json_Value
begin

text \<open>
  The Claude CLI's stream (\<open>crates/harness/src/claude\<close>): the frames of \<open>wire.rs\<close> read from one JSON line each and
  the normaliser of \<open>normalize.rs\<close> that turns them into agent events. Fresh message ids are those of \<open>uuid\<close>, a
  parameter that gives the n-th id drawn; the text serde\_json writes for a value is the parameter \<open>to_json\<close>. Structs
  are read in their object form.
\<close>

section \<open>Frames\<close>

record system_frame =
  sf_subtype :: string
  sf_model :: string
  sf_tools :: "string list"
  sf_cwd :: string
  sf_session_id :: string
  sf_tool_use_id :: "string option"
  sf_status :: "string option"
  sf_task_id :: "string option"
  sf_subagent_type :: "string option"

record delta =
  dl_kind :: string
  dl_text :: string
  dl_thinking :: string

record stream_event_body =
  eb_kind :: string
  eb_delta :: delta

record stream_event_frame =
  ev_parent :: "string option"
  ev_event :: stream_event_body

record message_frame =
  mf_parent :: "string option"
  mf_content :: json
  mf_error :: "string option"

record content_block =
  cb_kind :: string
  cb_text :: string
  cb_id :: string
  cb_name :: string
  cb_input :: json
  cb_tool_use_id :: string
  cb_is_error :: "bool option"

record rate_limit_info =
  rl_status :: string
  rl_type :: "string option"

record iteration_usage =
  iu_input :: nat
  iu_cache_creation :: nat
  iu_cache_read :: nat

record usage_body =
  us_input :: nat
  us_output :: nat
  us_cache_creation :: nat
  us_cache_read :: nat
  us_iterations :: "iteration_usage list"

record result_frame =
  rf_subtype :: string
  rf_result :: "string option"
  rf_errors :: "json list"
  rf_usage :: usage_body
  rf_session_id :: "string option"

record control_request_frame =
  cq_request_id :: string
  cq_subtype :: string
  cq_tool_name :: string
  cq_input :: json

datatype claude_frame =
    FSystem system_frame
  | FStreamEvent stream_event_frame
  | FAssistant message_frame
  | FUser message_frame
  | FRateLimit rate_limit_info
  | FResult result_frame
  | FControlRequest control_request_frame
  | FOther

text \<open>A field with an alias: giving both spellings is an error.\<close>

definition opt_alias :: "(json \<Rightarrow> 'a option) \<Rightarrow> (string, json) btree \<Rightarrow> string \<Rightarrow> string \<Rightarrow> 'a option option" where
  "opt_alias p fs k alias =
     (if bt_contains fs k \<and> bt_contains fs alias then None
      else if bt_contains fs k then opt p fs k else opt p fs alias)"

definition parse_system :: "(string, json) btree \<Rightarrow> system_frame option" where
  "parse_system fs = do {
     subtype \<leftarrow> dflt [] as_str fs ''subtype'';
     model \<leftarrow> dflt [] as_str fs ''model'';
     tools \<leftarrow> dflt [] as_strs fs ''tools'';
     cwd \<leftarrow> dflt [] as_str fs ''cwd'';
     session_id \<leftarrow> dflt [] as_str fs ''session_id'';
     tool_use_id \<leftarrow> opt_alias as_str fs ''tool_use_id'' ''toolUseId'';
     status \<leftarrow> opt as_str fs ''status'';
     task_id \<leftarrow> opt_alias as_str fs ''task_id'' ''taskId'';
     subagent_type \<leftarrow> opt as_str fs ''subagent_type'';
     Some \<lparr>sf_subtype = subtype, sf_model = model, sf_tools = tools, sf_cwd = cwd, sf_session_id = session_id,
       sf_tool_use_id = tool_use_id, sf_status = status, sf_task_id = task_id, sf_subagent_type = subagent_type\<rparr> }"

definition default_delta :: delta where
  "default_delta = \<lparr>dl_kind = [], dl_text = [], dl_thinking = []\<rparr>"

fun parse_delta :: "json \<Rightarrow> delta option" where
  "parse_delta (JObj fs) = do {
     kind \<leftarrow> dflt [] as_str fs ''type'';
     x \<leftarrow> dflt [] as_str fs ''text'';
     thinking \<leftarrow> dflt [] as_str fs ''thinking'';
     Some \<lparr>dl_kind = kind, dl_text = x, dl_thinking = thinking\<rparr> }"
| "parse_delta _ = None"

fun parse_event_body :: "json \<Rightarrow> stream_event_body option" where
  "parse_event_body (JObj fs) = do {
     kind \<leftarrow> dflt [] as_str fs ''type'';
     d \<leftarrow> dflt default_delta parse_delta fs ''delta'';
     Some \<lparr>eb_kind = kind, eb_delta = d\<rparr> }"
| "parse_event_body _ = None"

definition parse_stream_event :: "(string, json) btree \<Rightarrow> stream_event_frame option" where
  "parse_stream_event fs = do {
     parent \<leftarrow> opt as_str fs ''parent_tool_use_id'';
     ev \<leftarrow> dflt \<lparr>eb_kind = [], eb_delta = default_delta\<rparr> parse_event_body fs ''event'';
     Some \<lparr>ev_parent = parent, ev_event = ev\<rparr> }"

fun parse_message_body :: "json \<Rightarrow> json option" where
  "parse_message_body (JObj fs) = dflt JNull Some fs ''content''"
| "parse_message_body _ = None"

definition parse_message_frame :: "(string, json) btree \<Rightarrow> message_frame option" where
  "parse_message_frame fs = do {
     parent \<leftarrow> opt as_str fs ''parent_tool_use_id'';
     content \<leftarrow> dflt JNull parse_message_body fs ''message'';
     err \<leftarrow> opt as_str fs ''error'';
     Some \<lparr>mf_parent = parent, mf_content = content, mf_error = err\<rparr> }"

fun parse_block :: "json \<Rightarrow> content_block option" where
  "parse_block (JObj fs) = do {
     kind \<leftarrow> dflt [] as_str fs ''type'';
     x \<leftarrow> dflt [] as_str fs ''text'';
     i \<leftarrow> dflt [] as_str fs ''id'';
     name \<leftarrow> dflt [] as_str fs ''name'';
     input \<leftarrow> dflt JNull Some fs ''input'';
     tool_use_id \<leftarrow> dflt [] as_str fs ''tool_use_id'';
     is_error \<leftarrow> opt as_bool fs ''is_error'';
     Some \<lparr>cb_kind = kind, cb_text = x, cb_id = i, cb_name = name, cb_input = input,
       cb_tool_use_id = tool_use_id, cb_is_error = is_error\<rparr> }"
| "parse_block _ = None"

text \<open>Content that is a plain string has no blocks, and a block that does not parse is skipped.\<close>

definition blocks :: "json \<Rightarrow> content_block list" where
  "blocks content = List.map_filter parse_block (case as_array content of Some js \<Rightarrow> js | None \<Rightarrow> [])"

fun parse_rate_limit_info :: "json \<Rightarrow> rate_limit_info option" where
  "parse_rate_limit_info (JObj fs) = do {
     status \<leftarrow> dflt [] as_str fs ''status'';
     kind \<leftarrow> opt as_str fs ''rateLimitType'';
     Some \<lparr>rl_status = status, rl_type = kind\<rparr> }"
| "parse_rate_limit_info _ = None"

fun parse_iteration :: "json \<Rightarrow> iteration_usage option" where
  "parse_iteration (JObj fs) = do {
     a \<leftarrow> dflt 0 (as_uint 64) fs ''input_tokens'';
     b \<leftarrow> dflt 0 (as_uint 64) fs ''cache_creation_input_tokens'';
     c \<leftarrow> dflt 0 (as_uint 64) fs ''cache_read_input_tokens'';
     Some \<lparr>iu_input = a, iu_cache_creation = b, iu_cache_read = c\<rparr> }"
| "parse_iteration _ = None"

definition default_usage :: usage_body where
  "default_usage = \<lparr>us_input = 0, us_output = 0, us_cache_creation = 0, us_cache_read = 0, us_iterations = []\<rparr>"

fun parse_usage :: "json \<Rightarrow> usage_body option" where
  "parse_usage (JObj fs) = do {
     a \<leftarrow> dflt 0 (as_uint 64) fs ''input_tokens'';
     b \<leftarrow> dflt 0 (as_uint 64) fs ''output_tokens'';
     c \<leftarrow> dflt 0 (as_uint 64) fs ''cache_creation_input_tokens'';
     d \<leftarrow> dflt 0 (as_uint 64) fs ''cache_read_input_tokens'';
     its \<leftarrow> dflt [] (as_list parse_iteration) fs ''iterations'';
     Some \<lparr>us_input = a, us_output = b, us_cache_creation = c, us_cache_read = d, us_iterations = its\<rparr> }"
| "parse_usage _ = None"

definition parse_result :: "(string, json) btree \<Rightarrow> result_frame option" where
  "parse_result fs = do {
     subtype \<leftarrow> dflt [] as_str fs ''subtype'';
     r \<leftarrow> opt as_str fs ''result'';
     errs \<leftarrow> dflt [] as_array fs ''errors'';
     u \<leftarrow> dflt default_usage parse_usage fs ''usage'';
     session_id \<leftarrow> opt as_str fs ''session_id'';
     Some \<lparr>rf_subtype = subtype, rf_result = r, rf_errors = errs, rf_usage = u, rf_session_id = session_id\<rparr> }"

fun parse_control_body :: "json \<Rightarrow> (string \<times> string \<times> json) option" where
  "parse_control_body (JObj fs) = do {
     subtype \<leftarrow> dflt [] as_str fs ''subtype'';
     tool_name \<leftarrow> dflt [] as_str fs ''tool_name'';
     input \<leftarrow> dflt JNull Some fs ''input'';
     Some (subtype, tool_name, input) }"
| "parse_control_body _ = None"

definition parse_control_request :: "(string, json) btree \<Rightarrow> control_request_frame option" where
  "parse_control_request fs = do {
     request_id \<leftarrow> dflt [] as_str fs ''request_id'';
     body \<leftarrow> dflt ([], [], JNull) parse_control_body fs ''request'';
     Some (case body of (subtype, tool_name, input) \<Rightarrow>
       \<lparr>cq_request_id = request_id, cq_subtype = subtype, cq_tool_name = tool_name, cq_input = input\<rparr>) }"

text \<open>A parsed line as a frame; \<open>None\<close> when a field has the wrong type.\<close>

definition parse_frame :: "json \<Rightarrow> claude_frame option" where
  "parse_frame value =
     (let kind = (case Option.bind (json_get value ''type'') as_str of Some k \<Rightarrow> k | None \<Rightarrow> []);
          fs = (case as_obj value of Some fs \<Rightarrow> fs | None \<Rightarrow> [])
      in if kind = ''system'' then map_option FSystem (parse_system fs)
         else if kind = ''stream_event'' then map_option FStreamEvent (parse_stream_event fs)
         else if kind = ''assistant'' then map_option FAssistant (parse_message_frame fs)
         else if kind = ''user'' then map_option FUser (parse_message_frame fs)
         else if kind = ''rate_limit_event'' then
           map_option FRateLimit (dflt \<lparr>rl_status = [], rl_type = None\<rparr> parse_rate_limit_info fs ''rate_limit_info'')
         else if kind = ''result'' then map_option FResult (parse_result fs)
         else if kind = ''control_request'' then map_option FControlRequest (parse_control_request fs)
         else Some FOther)"

text \<open>The size of the context: that of the last call of the turn, in 64 bits.\<close>

definition iteration_context :: "iteration_usage \<Rightarrow> nat" where
  "iteration_context u = (iu_input u + iu_cache_creation u + iu_cache_read u) mod 2 ^ 64"

definition usage_context_tokens :: "usage_body \<Rightarrow> nat" where
  "usage_context_tokens u =
     (if us_iterations u \<noteq> [] then iteration_context (last (us_iterations u))
      else (us_input u + us_cache_creation u + us_cache_read u) mod 2 ^ 64)"

section \<open>Wording\<close>

definition assistant_error_text :: "string \<Rightarrow> string" where
  "assistant_error_text code =
     (if code = ''authentication_failed'' then ''Authentication failed '' @ em_dash @ '' sign in to Claude again.''
      else if code = ''oauth_org_not_allowed'' then ''This organization isn't allowed to use Claude here.''
      else if code = ''billing_error'' then ''Billing error '' @ em_dash @ '' check your Claude plan or payment method.''
      else if code = ''rate_limit'' then ''Claude usage limit reached '' @ em_dash @ '' try again after the limit resets.''
      else if code = ''overloaded'' then ''Claude is overloaded right now '' @ em_dash @ '' try again shortly.''
      else if code = ''invalid_request'' then ''The request was rejected as invalid.''
      else if code = ''model_not_found'' then ''The selected model isn't available.''
      else if code = ''server_error'' then ''Claude had a server error '' @ em_dash @ '' try again.''
      else if code = ''max_output_tokens'' then ''The reply hit the maximum output length.''
      else if code = ''unknown'' then ''Claude returned an unspecified error.''
      else ''Claude error: '' @ code)"

definition rate_window_label :: "string \<Rightarrow> string" where
  "rate_window_label kind =
     (if kind = ''five_hour'' then ''5-hour''
      else if kind = ''seven_day'' \<or> kind = ''seven_day_overage_included'' then ''weekly''
      else if kind = ''seven_day_opus'' then ''weekly (Opus)''
      else if kind = ''seven_day_sonnet'' then ''weekly (Sonnet)''
      else if kind = ''overage'' then ''overage''
      else ''usage'')"

definition result_error_text :: "string \<Rightarrow> string" where
  "result_error_text subtype =
     (if subtype = ''error_max_turns'' then ''The run hit the maximum number of turns.''
      else if subtype = ''error_max_budget_usd'' then ''The run hit its cost budget.''
      else if subtype = ''error_max_structured_output_retries'' then ''The run exhausted its structured-output retries.''
      else ''The run ended with an error.'')"

definition is_internal_diagnostic :: "string \<Rightarrow> bool" where
  "is_internal_diagnostic message = sublist ''[ede_diagnostic]'' message"

section \<open>Tool calls\<close>

definition str_field :: "json \<Rightarrow> string \<Rightarrow> string" where
  "str_field input key = (case Option.bind (json_get input key) as_str of Some s \<Rightarrow> s | None \<Rightarrow> [])"

definition opt_str_field :: "json \<Rightarrow> string \<Rightarrow> string option" where
  "opt_str_field input key = Option.bind (json_get input key) as_str"

definition some_input :: "json \<Rightarrow> json option" where
  "some_input input = (if is_null input then None else Some input)"

definition decode_tool_use :: "string \<Rightarrow> json \<Rightarrow> tool_call" where
  "decode_tool_use name input =
     (if name = ''Bash'' then Exec (str_field input ''command'')
      else if name = ''Read'' then ReadFile (str_field input ''file_path'')
      else if name = ''Write'' then WriteFile (str_field input ''file_path'') (opt_str_field input ''content'')
      else if name = ''Edit'' then
        EditFile (str_field input ''file_path'') (opt_str_field input ''old_string'') (opt_str_field input ''new_string'')
      else if name = ''Grep'' then Search (str_field input ''pattern'') (opt_str_field input ''path'')
      else if name = ''Glob'' then Glob (str_field input ''pattern'')
      else if name = ''WebFetch'' then WebFetch (str_field input ''url'') (opt_str_field input ''prompt'')
      else if name = ''WebSearch'' then WebSearch (str_field input ''query'')
      else if name = ''TodoWrite'' then
        Todo (map (\<lambda>t. \<lparr>td_text = str_field t ''content'', td_done = (opt_str_field t ''status'' = Some ''completed'')\<rparr>)
          (case Option.bind (json_get input ''todos'') as_array of Some js \<Rightarrow> js | None \<Rightarrow> []))
      else if name = ''Agent'' \<or> name = ''Task'' then
        (let description = str_field input ''description''
         in UnknownTool (if description = [] then ''Agent'' else ''Agent: '' @ description) (some_input input))
      else if name = ''BashOutput'' then
        (let i = str_field input ''bash_id''
         in UnknownTool (if i = [] then ''Background output'' else ''Background output: '' @ i) (some_input input))
      else if name = ''KillShell'' then
        (let i = str_field input ''shell_id''
         in UnknownTool (if i = [] then ''Stop background task'' else ''Stop background task: '' @ i) (some_input input))
      else (case (if prefix ''mcp__'' name then split_once ''__'' (drop 5 name) else None) of
              Some (server, tool) \<Rightarrow> Mcp server tool (some_input input)
            | None \<Rightarrow> UnknownTool name (some_input input)))"

section \<open>The normaliser\<close>

text \<open>\<open>nz_drawn\<close> counts the message ids drawn so far.\<close>

record normalizer =
  nz_saw_init :: bool
  nz_agent_tasks :: "(string, string) btree"
  nz_assistant_message_id :: string
  nz_session_id :: "string option"
  nz_drawn :: nat

definition new_normalizer :: "(nat \<Rightarrow> string) \<Rightarrow> normalizer" where
  "new_normalizer uuid = \<lparr>nz_saw_init = False, nz_agent_tasks = [], nz_assistant_message_id = uuid 0,
     nz_session_id = None, nz_drawn = 1\<rparr>"

definition rotate_for_steer :: "(nat \<Rightarrow> string) \<Rightarrow> normalizer \<Rightarrow> normalizer \<times> string \<times> string" where
  "rotate_for_steer uuid n =
     (n\<lparr>nz_assistant_message_id := uuid (nz_drawn n), nz_drawn := nz_drawn n + 1\<rparr>,
      nz_assistant_message_id n, uuid (nz_drawn n))"

definition nonempty :: "string option \<Rightarrow> string option" where
  "nonempty v = (case v of Some s \<Rightarrow> if s = [] then None else Some s | None \<Rightarrow> None)"

definition task_status :: "string \<Rightarrow> done_status option" where
  "task_status s =
     (if s \<in> {''completed'', ''complete'', ''succeeded'', ''success''} then Some DoneCompleted
      else if s \<in> {''failed'', ''errored'', ''error''} then Some DoneErrored
      else if s \<in> {''killed'', ''cancelled'', ''canceled'', ''stopped'', ''interrupted''} then Some DoneInterrupted
      else None)"

definition on_system :: "system_frame \<Rightarrow> normalizer \<Rightarrow> normalizer \<times> agent_event list" where
  "on_system f n =
     (if sf_subtype f = ''task_notification'' then
        (n, case (nonempty (sf_tool_use_id f), task_status (case sf_status f of Some s \<Rightarrow> s | None \<Rightarrow> [])) of
              (Some parent, Some status) \<Rightarrow> [Subagent parent (Done status None None None)]
            | _ \<Rightarrow> [])
      else (case (if sf_subtype f = ''task_started'' \<and> sf_subagent_type f \<noteq> None
                  then (nonempty (sf_task_id f), nonempty (sf_tool_use_id f)) else (None, None)) of
              (Some task, Some tool) \<Rightarrow> (n\<lparr>nz_agent_tasks := bt_insert task tool (nz_agent_tasks n)\<rparr>, [])
            | _ \<Rightarrow>
                if sf_subtype f \<noteq> ''init'' \<or> nz_saw_init n then (n, [])
                else (n\<lparr>nz_saw_init := True, nz_session_id := Some (sf_session_id f)\<rparr>,
                      [SessionStarted ClaudeCode (sf_model f) (sf_tools f) (sf_cwd f) (sf_session_id f)
                         (nz_assistant_message_id n)])))"

definition on_stream_event :: "stream_event_frame \<Rightarrow> agent_event list" where
  "on_stream_event f =
     (let d = eb_delta (ev_event f) in
      if eb_kind (ev_event f) \<noteq> ''content_block_delta'' then []
      else (case ev_parent f of
              Some parent \<Rightarrow>
                if dl_kind d = ''text_delta'' then [Subagent parent (TextDelta (dl_text d))]
                else if dl_kind d = ''thinking_delta'' \<and> dl_thinking d \<noteq> [] then [Subagent parent (ReasoningDelta (dl_thinking d))]
                else []
            | None \<Rightarrow>
                if dl_kind d = ''text_delta'' then [TextDelta (dl_text d)]
                else if dl_kind d = ''thinking_delta'' then [ReasoningDelta (dl_thinking d)]
                else if dl_kind d = ''input_json_delta'' then [ReasoningDelta []]
                else []))"

definition error_events :: "string option \<Rightarrow> agent_event list" where
  "error_events err = (case err of Some code \<Rightarrow> [Error (assistant_error_text code)] | None \<Rightarrow> [])"

text \<open>A block of a subagent's assistant frame.\<close>

definition subagent_block :: "content_block \<Rightarrow> agent_event list" where
  "subagent_block b =
     (if cb_kind b = ''text'' \<and> cb_text b \<noteq> [] then [TextDelta (trim_end (cb_text b) @ [newline, newline])]
      else if cb_kind b = ''tool_use'' then [ToolCall (cb_id b) (decode_tool_use (cb_name b) (cb_input b))]
      else [])"

text \<open>The opening message of a spawned subagent, and a steer of a running one.\<close>

definition opening_message :: "content_block \<Rightarrow> agent_event list" where
  "opening_message b =
     (if cb_name b = ''Agent'' \<or> cb_name b = ''Task'' then
        (case opt_str_field (cb_input b) ''prompt'' of
           Some prompt \<Rightarrow> if trim prompt \<noteq> [] then [Subagent (cb_id b) (UserMessage prompt)] else []
         | None \<Rightarrow> [])
      else [])"

definition steer :: "(string, string) btree \<Rightarrow> content_block \<Rightarrow> agent_event list" where
  "steer tasks b =
     (if cb_name b = ''SendMessage'' then
        (case Option.bind (Option.bind (json_field (cb_input b) [''to'', ''recipient'']) as_str) (bt_get tasks) of
           Some spawn \<Rightarrow>
             (case Option.bind (json_field (cb_input b) [''message'', ''content'']) as_str of
                Some m \<Rightarrow> if trim m \<noteq> [] then [Subagent spawn (UserMessage m)] else []
              | None \<Rightarrow> [])
         | None \<Rightarrow> [])
      else [])"

definition tool_use_events :: "(string, string) btree \<Rightarrow> content_block \<Rightarrow> agent_event list" where
  "tool_use_events tasks b =
     ToolCall (cb_id b) (decode_tool_use (cb_name b) (cb_input b)) # opening_message b @ steer tasks b"

definition on_assistant :: "(nat \<Rightarrow> string) \<Rightarrow> message_frame \<Rightarrow> normalizer \<Rightarrow> normalizer \<times> agent_event list" where
  "on_assistant uuid f n =
     (case mf_parent f of
        Some parent \<Rightarrow> (n, map (Subagent parent) (concat (map subagent_block (blocks (mf_content f))) @ error_events (mf_error f)))
      | None \<Rightarrow>
          (let out = concat (map (tool_use_events (nz_agent_tasks n)) (filter (\<lambda>b. cb_kind b = ''tool_use'') (blocks (mf_content f))));
               (n', prev, _) = rotate_for_steer uuid n
           in (n', out @ error_events (mf_error f) @ [AssistantMessageCompleted prev])))"

definition tool_result :: "content_block \<Rightarrow> agent_event" where
  "tool_result b = ToolResult (cb_tool_use_id b) (cb_is_error b = Some True) None None"

definition on_user :: "message_frame \<Rightarrow> agent_event list" where
  "on_user f =
     (let bs = blocks (mf_content f);
          results = map tool_result (filter (\<lambda>b. cb_kind b = ''tool_result'') bs)
      in case mf_parent f of
           None \<Rightarrow> results
         | Some parent \<Rightarrow>
             map (Subagent parent) (results @
               map (\<lambda>b. UserMessage (cb_text b))
                 (filter (\<lambda>b. cb_kind b = ''text'' \<and> trim (cb_text b) \<noteq> [] \<and>
                               \<not> prefix ''<system-reminder>'' (trim_start (cb_text b))) bs)))"

definition on_rate_limit :: "rate_limit_info \<Rightarrow> agent_event list" where
  "on_rate_limit r =
     (if rl_status r \<noteq> ''rejected'' then []
      else [Error (''Claude '' @ rate_window_label (case rl_type r of Some k \<Rightarrow> k | None \<Rightarrow> []) @ '' limit reached '' @ em_dash @
              '' the turn was blocked. Try again after it resets.'')])"

definition error_string :: "(json \<Rightarrow> string) \<Rightarrow> json \<Rightarrow> string" where
  "error_string to_json e = (case e of JStr s \<Rightarrow> s | other \<Rightarrow> to_json other)"

definition result_error :: "(json \<Rightarrow> string) \<Rightarrow> result_frame \<Rightarrow> string option" where
  "result_error to_json f =
     (let msgs = map (error_string to_json) (rf_errors f);
          diagnostics = filter is_internal_diagnostic msgs;
          errors = filter (\<lambda>m. \<not> is_internal_diagnostic m) msgs
      in if errors \<noteq> [] then Some (join_str ''; '' errors)
         else if rf_subtype f \<in> {''error_max_turns'', ''error_max_budget_usd'', ''error_max_structured_output_retries''}
         then Some (result_error_text (rf_subtype f))
         else if diagnostics \<noteq> [] then None
         else Some (result_error_text (rf_subtype f)))"

definition on_result :: "(json \<Rightarrow> string) \<Rightarrow> result_frame \<Rightarrow> bool \<Rightarrow> normalizer \<Rightarrow> normalizer \<times> agent_event list" where
  "on_result to_json f interrupted n =
     (case rf_session_id f of Some i \<Rightarrow> n\<lparr>nz_session_id := Some i\<rparr> | None \<Rightarrow> n,
      [Usage (us_input (rf_usage f)) (us_output (rf_usage f)) (usage_context_tokens (rf_usage f)),
       if rf_subtype f = ''success''
       then Done (if interrupted then DoneInterrupted else DoneCompleted) (rf_result f) None (rf_session_id f)
       else Done (if interrupted then DoneInterrupted else DoneErrored) None (result_error to_json f) (rf_session_id f)])"

definition normalize :: "(nat \<Rightarrow> string) \<Rightarrow> (json \<Rightarrow> string) \<Rightarrow> claude_frame \<times> bool \<Rightarrow> normalizer \<Rightarrow> normalizer \<times> agent_event list" where
  "normalize uuid to_json x n =
     (case x of (frame, interrupted) \<Rightarrow>
        (case frame of
           FSystem f \<Rightarrow> on_system f n
         | FStreamEvent f \<Rightarrow> (n, on_stream_event f)
         | FAssistant f \<Rightarrow> on_assistant uuid f n
         | FUser f \<Rightarrow> (n, on_user f)
         | FRateLimit r \<Rightarrow> (n, on_rate_limit r)
         | FResult f \<Rightarrow> on_result to_json f interrupted n
         | FControlRequest _ \<Rightarrow> (n, [])
         | FOther \<Rightarrow> (n, [])))"

text \<open>A run: the frames in the order they arrive, each with whether the run was interrupted by then.\<close>

fun normalize_all :: "(nat \<Rightarrow> string) \<Rightarrow> (json \<Rightarrow> string) \<Rightarrow> (claude_frame \<times> bool) list \<Rightarrow> normalizer \<Rightarrow> agent_event list" where
  "normalize_all uuid to_json [] n = []"
| "normalize_all uuid to_json (x # xs) n =
     (let (n', out) = normalize uuid to_json x n in out @ normalize_all uuid to_json xs n')"

section \<open>Facts\<close>

fun is_subagent :: "agent_event \<Rightarrow> bool" where
  "is_subagent (Subagent _ _) = True"
| "is_subagent _ = False"

fun is_start :: "agent_event \<Rightarrow> bool" where
  "is_start (SessionStarted _ _ _ _ _ _) = True"
| "is_start _ = False"

text \<open>A frame of the session's own conversation: not tagged with a parent, and not about a background task.\<close>

fun main_frame :: "claude_frame \<Rightarrow> bool" where
  "main_frame (FSystem f) = (sf_subtype f \<noteq> ''task_notification'' \<and> sf_subtype f \<noteq> ''task_started'')"
| "main_frame (FStreamEvent f) = (ev_parent f = None)"
| "main_frame (FAssistant f) = (mf_parent f = None)"
| "main_frame (FUser f) = (mf_parent f = None)"
| "main_frame _ = True"

fun init_frame :: "claude_frame \<Rightarrow> bool" where
  "init_frame (FSystem f) = (sf_subtype f = ''init'')"
| "init_frame _ = False"

lemma on_system_main:
  "\<not> main_frame (FSystem f) \<Longrightarrow> (\<exists>tasks. fst (on_system f n) = n\<lparr>nz_agent_tasks := tasks\<rparr>) \<and> list_all is_subagent (snd (on_system f n))"
  by (auto simp: on_system_def split: option.splits intro: exI [of _ "nz_agent_tasks n"])

lemma tagged_events:
  "\<not> main_frame frame \<Longrightarrow> (\<exists>tasks. fst (normalize uuid to_json (frame, i) n) = n\<lparr>nz_agent_tasks := tasks\<rparr>) \<and>
     list_all is_subagent (snd (normalize uuid to_json (frame, i) n))"
proof (cases frame)
  case (FSystem f)
  then show "\<not> main_frame frame \<Longrightarrow> ?thesis" using on_system_main by (simp add: normalize_def)
qed (auto simp: normalize_def on_stream_event_def on_assistant_def on_user_def list_all_iff Let_def
      intro: exI [of _ "nz_agent_tasks n"])

lemma opening_main: "filter (\<lambda>e. \<not> is_subagent e) (opening_message b) = []"
  by (simp only: opening_message_def split: if_split option.split) simp

lemma steer_main: "filter (\<lambda>e. \<not> is_subagent e) (steer tasks b) = []"
  by (simp only: steer_def split: if_split option.split) simp

lemma normalize_all_Cons:
  "normalize_all uuid to_json (x # xs) n =
   snd (normalize uuid to_json x n) @ normalize_all uuid to_json xs (fst (normalize uuid to_json x n))"
  by (simp add: case_prod_beta)

lemma main_tool_use: "filter (\<lambda>e. \<not> is_subagent e) (tool_use_events tasks b) = [ToolCall (cb_id b) (decode_tool_use (cb_name b) (cb_input b))]"
  by (simp add: tool_use_events_def opening_main steer_main)

lemma main_concat_tool_use:
  "filter (\<lambda>e. \<not> is_subagent e) (concat (map (tool_use_events tasks) bs)) =
   map (\<lambda>b. ToolCall (cb_id b) (decode_tool_use (cb_name b) (cb_input b))) bs"
  by (induction bs) (auto simp: main_tool_use)

lemma main_blind:
  assumes "main_frame frame"
  shows "fst (normalize uuid to_json (frame, i) (n\<lparr>nz_agent_tasks := tasks\<rparr>)) =
      (fst (normalize uuid to_json (frame, i) n))\<lparr>nz_agent_tasks := tasks\<rparr>"
    "filter (\<lambda>e. \<not> is_subagent e) (snd (normalize uuid to_json (frame, i) (n\<lparr>nz_agent_tasks := tasks\<rparr>))) =
     filter (\<lambda>e. \<not> is_subagent e) (snd (normalize uuid to_json (frame, i) n))"
  using assms
  by (cases frame; auto simp: normalize_def on_system_def on_assistant_def rotate_for_steer_def on_result_def main_concat_tool_use
      Let_def split: option.splits)+

lemma normalize_all_blind:
  "filter (\<lambda>e. \<not> is_subagent e) (normalize_all uuid to_json xs (n\<lparr>nz_agent_tasks := tasks\<rparr>)) =
   filter (\<lambda>e. \<not> is_subagent e) (normalize_all uuid to_json (filter (\<lambda>x. main_frame (fst x)) xs) n)"
proof (induction xs arbitrary: n tasks)
  case (Cons x xs)
  obtain frame i where x: "x = (frame, i)" by (cases x)
  show ?case
  proof (cases "main_frame frame")
    case True
    then show ?thesis using main_blind [OF True, where n = n and tasks = tasks and i = i and uuid = uuid and to_json = to_json] Cons.IH
      by (simp add: x normalize_all_Cons del: normalize_all.simps)
  next
    case False
    obtain ts where "fst (normalize uuid to_json (frame, i) (n\<lparr>nz_agent_tasks := tasks\<rparr>)) = n\<lparr>nz_agent_tasks := ts\<rparr>"
      "filter (\<lambda>e. \<not> is_subagent e) (snd (normalize uuid to_json (frame, i) (n\<lparr>nz_agent_tasks := tasks\<rparr>))) = []"
      using tagged_events [OF False, where n = "n\<lparr>nz_agent_tasks := tasks\<rparr>" and i = i and uuid = uuid and to_json = to_json] by (auto simp: list_all_iff filter_empty_conv)
    then show ?thesis using Cons.IH [where n = n and tasks = ts] False by (simp add: x normalize_all_Cons del: normalize_all.simps)
  qed
qed simp

text \<open>
  What the session's own transcript is made of does not depend on its subagents: with every frame tagged with a parent
  and every task notice taken out of the stream, the events that are not attributed to a subagent are exactly the
  same, in the same order.
\<close>
theorem claude_subagents_isolated:
  "filter (\<lambda>e. \<not> is_subagent e) (normalize_all uuid to_json xs n) =
   filter (\<lambda>e. \<not> is_subagent e) (normalize_all uuid to_json (filter (\<lambda>x. main_frame (fst x)) xs) n)"
  using normalize_all_blind [where n = n and tasks = "nz_agent_tasks n" and xs = xs and uuid = uuid and to_json = to_json] by simp

lemma tool_use_not_start: "e \<in> set (tool_use_events tasks b) \<Longrightarrow> \<not> is_start e"
proof -
  have "\<not> is_start e" if "is_subagent e" using that by (cases e) auto
  then show "e \<in> set (tool_use_events tasks b) \<Longrightarrow> \<not> is_start e"
    using opening_main [of b] steer_main [of tasks b] by (auto simp: tool_use_events_def filter_empty_conv)
qed

text \<open>
  A run starts once: however often the CLI repeats its init frame, exactly one session start comes out when there is
  such a frame and none otherwise, so the parts folded from the run are reset at most once.
\<close>
theorem claude_starts_once:
  "length (filter is_start (normalize_all uuid to_json xs (new_normalizer uuid))) = (if list_ex (\<lambda>x. init_frame (fst x)) xs then 1 else 0)"
proof -
  have no: "filter is_start (map (Subagent p) es) = []" "filter is_start (concat (map (tool_use_events tasks) bs)) = []"
    "filter is_start (map tool_result bs) = []" "filter is_start (error_events err) = []" for p es tasks bs err
    using tool_use_not_start by (auto simp: filter_empty_conv tool_result_def error_events_def split: option.split)
  have one: "length (filter is_start (snd (normalize uuid to_json x n))) = (if init_frame (fst x) \<and> \<not> nz_saw_init n then 1 else 0) \<and>
      nz_saw_init (fst (normalize uuid to_json x n)) = (nz_saw_init n \<or> init_frame (fst x))" for x n
    by (cases x; cases "fst x")
      (auto simp: normalize_def on_system_def on_stream_event_def on_assistant_def rotate_for_steer_def on_user_def on_rate_limit_def
        on_result_def no Let_def split: option.splits)
  have "length (filter is_start (normalize_all uuid to_json xs n)) =
      (if list_ex (\<lambda>x. init_frame (fst x)) xs \<and> \<not> nz_saw_init n then 1 else 0)" for n
    by (induction xs arbitrary: n) (auto simp: normalize_all_Cons one simp del: normalize_all.simps(2))
  then show ?thesis by (simp add: new_normalizer_def)
qed

section \<open>The transcript of a run\<close>

text \<open>The reply text a frame of the session's own conversation streams.\<close>

fun main_text :: "claude_frame \<Rightarrow> string" where
  "main_text (FStreamEvent f) =
     (if ev_parent f = None \<and> eb_kind (ev_event f) = ''content_block_delta'' \<and> dl_kind (eb_delta (ev_event f)) = ''text_delta''
      then dl_text (eb_delta (ev_event f)) else [])"
| "main_text _ = []"

definition since_init :: "(claude_frame \<times> bool) list \<Rightarrow> (claude_frame \<times> bool) list" where
  "since_init xs = (if list_ex (\<lambda>x. init_frame (fst x)) xs then tl (dropWhile (\<lambda>x. \<not> init_frame (fst x)) xs) else xs)"

lemma parts_text_fold: "parts_text (fold_events ld evs out) = fold turn_text evs (parts_text out)"
  unfolding fold_events_def by (induction evs arbitrary: out) (simp_all add: fold_event_text)

fun plain :: "agent_event \<Rightarrow> bool" where
  "plain (TextDelta _) = False"
| "plain (SessionStarted _ _ _ _ _ _) = False"
| "plain (Steered _ _) = False"
| "plain _ = True"

lemma fold_turn_text_plain: "list_all plain evs \<Longrightarrow> fold turn_text evs acc = acc"
proof (induction evs)
  case (Cons e es)
  then show ?case by (cases e) simp_all
qed simp

lemma plain_events:
  "list_all plain (map (Subagent p) es)" "list_all plain (concat (map (tool_use_events tasks) bs))"
  "list_all plain (map tool_result bs)" "list_all plain (error_events err)"
proof -
  have "plain e" if "is_subagent e" for e using that by (cases e) auto
  then have "list_all plain (tool_use_events tasks b)" for b
    using opening_main [of b] steer_main [of tasks b] by (auto simp: tool_use_events_def list_all_iff filter_empty_conv)
  then show "list_all plain (concat (map (tool_use_events tasks) bs))" by (induction bs) auto
  show "list_all plain (map (Subagent p) es)" "list_all plain (map tool_result bs)" "list_all plain (error_events err)"
    by (auto simp: list_all_iff tool_result_def error_events_def split: option.split)
qed

lemma plain_map_Subagent: "list_all plain (map (Subagent p \<circ> g) bs)"
  by (simp add: list_all_iff)

lemma frame_text:
  "fold turn_text (snd (normalize uuid to_json x n)) acc = (if init_frame (fst x) \<and> \<not> nz_saw_init n then [] else acc @ main_text (fst x)) \<and>
   nz_saw_init (fst (normalize uuid to_json x n)) = (nz_saw_init n \<or> init_frame (fst x))"
  by (cases x; cases "fst x")
    (auto simp: normalize_def on_system_def on_stream_event_def on_assistant_def rotate_for_steer_def on_user_def on_rate_limit_def
      on_result_def fold_turn_text_plain plain_events plain_map_Subagent Let_def split: option.splits)

lemma seen_text:
  "nz_saw_init n \<Longrightarrow> fold turn_text (normalize_all uuid to_json xs n) acc = acc @ concat (map (\<lambda>x. main_text (fst x)) xs)"
  by (induction xs arbitrary: n acc) (simp_all add: normalize_all_Cons frame_text del: normalize_all.simps(2))

lemma init_text: "init_frame frame \<Longrightarrow> main_text frame = []"
  by (cases frame) auto

lemma run_text:
  "\<not> nz_saw_init n \<Longrightarrow> fold turn_text (normalize_all uuid to_json xs n) acc =
     (if list_ex (\<lambda>x. init_frame (fst x)) xs then [] else acc) @ concat (map (\<lambda>x. main_text (fst x)) (since_init xs))"
proof (induction xs arbitrary: n acc)
  case (Cons x xs)
  then show ?case
    by (cases "init_frame (fst x)")
      (auto simp: normalize_all_Cons frame_text seen_text since_init_def init_text simp del: normalize_all.simps(2))
qed (simp add: since_init_def)

text \<open>
  C16. From the wire to the transcript: the text parts folded from a run are, in order, exactly the reply text the CLI
  streamed for the session itself since its first init frame. What subagents say, tool traffic, errors, results and
  repeated init frames neither add nor drop a character.
\<close>
theorem claude_run_text:
  "parts_text (fold_events ld (normalize_all uuid to_json xs (new_normalizer uuid)) []) =
   concat (map (\<lambda>x. main_text (fst x)) (since_init xs))"
proof -
  have "parts_text [] = []" by (simp add: parts_text_def List.map_filter_def)
  moreover have "\<not> nz_saw_init (new_normalizer uuid)" by (simp add: new_normalizer_def)
  ultimately show ?thesis using run_text [of "new_normalizer uuid" uuid to_json xs "[]"] by (simp add: parts_text_fold)
qed

text \<open>
  A turn that did not succeed ends visibly: its result frame adds an error part to the transcript with the CLI's own
  messages or a fixed wording, and adds none only when the CLI gave nothing but internal diagnostics for an end it has
  no wording for. Diagnostics never enter the transcript.
\<close>
theorem claude_failed_turn_visible:
  assumes "rf_subtype f \<noteq> ''success''"
  shows "\<exists>err. fold_events ld (snd (normalize uuid to_json (FResult f, interrupted) n)) out =
      out @ (case err of Some msg \<Rightarrow> [ErrorPart (CHR ''e'' # show_nat (length out)) msg] | None \<Rightarrow> []) \<and>
    (err = None) = (rf_errors f \<noteq> [] \<and> list_all (\<lambda>e. is_internal_diagnostic (error_string to_json e)) (rf_errors f) \<and>
      rf_subtype f \<notin> {''error_max_turns'', ''error_max_budget_usd'', ''error_max_structured_output_retries''}) \<and>
    err \<in> {None, Some (result_error_text (rf_subtype f)),
      Some (join_str ''; '' (filter (\<lambda>m. \<not> is_internal_diagnostic m) (map (error_string to_json) (rf_errors f))))}"
proof (intro exI [of _ "result_error to_json f"] conjI)
  show "fold_events ld (snd (normalize uuid to_json (FResult f, interrupted) n)) out =
      out @ (case result_error to_json f of Some msg \<Rightarrow> [ErrorPart (CHR ''e'' # show_nat (length out)) msg] | None \<Rightarrow> [])"
    using assms by (simp add: normalize_def on_result_def fold_events_def split: option.split)
  show "(result_error to_json f = None) = (rf_errors f \<noteq> [] \<and> list_all (\<lambda>e. is_internal_diagnostic (error_string to_json e)) (rf_errors f) \<and>
      rf_subtype f \<notin> {''error_max_turns'', ''error_max_budget_usd'', ''error_max_structured_output_retries''})"
    by (auto simp: result_error_def Let_def filter_empty_conv list_all_iff filter_map o_def)
  show "result_error to_json f \<in> {None, Some (result_error_text (rf_subtype f)),
      Some (join_str ''; '' (filter (\<lambda>m. \<not> is_internal_diagnostic m) (map (error_string to_json) (rf_errors f))))}"
    by (simp add: result_error_def Let_def)
qed

theorem claude_failed_turn_visible_witness:
  "\<exists>msg. fold_events (\<lambda>_ _. []) (snd (normalize (\<lambda>_. []) (\<lambda>_. [])
      (FResult \<lparr>rf_subtype = ''error_max_turns'', rf_result = None, rf_errors = [], rf_usage = default_usage, rf_session_id = None\<rparr>, False)
      (new_normalizer (\<lambda>_. [])))) [] = [ErrorPart (CHR ''e'' # show_nat 0) msg]"
  using claude_failed_turn_visible [of "\<lparr>rf_subtype = ''error_max_turns'', rf_result = None, rf_errors = [], rf_usage = default_usage,
      rf_session_id = None\<rparr>" "\<lambda>_ _. []" "\<lambda>_. []" "\<lambda>_. []" False "new_normalizer (\<lambda>_. [])" "[]"]
  by auto

end
