(* ===== verification/Codex_Run.thy ===== *)
theory Codex_Run
  imports Parts Commands Json_Value "HOL-Library.Multiset"
begin

text \<open>
  The Codex app server (\<open>crates/harness/src/codex\<close>): the mapping of its items to agent events (\<open>normalize.rs\<close>) and
  the session loop with its turn router (\<open>mod.rs\<close>). The answers of the app server to the requests the loop awaits are
  part of each input of the loop; \<open>uuid\<close> gives the n-th message id drawn, \<open>to_json\<close> the text of a value, \<open>crash\<close> the
  message for an app server that is gone.
\<close>

section \<open>Items\<close>

datatype phase = PStarted | PCompleted

definition delta_text :: "json \<Rightarrow> string option" where
  "delta_text params =
     (case Option.bind (json_field params [''delta'', ''textDelta'']) as_str of
        Some s \<Rightarrow> if s = [] then None else Some s | None \<Rightarrow> None)"

definition item_id :: "json \<Rightarrow> string" where
  "item_id params = json_str (json_field params [''itemId'', ''item_id''])"

definition turn_id :: "json \<Rightarrow> string" where
  "turn_id params = (case json_get params ''turn'' of Some t \<Rightarrow> json_str (json_field t [''id'']) | None \<Rightarrow> [])"

definition turn_error_message :: "(json \<Rightarrow> string) \<Rightarrow> json \<Rightarrow> string option" where
  "turn_error_message to_json params =
     (case json_pointer [''turn'', ''error''] params of
        None \<Rightarrow> None
      | Some e \<Rightarrow>
          if is_null e then None
          else (let msg = json_str (json_field e [''message'']) in Some (if msg = [] then to_json e else msg)))"

definition usage_event :: "json \<Rightarrow> agent_event option" where
  "usage_event params =
     (case Option.bind (json_field params [''tokenUsage'', ''token_usage'']) (\<lambda>u. json_get u ''last'') of
        None \<Rightarrow> None
      | Some l \<Rightarrow>
          (let tokens = (\<lambda>keys. case Option.bind (json_field l keys) (as_uint 64) of Some n \<Rightarrow> n | None \<Rightarrow> 0)
           in Some (Usage (tokens [''inputTokens'', ''input_tokens'']) (tokens [''outputTokens'', ''output_tokens'']) 0)))"

definition tool_lifecycle :: "phase \<Rightarrow> string \<Rightarrow> tool_call \<Rightarrow> bool \<Rightarrow> agent_event list" where
  "tool_lifecycle ph i call is_error =
     (case ph of PStarted \<Rightarrow> [ToolCall i call] | PCompleted \<Rightarrow> [ToolCall i call, ToolResult i is_error None None])"

definition file_change_call :: "(string \<times> string) list \<Rightarrow> tool_call" where
  "file_change_call changes =
     (case changes of
        [(path, kind)] \<Rightarrow>
          if kind = ''add'' then WriteFile path None
          else if kind = ''update'' then EditFile path None None
          else ApplyPatch (Some path)
      | _ \<Rightarrow> ApplyPatch None)"

definition item_type :: "json \<Rightarrow> string" where
  "item_type item = json_str (json_get item ''type'')"

definition change_of :: "json \<Rightarrow> string \<times> string" where
  "change_of c =
     (json_str (json_field c [''path'']),
      case Option.bind (json_get c ''kind'') as_str of
        Some k \<Rightarrow> if k \<in> {''add'', ''delete'', ''update''} then k else ''update'' | None \<Rightarrow> ''update'')"

text \<open>The last segment that is not empty.\<close>

definition agent_name :: "string \<Rightarrow> string" where
  "agent_name path =
     (case find (\<lambda>s. s \<noteq> []) (rev (split_on (CHR ''/'') path)) of Some leaf \<Rightarrow> ''Agent: '' @ leaf | None \<Rightarrow> ''Agent'')"

definition map_item :: "phase \<Rightarrow> json \<Rightarrow> agent_event list" where
  "map_item ph item =
     (let i = json_str (json_field item [''id'']);
          status = json_str (json_field item [''status'']);
          kind = item_type item
      in if kind = ''commandExecution'' \<or> kind = ''command_execution'' then
           (case ph of
              PStarted \<Rightarrow> [ToolCall i (Exec (json_str (json_field item [''command''])))]
            | PCompleted \<Rightarrow>
                (let exit_code = (case Option.bind (json_field item [''exitCode'', ''exit_code'']) as_i64 of Some n \<Rightarrow> n | None \<Rightarrow> 0)
                 in [ToolResult i (status = ''failed'' \<or> exit_code \<noteq> 0) None None]))
         else if kind = ''fileChange'' \<or> kind = ''file_change'' then
           tool_lifecycle ph i (file_change_call (map change_of (array_or_empty (json_get item ''changes''))))
             (status = ''failed'' \<or> status = ''declined'')
         else if kind = ''mcpToolCall'' \<or> kind = ''mcp_tool_call'' then
           (case ph of
              PStarted \<Rightarrow>
                [ToolCall i (Mcp (json_str (json_field item [''server''])) (json_str (json_field item [''tool'']))
                   (case json_get item ''arguments'' of Some v \<Rightarrow> if is_null v then None else Some v | None \<Rightarrow> None))]
            | PCompleted \<Rightarrow> [ToolResult i (status = ''failed'') None None])
         else if kind = ''webSearch'' \<or> kind = ''web_search'' then
           tool_lifecycle ph i (WebSearch (json_str (json_field item [''query'']))) False
         else if kind = ''todoList'' \<or> kind = ''todo_list'' then
           tool_lifecycle ph i
             (Todo (map (\<lambda>t. \<lparr>td_text = json_str (json_field t [''text'']),
                              td_done = (Option.bind (json_field t [''completed'', ''done'']) as_bool = Some True)\<rparr>)
                (array_or_empty (json_get item ''items'')))) False
         else if kind = ''error'' then [Error (json_str (json_field item [''message'']))]
         else if kind = ''subAgentActivity'' \<or> kind = ''sub_agent_activity'' then
           tool_lifecycle ph i (UnknownTool (agent_name (json_str (json_field item [''agentPath'']))) (Some item))
             (json_str (json_field item [''kind'']) \<in> {''failed'', ''errored''})
         else [])"

definition user_message_text :: "json \<Rightarrow> string option" where
  "user_message_text item =
     (let txt = json_str (json_field item [''text''])
      in if trim txt \<noteq> [] then Some txt
         else (let joined = join_str [newline, newline]
                 (List.map_filter (\<lambda>b. Option.bind (json_get b ''text'') as_str) (array_or_empty (json_get item ''content'')))
               in if trim joined \<noteq> [] then Some joined else None))"

definition notification_thread_id :: "string \<Rightarrow> json \<Rightarrow> string option" where
  "notification_thread_id meth params =
     (if meth = ''thread/started'' then Option.bind (json_pointer [''thread'', ''id''] params) as_str
      else Option.bind (json_field params [''threadId'', ''thread_id'']) as_str)"

datatype child_route = RouteSubagent | RouteConsumed | RouteParent

definition route_child_notification :: "string \<Rightarrow> child_route" where
  "route_child_notification meth =
     (if meth \<in> {''item/started'', ''item/completed'', ''item/agentMessage/delta'', ''item/reasoning/textDelta'',
        ''item/reasoning/summaryTextDelta'', ''turn/completed'', ''turn/failed'', ''turn/aborted'', ''error'', ''thread/closed''}
      then RouteSubagent
      else if meth \<in> {''turn/started'', ''thread/status/changed'', ''thread/tokenUsage/updated'',
        ''item/reasoning/summaryPartAdded'', ''item/commandExecution/outputDelta'', ''item/fileChange/outputDelta'',
        ''item/fileChange/patchUpdated'', ''item/plan/delta'', ''turn/plan/updated'', ''turn/diff/updated'',
        ''thread/name/updated'', ''thread/settings/updated'', ''rawResponseItem/completed'', ''thread/archived'',
        ''thread/unarchived'', ''thread/compacted'', ''thread/started''}
      then RouteConsumed
      else RouteParent)"

section \<open>The turn router\<close>

record turn_router =
  tr_active :: "string option"
  tr_completed :: "string list"

definition empty_router :: turn_router where
  "empty_router = \<lparr>tr_active = None, tr_completed = []\<rparr>"

definition is_completed :: "turn_router \<Rightarrow> string \<Rightarrow> bool" where
  "is_completed r i = (i \<in> set (tr_completed r))"

definition remember_completed :: "string \<Rightarrow> turn_router \<Rightarrow> turn_router" where
  "remember_completed i r = (let l = tr_completed r @ [i] in r\<lparr>tr_completed := drop (length l - 32) l\<rparr>)"

definition note_started :: "string \<Rightarrow> turn_router \<Rightarrow> turn_router" where
  "note_started i r =
     (if i = [] \<or> is_completed r i then r
      else (let r = (case tr_active r of Some prev \<Rightarrow> if prev \<noteq> i then remember_completed prev r else r | None \<Rightarrow> r)
            in r\<lparr>tr_active := Some i\<rparr>))"

definition note_completed :: "string \<Rightarrow> turn_router \<Rightarrow> turn_router" where
  "note_completed i r =
     (if i = [] then r
      else (let r = remember_completed i r in if tr_active r = Some i then r\<lparr>tr_active := None\<rparr> else r))"

definition adopt_started :: "string \<Rightarrow> turn_router \<Rightarrow> turn_router" where
  "adopt_started i r = r\<lparr>tr_active := (if i \<noteq> [] \<and> \<not> is_completed r i then Some i else None)\<rparr>"

section \<open>The session loop\<close>

text \<open>
  \<open>co_running\<close> is false after the loop was left, \<open>co_consumer\<close> after the receiver of the events hung up, \<open>co_out\<close>
  the events sent, \<open>co_started\<close> the prompts sent with \<open>turn/start\<close> or accepted by \<open>turn/steer\<close>. A send fails only
  once the consumer hung up, which is an input of its own.
\<close>

record codex_run =
  co_thread :: string
  co_router :: turn_router
  co_children :: "(string, string) btree"
  co_streamed :: "string list"
  co_usage :: "agent_event option"
  co_queue :: "string list"
  co_open :: bool
  co_interrupted :: bool
  co_done :: bool
  co_done_after :: bool
  co_message_id :: string
  co_drawn :: nat
  co_running :: bool
  co_consumer :: bool
  co_delivered :: "string list"
  co_out :: "agent_event list"

datatype codex_input =
    Notification string json
  | ServerRequest
  | StdoutEof
  | SteerMessage string
  | MailboxClosed
  | Interrupt
  | ConsumerGone

text \<open>What the app server answers: whether it takes a \<open>turn/steer\<close>, and to a \<open>turn/start\<close> the turn id or an error.\<close>

record codex_answer =
  ca_steer_ok :: bool
  ca_start :: "string + string"

definition emit :: "agent_event list \<Rightarrow> codex_run \<Rightarrow> codex_run" where
  "emit evs s = s\<lparr>co_out := co_out s @ evs\<rparr>"

definition leave_loop :: "codex_run \<Rightarrow> codex_run" where
  "leave_loop s = s\<lparr>co_running := False\<rparr>"

definition rotate :: "(nat \<Rightarrow> string) \<Rightarrow> codex_run \<Rightarrow> codex_run" where
  "rotate uuid s = s\<lparr>co_message_id := uuid (co_drawn s), co_drawn := co_drawn s + 1\<rparr>"

definition steered :: "(nat \<Rightarrow> string) \<Rightarrow> codex_run \<Rightarrow> codex_run" where
  "steered uuid s = emit [Steered (Some (co_message_id s)) (Some (uuid (co_drawn s)))] (rotate uuid s)"

definition steer_as_new_turn :: "(nat \<Rightarrow> string) \<Rightarrow> string + string \<Rightarrow> string \<Rightarrow> codex_run \<Rightarrow> codex_run" where
  "steer_as_new_turn uuid answer prompt s =
     (case answer of
        Inr i \<Rightarrow> steered uuid (s\<lparr>co_router := adopt_started i (co_router s), co_done := False, co_delivered := co_delivered s @ [prompt]\<rparr>)
      | Inl e \<Rightarrow> leave_loop (emit [Error (''Steering failed: '' @ e)] s))"

definition turn_failed_status :: "json \<Rightarrow> bool" where
  "turn_failed_status params = (Option.bind (json_pointer [''turn'', ''status''] params) as_str = Some ''failed'')"

definition error_message :: "string \<Rightarrow> json \<Rightarrow> string" where
  "error_message fallback params =
     (case Option.bind (json_pointer [''error'', ''message''] params) as_str of
        Some m \<Rightarrow> m
      | None \<Rightarrow> (case Option.bind (json_get params ''message'') as_str of Some m \<Rightarrow> m | None \<Rightarrow> fallback))"

definition item_of :: "json \<Rightarrow> json" where
  "item_of params = (case json_get params ''item'' of Some item \<Rightarrow> item | None \<Rightarrow> JNull)"

definition opt_events :: "('a \<Rightarrow> agent_event) \<Rightarrow> 'a option \<Rightarrow> agent_event list" where
  "opt_events f x = (case x of Some v \<Rightarrow> [f v] | None \<Rightarrow> [])"

text \<open>What a notification of a registered child thread means for its subagent.\<close>

definition child_events :: "(json \<Rightarrow> string) \<Rightarrow> string \<Rightarrow> string \<Rightarrow> json \<Rightarrow> agent_event list" where
  "child_events to_json thread meth params =
     (if meth = ''turn/completed'' then
        [Done (if turn_error_message to_json params \<noteq> None \<or> turn_failed_status params then DoneErrored else DoneCompleted)
           None None (Some thread)]
      else if meth = ''turn/failed'' then [Done DoneErrored None (turn_error_message to_json params) (Some thread)]
      else if meth = ''turn/aborted'' then [Done DoneInterrupted None None (Some thread)]
      else if meth = ''item/agentMessage/delta'' then opt_events TextDelta (delta_text params)
      else if meth = ''item/reasoning/textDelta'' \<or> meth = ''item/reasoning/summaryTextDelta'' then
        opt_events ReasoningDelta (delta_text params)
      else if meth = ''item/started'' \<or> meth = ''item/completed'' then
        (let ph = (if meth = ''item/started'' then PStarted else PCompleted); item = item_of params; kind = item_type item
         in if ph = PCompleted \<and> (kind = ''agentMessage'' \<or> kind = ''agent_message'') then [TextDelta [newline, newline]]
            else if kind = ''userMessage'' \<or> kind = ''user_message'' then
              (if ph = PCompleted then opt_events UserMessage (user_message_text item) else [])
            else map_item ph item)
      else if meth = ''error'' then [Error (error_message ''Codex subagent error'' params)]
      else if meth = ''thread/closed'' then [Done DoneCompleted None None (Some thread)]
      else [])"

text \<open>An item of the session's own thread.\<close>

definition root_marker :: "string \<Rightarrow> json \<Rightarrow> bool" where
  "root_marker thread item =
     (json_str (json_get item ''agentThreadId'') = thread \<or> json_str (json_get item ''agentPath'') = ''/root'' \<or>
      json_str (json_get item ''agentPath'') = ''/'')"

definition is_activity :: "json \<Rightarrow> bool" where
  "is_activity item = (item_type item = ''subAgentActivity'' \<or> item_type item = ''sub_agent_activity'')"

definition register_child :: "json \<Rightarrow> codex_run \<Rightarrow> codex_run" where
  "register_child item s =
     (let child = json_str (json_get item ''agentThreadId''); call = json_str (json_get item ''id'')
      in if is_activity item \<and> child \<noteq> [] \<and> \<not> root_marker (co_thread s) item \<and> call \<noteq> []
         then s\<lparr>co_children := bt_insert child call (co_children s)\<rparr> else s)"

text \<open>A finished agent message: its text when none of it was streamed, a paragraph break, the end of the message.\<close>

definition complete_message :: "(nat \<Rightarrow> string) \<Rightarrow> json \<Rightarrow> codex_run \<Rightarrow> codex_run" where
  "complete_message uuid item s =
     (let i = json_str (json_get item ''id''); txt = json_str (json_get item ''text'')
      in rotate uuid (emit ((if i \<notin> set (co_streamed s) \<and> txt \<noteq> [] then [TextDelta txt] else [])
           @ [TextDelta [newline, newline], AssistantMessageCompleted (co_message_id s)]) s))"

definition route_item :: "(nat \<Rightarrow> string) \<Rightarrow> phase \<Rightarrow> json \<Rightarrow> codex_run \<Rightarrow> codex_run" where
  "route_item uuid ph item s =
     (if item_type item = ''agentMessage'' \<or> item_type item = ''agent_message''
      then (if ph = PCompleted then complete_message uuid item s else s)
      else emit (map_item ph item) s)"

definition on_item :: "(nat \<Rightarrow> string) \<Rightarrow> phase \<Rightarrow> json \<Rightarrow> codex_run \<Rightarrow> codex_run" where
  "on_item uuid ph item s =
     (if is_activity item \<and> root_marker (co_thread s) item then s
      else route_item uuid ph item (register_child item s))"

definition take_usage :: "codex_run \<Rightarrow> codex_run" where
  "take_usage s = emit (opt_events id (co_usage s)) (s\<lparr>co_usage := None\<rparr>)"

text \<open>The end of a turn: its status, then the next queued message, if any.\<close>

definition send_done :: "(json \<Rightarrow> string) \<Rightarrow> json \<Rightarrow> codex_run \<Rightarrow> codex_run" where
  "send_done to_json params s =
     (let err = (case turn_error_message to_json params of
                   Some m \<Rightarrow> Some m | None \<Rightarrow> if turn_failed_status params then Some ''Codex turn failed'' else None);
          status = (if co_interrupted s then DoneInterrupted else if err \<noteq> None then DoneErrored else DoneCompleted)
      in emit [Done status None err (Some (co_thread s))] (s\<lparr>co_done := True\<rparr>))"

definition after_done :: "(nat \<Rightarrow> string) \<Rightarrow> codex_answer \<Rightarrow> codex_run \<Rightarrow> codex_run" where
  "after_done uuid answer s =
     (if co_interrupted s then leave_loop (s\<lparr>co_done_after := True\<rparr>)
      else (case co_queue s of
              prompt # rest \<Rightarrow> steer_as_new_turn uuid (ca_start answer) prompt (s\<lparr>co_queue := rest\<rparr>)
            | [] \<Rightarrow> if co_open s then s else leave_loop s))"

definition on_turn_completed ::
    "(nat \<Rightarrow> string) \<Rightarrow> (json \<Rightarrow> string) \<Rightarrow> codex_answer \<Rightarrow> json \<Rightarrow> codex_run \<Rightarrow> codex_run" where
  "on_turn_completed uuid to_json answer params s =
     after_done uuid answer (send_done to_json params
       (take_usage (s\<lparr>co_router := note_completed (turn_id params) (co_router s), co_streamed := []\<rparr>)))"

definition on_turn_failed :: "(json \<Rightarrow> string) \<Rightarrow> json \<Rightarrow> codex_run \<Rightarrow> codex_run" where
  "on_turn_failed to_json params s =
     (let s = take_usage (s\<lparr>co_router := note_completed (turn_id params) (co_router s)\<rparr>);
          err = (case turn_error_message to_json params of Some m \<Rightarrow> m | None \<Rightarrow> ''Codex turn failed'')
      in leave_loop (emit [Done (if co_interrupted s then DoneInterrupted else DoneErrored) None (Some err) (Some (co_thread s))]
           (s\<lparr>co_done := True, co_done_after := co_done_after s \<or> co_interrupted s\<rparr>)))"

definition on_turn_aborted :: "json \<Rightarrow> codex_run \<Rightarrow> codex_run" where
  "on_turn_aborted params s =
     leave_loop (emit [Done DoneInterrupted None None (Some (co_thread s))]
       (s\<lparr>co_router := note_completed (turn_id params) (co_router s), co_done := True,
          co_done_after := co_done_after s \<or> co_interrupted s\<rparr>))"

text \<open>A notification the session itself handles.\<close>

definition on_own ::
    "(nat \<Rightarrow> string) \<Rightarrow> (json \<Rightarrow> string) \<Rightarrow> codex_answer \<Rightarrow> string \<Rightarrow> json \<Rightarrow> codex_run \<Rightarrow> codex_run" where
  "on_own uuid to_json answer meth params s =
     (if meth = ''turn/started'' then s\<lparr>co_router := note_started (turn_id params) (co_router s)\<rparr>
      else if meth = ''item/agentMessage/delta'' then
        emit (opt_events TextDelta (delta_text params)) (s\<lparr>co_streamed := List.insert (item_id params) (co_streamed s)\<rparr>)
      else if meth = ''item/reasoning/textDelta'' \<or> meth = ''item/reasoning/summaryTextDelta'' then
        emit (opt_events ReasoningDelta (delta_text params)) s
      else if meth = ''item/started'' then on_item uuid PStarted (item_of params) s
      else if meth = ''item/completed'' then on_item uuid PCompleted (item_of params) s
      else if meth = ''thread/tokenUsage/updated'' then
        (case usage_event params of Some u \<Rightarrow> s\<lparr>co_usage := Some u\<rparr> | None \<Rightarrow> s)
      else if meth = ''turn/completed'' then on_turn_completed uuid to_json answer params s
      else if meth = ''turn/failed'' then on_turn_failed to_json params s
      else if meth = ''turn/aborted'' then on_turn_aborted params s
      else if meth = ''error'' then emit [Error (error_message ''Codex error'' params)] s
      else s)"

definition foreign :: "string \<Rightarrow> json \<Rightarrow> codex_run \<Rightarrow> string option" where
  "foreign meth params s =
     (case notification_thread_id meth params of
        Some t \<Rightarrow> if t \<noteq> [] \<and> t \<noteq> co_thread s then Some t else None | None \<Rightarrow> None)"

definition seed_child :: "string \<Rightarrow> json \<Rightarrow> string \<Rightarrow> codex_run \<Rightarrow> codex_run" where
  "seed_child meth params t s =
     (if meth = ''thread/started'' \<and> json_pointer [''thread'', ''source'', ''subAgent'', ''thread_spawn''] params \<noteq> None \<and>
         \<not> bt_contains (co_children s) t
      then s\<lparr>co_children := bt_insert t t (co_children s)\<rparr> else s)"

definition on_notification ::
    "(nat \<Rightarrow> string) \<Rightarrow> (json \<Rightarrow> string) \<Rightarrow> codex_answer \<Rightarrow> string \<Rightarrow> json \<Rightarrow> codex_run \<Rightarrow> codex_run" where
  "on_notification uuid to_json answer meth params s =
     (case foreign meth params s of
        None \<Rightarrow> on_own uuid to_json answer meth params s
      | Some t \<Rightarrow>
          (let s = seed_child meth params t s
           in case route_child_notification meth of
                RouteParent \<Rightarrow> on_own uuid to_json answer meth params s
              | RouteConsumed \<Rightarrow> s
              | RouteSubagent \<Rightarrow>
                  (case bt_get (co_children s) t of
                     Some call \<Rightarrow> emit (map (Subagent call) (child_events to_json t meth params)) s
                   | None \<Rightarrow> s)))"

text \<open>
  A message from the mailbox: to the active turn, or as a turn of its own. The loop awaits the answer and reads nothing
  meanwhile, so the router it compares with afterwards is the one it asked with.
\<close>

definition on_steer :: "(nat \<Rightarrow> string) \<Rightarrow> codex_answer \<Rightarrow> string \<Rightarrow> codex_run \<Rightarrow> codex_run" where
  "on_steer uuid answer prompt s =
     (case tr_active (co_router s) of
        Some expected \<Rightarrow>
          if ca_steer_ok answer then steered uuid (s\<lparr>co_delivered := co_delivered s @ [prompt]\<rparr>)
          else if tr_active (co_router s) = Some expected \<and> \<not> is_completed (co_router s) expected
          then s\<lparr>co_queue := co_queue s @ [prompt]\<rparr>
          else steer_as_new_turn uuid (ca_start answer) prompt s
      | None \<Rightarrow> steer_as_new_turn uuid (ca_start answer) prompt s)"

text \<open>
  One turn of the loop; an input whose branch is disabled is not taken. The interrupt branch fires once.
\<close>

definition codex_step ::
    "(nat \<Rightarrow> string) \<Rightarrow> (json \<Rightarrow> string) \<Rightarrow> codex_input \<times> codex_answer \<Rightarrow> codex_run \<Rightarrow> codex_run" where
  "codex_step uuid to_json x s =
     (if \<not> co_running s then s
      else case x of (inp, answer) \<Rightarrow>
        (case inp of
           Notification meth params \<Rightarrow> on_notification uuid to_json answer meth params s
         | ServerRequest \<Rightarrow> s
         | StdoutEof \<Rightarrow> leave_loop s
         | SteerMessage prompt \<Rightarrow> if co_open s \<and> \<not> co_interrupted s then on_steer uuid answer prompt s else s
         | MailboxClosed \<Rightarrow>
             if co_open s \<and> \<not> co_interrupted s then
               (let s = s\<lparr>co_open := False\<rparr>
                in if tr_active (co_router s) = None \<and> co_queue s = [] then leave_loop s else s)
             else s
         | Interrupt \<Rightarrow>
             if co_interrupted s then s
             else (let s = s\<lparr>co_interrupted := True\<rparr> in if tr_active (co_router s) = None then leave_loop s else s)
         | ConsumerGone \<Rightarrow> leave_loop (s\<lparr>co_consumer := False\<rparr>)))"

text \<open>The run after the session start and the answer to the first \<open>turn/start\<close>; the end of the run.\<close>

definition start_run :: "(nat \<Rightarrow> string) \<Rightarrow> string \<Rightarrow> string option \<Rightarrow> string \<Rightarrow> string \<Rightarrow> string \<Rightarrow> codex_run" where
  "start_run uuid thread model cwd prompt first_turn =
     \<lparr>co_thread = thread, co_router = adopt_started first_turn empty_router, co_children = [], co_streamed = [], co_usage = None,
      co_queue = [], co_open = True, co_interrupted = False, co_done = False, co_done_after = False, co_message_id = uuid 0,
      co_drawn = 1, co_running = True, co_consumer = True, co_delivered = [prompt],
      co_out = [SessionStarted Codex (case model of Some m \<Rightarrow> m | None \<Rightarrow> []) [] cwd thread (uuid 0)]\<rparr>"

definition finish_run :: "string \<Rightarrow> codex_run \<Rightarrow> codex_run" where
  "finish_run crash s =
     (if \<not> co_consumer s then s
      else if co_interrupted s \<and> \<not> co_done_after s then emit [Done DoneInterrupted None None (Some (co_thread s))] s
      else if \<not> co_interrupted s \<and> \<not> co_done s then emit [Done DoneErrored None (Some crash) (Some (co_thread s))] s
      else s)"

definition run_codex ::
    "(nat \<Rightarrow> string) \<Rightarrow> (json \<Rightarrow> string) \<Rightarrow> (codex_input \<times> codex_answer) list \<Rightarrow> codex_run \<Rightarrow> codex_run" where
  "run_codex uuid to_json xs s = fold (codex_step uuid to_json) xs s"

section \<open>Requests of the app server\<close>

text \<open>The first of several spellings that is a string, and a boolean.\<close>

definition first_str :: "json \<Rightarrow> string list \<Rightarrow> string" where
  "first_str q keys = (case List.map_filter (\<lambda>k. Option.bind (json_get q k) as_str) keys of s # _ \<Rightarrow> s | [] \<Rightarrow> [])"

definition first_bool :: "json \<Rightarrow> string list \<Rightarrow> bool" where
  "first_bool q keys = (case List.map_filter (\<lambda>k. Option.bind (json_get q k) as_bool) keys of b # _ \<Rightarrow> b | [] \<Rightarrow> False)"

definition option_label :: "json \<Rightarrow> string" where
  "option_label op =
     (case op of JStr s \<Rightarrow> s
      | other \<Rightarrow> json_str (case json_get other ''label'' of Some l \<Rightarrow> Some l | None \<Rightarrow> json_get other ''value''))"

definition wire_question :: "(nat \<Rightarrow> string) \<Rightarrow> nat \<times> json \<Rightarrow> string \<times> user_input_question" where
  "wire_question uuid iq =
     (case iq of (ix, q) \<Rightarrow>
        (let wire_id = first_str q [''id'', ''questionId'', ''question_id'']; h = first_str q [''header'', ''title'', ''label'']
         in (if wire_id = [] then CHR ''q'' # show_nat ix else wire_id,
             \<lparr>uq_id = uuid ix, uq_header = (if h = [] then ''Codex question'' else h),
              uq_question = first_str q [''question'', ''prompt'', ''text''],
              uq_options = map option_label (array_or_empty (json_get q ''options'')),
              uq_multi_select = first_bool q [''multiSelect'', ''multi_select'']\<rparr>)))"

definition user_input_questions :: "(nat \<Rightarrow> string) \<Rightarrow> json \<Rightarrow> (string \<times> user_input_question) list" where
  "user_input_questions uuid params = map (wire_question uuid) (List.enumerate 0 (array_or_empty (json_get params ''questions'')))"

definition backtick :: string where "backtick = [CHR 0x60]"

definition approval_question :: "(nat \<Rightarrow> string) \<Rightarrow> string \<Rightarrow> json \<Rightarrow> user_input_question" where
  "approval_question uuid meth params =
     (let (header, question) =
        (if sublist ''commandExecution'' meth then
           (let command = (case json_get params ''command'' of
                  Some (JStr s) \<Rightarrow> s
                | Some (JArr parts) \<Rightarrow> join_str '' '' (List.map_filter as_str parts)
                | _ \<Rightarrow> [])
            in (''Approve command'',
                if command = [] then ''Codex wants to run a command. Allow it?''
                else ''Codex wants to run '' @ backtick @ command @ backtick @ ''. Allow it?''))
         else
           (let paths = List.map_filter (\<lambda>c. Option.bind (json_get c ''path'') as_str) (array_or_empty (json_get params ''changes''))
            in (''Approve file change'',
                if paths = [] then ''Codex wants to modify files. Allow it?''
                else ''Codex wants to modify '' @ join_str '', '' paths @ ''. Allow it?'')))
      in \<lparr>uq_id = uuid 0, uq_header = header, uq_question = question, uq_options = [''Yes'', ''No''], uq_multi_select = False\<rparr>)"

definition says_yes :: "string \<Rightarrow> user_input_answer list \<Rightarrow> bool" where
  "says_yes qid answers =
     list_ex (\<lambda>a. ans_question_id a = qid \<and> list_ex (\<lambda>l. map ascii_lower l = ''yes'') (ans_labels a)) answers"

definition decision :: "string \<Rightarrow> json" where
  "decision d = JObj [(''decision'', JStr d)]"

definition is_approval :: "string \<Rightarrow> bool" where
  "is_approval meth = (meth = ''item/commandExecution/requestApproval'' \<or> meth = ''item/fileChange/requestApproval'')"

text \<open>
  The reply to a request: a result or an error code with its message. \<open>ask\<close> is the bridge to the user; it gives no
  answers when the caller went away.
\<close>

definition handle_server_request ::
    "(nat \<Rightarrow> string) \<Rightarrow> (user_input_question list \<Rightarrow> user_input_answer list option) \<Rightarrow> bool \<Rightarrow> string \<Rightarrow> json \<Rightarrow> (int \<times> string) + json" where
  "handle_server_request uuid ask auto_approve meth params =
     (if meth = ''item/tool/requestUserInput'' then
        (let questions = user_input_questions uuid params
         in if questions = [] then Inr (JObj [(''answers'', JObj [])])
            else (let answers = (case ask (map snd questions) of Some as \<Rightarrow> as | None \<Rightarrow> []);
                      labels = (\<lambda>q. case find (\<lambda>a. ans_question_id a = uq_id q) answers of Some a \<Rightarrow> map JStr (ans_labels a) | None \<Rightarrow> [])
                  in Inr (JObj [(''answers'', JObj (fold (\<lambda>(w, q). bt_insert w (JObj [(''answers'', JArr (labels q))])) questions []))])))
      else if \<not> is_approval meth then Inl (-32601, ''unsupported method: '' @ meth)
      else if auto_approve then Inr (decision ''accept'')
      else (let question = approval_question uuid meth params;
                answers = (case ask [question] of Some as \<Rightarrow> as | None \<Rightarrow> [])
            in Inr (decision (if says_yes (uq_id question) answers then ''accept'' else ''decline''))))"

section \<open>The router\<close>

text \<open>The active turn is never one that was declared over, and no more than 32 finished turns are remembered.\<close>

definition router_ok :: "turn_router \<Rightarrow> bool" where
  "router_ok r = (length (tr_completed r) \<le> 32 \<and> (case tr_active r of Some a \<Rightarrow> a \<noteq> [] \<and> a \<notin> set (tr_completed r) | None \<Rightarrow> True))"

lemma remember_completed_parts [simp]:
  "tr_active (remember_completed i r) = tr_active r" "length (tr_completed (remember_completed i r)) \<le> 32"
  "x \<in> set (tr_completed (remember_completed i r)) \<Longrightarrow> x = i \<or> x \<in> set (tr_completed r)"
  "i \<in> set (tr_completed (remember_completed i r))"
  by (auto simp: remember_completed_def Let_def dest: in_set_dropD split: if_splits)

lemma router_ok_steps:
  assumes "router_ok r"
  shows "router_ok (note_started i r)" "router_ok (note_completed i r)" "router_ok (adopt_started i r)"
proof -
  show "router_ok (note_started i r)"
    using assms remember_completed_parts(3) [of i _ r]
    by (auto simp: router_ok_def note_started_def is_completed_def Let_def dest!: remember_completed_parts(3) split: option.splits if_splits)
  show "router_ok (note_completed i r)"
    using assms by (auto simp: router_ok_def note_completed_def Let_def dest!: remember_completed_parts(3) split: option.splits if_splits)
  show "router_ok (adopt_started i r)"
    using assms by (auto simp: router_ok_def adopt_started_def is_completed_def)
qed

lemma router_ok_empty: "router_ok empty_router"
  by (simp add: router_ok_def empty_router_def)

section \<open>What every step keeps\<close>

lemmas run_defs = emit_def leave_loop_def rotate_def steered_def take_usage_def

fun is_done :: "agent_event \<Rightarrow> bool" where
  "is_done (Done _ _ _ _) = True"
| "is_done _ = False"

text \<open>Every handler keeps the thread and a sound router, and a turn counts as done only after a \<open>Done\<close> was sent.\<close>

definition keeps :: "codex_run \<Rightarrow> codex_run \<Rightarrow> bool" where
  "keeps s s' = (co_thread s' = co_thread s \<and> (router_ok (co_router s) \<longrightarrow> router_ok (co_router s')) \<and>
     ((co_done s \<longrightarrow> list_ex is_done (co_out s)) \<longrightarrow> (co_done s' \<longrightarrow> list_ex is_done (co_out s'))))"

lemma keeps_refl [simp, intro]: "keeps s s"
  by (simp add: keeps_def)

lemma keeps_trans: "keeps a b \<Longrightarrow> keeps b c \<Longrightarrow> keeps a c"
  by (auto simp: keeps_def)

lemma keeps_if: "keeps s a \<Longrightarrow> keeps s b \<Longrightarrow> keeps s (if c then a else b)"
  by simp

lemma keeps_emit: "keeps s (emit evs s)"
  by (simp add: keeps_def emit_def)

lemma keeps_new_turn: "keeps s (steer_as_new_turn uuid answer prompt s)"
  by (simp add: keeps_def steer_as_new_turn_def run_defs router_ok_steps split: sum.split)

lemma keeps_queue: "keeps s (s\<lparr>co_queue := q\<rparr>)"
  by (simp add: keeps_def)

lemma keeps_leave: "keeps s (leave_loop (s\<lparr>co_done_after := b\<rparr>))" "keeps s (leave_loop s)"
  by (simp_all add: keeps_def leave_loop_def)

lemma keeps_item: "keeps s (on_item uuid ph item s)"
  by (simp add: keeps_def on_item_def route_item_def complete_message_def register_child_def run_defs Let_def)

lemma keeps_next: "keeps s (after_done uuid answer s)"
  unfolding after_done_def
  by (cases "co_queue s") (simp_all add: keeps_leave keeps_trans [OF keeps_queue keeps_new_turn])

lemma keeps_completed: "keeps s (on_turn_completed uuid to_json answer params s)"
proof -
  have "keeps s (send_done to_json params (take_usage (s\<lparr>co_router := note_completed (turn_id params) (co_router s), co_streamed := []\<rparr>)))"
    by (simp add: send_done_def keeps_def run_defs router_ok_steps Let_def)
  then show ?thesis unfolding on_turn_completed_def by (rule keeps_trans [OF _ keeps_next])
qed

lemma keeps_ended: "keeps s (on_turn_failed to_json params s)" "keeps s (on_turn_aborted params s)"
  by (simp_all add: keeps_def on_turn_failed_def on_turn_aborted_def run_defs router_ok_steps Let_def)

lemma keeps_own: "keeps s (on_own uuid to_json answer meth params s)"
  unfolding on_own_def
  by (intro keeps_if keeps_item keeps_completed keeps_ended keeps_refl keeps_emit;
      simp add: keeps_def emit_def router_ok_steps split: option.split)

lemma keeps_seed: "keeps s (seed_child meth params t s)"
  by (simp add: keeps_def seed_child_def)

lemma keeps_notification: "keeps s (on_notification uuid to_json answer meth params s)"
  unfolding on_notification_def Let_def
  by (auto split: option.split child_route.split intro: keeps_own keeps_seed keeps_trans [OF keeps_seed keeps_own]
      keeps_trans [OF keeps_seed keeps_emit])

lemma keeps_steer: "keeps s (on_steer uuid answer prompt s)"
proof -
  have "keeps s (steered uuid (s\<lparr>co_delivered := d\<rparr>))" for d by (simp add: keeps_def run_defs)
  then show ?thesis unfolding on_steer_def by (auto split: option.split intro: keeps_new_turn keeps_queue)
qed

lemma keeps_step: "keeps s (codex_step uuid to_json x s)"
proof -
  have misc: "keeps s (s\<lparr>co_open := b\<rparr>)" "keeps s (s\<lparr>co_interrupted := b\<rparr>)" "keeps s (s\<lparr>co_consumer := b\<rparr>)" for b
    by (simp_all add: keeps_def)
  obtain inp answer where x: "x = (inp, answer)" by (cases x)
  show ?thesis
    unfolding codex_step_def x Let_def
    by (cases inp) (simp_all add: keeps_notification keeps_steer keeps_leave misc keeps_trans [OF misc(1) keeps_leave(2)]
        keeps_trans [OF misc(2) keeps_leave(2)] keeps_trans [OF misc(3) keeps_leave(2)])
qed

lemma keeps_run: "keeps s (run_codex uuid to_json xs s)"
  unfolding run_codex_def by (induction xs arbitrary: s) (auto intro: keeps_trans [OF keeps_step])

lemma router_ok_start: "router_ok (co_router (start_run uuid thread model cwd prompt turn))"
  by (simp add: start_run_def router_ok_steps router_ok_empty)

definition after_ok :: "codex_run \<Rightarrow> bool" where
  "after_ok s = (co_done_after s \<longrightarrow> co_done s \<and> \<not> co_running s)"

lemma after_ok_parts [simp]:
  "co_done_after (steer_as_new_turn uuid answer prompt s) = co_done_after s"
  "co_done_after (on_item uuid ph item s) = co_done_after s"
  "co_done_after (seed_child meth params t s) = co_done_after s"
  "co_done_after (on_steer uuid a prompt s) = co_done_after s"
  "co_done_after (emit evs s) = co_done_after s"
  by (simp_all add: steer_as_new_turn_def on_item_def route_item_def complete_message_def register_child_def seed_child_def on_steer_def run_defs Let_def
      split: sum.split option.split)

lemma after_ok_if: "after_ok a \<Longrightarrow> after_ok b \<Longrightarrow> after_ok (if c then a else b)"
  by simp

lemma after_ok_fresh: "\<not> co_done_after s \<Longrightarrow> after_ok s"
  by (simp add: after_ok_def)

lemma after_ok_ended:
  assumes "\<not> co_done_after s"
  shows "after_ok (on_turn_completed uuid to_json answer params s)" "after_ok (on_turn_failed to_json params s)" "after_ok (on_turn_aborted params s)"
  using assms
  by (simp_all add: after_ok_def on_turn_completed_def after_done_def send_done_def on_turn_failed_def on_turn_aborted_def run_defs Let_def
      split: list.split)

lemma after_ok_own: "\<not> co_done_after s \<Longrightarrow> after_ok (on_own uuid to_json answer meth params s)"
  unfolding on_own_def
  by (intro after_ok_if after_ok_ended; simp add: after_ok_def split: option.split)

lemma after_ok_notification: "\<not> co_done_after s \<Longrightarrow> after_ok (on_notification uuid to_json answer meth params s)"
  unfolding on_notification_def Let_def
  by (cases "foreign meth params s"; cases "route_child_notification meth")
    (simp_all add: after_ok_own after_ok_fresh split: option.split)

lemma after_ok_step:
  assumes "after_ok s"
  shows "after_ok (codex_step uuid to_json x s)"
proof (cases "co_running s")
  case True
  then have fresh: "\<not> co_done_after s" using assms by (auto simp: after_ok_def)
  obtain inp answer where x: "x = (inp, answer)" by (cases x)
  show ?thesis
    unfolding codex_step_def x Let_def using fresh True
    by (cases inp) (simp_all add: after_ok_notification after_ok_fresh leave_loop_def)
qed (use assms in \<open>simp add: codex_step_def\<close>)

lemma after_ok_run: "after_ok s \<Longrightarrow> after_ok (run_codex uuid to_json xs s)"
  unfolding run_codex_def by (induction xs arbitrary: s) (auto simp: after_ok_step)

text \<open>
  The active turn of a run is never one that was already reported over, however notifications, answers, steers and
  interrupts interleave, and the memory for finished turns stays bounded.
\<close>
theorem codex_turn_never_revived:
  "router_ok (co_router (run_codex uuid to_json xs (start_run uuid thread model cwd prompt turn)))"
  using keeps_run router_ok_start by (simp add: keeps_def)

text \<open>
  A run never ends in silence: whatever happened, unless the consumer hung up, the events of a finished run contain a
  final status, and a turn still in flight gets its final status as the very last event.
\<close>
theorem codex_run_ends_done:
  assumes "s = run_codex uuid to_json xs (start_run uuid thread model cwd prompt turn)" "co_consumer s"
  shows "list_ex is_done (co_out (finish_run crash s)) \<and> (co_done s \<or> is_done (last (co_out (finish_run crash s))))"
proof -
  have "co_done s \<longrightarrow> list_ex is_done (co_out s)"
    using keeps_run [of "start_run uuid thread model cwd prompt turn" uuid to_json xs] assms(1) by (simp add: keeps_def start_run_def)
  moreover have "co_done_after s \<longrightarrow> co_done s"
    using after_ok_run [of "start_run uuid thread model cwd prompt turn" uuid to_json xs] assms(1) by (simp add: after_ok_def start_run_def)
  ultimately show ?thesis using assms(2) by (auto simp: finish_run_def emit_def)
qed

section \<open>Subagents\<close>

fun from_subagent :: "agent_event \<Rightarrow> bool" where
  "from_subagent (Subagent _ _) = True"
| "from_subagent _ = False"

text \<open>The run as its own transcript and controls see it: without what is known and sent of child threads.\<close>

definition own_view :: "codex_run \<Rightarrow> codex_run" where
  "own_view s = s\<lparr>co_children := [], co_out := filter (\<lambda>e. \<not> from_subagent e) (co_out s)\<rparr>"

lemma own_view_idem [simp]: "own_view (own_view s) = own_view s"
  by (simp add: own_view_def)

lemma own_view_sel [simp]:
  "co_thread (own_view s) = co_thread s" "co_router (own_view s) = co_router s" "co_streamed (own_view s) = co_streamed s"
  "co_usage (own_view s) = co_usage s" "co_queue (own_view s) = co_queue s" "co_open (own_view s) = co_open s"
  "co_interrupted (own_view s) = co_interrupted s" "co_running (own_view s) = co_running s" "co_message_id (own_view s) = co_message_id s"
  by (simp_all add: own_view_def)

text \<open>A handler is blind when its effect on that view depends on the view alone.\<close>

definition blind :: "(codex_run \<Rightarrow> codex_run) \<Rightarrow> bool" where
  "blind h = (\<forall>s. own_view (h s) = own_view (h (own_view s)))"

lemma blindI: "(\<And>s. own_view (h s) = own_view (h (own_view s))) \<Longrightarrow> blind h"
  by (simp add: blind_def)

lemma blind_comp: "blind g \<Longrightarrow> blind h \<Longrightarrow> blind (\<lambda>s. g (h s))"
  unfolding blind_def by metis

lemma blind_if: "(\<And>s. c (own_view s) = c s) \<Longrightarrow> blind g \<Longrightarrow> blind h \<Longrightarrow> blind (\<lambda>s. if c s then g s else h s)"
  by (simp add: blind_def)

lemma blind_branch: "blind g \<Longrightarrow> blind h \<Longrightarrow> blind (\<lambda>s. if c then g s else h s)"
  by (simp add: blind_def)

lemma blind_id: "blind (\<lambda>s. s)"
  by (simp add: blind_def)

lemma blind_emit: "(\<And>s. f (own_view s) = f s) \<Longrightarrow> blind (\<lambda>s. emit (f s) s)"
  by (rule blindI) (simp add: own_view_def emit_def)

lemma blind_updates:
  "blind (\<lambda>s. s\<lparr>co_open := b\<rparr>)" "blind (\<lambda>s. s\<lparr>co_interrupted := b\<rparr>)" "blind (\<lambda>s. s\<lparr>co_consumer := b\<rparr>)"
  "blind (\<lambda>s. s\<lparr>co_done := b\<rparr>)" "blind (\<lambda>s. s\<lparr>co_done_after := b\<rparr>)" "blind (\<lambda>s. s\<lparr>co_queue := q\<rparr>)"
  "blind (\<lambda>s. s\<lparr>co_usage := u\<rparr>)" "blind (\<lambda>s. s\<lparr>co_router := f (co_router s)\<rparr>)"
  "blind (\<lambda>s. s\<lparr>co_router := f (co_router s), co_streamed := []\<rparr>)" "blind (\<lambda>s. s\<lparr>co_streamed := g (co_streamed s)\<rparr>)"
  "blind (\<lambda>s. s\<lparr>co_delivered := co_delivered s @ d\<rparr>)"
  "blind leave_loop" "blind (rotate uuid)" "blind (register_child item)"
  by (auto intro!: blindI simp: own_view_def leave_loop_def rotate_def register_child_def Let_def)

lemma blind_steered: "blind (steered uuid)"
  by (rule blindI) (simp add: steered_def rotate_def emit_def own_view_def)

lemma blind_new_turn: "blind (steer_as_new_turn uuid answer prompt)"
proof (cases answer)
  case (Inl e)
  then show ?thesis unfolding steer_as_new_turn_def by (simp add: blind_comp [OF blind_updates(12) blind_emit])
next
  case (Inr i)
  have "blind (\<lambda>s. s\<lparr>co_router := adopt_started i (co_router s), co_done := False, co_delivered := co_delivered s @ [prompt]\<rparr>)"
    by (rule blindI) (simp add: own_view_def)
  with Inr show ?thesis unfolding steer_as_new_turn_def by (simp add: blind_comp [OF blind_steered])
qed

lemma blind_message: "blind (complete_message uuid item)"
  unfolding complete_message_def Let_def by (rule blind_comp [OF blind_updates(13) blind_emit]) simp

lemma blind_item: "blind (on_item uuid ph item)"
proof -
  have "blind (route_item uuid ph item)"
    unfolding route_item_def by (intro blind_branch blind_message blind_id blind_emit) simp
  then show ?thesis unfolding on_item_def by (intro blind_if blind_id blind_comp [OF _ blind_updates(14)]) simp_all
qed

lemma blind_usage: "blind take_usage"
  by (rule blindI) (simp add: take_usage_def own_view_def emit_def)

lemma blind_send_done: "blind (send_done to_json params)"
  by (rule blindI) (simp add: send_done_def own_view_def emit_def Let_def)

lemma blind_after_done: "blind (after_done uuid answer)"
proof -
  have "blind (\<lambda>s. case co_queue s of prompt # rest \<Rightarrow> steer_as_new_turn uuid (ca_start answer) prompt (s\<lparr>co_queue := rest\<rparr>)
      | [] \<Rightarrow> if co_open s then s else leave_loop s)"
  proof (rule blindI)
    fix s
    have "own_view (steer_as_new_turn uuid (ca_start answer) p (s\<lparr>co_queue := q\<rparr>)) =
        own_view (steer_as_new_turn uuid (ca_start answer) p ((own_view s)\<lparr>co_queue := q\<rparr>))" for p q
      using blind_comp [OF blind_new_turn blind_updates(6)] unfolding blind_def by blast
    moreover have "own_view (leave_loop s) = own_view (leave_loop (own_view s))" using blind_updates(12) unfolding blind_def by blast
    ultimately show "own_view (case co_queue s of prompt # rest \<Rightarrow> steer_as_new_turn uuid (ca_start answer) prompt (s\<lparr>co_queue := rest\<rparr>)
        | [] \<Rightarrow> if co_open s then s else leave_loop s) =
      own_view (case co_queue (own_view s) of prompt # rest \<Rightarrow> steer_as_new_turn uuid (ca_start answer) prompt ((own_view s)\<lparr>co_queue := rest\<rparr>)
        | [] \<Rightarrow> if co_open (own_view s) then own_view s else leave_loop (own_view s))"
      by (simp split: list.split)
  qed
  then show ?thesis
    unfolding after_done_def by (intro blind_if blind_comp [OF blind_updates(12) blind_updates(5)]) simp_all
qed

lemma blind_completed: "blind (on_turn_completed uuid to_json answer params)"
  unfolding on_turn_completed_def
  by (intro blind_comp [OF blind_after_done] blind_comp [OF blind_send_done] blind_comp [OF blind_usage] blind_updates)

lemma blind_ended: "blind (on_turn_failed to_json params)" "blind (on_turn_aborted params)"
  by (auto intro!: blindI simp: own_view_def on_turn_failed_def on_turn_aborted_def run_defs Let_def)

lemma blind_own: "blind (on_own uuid to_json answer meth params)"
proof -
  have usage: "blind (\<lambda>s. case usage_event params of Some u \<Rightarrow> s\<lparr>co_usage := Some u\<rparr> | None \<Rightarrow> s)"
    by (cases "usage_event params") (simp_all add: blind_id blind_updates)
  show ?thesis
    unfolding on_own_def
    by (intro blind_branch blind_item blind_completed blind_ended blind_updates usage blind_id blind_comp [OF blind_emit blind_updates(10)]
        blind_emit) simp_all
qed

lemma blind_steer: "blind (on_steer uuid answer prompt)"
proof (rule blindI)
  fix s
  have "own_view (steered uuid (s\<lparr>co_delivered := co_delivered s @ [prompt]\<rparr>)) =
      own_view (steered uuid ((own_view s)\<lparr>co_delivered := co_delivered (own_view s) @ [prompt]\<rparr>))"
    using blind_comp [OF blind_steered blind_updates(11)] unfolding blind_def by blast
  moreover have "own_view (steer_as_new_turn uuid (ca_start answer) prompt s) = own_view (steer_as_new_turn uuid (ca_start answer) prompt (own_view s))"
    using blind_new_turn unfolding blind_def by blast
  moreover have "own_view (s\<lparr>co_queue := q\<rparr>) = own_view ((own_view s)\<lparr>co_queue := q\<rparr>)" for q
    using blind_updates(6) unfolding blind_def by blast
  ultimately show "own_view (on_steer uuid answer prompt s) = own_view (on_steer uuid answer prompt (own_view s))"
    by (simp add: on_steer_def split: option.split)
qed

text \<open>A notification addressed to another thread, whatever its method.\<close>

definition child_input :: "string \<Rightarrow> codex_input \<times> codex_answer \<Rightarrow> bool" where
  "child_input thread x =
     (case fst x of
        Notification meth params \<Rightarrow> (case notification_thread_id meth params of Some t \<Rightarrow> t \<noteq> [] \<and> t \<noteq> thread | None \<Rightarrow> False)
      | _ \<Rightarrow> False)"

text \<open>What the table leaves to the session, the session does not know.\<close>

lemma on_own_unknown: "route_child_notification meth = RouteParent \<Longrightarrow> on_own uuid to_json answer meth params s = s"
  by (auto simp: route_child_notification_def on_own_def split: if_splits)

lemma seed_view [simp]: "own_view (seed_child meth params t s) = own_view s"
  by (simp add: own_view_def seed_child_def)

lemma child_step: "child_input (co_thread s) x \<Longrightarrow> own_view (codex_step uuid to_json x s) = own_view s"
proof -
  have sub: "filter (\<lambda>e. \<not> from_subagent e) (map (Subagent c) evs) = []" for c evs by (simp add: filter_empty_conv)
  assume "child_input (co_thread s) x"
  then obtain meth params answer t where x: "x = (Notification meth params, answer)" "foreign meth params s = Some t"
    by (cases x; cases "fst x") (auto simp: child_input_def foreign_def split: option.splits)
  have "own_view (on_notification uuid to_json answer meth params s) = own_view s"
    using x(2) seed_view [of meth params t s]
    by (cases "route_child_notification meth")
      (simp_all add: on_notification_def on_own_unknown Let_def own_view_def emit_def sub split: option.split)
  then show ?thesis by (simp add: codex_step_def x(1))
qed

lemma own_step:
  assumes "\<not> child_input (co_thread s) x" "own_view s = own_view s'"
  shows "own_view (codex_step uuid to_json x s) = own_view (codex_step uuid to_json x s')"
proof -
  have same: "co_thread s' = co_thread s" "co_running s' = co_running s" "co_open s' = co_open s" "co_interrupted s' = co_interrupted s"
    "co_router s' = co_router s" "co_queue s' = co_queue s"
    using assms(2) by (metis own_view_sel)+
  have view: "own_view (h s) = own_view (h s')" if "blind h" for h using that assms(2) unfolding blind_def by metis
  note upd = blind_updates(1,2,12) blind_comp [OF blind_updates(12) blind_updates(3)]
  obtain inp answer where x: "x = (inp, answer)" by (cases x)
  show ?thesis
  proof (cases inp)
    case (Notification meth params)
    have "foreign meth params s' = foreign meth params s" unfolding foreign_def same by (rule HOL.refl)
    moreover have "foreign meth params s = None"
      using assms(1) by (auto simp: x Notification child_input_def foreign_def split: option.splits if_splits)
    ultimately have "own_view (on_notification uuid to_json answer meth params s) = own_view (on_notification uuid to_json answer meth params s')"
      using view [OF blind_own] by (simp add: on_notification_def)
    then show ?thesis by (simp add: x Notification codex_step_def same assms(2))
  qed (simp_all add: x codex_step_def same assms(2) Let_def view [OF blind_steer] view [OF upd(1)] view [OF upd(2)] view [OF upd(3)]
      view [OF upd(4)] view [OF blind_comp [OF upd(3) upd(1)]] view [OF blind_comp [OF upd(3) upd(2)]])
qed

text \<open>
  C11. Child threads cannot touch their parent: with every notification that is addressed to another thread taken out of the
  input, whatever its method, the session's own events, its turns, its queue of messages and its end are exactly the same.
\<close>
theorem codex_subagents_isolated:
  "own_view (run_codex uuid to_json xs s) = own_view (run_codex uuid to_json (filter (\<lambda>x. \<not> child_input (co_thread s) x) xs) s)"
proof -
  have "own_view s = own_view s' \<Longrightarrow>
      own_view (run_codex uuid to_json xs s) = own_view (run_codex uuid to_json (filter (\<lambda>x. \<not> child_input (co_thread s) x) xs) s')" for s s'
  proof (induction xs arbitrary: s s')
    case (Cons x xs)
    have thread: "co_thread (codex_step uuid to_json x s) = co_thread s" using keeps_step by (simp add: keeps_def)
    show ?case
    proof (cases "child_input (co_thread s) x")
      case True
      then show ?thesis using Cons.IH [of "codex_step uuid to_json x s" s'] child_step [OF True] Cons.prems thread
        by (simp add: run_codex_def)
    next
      case False
      then show ?thesis using Cons.IH [OF own_step [OF False Cons.prems]] thread by (simp add: run_codex_def)
    qed
  qed (simp add: run_codex_def)
  then show ?thesis by simp
qed

section \<open>Messages to a running session\<close>

text \<open>The messages the loop takes from its mailbox.\<close>

definition takes :: "codex_input \<times> codex_answer \<Rightarrow> codex_run \<Rightarrow> string list" where
  "takes x s = (case fst x of SteerMessage prompt \<Rightarrow> if co_running s \<and> co_open s \<and> \<not> co_interrupted s then [prompt] else [] | _ \<Rightarrow> [])"

fun taken :: "(nat \<Rightarrow> string) \<Rightarrow> (json \<Rightarrow> string) \<Rightarrow> (codex_input \<times> codex_answer) list \<Rightarrow> codex_run \<Rightarrow> string list" where
  "taken uuid to_json [] s = []"
| "taken uuid to_json (x # xs) s = takes x s @ taken uuid to_json xs (codex_step uuid to_json x s)"

definition held :: "codex_run \<Rightarrow> string multiset" where
  "held s = mset (co_delivered s) + mset (co_queue s)"

definition holds_all :: "string list \<Rightarrow> codex_run \<Rightarrow> codex_run \<Rightarrow> bool" where
  "holds_all new s s' = (co_running s' \<longrightarrow> held s' = held s + mset new)"

lemma holds_all_if: "holds_all new s a \<Longrightarrow> holds_all new s b \<Longrightarrow> holds_all new s (if c then a else b)"
  by simp

lemma held_emit [simp]: "held (emit evs s) = held s" "co_running (emit evs s) = co_running s"
  by (simp_all add: held_def emit_def)

lemma new_turn_holds: "holds_all [prompt] s (steer_as_new_turn uuid answer prompt s)"
  by (simp add: holds_all_def held_def steer_as_new_turn_def run_defs split: sum.split)

lemma item_holds: "holds_all [] s (on_item uuid ph item s)"
  by (simp add: holds_all_def held_def on_item_def route_item_def complete_message_def register_child_def run_defs Let_def)

lemma after_done_holds: "holds_all [] s (after_done uuid answer s)"
proof (cases "co_queue s")
  case (Cons p ps)
  then show ?thesis
    using new_turn_holds [of p "s\<lparr>co_queue := ps\<rparr>" uuid "ca_start answer"]
    by (simp add: after_done_def holds_all_def held_def leave_loop_def)
qed (simp add: after_done_def holds_all_def held_def leave_loop_def)

lemma completed_holds: "holds_all [] s (on_turn_completed uuid to_json answer params s)"
proof -
  let ?u = "send_done to_json params (take_usage (s\<lparr>co_router := note_completed (turn_id params) (co_router s), co_streamed := []\<rparr>))"
  have "held ?u = held s" by (simp add: held_def send_done_def take_usage_def emit_def Let_def)
  then show ?thesis using after_done_holds [of ?u] by (simp add: on_turn_completed_def holds_all_def)
qed

lemma own_holds: "holds_all [] s (on_own uuid to_json answer meth params s)"
proof -
  have ended: "holds_all [] s (on_turn_failed to_json params s)" "holds_all [] s (on_turn_aborted params s)"
    by (simp_all add: holds_all_def on_turn_failed_def on_turn_aborted_def leave_loop_def Let_def)
  show ?thesis
    unfolding on_own_def
    by (intro holds_all_if item_holds completed_holds ended; simp add: holds_all_def held_def emit_def split: option.split)
qed

lemma seed_holds [simp]: "held (seed_child meth params t s) = held s"
  by (simp add: seed_child_def held_def)

lemma notification_holds: "holds_all [] s (on_notification uuid to_json answer meth params s)"
proof -
  have "holds_all [] s (on_own uuid to_json answer meth params (seed_child meth params t s))" for t
    using own_holds [of "seed_child meth params t s"] by (simp add: holds_all_def)
  then show ?thesis
    unfolding on_notification_def Let_def using own_holds [of s uuid to_json answer meth params]
    by (cases "foreign meth params s"; cases "route_child_notification meth") (simp_all add: holds_all_def split: option.split)
qed

lemma steer_holds: "holds_all [prompt] s (on_steer uuid answer prompt s)"
proof (cases "tr_active (co_router s)")
  case (Some a)
  have "holds_all [prompt] s (steered uuid (s\<lparr>co_delivered := co_delivered s @ [prompt]\<rparr>))"
    "holds_all [prompt] s (s\<lparr>co_queue := co_queue s @ [prompt]\<rparr>)"
    by (simp_all add: holds_all_def held_def run_defs)
  with Some show ?thesis unfolding on_steer_def by (simp add: new_turn_holds)
qed (simp add: on_steer_def new_turn_holds)

lemma step_holds: "co_running s \<Longrightarrow> holds_all (takes x s) s (codex_step uuid to_json x s)"
proof -
  obtain inp answer where x: "x = (inp, answer)" by (cases x)
  have simple: "holds_all [] s s" "holds_all [] s (leave_loop t)" "holds_all [] s (s\<lparr>co_open := b\<rparr>)" "holds_all [] s (s\<lparr>co_interrupted := b\<rparr>)" for t b
    by (simp_all add: holds_all_def held_def leave_loop_def)
  assume "co_running s"
  then show ?thesis
    unfolding codex_step_def x Let_def takes_def by (cases inp) (simp_all add: notification_holds steer_holds simple)
qed

lemma stopped_step: "\<not> co_running s \<Longrightarrow> codex_step uuid to_json x s = s"
  by (simp add: codex_step_def)

lemma stopped_run: "\<not> co_running s \<Longrightarrow> run_codex uuid to_json xs s = s"
  by (induction xs) (simp_all add: run_codex_def stopped_step)

text \<open>
  While a run goes on, no message to it is lost or doubled: those given to the app server and those queued are together
  exactly the first prompt and the messages taken from the mailbox.
\<close>
theorem codex_steers_conserved:
  assumes "s = run_codex uuid to_json xs s0" "co_running s"
  shows "mset (co_delivered s) + mset (co_queue s) = mset (co_delivered s0) + mset (co_queue s0) + mset (taken uuid to_json xs s0)"
proof -
  have "co_running (run_codex uuid to_json xs s0) \<Longrightarrow>
      held (run_codex uuid to_json xs s0) = held s0 + mset (taken uuid to_json xs s0)" for s0
  proof (induction xs arbitrary: s0)
    case (Cons x xs)
    let ?s = "codex_step uuid to_json x s0"
    have rest: "run_codex uuid to_json (x # xs) s0 = run_codex uuid to_json xs ?s" by (simp add: run_codex_def)
    have "co_running ?s" using Cons.prems stopped_run [of ?s] unfolding rest by metis
    moreover from this have "co_running s0" using stopped_step [of s0] by metis
    ultimately have "held ?s = held s0 + mset (takes x s0)" using step_holds [of s0] by (simp add: holds_all_def)
    then show ?case using Cons.IH [of ?s] Cons.prems unfolding rest by (simp add: ac_simps)
  qed (simp add: run_codex_def)
  with assms show ?thesis by (simp add: held_def)
qed

text \<open>
  A turn that fails takes the queue with it: the loop ends at once, and a message that waited for the end of that turn
  is never given to the app server, nor is its sender told.
\<close>
theorem codex_failed_turn_drops_queue:
  assumes "co_running s" "foreign ''turn/failed'' params s = None"
    and "s' = run_codex uuid to_json ((Notification ''turn/failed'' params, answer) # xs) s"
  shows "\<not> co_running s' \<and> co_queue s' = co_queue s \<and> co_delivered s' = co_delivered s \<and>
    (\<exists>status err. co_out (finish_run crash s') = co_out s @ opt_events id (co_usage s) @ [Done status None err (Some (co_thread s))])"
proof -
  let ?t = "on_turn_failed to_json params s"
  have "codex_step uuid to_json (Notification ''turn/failed'' params, answer) s = ?t"
    using assms(1,2) by (simp add: codex_step_def on_notification_def on_own_def)
  moreover have t: "\<not> co_running ?t" "co_queue ?t = co_queue s" "co_delivered ?t = co_delivered s"
    by (simp_all add: on_turn_failed_def run_defs Let_def)
  ultimately have "s' = ?t" using stopped_run [OF t(1)] by (simp add: assms(3) run_codex_def)
  moreover have "finish_run crash ?t = ?t"
    by (simp add: finish_run_def on_turn_failed_def run_defs Let_def)
  moreover have "\<exists>status err. co_out ?t = co_out s @ opt_events id (co_usage s) @ [Done status None err (Some (co_thread s))]"
    by (simp add: on_turn_failed_def run_defs Let_def)
  ultimately show ?thesis using t by simp
qed

section \<open>Consent\<close>

text \<open>
  A command or a file change is accepted only when the run approves everything by itself or the user answered this very
  question with a yes; silence, a bridge that is gone, an answer to another question and any other request never
  accept.
\<close>
theorem codex_accepts_only_on_yes:
  assumes "handle_server_request uuid ask auto_approve meth params = Inr (decision ''accept'')"
  shows "is_approval meth \<and> (auto_approve \<or>
    (\<exists>answers. ask [approval_question uuid meth params] = Some answers \<and> says_yes (uq_id (approval_question uuid meth params)) answers))"
proof (cases "meth = ''item/tool/requestUserInput''")
  case True
  then show ?thesis using assms by (auto simp: handle_server_request_def decision_def Let_def split: if_splits)
next
  case False
  show ?thesis
  proof (cases "ask [approval_question uuid meth params]")
    case None
    then show ?thesis using assms False
      by (auto simp: handle_server_request_def decision_def says_yes_def Let_def split: if_splits)
  next
    case (Some answers)
    then show ?thesis using assms False by (auto simp: handle_server_request_def decision_def Let_def split: if_splits)
  qed
qed

theorem codex_accepts_only_on_yes_witness:
  "handle_server_request (\<lambda>_. ''q1'') (\<lambda>_. Some [\<lparr>ans_question_id = ''q1'', ans_labels = [''YES'']\<rparr>]) False
     ''item/fileChange/requestApproval'' JNull = Inr (decision ''accept'') \<and> is_approval ''item/fileChange/requestApproval''"
proof -
  have "handle_server_request (\<lambda>_. ''q1'') (\<lambda>_. Some [\<lparr>ans_question_id = ''q1'', ans_labels = [''YES'']\<rparr>]) False
     ''item/fileChange/requestApproval'' JNull = Inr (decision ''accept'')" by code_simp
  with codex_accepts_only_on_yes [OF this] show ?thesis by simp
qed

section \<open>Concrete runs\<close>

definition sample_run :: codex_run where
  "sample_run = start_run (\<lambda>n. show_nat n) ''th'' None ''/'' ''hello'' ''t1''"

abbreviation refuses :: codex_answer where
  "refuses \<equiv> \<lparr>ca_steer_ok = False, ca_start = Inr ''t2''\<rparr>"

theorem codex_run_ends_done_witness:
  "list_ex is_done (co_out (finish_run ''gone'' (run_codex (\<lambda>n. show_nat n) (\<lambda>_. []) [(StdoutEof, refuses)] sample_run)))"
  using codex_run_ends_done [OF HOL.refl, of "\<lambda>n. show_nat n" "\<lambda>_. []" "[(StdoutEof, refuses)]" "''th''" None "''/''" "''hello''" "''t1''" "''gone''"]
  by (simp add: sample_run_def start_run_def run_codex_def codex_step_def leave_loop_def)

theorem codex_steers_conserved_witness:
  "mset (co_delivered (run_codex (\<lambda>n. show_nat n) (\<lambda>_. []) [(SteerMessage ''more'', refuses)] sample_run)) +
   mset (co_queue (run_codex (\<lambda>n. show_nat n) (\<lambda>_. []) [(SteerMessage ''more'', refuses)] sample_run)) = {#''hello'', ''more''#}"
  using codex_steers_conserved [OF HOL.refl, of "\<lambda>n. show_nat n" "\<lambda>_. []" "[(SteerMessage ''more'', refuses)]" sample_run]
  by (simp add: sample_run_def start_run_def run_codex_def codex_step_def on_steer_def adopt_started_def empty_router_def is_completed_def takes_def)

definition waiting_run :: codex_run where
  "waiting_run = run_codex (\<lambda>n. show_nat n) (\<lambda>_. []) [(SteerMessage ''more'', refuses)] sample_run"

theorem codex_failed_turn_drops_queue_witness:
  "co_queue waiting_run = [''more''] \<and>
   co_queue (run_codex (\<lambda>n. show_nat n) (\<lambda>_. []) [(Notification ''turn/failed'' (JObj []), refuses)] waiting_run) = [''more''] \<and>
   \<not> co_running (run_codex (\<lambda>n. show_nat n) (\<lambda>_. []) [(Notification ''turn/failed'' (JObj []), refuses)] waiting_run)"
proof -
  have w: "co_queue waiting_run = [''more'']" "co_running waiting_run" "foreign ''turn/failed'' (JObj []) waiting_run = None"
    by (simp_all add: waiting_run_def sample_run_def start_run_def run_codex_def codex_step_def on_steer_def adopt_started_def
        empty_router_def is_completed_def foreign_def notification_thread_id_def json_get_def)
  from codex_failed_turn_drops_queue [OF w(2,3) HOL.refl, of "\<lambda>n. show_nat n" "\<lambda>_. []" refuses "[]"] w(1) show ?thesis by simp
qed

end
