(* ===== verification/Json_Rpc.thy ===== *)
theory Json_Rpc
  imports Access Json_Value
begin

text \<open>
  The JSON-RPC client over an agent's standard streams (\<open>crates/harness/src/jsonrpc.rs\<close>), shared by the Codex and ACP
  adapters: the reader task that resolves the pending requests and forwards everything else through a channel of 256
  slots, and the session loop that drains the channel and awaits its own requests inside the loop. The lines of the
  agent are arbitrary; \<open>to_json\<close> is the text of a value.
\<close>

section \<open>Lines\<close>

datatype rpc_incoming =
    InNotification string json
  | InRequest json string json
  | InEof

text \<open>The id of a response, as a number or a numeric string.\<close>

definition response_id :: "json \<Rightarrow> int option" where
  "response_id i = (case as_i64 i of Some n \<Rightarrow> Some n | None \<Rightarrow> Option.bind (as_str i) parse_i64)"

datatype line_effect = Resolve int "string + json" | Forward rpc_incoming | SkipLine

definition response_outcome :: "(json \<Rightarrow> string) \<Rightarrow> json \<Rightarrow> string + json" where
  "response_outcome to_json msg =
     (case json_get msg ''error'' of
        Some err \<Rightarrow> Inl (case Option.bind (json_get err ''message'') as_str of Some m \<Rightarrow> m | None \<Rightarrow> to_json err)
      | None \<Rightarrow> Inr (case json_get msg ''result'' of Some r \<Rightarrow> r | None \<Rightarrow> JNull))"

definition classify_line :: "(json \<Rightarrow> string) \<Rightarrow> json \<Rightarrow> line_effect" where
  "classify_line to_json msg =
     (let params = (case json_get msg ''params'' of Some p \<Rightarrow> p | None \<Rightarrow> JNull)
      in case (Option.bind (json_get msg ''method'') as_str, json_get msg ''id'') of
           (None, Some i) \<Rightarrow> (case response_id i of Some n \<Rightarrow> Resolve n (response_outcome to_json msg) | None \<Rightarrow> SkipLine)
         | (Some meth, Some i) \<Rightarrow> Forward (InRequest i meth params)
         | (Some meth, None) \<Rightarrow> Forward (InNotification meth params)
         | (None, None) \<Rightarrow> SkipLine)"

text \<open>The lines the client writes.\<close>

definition request_line :: "int \<Rightarrow> string \<Rightarrow> json \<Rightarrow> json" where
  "request_line i meth params =
     JObj (mk_fields [(''jsonrpc'', JStr ''2.0''), (''id'', JNum i), (''method'', JStr meth), (''params'', params)])"

definition notify_line :: "string \<Rightarrow> json option \<Rightarrow> json" where
  "notify_line meth params =
     JObj (mk_fields ([(''jsonrpc'', JStr ''2.0''), (''method'', JStr meth)] @ (case params of Some p \<Rightarrow> [(''params'', p)] | None \<Rightarrow> [])))"

definition respond_line :: "json \<Rightarrow> json \<Rightarrow> json" where
  "respond_line i r = JObj (mk_fields [(''jsonrpc'', JStr ''2.0''), (''id'', i), (''result'', r)])"

definition respond_error_line :: "json \<Rightarrow> int \<Rightarrow> string \<Rightarrow> json" where
  "respond_error_line i code message =
     JObj (mk_fields [(''jsonrpc'', JStr ''2.0''), (''id'', i), (''error'', JObj (mk_fields [(''code'', JNum code), (''message'', JStr message)]))])"

section \<open>Reader, channel and loop\<close>

definition incoming_capacity :: nat where "incoming_capacity = 256"

text \<open>
  \<open>rp_blocked\<close> is what the reader waits to send, \<open>rp_resolved\<close> the outcomes handed to the requesters, \<open>rp_loop\<close> the
  request the session loop awaits, \<open>rp_seen\<close> what the loop took from the channel, \<open>rp_read\<close> what the reader had to
  forward so far.
\<close>

record rpc_state =
  rp_next :: int
  rp_pending :: "int list"
  rp_resolved :: "(int, string + json) btree"
  rp_queue :: "rpc_incoming list"
  rp_blocked :: "rpc_incoming option"
  rp_reader :: bool
  rp_writer :: bool
  rp_loop :: "int option"
  rp_seen :: "rpc_incoming list"
  rp_read :: "rpc_incoming list"

definition new_rpc :: rpc_state where
  "new_rpc = \<lparr>rp_next = 0, rp_pending = [], rp_resolved = [], rp_queue = [], rp_blocked = None, rp_reader = True, rp_writer = True,
     rp_loop = None, rp_seen = [], rp_read = []\<rparr>"

definition forward :: "rpc_incoming \<Rightarrow> rpc_state \<Rightarrow> rpc_state" where
  "forward i s =
     (let s = s\<lparr>rp_read := rp_read s @ [i]\<rparr>
      in if length (rp_queue s) < incoming_capacity then s\<lparr>rp_queue := rp_queue s @ [i]\<rparr> else s\<lparr>rp_blocked := Some i\<rparr>)"

definition resolve :: "int \<Rightarrow> string + json \<Rightarrow> rpc_state \<Rightarrow> rpc_state" where
  "resolve i out s =
     (if i \<in> set (rp_pending s)
      then s\<lparr>rp_pending := removeAll i (rp_pending s), rp_resolved := bt_insert i out (rp_resolved s)\<rparr> else s)"

definition on_line :: "(json \<Rightarrow> string) \<Rightarrow> json \<Rightarrow> rpc_state \<Rightarrow> rpc_state" where
  "on_line to_json msg s =
     (case classify_line to_json msg of Resolve i out \<Rightarrow> resolve i out s | Forward i \<Rightarrow> forward i s | SkipLine \<Rightarrow> s)"

definition exited :: string where "exited = ''app-server exited before responding''"

definition on_eof :: "rpc_state \<Rightarrow> rpc_state" where
  "on_eof s =
     forward InEof (s\<lparr>rp_reader := False, rp_pending := [],
       rp_resolved := fold (\<lambda>i. bt_insert i (Inl exited)) (rp_pending s) (rp_resolved s)\<rparr>)"

text \<open>A request draws the next id and, unless the writer is gone, becomes pending.\<close>

definition rpc_request :: "rpc_state \<Rightarrow> rpc_state \<times> int option" where
  "rpc_request s =
     (let i = rp_next s + 1; s = s\<lparr>rp_next := i\<rparr>
      in if rp_writer s then (s\<lparr>rp_pending := rp_pending s @ [i]\<rparr>, Some i) else (s, None))"

inductive rpc_step :: "(json \<Rightarrow> string) \<Rightarrow> rpc_state \<Rightarrow> rpc_state \<Rightarrow> bool" for to_json where
  read_line: "rp_reader s \<Longrightarrow> rp_blocked s = None \<Longrightarrow> rpc_step to_json s (on_line to_json msg s)"
| unblock: "rp_blocked s = Some i \<Longrightarrow> length (rp_queue s) < incoming_capacity \<Longrightarrow>
    rpc_step to_json s (s\<lparr>rp_queue := rp_queue s @ [i], rp_blocked := None\<rparr>)"
| read_eof: "rp_reader s \<Longrightarrow> rp_blocked s = None \<Longrightarrow> rpc_step to_json s (on_eof s)"
| writer_dies: "rpc_step to_json s (s\<lparr>rp_writer := False\<rparr>)"
| take_incoming: "rp_loop s = None \<Longrightarrow> rp_queue s = i # q \<Longrightarrow> rpc_step to_json s (s\<lparr>rp_queue := q, rp_seen := rp_seen s @ [i]\<rparr>)"
| loop_request: "rp_loop s = None \<Longrightarrow> rpc_step to_json s ((fst (rpc_request s))\<lparr>rp_loop := snd (rpc_request s)\<rparr>)"
| other_request: "rpc_step to_json s (fst (rpc_request s))"
| loop_resume: "rp_loop s = Some i \<Longrightarrow> bt_get (rp_resolved s) i = Some out \<Longrightarrow> rpc_step to_json s (s\<lparr>rp_loop := None\<rparr>)"

inductive rpc_steps :: "(json \<Rightarrow> string) \<Rightarrow> rpc_state \<Rightarrow> rpc_state \<Rightarrow> bool" for to_json where
  no_steps: "rpc_steps to_json s s"
| more_steps: "rpc_steps to_json s s' \<Longrightarrow> rpc_step to_json s' s'' \<Longrightarrow> rpc_steps to_json s s''"

section \<open>Answers find their request\<close>

definition rpc_ok :: "rpc_state \<Rightarrow> bool" where
  "rpc_ok s =
     ((\<forall>i \<in> set (rp_pending s). i \<le> rp_next s \<and> bt_get (rp_resolved s) i = None) \<and>
      (\<forall>i. bt_get (rp_resolved s) i \<noteq> None \<longrightarrow> i \<le> rp_next s) \<and>
      rp_seen s @ rp_queue s @ (case rp_blocked s of Some i \<Rightarrow> [i] | None \<Rightarrow> []) = rp_read s \<and>
      length (rp_queue s) \<le> incoming_capacity)"

lemma rpc_ok_new: "rpc_ok new_rpc"
  by (simp add: rpc_ok_def new_rpc_def)

lemma bt_get_fold_insert:
  "bt_get (fold (\<lambda>i. bt_insert i v) is m) k = (if k \<in> set is then Some v else bt_get m k)"
  by (induction "is" arbitrary: m) auto

lemma rpc_ok_forward:
  assumes "rpc_ok s" "rp_blocked s = None"
  shows "rpc_ok (forward i s)"
  using assms by (auto simp: rpc_ok_def forward_def Let_def)

lemma rpc_ok_step:
  assumes "rpc_step to_json s s'" "rpc_ok s"
  shows "rpc_ok s'"
  using assms(1)
proof cases
  case (read_line msg)
  then show ?thesis
    using assms(2) rpc_ok_forward by (auto simp: on_line_def resolve_def rpc_ok_def split: line_effect.split)
next
  case read_eof
  have "rpc_ok (s\<lparr>rp_reader := False, rp_pending := [], rp_resolved := fold (\<lambda>i. bt_insert i (Inl exited)) (rp_pending s) (rp_resolved s)\<rparr>)"
    using assms(2) by (auto simp: rpc_ok_def bt_get_fold_insert split: if_splits)
  then show ?thesis using read_eof rpc_ok_forward by (simp add: on_eof_def)
next
  case loop_request
  then show ?thesis using assms(2) by (fastforce simp: rpc_ok_def rpc_request_def Let_def)
next
  case other_request
  then show ?thesis using assms(2) by (fastforce simp: rpc_ok_def rpc_request_def Let_def)
qed (use assms(2) in \<open>auto simp: rpc_ok_def\<close>)

lemma rpc_ok_reachable: "rpc_steps to_json new_rpc s \<Longrightarrow> rpc_ok s"
  by (induction new_rpc s rule: rpc_steps.induct) (auto simp: rpc_ok_new rpc_ok_step)

text \<open>
  Through any interleaving of the tasks, the loop sees what the agent sent in the order it was sent, with nothing lost
  or doubled: what it took, what waits in the channel and what the reader holds are together what was read; and the
  channel never holds more than its capacity.
\<close>
theorem rpc_delivers_in_order:
  assumes "rpc_steps to_json new_rpc s"
  shows "rp_seen s @ rp_queue s @ (case rp_blocked s of Some i \<Rightarrow> [i] | None \<Rightarrow> []) = rp_read s \<and> length (rp_queue s) \<le> incoming_capacity"
  using rpc_ok_reachable [OF assms] by (simp add: rpc_ok_def)

text \<open>
  An answer is final and belongs to its request: a step never changes the outcome a request got, and a request gets one
  only while it is pending, from a line that names its id or because the agent is gone.
\<close>
theorem rpc_answers_matched:
  assumes "rpc_steps to_json new_rpc s" "rpc_step to_json s s'" "bt_get (rp_resolved s') i = Some out"
  shows "bt_get (rp_resolved s) i = Some out \<or>
    bt_get (rp_resolved s) i = None \<and> i \<in> set (rp_pending s) \<and> i \<notin> set (rp_pending s') \<and>
      (out = Inl exited \<and> \<not> rp_reader s' \<or> (\<exists>msg. classify_line to_json msg = Resolve i out))"
proof -
  have unanswered: "bt_get (rp_resolved s) k = None" if "k \<in> set (rp_pending s)" for k
    using rpc_ok_reachable [OF assms(1)] that by (simp add: rpc_ok_def)
  from assms(2) show ?thesis
  proof cases
    case (read_line msg)
    show ?thesis
    proof (cases "classify_line to_json msg")
      case (Resolve k out')
      then show ?thesis
        using read_line assms(3) unanswered by (auto simp: on_line_def resolve_def split: if_splits)
    qed (use read_line assms(3) in \<open>simp_all add: on_line_def forward_def Let_def split: if_splits\<close>)
  next
    case read_eof
    then show ?thesis
      using assms(3) unanswered by (auto simp: on_eof_def forward_def bt_get_fold_insert Let_def split: if_splits)
  qed (use assms(3) in \<open>simp_all add: rpc_request_def Let_def split: if_splits\<close>)
qed

section \<open>Waits that never end\<close>

text \<open>
  The loop awaits an answer that cannot come any more: the reader itself waits for room in the channel the loop does not
  drain, or the reader is gone.
\<close>

definition hopeless :: "int \<Rightarrow> rpc_state \<Rightarrow> bool" where
  "hopeless i s =
     (rp_loop s = Some i \<and> bt_get (rp_resolved s) i = None \<and>
      (\<not> rp_reader s \<or> (rp_blocked s \<noteq> None \<and> incoming_capacity \<le> length (rp_queue s))))"

lemma hopeless_step: "rpc_step to_json s s' \<Longrightarrow> hopeless i s \<Longrightarrow> hopeless i s' \<and> rp_seen s' = rp_seen s"
  by (induction rule: rpc_step.induct) (auto simp: hopeless_def rpc_request_def Let_def)

text \<open>
  A wait that never ends: from such a state no sequence of steps gives the loop its answer, and the loop never sees
  another message, the end of the stream included.
\<close>
theorem rpc_waits_forever:
  assumes "rpc_steps to_json s s'" "hopeless i s"
  shows "rp_loop s' = Some i \<and> rp_seen s' = rp_seen s"
proof -
  from assms have "hopeless i s' \<and> rp_seen s' = rp_seen s"
    by (induction s s' rule: rpc_steps.induct) (auto dest: hopeless_step)
  then show ?thesis by (simp add: hopeless_def)
qed

section \<open>Concrete runs\<close>

abbreviation delta_line :: json where
  "delta_line \<equiv> JObj [(''method'', JStr ''delta'')]"

definition flooded :: "nat \<Rightarrow> rpc_state" where
  "flooded n = new_rpc\<lparr>rp_next := 1, rp_pending := [1], rp_loop := Some 1, rp_queue := replicate n (InNotification ''delta'' JNull),
     rp_read := replicate n (InNotification ''delta'' JNull)\<rparr>"

definition jam :: rpc_state where
  "jam = (flooded 256)\<lparr>rp_blocked := Some (InNotification ''delta'' JNull), rp_read := replicate 257 (InNotification ''delta'' JNull)\<rparr>"

lemma delta_line_forwards: "classify_line to_json delta_line = Forward (InNotification ''delta'' JNull)"
  by (simp add: classify_line_def json_get_def bt_get_def)

lemma flooded_reachable: "n \<le> 256 \<Longrightarrow> rpc_steps to_json new_rpc (flooded n)"
proof (induction n)
  case 0
  have "flooded 0 = (fst (rpc_request new_rpc))\<lparr>rp_loop := snd (rpc_request new_rpc)\<rparr>"
    by (simp add: flooded_def rpc_request_def new_rpc_def)
  then show ?case using rpc_steps.more_steps [OF rpc_steps.no_steps rpc_step.loop_request, of new_rpc] by (simp add: new_rpc_def)
next
  case (Suc n)
  have "on_line to_json delta_line (flooded n) = flooded (Suc n)"
    using Suc.prems by (simp add: on_line_def delta_line_forwards forward_def flooded_def new_rpc_def incoming_capacity_def replicate_append_same)
  moreover have "rp_reader (flooded n)" "rp_blocked (flooded n) = None" by (simp_all add: flooded_def new_rpc_def)
  ultimately show ?case using rpc_steps.more_steps [OF _ rpc_step.read_line, of to_json new_rpc "flooded n" delta_line] Suc by simp
qed

lemma jam_reachable: "rpc_steps to_json new_rpc jam"
proof -
  have "on_line to_json delta_line (flooded 256) = jam"
    by (simp add: on_line_def delta_line_forwards forward_def jam_def flooded_def new_rpc_def incoming_capacity_def replicate_append_same
        flip: replicate_Suc)
  moreover have "rp_reader (flooded 256)" "rp_blocked (flooded 256) = None" by (simp_all add: flooded_def new_rpc_def)
  ultimately show ?thesis
    using rpc_steps.more_steps [OF flooded_reachable rpc_step.read_line, of 256 to_json delta_line] by simp
qed

text \<open>A request made after the stream ended, before the loop took the end from the channel.\<close>

definition late :: rpc_state where
  "late = (fst (rpc_request (on_eof new_rpc)))\<lparr>rp_loop := snd (rpc_request (on_eof new_rpc))\<rparr>"

lemma late_reachable: "rpc_steps to_json new_rpc late"
proof -
  have "rpc_steps to_json new_rpc (on_eof new_rpc)"
    by (rule rpc_steps.more_steps [OF rpc_steps.no_steps rpc_step.read_eof]) (simp_all add: new_rpc_def)
  moreover have "rpc_step to_json (on_eof new_rpc) late"
    unfolding late_def by (rule rpc_step.loop_request) (simp add: on_eof_def forward_def new_rpc_def Let_def)
  ultimately show ?thesis by (rule rpc_steps.more_steps)
qed

theorem rpc_delivers_in_order_witness:
  "rp_seen (flooded 3) @ rp_queue (flooded 3) @ (case rp_blocked (flooded 3) of Some i \<Rightarrow> [i] | None \<Rightarrow> []) = rp_read (flooded 3)"
  using rpc_delivers_in_order [OF flooded_reachable [of 3 "\<lambda>_. []"]] by simp

theorem rpc_answers_matched_witness:
  "bt_get (rp_resolved (on_eof (flooded 0))) 1 = Some (Inl exited) \<and> 1 \<in> set (rp_pending (flooded 0))"
proof -
  have "rpc_step (\<lambda>_. []) (flooded 0) (on_eof (flooded 0))"
    by (rule rpc_step.read_eof) (simp_all add: flooded_def new_rpc_def)
  moreover have "bt_get (rp_resolved (on_eof (flooded 0))) 1 = Some (Inl exited)"
    by (simp add: on_eof_def forward_def flooded_def new_rpc_def incoming_capacity_def bt_get_def)
  ultimately show ?thesis
    using rpc_answers_matched [OF flooded_reachable [of 0 "\<lambda>_. []"]] by (fastforce simp: flooded_def new_rpc_def)
qed

theorem rpc_waits_forever_witness:
  "rpc_steps (\<lambda>_. []) new_rpc jam \<and> hopeless 1 jam \<and> rp_loop (jam\<lparr>rp_writer := False\<rparr>) = Some 1 \<and>
   rpc_steps (\<lambda>_. []) new_rpc late \<and> hopeless 1 late \<and> rp_loop (late\<lparr>rp_writer := False\<rparr>) = Some 1"
proof -
  have h: "hopeless 1 jam" "hopeless 1 late"
    by (simp_all add: hopeless_def jam_def late_def flooded_def on_eof_def forward_def rpc_request_def new_rpc_def incoming_capacity_def)
  have "rpc_steps (\<lambda>_. []) s (s\<lparr>rp_writer := False\<rparr>)" for s
    by (rule rpc_steps.more_steps [OF rpc_steps.no_steps rpc_step.writer_dies])
  from rpc_waits_forever [OF this h(1)] rpc_waits_forever [OF this h(2)] h jam_reachable late_reachable show ?thesis by blast
qed

end
