(* ===== verification/Rpc_Core.thy ===== *)
theory Rpc_Core
  imports Parts Json_Value
begin

text \<open>
  The typed RPC between the user interface and engines (\<open>crates/rpc/src/lib.rs\<close>, \<open>server.rs\<close>, \<open>client.rs\<close>): the frames
  and their JSON, the frames a server sends for the reply of a service, the dispatch of a connection, and the client
  that routes them to calls and subscriptions. A service is a parameter: what it replies to a request.
  A stream is the list of items it has produced so far and whether it ended. The queue of a subscription is taken to have
  room: the reader otherwise waits for its consumer and routes nothing meanwhile.
\<close>

section \<open>Frames\<close>

datatype rpc_error =
    UnknownMethod string
  | BadParams string
  | Failed string
  | Transport string
  | ConnClosed

fun rpc_error_text :: "rpc_error \<Rightarrow> string" where
  "rpc_error_text (UnknownMethod m) = ''unknown method: '' @ m"
| "rpc_error_text (BadParams m) = ''bad params: '' @ m"
| "rpc_error_text (Failed m) = m"
| "rpc_error_text (Transport m) = ''transport: '' @ m"
| "rpc_error_text ConnClosed = ''connection closed''"

record rpc_client_frame =
  cf_id :: nat
  cf_method :: "string option"
  cf_params :: json
  cf_cancel :: bool

record rpc_server_frame =
  sv_id :: nat
  sv_ok :: "json option"
  sv_err :: "string option"
  sv_item :: "json option"
  sv_done :: bool

definition blank_frame :: "nat \<Rightarrow> rpc_server_frame" where
  "blank_frame i = \<lparr>sv_id = i, sv_ok = None, sv_err = None, sv_item = None, sv_done = False\<rparr>"

text \<open>What serde writes and reads; absent fields are left out, and a null is read as an absent optional field.\<close>

definition client_frame_to_value :: "rpc_client_frame \<Rightarrow> json" where
  "client_frame_to_value f = JObj (mk_fields ([(''id'', JNum (int (cf_id f)))] @ skip_none ''method'' (map_option JStr (cf_method f)) @
     (if is_null (cf_params f) then [] else [(''params'', cf_params f)]) @ (if cf_cancel f then [(''cancel'', JBool True)] else [])))"

fun parse_client_frame :: "json \<Rightarrow> rpc_client_frame option" where
  "parse_client_frame (JObj fs) = do {
     i \<leftarrow> req (as_uint 64) fs ''id'';
     meth \<leftarrow> opt as_str fs ''method'';
     params \<leftarrow> dflt JNull Some fs ''params'';
     cancel \<leftarrow> dflt False as_bool fs ''cancel'';
     Some \<lparr>cf_id = i, cf_method = meth, cf_params = params, cf_cancel = cancel\<rparr> }"
| "parse_client_frame _ = None"

definition server_frame_to_value :: "rpc_server_frame \<Rightarrow> json" where
  "server_frame_to_value f = JObj (mk_fields ([(''id'', JNum (int (sv_id f)))] @ skip_none ''ok'' (sv_ok f) @
     skip_none ''err'' (map_option JStr (sv_err f)) @ skip_none ''item'' (sv_item f) @
     (if sv_done f then [(''done'', JBool True)] else [])))"

fun parse_server_frame :: "json \<Rightarrow> rpc_server_frame option" where
  "parse_server_frame (JObj fs) = do {
     i \<leftarrow> req (as_uint 64) fs ''id'';
     okv \<leftarrow> opt Some fs ''ok'';
     err \<leftarrow> opt as_str fs ''err'';
     item \<leftarrow> opt Some fs ''item'';
     fin \<leftarrow> dflt False as_bool fs ''done'';
     Some \<lparr>sv_id = i, sv_ok = okv, sv_err = err, sv_item = item, sv_done = fin\<rparr> }"
| "parse_server_frame _ = None"

section \<open>The server\<close>

datatype rpc_reply = ReplyValue json | ReplyStream "json list" bool

definition watch_checkout_change_request :: string where
  "watch_checkout_change_request = ''WatchCheckoutChangeRequest''"

text \<open>The frames of one request; only one stream method announces itself first.\<close>

definition handle_request :: "nat \<Rightarrow> string \<Rightarrow> rpc_error + rpc_reply \<Rightarrow> rpc_server_frame list" where
  "handle_request i meth reply =
     (case reply of
        Inr (ReplyValue v) \<Rightarrow> [(blank_frame i)\<lparr>sv_ok := Some v\<rparr>]
      | Inr (ReplyStream items ended) \<Rightarrow>
          (if meth = watch_checkout_change_request
           then [(blank_frame i)\<lparr>sv_ok := Some (JObj [(''stream'', JBool True)])\<rparr>] else []) @
          map (\<lambda>item. (blank_frame i)\<lparr>sv_item := Some item\<rparr>) items @
          (if ended then [(blank_frame i)\<lparr>sv_done := True\<rparr>] else [])
      | Inl err \<Rightarrow> [(blank_frame i)\<lparr>sv_err := Some (rpc_error_text err)\<rparr>])"

text \<open>The tasks a connection runs, by request id; those that ended are dropped before each frame.\<close>

datatype rpc_dispatch = Spawn nat string json | Abort nat | NoDispatch

definition dispatch_frame :: "(nat \<Rightarrow> bool) \<Rightarrow> rpc_client_frame \<Rightarrow> nat list \<Rightarrow> nat list \<times> rpc_dispatch" where
  "dispatch_frame finished f running =
     (let running = filter (\<lambda>i. \<not> finished i) running
      in if cf_cancel f then
           (if cf_id f \<in> set running then (filter (\<lambda>i. i \<noteq> cf_id f) running, Abort (cf_id f)) else (running, NoDispatch))
         else (case cf_method f of
                 None \<Rightarrow> (running, NoDispatch)
               | Some meth \<Rightarrow> (List.insert (cf_id f) running, Spawn (cf_id f) meth (cf_params f))))"

section \<open>The client\<close>

text \<open>A checked stream also knows whether its acknowledgement is still awaited.\<close>

datatype rpc_pending = PendCall | PendStream | PendChecked bool

text \<open>
  \<open>rk_calls\<close> and \<open>rk_ready\<close> hold what the waiting callers were given, \<open>rk_items\<close> what was put into the queue of a
  stream; a stream that is no longer pending has its queue closed. \<open>rk_gone\<close> lists the streams whose receiver was
  dropped.
\<close>

record rpc_client =
  rk_next :: nat
  rk_pending :: "(nat, rpc_pending) btree"
  rk_calls :: "(nat, rpc_error + json) btree"
  rk_ready :: "(nat, rpc_error + unit) btree"
  rk_items :: "(nat, json list) btree"
  rk_gone :: "nat list"
  rk_sent :: "rpc_client_frame list"

definition new_rpc_client :: rpc_client where
  "new_rpc_client = \<lparr>rk_next = 1, rk_pending = [], rk_calls = [], rk_ready = [], rk_items = [], rk_gone = [], rk_sent = []\<rparr>"

text \<open>
  A request: its id is drawn, its entry stored and its frame sent; when the channel is closed the entry goes again and
  the caller gets an error. The result is the id its answers will carry.
\<close>

definition invoke :: "bool \<Rightarrow> rpc_pending \<Rightarrow> string \<Rightarrow> json \<Rightarrow> rpc_client \<Rightarrow> rpc_client \<times> (rpc_error + nat)" where
  "invoke is_open p meth params c =
     (let i = rk_next c;
          c = c\<lparr>rk_next := i + 1, rk_pending := bt_insert i p (rk_pending c)\<rparr>
      in if is_open
         then (c\<lparr>rk_sent := rk_sent c @ [\<lparr>cf_id = i, cf_method = Some meth, cf_params = params, cf_cancel = False\<rparr>]\<rparr>, Inr i)
         else (c\<lparr>rk_pending := bt_remove i (rk_pending c)\<rparr>, Inl ConnClosed))"

definition rpc_call :: "bool \<Rightarrow> string \<Rightarrow> json \<Rightarrow> rpc_client \<Rightarrow> rpc_client \<times> (rpc_error + nat)" where
  "rpc_call is_open = invoke is_open PendCall"

definition rpc_subscribe :: "bool \<Rightarrow> string \<Rightarrow> json \<Rightarrow> rpc_client \<Rightarrow> rpc_client \<times> (rpc_error + nat)" where
  "rpc_subscribe is_open = invoke is_open PendStream"

definition rpc_subscribe_checked :: "bool \<Rightarrow> string \<Rightarrow> json \<Rightarrow> rpc_client \<Rightarrow> rpc_client \<times> (rpc_error + nat)" where
  "rpc_subscribe_checked is_open = invoke is_open (PendChecked True)"

definition cancel_frame :: "nat \<Rightarrow> rpc_client_frame" where
  "cancel_frame i = \<lparr>cf_id = i, cf_method = None, cf_params = JNull, cf_cancel = True\<rparr>"

text \<open>Dropping a checked subscription cancels it at once; dropping a plain receiver is noticed at the next item.\<close>

definition drop_subscription :: "nat \<Rightarrow> rpc_client \<Rightarrow> rpc_client" where
  "drop_subscription i c =
     (if bt_contains (rk_pending c) i
      then c\<lparr>rk_pending := bt_remove i (rk_pending c), rk_sent := rk_sent c @ [cancel_frame i], rk_gone := i # rk_gone c\<rparr>
      else c\<lparr>rk_gone := i # rk_gone c\<rparr>)"

definition drop_receiver :: "nat \<Rightarrow> rpc_client \<Rightarrow> rpc_client" where
  "drop_receiver i c = c\<lparr>rk_gone := i # rk_gone c\<rparr>"

definition wire_error :: "string \<Rightarrow> rpc_error" where
  "wire_error e = (if prefix ''unknown method: '' e then UnknownMethod (drop (length ''unknown method: '') e) else Failed e)"

definition forget :: "nat \<Rightarrow> rpc_client \<Rightarrow> rpc_client" where
  "forget i c = c\<lparr>rk_pending := bt_remove i (rk_pending c)\<rparr>"

definition acknowledge :: "nat \<Rightarrow> rpc_error + unit \<Rightarrow> rpc_client \<Rightarrow> rpc_client" where
  "acknowledge i r c = c\<lparr>rk_ready := bt_insert i r (rk_ready c)\<rparr>"

definition queue_item :: "nat \<Rightarrow> json \<Rightarrow> rpc_client \<Rightarrow> rpc_client" where
  "queue_item i item c =
     c\<lparr>rk_items := bt_insert i ((case bt_get (rk_items c) i of Some xs \<Rightarrow> xs | None \<Rightarrow> []) @ [item]) (rk_items c)\<rparr>"

definition route_frame :: "rpc_server_frame \<Rightarrow> rpc_client \<Rightarrow> rpc_client" where
  "route_frame f c =
     (let i = sv_id f in
      case sv_err f of
        Some e \<Rightarrow>
          (case bt_get (rk_pending c) i of
             Some PendCall \<Rightarrow> (forget i c)\<lparr>rk_calls := bt_insert i (Inl (wire_error e)) (rk_calls c)\<rparr>
           | Some (PendChecked True) \<Rightarrow> acknowledge i (Inl (wire_error e)) (forget i c)
           | _ \<Rightarrow> forget i c)
      | None \<Rightarrow>
          (case sv_ok f of
             Some v \<Rightarrow>
               (case bt_get (rk_pending c) i of
                  Some PendCall \<Rightarrow> (forget i c)\<lparr>rk_calls := bt_insert i (Inr v) (rk_calls c)\<rparr>
                | Some (PendChecked True) \<Rightarrow>
                    acknowledge i (Inr ()) (c\<lparr>rk_pending := bt_insert i (PendChecked False) (rk_pending c)\<rparr>)
                | _ \<Rightarrow> c)
           | None \<Rightarrow>
               (case sv_item f of
                  Some item \<Rightarrow>
                    (let c = (case bt_get (rk_pending c) i of
                                Some (PendChecked True) \<Rightarrow>
                                  acknowledge i (Inr ()) (c\<lparr>rk_pending := bt_insert i (PendChecked False) (rk_pending c)\<rparr>)
                              | _ \<Rightarrow> c)
                     in case bt_get (rk_pending c) i of
                          None \<Rightarrow> c
                        | Some PendCall \<Rightarrow> c
                        | Some _ \<Rightarrow>
                            if i \<in> set (rk_gone c) then (forget i c)\<lparr>rk_sent := rk_sent c @ [cancel_frame i]\<rparr>
                            else queue_item i item c)
                | None \<Rightarrow>
                    if sv_done f then
                      (case bt_get (rk_pending c) i of
                         Some (PendChecked True) \<Rightarrow> acknowledge i (Inr ()) (forget i c)
                       | Some PendCall \<Rightarrow> (forget i c)\<lparr>rk_calls := bt_insert i (Inl ConnClosed) (rk_calls c)\<rparr>
                       | _ \<Rightarrow> forget i c)
                    else c)))"

text \<open>A frame that arrives as JSON; what does not parse is dropped.\<close>

definition receive :: "json \<Rightarrow> rpc_client \<Rightarrow> rpc_client" where
  "receive j c = (case parse_server_frame j of Some f \<Rightarrow> route_frame f c | None \<Rightarrow> c)"

text \<open>The connection closed: everything that waits for an answer fails.\<close>

definition close_client :: "rpc_client \<Rightarrow> rpc_client" where
  "close_client c =
     c\<lparr>rk_pending := [],
       rk_calls := fold (\<lambda>(i, p). if p = PendCall then bt_insert i (Inl ConnClosed) else id) (rk_pending c) (rk_calls c),
       rk_ready := fold (\<lambda>(i, p). if p = PendChecked True then bt_insert i (Inl ConnClosed) else id) (rk_pending c) (rk_ready c)\<rparr>"

section \<open>Frames read back\<close>

lemma parse_client_frame_back:
  assumes "cf_id f < 2 ^ 64"
  shows "parse_client_frame (client_frame_to_value f) = Some f"
proof (cases f)
  case (fields i m ps c)
  then show ?thesis using assms
    by (cases m; cases c; cases "is_null ps")
      (auto simp: client_frame_to_value_def req_def opt_def opt_of_def dflt_def fields_get skip_none_def elim!: is_null.elims)
qed

definition no_null :: "rpc_server_frame \<Rightarrow> bool" where
  "no_null f = (sv_ok f \<noteq> Some JNull \<and> sv_item f \<noteq> Some JNull)"

definition drop_null :: "json option \<Rightarrow> json option" where
  "drop_null v = (if v = Some JNull then None else v)"

lemma parse_server_frame_back:
  assumes "sv_id f < 2 ^ 64"
  shows "parse_server_frame (server_frame_to_value f) = Some (f\<lparr>sv_ok := drop_null (sv_ok f), sv_item := drop_null (sv_item f)\<rparr>)"
proof (cases f)
  case (fields i okv err item fin)
  have null: "is_null j \<Longrightarrow> j = JNull" for j by (cases j) auto
  show ?thesis using assms fields
    by (cases okv; cases err; cases item; cases fin)
      (auto simp: server_frame_to_value_def req_def opt_def opt_of_def dflt_def fields_get skip_none_def drop_null_def dest: null)
qed

text \<open>
  Frames read back: every frame of a client, and every frame of a server whose payload is not null, is the same after it
  was written as JSON and read again.
\<close>
theorem rpc_frames_roundtrip:
  "(cf_id f < 2 ^ 64 \<longrightarrow> parse_client_frame (client_frame_to_value f) = Some f) \<and>
   (sv_id g < 2 ^ 64 \<and> no_null g \<longrightarrow> parse_server_frame (server_frame_to_value g) = Some g)"
  using parse_client_frame_back [of f] parse_server_frame_back [of g] by (cases g) (auto simp: no_null_def drop_null_def)

theorem rpc_frames_roundtrip_witness:
  "parse_client_frame (client_frame_to_value \<lparr>cf_id = 7, cf_method = Some ''Echo'', cf_params = JStr ''x'', cf_cancel = False\<rparr>) =
     Some \<lparr>cf_id = 7, cf_method = Some ''Echo'', cf_params = JStr ''x'', cf_cancel = False\<rparr> \<and>
   parse_server_frame (server_frame_to_value ((blank_frame 7)\<lparr>sv_item := Some (JNum 3)\<rparr>)) = Some ((blank_frame 7)\<lparr>sv_item := Some (JNum 3)\<rparr>)"
  using rpc_frames_roundtrip [of "\<lparr>cf_id = 7, cf_method = Some ''Echo'', cf_params = JStr ''x'', cf_cancel = False\<rparr>"
      "(blank_frame 7)\<lparr>sv_item := Some (JNum 3)\<rparr>"]
  by (simp add: no_null_def blank_frame_def)

section \<open>Calls and streams\<close>

lemma receive_frame:
  assumes "sv_id f < 2 ^ 64"
  shows "receive (server_frame_to_value f) c = route_frame (f\<lparr>sv_ok := drop_null (sv_ok f), sv_item := drop_null (sv_item f)\<rparr>) c"
  using parse_server_frame_back [OF assms] by (simp add: receive_def)

definition receive_all :: "rpc_server_frame list \<Rightarrow> rpc_client \<Rightarrow> rpc_client" where
  "receive_all fs c = fold (\<lambda>f. receive (server_frame_to_value f)) fs c"

lemma wire_error_back: "wire_error (rpc_error_text (UnknownMethod m)) = UnknownMethod m"
  by (simp add: wire_error_def)

text \<open>
  A call is answered: while it is pending, the frames of the server's reply give its caller the value of the service, or
  the error it reported (an unknown method as such), and the call is no longer pending.
\<close>
theorem rpc_call_answered:
  assumes "bt_get (rk_pending c) i = Some PendCall" "i < 2 ^ 64"
    and "c' = receive_all (handle_request i meth reply) c" "reply = Inl e \<or> reply = Inr (ReplyValue v) \<and> v \<noteq> JNull"
  shows "bt_get (rk_pending c') i = None \<and>
    bt_get (rk_calls c') i = Some (case reply of Inl e \<Rightarrow> Inl (wire_error (rpc_error_text e)) | Inr _ \<Rightarrow> Inr v)"
  using assms by (auto simp: receive_all_def handle_request_def receive_frame route_frame_def blank_frame_def drop_null_def forget_def)

theorem rpc_call_answered_witness:
  "bt_get (rk_calls (receive_all (handle_request 1 ''Echo'' (Inr (ReplyValue (JNum 3)))) (fst (rpc_call True ''Echo'' JNull new_rpc_client)))) 1 =
     Some (Inr (JNum 3))"
  using rpc_call_answered [of "fst (rpc_call True ''Echo'' JNull new_rpc_client)" 1, OF _ _ HOL.refl, of "Inr (ReplyValue (JNum 3))" "Failed []" "JNum 3" "''Echo''"]
  by (simp add: rpc_call_def invoke_def Let_def new_rpc_client_def bt_get_def)

text \<open>
  A null is lost on the way: the reply is written with a null field, which the client reads as no field, so the caller
  is given nothing and stays pending.
\<close>
theorem rpc_null_reply_lost:
  assumes "i < 2 ^ 64"
  shows "receive_all (handle_request i meth (Inr (ReplyValue JNull))) c = c"
  using assms by (simp add: receive_all_def handle_request_def receive_frame route_frame_def blank_frame_def drop_null_def)

theorem rpc_null_reply_lost_witness:
  "receive_all (handle_request 1 ''Echo'' (Inr (ReplyValue JNull))) (fst (rpc_call True ''Echo'' JNull new_rpc_client)) = fst (rpc_call True ''Echo'' JNull new_rpc_client)"
  using rpc_null_reply_lost [of 1] by simp

lemma stream_items:
  assumes "bt_get (rk_pending c) i = Some PendStream" "i < 2 ^ 64" "i \<notin> set (rk_gone c)" "JNull \<notin> set items"
  shows "\<exists>c'. receive_all (map (\<lambda>item. (blank_frame i)\<lparr>sv_item := Some item\<rparr>) items) c = c' \<and>
    bt_get (rk_pending c') i = Some PendStream \<and> i \<notin> set (rk_gone c') \<and>
    (case bt_get (rk_items c') i of Some xs \<Rightarrow> xs | None \<Rightarrow> []) = (case bt_get (rk_items c) i of Some xs \<Rightarrow> xs | None \<Rightarrow> []) @ items"
  using assms
proof (induction items arbitrary: c)
  case (Cons x xs)
  let ?c = "queue_item i x c"
  have "x \<noteq> JNull" using Cons.prems(4) by auto
  then have step: "receive (server_frame_to_value ((blank_frame i)\<lparr>sv_item := Some x\<rparr>)) c = ?c"
    using Cons.prems(1-3) by (simp add: receive_frame route_frame_def blank_frame_def drop_null_def Let_def)
  have "bt_get (rk_pending ?c) i = Some PendStream" "i \<notin> set (rk_gone ?c)"
    "(case bt_get (rk_items ?c) i of Some ys \<Rightarrow> ys | None \<Rightarrow> []) = (case bt_get (rk_items c) i of Some ys \<Rightarrow> ys | None \<Rightarrow> []) @ [x]"
    using Cons.prems by (auto simp: queue_item_def split: option.split)
  with Cons.IH [of ?c] Cons.prems show ?case by (simp add: receive_all_def step)
qed (simp add: receive_all_def)

text \<open>
  A subscription delivers its stream: as long as its receiver is there, the items of the service arrive in order, each
  once, and the queue is closed exactly when the stream ended.
\<close>
theorem rpc_stream_delivered:
  assumes "bt_get (rk_pending c) i = Some PendStream" "i < 2 ^ 64" "i \<notin> set (rk_gone c)" "bt_get (rk_items c) i = None"
    and "JNull \<notin> set items" "meth \<noteq> watch_checkout_change_request"
    and "c' = receive_all (handle_request i meth (Inr (ReplyStream items ended))) c"
  shows "(case bt_get (rk_items c') i of Some xs \<Rightarrow> xs | None \<Rightarrow> []) = items \<and>
    bt_get (rk_pending c') i = (if ended then None else Some PendStream)"
proof -
  obtain d where d: "receive_all (map (\<lambda>item. (blank_frame i)\<lparr>sv_item := Some item\<rparr>) items) c = d"
    "bt_get (rk_pending d) i = Some PendStream" "(case bt_get (rk_items d) i of Some xs \<Rightarrow> xs | None \<Rightarrow> []) = items"
    using stream_items [OF assms(1-3,5)] assms(4) by auto
  have "c' = (if ended then receive (server_frame_to_value ((blank_frame i)\<lparr>sv_done := True\<rparr>)) d else d)"
    using assms(6,7) d(1) by (simp add: handle_request_def receive_all_def)
  then show ?thesis
    using d(2,3) assms(2) by (simp add: receive_frame route_frame_def blank_frame_def drop_null_def forget_def)
qed

theorem rpc_stream_delivered_witness:
  "bt_get (rk_pending (receive_all (handle_request 1 ''Watch'' (Inr (ReplyStream [JNum 3, JNum 4] True)))
     (fst (rpc_subscribe True ''Watch'' JNull new_rpc_client)))) 1 = None"
  using rpc_stream_delivered [of "fst (rpc_subscribe True ''Watch'' JNull new_rpc_client)" 1 "[JNum 3, JNum 4]" "''Watch''", OF _ _ _ _ _ _ HOL.refl, of True]
  by (simp add: rpc_subscribe_def invoke_def Let_def bt_get_def new_rpc_client_def watch_checkout_change_request_def)

text \<open>
  Requests share a connection without touching each other: a frame changes nothing of what any other request is waiting
  for, was given or has queued.
\<close>
theorem rpc_requests_isolated:
  assumes "k \<noteq> sv_id f"
  shows "bt_get (rk_pending (route_frame f c)) k = bt_get (rk_pending c) k \<and> bt_get (rk_calls (route_frame f c)) k = bt_get (rk_calls c) k \<and>
    bt_get (rk_ready (route_frame f c)) k = bt_get (rk_ready c) k \<and> bt_get (rk_items (route_frame f c)) k = bt_get (rk_items c) k"
  using assms
  by (simp add: route_frame_def forget_def acknowledge_def queue_item_def Let_def split: option.split rpc_pending.split bool.split)

theorem rpc_requests_isolated_witness:
  "bt_get (rk_pending (route_frame ((blank_frame 2)\<lparr>sv_done := True\<rparr>) (fst (rpc_call True ''Echo'' JNull new_rpc_client)))) 1 = Some PendCall"
  using rpc_requests_isolated [of 1 "(blank_frame 2)\<lparr>sv_done := True\<rparr>" "fst (rpc_call True ''Echo'' JNull new_rpc_client)"]
  by (simp add: rpc_call_def invoke_def Let_def new_rpc_client_def bt_get_def blank_frame_def)

end
