(* ===== verification/Run_Journal.thy ===== *)
theory Run_Journal
  imports Ordered_Map Rust_Str
begin

text \<open>
  The journal of agent events a host keeps on disk (\<open>crates/engine/src/run_journal.rs\<close>): one file of lines per chat, a
  tail that a crash may have torn, the scan for runs that died, and the budget of revivals. The text of a line is
  serde's: \<open>encode\<close> and \<open>decode\<close> are parameters, as is the type of events. Opening and listing files does not fail.
\<close>

section \<open>Text\<close>

text \<open>\<open>str::from_utf8\<close>: no overlong forms, no surrogates, nothing above \<open>U+10FFFF\<close>.\<close>

definition byte_in :: "nat \<Rightarrow> nat \<Rightarrow> char \<Rightarrow> bool" where
  "byte_in lo hi c = (lo \<le> of_char c \<and> of_char c \<le> hi)"

fun utf8_valid :: "string \<Rightarrow> bool" where
  "utf8_valid [] = True"
| "utf8_valid (a # s) =
     (if byte_in 0 0x7F a then utf8_valid s
      else case s of
        b # s1 \<Rightarrow>
          if byte_in 0xC2 0xDF a then cont_byte b \<and> utf8_valid s1
          else (case s1 of
            c # s2 \<Rightarrow>
              if byte_in 0xE0 0xEF a then
                byte_in (if byte_in 0xE0 0xE0 a then 0xA0 else 0x80) (if byte_in 0xED 0xED a then 0x9F else 0xBF) b \<and>
                cont_byte c \<and> utf8_valid s2
              else (case s2 of
                d # s3 \<Rightarrow>
                  byte_in 0xF0 0xF4 a \<and>
                  byte_in (if byte_in 0xF0 0xF0 a then 0x90 else 0x80) (if byte_in 0xF4 0xF4 a then 0x8F else 0xBF) b \<and>
                  cont_byte c \<and> cont_byte d \<and> utf8_valid s3
              | [] \<Rightarrow> False)
          | [] \<Rightarrow> False)
      | [] \<Rightarrow> False)"

text \<open>\<open>str::parse::<u32>\<close>.\<close>

definition parse_u32 :: "string \<Rightarrow> nat option" where
  "parse_u32 s =
     (case digits_value (if s \<noteq> [] \<and> hd s = CHR ''+'' then tl s else s) of
        Some n \<Rightarrow> if n < 2 ^ 32 then Some (nat n) else None
      | None \<Rightarrow> None)"

section \<open>Lines\<close>

datatype journal_error = InvalidData | WriteFailed

text \<open>
  Every line must be text or the whole reading fails; blank lines and lines that do not parse are skipped.
\<close>

fun read_lines :: "(string \<Rightarrow> (nat \<times> 'e) option) \<Rightarrow> string list \<Rightarrow> journal_error + (nat \<times> 'e) list" where
  "read_lines decode [] = Inr []"
| "read_lines decode (l # ls) =
     (if \<not> utf8_valid l then Inl InvalidData
      else if trim l = [] then read_lines decode ls
      else (case decode l of None \<Rightarrow> read_lines decode ls | Some x \<Rightarrow> map_sum id (Cons x) (read_lines decode ls)))"

definition read_file :: "(string \<Rightarrow> (nat \<times> 'e) option) \<Rightarrow> string option \<Rightarrow> journal_error + (nat \<times> 'e) list" where
  "read_file decode f = (case f of None \<Rightarrow> Inr [] | Some s \<Rightarrow> read_lines decode (str_lines s))"

text \<open>The next sequence number and whether the file ends in the middle of a line.\<close>

definition scan_tail :: "(string \<Rightarrow> (nat \<times> 'e) option) \<Rightarrow> string option \<Rightarrow> journal_error + (nat \<times> bool)" where
  "scan_tail decode f =
     (case f of
        None \<Rightarrow> Inr (1, False)
      | Some s \<Rightarrow> map_sum id (\<lambda>es. (if es = [] then 1 else fst (last es) + 1, s \<noteq> [] \<and> last s \<noteq> newline)) (read_file decode f))"

section \<open>The journal\<close>

record chat_journal =
  cj_next_seq :: nat
  cj_needs_newline :: bool

text \<open>The files by their stem, the revival counters, and the files this process has open by chat.\<close>

record run_journal =
  jr_files :: "(string, string) btree"
  jr_attempts :: "(string, string) btree"
  jr_open :: "(string, chat_journal) btree"

definition journal_open :: "run_journal \<Rightarrow> run_journal" where
  "journal_open j = j\<lparr>jr_open := []\<rparr>"

definition id_char :: "char \<Rightarrow> bool" where
  "id_char c = (byte_in 48 57 c \<or> byte_in 65 90 c \<or> byte_in 97 122 c \<or> c = CHR ''-'' \<or> c = CHR ''_'')"

text \<open>Characters, not bytes: the continuation bytes of a character go with it.\<close>

definition sanitize_id :: "string \<Rightarrow> string" where
  "sanitize_id s = map (\<lambda>c. if id_char c then c else CHR ''_'') (filter (\<lambda>c. \<not> cont_byte c) s)"

definition journal_file :: "run_journal \<Rightarrow> string \<Rightarrow> string option" where
  "journal_file j chat = bt_get (jr_files j) (sanitize_id chat)"

definition resume_attempts :: "run_journal \<Rightarrow> string \<Rightarrow> nat" where
  "resume_attempts j chat =
     (case bt_get (jr_attempts j) (sanitize_id chat) of
        None \<Rightarrow> 0
      | Some s \<Rightarrow> (case parse_u32 (trim s) of Some n \<Rightarrow> n | None \<Rightarrow> 0))"

definition note_resume_attempt :: "string \<Rightarrow> run_journal \<Rightarrow> run_journal \<times> nat" where
  "note_resume_attempt chat j =
     (let n = (resume_attempts j chat + 1) mod 2 ^ 32
      in (j\<lparr>jr_attempts := bt_insert (sanitize_id chat) (show_nat n) (jr_attempts j)\<rparr>, n))"

definition clear_resume_attempts :: "string \<Rightarrow> run_journal \<Rightarrow> run_journal" where
  "clear_resume_attempts chat j = j\<lparr>jr_attempts := bt_remove (sanitize_id chat) (jr_attempts j)\<rparr>"

definition open_file_cap :: nat where "open_file_cap = 16"

text \<open>The first append of a process opens the file; too many open files are all closed first.\<close>

definition open_chat :: "(string \<Rightarrow> (nat \<times> 'e) option) \<Rightarrow> string \<Rightarrow> run_journal \<Rightarrow> run_journal \<times> (journal_error + chat_journal)" where
  "open_chat decode chat j =
     (case bt_get (jr_open j) chat of
        Some cj \<Rightarrow> (j, Inr cj)
      | None \<Rightarrow>
          let j = (if open_file_cap \<le> length (jr_open j) then j\<lparr>jr_open := []\<rparr> else j)
          in case scan_tail decode (journal_file j chat) of
               Inl err \<Rightarrow> (j, Inl err)
             | Inr (n, torn) \<Rightarrow>
                 let cj = \<lparr>cj_next_seq = n, cj_needs_newline = torn\<rparr>
                 in (j\<lparr>jr_open := bt_insert chat cj (jr_open j)\<rparr>, Inr cj))"

definition line_bytes :: "(nat \<times> 'e \<Rightarrow> string) \<Rightarrow> chat_journal \<Rightarrow> 'e \<Rightarrow> string" where
  "line_bytes encode cj e = (if cj_needs_newline cj then [newline] else []) @ encode (cj_next_seq cj, e) @ [newline]"

definition content :: "string option \<Rightarrow> string" where
  "content f = (case f of Some s \<Rightarrow> s | None \<Rightarrow> [])"

definition write_bytes :: "string \<Rightarrow> string \<Rightarrow> run_journal \<Rightarrow> run_journal" where
  "write_bytes chat bytes j =
     j\<lparr>jr_files := bt_insert (sanitize_id chat) ((content (journal_file j chat)) @ bytes) (jr_files j)\<rparr>"

definition journal_append ::
    "(nat \<times> 'e \<Rightarrow> string) \<Rightarrow> (string \<Rightarrow> (nat \<times> 'e) option) \<Rightarrow> string \<Rightarrow> 'e \<Rightarrow> run_journal \<Rightarrow> run_journal \<times> (journal_error + nat)" where
  "journal_append encode decode chat e j =
     (case open_chat decode chat j of
        (j, Inl err) \<Rightarrow> (j, Inl err)
      | (j, Inr cj) \<Rightarrow>
          let j = write_bytes chat (line_bytes encode cj e) j;
              cj' = \<lparr>cj_next_seq = cj_next_seq cj + 1, cj_needs_newline = False\<rparr>
          in (j\<lparr>jr_open := bt_insert chat cj' (jr_open j)\<rparr>, Inr (cj_next_seq cj)))"

text \<open>A process that dies while appending: the first \<open>k\<close> bytes reached the file and nothing stays open.\<close>

definition journal_crash ::
    "(nat \<times> 'e \<Rightarrow> string) \<Rightarrow> (string \<Rightarrow> (nat \<times> 'e) option) \<Rightarrow> string \<Rightarrow> 'e \<Rightarrow> nat \<Rightarrow> run_journal \<Rightarrow> run_journal" where
  "journal_crash encode decode chat e k j =
     journal_open (case open_chat decode chat j of
        (j, Inl err) \<Rightarrow> j
      | (j, Inr cj) \<Rightarrow> write_bytes chat (take k (line_bytes encode cj e)) j)"

text \<open>An append whose write fails after \<open>k\<close> bytes: the error returns before the entry of the open file is brought up to date.\<close>

definition journal_write_error ::
    "(nat \<times> 'e \<Rightarrow> string) \<Rightarrow> (string \<Rightarrow> (nat \<times> 'e) option) \<Rightarrow> string \<Rightarrow> 'e \<Rightarrow> nat \<Rightarrow> run_journal \<Rightarrow> run_journal \<times> (journal_error + nat)" where
  "journal_write_error encode decode chat e k j =
     (case open_chat decode chat j of
        (j, Inl err) \<Rightarrow> (j, Inl err)
      | (j, Inr cj) \<Rightarrow> (write_bytes chat (take k (line_bytes encode cj e)) j, Inl WriteFailed))"

definition journal_replay :: "(string \<Rightarrow> (nat \<times> 'e) option) \<Rightarrow> string \<Rightarrow> nat \<Rightarrow> run_journal \<Rightarrow> journal_error + (nat \<times> 'e) list" where
  "journal_replay decode chat after_seq j =
     map_sum id (\<lambda>es. let last_seq = (if es = [] then 0 else fst (last es));
                          start = (if last_seq < after_seq then 0 else after_seq)
                      in filter (\<lambda>(s, _). start < s) es)
       (read_file decode (journal_file j chat))"

definition last_event :: "(string \<Rightarrow> (nat \<times> 'e) option) \<Rightarrow> string \<Rightarrow> run_journal \<Rightarrow> journal_error + (nat \<times> 'e) option" where
  "last_event decode chat j = map_sum id (\<lambda>es. if es = [] then None else Some (last es)) (read_file decode (journal_file j chat))"

fun stale_files ::
    "(string \<Rightarrow> (nat \<times> 'e) option) \<Rightarrow> ('e \<Rightarrow> bool) \<Rightarrow> (string \<times> string) list \<Rightarrow> journal_error + string list" where
  "stale_files decode is_done [] = Inr []"
| "stale_files decode is_done ((stem, s) # fs) =
     (case read_file decode (Some s) of
        Inl err \<Rightarrow> Inl err
      | Inr es \<Rightarrow> map_sum id (if es = [] \<or> is_done (snd (last es)) then id else Cons stem) (stale_files decode is_done fs))"

definition stale_sessions :: "(string \<Rightarrow> (nat \<times> 'e) option) \<Rightarrow> ('e \<Rightarrow> bool) \<Rightarrow> run_journal \<Rightarrow> journal_error + string list" where
  "stale_sessions decode is_done j = map_sum id sort (stale_files decode is_done (jr_files j))"

definition journal_discard :: "string \<Rightarrow> run_journal \<Rightarrow> run_journal" where
  "journal_discard chat j = j\<lparr>jr_open := bt_remove chat (jr_open j), jr_files := bt_remove (sanitize_id chat) (jr_files j)\<rparr>"

section \<open>Lines read back\<close>

lemma split_lines_closed: "f = [] \<or> last f = newline \<Longrightarrow> split_lines (f @ g) = split_lines f @ split_lines g"
proof (induction f)
  case (Cons c f)
  then show ?case by (cases f) (auto split: list.split)
qed simp

lemma split_lines_torn: "f \<noteq> [] \<Longrightarrow> last f \<noteq> newline \<Longrightarrow> split_lines (f @ [newline]) = split_lines f"
proof (induction f)
  case (Cons c f)
  then show ?case by (cases f) (auto split: list.split)
qed simp

lemma split_lines_single: "newline \<notin> set l \<Longrightarrow> split_lines l = (if l = [] then [] else [l])"
  by (induction l) (auto split: if_splits)

lemma split_lines_line: "newline \<notin> set l \<Longrightarrow> split_lines (l @ [newline]) = [l]"
  by (cases "l = []") (simp, metis last_in_set split_lines_single split_lines_torn)

lemma read_lines_append:
  "read_lines decode (a @ b) = (case read_lines decode a of Inl err \<Rightarrow> Inl err | Inr xs \<Rightarrow> map_sum id ((@) xs) (read_lines decode b))"
proof (induction a)
  case Nil
  show ?case by (cases "read_lines decode b") auto
next
  case (Cons l a)
  then show ?case by (auto split: option.split sum.split simp: sum.map_comp o_def) (auto simp: map_sum_def split: sum.split)
qed


section \<open>Crashes\<close>

text \<open>What serde guarantees of a line: it is one line of text, reads back, and no cut-off line reads as anything.\<close>

definition codec_ok :: "(nat \<times> 'e \<Rightarrow> string) \<Rightarrow> (string \<Rightarrow> (nat \<times> 'e) option) \<Rightarrow> bool" where
  "codec_ok encode decode =
     ((\<forall>x. decode (encode x) = Some x \<and> utf8_valid (encode x) \<and> newline \<notin> set (encode x) \<and> carriage_return \<notin> set (encode x) \<and>
           trim (encode x) \<noteq> []) \<and>
      (\<forall>x k. k < length (encode x) \<longrightarrow> decode (take k (encode x)) = None))"

datatype 'e journal_op = JAppend string 'e | JCrash string 'e nat

text \<open>
  A life of the journal, with the events whose line reached the disk as a whole. A crash that cuts a character in two
  is not a life this describes.
\<close>

fun journal_step ::
    "(nat \<times> 'e \<Rightarrow> string) \<Rightarrow> (string \<Rightarrow> (nat \<times> 'e) option) \<Rightarrow> 'e journal_op \<Rightarrow> run_journal \<times> (string \<Rightarrow> 'e list) \<Rightarrow>
     (run_journal \<times> (string \<Rightarrow> 'e list)) option" where
  "journal_step encode decode (JAppend chat e) (j, log) =
     (case journal_append encode decode chat e j of
        (j', Inr _) \<Rightarrow> Some (j', log(chat := log chat @ [e]))
      | (j', Inl _) \<Rightarrow> Some (j', log))"
| "journal_step encode decode (JCrash chat e k) (j, log) =
     (case open_chat decode chat j of
        (_, Inl _) \<Rightarrow> Some (journal_crash encode decode chat e k j, log)
      | (_, Inr cj) \<Rightarrow>
          if utf8_valid (take k (line_bytes encode cj e))
          then Some (journal_crash encode decode chat e k j,
                     if length (line_bytes encode cj e) \<le> k + 1 then log(chat := log chat @ [e]) else log)
          else None)"

fun journal_life ::
    "(nat \<times> 'e \<Rightarrow> string) \<Rightarrow> (string \<Rightarrow> (nat \<times> 'e) option) \<Rightarrow> 'e journal_op list \<Rightarrow> run_journal \<times> (string \<Rightarrow> 'e list) \<Rightarrow>
     (run_journal \<times> (string \<Rightarrow> 'e list)) option" where
  "journal_life encode decode [] s = Some s"
| "journal_life encode decode (op # ops) s =
     (case journal_step encode decode op s of None \<Rightarrow> None | Some s' \<Rightarrow> journal_life encode decode ops s')"

fun op_chat :: "'e journal_op \<Rightarrow> string" where
  "op_chat (JAppend chat _) = chat"
| "op_chat (JCrash chat _ _) = chat"

definition empty_journal :: run_journal where
  "empty_journal = \<lparr>jr_files = [], jr_attempts = [], jr_open = []\<rparr>"

definition numbered :: "'e list \<Rightarrow> (nat \<times> 'e) list" where
  "numbered es = enumerate 1 es"

lemma numbered_snoc: "numbered (es @ [e]) = numbered es @ [(Suc (length es), e)]"
  by (simp add: numbered_def enumerate_append_eq)

lemma numbered_Nil [simp]: "numbered es = [] \<longleftrightarrow> es = []"
  by (cases es) (simp_all add: numbered_def)

lemma length_numbered [simp]: "length (numbered es) = length es"
  by (simp add: numbered_def)

lemma numbered_last: "es \<noteq> [] \<Longrightarrow> last (numbered es) = (length es, last es)"
  by (cases es rule: rev_cases) (simp_all add: numbered_snoc)

lemma trim_Nil [simp]: "trim [] = []"
  by (simp add: trim_def trim_start_def trim_end_def strip_front_fix find_None_iff)

lemma codecD:
  assumes "codec_ok encode decode"
  shows "decode (encode x) = Some x" "utf8_valid (encode x)" "newline \<notin> set (encode x)" "carriage_return \<notin> set (encode x)"
    "trim (encode x) \<noteq> []" "encode x \<noteq> []" "k < length (encode x) \<Longrightarrow> decode (take k (encode x)) = None"
proof -
  show "trim (encode x) \<noteq> []" using assms unfolding codec_ok_def by blast
  then show "encode x \<noteq> []" by force
qed (use assms in \<open>unfold codec_ok_def, blast\<close>)+

definition torn_tail :: "string \<Rightarrow> bool" where
  "torn_tail s = (s \<noteq> [] \<and> last s \<noteq> newline)"

definition file_holds :: "(string \<Rightarrow> (nat \<times> 'e) option) \<Rightarrow> string \<Rightarrow> 'e list \<Rightarrow> bool" where
  "file_holds decode s es = (carriage_return \<notin> set s \<and> read_lines decode (split_lines s) = Inr (numbered es))"

lemma file_holds_read: "file_holds decode s es \<Longrightarrow> read_file decode (Some s) = Inr (numbered es)"
  by (simp add: file_holds_def read_file_def str_lines_def unix_newlines_plain)

lemma file_holds_Nil: "file_holds decode [] []"
  by (simp add: file_holds_def numbered_def)

text \<open>What may follow the content of a file: nothing, a cut-off line, or a whole one.\<close>

definition closed :: "string \<Rightarrow> string" where
  "closed s = s @ (if torn_tail s then [newline] else [])"

lemma closed_not_torn [simp]: "\<not> torn_tail (closed s)"
  by (auto simp: closed_def torn_tail_def)

lemma file_holds_close:
  assumes "file_holds decode s es"
  shows "file_holds decode (closed s) es"
proof -
  have "newline \<noteq> carriage_return" by (simp add: newline_def carriage_return_def)
  with assms show ?thesis by (auto simp: file_holds_def closed_def torn_tail_def split_lines_torn)
qed

lemma file_holds_cut:
  assumes ok: "codec_ok encode decode" and s: "file_holds decode s es" "\<not> torn_tail s"
    and k: "k < length (encode x)" "utf8_valid (take k (encode x))"
  shows "file_holds decode (s @ take k (encode x)) es"
proof -
  let ?p = "take k (encode x)"
  have "newline \<notin> set ?p" "carriage_return \<notin> set ?p" "decode ?p = None"
    using codecD(3,4) [OF ok, of x] codecD(7) [OF ok k(1)] by (auto dest: in_set_takeD)
  with s k(2) show ?thesis
    by (auto simp: file_holds_def torn_tail_def split_lines_closed split_lines_single read_lines_append)
qed

lemma file_holds_line:
  assumes ok: "codec_ok encode decode" and s: "file_holds decode s es" "\<not> torn_tail s" and t: "t = [] \<or> t = [newline]"
  shows "file_holds decode (s @ encode (Suc (length es), e) @ t) (es @ [e])"
proof -
  let ?l = "encode (Suc (length es), e)"
  note l = codecD(1-6) [OF ok, of "(Suc (length es), e)"]
  have "split_lines (?l @ t) = [?l]" using l t by (auto simp: split_lines_line split_lines_single)
  moreover have "newline \<noteq> carriage_return" by (simp add: newline_def carriage_return_def)
  ultimately show ?thesis
    using s l t by (auto simp: file_holds_def torn_tail_def split_lines_closed read_lines_append numbered_snoc)
qed


definition chat_ok :: "(string \<Rightarrow> (nat \<times> 'e) option) \<Rightarrow> run_journal \<Rightarrow> string \<Rightarrow> 'e list \<Rightarrow> bool" where
  "chat_ok decode j chat es =
     (let s = content (journal_file j chat)
      in file_holds decode s es \<and>
         (case bt_get (jr_open j) chat of
            None \<Rightarrow> True
          | Some cj \<Rightarrow> cj_next_seq cj = Suc (length es) \<and> cj_needs_newline cj = torn_tail s))"

lemma journal_file_simps [simp]:
  "journal_file (j\<lparr>jr_open := x\<rparr>) chat = journal_file j chat"
  "jr_open (write_bytes chat bytes j) = jr_open j"
  by (simp_all add: journal_file_def write_bytes_def)

lemma file_written:
  "journal_file (write_bytes c bytes j) chat =
     (if sanitize_id chat = sanitize_id c then Some ((content (journal_file j c)) @ bytes) else journal_file j chat)"
  by (simp add: write_bytes_def journal_file_def)

lemma scan_tail_ok:
  assumes "file_holds decode (content f) es"
  shows "scan_tail decode f = Inr (Suc (length es), torn_tail (content f))"
proof (cases f)
  case None
  with assms have "numbered es = []" by (simp add: file_holds_def content_def)
  with None show ?thesis by (simp add: scan_tail_def torn_tail_def content_def)
next
  case (Some s)
  with assms have "read_file decode f = Inr (numbered es)" by (simp add: file_holds_read content_def)
  with Some show ?thesis by (simp add: scan_tail_def torn_tail_def numbered_last content_def)
qed

lemma open_chat_ok:
  assumes "chat_ok decode j c es"
  shows "\<exists>j' cj. open_chat decode c j = (j', Inr cj) \<and> cj_next_seq cj = Suc (length es) \<and>
    cj_needs_newline cj = torn_tail (content (journal_file j c)) \<and> jr_files j' = jr_files j \<and>
    (\<forall>d cd. bt_get (jr_open j') d = Some cd \<longrightarrow> d \<noteq> c \<longrightarrow> bt_get (jr_open j) d = Some cd)"
proof (cases "bt_get (jr_open j) c")
  case None
  have "scan_tail decode (journal_file j c) = Inr (Suc (length es), torn_tail (content (journal_file j c)))"
    using assms by (intro scan_tail_ok) (simp add: chat_ok_def Let_def)
  with None show ?thesis by (auto simp: open_chat_def Let_def bt_get_Cons)
next
  case (Some cj)
  with assms show ?thesis by (simp add: open_chat_def chat_ok_def Let_def)
qed

text \<open>An append or a crash is a write after the file was opened; other chats do not notice.\<close>

lemma write_keeps_others:
  assumes "chat_ok decode j d es" "sanitize_id d \<noteq> sanitize_id c" "jr_files j' = jr_files j"
    and "\<And>cd. bt_get (jr_open j'') d = Some cd \<Longrightarrow> bt_get (jr_open j) d = Some cd"
    and "jr_files j'' = jr_files (write_bytes c bytes j')"
  shows "chat_ok decode j'' d es"
proof -
  have "journal_file j'' d = journal_file j d"
    using assms(2,3,5) by (simp add: journal_file_def write_bytes_def)
  with assms(1,4) show ?thesis by (auto simp: chat_ok_def Let_def split: option.splits)
qed

lemma take_line_cases:
  "s @ take k ((if torn_tail s then [newline] else []) @ l @ [newline]) =
    (if torn_tail s \<and> k = 0 then s else closed s @ take (if torn_tail s then k - 1 else k) (l @ [newline]))"
  by (cases k) (auto simp: closed_def)

lemma append_step:
  assumes ok: "codec_ok encode decode" and st: "chat_ok decode j c es" and ap: "journal_append encode decode c e j = (j', r)"
  shows "r = Inr (Suc (length es)) \<and> chat_ok decode j' c (es @ [e]) \<and>
    (\<forall>d ds. sanitize_id d \<noteq> sanitize_id c \<longrightarrow> chat_ok decode j d ds \<longrightarrow> chat_ok decode j' d ds)"
proof -
  obtain j1 cj where o: "open_chat decode c j = (j1, Inr cj)" "cj_next_seq cj = Suc (length es)"
      "cj_needs_newline cj = torn_tail (content (journal_file j c))" "jr_files j1 = jr_files j"
      "\<forall>d cd. bt_get (jr_open j1) d = Some cd \<longrightarrow> d \<noteq> c \<longrightarrow> bt_get (jr_open j) d = Some cd"
    using open_chat_ok [OF st] by auto
  let ?s = "content (journal_file j c)"
  have same: "journal_file j1 d = journal_file j d" for d using o(4) by (simp add: journal_file_def)
  have holds: "file_holds decode (closed ?s) es" "\<not> torn_tail (closed ?s)"
    using st by (simp_all add: chat_ok_def Let_def file_holds_close)
  have "file_holds decode (closed ?s @ encode (Suc (length es), e) @ [newline]) (es @ [e])"
    by (rule file_holds_line [OF ok holds]) simp
  moreover have "j' = (write_bytes c (line_bytes encode cj e) j1)\<lparr>jr_open :=
      bt_insert c \<lparr>cj_next_seq = Suc (Suc (length es)), cj_needs_newline = False\<rparr> (jr_open j1)\<rparr>" "r = Inr (Suc (length es))"
    using ap o(1,2) by (auto simp: journal_append_def Let_def)
  ultimately show ?thesis
    using o(2-5) same
    by (auto simp: chat_ok_def Let_def file_written line_bytes_def closed_def torn_tail_def content_def split: option.splits)
qed


lemma crash_step:
  assumes ok: "codec_ok encode decode" and st: "chat_ok decode j c es"
    and life: "journal_step encode decode (JCrash c e k) (j, log) = Some (j', log')" and log: "log c = es"
  shows "chat_ok decode j' c (log' c) \<and> (\<forall>d. d \<noteq> c \<longrightarrow> log' d = log d) \<and>
    (\<forall>d ds. sanitize_id d \<noteq> sanitize_id c \<longrightarrow> chat_ok decode j d ds \<longrightarrow> chat_ok decode j' d ds)"
proof -
  obtain j1 cj where o: "open_chat decode c j = (j1, Inr cj)" "cj_next_seq cj = Suc (length es)"
      "cj_needs_newline cj = torn_tail (content (journal_file j c))" "jr_files j1 = jr_files j"
    using open_chat_ok [OF st] by auto
  let ?s = "content (journal_file j c)"
  let ?l = "encode (Suc (length es), e)"
  let ?k = "if torn_tail ?s then k - 1 else k" and ?b = "take k (line_bytes encode cj e)"
  have valid: "utf8_valid ?b" and j': "j' = (write_bytes c ?b j1)\<lparr>jr_open := []\<rparr>"
    and log': "log' = (if length (line_bytes encode cj e) \<le> k + 1 then log(c := es @ [e]) else log)"
    using life o(1) log by (auto simp: journal_crash_def journal_open_def split: if_splits)
  have bytes: "?s @ ?b = (if torn_tail ?s \<and> k = 0 then ?s else closed ?s @ take ?k (?l @ [newline]))"
    unfolding line_bytes_def o(2,3) by (rule take_line_cases)
  have s: "file_holds decode ?s es" and holds: "file_holds decode (closed ?s) es" "\<not> torn_tail (closed ?s)"
    using st by (simp_all add: chat_ok_def Let_def file_holds_close)
  have whole: "length (line_bytes encode cj e) \<le> k + 1 \<longleftrightarrow> \<not> (torn_tail ?s \<and> k = 0) \<and> length ?l \<le> ?k"
    using o(2,3) codecD(6) [OF ok, of "(Suc (length es), e)"] by (auto simp: line_bytes_def)
  have part: "utf8_valid (take ?k ?l)" if "?k < length ?l" "\<not> (torn_tail ?s \<and> k = 0)"
    using valid that o(2,3) by (cases k) (auto simp: line_bytes_def newline_def byte_in_def split: if_splits)
  have "file_holds decode (?s @ ?b) (log' c)"
  proof (cases "torn_tail ?s \<and> k = 0")
    case True
    then show ?thesis using s whole log log' by (simp add: bytes)
  next
    case False
    have b: "?s @ ?b = closed ?s @ take ?k (?l @ [newline])" unfolding bytes by (rule if_not_P [OF False])
    show ?thesis
    proof (cases "length ?l \<le> ?k")
      case True
      have "take ?k (?l @ [newline]) = ?l @ take (?k - length ?l) [newline]" using True by simp
      moreover have "take (?k - length ?l) [newline] = [] \<or> take (?k - length ?l) [newline] = [newline]" by (cases "?k - length ?l") auto
      ultimately show ?thesis
        using file_holds_line [OF ok holds, of "take (?k - length ?l) [newline]" e] False True whole log' by (simp add: b)
    next
      case len: False
      then have "take ?k (?l @ [newline]) = take ?k ?l" by simp
      then show ?thesis using file_holds_cut [OF ok holds, of ?k "(Suc (length es), e)"] part False len whole log log' by (simp add: b)
    qed
  qed
  moreover have "journal_file j1 d = journal_file j d" for d using o(4) by (simp add: journal_file_def)
  ultimately show ?thesis
    using j' log' by (auto simp: chat_ok_def Let_def file_written content_def)
qed

lemma journal_life_ok:
  assumes "codec_ok encode decode"
  shows "journal_life encode decode ops (j, log) = Some (j', log') \<Longrightarrow> (\<And>c. c \<in> S \<Longrightarrow> chat_ok decode j c (log c)) \<Longrightarrow>
    (\<And>c d. c \<in> S \<Longrightarrow> d \<in> S \<Longrightarrow> sanitize_id c = sanitize_id d \<Longrightarrow> c = d) \<Longrightarrow> op_chat ` set ops \<subseteq> S \<Longrightarrow> c \<in> S \<Longrightarrow>
    chat_ok decode j' c (log' c)"
proof (induction ops arbitrary: j log)
  case (Cons op ops)
  obtain j1 log1 where step: "journal_step encode decode op (j, log) = Some (j1, log1)"
    and rest: "journal_life encode decode ops (j1, log1) = Some (j', log')"
    using Cons.prems(1) by (auto split: option.splits)
  have mid: "chat_ok decode j1 d (log1 d)" if d: "d \<in> S" for d
  proof (cases op)
    case (JAppend c e)
    obtain j2 r where ap: "journal_append encode decode c e j = (j2, r)" by fastforce
    have c: "c \<in> S" using Cons.prems(4) JAppend by simp
    note a = append_step [OF assms Cons.prems(2) [OF c] ap]
    then have "j1 = j2" "log1 = log(c := log c @ [e])" using step JAppend ap by auto
    then show ?thesis using a Cons.prems(2) [OF d] Cons.prems(3) [OF d c] by (cases "d = c") auto
  next
    case (JCrash c e k)
    have c: "c \<in> S" using Cons.prems(4) JCrash by simp
    note a = crash_step [OF assms Cons.prems(2) [OF c] step [unfolded JCrash] HOL.refl]
    then show ?thesis using Cons.prems(2) [OF d] Cons.prems(3) [OF d c] by (cases "d = c") auto
  qed
  show ?case by (rule Cons.IH [OF rest mid Cons.prems(3) _ Cons.prems(5)]) (use Cons.prems(4) in auto)
qed simp


lemma life_start: "chat_ok decode empty_journal c []"
  by (simp add: chat_ok_def empty_journal_def journal_file_def content_def file_holds_Nil)

lemma life_ends_ok:
  assumes "codec_ok encode decode" "journal_life encode decode ops (empty_journal, \<lambda>_. []) = Some (j, log)"
    and "inj_on sanitize_id S" "op_chat ` set ops \<subseteq> S" "c \<in> S"
  shows "chat_ok decode j c (log c)"
  by (rule journal_life_ok [OF assms(1,2) _ _ assms(4,5)]) (use assms(3) life_start in \<open>auto dest: inj_onD\<close>)

lemma chat_ok_read: "chat_ok decode j c es \<Longrightarrow> read_file decode (journal_file j c) = Inr (numbered es)"
  by (cases "journal_file j c") (auto simp: chat_ok_def Let_def content_def file_holds_read, simp add: file_holds_def read_file_def)

lemma filter_numbered: "filter (\<lambda>(s, _). n < s) (numbered es) = drop n (numbered es)"
proof (induction es rule: rev_induct)
  case (snoc e es)
  then show ?case by (cases "n \<le> length es") (auto simp: numbered_snoc)
qed (simp add: numbered_def)

text \<open>
  C14. The journal survives crashes: whatever events were appended for whatever chats, and wherever a crash cut an append
  short (as long as it cut no character in two), the events whose line reached the disk are replayed, in order, each
  once, numbered from one without gaps, from any cursor; a cursor beyond the end replays everything; and the next event
  gets the next number.
\<close>
theorem journal_survives_crashes:
  assumes "codec_ok encode decode" "journal_life encode decode ops (empty_journal, \<lambda>_. []) = Some (j, log)"
    and "inj_on sanitize_id (insert chat (op_chat ` set ops))"
  shows "journal_replay decode chat n j = Inr (if n \<le> length (log chat) then drop n (numbered (log chat)) else numbered (log chat)) \<and>
    snd (journal_append encode decode chat e j) = Inr (Suc (length (log chat)))"
proof -
  have ok: "chat_ok decode j chat (log chat)" using life_ends_ok [OF assms(1-3)] by auto
  have "snd (journal_append encode decode chat e j) = Inr (Suc (length (log chat)))"
    using append_step [OF assms(1) ok, of e] by (cases "journal_append encode decode chat e j") auto
  with chat_ok_read [OF ok] show ?thesis
    by (auto simp: journal_replay_def Let_def filter_numbered numbered_last)
qed


text \<open>A codec to exercise the theorem on: events are truth values, a line is as many strokes as its number and a letter.\<close>

definition stroke_line :: "nat \<times> bool \<Rightarrow> string" where
  "stroke_line x = replicate (fst x) (CHR ''x'') @ [if snd x then CHR ''t'' else CHR ''f'']"

definition read_stroke :: "string \<Rightarrow> (nat \<times> bool) option" where
  "read_stroke s =
     (if s \<noteq> [] \<and> list_all ((=) (CHR ''x'')) (butlast s) \<and> last s \<in> {CHR ''t'', CHR ''f''}
      then Some (length s - 1, last s = CHR ''t'') else None)"

lemma utf8_strokes: "utf8_valid (replicate n (CHR ''x'') @ s) = utf8_valid s"
  by (induction n) (auto simp: byte_in_def)

lemma ws_no_letters: "list_all (\<lambda>w. hd w \<notin> {CHR ''x'', CHR ''t'', CHR ''f''} \<and> last w \<notin> {CHR ''x'', CHR ''t'', CHR ''f''}) ws_chars"
  by code_simp

lemma prefix_hd: "w \<noteq> [] \<Longrightarrow> prefix w s \<Longrightarrow> hd s = hd w"
  by (cases w; cases s) auto

lemma prefix_last: "w \<noteq> [] \<Longrightarrow> prefix (rev w) (rev s) \<Longrightarrow> last s = last w"
  by (metis hd_rev prefix_hd rev_is_Nil_conv)

lemma trim_strokes: "trim (stroke_line (n, b)) = stroke_line (n, b)"
proof -
  let ?s = "stroke_line (n, b)"
  have ends: "hd ?s \<in> {CHR ''x'', CHR ''t'', CHR ''f''}" "hd (rev ?s) \<in> {CHR ''x'', CHR ''t'', CHR ''f''}"
    by (cases n; simp add: stroke_line_def)+
  have "trim_start ?s = ?s"
    unfolding trim_start_def using ws_no_letters ends(1)
    by (intro strip_front_fix) (auto simp: find_None_iff list_all_iff dest!: prefix_hd)
  moreover have "trim_end ?s = ?s"
    unfolding trim_end_def using ws_no_letters ends(2)
    by (subst strip_front_fix) (auto simp: find_None_iff list_all_iff hd_rev dest!: prefix_last)
  ultimately show ?thesis by (simp add: trim_def)
qed

lemma stroke_codec: "codec_ok stroke_line read_stroke"
  unfolding codec_ok_def
proof (intro conjI allI impI)
  fix x :: "nat \<times> bool" and k
  show "read_stroke (stroke_line x) = Some x"
    by (cases x) (auto simp: read_stroke_def stroke_line_def butlast_append list_all_iff)
  show "utf8_valid (stroke_line x)" by (auto simp: stroke_line_def utf8_strokes byte_in_def)
  show "newline \<notin> set (stroke_line x)" "carriage_return \<notin> set (stroke_line x)"
    by (auto simp: stroke_line_def newline_def carriage_return_def)
  show "trim (stroke_line x) \<noteq> []" by (cases x) (simp add: trim_strokes, simp add: stroke_line_def)
  assume "k < length (stroke_line x)"
  then have "take k (stroke_line x) = replicate k (CHR ''x'')" by (simp add: stroke_line_def)
  then show "read_stroke (take k (stroke_line x)) = None" by (cases k) (auto simp: read_stroke_def)
qed

definition stroke_life :: "bool journal_op list" where
  "stroke_life = [JAppend ''a'' True, JCrash ''a'' False 1, JAppend ''a'' False]"

theorem journal_survives_crashes_witness:
  "map_option (\<lambda>(j, log). (log ''a'', journal_replay read_stroke ''a'' 0 j)) (journal_life stroke_line read_stroke stroke_life (empty_journal, \<lambda>_. [])) =
     Some ([True, False], Inr [(1, True), (2, False)])"
proof -
  have life: "\<exists>j log. journal_life stroke_line read_stroke stroke_life (empty_journal, \<lambda>_. []) = Some (j, log) \<and> log ''a'' = [True, False]"
    by (simp add: stroke_life_def journal_append_def journal_crash_def journal_open_def open_chat_def scan_tail_def read_file_def
        journal_file_def empty_journal_def write_bytes_def content_def line_bytes_def stroke_line_def read_stroke_def Let_def
        sanitize_id_def id_char_def byte_in_def cont_byte_def str_lines_def newline_def carriage_return_def open_file_cap_def bt_get_def)
  then obtain j log where l: "journal_life stroke_line read_stroke stroke_life (empty_journal, \<lambda>_. []) = Some (j, log)" "log ''a'' = [True, False]"
    by auto
  have "journal_replay read_stroke ''a'' 0 j = Inr (numbered (log ''a''))"
    using journal_survives_crashes [OF stroke_codec l(1), of "''a''" 0] by (simp add: stroke_life_def)
  with l show ?thesis by (simp add: numbered_def)
qed


section \<open>A torn character\<close>

lemma read_lines_poisoned: "l \<in> set ls \<Longrightarrow> \<not> utf8_valid l \<Longrightarrow> read_lines decode ls = Inl InvalidData"
  by (induction ls) (auto split: option.split)

lemma stale_files_poisoned:
  "(stem, s) \<in> set fs \<Longrightarrow> (\<And>err. read_file decode (Some s) \<noteq> Inr err) \<Longrightarrow> \<exists>err. stale_files decode is_done fs = Inl err"
proof (induction fs)
  case (Cons f fs)
  then show ?case by (cases f) (auto split: sum.split)
qed simp

text \<open>
  A torn character is not tolerated: when a crash cuts the first append of a chat in the middle of a character, the file
  is no longer text, and from then on reading the chat fails, appending to it fails and leaves the file as it is, and
  the scan for runs that died fails for every chat of the device.
\<close>
theorem torn_character_poisons:
  assumes "\<not> utf8_valid (take k (encode (1, e)))" "newline \<notin> set (encode (1, e))" "carriage_return \<notin> set (encode (1, e))"
    and "k < length (encode (1, e))" "journal_file j chat = None" "bt_get (jr_open j) chat = None"
    and "j' = journal_crash encode decode chat e k j"
  shows "journal_replay decode chat n j' = Inl InvalidData \<and> last_event decode chat j' = Inl InvalidData \<and>
    journal_append encode decode chat e' j' = (j', Inl InvalidData) \<and> (\<exists>err. stale_sessions decode is_done j' = Inl err)"
proof -
  let ?p = "take k (encode (1, e))"
  have "?p \<noteq> []" using assms(1) by (metis utf8_valid.simps(1))
  with assms(2,3) have p: "newline \<notin> set ?p" "carriage_return \<notin> set ?p" "?p \<noteq> []" by (auto dest: in_set_takeD)
  have j': "journal_file j' chat = Some ?p" "jr_open j' = []"
    using assms(4-7) by (auto simp: journal_crash_def open_chat_def scan_tail_def Let_def journal_open_def file_written line_bytes_def content_def)
  have bad: "read_file decode (Some ?p) = Inl InvalidData"
    using p assms(1) by (simp add: read_file_def str_lines_def unix_newlines_plain split_lines_single)
  have "(sanitize_id chat, ?p) \<in> set (jr_files j')" using j'(1) by (auto simp: journal_file_def dest: bt_get_SomeD)
  then have "\<exists>err. stale_files decode is_done (jr_files j') = Inl err" by (rule stale_files_poisoned) (unfold bad, simp)
  then show ?thesis
    using bad j' by (auto simp: journal_replay_def last_event_def journal_append_def open_chat_def scan_tail_def stale_sessions_def
        open_file_cap_def Let_def)
qed

text \<open>A line with a two-byte letter.\<close>

definition accent_line :: "nat \<times> unit \<Rightarrow> string" where
  "accent_line x = [CHR 0xC3, CHR 0xA9]"

theorem torn_character_poisons_witness:
  "journal_replay (\<lambda>s. None :: (nat \<times> unit) option) ''a'' 0 (journal_crash accent_line (\<lambda>s. None) ''a'' () 1 empty_journal) = Inl InvalidData"
  using torn_character_poisons [of 1 accent_line "()" empty_journal "''a''", OF _ _ _ _ _ _ HOL.refl]
  by (simp add: accent_line_def byte_in_def newline_def carriage_return_def empty_journal_def journal_file_def)


text \<open>
  A failed write swallows the next event: the process goes on with the file open, does not know that it ends in the
  middle of a line, and writes the next event behind the remains of the failed one. The append reports success and the
  event is never replayed.
\<close>
theorem failed_write_swallows_next:
  assumes "journal_file j chat = None" "bt_get (jr_open j) chat = None" "length (jr_open j) < open_file_cap" "0 < k" "k < length (encode (1, e))"
    and "\<And>x. newline \<notin> set (encode x) \<and> carriage_return \<notin> set (encode x)"
    and "utf8_valid (take k (encode (1, e)) @ encode (1, e'))" "decode (take k (encode (1, e)) @ encode (1, e')) = None"
    and "j1 = fst (journal_write_error encode decode chat e k j)" "journal_append encode decode chat e' j1 = (j2, r)"
  shows "r = Inr 1 \<and> journal_replay decode chat n j2 = Inr []"
proof -
  let ?l = "take k (encode (1, e)) @ encode (1, e')" and ?cj = "\<lparr>cj_next_seq = 1, cj_needs_newline = False\<rparr>"
  have "open_chat decode chat j = (j\<lparr>jr_open := bt_insert chat ?cj (jr_open j)\<rparr>, Inr ?cj)"
    using assms(1-3) by (simp add: open_chat_def scan_tail_def Let_def)
  then have j1: "j1 = write_bytes chat (take k (encode (1, e))) (j\<lparr>jr_open := bt_insert chat ?cj (jr_open j)\<rparr>)"
    using assms(5,9) by (simp add: journal_write_error_def line_bytes_def)
  then have "r = Inr 1" "journal_file j2 chat = Some (?l @ [newline])"
    using assms(1,10) by (auto simp: journal_append_def open_chat_def Let_def file_written line_bytes_def content_def)
  moreover have l: "newline \<notin> set ?l" "carriage_return \<notin> set ?l" using assms(6) by (auto dest: in_set_takeD)
  moreover have "carriage_return \<notin> set (?l @ [newline])" using l(2) by (simp add: newline_def carriage_return_def)
  ultimately show ?thesis
    using assms(7,8) by (simp add: journal_replay_def read_file_def str_lines_def unix_newlines_plain split_lines_line del: append_assoc)
qed

definition mark_line :: "nat \<times> unit \<Rightarrow> string" where
  "mark_line x = ''!?''"

definition read_mark :: "string \<Rightarrow> (nat \<times> unit) option" where
  "read_mark s = (if s = ''!?'' then Some (1, ()) else None)"

theorem failed_write_swallows_next_witness:
  "journal_replay read_mark ''a'' 0 (fst (journal_append mark_line read_mark ''a'' ()
     (fst (journal_write_error mark_line read_mark ''a'' () 1 empty_journal)))) = Inr []"
  using failed_write_swallows_next [of empty_journal "''a''" 1 mark_line "()" "()" read_mark, OF _ _ _ _ _ _ _ _ HOL.refl prod.collapse [symmetric], of 0]
  by (simp add: empty_journal_def journal_file_def open_file_cap_def newline_def carriage_return_def byte_in_def mark_line_def read_mark_def)

end
