(* ===== verification/Drive_Run.thy ===== *)
theory Drive_Run
  imports Session_Doc Commands
begin

text \<open>
  The task that drives one run (\<open>drive_run\<close> of \<open>crates/engine/src/sessions.rs\<close>): what it does with every event of the
  agent, with an interrupt, with the end of the stream, and with its timers. Its local variables are the record
  \<open>run_task\<close>; what it shares with the rest of the engine for its chat is the record \<open>live_chat\<close>. Times are milliseconds;
  \<open>now\<close> is an argument. The identifiers \<open>new_id\<close> mints are \<open>uuid n\<close> for a counter. The select of the loop is biased;
  any branch whose guard holds may be the next one here. A write to a document that fails is logged and leaves the document as it
  was.
\<close>

section \<open>Shared state\<close>

record steer_message =
  sm_prompt :: string
  sm_message_id :: "string option"

record routed_steer =
  rs_prompt :: string
  rs_message_id :: string

text \<open>
  The parts of a \<open>RunHandle\<close>. They stay reachable for whoever cloned them after the handle left the map of runs. The
  mailbox holds what the adapter has not taken yet; it is open until the adapter drops its end. \<open>rh_pending\<close> lists the
  questions that have a resolver, \<open>rh_declined\<close> those whose resolver was given an empty answer, \<open>rh_answered\<close> those that
  were answered.
\<close>

record run_handle =
  rh_steerable :: bool
  rh_mailbox :: "steer_message list"
  rh_mailbox_open :: bool
  rh_token :: bool
  rh_cancel :: bool
  rh_engine :: "agent_event list"
  rh_pending :: "string list"
  rh_declined :: "string list"
  rh_answered :: "(string \<times> user_input_answer list) list"
  rh_ledger :: "routed_steer list"

definition mailbox_cap :: nat where "mailbox_cap = 32"

definition mailbox_send :: "steer_message \<Rightarrow> run_handle \<Rightarrow> run_handle option" where
  "mailbox_send m h = (if rh_mailbox_open h \<and> length (rh_mailbox h) < mailbox_cap then Some (h\<lparr>rh_mailbox := rh_mailbox h @ [m]\<rparr>) else None)"

text \<open>
  Turns that will be dispatched by a task of their own: a start that is tried again, steers a run left behind, and the
  message of a turn the engine died in.
\<close>

datatype respawn = Retry run_request string | Redispatch "routed_steer list" | Revive string string

text \<open>
  \<open>Inner\<close> for one chat: the run the map of runs names and the handles by run, the status row, the last request, the
  harness session in memory and in the chat's row, the events journalled so far, the documents, the previews noted, the
  prompts handed to the titler, the directories turns started in, the transcripts frozen, the revivals spent and the turns to come.
\<close>

record live_chat =
  lv_chat :: string
  lv_device :: string
  lv_run :: "string option"
  lv_handles :: "(string, run_handle) btree"
  lv_status :: "session option"
  lv_last_request :: "run_request option"
  lv_harness :: "(string \<times> string) option"
  lv_row_harness :: "(string \<times> string option) option"
  lv_journal :: "agent_event list"
  lv_doc :: session_doc
  lv_subdocs :: "(string, session_doc) btree"
  lv_previews :: "string list"
  lv_titles :: "string list"
  lv_turns :: "string list"
  lv_frozen :: "(string \<times> message_entry list) list"
  lv_attempts :: nat
  lv_respawn :: "respawn list"
  lv_drawn :: nat

definition publish :: "agent_event \<Rightarrow> live_chat \<Rightarrow> live_chat" where
  "publish e lv = lv\<lparr>lv_journal := lv_journal lv @ [e]\<rparr>"

definition draw :: "(nat \<Rightarrow> string) \<Rightarrow> live_chat \<Rightarrow> string \<times> live_chat" where
  "draw uuid lv = (uuid (lv_drawn lv), lv\<lparr>lv_drawn := lv_drawn lv + 1\<rparr>)"

definition active :: "session_status \<Rightarrow> bool" where
  "active st = (st = Status_Working \<or> st = Status_AwaitingInput)"

definition set_status :: "int \<Rightarrow> session_status \<Rightarrow> bool \<Rightarrow> live_chat \<Rightarrow> live_chat" where
  "set_status now st fresh lv =
     (let s = (case lv_status lv of
                 Some s \<Rightarrow> s
               | None \<Rightarrow> \<lparr>ss_chat_id = lv_chat lv, ss_device_id = lv_device lv, ss_status = st, ss_started_at = None,
                          ss_updated_at = now, ss_context_tokens = None\<rparr>)
      in lv\<lparr>lv_status := Some (s\<lparr>ss_status := st, ss_updated_at := now,
           ss_started_at := (if st = Status_Working \<and> (fresh \<or> \<not> active (ss_status s)) then Some now
                             else if active st then ss_started_at s else None)\<rparr>)\<rparr>)"

definition touch_throttle_ms :: int where "touch_throttle_ms = 10000"

definition touch_session :: "int \<Rightarrow> live_chat \<Rightarrow> live_chat" where
  "touch_session now lv =
     (case lv_status lv of
        None \<Rightarrow> lv
      | Some s \<Rightarrow> if now - ss_updated_at s < touch_throttle_ms then lv else lv\<lparr>lv_status := Some (s\<lparr>ss_updated_at := now\<rparr>)\<rparr>)"

definition set_context_tokens :: "nat \<Rightarrow> live_chat \<Rightarrow> live_chat" where
  "set_context_tokens n lv =
     (case lv_status lv of None \<Rightarrow> lv | Some s \<Rightarrow> lv\<lparr>lv_status := Some (s\<lparr>ss_context_tokens := Some n\<rparr>)\<rparr>)"

definition note_message :: "string \<Rightarrow> live_chat \<Rightarrow> live_chat" where
  "note_message text lv = (if text = [] then lv else lv\<lparr>lv_previews := lv_previews lv @ [text]\<rparr>)"

definition remember_harness_session :: "string \<Rightarrow> string \<Rightarrow> live_chat \<Rightarrow> live_chat" where
  "remember_harness_session sid cwd lv =
     (if sid = [] then lv else lv\<lparr>lv_harness := Some (sid, cwd), lv_row_harness := Some (sid, Some cwd)\<rparr>)"

definition remove_run :: "string \<Rightarrow> live_chat \<Rightarrow> live_chat" where
  "remove_run run lv = (if lv_run lv = Some run then lv\<lparr>lv_run := None\<rparr> else lv)"

text \<open>The handle in the map of runs, if it is still the one of this run.\<close>

definition own_handle :: "string \<Rightarrow> live_chat \<Rightarrow> run_handle option" where
  "own_handle run lv = (if lv_run lv = Some run then bt_get (lv_handles lv) run else None)"

definition put_handle :: "string \<Rightarrow> run_handle \<Rightarrow> live_chat \<Rightarrow> live_chat" where
  "put_handle run h lv = lv\<lparr>lv_handles := bt_insert run h (lv_handles lv)\<rparr>"

definition decline :: "string list \<Rightarrow> run_handle \<Rightarrow> run_handle" where
  "decline rids h = h\<lparr>rh_pending := filter (\<lambda>i. i \<notin> set rids) (rh_pending h), rh_declined := rh_declined h @ filter (\<lambda>i. i \<in> set rids) (rh_pending h)\<rparr>"

section \<open>Subagents\<close>

text \<open>\<open>hex\<close> is the first eight bytes of the SHA-256 digest in hexadecimal.\<close>

definition id_byte :: "char \<Rightarrow> bool" where
  "id_byte c = (let b = of_char c :: nat in 48 \<le> b \<and> b \<le> 57 \<or> 65 \<le> b \<and> b \<le> 90 \<or> 97 \<le> b \<and> b \<le> 122 \<or> c = CHR ''_'' \<or> c = CHR ''-'')"

definition subagent_doc_id :: "(string \<Rightarrow> string) \<Rightarrow> string \<Rightarrow> string \<Rightarrow> string" where
  "subagent_doc_id hex chat tool =
     (if list_all id_byte tool \<and> tool \<noteq> [] \<and> length tool \<le> 128 - (length chat + length ''--sub--'')
      then chat @ ''--sub--'' @ tool else chat @ ''--sub--'' @ hex tool)"

record subagent_sink =
  sk_doc_id :: string
  sk_entry_id :: string
  sk_started_at :: int
  sk_entry_index :: "nat option"
  sk_written :: "message_part list"
  sk_folded :: "message_part list"
  sk_dirty :: bool

definition sink_writer :: "subagent_sink \<Rightarrow> segment_writer option" where
  "sink_writer sk = map_option (\<lambda>ix. \<lparr>sw_entry_index = ix, sw_written = sk_written sk\<rparr>) (sk_entry_index sk)"

definition sub_doc :: "live_chat \<Rightarrow> string \<Rightarrow> session_doc" where
  "sub_doc lv i = (case bt_get (lv_subdocs lv) i of Some d \<Rightarrow> d | None \<Rightarrow> init_doc i)"

definition put_sub_doc :: "string \<Rightarrow> session_doc \<Rightarrow> live_chat \<Rightarrow> live_chat" where
  "put_sub_doc i d lv = lv\<lparr>lv_subdocs := bt_insert i d (lv_subdocs lv)\<rparr>"

definition sink_flush :: "subagent_sink \<Rightarrow> live_chat \<Rightarrow> live_chat \<times> subagent_sink" where
  "sink_flush sk lv =
     (if \<not> sk_dirty sk \<or> sk_folded sk = [] then (lv, sk)
      else case sync_segment (sk_entry_id sk) (lv_device lv) (sk_started_at sk) (sk_folded sk) (sub_doc lv (sk_doc_id sk), sink_writer sk) of
        Inr (d, Some w) \<Rightarrow>
          (put_sub_doc (sk_doc_id sk) d lv, sk\<lparr>sk_entry_index := Some (sw_entry_index w), sk_written := sw_written w, sk_dirty := False\<rparr>)
      | _ \<Rightarrow> (lv, sk\<lparr>sk_dirty := False\<rparr>))"

text \<open>The segment of a sink is closed: before a steer, or for good.\<close>

definition sink_close :: "message_status \<Rightarrow> subagent_sink \<Rightarrow> live_chat \<Rightarrow> live_chat" where
  "sink_close status sk lv =
     (case finish_segment (sk_entry_id sk) (lv_device lv) (sk_started_at sk) (sk_folded sk) status (sub_doc lv (sk_doc_id sk), sink_writer sk) of
        Inr d \<Rightarrow> put_sub_doc (sk_doc_id sk) d lv
      | Inl _ \<Rightarrow> lv)"

definition user_entry :: "string \<Rightarrow> string \<Rightarrow> string \<Rightarrow> int \<Rightarrow> message_entry" where
  "user_entry i text device now =
     \<lparr>me_id = i, me_role = User, me_parts = [Text ''t0'' text], me_created_at = now, me_device_id = device,
      me_status = Some Complete, me_continuation_of = None\<rparr>"

definition push_user :: "(nat \<Rightarrow> string) \<Rightarrow> int \<Rightarrow> string \<Rightarrow> subagent_sink \<Rightarrow> live_chat \<Rightarrow> live_chat \<times> subagent_sink" where
  "push_user uuid now text sk lv =
     (let lv = sink_close Complete sk lv;
          (i, lv) = draw uuid lv;
          lv = put_sub_doc (sk_doc_id sk) (push_message (user_entry i text (lv_device lv) now) (sub_doc lv (sk_doc_id sk))) lv;
          (i, lv) = draw uuid lv
      in (lv, sk\<lparr>sk_entry_id := i, sk_started_at := now, sk_entry_index := None, sk_written := [], sk_folded := [], sk_dirty := False\<rparr>))"

text \<open>The finished transcript of a subagent is frozen under the id of its document.\<close>

definition sink_finish :: "(json \<Rightarrow> string) \<Rightarrow> message_status \<Rightarrow> subagent_sink \<Rightarrow> live_chat \<Rightarrow> live_chat" where
  "sink_finish h status sk lv =
     (let lv = sink_close status sk lv
      in lv\<lparr>lv_frozen := lv_frozen lv @ [(sk_doc_id sk, join_continuation_entries (read_entries h (sub_doc lv (sk_doc_id sk))))]\<rparr>)"

fun subagent_chip_update :: "agent_event \<Rightarrow> string" where
  "subagent_chip_update (Done DoneErrored _ _ _) = ''failed''"
| "subagent_chip_update (Done _ _ _ _) = ''done''"
| "subagent_chip_update _ = ''running''"

definition stamp_chip :: "string \<Rightarrow> string option \<Rightarrow> string \<Rightarrow> live_chat \<Rightarrow> live_chat" where
  "stamp_chip pid sref status lv = lv\<lparr>lv_doc := fst (update_subagent_chip pid sref (Some status) None (lv_doc lv))\<rparr>"


section \<open>The run task\<close>

text \<open>
  First what is fixed for the run, then the local variables of the loop. \<open>rt_quiesce\<close> and \<open>rt_self_quiesce\<close> are the windows of the
  watchdog (\<open>None\<close>: off); \<open>rt_compact_at\<close> is the threshold for the model of the run; \<open>rt_retry\<close> is the request a failed
  start is tried again with.
\<close>

record run_task =
  rt_run_id :: string
  rt_steerable :: bool
  rt_user_prompt :: string
  rt_cwd :: string
  rt_compact_at :: nat
  rt_quiesce :: "nat option"
  rt_self_quiesce :: "nat option"
  rt_user_message_id :: string
  rt_resume_injected :: bool
  rt_startup_retry :: bool
  rt_retry :: "run_request option"
  rt_folded :: "message_part list"
  rt_seen_tools :: "string list"
  rt_entry_id :: string
  rt_segment_started :: int
  rt_writer :: "segment_writer option"
  rt_dirty :: bool
  rt_flush_at :: int
  rt_deadline :: "int option"
  rt_interrupted :: bool
  rt_saw_started :: bool
  rt_idle_since :: "int option"
  rt_last_activity :: int
  rt_self_continued :: bool
  rt_compact_pending :: bool
  rt_settled :: "string list"
  rt_subagents :: "(string, subagent_sink) btree"

text \<open>The task at the start of its loop.\<close>

definition new_run_task ::
    "string \<Rightarrow> bool \<Rightarrow> run_request \<Rightarrow> nat \<Rightarrow> nat option \<Rightarrow> nat option \<Rightarrow> string \<Rightarrow> bool \<Rightarrow> bool \<Rightarrow> int \<Rightarrow> string \<Rightarrow> run_task" where
  "new_run_task run steerable rq compact_at quiesce self_quiesce user_id injected retry now entry =
     \<lparr>rt_run_id = run, rt_steerable = steerable, rt_user_prompt = rq_prompt rq, rt_cwd = rq_cwd rq, rt_compact_at = compact_at,
      rt_quiesce = quiesce, rt_self_quiesce = self_quiesce, rt_user_message_id = user_id, rt_resume_injected = injected,
      rt_startup_retry = retry, rt_retry = Some (rq\<lparr>rq_resume := None, rq_mcp_servers := None\<rparr>), rt_folded = [], rt_seen_tools = [],
      rt_entry_id = entry, rt_segment_started = now, rt_writer = None, rt_dirty = False, rt_flush_at = now, rt_deadline = None,
      rt_interrupted = False, rt_saw_started = False, rt_idle_since = None, rt_last_activity = now, rt_self_continued = False,
      rt_compact_pending = False, rt_settled = [], rt_subagents = []\<rparr>"

text \<open>Where an iteration leaves the task: in the loop, out of it with the final status, or replaced by a retry.\<close>

datatype run_result = Going run_task | Break run_task session_status | Replaced

definition stream_commit_ms :: int where "stream_commit_ms = 120"

definition session_idle_ms :: int where "session_idle_ms = 30 * 60 * 1000"

definition resume_gate_ms :: int where "resume_gate_ms = 1000"

definition interrupt_grace_ms :: int where "interrupt_grace_ms = 3000"

fun part_in_flight :: "message_part \<Rightarrow> bool" where
  "part_in_flight (Tool t) = (\<not> tp_resolved t \<and> tp_id t \<noteq> live_plan_tool_id)"
| "part_in_flight (Input _ _ _ resolved) = (\<not> resolved)"
| "part_in_flight _ = False"

definition fold_has_in_flight_work :: "message_part list \<Rightarrow> bool" where
  "fold_has_in_flight_work folded = list_ex part_in_flight folded"

definition mark_dirty :: "int \<Rightarrow> run_task \<Rightarrow> run_task" where
  "mark_dirty now rt = (if rt_dirty rt then rt else rt\<lparr>rt_dirty := True, rt_flush_at := now + stream_commit_ms\<rparr>)"

text \<open>The segment is finished with a status; the writer is gone whether or not that works.\<close>

definition close_segment :: "message_status \<Rightarrow> live_chat \<Rightarrow> run_task \<Rightarrow> live_chat" where
  "close_segment status lv rt =
     (case finish_segment (rt_entry_id rt) (lv_device lv) (rt_segment_started rt) (rt_folded rt) status (lv_doc lv, rt_writer rt) of
        Inr d \<Rightarrow> lv\<lparr>lv_doc := d\<rparr>
      | Inl _ \<Rightarrow> lv)"

text \<open>The variables of a segment start over.\<close>

definition reset_segment :: "string \<Rightarrow> int \<Rightarrow> run_task \<Rightarrow> run_task" where
  "reset_segment i now rt =
     rt\<lparr>rt_folded := [], rt_writer := None, rt_dirty := False, rt_entry_id := i, rt_segment_started := now\<rparr>"

definition has_tool :: "string \<Rightarrow> message_part list \<Rightarrow> bool" where
  "has_tool i ps = list_ex (\<lambda>p. case p of Tool t \<Rightarrow> tp_id t = i | _ \<Rightarrow> False) ps"

fun is_done :: "agent_event \<Rightarrow> bool" where
  "is_done (Done _ _ _ _) = True"
| "is_done _ = False"

fun steer_text :: "agent_event \<Rightarrow> string option" where
  "steer_text (UserMessage text) = Some text"
| "steer_text _ = None"

fun subagent_final :: "agent_event \<Rightarrow> message_status" where
  "subagent_final (Done DoneInterrupted _ _ _) = Aborted"
| "subagent_final _ = Complete"

text \<open>A tagged event: the chip of the parent, the sink, and the document of the subagent.\<close>

definition open_sink ::
    "(nat \<Rightarrow> string) \<Rightarrow> (string \<Rightarrow> string) \<Rightarrow> int \<Rightarrow> bool \<Rightarrow> string \<Rightarrow> live_chat \<times> run_task \<Rightarrow> live_chat \<times> run_task" where
  "open_sink uuid hex now chip_streaming pid s =
     (case s of (lv, rt) \<Rightarrow>
        let sub_id = subagent_doc_id hex (lv_chat lv) pid;
            (i, lv) = draw uuid lv;
            lv = put_sub_doc sub_id (sub_doc lv sub_id) lv;
            sk = \<lparr>sk_doc_id = sub_id, sk_entry_id = i, sk_started_at = now, sk_entry_index = None, sk_written = [], sk_folded = [], sk_dirty = False\<rparr>;
            rt = rt\<lparr>rt_subagents := bt_insert pid sk (rt_subagents rt)\<rparr>
        in (if chip_streaming then lv else stamp_chip pid (Some sub_id) ''running'' lv, rt))"

definition feed_sink ::
    "(json \<Rightarrow> string) \<Rightarrow> (string \<Rightarrow> string \<Rightarrow> change_tag list) \<Rightarrow> (nat \<Rightarrow> string) \<Rightarrow> int \<Rightarrow> bool \<Rightarrow> string \<Rightarrow> agent_event \<Rightarrow>
     live_chat \<times> run_task \<Rightarrow> live_chat \<times> run_task" where
  "feed_sink h ld uuid now chip_streaming pid ev s =
     (case s of (lv, rt) \<Rightarrow>
        case bt_get (rt_subagents rt) pid of
          None \<Rightarrow> (lv, rt)
        | Some sk \<Rightarrow>
            (case steer_text ev of
               Some text \<Rightarrow>
                 (let (lv, sk) = push_user uuid now text sk lv in (lv, rt\<lparr>rt_subagents := bt_insert pid sk (rt_subagents rt)\<rparr>))
             | None \<Rightarrow>
                 let sk = sk\<lparr>sk_folded := fold_event_into_parts ld ev (sk_folded sk), sk_dirty := True\<rparr>;
                     lv = (if \<not> chip_streaming \<and> is_done ev then stamp_chip pid None (subagent_chip_update ev) lv else lv)
                 in if is_done ev
                    then (sink_finish h (subagent_final ev) sk lv, rt\<lparr>rt_subagents := bt_remove pid (rt_subagents rt)\<rparr>)
                    else (lv, rt\<lparr>rt_subagents := bt_insert pid sk (rt_subagents rt)\<rparr>)))"

text \<open>The chip in the fold: it learns the document of its subagent with the first event, and its state with every one.\<close>

definition refresh_chip ::
    "(string \<Rightarrow> string \<Rightarrow> change_tag list) \<Rightarrow> (string \<Rightarrow> string) \<Rightarrow> string \<Rightarrow> agent_event \<Rightarrow> bool \<Rightarrow> string \<Rightarrow> message_part list \<Rightarrow> message_part list" where
  "refresh_chip ld hex pid ev known chat ps =
     fold_event_into_parts ld (Subagent pid ev)
       (if known then ps else map (on_tool pid (\<lambda>t. t\<lparr>tp_subagent_ref := Some (subagent_doc_id hex chat pid)\<rparr>)) ps)"

definition route_subagent ::
    "(json \<Rightarrow> string) \<Rightarrow> (string \<Rightarrow> string \<Rightarrow> change_tag list) \<Rightarrow> (nat \<Rightarrow> string) \<Rightarrow> (string \<Rightarrow> string) \<Rightarrow> int \<Rightarrow> string \<Rightarrow> agent_event \<Rightarrow>
     live_chat \<times> run_task \<Rightarrow> live_chat \<times> run_task" where
  "route_subagent h ld uuid hex now pid ev s =
     (case s of (lv, rt) \<Rightarrow>
        let lv = publish (Subagent pid ev) lv;
            sink_known = bt_contains (rt_subagents rt) pid
        in if steer_text ev = None \<and> pid \<in> set (rt_settled rt) \<and> \<not> sink_known then (lv, rt)
           else
             let rt = (if steer_text ev \<noteq> None then rt\<lparr>rt_settled := filter (\<lambda>i. i \<noteq> pid) (rt_settled rt)\<rparr> else rt);
                 chip_streaming = has_tool pid (rt_folded rt);
                 rt = (if chip_streaming
                       then mark_dirty now (rt\<lparr>rt_folded := refresh_chip ld hex pid ev sink_known (lv_chat lv) (rt_folded rt)\<rparr>)
                       else rt);
                 (lv, rt) = (if \<not> sink_known \<and> \<not> is_done ev then open_sink uuid hex now chip_streaming pid (lv, rt) else (lv, rt));
                 rt = (if is_done ev then rt\<lparr>rt_settled := List.insert pid (rt_settled rt)\<rparr> else rt)
             in feed_sink h ld uuid now chip_streaming pid ev (lv, rt))"

section \<open>Gates\<close>

text \<open>A question only the input bridge may ask: one whose id has a resolver.\<close>

definition current_pending :: "live_chat \<Rightarrow> string list" where
  "current_pending lv =
     (case lv_run lv of None \<Rightarrow> [] | Some r \<Rightarrow> (case bt_get (lv_handles lv) r of None \<Rightarrow> [] | Some hn \<Rightarrow> rh_pending hn))"

fun unknown_question :: "live_chat \<Rightarrow> agent_event \<Rightarrow> bool" where
  "unknown_question lv (InputRequested rid _) = (rid \<notin> set (current_pending lv))"
| "unknown_question lv _ = False"

text \<open>Output that only a new turn of the agent can be: text, or a call of a tool not seen before.\<close>

fun fresh_output :: "run_task \<Rightarrow> agent_event \<Rightarrow> bool" where
  "fresh_output rt (TextDelta text) = (text \<noteq> [])"
| "fresh_output rt (ToolCall i _) = (i = live_plan_tool_id \<or> i \<notin> set (rt_seen_tools rt))"
| "fresh_output rt _ = False"

text \<open>What a parked session does with an event: \<open>None\<close> when the event goes no further.\<close>

definition decline_current :: "string \<Rightarrow> live_chat \<Rightarrow> live_chat" where
  "decline_current rid lv =
     (case lv_run lv of
        None \<Rightarrow> lv
      | Some r \<Rightarrow> (case bt_get (lv_handles lv) r of None \<Rightarrow> lv | Some hn \<Rightarrow> put_handle r (decline [rid] hn) lv))"

fun parked_boundary :: "int \<Rightarrow> agent_event \<Rightarrow> live_chat \<times> run_task \<Rightarrow> (live_chat \<times> run_task) option \<times> live_chat" where
  "parked_boundary now (Steered a b) (lv, rt) =
     (Some (set_status now Status_Working True lv, rt\<lparr>rt_idle_since := None\<rparr>), lv)"
| "parked_boundary now (Done a b c d) (lv, rt) = (Some (lv, rt\<lparr>rt_idle_since := None\<rparr>), lv)"
| "parked_boundary now (InputRequested rid _) (lv, rt) = (None, decline_current rid lv)"
| "parked_boundary now _ (lv, rt) = (None, lv)"

definition parked_gate ::
    "(nat \<Rightarrow> string) \<Rightarrow> int \<Rightarrow> agent_event \<Rightarrow> live_chat \<times> run_task \<Rightarrow> (live_chat \<times> run_task) option \<times> live_chat" where
  "parked_gate uuid now ev s =
     (case s of (lv, rt) \<Rightarrow>
        case rt_idle_since rt of
          None \<Rightarrow> (Some (lv, rt), lv)
        | Some at \<Rightarrow>
            if resume_gate_ms \<le> now - at \<and> fresh_output rt ev then
              (let (i, lv) = draw uuid lv
               in (Some (set_status now Status_Working True lv,
                         rt\<lparr>rt_idle_since := None, rt_self_continued := True, rt_entry_id := i, rt_segment_started := now\<rparr>), lv))
            else parked_boundary now ev (lv, rt))"

text \<open>An echo of a tool call that belongs to an earlier segment.\<close>

fun stale_echo :: "run_task \<Rightarrow> agent_event \<Rightarrow> bool" where
  "stale_echo rt (ToolCall i _) = (i \<noteq> live_plan_tool_id \<and> \<not> has_tool i (rt_folded rt) \<and> i \<in> set (rt_seen_tools rt))"
| "stale_echo rt (ToolResult i _ _ _) = (i \<noteq> live_plan_tool_id \<and> \<not> has_tool i (rt_folded rt) \<and> i \<in> set (rt_seen_tools rt))"
| "stale_echo rt _ = False"

fun note_tool :: "agent_event \<Rightarrow> run_task \<Rightarrow> run_task" where
  "note_tool (ToolCall i _) rt = (if i = live_plan_tool_id then rt else rt\<lparr>rt_seen_tools := List.insert i (rt_seen_tools rt)\<rparr>)"
| "note_tool _ rt = rt"

text \<open>A run that dies before it started, with a resume id the engine put in.\<close>

fun errored_done :: "agent_event \<Rightarrow> bool" where
  "errored_done (Done DoneErrored _ _ _) = True"
| "errored_done _ = False"

definition startup_crash :: "run_task \<Rightarrow> agent_event \<Rightarrow> bool" where
  "startup_crash rt ev =
     (rt_resume_injected rt \<and> \<not> rt_startup_retry rt \<and> \<not> rt_saw_started rt \<and> rt_folded rt = [] \<and> \<not> rt_interrupted rt \<and>
      errored_done ev \<and> rt_retry rt \<noteq> None)"


section \<open>Events\<close>

definition on_steered :: "(nat \<Rightarrow> string) \<Rightarrow> int \<Rightarrow> string option \<Rightarrow> string option \<Rightarrow> live_chat \<times> run_task \<Rightarrow> live_chat \<times> run_task" where
  "on_steered uuid now prev nxt s =
     (case s of (lv, rt) \<Rightarrow>
        let lv = publish (Steered prev nxt) lv;
            lv = close_segment Complete lv rt;
            lv = note_message (folded_text (rt_folded rt)) lv;
            (i, lv) = (case nxt of Some i \<Rightarrow> (i, lv) | None \<Rightarrow> draw uuid lv);
            lv = set_status now Status_Working True lv;
            lv = (case own_handle (rt_run_id rt) lv of
                    Some hn \<Rightarrow> put_handle (rt_run_id rt) (hn\<lparr>rh_ledger := drop 1 (rh_ledger hn)\<rparr>) lv
                  | None \<Rightarrow> lv)
        in (lv, reset_segment i now (rt\<lparr>rt_self_continued := False\<rparr>)))"

fun observe :: "int \<Rightarrow> agent_event \<Rightarrow> live_chat \<times> run_task \<Rightarrow> live_chat \<times> run_task" where
  "observe now (SessionStarted _ _ _ cwd sid _) (lv, rt) = (remember_harness_session sid cwd lv, rt\<lparr>rt_saw_started := True\<rparr>)"
| "observe now (Done _ _ _ (Some sid)) (lv, rt) = (remember_harness_session sid (rt_cwd rt) lv, rt)"
| "observe now (InputRequested _ _) (lv, rt) = (set_status now Status_AwaitingInput False lv, rt)"
| "observe now (InputResolved _) (lv, rt) = (set_status now Status_Working False lv, rt)"
| "observe now (Usage _ _ n) (lv, rt) =
     (if 0 < n then (set_context_tokens n lv, if rt_compact_at rt \<le> n then rt\<lparr>rt_compact_pending := True\<rparr> else rt) else (lv, rt))"
| "observe now _ s = s"

fun skip_fold :: "agent_event \<Rightarrow> message_part list \<Rightarrow> bool" where
  "skip_fold (SessionStarted _ _ _ _ _ _) folded = (folded \<noteq> [])"
| "skip_fold _ _ = False"

fun close_input :: "message_part \<Rightarrow> message_part" where
  "close_input (Input i r qs _) = Input i r qs True"
| "close_input p = p"

definition done_message_status :: "done_status \<Rightarrow> message_status" where
  "done_message_status st = (if st = DoneInterrupted then Aborted else Complete)"

definition compact_message :: steer_message where
  "compact_message = \<lparr>sm_prompt = ''/compact'', sm_message_id = None\<rparr>"

text \<open>The turn is over: questions are answered empty, the segment is finished, and the session parks, compacts or ends.\<close>

definition settle_turn :: "done_status \<Rightarrow> live_chat \<Rightarrow> run_task \<Rightarrow> live_chat \<times> run_task" where
  "settle_turn st lv rt =
     (let lv = (case own_handle (rt_run_id rt) lv of
                  Some hn \<Rightarrow> put_handle (rt_run_id rt) (decline (rh_pending hn) hn) lv
                | None \<Rightarrow> lv);
          rt = rt\<lparr>rt_folded := map close_input (rt_folded rt)\<rparr>;
          lv = (if rt_writer rt = None \<and> rt_folded rt = [] then lv
                else note_message (folded_text (rt_folded rt)) (close_segment (done_message_status st) lv rt));
          lv = (if st = DoneCompleted then lv\<lparr>lv_attempts := 0, lv_titles := lv_titles lv @ [rt_user_prompt rt]\<rparr> else lv)
      in (lv, rt\<lparr>rt_writer := None\<rparr>))"

definition send_compact :: "live_chat \<Rightarrow> run_task \<Rightarrow> live_chat option" where
  "send_compact lv rt =
     (case own_handle (rt_run_id rt) lv of
        None \<Rightarrow> None
      | Some hn \<Rightarrow> map_option (\<lambda>hn. put_handle (rt_run_id rt) hn lv) (mailbox_send compact_message hn))"

definition on_done :: "(nat \<Rightarrow> string) \<Rightarrow> int \<Rightarrow> done_status \<Rightarrow> live_chat \<times> run_task \<Rightarrow> live_chat \<times> run_result" where
  "on_done uuid now st s =
     (case s of (lv, rt) \<Rightarrow>
        let (lv, rt) = settle_turn st lv rt
        in if st = DoneCompleted \<and> rt_steerable rt \<and> \<not> rt_interrupted rt then
             (case (if rt_compact_pending rt then send_compact lv rt else None) of
                Some lv \<Rightarrow>
                  (let (i, lv) = draw uuid lv
                   in (lv, Going (reset_segment i now (rt\<lparr>rt_compact_pending := False, rt_saw_started := True, rt_self_continued := False\<rparr>))))
              | None \<Rightarrow>
                  (let (i, lv) = draw uuid lv
                   in (set_status now Status_Idle False lv,
                       Going (reset_segment i now (rt\<lparr>rt_compact_pending := False, rt_saw_started := True, rt_idle_since := Some now,
                         rt_self_continued := False\<rparr>)))))
           else (lv, Break rt (if st = DoneErrored then Status_Errored else Status_Idle)))"

fun done_status_of :: "agent_event \<Rightarrow> done_status option" where
  "done_status_of (Done st _ _ _) = Some st"
| "done_status_of _ = None"

text \<open>An event that passed the gates and is no steer boundary.\<close>

definition on_plain ::
    "(string \<Rightarrow> string \<Rightarrow> change_tag list) \<Rightarrow> (nat \<Rightarrow> string) \<Rightarrow> int \<Rightarrow> agent_event \<Rightarrow> live_chat \<times> run_task \<Rightarrow> live_chat \<times> run_result" where
  "on_plain ld uuid now ev s =
     (let (lv, rt) = observe now ev s;
          lv = publish ev lv;
          rt = (if skip_fold ev (rt_folded rt) then rt else rt\<lparr>rt_folded := fold_event_into_parts ld ev (rt_folded rt)\<rparr>)
      in case done_status_of ev of
           Some st \<Rightarrow> on_done uuid now st (lv, rt)
         | None \<Rightarrow> (lv, Going (if rt_folded rt = [] then rt else mark_dirty now rt)))"

fun boundary_of :: "agent_event \<Rightarrow> (string option \<times> string option) option" where
  "boundary_of (Steered a b) = Some (a, b)"
| "boundary_of _ = None"

text \<open>Every other event of the stream, from the freshness of the session on.\<close>

definition on_event ::
    "(string \<Rightarrow> string \<Rightarrow> change_tag list) \<Rightarrow> (nat \<Rightarrow> string) \<Rightarrow> int \<Rightarrow> agent_event \<Rightarrow> live_chat \<times> run_task \<Rightarrow> live_chat \<times> run_result" where
  "on_event ld uuid now ev s =
     (case s of (lv, rt) \<Rightarrow>
        let lv = touch_session now lv;
            rt = rt\<lparr>rt_last_activity := now\<rparr>
        in if unknown_question lv ev then (lv, Going rt)
           else case parked_gate uuid now ev (lv, rt) of
             (None, lv) \<Rightarrow> (lv, Going rt)
           | (Some (lv, rt), _) \<Rightarrow>
               if ev = ReasoningDelta [] then (lv, Going rt)
               else if stale_echo rt ev then (lv, Going rt)
               else
                 let rt = note_tool ev rt
                 in if startup_crash rt ev then
                      (let lv = remove_run (rt_run_id rt) lv
                       in (lv\<lparr>lv_respawn := lv_respawn lv @ [Retry (the (rt_retry rt)) (rt_user_message_id rt)]\<rparr>, Replaced))
                    else (case boundary_of ev of
                            Some (a, b) \<Rightarrow> (let (lv, rt) = on_steered uuid now a b (lv, rt) in (lv, Going rt))
                          | None \<Rightarrow> on_plain ld uuid now ev (lv, rt)))"

fun tagged :: "agent_event \<Rightarrow> (string \<times> agent_event) option" where
  "tagged (Subagent pid ev) = Some (pid, ev)"
| "tagged _ = None"

definition handle_event ::
    "(json \<Rightarrow> string) \<Rightarrow> (string \<Rightarrow> string \<Rightarrow> change_tag list) \<Rightarrow> (nat \<Rightarrow> string) \<Rightarrow> (string \<Rightarrow> string) \<Rightarrow> int \<Rightarrow> agent_event \<Rightarrow>
     live_chat \<times> run_task \<Rightarrow> live_chat \<times> run_result" where
  "handle_event h ld uuid hex now ev s =
     (case tagged ev of
        Some (pid, sub) \<Rightarrow> (let (lv, rt) = route_subagent h ld uuid hex now pid sub s in (lv, Going rt))
      | None \<Rightarrow> on_event ld uuid now ev s)"

section \<open>The loop\<close>

datatype run_input =
    InCancel
  | InDeadline
  | InHeartbeat
  | InReap
  | InEngine
  | InStream agent_event
  | InStreamError string
  | InStreamEnd
  | InFlush
  | InQuiesce

text \<open>The window of the watchdog; a turn the agent started itself has a shorter one.\<close>

definition quiesce_window :: "run_task \<Rightarrow> nat" where
  "quiesce_window rt =
     (let w = (case rt_quiesce rt of Some w \<Rightarrow> w | None \<Rightarrow> 0)
      in if rt_self_continued rt then (case rt_self_quiesce rt of Some v \<Rightarrow> min w v | None \<Rightarrow> w) else w)"

text \<open>The guards of the branches; a handle that left the map of runs has dropped its end of the cancel channel.\<close>

fun input_enabled :: "int \<Rightarrow> run_input \<Rightarrow> live_chat \<times> run_task \<Rightarrow> bool" where
  "input_enabled now InCancel (lv, rt) =
     (\<not> rt_interrupted rt \<and> (case own_handle (rt_run_id rt) lv of Some hn \<Rightarrow> rh_cancel hn | None \<Rightarrow> True))"
| "input_enabled now InDeadline (lv, rt) = (case rt_deadline rt of Some t \<Rightarrow> t \<le> now | None \<Rightarrow> False)"
| "input_enabled now InReap (lv, rt) = (case rt_idle_since rt of Some t \<Rightarrow> t + session_idle_ms \<le> now | None \<Rightarrow> False)"
| "input_enabled now InEngine (lv, rt) =
     (case bt_get (lv_handles lv) (rt_run_id rt) of Some hn \<Rightarrow> rh_engine hn \<noteq> [] | None \<Rightarrow> False)"
| "input_enabled now InFlush (lv, rt) =
     ((rt_dirty rt \<or> list_ex sk_dirty (bt_values (rt_subagents rt))) \<and> rt_flush_at rt \<le> now)"
| "input_enabled now InQuiesce (lv, rt) =
     (rt_quiesce rt \<noteq> None \<and> rt_idle_since rt = None \<and> \<not> rt_interrupted rt \<and> rt_steerable rt \<and>
      \<not> fold_has_in_flight_work (rt_folded rt) \<and> rt_last_activity rt + int (quiesce_window rt) \<le> now)"
| "input_enabled now _ _ = True"

definition interrupted_done :: agent_event where
  "interrupted_done = Done DoneInterrupted None None None"

fun flush_sinks :: "(string \<times> subagent_sink) list \<Rightarrow> live_chat \<Rightarrow> live_chat \<times> (string \<times> subagent_sink) list" where
  "flush_sinks [] lv = (lv, [])"
| "flush_sinks ((pid, sk) # sks) lv =
     (let (lv, sk) = sink_flush sk lv; (lv, sks) = flush_sinks sks lv in (lv, (pid, sk) # sks))"

definition on_flush :: "live_chat \<times> run_task \<Rightarrow> live_chat \<times> run_task" where
  "on_flush s =
     (case s of (lv, rt) \<Rightarrow>
        let (lv, rt) = (if \<not> rt_dirty rt then (lv, rt)
                        else case sync_segment (rt_entry_id rt) (lv_device lv) (rt_segment_started rt) (rt_folded rt) (lv_doc lv, rt_writer rt) of
                               Inr (d, w) \<Rightarrow> (lv\<lparr>lv_doc := d\<rparr>, rt\<lparr>rt_writer := w, rt_dirty := False\<rparr>)
                             | Inl _ \<Rightarrow> (lv, rt\<lparr>rt_dirty := False\<rparr>));
            (lv, sks) = flush_sinks (rt_subagents rt) lv
        in (lv, rt\<lparr>rt_subagents := sks\<rparr>))"

definition quiet_note :: string where
  "quiet_note = ''Turn settled '' @ em_dash @ '' agent went quiet.''"

text \<open>A turn that went silent without an end parks; a prompted one is marked as not cleanly ended.\<close>

definition on_quiesce :: "(string \<Rightarrow> string \<Rightarrow> change_tag list) \<Rightarrow> (nat \<Rightarrow> string) \<Rightarrow> int \<Rightarrow> live_chat \<times> run_task \<Rightarrow> live_chat \<times> run_task" where
  "on_quiesce ld uuid now s =
     (case s of (lv, rt) \<Rightarrow>
        let rt = (if rt_self_continued rt then rt else rt\<lparr>rt_folded := fold_event_into_parts ld (Error quiet_note) (rt_folded rt)\<rparr>);
            lv = (if rt_folded rt \<noteq> [] \<or> rt_writer rt \<noteq> None
                  then note_message (folded_text (rt_folded rt)) (close_segment Complete lv rt) else lv);
            (i, lv) = draw uuid lv;
            lv = set_status now (if rt_self_continued rt then Status_Idle else Status_Errored) False lv
        in (lv, reset_segment i now (rt\<lparr>rt_idle_since := Some now, rt_self_continued := False\<rparr>)))"

definition pop_engine :: "live_chat \<Rightarrow> run_task \<Rightarrow> agent_event option \<times> live_chat" where
  "pop_engine lv rt =
     (case bt_get (lv_handles lv) (rt_run_id rt) of
        None \<Rightarrow> (None, lv)
      | Some hn \<Rightarrow> (case rh_engine hn of
          [] \<Rightarrow> (None, lv)
        | e # es \<Rightarrow> (Some e, put_handle (rt_run_id rt) (hn\<lparr>rh_engine := es\<rparr>) lv)))"

definition on_reap :: "live_chat \<times> run_task \<Rightarrow> live_chat \<times> run_result" where
  "on_reap s =
     (case s of (lv, rt) \<Rightarrow>
        (case own_handle (rt_run_id rt) lv of Some hn \<Rightarrow> put_handle (rt_run_id rt) (hn\<lparr>rh_token := True\<rparr>) lv | None \<Rightarrow> lv,
         Break rt Status_Idle))"

fun run_step ::
    "(json \<Rightarrow> string) \<Rightarrow> (string \<Rightarrow> string \<Rightarrow> change_tag list) \<Rightarrow> (nat \<Rightarrow> string) \<Rightarrow> (string \<Rightarrow> string) \<Rightarrow> int \<Rightarrow> run_input \<Rightarrow>
     live_chat \<times> run_task \<Rightarrow> live_chat \<times> run_result" where
  "run_step h ld uuid hex now InCancel (lv, rt) = (lv, Going (rt\<lparr>rt_interrupted := True, rt_deadline := Some (now + interrupt_grace_ms)\<rparr>))"
| "run_step h ld uuid hex now InDeadline s = handle_event h ld uuid hex now interrupted_done s"
| "run_step h ld uuid hex now InHeartbeat (lv, rt) =
     (if rt_idle_since rt = None \<and> fold_has_in_flight_work (rt_folded rt) then touch_session now lv else lv, Going rt)"
| "run_step h ld uuid hex now InReap s = on_reap s"
| "run_step h ld uuid hex now InEngine (lv, rt) =
     (case pop_engine lv rt of
        (Some e, lv) \<Rightarrow> handle_event h ld uuid hex now e (lv, rt)
      | (None, lv) \<Rightarrow> (lv, Going rt))"
| "run_step h ld uuid hex now (InStream e) s = handle_event h ld uuid hex now e s"
| "run_step h ld uuid hex now (InStreamError err) (lv, rt) =
     (if rt_idle_since rt \<noteq> None then (lv, Break rt Status_Idle)
      else handle_event h ld uuid hex now (Done DoneErrored None (Some err) None) (lv, rt))"
| "run_step h ld uuid hex now InStreamEnd (lv, rt) =
     (if rt_interrupted rt then handle_event h ld uuid hex now interrupted_done (lv, rt)
      else if rt_idle_since rt \<noteq> None then (lv, Break rt Status_Idle)
      else handle_event h ld uuid hex now (Done DoneErrored None (Some ''harness stream ended without Done'') None) (lv, rt))"
| "run_step h ld uuid hex now InFlush s = (let (lv, rt) = on_flush s in (lv, Going rt))"
| "run_step h ld uuid hex now InQuiesce s = (let (lv, rt) = on_quiesce ld uuid now s in (lv, Going rt))"

section \<open>After the loop\<close>

definition freeze_sink :: "(json \<Rightarrow> string) \<Rightarrow> string \<times> subagent_sink \<Rightarrow> live_chat \<Rightarrow> live_chat" where
  "freeze_sink h p lv = (case p of (pid, sk) \<Rightarrow> sink_finish h Aborted sk (stamp_chip pid None ''failed'' lv))"

text \<open>Subagents freeze as they are; steers no boundary confirmed are claimed and, unless the user stopped the run, dispatched anew.\<close>

definition drain_ledger :: "run_task \<Rightarrow> live_chat \<Rightarrow> routed_steer list \<times> live_chat" where
  "drain_ledger rt lv =
     (case own_handle (rt_run_id rt) lv of
        Some hn \<Rightarrow> (rh_ledger hn, put_handle (rt_run_id rt) (hn\<lparr>rh_ledger := []\<rparr>) lv)
      | None \<Rightarrow> ([], lv))"

definition leave_run :: "int \<Rightarrow> run_task \<Rightarrow> session_status \<Rightarrow> routed_steer list \<Rightarrow> live_chat \<Rightarrow> live_chat" where
  "leave_run now rt st orphans lv =
     (let lv = set_status now st False (remove_run (rt_run_id rt) lv)
      in if \<not> rt_interrupted rt \<and> orphans \<noteq> [] then lv\<lparr>lv_respawn := lv_respawn lv @ [Redispatch orphans]\<rparr> else lv)"

definition end_run :: "(json \<Rightarrow> string) \<Rightarrow> int \<Rightarrow> run_task \<Rightarrow> session_status \<Rightarrow> live_chat \<Rightarrow> live_chat" where
  "end_run h now rt st lv =
     (let (orphans, lv) = drain_ledger rt (fold (freeze_sink h) (rt_subagents rt) lv) in leave_run now rt st orphans lv)"

text \<open>The adapter could not start: the events are journalled, the run is gone, the row says so.\<close>

definition start_failed :: "int \<Rightarrow> string \<Rightarrow> string \<Rightarrow> live_chat \<Rightarrow> live_chat" where
  "start_failed now run err lv =
     set_status now Status_Errored False (remove_run run
       (publish (Done DoneErrored None (Some err) None) (publish (Error err) lv)))"

end
