(* ===== verification/Run_Safety.thy ===== *)
theory Run_Safety
  imports Drive_Run
begin

text \<open>
  What every run guarantees, whatever its agent sends and whenever its timers fire: its writes to the document never
  fail, at most the segment being written is open, a parked session has nothing open, a turn in progress is shown as
  such, and a run that ended leaves no entry streaming.
\<close>

section \<open>Writes that fit\<close>

definition node_fits :: "message_part \<Rightarrow> node \<Rightarrow> bool" where
  "node_fits p n = (\<exists>pm. n = MapC pm \<and> (text_of p = None \<or> (\<exists>s. bt_get pm ''text'' = Some (TextC s))))"

definition same_kind :: "message_part \<Rightarrow> message_part \<Rightarrow> bool" where
  "same_kind p q = ((text_of p = None) = (text_of q = None))"

definition kinds_ok :: "message_part list \<Rightarrow> message_part list \<Rightarrow> bool" where
  "kinds_ok ws ps = (length ws \<le> length ps \<and> (\<forall>k < length ws. same_kind (ws ! k) (ps ! k)))"

definition writer_ok :: "segment_writer \<Rightarrow> session_doc \<Rightarrow> bool" where
  "writer_ok w d = (\<exists>m ns. sw_entry_index w < length (sd_messages d) \<and> sd_messages d ! sw_entry_index w = MapC m \<and>
     parts_of m = Some ns \<and> list_all2 node_fits (sw_written w) ns)"

lemma put_fields_text [simp]: "bt_get (put_fields d m) ''text'' = bt_get m ''text''"
  by (simp add: put_fields_def)

lemma text_of_doc: "text_of p = dp_text (to_doc_part p)"
  by (cases p) (simp_all add: empty_part_def)

lemma part_map_fits: "node_fits p (MapC (part_map p))"
  by (auto simp: node_fits_def part_map_def Let_def text_of_doc or_else_def split: option.split)

lemma update_part_fits:
  assumes "bt_get pm ''text'' = Some (TextC s) \<or> text_of p = None"
  shows "node_fits p (MapC (update_part_fields p pm))"
  using assms by (auto simp: node_fits_def update_part_fields_def Let_def text_of_doc split: option.split node.split)

lemma rewrite_part_fits:
  assumes "list_all2 node_fits written ns" "i < length written" "same_kind (written ! i) p"
  shows "\<exists>ns'. rewrite_part i p ns = Inr ns' \<and> list_all2 node_fits (written[i := p]) ns'"
proof -
  have len: "length ns = length written" using assms(1) by (simp add: list_all2_lengthD)
  obtain pm where pm: "ns ! i = MapC pm" "text_of (written ! i) = None \<or> (\<exists>s. bt_get pm ''text'' = Some (TextC s))"
    using list_all2_nthD [OF assms(1,2)] by (auto simp: node_fits_def)
  then have "node_fits p (MapC (update_part_fields p pm))"
    using assms(3) update_part_fits by (auto simp: same_kind_def)
  with assms(1,2) len pm(1) show ?thesis
    by (auto simp: rewrite_part_def part_map_at_def intro: list_all2_update_cong)
qed

lemma append_text_fits:
  assumes "list_all2 node_fits written ns" "i < length written" "text_of (written ! i) \<noteq> None"
  shows "\<exists>ns'. append_part_text i delta ns = Inr ns' \<and> list_all2 node_fits (written[i := p]) ns'"
proof -
  have len: "length ns = length written" using assms(1) by (simp add: list_all2_lengthD)
  obtain pm s where pm: "ns ! i = MapC pm" "bt_get pm ''text'' = Some (TextC s)"
    using list_all2_nthD [OF assms(1,2)] assms(3) by (auto simp: node_fits_def)
  have "node_fits p (MapC (bt_insert ''text'' t pm))" if "t = TextC u" for t u using that by (simp add: node_fits_def)
  moreover have "node_fits p (ns ! i)" using pm by (simp add: node_fits_def)
  then have "list_all2 node_fits (written[i := p]) ns" using list_all2_update_cong [OF assms(1), of p "ns ! i" i] by simp
  ultimately show ?thesis
    using assms(1,2) len pm by (auto simp: append_part_text_def part_map_at_def list_update_same_conv intro: list_all2_update_cong)
qed

lemma sync_part_fits:
  assumes "list_all2 node_fits written ns" "i \<le> length written" "i < length written \<Longrightarrow> same_kind (written ! i) p"
  shows "\<exists>ns'. sync_part i p (ns, written) = Inr (ns', take i written @ p # drop (Suc i) written) \<and>
    list_all2 node_fits (take i written @ p # drop (Suc i) written) ns'"
proof (cases "i < length written")
  case False
  with assms(1,2) show ?thesis
    by (auto simp: sync_part_def push_part_def part_map_fits intro!: list_all2_appendI)
next
  case True
  then have eq: "take i written @ p # drop (Suc i) written = written[i := p]" by (simp add: upd_conv_take_nth_drop)
  show ?thesis
  proof (cases "written ! i = p")
    case same: True
    then show ?thesis using assms(1) True unfolding eq by (auto simp: sync_part_def Let_def)
  next
    case diff: False
    have "\<exists>ns'. (case (written ! i, p) of
        (Text _ old, Text _ new) \<Rightarrow> if prefix old new then append_part_text i (drop (length old) new) ns else rewrite_part i p ns
      | _ \<Rightarrow> rewrite_part i p ns) = Inr ns' \<and> list_all2 node_fits (written[i := p]) ns'"
      using append_text_fits [OF assms(1) True] rewrite_part_fits [OF assms(1) True assms(3) [OF True]]
      by (cases "written ! i"; cases p) auto
    then show ?thesis using True diff unfolding eq by (auto simp: sync_part_def Let_def)
  qed
qed

lemma sync_parts_fits:
  "list_all2 node_fits written ns \<Longrightarrow> i \<le> length written \<Longrightarrow>
   (\<And>k. k < length ps \<Longrightarrow> i + k < length written \<Longrightarrow> same_kind (written ! (i + k)) (ps ! k)) \<Longrightarrow>
   \<exists>ns'. sync_parts i ps (ns, written) = Inr (ns', take i written @ ps @ drop (i + length ps) written) \<and>
     list_all2 node_fits (take i written @ ps @ drop (i + length ps) written) ns'"
proof (induction ps arbitrary: i ns written)
  case (Cons p ps)
  let ?w = "take i written @ p # drop (Suc i) written"
  obtain ns' where step: "sync_part i p (ns, written) = Inr (ns', ?w)" and fits: "list_all2 node_fits ?w ns'"
    using sync_part_fits [OF Cons.prems(1,2)] Cons.prems(3) [of 0] by auto
  have kinds: "same_kind (?w ! (Suc i + k)) (ps ! k)" if "k < length ps" "Suc i + k < length ?w" for k
  proof -
    have "?w ! (Suc i + k) = written ! (i + Suc k)" using that Cons.prems(2) by (auto simp: nth_append min_def split: if_splits)
    then show ?thesis using Cons.prems(3) [of "Suc k"] that Cons.prems(2) by (simp add: min_def split: if_splits)
  qed
  have "Suc i \<le> length ?w" using Cons.prems(2) by simp
  then obtain ns'' where "sync_parts (Suc i) ps (ns', ?w) = Inr (ns'', take (Suc i) ?w @ ps @ drop (Suc i + length ps) ?w)"
    "list_all2 node_fits (take (Suc i) ?w @ ps @ drop (Suc i + length ps) ?w) ns''"
    using Cons.IH [OF fits] kinds by blast
  moreover have "take (Suc i) ?w = take i written @ [p]" "drop (Suc i + length ps) ?w = drop (i + length (p # ps)) written"
    using Cons.prems(2) by (auto simp: min_def add.commute)
  ultimately show ?case using step by simp
qed simp


section \<open>Open entries\<close>

definition status_of :: "node \<Rightarrow> message_status option" where
  "status_of n = (case deep n of JObj fs \<Rightarrow> lax parse_message_status fs ''status'' | _ \<Rightarrow> None)"

definition open_at :: "session_doc \<Rightarrow> nat \<Rightarrow> bool" where
  "open_at d i = (i < length (sd_messages d) \<and> status_of (sd_messages d ! i) = Some Streaming)"

lemma status_of_map: "status_of (MapC m) = Option.bind (map_option deep (bt_get m ''status'')) parse_message_status"
  by (simp add: status_of_def lax_def bt_get_deep)

lemma entry_status_read:
  assumes "entry_from_json h (deep n) = Some e" "me_status e = Some Streaming"
  shows "status_of n = Some Streaming"
proof (cases "deep n")
  case (JObj fs)
  have "lax parse_message_status fs ''status'' = Some Streaming"
  proof (cases "parse_entry (deep n)")
    case None
    then show ?thesis using assms JObj by (auto simp: entry_from_json_def Let_def)
  next
    case (Some e')
    then have "opt parse_message_status fs ''status'' = Some (Some Streaming)"
      using assms JObj by (auto simp: entry_from_json_def bind_eq_Some_conv)
    then show ?thesis by (auto simp: opt_def opt_of_def lax_def split: option.splits if_splits)
  qed
  with JObj show ?thesis by (simp add: status_of_def)
qed (use assms in \<open>auto simp: entry_from_json_def\<close>)

lemma read_entries_open:
  assumes "e \<in> set (read_entries h d)" "me_status e = Some Streaming"
  shows "\<exists>i. open_at d i"
proof -
  obtain n where "n \<in> set (sd_messages d)" "entry_from_json h (deep n) = Some e"
    using assms(1) by (auto simp: read_entries_def List.map_filter_def)
  then show ?thesis using entry_status_read [OF _ assms(2)] by (metis in_set_conv_nth open_at_def)
qed

lemma writer_sync_ok:
  assumes "writer_ok w d" "kinds_ok (sw_written w) ps"
  shows "\<exists>d'. writer_sync ps w d = Inr (d', w\<lparr>sw_written := ps\<rparr>) \<and> writer_ok (w\<lparr>sw_written := ps\<rparr>) d' \<and> open_at d' = open_at d \<and>
    length (sd_messages d') = length (sd_messages d)"
proof -
  let ?i = "sw_entry_index w"
  obtain m ns where m: "?i < length (sd_messages d)" "sd_messages d ! ?i = MapC m" "parts_of m = Some ns" "list_all2 node_fits (sw_written w) ns"
    using assms(1) by (auto simp: writer_ok_def)
  obtain ns' where sync: "sync_parts 0 ps (ns, sw_written w) = Inr (ns', ps)" "list_all2 node_fits ps ns'"
    using sync_parts_fits [OF m(4), of 0 ps] assms(2) by (auto simp: kinds_ok_def)
  let ?d = "set_entry ?i (bt_insert ''parts'' (ListC ns') m) d"
  have "writer_sync ps w d = Inr (?d, w\<lparr>sw_written := ps\<rparr>)"
    using m sync(1) by (simp add: writer_sync_def entry_map_def parts_list_def)
  moreover have "writer_ok (w\<lparr>sw_written := ps\<rparr>) ?d"
    using m(1) sync(2) by (simp add: writer_ok_def set_entry_def parts_of_def)
  moreover have "open_at ?d = open_at d"
    using m(1,2) by (auto simp: open_at_def set_entry_def nth_list_update status_of_map fun_eq_iff)
  ultimately show ?thesis by (auto simp: set_entry_def)
qed

lemma writer_finish_ok:
  assumes "writer_ok w d" "kinds_ok (sw_written w) ps" "st \<noteq> Streaming"
  shows "\<exists>d'. writer_finish ps st w d = Inr d' \<and> (\<forall>i. open_at d' i \<longleftrightarrow> open_at d i \<and> i \<noteq> sw_entry_index w)"
proof -
  obtain d1 where d1: "writer_sync ps w d = Inr (d1, w\<lparr>sw_written := ps\<rparr>)" "writer_ok (w\<lparr>sw_written := ps\<rparr>) d1" "open_at d1 = open_at d"
    using writer_sync_ok [OF assms(1,2)] by auto
  then obtain m where m: "sw_entry_index w < length (sd_messages d1)" "sd_messages d1 ! sw_entry_index w = MapC m"
    by (auto simp: writer_ok_def)
  let ?d = "set_entry (sw_entry_index w) (bt_insert ''status'' (vstr (message_status_str st)) m) d1"
  have "writer_finish ps st w d = Inr ?d" using d1(1) m by (simp add: writer_finish_def entry_map_def)
  moreover have "open_at ?d i \<longleftrightarrow> open_at d1 i \<and> i \<noteq> sw_entry_index w" for i
    using m(1) assms(3) by (auto simp: open_at_def set_entry_def nth_list_update status_of_map)
  ultimately show ?thesis using d1(3) by auto
qed

lemma writer_begin_ok:
  assumes "writer_begin i dev at d = (d', w)"
  shows "writer_ok w d'" "sw_written w = []" "sw_entry_index w = length (sd_messages d)"
    "open_at d' k \<longleftrightarrow> open_at d k \<or> k = length (sd_messages d)"
  using assms parse_message_status_str [of Streaming]
  by (auto simp: writer_begin_def writer_ok_def parts_of_def open_at_def nth_append status_of_map write_entry_scalar_fields_def
      or_else_def less_Suc_eq)


definition segment_ok :: "session_doc \<Rightarrow> segment_writer option \<Rightarrow> message_part list \<Rightarrow> bool" where
  "segment_ok d writer folded =
     (case writer of None \<Rightarrow> True | Some w \<Rightarrow> folded \<noteq> [] \<and> writer_ok w d \<and> kinds_ok (sw_written w) (render_parts folded))"

lemma kinds_ok_Nil [simp]: "kinds_ok [] ps"
  by (simp add: kinds_ok_def)

lemma kinds_ok_refl [simp]: "kinds_ok ps ps"
  by (simp add: kinds_ok_def same_kind_def)

lemma finish_segment_ok:
  assumes "segment_ok d writer folded" "st \<noteq> Streaming"
  shows "\<exists>d'. finish_segment i dev at folded st (d, writer) = Inr d' \<and>
    (\<forall>k. open_at d' k \<longleftrightarrow> open_at d k \<and> (case writer of None \<Rightarrow> True | Some w \<Rightarrow> k \<noteq> sw_entry_index w))"
proof (cases writer)
  case (Some w)
  then show ?thesis using writer_finish_ok [of w d "render_parts folded" st] assms by (auto simp: finish_segment_def segment_ok_def)
next
  case None
  obtain d1 w where b: "writer_begin i dev at d = (d1, w)" by fastforce
  note ok = writer_begin_ok [OF b]
  obtain d2 where "writer_finish (render_parts folded) st w d1 = Inr d2" "\<forall>k. open_at d2 k \<longleftrightarrow> open_at d1 k \<and> k \<noteq> sw_entry_index w"
    using writer_finish_ok [OF ok(1) _ assms(2)] ok(2) by auto
  moreover have "\<not> open_at d (length (sd_messages d))" by (simp add: open_at_def)
  ultimately show ?thesis using None b ok(3,4) by (auto simp: finish_segment_def)
qed

lemma sync_segment_ok:
  assumes "segment_ok d writer folded" "folded \<noteq> []"
  shows "\<exists>d' w. sync_segment i dev at folded (d, writer) = Inr (d', Some w) \<and> segment_ok d' (Some w) folded \<and>
    (\<forall>k. open_at d' k \<longrightarrow> k = sw_entry_index w \<or> open_at d k \<and> (\<forall>v. writer = Some v \<longrightarrow> sw_entry_index v = sw_entry_index w))"
proof (cases writer)
  case (Some w)
  then obtain d' where "writer_sync (render_parts folded) w d = Inr (d', w\<lparr>sw_written := render_parts folded\<rparr>)"
      "writer_ok (w\<lparr>sw_written := render_parts folded\<rparr>) d'" "open_at d' = open_at d"
    using writer_sync_ok [of w d "render_parts folded"] assms by (auto simp: segment_ok_def)
  with Some assms(2) show ?thesis by (auto simp: sync_segment_def segment_ok_def)
next
  case None
  obtain d1 w where b: "writer_begin i dev at d = (d1, w)" by fastforce
  note ok = writer_begin_ok [OF b]
  obtain d' where "writer_sync (render_parts folded) w d1 = Inr (d', w\<lparr>sw_written := render_parts folded\<rparr>)"
      "writer_ok (w\<lparr>sw_written := render_parts folded\<rparr>) d'" "open_at d' = open_at d1"
    using writer_sync_ok [OF ok(1), of "render_parts folded"] ok(2) by auto
  with None b ok(3,4) assms(2) show ?thesis by (auto simp: sync_segment_def segment_ok_def)
qed

section \<open>Chips stamped in place\<close>

lemma update_first_nth: "update_first f xs = Some ys \<Longrightarrow> \<exists>k y. k < length xs \<and> f (xs ! k) = Some y \<and> ys = xs[k := y]"
proof (induction xs arbitrary: ys)
  case (Cons x xs)
  show ?case
  proof (cases "f x")
    case None
    with Cons.prems obtain zs where "update_first f xs = Some zs" "ys = x # zs" by auto
    with Cons.IH obtain k y where "k < length xs" "f (xs ! k) = Some y" "zs = xs[k := y]" by blast
    then show ?thesis using \<open>ys = x # zs\<close> by (intro exI [of _ "Suc k"] exI [of _ y]) simp
  next
    case (Some y)
    with Cons.prems show ?thesis by (intro exI [of _ 0]) simp
  qed
qed simp

lemma on_part_keeps:
  assumes "on_part f n = Some n'" "\<And>pm pm'. f pm = Some pm' \<Longrightarrow> bt_get pm' ''text'' = bt_get pm ''text''"
  shows "status_of n' = status_of n \<and> (\<forall>m ns ps. n = MapC m \<longrightarrow> parts_of m = Some ns \<longrightarrow> list_all2 node_fits ps ns \<longrightarrow>
    (\<exists>m' ns'. n' = MapC m' \<and> parts_of m' = Some ns' \<and> list_all2 node_fits ps ns'))"
proof -
  obtain m ns ns' where n: "n = MapC m" "parts_of m = Some ns" "n' = MapC (bt_insert ''parts'' (ListC ns') m)"
    and up: "update_first (\<lambda>p. do { pm \<leftarrow> map_at p; pm' \<leftarrow> f pm; Some (MapC pm') }) ns = Some ns'"
    using assms(1) by (cases n) (auto simp: on_part_def bind_eq_Some_conv)
  obtain k pm pm' where k: "k < length ns" "ns ! k = MapC pm" "f pm = Some pm'" "ns' = ns[k := MapC pm']"
    using update_first_nth [OF up] by (auto simp: bind_eq_Some_conv elim!: map_at.elims)
  have "list_all2 node_fits ps ns'" if "list_all2 node_fits ps ns" for ps
  proof -
    have "node_fits (ps ! k) (MapC pm')"
      using list_all2_nthD2 [OF that k(1)] k(2) assms(2) [OF k(3)] by (auto simp: node_fits_def)
    then have "list_all2 node_fits (ps[k := ps ! k]) ns'" using that unfolding k(4) by (intro list_all2_update_cong)
    then show ?thesis by simp
  qed
  with n show ?thesis by (auto simp: status_of_map parts_of_def)
qed

lemma stamp_chip_ok:
  "open_at (lv_doc (stamp_chip pid sref st lv)) = open_at (lv_doc lv)"
  "segment_ok (lv_doc lv) writer folded \<Longrightarrow> segment_ok (lv_doc (stamp_chip pid sref st lv)) writer folded"
proof -
  let ?f = "\<lambda>pm. if field_is pm ''kind'' ''tool'' \<and> field_is pm ''id'' pid
     then Some (put ''subagentTail'' (map_option vstr None) (put ''subagentStatus'' (map_option vstr (Some st))
            (put ''subagentRef'' (map_option vstr sref) pm))) else None"
  let ?d = "lv_doc lv" and ?d' = "lv_doc (stamp_chip pid sref st lv)"
  have keeps: "bt_get pm' ''text'' = bt_get pm ''text''" if "?f pm = Some pm'" for pm pm' using that by (auto split: if_splits)
  have "?d' = ?d \<or> (\<exists>k n'. k < length (sd_messages ?d) \<and> on_part ?f (sd_messages ?d ! k) = Some n' \<and> sd_messages ?d' = (sd_messages ?d)[k := n'])"
  proof (cases "update_first (on_part ?f) (rev (sd_messages ?d))")
    case None
    then show ?thesis by (simp add: stamp_chip_def update_subagent_chip_def set_messages_def)
  next
    case (Some ys)
    then obtain k n' where k: "k < length (sd_messages ?d)" "on_part ?f (rev (sd_messages ?d) ! k) = Some n'" "ys = (rev (sd_messages ?d))[k := n']"
      using update_first_nth [OF Some] by auto
    then have "sd_messages ?d' = (sd_messages ?d)[length (sd_messages ?d) - Suc k := n']"
      using Some by (simp add: stamp_chip_def update_subagent_chip_def set_messages_def rev_update)
    then show ?thesis
      using k by (intro disjI2 exI [of _ "length (sd_messages ?d) - Suc k"] exI [of _ n']) (simp add: rev_nth)
  qed
  then consider "?d' = ?d" | k n' where "k < length (sd_messages ?d)" "on_part ?f (sd_messages ?d ! k) = Some n'" "sd_messages ?d' = (sd_messages ?d)[k := n']"
    by blast
  note doc = this
  from doc show "open_at ?d' = open_at ?d"
  proof cases
    case 2
    then show ?thesis using on_part_keeps [OF 2(2) keeps] by (auto simp: open_at_def fun_eq_iff nth_list_update)
  qed simp
  assume ok: "segment_ok ?d writer folded"
  from doc show "segment_ok ?d' writer folded"
  proof cases
    case 2
    have "writer_ok w ?d'" if "writer_ok w ?d" for w
      using that on_part_keeps [OF 2(2) keeps] 2(1,3) by (cases "k = sw_entry_index w") (auto simp: writer_ok_def)
    then show ?thesis using ok by (auto simp: segment_ok_def split: option.splits)
  qed (use ok in simp)
qed


section \<open>Parts keep their kind\<close>

lemma kinds_ok_trans: "kinds_ok a b \<Longrightarrow> kinds_ok b c \<Longrightarrow> kinds_ok a c"
  by (auto simp: kinds_ok_def same_kind_def)

lemma kinds_ok_map: "(\<And>p. text_of (f p) = None \<longleftrightarrow> text_of p = None) \<Longrightarrow> kinds_ok ps (map f ps)"
  by (simp add: kinds_ok_def same_kind_def)

lemma kinds_ok_append [simp]: "kinds_ok ps (ps @ qs)"
  by (simp add: kinds_ok_def same_kind_def nth_append)

lemma text_of_render [simp]: "text_of (render_part p) = text_of p"
  by (cases p) simp_all

lemma kinds_ok_render: "kinds_ok a b \<Longrightarrow> kinds_ok (render_parts a) (render_parts b)"
  by (simp add: kinds_ok_def same_kind_def render_parts_def)

lemma push_text_kinds: "kinds_ok out (push_text t out)"
  by (cases out rule: rev_cases)
    (auto simp: push_text_def kinds_ok_def same_kind_def nth_append split: message_part.split)

lemma refresh_kinds: "refresh_call i call ps = Some qs \<Longrightarrow> kinds_ok ps qs \<and> length qs = length ps"
proof (induction i call ps arbitrary: qs rule: refresh_call.induct)
  case (2 i call t ps)
  then show ?case by (auto simp: kinds_ok_def same_kind_def nth_Cons split: if_splits nat.splits)
qed (auto simp: kinds_ok_def same_kind_def nth_Cons split: nat.splits)

fun resets_fold :: "agent_event \<Rightarrow> bool" where
  "resets_fold (SessionStarted _ _ _ _ _ _) = True"
| "resets_fold (Steered _ _) = True"
| "resets_fold _ = False"

lemma fold_kinds: "\<not> resets_fold ev \<Longrightarrow> kinds_ok out (fold_event_into_parts ld ev out)"
proof (cases ev)
  case (InputResolved rid)
  have "text_of (resolve_input_part rid p) = None \<longleftrightarrow> text_of p = None" for p by (cases p) simp_all
  then show ?thesis using InputResolved by (simp add: kinds_ok_map)
qed (auto simp: push_text_kinds kinds_ok_map Let_def refresh_kinds split: option.split)

lemma kinds_ok_nonempty: "kinds_ok a b \<Longrightarrow> a \<noteq> [] \<Longrightarrow> b \<noteq> []"
  by (auto simp: kinds_ok_def)

lemma segment_ok_grow: "segment_ok d w a \<Longrightarrow> kinds_ok a b \<Longrightarrow> segment_ok d w b"
  by (auto simp: segment_ok_def split: option.splits intro: kinds_ok_trans kinds_ok_render dest: kinds_ok_nonempty)

section \<open>The invariant\<close>

text \<open>Only the segment being written is open, and a parked session has none.\<close>

definition shown_active :: "live_chat \<Rightarrow> bool" where
  "shown_active lv = (case lv_status lv of Some s \<Rightarrow> active (ss_status s) | None \<Rightarrow> False)"

definition seg_inv :: "live_chat \<Rightarrow> run_task \<Rightarrow> bool" where
  "seg_inv lv rt = (segment_ok (lv_doc lv) (rt_writer rt) (rt_folded rt) \<and>
     (\<forall>i. open_at (lv_doc lv) i \<longrightarrow> map_option sw_entry_index (rt_writer rt) = Some i))"

definition run_inv :: "live_chat \<Rightarrow> run_task \<Rightarrow> bool" where
  "run_inv lv rt = (seg_inv lv rt \<and>
     (rt_idle_since rt \<noteq> None \<longrightarrow> rt_folded rt = [] \<and> rt_writer rt = None \<and> \<not> rt_dirty rt))"

text \<open>A turn in progress is shown as one.\<close>

definition shown :: "live_chat \<Rightarrow> run_task \<Rightarrow> bool" where
  "shown lv rt = (rt_idle_since rt = None \<longrightarrow> shown_active lv)"

named_theorems doc_frame \<open>operations that leave the document of the chat alone\<close>

lemma doc_frames [doc_frame, simp]:
  "lv_doc (publish e lv) = lv_doc lv"
  "lv_doc (snd (draw uuid lv)) = lv_doc lv"
  "lv_doc (set_status now st f lv) = lv_doc lv"
  "lv_doc (touch_session now lv) = lv_doc lv"
  "lv_doc (set_context_tokens n lv) = lv_doc lv"
  "lv_doc (note_message t lv) = lv_doc lv"
  "lv_doc (remember_harness_session sid cwd lv) = lv_doc lv"
  "lv_doc (remove_run r lv) = lv_doc lv"
  "lv_doc (put_handle r hn lv) = lv_doc lv"
  "lv_doc (put_sub_doc i d lv) = lv_doc lv"
  "lv_doc (decline_current rid lv) = lv_doc lv"
  by (simp_all add: publish_def draw_def set_status_def touch_session_def set_context_tokens_def note_message_def
      remember_harness_session_def remove_run_def put_handle_def put_sub_doc_def decline_current_def Let_def split: option.split)

lemma status_frames [simp]:
  "lv_status (publish e lv) = lv_status lv"
  "lv_status (snd (draw uuid lv)) = lv_status lv"
  "lv_status (note_message t lv) = lv_status lv"
  "lv_status (remember_harness_session sid cwd lv) = lv_status lv"
  "lv_status (remove_run r lv) = lv_status lv"
  "lv_status (put_handle r hn lv) = lv_status lv"
  "lv_status (put_sub_doc i d lv) = lv_status lv"
  "lv_status (stamp_chip pid sref st lv) = lv_status lv"
  "lv_status (decline_current rid lv) = lv_status lv"
  "lv_status (close_segment ms lv rt) = lv_status lv"
  by (simp_all add: publish_def draw_def note_message_def remember_harness_session_def remove_run_def put_handle_def put_sub_doc_def
      stamp_chip_def decline_current_def close_segment_def split: option.split sum.split)

lemma shown_active_status [simp]:
  "shown_active (set_status now st f lv) \<longleftrightarrow> active st"
  "shown_active (touch_session now lv) \<longleftrightarrow> shown_active lv"
  "shown_active (set_context_tokens n lv) \<longleftrightarrow> shown_active lv"
  by (auto simp: shown_active_def set_status_def touch_session_def set_context_tokens_def Let_def split: option.split)

lemma shown_active_frames [simp]:
  "shown_active (publish e lv) \<longleftrightarrow> shown_active lv"
  "shown_active (remember_harness_session sid cwd lv) \<longleftrightarrow> shown_active lv"
  by (simp_all add: shown_active_def)

lemma close_segment_ok:
  assumes "seg_inv lv rt" "st \<noteq> Streaming"
  shows "\<not> open_at (lv_doc (close_segment st lv rt)) i"
proof -
  obtain d where "finish_segment (rt_entry_id rt) (lv_device lv) (rt_segment_started rt) (rt_folded rt) st (lv_doc lv, rt_writer rt) = Inr d"
      "\<forall>k. open_at d k \<longleftrightarrow> open_at (lv_doc lv) k \<and> (case rt_writer rt of None \<Rightarrow> True | Some w \<Rightarrow> k \<noteq> sw_entry_index w)"
    using finish_segment_ok [OF _ assms(2), of "lv_doc lv" "rt_writer rt" "rt_folded rt"] assms(1) unfolding seg_inv_def by blast
  then show ?thesis using assms(1) by (auto simp: close_segment_def seg_inv_def split: option.splits)
qed

lemma seg_inv_reset: "(\<And>k. \<not> open_at (lv_doc lv) k) \<Longrightarrow> seg_inv lv (reset_segment i now rt)"
  by (simp add: seg_inv_def reset_segment_def segment_ok_def)

lemma seg_inv_cong:
  "lv_doc lv' = lv_doc lv \<Longrightarrow> rt_writer rt' = rt_writer rt \<Longrightarrow> rt_folded rt' = rt_folded rt \<Longrightarrow> seg_inv lv' rt' = seg_inv lv rt"
  by (simp add: seg_inv_def)

lemma seg_inv_grow:
  "seg_inv lv rt \<Longrightarrow> lv_doc lv' = lv_doc lv \<Longrightarrow> rt_writer rt' = rt_writer rt \<Longrightarrow> kinds_ok (rt_folded rt) (rt_folded rt') \<Longrightarrow> seg_inv lv' rt'"
  by (auto simp: seg_inv_def intro: segment_ok_grow)


section \<open>Steps\<close>

lemma sink_close_frame [simp]:
  "lv_doc (sink_close ms sk lv) = lv_doc lv" "lv_status (sink_close ms sk lv) = lv_status lv"
  by (simp_all add: sink_close_def split: sum.split)

lemma push_user_frame [simp]:
  "lv_doc (fst (push_user uuid now t sk lv)) = lv_doc lv" "lv_status (fst (push_user uuid now t sk lv)) = lv_status lv"
  by (simp_all add: push_user_def Let_def draw_def)

lemma sink_finish_frame [simp]:
  "lv_doc (sink_finish h ms sk lv) = lv_doc lv" "lv_status (sink_finish h ms sk lv) = lv_status lv"
  by (simp_all add: sink_finish_def Let_def)

lemma sink_flush_frame [simp]:
  "lv_doc (fst (sink_flush sk lv)) = lv_doc lv" "lv_status (fst (sink_flush sk lv)) = lv_status lv"
  by (simp_all add: sink_flush_def split: sum.split option.split prod.split)

lemma flush_sinks_frame [simp]:
  "lv_doc (fst (flush_sinks sks lv)) = lv_doc lv \<and> lv_status (fst (flush_sinks sks lv)) = lv_status lv"
proof (induction sks arbitrary: lv)
  case (Cons p sks)
  obtain pid sk lv1 sk1 where p: "p = (pid, sk)" "sink_flush sk lv = (lv1, sk1)" by (cases p) fastforce
  obtain lv2 sks2 where q: "flush_sinks sks lv1 = (lv2, sks2)" by fastforce
  have "lv_doc lv1 = lv_doc lv" "lv_status lv1 = lv_status lv" using sink_flush_frame [of sk lv] p(2) by auto
  moreover have "lv_doc lv2 = lv_doc lv1" "lv_status lv2 = lv_status lv1" using Cons.IH [of lv1] q by auto
  ultimately show ?case using p q by simp
qed simp

text \<open>What a tagged event may touch of the parent: the parts of its chip, in the fold or in the document.\<close>

definition chip_frame :: "live_chat \<times> run_task \<Rightarrow> live_chat \<times> run_task \<Rightarrow> bool" where
  "chip_frame s s' = (case (s, s') of ((lv, rt), (lv', rt')) \<Rightarrow>
     open_at (lv_doc lv') = open_at (lv_doc lv) \<and> (\<forall>w ps. segment_ok (lv_doc lv) w ps \<longrightarrow> segment_ok (lv_doc lv') w ps) \<and>
     lv_status lv' = lv_status lv \<and> rt_writer rt' = rt_writer rt \<and> rt_folded rt' = rt_folded rt \<and> rt_dirty rt' = rt_dirty rt \<and>
     rt_idle_since rt' = rt_idle_since rt \<and> rt_compact_pending rt' = rt_compact_pending rt \<and> rt_interrupted rt' = rt_interrupted rt \<and>
     rt_run_id rt' = rt_run_id rt \<and> rt_entry_id rt' = rt_entry_id rt \<and> rt_seen_tools rt' = rt_seen_tools rt \<and>
     lv_journal lv' = lv_journal lv \<and> lv_handles lv' = lv_handles lv \<and> lv_run lv' = lv_run lv \<and>
     lv_respawn lv' = lv_respawn lv)"

lemma chip_frame_refl [simp]: "chip_frame s s"
  by (auto simp: chip_frame_def split: prod.split)

lemma stamp_frames [simp]:
  "lv_journal (stamp_chip pid sref st lv) = lv_journal lv" "lv_handles (stamp_chip pid sref st lv) = lv_handles lv"
  "lv_run (stamp_chip pid sref st lv) = lv_run lv" "lv_respawn (stamp_chip pid sref st lv) = lv_respawn lv"
  by (simp_all add: stamp_chip_def)

lemma sink_frames [simp]:
  "lv_journal (sink_close ms sk lv) = lv_journal lv" "lv_handles (sink_close ms sk lv) = lv_handles lv" "lv_run (sink_close ms sk lv) = lv_run lv"
  "lv_journal (sink_finish h ms sk lv) = lv_journal lv" "lv_handles (sink_finish h ms sk lv) = lv_handles lv" "lv_run (sink_finish h ms sk lv) = lv_run lv"
  "lv_respawn (sink_close ms sk lv) = lv_respawn lv" "lv_respawn (sink_finish h ms sk lv) = lv_respawn lv"
  by (simp_all add: sink_close_def sink_finish_def put_sub_doc_def Let_def split: sum.split)

lemma push_user_frames [simp]:
  "lv_journal (fst (push_user uuid now t sk lv)) = lv_journal lv" "lv_handles (fst (push_user uuid now t sk lv)) = lv_handles lv"
  "lv_run (fst (push_user uuid now t sk lv)) = lv_run lv" "lv_respawn (fst (push_user uuid now t sk lv)) = lv_respawn lv"
  by (simp_all add: push_user_def put_sub_doc_def Let_def draw_def)

lemma open_sink_frame: "chip_frame (lv, rt) (open_sink uuid hex now c pid (lv, rt))"
  using stamp_chip_ok by (simp add: open_sink_def chip_frame_def Let_def draw_def put_sub_doc_def)

lemma feed_sink_frame: "chip_frame (lv, rt) (feed_sink h ld uuid now c pid ev (lv, rt))"
  using stamp_chip_ok
  by (auto simp: feed_sink_def chip_frame_def Let_def split: option.split prod.split) (metis push_user_frame push_user_frames fst_conv)+


lemma mark_dirty_frames [simp]:
  "rt_writer (mark_dirty now rt) = rt_writer rt" "rt_folded (mark_dirty now rt) = rt_folded rt" "rt_idle_since (mark_dirty now rt) = rt_idle_since rt"
  "rt_compact_pending (mark_dirty now rt) = rt_compact_pending rt" "rt_subagents (mark_dirty now rt) = rt_subagents rt"
  "rt_interrupted (mark_dirty now rt) = rt_interrupted rt" "rt_run_id (mark_dirty now rt) = rt_run_id rt"
  "rt_entry_id (mark_dirty now rt) = rt_entry_id rt" "rt_seen_tools (mark_dirty now rt) = rt_seen_tools rt"
  "rt_settled (mark_dirty now rt) = rt_settled rt"
  by (simp_all add: mark_dirty_def)

text \<open>The chip of a subagent in the fold: its parts keep their place, and only tool parts with its id change.\<close>

lemma refresh_chip_map:
  "\<exists>f. refresh_chip ld hex pid ev known chat ps = map (on_tool pid f) ps \<and> (\<forall>t. tp_id (f t) = tp_id t)"
proof -
  let ?g = "advance_subagent (subagent_signal ev)"
  let ?r = "\<lambda>t. if known then t else t\<lparr>tp_subagent_ref := Some (subagent_doc_id hex chat pid)\<rparr>"
  have "on_tool pid ?g (on_tool pid ?r p) = on_tool pid (\<lambda>t. ?g (?r t)) p" for p by (cases p) auto
  moreover have "on_tool pid (\<lambda>t. t) p = p" for p by (cases p) auto
  moreover have "tp_id (?g (?r t)) = tp_id t" for t by (auto simp: advance_subagent_def split: option.split)
  ultimately show ?thesis
    by (intro exI [of _ "\<lambda>t. ?g (?r t)"]) (cases known; simp add: refresh_chip_def)
qed

lemma on_tool_kinds: "kinds_ok ps (map (on_tool pid f) ps)"
  by (rule kinds_ok_map) simp

lemma on_tool_absent: "\<not> has_tool pid ps \<Longrightarrow> map (on_tool pid f) ps = ps"
proof (induction ps)
  case (Cons p ps)
  then show ?case by (cases p) (auto simp: has_tool_def)
qed simp

lemma on_tool_id: "map (on_tool pid (\<lambda>t. t)) ps = ps"
proof (induction ps)
  case (Cons p ps)
  then show ?case by (cases p) auto
qed simp

text \<open>The whole effect of a tagged event on its parent.\<close>

definition subagent_frame :: "string \<Rightarrow> agent_event \<Rightarrow> live_chat \<times> run_task \<Rightarrow> live_chat \<times> run_task \<Rightarrow> bool" where
  "subagent_frame pid ev s s' = (case (s, s') of ((lv, rt), (lv', rt')) \<Rightarrow>
     open_at (lv_doc lv') = open_at (lv_doc lv) \<and> (\<forall>w ps. segment_ok (lv_doc lv) w ps \<longrightarrow> segment_ok (lv_doc lv') w ps) \<and>
     lv_status lv' = lv_status lv \<and> lv_journal lv' = lv_journal lv @ [Subagent pid ev] \<and> lv_handles lv' = lv_handles lv \<and> lv_run lv' = lv_run lv \<and>
     lv_respawn lv' = lv_respawn lv \<and> rt_writer rt' = rt_writer rt \<and> rt_idle_since rt' = rt_idle_since rt \<and> rt_compact_pending rt' = rt_compact_pending rt \<and>
     rt_interrupted rt' = rt_interrupted rt \<and> rt_run_id rt' = rt_run_id rt \<and> rt_entry_id rt' = rt_entry_id rt \<and> rt_seen_tools rt' = rt_seen_tools rt \<and>
     (\<exists>f. rt_folded rt' = map (on_tool pid f) (rt_folded rt) \<and> (\<forall>t. tp_id (f t) = tp_id t)) \<and>
     (\<not> has_tool pid (rt_folded rt) \<longrightarrow> rt_dirty rt' = rt_dirty rt))"

lemma subagent_frame_step: "subagent_frame pid ev a b \<Longrightarrow> chip_frame b c \<Longrightarrow> subagent_frame pid ev a c"
  by (auto simp: subagent_frame_def chip_frame_def split: prod.splits)

lemma subagent_frame_start:
  assumes "rt' = rt\<lparr>rt_settled := x\<rparr> \<or> rt' = mark_dirty now (rt\<lparr>rt_settled := x, rt_folded := map (on_tool pid f) (rt_folded rt)\<rparr>) \<and> has_tool pid (rt_folded rt)"
    and "\<forall>t. tp_id (f t) = tp_id t"
  shows "subagent_frame pid ev (lv, rt) (publish (Subagent pid ev) lv, rt')"
  using assms on_tool_id [of pid "rt_folded rt"] by (auto simp: subagent_frame_def publish_def intro: exI [of _ "\<lambda>t. t"])

lemma route_subagent_frame: "subagent_frame pid ev (lv, rt) (route_subagent h ld uuid hex now pid ev (lv, rt))"
proof -
  let ?lv = "publish (Subagent pid ev) lv" and ?known = "bt_contains (rt_subagents rt) pid" and ?c = "has_tool pid (rt_folded rt)"
  obtain f where f: "refresh_chip ld hex pid ev ?known (lv_chat ?lv) (rt_folded rt) = map (on_tool pid f) (rt_folded rt)" "\<forall>t. tp_id (f t) = tp_id t"
    using refresh_chip_map by blast
  let ?x = "if steer_text ev \<noteq> None then filter (\<lambda>i. i \<noteq> pid) (rt_settled rt) else rt_settled rt"
  let ?rt1 = "rt\<lparr>rt_settled := ?x\<rparr>"
  define rt2 where "rt2 = (if ?c then mark_dirty now (?rt1\<lparr>rt_folded := map (on_tool pid f) (rt_folded rt)\<rparr>) else ?rt1)"
  let ?s3 = "if \<not> ?known \<and> \<not> is_done ev then open_sink uuid hex now ?c pid (?lv, rt2) else (?lv, rt2)"
  obtain lv3 rt3 where s3: "?s3 = (lv3, rt3)" by fastforce
  let ?rt4 = "if is_done ev then rt3\<lparr>rt_settled := List.insert pid (rt_settled rt3)\<rparr> else rt3"
  have a: "subagent_frame pid ev (lv, rt) (?lv, rt2)"
    using subagent_frame_start [where rt' = rt2 and rt = rt and x = ?x and now = now, of pid f ev lv] f(2) by (cases ?c) (simp_all add: rt2_def)
  have b: "chip_frame (?lv, rt2) (lv3, rt3)"
    using s3 open_sink_frame [of ?lv rt2 uuid hex now ?c pid] by (cases "\<not> ?known \<and> \<not> is_done ev") auto
  have c: "chip_frame (lv3, rt3) (lv3, ?rt4)" by (simp add: chip_frame_def)
  have main: "subagent_frame pid ev (lv, rt) (feed_sink h ld uuid now ?c pid ev (lv3, ?rt4))"
    by (rule subagent_frame_step [OF subagent_frame_step [OF subagent_frame_step [OF a b] c] feed_sink_frame])
  have stray: "subagent_frame pid ev (lv, rt) (?lv, rt)"
    using subagent_frame_start [where rt' = rt and rt = rt and x = "rt_settled rt", of now pid "\<lambda>t. t" ev lv] by simp
  show ?thesis
  proof (cases "steer_text ev = None \<and> pid \<in> set (rt_settled rt) \<and> \<not> ?known")
    case True
    then show ?thesis using stray by (simp add: route_subagent_def Let_def)
  next
    case False
    then have "route_subagent h ld uuid hex now pid ev (lv, rt) = feed_sink h ld uuid now ?c pid ev (lv3, ?rt4)"
      using f(1) s3 unfolding rt2_def
      by (cases "steer_text ev = None"; cases ?c; cases "\<not> ?known \<and> \<not> is_done ev") (auto simp: route_subagent_def Let_def)
    with main show ?thesis by simp
  qed
qed


lemma subagent_frame_inv:
  assumes "subagent_frame pid ev (lv, rt) (lv', rt')"
  shows "run_inv lv rt \<Longrightarrow> run_inv lv' rt'" "shown lv rt \<Longrightarrow> shown lv' rt'"
proof -
  obtain f where f: "rt_folded rt' = map (on_tool pid f) (rt_folded rt)" using assms by (auto simp: subagent_frame_def)
  have fr: "open_at (lv_doc lv') = open_at (lv_doc lv)" "\<And>w ps. segment_ok (lv_doc lv) w ps \<Longrightarrow> segment_ok (lv_doc lv') w ps"
    "rt_writer rt' = rt_writer rt" "rt_idle_since rt' = rt_idle_since rt" "lv_status lv' = lv_status lv"
    "\<not> has_tool pid (rt_folded rt) \<Longrightarrow> rt_dirty rt' = rt_dirty rt"
    using assms by (auto simp: subagent_frame_def)
  show "shown lv rt \<Longrightarrow> shown lv' rt'" using fr by (simp add: shown_def shown_active_def)
  assume inv: "run_inv lv rt"
  then have "segment_ok (lv_doc lv') (rt_writer rt') (rt_folded rt')"
    unfolding f fr(3) by (intro segment_ok_grow [OF fr(2) on_tool_kinds]) (simp add: run_inv_def seg_inv_def)
  moreover have "rt_folded rt' = [] \<and> rt_writer rt' = None \<and> \<not> rt_dirty rt'" if "rt_idle_since rt' \<noteq> None"
    using inv that fr(3,4,6) f by (auto simp: run_inv_def has_tool_def)
  ultimately show "run_inv lv' rt'" using inv fr(1,3) by (auto simp: run_inv_def seg_inv_def)
qed

lemma settle_turn_ok:
  assumes "seg_inv lv rt" "settle_turn st lv rt = (lv', rt')"
  shows "\<not> open_at (lv_doc lv') k" "rt_writer rt' = None" "lv_status lv' = lv_status lv" "rt_compact_pending rt' = rt_compact_pending rt"
    "rt_steerable rt' = rt_steerable rt" "rt_interrupted rt' = rt_interrupted rt" "rt_idle_since rt' = rt_idle_since rt"
proof -
  let ?rt = "rt\<lparr>rt_folded := map close_input (rt_folded rt)\<rparr>"
  have "text_of (close_input p) = None \<longleftrightarrow> text_of p = None" for p by (cases p) simp_all
  then have "seg_inv lv ?rt" by (intro seg_inv_grow [OF assms(1)]) (simp_all add: kinds_ok_map)
  then have inv: "seg_inv lv' ?rt" if "lv_doc lv' = lv_doc lv" for lv' using that seg_inv_cong [of lv' lv ?rt ?rt] by simp
  have none: "\<not> open_at (lv_doc lv) k" if "rt_writer rt = None" using assms(1) that by (auto simp: seg_inv_def)
  show "\<not> open_at (lv_doc lv') k"
    using assms(2) none close_segment_ok [OF inv, of _ "done_message_status st" k]
    by (auto simp: settle_turn_def Let_def done_message_status_def split: option.splits if_splits)
qed (use assms(2) in \<open>auto simp: settle_turn_def Let_def split: option.splits if_splits\<close>)

lemma send_compact_frame: "send_compact lv rt = Some lv' \<Longrightarrow> lv_doc lv' = lv_doc lv \<and> lv_status lv' = lv_status lv"
  by (auto simp: send_compact_def split: option.splits)

text \<open>Where an iteration may leave the task; \<open>c\<close> says whether what is shown is to be right as well.\<close>

definition leaves_settled :: "bool \<Rightarrow> live_chat \<Rightarrow> run_result \<Rightarrow> bool" where
  "leaves_settled c lv r = (case r of Going rt \<Rightarrow> run_inv lv rt \<and> (c \<longrightarrow> shown lv rt) | _ \<Rightarrow> \<forall>k. \<not> open_at (lv_doc lv) k)"

lemma on_done_ok:
  assumes "seg_inv lv rt" "rt_idle_since rt = None" "c \<and> rt_compact_pending rt \<longrightarrow> shown_active lv" "on_done uuid now st (lv, rt) = (lv', r)"
  shows "leaves_settled c lv' r"
proof -
  obtain lv1 rt1 where s: "settle_turn st lv rt = (lv1, rt1)" by fastforce
  note ok = settle_turn_ok [OF assms(1) s]
  have act: "c \<and> rt_compact_pending rt1 \<longrightarrow> shown_active lv1" using assms(3) ok(3,4) by (simp add: shown_active_def)
  show ?thesis
  proof (cases "st = DoneCompleted \<and> rt_steerable rt1 \<and> \<not> rt_interrupted rt1")
    case False
    then show ?thesis using assms(4) s ok(1) by (auto simp: on_done_def leaves_settled_def Let_def)
  next
    case True
    show ?thesis
    proof (cases "if rt_compact_pending rt1 then send_compact lv1 rt1 else None")
      case None
      then have "lv' = set_status now Status_Idle False (lv1\<lparr>lv_drawn := lv_drawn lv1 + 1\<rparr>)" "r = Going (reset_segment (uuid (lv_drawn lv1)) now
          (rt1\<lparr>rt_compact_pending := False, rt_saw_started := True, rt_idle_since := Some now, rt_self_continued := False\<rparr>))"
        using assms(4) s True by (auto simp: on_done_def Let_def draw_def)
      then show ?thesis using ok(1) by (simp add: leaves_settled_def run_inv_def shown_def seg_inv_reset) (simp add: reset_segment_def)
    next
      case (Some lv2)
      then have "lv' = lv2\<lparr>lv_drawn := lv_drawn lv2 + 1\<rparr>" "r = Going (reset_segment (uuid (lv_drawn lv2)) now
          (rt1\<lparr>rt_compact_pending := False, rt_saw_started := True, rt_self_continued := False\<rparr>))"
        using assms(4) s True by (auto simp: on_done_def Let_def draw_def)
      moreover have "lv_doc lv2 = lv_doc lv1" "c \<longrightarrow> shown_active lv2"
        using Some act send_compact_frame [of lv1 rt1 lv2] by (auto simp: shown_active_def split: if_splits)
      moreover have "rt_idle_since rt1 = None" using ok(7) assms(2) by simp
      ultimately show ?thesis using ok(1)
        by (simp add: leaves_settled_def run_inv_def shown_def seg_inv_reset) (simp add: reset_segment_def shown_active_def)
    qed
  qed
qed

text \<open>An event that passed the gates; a parked session has reopened for it.\<close>

definition passed :: "bool \<Rightarrow> live_chat \<Rightarrow> run_task \<Rightarrow> agent_event \<Rightarrow> bool" where
  "passed c lv rt ev = (seg_inv lv rt \<and> rt_idle_since rt = None \<and> (c \<longrightarrow> shown_active lv \<or> is_done ev \<and> \<not> rt_compact_pending rt))"

lemma passed_going: "passed c lv rt ev \<Longrightarrow> \<not> is_done ev \<Longrightarrow> leaves_settled c lv (Going rt)"
  by (auto simp: passed_def leaves_settled_def run_inv_def shown_def)

lemma observe_ok:
  assumes "passed c lv rt ev" "observe now ev (lv, rt) = (lv', rt')"
  shows "passed c lv' rt' ev" "rt_folded rt' = rt_folded rt"
proof -
  have "lv_doc lv' = lv_doc lv \<and> rt_writer rt' = rt_writer rt \<and> rt_folded rt' = rt_folded rt \<and> rt_idle_since rt' = rt_idle_since rt \<and>
    (is_done ev \<longrightarrow> rt_compact_pending rt' = rt_compact_pending rt) \<and> (shown_active lv \<longrightarrow> shown_active lv')"
    using assms(2) by (elim observe.elims) (auto simp: active_def split: if_splits)
  then show "passed c lv' rt' ev" "rt_folded rt' = rt_folded rt"
    using assms(1) seg_inv_cong [of lv' lv rt' rt] by (auto simp: passed_def)
qed

lemma on_plain_ok:
  assumes "passed c lv rt ev" "boundary_of ev = None" "on_plain ld uuid now ev (lv, rt) = (lv', r)"
  shows "leaves_settled c lv' r"
proof -
  obtain lv1 rt1 where o: "observe now ev (lv, rt) = (lv1, rt1)" by fastforce
  define rt2 where "rt2 = (if skip_fold ev (rt_folded rt1) then rt1 else rt1\<lparr>rt_folded := fold_event_into_parts ld ev (rt_folded rt1)\<rparr>)"
  have p: "passed c lv1 rt1 ev" by (rule observe_ok [OF assms(1) o])
  have "kinds_ok (rt_folded rt1) (rt_folded rt2)"
    using assms(2) fold_kinds [of ev "rt_folded rt1" ld] by (cases "resets_fold ev") (auto simp: rt2_def elim!: resets_fold.elims)
  moreover have rt2: "rt_writer rt2 = rt_writer rt1" "rt_idle_since rt2 = rt_idle_since rt1" "rt_compact_pending rt2 = rt_compact_pending rt1"
    by (simp_all add: rt2_def)
  ultimately have inv: "seg_inv (publish ev lv1) rt2" using p seg_inv_grow [of lv1 rt1 "publish ev lv1" rt2] by (simp add: passed_def)
  show ?thesis
  proof (cases "done_status_of ev")
    case None
    then have "\<not> is_done ev" by (cases ev) auto
    moreover have "passed c (publish ev lv1) (if rt_folded rt2 = [] then rt2 else mark_dirty now rt2) ev"
      using inv p rt2 seg_inv_cong [of "publish ev lv1" "publish ev lv1" "mark_dirty now rt2" rt2] by (auto simp: passed_def)
    ultimately show ?thesis
      using assms(3) o None passed_going by (auto simp: on_plain_def Let_def rt2_def [symmetric])
  next
    case (Some st)
    then have "on_done uuid now st (publish ev lv1, rt2) = (lv', r)" using assms(3) o by (simp add: on_plain_def Let_def rt2_def)
    then show ?thesis using inv p rt2 by (intro on_done_ok) (auto simp: passed_def)
  qed
qed

lemma parked_gate_ok:
  assumes "run_inv lv rt" "parked_gate uuid now ev (lv, rt) = (Some (lv', rt'), x)"
    and "c \<longrightarrow> shown lv rt \<and> (rt_idle_since rt \<noteq> None \<longrightarrow> \<not> rt_compact_pending rt)"
  shows "passed c lv' rt' ev"
proof (cases "rt_idle_since rt")
  case None
  then show ?thesis using assms by (auto simp: parked_gate_def passed_def run_inv_def shown_def)
next
  case (Some at)
  have inv: "seg_inv lv' rt'" if "lv_doc lv' = lv_doc lv" "rt_writer rt' = rt_writer rt" "rt_folded rt' = rt_folded rt" for lv' rt'
    using assms(1) that seg_inv_cong by (simp add: run_inv_def seg_inv_def)
  show ?thesis
  proof (cases "resume_gate_ms \<le> now - at \<and> fresh_output rt ev")
    case True
    then show ?thesis using assms(2) Some by (auto simp: parked_gate_def passed_def Let_def draw_def active_def intro!: inv)
  next
    case False
    then have "parked_boundary now ev (lv, rt) = (Some (lv', rt'), x)" using assms(2) Some by (auto simp: parked_gate_def)
    then show ?thesis using assms(3) Some by (elim parked_boundary.elims) (auto simp: passed_def active_def intro!: inv)
  qed
qed

lemma parked_gate_drop:
  assumes "parked_gate uuid now ev (lv, rt) = (None, lv')"
  shows "lv_doc lv' = lv_doc lv" "lv_status lv' = lv_status lv"
  using assms by (auto simp: parked_gate_def Let_def draw_def split: option.splits if_splits elim!: parked_boundary.elims)

lemma on_steered_ok:
  assumes "passed c lv rt ev" "on_steered uuid now a b (lv, rt) = (lv', rt')"
  shows "leaves_settled c lv' (Going rt')"
proof -
  have closed: "\<not> open_at (lv_doc (close_segment Complete (publish (Steered a b) lv) rt)) k" for k
    using assms(1) seg_inv_cong [of "publish (Steered a b) lv" lv rt rt] by (intro close_segment_ok) (simp_all add: passed_def)
  have "lv_doc lv' = lv_doc (close_segment Complete (publish (Steered a b) lv) rt)" "shown_active lv'"
    "\<exists>i. rt' = reset_segment i now (rt\<lparr>rt_self_continued := False\<rparr>)"
    using assms(2) by (auto simp: on_steered_def Let_def draw_def shown_active_def active_def set_status_def split: option.splits)
  then show ?thesis
    using closed assms(1) seg_inv_reset [of lv']
    by (auto simp: leaves_settled_def run_inv_def shown_def passed_def) (auto simp: reset_segment_def)
qed


lemma note_tool_frame [simp]:
  "rt_writer (note_tool ev rt) = rt_writer rt" "rt_folded (note_tool ev rt) = rt_folded rt" "rt_idle_since (note_tool ev rt) = rt_idle_since rt"
  "rt_compact_pending (note_tool ev rt) = rt_compact_pending rt"
  by (cases ev; simp)+

lemma unwritten: "seg_inv lv rt \<Longrightarrow> rt_folded rt = [] \<Longrightarrow> \<not> open_at (lv_doc lv) k"
  by (auto simp: seg_inv_def segment_ok_def)

lemma gated_ok:
  assumes "passed c lv rt ev"
    and "(if ev = ReasoningDelta [] then (lv, Going rt)
      else if stale_echo rt ev then (lv, Going rt)
      else let rt = note_tool ev rt
           in if startup_crash rt ev then
                (let lv = remove_run (rt_run_id rt) lv
                 in (lv\<lparr>lv_respawn := lv_respawn lv @ [Retry (the (rt_retry rt)) (rt_user_message_id rt)]\<rparr>, Replaced))
              else (case boundary_of ev of
                      Some (a, b) \<Rightarrow> (let (lv, rt) = on_steered uuid now a b (lv, rt) in (lv, Going rt))
                    | None \<Rightarrow> on_plain ld uuid now ev (lv, rt))) = (lv', r)"
  shows "leaves_settled c lv' r"
proof -
  let ?rt = "note_tool ev rt"
  have p: "passed c lv ?rt ev" using assms(1) seg_inv_cong [of lv lv ?rt rt] by (simp add: passed_def)
  consider (quiet) "ev = ReasoningDelta [] \<or> stale_echo rt ev" | (crash) "\<not> (ev = ReasoningDelta [] \<or> stale_echo rt ev)" "startup_crash ?rt ev"
    | (go) "\<not> (ev = ReasoningDelta [] \<or> stale_echo rt ev)" "\<not> startup_crash ?rt ev" by blast
  then show ?thesis
  proof cases
    case quiet
    then have "\<not> is_done ev" by (cases ev) auto
    with quiet assms passed_going show ?thesis by (auto split: if_splits)
  next
    case crash
    then have "\<not> open_at (lv_doc lv) k" for k using p by (intro unwritten [of lv ?rt]) (auto simp: passed_def startup_crash_def)
    with crash assms(2) show ?thesis by (auto simp: leaves_settled_def Let_def)
  next
    case go
    show ?thesis
    proof (cases "boundary_of ev")
      case None
      then show ?thesis using go assms(2) on_plain_ok [OF p None] by (auto simp: Let_def)
    next
      case (Some ab)
      obtain lv1 rt1 where s: "on_steered uuid now (fst ab) (snd ab) (lv, ?rt) = (lv1, rt1)" by fastforce
      then have "leaves_settled c lv1 (Going rt1)" by (rule on_steered_ok [OF p])
      then show ?thesis using go assms(2) Some s by (auto simp: Let_def split: prod.splits)
    qed
  qed
qed

definition parks_cleanly :: "run_task \<Rightarrow> bool" where
  "parks_cleanly rt = (rt_idle_since rt \<noteq> None \<longrightarrow> \<not> rt_compact_pending rt)"

lemma on_event_ok:
  assumes "run_inv lv rt" "c \<longrightarrow> shown lv rt \<and> parks_cleanly rt" "on_event ld uuid now ev (lv, rt) = (lv', r)"
  shows "leaves_settled c lv' r"
proof -
  let ?lv = "touch_session now lv" and ?rt = "rt\<lparr>rt_last_activity := now\<rparr>"
  have inv: "run_inv ?lv ?rt" using assms(1) seg_inv_cong [of ?lv lv ?rt rt] by (simp add: run_inv_def)
  have c: "c \<longrightarrow> shown ?lv ?rt \<and> (rt_idle_since ?rt \<noteq> None \<longrightarrow> \<not> rt_compact_pending ?rt)"
    using assms(2) by (simp add: shown_def parks_cleanly_def)
  show ?thesis
  proof (cases "unknown_question ?lv ev")
    case True
    then show ?thesis using assms(3) inv c by (auto simp: on_event_def Let_def leaves_settled_def)
  next
    case False
    obtain o1 lv1 where g: "parked_gate uuid now ev (?lv, ?rt) = (o1, lv1)" by fastforce
    show ?thesis
    proof (cases o1)
      case None
      have fr: "lv_doc lv1 = lv_doc ?lv" "lv_status lv1 = lv_status ?lv" using parked_gate_drop [of uuid now ev ?lv ?rt lv1] g None by auto
      then have "run_inv lv1 ?rt" "c \<longrightarrow> shown lv1 ?rt"
        using inv c seg_inv_cong [of lv1 ?lv ?rt ?rt] by (auto simp: run_inv_def shown_def shown_active_def)
      then show ?thesis using assms(3) False g None by (auto simp: on_event_def Let_def leaves_settled_def)
    next
      case (Some s)
      obtain lv2 rt2 where s: "s = (lv2, rt2)" by fastforce
      have p: "passed c lv2 rt2 ev" using parked_gate_ok [OF inv _ c] g Some s by auto
      show ?thesis
        by (rule gated_ok [OF p, where uuid = uuid and now = now and ld = ld]) (use assms(3) False g Some s in \<open>simp add: on_event_def Let_def\<close>)
    qed
  qed
qed

lemma handle_event_ok:
  assumes "run_inv lv rt" "c \<longrightarrow> shown lv rt \<and> parks_cleanly rt" "handle_event h ld uuid hex now ev (lv, rt) = (lv', r)"
  shows "leaves_settled c lv' r"
proof (cases "tagged ev")
  case None
  then show ?thesis using assms(3) by (intro on_event_ok [OF assms(1,2)]) (simp add: handle_event_def)
next
  case (Some ps)
  obtain lv1 rt1 where s: "route_subagent h ld uuid hex now (fst ps) (snd ps) (lv, rt) = (lv1, rt1)" by fastforce
  then have "subagent_frame (fst ps) (snd ps) (lv, rt) (lv1, rt1)" by (metis route_subagent_frame)
  then have "run_inv lv1 rt1" "c \<longrightarrow> shown lv1 rt1" using subagent_frame_inv assms(1,2) by blast+
  then show ?thesis using assms(3) Some s by (auto simp: handle_event_def Let_def leaves_settled_def split: prod.splits)
qed

lemma on_flush_ok:
  assumes "run_inv lv rt" "on_flush (lv, rt) = (lv', rt')"
  shows "run_inv lv' rt'" "shown lv rt \<Longrightarrow> shown lv' rt'"
proof -
  let ?r = "sync_segment (rt_entry_id rt) (lv_device lv) (rt_segment_started rt) (rt_folded rt) (lv_doc lv, rt_writer rt)"
  define s1 where "s1 = (if \<not> rt_dirty rt then (lv, rt)
     else case ?r of Inr (d, w) \<Rightarrow> (lv\<lparr>lv_doc := d\<rparr>, rt\<lparr>rt_writer := w, rt_dirty := False\<rparr>) | Inl _ \<Rightarrow> (lv, rt\<lparr>rt_dirty := False\<rparr>))"
  obtain lv1 rt1 where s1: "s1 = (lv1, rt1)" by fastforce
  have seg: "seg_inv lv rt" using assms(1) by (simp add: run_inv_def)
  have "run_inv lv1 rt1 \<and> lv_status lv1 = lv_status lv \<and> rt_idle_since rt1 = rt_idle_since rt"
  proof (cases "rt_dirty rt \<and> rt_folded rt \<noteq> []")
    case True
    then obtain d w where r: "?r = Inr (d, Some w)" "segment_ok d (Some w) (rt_folded rt)"
      "\<forall>k. open_at d k \<longrightarrow> k = sw_entry_index w \<or> open_at (lv_doc lv) k \<and> (\<forall>v. rt_writer rt = Some v \<longrightarrow> sw_entry_index v = sw_entry_index w)"
      using sync_segment_ok [of "lv_doc lv" "rt_writer rt" "rt_folded rt"] seg unfolding seg_inv_def by metis
    then have "seg_inv (lv\<lparr>lv_doc := d\<rparr>) (rt\<lparr>rt_writer := Some w, rt_dirty := False\<rparr>)"
      using seg by (auto simp: seg_inv_def) metis
    with True r s1 assms(1) show ?thesis by (auto simp: s1_def run_inv_def)
  next
    case False
    then have "?r = Inr (lv_doc lv, rt_writer rt) \<or> \<not> rt_dirty rt" by (auto simp: sync_segment_def)
    then have "lv1 = lv \<and> (rt1 = rt \<or> rt1 = rt\<lparr>rt_dirty := False\<rparr>)" using s1 by (auto simp: s1_def split: if_splits)
    then show ?thesis using assms(1) by (auto simp: run_inv_def seg_inv_def)
  qed
  moreover have "lv' = fst (flush_sinks (rt_subagents rt1) lv1)" "rt' = rt1\<lparr>rt_subagents := snd (flush_sinks (rt_subagents rt1) lv1)\<rparr>"
    using assms(2) s1 by (auto simp: on_flush_def s1_def Let_def split: prod.splits)
  ultimately show "run_inv lv' rt'" "shown lv rt \<Longrightarrow> shown lv' rt'"
    using flush_sinks_frame [of "rt_subagents rt1" lv1] by (auto simp: run_inv_def seg_inv_def shown_def shown_active_def)
qed

lemma on_quiesce_ok:
  assumes "run_inv lv rt" "on_quiesce ld uuid now (lv, rt) = (lv', rt')"
  shows "run_inv lv' rt'" "rt_idle_since rt' = Some now"
proof -
  define rt1 where "rt1 = (if rt_self_continued rt then rt else rt\<lparr>rt_folded := fold_event_into_parts ld (Error quiet_note) (rt_folded rt)\<rparr>)"
  have "kinds_ok (rt_folded rt) (rt_folded rt1)" "rt_writer rt1 = rt_writer rt" by (simp_all add: rt1_def)
  then have "seg_inv lv rt1" using assms(1) seg_inv_grow [of lv rt lv rt1] by (simp add: run_inv_def)
  then have closed: "\<not> open_at (lv_doc (close_segment Complete lv rt1)) k" "rt_writer rt1 = None \<Longrightarrow> \<not> open_at (lv_doc lv) k" for k
    using close_segment_ok [of lv rt1 Complete k] by (auto simp: seg_inv_def)
  have "lv_doc lv' = lv_doc (close_segment Complete lv rt1) \<or> rt_writer rt1 = None \<and> lv_doc lv' = lv_doc lv"
    using assms(2) by (auto simp: on_quiesce_def Let_def rt1_def [symmetric] draw_def split: if_splits)
  then have "\<not> open_at (lv_doc lv') k" for k using closed by auto
  moreover have "\<exists>i. rt' = reset_segment i now (rt1\<lparr>rt_idle_since := Some now, rt_self_continued := False\<rparr>)"
    using assms(2) by (auto simp: on_quiesce_def Let_def rt1_def [symmetric] draw_def split: if_splits)
  ultimately show "run_inv lv' rt'" "rt_idle_since rt' = Some now"
    using seg_inv_reset [of lv'] by (auto simp: run_inv_def) (auto simp: reset_segment_def)
qed


lemma run_step_ok:
  assumes "run_inv lv rt" "c \<longrightarrow> shown lv rt \<and> parks_cleanly rt" "run_step h ld uuid hex now inp (lv, rt) = (lv', r)" "input_enabled now inp (lv, rt)"
  shows "leaves_settled c lv' r"
proof (cases inp)
  case InCancel
  then show ?thesis using assms by (auto simp: leaves_settled_def run_inv_def seg_inv_def shown_def)
next
  case InDeadline
  then show ?thesis using assms(3) by (intro handle_event_ok [OF assms(1,2)]) simp
next
  case InHeartbeat
  then have "(lv' = lv \<or> lv' = touch_session now lv) \<and> r = Going rt" using assms(3) by (auto split: if_splits)
  then show ?thesis using assms(1,2) by (auto simp: leaves_settled_def run_inv_def seg_inv_def shown_def)
next
  case InReap
  then have "rt_idle_since rt \<noteq> None" using assms(4) by (auto split: option.splits)
  then have "\<not> open_at (lv_doc lv) k" for k using assms(1) by (auto simp: run_inv_def seg_inv_def)
  then show ?thesis using InReap assms(3) by (auto simp: on_reap_def leaves_settled_def split: option.splits)
next
  case InEngine
  obtain e lv1 where p: "pop_engine lv rt = (e, lv1)" by fastforce
  then have fr: "lv_doc lv1 = lv_doc lv" "lv_status lv1 = lv_status lv" by (auto simp: pop_engine_def split: option.splits list.splits)
  then have inv: "run_inv lv1 rt" "c \<longrightarrow> shown lv1 rt \<and> parks_cleanly rt"
    using assms(1,2) by (auto simp: run_inv_def seg_inv_def shown_def shown_active_def)
  show ?thesis
  proof (cases e)
    case None
    then show ?thesis using InEngine assms(3) p inv by (auto simp: leaves_settled_def)
  next
    case (Some ev)
    then show ?thesis using InEngine assms(3) p by (intro handle_event_ok [OF inv]) simp
  qed
next
  case (InStream ev)
  then show ?thesis using assms(3) by (intro handle_event_ok [OF assms(1,2)]) simp
next
  case (InStreamError err)
  show ?thesis
  proof (cases "rt_idle_since rt")
    case None
    then show ?thesis using InStreamError assms(3) by (intro handle_event_ok [OF assms(1,2)]) simp
  next
    case (Some at)
    then show ?thesis using InStreamError assms(1,3) by (auto simp: leaves_settled_def run_inv_def seg_inv_def)
  qed
next
  case InStreamEnd
  show ?thesis
  proof (cases "rt_interrupted rt \<or> rt_idle_since rt = None")
    case True
    then obtain ev where "handle_event h ld uuid hex now ev (lv, rt) = (lv', r)" using InStreamEnd assms(3) by (auto split: if_splits)
    then show ?thesis by (rule handle_event_ok [OF assms(1,2)])
  next
    case False
    then show ?thesis using InStreamEnd assms(1,3) by (auto simp: leaves_settled_def run_inv_def seg_inv_def)
  qed
next
  case InFlush
  obtain lv1 rt1 where f: "on_flush (lv, rt) = (lv1, rt1)" by fastforce
  then show ?thesis using InFlush assms(2,3) on_flush_ok [OF assms(1) f] by (auto simp: leaves_settled_def)
next
  case InQuiesce
  obtain lv1 rt1 where q: "on_quiesce ld uuid now (lv, rt) = (lv1, rt1)" by fastforce
  then show ?thesis using InQuiesce assms(3) on_quiesce_ok [OF assms(1) q] by (auto simp: leaves_settled_def shown_def)
qed

section \<open>Whole runs\<close>

text \<open>
  What everybody else does meanwhile: messages are added to the document (never a streaming one); all the rest of the
  shared state may change in any way. For statements on what is shown, others only ever show the chat as working.
\<close>

definition others_touch :: "bool \<Rightarrow> live_chat \<Rightarrow> live_chat \<Rightarrow> bool" where
  "others_touch c lv lv' = ((\<exists>es. list_all (\<lambda>e. me_status e \<noteq> Some Streaming) es \<and> lv_doc lv' = fold push_message es (lv_doc lv)) \<and>
     (c \<longrightarrow> shown_active lv \<longrightarrow> shown_active lv'))"

inductive run_reach for h ld uuid hex c lv0 rt0 where
  start: "run_reach h ld uuid hex c lv0 rt0 lv0 (Going rt0)"
| iterate: "run_reach h ld uuid hex c lv0 rt0 lv (Going rt) \<Longrightarrow> input_enabled now inp (lv, rt) \<Longrightarrow> (c \<longrightarrow> parks_cleanly rt) \<Longrightarrow>
    run_step h ld uuid hex now inp (lv, rt) = (lv', r) \<Longrightarrow> run_reach h ld uuid hex c lv0 rt0 lv' r"
| others: "run_reach h ld uuid hex c lv0 rt0 lv (Going rt) \<Longrightarrow> others_touch c lv lv' \<Longrightarrow> run_reach h ld uuid hex c lv0 rt0 lv' (Going rt)"

lemma push_message_open:
  assumes "me_status e \<noteq> Some Streaming"
  shows "open_at (push_message e d) = open_at d" "segment_ok d w ps \<Longrightarrow> segment_ok (push_message e d) w ps"
proof -
  have "status_of (MapC (bt_insert ''parts'' (ListC (fold push_part (me_parts e) [])) (write_entry_scalar_fields e []))) \<noteq> Some Streaming"
    using assms by (auto simp: status_of_map write_entry_scalar_fields_def or_else_def bt_get_Cons split: option.splits)
  then show "open_at (push_message e d) = open_at d"
    by (auto simp: open_at_def push_message_def nth_append fun_eq_iff less_Suc_eq)
  show "segment_ok d w ps \<Longrightarrow> segment_ok (push_message e d) w ps"
    by (auto simp: segment_ok_def writer_ok_def push_message_def nth_append split: option.splits)
qed

lemma push_messages_open:
  "list_all (\<lambda>e. me_status e \<noteq> Some Streaming) es \<Longrightarrow> open_at (fold push_message es d) = open_at d \<and>
   (segment_ok d w ps \<longrightarrow> segment_ok (fold push_message es d) w ps)"
  by (induction es arbitrary: d) (auto simp: push_message_open)

lemma others_ok:
  assumes "others_touch c lv lv'" "leaves_settled c lv (Going rt)"
  shows "leaves_settled c lv' (Going rt)"
proof -
  obtain es where es: "list_all (\<lambda>e. me_status e \<noteq> Some Streaming) es" "lv_doc lv' = fold push_message es (lv_doc lv)"
    using assms(1) by (auto simp: others_touch_def)
  then have "seg_inv lv' rt" using assms(2) push_messages_open [OF es(1)] by (simp add: leaves_settled_def run_inv_def seg_inv_def)
  then show ?thesis using assms by (auto simp: leaves_settled_def run_inv_def shown_def others_touch_def)
qed

lemma run_reach_ok:
  assumes "run_reach h ld uuid hex c lv0 rt0 lv r" "leaves_settled c lv0 (Going rt0)"
  shows "leaves_settled c lv r"
  using assms(1)
proof induction
  case (iterate lv rt now inp lv' r)
  then show ?case by (intro run_step_ok) (auto simp: leaves_settled_def)
qed (use assms(2) others_ok in blast)+

text \<open>What the reader of a document sees of its open entries.\<close>

definition nothing_streams :: "(json \<Rightarrow> string) \<Rightarrow> session_doc \<Rightarrow> bool" where
  "nothing_streams h d = list_all (\<lambda>e. me_status e \<noteq> Some Streaming) (read_entries h d)"

lemma open_entry_reads:
  assumes "status_of n = Some Streaming"
  shows "\<exists>e. entry_from_json h (deep n) = Some e \<and> me_status e = Some Streaming"
proof -
  obtain fs where fs: "deep n = JObj fs" "lax parse_message_status fs ''status'' = Some Streaming"
    using assms by (auto simp: status_of_def split: json.splits)
  then obtain j where j: "bt_get fs ''status'' = Some j" "parse_message_status j = Some Streaming" by (auto simp: lax_def bind_eq_Some_conv)
  have "\<not> is_null j" using j(2) by (cases j) (auto simp: parse_message_status_def parse_variant_def)
  then have "opt parse_message_status fs ''status'' = Some (Some Streaming)" using j by (simp add: opt_def opt_of_def)
  then show ?thesis using fs by (cases "parse_entry (JObj fs)") (auto simp: entry_from_json_def Let_def bind_eq_Some_conv)
qed

lemma nothing_streams_iff: "nothing_streams h d \<longleftrightarrow> (\<forall>k. \<not> open_at d k)"
proof
  assume n: "nothing_streams h d"
  show "\<forall>k. \<not> open_at d k"
  proof (intro allI notI)
    fix k
    assume k: "open_at d k"
    then obtain e where "entry_from_json h (deep (sd_messages d ! k)) = Some e" "me_status e = Some Streaming"
      using open_entry_reads by (auto simp: open_at_def)
    moreover have "sd_messages d ! k \<in> set (sd_messages d)" using k by (simp add: open_at_def)
    ultimately show False using n by (force simp: nothing_streams_def list_all_iff read_entries_def List.map_filter_def)
  qed
qed (use read_entries_open in \<open>fastforce simp: nothing_streams_def list_all_iff\<close>)

lemma new_task_settled:
  "nothing_streams h (lv_doc lv) \<Longrightarrow> (c \<longrightarrow> shown_active lv) \<Longrightarrow>
   leaves_settled c lv (Going (new_run_task run steerable rq compact_at quiesce self_quiesce user_id injected retry now entry))"
  by (simp add: leaves_settled_def run_inv_def seg_inv_def segment_ok_def shown_def new_run_task_def nothing_streams_iff)

lemma freeze_open: "open_at (lv_doc (fold (freeze_sink h) sks lv)) = open_at (lv_doc lv)"
  by (induction sks arbitrary: lv) (auto simp: freeze_sink_def stamp_chip_ok)

lemma end_run_doc: "open_at (lv_doc (end_run h now rt st lv)) = open_at (lv_doc lv)"
  using freeze_open [of h "rt_subagents rt" lv] by (auto simp: end_run_def drain_ledger_def leave_run_def Let_def split: option.split)

text \<open>
  C7. A run leaves nothing streaming: from a document in which nothing streams, whatever the agent sends, whenever timers
  fire, the user interrupts or others write, the document reads back without a streaming entry as soon as the session
  is parked, when the run was replaced by a second try of its start, and after the run ended.
\<close>
theorem run_leaves_nothing_streaming:
  assumes "run_reach h ld uuid hex False lv0 (new_run_task run steerable rq compact_at quiesce self_quiesce user_id injected retry t0 entry) lv r"
    and "nothing_streams h (lv_doc lv0)"
  shows "case r of
      Going rt \<Rightarrow> rt_idle_since rt = None \<or> nothing_streams h (lv_doc lv)
    | Break rt st \<Rightarrow> nothing_streams h (lv_doc (end_run h now rt st lv))
    | Replaced \<Rightarrow> nothing_streams h (lv_doc lv)"
proof -
  have "leaves_settled False lv r" by (rule run_reach_ok [OF assms(1) new_task_settled [OF assms(2)]]) simp
  then show ?thesis
    by (auto simp: leaves_settled_def run_inv_def seg_inv_def nothing_streams_iff end_run_doc split: run_result.splits)
qed

text \<open>A chat with a run that has just started.\<close>

definition sample_request :: run_request where
  "sample_request = \<lparr>rq_prompt = ''hi'', rq_harness = None, rq_model = None, rq_reasoning = None, rq_model_options = [], rq_cwd = ''/w'',
     rq_sandbox = WorkspaceWrite, rq_auto_approve = False, rq_resume = None, rq_mcp_servers = None, rq_attachments = [], rq_worktree = None\<rparr>"

definition sample_handle :: run_handle where
  "sample_handle = \<lparr>rh_steerable = True, rh_mailbox = [], rh_mailbox_open = True, rh_token = False, rh_cancel = False, rh_engine = [],
     rh_pending = [], rh_declined = [], rh_answered = [], rh_ledger = []\<rparr>"

definition sample_chat :: live_chat where
  "sample_chat = \<lparr>lv_chat = ''c'', lv_device = ''d'', lv_run = Some ''r'', lv_handles = [(''r'', sample_handle)],
     lv_status = Some \<lparr>ss_chat_id = ''c'', ss_device_id = ''d'', ss_status = Status_Working, ss_started_at = Some 0, ss_updated_at = 0,
       ss_context_tokens = None\<rparr>,
     lv_last_request = None, lv_harness = None, lv_row_harness = None, lv_journal = [], lv_doc = init_doc ''c'', lv_subdocs = [],
     lv_previews = [], lv_titles = [], lv_turns = [], lv_frozen = [], lv_attempts = 0, lv_respawn = [], lv_drawn = 0\<rparr>"

definition sample_task :: run_task where
  "sample_task = new_run_task ''r'' True sample_request 170000 (Some 120000) (Some 20000) ''u'' False False 0 ''e''"

lemma sample_chat_settled: "nothing_streams h (lv_doc sample_chat)" "shown_active sample_chat"
  by (simp_all add: sample_chat_def nothing_streams_def read_entries_def init_doc_def shown_active_def active_def)

theorem run_leaves_nothing_streaming_witness:
  "\<exists>lv rt. run_step (\<lambda>_. []) (\<lambda>_ _. []) show_nat id 1 InStreamEnd (sample_chat, sample_task) = (lv, Break rt Status_Errored) \<and>
     nothing_streams (\<lambda>_. []) (lv_doc (end_run (\<lambda>_. []) 1 rt Status_Errored lv))"
proof -
  let ?st = "run_step (\<lambda>_. []) (\<lambda>_ _. []) show_nat id 1 InStreamEnd (sample_chat, sample_task)"
  have "\<exists>lv rt. ?st = (lv, Break rt Status_Errored)"
    by (simp add: sample_task_def new_run_task_def handle_event_def on_event_def parked_gate_def startup_crash_def on_plain_def on_done_def Let_def
        split: prod.split)
  then obtain lv rt where s: "?st = (lv, Break rt Status_Errored)" by blast
  have "run_reach (\<lambda>_. []) (\<lambda>_ _. []) show_nat id False sample_chat sample_task lv (Break rt Status_Errored)"
    by (rule run_reach.iterate [OF run_reach.start _ _ s]) simp_all
  then have "nothing_streams (\<lambda>_. []) (lv_doc (end_run (\<lambda>_. []) 1 rt Status_Errored lv))"
    using run_leaves_nothing_streaming [of "\<lambda>_. []" "\<lambda>_ _. []" show_nat id sample_chat, folded sample_task_def] sample_chat_settled(1)
    unfolding sample_task_def by fastforce
  with s show ?thesis by blast
qed

text \<open>
  C30. A turn in progress is shown: as long as no session is parked with a compaction still due, and others only ever show
  the chat as working, a run that is not parked is shown as working or waiting for an answer.
\<close>
theorem run_turn_shown:
  assumes "run_reach h ld uuid hex True lv0 (new_run_task run steerable rq compact_at quiesce self_quiesce user_id injected retry t0 entry) lv (Going rt)"
    and "nothing_streams h (lv_doc lv0)" "shown_active lv0" "rt_idle_since rt = None"
  shows "shown_active lv"
  using run_reach_ok [OF assms(1) new_task_settled [OF assms(2)]] assms(3,4) by (simp add: leaves_settled_def shown_def)

theorem run_turn_shown_witness:
  "\<exists>lv rt. run_step (\<lambda>_. []) (\<lambda>_ _. []) show_nat id 1 (InStream (TextDelta ''x'')) (sample_chat, sample_task) = (lv, Going rt) \<and> shown_active lv"
proof -
  let ?st = "run_step (\<lambda>_. []) (\<lambda>_ _. []) show_nat id 1 (InStream (TextDelta ''x'')) (sample_chat, sample_task)"
  have "\<exists>lv rt. ?st = (lv, Going rt) \<and> rt_idle_since rt = None"
    by (simp add: sample_task_def new_run_task_def handle_event_def on_event_def parked_gate_def startup_crash_def on_plain_def mark_dirty_def
        push_text_def Let_def split: prod.split)
  then obtain lv rt where s: "?st = (lv, Going rt)" "rt_idle_since rt = None" by blast
  have "run_reach (\<lambda>_. []) (\<lambda>_ _. []) show_nat id True sample_chat sample_task lv (Going rt)"
    by (rule run_reach.iterate [OF run_reach.start _ _ s(1)]) (simp_all add: parks_cleanly_def sample_task_def new_run_task_def)
  then have "shown_active lv" unfolding sample_task_def by (rule run_turn_shown) (use sample_chat_settled s(2) in simp_all)
  with s show ?thesis by blast
qed

text \<open>
  Subagents are isolated: an event of a subagent leaves the turn of its parent alone. It does not park, reopen, steer,
  interrupt or end the session, shows no other status, confirms or loses no steer, and changes nothing of the segment
  being written but tool parts that carry the id of the subagent.
\<close>
theorem run_subagents_isolated:
  assumes "handle_event h ld uuid hex now (Subagent pid ev) (lv, rt) = (lv', r)"
  shows "\<exists>rt'. r = Going rt' \<and> lv_status lv' = lv_status lv \<and> lv_handles lv' = lv_handles lv \<and> lv_run lv' = lv_run lv \<and>
    lv_journal lv' = lv_journal lv @ [Subagent pid ev] \<and> rt_idle_since rt' = rt_idle_since rt \<and> rt_entry_id rt' = rt_entry_id rt \<and>
    rt_writer rt' = rt_writer rt \<and> rt_interrupted rt' = rt_interrupted rt \<and> rt_seen_tools rt' = rt_seen_tools rt \<and>
    parts_text (rt_folded rt') = parts_text (rt_folded rt) \<and>
    filter (\<lambda>p. tool_id p \<noteq> Some pid) (rt_folded rt') = filter (\<lambda>p. tool_id p \<noteq> Some pid) (rt_folded rt)"
proof -
  obtain rt' where r: "r = Going rt'" "route_subagent h ld uuid hex now pid ev (lv, rt) = (lv', rt')"
    using assms by (auto simp: handle_event_def split: prod.splits)
  have fr: "subagent_frame pid ev (lv, rt) (lv', rt')" using route_subagent_frame r(2) by metis
  then obtain f where f: "rt_folded rt' = map (on_tool pid f) (rt_folded rt)" "\<forall>t. tp_id (f t) = tp_id t" by (auto simp: subagent_frame_def)
  have "parts_text (map (on_tool pid f) ps) = parts_text ps" for ps
    by (induction ps) (auto simp: parts_text_def List.map_filter_def split: option.splits)
  moreover have "filter (\<lambda>p. tool_id p \<noteq> Some pid) (map (on_tool pid f) ps) = filter (\<lambda>p. tool_id p \<noteq> Some pid) ps" for ps
  proof (induction ps)
    case (Cons p ps)
    then show ?case using f(2) by (cases p) auto
  qed simp
  ultimately show ?thesis using r(1) fr f(1) by (auto simp: subagent_frame_def)
qed

theorem run_subagents_isolated_witness:
  "\<exists>lv rt. handle_event (\<lambda>_. []) (\<lambda>_ _. []) show_nat id 1 (Subagent ''t'' (Done DoneErrored None None None)) (sample_chat, sample_task) = (lv, Going rt) \<and>
     lv_status lv = lv_status sample_chat \<and> rt_idle_since rt = None"
proof -
  obtain lv r where s: "handle_event (\<lambda>_. []) (\<lambda>_ _. []) show_nat id 1 (Subagent ''t'' (Done DoneErrored None None None)) (sample_chat, sample_task) = (lv, r)"
    by fastforce
  from run_subagents_isolated [OF s] s show ?thesis by (auto simp: sample_task_def new_run_task_def)
qed

end
