(* ===== verification/Session_Life.thy ===== *)
theory Session_Life
  imports Run_Safety
begin

text \<open>
  How turns come to runs (\<open>SessionsEngine\<close> of \<open>crates/engine/src/sessions.rs\<close>, with \<open>write_user_message\<close> and
  \<open>mark_abandoned_streams\<close> of \<open>doc_host.rs\<close>): a prompt is routed into the live run or starts a run, a steer is delivered
  and kept in the ledger of its run until a boundary confirms it, a run is interrupted, a question is answered, and at boot
  the runs the engine died in are closed and picked up again. The code holds no lock from one of its steps to the next,
  so \<open>steer\<close> and \<open>dispatch\<close> are compositions of steps between which the task of the run may go on.
\<close>

section \<open>What a dispatch needs of its engine\<close>

datatype engine_error =
    Err_Doc doc_failure
  | Err_Journal string
  | Err_Store string
  | Err_Harness string
  | Err_Io string
  | Err_Other string

text \<open>
  The home directory of the host, the adapters (whether one takes steers and whether its turns always end), whether the
  document of the chat opens and its journal reads, the row of the chat, the text of a JSON value, the supply of ids and
  the two windows of the watchdog the environment sets.
\<close>

record engine_env =
  en_home :: string
  en_resolve :: "harness_id \<Rightarrow> engine_error + bool \<times> bool"
  en_open :: "engine_error option"
  en_journal :: bool
  en_row :: "chat option"
  en_hash :: "json \<Rightarrow> string"
  en_uuid :: "nat \<Rightarrow> string"
  en_quiesce :: "nat option"
  en_self_quiesce :: "nat option"

definition path_join :: "string \<Rightarrow> string \<Rightarrow> string" where
  "path_join base p =
     (if take 1 p = ''/'' then p else if base = [] \<or> last base = CHR ''/'' then base @ p else base @ ''/'' @ p)"

fun expand_home :: "string \<Rightarrow> string \<Rightarrow> string" where
  "expand_home home (c # rest) =
     (if c \<noteq> CHR ''~'' then c # rest
      else if rest = [] then home
      else if take 1 rest = ''/'' then path_join home (drop 1 rest)
      else c # rest)"
| "expand_home home [] = []"

fun str_contains :: "string \<Rightarrow> string \<Rightarrow> bool" where
  "str_contains needle [] = (needle = [])"
| "str_contains needle (c # cs) = (take (length needle) (c # cs) = needle \<or> str_contains needle cs)"

definition context_window_for :: "string option \<Rightarrow> (string, json) btree \<Rightarrow> nat" where
  "context_window_for model options =
     (if (case model of Some m \<Rightarrow> str_contains ''[1m]'' m | None \<Rightarrow> False) \<or> bt_get options ''contextWindow'' = Some (JStr ''1m'')
      then 1000000 else 200000)"

text \<open>The product with the single-precision 0.85 is exact on both windows.\<close>

definition compact_threshold :: "nat \<Rightarrow> nat" where
  "compact_threshold window = window * 17 div 20"

definition quiesce_after :: "nat option \<Rightarrow> bool \<Rightarrow> nat option" where
  "quiesce_after v deterministic =
     (case v of Some ms \<Rightarrow> if ms = 0 then None else Some ms | None \<Rightarrow> if deterministic then None else Some (120 * 1000))"

definition self_quiesce_after :: "nat option \<Rightarrow> nat option" where
  "self_quiesce_after v = (case v of Some ms \<Rightarrow> if ms = 0 then None else Some ms | None \<Rightarrow> Some (20 * 1000))"

section \<open>The document of the chat\<close>

text \<open>The message of the user is written once, whoever writes it first.\<close>

definition write_user_message :: "(json \<Rightarrow> string) \<Rightarrow> string \<Rightarrow> string \<Rightarrow> int \<Rightarrow> live_chat \<Rightarrow> live_chat" where
  "write_user_message h i text at lv =
     (if list_ex (\<lambda>e. me_id e = i) (read_entries h (lv_doc lv)) then lv
      else lv\<lparr>lv_doc := push_message (user_entry i text (lv_device lv) at) (lv_doc lv)\<rparr>)"

definition abandoned :: "string \<Rightarrow> message_entry \<Rightarrow> bool" where
  "abandoned device e = (me_role e = Assistant \<and> me_status e = Some Streaming \<and> me_device_id e = device)"

text \<open>An entry is stamped, with the note as an error part; the ids stamped are returned.\<close>

fun stamp_abandoned :: "string \<Rightarrow> string \<Rightarrow> message_entry list \<Rightarrow> session_doc \<Rightarrow> session_doc \<times> (string \<times> int) list" where
  "stamp_abandoned device note [] d = (d, [])"
| "stamp_abandoned device note (e # es) d =
     (if abandoned device e then
        (case set_message_status (me_id e) Aborted d of
           (d, True) \<Rightarrow>
             (let (d, stamped) = stamp_abandoned device note es (fst (append_error_part (me_id e) (me_id e @ ''-recovery'') note d))
              in (d, (me_id e, me_created_at e) # stamped))
         | (d, False) \<Rightarrow> stamp_abandoned device note es d)
      else stamp_abandoned device note es d)"

definition mark_abandoned_streams :: "(json \<Rightarrow> string) \<Rightarrow> string \<Rightarrow> live_chat \<Rightarrow> live_chat \<times> (string \<times> int) list" where
  "mark_abandoned_streams h note lv =
     (let (d, stamped) = stamp_abandoned (lv_device lv) note (read_entries h (lv_doc lv)) (lv_doc lv)
      in (lv\<lparr>lv_doc := d\<rparr>, stamped))"

section \<open>The conversation a run resumes\<close>

text \<open>The last session a journal names, with the directory of the start that governs it.\<close>

fun scan_sessions :: "agent_event list \<Rightarrow> string \<Rightarrow> (string \<times> string) option \<Rightarrow> (string \<times> string) option" where
  "scan_sessions [] cwd found = found"
| "scan_sessions (SessionStarted _ _ _ dir sid _ # es) cwd found =
     scan_sessions es dir (if sid = [] then found else Some (sid, dir))"
| "scan_sessions (Done _ _ _ (Some sid) # es) cwd found =
     scan_sessions es cwd (if sid = [] then found else Some (sid, cwd))"
| "scan_sessions (_ # es) cwd found = scan_sessions es cwd found"

definition journal_harness_session :: "engine_env \<Rightarrow> live_chat \<Rightarrow> (string \<times> string) option" where
  "journal_harness_session en lv = (if en_journal en then scan_sessions (lv_journal lv) [] None else None)"

definition cwd_ok :: "string \<Rightarrow> string \<Rightarrow> bool" where
  "cwd_ok cwd session_cwd = (session_cwd = [] \<or> session_cwd = cwd)"

definition resume_for :: "engine_env \<Rightarrow> string \<Rightarrow> live_chat \<Rightarrow> string option \<times> live_chat" where
  "resume_for en cwd lv =
     (case lv_harness lv of
        Some (sid, dir) \<Rightarrow> (if sid \<noteq> [] \<and> cwd_ok cwd dir then Some sid else None, lv)
      | None \<Rightarrow>
          (case lv_row_harness lv of
             Some (sid, dir) \<Rightarrow> (if sid \<noteq> [] \<and> cwd_ok cwd (case dir of Some d \<Rightarrow> d | None \<Rightarrow> []) then Some sid else None, lv)
           | None \<Rightarrow>
               (case journal_harness_session en lv of
                  Some (sid, dir) \<Rightarrow> (if cwd_ok cwd dir then Some sid else None, remember_harness_session sid dir lv)
                | None \<Rightarrow> (None, lv))))"

section \<open>Steers\<close>

datatype delivery = No_Run | Undelivered string | Delivered string

text \<open>The first step: the prompt goes into the mailbox of the live run.\<close>

definition route_send :: "steer_message \<Rightarrow> live_chat \<Rightarrow> live_chat \<times> delivery" where
  "route_send m lv =
     (case lv_run lv of
        None \<Rightarrow> (lv, No_Run)
      | Some r \<Rightarrow>
          (case bt_get (lv_handles lv) r of
             None \<Rightarrow> (lv, No_Run)
           | Some hn \<Rightarrow>
               (case (if rh_steerable hn then mailbox_send m hn else None) of
                  Some hn \<Rightarrow> (put_handle r hn lv, Delivered r)
                | None \<Rightarrow> (lv, Undelivered r))))"

definition ledger_push :: "string \<Rightarrow> routed_steer \<Rightarrow> live_chat \<Rightarrow> live_chat" where
  "ledger_push run s lv =
     (case bt_get (lv_handles lv) run of
        Some hn \<Rightarrow> put_handle run (hn\<lparr>rh_ledger := rh_ledger hn @ [s]\<rparr>) lv
      | None \<Rightarrow> lv)"

definition draw_id :: "(nat \<Rightarrow> string) \<Rightarrow> string option \<Rightarrow> live_chat \<Rightarrow> string \<times> live_chat" where
  "draw_id uuid i lv = (case i of Some i \<Rightarrow> (i, lv) | None \<Rightarrow> draw uuid lv)"

text \<open>The second: it is entered in the ledger of that run, and its message in the document.\<close>

definition accept_steer :: "engine_env \<Rightarrow> int \<Rightarrow> string \<Rightarrow> string \<Rightarrow> string option \<Rightarrow> live_chat \<Rightarrow> live_chat \<times> (engine_error + string)" where
  "accept_steer en now run prompt mid lv =
     (let (i, lv) = draw_id (en_uuid en) mid lv;
          lv = ledger_push run \<lparr>rs_prompt = prompt, rs_message_id = i\<rparr> lv
      in case en_open en of
           Some err \<Rightarrow> (lv, Inl err)
         | None \<Rightarrow> (write_user_message (en_hash en) i prompt now lv, Inr i))"

definition is_live :: "string \<Rightarrow> live_chat \<Rightarrow> bool" where
  "is_live run lv = (lv_run lv = Some run)"

text \<open>An entry nobody took from the ledger of a dead run is taken back.\<close>

definition reclaim :: "string \<Rightarrow> string \<Rightarrow> live_chat \<Rightarrow> live_chat \<times> bool" where
  "reclaim run i lv =
     (case bt_get (lv_handles lv) run of
        None \<Rightarrow> (lv, False)
      | Some hn \<Rightarrow>
          (let rest = filter (\<lambda>s. rs_message_id s \<noteq> i) (rh_ledger hn)
           in (put_handle run (hn\<lparr>rh_ledger := rest\<rparr>) lv, length rest \<noteq> length (rh_ledger hn))))"

text \<open>The third: if the run is still there the steer is accepted, otherwise it belongs to whoever holds its entry.\<close>

definition settle_steer :: "int \<Rightarrow> string \<Rightarrow> string \<Rightarrow> string \<Rightarrow> live_chat \<Rightarrow> live_chat \<times> bool" where
  "settle_steer now prompt run i lv =
     (if is_live run lv then (note_message prompt (set_status now Status_Working False lv), True)
      else case reclaim run i lv of
             (lv, True) \<Rightarrow> (lv, False)
           | (lv, False) \<Rightarrow> (note_message prompt lv, True))"

definition note_turn_start :: "string \<Rightarrow> live_chat \<Rightarrow> live_chat" where
  "note_turn_start cwd lv = lv\<lparr>lv_turns := lv_turns lv @ [cwd]\<rparr>"

datatype steer_outcome = Accepted | NotSteerable

definition steer_chat :: "engine_env \<Rightarrow> int \<Rightarrow> string \<Rightarrow> string option \<Rightarrow> live_chat \<Rightarrow> live_chat \<times> (engine_error + steer_outcome)" where
  "steer_chat en now prompt mid lv =
     (case route_send \<lparr>sm_prompt = prompt, sm_message_id = mid\<rparr> lv of
        (lv, Delivered run) \<Rightarrow>
          (case accept_steer en now run prompt mid lv of
             (lv, Inl err) \<Rightarrow> (lv, Inl err)
           | (lv, Inr i) \<Rightarrow>
               (let lv = (case lv_last_request lv of Some rq \<Rightarrow> note_turn_start (rq_cwd rq) lv | None \<Rightarrow> lv);
                    (lv, taken) = settle_steer now prompt run i lv
                in (lv, Inr (if taken then Accepted else NotSteerable))))
      | (lv, _) \<Rightarrow> (lv, Inr NotSteerable))"

section \<open>Interrupts and answers\<close>

text \<open>\<open>wait\<close> is what the other tasks do while the caller waits for the run to settle.\<close>

definition interrupt :: "(live_chat \<Rightarrow> live_chat) \<Rightarrow> live_chat \<Rightarrow> live_chat \<times> bool" where
  "interrupt wait lv =
     (case lv_run lv of
        None \<Rightarrow> (lv, False)
      | Some r \<Rightarrow>
          (case bt_get (lv_handles lv) r of
             None \<Rightarrow> (lv, False)
           | Some hn \<Rightarrow> (wait (put_handle r ((decline (rh_pending hn) hn)\<lparr>rh_token := True, rh_cancel := True\<rparr>) lv), True)))"

definition respond_input :: "string \<Rightarrow> user_input_answer list \<Rightarrow> live_chat \<Rightarrow> live_chat \<times> bool" where
  "respond_input rid answers lv =
     (case lv_run lv of
        None \<Rightarrow> (lv, False)
      | Some r \<Rightarrow>
          (case bt_get (lv_handles lv) r of
             None \<Rightarrow> (lv, False)
           | Some hn \<Rightarrow>
               if rid \<notin> set (rh_pending hn) then (lv, False)
               else (put_handle r (hn\<lparr>rh_pending := filter (\<lambda>i. i \<noteq> rid) (rh_pending hn), rh_answered := rh_answered hn @ [(rid, answers)],
                       rh_engine := rh_engine hn @ [InputResolved rid]\<rparr>) lv, True)))"

text \<open>The bridge through which an adapter asks: the id has a resolver before the event is sent.\<close>

definition request_input :: "(nat \<Rightarrow> string) \<Rightarrow> string \<Rightarrow> user_input_question list \<Rightarrow> live_chat \<Rightarrow> live_chat" where
  "request_input uuid run qs lv =
     (let (i, lv) = draw uuid lv
      in case bt_get (lv_handles lv) run of
           Some hn \<Rightarrow> put_handle run (hn\<lparr>rh_pending := rh_pending hn @ [i], rh_engine := rh_engine hn @ [InputRequested i qs]\<rparr>) lv
         | None \<Rightarrow> lv)"

section \<open>Dispatch\<close>

definition new_handle :: "bool \<Rightarrow> run_handle" where
  "new_handle steerable = \<lparr>rh_steerable = steerable, rh_mailbox = [], rh_mailbox_open = True, rh_token = False, rh_cancel = False,
     rh_engine = [], rh_pending = [], rh_declined = [], rh_answered = [], rh_ledger = []\<rparr>"

text \<open>The resume id of a request that brings none, and whether it was put in.\<close>

definition inject_resume :: "engine_env \<Rightarrow> run_request \<Rightarrow> live_chat \<Rightarrow> run_request \<times> bool \<times> live_chat" where
  "inject_resume en rq lv =
     (if rq_resume rq \<noteq> None then (rq, False, lv)
      else let (r, lv) = resume_for en (rq_cwd rq) lv in (rq\<lparr>rq_resume := r\<rparr>, r \<noteq> None, lv))"

text \<open>The run itself: its handle, the row, and the task at the start of its loop.\<close>

definition begin_run ::
    "engine_env \<Rightarrow> int \<Rightarrow> bool \<Rightarrow> bool \<Rightarrow> run_request \<Rightarrow> string \<Rightarrow> bool \<Rightarrow> bool \<Rightarrow> live_chat \<Rightarrow> live_chat \<times> string \<times> run_task" where
  "begin_run en now steerable deterministic rq i injected retry lv =
     (let lv = lv\<lparr>lv_last_request := Some rq\<rparr>;
          (run, lv) = draw (en_uuid en) lv;
          lv = put_handle run (new_handle steerable) (lv\<lparr>lv_run := Some run\<rparr>);
          lv = note_message (rq_prompt rq) (set_status now Status_Working True lv);
          lv = lv\<lparr>lv_titles := lv_titles lv @ [rq_prompt rq]\<rparr>;
          (entry, lv) = draw (en_uuid en) lv
      in (lv, run, new_run_task run steerable rq (compact_threshold (context_window_for (rq_model rq) (rq_model_options rq)))
            (quiesce_after (en_quiesce en) deterministic) (self_quiesce_after (en_self_quiesce en)) i injected retry now entry))"

text \<open>A run of its own: the message is written, the resume id put in, and the run started.\<close>

definition dispatch_fresh ::
    "engine_env \<Rightarrow> int \<Rightarrow> harness_id \<Rightarrow> run_request \<Rightarrow> string option \<Rightarrow> bool \<Rightarrow> live_chat \<Rightarrow> live_chat \<times> (engine_error + string \<times> run_task)" where
  "dispatch_fresh en now harness rq mid retry lv =
     (case en_resolve en harness of
        Inl err \<Rightarrow> (lv, Inl err)
      | Inr (steerable, deterministic) \<Rightarrow>
          (case en_open en of
             Some err \<Rightarrow> (lv, Inl err)
           | None \<Rightarrow>
               (let (i, lv) = draw_id (en_uuid en) mid lv;
                    lv = write_user_message (en_hash en) i (rq_prompt rq) now lv;
                    (rq, injected, lv) = inject_resume en rq lv;
                    (lv, run, rt) = begin_run en now steerable deterministic rq i injected retry lv
                in (lv, Inr (run, rt)))))"

text \<open>A prompt: into the live run, or, when that cannot take it, a run of its own after the old one was stopped.\<close>

definition dispatch_turn ::
    "engine_env \<Rightarrow> (live_chat \<Rightarrow> live_chat) \<Rightarrow> int \<Rightarrow> harness_id \<Rightarrow> run_request \<Rightarrow> string option \<Rightarrow> bool \<Rightarrow> live_chat \<Rightarrow>
     live_chat \<times> (engine_error + string \<times> run_task option)" where
  "dispatch_turn en wait now harness rq0 mid retry lv0 =
     (let rq = rq0\<lparr>rq_cwd := expand_home (en_home en) (rq_cwd rq0)\<rparr>;
          fresh = (\<lambda>mid lv. case dispatch_fresh en now harness rq mid retry lv of
                     (lv, Inl err) \<Rightarrow> (lv, Inl err)
                   | (lv, Inr (run, rt)) \<Rightarrow> (lv, Inr (run, Some rt)))
      in case route_send \<lparr>sm_prompt = rq_prompt rq, sm_message_id = mid\<rparr> (note_turn_start (rq_cwd rq) lv0) of
           (lv, No_Run) \<Rightarrow> fresh mid lv
         | (lv, Undelivered r) \<Rightarrow> fresh mid (fst (interrupt wait lv))
         | (lv, Delivered r) \<Rightarrow>
             (case accept_steer en now r (rq_prompt rq) mid lv of
                (lv, Inl err) \<Rightarrow> (lv, Inl err)
              | (lv, Inr i) \<Rightarrow>
                  (case settle_steer now (rq_prompt rq) r i lv of
                     (lv, True) \<Rightarrow> (lv, Inr (r, None))
                   | (lv, False) \<Rightarrow> fresh (Some i) (fst (interrupt wait lv)))))"

section \<open>Turns that come by themselves\<close>

text \<open>The requests of the turns a run or a boot leaves to be dispatched; a list of steers stops at the first failure.\<close>

definition redispatch_request :: "routed_steer \<Rightarrow> run_request \<Rightarrow> run_request" where
  "redispatch_request s rq = rq\<lparr>rq_prompt := rs_prompt s, rq_resume := None, rq_attachments := []\<rparr>"

fun redispatch ::
    "engine_env \<Rightarrow> (live_chat \<Rightarrow> live_chat) \<Rightarrow> int \<Rightarrow> harness_id \<Rightarrow> routed_steer list \<Rightarrow> live_chat \<Rightarrow> live_chat" where
  "redispatch en wait now harness [] lv = lv"
| "redispatch en wait now harness (s # ss) lv =
     (case lv_last_request lv of
        None \<Rightarrow> lv
      | Some rq \<Rightarrow>
          (case dispatch_turn en wait now harness (redispatch_request s rq) (Some (rs_message_id s)) False lv of
             (lv, Inl _) \<Rightarrow> set_status now Status_Errored False lv
           | (lv, Inr _) \<Rightarrow> redispatch en wait now harness ss lv))"

definition retry_start ::
    "engine_env \<Rightarrow> (live_chat \<Rightarrow> live_chat) \<Rightarrow> int \<Rightarrow> harness_id \<Rightarrow> run_request \<Rightarrow> string \<Rightarrow> live_chat \<Rightarrow> live_chat" where
  "retry_start en wait now harness rq i lv =
     (case dispatch_turn en wait now harness rq (Some i) True lv of
        (lv, Inl _) \<Rightarrow> set_status now Status_Errored False lv
      | (lv, Inr _) \<Rightarrow> lv)"

definition request_from_chat_row :: "engine_env \<Rightarrow> string \<Rightarrow> run_request option" where
  "request_from_chat_row en prompt =
     map_option (\<lambda>ch. let cfg = ch_config ch in
       \<lparr>rq_prompt = prompt, rq_harness = map_option cfg_harness cfg, rq_model = Option.bind cfg cfg_model,
        rq_reasoning = Option.bind cfg cfg_reasoning, rq_model_options = (case cfg of Some c \<Rightarrow> cfg_model_options c | None \<Rightarrow> []),
        rq_cwd = (case ch_cwd ch of Some d \<Rightarrow> d | None \<Rightarrow> []), rq_sandbox = (case cfg of Some c \<Rightarrow> cfg_sandbox c | None \<Rightarrow> WorkspaceWrite),
        rq_auto_approve = False, rq_resume = None, rq_mcp_servers = Option.bind cfg cfg_mcp_servers, rq_attachments = [],
        rq_worktree = None\<rparr>) (en_row en)"

section \<open>Recovery at boot\<close>

definition max_auto_resume :: nat where "max_auto_resume = 3"

definition resume_fresh_ms :: int where "resume_fresh_ms = 12 * 60 * 60 * 1000"

fun text_part :: "message_part \<Rightarrow> string option" where
  "text_part (Text _ s) = Some s"
| "text_part _ = None"

definition find_map :: "('a \<Rightarrow> 'b option) \<Rightarrow> 'a list \<Rightarrow> 'b option" where
  "find_map f xs = (case List.map_filter f xs of [] \<Rightarrow> None | y # _ \<Rightarrow> Some y)"

text \<open>The message to run again: the last of the user.\<close>

definition revival_prompt :: "message_entry list \<Rightarrow> (string \<times> string) option" where
  "revival_prompt es =
     Option.bind (find (\<lambda>e. me_role e = User) (rev es)) (\<lambda>e. map_option (\<lambda>s. (me_id e, s)) (find_map text_part (me_parts e)))"

definition revival_fresh :: "int \<Rightarrow> message_entry list \<Rightarrow> bool" where
  "revival_fresh now es =
     (case find (\<lambda>e. me_status e = Some Streaming) (rev es) of
        Some e \<Rightarrow> now - me_created_at e < resume_fresh_ms
      | None \<Rightarrow> False)"

definition restart_note :: "bool \<Rightarrow> string" where
  "restart_note resuming = ''Run interrupted by engine restart'' @ (if resuming then '' '' @ em_dash @ '' resuming'' else [])"

text \<open>One chat whose journal does not end in \<open>Done\<close>: the new state, and whether it counts as recovered.\<close>

definition recover_chat :: "engine_env \<Rightarrow> int \<Rightarrow> live_chat \<Rightarrow> engine_error + live_chat \<times> bool" where
  "recover_chat en now lv =
     (if lv_run lv \<noteq> None then Inr (lv, False)
      else case en_open en of
        Some err \<Rightarrow> Inl err
      | None \<Rightarrow>
          (let lv = (case journal_harness_session en lv of Some (sid, dir) \<Rightarrow> remember_harness_session sid dir lv | None \<Rightarrow> lv);
               es = read_entries (en_hash en) (lv_doc lv);
               prompt = revival_prompt es;
               resuming = (revival_fresh now es \<and> prompt \<noteq> None \<and> lv_attempts lv < max_auto_resume);
               note = restart_note resuming;
               lv = publish (Done DoneInterrupted None (Some note) None) lv;
               lv = set_status now Status_Idle False (fst (mark_abandoned_streams (en_hash en) note lv))
           in Inr (if \<not> resuming then lv
                   else lv\<lparr>lv_attempts := lv_attempts lv + 1, lv_respawn := lv_respawn lv @ [Revive (fst (the prompt)) (snd (the prompt))]\<rparr>, True)))"

text \<open>The chats the scan named, in its order; the first that fails ends the recovery.\<close>

fun recover_stale ::
    "(string \<Rightarrow> engine_env) \<Rightarrow> int \<Rightarrow> string list \<Rightarrow> (string, live_chat) btree \<Rightarrow> nat \<Rightarrow> (string, live_chat) btree \<times> (engine_error + nat)" where
  "recover_stale env now [] chats n = (chats, Inr n)"
| "recover_stale env now (c # cs) chats n =
     (case bt_get chats c of
        None \<Rightarrow> recover_stale env now cs chats n
      | Some lv \<Rightarrow>
          (case recover_chat (env c) now lv of
             Inl err \<Rightarrow> (chats, Inl err)
           | Inr (lv, counted) \<Rightarrow> recover_stale env now cs (bt_insert c lv chats) (if counted then n + 1 else n)))"

text \<open>The request a revival runs with: the last one, the row's, or what the journal knows.\<close>

definition revival_request :: "engine_env \<Rightarrow> string \<Rightarrow> live_chat \<Rightarrow> run_request option" where
  "revival_request en prompt lv =
     map_option (\<lambda>rq. rq\<lparr>rq_prompt := prompt, rq_resume := None, rq_attachments := []\<rparr>)
       (case lv_last_request lv of
          Some rq \<Rightarrow> Some rq
        | None \<Rightarrow>
            (case request_from_chat_row en prompt of
               Some rq \<Rightarrow> Some rq
             | None \<Rightarrow>
                 map_option (\<lambda>(_, dir). \<lparr>rq_prompt = [], rq_harness = None, rq_model = None, rq_reasoning = None, rq_model_options = [],
                   rq_cwd = dir, rq_sandbox = WorkspaceWrite, rq_auto_approve = False, rq_resume = None, rq_mcp_servers = None,
                   rq_attachments = [], rq_worktree = None\<rparr>) (journal_harness_session en lv)))"

text \<open>\<open>harness_for_request\<close>: the request's own choice, else the row's, else the default.\<close>

definition harness_for_request :: "engine_env \<Rightarrow> harness_id \<Rightarrow> run_request \<Rightarrow> harness_id" where
  "harness_for_request en fallback rq =
     (case rq_harness rq of
        Some x \<Rightarrow> x
      | None \<Rightarrow> (case Option.bind (en_row en) ch_config of Some c \<Rightarrow> cfg_harness c | None \<Rightarrow> fallback))"

definition revive ::
    "engine_env \<Rightarrow> (live_chat \<Rightarrow> live_chat) \<Rightarrow> int \<Rightarrow> harness_id \<Rightarrow> string \<Rightarrow> string \<Rightarrow> live_chat \<Rightarrow> live_chat" where
  "revive en wait now fallback i prompt lv =
     (case revival_request en prompt lv of
        None \<Rightarrow> lv
      | Some rq \<Rightarrow> fst (dispatch_turn en wait now (harness_for_request en fallback rq) rq (Some i) False lv))"

end
