(* ===== verification/Session_Ledger.thy ===== *)
theory Session_Ledger
  imports Session_Life
begin

text \<open>
  The ledger of a run: what becomes of the steers it accepted, whatever steps the task of the run and the callers of
  \<open>steer\<close> and \<open>dispatch\<close> take in between.
\<close>

definition ledger :: "string \<Rightarrow> live_chat \<Rightarrow> routed_steer list" where
  "ledger r lv = (case bt_get (lv_handles lv) r of Some hn \<Rightarrow> rh_ledger hn | None \<Rightarrow> [])"

text \<open>Steps that leave the ledger of a run, the map of runs and the turns to come alone.\<close>

definition ledger_frame :: "string \<Rightarrow> live_chat \<Rightarrow> live_chat \<Rightarrow> bool" where
  "ledger_frame r lv lv' = (ledger r lv' = ledger r lv \<and> lv_run lv' = lv_run lv \<and> lv_respawn lv' = lv_respawn lv \<and>
     (bt_get (lv_handles lv') r = None \<longleftrightarrow> bt_get (lv_handles lv) r = None) \<and> (\<exists>es. lv_journal lv' = lv_journal lv @ es))"

lemma ledger_frame_refl [simp, intro]: "ledger_frame r lv lv"
  by (simp add: ledger_frame_def)

lemma ledger_frame_trans [trans]: "ledger_frame r a b \<Longrightarrow> ledger_frame r b c \<Longrightarrow> ledger_frame r a c"
  by (auto simp: ledger_frame_def)

lemma ledger_frame_same:
  "lv_handles lv' = lv_handles lv \<Longrightarrow> lv_run lv' = lv_run lv \<Longrightarrow> lv_respawn lv' = lv_respawn lv \<Longrightarrow> lv_journal lv' = lv_journal lv @ es \<Longrightarrow>
   ledger_frame r lv lv'"
  by (auto simp: ledger_frame_def ledger_def)

lemma same_frames [simp]:
  "lv_handles (set_status now st f lv) = lv_handles lv" "lv_run (set_status now st f lv) = lv_run lv"
  "lv_respawn (set_status now st f lv) = lv_respawn lv" "lv_journal (set_status now st f lv) = lv_journal lv"
  "lv_handles (touch_session now lv) = lv_handles lv" "lv_run (touch_session now lv) = lv_run lv"
  "lv_respawn (touch_session now lv) = lv_respawn lv" "lv_journal (touch_session now lv) = lv_journal lv"
  "lv_handles (set_context_tokens n lv) = lv_handles lv" "lv_run (set_context_tokens n lv) = lv_run lv"
  "lv_respawn (set_context_tokens n lv) = lv_respawn lv" "lv_journal (set_context_tokens n lv) = lv_journal lv"
  "lv_handles (note_message t lv) = lv_handles lv" "lv_run (note_message t lv) = lv_run lv"
  "lv_respawn (note_message t lv) = lv_respawn lv" "lv_journal (note_message t lv) = lv_journal lv"
  "lv_handles (remember_harness_session sid cwd lv) = lv_handles lv" "lv_run (remember_harness_session sid cwd lv) = lv_run lv"
  "lv_respawn (remember_harness_session sid cwd lv) = lv_respawn lv" "lv_journal (remember_harness_session sid cwd lv) = lv_journal lv"
  "lv_handles (close_segment ms lv rt) = lv_handles lv" "lv_run (close_segment ms lv rt) = lv_run lv"
  "lv_respawn (close_segment ms lv rt) = lv_respawn lv" "lv_journal (close_segment ms lv rt) = lv_journal lv"
  "lv_handles (snd (draw uuid lv)) = lv_handles lv" "lv_run (snd (draw uuid lv)) = lv_run lv"
  "lv_respawn (snd (draw uuid lv)) = lv_respawn lv" "lv_journal (snd (draw uuid lv)) = lv_journal lv"
  by (simp_all add: set_status_def touch_session_def set_context_tokens_def note_message_def remember_harness_session_def
      close_segment_def draw_def Let_def split: option.split sum.split)

lemma frame_same [intro, simp]:
  "ledger_frame r lv (set_status now st f lv)" "ledger_frame r lv (touch_session now lv)" "ledger_frame r lv (set_context_tokens n lv)"
  "ledger_frame r lv (note_message t lv)" "ledger_frame r lv (remember_harness_session sid cwd lv)" "ledger_frame r lv (close_segment ms lv rt)"
  "ledger_frame r lv (snd (draw uuid lv))" "ledger_frame r lv (publish e lv)"
  by (rule ledger_frame_same, simp_all add: publish_def)+

lemma frame_put_handle:
  "bt_get (lv_handles lv) r' = Some hn \<Longrightarrow> rh_ledger hn' = rh_ledger hn \<Longrightarrow> ledger_frame r lv (put_handle r' hn' lv)"
  by (auto simp: ledger_frame_def ledger_def put_handle_def)

lemma decline_ledger [simp]: "rh_ledger (decline is hn) = rh_ledger hn"
  by (simp add: decline_def)

lemma frame_decline_current: "ledger_frame r lv (decline_current rid lv)"
  by (auto simp: decline_current_def intro: frame_put_handle split: option.split)

lemma own_handle_get: "own_handle run lv = Some hn \<Longrightarrow> bt_get (lv_handles lv) run = Some hn"
  by (simp add: own_handle_def split: if_splits)

lemma frame_send_compact: "send_compact lv rt = Some lv' \<Longrightarrow> ledger_frame r lv lv'"
  by (auto simp: send_compact_def mailbox_send_def split: option.splits if_splits dest!: own_handle_get intro: frame_put_handle)

lemma frame_pop_engine: "ledger_frame r lv (snd (pop_engine lv rt))"
  by (auto simp: pop_engine_def intro: frame_put_handle split: option.split list.split)

lemma frame_settle_turn: "ledger_frame r lv (fst (settle_turn st lv rt))"
proof -
  define lv1 where "lv1 = (case own_handle (rt_run_id rt) lv of
    Some hn \<Rightarrow> put_handle (rt_run_id rt) (decline (rh_pending hn) hn) lv | None \<Rightarrow> lv)"
  have a: "ledger_frame r lv lv1" by (auto simp: lv1_def intro: frame_put_handle dest: own_handle_get split: option.split)
  have b: "ledger_frame r lv1 (fst (settle_turn st lv rt))"
    by (auto simp: settle_turn_def lv1_def [symmetric] Let_def intro!: ledger_frame_same [where es = "[]"])
  show ?thesis by (rule ledger_frame_trans [OF a b])
qed

lemma settle_turn_id [simp]: "rt_run_id (snd (settle_turn st lv rt)) = rt_run_id rt" "rt_interrupted (snd (settle_turn st lv rt)) = rt_interrupted rt"
  by (simp_all add: settle_turn_def Let_def)

lemma reset_segment_id [simp]: "rt_run_id (reset_segment i now rt) = rt_run_id rt" "rt_interrupted (reset_segment i now rt) = rt_interrupted rt"
  by (simp_all add: reset_segment_def)

text \<open>What one iteration may do to the ledger of its run.\<close>

fun result_run :: "run_result \<Rightarrow> string option" where
  "result_run (Going rt) = Some (rt_run_id rt)"
| "result_run (Break rt _) = Some (rt_run_id rt)"
| "result_run Replaced = None"

definition quiet_step :: "string \<Rightarrow> live_chat \<Rightarrow> live_chat \<Rightarrow> run_result \<Rightarrow> bool" where
  "quiet_step r lv lv' res = (ledger_frame r lv lv' \<and> result_run res = Some r)"

definition confirm_step :: "string \<Rightarrow> live_chat \<Rightarrow> live_chat \<Rightarrow> run_result \<Rightarrow> bool" where
  "confirm_step r lv lv' res = (ledger r lv' = drop 1 (ledger r lv) \<and> lv_run lv' = lv_run lv \<and> lv_respawn lv' = lv_respawn lv \<and>
     bt_get (lv_handles lv') r \<noteq> None \<and> (\<exists>es a b. lv_journal lv' = lv_journal lv @ es @ [Steered a b]) \<and> result_run res = Some r)"

definition replaced_step :: "string \<Rightarrow> live_chat \<Rightarrow> live_chat \<Rightarrow> run_result \<Rightarrow> bool" where
  "replaced_step r lv lv' res = (res = Replaced \<and> ledger r lv' = ledger r lv \<and> lv_run lv' = None \<and>
     (bt_get (lv_handles lv') r = None \<longleftrightarrow> bt_get (lv_handles lv) r = None) \<and> (\<exists>es. lv_journal lv' = lv_journal lv @ es) \<and>
     (\<exists>rq i. lv_respawn lv' = lv_respawn lv @ [Retry rq i]))"

lemma on_steered_ledger:
  assumes "on_steered uuid now a b (lv, rt) = (lv', rt')" "rt_run_id rt = r" "lv_run lv = Some r" "bt_get (lv_handles lv) r = Some hn"
  shows "confirm_step r lv lv' (Going rt')"
  using assms
  by (auto simp: on_steered_def confirm_step_def ledger_def own_handle_def put_handle_def publish_def draw_def Let_def split: option.splits)

lemma on_done_ledger:
  assumes "on_done uuid now st (lv, rt) = (lv', res)"
  shows "quiet_step (rt_run_id rt) lv lv' res"
proof -
  obtain lv1 rt1 where s: "settle_turn st lv rt = (lv1, rt1)" by fastforce
  have f: "ledger_frame (rt_run_id rt) lv lv1" "rt_run_id rt1 = rt_run_id rt"
    using frame_settle_turn [of "rt_run_id rt" lv st rt] settle_turn_id [of st lv rt] s by auto
  show ?thesis
  proof (cases "if rt_compact_pending rt1 then send_compact lv1 rt1 else None")
    case None
    then show ?thesis using assms s f
      by (auto simp: on_done_def quiet_step_def Let_def draw_def split: if_splits
          intro!: ledger_frame_trans [OF f(1)] ledger_frame_same [where es = "[]"])
  next
    case (Some lv2)
    then have "ledger_frame (rt_run_id rt) lv1 lv2" by (auto intro: frame_send_compact split: if_splits)
    then have f2: "ledger_frame (rt_run_id rt) lv lv2" using f(1) ledger_frame_trans by blast
    show ?thesis using assms s f Some
      by (auto simp: on_done_def quiet_step_def Let_def draw_def split: if_splits
          intro!: ledger_frame_trans [OF f2] ledger_frame_same [where es = "[]"])
  qed
qed


lemma observe_ledger: "observe now ev (lv, rt) = (lv', rt') \<Longrightarrow> ledger_frame r lv lv' \<and> rt_run_id rt' = rt_run_id rt"
  by (cases "(now, ev, lv, rt)" rule: observe.cases) (auto split: if_splits)

lemma mark_dirty_id [simp]: "rt_interrupted (mark_dirty now rt) = rt_interrupted rt"
  by (simp add: mark_dirty_def)

lemma on_plain_ledger:
  assumes "on_plain ld uuid now ev (lv, rt) = (lv', res)"
  shows "quiet_step (rt_run_id rt) lv lv' res"
proof -
  obtain lv1 rt1 where o: "observe now ev (lv, rt) = (lv1, rt1)" by fastforce
  define rt2 where "rt2 = (if skip_fold ev (rt_folded rt1) then rt1 else rt1\<lparr>rt_folded := fold_event_into_parts ld ev (rt_folded rt1)\<rparr>)"
  have f: "ledger_frame (rt_run_id rt) lv lv1" "rt_run_id rt1 = rt_run_id rt" using observe_ledger [OF o] by auto
  have p: "ledger_frame (rt_run_id rt) lv (publish ev lv1)" by (rule ledger_frame_trans [OF f(1)]) simp
  have i: "rt_run_id rt2 = rt_run_id rt" using f(2) by (simp add: rt2_def)
  have e: "on_plain ld uuid now ev (lv, rt) = (case done_status_of ev of
      Some st \<Rightarrow> on_done uuid now st (publish ev lv1, rt2)
    | None \<Rightarrow> (publish ev lv1, Going (if rt_folded rt2 = [] then rt2 else mark_dirty now rt2)))"
    by (simp only: on_plain_def o prod.case Let_def rt2_def)
  show ?thesis
  proof (cases "done_status_of ev")
    case None
    then have "lv' = publish ev lv1" "result_run res = Some (rt_run_id rt2)" using assms e by (auto split: if_splits)
    then show ?thesis using p i by (simp add: quiet_step_def)
  next
    case (Some st)
    then have "on_done uuid now st (publish ev lv1, rt2) = (lv', res)" using assms e by simp
    from on_done_ledger [OF this] i show ?thesis using ledger_frame_trans [OF p] by (simp add: quiet_step_def)
  qed
qed

lemma parked_boundary_ledger:
  "parked_boundary now ev (lv, rt) = (g, lv1) \<Longrightarrow>
   ledger_frame r lv lv1 \<and> (\<forall>lv2 rt2. g = Some (lv2, rt2) \<longrightarrow> ledger_frame r lv lv2 \<and> rt_run_id rt2 = rt_run_id rt)"
  by (cases "(now, ev, lv, rt)" rule: parked_boundary.cases) (auto simp: frame_decline_current)

lemma parked_gate_ledger:
  assumes "parked_gate uuid now ev (lv, rt) = (g, lv1)"
  shows "ledger_frame r lv lv1 \<and> (\<forall>lv2 rt2. g = Some (lv2, rt2) \<longrightarrow> ledger_frame r lv lv2 \<and> rt_run_id rt2 = rt_run_id rt)"
proof (cases "rt_idle_since rt")
  case None
  then show ?thesis using assms by (auto simp: parked_gate_def)
next
  case (Some at)
  show ?thesis
  proof (cases "resume_gate_ms \<le> now - at \<and> fresh_output rt ev")
    case True
    then show ?thesis using assms Some
      by (auto simp: parked_gate_def draw_def intro!: ledger_frame_same [where es = "[]"])
  next
    case False
    have "parked_boundary now ev (lv, rt) = (g, lv1)"
      using assms unfolding parked_gate_def prod.case Some option.case if_not_P [OF False] .
    then show ?thesis by (rule parked_boundary_ledger)
  qed
qed

lemma note_tool_id [simp]: "rt_run_id (note_tool ev rt) = rt_run_id rt"
  by (cases "(ev, rt)" rule: note_tool.cases) auto

definition step_kinds :: "string \<Rightarrow> live_chat \<Rightarrow> live_chat \<Rightarrow> run_result \<Rightarrow> bool" where
  "step_kinds r lv lv' res = (quiet_step r lv lv' res \<or> confirm_step r lv lv' res \<or> replaced_step r lv lv' res)"

lemma step_kinds_after:
  assumes "ledger_frame r lv lv1" "step_kinds r lv1 lv' res"
  shows "step_kinds r lv lv' res"
proof -
  have "confirm_step r lv1 lv' res \<Longrightarrow> confirm_step r lv lv' res" using assms(1) by (fastforce simp: confirm_step_def ledger_frame_def)
  moreover have "replaced_step r lv1 lv' res \<Longrightarrow> replaced_step r lv lv' res" using assms(1) by (auto simp: replaced_step_def ledger_frame_def)
  ultimately show ?thesis using assms ledger_frame_trans by (auto simp: step_kinds_def quiet_step_def)
qed

lemma startup_ledger:
  assumes "rt_run_id rt = r" "lv_run lv = Some r"
  shows "step_kinds r lv ((remove_run (rt_run_id rt) lv)\<lparr>lv_respawn := lv_respawn lv @ [Retry rq i]\<rparr>) Replaced"
  using assms by (simp add: step_kinds_def replaced_step_def remove_run_def ledger_def)

lemma on_event_ledger:
  assumes "on_event ld uuid now ev (lv, rt) = (lv', res)" "rt_run_id rt = r" "lv_run lv = Some r" "bt_get (lv_handles lv) r \<noteq> None"
  shows "step_kinds r lv lv' res"
proof -
  define lv1 where "lv1 = touch_session now lv"
  define rt1 where "rt1 = rt\<lparr>rt_last_activity := now\<rparr>"
  have f1: "ledger_frame r lv lv1" and i1: "rt_run_id rt1 = r" using assms(2) by (simp_all add: lv1_def rt1_def)
  obtain g lv2 where g: "parked_gate uuid now ev (lv1, rt1) = (g, lv2)" by fastforce
  note pg = parked_gate_ledger [OF g, of r]
  have still: "step_kinds r lv x (Going y)" if "ledger_frame r lv1 x" "rt_run_id y = r" for x y
    using that ledger_frame_trans [OF f1] by (simp add: step_kinds_def quiet_step_def)
  have eq: "on_event ld uuid now ev (lv, rt) =
     (if unknown_question lv1 ev then (lv1, Going rt1)
      else case (g, lv2) of
        (None, lv) \<Rightarrow> (lv, Going rt1)
      | (Some (lv, rt), _) \<Rightarrow>
          if ev = ReasoningDelta [] then (lv, Going rt)
          else if stale_echo rt ev then (lv, Going rt)
          else let rt = note_tool ev rt
               in if startup_crash rt ev then
                    (let lv = remove_run (rt_run_id rt) lv
                     in (lv\<lparr>lv_respawn := lv_respawn lv @ [Retry (the (rt_retry rt)) (rt_user_message_id rt)]\<rparr>, Replaced))
                  else (case boundary_of ev of
                          Some (a, b) \<Rightarrow> (let (lv, rt) = on_steered uuid now a b (lv, rt) in (lv, Going rt))
                        | None \<Rightarrow> on_plain ld uuid now ev (lv, rt)))"
    unfolding on_event_def lv1_def [symmetric] rt1_def [symmetric] prod.case Let_def g ..
  show ?thesis
  proof (cases "unknown_question lv1 ev")
    case True
    then show ?thesis using assms(1) eq i1 still by auto
  next
    case nq: False
    show ?thesis
    proof (cases g)
      case None
      then show ?thesis using assms(1) eq nq i1 still pg by auto
    next
      case (Some q)
      obtain lv3 rt3 where q: "q = (lv3, rt3)" by fastforce
      then have f3: "ledger_frame r lv1 lv3" "rt_run_id rt3 = r" using pg Some i1 by auto
      have f: "ledger_frame r lv lv3" by (rule ledger_frame_trans [OF f1 f3(1)])
      then have live: "lv_run lv3 = Some r" "bt_get (lv_handles lv3) r \<noteq> None" using assms(3,4) by (auto simp: ledger_frame_def)
      define rt4 where "rt4 = note_tool ev rt3"
      have i4: "rt_run_id rt4 = r" using f3(2) by (simp add: rt4_def)
      note eq' = eq [unfolded Some q option.case prod.case Let_def rt4_def [symmetric]]
      consider "ev = ReasoningDelta [] \<or> stale_echo rt3 ev" | "ev \<noteq> ReasoningDelta []" "\<not> stale_echo rt3 ev" "startup_crash rt4 ev"
        | "ev \<noteq> ReasoningDelta []" "\<not> stale_echo rt3 ev" "\<not> startup_crash rt4 ev" by blast
      then show ?thesis
      proof cases
        case 1
        then have "lv' = lv3" "res = Going rt3" using assms(1) eq' nq by (auto split: if_splits)
        then show ?thesis using still [OF f3] by simp
      next
        case 2
        then have "lv' = (remove_run (rt_run_id rt4) lv3)\<lparr>lv_respawn := lv_respawn lv3 @ [Retry (the (rt_retry rt4)) (rt_user_message_id rt4)]\<rparr>"
            "res = Replaced"
          using assms(1) eq' nq by (auto simp: remove_run_def split: if_splits)
        then show ?thesis using step_kinds_after [OF f] startup_ledger [OF i4 live(1)] by simp
      next
        case 3
        show ?thesis
        proof (cases "boundary_of ev")
          case None
          then have "on_plain ld uuid now ev (lv3, rt4) = (lv', res)" using assms(1) eq' nq 3 by simp
          then show ?thesis using on_plain_ledger i4 by (intro step_kinds_after [OF f]) (auto simp: step_kinds_def)
        next
          case (Some ab)
          obtain a b lv5 rt5 where ab: "ab = (a, b)" "on_steered uuid now a b (lv3, rt4) = (lv5, rt5)" by (cases ab) fastforce
          then have "lv' = lv5" "res = Going rt5" using assms(1) eq' nq 3 Some by auto
          then show ?thesis using on_steered_ledger [OF ab(2) i4 live(1)] live(2)
            by (intro step_kinds_after [OF f]) (auto simp: step_kinds_def)
        qed
      qed
    qed
  qed
qed

lemma handle_event_ledger:
  assumes "handle_event h ld uuid hex now ev (lv, rt) = (lv', res)" "rt_run_id rt = r" "lv_run lv = Some r" "bt_get (lv_handles lv) r \<noteq> None"
  shows "step_kinds r lv lv' res"
proof (cases "tagged ev")
  case None
  then show ?thesis using assms on_event_ledger by (simp add: handle_event_def)
next
  case (Some p)
  obtain pid sub lv1 rt1 where p: "p = (pid, sub)" "route_subagent h ld uuid hex now pid sub (lv, rt) = (lv1, rt1)" by (cases p) fastforce
  then have "subagent_frame pid sub (lv, rt) (lv1, rt1)" using route_subagent_frame by metis
  then have "ledger_frame r lv lv1" "rt_run_id rt1 = r"
    using assms(2) by (auto simp: subagent_frame_def intro!: ledger_frame_same)
  then show ?thesis using assms(1) Some p by (auto simp: handle_event_def step_kinds_def quiet_step_def)
qed


lemma flush_sinks_ledger: "flush_sinks sks lv = (lv', sks') \<Longrightarrow> ledger_frame r lv lv'"
proof (induction sks arbitrary: lv lv' sks')
  case (Cons p sks)
  obtain pid sk lv1 sk1 where p: "p = (pid, sk)" "sink_flush sk lv = (lv1, sk1)" by (cases p) fastforce
  have "ledger_frame r lv lv1"
    using p(2) by (auto simp: sink_flush_def put_sub_doc_def split: if_splits sum.splits option.splits intro!: ledger_frame_same [where es = "[]"])
  moreover obtain lv2 sks2 where q: "flush_sinks sks lv1 = (lv2, sks2)" by fastforce
  ultimately show ?case using Cons.IH [OF q] Cons.prems p q ledger_frame_trans by auto
qed simp

lemma on_flush_ledger:
  assumes "on_flush (lv, rt) = (lv', rt')"
  shows "ledger_frame r lv lv' \<and> rt_run_id rt' = rt_run_id rt"
proof -
  define s1 where "s1 = (if \<not> rt_dirty rt then (lv, rt)
    else case sync_segment (rt_entry_id rt) (lv_device lv) (rt_segment_started rt) (rt_folded rt) (lv_doc lv, rt_writer rt) of
           Inr (d, w) \<Rightarrow> (lv\<lparr>lv_doc := d\<rparr>, rt\<lparr>rt_writer := w, rt_dirty := False\<rparr>)
         | Inl _ \<Rightarrow> (lv, rt\<lparr>rt_dirty := False\<rparr>))"
  obtain lv1 rt1 where s: "s1 = (lv1, rt1)" by fastforce
  then have a: "ledger_frame r lv lv1" "rt_run_id rt1 = rt_run_id rt"
    by (auto simp: s1_def split: if_splits sum.splits intro!: ledger_frame_same [where es = "[]"])
  obtain lv2 sks where q: "flush_sinks (rt_subagents rt1) lv1 = (lv2, sks)" by fastforce
  have "on_flush (lv, rt) = (lv2, rt1\<lparr>rt_subagents := sks\<rparr>)"
    unfolding on_flush_def prod.case s1_def [symmetric] s Let_def q ..
  then have "lv' = lv2" "rt_run_id rt' = rt_run_id rt1" using assms by auto
  then show ?thesis using a flush_sinks_ledger [OF q, of r] ledger_frame_trans by auto
qed

lemma on_quiesce_ledger:
  assumes "on_quiesce ld uuid now (lv, rt) = (lv', rt')"
  shows "ledger_frame r lv lv' \<and> rt_run_id rt' = rt_run_id rt"
proof -
  define rt1 where "rt1 = (if rt_self_continued rt then rt else rt\<lparr>rt_folded := fold_event_into_parts ld (Error quiet_note) (rt_folded rt)\<rparr>)"
  define lv1 where "lv1 = (if rt_folded rt1 \<noteq> [] \<or> rt_writer rt1 \<noteq> None
    then note_message (folded_text (rt_folded rt1)) (close_segment Complete lv rt1) else lv)"
  have i: "rt_run_id rt1 = rt_run_id rt" by (simp add: rt1_def)
  have "ledger_frame r lv lv1" by (auto simp: lv1_def intro!: ledger_frame_same [where es = "[]"])
  moreover have "on_quiesce ld uuid now (lv, rt) =
      (set_status now (if rt_self_continued rt1 then Status_Idle else Status_Errored) False (snd (draw uuid lv1)),
       reset_segment (fst (draw uuid lv1)) now (rt1\<lparr>rt_idle_since := Some now, rt_self_continued := False\<rparr>))"
    unfolding on_quiesce_def prod.case rt1_def [symmetric] lv1_def [symmetric] Let_def by (simp add: case_prod_unfold)
  then have "lv' = set_status now (if rt_self_continued rt1 then Status_Idle else Status_Errored) False (snd (draw uuid lv1))"
      "rt_run_id rt' = rt_run_id rt1" using assms by auto
  then have "ledger_frame r lv1 lv'" "rt_run_id rt' = rt_run_id rt" using i by (auto intro!: ledger_frame_same [where es = "[]"])
  ultimately show ?thesis using ledger_frame_trans by blast
qed

lemma on_reap_ledger:
  "on_reap (lv, rt) = (lv', res) \<Longrightarrow> quiet_step (rt_run_id rt) lv lv' res"
  by (auto simp: on_reap_def quiet_step_def intro: frame_put_handle dest: own_handle_get split: option.splits)

text \<open>One iteration of the loop: the ledger loses nothing but its head, and that to a boundary that is journalled.\<close>

lemma run_step_ledger:
  assumes "run_step h ld uuid hex now inp (lv, rt) = (lv', res)" "rt_run_id rt = r" "lv_run lv = Some r" "bt_get (lv_handles lv) r \<noteq> None"
  shows "step_kinds r lv lv' res"
proof -
  note ev = handle_event_ledger [where h = h and ld = ld and uuid = uuid and hex = hex and now = now and rt = rt, OF _ assms(2,3,4)]
  show ?thesis
  proof (cases inp)
    case InEngine
    obtain e lv1 where p: "pop_engine lv rt = (e, lv1)" by fastforce
    then have f: "ledger_frame r lv lv1" using frame_pop_engine [of r lv rt] by simp
    then have l: "lv_run lv1 = Some r" "bt_get (lv_handles lv1) r \<noteq> None" using assms(3,4) by (auto simp: ledger_frame_def)
    show ?thesis
    proof (cases e)
      case None
      then show ?thesis using assms(1,2) InEngine p f by (auto simp: step_kinds_def quiet_step_def)
    next
      case (Some a)
      then have "handle_event h ld uuid hex now a (lv1, rt) = (lv', res)" using assms(1) InEngine p by simp
      then show ?thesis using handle_event_ledger [OF _ assms(2) l] step_kinds_after [OF f] by blast
    qed
  next
    case InFlush
    then show ?thesis using assms(1,2) on_flush_ledger [of lv rt _ _ r] by (auto simp: step_kinds_def quiet_step_def split: prod.splits)
  next
    case InQuiesce
    then show ?thesis using assms(1,2) on_quiesce_ledger [of ld uuid now lv rt _ _ r] by (auto simp: step_kinds_def quiet_step_def split: prod.splits)
  next
    case InReap
    then show ?thesis using assms(1,2) on_reap_ledger by (auto simp: step_kinds_def)
  qed (use assms(1,2) ev in \<open>auto simp: step_kinds_def quiet_step_def split: if_splits\<close>)
qed


section \<open>A run and the callers of its steers\<close>

text \<open>
  The run is in its loop, has left it, has taken its ledger but is still in the map of runs, has ended (with the flag of an
  interrupt), or was replaced by a second try of its start. The books are what an observer notes: the steers entered in the
  ledger, those whose boundary came, the ids a caller took back, and the calls that have entered a steer but not yet looked
  whether the run is still there; and, of the window in which the ledger was taken and the run is still in the map, the steers
  entered and the ids whose caller was told there that the run has them.
\<close>

datatype run_phase = Loop run_task | Left run_task session_status | Drained run_task session_status "routed_steer list" | Ended bool | Retried

record steer_books =
  bk_entered :: "routed_steer list"
  bk_confirmed :: "routed_steer list"
  bk_reclaimed :: "string list"
  bk_open :: "string list"
  bk_late :: "routed_steer list"
  bk_raced :: "string list"

definition no_books :: steer_books where
  "no_books = \<lparr>bk_entered = [], bk_confirmed = [], bk_reclaimed = [], bk_open = [], bk_late = [], bk_raced = []\<rparr>"

text \<open>The entries one step took from the head of the ledger.\<close>

definition note_confirmed :: "string \<Rightarrow> live_chat \<Rightarrow> live_chat \<Rightarrow> steer_books \<Rightarrow> steer_books" where
  "note_confirmed r lv lv' bk = bk\<lparr>bk_confirmed := bk_confirmed bk @ take (length (ledger r lv) - length (ledger r lv')) (ledger r lv)\<rparr>"

fun phase_of :: "run_result \<Rightarrow> run_phase" where
  "phase_of (Going rt) = Loop rt"
| "phase_of (Break rt st) = Left rt st"
| "phase_of Replaced = Retried"

fun running :: "run_phase \<Rightarrow> bool" where
  "running (Loop _) = True"
| "running (Left _ _) = True"
| "running (Drained _ _ _) = True"
| "running _ = False"

fun drained :: "run_phase \<Rightarrow> bool" where
  "drained (Drained _ _ _) = True"
| "drained _ = False"

definition note_entered :: "run_phase \<Rightarrow> routed_steer \<Rightarrow> steer_books \<Rightarrow> steer_books" where
  "note_entered ph m bk =
     bk\<lparr>bk_entered := bk_entered bk @ [m], bk_open := rs_message_id m # bk_open bk, bk_late := (if drained ph then [m] else []) @ bk_late bk\<rparr>"

definition note_settled :: "run_phase \<Rightarrow> string \<Rightarrow> bool \<Rightarrow> steer_books \<Rightarrow> steer_books" where
  "note_settled ph i taken bk =
     bk\<lparr>bk_open := remove1 i (bk_open bk), bk_reclaimed := (if taken then [] else [i]) @ bk_reclaimed bk,
        bk_raced := (if drained ph \<and> taken then [i] else []) @ bk_raced bk\<rparr>"

text \<open>
  Everybody else: the adapter takes from the mailbox, events are queued, questions are asked and answered, documents and rows
  change. Nobody else touches the ledger, and nobody starts a second run while this one is in the map of runs.
\<close>

definition others_step :: "string \<Rightarrow> run_phase \<Rightarrow> live_chat \<Rightarrow> live_chat \<Rightarrow> bool" where
  "others_step r ph lv lv' = (ledger r lv' = ledger r lv \<and> lv_respawn lv' = lv_respawn lv \<and>
     (bt_get (lv_handles lv') r = None \<longleftrightarrow> bt_get (lv_handles lv) r = None) \<and> (\<exists>es. lv_journal lv' = lv_journal lv @ es) \<and>
     (if running ph then lv_run lv' = lv_run lv else lv_run lv' \<noteq> Some r))"

inductive steer_life for h ld hex en r lv0 rt0 where
  life_start: "steer_life h ld hex en r lv0 rt0 lv0 (Loop rt0) no_books"
| life_step: "steer_life h ld hex en r lv0 rt0 lv (Loop rt) bk \<Longrightarrow> input_enabled now inp (lv, rt) \<Longrightarrow>
    run_step h ld (en_uuid en) hex now inp (lv, rt) = (lv', res) \<Longrightarrow>
    steer_life h ld hex en r lv0 rt0 lv' (phase_of res) (note_confirmed r lv lv' bk)"
| life_drain: "steer_life h ld hex en r lv0 rt0 lv (Left rt st) bk \<Longrightarrow>
    drain_ledger rt (fold (freeze_sink h) (rt_subagents rt) lv) = (orphans, lv') \<Longrightarrow>
    steer_life h ld hex en r lv0 rt0 lv' (Drained rt st orphans) bk"
| life_end: "steer_life h ld hex en r lv0 rt0 lv (Drained rt st orphans) bk \<Longrightarrow>
    steer_life h ld hex en r lv0 rt0 (leave_run now rt st orphans lv) (Ended (rt_interrupted rt)) bk"
| life_enter: "steer_life h ld hex en r lv0 rt0 lv ph bk \<Longrightarrow> accept_steer en now r prompt mid lv = (lv', Inr i) \<Longrightarrow>
    steer_life h ld hex en r lv0 rt0 lv' ph (note_entered ph \<lparr>rs_prompt = prompt, rs_message_id = i\<rparr> bk)"
| life_settle: "steer_life h ld hex en r lv0 rt0 lv ph bk \<Longrightarrow> i \<in> set (bk_open bk) \<Longrightarrow> settle_steer now prompt r i lv = (lv', taken) \<Longrightarrow>
    steer_life h ld hex en r lv0 rt0 lv' ph (note_settled ph i taken bk)"
| life_others: "steer_life h ld hex en r lv0 rt0 lv ph bk \<Longrightarrow> others_step r ph lv lv' \<Longrightarrow> steer_life h ld hex en r lv0 rt0 lv' ph bk"

fun is_boundary :: "agent_event \<Rightarrow> bool" where
  "is_boundary (Steered _ _) = True"
| "is_boundary _ = False"

definition boundaries :: "live_chat \<Rightarrow> nat" where
  "boundaries lv = length (filter is_boundary (lv_journal lv))"

definition redispatched :: "routed_steer \<Rightarrow> live_chat \<Rightarrow> bool" where
  "redispatched m lv = (\<exists>ms. Redispatch ms \<in> set (lv_respawn lv) \<and> m \<in> set ms)"

text \<open>
  Until the run takes its ledger that is what was entered and not confirmed, in order; afterwards it holds nothing but what
  open calls entered and what was entered and accepted in the window.
\<close>

definition left_over :: "string \<Rightarrow> live_chat \<Rightarrow> steer_books \<Rightarrow> routed_steer \<Rightarrow> bool" where
  "left_over r lv bk m = (m \<in> set (ledger r lv) \<and> (rs_message_id m \<in> set (bk_open bk) \<or> m \<in> set (bk_late bk) \<and> rs_message_id m \<in> set (bk_raced bk)))"

definition accounted :: "string \<Rightarrow> live_chat \<Rightarrow> live_chat \<Rightarrow> run_phase \<Rightarrow> steer_books \<Rightarrow> bool" where
  "accounted r lv0 lv ph bk = (bt_get (lv_handles lv) r \<noteq> None \<and>
     length (bk_confirmed bk) + boundaries lv0 \<le> boundaries lv \<and>
     (case ph of
        Loop rt \<Rightarrow> rt_run_id rt = r \<and> lv_run lv = Some r \<and> bk_entered bk = bk_confirmed bk @ ledger r lv
      | Left rt _ \<Rightarrow> rt_run_id rt = r \<and> lv_run lv = Some r \<and> bk_entered bk = bk_confirmed bk @ ledger r lv
      | Drained rt _ orphans \<Rightarrow> rt_run_id rt = r \<and> lv_run lv = Some r \<and>
          (\<forall>m\<in>set (ledger r lv). m \<in> set (bk_late bk) \<and> (rs_message_id m \<in> set (bk_open bk) \<or> rs_message_id m \<in> set (bk_raced bk))) \<and>
          (\<forall>m\<in>set (bk_entered bk). m \<in> set (bk_confirmed bk) \<or> m \<in> set orphans \<or> m \<in> set (ledger r lv))
      | Ended interrupted \<Rightarrow> lv_run lv \<noteq> Some r \<and> (\<forall>m\<in>set (ledger r lv). left_over r lv bk m) \<and>
          (\<forall>m\<in>set (bk_entered bk). m \<in> set (bk_confirmed bk) \<or> redispatched m lv \<or> interrupted \<or> rs_message_id m \<in> set (bk_reclaimed bk) \<or>
             m \<in> set (ledger r lv))
      | Retried \<Rightarrow> True))"

lemma boundaries_more: "lv_journal lv' = lv_journal lv @ es \<Longrightarrow> boundaries lv \<le> boundaries lv'"
  by (simp add: boundaries_def)

lemma frame_boundaries: "ledger_frame r lv lv' \<Longrightarrow> boundaries lv \<le> boundaries lv'"
  by (auto simp: ledger_frame_def boundaries_more)

lemma ledger_push_ledger:
  "bt_get (lv_handles lv) r \<noteq> None \<Longrightarrow> ledger r (ledger_push r m lv) = ledger r lv @ [m] \<and> bt_get (lv_handles (ledger_push r m lv)) r \<noteq> None"
  by (auto simp: ledger_push_def ledger_def put_handle_def)

lemma ledger_push_frames [simp]:
  "lv_run (ledger_push r m lv) = lv_run lv" "lv_respawn (ledger_push r m lv) = lv_respawn lv" "lv_journal (ledger_push r m lv) = lv_journal lv"
  by (simp_all add: ledger_push_def put_handle_def split: option.split)

lemma write_user_frames [simp]:
  "lv_handles (write_user_message h i t at lv) = lv_handles lv" "lv_run (write_user_message h i t at lv) = lv_run lv"
  "lv_respawn (write_user_message h i t at lv) = lv_respawn lv" "lv_journal (write_user_message h i t at lv) = lv_journal lv"
  by (simp_all add: write_user_message_def)

lemma draw_id_frames:
  "draw_id uuid mid lv = (i, lv') \<Longrightarrow> lv_handles lv' = lv_handles lv \<and> lv_run lv' = lv_run lv \<and> lv_respawn lv' = lv_respawn lv \<and> lv_journal lv' = lv_journal lv"
  by (auto simp: draw_id_def draw_def split: option.splits)

lemma accept_steer_ledger:
  assumes "accept_steer en now r prompt mid lv = (lv', Inr i)" "bt_get (lv_handles lv) r \<noteq> None"
  shows "ledger r lv' = ledger r lv @ [\<lparr>rs_prompt = prompt, rs_message_id = i\<rparr>] \<and> bt_get (lv_handles lv') r \<noteq> None \<and>
    lv_run lv' = lv_run lv \<and> lv_respawn lv' = lv_respawn lv \<and> lv_journal lv' = lv_journal lv"
proof -
  obtain j lv1 where d: "draw_id (en_uuid en) mid lv = (j, lv1)" by fastforce
  note f = draw_id_frames [OF d]
  let ?m = "\<lparr>rs_prompt = prompt, rs_message_id = j\<rparr>"
  have "i = j" "lv' = write_user_message (en_hash en) j prompt now (ledger_push r ?m lv1)"
    using assms(1) d by (auto simp: accept_steer_def Let_def split: option.splits)
  moreover have "ledger r lv1 = ledger r lv" using f by (simp add: ledger_def)
  ultimately show ?thesis using f ledger_push_ledger [of lv1 r ?m] assms(2) by (simp add: ledger_def)
qed

lemma reclaim_ledger:
  assumes "reclaim r i lv = (lv', took)" "bt_get (lv_handles lv) r \<noteq> None"
  shows "ledger r lv' = filter (\<lambda>s. rs_message_id s \<noteq> i) (ledger r lv) \<and> bt_get (lv_handles lv') r \<noteq> None \<and>
    lv_run lv' = lv_run lv \<and> lv_respawn lv' = lv_respawn lv \<and> lv_journal lv' = lv_journal lv \<and>
    (took \<longleftrightarrow> ledger r lv' \<noteq> ledger r lv)"
proof -
  have "length (filter P xs) \<noteq> length xs \<longleftrightarrow> filter P xs \<noteq> xs" for P and xs :: "routed_steer list"
    by (metis length_filter_less filter_True less_irrefl_nat)
  then show ?thesis using assms by (auto simp: reclaim_def ledger_def put_handle_def Let_def split: option.splits)
qed


lemma accounted_step:
  assumes "accounted r lv0 lv (Loop rt) bk" "run_step h ld uuid hex now inp (lv, rt) = (lv', res)"
  shows "accounted r lv0 lv' (phase_of res) (note_confirmed r lv lv' bk)"
proof -
  have k: "step_kinds r lv lv' res" using run_step_ledger [OF assms(2)] assms(1) by (simp add: accounted_def)
  have start: "bt_get (lv_handles lv) r \<noteq> None" "length (bk_confirmed bk) + boundaries lv0 \<le> boundaries lv" "lv_run lv = Some r"
      "bk_entered bk = bk_confirmed bk @ ledger r lv"
    using assms(1) by (simp_all add: accounted_def)
  show ?thesis
  proof (cases "confirm_step r lv lv' res")
    case True
    then obtain es a b where c: "ledger r lv' = drop 1 (ledger r lv)" "lv_run lv' = lv_run lv" "bt_get (lv_handles lv') r \<noteq> None"
        "lv_journal lv' = lv_journal lv @ es @ [Steered a b]" "result_run res = Some r"
      by (auto simp: confirm_step_def)
    let ?k = "length (ledger r lv) - length (ledger r lv')"
    have "take ?k (ledger r lv) @ ledger r lv' = ledger r lv" "length (take ?k (ledger r lv)) \<le> 1"
      using c(1) by (cases "ledger r lv"; simp)+
    moreover have "boundaries lv + 1 \<le> boundaries lv'" using c(4) by (simp add: boundaries_def)
    ultimately show ?thesis using start c by (cases res) (auto simp: accounted_def note_confirmed_def)
  next
    case False
    then have "quiet_step r lv lv' res \<or> replaced_step r lv lv' res" using k by (simp add: step_kinds_def)
    then have "note_confirmed r lv lv' bk = bk" "boundaries lv \<le> boundaries lv'" "bt_get (lv_handles lv') r \<noteq> None"
        "res = Replaced \<or> result_run res = Some r \<and> ledger r lv' = ledger r lv \<and> lv_run lv' = Some r"
      using start by (auto simp: quiet_step_def replaced_step_def ledger_frame_def note_confirmed_def boundaries_def)
    then show ?thesis using start by (cases res) (auto simp: accounted_def)
  qed
qed

lemma freeze_ledger: "ledger_frame r lv (fold (freeze_sink h) sks lv)"
proof (induction sks arbitrary: lv)
  case (Cons p sks)
  have "ledger_frame r lv (freeze_sink h p lv)"
    by (cases p) (auto simp: freeze_sink_def intro!: ledger_frame_same [where es = "[]"])
  then show ?case using Cons ledger_frame_trans by auto
qed simp

lemma accounted_drain:
  assumes "accounted r lv0 lv (Left rt st) bk" "drain_ledger rt (fold (freeze_sink h) (rt_subagents rt) lv) = (orphans, lv')"
  shows "accounted r lv0 lv' (Drained rt st orphans) bk"
proof -
  have s: "rt_run_id rt = r" "lv_run lv = Some r" "bt_get (lv_handles lv) r \<noteq> None" "bk_entered bk = bk_confirmed bk @ ledger r lv"
      "length (bk_confirmed bk) + boundaries lv0 \<le> boundaries lv"
    using assms(1) by (simp_all add: accounted_def)
  define lv1 where "lv1 = fold (freeze_sink h) (rt_subagents rt) lv"
  have f: "ledger_frame r lv lv1" unfolding lv1_def by (rule freeze_ledger)
  then obtain hn where hn: "bt_get (lv_handles lv1) r = Some hn" "lv_run lv1 = Some r" "rh_ledger hn = ledger r lv"
    using s by (auto simp: ledger_frame_def ledger_def)
  have "own_handle r lv1 = Some hn" using hn by (simp add: own_handle_def)
  then have d: "orphans = ledger r lv" "lv' = put_handle r (hn\<lparr>rh_ledger := []\<rparr>) lv1"
    using assms(2) hn s(1) unfolding lv1_def [symmetric] by (simp_all add: drain_ledger_def)
  have "ledger r lv' = []" "lv_run lv' = Some r" "bt_get (lv_handles lv') r \<noteq> None" "boundaries lv' = boundaries lv1"
    using hn(2) by (simp_all add: d(2) put_handle_def ledger_def boundaries_def)
  then show ?thesis using s d(1) frame_boundaries [OF f] by (auto simp: accounted_def)
qed

lemma accounted_end:
  assumes "accounted r lv0 lv (Drained rt st orphans) bk"
  shows "accounted r lv0 (leave_run now rt st orphans lv) (Ended (rt_interrupted rt)) bk"
proof -
  have s: "rt_run_id rt = r" "lv_run lv = Some r" using assms by (simp_all add: accounted_def)
  let ?lv = "leave_run now rt st orphans lv"
  have l: "lv_run ?lv = None" "lv_handles ?lv = lv_handles lv" "boundaries ?lv = boundaries lv"
      "lv_respawn ?lv = lv_respawn lv @ (if \<not> rt_interrupted rt \<and> orphans \<noteq> [] then [Redispatch orphans] else [])"
    using s by (simp_all add: leave_run_def remove_run_def boundaries_def Let_def)
  then have g: "ledger r ?lv = ledger r lv" by (simp add: ledger_def)
  have o: "redispatched m ?lv" if m: "m \<in> set orphans" and i: "\<not> rt_interrupted rt" for m
  proof -
    have "Redispatch orphans \<in> set (lv_respawn ?lv)" unfolding l(4) using m i by (cases orphans) simp_all
    then show ?thesis unfolding redispatched_def using m by blast
  qed
  have a: "bt_get (lv_handles lv) r \<noteq> None" "length (bk_confirmed bk) + boundaries lv0 \<le> boundaries lv"
      "\<forall>m\<in>set (ledger r lv). m \<in> set (bk_late bk) \<and> (rs_message_id m \<in> set (bk_open bk) \<or> rs_message_id m \<in> set (bk_raced bk))"
      "\<forall>m\<in>set (bk_entered bk). m \<in> set (bk_confirmed bk) \<or> m \<in> set orphans \<or> m \<in> set (ledger r lv)"
    using assms by (simp_all add: accounted_def)
  have "\<forall>m\<in>set (bk_entered bk). m \<in> set (bk_confirmed bk) \<or> redispatched m ?lv \<or> rt_interrupted rt \<or> rs_message_id m \<in> set (bk_reclaimed bk) \<or>
      m \<in> set (ledger r lv)"
    using a(4) o by blast
  moreover have "\<forall>m\<in>set (ledger r lv). left_over r ?lv bk m" using a(3) by (simp add: left_over_def g)
  ultimately show ?thesis using a(1,2) unfolding accounted_def l g run_phase.case by simp
qed

lemma accounted_enter:
  assumes "accounted r lv0 lv ph bk" "accept_steer en now r prompt mid lv = (lv', Inr i)"
  shows "accounted r lv0 lv' ph (note_entered ph \<lparr>rs_prompt = prompt, rs_message_id = i\<rparr> bk)"
proof -
  have "bt_get (lv_handles lv) r \<noteq> None" using assms(1) by (simp add: accounted_def)
  note a = accept_steer_ledger [OF assms(2) this]
  then show ?thesis using assms(1) by (cases ph) (auto simp: accounted_def boundaries_def redispatched_def note_entered_def left_over_def)
qed

lemma open_remove1: "x \<in> set xs \<Longrightarrow> x \<noteq> i \<Longrightarrow> x \<in> set (remove1 i xs)"
  by simp

lemma accounted_settle:
  assumes "accounted r lv0 lv ph bk" "i \<in> set (bk_open bk)" "settle_steer now prompt r i lv = (lv', taken)"
  shows "accounted r lv0 lv' ph (note_settled ph i taken bk)"
proof (cases "is_live r lv")
  case True
  then have l: "lv' = note_message prompt (set_status now Status_Working False lv)" "taken" using assms(3) by (simp_all add: settle_steer_def)
  have "ledger_frame r lv lv'" unfolding l(1) by (rule ledger_frame_same [where es = "[]"]) simp_all
  then have k: "ledger r lv' = ledger r lv" "lv_run lv' = Some r" "lv_respawn lv' = lv_respawn lv" "bt_get (lv_handles lv') r \<noteq> None"
      "boundaries lv \<le> boundaries lv'"
    using True assms(1) frame_boundaries [of r lv lv'] by (auto simp: ledger_frame_def is_live_def accounted_def)
  show ?thesis
  proof (cases ph)
    case (Drained rt st orphans)
    have "\<forall>m\<in>set (ledger r lv). m \<in> set (bk_late bk) \<and> (rs_message_id m \<in> set (bk_open bk) \<or> rs_message_id m \<in> set (bk_raced bk))"
      using assms(1) Drained by (simp add: accounted_def)
    then have "\<forall>m\<in>set (ledger r lv). m \<in> set (bk_late bk) \<and> (rs_message_id m \<in> set (remove1 i (bk_open bk)) \<or> rs_message_id m \<in> set (i # bk_raced bk))"
      by (metis in_set_remove1 list.set_intros)
    then show ?thesis using assms(1) k l(2) Drained by (simp add: accounted_def note_settled_def)
  qed (use assms(1) True k l(2) in \<open>simp_all add: accounted_def is_live_def note_settled_def\<close>)
next
  case False
  obtain lv1 took where r: "reclaim r i lv = (lv1, took)" by fastforce
  have "bt_get (lv_handles lv) r \<noteq> None" using assms(1) by (simp add: accounted_def)
  note rl = reclaim_ledger [OF r this]
  have t: "taken = (\<not> took)" "ledger_frame r lv1 lv'"
    using assms(3) False r by (auto simp: settle_steer_def split: if_splits bool.splits intro!: ledger_frame_same [where es = "[]"])
  have d: "ledger r lv' = filter (\<lambda>s. rs_message_id s \<noteq> i) (ledger r lv)" "lv_run lv' = lv_run lv" "lv_respawn lv' = lv_respawn lv"
      "bt_get (lv_handles lv') r \<noteq> None" "boundaries lv \<le> boundaries lv'" "took \<longleftrightarrow> ledger r lv' \<noteq> ledger r lv"
    using rl t(2) frame_boundaries [OF t(2)] by (auto simp: ledger_frame_def boundaries_def)
  show ?thesis
  proof (cases ph)
    case (Ended intr)
    have sub: "\<forall>m\<in>set (ledger r lv). left_over r lv bk m"
      and all: "\<forall>m\<in>set (bk_entered bk). m \<in> set (bk_confirmed bk) \<or> redispatched m lv \<or> intr \<or> rs_message_id m \<in> set (bk_reclaimed bk) \<or> m \<in> set (ledger r lv)"
      using assms(1) Ended by (simp_all add: accounted_def)
    have "\<forall>m\<in>set (ledger r lv'). left_over r lv' (note_settled ph i taken bk) m"
      using sub d(1) by (auto simp: left_over_def note_settled_def intro: open_remove1)
    moreover have "m \<in> set (ledger r lv) \<Longrightarrow> m \<in> set (ledger r lv') \<or> rs_message_id m = i \<and> took" for m
      using d(1,6) by (cases "rs_message_id m = i") (auto simp: filter_id_conv)
    ultimately show ?thesis using all assms(1) Ended d t(1) by (auto simp: accounted_def redispatched_def note_settled_def)
  qed (use assms(1) False d in \<open>auto simp: accounted_def is_live_def note_settled_def\<close>)
qed

lemma accounted_others:
  "accounted r lv0 lv ph bk \<Longrightarrow> others_step r ph lv lv' \<Longrightarrow> accounted r lv0 lv' ph bk"
  by (cases ph) (auto simp: accounted_def others_step_def boundaries_def redispatched_def left_over_def)

lemma steer_life_accounted:
  assumes "steer_life h ld hex en r lv0 rt0 lv ph bk" "accounted r lv0 lv0 (Loop rt0) no_books"
  shows "accounted r lv0 lv ph bk"
  using assms by induction (blast intro: accounted_step accounted_drain accounted_end accounted_enter accounted_settle accounted_others)+

lemma dispatch_fresh_books:
  assumes "dispatch_fresh en now harness rq mid retry lv = (lv0, Inr (r, rt0))"
  shows "accounted r lv0 lv0 (Loop rt0) no_books"
proof -
  have "begin_run en now st det rq i injected retry lv = (lv0, r, rt0) \<Longrightarrow> accounted r lv0 lv0 (Loop rt0) no_books" for st det rq i injected lv
    by (auto simp: begin_run_def accounted_def no_books_def ledger_def put_handle_def new_handle_def new_run_task_def draw_def Let_def)
  then show ?thesis using assms by (auto simp: dispatch_fresh_def split: sum.splits option.splits prod.splits)
qed



text \<open>An engine whose adapter takes steers, on a chat that never ran.\<close>

definition sample_env :: engine_env where
  "sample_env = \<lparr>en_home = ''/h'', en_resolve = (\<lambda>_. Inr (True, False)), en_open = None, en_journal = True, en_row = None,
     en_hash = (\<lambda>_. []), en_uuid = show_nat, en_quiesce = None, en_self_quiesce = None\<rparr>"

definition quiet_chat :: live_chat where
  "quiet_chat = sample_chat\<lparr>lv_run := None, lv_handles := [], lv_status := None\<rparr>"

definition started_chat :: "live_chat \<times> (engine_error + string \<times> run_task)" where
  "started_chat = dispatch_fresh sample_env 0 ClaudeCode sample_request (Some ''u'') False quiet_chat"


lemma started_chat_run:
  "\<exists>lv rt. started_chat = (lv, Inr (show_nat 0, rt)) \<and> rt_idle_since rt = None \<and> \<not> rt_interrupted rt \<and> \<not> rt_resume_injected rt"
  by (simp add: started_chat_def dispatch_fresh_def begin_run_def sample_env_def quiet_chat_def sample_chat_def draw_id_def inject_resume_def resume_for_def
      journal_harness_session_def draw_def Let_def sample_request_def new_run_task_def write_user_message_def)

lemma stream_end_breaks:
  assumes "rt_idle_since rt = None" "\<not> rt_interrupted rt" "\<not> rt_resume_injected rt"
  shows "\<exists>lv' rt'. run_step h ld uuid hex now InStreamEnd (lv, rt) = (lv', Break rt' Status_Errored) \<and> \<not> rt_interrupted rt'"
  using assms
  by (simp add: handle_event_def on_event_def parked_gate_def startup_crash_def on_plain_def on_done_def Let_def settle_turn_def
      split: prod.split)



section \<open>Steers that are lost\<close>

lemma user_entry_typed: "i64 now \<Longrightarrow> entry_typed (user_entry i t dev now)"
  by (simp add: entry_typed_def user_entry_def)

lemma user_message_read:
  assumes "i64 now"
  shows "\<exists>e\<in>set (read_entries h (lv_doc (write_user_message h i t now lv))). me_id e = i"
  using read_push_message [OF user_entry_typed [OF assms], of h i t "lv_device lv" "lv_doc lv"]
  by (auto simp: write_user_message_def list_ex_iff canon_entry_def user_entry_def)

text \<open>
  A steer that meets the exit of its run is lost: the task takes the ledger and leaves the map of runs in two steps. A
  caller that enters its steer after the first and looks for the run before the second is told the steer was accepted and
  the transcript shows the message as sent; but the run is gone, and nothing will dispatch the message.
\<close>
theorem exit_race_loses_steer:
  assumes "rt_run_id rt = r" "lv_run lv = Some r" "en_open en = None" "i64 now"
    and "drain_ledger rt lv = (orphans, lv1)"
    and "accept_steer en now r prompt (Some i) lv1 = (lv2, res)"
    and "settle_steer now prompt r i lv2 = (lv3, taken)"
    and "\<forall>m\<in>set orphans. rs_message_id m \<noteq> i" "\<forall>m. rs_message_id m = i \<longrightarrow> \<not> redispatched m lv"
  shows "res = Inr i \<and> taken \<and> lv_run (leave_run later rt st orphans lv3) = None \<and>
    (\<exists>e\<in>set (read_entries (en_hash en) (lv_doc (leave_run later rt st orphans lv3))). me_id e = i) \<and>
    (\<forall>m. rs_message_id m = i \<longrightarrow> \<not> redispatched m (leave_run later rt st orphans lv3))"
proof -
  have d: "lv_run lv1 = Some r" "lv_respawn lv1 = lv_respawn lv"
    using assms(1,2,5) by (auto simp: drain_ledger_def put_handle_def split: option.splits)
  have a: "lv2 = write_user_message (en_hash en) i prompt now (ledger_push r \<lparr>rs_prompt = prompt, rs_message_id = i\<rparr> lv1)" "res = Inr i"
    using assms(3,6) by (auto simp: accept_steer_def draw_id_def Let_def)
  have t: "lv3 = note_message prompt (set_status now Status_Working False lv2)" "taken"
    using assms(7) a d by (auto simp: settle_steer_def is_live_def)
  have doc: "lv_doc (leave_run later rt st orphans lv3) = lv_doc lv2" by (simp add: leave_run_def Let_def t(1))
  have "lv_respawn (leave_run later rt st orphans lv3) = lv_respawn lv @ (if \<not> rt_interrupted rt \<and> orphans \<noteq> [] then [Redispatch orphans] else [])"
    using d a(1) by (simp add: leave_run_def remove_run_def Let_def t(1))
  moreover have "lv_run (leave_run later rt st orphans lv3) = None" using assms(1) d a(1) by (simp add: leave_run_def remove_run_def Let_def t(1))
  ultimately show ?thesis using a t doc user_message_read [OF assms(4)] assms(8,9) by (auto simp: redispatched_def split: if_splits)
qed

theorem exit_race_loses_steer_witness:
  "\<exists>lv1 lv2 lv3. drain_ledger sample_task sample_chat = ([], lv1) \<and>
     accept_steer sample_env 1 ''r'' ''more'' (Some ''m'') lv1 = (lv2, Inr ''m'') \<and> settle_steer 1 ''more'' ''r'' ''m'' lv2 = (lv3, True) \<and>
     lv_run (leave_run 2 sample_task Status_Idle [] lv3) = None \<and> \<not> redispatched \<lparr>rs_prompt = ''more'', rs_message_id = ''m''\<rparr> (leave_run 2 sample_task Status_Idle [] lv3)"
proof -
  obtain lv1 where d: "drain_ledger sample_task sample_chat = ([], lv1)"
    by (simp add: drain_ledger_def own_handle_def sample_task_def sample_chat_def sample_handle_def new_run_task_def bt_get_Cons)
  obtain lv2 res where a: "accept_steer sample_env 1 ''r'' ''more'' (Some ''m'') lv1 = (lv2, res)" by fastforce
  obtain lv3 taken where t: "settle_steer 1 ''more'' ''r'' ''m'' lv2 = (lv3, taken)" by fastforce
  have "rt_run_id sample_task = ''r''" "lv_run sample_chat = Some ''r''" "en_open sample_env = None" "lv_respawn sample_chat = []"
    by (simp_all add: sample_task_def sample_chat_def sample_env_def new_run_task_def)
  moreover have "i64 1" by (simp add: i64_def)
  ultimately show ?thesis
    using exit_race_loses_steer [OF _ _ _ _ d a t, where later = 2 and st = Status_Idle] d a t by (auto simp: redispatched_def)
qed

text \<open>
  A start that is tried again forgets the steers of the first try: when a resumed run dies before it started, the run
  leaves the map of runs with its ledger as it is, and the only turn dispatched is the second try itself.
\<close>
theorem retried_start_forgets_steers:
  assumes "run_step h ld uuid hex now inp (lv, rt) = (lv', Replaced)" "rt_run_id rt = r" "lv_run lv = Some r" "m \<in> set (ledger r lv)"
    and "\<not> redispatched m lv"
  shows "lv_run lv' = None \<and> m \<in> set (ledger r lv') \<and> \<not> redispatched m lv' \<and> (\<exists>rq i. lv_respawn lv' = lv_respawn lv @ [Retry rq i])"
proof -
  have "bt_get (lv_handles lv) r \<noteq> None" using assms(4) by (cases "bt_get (lv_handles lv) r") (auto simp: ledger_def)
  from run_step_ledger [OF assms(1-3) this] have "replaced_step r lv lv' Replaced"
    by (auto simp: step_kinds_def quiet_step_def confirm_step_def)
  then show ?thesis using assms(4,5) by (auto simp: replaced_step_def redispatched_def)
qed

definition resumed_task :: run_task where
  "resumed_task = new_run_task ''r'' True sample_request 170000 None None ''u'' True False 0 ''e''"

definition steered_chat :: live_chat where
  "steered_chat = sample_chat\<lparr>lv_handles := [(''r'', sample_handle\<lparr>rh_ledger := [\<lparr>rs_prompt = ''more'', rs_message_id = ''m''\<rparr>]\<rparr>)]\<rparr>"

theorem retried_start_forgets_steers_witness:
  "\<exists>lv. run_step (\<lambda>_. []) (\<lambda>_ _. []) show_nat id 1 (InStream (Done DoneErrored None None None)) (steered_chat, resumed_task) = (lv, Replaced) \<and>
     lv_run lv = None \<and> \<not> redispatched \<lparr>rs_prompt = ''more'', rs_message_id = ''m''\<rparr> lv"
proof -
  obtain lv where s: "run_step (\<lambda>_. []) (\<lambda>_ _. []) show_nat id 1 (InStream (Done DoneErrored None None None)) (steered_chat, resumed_task) = (lv, Replaced)"
    by (simp add: resumed_task_def new_run_task_def handle_event_def on_event_def parked_gate_def startup_crash_def Let_def)
  have "rt_run_id resumed_task = ''r''" "lv_run steered_chat = Some ''r''" "lv_respawn steered_chat = []"
      "ledger ''r'' steered_chat = [\<lparr>rs_prompt = ''more'', rs_message_id = ''m''\<rparr>]"
    by (simp_all add: resumed_task_def new_run_task_def steered_chat_def sample_chat_def ledger_def bt_get_Cons)
  then show ?thesis using retried_start_forgets_steers [OF s, of "''r''" "\<lparr>rs_prompt = ''more'', rs_message_id = ''m''\<rparr>"] s
    by (auto simp: redispatched_def)
qed

end
