(* ===== verification/Session_Recovery.thy ===== *)
theory Session_Recovery
  imports Session_Ledger
begin

text \<open>
  What recovery at boot leaves behind: the entries a dead run left streaming, the turns that are run again, and how often.
\<close>

section \<open>Stamping entries\<close>

text \<open>A document whose messages are the given entries, each under its own id.\<close>

definition doc_holds :: "session_doc \<Rightarrow> message_entry list \<Rightarrow> bool" where
  "doc_holds d es = (\<exists>ms. sd_messages d = map MapC ms \<and> list_all2 entry_holds ms es)"

lemma doc_holds_read:
  assumes "doc_holds d es" "list_all entry_typed es"
  shows "read_entries h d = map canon_entry es"
proof -
  obtain ms where ms: "sd_messages d = map MapC ms" "list_all2 entry_holds ms es" using assms(1) by (auto simp: doc_holds_def)
  from ms(2) assms(2) have "List.map_filter (\<lambda>n. entry_from_json h (deep n)) (map MapC ms) = map canon_entry es"
    by (induction rule: list_all2_induct) (simp_all add: List.map_filter_def entry_from_json_held del: deep.simps)
  then show ?thesis by (simp add: read_entries_def ms(1))
qed

lemma update_at:
  assumes "doc_holds d (es1 @ e # es2)" "me_id e \<notin> me_id ` set es1"
    and "\<And>m. field_is m ''id'' (me_id e) = False \<Longrightarrow> f (MapC m) = None"
    and "\<And>m. entry_holds m e \<Longrightarrow> \<exists>m'. f (MapC m) = Some (MapC m') \<and> entry_holds m' e'"
  shows "\<exists>d'. set_messages d (update_first f (sd_messages d)) = (d', True) \<and> doc_holds d' (es1 @ e' # es2)"
proof -
  obtain ms where ms: "sd_messages d = map MapC ms" "list_all2 entry_holds ms (es1 @ e # es2)" using assms(1) by (auto simp: doc_holds_def)
  then obtain ms1 m ms2 where p: "ms = ms1 @ m # ms2" "list_all2 entry_holds ms1 es1" "entry_holds m e" "list_all2 entry_holds ms2 es2"
    by (auto simp: list_all2_append2 list_all2_Cons2)
  obtain m' where m': "f (MapC m) = Some (MapC m')" "entry_holds m' e'" using assms(4) [OF p(3)] by blast
  have "update_first f (map MapC ms1 @ MapC m # map MapC ms2) = Some (map MapC ms1 @ MapC m' # map MapC ms2)"
    using p(2) assms(2)
  proof (induction ms1 es1 rule: list_all2_induct)
    case (Cons n ns x xs)
    then have "field_is n ''id'' (me_id e) = False" by (auto simp: entry_holds_def field_is_def)
    then show ?case using Cons assms(3) by simp
  qed (use m' in simp)
  moreover have "list_all2 entry_holds (ms1 @ m' # ms2) (es1 @ e' # es2)" using p m'(2) by (simp add: list_all2_appendI)
  ultimately have "set_messages d (update_first f (sd_messages d)) = (d\<lparr>sd_messages := map MapC (ms1 @ m' # ms2)\<rparr>, True)"
      "doc_holds (d\<lparr>sd_messages := map MapC (ms1 @ m' # ms2)\<rparr>) (es1 @ e' # es2)"
    using ms(1) p(1) by (auto simp: set_messages_def doc_holds_def intro!: exI [of _ "ms1 @ m' # ms2"])
  then show ?thesis by blast
qed

lemma set_message_status_holds:
  assumes "doc_holds d (es1 @ e # es2)" "me_id e \<notin> me_id ` set es1"
  shows "\<exists>d'. set_message_status (me_id e) st d = (d', True) \<and> doc_holds d' (es1 @ e\<lparr>me_status := Some st\<rparr> # es2)"
  unfolding set_message_status_def
  by (rule update_at [OF assms]) (auto simp: field_is_def entry_holds_def)

text \<open>Whether an entry has a part of the given id already.\<close>

definition has_part :: "string \<Rightarrow> message_part list \<Rightarrow> bool" where
  "has_part pid ps = list_ex (\<lambda>p. dp_id (to_doc_part p) = pid) ps"

lemma part_id_free:
  assumes "holds_parts ns ps" "\<not> has_part pid ps"
  shows "\<not> list_ex (\<lambda>p. case map_at p of None \<Rightarrow> False | Some pm \<Rightarrow> field_is pm ''id'' pid) ns"
proof
  assume "list_ex (\<lambda>p. case map_at p of None \<Rightarrow> False | Some pm \<Rightarrow> field_is pm ''id'' pid) ns"
  then obtain n pm where n: "n \<in> set ns" "map_at n = Some pm" "field_is pm ''id'' pid" by (auto simp: list_ex_iff split: option.splits)
  then obtain i where "i < length ns" "ns ! i = n" by (auto simp: in_set_conv_nth)
  then obtain p where "p \<in> set ps" "n = MapC pm" "part_holds pm (to_doc_part p)"
    using assms(1) n(2) by (force simp: holds_parts_def list_all2_conv_all_nth)
  then show False using n(3) assms(2) by (auto simp: field_is_def part_holds_def has_part_def list_ex_iff)
qed

lemma part_id_taken:
  assumes "holds_parts ns ps" "has_part pid ps"
  shows "list_ex (\<lambda>p. case map_at p of None \<Rightarrow> False | Some pm \<Rightarrow> field_is pm ''id'' pid) ns"
proof -
  obtain i where i: "i < length ps" "dp_id (to_doc_part (ps ! i)) = pid" using assms(2) by (auto simp: has_part_def list_ex_iff in_set_conv_nth)
  then obtain pm where "ns ! i = MapC pm" "part_holds pm (to_doc_part (ps ! i))" "i < length ns"
    using assms(1) by (auto simp: holds_parts_def list_all2_conv_all_nth)
  moreover from this(3) have "ns ! i \<in> set ns" by (rule nth_mem)
  moreover have "field_is pm ''id'' pid"
    using i(2) \<open>part_holds pm (to_doc_part (ps ! i))\<close> by (simp_all add: field_is_def part_holds_def)
  ultimately have "MapC pm \<in> set ns" "field_is pm ''id'' pid" by simp_all
  then show ?thesis by (force simp: list_ex_iff)
qed

lemma append_error_part_holds:
  assumes "doc_holds d (es1 @ e # es2)" "me_id e \<notin> me_id ` set es1"
  shows "\<exists>d'. append_error_part (me_id e) pid msg d = (d', True) \<and>
    doc_holds d' (es1 @ e\<lparr>me_parts := me_parts e @ (if has_part pid (me_parts e) then [] else [ErrorPart pid msg])\<rparr> # es2)"
  unfolding append_error_part_def
  apply (rule update_at [OF assms(1,2)])
   apply simp
  subgoal for m
  proof -
    assume m: "entry_holds m e"
    then obtain ns where ns: "bt_get m ''parts'' = Some (ListC ns)" "holds_parts ns (me_parts e)" by (auto simp: entry_holds_def)
    have "holds_parts (push_part (ErrorPart pid msg) ns) (me_parts e @ [ErrorPart pid msg])" by (rule holds_parts_snoc [OF ns(2)])
    then show ?thesis using m ns part_id_free [OF ns(2), of pid] part_id_taken [OF ns(2), of pid]
      by (auto simp: parts_of_def field_is_def entry_holds_def)
  qed
  done

text \<open>
  An entry a dead run left, as recovery stamps it: aborted, with a note at its end. The note has an id of its own and is
  put in once, so an entry that has it from a recovery that died before it was done keeps the one it has.
\<close>

definition stamped :: "string \<Rightarrow> string \<Rightarrow> message_entry \<Rightarrow> message_entry" where
  "stamped device msg e =
     (let pid = me_id e @ ''-recovery''
      in if abandoned device e
         then e\<lparr>me_status := Some Aborted, me_parts := me_parts e @ (if has_part pid (me_parts e) then [] else [ErrorPart pid msg])\<rparr>
         else e)"

lemma stamped_id [simp]: "me_id (stamped device msg e) = me_id e"
  by (simp add: stamped_def Let_def)

lemma abandoned_canon [simp]: "abandoned device (canon_entry e) = abandoned device e" "me_id (canon_entry e) = me_id e"
    "me_created_at (canon_entry e) = me_created_at e"
  by (simp_all add: abandoned_def canon_entry_def)

lemma stamp_abandoned_holds:
  assumes "doc_holds d (es1 @ es2)" "distinct (map me_id (es1 @ es2))"
  shows "\<exists>d'. stamp_abandoned device msg (map canon_entry es2) d =
      (d', map (\<lambda>e. (me_id e, me_created_at e)) (filter (abandoned device) es2)) \<and> doc_holds d' (es1 @ map (stamped device msg) es2)"
  using assms
proof (induction es2 arbitrary: es1 d)
  case (Cons e es2)
  have rest: "\<exists>d'. stamp_abandoned device msg (map canon_entry es2) d1 =
      (d', map (\<lambda>e. (me_id e, me_created_at e)) (filter (abandoned device) es2)) \<and> doc_holds d' (es1 @ stamped device msg e # map (stamped device msg) es2)"
    if "doc_holds d1 (es1 @ stamped device msg e # es2)" for d1
    using Cons.IH [of d1 "es1 @ [stamped device msg e]"] that Cons.prems by auto
  show ?case
  proof (cases "abandoned device e")
    case False
    then have "stamped device msg e = e" by (simp add: stamped_def)
    then show ?thesis using rest [of d] Cons.prems(1) False by auto
  next
    case True
    have i: "me_id e \<notin> me_id ` set es1" using Cons.prems(2) by auto
    obtain d1 where d1: "set_message_status (me_id e) Aborted d = (d1, True)" "doc_holds d1 (es1 @ e\<lparr>me_status := Some Aborted\<rparr> # es2)"
      using set_message_status_holds [OF _ i] Cons.prems(1) by blast
    obtain d2 where d2: "append_error_part (me_id e) (me_id e @ ''-recovery'') msg d1 = (d2, True)" "doc_holds d2 (es1 @ stamped device msg e # es2)"
      using append_error_part_holds [OF d1(2), of "me_id e @ ''-recovery''" msg] i True by (auto simp: stamped_def Let_def)
    from rest [OF d2(2)] show ?thesis using True d1(1) d2(1) by auto
  qed
qed auto


lemma stamped_typed: "list_all entry_typed es \<Longrightarrow> list_all entry_typed (map (stamped device msg) es)"
  by (auto simp: list_all_iff entry_typed_def stamped_def Let_def split: if_splits)

lemma mark_abandoned_holds:
  assumes "doc_holds (lv_doc lv) es" "list_all entry_typed es" "distinct (map me_id es)"
  shows "\<exists>d. mark_abandoned_streams h msg lv =
      (lv\<lparr>lv_doc := d\<rparr>, map (\<lambda>e. (me_id e, me_created_at e)) (filter (abandoned (lv_device lv)) es)) \<and>
    read_entries h d = map (\<lambda>e. canon_entry (stamped (lv_device lv) msg e)) es"
proof -
  obtain d where d: "stamp_abandoned (lv_device lv) msg (map canon_entry es) (lv_doc lv) =
      (d, map (\<lambda>e. (me_id e, me_created_at e)) (filter (abandoned (lv_device lv)) es))" "doc_holds d (map (stamped (lv_device lv) msg) es)"
    using stamp_abandoned_holds [of "lv_doc lv" "[]" es "lv_device lv" msg] assms by auto
  then show ?thesis using doc_holds_read [OF assms(1,2), of h] doc_holds_read [OF d(2) stamped_typed [OF assms(2)], of h]
    by (auto simp: mark_abandoned_streams_def)
qed

section \<open>Recovery of a chat\<close>

text \<open>The revival of a chat that recovery decides on, from what the transcript reads as.\<close>

definition revival :: "int \<Rightarrow> nat \<Rightarrow> message_entry list \<Rightarrow> (string \<times> string) option" where
  "revival now attempts es = (if revival_fresh now es \<and> attempts < max_auto_resume then revival_prompt es else None)"

lemma remember_frames [simp]:
  "lv_device (remember_harness_session sid dir lv) = lv_device lv" "lv_attempts (remember_harness_session sid dir lv) = lv_attempts lv"
  by (simp_all add: remember_harness_session_def)

lemma publish_frames [simp]:
  "lv_device (publish e lv) = lv_device lv" "lv_attempts (publish e lv) = lv_attempts lv" "lv_respawn (publish e lv) = lv_respawn lv"
  "lv_journal (publish e lv) = lv_journal lv @ [e]"
  by (simp_all add: publish_def)

lemma status_attempts [simp]:
  "lv_attempts (set_status now st f lv) = lv_attempts lv"
  "\<exists>x. lv_status (set_status now st f lv) = Some x \<and> ss_status x = st"
  by (simp_all add: set_status_def Let_def)

text \<open>
  C31. Recovery closes a turn the engine died in: every entry of this device that was left streaming reads as aborted, with a
  note at its end that says so unless it has the note of an earlier recovery in it, and no other entry changes; the journal ends in Done, the chat is shown as idle, and the
  last message of the user is run again exactly if the turn is fresh and the budget of revivals is not spent.
\<close>
theorem recovery_closes_turn:
  assumes "recover_chat en now lv = Inr (lv', counted)" "lv_run lv = None"
    and "doc_holds (lv_doc lv) es" "list_all entry_typed es" "distinct (map me_id es)"
    and "rv = revival now (lv_attempts lv) (map canon_entry es)"
  shows "counted \<and>
    read_entries (en_hash en) (lv_doc lv') = map (\<lambda>e. canon_entry (stamped (lv_device lv) (restart_note (rv \<noteq> None)) e)) es \<and>
    last (lv_journal lv') = Done DoneInterrupted None (Some (restart_note (rv \<noteq> None))) None \<and>
    (\<exists>x. lv_status lv' = Some x \<and> ss_status x = Status_Idle) \<and>
    lv_attempts lv' = lv_attempts lv + (if rv = None then 0 else 1) \<and>
    lv_respawn lv' = lv_respawn lv @ (case rv of None \<Rightarrow> [] | Some (i, t) \<Rightarrow> [Revive i t])"
proof -
  define lv1 where "lv1 = (case journal_harness_session en lv of Some (sid, dir) \<Rightarrow> remember_harness_session sid dir lv | None \<Rightarrow> lv)"
  define msg where "msg = restart_note (rv \<noteq> None)"
  define lv2 where "lv2 = publish (Done DoneInterrupted None (Some msg) None) lv1"
  have f1: "lv_doc lv1 = lv_doc lv" "lv_device lv1 = lv_device lv" "lv_attempts lv1 = lv_attempts lv" "lv_respawn lv1 = lv_respawn lv"
    by (auto simp: lv1_def split: option.split)
  have r1: "read_entries (en_hash en) (lv_doc lv1) = map canon_entry es" using doc_holds_read [OF assms(3,4)] f1(1) by simp
  obtain d where d: "fst (mark_abandoned_streams (en_hash en) msg lv2) = lv2\<lparr>lv_doc := d\<rparr>"
      "read_entries (en_hash en) d = map (\<lambda>e. canon_entry (stamped (lv_device lv) msg e)) es"
    using mark_abandoned_holds [of lv2 es "en_hash en" msg] assms(3-5) f1 by (auto simp: lv2_def)
  let ?resuming = "revival_fresh now (map canon_entry es) \<and> revival_prompt (map canon_entry es) \<noteq> None \<and> lv_attempts lv1 < max_auto_resume"
  have rv: "?resuming = (rv \<noteq> None)" "rv \<noteq> None \<Longrightarrow> revival_prompt (map canon_entry es) = rv" using assms(6) f1(3) by (auto simp: revival_def)
  let ?lv3 = "set_status now Status_Idle False (fst (mark_abandoned_streams (en_hash en) msg lv2))"
  have "en_open en = None" using assms(1,2) by (auto simp: recover_chat_def split: option.splits)
  then have "recover_chat en now lv = Inr (if rv = None then ?lv3
      else ?lv3\<lparr>lv_attempts := lv_attempts ?lv3 + 1,
        lv_respawn := lv_respawn ?lv3 @ [Revive (fst (the (revival_prompt (map canon_entry es)))) (snd (the (revival_prompt (map canon_entry es))))]\<rparr>, True)"
    unfolding recover_chat_def lv1_def [symmetric] r1 Let_def rv(1) msg_def [symmetric] lv2_def [symmetric] using assms(2) by simp
  then have "counted" "lv' = (if rv = None then ?lv3
      else ?lv3\<lparr>lv_attempts := lv_attempts ?lv3 + 1,
        lv_respawn := lv_respawn ?lv3 @ [Revive (fst (the (revival_prompt (map canon_entry es)))) (snd (the (revival_prompt (map canon_entry es))))]\<rparr>)"
    using assms(1) by simp_all
  moreover have "lv_doc ?lv3 = d" "lv_attempts ?lv3 = lv_attempts lv" "lv_respawn ?lv3 = lv_respawn lv"
      "last (lv_journal ?lv3) = Done DoneInterrupted None (Some msg) None"
    using d(1) f1 by (simp_all add: lv2_def)
  ultimately show ?thesis using d(2) rv(2) unfolding msg_def [symmetric] by (cases rv) (auto split: prod.split)
qed


text \<open>A chat a run died in: the message of the user and an answer that was being written.\<close>

definition torn_entries :: "message_entry list" where
  "torn_entries = [user_entry ''u'' ''hi'' ''d'' 5, \<lparr>me_id = ''a'', me_role = Assistant, me_parts = [Text ''t0'' ''we''], me_created_at = 7,
     me_device_id = ''d'', me_status = Some Streaming, me_continuation_of = None\<rparr>]"

definition torn_chat :: live_chat where
  "torn_chat = quiet_chat\<lparr>lv_doc := fold push_message torn_entries (init_doc ''c'')\<rparr>"

lemma doc_holds_push: "doc_holds d es \<Longrightarrow> doc_holds (push_message e d) (es @ [e])"
proof -
  assume "doc_holds d es"
  then obtain ms where ms: "sd_messages d = map MapC ms" "list_all2 entry_holds ms es" by (auto simp: doc_holds_def)
  let ?m = "bt_insert ''parts'' (ListC (fold push_part (me_parts e) [])) (write_entry_scalar_fields e [])"
  have "entry_holds ?m e" by (rule write_entry_holds) (simp add: fold_push_part holds_parts_written)
  then have "list_all2 entry_holds (ms @ [?m]) (es @ [e])" using ms(2) by (intro list_all2_appendI) simp_all
  then show ?thesis using ms(1) by (auto simp: doc_holds_def push_message_def intro!: exI [of _ "ms @ [?m]"])
qed

lemma torn_chat_holds: "doc_holds (lv_doc torn_chat) torn_entries"
proof -
  have "doc_holds (init_doc ''c'') []" by (simp add: doc_holds_def init_doc_def)
  from doc_holds_push [OF doc_holds_push [OF this, of "torn_entries ! 0"], of "torn_entries ! 1"]
  show ?thesis by (simp add: torn_chat_def torn_entries_def)
qed

theorem recovery_closes_turn_witness:
  "\<exists>lv. recover_chat sample_env 10 torn_chat = Inr (lv, True) \<and> lv_respawn lv = [Revive ''u'' ''hi''] \<and> lv_attempts lv = 1 \<and>
     map me_status (read_entries (\<lambda>_. []) (lv_doc lv)) = [Some Complete, Some Aborted]"
proof -
  have o: "lv_run torn_chat = None" "lv_device torn_chat = ''d''" "lv_respawn torn_chat = []" "lv_attempts torn_chat = 0"
    by (simp_all add: torn_chat_def quiet_chat_def sample_chat_def)
  obtain lv counted where r: "recover_chat sample_env 10 torn_chat = Inr (lv, counted)"
    using o by (auto simp: recover_chat_def sample_env_def Let_def)
  have rv: "Some (''u'', ''hi'') = revival 10 (lv_attempts torn_chat) (map canon_entry torn_entries)"
    by (simp add: revival_def revival_fresh_def revival_prompt_def torn_entries_def canon_entry_def user_entry_def resume_fresh_ms_def
        max_auto_resume_def find_map_def List.map_filter_def o)
  have "list_all entry_typed torn_entries" "distinct (map me_id torn_entries)"
    by (simp_all add: torn_entries_def entry_typed_def user_entry_def i64_def empty_part_def)
  from recovery_closes_turn [OF r o(1) torn_chat_holds this rv] show ?thesis
    using r o by (auto simp: sample_env_def torn_entries_def user_entry_def canon_entry_def stamped_def abandoned_def has_part_def Let_def)
qed

text \<open>
  Boots of an engine that dies again and again: between two boots the chat lives as it may, and each boot recovers it.
  The count of a chat is what its file says; a turn that completes would set it back.
\<close>

fun revivals :: "((live_chat \<Rightarrow> live_chat) \<times> engine_env \<times> int) list \<Rightarrow> live_chat \<Rightarrow> nat" where
  "revivals [] lv = 0"
| "revivals ((life, en, now) # boots) lv =
     (let lv = life lv
      in case recover_chat en now lv of
           Inl _ \<Rightarrow> revivals boots lv
         | Inr (lv', _) \<Rightarrow> (length (lv_respawn lv') - length (lv_respawn lv)) + revivals boots lv')"

lemma recover_chat_attempts:
  assumes "recover_chat en now lv = Inr (lv', counted)"
  shows "lv_attempts lv' = lv_attempts lv + (length (lv_respawn lv') - length (lv_respawn lv)) \<and>
    (lv_respawn lv' \<noteq> lv_respawn lv \<longrightarrow> lv_attempts lv < max_auto_resume \<and> lv_attempts lv' = lv_attempts lv + 1)"
proof -
  have a: "lv_attempts (case journal_harness_session en lv of Some (sid, dir) \<Rightarrow> remember_harness_session sid dir lv | None \<Rightarrow> lv) = lv_attempts lv"
      "lv_respawn (case journal_harness_session en lv of Some (sid, dir) \<Rightarrow> remember_harness_session sid dir lv | None \<Rightarrow> lv) = lv_respawn lv"
    by (auto split: option.split)
  have m: "lv_attempts (fst (mark_abandoned_streams h x l)) = lv_attempts l" "lv_respawn (fst (mark_abandoned_streams h x l)) = lv_respawn l" for h x l
    by (simp_all add: mark_abandoned_streams_def split: prod.split)
  show ?thesis using assms by (auto simp: recover_chat_def Let_def a m split: if_splits option.splits)
qed

text \<open>
  Revivals are bounded: as long as no turn of the chat completes, an engine that dies in it after every boot runs it
  again at most three times, however often it boots.
\<close>
theorem revivals_bounded:
  assumes "\<forall>(life, en, now)\<in>set boots. \<forall>lv. lv_attempts (life lv) = lv_attempts lv"
  shows "revivals boots lv + lv_attempts lv \<le> max max_auto_resume (lv_attempts lv)"
  using assms
proof (induction boots arbitrary: lv)
  case (Cons b boots)
  obtain life en now where b: "b = (life, en, now)" by (cases b)
  then have l: "lv_attempts (life lv) = lv_attempts lv" using Cons.prems by auto
  show ?case
  proof (cases "recover_chat en now (life lv)")
    case (Inl err)
    then show ?thesis using Cons.IH [of "life lv"] Cons.prems b l by (simp add: Let_def)
  next
    case (Inr p)
    obtain lv' c where p: "p = (lv', c)" by (cases p)
    let ?k = "length (lv_respawn lv') - length (lv_respawn (life lv))"
    have "lv_attempts lv' = lv_attempts lv + ?k" "?k \<noteq> 0 \<Longrightarrow> lv_attempts lv < max_auto_resume" "?k \<noteq> 0 \<Longrightarrow> lv_attempts lv' = lv_attempts lv + 1"
      using recover_chat_attempts [of en now "life lv" lv' c] Inr p l by auto
    then have "lv_attempts lv' \<le> max max_auto_resume (lv_attempts lv)" by (cases "?k = 0") auto
    moreover have "revivals boots lv' + lv_attempts lv' \<le> max max_auto_resume (lv_attempts lv')" using Cons.IH [of lv'] Cons.prems by auto
    ultimately show ?thesis using b Inr p \<open>lv_attempts lv' = lv_attempts lv + ?k\<close> by (simp add: Let_def)
  qed
qed simp

theorem revivals_bounded_witness:
  "revivals [(id, sample_env, 10), (id, sample_env, 20)] torn_chat + lv_attempts torn_chat \<le> max max_auto_resume (lv_attempts torn_chat)"
  by (rule revivals_bounded) simp


section \<open>Messages\<close>

definition entries_of :: "(json \<Rightarrow> string) \<Rightarrow> string \<Rightarrow> live_chat \<Rightarrow> message_entry list" where
  "entries_of h i lv = filter (\<lambda>e. me_id e = i) (read_entries h (lv_doc lv))"

definition shown_once :: "(json \<Rightarrow> string) \<Rightarrow> string \<Rightarrow> string \<Rightarrow> int \<Rightarrow> live_chat \<Rightarrow> live_chat \<Rightarrow> bool" where
  "shown_once h i t now lv lv' = (lv_device lv' = lv_device lv \<and>
     entries_of h i lv' = (if entries_of h i lv = [] then [user_entry i t (lv_device lv) now] else entries_of h i lv))"

lemma entries_of_doc: "lv_doc lv' = lv_doc lv \<Longrightarrow> entries_of h i lv' = entries_of h i lv"
  by (simp add: entries_of_def)

lemma device_frames [simp]:
  "lv_device (put_handle r hn lv) = lv_device lv" "lv_device (set_status now st f lv) = lv_device lv" "lv_device (note_message t lv) = lv_device lv"
  "lv_device (write_user_message h i t now lv) = lv_device lv" "lv_device (snd (draw uuid lv)) = lv_device lv"
  by (simp_all add: put_handle_def set_status_def note_message_def write_user_message_def draw_def Let_def)

lemma write_user_once:
  assumes "i64 now"
  shows "shown_once h i t now lv (write_user_message h i t now lv)"
proof -
  have "canon_entry (user_entry i t d now) = user_entry i t d now" for d by (simp add: canon_entry_def user_entry_def)
  then show ?thesis
    using read_push_message [OF user_entry_typed [OF assms], of h i t "lv_device lv" "lv_doc lv"]
    by (auto simp: shown_once_def entries_of_def write_user_message_def list_ex_iff user_entry_def filter_empty_conv)
qed

text \<open>Steps that leave the transcript alone.\<close>

definition doc_same :: "live_chat \<Rightarrow> live_chat \<Rightarrow> bool" where
  "doc_same lv lv' = (lv_doc lv' = lv_doc lv \<and> lv_device lv' = lv_device lv)"

lemma doc_same_trans: "doc_same a b \<Longrightarrow> doc_same b c \<Longrightarrow> doc_same a c"
  by (simp add: doc_same_def)

lemma shown_once_after: "doc_same lv lv1 \<Longrightarrow> shown_once h i t now lv1 lv' \<Longrightarrow> shown_once h i t now lv lv'"
  by (simp add: shown_once_def doc_same_def entries_of_def)

lemma shown_once_before: "shown_once h i t now lv lv1 \<Longrightarrow> doc_same lv1 lv' \<Longrightarrow> shown_once h i t now lv lv'"
  by (simp add: shown_once_def doc_same_def entries_of_def)

lemma shown_once_twice: "shown_once h i t now lv lv1 \<Longrightarrow> shown_once h i t now lv1 lv2 \<Longrightarrow> shown_once h i t now lv lv2"
  by (auto simp: shown_once_def split: if_splits)

lemma ledger_push_same: "doc_same lv (ledger_push r m lv)"
  by (simp add: doc_same_def ledger_push_def split: option.split)

lemma route_send_same: "route_send m lv = (lv', d) \<Longrightarrow> doc_same lv lv'"
  by (auto simp: doc_same_def route_send_def split: option.splits)

lemma settle_steer_same: "settle_steer now t r i lv = (lv', taken) \<Longrightarrow> doc_same lv lv'"
  by (auto simp: doc_same_def settle_steer_def reclaim_def Let_def split: if_splits option.splits bool.splits)

lemma inject_resume_same: "inject_resume en rq lv = (rq', injected, lv') \<Longrightarrow> doc_same lv lv' \<and> rq_prompt rq' = rq_prompt rq"
  by (auto simp: doc_same_def inject_resume_def resume_for_def remember_harness_session_def Let_def split: if_splits option.splits prod.splits)

lemma accept_steer_once:
  assumes "accept_steer en now r t (Some i) lv = (lv', Inr j)" "i64 now"
  shows "j = i \<and> shown_once (en_hash en) i t now lv lv'"
proof -
  have "j = i" "lv' = write_user_message (en_hash en) i t now (ledger_push r \<lparr>rs_prompt = t, rs_message_id = i\<rparr> lv)"
    using assms(1) by (auto simp: accept_steer_def draw_id_def Let_def split: option.splits)
  then show ?thesis using shown_once_after [OF ledger_push_same write_user_once [OF assms(2)]] by simp
qed

lemma begin_run_same: "begin_run en now st det rq i injected retry lv = (lv', run, rt) \<Longrightarrow> doc_same lv lv'"
  by (auto simp: begin_run_def doc_same_def draw_def Let_def)

lemma dispatch_fresh_once:
  assumes "dispatch_fresh en now harness rq (Some i) retry lv = (lv', Inr res)" "i64 now"
  shows "shown_once (en_hash en) i (rq_prompt rq) now lv lv'"
proof -
  let ?lv1 = "write_user_message (en_hash en) i (rq_prompt rq) now lv"
  obtain st det where r: "en_resolve en harness = Inr (st, det)"
    using assms(1) by (cases "en_resolve en harness") (simp add: dispatch_fresh_def, force)
  have e: "en_open en = None" using assms(1) r by (cases "en_open en") (simp_all add: dispatch_fresh_def)
  obtain rq1 injected lv1 where j: "inject_resume en rq ?lv1 = (rq1, injected, lv1)" by (cases "inject_resume en rq ?lv1") auto
  obtain lv2 run rt where s: "begin_run en now st det rq1 i injected retry lv1 = (lv2, run, rt)"
    by (cases "begin_run en now st det rq1 i injected retry lv1") auto
  have "lv' = lv2" using assms(1) by (simp add: dispatch_fresh_def draw_id_def r e j s)
  then have "doc_same ?lv1 lv'" using inject_resume_same [OF j] begin_run_same [OF s] doc_same_trans by blast
  then show ?thesis by (rule shown_once_before [OF write_user_once [OF assms(2)]])
qed

lemma dispatch_fresh_starts:
  assumes "en_resolve en harness = Inr (st, det)" "en_open en = None"
  shows "\<exists>lv' run rt. dispatch_fresh en now harness rq mid retry lv = (lv', Inr (run, rt))"
  using assms by (auto simp: dispatch_fresh_def split: prod.split)

lemma interrupt_once:
  assumes "\<And>l. lv_device (wait l) = lv_device l \<and> entries_of h i (wait l) = entries_of h i l"
  shows "lv_device (fst (interrupt wait lv)) = lv_device lv \<and> entries_of h i (fst (interrupt wait lv)) = entries_of h i lv"
proof -
  have "lv_device (wait (put_handle r hn lv)) = lv_device lv \<and> entries_of h i (wait (put_handle r hn lv)) = entries_of h i lv" for r hn
    using assms [of "put_handle r hn lv"] by (simp add: entries_of_doc [of "put_handle r hn lv" lv])
  then show ?thesis by (simp add: interrupt_def split: option.split)
qed

text \<open>
  A message is shown once: whether a prompt goes into the live run, waits for the run to be replaced, or starts a run, a
  dispatch that succeeds leaves the transcript with exactly one entry under the id of the message, the one that was there
  already if it was sent or dispatched before.
\<close>
theorem dispatched_message_once:
  assumes "dispatch_turn en wait now harness rq (Some i) retry lv = (lv', Inr res)" "i64 now"
    and "\<forall>l. lv_device (wait l) = lv_device l \<and> entries_of (en_hash en) i (wait l) = entries_of (en_hash en) i l"
  shows "entries_of (en_hash en) i lv' =
    (if entries_of (en_hash en) i lv = [] then [user_entry i (rq_prompt rq) (lv_device lv) now] else entries_of (en_hash en) i lv)"
proof -
  let ?rq = "rq\<lparr>rq_cwd := expand_home (en_home en) (rq_cwd rq)\<rparr>" and ?m = "\<lparr>sm_prompt = rq_prompt rq, sm_message_id = Some i\<rparr>"
  let ?once = "shown_once (en_hash en) i (rq_prompt rq) now"
  obtain lv1 d where r: "route_send ?m (note_turn_start (rq_cwd ?rq) lv) = (lv1, d)" by fastforce
  have s1: "doc_same lv lv1" using route_send_same [OF r] by (simp add: doc_same_def note_turn_start_def)
  have stop: "?once l l'" if "?once (fst (interrupt wait l)) l'" for l l'
    using that interrupt_once [of wait "en_hash en" i l, OF spec [OF assms(3)]] by (simp add: shown_once_def)
  have fresh: "?once l lv'" if new: "(case dispatch_fresh en now harness ?rq (Some i) retry l of
      (lv, Inl err) \<Rightarrow> (lv, Inl err) | (lv, Inr (run, rt)) \<Rightarrow> (lv, Inr (run, Some rt))) = (lv', Inr res)" for l
  proof -
    obtain l1 x where x: "dispatch_fresh en now harness ?rq (Some i) retry l = (l1, x)" by fastforce
    then obtain rr where "dispatch_fresh en now harness ?rq (Some i) retry l = (lv', Inr rr)"
      using new by (cases x) auto
    from dispatch_fresh_once [OF this assms(2)] show ?thesis by simp
  qed
  have "?once lv lv'"
  proof (cases d)
    case No_Run
    then show ?thesis using assms(1) r shown_once_after [OF s1] fresh [of lv1] by (simp add: dispatch_turn_def Let_def)
  next
    case (Undelivered run)
    then show ?thesis using assms(1) r shown_once_after [OF s1] fresh [of "fst (interrupt wait lv1)"] stop [of lv1]
      by (simp add: dispatch_turn_def Let_def)
  next
    case (Delivered run)
    obtain lv2 a where a: "accept_steer en now run (rq_prompt rq) (Some i) lv1 = (lv2, a)" by fastforce
    obtain j where j: "a = Inr j" using assms(1) r Delivered a by (cases a) (simp_all add: dispatch_turn_def Let_def)
    have s2: "j = i" "?once lv1 lv2" using accept_steer_once [OF _ assms(2)] a j by auto
    obtain lv3 taken where t: "settle_steer now (rq_prompt rq) run i lv2 = (lv3, taken)" by fastforce
    have s3: "?once lv lv3" using shown_once_after [OF s1 shown_once_before [OF s2(2) settle_steer_same [OF t]]] .
    show ?thesis
    proof (cases taken)
      case True
      then show ?thesis using assms(1) r Delivered a j s2(1) t s3 by (simp add: dispatch_turn_def Let_def)
    next
      case False
      then have "?once (fst (interrupt wait lv3)) lv'"
        using assms(1) r Delivered a j s2(1) t fresh [of "fst (interrupt wait lv3)"] by (simp add: dispatch_turn_def Let_def)
      then show ?thesis using s3 stop shown_once_twice by blast
    qed
  qed
  then show ?thesis by (simp add: shown_once_def)
qed

theorem dispatched_message_once_witness:
  "\<exists>lv res. dispatch_turn sample_env id 1 ClaudeCode sample_request (Some ''u'') False torn_chat = (lv, Inr res) \<and>
     entries_of (\<lambda>_. []) ''u'' lv = entries_of (\<lambda>_. []) ''u'' torn_chat"
proof -
  have n: "lv_run torn_chat = None" by (simp add: torn_chat_def quiet_chat_def)
  have ready: "en_resolve sample_env ClaudeCode = Inr (True, False)" "en_open sample_env = None" by (simp_all add: sample_env_def)
  obtain lv run rt where f: "dispatch_fresh sample_env 1 ClaudeCode (sample_request\<lparr>rq_cwd := expand_home ''/h'' (rq_cwd sample_request)\<rparr>) (Some ''u'') False
      (note_turn_start (expand_home ''/h'' (rq_cwd sample_request)) torn_chat) = (lv, Inr (run, rt))"
    using dispatch_fresh_starts [of sample_env ClaudeCode True False 1 _ "Some ''u''" False] ready by blast
  then have r: "dispatch_turn sample_env id 1 ClaudeCode sample_request (Some ''u'') False torn_chat = (lv, Inr (run, Some rt))"
    using n by (simp add: dispatch_turn_def route_send_def note_turn_start_def sample_env_def Let_def)
  have "entries_of (\<lambda>_. []) ''u'' torn_chat \<noteq> []"
    using doc_holds_read [OF torn_chat_holds, of "\<lambda>_. []"]
    by (simp add: entries_of_def torn_entries_def canon_entry_def user_entry_def entry_typed_def i64_def)
  moreover have "i64 1" by (simp add: i64_def)
  ultimately show ?thesis using dispatched_message_once [OF r] r by (auto simp: sample_env_def)
qed

end
