(* ===== verification/View_Model.thy ===== *)
theory View_Model
  imports Drive_Run Json_Value
begin

text \<open>
  What every surface shows of the shared state (\<open>crates/proto/src/view.rs\<close>): the status of a chat, the order of the rows,
  the gate of the application, the groups of the sidebar, relative times, the lines about tools, and where a new session
  runs. All of it is pure. Times are milliseconds.
\<close>

section \<open>Status\<close>

datatype connection_status = Connecting | Connected | ConnectionFailed string

datatype indicator = Show_None | Show_Working | Show_AwaitingInput | Show_Errored

definition session_stale_ms :: int where "session_stale_ms = 45000"

definition effective_indicator :: "session option \<Rightarrow> int \<Rightarrow> indicator" where
  "effective_indicator s now =
     (case s of
        None \<Rightarrow> Show_None
      | Some s \<Rightarrow>
          (case ss_status s of
             Status_Idle \<Rightarrow> Show_None
           | Status_Errored \<Rightarrow> Show_Errored
           | Status_Working \<Rightarrow> if now - ss_updated_at s > session_stale_ms then Show_None else Show_Working
           | Status_AwaitingInput \<Rightarrow> if now - ss_updated_at s > session_stale_ms then Show_None else Show_AwaitingInput))"

definition display_status :: "chat \<Rightarrow> session option \<Rightarrow> int \<Rightarrow> chat_indicator" where
  "display_status c s now = chat_indicator_of c (if effective_indicator s now = Show_None then None else s)"

fun attention_rank :: "chat_indicator \<Rightarrow> nat" where
  "attention_rank Ind_AwaitingInput = 0"
| "attention_rank Ind_Errored = 1"
| "attention_rank Ind_Working = 2"
| "attention_rank Ind_Completed = 3"
| "attention_rank Ind_Idle = 4"

section \<open>Orders\<close>

definition recency :: "chat \<Rightarrow> int" where
  "recency c = (case ch_last_message_at c of Some t \<Rightarrow> t | None \<Rightarrow> ch_created_at c)"

text \<open>The sorts are stable; the keys are those the comparisons go through, newest first where the time is negated.\<close>

definition sort_active :: "(chat_indicator \<times> chat) list \<Rightarrow> (chat_indicator \<times> chat) list" where
  "sort_active = sort_key (\<lambda>(_, c). (- recency c, ch_id c))"

definition sort_tabs :: "chat list \<Rightarrow> chat list" where
  "sort_tabs = sort_key (\<lambda>c. (ch_created_at c, ch_id c))"

definition sort_spaces :: "space list \<Rightarrow> space list" where
  "sort_spaces = sort_key (\<lambda>s. (sp_created_at s, sp_id s))"

definition sort_chats :: "chat list \<Rightarrow> chat list" where
  "sort_chats = sort_key (\<lambda>c. (- recency c, - ch_created_at c, ch_id c))"

section \<open>The gate\<close>

record user_profile =
  up_id :: string
  up_email :: string
  up_name :: "string option"

datatype auth_state = SignedOut | NeedsOrganization user_profile | SignedIn user_profile "string option"

datatype workspace_scope = Scope_Local | Scope_Synced | Scope_Development

datatype gate_phase = Gate_Loading | Gate_Failed string | Gate_SignIn | Gate_Org | Gate_Ready

definition gate_phase_of :: "connection_status \<Rightarrow> workspace_scope option \<Rightarrow> auth_state option \<Rightarrow> gate_phase" where
  "gate_phase_of conn scope auth =
     (case conn of
        Connecting \<Rightarrow> Gate_Loading
      | ConnectionFailed err \<Rightarrow> Gate_Failed err
      | Connected \<Rightarrow>
          (case (case scope of Some s \<Rightarrow> s | None \<Rightarrow> Scope_Synced) of
             Scope_Local \<Rightarrow> Gate_Ready
           | Scope_Development \<Rightarrow> Gate_Ready
           | Scope_Synced \<Rightarrow>
               (case auth of
                  Some (NeedsOrganization _) \<Rightarrow> Gate_Org
                | Some (SignedIn _ _) \<Rightarrow> Gate_Ready
                | Some SignedOut \<Rightarrow> Gate_SignIn
                | None \<Rightarrow> Gate_SignIn)))"

text \<open>The deserialiser of the type: an object with the tag \<open>state\<close>, or the array of the tag and the fields in order.\<close>

fun user_of_value :: "json \<Rightarrow> user_profile option" where
  "user_of_value (JObj fs) = do {
     i \<leftarrow> req as_str fs ''id'';
     e \<leftarrow> req as_str fs ''email'';
     n \<leftarrow> opt as_str fs ''name'';
     Some \<lparr>up_id = i, up_email = e, up_name = n\<rparr> }"
| "user_of_value (JArr [i, e, n]) = do {
     i \<leftarrow> as_str i;
     e \<leftarrow> as_str e;
     n \<leftarrow> opt_of as_str n;
     Some \<lparr>up_id = i, up_email = e, up_name = n\<rparr> }"
| "user_of_value _ = None"

definition auth_of_fields :: "string \<Rightarrow> (string, json) btree \<Rightarrow> auth_state option" where
  "auth_of_fields tag fs =
     (if tag = ''signedOut'' then Some SignedOut
      else if tag = ''needsOrganization'' then map_option NeedsOrganization (req user_of_value fs ''user'')
      else if tag = ''signedIn'' then do {
        u \<leftarrow> req user_of_value fs ''user'';
        org \<leftarrow> opt as_str fs ''orgId'';
        Some (SignedIn u org) }
      else None)"

definition auth_of_row :: "string \<Rightarrow> json list \<Rightarrow> auth_state option" where
  "auth_of_row tag js =
     (case js of
        [] \<Rightarrow> if tag = ''signedOut'' then Some SignedOut else None
      | [u] \<Rightarrow> if tag = ''needsOrganization'' then map_option NeedsOrganization (user_of_value u) else None
      | [u, org] \<Rightarrow> if tag = ''signedIn'' then do { u \<leftarrow> user_of_value u; org \<leftarrow> opt_of as_str org; Some (SignedIn u org) } else None
      | _ \<Rightarrow> None)"

fun auth_of_value :: "json \<Rightarrow> auth_state option" where
  "auth_of_value (JObj fs) = Option.bind (req as_str fs ''state'') (\<lambda>tag. auth_of_fields tag fs)"
| "auth_of_value (JArr (j # js)) = Option.bind (as_str j) (\<lambda>tag. auth_of_row tag js)"
| "auth_of_value _ = None"

definition engine_user :: "json \<Rightarrow> user_profile option" where
  "engine_user j = do {
     u \<leftarrow> json_get j ''user'';
     i \<leftarrow> Option.bind (json_get u ''id'') as_str;
     e \<leftarrow> Option.bind (json_get u ''email'') as_str;
     Some \<lparr>up_id = i, up_email = e, up_name = Option.bind (json_get u ''name'') as_str\<rparr> }"

definition parse_auth_state :: "json \<Rightarrow> auth_state option" where
  "parse_auth_state j =
     (case auth_of_value j of
        Some a \<Rightarrow> Some a
      | None \<Rightarrow>
          (case Option.bind (json_get j ''_tag'') as_str of
             None \<Rightarrow> None
           | Some tag \<Rightarrow>
               if tag = ''SignedOut'' then Some SignedOut
               else if tag = ''NeedsOrganization'' then map_option NeedsOrganization (engine_user j)
               else if tag = ''SignedIn'' then map_option (\<lambda>u. SignedIn u (Option.bind (json_get j ''orgId'') as_str)) (engine_user j)
               else None))"

section \<open>The sidebar\<close>

definition slash :: "char \<Rightarrow> bool" where
  "slash c = (c = CHR ''/'' \<or> c = CHR 0x5C)"

definition no_project :: string where "no_project = ''No project''"

definition project_label :: "string option \<Rightarrow> string" where
  "project_label cwd =
     (case cwd of
        None \<Rightarrow> no_project
      | Some raw \<Rightarrow>
          (let cwd = trim raw
           in if cwd = [] then no_project
              else case file_name (rev (dropWhile slash (rev cwd))) of Some n \<Rightarrow> n | None \<Rightarrow> cwd))"

record chat_group =
  cg_label :: string
  cg_chats :: "chat list"

fun add_to_group :: "string \<Rightarrow> chat \<Rightarrow> chat_group list \<Rightarrow> chat_group list" where
  "add_to_group label c [] = [\<lparr>cg_label = label, cg_chats = [c]\<rparr>]"
| "add_to_group label c (g # gs) =
     (if cg_label g = label then g\<lparr>cg_chats := cg_chats g @ [c]\<rparr> # gs else g # add_to_group label c gs)"

definition group_chats :: "chat list \<Rightarrow> chat_group list" where
  "group_chats cs = fold (\<lambda>c. add_to_group (project_label (ch_cwd c)) c) cs []"

definition show_int :: "int \<Rightarrow> string" where
  "show_int i = show_nat (nat i)"

definition format_time_ago :: "int \<Rightarrow> int \<Rightarrow> string" where
  "format_time_ago earlier now =
     (let s = max 0 ((now - earlier) div 1000); m = s div 60; h = m div 60; d = h div 24; w = d div 7; mo = d div 30
      in if s < 60 then ''now''
         else if m < 60 then show_int m @ ''m''
         else if h < 24 then show_int h @ ''h''
         else if d < 7 then show_int d @ ''d''
         else if w < 5 then show_int w @ ''w''
         else if mo < 12 then show_int mo @ ''mo''
         else show_int (d div 365) @ ''y'')"

text \<open>A middle dot between spaces.\<close>

definition dot_sep :: string where "dot_sep = [CHR '' '', CHR 0xC2, CHR 0xB7, CHR '' '']"

definition chat_location :: "chat \<Rightarrow> string option" where
  "chat_location c =
     (let project = (case ch_cwd c of Some d \<Rightarrow> if trim d = [] then None else Some (project_label (Some (trim d))) | None \<Rightarrow> None);
          reference = (case ch_branch c of Some b \<Rightarrow> if trim b = [] then None else Some (trim b) | None \<Rightarrow> None)
      in case (project, reference) of
           (Some p, Some r) \<Rightarrow> Some (p @ dot_sep @ r)
         | (Some p, None) \<Rightarrow> Some p
         | (None, Some r) \<Rightarrow> Some r
         | (None, None) \<Rightarrow> None)"

section \<open>Lines about tools\<close>

definition ws_at :: "string \<Rightarrow> string option" where
  "ws_at s = find (\<lambda>w. w \<noteq> [] \<and> prefix w s) ws_chars"

text \<open>\<open>split_whitespace\<close>, with the word that is being read.\<close>

function split_ws :: "string \<Rightarrow> string \<Rightarrow> string list" where
  "split_ws word [] = (if word = [] then [] else [word])"
| "split_ws word (c # s) =
     (case ws_at (c # s) of
        Some w \<Rightarrow> (if word = [] then [] else [word]) @ split_ws [] (drop (length w) (c # s))
      | None \<Rightarrow> split_ws (word @ [c]) s)"
  by pat_completeness auto
termination
  by (relation "measure (\<lambda>(word, s). length s)") (auto simp: ws_at_def find_Some_iff)

definition single_line :: "string \<Rightarrow> string" where
  "single_line s = join_str '' '' (split_ws [] s)"

definition plural :: "nat \<Rightarrow> string \<Rightarrow> string \<Rightarrow> string" where
  "plural n one many = show_nat n @ '' '' @ (if n = 1 then one else many)"

definition unknown_chip :: "string \<Rightarrow> string \<times> string" where
  "unknown_chip name =
     (case strip_prefix ''Agent: '' name of
        Some d \<Rightarrow> (''Agent'', d)
      | None \<Rightarrow>
          if name = ''Agent'' then (''Agent'', [])
          else case (case strip_prefix ''Background output'' name of Some r \<Rightarrow> Some r | None \<Rightarrow> strip_prefix ''Stop background task'' name) of
                 Some rest \<Rightarrow>
                   (let i = trim (dropWhile (\<lambda>c. c = CHR '':'') rest);
                        verb = (if strip_prefix ''Stop'' name \<noteq> None then ''stop'' else ''output'')
                    in (''Task'', if i = [] then verb else verb @ dot_sep @ i))
               | None \<Rightarrow> (''Tool'', name))"

fun tool_chip_content_raw :: "tool_call \<Rightarrow> string \<times> string" where
  "tool_chip_content_raw (Exec command) = (''Run'', command)"
| "tool_chip_content_raw (ReadFile path) = (''Read'', path)"
| "tool_chip_content_raw (WriteFile path _) = (''Write'', path)"
| "tool_chip_content_raw (EditFile path _ _) = (''Edit'', path)"
| "tool_chip_content_raw (ApplyPatch path) = (''Patch'', case path of Some p \<Rightarrow> p | None \<Rightarrow> ''workspace'')"
| "tool_chip_content_raw (Search pattern path) = (''Search'', case path of Some p \<Rightarrow> pattern @ '' in '' @ p | None \<Rightarrow> pattern)"
| "tool_chip_content_raw (Glob pattern) = (''Glob'', pattern)"
| "tool_chip_content_raw (WebFetch url _) = (''Fetch'', url)"
| "tool_chip_content_raw (WebSearch query) = (''Web'', query)"
| "tool_chip_content_raw (Todo items) = (''Todo'', show_nat (length (filter td_done items)) @ ''/'' @ show_nat (length items) @ '' done'')"
| "tool_chip_content_raw (Mcp server tool _) = (''MCP'', server @ dot_sep @ tool)"
| "tool_chip_content_raw (UnknownTool name _) = unknown_chip name"

definition tool_chip_content :: "tool_call \<Rightarrow> string \<times> string" where
  "tool_chip_content call = (case tool_chip_content_raw call of (label, detail) \<Rightarrow> (label, single_line detail))"

record tool_tally =
  tt_commands :: nat
  tt_edited :: "string list"
  tt_reads :: nat
  tt_searches :: nat
  tt_fetches :: nat
  tt_todos :: nat
  tt_other :: nat
  tt_failed :: nat

definition note_edit :: "string \<Rightarrow> tool_tally \<Rightarrow> tool_tally" where
  "note_edit p t = (if p \<in> set (tt_edited t) then t else t\<lparr>tt_edited := tt_edited t @ [p]\<rparr>)"

fun tally_call :: "tool_call \<Rightarrow> tool_tally \<Rightarrow> tool_tally" where
  "tally_call (Exec _) t = t\<lparr>tt_commands := tt_commands t + 1\<rparr>"
| "tally_call (WriteFile p _) t = note_edit p t"
| "tally_call (EditFile p _ _) t = note_edit p t"
| "tally_call (ApplyPatch p) t = note_edit (case p of Some p \<Rightarrow> p | None \<Rightarrow> ''patch'') t"
| "tally_call (ReadFile _) t = t\<lparr>tt_reads := tt_reads t + 1\<rparr>"
| "tally_call (Search _ _) t = t\<lparr>tt_searches := tt_searches t + 1\<rparr>"
| "tally_call (Glob _) t = t\<lparr>tt_searches := tt_searches t + 1\<rparr>"
| "tally_call (WebSearch _) t = t\<lparr>tt_searches := tt_searches t + 1\<rparr>"
| "tally_call (WebFetch _ _) t = t\<lparr>tt_fetches := tt_fetches t + 1\<rparr>"
| "tally_call (Todo _) t = t\<lparr>tt_todos := tt_todos t + 1\<rparr>"
| "tally_call (Mcp _ _ _) t = t\<lparr>tt_other := tt_other t + 1\<rparr>"
| "tally_call (UnknownTool _ _) t = t\<lparr>tt_other := tt_other t + 1\<rparr>"

definition tally :: "(tool_call \<times> bool) list \<Rightarrow> tool_tally" where
  "tally tools = fold (\<lambda>(call, failed) t. tally_call call (if failed then t\<lparr>tt_failed := tt_failed t + 1\<rparr> else t)) tools
     \<lparr>tt_commands = 0, tt_edited = [], tt_reads = 0, tt_searches = 0, tt_fetches = 0, tt_todos = 0, tt_other = 0, tt_failed = 0\<rparr>"

definition seg_if :: "bool \<Rightarrow> string \<Rightarrow> string list" where
  "seg_if b s = (if b then [s] else [])"

definition capitalised :: "string \<Rightarrow> string" where
  "capitalised s =
     (case s of
        c # cs \<Rightarrow> (if 97 \<le> (of_char c :: nat) \<and> (of_char c :: nat) \<le> 122 then char_of (of_char c - 32 :: nat) else c) # cs
      | [] \<Rightarrow> [])"

definition tool_group_summary :: "(tool_call \<times> bool) list \<Rightarrow> string" where
  "tool_group_summary tools =
     (let t = tally tools;
          segments = seg_if (0 < tt_commands t) (''ran '' @ plural (tt_commands t) ''command'' ''commands'') @
            seg_if (tt_edited t \<noteq> []) (''edited '' @ plural (length (tt_edited t)) ''file'' ''files'') @
            seg_if (0 < tt_reads t) (''read '' @ plural (tt_reads t) ''file'' ''files'') @
            seg_if (0 < tt_searches t) (''searched '' @ plural (tt_searches t) ''time'' ''times'') @
            seg_if (0 < tt_fetches t) (''fetched '' @ plural (tt_fetches t) ''page'' ''pages'') @
            seg_if (0 < tt_todos t) ''updated todos'' @
            seg_if (0 < tt_other t) (''called '' @ plural (tt_other t) ''tool'' ''tools'');
          segments = (if segments = [] then [plural (length tools) ''tool'' ''tools''] else segments) @
            seg_if (0 < tt_failed t) (show_nat (tt_failed t) @ '' failed'')
      in capitalised (join_str dot_sep segments))"

section \<open>Where a new session runs\<close>

record repo_ref =
  rr_name :: string
  rr_current :: bool
  rr_worktree_path :: "string option"

datatype checkout_kind = Checkout_Local | Checkout_NewWorktree

datatype checkout_plan = CurrentCheckout "string option" | ReuseWorktree string string | NewWorktree "string option"

definition checkout_plan_of :: "checkout_kind \<Rightarrow> repo_ref option \<Rightarrow> checkout_plan" where
  "checkout_plan_of kind picked =
     (case kind of
        Checkout_NewWorktree \<Rightarrow> NewWorktree (map_option rr_name picked)
      | Checkout_Local \<Rightarrow>
          (case Option.bind picked rr_worktree_path of
             Some path \<Rightarrow> ReuseWorktree path (case picked of Some r \<Rightarrow> rr_name r | None \<Rightarrow> [])
           | None \<Rightarrow> CurrentCheckout (map_option rr_name picked)))"

definition checkout_label :: "checkout_kind \<Rightarrow> repo_ref option \<Rightarrow> string" where
  "checkout_label kind picked =
     (case kind of
        Checkout_NewWorktree \<Rightarrow> ''New worktree''
      | Checkout_Local \<Rightarrow> if Option.bind picked rr_worktree_path \<noteq> None then ''Current worktree'' else ''Current checkout'')"


section \<open>One order everywhere\<close>

lemma sort_key_same:
  fixes k :: "'a \<Rightarrow> 'b::linorder"
  assumes "mset xs = mset ys" "inj_on k (set xs)"
  shows "sort_key k xs = sort_key k ys"
  by (rule sort_key_inj_key_eq) (use assms in simp_all)

text \<open>
  Every surface shows the rows in one order: two surfaces that hold the same rows, in whatever order they came to them,
  show the same list of chats, of tabs, of active chats and of spaces, as long as no two rows have the same id.
\<close>
theorem rows_in_one_order:
  assumes "mset cs = mset cs'" "distinct (map ch_id cs)"
    and "mset rows = mset rows'" "distinct (map (\<lambda>(_, c). ch_id c) rows)"
    and "mset sps = mset sps'" "distinct (map sp_id sps)"
  shows "sort_chats cs = sort_chats cs' \<and> sort_tabs cs = sort_tabs cs' \<and> sort_active rows = sort_active rows' \<and> sort_spaces sps = sort_spaces sps'"
proof (intro conjI)
  have c: "inj_on ch_id (set cs)" and r: "inj_on (\<lambda>(_, c). ch_id c) (set rows)" and p: "inj_on sp_id (set sps)"
    using assms(2,4,6) by (auto simp: distinct_map)
  show "sort_chats cs = sort_chats cs'"
    unfolding sort_chats_def by (rule sort_key_same [OF assms(1)]) (use c in \<open>auto simp: inj_on_def\<close>)
  show "sort_tabs cs = sort_tabs cs'"
    unfolding sort_tabs_def by (rule sort_key_same [OF assms(1)]) (use c in \<open>auto simp: inj_on_def\<close>)
  show "sort_active rows = sort_active rows'"
    unfolding sort_active_def by (rule sort_key_same [OF assms(3)]) (use r in \<open>auto simp: inj_on_def\<close>)
  show "sort_spaces sps = sort_spaces sps'"
    unfolding sort_spaces_def by (rule sort_key_same [OF assms(5)]) (use p in \<open>auto simp: inj_on_def\<close>)
qed

section \<open>Live and dead sessions\<close>

text \<open>The heartbeat of a run: every \<open>15 s\<close>, and with every event.\<close>

definition heartbeat_ms :: int where "heartbeat_ms = 15000"

text \<open>
  C37. A live turn is shown as live and a dead one is not: a row that shows a turn, touched by its run at some time, still
  shows it on every surface two heartbeats later, although most touches do not write; and 45 seconds after the last
  write it shows no turn any more, whatever it says.
\<close>
theorem live_turn_shown_in_time:
  assumes "lv_status lv = Some s" "active (ss_status s)" "ss_updated_at s \<le> t" "t \<le> now"
  shows "(now \<le> t + 2 * heartbeat_ms \<longrightarrow> effective_indicator (lv_status (touch_session t lv)) now \<noteq> Show_None) \<and>
    (t + session_stale_ms < now \<longrightarrow> effective_indicator (lv_status (touch_session t lv)) now = Show_None)"
proof -
  have a: "ss_status s = Status_Working \<or> ss_status s = Status_AwaitingInput" using assms(2) by (simp add: active_def)
  define u where "u = (if t - ss_updated_at s < touch_throttle_ms then ss_updated_at s else t)"
  have "lv_status (touch_session t lv) = Some (s\<lparr>ss_updated_at := u\<rparr>)"
    using assms(1) by (auto simp: touch_session_def u_def)
  moreover have "u \<le> t" "t - u < touch_throttle_ms" using assms(3) by (auto simp: u_def touch_throttle_ms_def)
  ultimately show ?thesis
    using a assms(4) by (auto simp: effective_indicator_def session_stale_ms_def heartbeat_ms_def touch_throttle_ms_def)
qed

section \<open>Groups\<close>

definition label_of :: "chat \<Rightarrow> string" where
  "label_of c = project_label (ch_cwd c)"

text \<open>What grouping means: the labels in the order they first come up, each with its chats in their order.\<close>

definition groups_spec :: "chat list \<Rightarrow> chat_group list" where
  "groups_spec cs = map (\<lambda>l. \<lparr>cg_label = l, cg_chats = filter (\<lambda>c. label_of c = l) cs\<rparr>) (rev (remdups (rev (map label_of cs))))"

lemma add_to_group_map:
  "distinct ls \<Longrightarrow> add_to_group l c (map (\<lambda>l. \<lparr>cg_label = l, cg_chats = f l\<rparr>) ls) =
     (if l \<in> set ls then map (\<lambda>k. \<lparr>cg_label = k, cg_chats = if k = l then f k @ [c] else f k\<rparr>) ls
      else map (\<lambda>k. \<lparr>cg_label = k, cg_chats = f k\<rparr>) ls @ [\<lparr>cg_label = l, cg_chats = [c]\<rparr>])"
  by (induction ls) auto

lemma group_chats_snoc: "group_chats (cs @ [c]) = add_to_group (label_of c) c (group_chats cs)"
  by (simp add: group_chats_def label_of_def)

text \<open>
  The sidebar groups chats by their project and keeps their order: the groups are the labels in the order in which their
  first chat comes, each chat is in the group of its label and in no other, and within a group the order is that of the
  list.
\<close>
theorem group_chats_correct: "group_chats cs = groups_spec cs"
proof (induction cs rule: rev_induct)
  case (snoc c cs)
  let ?ls = "rev (remdups (rev (map label_of cs)))"
  have e: "filter (\<lambda>x. label_of x = label_of c) cs = []" if "label_of c \<notin> label_of ` set cs"
    using that by (intro filter_False) (metis image_eqI)
  show ?case
  proof (cases "label_of c \<in> label_of ` set cs")
    case True
    then show ?thesis
      by (auto simp: group_chats_snoc snoc groups_spec_def add_to_group_map)
  next
    case False
    then show ?thesis using e [OF False]
      by (auto simp: group_chats_snoc snoc groups_spec_def add_to_group_map)
  qed
qed (simp add: group_chats_def groups_spec_def)

section \<open>Relative times\<close>

text \<open>
  Almost a year reads as no year: from the 360th day until the 365th is over the age of a chat is shown as zero years.
\<close>
theorem almost_a_year_reads_zero:
  assumes "360 * 86400000 \<le> now - earlier" "now - earlier < 365 * 86400000"
  shows "format_time_ago earlier now = ''0y''"
proof -
  define sec where "sec = max 0 ((now - earlier) div 1000)"
  define mi where "mi = sec div 60"
  define hr where "hr = mi div 60"
  define d where "d = hr div 24"
  have "360 * 86400 \<le> sec" "sec < 365 * 86400" using assms by (simp_all add: sec_def)
  then have b: "360 * 1440 \<le> mi" "mi < 365 * 1440" by (simp_all add: mi_def)
  then have "360 * 24 \<le> hr" "hr < 365 * 24" by (simp_all add: hr_def)
  then have d: "360 \<le> d" "d < 365" by (simp_all add: d_def)
  then have "\<not> d div 30 < 12" "d div 365 = 0" "\<not> d < 7" "\<not> d div 7 < 5" by simp_all
  moreover have "\<not> sec < 60" "\<not> mi < 60" "\<not> hr < 24" using \<open>360 * 86400 \<le> sec\<close> b \<open>360 * 24 \<le> hr\<close> by simp_all
  ultimately have "format_time_ago earlier now = show_int 0 @ ''y''"
    unfolding format_time_ago_def Let_def sec_def [symmetric] mi_def [symmetric] hr_def [symmetric] d_def [symmetric] by simp
  moreover have "show_int 0 = ''0''" by code_simp
  ultimately show ?thesis by simp
qed


text \<open>The witnesses: chats of one device.\<close>

definition sample_row :: "string \<Rightarrow> int \<Rightarrow> chat" where
  "sample_row i at = \<lparr>ch_id = i, ch_device_id = ''d'', ch_title = None, ch_archived = False, ch_cwd = Some ''/w'', ch_branch = None, ch_checkout_id = None,
     ch_config = None, ch_last_message_preview = None, ch_last_message_at = None, ch_created_at = at, ch_harness_session_id = None,
     ch_harness_session_cwd = None, ch_space_id = None, ch_last_seen_at = None, ch_room_gen = None\<rparr>"

theorem rows_in_one_order_witness:
  "sort_chats [sample_row ''a'' 1, sample_row ''b'' 1] = sort_chats [sample_row ''b'' 1, sample_row ''a'' 1]"
  using rows_in_one_order [of "[sample_row ''a'' 1, sample_row ''b'' 1]" "[sample_row ''b'' 1, sample_row ''a'' 1]" "[]" "[]" "[]" "[]"]
  by (simp add: sample_row_def)

definition working_row :: session where
  "working_row = \<lparr>ss_chat_id = ''c'', ss_device_id = ''d'', ss_status = Status_Working, ss_started_at = None, ss_updated_at = 0, ss_context_tokens = None\<rparr>"

definition working_chat :: live_chat where
  "working_chat = \<lparr>lv_chat = ''c'', lv_device = ''d'', lv_run = None, lv_handles = [], lv_status = Some working_row,
     lv_last_request = None, lv_harness = None, lv_row_harness = None, lv_journal = [], lv_doc = init_doc ''c'', lv_subdocs = [],
     lv_previews = [], lv_titles = [], lv_turns = [], lv_frozen = [], lv_attempts = 0, lv_respawn = [], lv_drawn = 0\<rparr>"

theorem live_turn_shown_in_time_witness:
  "effective_indicator (lv_status (touch_session 9999 working_chat)) 39999 \<noteq> Show_None \<and>
   effective_indicator (lv_status (touch_session 9999 working_chat)) 55000 = Show_None"
  using live_turn_shown_in_time [of working_chat working_row 9999 39999] live_turn_shown_in_time [of working_chat working_row 9999 55000]
  by (simp add: working_chat_def working_row_def active_def heartbeat_ms_def session_stale_ms_def)

theorem almost_a_year_reads_zero_witness: "format_time_ago 0 (362 * 86400000) = ''0y''"
  by (rule almost_a_year_reads_zero) simp_all


section \<open>Single lines\<close>

lemma split_ws_clean:
  assumes "[c] \<in> set ws_chars"
  shows "c \<notin> set word \<Longrightarrow> w \<in> set (split_ws word s) \<Longrightarrow> c \<notin> set w"
proof (induction word s rule: split_ws.induct)
  case (2 word x s)
  show ?case
  proof (cases "ws_at (x # s)")
    case None
    then have "x \<noteq> c" using assms by (auto simp: ws_at_def find_None_iff)
    then show ?thesis using 2 None by auto
  next
    case (Some v)
    then show ?thesis using 2 by (auto split: if_splits)
  qed
qed (auto split: if_splits)

lemma join_str_set: "set (join_str sep ws) \<subseteq> set sep \<union> \<Union> (set ` set ws)"
  by (induction sep ws rule: join_str.induct) auto

text \<open>
  What is shown on one line is one line: the detail of a tool chip contains no line feed, carriage return or tab, whatever the
  model wrote.
\<close>
theorem chip_detail_on_one_line:
  "newline \<notin> set (snd (tool_chip_content call)) \<and> carriage_return \<notin> set (snd (tool_chip_content call)) \<and> CHR 0x09 \<notin> set (snd (tool_chip_content call))"
proof -
  have "c \<notin> set (single_line t)" if "[c] \<in> set ws_chars" "c \<noteq> CHR '' ''" for c t
    using split_ws_clean [OF that(1), of "[]"] that(2) join_str_set [of "'' ''" "split_ws [] t"] by (auto simp: single_line_def)
  then show ?thesis by (auto simp: tool_chip_content_def ws_chars_def newline_def carriage_return_def split: prod.split)
qed

end
