(* ===== verification/Acp_Normalize.thy ===== *)
theory Acp_Normalize
  imports Claude_Normalize Codex_Run
begin

text \<open>
  What an agent that speaks ACP says (\<open>crates/harness/src/acp/normalize.rs\<close>, and the pure parts of
  \<open>crates/harness/src/acp/mod.rs\<close>): the mapping of \<open>session/update\<close> to agent events, the models and options a
  session advertises, the options a run sets, and the answers to the requests of an agent.
\<close>

section \<open>Text\<close>

definition output_cap :: nat where "output_cap = 16 * 1024"

definition diff_text_cap :: nat where "diff_text_cap = 64 * 1024"

definition truncated_mark :: string where "truncated_mark = newline # ellipsis @ '' [truncated]''"

text \<open>The loop that walks back from the cap to the boundary of a character is \<open>back_to_boundary\<close>.\<close>

definition cap_text :: "string \<Rightarrow> nat \<Rightarrow> string" where
  "cap_text text cap =
     (if length text \<le> cap then text else take (back_to_boundary text cap) text @ truncated_mark)"

text \<open>The first value of a chain of \<open>or_else\<close>.\<close>

fun first_of :: "'a option list \<Rightarrow> 'a option" where
  "first_of [] = None"
| "first_of (x # xs) = (case x of Some v \<Rightarrow> Some v | None \<Rightarrow> first_of xs)"

definition content_block_text :: "json \<Rightarrow> string option" where
  "content_block_text block = (if opt_str_field block ''type'' = Some ''text'' then opt_str_field block ''text'' else None)"

definition chunk_text :: "json \<Rightarrow> string option" where
  "chunk_text update = nonempty (Option.bind (json_get update ''content'') content_block_text)"

definition content_items :: "json \<Rightarrow> json list option" where
  "content_items update = Option.bind (json_get update ''content'') as_array"

definition tool_output :: "json \<Rightarrow> string option" where
  "tool_output update =
     (case content_items update of
        None \<Rightarrow> None
      | Some cs \<Rightarrow>
          (let parts = filter (\<lambda>t. t \<noteq> []) (List.map_filter (\<lambda>c. Option.bind (json_get c ''content'') content_block_text)
                         (filter (\<lambda>c. opt_str_field c ''type'' = Some ''content'') cs))
           in if parts = [] then None else Some (cap_text (join_str [newline] parts) output_cap)))"

definition tool_diff_of :: "json \<Rightarrow> tool_diff option" where
  "tool_diff_of update =
     (case Option.bind (content_items update) (find (\<lambda>c. opt_str_field c ''type'' = Some ''diff'')) of
        None \<Rightarrow> None
      | Some d \<Rightarrow>
          if str_field d ''path'' = [] then None
          else Some \<lparr>td_path = str_field d ''path'',
                     td_old_text = map_option (\<lambda>t. cap_text t diff_text_cap) (opt_str_field d ''oldText''),
                     td_new_text = cap_text (str_field d ''newText'') diff_text_cap\<rparr>)"

definition xai_tool_name :: "json \<Rightarrow> string option" where
  "xai_tool_name update = Option.bind (json_pointer [''_meta'', ''x.ai/tool'', ''name''] update) as_str"

definition first_location :: "json \<Rightarrow> string option" where
  "first_location update =
     (case Option.bind (json_get update ''locations'') as_array of
        Some (l # _) \<Rightarrow> nonempty (opt_str_field l ''path'')
      | _ \<Rightarrow> None)"

section \<open>Tool calls\<close>

definition placeholder_titles :: "string list" where
  "placeholder_titles =
     [''grep'', ''Find'', ''Terminal'', ''Read File'', ''Edit File'', ''Delete File'', ''Web Search'', ''Web Fetch'',
      ''Codebase Search'', ''Read TODOs'', ''Update TODOs'', ''Read Lints'', ''Task: Subagent task'', ''Subagent task'',
      ''List MCP Resources'', ''Fetch MCP Resource'']"

definition is_placeholder_title :: "string \<Rightarrow> bool" where
  "is_placeholder_title title = (trim title \<in> set placeholder_titles)"

definition backslash :: char where "backslash = CHR 0x5C"

definition grave :: char where "grave = CHR 0x60"

fun unescape_graves :: "string \<Rightarrow> string" where
  "unescape_graves (a # b # s) =
     (if a = backslash \<and> b = grave then grave # unescape_graves s else a # unescape_graves (b # s))"
| "unescape_graves s = s"

definition arg_from_title :: "string \<Rightarrow> string option" where
  "arg_from_title title = (let t = trim title in if t = [] \<or> is_placeholder_title t then None else Some t)"

definition unwrap_command_title :: "string \<Rightarrow> string option" where
  "unwrap_command_title title =
     Option.bind (Option.bind (strip_prefix [grave] (trim title)) (strip_suffix [grave])) (\<lambda>inner.
       let out = trim (unescape_graves inner) in if out = [] \<or> is_placeholder_title out then None else Some out)"

definition raw_input :: "json \<Rightarrow> json option" where
  "raw_input update = (case json_get update ''rawInput'' of Some JNull \<Rightarrow> None | r \<Rightarrow> r)"

definition raw_str :: "json \<Rightarrow> string \<Rightarrow> string option" where
  "raw_str update key = nonempty (Option.bind (raw_input update) (\<lambda>r. opt_str_field r key))"

definition call_of_diff :: "tool_diff \<Rightarrow> tool_call" where
  "call_of_diff d = (if td_old_text d = None then WriteFile (td_path d) None else EditFile (td_path d) None None)"

definition raw_path :: "json \<Rightarrow> string option" where
  "raw_path update =
     first_of [raw_str update ''path'', raw_str update ''file_path'', raw_str update ''filePath'', first_location update]"

definition agent_chip :: "string option \<Rightarrow> string" where
  "agent_chip d = (case d of Some d \<Rightarrow> ''Agent: '' @ d | None \<Rightarrow> ''Agent'')"

definition or_empty :: "string option \<Rightarrow> string" where
  "or_empty x = (case x of Some s \<Rightarrow> s | None \<Rightarrow> [])"

definition has_field :: "json \<Rightarrow> string \<Rightarrow> bool" where
  "has_field v key = (json_get v key \<noteq> None)"

text \<open>An update whose kind says nothing about the arguments.\<close>

definition other_call :: "string \<Rightarrow> json \<Rightarrow> tool_call" where
  "other_call kind update =
     (let title = str_field update ''title''; raw = raw_input update
      in case tool_diff_of update of
           Some d \<Rightarrow> call_of_diff d
         | None \<Rightarrow>
             if xai_tool_name update = Some ''spawn_subagent'' \<or>
                (case raw of Some r \<Rightarrow> has_field r ''subagent_type'' \<and> has_field r ''prompt'' | None \<Rightarrow> False)
             then UnknownTool (agent_chip (raw_str update ''description'')) raw
             else if (case json_pointer [''rawOutput'', ''metadata''] update of
                        Some m \<Rightarrow> has_field m ''sessionId'' \<and> has_field m ''parentSessionId'' | None \<Rightarrow> False)
             then UnknownTool (agent_chip (if title = [] then None else Some title)) raw
             else if raw_str update ''_toolName'' = Some ''task'' then
               UnknownTool
                 (case first_of [map_option (\<lambda>d. ''Task: '' @ d)
                                   (case raw_str update ''description'' of
                                      Some d \<Rightarrow> if d = ''Subagent task'' then None else Some d | None \<Rightarrow> None),
                                 arg_from_title title] of
                    Some n \<Rightarrow> n
                  | None \<Rightarrow> if title = [] then ''Task'' else title) raw
             else UnknownTool (if title = [] then kind else title) raw)"

definition edit_call :: "string \<Rightarrow> json \<Rightarrow> tool_call" where
  "edit_call kind update =
     (case tool_diff_of update of
        Some d \<Rightarrow> call_of_diff d
      | None \<Rightarrow>
          (case raw_path update of
             Some path \<Rightarrow> if kind = ''edit'' then EditFile path None None else ApplyPatch (Some path)
           | None \<Rightarrow> ApplyPatch None))"

definition update_kind :: "json \<Rightarrow> string" where
  "update_kind update = (case opt_str_field update ''kind'' of Some k \<Rightarrow> k | None \<Rightarrow> ''other'')"

definition typed_call :: "json \<Rightarrow> tool_call" where
  "typed_call update =
     (let kind = update_kind update; title = str_field update ''title''; raw = raw_str update
      in if kind = ''execute'' then Exec (or_empty (first_of [raw ''command'', unwrap_command_title title, arg_from_title title]))
         else if kind = ''read'' then ReadFile (or_empty (first_of [raw_path update, arg_from_title title]))
         else if kind = ''edit'' \<or> kind = ''delete'' \<or> kind = ''move'' then edit_call kind update
         else if kind = ''search'' then
           (case raw ''searchTerm'' of
              Some query \<Rightarrow> WebSearch query
            | None \<Rightarrow> Search (or_empty (first_of [raw ''pattern'', raw ''globPattern'', raw ''query'', arg_from_title title]))
                       (raw ''path''))
         else if kind = ''fetch'' then
           (case raw ''url'' of
              Some url \<Rightarrow> WebFetch url None
            | None \<Rightarrow> WebSearch (or_empty (first_of [raw ''searchTerm'', raw ''query'', arg_from_title title])))
         else other_call kind update)"

section \<open>Updates\<close>

definition parse_command :: "json \<Rightarrow> slash_command option" where
  "parse_command c =
     (let name = str_field c ''name''
      in if name = [] then None
         else Some \<lparr>sc_name = name, sc_description = str_field c ''description'',
                    sc_input_hint = Option.bind (json_pointer [''input'', ''hint''] c) as_str\<rparr>)"

definition parse_commands :: "json option \<Rightarrow> slash_command list" where
  "parse_commands v = List.map_filter parse_command (array_or_empty v)"

definition resolved_result :: "json \<Rightarrow> string \<Rightarrow> agent_event option" where
  "resolved_result update i =
     (case opt_str_field update ''status'' of
        Some s \<Rightarrow>
          if s = ''completed'' \<or> s = ''failed''
          then Some (ToolResult i (s = ''failed'') (tool_output update) (tool_diff_of update)) else None
      | None \<Rightarrow> None)"

definition plan_item :: "json \<Rightarrow> todo_item" where
  "plan_item e = \<lparr>td_text = str_field e ''content'', td_done = (opt_str_field e ''status'' = Some ''completed'')\<rparr>"

definition new_shape :: "json \<Rightarrow> bool" where
  "new_shape update =
     (has_field update ''kind'' \<or> has_field update ''title'' \<or> has_field update ''rawInput'' \<or> tool_diff_of update \<noteq> None)"

definition map_update :: "json \<Rightarrow> agent_event list" where
  "map_update update =
     (let kind = str_field update ''sessionUpdate''; i = str_field update ''toolCallId''
      in if kind = ''agent_message_chunk'' then opt_events TextDelta (chunk_text update)
         else if kind = ''agent_thought_chunk'' then opt_events ReasoningDelta (chunk_text update)
         else if kind = ''tool_call'' then
           ToolCall i (typed_call update) # opt_events id (resolved_result update i)
         else if kind = ''tool_call_update'' then
           (if new_shape update then [ToolCall i (typed_call update)] else []) @ opt_events id (resolved_result update i)
         else if kind = ''plan'' then
           [ToolCall live_plan_tool_id (Todo (map plan_item (array_or_empty (json_get update ''entries'')))),
            ToolResult live_plan_tool_id False None None]
         else if kind = ''available_commands_update'' then
           [AvailableCommands (parse_commands (json_get update ''availableCommands''))]
         else [])"

section \<open>Names of models and options\<close>

definition norm_id :: "string \<Rightarrow> string" where
  "norm_id i = map ascii_lower (filter is_ascii_alnum i)"

definition context_hint_1m :: "string \<Rightarrow> bool" where
  "context_hint_1m i = (sublist ''[1m]'' i \<or> suffix ''-1m'' i)"

definition strip_context_hint :: "string \<Rightarrow> string option" where
  "strip_context_hint i = first_of [strip_suffix ''[1m]'' i, strip_suffix ''-1m'' i]"

definition strip_trailing_parenthetical :: "string \<Rightarrow> string" where
  "strip_trailing_parenthetical name =
     (case before_last '' ('' name of Some b \<Rightarrow> if suffix '')'' name then trim_end b else name | None \<Rightarrow> name)"

definition model_families :: "string list" where
  "model_families = [''fable'', ''opus'', ''sonnet'', ''haiku'', ''gpt'']"

definition family_pick :: "string \<Rightarrow> string list \<Rightarrow> bool \<Rightarrow> string option" where
  "family_pick requested available context_1m =
     (case find (\<lambda>f. sublist f (norm_id requested)) model_families of
        None \<Rightarrow> None
      | Some family \<Rightarrow>
          (let candidates = filter (\<lambda>v. sublist family (norm_id v)) available
           in first_of [find (\<lambda>v. context_hint_1m v = context_1m) candidates,
                        (case candidates of c # _ \<Rightarrow> Some c | [] \<Rightarrow> None)]))"

definition pick_model_value :: "string \<Rightarrow> string list \<Rightarrow> bool \<Rightarrow> string option" where
  "pick_model_value requested available context_1m =
     (case (if context_1m then find (\<lambda>c. c \<in> set available) [requested @ ''[1m]'', requested @ ''-1m''] else None) of
        Some composed \<Rightarrow> Some composed
      | None \<Rightarrow> if requested \<in> set available then Some requested else family_pick requested available context_1m)"

definition reasoning_from_value :: "string \<Rightarrow> reasoning_level option" where
  "reasoning_from_value v =
     find (\<lambda>l. reasoning_str l = norm_id v) [Minimal, Low, Medium, High, XHigh, MaxLevel, Ultra, Ultracode, Ultrathink]"

section \<open>The models of a session\<close>

record model_option_choice =
  moc_id :: string
  moc_label :: string

record model_option =
  mop_id :: string
  mop_label :: string
  mop_choices :: "model_option_choice list"
  mop_default_choice :: string

record agent_model =
  am_id :: string
  am_label :: string
  am_description :: "string option"
  am_reasoning_levels :: "reasoning_level list"
  am_options :: "model_option list"

definition context_window :: model_option where
  "context_window =
     \<lparr>mop_id = ''contextWindow'', mop_label = ''Context Window'',
      mop_choices = [\<lparr>moc_id = ''200k'', moc_label = ''200K''\<rparr>, \<lparr>moc_id = ''1m'', moc_label = ''1M''\<rparr>],
      mop_default_choice = ''200k''\<rparr>"

definition choice_of :: "json \<Rightarrow> model_option_choice option" where
  "choice_of c =
     map_option (\<lambda>i. \<lparr>moc_id = i, moc_label = (case opt_str_field c ''name'' of Some n \<Rightarrow> n | None \<Rightarrow> i)\<rparr>)
       (opt_str_field c ''value'')"

definition select_trait :: "string \<Rightarrow> string \<Rightarrow> json \<Rightarrow> model_option option" where
  "select_trait i label option =
     (case Option.bind (json_get option ''options'') as_array of
        None \<Rightarrow> None
      | Some cs \<Rightarrow>
          (let choices = List.map_filter choice_of cs
           in case first_of [opt_str_field option ''currentValue'', (case choices of c # _ \<Rightarrow> Some (moc_id c) | [] \<Rightarrow> None)] of
                None \<Rightarrow> None
              | Some d \<Rightarrow>
                  if 1 < length choices
                  then Some \<lparr>mop_id = i, mop_label = label, mop_choices = choices, mop_default_choice = d\<rparr> else None))"

definition trait_from_config_option :: "json \<Rightarrow> model_option option" where
  "trait_from_config_option option =
     (if opt_str_field option ''category'' \<in> {Some ''mode'', Some ''model'', Some ''thought_level''} then None
      else case opt_str_field option ''id'' of
             None \<Rightarrow> None
           | Some i \<Rightarrow>
               (let label = (case opt_str_field option ''name'' of Some n \<Rightarrow> n | None \<Rightarrow> i)
                in if opt_str_field option ''type'' = Some ''select'' then select_trait i label option
                   else if opt_str_field option ''type'' = Some ''boolean'' then
                     Some \<lparr>mop_id = i, mop_label = label,
                           mop_choices = [\<lparr>moc_id = ''off'', moc_label = ''Off''\<rparr>, \<lparr>moc_id = ''on'', moc_label = ''On''\<rparr>],
                           mop_default_choice = (if json_get option ''currentValue'' = Some (JBool True) then ''on'' else ''off'')\<rparr>
                   else None))"

definition config_options :: "json \<Rightarrow> json list" where
  "config_options response = array_or_empty (json_get response ''configOptions'')"

text \<open>The choices of the first option of a category.\<close>

definition category_choices :: "string \<Rightarrow> json \<Rightarrow> json list" where
  "category_choices cat response =
     (case find (\<lambda>p. opt_str_field p ''category'' = Some cat) (config_options response) of
        Some p \<Rightarrow> array_or_empty (json_get p ''options'')
      | None \<Rightarrow> [])"

definition session_ladder :: "json \<Rightarrow> reasoning_level list" where
  "session_ladder response =
     List.map_filter reasoning_from_value
       (List.map_filter (\<lambda>p. opt_str_field p ''value'') (category_choices ''thought_level'' response))"

definition exact_model :: "agent_model list \<Rightarrow> string \<Rightarrow> agent_model option" where
  "exact_model catalog i = find (\<lambda>m. norm_id (am_id m) = norm_id i) catalog"

definition alias_model :: "agent_model list \<Rightarrow> string \<Rightarrow> agent_model option" where
  "alias_model catalog i =
     (let n = norm_id i
      in if n \<noteq> [] \<and> list_all is_ascii_alpha n then find (\<lambda>m. sublist n (norm_id (am_id m))) catalog else None)"

definition build_model ::
    "agent_model list \<Rightarrow> reasoning_level list \<Rightarrow> string \<Rightarrow> string option \<Rightarrow> string option \<Rightarrow> model_option list \<Rightarrow> agent_model" where
  "build_model catalog ladder i name description options =
     (let exact = exact_model catalog i;
          aliased = (if exact = None then alias_model catalog i else None);
          known = first_of [exact, aliased]
      in \<lparr>am_id = i,
          am_label = (case first_of [map_option am_label aliased, name, map_option am_label known] of Some l \<Rightarrow> l | None \<Rightarrow> i),
          am_description = first_of [Option.bind aliased am_description, description, Option.bind known am_description],
          am_reasoning_levels =
            (case known of Some m \<Rightarrow> if am_reasoning_levels m = [] then ladder else am_reasoning_levels m | None \<Rightarrow> ladder),
          am_options = options\<rparr>)"

definition model_row ::
    "agent_model list \<Rightarrow> reasoning_level list \<Rightarrow> model_option list \<Rightarrow> string list \<Rightarrow> json \<Rightarrow> agent_model option" where
  "model_row catalog ladder wire_options raw_ids row =
     (case opt_str_field row ''value'' of
        None \<Rightarrow> None
      | Some i \<Rightarrow>
          if list_ex (\<lambda>r. norm_id r \<noteq> ''default'') raw_ids \<and> norm_id i = ''default'' then None
          else (let name = opt_str_field row ''name''; description = opt_str_field row ''description''
                in case strip_context_hint i of
                     Some base \<Rightarrow>
                       if base \<in> set raw_ids then None
                       else Some (build_model catalog ladder base (nonempty (map_option strip_trailing_parenthetical name)) description
                              (wire_options @ [context_window\<lparr>mop_default_choice := ''1m''\<rparr>]))
                   | None \<Rightarrow>
                       Some (build_model catalog ladder i name description
                         (wire_options @ (if list_ex (\<lambda>r. strip_context_hint r = Some i) raw_ids then [context_window] else [])))))"

definition legacy_row :: "agent_model list \<Rightarrow> reasoning_level list \<Rightarrow> json \<Rightarrow> agent_model option" where
  "legacy_row catalog ladder m =
     map_option (\<lambda>i. build_model catalog ladder i (opt_str_field m ''name'') (opt_str_field m ''description'')
         (case exact_model catalog i of Some k \<Rightarrow> am_options k | None \<Rightarrow> []))
       (opt_str_field m ''modelId'')"

definition models_from_session :: "json \<Rightarrow> agent_model list \<Rightarrow> agent_model list" where
  "models_from_session response catalog =
     (let ladder = session_ladder response;
          wire_options = List.map_filter trait_from_config_option (config_options response);
          model_select = category_choices ''model'' response
      in if model_select \<noteq> [] then
           List.map_filter (model_row catalog ladder wire_options (List.map_filter (\<lambda>p. opt_str_field p ''value'') model_select)) model_select
         else List.map_filter (legacy_row catalog ladder) (array_or_empty (json_pointer [''models'', ''availableModels''] response)))"

section \<open>The options a run sets\<close>

definition unattended_modes :: "string list" where
  "unattended_modes =
     [''bypassPermissions'', ''bypass_permissions'', ''yolo'', ''agent-full-access'', ''danger-full-access'', ''full-access'']"

definition option_choice :: "string \<Rightarrow> string list \<Rightarrow> json \<Rightarrow> json option" where
  "option_choice kind available choice =
     (if kind = ''select'' then
        (case as_str choice of Some c \<Rightarrow> if c \<in> set available then Some (JStr c) else None | None \<Rightarrow> None)
      else if kind = ''boolean'' then
        Some (JBool (choice = JBool True \<or> (case as_str choice of Some c \<Rightarrow> map ascii_lower c = ''on'' | None \<Rightarrow> False)))
      else None)"

definition wants_1m :: "(string, json) btree \<Rightarrow> bool" where
  "wants_1m model_options =
     (case Option.bind (bt_get model_options ''contextWindow'') as_str of Some w \<Rightarrow> map ascii_lower w = ''1m'' | None \<Rightarrow> False)"

definition option_values :: "json \<Rightarrow> string list" where
  "option_values option = List.map_filter (\<lambda>p. opt_str_field p ''value'') (array_or_empty (json_get option ''options''))"

definition wanted_value :: "string option \<Rightarrow> string list \<Rightarrow> (string, json) btree \<Rightarrow> string \<Rightarrow> json \<Rightarrow> json option" where
  "wanted_value model efforts model_options config_id option =
     (let kind = str_field option ''type''; cat = opt_str_field option ''category''; available = option_values option
      in if kind = ''select'' \<and> cat = Some ''model'' then
           map_option JStr (Option.bind model (\<lambda>m. pick_model_value m available (wants_1m model_options)))
         else if kind = ''select'' \<and> cat = Some ''mode'' then
           map_option JStr
             (first_of [(case Option.bind (bt_get model_options ''mode'') as_str of
                           Some c \<Rightarrow> if c \<in> set available then Some c else None | None \<Rightarrow> None),
                        find (\<lambda>v. v \<in> set available) unattended_modes])
         else if kind = ''select'' \<and> cat = Some ''thought_level'' then
           map_option JStr (find (\<lambda>c. c \<in> set available) efforts)
         else first_of (map (\<lambda>(opt_id, choice).
                if norm_id opt_id \<noteq> norm_id config_id \<or> opt_id = ''contextWindow'' then None
                else option_choice kind available choice) model_options))"

definition set_payload :: "json \<Rightarrow> json" where
  "set_payload v =
     (case v of JBool b \<Rightarrow> JObj [(''type'', JStr ''boolean''), (''value'', JBool b)] | other \<Rightarrow> JObj [(''value'', other)])"

definition option_set :: "string option \<Rightarrow> string list \<Rightarrow> (string, json) btree \<Rightarrow> json \<Rightarrow> (string \<times> json) option" where
  "option_set model efforts model_options option =
     (case opt_str_field option ''id'' of
        None \<Rightarrow> None
      | Some config_id \<Rightarrow>
          (case wanted_value model efforts model_options config_id option of
             Some v \<Rightarrow> if json_get option ''currentValue'' = Some v then None else Some (config_id, set_payload v)
           | None \<Rightarrow> None))"

definition config_option_sets :: "json \<Rightarrow> string option \<Rightarrow> string list \<Rightarrow> (string, json) btree \<Rightarrow> (string \<times> json) list" where
  "config_option_sets response model efforts model_options =
     List.map_filter (option_set model efforts model_options) (config_options response)"

definition default_effort_values :: "reasoning_level option \<Rightarrow> string list" where
  "default_effort_values reasoning =
     (case reasoning of
        None \<Rightarrow> []
      | Some l \<Rightarrow>
          (case l of
             Minimal \<Rightarrow> [''minimal'', ''low'']
           | Low \<Rightarrow> [''low'', ''minimal'']
           | Medium \<Rightarrow> [''medium'']
           | High \<Rightarrow> [''high'']
           | XHigh \<Rightarrow> [''xhigh'', ''x-high'', ''high'']
           | MaxLevel \<Rightarrow> [''max'', ''xhigh'', ''high'']
           | _ \<Rightarrow> [''ultra'', ''max'', ''high'']))"

section \<open>The handshake\<close>

definition steering_supported :: "json \<Rightarrow> bool" where
  "steering_supported init = (Option.bind (json_pointer [''_meta'', ''steering'', ''supported''] init) as_bool = Some True)"

fun scan_commands :: "nat \<Rightarrow> json \<Rightarrow> json option" where
  "scan_commands 0 v = None"
| "scan_commands (Suc depth) v =
     (case v of
        JObj fs \<Rightarrow>
          (case bt_get fs ''availableCommands'' of
             Some (JArr cs) \<Rightarrow> Some (JArr cs)
           | _ \<Rightarrow> first_of (map (\<lambda>(_, w). scan_commands depth w) fs))
      | _ \<Rightarrow> None)"

definition scan_available_commands :: "json \<Rightarrow> slash_command list" where
  "scan_available_commands v = parse_commands (scan_commands 4 v)"

section \<open>Requests of the agent\<close>

definition permission_options :: "json \<Rightarrow> json list" where
  "permission_options params = array_or_empty (json_get params ''options'')"

definition preferred_allow_option :: "json list \<Rightarrow> string option" where
  "preferred_allow_option options =
     (let by_kind = (\<lambda>k. find (\<lambda>p. opt_str_field p ''kind'' = Some k) options)
      in nonempty (map_option (\<lambda>p. str_field p ''optionId'')
           (first_of [by_kind ''allow_always'', by_kind ''allow_once'', (case options of p # _ \<Rightarrow> Some p | [] \<Rightarrow> None)])))"

definition selected_outcome :: "string \<Rightarrow> json" where
  "selected_outcome i = JObj [(''outcome'', JObj [(''optionId'', JStr i), (''outcome'', JStr ''selected'')])]"

definition cancelled_outcome :: json where
  "cancelled_outcome = JObj [(''outcome'', JObj [(''outcome'', JStr ''cancelled'')])]"

definition outcome_of :: "string option \<Rightarrow> json" where
  "outcome_of picked = (case picked of Some i \<Rightarrow> selected_outcome i | None \<Rightarrow> cancelled_outcome)"

definition acp_server_request :: "string \<Rightarrow> json \<Rightarrow> (int \<times> string) + json" where
  "acp_server_request meth params =
     (if meth = ''session/request_permission'' then Inr (outcome_of (preferred_allow_option (permission_options params)))
      else Inl (-32601, ''unsupported method: '' @ meth))"

definition permission_kinds :: "string list" where
  "permission_kinds = [''allow_once'', ''allow_always'', ''reject_once'', ''reject_always'']"

definition is_user_question :: "json list \<Rightarrow> bool" where
  "is_user_question options =
     list_ex (\<lambda>p. case opt_str_field p ''kind'' of Some k \<Rightarrow> k \<notin> set permission_kinds | None \<Rightarrow> True) options"

definition agent_question :: "string \<Rightarrow> json \<Rightarrow> user_input_question" where
  "agent_question i params =
     \<lparr>uq_id = i, uq_header = ''Agent question'',
      uq_question = (case Option.bind (json_pointer [''toolCall'', ''title''] params) as_str of
                       Some t \<Rightarrow> t | None \<Rightarrow> ''The agent needs your input.''),
      uq_options = map (\<lambda>p. str_field p ''name'') (permission_options params), uq_multi_select = False\<rparr>"

definition picked_option :: "string \<Rightarrow> json list \<Rightarrow> user_input_answer list \<Rightarrow> string option" where
  "picked_option qid options answers =
     (case find (\<lambda>a. ans_question_id a = qid) answers of
        None \<Rightarrow> None
      | Some a \<Rightarrow>
          (case ans_labels a of
             [] \<Rightarrow> None
           | label # _ \<Rightarrow>
               Option.bind (find (\<lambda>p. opt_str_field p ''name'' = Some label) options) (\<lambda>p. opt_str_field p ''optionId'')))"

text \<open>
  A question waits for the user in a task of its own; \<open>ask\<close> is the bridge to the user, which gives no answers when the
  resolver was dropped.
\<close>

definition acp_server_request_live ::
    "string \<Rightarrow> (user_input_question list \<Rightarrow> user_input_answer list option) \<Rightarrow> string \<Rightarrow> json \<Rightarrow> (int \<times> string) + json" where
  "acp_server_request_live qid ask meth params =
     (if meth \<noteq> ''session/request_permission'' \<or> \<not> is_user_question (permission_options params)
      then acp_server_request meth params
      else (let answers = (case ask [agent_question qid params] of Some as \<Rightarrow> as | None \<Rightarrow> [])
            in Inr (outcome_of (picked_option qid (permission_options params) answers))))"

section \<open>Responses\<close>

definition acp_usage :: "string + json \<Rightarrow> agent_event option" where
  "acp_usage res =
     (case res of
        Inl _ \<Rightarrow> None
      | Inr resp \<Rightarrow>
          (case json_field resp [''usage'', ''_meta''] of
             None \<Rightarrow> None
           | Some usage \<Rightarrow>
               (let input = Option.bind (json_field usage [''inputTokens'', ''input_tokens'']) (as_uint 64);
                    output = Option.bind (json_field usage [''outputTokens'', ''output_tokens'']) (as_uint 64);
                    count = (\<lambda>x. case x of Some n \<Rightarrow> n | None \<Rightarrow> 0)
                in if input \<noteq> None \<or> output \<noteq> None then Some (Usage (count input) (count output) 0) else None)))"

definition stop_outcome :: "string + json \<Rightarrow> bool \<Rightarrow> done_status \<times> string option" where
  "stop_outcome res interrupted =
     (if interrupted then (DoneInterrupted, None)
      else case res of
        Inr resp \<Rightarrow>
          if opt_str_field resp ''stopReason'' = Some ''cancelled'' then (DoneInterrupted, None)
          else if opt_str_field resp ''stopReason'' = Some ''refusal'' then (DoneErrored, Some ''The agent refused to continue.'')
          else (DoneCompleted, None)
      | Inl e \<Rightarrow> (DoneErrored, Some e))"

text \<open>What the settling of a silent turn looks at: something was said, and the tools still open.\<close>

definition track_turn_signals :: "agent_event \<Rightarrow> bool \<times> string list \<Rightarrow> bool \<times> string list" where
  "track_turn_signals ev s =
     (case ev of
        TextDelta text \<Rightarrow> (fst s \<or> text \<noteq> [], snd s)
      | ToolCall i _ \<Rightarrow> (True, List.insert i (snd s))
      | ToolResult i _ _ _ \<Rightarrow> (fst s, removeAll i (snd s))
      | _ \<Rightarrow> s)"

section \<open>What crosses the event stream is bounded\<close>

lemma cap_text_length: "length (cap_text s cap) \<le> cap + 16"
  using back_to_boundary_le [of s cap] by (auto simp: cap_text_def truncated_mark_def ellipsis_def)

lemma cap_text_cut:
  "cap_text s cap = s \<or> (\<exists>n \<le> cap. is_char_boundary s n \<and> cap_text s cap = take n s @ truncated_mark)"
  using back_to_boundary_le [of s cap] back_to_boundary_boundary [of cap s] by (auto simp: cap_text_def)

lemma tool_output_length: "tool_output update = Some t \<Longrightarrow> length t \<le> output_cap + 16"
  by (auto simp: tool_output_def Let_def cap_text_length split: option.splits if_splits)

lemma tool_diff_lengths:
  assumes "tool_diff_of update = Some d"
  shows "length (td_new_text d) \<le> diff_text_cap + 16" "td_old_text d = Some t \<Longrightarrow> length t \<le> diff_text_cap + 16"
  using assms by (auto simp: tool_diff_of_def cap_text_length split: option.splits if_splits)

lemma opt_events_mem [simp]: "ev \<in> set (opt_events f x) \<longleftrightarrow> (\<exists>v. x = Some v \<and> ev = f v)"
  by (auto simp: opt_events_def split: option.splits)

lemma map_update_result:
  assumes "ToolResult i e out d \<in> set (map_update update)"
  shows "out = None \<and> d = None \<or> out = tool_output update \<and> d = tool_diff_of update"
  using assms
  by (auto simp: map_update_def Let_def resolved_result_def split: if_splits option.splits)

text \<open>
  However large an agent's answer is, a tool result that enters the event stream is bounded: at most 16 KiB of output
  and 64 KiB for each side of a diff, with sixteen bytes for the mark of a cut.
\<close>
theorem acp_results_bounded:
  assumes "ToolResult i e out d \<in> set (map_update update)"
  shows "(\<forall>t. out = Some t \<longrightarrow> length t \<le> output_cap + 16) \<and>
     (\<forall>x. d = Some x \<longrightarrow> length (td_new_text x) \<le> diff_text_cap + 16 \<and>
        (\<forall>t. td_old_text x = Some t \<longrightarrow> length t \<le> diff_text_cap + 16))"
  using map_update_result [OF assms] tool_output_length [of update] tool_diff_lengths [of update] by (auto dest: sym)

section \<open>The values a run sets are advertised\<close>

lemma first_of_Some: "first_of xs = Some v \<Longrightarrow> Some v \<in> set xs"
  by (induction xs rule: first_of.induct) (auto split: option.splits)

lemma find_mem: "find P xs = Some x \<Longrightarrow> x \<in> set xs \<and> P x"
  by (auto simp: find_Some_iff)

lemma map_filter_mem: "y \<in> set (List.map_filter f xs) \<longleftrightarrow> (\<exists>x \<in> set xs. f x = Some y)"
  by (auto simp: List.map_filter_def) force

lemma family_pick_mem: "family_pick requested available b = Some v \<Longrightarrow> v \<in> set available"
proof -
  have sub: "filter P available = c # cs \<Longrightarrow> c \<in> set available" for P c cs
    using filter_is_subset [of P available] by simp
  assume "family_pick requested available b = Some v"
  then show ?thesis
    by (auto simp: family_pick_def Let_def split: option.splits list.splits dest!: find_mem sub)
qed

lemma pick_model_value_mem: "pick_model_value requested available b = Some v \<Longrightarrow> v \<in> set available"
  by (auto simp: pick_model_value_def family_pick_mem split: if_splits option.splits dest!: find_mem)

lemma wanted_advertised:
  assumes "wanted_value model efforts mo cid p = Some v"
  shows "(\<exists>s. v = JStr s \<and> s \<in> set (option_values p)) \<or> (\<exists>b. v = JBool b)"
proof -
  have choice: ?thesis if "option_choice kind (option_values p) c = Some v" for kind c
    using that by (auto simp: option_choice_def split: if_splits option.splits)
  have any: ?thesis if "first_of (map (\<lambda>(a, c). if P a then None else option_choice kind (option_values p) c) mo) = Some v" for P kind
  proof -
    from first_of_Some [OF that] obtain a c where "Some v = (if P a then None else option_choice kind (option_values p) c)" by auto
    then show ?thesis using choice [of kind c] by (simp split: if_splits)
  qed
  show ?thesis
    using assms pick_model_value_mem
    by (auto simp: wanted_value_def Let_def bind_eq_Some_conv split: if_splits option.splits
        dest!: find_mem dest: any [where P = "\<lambda>a. norm_id a = norm_id cid \<longrightarrow> a = ''contextWindow''"])
qed

text \<open>What an agent that accepts every set shows of its options afterwards.\<close>

definition with_current :: "json \<Rightarrow> json \<Rightarrow> json" where
  "with_current v p = (case p of JObj fs \<Rightarrow> JObj (bt_insert ''currentValue'' v fs) | other \<Rightarrow> other)"

definition accept_option :: "string option \<Rightarrow> string list \<Rightarrow> (string, json) btree \<Rightarrow> json \<Rightarrow> json" where
  "accept_option model efforts mo p =
     (case Option.bind (opt_str_field p ''id'') (\<lambda>cid. wanted_value model efforts mo cid p) of
        Some v \<Rightarrow> with_current v p | None \<Rightarrow> p)"

definition accept_sets :: "string option \<Rightarrow> string list \<Rightarrow> (string, json) btree \<Rightarrow> json \<Rightarrow> json" where
  "accept_sets model efforts mo response =
     JObj [(''configOptions'', JArr (map (accept_option model efforts mo) (config_options response)))]"

lemma with_current_get: "key \<noteq> ''currentValue'' \<Longrightarrow> json_get (with_current v p) key = json_get p key"
  by (auto simp: with_current_def json_get_def split: json.splits)

lemma with_current_parts [simp]:
  "opt_str_field (with_current v p) ''id'' = opt_str_field p ''id''"
  "opt_str_field (with_current v p) ''category'' = opt_str_field p ''category''"
  "str_field (with_current v p) ''type'' = str_field p ''type''" "option_values (with_current v p) = option_values p"
  by (simp_all add: opt_str_field_def str_field_def option_values_def with_current_get)

lemma with_current_wanted [simp]: "wanted_value model efforts mo cid (with_current v p) = wanted_value model efforts mo cid p"
  by (simp add: wanted_value_def)

lemma with_current_now: "opt_str_field p ''id'' \<noteq> None \<Longrightarrow> json_get (with_current v p) ''currentValue'' = Some v"
  by (auto simp: with_current_def json_get_def opt_str_field_def split: json.splits)

lemma accepted_option_settled: "option_set model efforts mo (accept_option model efforts mo p) = None"
  using with_current_now [of p] by (auto simp: option_set_def accept_option_def bind_eq_Some_conv split: option.splits bind_split)

text \<open>
  C32. A run only asks an agent for values it advertised, never for one that is current already, and when the agent takes
  them there is nothing left to set.
\<close>
theorem acp_sets_advertised:
  "(\<forall>(cid, payload) \<in> set (config_option_sets response model efforts mo).
      \<exists>p \<in> set (config_options response). \<exists>v.
        opt_str_field p ''id'' = Some cid \<and> payload = set_payload v \<and> json_get p ''currentValue'' \<noteq> Some v \<and>
        ((\<exists>s. v = JStr s \<and> s \<in> set (option_values p)) \<or> (\<exists>b. v = JBool b)))
   \<and> config_option_sets (accept_sets model efforts mo response) model efforts mo = []"
proof
  show "\<forall>(cid, payload) \<in> set (config_option_sets response model efforts mo).
      \<exists>p \<in> set (config_options response). \<exists>v.
        opt_str_field p ''id'' = Some cid \<and> payload = set_payload v \<and> json_get p ''currentValue'' \<noteq> Some v \<and>
        ((\<exists>s. v = JStr s \<and> s \<in> set (option_values p)) \<or> (\<exists>b. v = JBool b))"
    using wanted_advertised
    by (fastforce simp: config_option_sets_def map_filter_mem option_set_def split: option.splits if_splits)
  show "config_option_sets (accept_sets model efforts mo response) model efforts mo = []"
    by (simp add: config_option_sets_def accept_sets_def config_options_def json_get_def array_or_empty_def bt_get_Cons
        List.map_filter_def accepted_option_settled filter_empty_conv)
qed

section \<open>Questions\<close>

text \<open>
  A question of an agent is never answered on the user's behalf: an option is selected only when the user's answer to
  this very question names it, and a dropped or foreign answer cancels.
\<close>
theorem acp_question_needs_answer:
  assumes "is_user_question (permission_options params)"
    and "acp_server_request_live qid ask ''session/request_permission'' params \<noteq> Inr cancelled_outcome"
  shows "\<exists>as a label p i. ask [agent_question qid params] = Some as \<and> a \<in> set as \<and> ans_question_id a = qid \<and>
       label \<in> set (ans_labels a) \<and> p \<in> set (permission_options params) \<and> opt_str_field p ''name'' = Some label \<and>
       opt_str_field p ''optionId'' = Some i \<and>
       acp_server_request_live qid ask ''session/request_permission'' params = Inr (selected_outcome i)"
  using assms
  by (fastforce simp: acp_server_request_live_def outcome_of_def picked_option_def bind_eq_Some_conv Let_def
      split: option.splits list.splits dest!: find_mem)

section \<open>Models on offer\<close>

definition advertised_models :: "json \<Rightarrow> string list" where
  "advertised_models response = List.map_filter (\<lambda>p. opt_str_field p ''value'') (category_choices ''model'' response)"

text \<open>
  What a click on a choice of an option does to the options the composer sends: the default of the option is not sent.
\<close>

definition pick_option :: "model_option \<Rightarrow> string \<Rightarrow> (string, json) btree \<Rightarrow> (string, json) btree" where
  "pick_option w c opts =
     (if c = mop_default_choice w then bt_remove (mop_id w) opts else bt_insert (mop_id w) (JStr c) opts)"

abbreviation window_1m :: model_option where
  "window_1m \<equiv> context_window\<lparr>mop_default_choice := ''1m''\<rparr>"

lemma wants_1m_picked [simp]:
  "\<not> wants_1m (pick_option context_window ''200k'' opts)" "wants_1m (pick_option context_window ''1m'' opts)"
  "\<not> wants_1m (pick_option window_1m ''200k'' opts)" "\<not> wants_1m (pick_option window_1m ''1m'' opts)"
  by (simp_all add: wants_1m_def pick_option_def context_window_def ascii_lower_def)

lemma strip_context_hint_Some: "strip_context_hint i = Some b \<Longrightarrow> i = b @ ''[1m]'' \<or> i = b @ ''-1m''"
  by (auto simp: strip_context_hint_def strip_suffix_Some split: option.splits)

lemma build_model_id [simp]: "am_id (build_model catalog ladder i n d opts) = i" "am_options (build_model catalog ladder i n d opts) = opts"
  by (simp_all add: build_model_def Let_def)

lemma strip_context_hint_composed [simp]: "strip_context_hint (b @ ''[1m]'') = Some b" "strip_context_hint (b @ ''-1m'') = Some b"
  by (auto simp: strip_context_hint_def strip_suffix_def suffix_def)

lemma composed_pick:
  assumes "r \<in> set ids" "strip_context_hint r = Some b"
  shows "\<exists>v \<in> set ids. pick_model_value b ids True = Some v \<and> strip_context_hint v = Some b"
  using assms strip_context_hint_Some [OF assms(2)] by (auto simp: pick_model_value_def)

text \<open>The two shapes of a row: a model the agent advertised under its own id, and a long variant that stands for its base.\<close>

lemma offered_rows:
  assumes "m \<in> set (models_from_session response catalog)" "category_choices ''model'' response \<noteq> []"
  obtains (own) "am_id m \<in> set (advertised_models response)"
      "(\<exists>r \<in> set (advertised_models response). strip_context_hint r = Some (am_id m)) \<Longrightarrow> context_window \<in> set (am_options m)"
  | (orphan) "am_id m \<notin> set (advertised_models response)" "window_1m \<in> set (am_options m)"
      "\<exists>r \<in> set (advertised_models response). strip_context_hint r = Some (am_id m)"
proof -
  let ?ids = "advertised_models response"
  from assms obtain row where row: "row \<in> set (category_choices ''model'' response)"
    and m: "model_row catalog (session_ladder response) (List.map_filter trait_from_config_option (config_options response)) ?ids row = Some m"
    by (auto simp: models_from_session_def Let_def map_filter_mem advertised_models_def)
  then obtain i where i: "opt_str_field row ''value'' = Some i" by (auto simp: model_row_def split: option.splits)
  then have mem: "i \<in> set ?ids" using row by (auto simp: advertised_models_def map_filter_mem)
  show thesis
  proof (cases "strip_context_hint i")
    case None
    with m i mem show thesis by (intro own) (auto simp: model_row_def Let_def list_ex_iff split: if_splits)
  next
    case (Some b)
    with m i mem show thesis by (intro orphan) (auto simp: model_row_def Let_def split: if_splits)
  qed
qed

text \<open>
  C40. What the picker offers is what runs. A model the agent advertised under its own id resolves to that id with the
  standard window, and, where a long-context variant is advertised too, its row offers the window and the pick of 1M resolves to
  the variant, whatever options were picked before. A row that stands for a variant without its base shows 1M as its
  default, so a click on either choice leaves the request without the long window: such a model is found by its family alone, or not.
\<close>
theorem acp_offered_model_resolves:
  assumes "m \<in> set (models_from_session response catalog)" "category_choices ''model'' response \<noteq> []"
    and "ids = advertised_models response"
  shows "if am_id m \<in> set ids
     then pick_model_value (am_id m) ids (wants_1m (pick_option context_window ''200k'' opts)) = Some (am_id m) \<and>
       ((\<exists>r \<in> set ids. strip_context_hint r = Some (am_id m)) \<longrightarrow> context_window \<in> set (am_options m) \<and>
          (\<exists>v \<in> set ids. strip_context_hint v = Some (am_id m) \<and>
             pick_model_value (am_id m) ids (wants_1m (pick_option context_window ''1m'' opts)) = Some v))
     else window_1m \<in> set (am_options m) \<and> (\<exists>r \<in> set ids. strip_context_hint r = Some (am_id m)) \<and>
       (\<forall>c \<in> {''200k'', ''1m''}. pick_model_value (am_id m) ids (wants_1m (pick_option window_1m c opts)) = family_pick (am_id m) ids False)"
  using assms(1,2)
proof (cases rule: offered_rows)
  case own
  then show ?thesis using composed_pick [of _ ids "am_id m"] assms(3) by (fastforce simp: pick_model_value_def)
next
  case orphan
  then show ?thesis using assms(3) by (simp add: pick_model_value_def)
qed

text \<open>
  The picker does not send an option that stands at its default. A model offered only with the long window is then looked
  up without it, and when its id names none of the known families nothing is set: the agent runs its own default model.
\<close>
theorem orphan_variant_not_picked:
  assumes "b \<notin> set ids" "find (\<lambda>f. sublist f (norm_id b)) model_families = None"
  shows "pick_model_value b ids False = None"
  using assms by (simp add: pick_model_value_def family_pick_def)

text \<open>
  A later update of a running command that carries only a title makes the call an unknown tool.
\<close>
theorem title_update_retypes_exec:
  assumes "map_update update = [ToolCall i call]" "str_field update ''sessionUpdate'' = ''tool_call_update''"
    and "json_get update ''kind'' = None" "json_get update ''rawInput'' = None" "json_get update ''_meta'' = None"
    and "json_get update ''rawOutput'' = None" "tool_diff_of update = None" "str_field update ''title'' \<noteq> []"
  shows "call = UnknownTool (str_field update ''title'') None"
  using assms
  by (auto simp: map_update_def typed_call_def update_kind_def other_call_def opt_str_field_def xai_tool_name_def raw_input_def
      raw_str_def nonempty_def opt_events_def resolved_result_def Let_def split: if_splits option.splits)

section \<open>Witnesses\<close>

definition done_update :: json where
  "done_update = JObj [(''sessionUpdate'', JStr ''tool_call_update''), (''status'', JStr ''completed''), (''toolCallId'', JStr ''t'')]"

theorem acp_results_bounded_witness:
  "ToolResult ''t'' False None None \<in> set (map_update done_update) \<and> (\<forall>t. None = Some t \<longrightarrow> length t \<le> output_cap + 16)"
proof -
  have "ToolResult ''t'' False None None \<in> set (map_update done_update)"
    by (simp add: done_update_def map_update_def new_shape_def has_field_def tool_diff_of_def tool_output_def content_items_def resolved_result_def
        str_field_def opt_str_field_def json_get_def bt_get_Cons)
  then show ?thesis using acp_results_bounded by blast
qed

definition model_choice :: "string \<Rightarrow> json" where
  "model_choice v = JObj [(''value'', JStr v)]"

definition model_response :: "string list \<Rightarrow> json" where
  "model_response vs = JObj [(''configOptions'', JArr [JObj [(''category'', JStr ''model''), (''id'', JStr ''model''),
     (''options'', JArr (map model_choice vs)), (''type'', JStr ''select'')]])]"

theorem acp_sets_advertised_witness:
  "config_option_sets (model_response [''a'', ''b'']) (Some ''b'') [] [] = [(''model'', JObj [(''value'', JStr ''b'')])]
   \<and> config_option_sets (accept_sets (Some ''b'') [] [] (model_response [''a'', ''b''])) (Some ''b'') [] [] = []"
proof
  show "config_option_sets (model_response [''a'', ''b'']) (Some ''b'') [] [] = [(''model'', JObj [(''value'', JStr ''b'')])]"
    by (simp add: config_option_sets_def model_response_def model_choice_def config_options_def option_set_def wanted_value_def pick_model_value_def
        option_values_def array_or_empty_def str_field_def opt_str_field_def json_get_def bt_get_Cons List.map_filter_def set_payload_def
        wants_1m_def Let_def)
  show "config_option_sets (accept_sets (Some ''b'') [] [] (model_response [''a'', ''b''])) (Some ''b'') [] [] = []"
    using acp_sets_advertised [of "model_response [''a'', ''b'']" "Some ''b''" "[]" "[]"] by blast
qed

definition colour_question :: json where
  "colour_question = JObj [(''options'', JArr [JObj [(''name'', JStr ''Red''), (''optionId'', JStr ''r'')],
     JObj [(''name'', JStr ''Blue''), (''optionId'', JStr ''b'')]])]"

theorem acp_question_needs_answer_witness:
  "\<exists>i. acp_server_request_live ''q'' (\<lambda>_. Some [\<lparr>ans_question_id = ''q'', ans_labels = [''Blue'']\<rparr>]) ''session/request_permission'' colour_question
     = Inr (selected_outcome i)"
proof -
  let ?ask = "\<lambda>_. Some [\<lparr>ans_question_id = ''q'', ans_labels = [''Blue'']\<rparr>]"
  have "is_user_question (permission_options colour_question)"
    by (simp add: colour_question_def is_user_question_def permission_options_def array_or_empty_def opt_str_field_def json_get_def bt_get_Cons)
  moreover have "acp_server_request_live ''q'' ?ask ''session/request_permission'' colour_question \<noteq> Inr cancelled_outcome"
    by (simp add: colour_question_def acp_server_request_live_def is_user_question_def permission_options_def array_or_empty_def opt_str_field_def
        json_get_def bt_get_Cons picked_option_def outcome_of_def selected_outcome_def cancelled_outcome_def)
  ultimately show ?thesis using acp_question_needs_answer by blast
qed

lemma model_response_parts:
  "category_choices ''model'' (model_response vs) = map model_choice vs" "advertised_models (model_response vs) = vs"
  "List.map_filter trait_from_config_option (config_options (model_response vs)) = []"
  by (simp_all add: advertised_models_def category_choices_def model_response_def model_choice_def config_options_def array_or_empty_def
      trait_from_config_option_def opt_str_field_def json_get_def bt_get_Cons List.map_filter_def comp_def)

theorem acp_offered_model_resolves_witness:
  "\<exists>m \<in> set (models_from_session (model_response [''titan'', ''titan[1m]'']) []). am_id m = ''titan'' \<and>
     pick_model_value ''titan'' [''titan'', ''titan[1m]''] (wants_1m (pick_option context_window ''200k'' [])) = Some ''titan'' \<and>
     (\<exists>v. strip_context_hint v = Some ''titan'' \<and>
        pick_model_value ''titan'' [''titan'', ''titan[1m]''] (wants_1m (pick_option context_window ''1m'' [])) = Some v)"
proof -
  let ?r = "model_response [''titan'', ''titan[1m]'']"
  have "\<exists>m. set (models_from_session ?r []) = {m} \<and> am_id m = ''titan''"
    unfolding models_from_session_def model_response_parts
    by (simp add: Let_def model_row_def model_choice_def opt_str_field_def json_get_def bt_get_Cons List.map_filter_def norm_id_def is_ascii_alnum_def
        ascii_lower_def strip_context_hint_def strip_suffix_def suffix_def)
  then obtain m where m: "m \<in> set (models_from_session ?r [])" "am_id m = ''titan''" by auto
  moreover have "strip_context_hint ''titan[1m]'' = Some ''titan''" using strip_context_hint_composed(1) [of "''titan''"] by simp
  ultimately show ?thesis using acp_offered_model_resolves [OF m(1) _ refl, of "[]"] by (auto simp: model_response_parts)
qed

theorem orphan_variant_not_picked_witness: "pick_model_value ''titan'' [''titan[1m]'', ''nano''] False = None"
  by (rule orphan_variant_not_picked)
    (simp_all add: model_families_def norm_id_def is_ascii_alnum_def ascii_lower_def sublist_code)

definition titled_update :: json where
  "titled_update = JObj [(''sessionUpdate'', JStr ''tool_call_update''), (''title'', JStr ''ls''), (''toolCallId'', JStr ''t'')]"

theorem title_update_retypes_exec_witness: "map_update titled_update = [ToolCall ''t'' (UnknownTool ''ls'' None)]"
proof -
  obtain call where call: "map_update titled_update = [ToolCall ''t'' call]"
    by (simp add: titled_update_def map_update_def new_shape_def has_field_def resolved_result_def str_field_def opt_str_field_def json_get_def
        bt_get_Cons opt_events_def Let_def)
  have "call = UnknownTool (str_field titled_update ''title'') None"
    by (rule title_update_retypes_exec [OF call])
      (simp_all add: titled_update_def str_field_def tool_diff_of_def content_items_def json_get_def bt_get_Cons)
  then show ?thesis using call by (simp add: titled_update_def str_field_def json_get_def bt_get_Cons)
qed

end
