(* ===== verification/Acp_Run.thy ===== *)
theory Acp_Run
  imports Acp_Normalize Json_Rpc
begin

text \<open>
  The session of an agent that speaks ACP (\<open>run_session\<close> in \<open>crates/harness/src/acp/mod.rs\<close>): the handshake, and the
  loop that multiplexes the agent's messages, the response to the prompt in flight, a steering call, the mailbox, the
  interrupt and five deadlines. An input is a branch of the loop that fires; it does nothing while the branch is
  disabled, so a list of inputs is any interleaving the runtime may choose. Times are milliseconds. The consumer of the
  events goes away between two branches. Subagent transcripts come from tasks of their own.
\<close>

section \<open>State\<close>

text \<open>A prompt in flight waits for its response, or holds the response that a completion notice stands for.\<close>

datatype acp_turn = Asked | Answered json

datatype acp_sent =
    SentPrompt string "string option"
  | SentSteering string
  | SentCancel
  | SentReply json "(int \<times> string) + json"

record acp_config =
  ac_session :: string
  ac_steer_ext :: bool
  ac_prompt_complete :: bool
  ac_prompt_stall :: "nat option"
  ac_quiet_settle :: "nat option"
  ac_transform :: "string \<Rightarrow> string"
  ac_agent_name :: string
  ac_stall_hint :: string

record acp_run =
  ar_turn :: "acp_turn option"
  ar_prompt_seq :: nat
  ar_prompt_id :: "string option"
  ar_completed :: "string list"
  ar_stall_deadline :: "nat option"
  ar_queue :: "string list"
  ar_call :: "string option"
  ar_backlog :: "string list"
  ar_open :: bool
  ar_interrupted :: bool
  ar_done :: bool
  ar_done_after :: bool
  ar_starve_deadline :: "nat option"
  ar_last_update :: nat
  ar_content_seen :: bool
  ar_tools :: "string list"
  ar_asked :: "(string \<times> json \<times> json) list"
  ar_flush_deadline :: "nat option"
  ar_message_id :: string
  ar_drawn :: nat
  ar_running :: bool
  ar_consumer :: bool
  ar_injected :: "string list"
  ar_sent :: "acp_sent list"
  ar_out :: "agent_event list"

text \<open>
  The prompt's response comes with the answer to a steering call that arrived within a second of it and with the
  messages queued by then; the end of the agent's output with the response it resolved before it, if it did.
\<close>

datatype acp_input =
    PromptResponse "string + json" "(string + json) option" "rpc_incoming list"
  | AgentMessage rpc_incoming
  | AgentClosed "json option"
  | SteeringResponse "string + json" "rpc_incoming list"
  | FlushDue
  | QuietDue
  | StarveDue
  | StallDue
  | MailMessage string
  | MailClosed
  | RunInterrupted
  | UserAnswered string "user_input_answer list option"
  | TranscriptEvent string agent_event
  | ReceiverDropped

section \<open>Small steps\<close>

definition put_out :: "agent_event list \<Rightarrow> acp_run \<Rightarrow> acp_run" where
  "put_out evs s = s\<lparr>ar_out := ar_out s @ evs\<rparr>"

definition put_sent :: "acp_sent \<Rightarrow> acp_run \<Rightarrow> acp_run" where
  "put_sent c s = s\<lparr>ar_sent := ar_sent s @ [c]\<rparr>"

definition break_main :: "acp_run \<Rightarrow> acp_run" where
  "break_main s = s\<lparr>ar_running := False\<rparr>"

definition acp_rotate :: "(nat \<Rightarrow> string) \<Rightarrow> acp_run \<Rightarrow> acp_run" where
  "acp_rotate uuid s = s\<lparr>ar_message_id := uuid (ar_drawn s), ar_drawn := ar_drawn s + 1\<rparr>"

definition put_steered :: "(nat \<Rightarrow> string) \<Rightarrow> acp_run \<Rightarrow> acp_run" where
  "put_steered uuid s = put_out [Steered (Some (ar_message_id s)) (Some (uuid (ar_drawn s)))] (acp_rotate uuid s)"

definition put_completed :: "(nat \<Rightarrow> string) \<Rightarrow> acp_run \<Rightarrow> acp_run" where
  "put_completed uuid s = put_out [AssistantMessageCompleted (ar_message_id s)] (acp_rotate uuid s)"

definition prompt_id :: "acp_config \<Rightarrow> nat \<Rightarrow> string option" where
  "prompt_id cfg n = (if ac_prompt_complete cfg then Some (''postillion-p'' @ show_nat n) else None)"

text \<open>\<open>prompt_turn\<close> and the bookkeeping before it, as at the start of the run.\<close>

definition send_prompt :: "acp_config \<Rightarrow> nat \<Rightarrow> string \<Rightarrow> acp_run \<Rightarrow> acp_run" where
  "send_prompt cfg now prompt s =
     (let n = ar_prompt_seq s + 1
      in put_sent (SentPrompt prompt (prompt_id cfg n))
           (s\<lparr>ar_prompt_seq := n, ar_prompt_id := prompt_id cfg n,
              ar_stall_deadline := map_option (\<lambda>d. now + d) (ac_prompt_stall cfg), ar_turn := Some Asked\<rparr>))"

text \<open>A steer that becomes a turn of its own.\<close>

definition next_turn :: "acp_config \<Rightarrow> (nat \<Rightarrow> string) \<Rightarrow> nat \<Rightarrow> string \<Rightarrow> acp_run \<Rightarrow> acp_run" where
  "next_turn cfg uuid now prompt s =
     send_prompt cfg now prompt
       ((put_steered uuid s)\<lparr>ar_done := False, ar_content_seen := False, ar_tools := [], ar_last_update := now\<rparr>)"

definition put_done :: "acp_config \<Rightarrow> done_status \<Rightarrow> string option \<Rightarrow> acp_run \<Rightarrow> acp_run" where
  "put_done cfg status err s = put_out [Done status None err (Some (ac_session cfg))] (s\<lparr>ar_done := True\<rparr>)"

definition remember_prompt :: "acp_run \<Rightarrow> acp_run" where
  "remember_prompt s =
     (case ar_prompt_id s of
        None \<Rightarrow> s
      | Some i \<Rightarrow>
          (let c = ar_completed s @ [i] in s\<lparr>ar_prompt_id := None, ar_completed := drop (length c - 32) c\<rparr>))"

section \<open>Messages of the agent\<close>

definition session_update_events :: "acp_config \<Rightarrow> string \<Rightarrow> json \<Rightarrow> agent_event list" where
  "session_update_events cfg meth params =
     (if opt_str_field params ''sessionId'' \<noteq> Some (ac_session cfg) then []
      else if meth = ''session/update'' then map_update (case json_get params ''update'' of Some u \<Rightarrow> u | None \<Rightarrow> JNull)
      else [])"

definition on_agent_request :: "(nat \<Rightarrow> string) \<Rightarrow> json \<Rightarrow> string \<Rightarrow> json \<Rightarrow> acp_run \<Rightarrow> acp_run" where
  "on_agent_request uuid rid meth params s =
     (if meth = ''session/request_permission'' \<and> is_user_question (permission_options params)
      then s\<lparr>ar_asked := ar_asked s @ [(uuid (ar_drawn s), rid, params)], ar_drawn := ar_drawn s + 1\<rparr>
      else put_sent (SentReply rid (acp_server_request meth params)) s)"

text \<open>
  The messages drained when a response overtook them: they are shown, but the signals of the turn do not see them.
\<close>

fun drain_one :: "acp_config \<Rightarrow> (nat \<Rightarrow> string) \<Rightarrow> rpc_incoming \<Rightarrow> acp_run \<Rightarrow> acp_run" where
  "drain_one cfg uuid (InNotification meth params) s = put_out (session_update_events cfg meth params) s"
| "drain_one cfg uuid (InRequest rid meth params) s = on_agent_request uuid rid meth params s"
| "drain_one cfg uuid InEof s = s"

definition drain_all :: "acp_config \<Rightarrow> (nat \<Rightarrow> string) \<Rightarrow> rpc_incoming list \<Rightarrow> acp_run \<Rightarrow> acp_run" where
  "drain_all cfg uuid incs s = fold (drain_one cfg uuid) incs s"

definition boilerplate :: "string \<Rightarrow> json \<Rightarrow> bool" where
  "boilerplate meth params =
     (meth = ''session/update'' \<and>
      Option.bind (json_pointer [''update'', ''sessionUpdate''] params) as_str \<in>
        {Some ''available_commands_update'', Some ''config_option_update'', Some ''current_mode_update''})"

definition stale_completion :: "string option \<Rightarrow> acp_run \<Rightarrow> bool" where
  "stale_completion pid s =
     (case pid of Some p \<Rightarrow> p \<in> set (ar_completed s) \<or> ar_prompt_id s \<noteq> Some p | None \<Rightarrow> False)"

definition note_completion :: "acp_config \<Rightarrow> string \<Rightarrow> json \<Rightarrow> acp_run \<Rightarrow> acp_run" where
  "note_completion cfg meth params s =
     (if ac_prompt_complete cfg \<and> meth = ''_x.ai/session/prompt_complete'' \<and> \<not> ar_interrupted s \<and> ar_turn s \<noteq> None \<and>
         opt_str_field params ''sessionId'' = Some (ac_session cfg) \<and>
         \<not> stale_completion (opt_str_field params ''promptId'') s
      then s\<lparr>ar_turn := Some (Answered (JObj [(''stopReason'',
              JStr (case opt_str_field params ''stopReason'' of Some r \<Rightarrow> r | None \<Rightarrow> ''end_turn''))]))\<rparr>
      else s)"

definition put_tracked :: "agent_event list \<Rightarrow> acp_run \<Rightarrow> acp_run" where
  "put_tracked evs s =
     (case fold track_turn_signals evs (ar_content_seen s, ar_tools s) of
        (seen, tools) \<Rightarrow> put_out evs (s\<lparr>ar_content_seen := seen, ar_tools := tools\<rparr>))"

definition on_agent_notification :: "acp_config \<Rightarrow> nat \<Rightarrow> string \<Rightarrow> json \<Rightarrow> acp_run \<Rightarrow> acp_run" where
  "on_agent_notification cfg now meth params s =
     (let s = s\<lparr>ar_last_update := now\<rparr>;
          s = (if boilerplate meth params then s else s\<lparr>ar_stall_deadline := None\<rparr>)
      in put_tracked (session_update_events cfg meth params) (note_completion cfg meth params s))"

text \<open>The agent's output ended: a response resolved before it still finishes the turn.\<close>

definition put_turn_end :: "acp_config \<Rightarrow> (nat \<Rightarrow> string) \<Rightarrow> string + json \<Rightarrow> acp_run \<Rightarrow> acp_run" where
  "put_turn_end cfg uuid res s =
     (let s = put_out (opt_events id (acp_usage res)) (put_completed uuid s);
          (status, err) = stop_outcome res (ar_interrupted s)
      in put_done cfg status err (s\<lparr>ar_done_after := ar_done_after s \<or> ar_interrupted s\<rparr>))"

definition on_agent_closed :: "acp_config \<Rightarrow> (nat \<Rightarrow> string) \<Rightarrow> json option \<Rightarrow> acp_run \<Rightarrow> acp_run" where
  "on_agent_closed cfg uuid resolved s =
     (let resp = (case ar_turn s of None \<Rightarrow> None | Some Asked \<Rightarrow> resolved | Some (Answered r) \<Rightarrow> Some r);
          s = s\<lparr>ar_turn := None\<rparr>
      in break_main (case resp of Some r \<Rightarrow> put_turn_end cfg uuid (Inr r) s | None \<Rightarrow> s))"

section \<open>The branches of the loop\<close>

definition steering_outcome :: "string + json \<Rightarrow> string" where
  "steering_outcome res =
     (case res of Inr resp \<Rightarrow> (case opt_str_field resp ''outcome'' of Some out \<Rightarrow> out | None \<Rightarrow> ''injected'') | Inl _ \<Rightarrow> ''promptRequired'')"

text \<open>
  A steering call in flight when the turn ends: what was injected is a boundary of this turn, anything else waits for
  the next one.
\<close>

definition settle_call :: "(nat \<Rightarrow> string) \<Rightarrow> (string + json) option \<Rightarrow> acp_run \<Rightarrow> acp_run" where
  "settle_call uuid reply s =
     (case ar_call s of
        None \<Rightarrow> s
      | Some prompt \<Rightarrow>
          (let outcome = (case reply of Some r \<Rightarrow> steering_outcome r | None \<Rightarrow> ''promptRequired'');
               s = s\<lparr>ar_call := None\<rparr>;
               s = (if ar_interrupted s then s
                    else if outcome \<noteq> ''promptRequired'' then put_steered uuid (s\<lparr>ar_injected := ar_injected s @ [prompt]\<rparr>)
                    else s\<lparr>ar_queue := ar_queue s @ [prompt]\<rparr>)
           in s\<lparr>ar_queue := ar_queue s @ ar_backlog s, ar_backlog := []\<rparr>))"

definition after_turn :: "acp_config \<Rightarrow> (nat \<Rightarrow> string) \<Rightarrow> nat \<Rightarrow> acp_run \<Rightarrow> acp_run" where
  "after_turn cfg uuid now s =
     (case ar_queue s of
        prompt # rest \<Rightarrow> next_turn cfg uuid now prompt (s\<lparr>ar_queue := rest\<rparr>)
      | [] \<Rightarrow> if ar_open s then s else break_main s)"

definition on_prompt_response ::
    "acp_config \<Rightarrow> (nat \<Rightarrow> string) \<Rightarrow> nat \<Rightarrow> string + json \<Rightarrow> (string + json) option \<Rightarrow> rpc_incoming list \<Rightarrow> acp_run \<Rightarrow> acp_run" where
  "on_prompt_response cfg uuid now res reply incs s =
     (let s = remember_prompt (s\<lparr>ar_turn := None, ar_starve_deadline := None, ar_stall_deadline := None\<rparr>);
          s = put_turn_end cfg uuid res (drain_all cfg uuid incs (settle_call uuid reply s))
      in if ar_interrupted s \<or> (case res of Inl _ \<Rightarrow> True | Inr _ \<Rightarrow> False) then break_main s
         else after_turn cfg uuid now s)"

text \<open>The next follower of a steering call: injected while a turn goes on, queued otherwise.\<close>

definition next_follower :: "acp_run \<Rightarrow> acp_run" where
  "next_follower s =
     (case ar_backlog s of
        [] \<Rightarrow> s
      | prompt # rest \<Rightarrow>
          if ar_turn s \<noteq> None \<and> \<not> ar_interrupted s
          then put_sent (SentSteering prompt) (s\<lparr>ar_backlog := rest, ar_call := Some prompt\<rparr>)
          else s\<lparr>ar_queue := ar_queue s @ ar_backlog s, ar_backlog := []\<rparr>)"

definition on_steering_response ::
    "acp_config \<Rightarrow> (nat \<Rightarrow> string) \<Rightarrow> nat \<Rightarrow> string + json \<Rightarrow> rpc_incoming list \<Rightarrow> string \<Rightarrow> acp_run \<Rightarrow> acp_run" where
  "on_steering_response cfg uuid now res incs prompt s =
     (let s = s\<lparr>ar_call := None\<rparr>
      in next_follower
        (if ar_interrupted s then s
         else if steering_outcome res \<noteq> ''promptRequired'' then
           (let s = s\<lparr>ar_injected := ar_injected s @ [prompt]\<rparr>
            in if ar_turn s \<noteq> None then put_steered uuid (drain_all cfg uuid incs (s\<lparr>ar_starve_deadline := None\<rparr>)) else s)
         else if ar_turn s \<noteq> None then
           (let s = s\<lparr>ar_queue := ar_queue s @ [prompt]\<rparr>
            in if (case res of Inr r \<Rightarrow> opt_str_field r ''reason'' = Some ''noRunningTurn'' | Inl _ \<Rightarrow> False)
               then s\<lparr>ar_starve_deadline := Some (now + 2000)\<rparr> else s)
         else next_turn cfg uuid now prompt s))"

definition on_flush_due :: "acp_config \<Rightarrow> (nat \<Rightarrow> string) \<Rightarrow> nat \<Rightarrow> acp_run \<Rightarrow> acp_run" where
  "on_flush_due cfg uuid now s =
     (let s = s\<lparr>ar_flush_deadline := None\<rparr> in if ar_turn s = None then after_turn cfg uuid now s else s)"

definition on_starve_due :: "acp_config \<Rightarrow> (nat \<Rightarrow> string) \<Rightarrow> nat \<Rightarrow> acp_run \<Rightarrow> acp_run" where
  "on_starve_due cfg uuid now s =
     after_turn cfg uuid now
       (put_done cfg DoneCompleted None (put_completed uuid (s\<lparr>ar_starve_deadline := None, ar_turn := None\<rparr>)))"

definition on_stall_due :: "acp_config \<Rightarrow> acp_run \<Rightarrow> acp_run" where
  "on_stall_due cfg s =
     break_main (put_done cfg DoneErrored (Some (ac_agent_name cfg @ '' is unresponsive '' @ em_dash @ '' the run was closed.''))
       (put_out [Error (ac_agent_name cfg @ '' did not respond to the prompt at all (no wire activity for '' @
            show_nat ((case ac_prompt_stall cfg of Some d \<Rightarrow> d | None \<Rightarrow> 0) div 1000) @ ''s). '' @ ac_stall_hint cfg)]
          (s\<lparr>ar_stall_deadline := None\<rparr>)))"

definition on_mail :: "acp_config \<Rightarrow> (nat \<Rightarrow> string) \<Rightarrow> nat \<Rightarrow> string \<Rightarrow> acp_run \<Rightarrow> acp_run" where
  "on_mail cfg uuid now message s =
     (let prompt = ac_transform cfg message
      in if ar_turn s = None \<and> ar_flush_deadline s \<noteq> None then s\<lparr>ar_queue := ar_queue s @ [prompt]\<rparr>
         else if ar_turn s = None \<and> (ar_tools s \<noteq> [] \<or> now - ar_last_update s < 3000) then
           put_sent SentCancel (s\<lparr>ar_queue := ar_queue s @ [prompt], ar_flush_deadline := Some (now + 2000)\<rparr>)
         else if ar_turn s = None then next_turn cfg uuid now prompt s
         else if ac_steer_ext cfg then
           (if ar_call s \<noteq> None then s\<lparr>ar_backlog := ar_backlog s @ [prompt]\<rparr>
            else put_sent (SentSteering prompt) (s\<lparr>ar_call := Some prompt\<rparr>))
         else s\<lparr>ar_queue := ar_queue s @ [prompt]\<rparr>)"

definition on_interrupt :: "acp_run \<Rightarrow> acp_run" where
  "on_interrupt s =
     (let s = s\<lparr>ar_interrupted := True\<rparr> in if ar_turn s \<noteq> None then put_sent SentCancel s else break_main s)"

definition on_answers :: "string \<Rightarrow> user_input_answer list option \<Rightarrow> acp_run \<Rightarrow> acp_run" where
  "on_answers qid answers s =
     (case find (\<lambda>q. fst q = qid) (ar_asked s) of
        None \<Rightarrow> s
      | Some (_, rid, params) \<Rightarrow>
          put_sent (SentReply rid (Inr (outcome_of (picked_option qid (permission_options params)
              (case answers of Some as \<Rightarrow> as | None \<Rightarrow> [])))))
            (s\<lparr>ar_asked := filter (\<lambda>q. fst q \<noteq> qid) (ar_asked s)\<rparr>))"

definition due :: "nat \<Rightarrow> nat option \<Rightarrow> bool" where
  "due now deadline = (case deadline of Some d \<Rightarrow> d \<le> now | None \<Rightarrow> False)"

definition quiet_due :: "acp_config \<Rightarrow> nat \<Rightarrow> acp_run \<Rightarrow> bool" where
  "quiet_due cfg now s =
     (due now (map_option (\<lambda>d. ar_last_update s + d) (ac_quiet_settle cfg)) \<and> ar_starve_deadline s = None \<and>
      ar_turn s \<noteq> None \<and> \<not> ar_interrupted s \<and> ar_content_seen s \<and> ar_tools s = [] \<and> ar_asked s = [])"

definition acp_step :: "acp_config \<Rightarrow> (nat \<Rightarrow> string) \<Rightarrow> nat \<times> acp_input \<Rightarrow> acp_run \<Rightarrow> acp_run" where
  "acp_step cfg uuid x s =
     (case x of (now, inp) \<Rightarrow>
        if \<not> ar_running s then s
        else case inp of
          PromptResponse res reply incs \<Rightarrow>
            (case ar_turn s of
               None \<Rightarrow> s
             | Some Asked \<Rightarrow> on_prompt_response cfg uuid now res reply incs s
             | Some (Answered r) \<Rightarrow> on_prompt_response cfg uuid now (Inr r) reply incs s)
        | AgentMessage (InNotification meth params) \<Rightarrow> on_agent_notification cfg now meth params s
        | AgentMessage (InRequest rid meth params) \<Rightarrow> on_agent_request uuid rid meth params (s\<lparr>ar_stall_deadline := None\<rparr>)
        | AgentMessage InEof \<Rightarrow> on_agent_closed cfg uuid None s
        | AgentClosed resolved \<Rightarrow> on_agent_closed cfg uuid resolved s
        | SteeringResponse res incs \<Rightarrow>
            (case ar_call s of None \<Rightarrow> s | Some prompt \<Rightarrow> on_steering_response cfg uuid now res incs prompt s)
        | FlushDue \<Rightarrow> if due now (ar_flush_deadline s) \<and> \<not> ar_interrupted s then on_flush_due cfg uuid now s else s
        | QuietDue \<Rightarrow> if quiet_due cfg now s then s\<lparr>ar_starve_deadline := Some now\<rparr> else s
        | StarveDue \<Rightarrow>
            if due now (ar_starve_deadline s) \<and> ar_turn s \<noteq> None \<and> \<not> ar_interrupted s then on_starve_due cfg uuid now s else s
        | StallDue \<Rightarrow>
            if due now (ar_stall_deadline s) \<and> ar_turn s \<noteq> None \<and> \<not> ar_interrupted s then on_stall_due cfg s else s
        | MailMessage message \<Rightarrow> if ar_open s \<and> \<not> ar_interrupted s then on_mail cfg uuid now message s else s
        | MailClosed \<Rightarrow>
            if ar_open s \<and> \<not> ar_interrupted s then
              (let s = s\<lparr>ar_open := False\<rparr> in if ar_turn s = None \<and> ar_queue s = [] then break_main s else s)
            else s
        | RunInterrupted \<Rightarrow> if ar_interrupted s then s else on_interrupt s
        | UserAnswered qid answers \<Rightarrow> on_answers qid answers s
        | TranscriptEvent call ev \<Rightarrow> put_out [Subagent call ev] s
        | ReceiverDropped \<Rightarrow> break_main (s\<lparr>ar_consumer := False\<rparr>))"

section \<open>The handshake and the whole run\<close>

text \<open>What the agent answered to the requests of the handshake.\<close>

record acp_answers =
  aa_initialize :: "string + json"
  aa_load :: "string + json"
  aa_new :: "string + json"

definition acp_open_session :: "run_request \<Rightarrow> acp_answers \<Rightarrow> string + (string \<times> json)" where
  "acp_open_session rr an =
     (let fresh = (case aa_new an of Inl e \<Rightarrow> Inl e | Inr new \<Rightarrow> Inr (str_field new ''sessionId'', new))
      in case rq_resume rr of
           Some resume \<Rightarrow> (case aa_load an of Inr resp \<Rightarrow> Inr (resume, resp) | Inl _ \<Rightarrow> fresh)
         | None \<Rightarrow> fresh)"

definition set_params :: "string \<Rightarrow> string \<times> json \<Rightarrow> json" where
  "set_params sid cp =
     (case cp of (cid, payload) \<Rightarrow>
        JObj (fold (\<lambda>(k, v). bt_insert k v) (case payload of JObj fs \<Rightarrow> fs | _ \<Rightarrow> [])
          (bt_insert ''configId'' (JStr cid) (bt_insert ''sessionId'' (JStr sid) []))))"

text \<open>The session, whether it can be steered, the commands it announced and the options to set.\<close>

definition acp_setup :: "run_request \<Rightarrow> acp_answers \<Rightarrow> string + (string \<times> bool \<times> slash_command list \<times> json list)" where
  "acp_setup rr an =
     (case aa_initialize an of
        Inl e \<Rightarrow> Inl e
      | Inr init \<Rightarrow>
          (case acp_open_session rr an of
             Inl e \<Rightarrow> Inl e
           | Inr (sid, response) \<Rightarrow>
               if sid = [] then Inl ''harness protocol error: session/new returned no sessionId''
               else Inr (sid, steering_supported init, scan_available_commands init,
                         map (set_params sid) (config_option_sets response (rq_model rr)
                           (default_effort_values (rq_reasoning rr)) (rq_model_options rr)))))"

datatype acp_setup_end = SetupAnswered acp_answers | SetupTimedOut nat | SetupInterrupted

definition acp_begin ::
    "acp_config \<Rightarrow> (nat \<Rightarrow> string) \<Rightarrow> nat \<Rightarrow> harness_id \<Rightarrow> run_request \<Rightarrow> slash_command list \<Rightarrow> acp_run" where
  "acp_begin cfg uuid now h rr commands =
     send_prompt cfg now (ac_transform cfg (rq_prompt rr))
       \<lparr>ar_turn = None, ar_prompt_seq = 0, ar_prompt_id = None, ar_completed = [], ar_stall_deadline = None, ar_queue = [],
        ar_call = None, ar_backlog = [], ar_open = True, ar_interrupted = False, ar_done = False, ar_done_after = False,
        ar_starve_deadline = None, ar_last_update = now, ar_content_seen = False, ar_tools = [], ar_asked = [],
        ar_flush_deadline = None, ar_message_id = uuid 0, ar_drawn = 1, ar_running = True, ar_consumer = True,
        ar_injected = [], ar_sent = [],
        ar_out = SessionStarted h (case rq_model rr of Some m \<Rightarrow> m | None \<Rightarrow> []) [] (rq_cwd rr) (ac_session cfg) (uuid 0)
          # (if commands = [] then [] else [AvailableCommands commands])\<rparr>"

definition run_acp :: "acp_config \<Rightarrow> (nat \<Rightarrow> string) \<Rightarrow> (nat \<times> acp_input) list \<Rightarrow> acp_run \<Rightarrow> acp_run" where
  "run_acp cfg uuid xs s = fold (acp_step cfg uuid) xs s"

definition acp_finish :: "acp_config \<Rightarrow> string \<Rightarrow> acp_run \<Rightarrow> acp_run" where
  "acp_finish cfg crash s =
     (if \<not> ar_consumer s then s
      else if ar_interrupted s \<and> \<not> ar_done_after s then put_out [Done DoneInterrupted None None (Some (ac_session cfg))] s
      else if \<not> ar_interrupted s \<and> \<not> ar_done s then put_out [Done DoneErrored None (Some crash) (Some (ac_session cfg))] s
      else s)"

text \<open>
  The events of a run: \<open>told\<close> adds what is known of the child to an error of the handshake, \<open>crash\<close> is the text for a
  child that died.
\<close>

definition acp_events ::
    "acp_config \<Rightarrow> (nat \<Rightarrow> string) \<Rightarrow> (string \<Rightarrow> string) \<Rightarrow> string \<Rightarrow> nat \<Rightarrow> harness_id \<Rightarrow> run_request \<Rightarrow> acp_setup_end
      \<Rightarrow> (nat \<times> acp_input) list \<Rightarrow> agent_event list" where
  "acp_events cfg uuid told crash now h rr setup xs =
     (let failed = (\<lambda>e. [Done DoneErrored None (Some (told e)) None])
      in case setup of
           SetupInterrupted \<Rightarrow> [Done DoneInterrupted None None None]
         | SetupTimedOut secs \<Rightarrow>
             failed (''harness protocol error: '' @ ac_agent_name cfg @ '' did not complete the ACP handshake within '' @ show_nat secs @
               ''s (the agent may be waiting for a login '' @ em_dash @ '' try running it once in a terminal)'')
         | SetupAnswered an \<Rightarrow>
             (case acp_setup rr an of
                Inl e \<Rightarrow> failed e
              | Inr (sid, ext, commands, _) \<Rightarrow>
                  (let cfg = cfg\<lparr>ac_session := sid, ac_steer_ext := ext\<rparr>
                   in ar_out (acp_finish cfg crash (run_acp cfg uuid xs (acp_begin cfg uuid now h rr commands))))))"

section \<open>What the consumer sees of a turn\<close>

text \<open>Whether the events so far show the session working: a start or a steer opens a turn, a final status closes it.\<close>

fun shows_working :: "agent_event \<Rightarrow> bool \<Rightarrow> bool" where
  "shows_working (SessionStarted _ _ _ _ _ _) w = True"
| "shows_working (Steered _ _) w = True"
| "shows_working (Done _ _ _ _) w = False"
| "shows_working _ w = w"

definition working :: "agent_event list \<Rightarrow> bool" where
  "working evs = fold shows_working evs False"

lemma working_append [simp]: "working (a @ b) = fold shows_working b (working a)"
  by (simp add: working_def)

lemma map_update_quiet: "fold shows_working (map_update u) w = w"
  by (auto simp: map_update_def Let_def opt_events_def resolved_result_def split: option.splits if_splits)

lemma update_events_quiet [simp]: "fold shows_working (session_update_events cfg meth params) w = w"
  by (simp add: session_update_events_def map_update_quiet)

lemma usage_quiet [simp]: "fold shows_working (opt_events id (acp_usage res)) w = w"
  by (auto simp: opt_events_def acp_usage_def Let_def split: option.splits sum.splits if_splits)

text \<open>
  The bookkeeping of the loop between two branches: the events show the session working exactly when the turn is not
  done, and while the loop goes on that is when a prompt is out.
\<close>

definition acp_ok :: "acp_run \<Rightarrow> bool" where
  "acp_ok s = (working (ar_out s) = (\<not> ar_done s) \<and> (ar_running s \<longrightarrow> (ar_turn s \<noteq> None) = (\<not> ar_done s)) \<and>
     (ar_done_after s \<longrightarrow> ar_done s \<and> \<not> ar_running s) \<and> length (ar_completed s) \<le> 32)"

lemmas acp_small = put_out_def put_sent_def break_main_def acp_rotate_def put_steered_def put_completed_def put_done_def

lemma acp_ok_next: "length (ar_completed s) \<le> 32 \<Longrightarrow> \<not> ar_done_after s \<Longrightarrow> acp_ok (next_turn cfg uuid now prompt s)"
  by (simp add: acp_ok_def next_turn_def send_prompt_def acp_small Let_def)

lemma acp_ok_after_turn:
  assumes "ar_turn s = None" "ar_done s" "\<not> working (ar_out s)" "length (ar_completed s) \<le> 32" "\<not> ar_done_after s"
  shows "acp_ok (after_turn cfg uuid now s)"
proof (cases "ar_queue s")
  case Nil
  then show ?thesis using assms by (simp add: after_turn_def acp_ok_def break_main_def)
next
  case (Cons prompt rest)
  then show ?thesis using assms acp_ok_next [of "s\<lparr>ar_queue := rest\<rparr>"] by (simp add: after_turn_def)
qed

text \<open>Draining only shows events, answers requests and notes questions.\<close>

definition drained :: "acp_run \<Rightarrow> acp_run \<Rightarrow> bool" where
  "drained s t = (\<exists>evs asked n sent.
     t = s\<lparr>ar_out := ar_out s @ evs, ar_asked := asked, ar_drawn := n, ar_sent := ar_sent s @ sent\<rparr> \<and>
     (\<forall>w. fold shows_working evs w = w) \<and> (\<forall>x \<in> set sent. \<exists>i r. x = SentReply i r))"

lemma drainedI:
  "t = s\<lparr>ar_out := ar_out s @ evs, ar_asked := asked, ar_drawn := n, ar_sent := ar_sent s @ sent\<rparr> \<Longrightarrow>
   \<forall>w. fold shows_working evs w = w \<Longrightarrow> \<forall>x \<in> set sent. \<exists>i r. x = SentReply i r \<Longrightarrow> drained s t"
  unfolding drained_def by blast

lemma drained_refl: "drained s s"
  by (rule drainedI [where evs = "[]" and asked = "ar_asked s" and n = "ar_drawn s" and sent = "[]"]) simp_all

lemma drained_trans:
  assumes "drained a b" "drained b c"
  shows "drained a c"
proof -
  obtain evs asked n sent where ab: "b = a\<lparr>ar_out := ar_out a @ evs, ar_asked := asked, ar_drawn := n, ar_sent := ar_sent a @ sent\<rparr>"
    "\<forall>w. fold shows_working evs w = w" "\<forall>x \<in> set sent. \<exists>i r. x = SentReply i r" using assms(1) unfolding drained_def by blast
  obtain evs' asked' n' sent' where bc: "c = b\<lparr>ar_out := ar_out b @ evs', ar_asked := asked', ar_drawn := n', ar_sent := ar_sent b @ sent'\<rparr>"
    "\<forall>w. fold shows_working evs' w = w" "\<forall>x \<in> set sent'. \<exists>i r. x = SentReply i r" using assms(2) unfolding drained_def by blast
  show ?thesis
    by (rule drainedI [where evs = "evs @ evs'" and asked = asked' and n = n' and sent = "sent @ sent'"]) (use ab bc in auto)
qed

lemma drained_one: "drained s (drain_one cfg uuid inc s)"
proof (cases inc)
  case (InNotification meth params)
  then show ?thesis
    by (intro drainedI [where evs = "session_update_events cfg meth params" and asked = "ar_asked s" and n = "ar_drawn s" and sent = "[]"])
      (simp_all add: put_out_def)
next
  case (InRequest rid meth params)
  show ?thesis
  proof (cases "meth = ''session/request_permission'' \<and> is_user_question (permission_options params)")
    case True
    with InRequest show ?thesis
      by (intro drainedI [where evs = "[]" and asked = "ar_asked s @ [(uuid (ar_drawn s), rid, params)]" and n = "ar_drawn s + 1" and sent = "[]"])
        (simp_all add: on_agent_request_def)
  next
    case False
    with InRequest show ?thesis
      by (intro drainedI [where evs = "[]" and asked = "ar_asked s" and n = "ar_drawn s" and
            sent = "[SentReply rid (acp_server_request meth params)]"]) (auto simp: on_agent_request_def put_sent_def)
  qed
qed (simp add: drained_refl)

lemma drained_all: "drained s (drain_all cfg uuid incs s)"
  unfolding drain_all_def
  by (induction incs arbitrary: s) (auto simp: drained_refl intro: drained_trans [OF drained_one])

lemma drained_keeps:
  assumes "drained s t"
  shows "ar_turn t = ar_turn s" "ar_done t = ar_done s" "ar_done_after t = ar_done_after s" "ar_running t = ar_running s"
    "ar_completed t = ar_completed s" "ar_interrupted t = ar_interrupted s" "ar_queue t = ar_queue s" "ar_backlog t = ar_backlog s"
    "ar_call t = ar_call s" "ar_injected t = ar_injected s" "ar_tools t = ar_tools s" "ar_open t = ar_open s"
    "ar_flush_deadline t = ar_flush_deadline s" "ar_last_update t = ar_last_update s" "ar_content_seen t = ar_content_seen s"
    "ar_prompt_seq t = ar_prompt_seq s" "working (ar_out t) = working (ar_out s)"
  using assms by (auto simp: drained_def)

lemmas drain_keeps [simp] = drained_keeps [OF drained_all]

lemma settle_call_keeps [simp]:
  "ar_turn (settle_call uuid reply s) = ar_turn s" "ar_done (settle_call uuid reply s) = ar_done s"
  "ar_done_after (settle_call uuid reply s) = ar_done_after s" "ar_running (settle_call uuid reply s) = ar_running s"
  "ar_completed (settle_call uuid reply s) = ar_completed s" "ar_interrupted (settle_call uuid reply s) = ar_interrupted s"
  "ar_tools (settle_call uuid reply s) = ar_tools s" "ar_open (settle_call uuid reply s) = ar_open s"
  "ar_flush_deadline (settle_call uuid reply s) = ar_flush_deadline s" "ar_last_update (settle_call uuid reply s) = ar_last_update s"
  by (auto simp: settle_call_def acp_small Let_def split: option.split)

lemma remember_keeps [simp]:
  "ar_turn (remember_prompt s) = ar_turn s" "ar_done (remember_prompt s) = ar_done s"
  "ar_done_after (remember_prompt s) = ar_done_after s" "ar_running (remember_prompt s) = ar_running s"
  "ar_interrupted (remember_prompt s) = ar_interrupted s" "ar_queue (remember_prompt s) = ar_queue s"
  "ar_call (remember_prompt s) = ar_call s" "ar_backlog (remember_prompt s) = ar_backlog s"
  "ar_injected (remember_prompt s) = ar_injected s" "ar_sent (remember_prompt s) = ar_sent s" "ar_tools (remember_prompt s) = ar_tools s"
  "ar_open (remember_prompt s) = ar_open s" "ar_flush_deadline (remember_prompt s) = ar_flush_deadline s"
  "ar_last_update (remember_prompt s) = ar_last_update s"
  by (auto simp: remember_prompt_def Let_def split: option.split)

lemma remember_bounded: "length (ar_completed s) \<le> 32 \<Longrightarrow> length (ar_completed (remember_prompt s)) \<le> 32"
  by (auto simp: remember_prompt_def Let_def split: option.split)

lemma turn_end_parts [simp]:
  "ar_turn (put_turn_end cfg uuid res s) = ar_turn s" "ar_done (put_turn_end cfg uuid res s)"
  "ar_done_after (put_turn_end cfg uuid res s) = (ar_done_after s \<or> ar_interrupted s)"
  "ar_running (put_turn_end cfg uuid res s) = ar_running s" "ar_completed (put_turn_end cfg uuid res s) = ar_completed s"
  "ar_interrupted (put_turn_end cfg uuid res s) = ar_interrupted s" "ar_queue (put_turn_end cfg uuid res s) = ar_queue s"
  "ar_call (put_turn_end cfg uuid res s) = ar_call s" "ar_backlog (put_turn_end cfg uuid res s) = ar_backlog s"
  "ar_injected (put_turn_end cfg uuid res s) = ar_injected s" "ar_sent (put_turn_end cfg uuid res s) = ar_sent s"
  "ar_tools (put_turn_end cfg uuid res s) = ar_tools s" "ar_open (put_turn_end cfg uuid res s) = ar_open s"
  "ar_flush_deadline (put_turn_end cfg uuid res s) = ar_flush_deadline s"
  "ar_last_update (put_turn_end cfg uuid res s) = ar_last_update s"
  "\<not> working (ar_out (put_turn_end cfg uuid res s))"
  by (auto simp: put_turn_end_def acp_small Let_def split: prod.split)

lemma acp_ok_response:
  assumes "acp_ok s" "ar_running s"
  shows "acp_ok (on_prompt_response cfg uuid now res reply incs s)"
proof -
  have after: "\<not> ar_done_after s" and len: "length (ar_completed s) \<le> 32" using assms by (auto simp: acp_ok_def)
  define t where "t = remember_prompt (s\<lparr>ar_turn := None, ar_starve_deadline := None, ar_stall_deadline := None\<rparr>)"
  have t: "ar_turn t = None" "\<not> ar_done_after t" "length (ar_completed t) \<le> 32"
    using after len by (simp_all add: t_def remember_bounded)
  define u where "u = put_turn_end cfg uuid res (drain_all cfg uuid incs (settle_call uuid reply t))"
  have u: "ar_turn u = None" "ar_done u" "\<not> working (ar_out u)" "length (ar_completed u) \<le> 32"
    "ar_done_after u = ar_interrupted u" using t by (simp_all add: u_def)
  have step: "on_prompt_response cfg uuid now res reply incs s =
      (if ar_interrupted u \<or> (case res of Inl _ \<Rightarrow> True | Inr _ \<Rightarrow> False) then break_main u else after_turn cfg uuid now u)"
    by (simp add: on_prompt_response_def Let_def u_def t_def)
  have "acp_ok (break_main u)" using u by (simp add: acp_ok_def break_main_def)
  moreover have "acp_ok (after_turn cfg uuid now u)" if "\<not> ar_interrupted u"
    using u that by (intro acp_ok_after_turn) simp_all
  ultimately show ?thesis unfolding step by (cases "ar_interrupted u") auto
qed

lemma acp_ok_closed: "acp_ok s \<Longrightarrow> ar_running s \<Longrightarrow> acp_ok (on_agent_closed cfg uuid r s)"
  by (auto simp: on_agent_closed_def acp_ok_def break_main_def Let_def split: option.split acp_turn.split)

lemma next_follower_keeps [simp]:
  "acp_ok (next_follower s) = acp_ok s"
  by (auto simp: next_follower_def acp_ok_def put_sent_def split: list.split)

lemma acp_ok_steering:
  assumes "acp_ok s" "ar_running s"
  shows "acp_ok (on_steering_response cfg uuid now res incs prompt s)"
proof -
  have after: "\<not> ar_done_after s" and len: "length (ar_completed s) \<le> 32" using assms by (auto simp: acp_ok_def)
  have "acp_ok (next_turn cfg uuid now prompt (s\<lparr>ar_call := None\<rparr>))" using after len by (intro acp_ok_next) simp_all
  then have fresh: "acp_ok (next_turn cfg uuid now prompt (s\<lparr>ar_call := None\<rparr>))" .
  have inject: "acp_ok (put_steered uuid (drain_all cfg uuid incs (s\<lparr>ar_call := None, ar_injected := q, ar_starve_deadline := None\<rparr>)))"
    if "ar_turn s \<noteq> None" for q
    using assms that by (simp add: acp_ok_def put_steered_def put_out_def acp_rotate_def)
  have kept: "acp_ok (s\<lparr>ar_call := None\<rparr>)" "acp_ok (s\<lparr>ar_call := None, ar_injected := q\<rparr>)" "acp_ok (s\<lparr>ar_call := None, ar_queue := q\<rparr>)"
    "acp_ok (s\<lparr>ar_call := None, ar_queue := q, ar_starve_deadline := d\<rparr>)" for q d
    using assms by (simp_all add: acp_ok_def)
  show ?thesis using fresh inject kept by (auto simp: on_steering_response_def Let_def)
qed

lemma acp_ok_message:
  assumes "acp_ok s"
  shows "acp_ok (on_agent_notification cfg now meth params s)" "acp_ok (on_agent_request uuid rid meth params s)"
  using assms
  by (auto simp: on_agent_notification_def note_completion_def put_tracked_def put_out_def on_agent_request_def put_sent_def acp_ok_def Let_def
      split: prod.split)

lemma acp_ok_mail:
  assumes "acp_ok s" "ar_running s"
  shows "acp_ok (on_mail cfg uuid now message s)"
proof -
  have "acp_ok (next_turn cfg uuid now prompt s)" for prompt using assms by (intro acp_ok_next) (auto simp: acp_ok_def)
  then show ?thesis using assms by (auto simp: on_mail_def acp_ok_def put_sent_def Let_def)
qed

lemma acp_ok_deadlines:
  assumes "acp_ok s" "ar_running s"
  shows "acp_ok (on_flush_due cfg uuid now s)" "acp_ok (on_starve_due cfg uuid now s)" "acp_ok (on_stall_due cfg s)"
proof -
  show "acp_ok (on_flush_due cfg uuid now s)"
  proof (cases "ar_turn s = None")
    case True
    then have "acp_ok (after_turn cfg uuid now (s\<lparr>ar_flush_deadline := None\<rparr>))"
      using assms by (intro acp_ok_after_turn) (auto simp: acp_ok_def)
    then show ?thesis using True by (simp add: on_flush_due_def)
  next
    case False
    moreover have "acp_ok (s\<lparr>ar_flush_deadline := None\<rparr>)" using assms by (simp add: acp_ok_def)
    ultimately show ?thesis by (auto simp: on_flush_due_def Let_def)
  qed
  show "acp_ok (on_starve_due cfg uuid now s)"
    unfolding on_starve_due_def using assms by (intro acp_ok_after_turn) (auto simp: acp_ok_def acp_small)
  show "acp_ok (on_stall_due cfg s)" using assms by (auto simp: on_stall_due_def acp_ok_def acp_small)
qed

lemma acp_ok_others:
  assumes "acp_ok s" "ar_running s"
  shows "acp_ok (on_interrupt s)" "acp_ok (on_answers qid answers s)" "acp_ok (put_out [Subagent call ev] s)"
    "acp_ok (break_main (s\<lparr>ar_consumer := b\<rparr>))" "acp_ok (s\<lparr>ar_stall_deadline := d\<rparr>)" "acp_ok (s\<lparr>ar_starve_deadline := d\<rparr>)"
    "acp_ok (s\<lparr>ar_open := b\<rparr>)" "acp_ok (break_main (s\<lparr>ar_open := b\<rparr>))"
  using assms by (auto simp: on_interrupt_def on_answers_def acp_ok_def acp_small Let_def split: option.split)

lemma acp_ok_step: "acp_ok s \<Longrightarrow> acp_ok (acp_step cfg uuid x s)"
  by (cases x)
    (auto simp: acp_step_def acp_ok_response acp_ok_closed acp_ok_steering acp_ok_message acp_ok_mail acp_ok_deadlines acp_ok_others Let_def
      split: acp_input.split option.split acp_turn.split rpc_incoming.split)

lemma acp_ok_run: "acp_ok s \<Longrightarrow> acp_ok (run_acp cfg uuid xs s)"
  unfolding run_acp_def by (induction xs arbitrary: s) (auto simp: acp_ok_step)

lemma acp_ok_begin: "acp_ok (acp_begin cfg uuid now h rr commands)"
  by (simp add: acp_ok_def acp_begin_def send_prompt_def put_sent_def working_def Let_def)

text \<open>
  C10. The consumer of a run always knows whether the agent works: between any two branches of the loop the events show
  the session working exactly when a prompt of the run is unanswered, whatever the order of responses, completion
  notices, steers, deadlines and interrupts. When the run is over, and the consumer still listens, they show it idle.
\<close>
theorem acp_working_iff_prompt:
  assumes "s = run_acp cfg uuid xs (acp_begin cfg uuid now h rr commands)"
  shows "(ar_running s \<longrightarrow> working (ar_out s) = (ar_turn s \<noteq> None)) \<and>
     (ar_consumer s \<longrightarrow> \<not> working (ar_out (acp_finish cfg crash s))) \<and> length (ar_completed s) \<le> 32"
proof -
  have "acp_ok s" unfolding assms by (intro acp_ok_run acp_ok_begin)
  then show ?thesis by (auto simp: acp_ok_def acp_finish_def put_out_def)
qed

section \<open>Steers are neither lost nor doubled\<close>

fun prompt_sent :: "acp_sent \<Rightarrow> string option" where
  "prompt_sent (SentPrompt p _) = Some p"
| "prompt_sent _ = None"

text \<open>Where a message can be: prompted, injected into a turn, waiting, or in a steering call.\<close>

definition acp_held :: "acp_run \<Rightarrow> string multiset" where
  "acp_held s = mset (List.map_filter prompt_sent (ar_sent s)) + mset (ar_injected s) + mset (ar_queue s) + mset (ar_backlog s)
     + (case ar_call s of Some p \<Rightarrow> {#p#} | None \<Rightarrow> {#})"

definition acp_takes :: "acp_config \<Rightarrow> acp_input \<Rightarrow> acp_run \<Rightarrow> string list" where
  "acp_takes cfg inp s =
     (case inp of MailMessage m \<Rightarrow> if ar_running s \<and> ar_open s \<and> \<not> ar_interrupted s then [ac_transform cfg m] else [] | _ \<Rightarrow> [])"

fun acp_taken :: "acp_config \<Rightarrow> (nat \<Rightarrow> string) \<Rightarrow> (nat \<times> acp_input) list \<Rightarrow> acp_run \<Rightarrow> string list" where
  "acp_taken cfg uuid [] s = []"
| "acp_taken cfg uuid (x # xs) s = acp_takes cfg (snd x) s @ acp_taken cfg uuid xs (acp_step cfg uuid x s)"

definition acp_holds :: "string list \<Rightarrow> acp_run \<Rightarrow> acp_run \<Rightarrow> bool" where
  "acp_holds new s t = (ar_running t \<and> \<not> ar_interrupted t \<longrightarrow> acp_held t = acp_held s + mset new)"

lemma map_filter_snoc [simp]:
  "List.map_filter f (xs @ [x]) = List.map_filter f xs @ (case f x of Some y \<Rightarrow> [y] | None \<Rightarrow> [])"
  by (auto simp: List.map_filter_def split: option.split)

lemma prompts_replies:
  assumes "\<forall>x \<in> set sent. \<exists>i r. x = SentReply i r"
  shows "List.map_filter prompt_sent (a @ sent) = List.map_filter prompt_sent a"
proof -
  have "List.map_filter prompt_sent sent = []" using assms by (auto simp: List.map_filter_def filter_empty_conv)
  then show ?thesis by (simp add: List.map_filter_def)
qed

lemma held_drained: "drained s t \<Longrightarrow> acp_held t = acp_held s"
  by (auto simp: drained_def acp_held_def prompts_replies)

lemma held_fields [simp]:
  "acp_held (put_out evs s) = acp_held s" "acp_held (acp_rotate uuid s) = acp_held s" "acp_held (put_steered uuid s) = acp_held s"
  "acp_held (put_done cfg st e s) = acp_held s" "acp_held (put_completed uuid s) = acp_held s" "acp_held (break_main s) = acp_held s"
  "acp_held (put_turn_end cfg uuid res s) = acp_held s" "acp_held (remember_prompt s) = acp_held s"
  "acp_held (put_sent SentCancel s) = acp_held s" "acp_held (put_sent (SentReply i rep) s) = acp_held s"
  by (simp_all add: acp_held_def acp_small put_turn_end_def remember_prompt_def Let_def split: prod.split option.split)

lemma held_next: "acp_held (next_turn cfg uuid now prompt s) = acp_held s + {#prompt#}"
  by (simp add: acp_held_def next_turn_def send_prompt_def acp_small Let_def)

lemma held_after_turn: "acp_held (after_turn cfg uuid now s) = acp_held s"
  by (cases "ar_queue s") (simp_all add: after_turn_def held_next, simp add: acp_held_def)

lemma held_settle: "\<not> ar_interrupted s \<Longrightarrow> acp_held (settle_call uuid reply s) = acp_held s"
  by (auto simp: acp_held_def settle_call_def acp_small Let_def split: option.split)

lemma held_follower: "ar_call s = None \<Longrightarrow> acp_held (next_follower s) = acp_held s"
  by (auto simp: acp_held_def next_follower_def put_sent_def split: list.split)

lemma next_turn_parts [simp]:
  "ar_interrupted (next_turn cfg uuid now prompt s) = ar_interrupted s" "ar_running (next_turn cfg uuid now prompt s) = ar_running s"
  "ar_call (next_turn cfg uuid now prompt s) = ar_call s"
  by (simp_all add: next_turn_def send_prompt_def acp_small Let_def)

lemma after_turn_interrupted [simp]: "ar_interrupted (after_turn cfg uuid now s) = ar_interrupted s"
  by (simp add: after_turn_def break_main_def split: list.split)

lemma response_holds: "acp_holds [] s (on_prompt_response cfg uuid now res reply incs s)"
proof (cases "ar_interrupted s")
  case True
  then show ?thesis by (simp add: acp_holds_def on_prompt_response_def break_main_def Let_def)
next
  case False
  define t where "t = remember_prompt (s\<lparr>ar_turn := None, ar_starve_deadline := None, ar_stall_deadline := None\<rparr>)"
  have t: "acp_held t = acp_held s" "\<not> ar_interrupted t" using False by (simp_all add: t_def) (simp add: acp_held_def)
  have "acp_held (drain_all cfg uuid incs (settle_call uuid reply t)) = acp_held s"
    using t held_settle [of t] held_drained [OF drained_all] by simp
  then show ?thesis
    by (simp add: acp_holds_def on_prompt_response_def t_def [symmetric] Let_def held_after_turn)
qed

lemma steering_holds:
  assumes "ar_call s = Some prompt"
  shows "acp_holds [] s (on_steering_response cfg uuid now res incs prompt s)"
proof (cases "ar_interrupted s")
  case True
  then show ?thesis
    by (simp add: acp_holds_def on_steering_response_def next_follower_def put_sent_def Let_def split: list.split)
next
  case False
  define t where "t = s\<lparr>ar_call := None\<rparr>"
  have t: "acp_held s = acp_held t + {#prompt#}" "ar_call t = None" "\<not> ar_interrupted t"
    using assms False by (simp_all add: t_def acp_held_def)
  have inj: "acp_held (t\<lparr>ar_injected := ar_injected t @ [prompt]\<rparr>) = acp_held s"
    "acp_held (t\<lparr>ar_injected := ar_injected t @ [prompt], ar_starve_deadline := None\<rparr>) = acp_held s"
    "acp_held (t\<lparr>ar_queue := ar_queue t @ [prompt]\<rparr>) = acp_held s"
    "acp_held (t\<lparr>ar_queue := ar_queue t @ [prompt], ar_starve_deadline := d\<rparr>) = acp_held s" for d
    using t by (simp_all add: acp_held_def)
  have steered: "ar_call (put_steered uuid u) = ar_call u" for u by (simp add: acp_small)
  show ?thesis
    unfolding acp_holds_def on_steering_response_def t_def [symmetric] Let_def
    using t inj by (auto simp: held_follower steered held_drained [OF drained_all] held_next)
qed

lemma mail_holds: "acp_holds [ac_transform cfg m] s (on_mail cfg uuid now m s)"
  by (auto simp: acp_holds_def on_mail_def Let_def held_next) (auto simp: acp_held_def put_sent_def)

lemma message_holds:
  "acp_holds [] s (on_agent_notification cfg now meth params s)" "acp_holds [] s (on_agent_request uuid rid meth params s)"
  by (auto simp: acp_holds_def acp_held_def on_agent_notification_def note_completion_def put_tracked_def put_out_def on_agent_request_def
      put_sent_def Let_def split: prod.split)

lemma deadlines_hold:
  "acp_holds [] s (on_flush_due cfg uuid now s)" "acp_holds [] s (on_starve_due cfg uuid now s)" "acp_holds [] s (on_stall_due cfg s)"
proof -
  have "acp_held (s\<lparr>ar_flush_deadline := None\<rparr>) = acp_held s" "acp_held (s\<lparr>ar_starve_deadline := None, ar_turn := None\<rparr>) = acp_held s"
    by (simp_all add: acp_held_def)
  then show "acp_holds [] s (on_flush_due cfg uuid now s)" "acp_holds [] s (on_starve_due cfg uuid now s)" "acp_holds [] s (on_stall_due cfg s)"
    by (auto simp: acp_holds_def on_flush_due_def on_starve_due_def on_stall_due_def held_after_turn Let_def break_main_def)
qed

lemma closed_holds: "acp_holds new s (on_agent_closed cfg uuid resolved s)"
  by (simp add: acp_holds_def on_agent_closed_def break_main_def Let_def)

lemma plain_holds:
  "acp_holds [] s s" "acp_holds [] s (s\<lparr>ar_starve_deadline := d\<rparr>)" "acp_holds [] s (s\<lparr>ar_open := b\<rparr>)"
  "acp_holds [] s (break_main t)" "acp_holds [] s (on_interrupt s)" "acp_holds [] s (on_answers qid answers s)"
  "acp_holds [] s (put_out evs s)" "acp_holds [] (s\<lparr>ar_stall_deadline := d\<rparr>) t = acp_holds [] s t"
  by (auto simp: acp_holds_def acp_held_def on_interrupt_def on_answers_def acp_small Let_def split: option.split)

lemma acp_step_holds:
  assumes "ar_running s"
  shows "acp_holds (acp_takes cfg (snd x) s) s (acp_step cfg uuid x s)"
proof -
  obtain now inp where x: "x = (now, inp)" by (cases x)
  have request: "acp_holds [] s (on_agent_request uuid rid meth params (s\<lparr>ar_stall_deadline := None\<rparr>))" for rid meth params
    using message_holds(2) [of "s\<lparr>ar_stall_deadline := None\<rparr>"] by (simp add: plain_holds)
  show ?thesis
    unfolding x acp_step_def acp_takes_def using assms
    by (auto simp: response_holds steering_holds mail_holds message_holds request deadlines_hold closed_holds plain_holds Let_def
        split: acp_input.split option.split acp_turn.split rpc_incoming.split)
qed

lemma acp_stopped: "\<not> ar_running s \<Longrightarrow> run_acp cfg uuid xs s = s"
  unfolding run_acp_def by (induction xs) (auto simp: acp_step_def split: prod.split)

lemma acp_interrupt_stays: "ar_interrupted s \<Longrightarrow> ar_interrupted (acp_step cfg uuid x s)"
  by (cases x)
    (auto simp: acp_step_def on_prompt_response_def on_agent_notification_def note_completion_def put_tracked_def on_agent_request_def
      on_agent_closed_def on_steering_response_def next_follower_def on_answers_def acp_small Let_def
      split: acp_input.split option.split acp_turn.split rpc_incoming.split prod.split list.split)

lemma acp_interrupt_stays_run: "ar_interrupted s \<Longrightarrow> ar_interrupted (run_acp cfg uuid xs s)"
  unfolding run_acp_def by (induction xs arbitrary: s) (auto simp: acp_interrupt_stays)

lemma acp_run_holds:
  assumes "ar_running (run_acp cfg uuid xs s)" "\<not> ar_interrupted (run_acp cfg uuid xs s)"
  shows "acp_held (run_acp cfg uuid xs s) = acp_held s + mset (acp_taken cfg uuid xs s)"
  using assms
proof (induction xs arbitrary: s)
  case (Cons x xs)
  let ?t = "acp_step cfg uuid x s"
  have step: "run_acp cfg uuid (x # xs) s = run_acp cfg uuid xs ?t" by (simp add: run_acp_def)
  have "ar_running s" "ar_running ?t" using Cons.prems(1) acp_stopped by (metis, metis step)
  moreover have "\<not> ar_interrupted ?t" using Cons.prems(2) acp_interrupt_stays_run step by metis
  ultimately have "acp_held ?t = acp_held s + mset (acp_takes cfg (snd x) s)"
    using acp_step_holds [of s cfg x uuid] by (simp add: acp_holds_def)
  then show ?case using Cons.IH [of ?t] Cons.prems step by simp
qed (simp add: run_acp_def)

text \<open>
  C18. While a run goes on and nobody interrupts it, every message it took from its mailbox is in exactly one place: sent
  as a prompt, injected into a turn, in the steering call, behind it, or queued for the next turn.
\<close>
theorem acp_steers_conserved:
  assumes "s = run_acp cfg uuid xs (acp_begin cfg uuid now h rr commands)" "ar_running s" "\<not> ar_interrupted s"
  shows "acp_held s = mset (ac_transform cfg (rq_prompt rr) # acp_taken cfg uuid xs (acp_begin cfg uuid now h rr commands))"
proof -
  have "acp_held (acp_begin cfg uuid now h rr commands) = {#ac_transform cfg (rq_prompt rr)#}"
    by (simp add: acp_held_def acp_begin_def send_prompt_def put_sent_def Let_def List.map_filter_def)
  then show ?thesis using acp_run_holds assms by simp
qed

section \<open>A silent turn is settled\<close>

text \<open>The branches of the loop that only a deadline opens.\<close>

fun timer :: "acp_input \<Rightarrow> bool" where
  "timer FlushDue = True"
| "timer QuietDue = True"
| "timer StarveDue = True"
| "timer StallDue = True"
| "timer _ = False"

text \<open>The turn said something, has no tool open and no question out.\<close>

definition settleable :: "acp_run \<Rightarrow> bool" where
  "settleable s = (ar_content_seen s \<and> ar_tools s = [] \<and> ar_asked s = [])"

text \<open>A turn goes on with the given deadline; only the deadline of a flush may have been met.\<close>

definition goes_on :: "nat option \<Rightarrow> acp_run \<Rightarrow> acp_run \<Rightarrow> bool" where
  "goes_on starve s t = (\<exists>f. t = s\<lparr>ar_starve_deadline := starve, ar_flush_deadline := f\<rparr>)"

definition mute_turn :: "acp_run \<Rightarrow> bool" where
  "mute_turn s = (ar_running s \<and> ar_turn s \<noteq> None \<and> \<not> ar_interrupted s \<and> ar_starve_deadline s = None \<and> ar_stall_deadline s = None)"

lemma timer_steps:
  assumes "mute_turn s" "u = s\<lparr>ar_starve_deadline := v, ar_flush_deadline := f\<rparr>"
  shows "acp_step cfg uuid (now, FlushDue) u = s\<lparr>ar_starve_deadline := v, ar_flush_deadline := if due now f then None else f\<rparr>"
    and "acp_step cfg uuid (now, StallDue) u = u"
    and "acp_step cfg uuid (now, QuietDue) u =
      (if v = None \<and> settleable s \<and> due now (map_option (\<lambda>d. ar_last_update s + d) (ac_quiet_settle cfg))
       then s\<lparr>ar_starve_deadline := Some now, ar_flush_deadline := f\<rparr> else u)"
    and "v = None \<Longrightarrow> acp_step cfg uuid (now, StarveDue) u = u"
  using assms by (auto simp: mute_turn_def acp_step_def on_flush_due_def quiet_due_def settleable_def due_def Let_def)

lemma goes_onI: "t = s\<lparr>ar_starve_deadline := v, ar_flush_deadline := f\<rparr> \<Longrightarrow> goes_on v s t"
  unfolding goes_on_def by blast

lemma goes_on_fields:
  assumes "goes_on v s t" "mute_turn s"
  shows "ar_turn t = ar_turn s" "ar_out t = ar_out s" "ar_queue t = ar_queue s" "ar_running t"
  using assms by (auto simp: goes_on_def mute_turn_def)

lemma timer_waits:
  assumes "mute_turn s" "goes_on None s t" "timer x" "\<not> settleable s \<or> ac_quiet_settle cfg = Some d \<and> now < ar_last_update s + d"
  shows "goes_on None s (acp_step cfg uuid (now, x) t)"
proof -
  obtain f where t: "t = s\<lparr>ar_starve_deadline := None, ar_flush_deadline := f\<rparr>" using assms(2) by (auto simp: goes_on_def)
  have "\<not> (settleable s \<and> due now (map_option (\<lambda>d. ar_last_update s + d) (ac_quiet_settle cfg)))" using assms(4) by (auto simp: due_def)
  with assms(3) show ?thesis
    by (cases x rule: timer.cases) (simp_all only: timer_steps [OF assms(1) t] goes_onI [OF t] goes_onI [OF refl] timer.simps if_False simp_thms)
qed

lemma timers_wait:
  assumes "mute_turn s" "\<forall>x \<in> set xs. timer (snd x) \<and> (\<not> settleable s \<or> ac_quiet_settle cfg = Some d \<and> fst x < ar_last_update s + d)"
    and "goes_on None s t"
  shows "goes_on None s (run_acp cfg uuid xs t)"
  using assms(2,3)
proof (induction xs arbitrary: t)
  case (Cons x xs)
  then show ?case using timer_waits [OF assms(1), of t "snd x" cfg d "fst x" uuid] by (simp add: run_acp_def)
qed (simp add: run_acp_def)

lemma timers_wait_starved:
  assumes "mute_turn s" "\<forall>x \<in> set xs. timer (snd x) \<and> snd x \<noteq> StarveDue" "goes_on (Some q) s t"
  shows "goes_on (Some q) s (run_acp cfg uuid xs t)"
  using assms(2,3)
proof (induction xs arbitrary: t)
  case (Cons x xs)
  obtain f where t: "t = s\<lparr>ar_starve_deadline := Some q, ar_flush_deadline := f\<rparr>" using Cons.prems(2) by (auto simp: goes_on_def)
  obtain now y where x: "x = (now, y)" by (cases x)
  have "timer y" "y \<noteq> StarveDue" using Cons.prems(1) x by simp_all
  then have "goes_on (Some q) s (acp_step cfg uuid x t)"
    unfolding x by (cases y rule: timer.cases)
      (simp_all only: timer_steps [OF assms(1) t] goes_onI [OF t] goes_onI [OF refl] timer.simps option.simps if_False simp_thms)
  then show ?case using Cons by (simp add: run_acp_def)
qed (simp add: run_acp_def)

lemma starve_settles:
  assumes "goes_on (Some q) s u" "mute_turn s" "q \<le> r" "t = acp_step cfg uuid (r, StarveDue) u"
  shows "(\<exists>after. ar_out t = ar_out s @ AssistantMessageCompleted (ar_message_id s)
       # Done DoneCompleted None None (Some (ac_session cfg)) # after) \<and>
    (case ar_queue s of
       [] \<Rightarrow> ar_turn t = None \<and> \<not> working (ar_out t) \<and> ar_running t = ar_open s
     | prompt # rest \<Rightarrow> ar_turn t = Some Asked \<and> working (ar_out t) \<and> ar_queue t = rest \<and> prompt_sent (last (ar_sent t)) = Some prompt)"
proof -
  obtain f where u: "u = s\<lparr>ar_starve_deadline := Some q, ar_flush_deadline := f\<rparr>" using assms(1) by (auto simp: goes_on_def)
  have "ar_running s" "ar_turn s \<noteq> None" "\<not> ar_interrupted s" using assms(2) by (simp_all add: mute_turn_def)
  then have "t = on_starve_due cfg uuid r u" using assms(3,4) by (simp add: u acp_step_def due_def)
  then show ?thesis using \<open>ar_running s\<close>
    by (cases "ar_queue s") (simp_all add: u on_starve_due_def after_turn_def next_turn_def send_prompt_def acp_small Let_def)
qed

text \<open>
  C25. When a turn whose response never comes is settled. While the agent is silent, the deadlines alone decide: before the settle
  window has passed since its last message nothing they do is seen. The first time the settle timer fires after that, a turn that has
  said something, with every tool it opened done and no question out, is closed with a final status when the starve
  timer fires, and the first queued message is sent as the next prompt; any other turn stays as it is.
\<close>
theorem acp_quiet_turn_settles:
  assumes "ar_running s" "ar_turn s \<noteq> None" "\<not> ar_interrupted s" "ar_starve_deadline s = None" "ar_stall_deadline s = None"
    and "ac_quiet_settle cfg = Some d" "\<forall>x \<in> set early. timer (snd x) \<and> fst x < ar_last_update s + d"
    and "ar_last_update s + d \<le> q" "\<forall>x \<in> set between. timer (snd x) \<and> snd x \<noteq> StarveDue" "q \<le> r"
    and "e = run_acp cfg uuid early s" "t = run_acp cfg uuid (early @ (q, QuietDue) # between @ [(r, StarveDue)]) s"
  shows "ar_turn e = ar_turn s \<and> ar_out e = ar_out s \<and>
    (if ar_content_seen s \<and> ar_tools s = [] \<and> ar_asked s = []
     then (\<exists>after. ar_out t = ar_out s @ AssistantMessageCompleted (ar_message_id s)
            # Done DoneCompleted None None (Some (ac_session cfg)) # after) \<and>
       (case ar_queue s of
          [] \<Rightarrow> ar_turn t = None \<and> \<not> working (ar_out t) \<and> ar_running t = ar_open s
        | prompt # rest \<Rightarrow> ar_turn t = Some Asked \<and> working (ar_out t) \<and> ar_queue t = rest \<and>
            prompt_sent (last (ar_sent t)) = Some prompt)
     else ar_turn t = ar_turn s \<and> ar_out t = ar_out s \<and> ar_queue t = ar_queue s \<and> ar_running t)"
proof -
  have mute: "mute_turn s" using assms(1-5) by (simp add: mute_turn_def)
  then have "goes_on None s s" by (intro goes_onI [where f = "ar_flush_deadline s"]) (simp add: mute_turn_def)
  then have e: "goes_on None s e" unfolding assms(11) using assms(6,7) by (intro timers_wait [OF mute]) auto
  show ?thesis
  proof (cases "settleable s")
    case True
    obtain f where f: "e = s\<lparr>ar_starve_deadline := None, ar_flush_deadline := f\<rparr>" using e by (auto simp: goes_on_def)
    have "due q (map_option (\<lambda>d. ar_last_update s + d) (ac_quiet_settle cfg))" using assms(6,8) by (simp add: due_def)
    then have "goes_on (Some q) s (acp_step cfg uuid (q, QuietDue) e)"
      using True by (simp only: timer_steps(3) [OF mute f] simp_thms if_True goes_onI [OF refl])
    from timers_wait_starved [OF mute assms(9) this, of cfg uuid]
    have "goes_on (Some q) s (run_acp cfg uuid between (acp_step cfg uuid (q, QuietDue) e))" .
    moreover have "t = acp_step cfg uuid (r, StarveDue) (run_acp cfg uuid between (acp_step cfg uuid (q, QuietDue) e))"
      using assms(11,12) by (simp add: run_acp_def)
    ultimately show ?thesis using starve_settles [OF _ mute assms(10), of _ t cfg uuid] goes_on_fields [OF e mute] True by (simp add: settleable_def)
  next
    case False
    have "goes_on None s t"
      unfolding assms(12) using assms(7,9) False \<open>goes_on None s s\<close> by (intro timers_wait [OF mute]) auto
    then show ?thesis using goes_on_fields [OF e mute] goes_on_fields [of None s t] mute False by (simp add: settleable_def)
  qed
qed

section \<open>Where the loop does not do what it means to\<close>

text \<open>
  A queued message is delivered at the end of a turn or when a cancelled turn was flushed. With no turn, no steering call
  and no flush under way, nothing the agent, the clock or the user's answers do delivers it.
\<close>

definition stranded :: "string list \<Rightarrow> acp_run \<Rightarrow> bool" where
  "stranded q s = (ar_running s \<and> q \<noteq> [] \<and> ar_queue s = q \<and> ar_turn s = None \<and> ar_call s = None \<and> ar_backlog s = [] \<and> ar_flush_deadline s = None)"

fun outside_input :: "acp_input \<Rightarrow> bool" where
  "outside_input (MailMessage _) = True"
| "outside_input RunInterrupted = True"
| "outside_input (AgentClosed _) = True"
| "outside_input (AgentMessage InEof) = True"
| "outside_input ReceiverDropped = True"
| "outside_input _ = False"

lemma stranded_step: "stranded q s \<Longrightarrow> \<not> outside_input (snd x) \<Longrightarrow> stranded q (acp_step cfg uuid x s)"
  by (cases x)
    (auto simp: stranded_def acp_step_def on_agent_notification_def note_completion_def put_tracked_def on_agent_request_def on_answers_def
      quiet_due_def due_def acp_small Let_def split: acp_input.split rpc_incoming.split option.split prod.split)

lemma stranded_run: "stranded q s \<Longrightarrow> \<forall>x \<in> set xs. \<not> outside_input (snd x) \<Longrightarrow> stranded q (run_acp cfg uuid xs s)"
  unfolding run_acp_def by (induction xs arbitrary: s) (auto simp: stranded_step)

definition text_chunk :: "string \<Rightarrow> string \<Rightarrow> json" where
  "text_chunk sid t = JObj [(''sessionId'', JStr sid),
     (''update'', JObj [(''content'', JObj [(''text'', JStr t), (''type'', JStr ''text'')]), (''sessionUpdate'', JStr ''agent_message_chunk'')])]"

text \<open>Two steers during a turn whose response is lost; the first one is answered after the turn was settled.\<close>

definition late_injection :: "string \<Rightarrow> string \<Rightarrow> string \<Rightarrow> nat \<Rightarrow> (nat \<times> acp_input) list" where
  "late_injection sid a b d =
     [(0, AgentMessage (InNotification ''session/update'' (text_chunk sid ''ok''))), (0, MailMessage a), (0, MailMessage b),
      (d, QuietDue), (d, StarveDue), (d, SteeringResponse (Inr (JObj [(''outcome'', JStr ''injected'')])) [])]"

definition mid_turn :: "string option \<Rightarrow> string list \<Rightarrow> nat option \<Rightarrow> bool \<Rightarrow> acp_run \<Rightarrow> bool" where
  "mid_turn call followers starve seen s =
     (ar_running s \<and> ar_open s \<and> \<not> ar_interrupted s \<and> ar_turn s = Some Asked \<and> ar_content_seen s = seen \<and> ar_tools s = [] \<and>
      ar_asked s = [] \<and> ar_starve_deadline s = starve \<and> ar_last_update s = 0 \<and> ar_call s = call \<and> ar_backlog s = followers \<and>
      ar_queue s = [] \<and> ar_flush_deadline s = None)"

lemma text_chunk_events:
  "session_update_events cfg ''session/update'' (text_chunk (ac_session cfg) t) = (if t = [] then [] else [TextDelta t])"
  by (simp add: session_update_events_def text_chunk_def map_update_def chunk_text_def content_block_text_def opt_str_field_def str_field_def
      json_get_def bt_get_Cons nonempty_def opt_events_def)

lemma mid_turn_steps:
  assumes "ac_steer_ext cfg" "ac_quiet_settle cfg = Some d"
  shows "mid_turn None [] None False s \<Longrightarrow> t \<noteq> [] \<Longrightarrow>
      mid_turn None [] None True (acp_step cfg uuid (0, AgentMessage (InNotification ''session/update'' (text_chunk (ac_session cfg) t))) s)"
    and "mid_turn None [] None True s \<Longrightarrow> mid_turn (Some (ac_transform cfg a)) [] None True (acp_step cfg uuid (0, MailMessage a) s)"
    and "mid_turn (Some c) [] None True s \<Longrightarrow> mid_turn (Some c) [ac_transform cfg b] None True (acp_step cfg uuid (0, MailMessage b) s)"
    and "mid_turn (Some c) [f] None True s \<Longrightarrow> mid_turn (Some c) [f] (Some d) True (acp_step cfg uuid (d, QuietDue) s)"
proof -
  show "mid_turn None [] None True (acp_step cfg uuid (0, AgentMessage (InNotification ''session/update'' (text_chunk (ac_session cfg) t))) s)"
    if "mid_turn None [] None False s" "t \<noteq> []"
    using that by (simp add: mid_turn_def acp_step_def on_agent_notification_def note_completion_def text_chunk_events put_tracked_def
        track_turn_signals_def put_out_def Let_def)
qed (use assms in \<open>simp_all add: mid_turn_def acp_step_def on_mail_def put_sent_def quiet_due_def due_def Let_def\<close>)

lemma late_injection_strands:
  assumes "ac_steer_ext cfg" "ac_quiet_settle cfg = Some d"
  shows "stranded [ac_transform cfg b] (run_acp cfg uuid (late_injection (ac_session cfg) a b d) (acp_begin cfg uuid 0 h rr commands))"
proof -
  have "mid_turn None [] None False (acp_begin cfg uuid 0 h rr commands)"
    by (simp add: mid_turn_def acp_begin_def send_prompt_def put_sent_def Let_def)
  note mid_turn_steps(1) [OF assms this, of "''ok''" uuid, simplified]
  note mid_turn_steps(2) [OF assms this, of a uuid]
  note mid_turn_steps(3) [OF assms this, of b uuid]
  note mid_turn_steps(4) [OF assms this, of uuid]
  then show ?thesis
    by (simp add: late_injection_def run_acp_def mid_turn_def acp_step_def [where x = "(d, StarveDue)"]
        acp_step_def [where x = "(d, SteeringResponse r i)" for r i] due_def on_starve_due_def after_turn_def
        on_steering_response_def steering_outcome_def opt_str_field_def json_get_def bt_get_Cons next_follower_def stranded_def acp_small Let_def)
qed

text \<open>
  A message can be left behind: when a turn is settled for silence while a steering call with a follower is open, and
  the call is then answered as injected, the follower is queued with no turn to wait for. It stays there, and a closed
  mailbox does not end the run either, until another message, an interrupt or the end of the agent comes.
\<close>
theorem acp_follower_stranded:
  assumes "ac_steer_ext cfg" "ac_quiet_settle cfg = Some d" "\<forall>x \<in> set xs. \<not> outside_input (snd x)"
    and "s = run_acp cfg uuid (late_injection (ac_session cfg) a b d @ xs) (acp_begin cfg uuid 0 h rr commands)"
  shows "ar_running s \<and> ar_turn s = None \<and> ar_queue s = [ac_transform cfg b]"
proof -
  have "stranded [ac_transform cfg b] s"
    using stranded_run [OF late_injection_strands [OF assms(1,2)] assms(3)] assms(4) by (simp add: run_acp_def)
  then show ?thesis by (simp add: stranded_def)
qed

text \<open>
  A tool result that reaches the loop together with the response of its turn is shown, but the tool stays open in the
  loop's books. The agent is idle, and still the next message, however late, first cancels a turn that does not exist.
\<close>
theorem drained_result_cancels_idle_agent:
  assumes "ar_running s" "ar_turn s = Some Asked" "\<not> ar_interrupted s" "ar_open s" "ar_call s = None" "ar_queue s = []"
    and "ar_flush_deadline s = None" "i \<in> set (ar_tools s)"
    and "t = acp_step cfg uuid (now, PromptResponse (Inr r) None [InNotification meth params]) s"
  shows "ar_turn t = None \<and> i \<in> set (ar_tools t) \<and>
    ar_sent (acp_step cfg uuid (later, MailMessage m) t) = ar_sent t @ [SentCancel]"
proof -
  have settle: "settle_call uuid None u = u" if "ar_call u = None" for u using that by (simp add: settle_call_def)
  define u where "u = put_turn_end cfg uuid (Inr r) (drain_all cfg uuid [InNotification meth params]
      (remember_prompt (s\<lparr>ar_turn := None, ar_starve_deadline := None, ar_stall_deadline := None\<rparr>)))"
  have u: "ar_turn u = None" "ar_queue u = []" "ar_open u" "ar_running u" "\<not> ar_interrupted u" "i \<in> set (ar_tools u)"
    "ar_flush_deadline u = None" using assms by (simp_all add: u_def)
  have "t = after_turn cfg uuid now u"
    using assms u(5) by (simp add: acp_step_def on_prompt_response_def settle u_def Let_def)
  then have "t = u" using u by (simp add: after_turn_def)
  then show ?thesis using u by (auto simp: acp_step_def on_mail_def put_sent_def Let_def)
qed

section \<open>Witnesses\<close>

definition sample_request :: run_request where
  "sample_request = \<lparr>rq_prompt = ''go'', rq_harness = None, rq_model = None, rq_reasoning = None, rq_model_options = [], rq_cwd = ''/w'',
     rq_sandbox = WorkspaceWrite, rq_auto_approve = True, rq_resume = None, rq_mcp_servers = None, rq_attachments = [], rq_worktree = None\<rparr>"

definition sample_config :: acp_config where
  "sample_config = \<lparr>ac_session = ''s'', ac_steer_ext = True, ac_prompt_complete = False, ac_prompt_stall = None, ac_quiet_settle = Some 30000,
     ac_transform = (\<lambda>p. p), ac_agent_name = ''Grok'', ac_stall_hint = []\<rparr>"

definition sample_begin :: acp_run where
  "sample_begin = acp_begin sample_config show_nat 0 Grok sample_request []"

lemma sample_begin_eq: "sample_begin = acp_begin sample_config show_nat 0 Grok sample_request []"
  by (simp add: sample_begin_def)

lemma sample_config_parts [simp]:
  "ac_steer_ext sample_config" "ac_quiet_settle sample_config = Some 30000" "ac_transform sample_config p = p" "ac_session sample_config = ''s''"
  "\<not> ac_prompt_complete sample_config" "ac_prompt_stall sample_config = None"
  by (simp_all add: sample_config_def)

lemma sample_begin_parts [simp]:
  "ar_running sample_begin" "ar_turn sample_begin = Some Asked" "\<not> ar_interrupted sample_begin" "ar_open sample_begin"
  "ar_consumer sample_begin" "ar_queue sample_begin = []" "ar_call sample_begin = None" "ar_flush_deadline sample_begin = None"
  "ar_asked sample_begin = []" "ar_tools sample_begin = []" "ar_starve_deadline sample_begin = None" "ar_last_update sample_begin = 0"
  "ar_injected sample_begin = []" "ar_backlog sample_begin = []"
  by (simp_all add: sample_begin_def acp_begin_def send_prompt_def put_sent_def Let_def)

theorem acp_working_iff_prompt_witness:
  "working (ar_out (run_acp sample_config show_nat [(0, MailMessage ''hey'')] sample_begin))"
proof -
  let ?s = "run_acp sample_config show_nat [(0, MailMessage ''hey'')] sample_begin"
  have "ar_running ?s" "ar_turn ?s \<noteq> None" by (simp_all add: run_acp_def acp_step_def on_mail_def put_sent_def Let_def)
  then show ?thesis using acp_working_iff_prompt [OF refl, of sample_config show_nat "[(0, MailMessage ''hey'')]" 0 Grok sample_request "[]"]
    unfolding sample_begin_eq [symmetric] by simp
qed

theorem acp_steers_conserved_witness:
  "acp_held (run_acp sample_config show_nat [(0, MailMessage ''hey'')] sample_begin) = {#''go'', ''hey''#}"
proof -
  let ?s = "run_acp sample_config show_nat [(0, MailMessage ''hey'')] sample_begin"
  have "ar_running ?s" "\<not> ar_interrupted ?s" by (simp_all add: run_acp_def acp_step_def on_mail_def put_sent_def Let_def)
  moreover have "acp_taken sample_config show_nat [(0, MailMessage ''hey'')] sample_begin = [''hey'']" by (simp add: acp_takes_def)
  ultimately show ?thesis
    using acp_steers_conserved [OF refl, of sample_config show_nat "[(0, MailMessage ''hey'')]" 0 Grok sample_request "[]"]
    unfolding sample_begin_eq [symmetric] by (simp add: sample_request_def)
qed

theorem acp_quiet_turn_settles_witness:
  "\<not> working (ar_out (run_acp sample_config show_nat [(10, QuietDue), (30000, QuietDue), (30000, StarveDue)] (sample_begin\<lparr>ar_content_seen := True\<rparr>)))"
proof -
  have "ar_stall_deadline sample_begin = None" by (simp add: sample_begin_def acp_begin_def send_prompt_def put_sent_def Let_def)
  then show ?thesis
    using acp_quiet_turn_settles [OF _ _ _ _ _ _ _ _ _ _ refl refl, of "sample_begin\<lparr>ar_content_seen := True\<rparr>" sample_config 30000 "[(10, QuietDue)]" 30000 "[]" 30000 show_nat]
    by simp
qed

theorem acp_follower_stranded_witness:
  "ar_queue (run_acp sample_config show_nat (late_injection ''s'' ''one'' ''two'' 30000 @ [(60000, MailClosed), (90000, FlushDue)]) sample_begin) = [''two'']"
  using acp_follower_stranded [OF _ _ _ refl, of sample_config 30000 "[(60000, MailClosed), (90000, FlushDue)]" show_nat "''one''" "''two''" Grok sample_request "[]"]
  unfolding sample_begin_eq [symmetric] by simp

theorem drained_result_cancels_idle_agent_witness:
  "ar_turn (acp_step sample_config show_nat (5, PromptResponse (Inr JNull) None
     [InNotification ''session/update'' (JObj [(''sessionId'', JStr ''s''), (''update'', JObj [(''sessionUpdate'', JStr ''tool_call_update''),
        (''status'', JStr ''completed''), (''toolCallId'', JStr ''t'')])])]) (sample_begin\<lparr>ar_tools := [''t'']\<rparr>)) = None"
  using drained_result_cancels_idle_agent [OF _ _ _ _ _ _ _ _ refl, of "sample_begin\<lparr>ar_tools := [''t'']\<rparr>" "''t''" sample_config show_nat 5 JNull "''session/update''"]
  by simp

end
