(* ===== verification/Base64.thy ===== *)
theory Base64
  imports Rust_Str
begin

text \<open>
  What the sources rely on of the standard base64 alphabet with padding, which a library of theirs implements: an
  interface with its laws, and the encoding of RFC 4648, which satisfies them.
\<close>

section \<open>The interface\<close>

definition b64_digit :: "char \<Rightarrow> bool" where
  "b64_digit c = (is_ascii_alnum c \<or> c = CHR ''+'' \<or> c = CHR ''/'' \<or> c = CHR ''='')"

locale base64_codec =
  fixes encode :: "string \<Rightarrow> string" and decode :: "string \<Rightarrow> string option"
  assumes decode_encode: "decode (encode b) = Some b"
    and encode_digits: "c \<in> set (encode b) \<Longrightarrow> b64_digit c"
    and length_encode: "length (encode b) = 4 * ((length b + 2) div 3)"
    and encode_append: "length b mod 3 = 0 \<Longrightarrow> encode (b @ b') = encode b @ encode b'"

section \<open>RFC 4648\<close>

definition b64_char :: "nat \<Rightarrow> char" where
  "b64_char n =
     (if n < 26 then char_of (65 + n) else if n < 52 then char_of (71 + n) else if n < 62 then char_of (n - 4)
      else if n = 62 then CHR ''+'' else CHR ''/'')"

definition b64_val :: "char \<Rightarrow> nat option" where
  "b64_val c =
     (let n = of_char c
      in if 65 \<le> n \<and> n \<le> 90 then Some (n - 65) else if 97 \<le> n \<and> n \<le> 122 then Some (n - 71)
         else if 48 \<le> n \<and> n \<le> 57 then Some (n + 4) else if n = 43 then Some 62 else if n = 47 then Some 63 else None)"

fun b64_encode :: "string \<Rightarrow> string" where
  "b64_encode [] = []"
| "b64_encode [a] = [b64_char (of_char a div 4), b64_char (of_char a mod 4 * 16), CHR ''='', CHR ''='']"
| "b64_encode [a, b] =
     [b64_char (of_char a div 4), b64_char (of_char a mod 4 * 16 + of_char b div 16), b64_char (of_char b mod 16 * 4), CHR ''='']"
| "b64_encode (a # b # c # r) =
     b64_char (of_char a div 4) # b64_char (of_char a mod 4 * 16 + of_char b div 16) #
     b64_char (of_char b mod 16 * 4 + of_char c div 64) # b64_char (of_char c mod 64) # b64_encode r"

text \<open>Padding stands only at the end, and the bits it leaves over are zero.\<close>

fun b64_decode :: "string \<Rightarrow> string option" where
  "b64_decode [] = Some []"
| "b64_decode (a # b # c # d # r) =
     (case (b64_val a, b64_val b) of
        (Some w, Some x) \<Rightarrow>
          (if c = CHR ''='' then (if d = CHR ''='' \<and> r = [] \<and> x mod 16 = 0 then Some [char_of (w * 4 + x div 16)] else None)
           else case b64_val c of
             None \<Rightarrow> None
           | Some y \<Rightarrow>
               if d = CHR ''='' then
                 (if r = [] \<and> y mod 4 = 0 then Some [char_of (w * 4 + x div 16), char_of (x mod 16 * 16 + y div 4)] else None)
               else (case b64_val d of
                  None \<Rightarrow> None
                | Some z \<Rightarrow>
                    map_option (\<lambda>t. char_of (w * 4 + x div 16) # char_of (x mod 16 * 16 + y div 4) # char_of (y mod 4 * 64 + z) # t)
                      (b64_decode r)))
      | _ \<Rightarrow> None)"
| "b64_decode _ = None"

section \<open>The encoding satisfies the laws\<close>

lemma b64_val_char: "n < 64 \<Longrightarrow> b64_val (b64_char n) = Some n"
  by (auto simp: b64_val_def b64_char_def Let_def)

lemma b64_char_digit: "b64_digit (b64_char n)"
  by (auto simp: b64_digit_def b64_char_def is_ascii_alnum_def Let_def)

lemma b64_char_not_pad: "n < 64 \<Longrightarrow> b64_char n \<noteq> CHR ''=''"
  using b64_val_char [of n] by (auto simp: b64_val_def)

lemma byte_bound: "(of_char c :: nat) < 256"
  by (metis of_char_mod_256 mod_less_divisor zero_less_numeral)

lemma sextets:
  assumes "x < 256" "y < (256 :: nat)"
  shows "x div 4 < 64" "x mod 4 * 16 + y div 16 < 64" "x mod 4 * 16 < 64" "y mod 16 * 4 + x div 64 < 64" "y mod 16 * 4 < 64"
    "x mod 64 < 64"
proof -
  have "x div 4 < 64" "y div 16 < 16" "x div 64 < 4" using assms by (auto simp: less_mult_imp_div_less)
  moreover have "x mod 4 < 4" "y mod 16 < 16" by auto
  ultimately show "x div 4 < 64" "x mod 4 * 16 + y div 16 < 64" "x mod 4 * 16 < 64" "y mod 16 * 4 + x div 64 < 64" "y mod 16 * 4 < 64"
    "x mod 64 < 64" by auto
qed

lemma octets:
  assumes "y < (256 :: nat)"
  shows "y div 16 div 16 = 0" "y div 16 mod 16 = y div 16" "y div 64 div 4 = 0" "y div 64 mod 4 = y div 64"
proof -
  have "y div 16 < 16" "y div 64 < 4" using assms by (auto simp: less_mult_imp_div_less)
  then show "y div 16 div 16 = 0" "y div 16 mod 16 = y div 16" "y div 64 div 4 = 0" "y div 64 mod 4 = y div 64" by auto
qed

lemma b64_decode_encode: "b64_decode (b64_encode s) = Some s"
proof (induction s rule: b64_encode.induct)
  case (2 a)
  show ?case using sextets [of "of_char a" "of_char a", OF byte_bound byte_bound] by (simp add: b64_val_char)
next
  case (3 a b)
  show ?case using sextets [of "of_char a" "of_char b", OF byte_bound byte_bound] sextets [of "of_char b" "of_char b", OF byte_bound byte_bound]
    by (simp add: b64_val_char b64_char_not_pad octets [OF byte_bound])
next
  case (4 a b c r)
  show ?case
    using 4 sextets [of "of_char a" "of_char b", OF byte_bound byte_bound] sextets [of "of_char c" "of_char b", OF byte_bound byte_bound]
    by (simp add: b64_val_char b64_char_not_pad octets [OF byte_bound])
qed simp

lemma b64_encode_append: "length b mod 3 = 0 \<Longrightarrow> b64_encode (b @ b') = b64_encode b @ b64_encode b'"
  by (induction b rule: b64_encode.induct) auto

interpretation rfc4648: base64_codec b64_encode b64_decode
proof
  show "b64_decode (b64_encode b) = Some b" for b by (rule b64_decode_encode)
  show "c \<in> set (b64_encode b) \<Longrightarrow> b64_digit c" for c b
    by (induction b rule: b64_encode.induct) (auto simp: b64_char_digit b64_digit_def [of "CHR ''=''"])
  show "length (b64_encode b) = 4 * ((length b + 2) div 3)" for b
  proof (induction b rule: b64_encode.induct)
    case (4 a b c r)
    have "(length (a # b # c # r) + 2) div 3 = (length r + 2) div 3 + 1" by simp
    with 4 show ?case by simp
  qed auto
  show "length b mod 3 = 0 \<Longrightarrow> b64_encode (b @ b') = b64_encode b @ b64_encode b'" for b b' by (rule b64_encode_append)
qed

end
