(* ===== verification/Uploads.thy ===== *)
theory Uploads
  imports Base64 Commands
begin

text \<open>
  Attachments on their way to the device that runs the agent: the staging, committing and reading of uploads
  (\<open>crates/engine/src/uploads.rs\<close>) and the escort that pushes them to a remote host (\<open>doc_host.rs\<close>). Base64 and the
  resolution of symbolic links by the operating system are parameters; a file operation that is allowed succeeds.
  Times are milliseconds.
\<close>

section \<open>References\<close>

definition pending_ref_prefix :: string where "pending_ref_prefix = ''pending://''"

definition is_pending_ref :: "string \<Rightarrow> bool" where
  "is_pending_ref path = prefix pending_ref_prefix path"

definition pending_ref :: "string \<Rightarrow> string \<Rightarrow> string" where
  "pending_ref upload_id name = pending_ref_prefix @ upload_id @ ''/'' @ name"

definition parse_pending_ref :: "string \<Rightarrow> (string \<times> string) option" where
  "parse_pending_ref path =
     (case strip_prefix pending_ref_prefix path of
        None \<Rightarrow> None
      | Some rest \<Rightarrow>
          (case split_once ''/'' rest of
             None \<Rightarrow> None
           | Some (i, name) \<Rightarrow> if i \<noteq> [] \<and> name \<noteq> [] then Some (i, name) else None))"

definition pending_refs_in :: "string \<Rightarrow> string list" where
  "pending_refs_in body =
     List.map_filter (\<lambda>line. case strip_prefix ''- '' (trim_start line) of
         None \<Rightarrow> None
       | Some rest \<Rightarrow> if is_pending_ref (trim rest) then Some (trim rest) else None) (str_lines body)"

record attachment_transfer =
  tr_upload_id :: string
  tr_file_name :: string

section \<open>The store of a device\<close>

datatype upload_error =
    InvalidUploadId
  | InvalidChunkIndex
  | UploadTooLarge
  | UnknownUpload
  | MissingChunk
  | InvalidBase64
  | OutsideCache
  | NotAFile
  | AttachmentTooLarge
  | UnsupportedImage

text \<open>A staging directory: when it was made, and its chunk files by number with content and time of writing.\<close>

record staging =
  sg_made :: int
  sg_chunks :: "(nat \<times> string \<times> int) list"

text \<open>
  The uploads of a device: its directory, further roots for reading, the staging directories by upload, and the
  regular files of the device by path.
\<close>

record uploads =
  up_dir :: string
  up_read_roots :: "string list"
  up_staging :: "string \<rightharpoonup> staging"
  up_files :: "string \<rightharpoonup> string"

definition max_bytes :: nat where "max_bytes = 32 * 1024 * 1024"

definition staging_ttl :: int where "staging_ttl = 10 * 60 * 1000"

definition read_chunk_bytes :: nat where "read_chunk_bytes = 45000"

definition add_read_only_root :: "string \<Rightarrow> uploads \<Rightarrow> uploads" where
  "add_read_only_root root u =
     (if root \<in> set (up_read_roots u) then u else u\<lparr>up_read_roots := up_read_roots u @ [root]\<rparr>)"

definition upload_id_ok :: "string \<Rightarrow> bool" where
  "upload_id_ok i =
     (i \<noteq> [] \<and> length i \<le> 64 \<and> list_all (\<lambda>c. is_ascii_alnum c \<or> c = CHR ''-'' \<or> c = CHR ''_'') i)"

text \<open>The newest chunk tells the age of a staging directory; one without chunks has its own age.\<close>

definition newest_chunk :: "staging \<Rightarrow> int" where
  "newest_chunk d = (case map (\<lambda>(_, _, at). at) (sg_chunks d) of [] \<Rightarrow> sg_made d | t # ts \<Rightarrow> fold max ts t)"

definition sweep_stale :: "int \<Rightarrow> uploads \<Rightarrow> uploads" where
  "sweep_stale now u =
     u\<lparr>up_staging := \<lambda>i. case up_staging u i of
          Some d \<Rightarrow> if now - newest_chunk d > staging_ttl then None else Some d
        | None \<Rightarrow> None\<rparr>"

definition next_free_seq :: "(nat \<times> string \<times> int) list \<Rightarrow> nat" where
  "next_free_seq cs = fold (\<lambda>(s, _, _). max (s + 1)) cs 0"

definition put_chunk :: "nat \<Rightarrow> string \<Rightarrow> int \<Rightarrow> (nat \<times> string \<times> int) list \<Rightarrow> (nat \<times> string \<times> int) list" where
  "put_chunk seq data now cs = filter (\<lambda>(s, _, _). s \<noteq> seq) cs @ [(seq, data, now)]"

definition append_chunk :: "int \<Rightarrow> string \<Rightarrow> string \<Rightarrow> nat option \<Rightarrow> uploads \<Rightarrow> (upload_error + unit) \<times> uploads" where
  "append_chunk now upload_id data seq u =
     (if \<not> upload_id_ok upload_id then (Inl InvalidUploadId, u)
      else
        let u = sweep_stale now u;
            d = (case up_staging u upload_id of Some d \<Rightarrow> d | None \<Rightarrow> \<lparr>sg_made = now, sg_chunks = []\<rparr>);
            u = u\<lparr>up_staging := (up_staging u)(upload_id \<mapsto> d)\<rparr>;
            at = (case seq of Some s \<Rightarrow> s | None \<Rightarrow> next_free_seq (sg_chunks d))
        in if at > 1000000 then (Inl InvalidChunkIndex, u)
           else
             let staged = sum_list (map (\<lambda>(_, c, _). length c) (filter (\<lambda>(s, _, _). s \<noteq> at) (sg_chunks d)))
             in if (staged + length data) * 3 div 4 > max_bytes
                then (Inl UploadTooLarge, u\<lparr>up_staging := (up_staging u)(upload_id := None)\<rparr>)
                else (Inr (), u\<lparr>up_staging := (up_staging u)(upload_id \<mapsto> d\<lparr>sg_chunks := put_chunk at data now (sg_chunks d)\<rparr>)\<rparr>))"

text \<open>The name a file keeps: its last component, with every character outside a safe set replaced, at most 80 of them.\<close>

definition clean_char :: "char \<Rightarrow> char" where
  "clean_char c = (if is_ascii_alnum c \<or> c = CHR ''.'' \<or> c = CHR ''-'' \<or> c = CHR ''_'' then c else CHR ''_'')"

definition sanitize :: "string \<Rightarrow> string" where
  "sanitize name =
     (let base = (case file_name name of Some b \<Rightarrow> b | None \<Rightarrow> []);
          cleaned = map clean_char (filter (\<lambda>c. \<not> cont_byte c) base);
          tail = drop (length cleaned - 80) cleaned
      in if tail = [] then ''upload'' else tail)"

definition join_path :: "string \<Rightarrow> string \<Rightarrow> string" where
  "join_path d name = (if d = [] \<or> last d = CHR ''/'' then d @ name else d @ ''/'' @ name)"

text \<open>The chunks in their order, up to the first that is missing.\<close>

fun join_chunks :: "nat \<Rightarrow> (nat \<times> string \<times> int) list \<Rightarrow> string option" where
  "join_chunks i [] = Some []"
| "join_chunks i ((s, data, at) # cs) = (if s \<noteq> i then None else map_option ((@) (trim data)) (join_chunks (Suc i) cs))"

definition commit_path :: "uploads \<Rightarrow> string \<Rightarrow> string \<Rightarrow> string" where
  "commit_path u upload_id name = join_path (up_dir u) (take_chars 8 upload_id @ ''-'' @ sanitize name)"

definition commit :: "(string \<Rightarrow> string option) \<Rightarrow> string \<Rightarrow> string \<Rightarrow> uploads \<Rightarrow> (upload_error + string) \<times> uploads" where
  "commit decode upload_id name u =
     (if \<not> upload_id_ok upload_id then (Inl InvalidUploadId, u)
      else
        let cs = (case up_staging u upload_id of Some d \<Rightarrow> sg_chunks d | None \<Rightarrow> [])
        in if cs = [] then (Inl UnknownUpload, u)
           else case join_chunks 0 (sort_key fst cs) of
             None \<Rightarrow> (Inl MissingChunk, u)
           | Some joined \<Rightarrow>
               (case decode joined of
                  None \<Rightarrow> (Inl InvalidBase64, u)
                | Some content \<Rightarrow>
                    let unstaged = u\<lparr>up_staging := (up_staging u)(upload_id := None)\<rparr>
                    in if length content > max_bytes then (Inl UploadTooLarge, unstaged)
                       else (Inr (commit_path u upload_id name),
                             unstaged\<lparr>up_files := (up_files u)(commit_path u upload_id name \<mapsto> content)\<rparr>)))"

definition pending_target :: "uploads \<Rightarrow> string \<Rightarrow> string \<Rightarrow> string" where
  "pending_target u upload_id name = join_path (up_dir u) (sanitize (take_chars 8 upload_id) @ ''-'' @ sanitize name)"

definition resolve_pending :: "uploads \<Rightarrow> string \<Rightarrow> string option" where
  "resolve_pending u path =
     (case parse_pending_ref path of
        None \<Rightarrow> None
      | Some (i, name) \<Rightarrow> if up_files u (pending_target u i name) \<noteq> None then Some (pending_target u i name) else None)"

section \<open>Reading an attachment\<close>

definition path_names :: "string \<Rightarrow> string list" where
  "path_names p = filter (\<lambda>c. c \<noteq> [] \<and> c \<noteq> ''.'') (path_components p)"

definition rooted :: "string \<Rightarrow> bool" where
  "rooted p = prefix ''/'' p"

definition path_starts_with :: "string \<Rightarrow> string \<Rightarrow> bool" where
  "path_starts_with p root = (rooted p = rooted root \<and> prefix (path_names root) (path_names p))"

definition path_same :: "string \<Rightarrow> string \<Rightarrow> bool" where
  "path_same p q = (rooted p = rooted q \<and> path_names p = path_names q)"

definition path_extension :: "string \<Rightarrow> string option" where
  "path_extension p =
     (case file_name p of
        None \<Rightarrow> None
      | Some n \<Rightarrow>
          (case before_last ''.'' n of
             None \<Rightarrow> None
           | Some stem \<Rightarrow> if stem = [] then None else Some (drop (length stem + 1) n)))"

definition mime_by_ext :: "string \<Rightarrow> string option" where
  "mime_by_ext p =
     (case path_extension p of
        None \<Rightarrow> None
      | Some ext \<Rightarrow>
          (let e = map ascii_lower ext
           in if e = ''png'' then Some ''image/png''
              else if e = ''jpg'' \<or> e = ''jpeg'' then Some ''image/jpeg''
              else if e = ''gif'' then Some ''image/gif''
              else if e = ''webp'' then Some ''image/webp''
              else if e = ''svg'' then Some ''image/svg+xml''
              else if e = ''bmp'' then Some ''image/bmp''
              else if e = ''tif'' \<or> e = ''tiff'' then Some ''image/tiff''
              else if e = ''avif'' then Some ''image/avif''
              else if e = ''heic'' then Some ''image/heic''
              else None))"

record inspected_file =
  if_resolved :: string
  if_name :: string
  if_mime :: string
  if_content :: string

text \<open>Both the file and the roots are resolved by the system before they are compared.\<close>

definition inspect :: "(string \<Rightarrow> string option) \<Rightarrow> string \<Rightarrow> string list \<Rightarrow> uploads \<Rightarrow> upload_error + inspected_file" where
  "inspect canonicalize path extra_roots u =
     (case (if is_pending_ref path then resolve_pending u path else Some path) of
        None \<Rightarrow> Inl OutsideCache
      | Some p \<Rightarrow>
          (case canonicalize p of
             None \<Rightarrow> Inl OutsideCache
           | Some resolved \<Rightarrow>
               if \<not> list_ex (\<lambda>root. path_starts_with resolved root \<and> \<not> path_same resolved root)
                   (List.map_filter canonicalize (up_dir u # up_read_roots u @ extra_roots))
               then Inl OutsideCache
               else case up_files u resolved of
                 None \<Rightarrow> Inl NotAFile
               | Some content \<Rightarrow>
                   if length content > max_bytes then Inl AttachmentTooLarge
                   else (case mime_by_ext resolved of
                      None \<Rightarrow> Inl UnsupportedImage
                    | Some mime \<Rightarrow>
                        Inr \<lparr>if_resolved = resolved, if_name = (case file_name resolved of Some n \<Rightarrow> n | None \<Rightarrow> ''attachment''),
                             if_mime = mime, if_content = content\<rparr>)))"

record attachment_chunk =
  ac_name :: string
  ac_mime :: string
  ac_data :: string
  ac_next :: nat
  ac_done :: bool

definition read_chunk ::
  "(string \<Rightarrow> string) \<Rightarrow> (string \<Rightarrow> string option) \<Rightarrow> string \<Rightarrow> nat \<Rightarrow> string list \<Rightarrow> uploads \<Rightarrow> upload_error + attachment_chunk" where
  "read_chunk encode canonicalize path offset extra_roots u =
     (case inspect canonicalize path extra_roots u of
        Inl e \<Rightarrow> Inl e
      | Inr f \<Rightarrow>
          (let size = length (if_content f);
               start = min offset size;
               next_offset = min (start + read_chunk_bytes) size
           in Inr \<lparr>ac_name = if_name f, ac_mime = if_mime f,
                   ac_data = encode (take (next_offset - start) (drop start (if_content f))),
                   ac_next = next_offset, ac_done = (next_offset \<ge> size)\<rparr>))"

section \<open>Pushing to a remote host\<close>

text \<open>
  The numbered ranges of a text of a given length, cut at a fixed size; an empty text still has one. The sizes in use
  are positive.
\<close>

function chunk_from :: "nat \<Rightarrow> nat \<Rightarrow> nat \<Rightarrow> nat \<Rightarrow> (nat \<times> nat \<times> nat) list" where
  "chunk_from k len start seq =
     (let e = min (start + k) len in (seq, start, e) # (if e \<ge> len \<or> k = 0 then [] else chunk_from k len e (seq + 1)))"
  by pat_completeness auto
termination
  by (relation "measure (\<lambda>(k, len, start, seq). len - start)") auto

declare chunk_from.simps [simp del]

definition slice :: "string \<Rightarrow> nat \<times> nat \<times> nat \<Rightarrow> string" where
  "slice s r = (case r of (_, a, b) \<Rightarrow> take (b - a) (drop a s))"

definition transfer_chunk_b64 :: nat where "transfer_chunk_b64 = 60000"

datatype host_call = PutChunk string nat string | PutCommit string string

fun serve_call :: "(string \<Rightarrow> string option) \<Rightarrow> int \<Rightarrow> host_call \<Rightarrow> uploads \<Rightarrow> (upload_error + unit) \<times> uploads" where
  "serve_call decode now (PutChunk i seq data) u = append_chunk now i data (Some seq) u"
| "serve_call decode now (PutCommit i name) u =
     (case commit decode i name u of (Inl e, u') \<Rightarrow> (Inl e, u') | (Inr path, u') \<Rightarrow> (Inr (), u'))"

text \<open>
  What becomes of a call over the link: it is lost, it is served and the answer is lost, or it is answered. The first
  two look the same to the caller.
\<close>

datatype call_fate = Dropped | Unanswered | Answered

datatype transfer_error = Transient | Permanent

definition call_host ::
  "(string \<Rightarrow> string option) \<Rightarrow> int \<times> call_fate \<Rightarrow> host_call \<Rightarrow> uploads \<Rightarrow> (transfer_error + unit) \<times> uploads" where
  "call_host decode link c u =
     (case serve_call decode (fst link) c u of (result, served) \<Rightarrow>
        (case snd link of
           Dropped \<Rightarrow> (Inl Transient, u)
         | Unanswered \<Rightarrow> (Inl Transient, served)
         | Answered \<Rightarrow> (case result of Inl _ \<Rightarrow> (Inl Permanent, served) | Inr _ \<Rightarrow> (Inr (), served))))"

definition transfer_calls :: "(string \<Rightarrow> string) \<Rightarrow> attachment_transfer \<Rightarrow> string \<Rightarrow> host_call list" where
  "transfer_calls encode t content =
     (let b64 = encode content
      in map (\<lambda>r. PutChunk (tr_upload_id t) (fst r) (slice b64 r)) (chunk_from transfer_chunk_b64 (length b64) 0 0) @
         [PutCommit (tr_upload_id t) (tr_file_name t)])"

text \<open>\<open>link n\<close> tells the time and the fate of the n-th call.\<close>

fun run_calls ::
  "(string \<Rightarrow> string option) \<Rightarrow> (nat \<Rightarrow> int \<times> call_fate) \<Rightarrow> nat \<Rightarrow> host_call list \<Rightarrow> uploads \<Rightarrow> (transfer_error + unit) \<times> nat \<times> uploads" where
  "run_calls decode link n [] u = (Inr (), n, u)"
| "run_calls decode link n (c # cs) u =
     (case call_host decode (link n) c u of
        (Inl e, u') \<Rightarrow> (Inl e, Suc n, u')
      | (Inr _, u') \<Rightarrow> run_calls decode link (Suc n) cs u')"

fun push_attachments ::
  "(string \<Rightarrow> string) \<Rightarrow> (string \<Rightarrow> string option) \<Rightarrow> (nat \<Rightarrow> int \<times> call_fate) \<Rightarrow> uploads \<Rightarrow> nat \<Rightarrow> attachment_transfer list \<Rightarrow>
   uploads \<Rightarrow> (transfer_error + unit) \<times> nat \<times> uploads" where
  "push_attachments encode decode link own n [] u = (Inr (), n, u)"
| "push_attachments encode decode link own n (t # ts) u =
     (case up_files own (pending_target own (tr_upload_id t) (tr_file_name t)) of
        None \<Rightarrow> (Inl Permanent, n, u)
      | Some content \<Rightarrow>
          (case run_calls decode link n (transfer_calls encode t content) u of
             (Inl e, m, u') \<Rightarrow> (Inl e, m, u')
           | (Inr _, m, u') \<Rightarrow> push_attachments encode decode link own m ts u'))"

text \<open>
  One round of the escort: whether the chat is hosted elsewhere, whether the host could be dialled, and whether the
  time for it is over afterwards. \<open>None\<close> is an escort that is still waiting for its next round.
\<close>

record escort_round =
  er_remote :: bool
  er_dialled :: bool
  er_over :: bool

fun deliver_attachments ::
  "(string \<Rightarrow> string) \<Rightarrow> (string \<Rightarrow> string option) \<Rightarrow> (nat \<Rightarrow> int \<times> call_fate) \<Rightarrow> uploads \<Rightarrow> attachment_transfer list \<Rightarrow>
   escort_round list \<Rightarrow> nat \<Rightarrow> uploads \<Rightarrow> bool option \<times> nat \<times> uploads" where
  "deliver_attachments encode decode link own ts [] n u = (None, n, u)"
| "deliver_attachments encode decode link own ts (r # rs) n u =
     (if \<not> er_remote r then (Some True, n, u)
      else case (if er_dialled r then push_attachments encode decode link own n ts u else (Inl Transient, n, u)) of
        (Inr _, m, u') \<Rightarrow> (Some True, m, u')
      | (Inl Permanent, m, u') \<Rightarrow> (Some False, m, u')
      | (Inl Transient, m, u') \<Rightarrow>
          if er_over r then (Some False, m, u') else deliver_attachments encode decode link own ts rs m u')"

section \<open>Commands that wait for attachments\<close>

fun payload_refs :: "command_payload \<Rightarrow> string list" where
  "payload_refs (Run request _) = filter is_pending_ref (rq_attachments request)"
| "payload_refs (Steer prompt _) = pending_refs_in prompt"
| "payload_refs _ = []"

definition command_transfers :: "command_entry \<Rightarrow> attachment_transfer list" where
  "command_transfers e =
     map (\<lambda>(i, name). \<lparr>tr_upload_id = i, tr_file_name = name\<rparr>) (List.map_filter parse_pending_ref (payload_refs (ce_payload e)))"

definition missing_attachments :: "uploads \<Rightarrow> command_entry \<Rightarrow> string list" where
  "missing_attachments u e = filter (\<lambda>r. resolve_pending u r = None) (payload_refs (ce_payload e))"

section \<open>Cutting and joining\<close>

lemma chunk_from_ne [simp]: "chunk_from k len a n \<noteq> []"
  by (subst chunk_from.simps) (simp add: Let_def)

lemma chunk_from_last: "len \<le> a + k \<or> k = 0 \<Longrightarrow> chunk_from k len a n = [(n, a, min (a + k) len)]"
  by (subst chunk_from.simps) (auto simp: Let_def)

lemma chunk_from_step: "0 < k \<Longrightarrow> a + k < len \<Longrightarrow> chunk_from k len a n = (n, a, a + k) # chunk_from k len (a + k) (Suc n)"
  by (subst chunk_from.simps) (auto simp: Let_def)

text \<open>Induction along the cuts.\<close>

lemma chunk_from_cuts [consumes 1, case_names last step]:
  assumes "0 < (k :: nat)" "\<And>a n. len \<le> a + k \<Longrightarrow> P a n" "\<And>a n. a + k < len \<Longrightarrow> P (a + k) (Suc n) \<Longrightarrow> P a n"
  shows "P a (n :: nat)"
proof (induction "len - a" arbitrary: a n rule: less_induct)
  case less
  show ?case
  proof (cases "len \<le> a + k")
    case False
    then have "len - (a + k) < len - a" using assms(1) by simp
    with less assms(3) False show ?thesis by simp
  qed (rule assms(2))
qed

lemma chunk_from_fst:
  assumes "0 < k"
  shows "map fst (chunk_from k len a n) = [n..<n + length (chunk_from k len a n)]"
  using assms
proof (induction a n rule: chunk_from_cuts [where len = len])
  case (step a n)
  have "chunk_from k len a n = (n, a, a + k) # chunk_from k len (a + k) (Suc n)" using assms step by (simp add: chunk_from_step)
  moreover have "n # [Suc n..<Suc n + m] = [n..<n + Suc m]" for m by (simp add: upt_conv_Cons del: upt_Suc)
  ultimately show ?case using step(2) by simp
qed (use assms in \<open>auto simp: chunk_from_last\<close>)

lemma chunk_from_slices:
  assumes "0 < k" "a \<le> length s"
  shows "concat (map (slice s) (chunk_from k (length s) a n)) = drop a s"
  using assms
proof (induction a n rule: chunk_from_cuts [where len = "length s"])
  case (step a n)
  have "take k (drop a s) @ drop (a + k) s = drop a s" by (metis append_take_drop_id drop_drop add.commute)
  with step assms(1) show ?case by (simp add: chunk_from_step slice_def [of s "(n, a, a + k)"])
qed (use assms in \<open>auto simp: chunk_from_last slice_def min_def\<close>)

lemma chunk_from_count:
  assumes "0 < k"
  shows "length (chunk_from k len a n) \<le> (len - a) div k + 1"
  using assms
proof (induction a n rule: chunk_from_cuts [where len = len])
  case (step a n)
  have "len - a = len - (a + k) + k" using step by simp
  then have "(len - a) div k = (len - (a + k)) div k + 1" using assms by (metis div_add_self2 neq0_conv)
  with step assms show ?case by (simp add: chunk_from_step)
qed (use assms in \<open>auto simp: chunk_from_last\<close>)

lemma join_chunks_Some:
  "join_chunks i cs = Some j \<longleftrightarrow> map fst cs = [i..<i + length cs] \<and> j = concat (map (\<lambda>c. trim (fst (snd c))) cs)"
proof (induction i cs arbitrary: j rule: join_chunks.induct)
  case (2 i s data at cs)
  have "[i..<i + length ((s, data, at) # cs)] = i # [Suc i..<Suc i + length cs]" by (simp add: upt_conv_Cons del: upt_Suc)
  with 2 show ?case by (auto simp del: upt_Suc)
qed auto

text \<open>The digits of base64 are not white space.\<close>

lemma strip_front_digit:
  assumes "\<forall>w \<in> set ws. w \<noteq> [] \<longrightarrow> \<not> b64_digit (hd w)" "s \<noteq> [] \<Longrightarrow> b64_digit (hd s)"
  shows "strip_front ws s = s"
proof (rule strip_front_fix)
  have "\<not> (w \<noteq> [] \<and> prefix w s)" if "w \<in> set ws" for w
    using assms that by (auto simp: prefix_def)
  then show "find (\<lambda>w. w \<noteq> [] \<and> prefix w s) ws = None" by (simp add: find_None_iff)
qed

lemma ws_not_digit: "\<forall>w \<in> set ws_chars. \<not> b64_digit (hd w) \<and> \<not> b64_digit (last w)"
  by code_simp

lemma trim_digits:
  assumes "\<forall>c \<in> set s. b64_digit c"
  shows "trim s = s"
proof -
  have front: "strip_front ws_chars s = s" using ws_not_digit assms by (intro strip_front_digit) auto
  have "strip_front (map rev ws_chars) (rev s) = rev s"
    using ws_not_digit assms by (intro strip_front_digit) (auto simp: hd_rev)
  with front show ?thesis by (simp add: trim_def trim_start_def trim_end_def)
qed

end
