(* ===== verification/Upload_Transfer.thy ===== *)
theory Upload_Transfer
  imports Uploads
begin

text \<open>
  What the escort of attachments guarantees: the bytes that land on the host are the bytes of the sender, whatever the
  link loses; an escort that meets a working link is done in one round; and what two escorts of the same upload can do
  to each other.
\<close>

section \<open>Chunks that belong to an upload\<close>

text \<open>\<open>P\<close> gives the pieces an upload is cut into.\<close>

definition pieces_of :: "string list \<Rightarrow> (nat \<times> string \<times> int) list \<Rightarrow> bool" where
  "pieces_of ps cs = (distinct (map fst cs) \<and> (\<forall>c \<in> set cs. fst c < length ps \<and> fst (snd c) = ps ! fst c))"

definition well_staged :: "(string \<rightharpoonup> string list) \<Rightarrow> uploads \<Rightarrow> bool" where
  "well_staged P u = (\<forall>i ps d. P i = Some ps \<longrightarrow> up_staging u i = Some d \<longrightarrow> pieces_of ps (sg_chunks d))"

fun fits :: "(string \<rightharpoonup> string list) \<Rightarrow> host_call \<Rightarrow> bool" where
  "fits P (PutChunk i seq data) = (\<forall>ps. P i = Some ps \<longrightarrow> seq < length ps \<and> data = ps ! seq)"
| "fits P (PutCommit i name) = True"

lemma set_put_chunk: "set (put_chunk seq data now cs) = {c \<in> set cs. fst c \<noteq> seq} \<union> {(seq, data, now)}"
  by (auto simp: put_chunk_def)

lemma pieces_of_put_chunk:
  assumes "pieces_of ps cs" "seq < length ps" "data = ps ! seq"
  shows "pieces_of ps (put_chunk seq data now cs)"
proof -
  have "distinct (map fst (put_chunk seq data now cs))"
    using assms(1) by (auto simp: put_chunk_def pieces_of_def distinct_map inj_on_def split_beta)
  then show ?thesis using assms by (auto simp: pieces_of_def set_put_chunk)
qed

lemma pieces_of_Nil [simp]: "pieces_of ps []"
  by (simp add: pieces_of_def)

lemma pieces_of_size:
  assumes "pieces_of ps cs"
  shows "sum_list (map (\<lambda>(_, c, _). length c) cs) \<le> sum_list (map length ps)"
proof -
  have keys: "distinct (map fst cs)" "\<forall>c \<in> set cs. fst c < length ps \<and> fst (snd c) = ps ! fst c"
    using assms by (auto simp: pieces_of_def)
  have "map (\<lambda>(_, c, _). length c) cs = map (\<lambda>s. length (ps ! s)) (map fst cs)" using keys(2) by auto
  then have "sum_list (map (\<lambda>(_, c, _). length c) cs) = (\<Sum>s \<in> set (map fst cs). length (ps ! s))"
    by (simp only: sum_list_distinct_conv_sum_set [OF keys(1)])
  also have "\<dots> \<le> (\<Sum>s \<in> {..<length ps}. length (ps ! s))" using keys(2) by (intro sum_mono2) auto
  also have "\<dots> = sum_list (map length ps)" by (simp add: sum_list_sum_nth atLeast0LessThan)
  finally show ?thesis .
qed

text \<open>When every piece is there, joining gives them all.\<close>

lemma join_staged:
  assumes "pieces_of ps cs" "\<forall>p \<in> set ps. trim p = p" "ps \<noteq> []" "length ps - 1 \<in> fst ` set cs"
    "join_chunks 0 (sort_key fst cs) = Some joined"
  shows "joined = concat ps"
proof -
  let ?s = "sort_key fst cs"
  have num: "map fst ?s = [0..<length cs]" and joined: "joined = concat (map (\<lambda>c. trim (fst (snd c))) ?s)"
    using assms(5) by (auto simp: join_chunks_Some)
  have keys: "fst ` set cs = {0..<length cs}" using num by (metis list.set_map set_sort set_upt)
  have "length ps - 1 < length cs" using assms(4) keys by auto
  moreover have "\<not> length ps < length cs"
  proof
    assume "length ps < length cs"
    then have "length ps \<in> fst ` set cs" using keys by simp
    then show False using assms(1) by (auto simp: pieces_of_def)
  qed
  ultimately have len: "length cs = length ps" by linarith
  have "map (\<lambda>c. trim (fst (snd c))) ?s = map (\<lambda>s. ps ! s) (map fst ?s)"
    using assms(1,2) by (auto simp: pieces_of_def)
  also have "\<dots> = ps" by (simp add: num len map_nth del: map_map)
  finally show ?thesis by (simp add: joined)
qed

lemma join_all_staged:
  assumes "pieces_of ps cs" "\<forall>p \<in> set ps. trim p = p" "ps \<noteq> []" "\<forall>s < length ps. s \<in> fst ` set cs"
  shows "join_chunks 0 (sort_key fst cs) = Some (concat ps)"
proof -
  let ?s = "sort_key fst cs"
  have keys: "set (map fst ?s) = {0..<length ps}" using assms(1,4) by (force simp: pieces_of_def)
  moreover have "distinct (map fst ?s)" using assms(1) by (simp add: pieces_of_def distinct_map)
  moreover have "sorted (map fst ?s)" by simp
  ultimately have num: "map fst ?s = [0..<length ps]" by (metis sorted_distinct_set_unique sorted_upt distinct_upt set_upt)
  then have "length cs = length ps" by (metis length_map length_sort length_upt diff_zero)
  with num obtain joined where joined: "join_chunks 0 ?s = Some joined" by (auto simp: join_chunks_Some)
  have "length ps - 1 \<in> fst ` set cs" using assms(3,4) by (cases ps) auto
  with joined show ?thesis using join_staged [OF assms(1-3)] by blast
qed

section \<open>Calls keep the pieces\<close>

lemma sweep_keeps [simp]: "up_files (sweep_stale now u) = up_files u" "up_dir (sweep_stale now u) = up_dir u" "up_read_roots (sweep_stale now u) = up_read_roots u"
  by (simp_all add: sweep_stale_def)

lemma sweep_staging: "up_staging (sweep_stale now u) i = Some d \<Longrightarrow> up_staging u i = Some d"
  by (auto simp: sweep_stale_def split: option.splits if_splits)

lemma append_chunk_keeps [simp]:
  "up_files (snd (append_chunk now i data seq u)) = up_files u" "up_dir (snd (append_chunk now i data seq u)) = up_dir u"
  by (auto simp: append_chunk_def Let_def)

lemma commit_keeps [simp]: "up_dir (snd (commit decode i name u)) = up_dir u"
  by (auto simp: commit_def Let_def split: option.splits)

lemma serve_commit_state: "snd (serve_call decode now (PutCommit i name) u) = snd (commit decode i name u)"
  by (simp split: prod.split sum.split)

lemma serve_keeps_dir [simp]: "up_dir (snd (serve_call decode now c u)) = up_dir u"
  by (cases c) (simp_all only: serve_commit_state commit_keeps serve_call.simps(1) append_chunk_keeps)

lemma append_staging:
  assumes "up_staging (snd (append_chunk now i data (Some seq) u)) j = Some d"
  shows "up_staging u j = Some d \<or>
    j = i \<and> (\<exists>cs. (cs = [] \<or> (\<exists>e. up_staging u i = Some e \<and> cs = sg_chunks e)) \<and> sg_chunks d \<in> {cs, put_chunk seq data now cs})"
proof -
  define d0 where "d0 = (case up_staging (sweep_stale now u) i of Some d \<Rightarrow> d | None \<Rightarrow> \<lparr>sg_made = now, sg_chunks = []\<rparr>)"
  have "sg_chunks d0 = [] \<or> (\<exists>e. up_staging u i = Some e \<and> sg_chunks d0 = sg_chunks e)"
    by (auto simp: d0_def dest: sweep_staging split: option.split)
  moreover have "up_staging u j = Some d \<or> j = i \<and> sg_chunks d \<in> {sg_chunks d0, put_chunk seq data now (sg_chunks d0)}"
    using assms unfolding append_chunk_def Let_def d0_def [symmetric] by (auto dest: sweep_staging split: if_splits)
  ultimately show ?thesis by metis
qed

lemma commit_staging:
  "up_staging (snd (commit decode i name u)) j = Some d \<Longrightarrow> up_staging u j = Some d"
  by (auto simp: commit_def Let_def split: option.splits if_splits)

lemma well_staged_serve:
  assumes "well_staged P u" "fits P c"
  shows "well_staged P (snd (serve_call decode now c u))"
proof (cases c)
  case (PutChunk i seq data)
  show ?thesis unfolding well_staged_def
  proof (intro allI impI)
    fix j ps d
    assume P: "P j = Some ps" and d: "up_staging (snd (serve_call decode now c u)) j = Some d"
    from d PutChunk have "up_staging (snd (append_chunk now i data (Some seq) u)) j = Some d" by simp
    from append_staging [OF this] show "pieces_of ps (sg_chunks d)"
      using assms P PutChunk by (auto simp: well_staged_def intro!: pieces_of_put_chunk)
  qed
next
  case (PutCommit i name)
  have "up_staging u j = Some d" if "up_staging (snd (serve_call decode now c u)) j = Some d" for j d
    using that commit_staging [of decode i name u j d] unfolding PutCommit serve_commit_state by blast
  then show ?thesis using assms by (auto simp: well_staged_def)
qed

lemma call_host_state: "snd (call_host decode link c u) \<in> {u, snd (serve_call decode (fst link) c u)}"
  by (auto simp: call_host_def split: prod.splits call_fate.splits sum.splits)

text \<open>What every call keeps, a sequence of calls keeps, however far it gets.\<close>

lemma run_invariant:
  assumes "I u" "\<And>c u now. c \<in> set cs \<Longrightarrow> I u \<Longrightarrow> I (snd (serve_call decode now c u))"
  shows "I (snd (snd (run_calls decode link n cs u)))"
  using assms
proof (induction cs arbitrary: n u)
  case (Cons c cs)
  obtain r u' where called: "call_host decode (link n) c u = (r, u')" by force
  have "I u'" using call_host_state [of decode "link n" c u] called Cons.prems by auto
  with Cons called show ?case by (auto split: sum.split)
qed simp

lemma well_staged_run:
  "well_staged P u \<Longrightarrow> \<forall>c \<in> set cs. fits P c \<Longrightarrow> well_staged P (snd (snd (run_calls decode link n cs u)))"
  by (rule run_invariant) (auto intro: well_staged_serve)

lemma run_keeps_dir: "up_dir (snd (snd (run_calls decode link n cs u))) = up_dir u"
  by (rule run_invariant) auto

definition puts_chunk :: "host_call \<Rightarrow> bool" where
  "puts_chunk c = (case c of PutChunk _ _ _ \<Rightarrow> True | PutCommit _ _ \<Rightarrow> False)"

lemma run_keeps_files: "\<forall>c \<in> set cs. puts_chunk c \<Longrightarrow> up_files (snd (snd (run_calls decode link n cs u))) = up_files u"
proof (rule run_invariant)
  fix c now and v :: uploads
  assume "\<forall>c \<in> set cs. puts_chunk c" "c \<in> set cs" "up_files v = up_files u"
  then show "up_files (snd (serve_call decode now c v)) = up_files u" by (cases c) (auto simp: puts_chunk_def)
qed simp

section \<open>What a successful transfer did\<close>

lemma append_chunk_done:
  assumes "append_chunk now i data (Some seq) u = (Inr (), u')"
  shows "\<exists>d. up_staging u' i = Some d \<and> (seq, data, now) \<in> set (sg_chunks d)"
  using assms by (auto simp: append_chunk_def Let_def set_put_chunk split: if_splits)

lemma commit_done:
  assumes "commit decode i name u = (Inr p, u')" "up_staging u i = Some d"
  shows "\<exists>joined content. upload_id_ok i \<and> join_chunks 0 (sort_key fst (sg_chunks d)) = Some joined \<and> decode joined = Some content \<and>
    up_files u' = (up_files u)(commit_path u i name \<mapsto> content) \<and> up_staging u' i = None"
  using assms by (auto simp: commit_def Let_def split: option.splits if_splits)

lemma serve_commit_done:
  "serve_call decode now (PutCommit i name) u = (Inr (), u') \<longleftrightarrow> (\<exists>p. commit decode i name u = (Inr p, u'))"
  by (auto split: prod.splits sum.splits)

lemma call_host_done: "call_host decode link c u = (Inr (), u') \<Longrightarrow> serve_call decode (fst link) c u = (Inr (), u')"
  by (auto simp: call_host_def split: prod.splits call_fate.splits sum.splits)

lemma run_calls_append:
  "run_calls decode link n (cs @ cs') u =
     (case run_calls decode link n cs u of (Inl e, m, u') \<Rightarrow> (Inl e, m, u') | (Inr _, m, u') \<Rightarrow> run_calls decode link m cs' u')"
  by (induction decode link n cs u rule: run_calls.induct) (auto split: prod.splits sum.splits)

section \<open>The pieces of a file\<close>

definition transfer_pieces :: "(string \<Rightarrow> string) \<Rightarrow> string \<Rightarrow> string list" where
  "transfer_pieces encode content =
     map (slice (encode content)) (chunk_from transfer_chunk_b64 (length (encode content)) 0 0)"

lemma transfer_pieces_ne [simp]: "transfer_pieces encode content \<noteq> []"
  by (simp add: transfer_pieces_def)

lemma transfer_calls_pieces:
  "transfer_calls encode t content =
     map (\<lambda>s. PutChunk (tr_upload_id t) s (transfer_pieces encode content ! s)) [0..<length (transfer_pieces encode content)] @
     [PutCommit (tr_upload_id t) (tr_file_name t)]"
proof -
  let ?rs = "chunk_from transfer_chunk_b64 (length (encode content)) 0 0"
  have "map fst ?rs = [0..<length ?rs]" using chunk_from_fst [of transfer_chunk_b64] by (simp add: transfer_chunk_b64_def)
  then have "fst (?rs ! s) = s" if "s < length ?rs" for s using that by (metis nth_map nth_upt add_0 diff_zero)
  then show ?thesis by (auto simp: transfer_calls_def transfer_pieces_def Let_def intro!: nth_equalityI)
qed

lemma transfer_calls_fit: "P (tr_upload_id t) = Some (transfer_pieces encode content) \<Longrightarrow> \<forall>c \<in> set (transfer_calls encode t content). fits P c"
  by (auto simp: transfer_calls_pieces)

text \<open>A valid upload id is kept as it is in the name of its file, so a reference resolves to what was committed.\<close>

lemma path_components_plain: "CHR ''/'' \<notin> set s \<Longrightarrow> path_components s = [s]"
  by (induction s) auto

lemma take_chars_ascii: "\<forall>c \<in> set s. \<not> cont_byte c \<Longrightarrow> take_chars n s = take n s"
  by (induction n s rule: take_chars.induct) (auto split: nat.split)

lemma sanitize_plain:
  assumes "s \<noteq> []" "length s \<le> 80" "list_all (\<lambda>c. is_ascii_alnum c \<or> c = CHR ''-'' \<or> c = CHR ''_'') s"
  shows "sanitize s = s"
proof -
  have safe: "\<forall>c \<in> set s. is_ascii_alnum c \<or> c = CHR ''-'' \<or> c = CHR ''_''" using assms(3) by (simp add: list_all_iff)
  then have chars: "\<forall>c \<in> set s. clean_char c = c \<and> \<not> cont_byte c"
    by (auto simp: clean_char_def cont_byte_def is_ascii_alnum_def Let_def)
  have "CHR ''/'' \<notin> set s" "CHR ''.'' \<notin> set s" using safe by (auto simp: is_ascii_alnum_def)
  then have "file_name s = Some s" using assms(1) by (auto simp: file_name_def path_components_plain)
  moreover have "filter (\<lambda>c. \<not> cont_byte c) s = s" "map clean_char s = s" using chars by (auto simp: filter_id_conv map_idI)
  ultimately show ?thesis using assms(1,2) by (simp add: sanitize_def Let_def)
qed

lemma target_commit: "upload_id_ok i \<Longrightarrow> pending_target u i name = commit_path u i name"
proof -
  assume ok: "upload_id_ok i"
  then have safe: "list_all (\<lambda>c. is_ascii_alnum c \<or> c = CHR ''-'' \<or> c = CHR ''_'') i" by (simp add: upload_id_ok_def)
  then have "\<forall>c \<in> set i. \<not> cont_byte c" by (auto simp: list_all_iff cont_byte_def is_ascii_alnum_def Let_def)
  then have "take_chars 8 i = take 8 i" by (rule take_chars_ascii)
  moreover have "sanitize (take 8 i) = take 8 i"
    using ok safe by (intro sanitize_plain) (auto simp: upload_id_ok_def list_all_iff dest: in_set_takeD)
  ultimately show ?thesis by (simp add: pending_target_def commit_path_def)
qed

definition target_of :: "uploads \<Rightarrow> attachment_transfer \<Rightarrow> string" where
  "target_of u t = pending_target u (tr_upload_id t) (tr_file_name t)"

definition own_content :: "uploads \<Rightarrow> attachment_transfer \<Rightarrow> string option" where
  "own_content own t = up_files own (target_of own t)"

lemma target_of_dir: "up_dir u = up_dir v \<Longrightarrow> target_of u = target_of v"
  by (auto simp: target_of_def pending_target_def)

section \<open>A working link\<close>

lemma newest_ge:
  assumes "(s, x, at) \<in> set (sg_chunks d)"
  shows "at \<le> newest_chunk d"
proof -
  have mem: "at \<in> set (map (\<lambda>(_, _, at). at) (sg_chunks d))" using assms by force
  then obtain t ts where ts: "map (\<lambda>(_, _, at). at) (sg_chunks d) = t # ts" by (metis list.set_cases)
  have "newest_chunk d = Max (set (t # ts))" unfolding newest_chunk_def ts list.case by (rule Max.set_eq_fold [symmetric])
  then show ?thesis using mem ts by simp
qed

lemma sweep_spares:
  assumes "up_staging u i = Some d" "(s, x, at) \<in> set (sg_chunks d)" "now - at \<le> staging_ttl"
  shows "up_staging (sweep_stale now u) i = Some d"
  using assms newest_ge [OF assms(2)] by (simp add: sweep_stale_def)

lemma append_succeeds:
  assumes "upload_id_ok i" "well_staged P u" "P i = Some ps" "s < length ps" "s \<le> 1000000" "sum_list (map length ps) * 3 div 4 \<le> max_bytes"
  shows "\<exists>u' d. append_chunk now i (ps ! s) (Some s) u = (Inr (), u') \<and> up_staging u' i = Some d \<and> (s, ps ! s, now) \<in> set (sg_chunks d) \<and>
    (\<forall>e. up_staging (sweep_stale now u) i = Some e \<longrightarrow> fst ` set (sg_chunks e) \<subseteq> fst ` set (sg_chunks d))"
proof -
  define d0 where "d0 = (case up_staging (sweep_stale now u) i of Some d \<Rightarrow> d | None \<Rightarrow> \<lparr>sg_made = now, sg_chunks = []\<rparr>)"
  let ?cs = "sg_chunks d0"
  have "pieces_of ps ?cs"
    using assms(2,3) by (auto simp: d0_def well_staged_def dest: sweep_staging split: option.split)
  then have "pieces_of ps (put_chunk s (ps ! s) now ?cs)" using assms(4) by (simp add: pieces_of_put_chunk)
  from pieces_of_size [OF this]
  have "sum_list (map (\<lambda>(_, c, _). length c) (filter (\<lambda>(s', _, _). s' \<noteq> s) ?cs)) + length (ps ! s) \<le> sum_list (map length ps)"
    by (simp add: put_chunk_def)
  then have "\<not> (sum_list (map (\<lambda>(_, c, _). length c) (filter (\<lambda>(s', _, _). s' \<noteq> s) ?cs)) + length (ps ! s)) * 3 div 4 > max_bytes"
    using assms(6) by (meson div_le_mono leD mult_le_mono1 order_trans)
  then have run: "append_chunk now i (ps ! s) (Some s) u =
    (Inr (), (sweep_stale now u)\<lparr>up_staging := (up_staging (sweep_stale now u))(i \<mapsto> d0\<lparr>sg_chunks := put_chunk s (ps ! s) now ?cs\<rparr>)\<rparr>)"
    using assms(1,5) unfolding append_chunk_def Let_def d0_def [symmetric] by simp
  have "fst ` set ?cs \<subseteq> fst ` set (put_chunk s (ps ! s) now ?cs)" by (force simp: set_put_chunk)
  then show ?thesis unfolding run by (auto simp: set_put_chunk d0_def)
qed

definition prompt_link :: "(nat \<Rightarrow> int \<times> call_fate) \<Rightarrow> nat \<Rightarrow> bool" where
  "prompt_link link n = (\<forall>k \<ge> n. snd (link k) = Answered \<and> fst (link (Suc k)) - fst (link k) \<le> staging_ttl)"

lemma call_answered: "snd link = Answered \<Longrightarrow> serve_call decode (fst link) c u = (Inr (), u') \<Longrightarrow> call_host decode link c u = (Inr (), u')"
  by (simp add: call_host_def)

lemma run_chunks:
  assumes "upload_id_ok i" "well_staged P u" "P i = Some ps" "length ps \<le> 1000000" "sum_list (map length ps) * 3 div 4 \<le> max_bytes"
    "prompt_link link n" "k \<le> length ps"
  shows "\<exists>u'. run_calls decode link n (map (\<lambda>s. PutChunk i s (ps ! s)) [0..<k]) u = (Inr (), n + k, u') \<and> well_staged P u' \<and>
    (k > 0 \<longrightarrow> (\<exists>d. up_staging u' i = Some d \<and> (\<forall>s < k. s \<in> fst ` set (sg_chunks d)) \<and>
      (k - 1, ps ! (k - 1), fst (link (n + k - 1))) \<in> set (sg_chunks d)))"
  using assms(7)
proof (induction k)
  case (Suc k)
  then obtain u1 where u1: "run_calls decode link n (map (\<lambda>s. PutChunk i s (ps ! s)) [0..<k]) u = (Inr (), n + k, u1)" "well_staged P u1"
    and filled: "k > 0 \<longrightarrow> (\<exists>d. up_staging u1 i = Some d \<and> (\<forall>s < k. s \<in> fst ` set (sg_chunks d)) \<and>
      (k - 1, ps ! (k - 1), fst (link (n + k - 1))) \<in> set (sg_chunks d))" by auto
  let ?now = "fst (link (n + k))" and ?c = "PutChunk i k (ps ! k)"
  obtain u2 d where u2: "append_chunk ?now i (ps ! k) (Some k) u1 = (Inr (), u2)" "up_staging u2 i = Some d" "(k, ps ! k, ?now) \<in> set (sg_chunks d)"
    "\<forall>e. up_staging (sweep_stale ?now u1) i = Some e \<longrightarrow> fst ` set (sg_chunks e) \<subseteq> fst ` set (sg_chunks d)"
    using append_succeeds [OF assms(1) u1(2) assms(3), of k ?now] assms(4,5) Suc.prems by auto
  have "\<forall>s < Suc k. s \<in> fst ` set (sg_chunks d)"
  proof (cases k)
    case 0
    then show ?thesis using u2(3) by force
  next
    case (Suc j)
    then obtain e where e: "up_staging u1 i = Some e" "\<forall>s < k. s \<in> fst ` set (sg_chunks e)"
      "(k - 1, ps ! (k - 1), fst (link (n + k - 1))) \<in> set (sg_chunks e)" using filled by auto
    have "?now - fst (link (n + k - 1)) \<le> staging_ttl" using assms(6) Suc by (auto simp: prompt_link_def)
    from sweep_spares [OF e(1,3) this] have "fst ` set (sg_chunks e) \<subseteq> fst ` set (sg_chunks d)" using u2(4) by blast
    with e(2) u2(3) show ?thesis by (force simp: less_Suc_eq)
  qed
  moreover have "call_host decode (link (n + k)) ?c u1 = (Inr (), u2)"
    using assms(6) u2(1) by (intro call_answered) (auto simp: prompt_link_def)
  moreover have "well_staged P u2" using well_staged_serve [OF u1(2), of ?c decode ?now] assms(3) Suc.prems u2(1) by auto
  ultimately show ?case using u1(1) u2(2,3) by (simp add: run_calls_append)
qed (use assms in simp)

lemma push_state:
  assumes "well_staged P u"
    "\<forall>t \<in> set ts. \<forall>c. own_content own t = Some c \<longrightarrow> P (tr_upload_id t) = Some (transfer_pieces encode c)"
  shows "well_staged P (snd (snd (push_attachments encode decode link own n ts u))) \<and>
    up_dir (snd (snd (push_attachments encode decode link own n ts u))) = up_dir u"
  using assms
proof (induction ts arbitrary: n u)
  case (Cons t ts)
  show ?case
  proof (cases "own_content own t")
    case None
    then show ?thesis using Cons.prems by (simp add: own_content_def target_of_def)
  next
    case (Some c)
    obtain r n1 u1 where run: "run_calls decode link n (transfer_calls encode t c) u = (r, n1, u1)" by (metis prod_cases3)
    have "P (tr_upload_id t) = Some (transfer_pieces encode c)" using Cons.prems(2) Some by simp
    then have "well_staged P u1"
      using well_staged_run [OF Cons.prems(1) transfer_calls_fit, of t encode c decode link n] run by simp
    moreover have "up_dir u1 = up_dir u" using run_keeps_dir [of decode link n "transfer_calls encode t c" u] run by simp
    ultimately show ?thesis using Cons.IH [of u1 n1] Cons.prems(2) Some run
      by (auto simp: own_content_def target_of_def split: sum.split)
  qed
qed simp

context base64_codec
begin

lemma concat_pieces: "concat (transfer_pieces encode content) = encode content"
  using chunk_from_slices [of transfer_chunk_b64 0 "encode content"] by (simp add: transfer_pieces_def transfer_chunk_b64_def)

lemma trim_pieces: "p \<in> set (transfer_pieces encode content) \<Longrightarrow> trim p = p"
  using encode_digits [of _ content]
  by (auto simp: transfer_pieces_def slice_def dest!: in_set_takeD in_set_dropD intro!: trim_digits split: prod.splits)

lemma transfer_done:
  assumes run: "run_calls decode link n (transfer_calls encode t content) u = (Inr (), m, u')"
    and ok: "well_staged P u" "P (tr_upload_id t) = Some (transfer_pieces encode content)"
  shows "upload_id_ok (tr_upload_id t)"
    and "up_files u' = (up_files u)(commit_path u (tr_upload_id t) (tr_file_name t) \<mapsto> content)"
    and "up_staging u' (tr_upload_id t) = None"
proof -
  let ?i = "tr_upload_id t" and ?ps = "transfer_pieces encode content"
  let ?chunks = "map (\<lambda>s. PutChunk ?i s (?ps ! s)) [0..<length ?ps - 1]" and ?last = "PutChunk ?i (length ?ps - 1) (?ps ! (length ?ps - 1))"
  have "[0..<length ?ps] = [0..<length ?ps - 1] @ [length ?ps - 1]"
    by (metis Suc_pred' length_greater_0_conv transfer_pieces_ne upt_Suc_append zero_le)
  then have calls: "transfer_calls encode t content = (?chunks @ [?last]) @ [PutCommit ?i (tr_file_name t)]"
    by (simp add: transfer_calls_pieces)
  obtain u1 n1 where u1: "run_calls decode link n (?chunks @ [?last]) u = (Inr (), n1, u1)"
    and commit1: "call_host decode (link n1) (PutCommit ?i (tr_file_name t)) u1 = (Inr (), u')"
    using run unfolding calls run_calls_append [of _ _ _ "?chunks @ [?last]"] by (auto split: prod.splits sum.splits)
  obtain u0 n0 where "call_host decode (link n0) ?last u0 = (Inr (), u1)"
    using u1 unfolding run_calls_append by (auto split: prod.splits sum.splits)
  then obtain d where d: "up_staging u1 ?i = Some d" "(length ?ps - 1, ?ps ! (length ?ps - 1), fst (link n0)) \<in> set (sg_chunks d)"
    using call_host_done append_chunk_done by (metis serve_call.simps(1))
  have "well_staged P (snd (snd (run_calls decode link n (?chunks @ [?last]) u)))"
    using transfer_calls_fit [of P t encode content] ok(2) unfolding calls
    by (intro well_staged_run [OF ok(1)]) auto
  then have pieces: "pieces_of ?ps (sg_chunks d)" using u1 ok(2) d(1) by (auto simp: well_staged_def)
  obtain p where "commit decode ?i (tr_file_name t) u1 = (Inr p, u')" using call_host_done [OF commit1] serve_commit_done by blast
  from commit_done [OF this d(1)] obtain joined c where fin: "upload_id_ok ?i" "join_chunks 0 (sort_key fst (sg_chunks d)) = Some joined"
    "decode joined = Some c" "up_files u' = (up_files u1)(commit_path u1 ?i (tr_file_name t) \<mapsto> c)" "up_staging u' ?i = None" by blast
  have "joined = concat ?ps" using join_staged [OF pieces _ _ _ fin(2)] trim_pieces d(2) by force
  then have "c = content" using fin(3) by (simp add: concat_pieces decode_encode)
  moreover have "up_files u1 = up_files u" "up_dir u1 = up_dir u"
    using run_keeps_files [of "?chunks @ [?last]" decode link n u] run_keeps_dir [of decode link n "?chunks @ [?last]" u] u1
    by (auto simp: puts_chunk_def)
  ultimately show "upload_id_ok ?i" "up_files u' = (up_files u)(commit_path u ?i (tr_file_name t) \<mapsto> content)" "up_staging u' ?i = None"
    using fin by (auto simp: commit_path_def)
qed

lemma push_done:
  assumes "push_attachments encode decode link own n ts u = (Inr (), m, u')" "well_staged P u"
    "\<forall>t \<in> set ts. \<forall>c. own_content own t = Some c \<longrightarrow> P (tr_upload_id t) = Some (transfer_pieces encode c)"
    "distinct (map (target_of u) ts)"
  shows "(\<forall>t \<in> set ts. own_content own t \<noteq> None \<and> up_files u' (target_of u t) = own_content own t) \<and>
    (\<forall>p. p \<notin> target_of u ` set ts \<longrightarrow> up_files u' p = up_files u p) \<and> up_dir u' = up_dir u"
  using assms
proof (induction ts arbitrary: n u)
  case (Cons t ts)
  obtain c where c: "own_content own t = Some c" using Cons.prems(1) by (auto simp: own_content_def target_of_def split: option.splits)
  obtain n1 u1 where run: "run_calls decode link n (transfer_calls encode t c) u = (Inr (), n1, u1)"
    and rest: "push_attachments encode decode link own n1 ts u1 = (Inr (), m, u')"
    using Cons.prems(1) c by (auto simp: own_content_def target_of_def split: prod.splits sum.splits)
  have P: "P (tr_upload_id t) = Some (transfer_pieces encode c)" using Cons.prems(3) c by simp
  note landed = transfer_done [OF run Cons.prems(2) P]
  have dir: "up_dir u1 = up_dir u" using run_keeps_dir [of decode link n "transfer_calls encode t c" u] run by simp
  then have targets: "target_of u1 = target_of u" by (rule target_of_dir)
  have "well_staged P u1"
    using well_staged_run [OF Cons.prems(2) transfer_calls_fit, of t encode c decode link n] P run by simp
  from Cons.IH [OF rest this] have IH: "\<forall>t \<in> set ts. own_content own t \<noteq> None \<and> up_files u' (target_of u t) = own_content own t"
    "\<forall>p. p \<notin> target_of u ` set ts \<longrightarrow> up_files u' p = up_files u1 p" "up_dir u' = up_dir u"
    using Cons.prems(3,4) unfolding targets dir by auto
  have "up_files u1 = (up_files u)(target_of u t \<mapsto> c)" using landed by (simp add: target_of_def target_commit)
  with IH c Cons.prems(4) show ?case by auto
qed simp

lemma deliver_done:
  assumes "deliver_attachments encode decode link own ts rounds n u = (Some True, m, u')" "\<forall>r \<in> set rounds. er_remote r" "well_staged P u"
    "\<forall>t \<in> set ts. \<forall>c. own_content own t = Some c \<longrightarrow> P (tr_upload_id t) = Some (transfer_pieces encode c)"
    "distinct (map (target_of u) ts)"
  shows "(\<forall>t \<in> set ts. own_content own t \<noteq> None \<and> up_files u' (target_of u t) = own_content own t) \<and> up_dir u' = up_dir u"
  using assms
proof (induction rounds arbitrary: n u)
  case (Cons r rs)
  show ?case
  proof (cases "er_dialled r")
    case False
    then show ?thesis using Cons by (auto split: if_splits)
  next
    case True
    obtain res n1 u1 where push: "push_attachments encode decode link own n ts u = (res, n1, u1)" by (metis prod_cases3)
    have kept: "well_staged P u1" "up_dir u1 = up_dir u"
      using push_state [OF Cons.prems(3,4), where decode = decode and link = link and n = n] push by auto
    then have targets: "target_of u1 = target_of u" by (intro target_of_dir)
    show ?thesis
    proof (cases res)
      case (Inl e)
      then have "deliver_attachments encode decode link own ts rs n1 u1 = (Some True, m, u')"
        using Cons.prems(1,2) True push by (auto split: transfer_error.splits if_splits)
      from Cons.IH [OF this] show ?thesis using Cons.prems kept targets by auto
    next
      case (Inr x)
      then have "push_attachments encode decode link own n ts u = (Inr (), m, u')" using Cons.prems(1,2) True push by auto
      from push_done [OF this Cons.prems(3-5)] show ?thesis by blast
    qed
  qed
qed simp

lemma pieces_limits:
  assumes "length content + 2 \<le> max_bytes"
  shows "length (transfer_pieces encode content) \<le> 1000000" "sum_list (map length (transfer_pieces encode content)) * 3 div 4 \<le> max_bytes"
proof -
  have sum: "sum_list (map length (transfer_pieces encode content)) = length (encode content)"
    by (metis concat_pieces length_concat)
  have "3 * ((length content + 2) div 3) \<le> length content + 2" by simp
  then show "sum_list (map length (transfer_pieces encode content)) * 3 div 4 \<le> max_bytes" using assms by (simp add: sum length_encode)
  have "length (encode content) \<le> 4 * max_bytes" using assms by (simp add: length_encode)
  then have "length (encode content) div transfer_chunk_b64 + 1 \<le> 4 * max_bytes div transfer_chunk_b64 + 1" by (simp add: div_le_mono)
  also have "\<dots> \<le> 1000000" by (simp add: max_bytes_def transfer_chunk_b64_def)
  finally show "length (transfer_pieces encode content) \<le> 1000000"
    using chunk_from_count [of transfer_chunk_b64 "length (encode content)" 0 0] by (simp add: transfer_pieces_def transfer_chunk_b64_def)
qed

lemma transfer_succeeds:
  assumes "upload_id_ok (tr_upload_id t)" "well_staged P u" "P (tr_upload_id t) = Some (transfer_pieces encode content)"
    "length content + 2 \<le> max_bytes" "prompt_link link n"
  shows "\<exists>m u'. n \<le> m \<and> run_calls decode link n (transfer_calls encode t content) u = (Inr (), m, u')"
proof -
  let ?i = "tr_upload_id t" and ?ps = "transfer_pieces encode content" and ?name = "tr_file_name t"
  obtain u1 d where u1: "run_calls decode link n (map (\<lambda>s. PutChunk ?i s (?ps ! s)) [0..<length ?ps]) u = (Inr (), n + length ?ps, u1)"
    "well_staged P u1" "up_staging u1 ?i = Some d" "\<forall>s < length ?ps. s \<in> fst ` set (sg_chunks d)"
    using run_chunks [OF assms(1-3) pieces_limits [OF assms(4)] assms(5), of "length ?ps" decode] by auto
  have "pieces_of ?ps (sg_chunks d)" using u1(2,3) assms(3) by (auto simp: well_staged_def)
  from join_all_staged [OF this _ transfer_pieces_ne u1(4)] have "join_chunks 0 (sort_key fst (sg_chunks d)) = Some (encode content)"
    using trim_pieces by (simp add: concat_pieces)
  moreover have "0 < length ?ps" by simp
  then have "sg_chunks d \<noteq> []" using u1(4) by fastforce
  ultimately have "\<exists>p u2. commit decode ?i ?name u1 = (Inr p, u2)"
    using assms(1,4) u1(3) by (simp add: commit_def decode_encode Let_def)
  then obtain u2 where "serve_call decode (fst (link (n + length ?ps))) (PutCommit ?i ?name) u1 = (Inr (), u2)"
    using serve_commit_done by blast
  then have "call_host decode (link (n + length ?ps)) (PutCommit ?i ?name) u1 = (Inr (), u2)"
    using assms(5) by (intro call_answered) (auto simp: prompt_link_def)
  with u1(1) show ?thesis
    by (intro exI [of _ "Suc (n + length ?ps)"] exI [of _ u2]) (simp add: transfer_calls_pieces run_calls_append)
qed

lemma push_succeeds:
  assumes "well_staged P u" "prompt_link link n"
    "\<forall>t \<in> set ts. \<exists>c. own_content own t = Some c \<and> upload_id_ok (tr_upload_id t) \<and> length c + 2 \<le> max_bytes \<and>
      P (tr_upload_id t) = Some (transfer_pieces encode c)"
  shows "\<exists>m u'. push_attachments encode decode link own n ts u = (Inr (), m, u')"
  using assms
proof (induction ts arbitrary: n u)
  case (Cons t ts)
  then obtain c where c: "own_content own t = Some c" "upload_id_ok (tr_upload_id t)" "length c + 2 \<le> max_bytes"
    "P (tr_upload_id t) = Some (transfer_pieces encode c)" by auto
  obtain m u' where run: "n \<le> m" "run_calls decode link n (transfer_calls encode t c) u = (Inr (), m, u')"
    using transfer_succeeds [OF c(2) Cons.prems(1) c(4,3) Cons.prems(2)] by blast
  have "well_staged P u'"
    using well_staged_run [OF Cons.prems(1) transfer_calls_fit, of t encode c decode link n] c(4) run(2) by simp
  moreover have "prompt_link link m" using Cons.prems(2) run(1) by (auto simp: prompt_link_def)
  ultimately have "\<exists>m' u''. push_attachments encode decode link own m ts u' = (Inr (), m', u'')" using Cons by auto
  with c(1) run(2) show ?case by (auto simp: own_content_def target_of_def)
qed simp

lemma first_piece:
  assumes "45000 < length content"
  shows "transfer_pieces encode content ! 0 = encode (take 45000 content)" "1 < length (transfer_pieces encode content)"
proof -
  let ?b = "encode content"
  have split: "?b = encode (take 45000 content) @ encode (drop 45000 content)"
    using encode_append [of "take 45000 content" "drop 45000 content"] assms by (simp add: min_def)
  have len: "length (encode (take 45000 content)) = 60000" using assms by (simp add: length_encode min_def)
  have "60000 < length ?b" using assms by (simp add: length_encode)
  then have "chunk_from transfer_chunk_b64 (length ?b) 0 0 = (0, 0, 60000) # chunk_from transfer_chunk_b64 (length ?b) 60000 (Suc 0)"
    by (simp add: chunk_from_step transfer_chunk_b64_def)
  then have "transfer_pieces encode content = take 60000 ?b # map (slice ?b) (chunk_from transfer_chunk_b64 (length ?b) 60000 (Suc 0))"
    by (simp add: transfer_pieces_def slice_def)
  moreover have "take 60000 ?b = encode (take 45000 content)" by (subst split) (simp add: len)
  ultimately show "transfer_pieces encode content ! 0 = encode (take 45000 content)" "1 < length (transfer_pieces encode content)"
    by simp_all
qed

text \<open>With a single chunk staged, a commit takes it for the whole file.\<close>

lemma lone_chunk_commits:
  assumes "upload_id_ok i" "up_staging u i = None" "length content + 2 \<le> max_bytes"
  shows "\<exists>u'. run_calls decode (\<lambda>_. (now, Answered)) n [PutChunk i 0 (encode content), PutCommit i name] u = (Inr (), n + 2, u') \<and>
    up_files u' = (up_files u)(commit_path u i name \<mapsto> content)"
proof -
  define d where "d = \<lparr>sg_made = now, sg_chunks = [(0 :: nat, encode content, now)]\<rparr>"
  define u1 where "u1 = (sweep_stale now u)\<lparr>up_staging := (up_staging (sweep_stale now u))(i \<mapsto> d)\<rparr>"
  have "3 * ((length content + 2) div 3) \<le> length content + 2" by simp
  then have "\<not> length (encode content) * 3 div 4 > max_bytes" using assms(3) by (simp add: length_encode)
  moreover have "up_staging (sweep_stale now u) i = None" using assms(2) by (simp add: sweep_stale_def)
  ultimately have chunk: "append_chunk now i (encode content) (Some 0) u = (Inr (), u1)"
    using assms(1) by (simp add: append_chunk_def Let_def u1_def d_def put_chunk_def)
  have "trim (encode content) = encode content" using encode_digits by (intro trim_digits) auto
  then have commit: "commit decode i name u1 = (Inr (commit_path u i name),
      u1\<lparr>up_staging := (up_staging u1)(i := None), up_files := (up_files u)(commit_path u i name \<mapsto> content)\<rparr>)"
    using assms(1,3) by (simp add: commit_def Let_def u1_def d_def decode_encode commit_path_def)
  show ?thesis by (simp add: call_host_def chunk commit)
qed

lemma racing_escorts:
  assumes "upload_id_ok (tr_upload_id t)" "up_staging u (tr_upload_id t) = None"
    and "45000 < length content" "length content + 2 \<le> max_bytes"
    and "transfer_calls encode t content = chunks @ [last_call]"
  shows "\<exists>m u1 u2. run_calls decode (\<lambda>_. (now, Answered)) 0 (chunks @ chunks @ [last_call]) u = (Inr (), m, u1) \<and>
      up_files u1 (target_of u t) = Some content \<and>
    run_calls decode (\<lambda>_. (now, Answered)) m [hd chunks, last_call] u1 = (Inr (), m + 2, u2) \<and>
      up_files u2 (target_of u t) = Some (take 45000 content)"
proof -
  let ?i = "tr_upload_id t" and ?ps = "transfer_pieces encode content" and ?link = "\<lambda>_. (now, Answered)"
  let ?P = "[?i \<mapsto> ?ps]"
  have calls: "chunks = map (\<lambda>s. PutChunk ?i s (?ps ! s)) [0..<length ?ps]" "last_call = PutCommit ?i (tr_file_name t)"
    using assms(5) by (auto simp: transfer_calls_pieces)
  have link: "prompt_link ?link n" for n by (simp add: prompt_link_def staging_ttl_def)
  have fresh: "well_staged ?P u" using assms(2) by (simp add: well_staged_def)
  obtain v where v: "run_calls decode ?link 0 chunks u = (Inr (), length ?ps, v)" "well_staged ?P v"
    using run_chunks [OF assms(1) fresh _ pieces_limits [OF assms(4)] link, of "length ?ps" decode 0] calls by auto
  obtain m u1 where u1: "run_calls decode ?link (length ?ps) (chunks @ [last_call]) v = (Inr (), m, u1)"
    using transfer_succeeds [OF assms(1) v(2) _ assms(4) link, of "length ?ps"] assms(5) by auto
  have "up_dir v = up_dir u" "up_files v = up_files u"
    using run_keeps_dir [of decode ?link 0 chunks u] run_keeps_files [of chunks decode ?link 0 u] v(1) calls(1) by (auto simp: puts_chunk_def)
  then have path: "commit_path v ?i (tr_file_name t) = target_of u t"
    using assms(1) by (simp add: target_of_def target_commit commit_path_def)
  have P: "?P ?i = Some ?ps" by simp
  note landed = transfer_done [OF u1 [folded assms(5)] v(2) P]
  have dir: "up_dir u1 = up_dir u"
    using run_keeps_dir [of decode ?link "length ?ps" "chunks @ [last_call]" v] u1 \<open>up_dir v = up_dir u\<close> by simp
  have "length (take 45000 content) + 2 \<le> max_bytes" using assms(4) by simp
  from lone_chunk_commits [OF assms(1) landed(3) this, of now m "tr_file_name t"] obtain u2 where
    "run_calls decode ?link m [PutChunk ?i 0 (encode (take 45000 content)), PutCommit ?i (tr_file_name t)] u1 = (Inr (), m + 2, u2)"
    "up_files u2 = (up_files u1)(commit_path u1 ?i (tr_file_name t) \<mapsto> take 45000 content)" by blast
  moreover have "hd chunks = PutChunk ?i 0 (encode (take 45000 content))"
    using first_piece [OF assms(3)] by (simp add: calls(1) hd_map del: upt_Suc)
  moreover have "commit_path u1 ?i (tr_file_name t) = target_of u t"
    using assms(1) dir by (simp add: target_of_def target_commit commit_path_def)
  moreover have "run_calls decode ?link 0 (chunks @ chunks @ [last_call]) u = (Inr (), m, u1)"
    using v(1) u1 by (simp add: run_calls_append)
  ultimately show ?thesis using landed(2) path calls(2) by auto
qed

end

section \<open>The escort\<close>

definition pieces_map :: "(string \<Rightarrow> string) \<Rightarrow> uploads \<Rightarrow> attachment_transfer list \<Rightarrow> string \<rightharpoonup> string list" where
  "pieces_map encode own ts =
     map_of (map (\<lambda>t. (tr_upload_id t, transfer_pieces encode (case own_content own t of Some c \<Rightarrow> c | None \<Rightarrow> []))) ts)"

lemma pieces_map_own:
  assumes "distinct (map tr_upload_id ts)"
  shows "\<forall>t \<in> set ts. \<forall>c. own_content own t = Some c \<longrightarrow> pieces_map encode own ts (tr_upload_id t) = Some (transfer_pieces encode c)"
  using assms by (auto simp: pieces_map_def comp_def intro!: map_of_is_SomeI image_eqI)

lemma fresh_well_staged: "\<forall>t \<in> set ts. up_staging u (tr_upload_id t) = None \<Longrightarrow> well_staged (pieces_map encode own ts) u"
  by (auto simp: well_staged_def pieces_map_def dest!: map_of_SomeD)

lemma waiting_append:
  "deliver_attachments encode decode link own ts rounds n u = (None, m, u') \<Longrightarrow>
   deliver_attachments encode decode link own ts (rounds @ rs) n u = deliver_attachments encode decode link own ts rs m u'"
  by (induction encode decode link own ts rounds n u rule: deliver_attachments.induct)
    (auto split: if_splits prod.splits sum.splits transfer_error.splits)

lemma waiting_well_staged:
  assumes "deliver_attachments encode decode link own ts rounds n u = (None, m, u')" "well_staged P u"
    "\<forall>t \<in> set ts. \<forall>c. own_content own t = Some c \<longrightarrow> P (tr_upload_id t) = Some (transfer_pieces encode c)"
  shows "well_staged P u'"
  using assms
proof (induction rounds arbitrary: n u)
  case (Cons r rs)
  obtain res n1 u1 where push: "push_attachments encode decode link own n ts u = (res, n1, u1)" by (metis prod_cases3)
  have "well_staged P u1" using push_state [OF Cons.prems(2,3), of decode link n] push by simp
  with Cons push show ?case by (auto split: if_splits sum.splits transfer_error.splits)
qed simp

lemma triple_eq: "fst r = a \<Longrightarrow> r = (a, fst (snd r), snd (snd r))"
  by (cases r) auto

text \<open>A small file, a link that loses the first call, and two rounds.\<close>

definition demo_transfer :: attachment_transfer where
  "demo_transfer = \<lparr>tr_upload_id = ''u1'', tr_file_name = ''a b.png''\<rparr>"

definition empty_host :: uploads where
  "empty_host = \<lparr>up_dir = ''/up'', up_read_roots = [], up_staging = (\<lambda>_. None), up_files = (\<lambda>_. None)\<rparr>"

definition sender :: uploads where
  "sender = empty_host\<lparr>up_files := [''/up/u1-a_b.png'' \<mapsto> ''abc'']\<rparr>"

definition shaky_link :: "nat \<Rightarrow> int \<times> call_fate" where
  "shaky_link n = (0, if n = 0 then Dropped else Answered)"

definition demo_rounds :: "escort_round list" where
  "demo_rounds = replicate 2 \<lparr>er_remote = True, er_dialled = True, er_over = False\<rparr>"

definition demo_command :: command_entry where
  "demo_command = \<lparr>ce_id = ''c'', ce_payload = Steer (''see'' @ [newline] @ ''- pending://u1/a b.png'') None, ce_issued_by = ''d'',
     ce_issued_at = 0, ce_based_on = None, ce_expires_at = None, ce_status = Pending, ce_resolution = None\<rparr>"

lemma demo_calls: "transfer_calls b64_encode demo_transfer ''abc'' = [PutChunk ''u1'' 0 ''YWJj'', PutCommit ''u1'' ''a b.png'']"
proof -
  have "b64_encode ''abc'' = ''YWJj''" by code_simp
  then show ?thesis
    by (simp add: transfer_calls_def chunk_from_last transfer_chunk_b64_def slice_def demo_transfer_def Let_def del: b64_encode.simps)
qed

lemma demo_paths: "pending_target sender ''u1'' ''a b.png'' = ''/up/u1-a_b.png''" "commit_path u ''u1'' ''a b.png'' = join_path (up_dir u) ''u1-a_b.png''"
  by (code_simp, simp add: commit_path_def) code_simp

lemma demo_id: "upload_id_ok ''u1''"
  by code_simp

lemma demo_piece: "trim ''YWJj'' = ''YWJj''" "b64_decode ''YWJj'' = Some ''abc''"
proof -
  show "trim ''YWJj'' = ''YWJj''" by (rule trim_digits) (simp add: b64_digit_def is_ascii_alnum_def)
  show "b64_decode ''YWJj'' = Some ''abc''" by code_simp
qed

lemma demo_refs: "payload_refs (ce_payload demo_command) = [''pending://u1/a b.png'']"
  by code_simp

lemma demo_parsed: "parse_pending_ref ''pending://u1/a b.png'' = Some (''u1'', ''a b.png'')"
  by code_simp

lemma demo_own: "up_files sender (pending_target sender (tr_upload_id demo_transfer) (tr_file_name demo_transfer)) = Some ''abc''"
  by (simp add: demo_transfer_def demo_paths) (simp add: sender_def)

lemma demo_waiting: "deliver_attachments b64_encode b64_decode shaky_link sender [demo_transfer] (take 1 demo_rounds) 0 empty_host = (None, 1, empty_host)"
  by (simp add: demo_rounds_def demo_own demo_calls call_host_def shaky_link_def split: prod.split)

lemma demo_delivered:
  "deliver_attachments b64_encode b64_decode shaky_link sender [demo_transfer] demo_rounds 0 empty_host =
     (Some True, 3, empty_host\<lparr>up_files := [''/up/u1-a_b.png'' \<mapsto> ''abc'']\<rparr>)"
proof -
  let ?staged = "empty_host\<lparr>up_staging := [''u1'' \<mapsto> \<lparr>sg_made = 0, sg_chunks = [(0, ''YWJj'', 0)]\<rparr>]\<rparr>"
  have chunk: "append_chunk 0 ''u1'' ''YWJj'' (Some 0) empty_host = (Inr (), ?staged)"
    by (simp add: append_chunk_def demo_id Let_def empty_host_def sweep_stale_def put_chunk_def max_bytes_def)
  have commit: "commit b64_decode ''u1'' ''a b.png'' ?staged =
      (Inr ''/up/u1-a_b.png'', empty_host\<lparr>up_files := [''/up/u1-a_b.png'' \<mapsto> ''abc'']\<rparr>)"
    by (simp add: commit_def demo_id demo_piece demo_paths Let_def max_bytes_def empty_host_def join_path_def fun_eq_iff del: b64_decode.simps)
  have "demo_rounds = take 1 demo_rounds @ [\<lparr>er_remote = True, er_dialled = True, er_over = False\<rparr>]"
    by (simp add: demo_rounds_def numeral_2_eq_2)
  then show ?thesis
    using waiting_append [OF demo_waiting, of "[\<lparr>er_remote = True, er_dialled = True, er_over = False\<rparr>]"]
    by (simp add: demo_own demo_calls call_host_def shaky_link_def chunk commit numeral_3_eq_3)
qed

lemma escort_landed:
  assumes "base64_codec encode decode"
    and "deliver_attachments encode decode link own ts rounds n host = (Some True, m, host')"
    and "\<forall>r \<in> set rounds. er_remote r" "\<forall>t \<in> set ts. up_staging host (tr_upload_id t) = None"
    and "distinct (map tr_upload_id ts)" "distinct (map (target_of host) ts)"
  shows "\<forall>t \<in> set ts. \<exists>c. up_files own (target_of own t) = Some c \<and> up_files host' (target_of host' t) = Some c"
proof -
  have "well_staged (pieces_map encode own ts) host" using assms(4) by (rule fresh_well_staged)
  from base64_codec.deliver_done [OF assms(1-3) this _ assms(6)] pieces_map_own [OF assms(5)]
  have landed: "\<forall>t \<in> set ts. own_content own t \<noteq> None \<and> up_files host' (target_of host t) = own_content own t" "up_dir host' = up_dir host" by auto
  then show ?thesis by (auto simp: own_content_def target_of_dir [OF landed(2)])
qed

text \<open>
  C9. Attachments arrive intact: when the escort of a command reports success, every attachment of the command is on the
  host with exactly the bytes the sender has, and no reference of the command is missing there. This holds whatever the
  link did: calls lost, answers lost, rounds repeated, staged chunks swept in between.
\<close>
theorem attachments_land_intact:
  assumes "base64_codec encode decode"
    and "deliver_attachments encode decode link own (command_transfers e) rounds n host = (Some True, m, host')"
    and "\<forall>r \<in> set rounds. er_remote r"
    and "\<forall>t \<in> set (command_transfers e). up_staging host (tr_upload_id t) = None"
    and "distinct (map tr_upload_id (command_transfers e))" "distinct (map (target_of host) (command_transfers e))"
    and "\<forall>r \<in> set (payload_refs (ce_payload e)). parse_pending_ref r \<noteq> None"
  shows "missing_attachments host' e = [] \<and>
    (\<forall>t \<in> set (command_transfers e). \<exists>c. up_files own (target_of own t) = Some c \<and> up_files host' (target_of host' t) = Some c)"
proof -
  let ?ts = "command_transfers e"
  have bytes: "\<forall>t \<in> set ?ts. \<exists>c. up_files own (target_of own t) = Some c \<and> up_files host' (target_of host' t) = Some c"
    using escort_landed [OF assms(1-6)] .
  have "resolve_pending host' r \<noteq> None" if r: "r \<in> set (payload_refs (ce_payload e))" for r
  proof -
    obtain i name where parsed: "parse_pending_ref r = Some (i, name)" using assms(7) r by fastforce
    then have "\<lparr>tr_upload_id = i, tr_file_name = name\<rparr> \<in> set ?ts"
      using r by (force simp: command_transfers_def map_filter_def)
    with bytes parsed show ?thesis by (force simp: resolve_pending_def target_of_def)
  qed
  with bytes show ?thesis by (simp add: missing_attachments_def)
qed

theorem attachments_land_intact_witness:
  "missing_attachments (snd (snd (deliver_attachments b64_encode b64_decode shaky_link sender [demo_transfer] demo_rounds 0 empty_host))) demo_command = []"
proof -
  let ?r = "deliver_attachments b64_encode b64_decode shaky_link sender (command_transfers demo_command) demo_rounds 0 empty_host"
  have ts: "command_transfers demo_command = [demo_transfer]"
    by (simp add: command_transfers_def demo_refs demo_parsed map_filter_def demo_transfer_def)
  have "fst ?r = Some True" by (simp add: ts demo_delivered)
  from triple_eq [OF this] have run: "?r = (Some True, fst (snd ?r), snd (snd ?r))" .
  have "\<forall>r \<in> set demo_rounds. er_remote r" "distinct (map (target_of empty_host) (command_transfers demo_command))"
    "\<forall>r \<in> set (payload_refs (ce_payload demo_command)). parse_pending_ref r \<noteq> None"
    by (simp_all add: demo_rounds_def ts demo_refs demo_parsed)
  moreover have "\<forall>t \<in> set (command_transfers demo_command). up_staging empty_host (tr_upload_id t) = None"
    by (simp add: empty_host_def)
  moreover have "distinct (map tr_upload_id (command_transfers demo_command))" by (simp add: ts)
  ultimately show ?thesis using attachments_land_intact [OF rfc4648.base64_codec_axioms run] by (simp add: ts)
qed

text \<open>
  C33. An escort that meets a working link completes: after any rounds that failed for the link, one round in which every call is
  answered and no ten minutes pass between two calls delivers all attachments.
\<close>
theorem escort_completes:
  assumes "base64_codec encode decode"
    and "deliver_attachments encode decode link own ts rounds n host = (None, m, host')"
    and "\<forall>t \<in> set ts. up_staging host (tr_upload_id t) = None" "distinct (map tr_upload_id ts)"
    and "\<forall>t \<in> set ts. \<exists>c. up_files own (target_of own t) = Some c \<and> upload_id_ok (tr_upload_id t) \<and> length c + 2 \<le> max_bytes"
    and "prompt_link link m" "er_remote r" "er_dialled r"
  shows "\<exists>m' u'. deliver_attachments encode decode link own ts (rounds @ [r]) n host = (Some True, m', u')"
proof -
  let ?P = "pieces_map encode own ts"
  have "well_staged ?P host" using assms(3) by (rule fresh_well_staged)
  from waiting_well_staged [OF assms(2) this] have "well_staged ?P host'" using pieces_map_own [OF assms(4)] by blast
  moreover have "\<forall>t \<in> set ts. \<exists>c. own_content own t = Some c \<and> upload_id_ok (tr_upload_id t) \<and> length c + 2 \<le> max_bytes \<and>
      ?P (tr_upload_id t) = Some (transfer_pieces encode c)"
    using assms(5) pieces_map_own [OF assms(4)] by (metis own_content_def)
  ultimately obtain m' u' where "push_attachments encode decode link own m ts host' = (Inr (), m', u')"
    using base64_codec.push_succeeds [OF assms(1) _ assms(6)] by blast
  then show ?thesis using waiting_append [OF assms(2), of "[r]"] assms(7,8) by simp
qed

theorem escort_completes_witness:
  "fst (deliver_attachments b64_encode b64_decode shaky_link sender [demo_transfer] (take 1 demo_rounds @ [last demo_rounds]) 0 empty_host) = Some True"
proof -
  let ?r = "deliver_attachments b64_encode b64_decode shaky_link sender [demo_transfer] (take 1 demo_rounds) 0 empty_host"
  have run: "?r = (None, 1, empty_host)" by (rule demo_waiting)
  have "prompt_link shaky_link 1" by (auto simp: prompt_link_def shaky_link_def staging_ttl_def)
  moreover have "er_remote (last demo_rounds)" "er_dialled (last demo_rounds)" by code_simp+
  moreover have "\<forall>t \<in> set [demo_transfer]. \<exists>c. up_files sender (target_of sender t) = Some c \<and> upload_id_ok (tr_upload_id t) \<and> length c + 2 \<le> max_bytes"
  proof -
    have "upload_id_ok (tr_upload_id demo_transfer)" by (simp add: demo_transfer_def demo_id)
    then show ?thesis by (simp add: max_bytes_def target_of_def demo_own)
  qed
  moreover have "\<forall>t \<in> set [demo_transfer]. up_staging empty_host (tr_upload_id t) = None" "distinct (map tr_upload_id [demo_transfer])"
    by (simp_all add: empty_host_def)
  ultimately obtain m u where "deliver_attachments b64_encode b64_decode shaky_link sender [demo_transfer] (take 1 demo_rounds @ [last demo_rounds]) 0 empty_host = (Some True, m, u)"
    using escort_completes [OF rfc4648.base64_codec_axioms run] by blast
  then show ?thesis by simp
qed

text \<open>
  C26. Two escorts of one upload can damage it, for every file of more than 45000 bytes: both push all chunks, one commits and its answer
  is lost, it starts its next round with the first chunk, and the commit of the other is accepted with that chunk
  alone. The host then keeps the first 45000 bytes as the file, in place of the whole file it had.
\<close>
theorem racing_commit_truncates:
  assumes "base64_codec encode decode" "upload_id_ok (tr_upload_id t)" "up_staging u (tr_upload_id t) = None"
    and "45000 < length content" "length content + 2 \<le> max_bytes"
    and "transfer_calls encode t content = chunks @ [last_call]"
  shows "\<exists>m u1 u2. run_calls decode (\<lambda>_. (now, Answered)) 0 (chunks @ chunks @ [last_call]) u = (Inr (), m, u1) \<and>
      up_files u1 (target_of u t) = Some content \<and>
    run_calls decode (\<lambda>_. (now, Answered)) m [hd chunks, last_call] u1 = (Inr (), m + 2, u2) \<and>
      up_files u2 (target_of u t) = Some (take 45000 content)"
  by (rule base64_codec.racing_escorts [OF assms])

theorem racing_commit_truncates_witness:
  "\<exists>chunks last_call m u1 u2. transfer_calls b64_encode demo_transfer (replicate 45001 (CHR ''x'')) = chunks @ [last_call] \<and>
    run_calls b64_decode (\<lambda>_. (0, Answered)) 0 (chunks @ chunks @ [last_call]) empty_host = (Inr (), m, u1) \<and>
    run_calls b64_decode (\<lambda>_. (0, Answered)) m [hd chunks, last_call] u1 = (Inr (), m + 2, u2) \<and>
    up_files u2 (target_of empty_host demo_transfer) = Some (take 45000 (replicate 45001 (CHR ''x'')))"
proof -
  let ?content = "replicate 45001 (CHR ''x'')"
  obtain chunks last_call where calls: "transfer_calls b64_encode demo_transfer ?content = chunks @ [last_call]"
    by (metis append_butlast_last_id snoc_eq_iff_butlast transfer_calls_pieces)
  have upload: "upload_id_ok (tr_upload_id demo_transfer)" "up_staging empty_host (tr_upload_id demo_transfer) = None"
    by (simp_all add: demo_transfer_def demo_id empty_host_def)
  have size: "45000 < length ?content" "length ?content + 2 \<le> max_bytes" by (simp_all add: max_bytes_def)
  show ?thesis using calls racing_commit_truncates [OF rfc4648.base64_codec_axioms upload size calls, of 0] by blast
qed

section \<open>Bounds\<close>

definition staged_size :: "staging \<Rightarrow> nat" where
  "staged_size d = sum_list (map (\<lambda>(_, c, _). length c) (sg_chunks d))"

definition within_cap :: "uploads \<Rightarrow> bool" where
  "within_cap u = ((\<forall>i d. up_staging u i = Some d \<longrightarrow> staged_size d * 3 div 4 \<le> max_bytes) \<and>
     (\<forall>p c. up_files u p = Some c \<longrightarrow> length c \<le> max_bytes))"

lemma append_within_cap:
  assumes "within_cap u"
  shows "within_cap (snd (append_chunk now i data seq u))"
proof -
  define d0 where "d0 = (case up_staging (sweep_stale now u) i of Some d \<Rightarrow> d | None \<Rightarrow> \<lparr>sg_made = now, sg_chunks = []\<rparr>)"
  have swept: "within_cap (sweep_stale now u)" using assms by (auto simp: within_cap_def dest: sweep_staging)
  then have "staged_size d0 * 3 div 4 \<le> max_bytes"
    by (auto simp: d0_def within_cap_def staged_size_def split: option.split)
  with swept assms show ?thesis
    unfolding append_chunk_def Let_def d0_def [symmetric]
    by (auto simp: within_cap_def staged_size_def put_chunk_def split: if_splits)
qed

lemma commit_within_cap: "within_cap u \<Longrightarrow> within_cap (snd (commit decode i name u))"
  by (auto simp: commit_def Let_def within_cap_def split: option.splits if_splits)

text \<open>
  Memory for attachments is bounded: whatever chunks and commits a device is sent, in any order and over any link, no
  staged upload ever stands for more than 32 MiB and no file larger than that is kept.
\<close>
theorem uploads_bounded:
  assumes "within_cap u"
  shows "within_cap (snd (snd (run_calls decode link n cs u)))"
  using assms
proof (rule run_invariant)
  fix c now and v :: uploads
  assume "within_cap v"
  then show "within_cap (snd (serve_call decode now c v))"
    by (cases c) (simp_all only: serve_commit_state serve_call.simps(1) commit_within_cap append_within_cap)
qed

theorem uploads_bounded_witness:
  "within_cap (snd (snd (run_calls b64_decode shaky_link 0 [PutChunk ''u1'' 0 ''YWJj'', PutCommit ''u1'' ''a b.png''] empty_host)))"
  by (rule uploads_bounded) (simp add: within_cap_def empty_host_def)

lemma sanitize_facts: "\<forall>c \<in> set (sanitize s). clean_char c = c" "sanitize s \<noteq> []" "length (sanitize s) \<le> 80"
proof -
  have "clean_char (clean_char c) = clean_char c" for c by (simp add: clean_char_def)
  moreover have "\<forall>c \<in> set ''upload''. clean_char c = c" by (simp add: clean_char_def is_ascii_alnum_def)
  ultimately show "\<forall>c \<in> set (sanitize s). clean_char c = c" by (auto simp: sanitize_def Let_def dest!: in_set_dropD)
  show "sanitize s \<noteq> []" "length (sanitize s) \<le> 80" by (auto simp: sanitize_def Let_def)
qed

text \<open>
  A reference cannot leave the uploads directory: whatever id and name it carries, it stands for a single name in that
  directory, of at most 161 characters from a safe set and never a parent.
\<close>
theorem references_stay_inside:
  "\<exists>x. pending_target u i name = join_path (up_dir u) x \<and> (\<forall>c \<in> set x. clean_char c = c) \<and> CHR ''/'' \<notin> set x \<and>
     x \<noteq> ''.'' \<and> x \<noteq> ''..'' \<and> length x \<le> 161"
proof -
  let ?x = "sanitize (take_chars 8 i) @ ''-'' @ sanitize name"
  have "CHR ''-'' \<in> set ?x" by simp
  then have "?x \<noteq> ''.''" "?x \<noteq> ''..''" by (auto dest!: arg_cong [where f = set])
  moreover have "clean_char (CHR ''-'') = CHR ''-''" by (simp add: clean_char_def)
  then have "\<forall>c \<in> set ?x. clean_char c = c" using sanitize_facts(1) by auto
  moreover have "clean_char (CHR ''/'') \<noteq> CHR ''/''" by (simp add: clean_char_def is_ascii_alnum_def)
  moreover from calculation have "CHR ''/'' \<notin> set ?x" by blast
  moreover have "length ?x \<le> 161" using sanitize_facts(3) [of "take_chars 8 i"] sanitize_facts(3) [of name] by simp
  ultimately show ?thesis by (intro exI [of _ ?x] conjI) (simp add: pending_target_def, blast+)
qed

theorem references_stay_inside_witness:
  "\<exists>x. pending_target empty_host ''../../../etc'' ''../../passwd'' = join_path ''/up'' x \<and> CHR ''/'' \<notin> set x"
  using references_stay_inside [of empty_host "''../../../etc''" "''../../passwd''"] by (auto simp: empty_host_def)

end
