(* ===== verification/Diff_Comments.thy ===== *)
theory Diff_Comments
  imports Rust_Str
begin

text \<open>
  Comments on the lines of a diff (\<open>crates/ui/src/comments.rs\<close>): they are folded into the next prompt as plain text, and
  the transcript reads the same block back out of the message to show it as a badge.
\<close>

section \<open>Comments\<close>

datatype comment_side = OldSide | NewSide

fun side_tag :: "comment_side \<Rightarrow> string" where
  "side_tag OldSide = ''L''"
| "side_tag NewSide = ''R''"

record diff_comment =
  dc_id :: string
  dc_path :: string
  dc_old_path :: "string option"
  dc_side :: comment_side
  dc_line :: nat
  dc_body :: string

definition renamed_from :: "string option \<Rightarrow> diff_comment \<Rightarrow> diff_comment" where
  "renamed_from old c = c\<lparr>dc_old_path := old\<rparr>"

definition cite_path :: "diff_comment \<Rightarrow> string" where
  "cite_path c =
     (case dc_side c of OldSide \<Rightarrow> (case dc_old_path c of Some p \<Rightarrow> p | None \<Rightarrow> dc_path c) | NewSide \<Rightarrow> dc_path c)"

definition comment_location :: "diff_comment \<Rightarrow> string" where
  "comment_location c = cite_path c @ '':'' @ show_nat (dc_line c)"

definition comment_only_text :: string where "comment_only_text = ''Address the review comments below.''"

definition comment_block_header :: string where
  "comment_block_header = ''Comments on the diff (each cites the file and line it belongs to; L = line number in the original file, R = in the changed file):''"

definition side_marker :: "comment_side \<Rightarrow> string" where
  "side_marker side = '' ('' @ side_tag side @ ''): ''"

text \<open>\<open>replace\<close> of a line feed by one with two blanks after it.\<close>

definition indent_lines :: "string \<Rightarrow> string" where
  "indent_lines s = concat (map (\<lambda>c. if c = newline then newline # ''  '' else [c]) s)"

definition comment_bullet :: "diff_comment \<Rightarrow> string" where
  "comment_bullet c = ''- '' @ comment_location c @ side_marker (dc_side c) @ indent_lines (trim (dc_body c))"

definition block_marker :: string where
  "block_marker = [newline, newline] @ comment_block_header @ [newline]"

definition with_comments :: "string \<Rightarrow> diff_comment list \<Rightarrow> string" where
  "with_comments body cs =
     (if cs = [] then body
      else (if body = [] then comment_only_text else body) @ block_marker @ join_str [newline] (map comment_bullet cs))"

section \<open>Reading them back\<close>

record badge_detail =
  bd_location :: string
  bd_tag :: "string option"
  bd_body :: string

record message_badge =
  mb_label :: string
  mb_details :: "badge_detail list"

definition chip_label :: "nat \<Rightarrow> string" where
  "chip_label n = (if n = 1 then ''1 comment'' else show_nat n @ '' comments'')"

text \<open>The earliest marker of a bullet, with its side.\<close>

definition first_marker :: "string \<Rightarrow> (nat \<times> comment_side) option" where
  "first_marker bullet =
     (case (find_sub (side_marker OldSide) bullet, find_sub (side_marker NewSide) bullet) of
        (Some a, Some b) \<Rightarrow> if a \<le> b then Some (a, OldSide) else Some (b, NewSide)
      | (Some a, None) \<Rightarrow> Some (a, OldSide)
      | (None, Some b) \<Rightarrow> Some (b, NewSide)
      | (None, None) \<Rightarrow> None)"

definition extend_last :: "string \<Rightarrow> badge_detail list \<Rightarrow> badge_detail list" where
  "extend_last tail ds =
     (if ds = [] then [] else butlast ds @ [(last ds)\<lparr>bd_body := bd_body (last ds) @ newline # tail\<rparr>])"

definition parse_line :: "string \<Rightarrow> badge_detail list \<Rightarrow> badge_detail list" where
  "parse_line line ds =
     (case strip_prefix ''- '' line of
        None \<Rightarrow> (case strip_prefix ''  '' line of Some tail \<Rightarrow> extend_last tail ds | None \<Rightarrow> ds)
      | Some bullet \<Rightarrow>
          (case first_marker bullet of
             None \<Rightarrow> ds
           | Some (at, side) \<Rightarrow>
               ds @ [\<lparr>bd_location = take at bullet, bd_tag = Some (side_tag side),
                      bd_body = drop (at + length (side_marker side)) bullet\<rparr>]))"

definition parse_bullets :: "string \<Rightarrow> badge_detail list" where
  "parse_bullets block = fold parse_line (str_lines block) []"

definition extract_badge :: "string \<Rightarrow> (string \<times> message_badge) option" where
  "extract_badge text =
     (case before_last block_marker text of
        None \<Rightarrow> None
      | Some before \<Rightarrow>
          (let block = drop (length before + length block_marker) text
           in if block = [] \<or> \<not> list_all (\<lambda>l. prefix ''- '' l \<or> prefix ''  '' l) (str_lines block) then None
              else (let details = parse_bullets block
                    in if details = [] then None
                       else Some (before, \<lparr>mb_label = chip_label (length details), mb_details = details\<rparr>))))"

text \<open>The height of a card is guessed from its lines, at 64 characters a row and no more than eight rows.\<close>

definition card_body_lines :: "string \<Rightarrow> nat" where
  "card_body_lines body =
     min 8 (max 1 (sum_list (map (\<lambda>l. max 1 ((char_count l + 63) div 64)) (str_lines body))))"

section \<open>Occurrences\<close>

lemma before_last_None: "before_last p s = None \<longleftrightarrow> \<not> sublist p s"
  by (induction s) (auto simp: sublist_Cons_right split: option.splits)

lemma before_last_marked:
  assumes "p \<noteq> []" "\<not> sublist p (tl (p @ b))"
  shows "before_last p (a @ p @ b) = Some a"
proof (induction a)
  case Nil
  obtain c q where p: "p = c # q" using assms(1) by (cases p) auto
  have "before_last p (q @ b) = None" using assms(2) p by (simp add: before_last_None)
  then show ?case using p by (simp split: option.split)
qed (auto simp: Cons_eq_append_conv split: option.split)

lemma find_sub_marked:
  assumes "\<And>k. k < length a \<Longrightarrow> \<not> prefix p (drop k (a @ p @ b))"
  shows "find_sub p (a @ p @ b) = Some (length a)"
  using assms
proof (induction a)
  case Nil
  have "prefix p (p @ b)" by simp
  then show ?case by (cases "p @ b") (auto simp del: prefixI)
next
  case (Cons c a)
  have "\<not> prefix p (drop k (a @ p @ b))" if "k < length a" for k using Cons.prems [of "Suc k"] that by simp
  then have "find_sub p (a @ p @ b) = Some (length a)" by (rule Cons.IH)
  then show ?case using Cons.prems [of 0] by simp
qed

lemma find_sub_bound: "find_sub p s = Some k \<Longrightarrow> prefix p (drop k s)"
  by (induction s arbitrary: k) (auto split: if_splits)

lemma marker_at:
  assumes "CHR ''('' \<notin> set loc" "prefix (side_marker sd) (drop k (loc @ side_marker side @ rest))" "k \<le> length loc"
  shows "k = length loc \<and> sd = side"
proof -
  let ?s = "loc @ side_marker side @ rest"
  obtain z where z: "drop k ?s = side_marker sd @ z" using assms(2) by (auto simp: prefix_def)
  then have paren: "?s ! Suc k = CHR ''(''" "Suc k < length ?s"
    using nth_drop [of k ?s 1] assms(3) by (auto simp: side_marker_def)
  have k: "k = length loc"
  proof (rule ccontr)
    assume "k \<noteq> length loc"
    then consider "Suc k < length loc" | "Suc k = length loc" using assms(3) by linarith
    then show False
    proof cases
      case 1
      then show False using paren(1) assms(1) nth_mem [of "Suc k" loc] by (simp add: nth_append)
    next
      case 2
      then show False using paren(1) by (simp add: nth_append side_marker_def)
    qed
  qed
  moreover have "sd = side" using z k by (cases sd; cases side) (simp_all add: side_marker_def)
  ultimately show ?thesis by simp
qed

lemma first_marker_located:
  assumes "CHR ''('' \<notin> set loc"
  shows "first_marker (loc @ side_marker side @ rest) = Some (length loc, side)"
proof -
  let ?s = "loc @ side_marker side @ rest"
  have own: "find_sub (side_marker side) ?s = Some (length loc)"
  proof (rule find_sub_marked)
    show "\<not> prefix (side_marker side) (drop k ?s)" if "k < length loc" for k
      using marker_at [OF assms, of side k side rest] that by auto
  qed
  have other: "length loc < k" if "find_sub (side_marker sd) ?s = Some k" "sd \<noteq> side" for sd k
    using marker_at [OF assms find_sub_bound [OF that(1)]] that(2) not_le by blast
  show ?thesis
  proof (cases side)
    case OldSide
    then show ?thesis using own other [of NewSide]
      by (cases "find_sub (side_marker NewSide) ?s") (auto simp: first_marker_def dest: less_imp_le)
  next
    case NewSide
    then show ?thesis using own other [of OldSide]
      by (cases "find_sub (side_marker OldSide) ?s") (auto simp: first_marker_def)
  qed
qed

section \<open>Lines\<close>

fun body_pieces :: "string \<Rightarrow> string list" where
  "body_pieces [] = [[]]"
| "body_pieces (c # s) =
     (if c = newline then [] # body_pieces s
      else (case body_pieces s of [] \<Rightarrow> [[c]] | l # ls \<Rightarrow> (c # l) # ls))"

lemma body_pieces_ne [simp]: "body_pieces s \<noteq> []"
  by (cases s) (auto split: list.split)

lemma body_pieces_plain: "l \<in> set (body_pieces s) \<Longrightarrow> newline \<notin> set l \<and> set l \<subseteq> set s"
  by (induction s arbitrary: l) (fastforce split: if_splits list.splits)+

lemma join_Cons: "ls \<noteq> [] \<Longrightarrow> join_str sep (l # ls) = l @ sep @ join_str sep ls"
  by (cases ls) auto

lemma join_pieces: "join_str [newline] (body_pieces s) = s"
proof (induction s)
  case (Cons c s)
  then show ?case
    by (cases "body_pieces s"; cases "tl (body_pieces s)") (auto simp: join_Cons)
qed simp

definition indented :: "string list \<Rightarrow> string list" where
  "indented ls = hd ls # map (\<lambda>l. ''  '' @ l) (tl ls)"

lemma indent_pieces: "indent_lines s = join_str [newline] (indented (body_pieces s))"
proof (induction s)
  case (Cons c s)
  obtain l ls where p: "body_pieces s = l # ls" by (cases "body_pieces s") auto
  then show ?case using Cons
    by (cases ls) (auto simp: indent_lines_def indented_def)
qed (simp add: indent_lines_def indented_def)

lemma join_concat:
  "\<forall>ls \<in> set lss. ls \<noteq> [] \<Longrightarrow> join_str sep (map (join_str sep) lss) = join_str sep (concat lss)"
proof (induction lss)
  case (Cons ls lss)
  have app: "join_str sep (a @ b) = join_str sep a @ sep @ join_str sep b" if "a \<noteq> []" "b \<noteq> []" for a b
    using that by (induction a rule: join_str.induct [of _ sep]) (auto simp: join_Cons)
  show ?case
  proof (cases "lss = []")
    case False
    then have "concat lss \<noteq> []" using Cons.prems by (cases lss) auto
    then show ?thesis using Cons False app [of ls "concat lss"] by (simp add: join_Cons)
  qed simp
qed simp

lemma lines_of_join:
  assumes "\<forall>l \<in> set ls. l \<noteq> [] \<and> newline \<notin> set l"
  shows "split_lines (join_str [newline] ls) = ls"
proof -
  have line: "split_lines (l @ newline # s) = l # split_lines s" if "newline \<notin> set l" for l s
    using that by (induction l) (auto split: list.split)
  have alone: "split_lines l = [l]" if "l \<noteq> []" "newline \<notin> set l" for l
  proof -
    have "split_lines (c # l) = [c # l]" if "newline \<notin> set (c # l)" for c l
      using that by (induction l arbitrary: c) auto
    then show ?thesis using that by (cases l) auto
  qed
  show ?thesis using assms
  proof (induction ls)
    case (Cons l ls)
    then show ?case by (cases ls) (auto simp: line alone)
  qed simp
qed

lemma trim_subset: "set (trim s) \<subseteq> set s"
  using trim_end_prefix [of "trim_start s"] strip_front_suffix [of ws_chars s]
  by (auto simp: trim_def trim_start_def dest!: set_mono_prefix set_mono_suffix)

section \<open>The round trip\<close>

text \<open>A comment whose cited path has no parenthesis and no line break, and whose body uses plain line feeds.\<close>

definition plain_comment :: "diff_comment \<Rightarrow> bool" where
  "plain_comment c = (CHR ''('' \<notin> set (cite_path c) \<and> newline \<notin> set (cite_path c) \<and> carriage_return \<notin> set (cite_path c) \<and>
     carriage_return \<notin> set (dc_body c))"

definition detail_of :: "diff_comment \<Rightarrow> badge_detail" where
  "detail_of c = \<lparr>bd_location = comment_location c, bd_tag = Some (side_tag (dc_side c)), bd_body = trim (dc_body c)\<rparr>"

definition bullet_lines :: "diff_comment \<Rightarrow> string list" where
  "bullet_lines c =
     (let ls = body_pieces (trim (dc_body c))
      in (''- '' @ comment_location c @ side_marker (dc_side c) @ hd ls) # map (\<lambda>l. ''  '' @ l) (tl ls))"

lemma digit_char_plain:
  assumes "d < 10"
  shows "digit_char d \<noteq> CHR ''('' \<and> digit_char d \<noteq> newline \<and> digit_char d \<noteq> carriage_return"
proof -
  have "digit_char d \<noteq> c" if "(of_char c :: nat) < 48" for c using of_char_digit [OF assms] that by auto
  then show ?thesis by (simp add: newline_def carriage_return_def)
qed

lemma show_nat_plain: "\<forall>c \<in> set (show_nat n). c \<noteq> CHR ''('' \<and> c \<noteq> newline \<and> c \<noteq> carriage_return"
proof (induction n rule: show_nat.induct)
  case (1 n)
  show ?case
  proof (cases "n < 10")
    case True
    then show ?thesis by (simp add: show_nat.simps [of n] digit_char_plain)
  next
    case False
    then show ?thesis using 1 by (auto simp: show_nat.simps [of n] digit_char_plain)
  qed
qed

lemma location_plain:
  assumes "plain_comment c"
  shows "CHR ''('' \<notin> set (comment_location c)" "newline \<notin> set (comment_location c)" "carriage_return \<notin> set (comment_location c)"
  using assms show_nat_plain by (auto simp: plain_comment_def comment_location_def newline_def carriage_return_def)

lemma marker_plain: "newline \<notin> set (side_marker side)" "carriage_return \<notin> set (side_marker side)"
  by (cases side; simp add: side_marker_def newline_def carriage_return_def)+

lemma bullet_join: "comment_bullet c = join_str [newline] (bullet_lines c)"
proof -
  have "join_str sep ((a @ l) # ls) = a @ join_str sep (l # ls)" "join_str sep ((x # l) # ls) = x # join_str sep (l # ls)" for sep a l ls x
    by (cases ls; simp)+
  then show ?thesis by (simp add: comment_bullet_def bullet_lines_def indent_pieces indented_def Let_def)
qed

lemma bullet_lines_ok:
  assumes "plain_comment c" "l \<in> set (bullet_lines c)"
  shows "l \<noteq> []" "newline \<notin> set l" "carriage_return \<notin> set l" "prefix ''- '' l \<or> prefix ''  '' l"
proof -
  let ?ls = "body_pieces (trim (dc_body c))"
  have piece: "newline \<notin> set p \<and> carriage_return \<notin> set p" if "p \<in> set ?ls" for p
    using body_pieces_plain [OF that] trim_subset [of "dc_body c"] assms(1) by (auto simp: plain_comment_def)
  have mem: "hd ?ls \<in> set ?ls" "set (tl ?ls) \<subseteq> set ?ls" by (simp, meson body_pieces_ne list.set_sel(2) subsetI)
  have blank: "newline \<notin> set ''- '' \<union> set ''  ''" "carriage_return \<notin> set ''- '' \<union> set ''  ''"
    by (simp_all add: newline_def carriage_return_def)
  show "l \<noteq> []" "newline \<notin> set l" "carriage_return \<notin> set l" "prefix ''- '' l \<or> prefix ''  '' l"
    using assms(2) piece mem blank location_plain [OF assms(1)] marker_plain
    by (auto simp: bullet_lines_def Let_def)
qed

lemma parse_continuations:
  "fold parse_line (map (\<lambda>l. CHR '' '' # CHR '' '' # l) ls) (ds @ [d]) = ds @ [d\<lparr>bd_body := join_str [newline] (bd_body d # ls)\<rparr>]"
proof (induction ls arbitrary: d)
  case (Cons l ls)
  have "parse_line (CHR '' '' # CHR '' '' # l) (ds @ [d]) = ds @ [d\<lparr>bd_body := bd_body d @ newline # l\<rparr>]"
    by (simp add: parse_line_def strip_prefix_def extend_last_def)
  then show ?case using Cons [of "d\<lparr>bd_body := bd_body d @ newline # l\<rparr>"] by (cases ls) simp_all
qed simp

lemma parse_bullet: "plain_comment c \<Longrightarrow> fold parse_line (bullet_lines c) ds = ds @ [detail_of c]"
proof -
  let ?ls = "body_pieces (trim (dc_body c))"
  assume "plain_comment c"
  then have "parse_line (''- '' @ comment_location c @ side_marker (dc_side c) @ hd ?ls) ds =
      ds @ [\<lparr>bd_location = comment_location c, bd_tag = Some (side_tag (dc_side c)), bd_body = hd ?ls\<rparr>]"
    by (simp add: parse_line_def strip_prefix_def first_marker_located location_plain)
  then show ?thesis
    using join_pieces [of "trim (dc_body c)"]
    by (simp add: bullet_lines_def Let_def parse_continuations detail_of_def)
qed

lemma parse_all: "\<forall>c \<in> set cs. plain_comment c \<Longrightarrow> fold parse_line (concat (map bullet_lines cs)) ds = ds @ map detail_of cs"
  by (induction cs arbitrary: ds) (auto simp: parse_bullet)

lemma blank_line_append:
  "newline \<notin> set a \<Longrightarrow> \<not> sublist [newline, newline] s \<Longrightarrow> \<not> sublist [newline, newline] (a @ s)"
  by (induction a) (auto simp: sublist_Cons_right)

lemma no_blank_line:
  assumes "\<forall>l \<in> set ls. l \<noteq> [] \<and> newline \<notin> set l"
  shows "\<not> sublist [newline, newline] (newline # join_str [newline] ls)"
proof -
  show ?thesis using assms
  proof (induction ls)
    case (Cons l ls)
    then have l: "l \<noteq> []" "newline \<notin> set l" by auto
    have rest: "\<not> sublist [newline, newline] (newline # join_str [newline] ls)" using Cons by simp
    have "\<not> sublist [newline, newline] (join_str [newline] (l # ls))"
      using blank_line_append [of l "[]"] blank_line_append [OF l(2) rest] l by (cases ls) simp_all
    moreover have "\<not> prefix [newline] (join_str [newline] (l # ls))" using l by (cases l; cases ls) auto
    ultimately show ?case by (auto simp: sublist_Cons_right)
  qed (simp add: sublist_Cons_right)
qed

text \<open>
  Comments survive the prompt they are folded into: read back from the message, the text is the one the user wrote
  (or the stand-in for an empty one) and the badge has every comment in order, with the place it cites, its side and its
  body, for every body with plain line feeds and every path without a parenthesis.
\<close>
lemma comments_roundtrip:
  assumes "cs \<noteq> []" "\<forall>c \<in> set cs. plain_comment c"
  shows "extract_badge (with_comments body cs) =
    Some (if body = [] then comment_only_text else body,
          \<lparr>mb_label = chip_label (length cs), mb_details = map detail_of cs\<rparr>)"
proof -
  let ?ls = "concat (map bullet_lines cs)"
  define block where "block = join_str [newline] ?ls"
  define before where "before = (if body = [] then comment_only_text else body)"
  have ok: "\<forall>l \<in> set ?ls. l \<noteq> [] \<and> newline \<notin> set l \<and> carriage_return \<notin> set l \<and> (prefix ''- '' l \<or> prefix ''  '' l)"
    using assms(2) bullet_lines_ok by fastforce
  have ne: "?ls \<noteq> []" using assms(1) by (cases cs) (auto simp: bullet_lines_def Let_def)
  have bullets: "join_str [newline] (map comment_bullet cs) = block"
  proof -
    have "\<forall>ls \<in> set (map bullet_lines cs). ls \<noteq> []" by (auto simp: bullet_lines_def Let_def)
    moreover have "map comment_bullet cs = map (join_str [newline]) (map bullet_lines cs)" by (simp add: bullet_join)
    ultimately show ?thesis unfolding block_def using join_concat by metis
  qed
  have folded: "with_comments body cs = before @ block_marker @ block"
    using assms(1) bullets by (simp add: with_comments_def before_def)
  have cr: "carriage_return \<notin> set block"
  proof -
    have "set (join_str [newline] ls) \<subseteq> insert newline (\<Union>l \<in> set ls. set l)" for ls
    proof (induction ls)
      case (Cons l ls)
      then show ?case by (cases ls) auto
    qed simp
    moreover have "carriage_return \<noteq> newline" by (simp add: carriage_return_def newline_def)
    ultimately show ?thesis unfolding block_def using ok by blast
  qed
  have lines: "str_lines block = ?ls"
    unfolding str_lines_def unix_newlines_plain [OF cr] unfolding block_def using ok by (intro lines_of_join) blast
  have found: "before_last block_marker (before @ block_marker @ block) = Some before"
  proof (rule before_last_marked)
    show "block_marker \<noteq> []" by (simp add: block_marker_def)
    have head: "newline \<notin> set comment_block_header" by (simp add: comment_block_header_def newline_def)
    have "\<not> sublist [newline, newline] (newline # block)" unfolding block_def using ok by (intro no_blank_line) blast
    then have "\<not> sublist [newline, newline] (comment_block_header @ newline # block)"
      using head blank_line_append by blast
    moreover have "\<not> prefix [newline] (comment_block_header @ newline # block)" by (simp add: comment_block_header_def newline_def)
    ultimately have "\<not> sublist [newline, newline] (tl (block_marker @ block))"
      by (auto simp: block_marker_def sublist_Cons_right)
    moreover have "sublist [newline, newline] block_marker" unfolding block_marker_def by (rule prefix_imp_sublist) simp
    ultimately show "\<not> sublist block_marker (tl (block_marker @ block))" using sublist_order.order.trans by blast
  qed
  have "block \<noteq> []" using lines ne by (auto simp: str_lines_def)
  moreover have "parse_bullets block = map detail_of cs" using parse_all [OF assms(2), of "[]"] by (simp add: parse_bullets_def lines)
  moreover have "list_all (\<lambda>l. prefix ''- '' l \<or> prefix ''  '' l) (str_lines block)" using ok lines by (auto simp: list_all_iff)
  ultimately show ?thesis
    unfolding before_def [symmetric] using assms(1) by (simp add: extract_badge_def folded found Let_def)
qed

end
