(* ===== verification/Attachments.thy ===== *)
theory Attachments
  imports Upload_Transfer Diff_Comments
begin

text \<open>
  Images in the desktop app (\<open>crates/ui/src/attachments.rs\<close>, \<open>badges.rs\<close>): how they ride the text of a prompt and are read
  back out of it, the upload plan, the loop that reads an image back from its device, and the cache of loaded images.
  A decoded image is its bytes; the clock of the cache counts milliseconds.
\<close>

section \<open>The text of a prompt\<close>

definition attachment_only_text :: string where "attachment_only_text = ''See the attached image(s).''"

definition refs_header :: string where
  "refs_header = ''Attached images (local files '' @ em_dash @ '' open them to view):''"

definition with_attachments :: "string \<Rightarrow> string list \<Rightarrow> string" where
  "with_attachments body paths =
     (if paths = [] then body
      else (if body = [] then attachment_only_text else body) @ [newline, newline] @ refs_header @ [newline] @
        join_str [newline] (map (\<lambda>p. ''- '' @ p) paths))"

record user_image_attachment =
  ua_id :: string
  ua_path :: string
  ua_name :: string

record parsed_user_message =
  pm_text :: string
  pm_attachments :: "user_image_attachment list"

text \<open>The part after the last separator of either kind.\<close>

definition name_from_path :: "string \<Rightarrow> string" where
  "name_from_path path =
     (let name = trim (rev (takeWhile (\<lambda>c. c \<noteq> CHR ''/'' \<and> c \<noteq> CHR 0x5C) (rev path)))
      in if name = [] then ''image'' else name)"

definition refs_needle :: string where
  "refs_needle = [newline, newline] @ ''attached images (local files''"

lemma find_sub_Some: "find_sub p s = Some n \<Longrightarrow> n + length p \<le> length s"
  by (induction p s arbitrary: n rule: find_sub.induct) (auto dest: prefix_length_le split: if_splits)

text \<open>The offsets where the prompt ends and the references start.\<close>

function find_refs_marker_from :: "string \<Rightarrow> nat \<Rightarrow> (nat \<times> nat) option" where
  "find_refs_marker_from content from =
     (case find_sub refs_needle (drop from (map ascii_lower content)) of
        None \<Rightarrow> None
      | Some rel \<Rightarrow>
          (let gap = from + rel;
               line_start = gap + 2;
               line_end = (case find_sub [newline] (drop line_start content) of Some p \<Rightarrow> line_start + p | None \<Rightarrow> length content);
               line = rev (dropWhile (\<lambda>c. c = carriage_return) (rev (take (line_end - line_start) (drop line_start content))))
           in if suffix ''):'' line then Some (gap, min (line_end + 1) (length content))
              else find_refs_marker_from content line_start))"
  by pat_completeness auto
termination
  by (relation "measure (\<lambda>(content, from). length content - from)") (auto dest!: find_sub_Some simp: refs_needle_def)

declare find_refs_marker_from.simps [simp del]

definition find_refs_marker :: "string \<Rightarrow> (nat \<times> nat) option" where
  "find_refs_marker content = find_refs_marker_from content 0"

definition ref_line :: "string \<Rightarrow> string option" where
  "ref_line line =
     (case strip_prefix ''- '' (trim_start line) of
        None \<Rightarrow> None
      | Some rest \<Rightarrow> if trim rest \<noteq> [] then Some (trim rest) else None)"

definition parse_user_message_images :: "string \<Rightarrow> parsed_user_message" where
  "parse_user_message_images content =
     (case find_refs_marker content of
        None \<Rightarrow> \<lparr>pm_text = content, pm_attachments = []\<rparr>
      | Some (body_end, refs_start) \<Rightarrow>
          (let body = trim_end (take body_end content);
               attachments = map (\<lambda>(index, path). \<lparr>ua_id = show_nat index @ '':'' @ path, ua_path = path, ua_name = name_from_path path\<rparr>)
                 (enumerate 0 (List.map_filter ref_line (str_lines (drop refs_start content))))
           in if attachments = [] then \<lparr>pm_text = content, pm_attachments = []\<rparr>
              else \<lparr>pm_text = (if trim body = attachment_only_text then [] else body), pm_attachments = attachments\<rparr>))"

definition user_message_rail_text :: "(string \<Rightarrow> string) \<Rightarrow> string \<Rightarrow> string" where
  "user_message_rail_text t content =
     (let parsed = parse_user_message_images content
      in if trim (pm_text parsed) \<noteq> [] then pm_text parsed
         else case length (pm_attachments parsed) of
           0 \<Rightarrow> content
         | Suc 0 \<Rightarrow> t ''Attached image''
         | n \<Rightarrow> show_nat n @ '' attached images'')"

text \<open>Each extractor sees what the previous ones left.\<close>

definition extractors :: "(string \<Rightarrow> (string \<times> message_badge) option) list" where
  "extractors = [extract_badge]"

definition split_badges :: "string \<Rightarrow> string \<times> message_badge list" where
  "split_badges body =
     fold (\<lambda>extract (rest, badges). case extract rest of Some (stripped, badge) \<Rightarrow> (stripped, badges @ [badge]) | None \<Rightarrow> (rest, badges))
       extractors (body, [])"

section \<open>Staging and uploading\<close>

definition max_attachment_bytes :: nat where "max_attachment_bytes = 24 * 1024 * 1024"

definition upload_chunk_b64_chars :: nat where "upload_chunk_b64_chars = 680000"

datatype image_format = Png | Jpeg | Gif | Webp | Svg | Bmp | Tiff

definition format_by_extension :: "string \<Rightarrow> image_format option" where
  "format_by_extension path =
     (case path_extension path of
        None \<Rightarrow> None
      | Some ext \<Rightarrow>
          (let e = map ascii_lower ext
           in if e = ''png'' then Some Png
              else if e = ''jpg'' \<or> e = ''jpeg'' then Some Jpeg
              else if e = ''gif'' then Some Gif
              else if e = ''webp'' then Some Webp
              else if e = ''svg'' then Some Svg
              else if e = ''bmp'' then Some Bmp
              else if e = ''tif'' \<or> e = ''tiff'' then Some Tiff
              else None))"

text \<open>\<open>ext_of\<close> is the toolkit's name for the extension of a format.\<close>

definition ensure_extension :: "(image_format \<Rightarrow> string) \<Rightarrow> string \<Rightarrow> image_format \<Rightarrow> string" where
  "ensure_extension ext_of name format =
     (let has_ext = (case before_last ''.'' name of
            None \<Rightarrow> False
          | Some stem \<Rightarrow>
              let ext = drop (length stem + 1) name
              in stem \<noteq> [] \<and> 2 \<le> length ext \<and> length ext \<le> 5 \<and> list_all is_ascii_alnum ext)
      in if has_ext then name else name @ ''.'' @ ext_of format)"

definition stage_file :: "(image_format \<Rightarrow> string) \<Rightarrow> (string \<rightharpoonup> string) \<Rightarrow> string \<Rightarrow> string + (string \<times> image_format \<times> string)" where
  "stage_file ext_of files path =
     (let display_name = (case file_name path of Some n \<Rightarrow> n | None \<Rightarrow> ''image'')
      in case format_by_extension path of
           None \<Rightarrow> Inl (display_name @ '' is not a supported image.'')
         | Some format \<Rightarrow>
             (case files path of
                None \<Rightarrow> Inl (display_name @ '' could not be read.'')
              | Some content \<Rightarrow>
                  if length content > max_attachment_bytes then Inl (display_name @ '' is too large (24 MB max).'')
                  else Inr (ensure_extension ext_of display_name format, format, content)))"

definition chunk_ranges :: "nat \<Rightarrow> (nat \<times> nat \<times> nat) list" where
  "chunk_ranges b64_len = chunk_from upload_chunk_b64_chars b64_len 0 0"

text \<open>In seconds.\<close>

definition attachment_deadline :: "nat \<Rightarrow> nat" where
  "attachment_deadline n_chunks = min (120 + 15 * n_chunks) 900"

section \<open>Reading an image back\<close>

definition max_read_chunks :: nat where "max_read_chunks = 1000"

text \<open>
  The loop over chunks; \<open>answer offset\<close> is what the device answers, \<open>None\<close> for an error or a timeout. The result has the name,
  the type and the base64 text; a loop that ends without the last chunk has none.
\<close>

fun read_loop :: "(nat \<Rightarrow> attachment_chunk option) \<Rightarrow> nat \<Rightarrow> nat \<Rightarrow> string \<Rightarrow> (string \<times> string \<times> string) option" where
  "read_loop answer 0 offset b64 = None"
| "read_loop answer (Suc k) offset b64 =
     (case answer offset of
        None \<Rightarrow> None
      | Some c \<Rightarrow>
          if ac_done c then Some (ac_name c, ac_mime c, b64 @ ac_data c)
          else if ac_next c \<le> offset then None
          else read_loop answer k (ac_next c) (b64 @ ac_data c))"

definition read_attachment_image ::
  "(string \<Rightarrow> string option) \<Rightarrow> (nat \<Rightarrow> attachment_chunk option) \<Rightarrow> string \<Rightarrow> (string \<times> string \<times> string) option" where
  "read_attachment_image decode answer path =
     (case read_loop answer max_read_chunks 0 [] of
        None \<Rightarrow> None
      | Some (name, mime, b64) \<Rightarrow>
          if b64 = [] then None
          else (case decode b64 of
             None \<Rightarrow> None
           | Some content \<Rightarrow> Some (if name = [] then name_from_path path else name, mime, content)))"

section \<open>A message is read back\<close>

lemma needle_newlines: "k < length refs_needle \<Longrightarrow> refs_needle ! k = newline \<Longrightarrow> k < 2"
proof -
  assume k: "k < length refs_needle" "refs_needle ! k = newline"
  have "newline \<notin> set ''attached images (local files''" by (simp add: newline_def)
  then have "\<not> 2 \<le> k" using k nth_mem [of "k - 2" "''attached images (local files''"]
    by (auto simp: refs_needle_def nth_append nth_Cons' numeral_2_eq_2 split: if_splits)
  then show "k < 2" by simp
qed

lemma needle_chars: "refs_needle ! 0 = newline" "refs_needle ! 1 = newline" "refs_needle ! 2 \<noteq> newline" "2 < length refs_needle" "refs_needle \<noteq> []"
  by (simp_all add: refs_needle_def newline_def)

text \<open>The first place where the needle stands is the one it was put at.\<close>

lemma needle_found:
  assumes "\<not> sublist refs_needle a"
  shows "find_sub refs_needle (a @ refs_needle @ b) = Some (length a)"
proof (rule find_sub_marked, rule notI)
  fix k
  assume k: "k < length a" and here: "prefix refs_needle (drop k (a @ refs_needle @ b))"
  have same: "refs_needle ! j = (a @ refs_needle @ b) ! (k + j)" if "j < length refs_needle" for j
  proof -
    obtain z where "drop k (a @ refs_needle @ b) = refs_needle @ z" using here by (auto simp: prefix_def)
    then have "refs_needle ! j = drop k (a @ refs_needle @ b) ! j" using that by (simp add: nth_append)
    moreover have "k \<le> length (a @ refs_needle @ b)" using k by simp
    ultimately show ?thesis using nth_drop [of k "a @ refs_needle @ b" j] by (simp del: drop_append)
  qed
  show False
  proof (cases "k + length refs_needle \<le> length a")
    case True
    then have "refs_needle = take (length refs_needle) (drop k a)"
      using same by (intro nth_equalityI) (auto simp: nth_append)
    then show False using assms by (metis sublist_append_leftI sublist_append_rightI append_take_drop_id sublist_order.order.trans sublist_drop sublist_take)
  next
    case False
    let ?j = "length a - k"
    have "refs_needle ! ?j = newline" using same [of ?j] False k needle_chars(1,5) by (simp add: nth_append)
    then have "?j < 2" using False k by (intro needle_newlines) auto
    then have len: "length a = Suc k" using k by linarith
    then have "refs_needle ! 2 = refs_needle ! 1" using same [of 2] needle_chars(4) by (simp add: nth_append len)
    then show False using needle_chars by simp
  qed
qed

lemma lower_header: "map ascii_lower ([newline, newline] @ refs_header) = refs_needle @ map ascii_lower ('' '' @ em_dash @ '' open them to view):'')"
  by code_simp

lemma header_facts: "newline \<notin> set refs_header" "carriage_return \<noteq> last refs_header" "suffix ''):'' refs_header" "refs_header \<noteq> []"
  by (simp_all add: refs_header_def em_dash_def newline_def carriage_return_def suffix_def)

lemma refs_marker:
  assumes "\<not> sublist refs_needle (map ascii_lower a)"
  shows "find_refs_marker (a @ [newline, newline] @ refs_header @ [newline] @ b) = Some (length a, length a + 3 + length refs_header)"
proof -
  let ?s = "a @ [newline, newline] @ refs_header @ [newline] @ b"
  let ?rest = "map ascii_lower ('' '' @ em_dash @ '' open them to view):'') @ map ascii_lower ([newline] @ b)"
  have "map ascii_lower ?s = map ascii_lower a @ map ascii_lower ([newline, newline] @ refs_header) @ map ascii_lower ([newline] @ b)" by simp
  also have "\<dots> = map ascii_lower a @ refs_needle @ ?rest" unfolding lower_header by simp
  finally have lower: "map ascii_lower ?s = map ascii_lower a @ refs_needle @ ?rest" .
  have found: "find_sub refs_needle (drop 0 (map ascii_lower ?s)) = Some (length a)"
    unfolding drop_0 lower using needle_found [OF assms, of ?rest] by (simp only: length_map)
  have tail: "drop (length a + 2) ?s = refs_header @ [newline] @ b" by simp
  have eol: "find_sub [newline] (refs_header @ [newline] @ b) = Some (length refs_header)"
    using header_facts(1) by (intro find_sub_marked) (auto simp: drop_append Cons_nth_drop_Suc [symmetric] in_set_conv_nth)
  have plain: "rev (dropWhile (\<lambda>c. c = carriage_return) (rev refs_header)) = refs_header"
    using header_facts(2,4) by (metis dropWhile_eq_self_iff hd_rev rev_rev_ident)
  show ?thesis
    unfolding find_refs_marker_def
    by (subst find_refs_marker_from.simps) (simp only: found tail eol option.case Let_def add_0, simp add: plain header_facts(3))
qed

lemma dash_line:
  assumes "p \<noteq> []" "trim p = p"
  shows "ref_line (''- '' @ p) = Some p"
proof -
  have "\<forall>w \<in> set ws_chars. w \<noteq> [] \<and> hd w \<noteq> CHR ''-''" by code_simp
  then have "find (\<lambda>w. w \<noteq> [] \<and> prefix w (''- '' @ p)) ws_chars = None" by (auto simp: find_None_iff prefix_def neq_Nil_conv)
  then have "trim_start (''- '' @ p) = ''- '' @ p" unfolding trim_start_def by (rule strip_front_fix)
  then show ?thesis using assms by (simp add: ref_line_def strip_prefix_def)
qed

definition plain_path :: "string \<Rightarrow> bool" where
  "plain_path p = (p \<noteq> [] \<and> trim p = p \<and> newline \<notin> set p \<and> carriage_return \<notin> set p)"

lemma ref_lines:
  assumes "\<forall>p \<in> set paths. plain_path p"
  shows "List.map_filter ref_line (str_lines (join_str [newline] (map (\<lambda>p. ''- '' @ p) paths))) = paths"
proof -
  let ?ls = "map (\<lambda>p. ''- '' @ p) paths"
  have "set (join_str [newline] ls) \<subseteq> insert newline (\<Union>l \<in> set ls. set l)" for ls
  proof (induction ls)
    case (Cons l ls)
    then show ?case by (cases ls) auto
  qed simp
  moreover have "carriage_return \<notin> insert newline (\<Union>l \<in> set ?ls. set l)"
    using assms by (auto simp: plain_path_def carriage_return_def newline_def)
  ultimately have "carriage_return \<notin> set (join_str [newline] ?ls)" by blast
  moreover have "split_lines (join_str [newline] ?ls) = ?ls"
    using assms by (intro lines_of_join) (auto simp: plain_path_def newline_def)
  ultimately have "str_lines (join_str [newline] ?ls) = ?ls" by (simp add: str_lines_def unix_newlines_plain)
  moreover have "List.map_filter ref_line ?ls = paths"
    using assms by (induction paths) (auto simp: List.map_filter_simps plain_path_def dash_line simp del: append_Cons append_Nil)
  ultimately show ?thesis by simp
qed

lemma message_parsed:
  assumes "paths \<noteq> []" "\<forall>p \<in> set paths. plain_path p" "a \<noteq> []" "trim_end a = a" "\<not> sublist refs_needle (map ascii_lower a)"
  shows "map ua_path (pm_attachments (parse_user_message_images (with_attachments a paths))) = paths"
    and "pm_text (parse_user_message_images (with_attachments a paths)) = (if trim a = attachment_only_text then [] else a)"
proof -
  let ?r = "join_str [newline] (map (\<lambda>p. ''- '' @ p) paths)"
  have s: "with_attachments a paths = a @ [newline, newline] @ refs_header @ [newline] @ ?r"
    by (simp only: with_attachments_def assms(1,3) if_False)
  have marker: "find_refs_marker (with_attachments a paths) = Some (length a, length a + 3 + length refs_header)"
    unfolding s by (rule refs_marker [OF assms(5)])
  have refs: "drop (length a + 3 + length refs_header) (with_attachments a paths) = ?r"
  proof -
    have "length (a @ [newline, newline] @ refs_header @ [newline]) = length a + 3 + length refs_header" by simp
    moreover have "with_attachments a paths = (a @ [newline, newline] @ refs_header @ [newline]) @ ?r" by (simp only: s append_assoc)
    ultimately show ?thesis by (metis append_eq_conv_conj)
  qed
  have body: "take (length a) (with_attachments a paths) = a" unfolding s by simp
  let ?as = "map (\<lambda>(index, path). \<lparr>ua_id = show_nat index @ '':'' @ path, ua_path = path, ua_name = name_from_path path\<rparr>) (enumerate 0 paths)"
  have "?as \<noteq> []" using assms(1) by (cases paths) auto
  then have parsed: "parse_user_message_images (with_attachments a paths) =
      \<lparr>pm_text = (if trim a = attachment_only_text then [] else a), pm_attachments = ?as\<rparr>"
    unfolding parse_user_message_images_def marker option.case prod.case refs body ref_lines [OF assms(2)] assms(4) Let_def by simp
  have "map ua_path ?as = map snd (enumerate 0 paths)" unfolding map_map by (rule map_cong) auto
  then show "map ua_path (pm_attachments (parse_user_message_images (with_attachments a paths))) = paths"
    unfolding parsed by simp
  show "pm_text (parse_user_message_images (with_attachments a paths)) = (if trim a = attachment_only_text then [] else a)"
    unfolding parsed by simp
qed

text \<open>
  C28. A message is read back as it was composed: from a prompt with comments and images folded into its text the
  transcript recovers the images in their order, the prompt, and every comment with its place, side and body.
\<close>
theorem message_roundtrip:
  assumes "paths \<noteq> []" "\<forall>p \<in> set paths. plain_path p" "cs \<noteq> []" "\<forall>c \<in> set cs. plain_comment c"
    and "folded = with_comments body cs"
    and "trim_end folded = folded" "\<not> sublist refs_needle (map ascii_lower folded)"
    and "parsed = parse_user_message_images (with_attachments folded paths)"
  shows "map ua_path (pm_attachments parsed) = paths \<and>
    split_badges (pm_text parsed) =
      (if body = [] then comment_only_text else body, [\<lparr>mb_label = chip_label (length cs), mb_details = map detail_of cs\<rparr>])"
proof -
  note badge = comments_roundtrip [OF assms(3,4), of body]
  then have "folded \<noteq> []" using assms(5) by (auto simp: extract_badge_def block_marker_def split: option.splits)
  note images = message_parsed [OF assms(1,2) this assms(6,7)]
  have "trim folded \<noteq> attachment_only_text"
  proof
    assume "trim folded = attachment_only_text"
    moreover have "CHR ''C'' \<in> set folded"
      using assms(3) by (simp add: assms(5) with_comments_def block_marker_def comment_block_header_def)
    moreover have "\<forall>w \<in> set ws_chars. CHR ''C'' \<notin> set w" by code_simp
    ultimately show False using trim_removed [of folded] by (auto simp: attachment_only_text_def)
  qed
  with images badge assms(5,8) show ?thesis by (simp add: split_badges_def extractors_def)
qed

theorem message_roundtrip_witness:
  "map ua_path (pm_attachments (parse_user_message_images (with_attachments
     (with_comments ''look'' [\<lparr>dc_id = ''i'', dc_path = ''a.rs'', dc_old_path = None, dc_side = NewSide, dc_line = 5, dc_body = ''see''\<rparr>]) [''/p/x.png'']))) =
   [''/p/x.png'']"
proof -
  let ?c = "\<lparr>dc_id = ''i'', dc_path = ''a.rs'', dc_old_path = None, dc_side = NewSide, dc_line = 5, dc_body = ''see''\<rparr>"
  let ?f = "with_comments ''look'' [?c]"
  have "plain_comment ?c" by (simp add: plain_comment_def cite_path_def newline_def carriage_return_def)
  moreover have "plain_path ''/p/x.png''" by code_simp
  moreover have "trim_end ?f = ?f" "\<not> sublist refs_needle (map ascii_lower ?f)" by code_simp+
  ultimately show ?thesis using message_roundtrip [of "[''/p/x.png'']" "[?c]" ?f "''look''", OF _ _ _ _ refl _ _ refl] by simp
qed

end
