(* ===== verification/Image_Reading.thy ===== *)
theory Image_Reading
  imports Attachments
begin

text \<open>
  Reading an image back from the device that has it: the loop of the app (\<open>crates/ui/src/attachments.rs\<close>) against the chunks
  the device serves (\<open>crates/engine/src/uploads.rs\<close>), from one image to the whole way of an attachment.
\<close>

section \<open>The loop ends with the whole file\<close>

text \<open>What the app sees of the device: an error of any kind is a failed call.\<close>

definition device_answer ::
  "(string \<Rightarrow> string) \<Rightarrow> (string \<Rightarrow> string option) \<Rightarrow> string \<Rightarrow> string list \<Rightarrow> uploads \<Rightarrow> nat \<Rightarrow> attachment_chunk option" where
  "device_answer encode canonicalize path roots u offset =
     (case read_chunk encode canonicalize path offset roots u of Inl _ \<Rightarrow> None | Inr c \<Rightarrow> Some c)"

lemma file_name_ne: "file_name p = Some n \<Longrightarrow> n \<noteq> []"
proof -
  assume n: "file_name p = Some n"
  let ?names = "filter (\<lambda>c. c \<noteq> [] \<and> c \<noteq> ''.'') (path_components p)"
  have "n \<in> set (rev ?names)" using n by (auto simp: file_name_def split: list.splits if_splits simp del: set_rev)
  then show "n \<noteq> []" by simp
qed

lemma inspected:
  assumes "inspect canonicalize path roots u = Inr f"
  shows "length (if_content f) \<le> max_bytes" "if_name f \<noteq> []"
  using assms file_name_ne by (auto simp: inspect_def not_less split: option.splits if_splits)

context base64_codec
begin

lemma encode_grows:
  assumes "a mod 3 = 0" "a \<le> b" "b \<le> length c"
  shows "encode (take a c) @ encode (take (b - a) (drop a c)) = encode (take b c)"
proof -
  have "length (take a c) mod 3 = 0" using assms by simp
  from encode_append [OF this, of "take (b - a) (drop a c)"] have "encode (take a c @ take (b - a) (drop a c)) = encode (take a c) @ encode (take (b - a) (drop a c))" .
  moreover have "take a c @ take (b - a) (drop a c) = take b c" using assms(2) by (metis le_add_diff_inverse take_add)
  ultimately show ?thesis by simp
qed

lemma read_loop_complete:
  assumes "inspect canonicalize path roots u = Inr f" "offset < length (if_content f)" "offset mod 3 = 0"
    and "length (if_content f) \<le> offset + k * read_chunk_bytes"
  shows "read_loop (device_answer encode canonicalize path roots u) k offset (encode (take offset (if_content f))) =
    Some (if_name f, if_mime f, encode (if_content f))"
  using assms(2-4)
proof (induction k arbitrary: offset)
  case (Suc k)
  let ?c = "if_content f" and ?n = "min (offset + read_chunk_bytes) (length (if_content f))"
  have chunk: "device_answer encode canonicalize path roots u offset =
      Some \<lparr>ac_name = if_name f, ac_mime = if_mime f, ac_data = encode (take (?n - offset) (drop offset ?c)), ac_next = ?n, ac_done = (?n \<ge> length ?c)\<rparr>"
    using assms(1) Suc.prems(1) by (simp add: device_answer_def read_chunk_def Let_def)
  have grown: "encode (take offset ?c) @ encode (take (?n - offset) (drop offset ?c)) = encode (take ?n ?c)"
    using Suc.prems(1,2) by (intro encode_grows) auto
  show ?case
  proof (cases "?n \<ge> length ?c")
    case True
    then have "take ?n ?c = ?c" by simp
    then show ?thesis using True grown by (simp add: chunk)
  next
    case False
    then have n: "?n = offset + read_chunk_bytes" "?n < length ?c" by auto
    have "read_loop (device_answer encode canonicalize path roots u) k ?n (encode (take ?n ?c)) = Some (if_name f, if_mime f, encode ?c)"
      using Suc.prems(2,3) n by (intro Suc.IH) (auto simp: read_chunk_bytes_def)
    then show ?thesis using False grown n by (simp add: chunk read_chunk_bytes_def)
  qed
qed simp

lemma image_read:
  assumes "inspect canonicalize path roots u = Inr f" "if_content f \<noteq> []"
  shows "read_attachment_image decode (device_answer encode canonicalize path roots u) path = Some (if_name f, if_mime f, if_content f)"
proof -
  note size = inspected(1) [OF assms(1)] and name = inspected(2) [OF assms(1)]
  have "encode [] = []" using length_encode [of "[]"] by simp
  moreover have "max_bytes \<le> max_read_chunks * read_chunk_bytes" by (simp add: max_bytes_def max_read_chunks_def read_chunk_bytes_def)
  ultimately have "read_loop (device_answer encode canonicalize path roots u) max_read_chunks 0 [] = Some (if_name f, if_mime f, encode (if_content f))"
    using read_loop_complete [OF assms(1), of 0 max_read_chunks] assms(2) size by simp
  moreover have "encode (if_content f) \<noteq> []"
    using length_encode [of "if_content f"] assms(2) by (cases "if_content f") auto
  ultimately show ?thesis using name by (simp add: read_attachment_image_def decode_encode)
qed

end

section \<open>A committed file is inside the uploads directory\<close>

lemma path_components_ne: "path_components s \<noteq> []"
  by (induction s) (auto split: list.split)

lemma path_components_append: "path_components (a @ CHR ''/'' # b) = path_components a @ path_components b"
  by (induction a) (auto simp: path_components_ne split: list.split)

lemma path_names_join:
  assumes "CHR ''/'' \<notin> set x" "x \<noteq> []" "x \<noteq> ''.''"
  shows "path_names (join_path d x) = path_names d @ [x]" "rooted (join_path d x) = rooted d"
proof -
  have x: "path_components x = [x]" using assms(1) by (rule path_components_plain)
  have slash: "path_names (a @ CHR ''/'' # x) = path_names a @ [x]" for a
    using assms(2,3) by (simp add: path_names_def path_components_append x)
  have cut: "path_names (a @ ''/'') = path_names a" for a
    using path_components_append [of a "[]"] by (simp add: path_names_def)
  show "path_names (join_path d x) = path_names d @ [x]"
  proof (cases d rule: rev_cases)
    case Nil
    then show ?thesis using assms(2,3) by (simp add: join_path_def path_names_def x)
  next
    case (snoc a c)
    then show ?thesis using slash [of a] slash [of d] cut [of a] by (auto simp: join_path_def)
  qed
  show "rooted (join_path d x) = rooted d"
    using assms(1,2) by (cases d; cases x) (auto simp: join_path_def rooted_def)
qed

lemma target_inside: "path_starts_with (pending_target u i name) (up_dir u)" "\<not> path_same (pending_target u i name) (up_dir u)"
proof -
  let ?x = "sanitize (take_chars 8 i) @ ''-'' @ sanitize name"
  have "clean_char (CHR ''/'') \<noteq> CHR ''/''" by (simp add: clean_char_def is_ascii_alnum_def)
  then have "CHR ''/'' \<notin> set ?x" using sanitize_facts(1) by fastforce
  moreover have "?x \<noteq> ''.''" using sanitize_facts(2) by (cases "sanitize (take_chars 8 i)") auto
  ultimately have "path_names (pending_target u i name) = path_names (up_dir u) @ [?x]" "rooted (pending_target u i name) = rooted (up_dir u)"
    unfolding pending_target_def by (intro path_names_join; simp)+
  then show "path_starts_with (pending_target u i name) (up_dir u)" "\<not> path_same (pending_target u i name) (up_dir u)"
    by (auto simp: path_starts_with_def path_same_def)
qed

lemma parse_pending_ref_made:
  assumes "CHR ''/'' \<notin> set i" "i \<noteq> []" "name \<noteq> []"
  shows "parse_pending_ref (pending_ref i name) = Some (i, name)"
proof -
  have "split_once ''/'' (i @ CHR ''/'' # name) = Some (i, name)" using assms(1) by (induction i) auto
  then show ?thesis using assms(2,3) by (simp add: parse_pending_ref_def pending_ref_def strip_prefix_def)
qed

lemma landed_inspected:
  assumes "upload_id_ok i" "name \<noteq> []" "up_files u (pending_target u i name) = Some content" "length content \<le> max_bytes"
    and "mime_by_ext (pending_target u i name) = Some mime"
    and "canonicalize (up_dir u) = Some (up_dir u)" "canonicalize (pending_target u i name) = Some (pending_target u i name)"
  shows "\<exists>f. inspect canonicalize (pending_ref i name) roots u = Inr f \<and> if_mime f = mime \<and> if_content f = content"
proof -
  have "CHR ''/'' \<notin> set i" "i \<noteq> []" using assms(1) by (auto simp: upload_id_ok_def list_all_iff is_ascii_alnum_def)
  then have "resolve_pending u (pending_ref i name) = Some (pending_target u i name)"
    using assms(2,3) by (simp add: resolve_pending_def parse_pending_ref_made)
  moreover have "is_pending_ref (pending_ref i name)" by (simp add: is_pending_ref_def pending_ref_def)
  ultimately show ?thesis
    using assms(3-7) target_inside [of u i name] by (auto simp: inspect_def List.map_filter_simps)
qed

text \<open>
  C15. An attachment survives its whole way: once the escort has reported success, the app can read the reference it sent from the host,
  in at most a thousand chunks, and gets the bytes it attached, whatever the link did in between.
\<close>
theorem attachment_survives:
  assumes "base64_codec encode decode"
    and "deliver_attachments encode decode link own ts rounds n host = (Some True, m, host')"
    and "\<forall>r \<in> set rounds. er_remote r" "\<forall>t \<in> set ts. up_staging host (tr_upload_id t) = None"
    and "distinct (map tr_upload_id ts)" "distinct (map (target_of host) ts)"
    and "t \<in> set ts" "upload_id_ok (tr_upload_id t)" "tr_file_name t \<noteq> []"
    and "up_files own (target_of own t) = Some content" "content \<noteq> []" "length content \<le> max_bytes"
    and "mime_by_ext (target_of host' t) = Some mime"
    and "canonicalize (up_dir host') = Some (up_dir host')" "canonicalize (target_of host' t) = Some (target_of host' t)"
    and "path = pending_ref (tr_upload_id t) (tr_file_name t)"
  shows "\<exists>name. read_attachment_image decode (device_answer encode canonicalize path roots host') path = Some (name, mime, content)"
proof -
  have "up_files host' (target_of host' t) = Some content" using escort_landed [OF assms(1-6)] assms(7,10) by auto
  then obtain f where "inspect canonicalize path roots host' = Inr f" "if_mime f = mime" "if_content f = content"
    using landed_inspected [OF assms(8,9)] assms(12-16) unfolding target_of_def by blast
  then show ?thesis using base64_codec.image_read [OF assms(1)] assms(11) by blast
qed

theorem attachment_survives_witness:
  "\<exists>name. read_attachment_image b64_decode
     (device_answer b64_encode Some ''pending://u1/a b.png'' [] (snd (snd (deliver_attachments b64_encode b64_decode shaky_link sender [demo_transfer] demo_rounds 0 empty_host))))
     ''pending://u1/a b.png'' = Some (name, ''image/png'', ''abc'')"
proof -
  let ?h = "empty_host\<lparr>up_files := [''/up/u1-a_b.png'' \<mapsto> ''abc'']\<rparr>"
  have target: "target_of ?h demo_transfer = ''/up/u1-a_b.png''" by code_simp
  have ref: "''pending://u1/a b.png'' = pending_ref (tr_upload_id demo_transfer) (tr_file_name demo_transfer)" by code_simp
  have "mime_by_ext (target_of ?h demo_transfer) = Some ''image/png''" unfolding target by code_simp
  moreover have "up_files sender (target_of sender demo_transfer) = Some ''abc''" by (simp add: target_of_def demo_own)
  moreover have "\<forall>r \<in> set demo_rounds. er_remote r" by (simp add: demo_rounds_def)
  moreover have "upload_id_ok (tr_upload_id demo_transfer)" "tr_file_name demo_transfer \<noteq> []" by (simp_all add: demo_transfer_def demo_id)
  ultimately show ?thesis
    unfolding demo_delivered snd_conv
    by (intro attachment_survives [OF rfc4648.base64_codec_axioms demo_delivered _ _ _ _ _ _ _ _ _ _ _ _ _ ref])
      (simp_all add: empty_host_def max_bytes_def)
qed

end
