(* ===== verification/Image_Cache.thy ===== *)
theory Image_Cache
  imports Rust_Str
begin

text \<open>
  The cache of loaded images of the desktop app (\<open>crates/ui/src/attachments.rs\<close>): what a row of the transcript shows for an
  img, who may start to load it, when a failed load is tried again, and which images are dropped when the cache is over
  its budget. An image is its bytes; times are milliseconds.
\<close>

type_synonym image_key = "string \<times> string"

record cached_image =
  ci_name :: string
  ci_bytes :: string

datatype cache_entry =
    CLoading nat
  | CLoaded cached_image nat nat
  | CError nat int

datatype attachment_snapshot = SLoading | SLoaded cached_image | SError int

record image_cache =
  ic_map :: "(image_key \<times> cache_entry) list"
  ic_tick :: nat
  ic_loaded_bytes :: nat
  ic_pending_free :: "cached_image list"

definition image_cache_budget :: nat where "image_cache_budget = 64 * 1024 * 1024"

definition retry_delay :: "nat \<Rightarrow> int" where
  "retry_delay attempts = min (2000 * 2 ^ min attempts 3) 15000"

definition put_entry :: "image_key \<Rightarrow> cache_entry \<Rightarrow> (image_key \<times> cache_entry) list \<Rightarrow> (image_key \<times> cache_entry) list" where
  "put_entry k e m = (k, e) # filter (\<lambda>(k', _). k' \<noteq> k) m"

text \<open>The loaded images that may go, with the time they were last used.\<close>

definition evictable :: "image_key \<Rightarrow> image_key list \<Rightarrow> (image_key \<times> cache_entry) list \<Rightarrow> (nat \<times> image_key) list" where
  "evictable key shielded m =
     List.map_filter (\<lambda>(k, e). case e of
         CLoaded _ _ used \<Rightarrow> if k \<noteq> key \<and> k \<notin> set shielded then Some (used, k) else None
       | _ \<Rightarrow> None) m"

definition oldest :: "(nat \<times> image_key) list \<Rightarrow> (nat \<times> image_key) option" where
  "oldest xs = (case xs of [] \<Rightarrow> None | x # rest \<Rightarrow> Some (fold min rest x))"

lemma oldest_in: "oldest xs = Some x \<Longrightarrow> x \<in> set xs"
proof -
  have "fold min rest x \<in> set (x # rest)" for rest and x :: "nat \<times> image_key"
    by (induction rest arbitrary: x) (auto simp: min_def)
  then show "oldest xs = Some x \<Longrightarrow> x \<in> set xs" by (auto simp: oldest_def split: list.splits)
qed

text \<open>One image after another goes, the least recently used first, until the budget holds.\<close>

function evict :: "image_key \<Rightarrow> image_key list \<Rightarrow> image_cache \<Rightarrow> image_cache" where
  "evict key shielded c =
     (if ic_loaded_bytes c \<le> image_cache_budget then c
      else case oldest (evictable key shielded (ic_map c)) of
        None \<Rightarrow> c
      | Some (_, k) \<Rightarrow>
          evict key shielded
            (case map_of (ic_map c) k of
               Some (CLoaded img bytes _) \<Rightarrow>
                 c\<lparr>ic_map := filter (\<lambda>(k', _). k' \<noteq> k) (ic_map c), ic_loaded_bytes := ic_loaded_bytes c - bytes,
                   ic_pending_free := ic_pending_free c @ [img]\<rparr>
             | _ \<Rightarrow> c\<lparr>ic_map := filter (\<lambda>(k', _). k' \<noteq> k) (ic_map c)\<rparr>))"
  by pat_completeness auto

lemma evictable_present: "(used, k) \<in> set (evictable key shielded m) \<Longrightarrow> \<exists>e. (k, e) \<in> set m"
  by (auto simp: evictable_def List.map_filter_def split: cache_entry.splits if_splits)

lemma filter_key_less: "(k, e) \<in> set m \<Longrightarrow> length (filter (\<lambda>(k', _). k' \<noteq> k) m) < length m"
  by (rule length_filter_less) auto

termination evict
proof (relation "measure (\<lambda>(key, shielded, c). length (ic_map c))")
  fix key shielded and c :: image_cache and x y and k :: image_key
  assume "oldest (evictable key shielded (ic_map c)) = Some x" "(y, k) = x"
  then obtain e where "(k, e) \<in> set (ic_map c)" using oldest_in evictable_present by metis
  then have "length (filter (\<lambda>(k', _). k' \<noteq> k) (ic_map c)) < length (ic_map c)" by (rule filter_key_less)
  then show "((key, shielded, case map_of (ic_map c) k of
      Some (CLoaded img bytes _) \<Rightarrow>
        c\<lparr>ic_map := filter (\<lambda>(k', _). k' \<noteq> k) (ic_map c), ic_loaded_bytes := ic_loaded_bytes c - bytes,
          ic_pending_free := ic_pending_free c @ [img]\<rparr>
    | _ \<Rightarrow> c\<lparr>ic_map := filter (\<lambda>(k', _). k' \<noteq> k) (ic_map c)\<rparr>), key, shielded, c) \<in> measure (\<lambda>(key, shielded, c). length (ic_map c))"
    by (auto split: option.split cache_entry.split)
qed simp

declare evict.simps [simp del]

definition insert_loaded :: "image_key list \<Rightarrow> image_key \<Rightarrow> cached_image \<Rightarrow> image_cache \<Rightarrow> image_cache" where
  "insert_loaded shielded key img c =
     (let bytes = length (ci_bytes img);
          tick = ic_tick c + 1;
          placed = c\<lparr>ic_tick := tick, ic_map := put_entry key (CLoaded img bytes tick) (ic_map c)\<rparr>;
          freed = (case map_of (ic_map c) key of
              Some (CLoaded old old_bytes _) \<Rightarrow>
                placed\<lparr>ic_loaded_bytes := ic_loaded_bytes c - old_bytes, ic_pending_free := ic_pending_free c @ [old]\<rparr>
            | _ \<Rightarrow> placed)
      in evict key shielded (freed\<lparr>ic_loaded_bytes := ic_loaded_bytes freed + bytes\<rparr>))"

text \<open>The start of the name of a committed upload.\<close>

definition upload_alias_id8 :: "string \<Rightarrow> string option" where
  "upload_alias_id8 path =
     (case file_name path of
        None \<Rightarrow> None
      | Some base \<Rightarrow>
          if 8 < length base \<and> is_char_boundary base 8 \<and> base ! 8 = CHR ''-'' \<and> list_all is_ascii_alnum (take 8 base)
          then Some (take 8 base) else None)"

definition alias_key :: "string \<Rightarrow> string \<Rightarrow> image_key" where
  "alias_key device_id id8 = (device_id, ''upload-alias://'' @ id8)"

definition attachment_snapshot :: "image_key list \<Rightarrow> int \<Rightarrow> string \<Rightarrow> string \<Rightarrow> image_cache \<Rightarrow> attachment_snapshot \<times> image_cache" where
  "attachment_snapshot shielded now device_id path c =
     (let key = (device_id, path);
          c = c\<lparr>ic_tick := ic_tick c + 1\<rparr>
      in case map_of (ic_map c) key of
           Some (CLoaded img bytes _) \<Rightarrow> (SLoaded img, c\<lparr>ic_map := put_entry key (CLoaded img bytes (ic_tick c)) (ic_map c)\<rparr>)
         | Some (CError attempts at) \<Rightarrow> (SError (max 0 (retry_delay (attempts - 1) - max 0 (now - at))), c)
         | Some (CLoading _) \<Rightarrow> (SLoading, c)
         | None \<Rightarrow>
             (case Option.bind (upload_alias_id8 path) (\<lambda>id8. map_of (ic_map c) (alias_key device_id id8)) of
                Some (CLoaded img _ _) \<Rightarrow> (SLoaded img, insert_loaded shielded key img c)
              | _ \<Rightarrow> (SLoading, c)))"

definition store_loaded :: "image_key list \<Rightarrow> string \<Rightarrow> string \<Rightarrow> string \<Rightarrow> string \<Rightarrow> image_cache \<Rightarrow> image_cache" where
  "store_loaded shielded device_id path name img c =
     insert_loaded shielded (device_id, path) \<lparr>ci_name = name, ci_bytes = img\<rparr> c"

definition seed_attachment_alias :: "image_key list \<Rightarrow> string \<Rightarrow> string \<Rightarrow> string \<Rightarrow> string \<Rightarrow> image_cache \<Rightarrow> image_cache" where
  "seed_attachment_alias shielded device_id upload_id name img c =
     (case alias_key device_id (take_chars 8 upload_id) of (device, path) \<Rightarrow> store_loaded shielded device path name img c)"

definition begin_load :: "int \<Rightarrow> string \<Rightarrow> string \<Rightarrow> image_cache \<Rightarrow> bool \<times> image_cache" where
  "begin_load now device_id path c =
     (let key = (device_id, path)
      in case map_of (ic_map c) key of
           None \<Rightarrow> (True, c\<lparr>ic_map := put_entry key (CLoading 0) (ic_map c)\<rparr>)
         | Some (CError attempts at) \<Rightarrow>
             if max 0 (now - at) \<ge> retry_delay (attempts - 1) then (True, c\<lparr>ic_map := put_entry key (CLoading attempts) (ic_map c)\<rparr>)
             else (False, c)
         | Some _ \<Rightarrow> (False, c))"

definition store_error :: "int \<Rightarrow> string \<Rightarrow> string \<Rightarrow> image_cache \<Rightarrow> image_cache" where
  "store_error now device_id path c =
     (let key = (device_id, path);
          attempts = (case map_of (ic_map c) key of
              Some (CLoading attempts) \<Rightarrow> attempts + 1
            | Some (CError attempts _) \<Rightarrow> attempts
            | _ \<Rightarrow> 1)
      in c\<lparr>ic_map := put_entry key (CError attempts now) (ic_map c)\<rparr>)"

definition flush_evicted :: "image_cache \<Rightarrow> cached_image list \<times> image_cache" where
  "flush_evicted c = (ic_pending_free c, c\<lparr>ic_pending_free := []\<rparr>)"

section \<open>Accounting\<close>

fun entry_bytes :: "cache_entry \<Rightarrow> nat" where
  "entry_bytes (CLoaded img bytes used) = bytes"
| "entry_bytes _ = 0"

fun entry_ok :: "cache_entry \<Rightarrow> bool" where
  "entry_ok (CLoaded img bytes used) = (bytes = length (ci_bytes img))"
| "entry_ok _ = True"

definition held_bytes :: "(image_key \<times> cache_entry) list \<Rightarrow> nat" where
  "held_bytes m = sum_list (map (entry_bytes \<circ> snd) m)"

text \<open>The counter is ahead of what is held by \<open>n\<close> bytes.\<close>

definition cache_ok :: "nat \<Rightarrow> image_cache \<Rightarrow> bool" where
  "cache_ok n c = (distinct (map fst (ic_map c)) \<and> (\<forall>x \<in> set (ic_map c). entry_ok (snd x)) \<and> ic_loaded_bytes c = held_bytes (ic_map c) + n)"

definition bytes_at :: "image_key \<Rightarrow> image_cache \<Rightarrow> nat" where
  "bytes_at k c = (case map_of (ic_map c) k of Some e \<Rightarrow> entry_bytes e | None \<Rightarrow> 0)"

lemma held_bytes_Cons [simp]: "held_bytes ((k, e) # m) = entry_bytes e + held_bytes m"
  by (simp add: held_bytes_def)

lemma held_bytes_filter:
  assumes "distinct (map fst m)"
  shows "held_bytes m = held_bytes (filter (\<lambda>(k', _). k' \<noteq> k) m) + (case map_of m k of Some e \<Rightarrow> entry_bytes e | None \<Rightarrow> 0)"
  using assms
proof (induction m)
  case (Cons x m)
  obtain k' e where x: "x = (k', e)" by (cases x)
  show ?case
  proof (cases "k' = k")
    case True
    have none: "k \<notin> fst ` set m" using Cons.prems True by (simp add: x)
    then have "filter (\<lambda>(k', _). k' \<noteq> k) m = m" by (force simp: filter_id_conv)
    then show ?thesis using True by (simp add: x)
  next
    case False
    with Cons show ?thesis by (simp add: x)
  qed
qed (simp add: held_bytes_def)

lemma map_of_filter_other: "k' \<noteq> k \<Longrightarrow> map_of (filter (\<lambda>(k', _). k' \<noteq> k) m) k' = map_of m k'"
  by (induction m) auto

lemma map_of_put_entry: "map_of (put_entry k e m) k' = (if k' = k then Some e else map_of m k')"
  by (simp add: put_entry_def map_of_filter_other)

lemma distinct_filter_keys: "distinct (map fst m) \<Longrightarrow> distinct (map fst (filter P m))"
  by (simp add: distinct_map_filter)

lemma put_entry_keys: "distinct (map fst m) \<Longrightarrow> distinct (map fst (put_entry k e m))"
  by (auto simp: put_entry_def distinct_filter_keys)

lemma held_put_entry:
  assumes "distinct (map fst m)"
  shows "held_bytes (put_entry k e m) + (case map_of m k of Some e \<Rightarrow> entry_bytes e | None \<Rightarrow> 0) = entry_bytes e + held_bytes m"
  using held_bytes_filter [OF assms, of k] by (simp add: put_entry_def)

lemma put_entry_ok: "\<forall>x \<in> set m. entry_ok (snd x) \<Longrightarrow> entry_ok e \<Longrightarrow> \<forall>x \<in> set (put_entry k e m). entry_ok (snd x)"
  by (auto simp: put_entry_def)

lemma drop_entry_ok:
  assumes "cache_ok n c" "map_of (ic_map c) k = Some (CLoaded img bytes used)"
  shows "cache_ok n (c\<lparr>ic_map := filter (\<lambda>(k', _). k' \<noteq> k) (ic_map c), ic_loaded_bytes := ic_loaded_bytes c - bytes, ic_pending_free := free\<rparr>)"
  using assms held_bytes_filter [of "ic_map c" k] by (auto simp: cache_ok_def distinct_filter_keys)

lemma oldest_None: "oldest xs = None \<longleftrightarrow> xs = []"
  by (simp add: oldest_def split: list.split)

lemma evictable_loaded:
  assumes "distinct (map fst m)" "(used, k) \<in> set (evictable key shielded m)"
  shows "\<exists>img bytes. map_of m k = Some (CLoaded img bytes used)" "k \<noteq> key" "k \<notin> set shielded"
proof -
  obtain img bytes where "(k, CLoaded img bytes used) \<in> set m" "k \<noteq> key" "k \<notin> set shielded"
    using assms(2) by (auto simp: evictable_def List.map_filter_def split: cache_entry.splits if_splits)
  with assms(1) show "\<exists>img bytes. map_of m k = Some (CLoaded img bytes used)" "k \<noteq> key" "k \<notin> set shielded"
    using map_of_is_SomeI [of m k "CLoaded img bytes used"] by auto
qed

definition only_shielded :: "image_key \<Rightarrow> image_key list \<Rightarrow> image_cache \<Rightarrow> bool" where
  "only_shielded key shielded c = (\<forall>(k, e) \<in> set (ic_map c). entry_bytes e > 0 \<longrightarrow> k = key \<or> k \<in> set shielded)"

lemma evict_ok:
  assumes "cache_ok n c"
  shows "cache_ok n (evict key shielded c) \<and>
    (ic_loaded_bytes (evict key shielded c) \<le> image_cache_budget \<or> only_shielded key shielded (evict key shielded c)) \<and>
    (\<forall>k. k = key \<or> k \<in> set shielded \<longrightarrow> map_of (ic_map (evict key shielded c)) k = map_of (ic_map c) k)"
  using assms
proof (induction key shielded c rule: evict.induct)
  case (1 key shielded c)
  show ?case
  proof (cases "ic_loaded_bytes c \<le> image_cache_budget")
    case True
    then show ?thesis using 1 by (simp add: evict.simps [of key shielded c])
  next
    case over: False
    show ?thesis
    proof (cases "oldest (evictable key shielded (ic_map c))")
      case None
      then have "evictable key shielded (ic_map c) = []" by (simp add: oldest_None)
      then have "only_shielded key shielded c"
        by (auto simp: only_shielded_def evictable_def List.map_filter_def filter_empty_conv split: cache_entry.splits if_splits elim: entry_bytes.elims)
      then show ?thesis using 1(2) over None by (simp add: evict.simps [of key shielded c])
    next
      case (Some x)
      obtain used k where x: "x = (used, k)" by (cases x)
      have keys: "distinct (map fst (ic_map c))" using 1(2) by (simp add: cache_ok_def)
      obtain img bytes where e: "map_of (ic_map c) k = Some (CLoaded img bytes used)" "k \<noteq> key" "k \<notin> set shielded"
        using evictable_loaded [OF keys] oldest_in [OF Some] x by blast
      let ?c = "c\<lparr>ic_map := filter (\<lambda>(k', _). k' \<noteq> k) (ic_map c), ic_loaded_bytes := ic_loaded_bytes c - bytes,
        ic_pending_free := ic_pending_free c @ [img]\<rparr>"
      have step: "evict key shielded c = evict key shielded ?c"
        using over Some x e by (simp add: evict.simps [of key shielded c])
      have "map_of (ic_map ?c) k' = map_of (ic_map c) k'" if "k' = key \<or> k' \<in> set shielded" for k'
      proof -
        have "k' \<noteq> k" using e(2,3) that by blast
        then show ?thesis by (simp add: map_of_filter_other)
      qed
      moreover have "cache_ok n ?c" by (rule drop_entry_ok [OF 1(2) e(1)])
      ultimately show ?thesis using 1(1) [OF over Some x [symmetric]] unfolding step by (simp add: e(1))
    qed
  qed
qed

lemma insert_loaded_ok:
  assumes "cache_ok n c"
  shows "cache_ok n (insert_loaded shielded key img c)"
    and "ic_loaded_bytes (insert_loaded shielded key img c) \<le> image_cache_budget \<or> only_shielded key shielded (insert_loaded shielded key img c)"
    and "map_of (ic_map (insert_loaded shielded key img c)) key = Some (CLoaded img (length (ci_bytes img)) (ic_tick c + 1))"
proof -
  let ?e = "CLoaded img (length (ci_bytes img)) (ic_tick c + 1)"
  define before where "before = (case map_of (ic_map c) key of Some e \<Rightarrow> entry_bytes e | None \<Rightarrow> 0)"
  define placed where "placed = c\<lparr>ic_tick := ic_tick c + 1, ic_map := put_entry key ?e (ic_map c)\<rparr>"
  define freed where "freed = (case map_of (ic_map c) key of
      Some (CLoaded old old_bytes _) \<Rightarrow>
        placed\<lparr>ic_loaded_bytes := ic_loaded_bytes c - old_bytes, ic_pending_free := ic_pending_free c @ [old]\<rparr>
    | _ \<Rightarrow> placed)"
  let ?c = "freed\<lparr>ic_loaded_bytes := ic_loaded_bytes freed + length (ci_bytes img)\<rparr>"
  have run: "insert_loaded shielded key img c = evict key shielded ?c"
    by (simp only: insert_loaded_def Let_def placed_def freed_def)
  have m: "ic_map freed = put_entry key ?e (ic_map c)" by (auto simp: freed_def placed_def split: option.split cache_entry.split)
  have "ic_loaded_bytes freed = ic_loaded_bytes c - before"
    by (auto simp: freed_def placed_def before_def split: option.split cache_entry.split)
  moreover have "held_bytes (put_entry key ?e (ic_map c)) + before = length (ci_bytes img) + held_bytes (ic_map c)"
    using held_put_entry [of "ic_map c" key ?e] assms by (simp add: before_def cache_ok_def)
  moreover have "before \<le> held_bytes (ic_map c)"
    using held_bytes_filter [of "ic_map c" key] assms by (simp add: before_def cache_ok_def)
  ultimately have "cache_ok n ?c"
    using assms put_entry_keys [of "ic_map c" key ?e] put_entry_ok [of "ic_map c" ?e key] by (auto simp: cache_ok_def m)
  note kept = evict_ok [OF this, of key shielded]
  then show "cache_ok n (insert_loaded shielded key img c)"
    "ic_loaded_bytes (insert_loaded shielded key img c) \<le> image_cache_budget \<or> only_shielded key shielded (insert_loaded shielded key img c)"
    unfolding run by blast+
  have "map_of (ic_map (evict key shielded ?c)) key = map_of (ic_map ?c) key" using kept by blast
  then show "map_of (ic_map (insert_loaded shielded key img c)) key = Some ?e" unfolding run by (simp add: m map_of_put_entry)
qed

lemma replace_entry_ok:
  assumes "cache_ok n c" "entry_bytes e = (case map_of (ic_map c) k of Some e \<Rightarrow> entry_bytes e | None \<Rightarrow> 0)" "entry_ok e"
  shows "cache_ok n (c\<lparr>ic_map := put_entry k e (ic_map c)\<rparr>)"
  using assms held_put_entry [of "ic_map c" k e] put_entry_keys [of "ic_map c" k e] put_entry_ok [of "ic_map c" e k] by (auto simp: cache_ok_def)

lemma cache_ok_tick: "cache_ok n (c\<lparr>ic_tick := n\<rparr>) = cache_ok n c"
  by (simp add: cache_ok_def)

lemma cache_ok_entry: "cache_ok n c \<Longrightarrow> map_of (ic_map c) k = Some e \<Longrightarrow> entry_ok e"
  by (auto simp: cache_ok_def dest!: map_of_SomeD)

lemma snapshot_ok:
  assumes "cache_ok n c"
  shows "cache_ok n (snd (attachment_snapshot shielded now device_id path c))"
proof -
  let ?c = "c\<lparr>ic_tick := ic_tick c + 1\<rparr>"
  have ok: "cache_ok n ?c" using assms by (simp add: cache_ok_def)
  have loaded: "cache_ok n (?c\<lparr>ic_map := put_entry k (CLoaded img bytes t) (ic_map ?c)\<rparr>)"
    if "map_of (ic_map c) k = Some (CLoaded img bytes used)" for k img bytes used t
    using replace_entry_ok [OF ok, of "CLoaded img bytes t" k] cache_ok_entry [OF assms that] that by simp
  show ?thesis
    using ok loaded insert_loaded_ok(1) [OF ok]
    by (auto simp: attachment_snapshot_def Let_def split: option.split cache_entry.split)
qed

lemma begin_load_ok: "cache_ok n c \<Longrightarrow> cache_ok n (snd (begin_load now device_id path c))"
  by (auto simp: begin_load_def Let_def intro!: replace_entry_ok split: option.split cache_entry.split)

lemma store_error_ok:
  assumes "cache_ok n c"
  shows "cache_ok (n + bytes_at (device_id, path) c) (store_error now device_id path c)"
proof -
  define e where "e = CError (case map_of (ic_map c) (device_id, path) of
      Some (CLoading attempts) \<Rightarrow> attempts + 1 | Some (CError attempts _) \<Rightarrow> attempts | _ \<Rightarrow> 1) now"
  have "store_error now device_id path c = c\<lparr>ic_map := put_entry (device_id, path) e (ic_map c)\<rparr>" by (simp add: store_error_def e_def Let_def)
  moreover have "entry_ok e" "entry_bytes e = 0" by (simp_all add: e_def)
  ultimately show ?thesis
    using assms held_put_entry [of "ic_map c" "(device_id, path)" e] put_entry_keys [of "ic_map c" "(device_id, path)" e] put_entry_ok [of "ic_map c" e "(device_id, path)"]
    by (auto simp: cache_ok_def bytes_at_def)
qed

section \<open>Histories\<close>

datatype cache_op =
    OpSnapshot "image_key list" int string string
  | OpBegin int string string
  | OpLoaded "image_key list" string string string string
  | OpAlias "image_key list" string string string string
  | OpError int string string
  | OpFlush

fun cache_step :: "cache_op \<Rightarrow> image_cache \<Rightarrow> image_cache" where
  "cache_step (OpSnapshot shielded now device_id path) c = snd (attachment_snapshot shielded now device_id path c)"
| "cache_step (OpBegin now device_id path) c = snd (begin_load now device_id path c)"
| "cache_step (OpLoaded shielded device_id path name img) c = store_loaded shielded device_id path name img c"
| "cache_step (OpAlias shielded device_id upload_id name img) c = seed_attachment_alias shielded device_id upload_id name img c"
| "cache_step (OpError now device_id path) c = store_error now device_id path c"
| "cache_step OpFlush c = snd (flush_evicted c)"

text \<open>The bytes of the images that were there when a load of them failed.\<close>

fun lost_bytes :: "cache_op list \<Rightarrow> image_cache \<Rightarrow> nat" where
  "lost_bytes [] c = 0"
| "lost_bytes (p # ps) c =
     (case p of OpError _ device_id path \<Rightarrow> bytes_at (device_id, path) c | _ \<Rightarrow> 0) + lost_bytes ps (cache_step p c)"

definition empty_cache :: image_cache where
  "empty_cache = \<lparr>ic_map = [], ic_tick = 0, ic_loaded_bytes = 0, ic_pending_free = []\<rparr>"

lemma cache_step_ok:
  assumes "cache_ok n c"
  shows "cache_ok (n + (case p of OpError _ device_id path \<Rightarrow> bytes_at (device_id, path) c | _ \<Rightarrow> 0)) (cache_step p c)"
proof (cases p)
  case OpFlush
  then show ?thesis using assms by (simp add: flush_evicted_def cache_ok_def)
qed (use assms in \<open>auto simp: snapshot_ok begin_load_ok store_error_ok store_loaded_def seed_attachment_alias_def alias_key_def insert_loaded_ok(1)\<close>)

lemma history_ok: "cache_ok n c \<Longrightarrow> cache_ok (n + lost_bytes ps c) (fold cache_step ps c)"
proof (induction ps arbitrary: n c)
  case (Cons p ps)
  from Cons.IH [OF cache_step_ok [OF Cons.prems, of p]] show ?case by (simp add: add.assoc)
qed simp

text \<open>
  C35. The image cache keeps its books and its budget, whatever happened before: once an image is stored, the byte counter
  is the size of the images held plus that of the images on whose place a load failed after they had arrived, the cache is within
  64 MiB unless all that is left is the new image and the images of the open transcript, and the image stored is shown.
\<close>
theorem image_cache_bounded:
  assumes "c = fold cache_step ps empty_cache" "stored = store_loaded shielded device_id path name img c"
  shows "ic_loaded_bytes stored = held_bytes (ic_map stored) + lost_bytes ps empty_cache \<and>
    (held_bytes (ic_map stored) + lost_bytes ps empty_cache \<le> image_cache_budget \<or> only_shielded (device_id, path) shielded stored) \<and>
    fst (attachment_snapshot shielded' now device_id path stored) = SLoaded \<lparr>ci_name = name, ci_bytes = img\<rparr>"
proof -
  have "cache_ok 0 empty_cache" by (simp add: cache_ok_def empty_cache_def held_bytes_def)
  then have ok: "cache_ok (lost_bytes ps empty_cache) c" using history_ok [of 0 empty_cache ps] assms(1) by simp
  note ins = insert_loaded_ok [OF ok, of shielded "(device_id, path)" "\<lparr>ci_name = name, ci_bytes = img\<rparr>"]
  have "fst (attachment_snapshot shielded' now device_id path stored) = SLoaded \<lparr>ci_name = name, ci_bytes = img\<rparr>"
    using ins(3) by (simp add: attachment_snapshot_def assms(2) store_loaded_def Let_def)
  then show ?thesis using ins(1,2) by (auto simp: assms(2) store_loaded_def cache_ok_def)
qed

theorem image_cache_bounded_witness:
  "let ps = [OpBegin 0 ''d'' ''p'', OpLoaded [] ''d'' ''p'' ''n'' ''abc'', OpError 5 ''d'' ''p'']; stored = store_loaded [] ''d'' ''p'' ''n'' ''xyz'' (fold cache_step ps empty_cache)
   in ic_loaded_bytes stored = held_bytes (ic_map stored) + lost_bytes ps empty_cache"
  unfolding Let_def using image_cache_bounded [OF refl refl] by blast

text \<open>
  A load that fails after its image has arrived by another way takes the image off the screen and leaves its bytes on the
  books: the counter stays above what is held by the size of the image, and the image is never handed to be freed.
\<close>
theorem late_error_leaks:
  assumes "cache_ok n c" "map_of (ic_map c) (device_id, path) = Some (CLoaded img bytes used)"
    and "failed = store_error now device_id path c"
  shows "ic_loaded_bytes failed = held_bytes (ic_map failed) + n + bytes \<and> ic_pending_free failed = ic_pending_free c \<and>
    fst (attachment_snapshot shielded now device_id path failed) = SError 2000"
proof -
  have "held_bytes (ic_map failed) + bytes = held_bytes (ic_map c)"
    using assms held_put_entry [of "ic_map c" "(device_id, path)" "CError 1 now"] by (simp add: store_error_def cache_ok_def)
  then show ?thesis using assms
    by (simp add: store_error_def cache_ok_def attachment_snapshot_def map_of_put_entry Let_def retry_delay_def)
qed

theorem late_error_leaks_witness:
  "ic_loaded_bytes (store_error 7 ''d'' ''p'' (store_loaded [] ''d'' ''p'' ''n'' ''xyz'' (snd (begin_load 0 ''d'' ''p'' empty_cache)))) = 3"
proof -
  let ?c = "store_loaded [] ''d'' ''p'' ''n'' ''xyz'' (snd (begin_load 0 ''d'' ''p'' empty_cache))"
  have begun: "cache_ok 0 (snd (begin_load 0 ''d'' ''p'' empty_cache))"
    by (rule begin_load_ok) (simp add: cache_ok_def empty_cache_def held_bytes_def)
  note ins = insert_loaded_ok [OF begun, of "[]" "(''d'', ''p'')" "\<lparr>ci_name = ''n'', ci_bytes = ''xyz''\<rparr>", folded store_loaded_def]
  have "ic_map ?c = [((''d'', ''p''), CLoaded \<lparr>ci_name = ''n'', ci_bytes = ''xyz''\<rparr> 3 1)]"
    by (simp add: store_loaded_def insert_loaded_def begin_load_def empty_cache_def put_entry_def evict.simps image_cache_budget_def Let_def)
  then have "held_bytes (ic_map (store_error 7 ''d'' ''p'' ?c)) = 0" by (simp add: store_error_def put_entry_def held_bytes_def Let_def)
  then show ?thesis using late_error_leaks [OF ins(1) ins(3) refl, of 7] by simp
qed

end
