(* ===== verification/Updater.thy ===== *)
theory Updater
  imports Rust_Str "HOL-Library.List_Lexorder"
begin

text \<open>
  Self-update of an installed engine (\<open>crates/update/src/lib.rs\<close>): which release is newer, where an install lives, fetching and
  verifying a release, staging it beside the running version, and switching to it. SHA-256, the unpacking of an archive and the answers of
  the release server are parameters.
\<close>

section \<open>Versions\<close>

definition strip_v :: "string \<Rightarrow> string" where
  "strip_v s = dropWhile (\<lambda>c. c = CHR ''v'') s"

fun all_some :: "'a option list \<Rightarrow> 'a list option" where
  "all_some [] = Some []"
| "all_some (x # xs) = (case (x, all_some xs) of (Some a, Some as) \<Rightarrow> Some (a # as) | _ \<Rightarrow> None)"

definition version_parts :: "string \<Rightarrow> nat list option" where
  "version_parts v =
     (case all_some (map parse_u64 (split_on (CHR ''.'') (strip_v (trim v)))) of
        Some nums \<Rightarrow> if nums \<noteq> [] then Some nums else None
      | None \<Rightarrow> None)"

definition version_newer :: "string \<Rightarrow> string \<Rightarrow> bool" where
  "version_newer latest current =
     (case (version_parts latest, version_parts current) of (Some l, Some c) \<Rightarrow> l > c | _ \<Rightarrow> False)"

section \<open>Releases\<close>

record manifest =
  mf_version :: string
  mf_files :: "string \<rightharpoonup> string option"

record platform =
  pf_os :: string
  pf_arch :: string

definition platform_key :: "bool \<Rightarrow> string \<Rightarrow> platform" where
  "platform_key macos arch =
     (let os = (if macos then ''macos'' else ''linux'')
      in \<lparr>pf_os = os, pf_arch = (if os = ''macos'' \<and> arch = ''aarch64'' then ''arm64'' else arch)\<rparr>)"

definition headless_artifact :: "platform \<Rightarrow> string \<Rightarrow> string" where
  "headless_artifact p version = ''postillion-'' @ version @ ''-'' @ pf_os p @ ''-'' @ pf_arch p @ ''.tar.gz''"

definition mac_app_artifact :: "platform \<Rightarrow> string \<Rightarrow> string" where
  "mac_app_artifact p version = ''postillion-'' @ version @ ''-macos-'' @ pf_arch p @ ''-app.tar.gz''"

datatype update_error =
    BadManifest
  | EmptyVersion
  | FetchFailed
  | DownloadFailed
  | ChecksumMismatch
  | UnpackFailed
  | NotStaged
  | NotManaged
  | UpToDate

text \<open>
  The answer to a request of release metadata: a document, one that cannot be read, an error status, or no answer.
\<close>

datatype 'a answer = Document 'a | Unreadable | BadStatus | NoAnswer

definition fetch_latest :: "manifest answer \<Rightarrow> string answer \<Rightarrow> update_error + manifest" where
  "fetch_latest manifest_json latest_txt =
     (case manifest_json of
        Document m \<Rightarrow> if trim (mf_version m) = [] then Inl EmptyVersion else Inr m
      | Unreadable \<Rightarrow> Inl BadManifest
      | _ \<Rightarrow>
          (case latest_txt of
             Document s \<Rightarrow>
               if trim s = [] then Inl EmptyVersion else Inr \<lparr>mf_version = trim s, mf_files = (\<lambda>_. None)\<rparr>
           | _ \<Rightarrow> Inl FetchFailed))"

section \<open>Installs\<close>

datatype install_kind = Managed string | MacApp string | Unmanaged

text \<open>The names of a path; every ancestor of an absolute path is a prefix of them.\<close>

definition names_of :: "string \<Rightarrow> string list" where
  "names_of p = filter (\<lambda>c. c \<noteq> [] \<and> c \<noteq> ''.'') (path_components p)"

definition abs_path :: "string list \<Rightarrow> string" where
  "abs_path ns = concat (map (\<lambda>n. ''/'' @ n) ns)"

definition has_app_ext :: "string list \<Rightarrow> bool" where
  "has_app_ext ns = (ns \<noteq> [] \<and> suffix ''.app'' (last ns) \<and> last ns \<noteq> ''.app'')"

definition detect_install_from :: "string \<Rightarrow> string option \<Rightarrow> install_kind" where
  "detect_install_from exe home =
     (case (case home of
              Some h \<Rightarrow> if prefix (names_of h @ [''.postillion'', ''app'']) (names_of exe) then Some (h @ ''/.postillion/app'') else None
            | None \<Rightarrow> None) of
        Some app_root \<Rightarrow> Managed app_root
      | None \<Rightarrow>
          (case find (\<lambda>ns. has_app_ext ns \<and> prefix (ns @ [''Contents'', ''MacOS'']) (names_of exe)) (rev (prefixes (names_of exe))) of
             Some ns \<Rightarrow> MacApp (abs_path ns)
           | None \<Rightarrow> Unmanaged))"

section \<open>Downloading\<close>

text \<open>The stream of a download; a failed read ends it.\<close>

fun read_stream :: "string option list \<Rightarrow> string option" where
  "read_stream [] = Some []"
| "read_stream (None # cs) = None"
| "read_stream (Some c # cs) = map_option ((@) c) (read_stream cs)"

definition download_release_file :: "(string \<Rightarrow> string) \<Rightarrow> manifest \<Rightarrow> string \<Rightarrow> string option list answer \<Rightarrow> update_error + string" where
  "download_release_file sha256 m name answer =
     (case answer of
        Document chunks \<Rightarrow>
          (case read_stream chunks of
             None \<Rightarrow> Inl DownloadFailed
           | Some content \<Rightarrow>
               (case Option.bind (mf_files m name) id of
                  Some expected \<Rightarrow>
                    if map ascii_lower (sha256 content) = map ascii_lower (trim expected) then Inr content else Inl ChecksumMismatch
                | None \<Rightarrow> Inr content))
      | _ \<Rightarrow> Inl DownloadFailed)"

section \<open>The managed install\<close>

text \<open>
  The versions under the app root with the binary of each, and the version the link \<open>current\<close> points at. A version directory is
  moved into place whole, so it has a binary.
\<close>

record app_dir =
  ad_versions :: "string \<rightharpoonup> string"
  ad_current :: "string option"

definition stage_headless ::
  "(string \<Rightarrow> string) \<Rightarrow> (string \<Rightarrow> string option) \<Rightarrow> platform \<Rightarrow> manifest \<Rightarrow> string option list answer \<Rightarrow> app_dir \<Rightarrow> (update_error + unit) \<times> app_dir" where
  "stage_headless sha256 unpack p m answer a =
     (if ad_versions a (mf_version m) \<noteq> None then (Inr (), a)
      else case download_release_file sha256 m (headless_artifact p (mf_version m)) answer of
        Inl e \<Rightarrow> (Inl e, a)
      | Inr tarball \<Rightarrow>
          (case unpack tarball of
             None \<Rightarrow> (Inl UnpackFailed, a)
           | Some binary \<Rightarrow> (Inr (), a\<lparr>ad_versions := (ad_versions a)(mf_version m \<mapsto> binary)\<rparr>)))"

definition apply_headless :: "string \<Rightarrow> app_dir \<Rightarrow> (update_error + unit) \<times> app_dir" where
  "apply_headless version a =
     (if ad_versions a version = None then (Inl NotStaged, a) else (Inr (), a\<lparr>ad_current := Some version\<rparr>))"

text \<open>What the release server answers to one round of requests.\<close>

record server_answers =
  sa_manifest :: "manifest answer"
  sa_latest :: "string answer"
  sa_file :: "string option list answer"

definition apply_update ::
  "(string \<Rightarrow> string) \<Rightarrow> (string \<Rightarrow> string option) \<Rightarrow> platform \<Rightarrow> string \<Rightarrow> install_kind \<Rightarrow> server_answers \<Rightarrow> app_dir \<Rightarrow>
   (update_error + string) \<times> app_dir" where
  "apply_update sha256 unpack p running kind sa a =
     (case kind of
        Managed _ \<Rightarrow>
          (case fetch_latest (sa_manifest sa) (sa_latest sa) of
             Inl e \<Rightarrow> (Inl e, a)
           | Inr m \<Rightarrow>
               if \<not> version_newer (mf_version m) running then (Inl UpToDate, a)
               else (case stage_headless sha256 unpack p m (sa_file sa) a of
                  (Inl e, a') \<Rightarrow> (Inl e, a')
                | (Inr _, a') \<Rightarrow>
                    (case apply_headless (mf_version m) a' of
                       (Inl e, a'') \<Rightarrow> (Inl e, a'')
                     | (Inr _, a'') \<Rightarrow> (Inr (mf_version m), a''))))
      | _ \<Rightarrow> (Inl NotManaged, a))"

section \<open>The checker\<close>

record update_status =
  us_current :: string
  us_latest :: "string option"
  us_available :: bool
  us_checked_at :: "int option"
  us_error :: "update_error option"

definition initial_status :: "string \<Rightarrow> update_status" where
  "initial_status running = \<lparr>us_current = running, us_latest = None, us_available = False, us_checked_at = None, us_error = None\<rparr>"

definition check_once :: "string \<Rightarrow> int \<Rightarrow> server_answers \<Rightarrow> update_status \<Rightarrow> bool \<times> update_status" where
  "check_once running now sa st =
     (case fetch_latest (sa_manifest sa) (sa_latest sa) of
        Inr m \<Rightarrow>
          (True, \<lparr>us_current = running, us_latest = Some (mf_version m), us_available = version_newer (mf_version m) running,
                  us_checked_at = Some now, us_error = None\<rparr>)
      | Inl e \<Rightarrow> (False, st\<lparr>us_error := Some e\<rparr>))"

definition auto_update_enabled :: "string option \<Rightarrow> bool" where
  "auto_update_enabled v = (case v of Some s \<Rightarrow> map ascii_lower (trim s) \<in> {''1'', ''true'', ''yes''} | None \<Rightarrow> False)"

text \<open>
  The automatic update: the release is staged at once, the switch waits until a probe finds the engine idle. \<open>probes\<close> are the answers of the
  idleness check, five minutes apart; \<open>None\<close> is an update that is still waiting.
\<close>

definition auto_apply_when_idle ::
  "(string \<Rightarrow> string) \<Rightarrow> (string \<Rightarrow> string option) \<Rightarrow> platform \<Rightarrow> string \<Rightarrow> install_kind \<Rightarrow> server_answers \<Rightarrow> bool list \<Rightarrow> server_answers \<Rightarrow>
   app_dir \<Rightarrow> (update_error + string) option \<times> app_dir" where
  "auto_apply_when_idle sha256 unpack p running kind early probes late a =
     (case (case kind of
              Managed _ \<Rightarrow>
                (case fetch_latest (sa_manifest early) (sa_latest early) of
                   Inr m \<Rightarrow>
                     if version_newer (mf_version m) running then stage_headless sha256 unpack p m (sa_file early) a
                     else (Inl UpToDate, a)
                 | Inl e \<Rightarrow> (Inl e, a))
            | _ \<Rightarrow> (Inr (), a)) of
        (Inl e, a') \<Rightarrow> (Some (Inl e), a')
      | (Inr _, a') \<Rightarrow>
          if list_ex (\<lambda>idle. idle) probes
          then (case apply_update sha256 unpack p running kind late a' of (r, a'') \<Rightarrow> (Some r, a''))
          else (None, a'))"

section \<open>Updates move forward\<close>

text \<open>
  What happens to an install: somebody asks for an update, the checker updates on its own, or the service is started
  again from the link. An update asks for a restart, which may fail and is then left to the user, so a restart is an event of
  its own, or never comes; until then the old engine goes on, and may update again.
\<close>

datatype update_event = UpdateAsked server_answers | UpdateAuto server_answers "bool list" server_answers | Restarted

definition restart_service :: "string \<times> app_dir \<Rightarrow> string \<times> app_dir" where
  "restart_service x = (case x of (running, a) \<Rightarrow> (case ad_current a of Some v \<Rightarrow> v | None \<Rightarrow> running, a))"

fun update_step ::
  "(string \<Rightarrow> string) \<Rightarrow> (string \<Rightarrow> string option) \<Rightarrow> platform \<Rightarrow> install_kind \<Rightarrow> update_event \<Rightarrow> string \<times> app_dir \<Rightarrow> string \<times> app_dir" where
  "update_step sha256 unpack p kind (UpdateAsked sa) (running, a) = (running, snd (apply_update sha256 unpack p running kind sa a))"
| "update_step sha256 unpack p kind (UpdateAuto early probes late) (running, a) =
     (running, snd (auto_apply_when_idle sha256 unpack p running kind early probes late a))"
| "update_step sha256 unpack p kind Restarted x = restart_service x"

definition current_ok :: "app_dir \<Rightarrow> bool" where
  "current_ok a = (case ad_current a of None \<Rightarrow> True | Some v \<Rightarrow> ad_versions a v \<noteq> None)"

lemma version_newer_trans: "version_newer a b \<Longrightarrow> version_newer b c \<Longrightarrow> version_newer a c"
  by (auto simp: version_newer_def split: option.splits)

lemma all_some_Some: "all_some xs = Some ys \<Longrightarrow> xs = map Some ys"
  by (induction xs arbitrary: ys) (auto split: option.splits)

lemma split_on_set: "set s \<subseteq> insert d (\<Union>p \<in> set (split_on d s). set p)"
proof (induction s)
  case (Cons c s)
  then show ?case by (cases "split_on d s"; cases "c = d") auto
qed simp

lemma strip_v_set: "set s \<subseteq> insert (CHR ''v'') (set (strip_v s))"
  unfolding strip_v_def by (induction s) auto

lemma parse_u64_chars:
  assumes "parse_u64 s = Some n" "c \<in> set s"
  shows "c = CHR ''+'' \<or> is_digit c"
  using assms by (auto simp: parse_u64_def digits_value_def list_all_iff split: option.splits list.splits if_splits)

text \<open>A version that counts as newer names a single directory.\<close>

lemma version_newer_name:
  assumes "version_newer v c"
  shows "CHR ''/'' \<notin> set v"
proof
  assume slash: "CHR ''/'' \<in> set v"
  obtain ns where "all_some (map parse_u64 (split_on (CHR ''.'') (strip_v (trim v)))) = Some ns"
    using assms by (auto simp: version_newer_def version_parts_def split: option.splits)
  then have parsed: "map parse_u64 (split_on (CHR ''.'') (strip_v (trim v))) = map Some ns" by (rule all_some_Some)
  have "\<forall>w \<in> set ws_chars. CHR ''/'' \<notin> set w" by code_simp
  then have "CHR ''/'' \<in> set (trim v)" using slash trim_removed [of v] by auto
  moreover note strip_v_set [of "trim v"]
  ultimately have "CHR ''/'' \<in> set (strip_v (trim v))" by auto
  then obtain part where part: "part \<in> set (split_on (CHR ''.'') (strip_v (trim v)))" "CHR ''/'' \<in> set part"
    using split_on_set [of "strip_v (trim v)" "CHR ''.''"] by auto
  have "parse_u64 part \<in> set (map Some ns)" using part(1) parsed by (metis imageI list.set_map)
  then obtain n where "parse_u64 part = Some n" by auto
  from parse_u64_chars [OF this part(2)] show False by (simp add: is_digit_def)
qed

lemma stage_keeps: "ad_versions a v = Some b \<Longrightarrow> ad_versions (snd (stage_headless sha256 unpack p m answer a)) v = Some b"
  "ad_current (snd (stage_headless sha256 unpack p m answer a)) = ad_current a"
  by (auto simp: stage_headless_def split: sum.split option.split)

lemma stage_current_ok: "current_ok a \<Longrightarrow> current_ok (snd (stage_headless sha256 unpack p m answer a))"
proof (cases "ad_current a")
  case (Some v)
  assume "current_ok a"
  with Some obtain b where "ad_versions a v = Some b" by (auto simp: current_ok_def)
  then show ?thesis using Some by (simp add: current_ok_def stage_keeps)
qed (simp add: current_ok_def stage_keeps)

text \<open>How an update can end: nothing changed, staged only, or switched.\<close>

lemma apply_update_cases:
  assumes "apply_update sha256 unpack p running kind sa a = (r, a')"
  obtains (kept) e where "a' = a" "r = Inl e"
  | (staged) m e where "a' = snd (stage_headless sha256 unpack p m (sa_file sa) a)" "r = Inl e"
  | (switched) m a1 where "version_newer (mf_version m) running" "a1 = snd (stage_headless sha256 unpack p m (sa_file sa) a)"
      "ad_versions a1 (mf_version m) \<noteq> None" "a' = a1\<lparr>ad_current := Some (mf_version m)\<rparr>" "r = Inr (mf_version m)"
proof (cases kind)
  case (Managed root)
  show ?thesis
  proof (cases "fetch_latest (sa_manifest sa) (sa_latest sa)")
    case (Inl e)
    show ?thesis by (rule kept [of e]) (use assms Managed Inl in \<open>simp_all add: apply_update_def\<close>)
  next
    case (Inr m)
    obtain q a1 where st: "stage_headless sha256 unpack p m (sa_file sa) a = (q, a1)" by (cases "stage_headless sha256 unpack p m (sa_file sa) a")
    show ?thesis
    proof (cases "version_newer (mf_version m) running")
      case False
      show ?thesis by (rule kept [of UpToDate]) (use assms Managed Inr False in \<open>simp_all add: apply_update_def\<close>)
    next
      case True
      have a1: "a1 = snd (stage_headless sha256 unpack p m (sa_file sa) a)" using st by simp
      show ?thesis
      proof (cases "\<exists>e. q = Inl e \<or> ad_versions a1 (mf_version m) = None")
        case True
        then have "a' = a1" "\<exists>e. r = Inl e"
          using assms Managed Inr st \<open>version_newer (mf_version m) running\<close>
          by (auto simp: apply_update_def apply_headless_def split: if_splits sum.splits)
        then show ?thesis using staged a1 by blast
      next
        case False
        then obtain u where "q = Inr u" by (cases q) auto
        then have "a' = a1\<lparr>ad_current := Some (mf_version m)\<rparr>" "r = Inr (mf_version m)"
          using assms Managed Inr st False \<open>version_newer (mf_version m) running\<close>
          by (auto simp: apply_update_def apply_headless_def split: if_splits)
        then show ?thesis using switched [OF True a1] False by blast
      qed
    qed
  qed
next
  case (MacApp app)
  show ?thesis by (rule kept [of NotManaged]) (use assms MacApp in \<open>simp_all add: apply_update_def\<close>)
next
  case Unmanaged
  show ?thesis by (rule kept [of NotManaged]) (use assms Unmanaged in \<open>simp_all add: apply_update_def\<close>)
qed

lemma apply_update_facts:
  assumes "apply_update sha256 unpack p running kind sa a = (r, a')" "current_ok a"
  shows "current_ok a'" "\<forall>v b. ad_versions a v = Some b \<longrightarrow> ad_versions a' v = Some b"
    "r = Inr v \<Longrightarrow> version_newer v running \<and> ad_current a' = Some v \<and> CHR ''/'' \<notin> set v"
    "r = Inl e \<Longrightarrow> ad_current a' = ad_current a"
proof -
  have "current_ok a' \<and> (\<forall>v b. ad_versions a v = Some b \<longrightarrow> ad_versions a' v = Some b) \<and>
    (\<forall>v. r = Inr v \<longrightarrow> version_newer v running \<and> ad_current a' = Some v \<and> CHR ''/'' \<notin> set v) \<and> (\<forall>e. r = Inl e \<longrightarrow> ad_current a' = ad_current a)"
    using assms(1)
  proof (cases rule: apply_update_cases)
    case (switched m a1)
    then show ?thesis using version_newer_name [OF switched(1)] by (auto simp: current_ok_def stage_keeps)
  qed (use assms(2) in \<open>auto simp: stage_keeps stage_current_ok\<close>)
  then show "current_ok a'" "\<forall>v b. ad_versions a v = Some b \<longrightarrow> ad_versions a' v = Some b"
    "r = Inr v \<Longrightarrow> version_newer v running \<and> ad_current a' = Some v \<and> CHR ''/'' \<notin> set v"
    "r = Inl e \<Longrightarrow> ad_current a' = ad_current a" by auto
qed

text \<open>The link is there and points at what the engine runs or at a newer version directly under the app root.\<close>

definition link_ahead :: "string \<Rightarrow> app_dir \<Rightarrow> bool" where
  "link_ahead running a =
     (\<exists>v. ad_current a = Some v \<and> ad_versions a v \<noteq> None \<and> (v = running \<or> version_newer v running \<and> CHR ''/'' \<notin> set v))"

definition versions_kept :: "app_dir \<Rightarrow> app_dir \<Rightarrow> bool" where
  "versions_kept a a' = (\<forall>v b. ad_versions a v = Some b \<longrightarrow> ad_versions a' v = Some b)"

lemma link_ahead_kept: "link_ahead running a \<Longrightarrow> versions_kept a a' \<Longrightarrow> ad_current a' = ad_current a \<Longrightarrow> link_ahead running a'"
  by (force simp: link_ahead_def versions_kept_def)

lemma link_ahead_current_ok: "link_ahead running a \<Longrightarrow> current_ok a"
  by (auto simp: link_ahead_def current_ok_def)

lemma apply_update_ahead:
  assumes "link_ahead running a"
  shows "link_ahead running (snd (apply_update sha256 unpack p running kind sa a)) \<and> versions_kept a (snd (apply_update sha256 unpack p running kind sa a))"
proof -
  obtain r a1 where r: "apply_update sha256 unpack p running kind sa a = (r, a1)" by force
  note facts = apply_update_facts [OF r link_ahead_current_ok [OF assms]]
  have kept: "versions_kept a a1" using facts(2) by (simp add: versions_kept_def)
  show ?thesis
  proof (cases r)
    case (Inl e)
    then show ?thesis using kept facts(4) link_ahead_kept [OF assms kept] r by simp
  next
    case (Inr v)
    then have "version_newer v running" "ad_current a1 = Some v" "CHR ''/'' \<notin> set v" using facts(3) by auto
    then show ?thesis using kept facts(1) r by (auto simp: link_ahead_def current_ok_def)
  qed
qed

lemma auto_apply_ahead:
  assumes "link_ahead running a" "a' = snd (auto_apply_when_idle sha256 unpack p running kind early probes late a)"
  shows "link_ahead running a' \<and> versions_kept a a'"
proof -
  have refl: "versions_kept b b" for b by (simp add: versions_kept_def)
  define pre where "pre = (case kind of
      Managed _ \<Rightarrow>
        (case fetch_latest (sa_manifest early) (sa_latest early) of
           Inr m \<Rightarrow> if version_newer (mf_version m) running then stage_headless sha256 unpack p m (sa_file early) a else (Inl UpToDate, a)
         | Inl e \<Rightarrow> (Inl e, a))
    | _ \<Rightarrow> (Inr (), a))"
  have "versions_kept a (snd pre) \<and> ad_current (snd pre) = ad_current a"
    by (auto simp: pre_def stage_keeps versions_kept_def split: install_kind.split sum.split)
  then have ahead: "link_ahead running (snd pre)" "versions_kept a (snd pre)" using link_ahead_kept [OF assms(1)] by auto
  have "a' = snd pre \<or> a' = snd (apply_update sha256 unpack p running kind late (snd pre))"
    unfolding assms(2) auto_apply_when_idle_def pre_def [symmetric] by (cases pre; cases "fst pre") (auto split: prod.split)
  then show ?thesis using ahead apply_update_ahead [OF ahead(1), of sha256 unpack p kind late] by (auto simp: versions_kept_def)
qed

lemma update_step_ahead:
  assumes "link_ahead running a" "update_step sha256 unpack p kind e (running, a) = (running', a')"
  shows "link_ahead running' a' \<and> versions_kept a a' \<and> (running' = running \<or> version_newer running' running)"
proof (cases e)
  case Restarted
  then show ?thesis using assms by (auto simp: restart_service_def link_ahead_def versions_kept_def)
qed (use assms apply_update_ahead auto_apply_ahead in auto)

text \<open>
  C34. Updates only move forward: whatever the release server answers, however often updates are asked for and whether the restarts they
  ask for happen or fail, the link always points at a version that is there and that is the one the engine runs or a newer one directly
  under the app root, so the engine never runs an older version than it did, and versions once staged are kept as they are. While restarts fail
  the link itself may go back, from one newer version to another.
\<close>
theorem updates_move_forward:
  assumes "link_ahead running a" "fold (update_step sha256 unpack p kind) events (running, a) = (running', a')"
  shows "link_ahead running' a' \<and> versions_kept a a' \<and> (running' = running \<or> version_newer running' running)"
  using assms
proof (induction events arbitrary: running a)
  case (Cons e events)
  obtain running1 a1 where s: "update_step sha256 unpack p kind e (running, a) = (running1, a1)" by force
  note step = update_step_ahead [OF Cons.prems(1) s]
  with Cons.IH [of running1 a1] Cons.prems(2) s show ?case
    using version_newer_trans [of running' running1 running] by (auto simp: versions_kept_def)
qed (simp add: versions_kept_def)

theorem updates_move_forward_witness:
  "let (running, a) = fold (update_step (\<lambda>s. s) Some \<lparr>pf_os = ''linux'', pf_arch = ''x86_64''\<rparr> (Managed ''/h''))
     [UpdateAsked \<lparr>sa_manifest = NoAnswer, sa_latest = Document ''0.2.0'', sa_file = Document [Some ''bin'']\<rparr>, Restarted]
     (''0.1.0'', \<lparr>ad_versions = [''0.1.0'' \<mapsto> ''old''], ad_current = Some ''0.1.0''\<rparr>)
   in link_ahead running a \<and> (running = ''0.1.0'' \<or> version_newer running ''0.1.0'')"
proof -
  have "link_ahead ''0.1.0'' \<lparr>ad_versions = [''0.1.0'' \<mapsto> ''old''], ad_current = Some ''0.1.0''\<rparr>" by (simp add: link_ahead_def)
  from updates_move_forward [OF this surjective_pairing] show ?thesis unfolding case_prod_unfold Let_def by blast
qed

end
