(* ===== verification/App_State.thy ===== *)
theory App_State
  imports View_Model Transcript_Delta Diff_Comments
begin

text \<open>
  The state of the desktop app (\<open>crates/ui/src/state.rs\<close>): the frames it takes from the engine, the selection of a chat, a project and
  a device, the messages that are shown before the host confirms them, sends that wait for their host, and the change requests of
  checkouts (\<open>change_requests.rs\<close>). Subscriptions, the handle of the engine and painting are left out. \<open>lower\<close> is the lower case of
  Unicode, \<open>t\<close> the translation of a label. Times are milliseconds.
\<close>

section \<open>Organisations\<close>

record org_row =
  or_organization_id :: string
  or_name :: string

definition org_name_valid :: "string \<Rightarrow> bool" where
  "org_name_valid name = (trim name \<noteq> [] \<and> char_count (trim name) \<le> 64)"

text \<open>\<open>dedup_by\<close>: an element goes when it equals the last one kept.\<close>

fun dedup_rows :: "org_row list \<Rightarrow> org_row list" where
  "dedup_rows (a # b # rest) =
     (if or_organization_id b = or_organization_id a then dedup_rows (a # rest) else a # dedup_rows (b # rest))"
| "dedup_rows xs = xs"

definition sort_memberships :: "(string \<Rightarrow> string) \<Rightarrow> org_row list \<Rightarrow> org_row list" where
  "sort_memberships lower orgs = dedup_rows (sort_key (\<lambda>r. (lower (or_name r), or_name r)) orgs)"

section \<open>Change requests\<close>

datatype change_request_state = Cr_Open | Cr_Closed | Cr_Merged

record change_request_summary =
  cr_provider :: string
  cr_number :: nat
  cr_title :: string
  cr_url :: string
  cr_state :: change_request_state
  cr_base_ref :: string
  cr_head_ref :: string

record checkout_status =
  ck_checkout_id :: string
  ck_device_id :: string
  ck_cwd :: string
  ck_branch :: string
  ck_change_request :: "change_request_summary option"
  ck_updated_at :: int

type_synonym watch_key = "string \<times> string"

record change_request_client =
  cc_snapshots :: "(watch_key \<times> checkout_status) list"
  cc_unsupported :: "string \<rightharpoonup> string option"

definition no_change_requests :: change_request_client where
  "no_change_requests = \<lparr>cc_snapshots = [], cc_unsupported = (\<lambda>_. None)\<rparr>"

definition is_supported :: "change_request_client \<Rightarrow> string \<Rightarrow> bool" where
  "is_supported c d = (cc_unsupported c d = None)"

definition mark_unsupported :: "string \<Rightarrow> string option \<Rightarrow> change_request_client \<Rightarrow> change_request_client" where
  "mark_unsupported d version c =
     c\<lparr>cc_unsupported := (cc_unsupported c)(d \<mapsto> version), cc_snapshots := filter (\<lambda>(k, _). fst k \<noteq> d) (cc_snapshots c)\<rparr>"

definition clear_unsupported_on_version_change :: "string \<Rightarrow> string option \<Rightarrow> change_request_client \<Rightarrow> change_request_client" where
  "clear_unsupported_on_version_change d version c =
     (case cc_unsupported c d of
        None \<Rightarrow> c
      | Some v \<Rightarrow> if v = version then c else c\<lparr>cc_unsupported := (cc_unsupported c)(d := None)\<rparr>)"

definition store_change_request :: "watch_key \<Rightarrow> checkout_status \<Rightarrow> change_request_client \<Rightarrow> change_request_client" where
  "store_change_request k snapshot c = c\<lparr>cc_snapshots := (k, snapshot) # filter (\<lambda>(k', _). k' \<noteq> k) (cc_snapshots c)\<rparr>"

definition retain_targets :: "watch_key set \<Rightarrow> change_request_client \<Rightarrow> change_request_client" where
  "retain_targets targets c = c\<lparr>cc_snapshots := filter (\<lambda>(k, _). k \<in> targets) (cc_snapshots c)\<rparr>"

definition effective_chat_cwd :: "chat \<Rightarrow> space list \<Rightarrow> string option" where
  "effective_chat_cwd c spaces =
     (case (case ch_cwd c of Some d \<Rightarrow> if trim d \<noteq> [] then Some d else None | None \<Rightarrow> None) of
        Some d \<Rightarrow> Some d
      | None \<Rightarrow>
          (case ch_space_id c of
             None \<Rightarrow> None
           | Some i \<Rightarrow>
               (case find (\<lambda>s. sp_id s = i \<and> sp_device_id s = ch_device_id c) spaces of
                  None \<Rightarrow> None
                | Some s \<Rightarrow> if trim (sp_path s) \<noteq> [] then Some (sp_path s) else None)))"

definition desired_watch_targets :: "chat list \<Rightarrow> space list \<Rightarrow> (string \<Rightarrow> bool) \<Rightarrow> watch_key set" where
  "desired_watch_targets chats spaces unsupported =
     set (List.map_filter (\<lambda>c.
         if \<not> ch_archived c \<and> (case ch_branch c of Some b \<Rightarrow> trim b \<noteq> [] | None \<Rightarrow> False) \<and> \<not> unsupported (ch_device_id c)
         then map_option (\<lambda>d. (ch_device_id c, d)) (effective_chat_cwd c spaces) else None) chats)"

definition change_request_for_chat :: "chat \<Rightarrow> space list \<Rightarrow> checkout_status list \<Rightarrow> change_request_summary option" where
  "change_request_for_chat c spaces snapshots =
     (case map_option trim (ch_branch c) of
        None \<Rightarrow> None
      | Some branch \<Rightarrow>
          if branch = [] then None
          else (case effective_chat_cwd c spaces of
             None \<Rightarrow> None
           | Some d \<Rightarrow>
               Option.bind
                 (find (\<lambda>s. ck_device_id s = ch_device_id c \<and> ck_cwd s = d \<and> ck_branch s = branch \<and>
                     (case ch_checkout_id c of None \<Rightarrow> True | Some i \<Rightarrow> ck_checkout_id s \<noteq> [] \<and> ck_checkout_id s = i)) snapshots)
                 ck_change_request))"

section \<open>The state\<close>

datatype connectivity_state = Net_Disabled | Net_Offline | Net_Reconnecting | Net_Connected

record chat_connectivity =
  cn_chat_id :: string
  cn_connected :: bool
  cn_pending_pushes :: nat

record connectivity =
  net_state :: connectivity_state
  net_retry_at :: int
  net_last_failure :: "string option"
  net_chats :: "chat_connectivity list"

record pending_send =
  ps_message_id :: string
  ps_started :: int

record app_state =
  ap_connection :: connection_status
  ap_scope :: "workspace_scope option"
  ap_auth :: "auth_state option"
  ap_devices :: "device list"
  ap_connectivity :: connectivity
  ap_spaces :: "space list"
  ap_chats :: "chat list"
  ap_sessions :: "session list"
  ap_selected_space :: "string option"
  ap_no_project :: bool
  ap_selected_device :: "string option"
  ap_selected_chat :: "string option"
  ap_auto_selected :: bool
  ap_chats_synced :: bool
  ap_spaces_synced :: bool
  ap_transcript :: "message_entry list"
  ap_echoes :: "string \<rightharpoonup> message_entry list"
  ap_pending_sends :: "string \<rightharpoonup> pending_send"
  ap_upload_progress :: "(nat \<times> nat) option"
  ap_diff_comments :: "string \<rightharpoonup> diff_comment list"
  ap_local_device_id :: "string option"
  ap_change_requests :: change_request_client
  ap_sub_transcripts :: "string \<rightharpoonup> message_entry list"

definition undelivered_grace_ms :: int where "undelivered_grace_ms = 120000"

definition new_state :: app_state where
  "new_state = \<lparr>ap_connection = Connecting, ap_scope = None, ap_auth = None, ap_devices = [],
     ap_connectivity = \<lparr>net_state = Net_Disabled, net_retry_at = 0, net_last_failure = None, net_chats = []\<rparr>, ap_spaces = [], ap_chats = [],
     ap_sessions = [], ap_selected_space = None, ap_no_project = False, ap_selected_device = None, ap_selected_chat = None,
     ap_auto_selected = False, ap_chats_synced = False, ap_spaces_synced = False, ap_transcript = [], ap_echoes = (\<lambda>_. None),
     ap_pending_sends = (\<lambda>_. None), ap_upload_progress = None, ap_diff_comments = (\<lambda>_. None), ap_local_device_id = None,
     ap_change_requests = no_change_requests, ap_sub_transcripts = (\<lambda>_. None)\<rparr>"

section \<open>Comments\<close>

definition composer_key :: "app_state \<Rightarrow> string" where
  "composer_key a = (case ap_selected_chat a of Some c \<Rightarrow> c | None \<Rightarrow> [])"

definition comments_at :: "string \<Rightarrow> app_state \<Rightarrow> diff_comment list" where
  "comments_at key a = (case ap_diff_comments a key of Some cs \<Rightarrow> cs | None \<Rightarrow> [])"

definition add_diff_comment :: "string \<Rightarrow> diff_comment \<Rightarrow> app_state \<Rightarrow> app_state" where
  "add_diff_comment key c a = a\<lparr>ap_diff_comments := (ap_diff_comments a)(key \<mapsto> comments_at key a @ [c])\<rparr>"

definition remove_diff_comment :: "string \<Rightarrow> string \<Rightarrow> app_state \<Rightarrow> app_state" where
  "remove_diff_comment key i a =
     (case ap_diff_comments a key of
        None \<Rightarrow> a
      | Some cs \<Rightarrow>
          (let kept = filter (\<lambda>c. dc_id c \<noteq> i) cs
           in a\<lparr>ap_diff_comments := (ap_diff_comments a)(key := if kept = [] then None else Some kept)\<rparr>))"

definition take_diff_comments :: "string \<Rightarrow> app_state \<Rightarrow> diff_comment list \<times> app_state" where
  "take_diff_comments key a = (comments_at key a, a\<lparr>ap_diff_comments := (ap_diff_comments a)(key := None)\<rparr>)"

section \<open>Frames of the engine\<close>

definition apply_chats :: "chat list \<Rightarrow> app_state \<Rightarrow> app_state" where
  "apply_chats chats a =
     (let a = a\<lparr>ap_chats := sort_chats chats, ap_chats_synced := True\<rparr>
      in case ap_selected_chat a of
           Some i \<Rightarrow> if list_ex (\<lambda>c. ch_id c = i) (ap_chats a) then a else a\<lparr>ap_selected_chat := None, ap_transcript := []\<rparr>
         | None \<Rightarrow> a)"

definition apply_sessions :: "session list \<Rightarrow> app_state \<Rightarrow> app_state" where
  "apply_sessions ss a = a\<lparr>ap_sessions := ss\<rparr>"

definition path_base :: "string \<Rightarrow> string" where
  "path_base p = (let base = rev (takeWhile (\<lambda>c. \<not> slash c) (dropWhile slash (rev p))) in if base \<noteq> [] then base else p)"

definition display_name :: "space \<Rightarrow> string" where
  "display_name s =
     (case sp_name s of
        Some n \<Rightarrow> if trim n \<noteq> [] then n else path_base (sp_path s)
      | None \<Rightarrow> path_base (sp_path s))"

definition spaces_sorted :: "(string \<Rightarrow> string) \<Rightarrow> app_state \<Rightarrow> space list" where
  "spaces_sorted lower a = sort_key (\<lambda>s. (lower (display_name s), sp_id s)) (ap_spaces a)"

definition first_space_on_picked_device :: "(string \<Rightarrow> string) \<Rightarrow> app_state \<Rightarrow> string option" where
  "first_space_on_picked_device lower a =
     (let device = (case ap_selected_device a of Some d \<Rightarrow> Some d | None \<Rightarrow> ap_local_device_id a);
          sorted = spaces_sorted lower a;
          first = (case sorted of s # _ \<Rightarrow> Some s | [] \<Rightarrow> None)
      in map_option sp_id
           (case device of
              Some d \<Rightarrow> (case find (\<lambda>s. sp_device_id s = d) sorted of Some s \<Rightarrow> Some s | None \<Rightarrow> first)
            | None \<Rightarrow> first))"

definition apply_spaces :: "(string \<Rightarrow> string) \<Rightarrow> space list \<Rightarrow> app_state \<Rightarrow> app_state" where
  "apply_spaces lower spaces a =
     (let a = a\<lparr>ap_spaces := sort_spaces spaces, ap_spaces_synced := True\<rparr>;
          healed = (case ap_selected_space a of
              Some i \<Rightarrow> if list_ex (\<lambda>s. sp_id s = i) (ap_spaces a) then a else a\<lparr>ap_selected_space := first_space_on_picked_device lower a\<rparr>
            | None \<Rightarrow> a)
      in if ap_selected_space healed = None \<and> \<not> ap_no_project healed
         then healed\<lparr>ap_selected_space := first_space_on_picked_device lower healed\<rparr> else healed)"

fun update_chat :: "string \<Rightarrow> (chat \<Rightarrow> chat) \<Rightarrow> chat list \<Rightarrow> chat list" where
  "update_chat i f [] = []"
| "update_chat i f (c # cs) = (if ch_id c = i then f c # cs else c # update_chat i f cs)"

definition apply_chat_config :: "string \<Rightarrow> chat_config \<Rightarrow> app_state \<Rightarrow> app_state" where
  "apply_chat_config i config a = a\<lparr>ap_chats := update_chat i (\<lambda>c. c\<lparr>ch_config := Some config\<rparr>) (ap_chats a)\<rparr>"

definition apply_connectivity :: "connectivity \<Rightarrow> app_state \<Rightarrow> app_state" where
  "apply_connectivity net a = a\<lparr>ap_connectivity := net\<rparr>"

fun rename_local :: "(string \<Rightarrow> string) \<Rightarrow> string \<Rightarrow> device list \<Rightarrow> device list" where
  "rename_local t i [] = []"
| "rename_local t i (d # ds) =
     (if dev_id d = i then (if dev_name d = ''unknown-device'' then d\<lparr>dev_name := t ''Local''\<rparr> else d) # ds
      else d # rename_local t i ds)"

definition apply_devices :: "(string \<Rightarrow> string) \<Rightarrow> device list \<Rightarrow> app_state \<Rightarrow> app_state" where
  "apply_devices t devices a =
     (let devices = (case (ap_scope a, ap_local_device_id a) of
            (Some Scope_Local, Some i) \<Rightarrow> rename_local t i devices
          | _ \<Rightarrow> devices)
      in a\<lparr>ap_change_requests := fold (\<lambda>d. clear_unsupported_on_version_change (dev_id d) (dev_version d)) devices (ap_change_requests a),
           ap_devices := devices\<rparr>)"

definition apply_auth_value :: "json \<Rightarrow> app_state \<Rightarrow> app_state" where
  "apply_auth_value v a = (case parse_auth_state v of Some auth \<Rightarrow> a\<lparr>ap_auth := Some auth\<rparr> | None \<Rightarrow> a)"

text \<open>Echoes of the selected chat go when the transcript has the message.\<close>

definition drop_confirmed :: "app_state \<Rightarrow> app_state" where
  "drop_confirmed a =
     (case ap_selected_chat a of
        None \<Rightarrow> a
      | Some c \<Rightarrow>
          (case ap_echoes a c of
             None \<Rightarrow> a
           | Some es \<Rightarrow>
               a\<lparr>ap_echoes := (ap_echoes a)(c \<mapsto> filter (\<lambda>e. \<not> list_ex (\<lambda>m. me_id m = me_id e) (ap_transcript a)) es)\<rparr>))"

definition ack_pending_send :: "app_state \<Rightarrow> app_state" where
  "ack_pending_send a =
     (case ap_selected_chat a of
        None \<Rightarrow> a
      | Some c \<Rightarrow>
          (case ap_pending_sends a c of
             None \<Rightarrow> a
           | Some p \<Rightarrow>
               if list_ex (\<lambda>m. me_id m = ps_message_id p) (ap_transcript a)
               then a\<lparr>ap_pending_sends := (ap_pending_sends a)(c := None)\<rparr> else a))"

definition apply_transcript :: "message_entry list \<Rightarrow> app_state \<Rightarrow> app_state" where
  "apply_transcript entries a = ack_pending_send (drop_confirmed (a\<lparr>ap_transcript := entries\<rparr>))"

text \<open>
  A delta changes the transcript where it is, so one that turns out not to fit leaves what it has done: an entry that was
  taken out to go behind an anchor that is missing, and a text that grew to another length than announced.
\<close>

fun grown_parts :: "text_append \<Rightarrow> message_part list \<Rightarrow> message_part list" where
  "grown_parts x (Text i tail # ps) = (if i = ta_part x then Text i (tail @ ta_text x) # ps else Text i tail # grown_parts x ps)"
| "grown_parts x (p # ps) = p # grown_parts x ps"
| "grown_parts x [] = []"

fun grown_entries :: "text_append \<Rightarrow> message_entry list \<Rightarrow> message_entry list" where
  "grown_entries x [] = []"
| "grown_entries x (e # es) =
     (if me_id e = ta_entry x then e\<lparr>me_parts := grown_parts x (me_parts e)\<rparr> # es else e # grown_entries x es)"

fun left_upserts :: "transcript_upsert list \<Rightarrow> message_entry list \<Rightarrow> message_entry list" where
  "left_upserts [] current = current"
| "left_upserts (u # us) current =
     (case apply_upsert u current of Inl _ \<Rightarrow> remove_entry (me_id (up_entry u)) current | Inr es \<Rightarrow> left_upserts us es)"

fun left_appends :: "text_append list \<Rightarrow> message_entry list \<Rightarrow> message_entry list" where
  "left_appends [] current = current"
| "left_appends (x # xs) current = (case apply_append x current of Inl _ \<Rightarrow> grown_entries x current | Inr es \<Rightarrow> left_appends xs es)"

fun frame_leaves :: "transcript_frame \<Rightarrow> message_entry list \<Rightarrow> message_entry list" where
  "frame_leaves (Reset entries) current = entries"
| "frame_leaves (Delta upsert appends remove expected) current =
     (let kept = filter (\<lambda>e. me_id e \<notin> set remove) current
      in case apply_upserts upsert kept of
           Inl _ \<Rightarrow> left_upserts upsert kept
         | Inr es \<Rightarrow> left_appends appends es)"

text \<open>A frame that does not fit is reported before the echoes are looked at.\<close>

definition apply_frame :: "transcript_frame \<Rightarrow> app_state \<Rightarrow> transcript_desync option \<times> app_state" where
  "apply_frame frame a =
     (case apply_transcript_frame frame (ap_transcript a) of
        Inl e \<Rightarrow> (Some e, a\<lparr>ap_transcript := frame_leaves frame (ap_transcript a)\<rparr>)
      | Inr entries \<Rightarrow> (None, ack_pending_send (drop_confirmed (a\<lparr>ap_transcript := entries\<rparr>))))"

definition unwatch_subagent_doc :: "string \<Rightarrow> app_state \<Rightarrow> app_state" where
  "unwatch_subagent_doc d a = a\<lparr>ap_sub_transcripts := (ap_sub_transcripts a)(d := None)\<rparr>"

definition set_subagent_snapshot :: "string \<Rightarrow> message_entry list \<Rightarrow> app_state \<Rightarrow> app_state" where
  "set_subagent_snapshot d es a = a\<lparr>ap_sub_transcripts := (ap_sub_transcripts a)(d \<mapsto> es)\<rparr>"

section \<open>Sending\<close>

definition push_echo :: "string \<Rightarrow> message_entry \<Rightarrow> app_state \<Rightarrow> app_state" where
  "push_echo c e a =
     (let es = (case ap_echoes a c of Some es \<Rightarrow> es | None \<Rightarrow> [])
      in a\<lparr>ap_echoes := (ap_echoes a)(c \<mapsto> if list_ex (\<lambda>x. me_id x = me_id e) es then es else es @ [e])\<rparr>)"

definition remove_echo :: "string \<Rightarrow> string \<Rightarrow> app_state \<Rightarrow> app_state" where
  "remove_echo c i a =
     (case ap_echoes a c of
        None \<Rightarrow> a
      | Some es \<Rightarrow> a\<lparr>ap_echoes := (ap_echoes a)(c \<mapsto> filter (\<lambda>e. me_id e \<noteq> i) es)\<rparr>)"

definition begin_pending_send :: "string \<Rightarrow> string \<Rightarrow> int \<Rightarrow> app_state \<Rightarrow> app_state" where
  "begin_pending_send c i now a = a\<lparr>ap_pending_sends := (ap_pending_sends a)(c \<mapsto> \<lparr>ps_message_id = i, ps_started = now\<rparr>)\<rparr>"

definition end_pending_send :: "string \<Rightarrow> string \<Rightarrow> app_state \<Rightarrow> app_state" where
  "end_pending_send c i a =
     (case ap_pending_sends a c of
        Some p \<Rightarrow> if ps_message_id p = i then a\<lparr>ap_pending_sends := (ap_pending_sends a)(c := None)\<rparr> else a
      | None \<Rightarrow> a)"

definition retry_pending_send :: "string \<Rightarrow> int \<Rightarrow> app_state \<Rightarrow> app_state" where
  "retry_pending_send c now a =
     (case ap_pending_sends a c of
        Some p \<Rightarrow> a\<lparr>ap_pending_sends := (ap_pending_sends a)(c \<mapsto> p\<lparr>ps_started := now\<rparr>)\<rparr>
      | None \<Rightarrow> a)"

text \<open>The bytes done and the total of the upload in flight.\<close>

definition upload_progress_percent :: "app_state \<Rightarrow> nat option" where
  "upload_progress_percent a =
     (case ap_upload_progress a of
        None \<Rightarrow> None
      | Some (bytes, whole) \<Rightarrow> if whole = 0 then None else Some (min (min bytes whole * 100 div whole) 99))"

definition device_online :: "int option \<Rightarrow> int \<Rightarrow> bool" where
  "device_online seen now = (case seen of Some at \<Rightarrow> (now - at) div 1000 \<le> 70 | None \<Rightarrow> False)"

definition host_online :: "string \<Rightarrow> int \<Rightarrow> app_state \<Rightarrow> bool" where
  "host_online d now a =
     (if ap_local_device_id a = Some d then True
      else case find (\<lambda>x. dev_id x = d) (ap_devices a) of
        Some x \<Rightarrow> device_online (dev_last_seen_at x) now
      | None \<Rightarrow> True)"

definition chat_delivery_degraded :: "string \<Rightarrow> int \<Rightarrow> app_state \<Rightarrow> bool" where
  "chat_delivery_degraded i now a =
     (let net = ap_connectivity a
      in if net_state net = Net_Disabled then False
         else case find (\<lambda>c. ch_id c = i) (ap_chats a) of
           None \<Rightarrow> net_state net = Net_Offline
         | Some c \<Rightarrow>
             if ap_local_device_id a = Some (ch_device_id c) then False
             else if net_state net = Net_Offline then True
             else
               (case find (\<lambda>n. cn_chat_id n = i) (net_chats net) of
                  Some n \<Rightarrow> \<not> cn_connected n
                | None \<Rightarrow> net_state net \<noteq> Net_Connected) \<or>
               \<not> host_online (ch_device_id c) now a)"

definition send_pending :: "string \<Rightarrow> int \<Rightarrow> app_state \<Rightarrow> bool" where
  "send_pending i now a =
     (case ap_pending_sends a i of
        Some p \<Rightarrow> now - ps_started p \<le> undelivered_grace_ms \<or> chat_delivery_degraded i now a
      | None \<Rightarrow> False)"

definition send_queued :: "string \<Rightarrow> int \<Rightarrow> app_state \<Rightarrow> bool" where
  "send_queued i now a = (send_pending i now a \<and> chat_delivery_degraded i now a)"

definition send_undelivered :: "string \<Rightarrow> int \<Rightarrow> app_state \<Rightarrow> bool" where
  "send_undelivered i now a =
     (case ap_pending_sends a i of Some p \<Rightarrow> now - ps_started p > undelivered_grace_ms | None \<Rightarrow> False)"

definition pending_send_started :: "string \<Rightarrow> int \<Rightarrow> app_state \<Rightarrow> int option" where
  "pending_send_started i now a =
     (case ap_pending_sends a i of
        Some p \<Rightarrow> if now - ps_started p \<le> undelivered_grace_ms \<or> chat_delivery_degraded i now a then Some (ps_started p) else None
      | None \<Rightarrow> None)"

definition pending_echoes :: "app_state \<Rightarrow> message_entry list" where
  "pending_echoes a =
     (case ap_selected_chat a of
        None \<Rightarrow> []
      | Some c \<Rightarrow> (case ap_echoes a c of Some es \<Rightarrow> es | None \<Rightarrow> []))"

section \<open>Selecting\<close>

definition selected_space_row :: "app_state \<Rightarrow> space option" where
  "selected_space_row a =
     (if ap_no_project a then None
      else case ap_selected_space a of None \<Rightarrow> None | Some i \<Rightarrow> find (\<lambda>s. sp_id s = i) (ap_spaces a))"

definition effective_device_id :: "app_state \<Rightarrow> string option" where
  "effective_device_id a =
     (case selected_space_row a of
        Some s \<Rightarrow> Some (sp_device_id s)
      | None \<Rightarrow> (case ap_selected_device a of Some d \<Rightarrow> Some d | None \<Rightarrow> ap_local_device_id a))"

definition select_device :: "(string \<Rightarrow> string) \<Rightarrow> string \<Rightarrow> app_state \<Rightarrow> app_state" where
  "select_device lower d a =
     (let moves = (case selected_space_row a of Some s \<Rightarrow> sp_device_id s \<noteq> d | None \<Rightarrow> False);
          a = (if \<not> moves then a
               else case find (\<lambda>s. sp_device_id s = d) (spaces_sorted lower a) of
                 None \<Rightarrow> a\<lparr>ap_no_project := True\<rparr>
               | Some s \<Rightarrow> a\<lparr>ap_no_project := False, ap_selected_space := Some (sp_id s)\<rparr>)
      in a\<lparr>ap_selected_device := Some d\<rparr>)"

definition mark_chat_seen :: "string \<Rightarrow> int \<Rightarrow> app_state \<Rightarrow> app_state" where
  "mark_chat_seen i now a =
     a\<lparr>ap_chats := update_chat i (\<lambda>c. if unseen c then c\<lparr>ch_last_seen_at := Some now\<rparr> else c) (ap_chats a)\<rparr>"

definition select_chat :: "string option \<Rightarrow> int \<Rightarrow> app_state \<Rightarrow> app_state" where
  "select_chat chat now a =
     (if ap_selected_chat a = chat then (case chat of Some i \<Rightarrow> mark_chat_seen i now a | None \<Rightarrow> a)
      else
        let a = a\<lparr>ap_selected_chat := chat, ap_auto_selected := True, ap_transcript := []\<rparr>
        in case chat of
             None \<Rightarrow> a
           | Some i \<Rightarrow>
               mark_chat_seen i now
                 (case find (\<lambda>c. ch_id c = i) (ap_chats a) of
                    None \<Rightarrow> a
                  | Some c \<Rightarrow>
                      (case ch_space_id c of
                         Some s \<Rightarrow> a\<lparr>ap_selected_space := Some s, ap_no_project := False\<rparr>
                       | None \<Rightarrow> a\<lparr>ap_no_project := True, ap_selected_device := Some (ch_device_id c)\<rparr>)))"

definition select_space :: "string option \<Rightarrow> app_state \<Rightarrow> app_state" where
  "select_space space a =
     (case space of
        None \<Rightarrow> a\<lparr>ap_no_project := True\<rparr>
      | Some i \<Rightarrow>
          (let a = a\<lparr>ap_no_project := False\<rparr>;
               a = (case find (\<lambda>s. sp_id s = i) (ap_spaces a) of Some s \<Rightarrow> a\<lparr>ap_selected_device := Some (sp_device_id s)\<rparr> | None \<Rightarrow> a)
           in if ap_selected_space a = Some i then a else a\<lparr>ap_selected_space := Some i\<rparr>))"

definition prepare_runtime_replacement :: "app_state \<Rightarrow> app_state" where
  "prepare_runtime_replacement a =
     a\<lparr>ap_change_requests := no_change_requests, ap_connection := Connecting, ap_scope := None, ap_auth := None, ap_devices := [],
       ap_spaces := [], ap_chats := [], ap_sessions := [], ap_selected_space := None, ap_no_project := False, ap_selected_device := None,
       ap_selected_chat := None, ap_auto_selected := False, ap_chats_synced := False, ap_spaces_synced := False, ap_transcript := [],
       ap_echoes := (\<lambda>_. None), ap_pending_sends := (\<lambda>_. None), ap_upload_progress := None, ap_local_device_id := None\<rparr>"

section \<open>What the views ask\<close>

definition visible_chats :: "app_state \<Rightarrow> chat list" where
  "visible_chats a = filter (\<lambda>c. \<not> ch_archived c) (ap_chats a)"

definition chats_in_space :: "string \<Rightarrow> app_state \<Rightarrow> chat list" where
  "chats_in_space i a = sort_tabs (filter (\<lambda>c. ch_space_id c = Some i) (visible_chats a))"

definition session_for :: "string \<Rightarrow> app_state \<Rightarrow> session option" where
  "session_for i a = find (\<lambda>s. ss_chat_id s = i) (ap_sessions a)"

definition display_status_for :: "chat \<Rightarrow> int \<Rightarrow> app_state \<Rightarrow> chat_indicator" where
  "display_status_for c now a =
     (if send_pending (ch_id c) now a then Ind_Working else display_status c (session_for (ch_id c) a) now)"

definition overview_chats :: "int \<Rightarrow> app_state \<Rightarrow> (chat_indicator \<times> chat) list" where
  "overview_chats now a =
     sort_active (map (\<lambda>c. (display_status_for c now a, c))
       (filter (\<lambda>c. case ch_space_id c of None \<Rightarrow> True | Some i \<Rightarrow> find (\<lambda>s. sp_id s = i) (ap_spaces a) \<noteq> None) (visible_chats a)))"

definition indicator_for :: "string \<Rightarrow> int \<Rightarrow> app_state \<Rightarrow> indicator" where
  "indicator_for i now a = (if send_pending i now a then Show_Working else effective_indicator (session_for i a) now)"

definition device_name :: "string \<Rightarrow> app_state \<Rightarrow> string option" where
  "device_name d a = map_option dev_name (find (\<lambda>x. dev_id x = d) (ap_devices a))"

definition space_device_tag :: "(string \<Rightarrow> string) \<Rightarrow> space \<Rightarrow> int \<Rightarrow> app_state \<Rightarrow> string \<times> bool" where
  "space_device_tag t s now a =
     (''@ '' @ (case device_name (sp_device_id s) a of Some n \<Rightarrow> n | None \<Rightarrow> t ''Unknown device''), \<not> host_online (sp_device_id s) now a)"

definition version_triple :: "string \<Rightarrow> (nat \<times> nat \<times> nat) option" where
  "version_triple v =
     (case split_on (CHR ''.'') (trim v) of
        major # minor # rest \<Rightarrow>
          (if rest = [] then None
           else case (parse_u64 major, parse_u64 minor,
               parse_u64 (takeWhile (\<lambda>c. c \<noteq> CHR ''-'' \<and> c \<noteq> CHR ''+'') (join_str ''.'' rest))) of
             (Some a, Some b, Some c) \<Rightarrow> Some (a, b, c)
           | _ \<Rightarrow> None)
      | _ \<Rightarrow> None)"

definition device_version_at_least :: "string \<Rightarrow> nat \<times> nat \<times> nat \<Rightarrow> app_state \<Rightarrow> bool" where
  "device_version_at_least d least a =
     (case find (\<lambda>x. dev_id x = d) (ap_devices a) of
        None \<Rightarrow> False
      | Some x \<Rightarrow> (case Option.bind (dev_version x) version_triple of Some v \<Rightarrow> v \<ge> least | None \<Rightarrow> False))"

section \<open>Runs of the app\<close>

text \<open>
  The pump of a chat hands a frame over only while that chat is selected. After one that did not fit it subscribes again, and
  the frames that follow are those of the new subscription.
\<close>

definition watch_frame :: "string \<Rightarrow> transcript_frame \<Rightarrow> app_state \<Rightarrow> transcript_desync option \<times> app_state" where
  "watch_frame c frame a = (if ap_selected_chat a = Some c then apply_frame frame a else (None, a))"

datatype app_event =
    Ev_Chats "chat list"
  | Ev_Sessions "session list"
  | Ev_Spaces "space list"
  | Ev_Devices "device list"
  | Ev_Connectivity connectivity
  | Ev_Auth json
  | Ev_Config string chat_config
  | Ev_Frame string transcript_frame
  | Ev_Echo string message_entry
  | Ev_Unecho string string
  | Ev_Send string string int
  | Ev_Send_Failed string string
  | Ev_Retry string int
  | Ev_Select_Chat "string option" int
  | Ev_Select_Space "string option"
  | Ev_Select_Device string
  | Ev_Replace

text \<open>One thing that happens to the app.\<close>

fun app_step :: "(string \<Rightarrow> string) \<Rightarrow> (string \<Rightarrow> string) \<Rightarrow> app_event \<Rightarrow> app_state \<Rightarrow> app_state" where
  "app_step lower t (Ev_Chats cs) a = apply_chats cs a"
| "app_step lower t (Ev_Sessions ss) a = apply_sessions ss a"
| "app_step lower t (Ev_Spaces ss) a = apply_spaces lower ss a"
| "app_step lower t (Ev_Devices ds) a = apply_devices t ds a"
| "app_step lower t (Ev_Connectivity net) a = apply_connectivity net a"
| "app_step lower t (Ev_Auth v) a = apply_auth_value v a"
| "app_step lower t (Ev_Config c config) a = apply_chat_config c config a"
| "app_step lower t (Ev_Frame c frame) a = snd (watch_frame c frame a)"
| "app_step lower t (Ev_Echo c e) a = push_echo c e a"
| "app_step lower t (Ev_Unecho c i) a = remove_echo c i a"
| "app_step lower t (Ev_Send c i now) a = begin_pending_send c i now a"
| "app_step lower t (Ev_Send_Failed c i) a = end_pending_send c i a"
| "app_step lower t (Ev_Retry c now) a = retry_pending_send c now a"
| "app_step lower t (Ev_Select_Chat c now) a = select_chat c now a"
| "app_step lower t (Ev_Select_Space s) a = select_space s a"
| "app_step lower t (Ev_Select_Device d) a = select_device lower d a"
| "app_step lower t Ev_Replace a = prepare_runtime_replacement a"

fun app_run :: "(string \<Rightarrow> string) \<Rightarrow> (string \<Rightarrow> string) \<Rightarrow> app_event list \<Rightarrow> app_state \<Rightarrow> app_state" where
  "app_run lower t [] a = a"
| "app_run lower t (ev # evs) a = app_run lower t evs (app_step lower t ev a)"

text \<open>
  Whether the copy of the selected chat is out of step: the last frame handed over did not fit, and the copy has not been
  cleared since. The pump's next frame is a fresh copy.
\<close>

definition out_of_step_after :: "(string \<Rightarrow> string) \<Rightarrow> (string \<Rightarrow> string) \<Rightarrow> app_event \<Rightarrow> app_state \<Rightarrow> bool \<Rightarrow> bool" where
  "out_of_step_after lower t ev a d =
     (case ev of
        Ev_Frame c frame \<Rightarrow> if ap_selected_chat a = Some c then fst (watch_frame c frame a) \<noteq> None else d
      | _ \<Rightarrow> d \<and> ap_transcript (app_step lower t ev a) \<noteq> [])"

fun out_of_step :: "(string \<Rightarrow> string) \<Rightarrow> (string \<Rightarrow> string) \<Rightarrow> app_event list \<Rightarrow> app_state \<Rightarrow> bool \<Rightarrow> bool" where
  "out_of_step lower t [] a d = d"
| "out_of_step lower t (ev # evs) a d = out_of_step lower t evs (app_step lower t ev a) (out_of_step_after lower t ev a d)"

text \<open>
  What the app relies on: a frame that fits gives a document with distinct ids, and a message that is about to be sent has a new id.
\<close>

fun event_ok :: "app_event \<Rightarrow> app_state \<Rightarrow> bool" where
  "event_ok (Ev_Frame c frame) a = (case watch_frame c frame a of (None, a') \<Rightarrow> ap_selected_chat a = Some c \<longrightarrow> distinct (ids (ap_transcript a')) | _ \<Rightarrow> True)"
| "event_ok (Ev_Echo c e) a = (ap_selected_chat a = Some c \<longrightarrow> me_id e \<notin> set (ids (ap_transcript a)))"
| "event_ok _ a = True"

fun events_ok :: "(string \<Rightarrow> string) \<Rightarrow> (string \<Rightarrow> string) \<Rightarrow> app_event list \<Rightarrow> app_state \<Rightarrow> bool" where
  "events_ok lower t [] a = True"
| "events_ok lower t (ev # evs) a = (event_ok ev a \<and> events_ok lower t evs (app_step lower t ev a))"

text \<open>What the view of the selected chat lists.\<close>

definition shown :: "app_state \<Rightarrow> message_entry list" where
  "shown a = ap_transcript a @ pending_echoes a"

definition echoes_at :: "string \<Rightarrow> app_state \<Rightarrow> message_entry list" where
  "echoes_at c a = (case ap_echoes a c of Some es \<Rightarrow> es | None \<Rightarrow> [])"

text \<open>The document of \<open>c\<close> showed message \<open>i\<close> at some point of the run.\<close>

fun confirmed :: "(string \<Rightarrow> string) \<Rightarrow> (string \<Rightarrow> string) \<Rightarrow> string \<Rightarrow> string \<Rightarrow> app_event list \<Rightarrow> app_state \<Rightarrow> bool" where
  "confirmed lower t c i [] a = (ap_selected_chat a = Some c \<and> i \<in> set (ids (ap_transcript a)))"
| "confirmed lower t c i (ev # evs) a =
     (ap_selected_chat a = Some c \<and> i \<in> set (ids (ap_transcript a)) \<or> confirmed lower t c i evs (app_step lower t ev a))"

text \<open>The three parts of the state that the messages live in.\<close>

definition same_messages :: "app_state \<Rightarrow> app_state \<Rightarrow> bool" where
  "same_messages a b \<longleftrightarrow>
     ap_selected_chat b = ap_selected_chat a \<and> ap_transcript b = ap_transcript a \<and> ap_echoes b = ap_echoes a \<and>
     ap_pending_sends b = ap_pending_sends a"

named_theorems reducers

lemma same_messages_refl [simp]: "same_messages a a"
  by (simp add: same_messages_def)

lemma reducers_keep_messages [reducers]:
  "same_messages a (apply_sessions ss a)" "same_messages a (apply_devices t ds a)" "same_messages a (apply_connectivity net a)"
  "same_messages a (apply_chat_config c config a)" "same_messages a (mark_chat_seen c now a)"
  "same_messages a (apply_auth_value v a)" "same_messages a (select_space s a)" "same_messages a (select_device lower d a)"
  "same_messages a (apply_spaces lower sps a)"
  by (simp_all add: same_messages_def apply_sessions_def apply_devices_def apply_connectivity_def apply_chat_config_def mark_chat_seen_def
      apply_auth_value_def select_space_def select_device_def apply_spaces_def Let_def split: option.split)

lemma apply_chats_messages:
  "same_messages a (apply_chats cs a) \<or>
   ap_selected_chat (apply_chats cs a) = None \<and> ap_transcript (apply_chats cs a) = [] \<and> ap_echoes (apply_chats cs a) = ap_echoes a \<and>
   ap_pending_sends (apply_chats cs a) = ap_pending_sends a"
  by (auto simp: apply_chats_def same_messages_def Let_def split: option.split)

lemma select_chat_messages:
  "same_messages a (select_chat c now a) \<or>
   ap_selected_chat (select_chat c now a) = c \<and> ap_transcript (select_chat c now a) = [] \<and> ap_echoes (select_chat c now a) = ap_echoes a \<and>
   ap_pending_sends (select_chat c now a) = ap_pending_sends a"
  by (auto simp: select_chat_def mark_chat_seen_def same_messages_def Let_def split: option.split)

text \<open>No id twice in what is kept, and no echo of a message that the document has.\<close>

definition messages_ok :: "app_state \<Rightarrow> bool" where
  "messages_ok a \<longleftrightarrow>
     distinct (ids (ap_transcript a)) \<and> (\<forall>c. distinct (ids (echoes_at c a))) \<and>
     (\<forall>c. ap_selected_chat a = Some c \<longrightarrow> (\<forall>e \<in> set (echoes_at c a). me_id e \<notin> set (ids (ap_transcript a))))"

text \<open>The echoes of a chat never repeat an id; the rest holds while the copy is in step.\<close>

definition run_ok :: "app_state \<Rightarrow> bool \<Rightarrow> bool" where
  "run_ok a d \<longleftrightarrow> (\<forall>c. distinct (ids (echoes_at c a))) \<and> (d \<or> messages_ok a)"

lemma has_id: "list_ex (\<lambda>m. me_id m = i) es \<longleftrightarrow> i \<in> set (ids es)"
  by (auto simp: list_ex_iff)

lemma disjoint_images: "\<forall>y \<in> E. f y \<notin> f ` T \<Longrightarrow> f ` T \<inter> f ` E = {}"
proof -
  assume apart: "\<forall>y \<in> E. f y \<notin> f ` T"
  { fix i assume "i \<in> f ` T" "i \<in> f ` E"
    then obtain y where "y \<in> E" "f y \<in> f ` T" by (elim imageE) simp_all
    with apart have False by simp }
  then show ?thesis by blast
qed

lemma messages_ok_shown:
  assumes "messages_ok a"
  shows "distinct (ids (shown a))"
proof (cases "ap_selected_chat a")
  case None
  then show ?thesis using assms by (simp add: messages_ok_def shown_def pending_echoes_def)
next
  case (Some c)
  then have "pending_echoes a = echoes_at c a" by (simp add: pending_echoes_def echoes_at_def)
  moreover from assms Some have "\<forall>e \<in> set (echoes_at c a). me_id e \<notin> me_id ` set (ap_transcript a)" by (simp add: messages_ok_def)
  then have "set (ids (ap_transcript a)) \<inter> set (ids (echoes_at c a)) = {}"
    unfolding set_map by (rule disjoint_images)
  ultimately show ?thesis using assms by (simp add: messages_ok_def shown_def)
qed

lemma same_messages_ok: "same_messages a b \<Longrightarrow> messages_ok b = messages_ok a"
  by (simp add: same_messages_def messages_ok_def echoes_at_def)

lemma cleared_ok: "messages_ok a \<Longrightarrow> ap_transcript b = [] \<Longrightarrow> ap_echoes b = ap_echoes a \<Longrightarrow> messages_ok b"
  by (simp add: messages_ok_def echoes_at_def)

lemma apply_frame_messages:
  assumes "apply_frame frame a = (err, b)"
  shows "ap_selected_chat b = ap_selected_chat a"
    "echoes_at c b = (if err = None \<and> ap_selected_chat a = Some c then filter (\<lambda>e. me_id e \<notin> set (ids (ap_transcript b))) (echoes_at c a) else echoes_at c a)"
  using assms
  by (auto simp: apply_frame_def ack_pending_send_def drop_confirmed_def echoes_at_def has_id split: sum.splits option.splits if_splits)

lemma apply_frame_ok:
  "\<forall>c. distinct (ids (echoes_at c a)) \<Longrightarrow> apply_frame frame a = (None, b) \<Longrightarrow> distinct (ids (ap_transcript b)) \<Longrightarrow> messages_ok b"
  by (auto simp: messages_ok_def apply_frame_messages distinct_map_filter)

lemma echoes_at_push: "echoes_at c' (push_echo c e a) =
    (if c' = c \<and> me_id e \<notin> set (ids (echoes_at c a)) then echoes_at c a @ [e] else echoes_at c' a)"
  by (auto simp: push_echo_def echoes_at_def has_id Let_def split: option.split)

lemma echoes_at_remove: "echoes_at c' (remove_echo c i a) = (if c' = c then filter (\<lambda>e. me_id e \<noteq> i) (echoes_at c a) else echoes_at c' a)"
  by (auto simp: remove_echo_def echoes_at_def split: option.split)

lemma echo_edits_keep [simp]:
  "ap_transcript (push_echo c e a) = ap_transcript a" "ap_selected_chat (push_echo c e a) = ap_selected_chat a"
  "ap_pending_sends (push_echo c e a) = ap_pending_sends a"
  "ap_transcript (remove_echo c i a) = ap_transcript a" "ap_selected_chat (remove_echo c i a) = ap_selected_chat a"
  "ap_pending_sends (remove_echo c i a) = ap_pending_sends a"
  by (auto simp: push_echo_def remove_echo_def Let_def split: option.split)

lemma send_edits_keep [simp]:
  "ap_transcript (begin_pending_send c i now a) = ap_transcript a" "ap_selected_chat (begin_pending_send c i now a) = ap_selected_chat a"
  "ap_echoes (begin_pending_send c i now a) = ap_echoes a"
  "ap_transcript (end_pending_send c i a) = ap_transcript a" "ap_selected_chat (end_pending_send c i a) = ap_selected_chat a"
  "ap_echoes (end_pending_send c i a) = ap_echoes a"
  "ap_transcript (retry_pending_send c now a) = ap_transcript a" "ap_selected_chat (retry_pending_send c now a) = ap_selected_chat a"
  "ap_echoes (retry_pending_send c now a) = ap_echoes a"
  by (simp_all add: begin_pending_send_def end_pending_send_def retry_pending_send_def split: option.split)

lemma sends_ok [simp]:
  "messages_ok (begin_pending_send c i now a) = messages_ok a" "messages_ok (end_pending_send c i a) = messages_ok a"
  "messages_ok (retry_pending_send c now a) = messages_ok a"
  by (simp_all add: messages_ok_def echoes_at_def)

lemmas quiet_ok = reducers_keep_messages [THEN same_messages_ok]

lemma same_messages_echoes: "same_messages a b \<Longrightarrow> echoes_at c b = echoes_at c a"
  by (simp add: same_messages_def echoes_at_def)

lemma kept_echoes [simp]:
  "echoes_at c (apply_chats cs a) = echoes_at c a" "echoes_at c (select_chat s now a) = echoes_at c a"
  "echoes_at c (begin_pending_send x i now a) = echoes_at c a" "echoes_at c (end_pending_send x i a) = echoes_at c a"
  "echoes_at c (retry_pending_send x now a) = echoes_at c a"
  using apply_chats_messages [of a cs] select_chat_messages [of a s now]
  by (auto simp: echoes_at_def same_messages_def)

lemmas quiet_echoes = reducers_keep_messages [THEN same_messages_echoes]

lemma step_echoes_distinct:
  assumes "\<forall>c. distinct (ids (echoes_at c a))"
  shows "distinct (ids (echoes_at c (app_step lower t ev a)))"
proof (cases ev)
  case (Ev_Frame x frame)
  obtain err b where b: "apply_frame frame a = (err, b)" by fastforce
  show ?thesis using assms Ev_Frame b by (simp add: watch_frame_def apply_frame_messages(2) [OF b] distinct_map_filter)
next
  case (Ev_Echo x e)
  then show ?thesis using assms by (auto simp: echoes_at_push del: imageE)
next
  case Ev_Replace
  then show ?thesis by (simp add: prepare_runtime_replacement_def echoes_at_def)
qed (use assms in \<open>simp_all add: quiet_echoes echoes_at_remove distinct_map_filter\<close>)

text \<open>An event that is not a frame keeps the messages in order.\<close>

lemma step_messages_ok:
  assumes "messages_ok a" "event_ok ev a" "\<And>c frame. ev \<noteq> Ev_Frame c frame"
  shows "messages_ok (app_step lower t ev a)"
proof (cases ev)
  case (Ev_Chats cs)
  then show ?thesis using assms apply_chats_messages [of a cs] by (auto simp: same_messages_ok intro: cleared_ok)
next
  case (Ev_Select_Chat c now)
  then show ?thesis using assms select_chat_messages [of a c now] by (auto simp: same_messages_ok intro: cleared_ok)
next
  case (Ev_Echo c e)
  then show ?thesis using assms by (auto simp: messages_ok_def echoes_at_push del: imageE split: if_splits)
next
  case (Ev_Unecho c i)
  then show ?thesis using assms by (auto simp: messages_ok_def echoes_at_remove distinct_map_filter del: imageE split: if_splits)
next
  case Ev_Replace
  then show ?thesis by (auto simp: messages_ok_def prepare_runtime_replacement_def echoes_at_def)
qed (use assms in \<open>auto simp: quiet_ok\<close>)

lemma app_step_ok:
  assumes "run_ok a d" "event_ok ev a"
  shows "run_ok (app_step lower t ev a) (out_of_step_after lower t ev a d)"
proof -
  have echoes: "\<forall>c. distinct (ids (echoes_at c a))" using assms(1) by (simp add: run_ok_def)
  then have later: "\<forall>c. distinct (ids (echoes_at c (app_step lower t ev a)))" using step_echoes_distinct by blast
  show ?thesis
  proof (cases "\<exists>c frame. ev = Ev_Frame c frame")
    case True
    then obtain c frame where ev: "ev = Ev_Frame c frame" by blast
    obtain err b where b: "apply_frame frame a = (err, b)" by fastforce
    show ?thesis
    proof (cases "ap_selected_chat a = Some c \<and> err = None")
      case True
      then have "messages_ok b" using apply_frame_ok [OF echoes] b assms(2) ev by (simp add: watch_frame_def)
      then show ?thesis using later True b ev by (simp add: run_ok_def watch_frame_def)
    next
      case False
      then show ?thesis using assms(1) later b ev by (auto simp: run_ok_def out_of_step_after_def watch_frame_def)
    qed
  next
    case False
    have "messages_ok (app_step lower t ev a)" if "ap_transcript (app_step lower t ev a) = []"
      using later that by (simp add: messages_ok_def)
    moreover have "messages_ok (app_step lower t ev a)" if "\<not> d"
      using step_messages_ok [of a ev lower t] assms that False by (auto simp: run_ok_def)
    moreover have "out_of_step_after lower t ev a d = (d \<and> ap_transcript (app_step lower t ev a) \<noteq> [])"
      using False by (cases ev) (simp_all add: out_of_step_after_def)
    ultimately show ?thesis using later by (auto simp: run_ok_def)
  qed
qed

lemma run_ok_new [simp]: "run_ok new_state False"
  by (simp add: run_ok_def messages_ok_def new_state_def echoes_at_def)

lemma app_run_append: "app_run lower t (xs @ ys) a = app_run lower t ys (app_run lower t xs a)"
  by (induction xs arbitrary: a) simp_all

lemma app_run_ok: "run_ok a d \<Longrightarrow> events_ok lower t evs a \<Longrightarrow> run_ok (app_run lower t evs a) (out_of_step lower t evs a d)"
  by (induction evs arbitrary: a d) (auto intro: app_step_ok)

text \<open>An echo goes only when it is withdrawn, the runtime is replaced, or the document has it.\<close>

lemma app_step_echo:
  assumes "i \<in> set (ids (echoes_at c a))" "ev \<noteq> Ev_Unecho c i" "ev \<noteq> Ev_Replace" "b = app_step lower t ev a"
  shows "i \<in> set (ids (echoes_at c b)) \<or> ap_selected_chat b = Some c \<and> i \<in> set (ids (ap_transcript b))"
proof (cases ev)
  case (Ev_Frame x frame)
  obtain err b' where b': "apply_frame frame a = (err, b')" by fastforce
  show ?thesis using assms Ev_Frame b' apply_frame_messages [OF b'] by (auto simp: watch_frame_def)
qed (use assms in \<open>auto simp: quiet_echoes echoes_at_push echoes_at_remove split: if_splits\<close>)

lemma app_run_echo:
  assumes "i \<in> set (ids (echoes_at c a))" "Ev_Unecho c i \<notin> set evs" "Ev_Replace \<notin> set evs"
  shows "i \<in> set (ids (echoes_at c (app_run lower t evs a))) \<or> confirmed lower t c i evs a"
  using assms
proof (induction evs arbitrary: a)
  case (Cons ev evs)
  define b where "b = app_step lower t ev a"
  have now: "confirmed lower t c i evs b" if "ap_selected_chat b = Some c \<and> i \<in> set (ids (ap_transcript b))"
    using that by (cases evs) auto
  have "i \<in> set (ids (echoes_at c b)) \<or> confirmed lower t c i evs b"
    using app_step_echo [OF Cons.prems(1) _ _ b_def] Cons.prems(2,3) now by auto
  then show ?case using Cons.IH [of b] Cons.prems(2,3) by (auto simp: b_def)
qed simp

text \<open>
  C17. A message that was sent does not get lost and is shown once. Whatever the app takes in afterwards, frames that do not fit
  included, the message is still among the echoes of its chat unless the transcript of the chat has listed it, as long as its send does not
  withdraw it and the runtime is not replaced; and what the view lists has no id twice, except while the copy of the
  chat is out of step, between a frame that did not fit and the fresh copy that the app then asks for.
\<close>
theorem sent_message_shown_once:
  assumes "events_ok lower t (before @ Ev_Echo c e # evs) new_state" "a = app_run lower t (before @ Ev_Echo c e # evs) new_state"
    and "Ev_Unecho c (me_id e) \<notin> set evs" "Ev_Replace \<notin> set evs"
  shows "(me_id e \<in> set (ids (echoes_at c a)) \<or> confirmed lower t c (me_id e) evs (app_run lower t (before @ [Ev_Echo c e]) new_state)) \<and>
    (out_of_step lower t (before @ Ev_Echo c e # evs) new_state False \<or> distinct (ids (shown a)))"
proof
  let ?b = "push_echo c e (app_run lower t before new_state)"
  have "me_id e \<in> set (ids (echoes_at c ?b))" by (auto simp: echoes_at_push)
  from app_run_echo [OF this assms(3,4)]
  show "me_id e \<in> set (ids (echoes_at c a)) \<or> confirmed lower t c (me_id e) evs (app_run lower t (before @ [Ev_Echo c e]) new_state)"
    by (simp add: assms(2) app_run_append)
  have "run_ok a (out_of_step lower t (before @ Ev_Echo c e # evs) new_state False)"
    unfolding assms(2) by (rule app_run_ok [OF run_ok_new assms(1)])
  then show "out_of_step lower t (before @ Ev_Echo c e # evs) new_state False \<or> distinct (ids (shown a))"
    using messages_ok_shown by (auto simp: run_ok_def)
qed

definition sent_and_left :: "app_event list" where
  "sent_and_left = [Ev_Select_Chat (Some ''d'') 2, Ev_Frame ''c'' (Reset []), Ev_Select_Chat (Some ''c'') 3]"

theorem sent_message_shown_once_witness:
  "let a = app_run (\<lambda>n. n) (\<lambda>n. n) ([Ev_Select_Chat (Some ''c'') 1] @ Ev_Echo ''c'' (sample_entry ''m'' ''hi'') # sent_and_left) new_state
   in distinct (ids (shown a)) \<and> ids (shown a) = [''m'']"
proof -
  let ?evs = "[Ev_Select_Chat (Some ''c'') 1] @ Ev_Echo ''c'' (sample_entry ''m'' ''hi'') # sent_and_left"
  note defs = new_state_def select_chat_def mark_chat_seen_def push_echo_def watch_frame_def sample_entry_def sent_and_left_def Let_def
  have "events_ok (\<lambda>n. n) (\<lambda>n. n) ?evs new_state" "\<not> out_of_step (\<lambda>n. n) (\<lambda>n. n) ?evs new_state False"
    by (simp_all add: defs out_of_step_after_def)
  moreover have "Ev_Unecho ''c'' (me_id (sample_entry ''m'' ''hi'')) \<notin> set sent_and_left" "Ev_Replace \<notin> set sent_and_left"
    by (simp_all add: sent_and_left_def)
  ultimately have "distinct (ids (shown (app_run (\<lambda>n. n) (\<lambda>n. n) ?evs new_state)))"
    using sent_message_shown_once [OF _ refl] by blast
  moreover have "ids (shown (app_run (\<lambda>n. n) (\<lambda>n. n) ?evs new_state)) = [''m'']" by (simp add: defs shown_def pending_echoes_def)
  ultimately show ?thesis by simp
qed

text \<open>Out of step the message is listed twice: the delta that brought it miscounts, and its echo stays.\<close>

lemma desync_shows_twice:
  "ids (shown (app_run (\<lambda>n. n) (\<lambda>n. n)
     [Ev_Select_Chat (Some ''c'') 1, Ev_Echo ''c'' (sample_entry ''m'' ''hi''),
      Ev_Frame ''c'' (Delta [\<lparr>up_after = None, up_entry = sample_entry ''m'' ''hi''\<rparr>] [] [] 2)] new_state)) = [''m'', ''m'']"
  by (simp add: new_state_def select_chat_def mark_chat_seen_def push_echo_def watch_frame_def apply_frame_def apply_upsert_def sample_entry_def
      shown_def pending_echoes_def Let_def)

section \<open>Sends of a chat in the background\<close>

text \<open>What would touch the waiting send of \<open>c\<close> or bring its transcript in.\<close>

fun touches :: "string \<Rightarrow> app_event \<Rightarrow> bool" where
  "touches c (Ev_Select_Chat x _) = (x = Some c)"
| "touches c (Ev_Send x _ _) = (x = c)"
| "touches c (Ev_Send_Failed x _) = (x = c)"
| "touches c (Ev_Retry x _) = (x = c)"
| "touches c Ev_Replace = True"
| "touches c _ = False"

lemma apply_frame_sends: "ap_selected_chat a \<noteq> Some c \<Longrightarrow> ap_pending_sends (snd (apply_frame frame a)) c = ap_pending_sends a c"
  by (auto simp: apply_frame_def ack_pending_send_def drop_confirmed_def split: sum.splits option.splits if_splits)

lemma apply_frame_selected: "ap_selected_chat (snd (apply_frame frame a)) = ap_selected_chat a"
  using apply_frame_messages(1) [OF prod.collapse [symmetric]] by blast

lemma same_messages_sends:
  "same_messages a b \<Longrightarrow> ap_pending_sends b = ap_pending_sends a" "same_messages a b \<Longrightarrow> ap_selected_chat b = ap_selected_chat a"
  by (simp_all add: same_messages_def)

lemmas quiet_sends = reducers_keep_messages [THEN same_messages_sends(1)] reducers_keep_messages [THEN same_messages_sends(2)]

lemma app_step_background:
  assumes "b = app_step lower t ev a" "\<not> touches c ev" "ap_selected_chat a \<noteq> Some c"
  shows "ap_selected_chat b \<noteq> Some c \<and> ap_pending_sends b c = ap_pending_sends a c"
proof (cases ev)
  case (Ev_Chats cs)
  then show ?thesis using assms apply_chats_messages [of a cs] by (auto simp: same_messages_def)
next
  case (Ev_Select_Chat x now)
  then show ?thesis using assms select_chat_messages [of a x now] by (auto simp: same_messages_def)
next
  case (Ev_Frame x frame)
  then show ?thesis using assms by (cases "ap_selected_chat a = Some x") (simp_all add: watch_frame_def apply_frame_selected apply_frame_sends)
qed (use assms in \<open>auto simp: quiet_sends begin_pending_send_def end_pending_send_def retry_pending_send_def split: option.splits if_splits\<close>)

lemma app_run_background:
  "\<forall>ev \<in> set evs. \<not> touches c ev \<Longrightarrow> ap_selected_chat a \<noteq> Some c \<Longrightarrow> ap_pending_sends (app_run lower t evs a) c = ap_pending_sends a c"
proof (induction evs arbitrary: a)
  case (Cons ev evs)
  then show ?case using app_step_background [OF refl, of c ev a lower t] by simp
qed simp

text \<open>
  C38. A send of a chat that the user has left reads as failed after two minutes, whatever the host does with it: only the
  transcript of the selected chat confirms a send, so frames, sessions and chats of the host that carry the message change nothing.
\<close>
theorem background_send_reads_failed:
  assumes "b = app_run lower t evs (select_chat other now (begin_pending_send c i started a))"
    and "other \<noteq> Some c" "\<forall>ev \<in> set evs. \<not> touches c ev" "later > started + undelivered_grace_ms"
  shows "send_undelivered c later b"
proof -
  let ?a = "begin_pending_send c i started a"
  have "ap_selected_chat (select_chat other now ?a) \<noteq> Some c" "ap_pending_sends (select_chat other now ?a) = ap_pending_sends ?a"
    using select_chat_messages [of ?a other now] assms(2)
    by (auto simp: same_messages_def select_chat_def mark_chat_seen_def Let_def split: option.splits if_splits)
  with app_run_background [OF assms(3)] have "ap_pending_sends b c = Some \<lparr>ps_message_id = i, ps_started = started\<rparr>"
    unfolding assms(1) by (simp add: begin_pending_send_def)
  with assms(4) show ?thesis by (simp add: send_undelivered_def)
qed

theorem background_send_reads_failed_witness:
  "send_undelivered ''c'' 200000 (app_run (\<lambda>n. n) (\<lambda>n. n)
     [Ev_Frame ''c'' (Reset [sample_entry ''m'' ''hi'']), Ev_Frame ''d'' (Reset []), Ev_Select_Space None]
     (select_chat (Some ''d'') 10 (begin_pending_send ''c'' ''m'' 5 (select_chat (Some ''c'') 1 new_state))))"
  by (rule background_send_reads_failed [OF refl]) (simp_all add: undelivered_grace_ms_def)

section \<open>Devices and projects\<close>

lemma find_id: "distinct (map f xs) \<Longrightarrow> x \<in> set xs \<Longrightarrow> find (\<lambda>y. f y = f x) xs = Some x"
  by (induction xs) auto

lemma find_sorted: "find P (spaces_sorted lower a) = Some s \<Longrightarrow> s \<in> set (ap_spaces a) \<and> P s"
proof -
  assume s: "find P (spaces_sorted lower a) = Some s"
  then have "s \<in> set (spaces_sorted lower a)" by (metis find_Some_iff nth_mem)
  with s show ?thesis by (auto simp: spaces_sorted_def find_Some_iff)
qed

text \<open>
  Picking a device takes effect: the canvas then aims at that device, whatever project was picked before, and a project
  that stays picked is one of that device.
\<close>
theorem picked_device_effective:
  assumes "distinct (map sp_id (ap_spaces a))"
  shows "effective_device_id (select_device lower d a) = Some d \<and>
    (\<forall>s. selected_space_row (select_device lower d a) = Some s \<longrightarrow> sp_device_id s = d)"
proof (cases "\<exists>s. selected_space_row a = Some s \<and> sp_device_id s \<noteq> d")
  case True
  show ?thesis
  proof (cases "find (\<lambda>s. sp_device_id s = d) (spaces_sorted lower a)")
    case None
    with True show ?thesis by (auto simp: select_device_def effective_device_id_def selected_space_row_def Let_def)
  next
    case (Some s)
    then have "find (\<lambda>y. sp_id y = sp_id s) (ap_spaces a) = Some s" "sp_device_id s = d"
      using find_sorted [OF Some] find_id [OF assms] by auto
    with True Some show ?thesis by (auto simp: select_device_def effective_device_id_def selected_space_row_def Let_def)
  qed
next
  case False
  then show ?thesis
    by (auto simp: select_device_def effective_device_id_def selected_space_row_def Let_def split: option.splits if_splits)
qed

definition sample_project :: "string \<Rightarrow> string \<Rightarrow> space" where
  "sample_project i d = \<lparr>sp_id = i, sp_device_id = d, sp_path = ''/p'', sp_name = Some i, sp_git_detected = False, sp_git_checked_at = None,
     sp_checkout_id = None, sp_created_at = 0\<rparr>"

theorem picked_device_effective_witness:
  "let a = new_state\<lparr>ap_spaces := [sample_project ''s'' ''laptop'', sample_project ''u'' ''desk''], ap_selected_space := Some ''s''\<rparr>
   in effective_device_id a = Some ''laptop'' \<and> effective_device_id (select_device (\<lambda>n. n) ''desk'' a) = Some ''desk''"
proof -
  let ?a = "new_state\<lparr>ap_spaces := [sample_project ''s'' ''laptop'', sample_project ''u'' ''desk''], ap_selected_space := Some ''s''\<rparr>"
  have "distinct (map sp_id (ap_spaces ?a))" by (simp add: sample_project_def)
  then have "effective_device_id (select_device (\<lambda>n. n) ''desk'' ?a) = Some ''desk''" using picked_device_effective [of ?a] by simp
  moreover have "effective_device_id ?a = Some ''laptop''"
    by (simp add: effective_device_id_def selected_space_row_def sample_project_def new_state_def)
  ultimately show ?thesis by simp
qed

end
