(* ===== verification/Spec2Isabelle.thy ===== *)
theory Spec2Isabelle
  imports Registry_Server Session_Doc Chat_System Device_Relay Claude_Normalize Codex_Run Json_Rpc Rpc_Core Run_Journal Session_Recovery View_Model Acp_Run Image_Reading Image_Cache Updater App_State
begin

text \<open>
  \<^bold>\<open>Postillion\<close> runs coding agents on the devices of a user and lets every device follow and steer them. An engine on
  each device hosts chats; a server keeps what the devices share. This development models the parts that decide what is
  kept, merged, delivered and shown, and proves what makes them correct.

  \<^bold>\<open>The parts and how they interact.\<close>
  \<^item> The \<^emph>\<open>registry\<close> (devices, spaces, chats, session states) is a table of rows whose fields are merged by hybrid logical
    clocks. Every device keeps a replica with pending writes; the server orders batches of operations, broadcasts the
    rows they changed and answers a hello with what the replica misses.
  \<^item> A \<^emph>\<open>chat\<close> is a document. Its updates are the rows of an append-only log on the server, one room per chat, reached
    through a WebSocket or plain HTTP. The chat client of a device pushes its own updates and follows the log with a
    cursor.
  \<^item> The \<^emph>\<open>session document\<close> of a chat holds the messages and a ledger of commands. A command (run, steer, interrupt,
    answer) is queued by any device and executed at most once by the device that hosts the chat.
  \<^item> A \<^emph>\<open>run\<close> drives an agent process. The adapters turn its output into agent events; the events are folded into
    message parts, stripped of what must not leave the device and streamed into the session document; readers get
    transcript deltas.
  \<^item> \<^emph>\<open>Sessions\<close> own the runs of an engine: they start, steer, interrupt and answer them, journal their events on disk and
    recover the chats a crash left streaming. The \<^emph>\<open>view model\<close> turns chats and tool calls into what a list shows.
  \<^item> \<^emph>\<open>Attachments\<close> are folded into the text of a message as references. The device that sends keeps the bytes until an escort
    has pushed them to the host of the chat; the app reads them back from there into a cache of images.
  \<^item> The \<^emph>\<open>app\<close> holds what the engine told it, the selection, and the messages and sends the host has not confirmed. An
    installed engine \<^emph>\<open>updates\<close> itself from the release server.
  \<^item> The \<^emph>\<open>RPC core\<close> carries typed calls and streams between a client and an engine; the \<^emph>\<open>device relay\<close> carries remote
    calls from a device to the engine of another one.
  \<^item> \<^emph>\<open>Access\<close> to every room is decided by a token and by who claimed the room first.

  \<^bold>\<open>Theories, sources and state.\<close> Paths are below \<open>src/crates\<close>.
  \<^item> \<open>Prelude\<close>, \<open>Ordered_Map\<close>, \<open>Rust_Str\<close>, \<open>Json_Value\<close>: JSON values, decimal formats, maps ordered by key (standing for
    \<open>BTreeMap\<close> and, where the order cannot be seen, for \<open>HashMap\<close>), the string operations of Rust on UTF-8 bytes, and the
    loose accessors of \<open>serde_json::Value\<close>.
  \<^item> \<open>Hlc\<close>, \<open>Registry_Row\<close> (\<open>doc/src/registry.rs\<close>): clocks and their fixed-width text, rows, operations and their merge.
  \<^item> \<open>Entities\<close> (\<open>proto/src/entities.rs\<close>), \<open>Registry_Doc\<close> (\<open>doc/src/registry.rs\<close>): the typed entities and their rows; the
    replica with authoritative rows, pending batches and the overlay, its typed operations and its file.
  \<^item> \<open>Registry_Server\<close> (\<open>server/src/registry_db.rs\<close>, \<open>presence.rs\<close>, \<open>registry_ws.rs\<close>, \<open>registry_http.rs\<close>,
    \<open>sync/src/registry_room.rs\<close>, \<open>sync/src/registry.rs\<close>): the store, the room protocol and the client's side of it.
  \<^item> \<open>Commands\<close> (\<open>doc/src/commands.rs\<close>, \<open>sync/src/store.rs\<close>, \<open>engine/src/doc_host.rs\<close>): the fate of a command, the local
    store of processed commands, and the workers of a host as a step relation with crashes.
  \<^item> \<open>Parts\<close> (\<open>proto/src/agent.rs\<close>, \<open>doc/src/parts.rs\<close>): agent events, the fold into parts, summaries, privacy, splitting.
  \<^item> \<open>Transcript_Delta\<close> (\<open>doc/src/transcript_delta.rs\<close>), \<open>Session_Doc\<close> (\<open>doc/src/schema.rs\<close>, \<open>doc/src/rebuild.rs\<close>,
    \<open>engine/src/sessions.rs\<close>): deltas between two transcript states; the document, its reading with salvage, the segment
    writer and the rebuild of a thin copy.
  \<^item> \<open>Access\<close> (\<open>server/src/auth.rs\<close>, \<open>ownership.rs\<close>, \<open>identity_db.rs\<close>): identity, claims, admissions and restarts.
  \<^item> \<open>Chat_Room\<close> (\<open>sync/src/chat_frames.rs\<close>, \<open>sync/src/room.rs\<close>, \<open>server/src/db.rs\<close>, \<open>server/src/http.rs\<close>): frames, the log
    and its two roads. \<open>Chat_Client\<close> (\<open>sync/src/chat_client.rs\<close>): the client's state, its session machine, back-off and the
    HTTP road. \<open>Chat_System\<close> (also \<open>engine/src/chat2_host.rs\<close>): client, room and the sink that fills the document, together as a
    step relation with lost broadcasts, broken sockets, rows that do not import, failed writes and crashes.
  \<^item> \<open>Device_Relay\<close> (\<open>server/src/device_room.rs\<close>, \<open>rpc/src/device_room.rs\<close>): frames, the hub, one task with one bounded
    outbox per socket as a step relation, the host and client ends, dial cooldowns.
  \<^item> \<open>Claude_Normalize\<close> (\<open>harness/src/claude/wire.rs\<close>, \<open>normalize.rs\<close>), \<open>Codex_Run\<close> (\<open>harness/src/codex/normalize.rs\<close>,
    \<open>mod.rs\<close>), \<open>Json_Rpc\<close> (\<open>harness/src/jsonrpc.rs\<close>): the Claude normaliser; the Codex item mapping, turn router, session
    loop and approvals; the JSON-RPC client with its reader task and bounded channel.
  \<^item> \<open>Acp_Normalize\<close> (\<open>harness/src/acp/normalize.rs\<close> and the options of \<open>acp/mod.rs\<close>), \<open>Acp_Run\<close> (\<open>harness/src/acp/mod.rs\<close>): the
    updates, tool calls, models and options of an ACP agent; the session loop with prompts, steers, permissions and watchdogs.
  \<^item> \<open>Rpc_Core\<close> (\<open>rpc/src/lib.rs\<close>): frames, the client's table of pending calls and streams, the server's connection.
  \<^item> \<open>Run_Journal\<close> (\<open>engine/src/run_journal.rs\<close>): the event file of a run, torn lines, reading and recovery.
  \<^item> \<open>Drive_Run\<close>, \<open>Run_Safety\<close> (\<open>engine/src/sessions.rs\<close>): the loop that drives one run, its subagents, its questions and
    its end; \<open>Session_Life\<close>, \<open>Session_Ledger\<close>, \<open>Session_Recovery\<close> (\<open>engine/src/sessions.rs\<close>, \<open>engine/src/doc_host.rs\<close>):
    dispatch, steering, interruption, answers, the ledger of accepted messages, recovery and revival.
  \<^item> \<open>View_Model\<close> (\<open>proto/src/view.rs\<close>): rows, groups, chips, elapsed times and the summary of a group of tool calls.
  \<^item> \<open>Base64\<close>: the codec as a locale and its instance of RFC 4648. \<open>Uploads\<close> (\<open>engine/src/uploads.rs\<close>, \<open>engine/src/doc_host.rs\<close>):
    staging, commit, references and reading of attachments, and their escort to the host; \<open>Upload_Transfer\<close>: the escort over a link
    that loses calls and answers.
  \<^item> \<open>Diff_Comments\<close> (\<open>ui/src/comments.rs\<close>, \<open>badges.rs\<close>), \<open>Attachments\<close>, \<open>Image_Reading\<close>, \<open>Image_Cache\<close> (\<open>ui/src/attachments.rs\<close>):
    comments and images in the text of a message, staging and reading back, the cache of images with its budget.
  \<^item> \<open>App_State\<close> (\<open>ui/src/state.rs\<close>, \<open>change_requests.rs\<close>): the state of the app, its reducers and queries, and runs of events.
  \<^item> \<open>Updater\<close> (\<open>update/src/lib.rs\<close>): versions, release metadata, verified downloads, staging and switching a managed install.

  A struct is a record with the fields in the order of the source, an enum a datatype, a method a function that returns
  the new state. Errors are values of a sum or option type; every early return is a branch.

  \<^bold>\<open>What is proved.\<close>
  \<^item> Merging: clocks of one device strictly increase and their text orders like them; operations on a row commute in any
    order, are idempotent and keep rows well formed; deletions bury older writes.
  \<^item> Registry: a replica that was in step is in step again after a hello, whatever happened meanwhile; what the overlay
    showed is what the server makes of the pending batches; snapshots keep local writes; files read back.
  \<^item> Chats: the log is gapless and append-only, a retried push gets its old number, both roads give the same answers;
    through every interleaving of the system every row of another device at or below the cursor is in the document or was refused
    by its import, with failing imports and writes to disk, crashes and restarts; and every run of a session's own steps reaches
    the steady loop with all those rows handed over. Both are for rooms without a checkpoint.
  \<^item> Commands: at most one execution per command through crashes and races, newest steer wins.
  \<^item> Transcripts: what an agent streams is what the document reads back, in any batching; rendered parts do not depend on
    private content; diffs applied to the old state give the new one; splitting loses nothing.
  \<^item> Runs: subagents cannot influence the transcript or the turns of their session, a run never ends without a status,
    messages to a run are neither lost nor doubled while it goes on, approvals need consent. A run that ended leaves no
    message streaming; accepted steers are accounted for, with the race at the exit, which loses one, stated; a dispatched message
    is shown once; recovery closes the turns a crash left open, of chats recovered before too, and revives a run a bounded number
    of times; a journal cut anywhere reads back as a prefix. The end of a run is two steps in \<open>Session_Ledger\<close>
    (\<open>drain_ledger\<close>, \<open>leave_run\<close>), as calls that steer may come between them; \<open>end_run\<close> freezes the subagents
    and does both at once; it is used for what streams in the document at the end, where
    those calls only put messages of the user.
  \<^item> ACP: the session reads as working exactly while a prompt is unanswered, steers are neither lost nor doubled, a silent turn is
    settled exactly if the agent spoke, its tools are done and no question is out, only options and models the agent advertised
    are set, what the picker of the app sends for a model resolves to it, results are bounded.
  \<^item> Attachments: when the escort reports success the host has the bytes of the sender whatever the link lost, one round over
    a working link completes it, no upload grows past its limit and no reference leaves its directory; the app reads back the
    bytes it attached; prompt, comments and images survive the text of a message; the image cache stays within its budget,
    counting the bytes a late failure leaves on its books.
  \<^item> App: a sent message is shown once and stays until the document has it, except between a frame that does not fit, which leaves
    a half-changed transcript, and the fresh copy the app asks for; a picked device takes effect. The engine never runs an older
    version than it did, through failed downloads and failed restarts, and the link always points at a staged version.
  \<^item> Calls: every RPC call is answered and every item of a stream is delivered in order to its own call.
  \<^item> Views: rows of equal chats are listed in one order, and a turn that goes live is shown in time.
  \<^item> Relay: frames reach only the right socket of the same device with the sender stamped by the server, a call's answer
    comes back to its caller, no room outlives its sockets.
  \<^item> Access: a room admits one user only, through failures and restarts; identities come from tokens.
  \<^item> Where the code does not do what it means to, the behaviour is a theorem as well: two relay tasks, or the session
    loop and its reader, that wait for each other for ever; a failing turn that drops queued messages; a superseded host
    that takes down the links of the live one; a state frame overtaken by an HTTP pull that looks like a reset; two escorts of
    one upload that truncate the file; a delivered send of a chat in the background that reads as failed; and others next to the definitions they are about.

  Interfaces are locales, interpreted on the model: the ordered map, the row store of the registry, the chat store, the
  base64 codec, and the contracts their clients rely on.

  \<^bold>\<open>Parameters.\<close> Code of other packages and the world outside are arguments: the clock (\<open>now\<close>), conversion of times, line
  diffs of \<open>similar\<close>, the text and size of serialised JSON, serialisation of device frame headers, token hashing, random
  identifiers as a supply indexed by how many were drawn, the codec of a journal line, the environment of an engine, the time
  a wait took, base64, the resolution of links by the file system, SHA-256 and the unpacking of an archive, the lower case of
  Unicode, translations, and what Loro decides about an update (whether it is contained,
  whether it imports). Hypotheses about them are stated where they are used and have a concrete instance in the witness.

  \<^bold>\<open>Bounds.\<close> No fuel is used: every loop of the model is a structural recursion or has a measure. Capacities (64 slots of an
  outbox, 256 of a channel and of the hub, 32 remembered turns, batch and header sizes) are those of the code. Sequence
  numbers and times are unbounded except where a conversion to 64 bits is written out.

  \<^bold>\<open>Not modelled.\<close> The merge of concurrent document updates is Loro's; a document is the maps, lists and texts one replica
  sees. Database errors of the chat log and the registry, disk errors and process handling are left out, as are the painting and
  input of the user interface, the Cursor adapter, the launch of agents, the files of subagents that ACP agents leave, source control, sign-in, terminals, the
  macOS bundle of the updater and the parts in other languages. JSON numbers are integers. Structs that serde would
  also read from an array are read from objects only, except where an array is written.

  \<^bold>\<open>Next.\<close> The engine's RPC handlers, the synchronisation of diffs, the composer of the app.
\<close>

end
